(* ===== verification/Prelude.thy ===== *)
theory Prelude
  imports Main "HOL-Library.Word" "HOL-Library.List_Lexorder"
begin

text \<open>
  What the components share: the names of the model's basic types, the collections the
  component proofs feed to \<^theory_text>\<open>simp\<close> and \<^theory_text>\<open>auto\<close>, the error values, and the generic
  lemmas on lists and maps.

  Bytes are 8-bit words, byte slices and Go strings that are compared bytewise are lists of
  bytes (ordered lexicographically, as \<^verbatim>\<open>bytes.Compare\<close> and Go's \<^verbatim>\<open><\<close> on strings order them);
  strings that are only built, stored and compared for equality are HOL strings.
\<close>

section \<open>Types\<close>

type_synonym byte = "8 word"
type_synonym bytes = "byte list"
type_synonym u64 = "64 word"

text \<open>
  \<^verbatim>\<open>bytes.Compare(a, b)\<close> of the standard library: 0 if equal, -1 if \<open>a\<close> is smaller, +1 otherwise.
\<close>

definition bytes_Compare :: "bytes \<Rightarrow> bytes \<Rightarrow> int" where
  "bytes_Compare a b = (if a = b then 0 else if a < b then -1 else 1)"

lemma bytes_Compare_simps [simp]:
  "bytes_Compare a b = 0 \<longleftrightarrow> a = b"
  "bytes_Compare a b = -1 \<longleftrightarrow> a < b"
  "0 \<le> bytes_Compare a b \<longleftrightarrow> b \<le> a"
  "0 < bytes_Compare a b \<longleftrightarrow> b < a"
  "-1 < bytes_Compare a b \<longleftrightarrow> b \<le> a"
  by (auto simp: bytes_Compare_def not_less_iff_gr_or_eq)

section \<open>Error values\<close>

text \<open>
  The codes of the errors the modelled code builds or tests (a gRPC code per error, see
  \<^verbatim>\<open>server/util/status/status.go\<close>), and an error as its code and message.
\<close>

datatype code =
    Canceled | Unknown | InvalidArgument | DeadlineExceeded | NotFound | AlreadyExists
  | PermissionDenied | ResourceExhausted | FailedPrecondition | Aborted | OutOfRange
  | Unimplemented | Internal | Unavailable | DataLoss | Unauthenticated

datatype error = Err (err_code: code) (err_msg: string)

section \<open>Collections\<close>

named_theorems inv_intro \<open>introduction rules for the components' invariants\<close>
named_theorems abs_simps \<open>what an operation does to the abstract state of a component\<close>

section \<open>Lists\<close>

lemma takeWhile_filter_sorted:
  assumes "sorted_wrt (\<lambda>x y. P y \<longrightarrow> P x) xs"
  shows "takeWhile P xs = filter P xs"
  using assms by (induction xs) (auto simp: filter_empty_conv)

lemma take_drop_Suc_nth:
  "i < length xs \<Longrightarrow> take i xs @ xs ! i # drop (Suc i) xs = xs"
  by (simp add: id_take_nth_drop [symmetric])

lemma set_take_drop_Suc:
  assumes "distinct xs" and "i < length xs"
  shows "set (take i xs @ drop (Suc i) xs) = set xs - {xs ! i}"
proof -
  have xs: "xs = take i xs @ xs ! i # drop (Suc i) xs"
    using assms(2) by (rule id_take_nth_drop)
  have "distinct (take i xs @ xs ! i # drop (Suc i) xs)"
    using assms(1) xs by simp
  moreover have "set xs = insert (xs ! i) (set (take i xs) \<union> set (drop (Suc i) xs))"
    using arg_cong [OF xs, of set] by simp
  ultimately show ?thesis by auto
qed

lemma sum_list_remove_nth:
  fixes f :: "'a \<Rightarrow> 'b::comm_monoid_add"
  assumes "i < length xs"
  shows "sum_list (map f xs) = f (xs ! i) + sum_list (map f (take i xs @ drop (Suc i) xs))"
proof -
  have "map f xs = map f (take i xs) @ f (xs ! i) # map f (drop (Suc i) xs)"
    using arg_cong [OF id_take_nth_drop [OF assms], of "map f"] by simp
  then have "sum_list (map f xs) = sum_list (map f (take i xs)) + (f (xs ! i) + sum_list (map f (drop (Suc i) xs)))"
    by simp
  then show ?thesis by (simp add: ac_simps)
qed

section \<open>Signed 64-bit arithmetic\<close>

text \<open>Go's \<^verbatim>\<open>int64\<close> is a 64-bit word read by \<open>sint\<close>; the sums and differences that stay in range.\<close>

lemma sint_bounds: "- (2 ^ 63) \<le> sint (a :: u64)" "sint (a :: u64) < 2 ^ 63"
  using sint_ge [of a] sint_lt [of a] by simp_all

lemma sint_minus_nonneg: "0 \<le> sint b \<Longrightarrow> sint b \<le> sint a \<Longrightarrow> sint (a - b) = sint a - sint (b :: u64)"
  using sint_bounds [of a] by (simp add: sint_word_ariths signed_take_bit_int_eq_self)

lemma sint_plus_nonneg:
  "0 \<le> sint a \<Longrightarrow> 0 \<le> sint b \<Longrightarrow> sint a + sint b \<le> sint (c :: u64) \<Longrightarrow> sint (a + b) = sint a + sint (b :: u64)"
  using sint_bounds [of c] by (simp add: sint_word_ariths signed_take_bit_int_eq_self)

end
