(* ===== verification/GoStrings.thy ===== *)
theory GoStrings
  imports Prelude
begin

text \<open>
  The parts of Go's \<^verbatim>\<open>strings\<close>, \<^verbatim>\<open>strconv\<close> and \<^verbatim>\<open>path/filepath\<close> packages that the program's names and keys
  are built with. Go strings are byte strings; a HOL \<open>string\<close> is a list of 8-bit characters.
\<close>

section \<open>Splitting and joining\<close>

text \<open>\<^verbatim>\<open>strings.Split(s, sep)\<close> for a separator of one byte, and \<^verbatim>\<open>strings.Join\<close>.\<close>

fun splitOn :: "char \<Rightarrow> string \<Rightarrow> string list" where
  "splitOn c [] = [[]]"
| "splitOn c (x # xs) =
     (if x = c then [] # splitOn c xs
      else case splitOn c xs of [] \<Rightarrow> [[x]] | p # ps \<Rightarrow> (x # p) # ps)"

fun joinWith :: "string \<Rightarrow> string list \<Rightarrow> string" where
  "joinWith sep [] = []"
| "joinWith sep [x] = x"
| "joinWith sep (x # y # ys) = x @ sep @ joinWith sep (y # ys)"

text \<open>\<^verbatim>\<open>strings.SplitN(s, sep, 2)\<close>\<close>

definition splitTwo :: "char \<Rightarrow> string \<Rightarrow> string list" where
  "splitTwo c s = (if c \<in> set s then [takeWhile (\<lambda>x. x \<noteq> c) s, tl (dropWhile (\<lambda>x. x \<noteq> c) s)] else [s])"

lemma splitOn_nonempty [simp]: "splitOn c s \<noteq> []"
  by (induction s) (auto split: list.split)

lemma splitOn_append: "splitOn c (s @ c # t) = splitOn c s @ splitOn c t"
proof (induction s)
  case (Cons x s)
  obtain p ps where "splitOn c s = p # ps" by (meson neq_Nil_conv splitOn_nonempty)
  with Cons show ?case by simp
qed simp

lemma splitOn_plain: "c \<notin> set s \<Longrightarrow> splitOn c s = [s]"
  by (induction s) auto

lemma splitOn_joinWith: "splitOn c (joinWith [c] (x # xs)) = concat (map (splitOn c) (x # xs))"
proof (induction xs arbitrary: x)
  case (Cons y ys)
  then show ?case by (simp add: splitOn_append)
qed simp

lemma splitOn_join:
  assumes "xs \<noteq> []" and "\<forall>x\<in>set xs. c \<notin> set x"
  shows "splitOn c (joinWith [c] xs) = xs"
proof -
  have "concat (map (splitOn c) xs) = xs"
    using assms(2) by (induction xs) (simp_all add: splitOn_plain)
  moreover obtain y ys where "xs = y # ys" using assms(1) by (cases xs) auto
  ultimately show ?thesis using splitOn_joinWith [of c y ys] by simp
qed

lemma joinWith_inj:
  assumes "joinWith [c] xs = joinWith [c] ys" and "xs \<noteq> []" "ys \<noteq> []"
    and "\<forall>x\<in>set xs. c \<notin> set x" and "\<forall>y\<in>set ys. c \<notin> set y"
  shows "xs = ys"
  by (metis splitOn_join [OF assms(2,4)] splitOn_join [OF assms(3,5)] assms(1))

section \<open>Decimal numbers\<close>

definition digit_char :: "nat \<Rightarrow> char" where
  "digit_char d = char_of (48 + d)"

definition is_digit :: "char \<Rightarrow> bool" where
  "is_digit c \<longleftrightarrow> 48 \<le> (of_char c :: nat) \<and> (of_char c :: nat) \<le> 57"

definition digit_val :: "char \<Rightarrow> nat" where
  "digit_val c = of_char c - 48"

fun show_nat :: "nat \<Rightarrow> string" where
  "show_nat n = (if n < 10 then [digit_char n] else show_nat (n div 10) @ [digit_char (n mod 10)])"

declare show_nat.simps [simp del]

text \<open>\<^verbatim>\<open>%d\<close>\<close>

definition show_int :: "int \<Rightarrow> string" where
  "show_int i = (if i < 0 then CHR ''-'' # show_nat (nat (- i)) else show_nat (nat i))"

definition read_digits :: "string \<Rightarrow> nat" where
  "read_digits s = foldl (\<lambda>acc c. 10 * acc + digit_val c) 0 s"

text \<open>\<^verbatim>\<open>strconv.ParseInt(s, 10, 64)\<close>: an optional sign and digits, in range; \<open>None\<close> is any of its errors.\<close>

definition ParseInt :: "string \<Rightarrow> int option" where
  "ParseInt s =
     (if s = [] then None
      else
        let neg = (hd s = CHR ''-'');
            ds = (if hd s = CHR ''-'' \<or> hd s = CHR ''+'' then tl s else s) in
        if ds = [] \<or> \<not> list_all is_digit ds then None
        else
          let un = read_digits ds in
          if neg then (if un > 2 ^ 63 then None else Some (- int un))
          else (if un \<ge> 2 ^ 63 then None else Some (int un)))"

lemma digit_char_val [simp]: "d < 10 \<Longrightarrow> digit_val (digit_char d) = d" "d < 10 \<Longrightarrow> is_digit (digit_char d)"
  by (simp_all add: digit_val_def digit_char_def is_digit_def)

lemma digit_char_neq [simp]: "d < 10 \<Longrightarrow> digit_char d \<noteq> CHR ''-''" "d < 10 \<Longrightarrow> digit_char d \<noteq> CHR ''+''"
proof -
  assume "d < 10"
  then have "is_digit (digit_char d)" by simp
  moreover have "\<not> is_digit CHR ''-''" "\<not> is_digit CHR ''+''" by (simp_all add: is_digit_def)
  ultimately show "digit_char d \<noteq> CHR ''-''" "digit_char d \<noteq> CHR ''+''" by metis+
qed

lemma show_nat_digits: "list_all is_digit (show_nat n) \<and> show_nat n \<noteq> []"
proof (induction n rule: show_nat.induct)
  case (1 n)
  then show ?case by (subst (1 2) show_nat.simps) auto
qed

lemma read_show_nat: "read_digits (show_nat n) = n"
proof (induction n rule: show_nat.induct)
  case (1 n)
  then show ?case by (subst show_nat.simps) (auto simp: read_digits_def)
qed

lemma hd_show_nat: "is_digit (hd (show_nat n))"
  using show_nat_digits [of n] by (cases "show_nat n") auto

lemma ParseInt_show_int:
  assumes "- (2 ^ 63) \<le> i" and "i < 2 ^ 63"
  shows "ParseInt (show_int i) = Some i"
proof -
  have nd: "\<not> is_digit CHR ''-''" "\<not> is_digit CHR ''+''" by (simp_all add: is_digit_def)
  have "hd (show_nat n) \<noteq> CHR ''-''" "hd (show_nat n) \<noteq> CHR ''+''" for n
    using hd_show_nat [of n] nd by metis+
  then show ?thesis
    using assms show_nat_digits by (auto simp: ParseInt_def show_int_def Let_def read_show_nat nat_le_iff)
qed

section \<open>Paths\<close>

text \<open>
  \<^verbatim>\<open>filepath.Clean\<close> on Unix: empty and \<^verbatim>\<open>.\<close> elements are dropped, \<^verbatim>\<open>..\<close> removes the element before it,
  and is dropped at the root. \<open>st\<close> holds the elements kept, last first.
\<close>

fun clean_elems :: "bool \<Rightarrow> string list \<Rightarrow> string list \<Rightarrow> string list" where
  "clean_elems rooted st [] = rev st"
| "clean_elems rooted st (e # es) =
     (if e = '''' \<or> e = ''.'' then clean_elems rooted st es
      else if e = ''..'' then
        (case st of
           [] \<Rightarrow> clean_elems rooted (if rooted then [] else [''..'']) es
         | t # st' \<Rightarrow> if t = ''..'' then clean_elems rooted (e # st) es else clean_elems rooted st' es)
      else clean_elems rooted (e # st) es)"

definition filepath_Clean :: "string \<Rightarrow> string" where
  "filepath_Clean s =
     (let rooted = (s \<noteq> [] \<and> hd s = CHR ''/'');
          p = joinWith ''/'' (clean_elems rooted [] (splitOn CHR ''/'' s)) in
      if rooted then CHR ''/'' # p else if p = [] then ''.'' else p)"

text \<open>\<^verbatim>\<open>filepath.Join\<close> skips leading empty elements; \<^verbatim>\<open>filepath.SplitList\<close> splits at colons.\<close>

definition filepath_Join :: "string list \<Rightarrow> string" where
  "filepath_Join elem =
     (case dropWhile (\<lambda>e. e = []) elem of
        [] \<Rightarrow> []
      | es \<Rightarrow> filepath_Clean (joinWith ''/'' es))"

definition filepath_SplitList :: "string \<Rightarrow> string list" where
  "filepath_SplitList s = (if s = [] then [] else splitOn CHR '':'' s)"

text \<open>A plain element survives cleaning.\<close>

definition plain :: "string \<Rightarrow> bool" where
  "plain e \<longleftrightarrow> e \<noteq> '''' \<and> e \<noteq> ''.'' \<and> e \<noteq> ''..'' \<and> CHR ''/'' \<notin> set e"

lemma clean_plain: "plain e \<Longrightarrow> clean_elems r st (e # es) = clean_elems r (e # st) es"
  by (simp add: plain_def)

lemma clean_empty: "clean_elems r st ([] # es) = clean_elems r st es"
  by simp

lemma filepath_Join_relative:
  assumes "plain (takeWhile (\<lambda>c. c \<noteq> CHR ''/'') e)"
  shows "filepath_Join (e # es) =
    (let p = joinWith ''/'' (clean_elems False [] (concat (map (splitOn CHR ''/'') (e # es)))) in if p = [] then ''.'' else p)"
proof -
  obtain x xs where e: "e = x # xs" "x \<noteq> CHR ''/''"
    using assms by (cases e) (auto simp: plain_def split: if_splits)
  have "hd (joinWith ''/'' (e # es)) \<noteq> CHR ''/'' \<and> joinWith ''/'' (e # es) \<noteq> []"
    using e by (cases es) auto
  then show ?thesis
    using e splitOn_joinWith [of "CHR ''/''" e es] by (simp add: filepath_Join_def filepath_Clean_def)
qed

end
