(* ===== verification/GoUtf8.thy ===== *)
theory GoUtf8
  imports GoStrings
begin

text \<open>
  Go's \<^verbatim>\<open>unicode/utf8\<close> and what the \<^verbatim>\<open>strings\<close>, \<^verbatim>\<open>strconv\<close> and \<^verbatim>\<open>encoding/base64\<close> packages do with the bytes of a
  string. A rune is the number of a code point; a Go string or byte slice is a HOL \<open>string\<close>, whose
  characters are its bytes.
\<close>

section \<open>Runes\<close>

type_synonym rune = nat

definition RuneError :: rune where
  "RuneError = 0xFFFD"

text \<open>\<^verbatim>\<open>utf8.ValidRune\<close>: a code point that is not a surrogate half.\<close>

definition ValidRune :: "rune \<Rightarrow> bool" where
  "ValidRune r \<longleftrightarrow> r < 0xD800 \<or> (0xE000 \<le> r \<and> r \<le> 0x10FFFF)"

text \<open>\<^verbatim>\<open>utf8.AppendRune\<close> and \<^verbatim>\<open>WriteRune\<close>: the encoding of a rune, that of \<^verbatim>\<open>RuneError\<close> for an invalid one.\<close>

definition EncodeRune :: "rune \<Rightarrow> string" where
  "EncodeRune r0 =
     (let r = (if ValidRune r0 then r0 else RuneError) in
      if r < 0x80 then [char_of r]
      else if r < 0x800 then [char_of (0xC0 + r div 64), char_of (0x80 + r mod 64)]
      else if r < 0x10000 then
        [char_of (0xE0 + r div 4096), char_of (0x80 + r div 64 mod 64), char_of (0x80 + r mod 64)]
      else [char_of (0xF0 + r div 262144), char_of (0x80 + r div 4096 mod 64),
            char_of (0x80 + r div 64 mod 64), char_of (0x80 + r mod 64)])"

text \<open>
  \<^verbatim>\<open>utf8.DecodeRune\<close>: the first rune of a string and its width, (\<^verbatim>\<open>RuneError\<close>, 1) where the bytes are
  no encoding of a rune (an overlong one, a surrogate half, a stray or missing continuation byte)
  and (\<^verbatim>\<open>RuneError\<close>, 0) on the empty string.
\<close>

definition cont :: "nat \<Rightarrow> bool" where
  "cont b \<longleftrightarrow> 0x80 \<le> b \<and> b \<le> 0xBF"

definition decode2 :: "nat \<Rightarrow> nat list \<Rightarrow> rune \<times> nat" where
  "decode2 a bs = (case bs of
      b # _ \<Rightarrow> if cont b then ((a mod 32) * 64 + b mod 64, 2) else (RuneError, 1)
    | _ \<Rightarrow> (RuneError, 1))"

definition decode3 :: "nat \<Rightarrow> nat \<Rightarrow> nat \<Rightarrow> nat list \<Rightarrow> rune \<times> nat" where
  "decode3 lo hi a bs = (case bs of
      b # c # _ \<Rightarrow>
        if lo \<le> b \<and> b \<le> hi \<and> cont c then ((a mod 16) * 4096 + (b mod 64) * 64 + c mod 64, 3)
        else (RuneError, 1)
    | _ \<Rightarrow> (RuneError, 1))"

definition decode4 :: "nat \<Rightarrow> nat \<Rightarrow> nat \<Rightarrow> nat list \<Rightarrow> rune \<times> nat" where
  "decode4 lo hi a bs = (case bs of
      b # c # d # _ \<Rightarrow>
        if lo \<le> b \<and> b \<le> hi \<and> cont c \<and> cont d
        then ((a mod 8) * 262144 + (b mod 64) * 4096 + (c mod 64) * 64 + d mod 64, 4)
        else (RuneError, 1)
    | _ \<Rightarrow> (RuneError, 1))"

fun decode_bytes :: "nat list \<Rightarrow> rune \<times> nat" where
  "decode_bytes [] = (RuneError, 0)"
| "decode_bytes (a # bs) =
     (if a < 0x80 then (a, 1)
      else if a < 0xC2 then (RuneError, 1)
      else if a < 0xE0 then decode2 a bs
      else if a = 0xE0 then decode3 0xA0 0xBF a bs
      else if a = 0xED then decode3 0x80 0x9F a bs
      else if a < 0xF0 then decode3 0x80 0xBF a bs
      else if a = 0xF0 then decode4 0x90 0xBF a bs
      else if a < 0xF4 then decode4 0x80 0xBF a bs
      else if a = 0xF4 then decode4 0x80 0x8F a bs
      else (RuneError, 1))"

definition DecodeRune :: "string \<Rightarrow> rune \<times> nat" where
  "DecodeRune s = decode_bytes (map of_char (take 4 s))"

lemma decode_bytes_width: "bs \<noteq> [] \<Longrightarrow> 0 < snd (decode_bytes bs) \<and> snd (decode_bytes bs) \<le> length bs"
  by (cases bs) (auto simp: decode2_def decode3_def decode4_def split: list.split)

lemma DecodeRune_width: "s \<noteq> [] \<Longrightarrow> 0 < snd (DecodeRune s)" "snd (DecodeRune s) \<le> length s"
proof -
  show "s \<noteq> [] \<Longrightarrow> 0 < snd (DecodeRune s)"
    using decode_bytes_width [of "map of_char (take 4 s)"] by (simp add: DecodeRune_def)
  show "snd (DecodeRune s) \<le> length s"
    using decode_bytes_width [of "map of_char (take 4 s)"] by (cases "s = []") (auto simp: DecodeRune_def)
qed

lemma div64_split: "(r :: nat) = 4096 * (r div 4096) + 64 * (r div 64 mod 64) + r mod 64"
proof -
  have "r div 64 div 64 = r div 4096" by (simp add: div_mult2_eq [symmetric])
  then show ?thesis using div_mult_mod_eq [of r 64] div_mult_mod_eq [of "r div 64" 64] by linarith
qed

lemma div4096_split:
  "(r :: nat) = 262144 * (r div 262144) + 4096 * (r div 4096 mod 64) + 64 * (r div 64 mod 64) + r mod 64"
proof -
  have "r div 4096 div 64 = r div 262144" by (simp add: div_mult2_eq [symmetric])
  then show ?thesis using div64_split [of r] div_mult_mod_eq [of "r div 4096" 64] by linarith
qed

lemma mod_add_const:
  "q < 64 \<Longrightarrow> (128 + q) mod 64 = (q :: nat)" "q < 16 \<Longrightarrow> (224 + q) mod 16 = q"
  "q < 8 \<Longrightarrow> (240 + q) mod 8 = q" "q < 32 \<Longrightarrow> (192 + q) mod 32 = q"
  by (simp_all add: mod_nat_eqI)

text \<open>Decoding what was encoded.\<close>

lemma DecodeRune_EncodeRune:
  assumes "ValidRune r"
  shows "DecodeRune (EncodeRune r @ s) = (r, length (EncodeRune r))"
proof -
  have r: "r < 0x110000" using assms by (auto simp: ValidRune_def)
  consider "r < 0x80" | "0x80 \<le> r" "r < 0x800" | "0x800 \<le> r" "r < 0x10000" | "0x10000 \<le> r" by linarith
  then show ?thesis
  proof cases
    case 1
    then show ?thesis using assms by (simp add: EncodeRune_def DecodeRune_def Let_def)
  next
    case 2
    define q1 q0 where "q1 = r div 64" and "q0 = r mod 64"
    have r2: "r = 64 * q1 + q0" "q0 < 64" by (simp_all add: q1_def q0_def)
    have q: "2 \<le> q1" "q1 < 32" using 2 r2 by linarith+
    have e: "map (of_char :: char \<Rightarrow> nat) (take 4 (EncodeRune r @ s)) = (192 + q1) # (128 + q0) # map of_char (take 2 s)"
      and l: "length (EncodeRune r) = 2"
      using assms 2 q r2(2) by (simp_all add: EncodeRune_def Let_def q1_def [symmetric] q0_def [symmetric])
    show ?thesis
      unfolding DecodeRune_def e l using q r2 by (simp add: decode2_def cont_def mod_add_const)
  next
    case 3
    define q2 q1 q0 where "q2 = r div 4096" and "q1 = r div 64 mod 64" and "q0 = r mod 64"
    have r3: "r = 4096 * q2 + 64 * q1 + q0"
      unfolding q2_def q1_def q0_def by (metis div64_split)
    have lt: "q1 < 64" "q0 < 64" by (simp_all add: q1_def q0_def)
    have q: "q2 < 16" using 3 r3 by linarith
    have lo: "32 \<le> q1" if "q2 = 0" using that 3 r3 lt by linarith
    have hi: "q1 < 32" if "q2 = 13" using that assms r3 lt by (auto simp: ValidRune_def)
    have e: "map (of_char :: char \<Rightarrow> nat) (take 4 (EncodeRune r @ s)) =
        (224 + q2) # (128 + q1) # (128 + q0) # map of_char (take 1 s)"
      and l: "length (EncodeRune r) = 3"
      using assms 3 q lt
      by (simp_all add: EncodeRune_def Let_def q2_def [symmetric] q1_def [symmetric] q0_def [symmetric])
    show ?thesis
      unfolding DecodeRune_def e l using q lt lo hi r3 by (cases "q2 = 0"; cases "q2 = 13") (simp_all add: decode3_def cont_def mod_add_const)
  next
    case 4
    define q3 q2 q1 q0 where "q3 = r div 262144" and "q2 = r div 4096 mod 64"
      and "q1 = r div 64 mod 64" and "q0 = r mod 64"
    have r4: "r = 262144 * q3 + 4096 * q2 + 64 * q1 + q0"
      unfolding q3_def q2_def q1_def q0_def by (metis div4096_split)
    have lt: "q2 < 64" "q1 < 64" "q0 < 64" by (simp_all add: q2_def q1_def q0_def)
    have q: "q3 \<le> 4" using r r4 by linarith
    have lo: "16 \<le> q2" if "q3 = 0" using that 4 r4 lt by linarith
    have hi: "q2 < 16" if "q3 = 4" using that r r4 lt by linarith
    have e: "map (of_char :: char \<Rightarrow> nat) (take 4 (EncodeRune r @ s)) =
        [240 + q3, 128 + q2, 128 + q1, 128 + q0]"
      and l: "length (EncodeRune r) = 4"
      using assms 4 q lt
      by (simp_all add: EncodeRune_def Let_def q3_def [symmetric] q2_def [symmetric] q1_def [symmetric] q0_def [symmetric])
    show ?thesis
      unfolding DecodeRune_def e l using q lt lo hi r4 by (cases "q3 = 0"; cases "q3 = 4") (simp_all add: decode4_def cont_def mod_add_const)
  qed
qed

text \<open>A decoded ASCII rune is the first byte; the bytes of any other rune are none of ASCII.\<close>

lemma decode_bytes_other:
  assumes "0x80 \<le> a" and "decode_bytes (a # bs) = (c, k)"
  shows "0x80 \<le> c \<and> (\<forall>b\<in>set (take k (a # bs)). 0x80 \<le> b)"
proof -
  have two: "0x80 \<le> a mod 32 * 64 + b mod 64" if "a < 0xE0" "0xC2 \<le> a" for b
  proof -
    have "a mod 32 = a - 192" using that by (intro mod_nat_eqI) auto
    then show ?thesis using that by simp
  qed
  have m16: "1 \<le> a mod 16" if "0xE0 < a" "a < 0xF0"
  proof -
    have "a mod 16 = a - 224" using that by (intro mod_nat_eqI) auto
    then show ?thesis using that by simp
  qed
  have m8: "1 \<le> a mod 8" if "0xF0 < a" "a \<le> 0xF4"
  proof -
    have "a mod 8 = a - 240" using that by (intro mod_nat_eqI) auto
    then show ?thesis using that by simp
  qed
  have b64: "128 \<le> b mod 64 * 64 + d \<and> 128 \<le> b mod 64 * 4096 + d + e" if "144 \<le> b" "b \<le> 191" for b d e :: nat
  proof -
    have "b mod 64 = b - 128" using that by (intro mod_nat_eqI) auto
    then have "16 \<le> b mod 64" using that by simp
    then show ?thesis by linarith
  qed
  consider "a < 0xC2 \<or> 0xF4 < a" | "0xC2 \<le> a" "a < 0xE0" | "a = 0xE0" | "0xE0 < a" "a < 0xF0"
    | "a = 0xF0" | "0xF0 < a" "a \<le> 0xF4" by linarith
  then show ?thesis
  proof cases
    case 1
    then show ?thesis using assms by (auto simp: RuneError_def)
  next
    case 2
    then show ?thesis
      using assms two by (auto simp: RuneError_def decode2_def cont_def numeral_2_eq_2 split: list.splits if_splits)
  next
    case 3
    then show ?thesis
      using assms b64 by (auto simp: RuneError_def decode3_def cont_def numeral_3_eq_3 split: list.splits if_splits)
  next
    case 4
    then show ?thesis
      using assms m16 by (auto simp: RuneError_def decode3_def cont_def numeral_3_eq_3 split: list.splits if_splits)
  next
    case 5
    then show ?thesis
      using assms b64 by (auto simp: RuneError_def decode4_def cont_def split: list.splits if_splits)
  next
    case 6
    then show ?thesis
      using assms m8 by (auto simp: RuneError_def decode4_def cont_def split: list.splits if_splits)
  qed
qed

lemma DecodeRune_ascii:
  assumes "s \<noteq> []" and "DecodeRune s = (c, k)" and "c < 0x80"
  shows "of_char (hd s) = c" and "k = 1"
proof -
  obtain a as' where s: "s = a # as'" using assms(1) by (cases s) auto
  have "of_char a < (0x80 :: nat)"
    using decode_bytes_other [of "of_char a" "map of_char (take 3 as')" c k] assms(2,3)
    by (fastforce simp: DecodeRune_def s numeral_eq_Suc)
  then show "of_char (hd s) = c" "k = 1" using assms(2) by (simp_all add: DecodeRune_def s)
qed

lemma DecodeRune_other:
  assumes "s \<noteq> []" and "DecodeRune s = (c, k)" and "0x80 \<le> c" and "b \<in> set (take k s)"
  shows "0x80 \<le> (of_char b :: nat)"
proof -
  obtain a as' where s: "s = a # as'" using assms(1) by (cases s) auto
  have "0x80 \<le> (of_char a :: nat)"
    using assms(2,3) by (rule_tac ccontr) (simp add: DecodeRune_def s)
  moreover have "decode_bytes (of_char a # map of_char (take 3 as')) = (c, k)"
    using assms(2) by (simp add: DecodeRune_def s numeral_eq_Suc)
  moreover have "k \<le> 4"
    using decode_bytes_width [of "map of_char (take 4 s)"] assms(1,2) by (simp add: DecodeRune_def)
  then have "of_char b \<in> set (take k (of_char a # map of_char (take 3 as')))"
    using assms(4) by (cases k) (auto simp: s take_map)
  ultimately show ?thesis using decode_bytes_other by blast
qed

text \<open>\<^verbatim>\<open>for _, r := range s\<close> and \<^verbatim>\<open>[]rune(s)\<close>: the runes of a string; \<^verbatim>\<open>string(rs)\<close>: their encodings.\<close>

function runes_of :: "string \<Rightarrow> rune list" where
  "runes_of s = (if s = [] then [] else fst (DecodeRune s) # runes_of (drop (snd (DecodeRune s)) s))"
  by pat_completeness auto
termination
  by (relation "measure length") (auto simp: DecodeRune_width)

declare runes_of.simps [simp del]

definition string_of_runes :: "rune list \<Rightarrow> string" where
  "string_of_runes rs = concat (map EncodeRune rs)"

lemma string_of_runes_simps [simp]:
  "string_of_runes [] = []"
  "string_of_runes (r # rs) = EncodeRune r @ string_of_runes rs"
  "string_of_runes (rs @ qs) = string_of_runes rs @ string_of_runes qs"
  by (simp_all add: string_of_runes_def)

lemma EncodeRune_nonempty [simp]: "EncodeRune r \<noteq> []"
  by (simp add: EncodeRune_def Let_def)

lemma runes_of_string_of_runes:
  "list_all ValidRune rs \<Longrightarrow> runes_of (string_of_runes rs) = rs"
proof (induction rs)
  case Nil
  show ?case by (simp add: runes_of.simps)
next
  case (Cons r rs)
  then show ?case by (subst runes_of.simps) (simp add: DecodeRune_EncodeRune)
qed

section \<open>The strings package\<close>

definition HasPrefix :: "string \<Rightarrow> string \<Rightarrow> bool" where
  "HasPrefix s p \<longleftrightarrow> take (length p) s = p"

definition HasSuffix :: "string \<Rightarrow> string \<Rightarrow> bool" where
  "HasSuffix s p \<longleftrightarrow> length p \<le> length s \<and> drop (length s - length p) s = p"

text \<open>\<^verbatim>\<open>strings.LastIndex(s, c)\<close> for a string of one byte; \<open>None\<close> is -1.\<close>

definition LastIndex :: "string \<Rightarrow> char \<Rightarrow> nat option" where
  "LastIndex s c = (if c \<in> set s then Some (length s - 1 - length (takeWhile (\<lambda>x. x \<noteq> c) (rev s))) else None)"

text \<open>\<^verbatim>\<open>strings.Map\<close> with a function that keeps the runes in \<open>keep\<close> and drops the others.\<close>

definition Map_keep :: "(rune \<Rightarrow> bool) \<Rightarrow> string \<Rightarrow> string" where
  "Map_keep keep s = string_of_runes (filter keep (runes_of s))"

text \<open>\<^verbatim>\<open>strings.TrimRight(s, cutset)\<close> for an ASCII cutset.\<close>

definition TrimRight :: "string \<Rightarrow> char list \<Rightarrow> string" where
  "TrimRight s cutset = rev (dropWhile (\<lambda>c. c \<in> set cutset) (rev s))"

text \<open>\<^verbatim>\<open>strings.ReplaceAll(s, c, new)\<close> for a string \<open>c\<close> of one byte.\<close>

definition ReplaceAll :: "char \<Rightarrow> string \<Rightarrow> string \<Rightarrow> string" where
  "ReplaceAll c new s = concat (map (\<lambda>x. if x = c then new else [x]) s)"

text \<open>
  The tables of the Unicode character database that Go's library is generated with, on the code
  points outside ASCII: \<^verbatim>\<open>unicode.IsPrint\<close> and \<^verbatim>\<open>unicode.ToLower\<close>. On ASCII they are written out.
\<close>

record unicode =
  printable :: "rune \<Rightarrow> bool"
  lower :: "rune \<Rightarrow> rune"

definition IsPrint :: "unicode \<Rightarrow> rune \<Rightarrow> bool" where
  "IsPrint u r = (if r < 0x80 then 0x20 \<le> r \<and> r < 0x7F else printable u r)"

definition ToLower_rune :: "unicode \<Rightarrow> rune \<Rightarrow> rune" where
  "ToLower_rune u r = (if r < 0x80 then if 65 \<le> r \<and> r \<le> 90 then r + 32 else r else lower u r)"

definition ToLower :: "unicode \<Rightarrow> string \<Rightarrow> string" where
  "ToLower u s = string_of_runes (map (ToLower_rune u) (runes_of s))"

section \<open>Numbers of eight bits\<close>

text \<open>
  \<^verbatim>\<open>strconv.ParseUint(s, 10, 8)\<close>: the digits are read one by one, and the first one that takes the value
  past 255 ends the parse with the range error and the value 255, whatever follows it; a byte that
  is no digit is a syntax error, whose value is 0.
\<close>

datatype num_error = ErrSyntax | ErrRange

fun ParseUint8_loop :: "nat \<Rightarrow> string \<Rightarrow> nat \<times> num_error option" where
  "ParseUint8_loop n [] = (n, None)"
| "ParseUint8_loop n (c # cs) =
     (if \<not> is_digit c then (0, Some ErrSyntax)
      else if 10 * n + digit_val c > 255 then (255, Some ErrRange)
      else ParseUint8_loop (10 * n + digit_val c) cs)"

definition ParseUint8 :: "string \<Rightarrow> nat \<times> num_error option" where
  "ParseUint8 s = (if s = [] then (0, Some ErrSyntax) else ParseUint8_loop 0 s)"

text \<open>\<^verbatim>\<open>strconv.ParseInt(s, 10, 8)\<close>: a value out of range is cut to the nearest end of the range.\<close>

definition ParseInt8 :: "string \<Rightarrow> int \<times> num_error option" where
  "ParseInt8 s =
     (if s = [] then (0, Some ErrSyntax)
      else
        let neg = (hd s = CHR ''-'');
            ds = (if hd s = CHR ''-'' \<or> hd s = CHR ''+'' then tl s else s);
            (un, err) = ParseUint8 ds in
        if err = Some ErrSyntax then (0, err)
        else if neg then (if un > 128 then (- 128, Some ErrRange) else (- int un, err))
        else (if un \<ge> 128 then (127, Some ErrRange) else (int un, err)))"

lemma ParseUint8_loop_le: "n \<le> 255 \<Longrightarrow> fst (ParseUint8_loop n s) \<le> 255"
  by (induction n s rule: ParseUint8_loop.induct) auto

lemma ParseInt8_bounds: "- 128 \<le> fst (ParseInt8 s)" "fst (ParseInt8 s) \<le> 127"
  using ParseUint8_loop_le [of 0]
  by (auto simp: ParseInt8_def Let_def not_less split: prod.split)

section \<open>Base64\<close>

text \<open>
  \<^verbatim>\<open>base64.StdEncoding.DecodeString\<close>: carriage returns and newlines are skipped, the rest is groups of four
  digits, the last of which may be padded; \<open>None\<close> is its error.
\<close>

definition b64_val :: "char \<Rightarrow> nat option" where
  "b64_val ch =
     (let c = (of_char ch :: nat) in
      if 65 \<le> c \<and> c \<le> 90 then Some (c - 65)
      else if 97 \<le> c \<and> c \<le> 122 then Some (c - 97 + 26)
      else if 48 \<le> c \<and> c \<le> 57 then Some (c - 48 + 52)
      else if c = 43 then Some 62 else if c = 47 then Some 63 else None)"

fun b64_groups :: "string \<Rightarrow> string option" where
  "b64_groups [] = Some []"
| "b64_groups (a # b # c # d # s) =
     (case (b64_val a, b64_val b) of
        (Some x, Some y) \<Rightarrow>
          (if c = CHR ''='' then
             (if d = CHR ''='' \<and> s = [] then Some [char_of (x * 4 + y div 16)] else None)
           else case b64_val c of None \<Rightarrow> None
           | Some z \<Rightarrow>
               (if d = CHR ''='' then
                  (if s = [] then Some [char_of (x * 4 + y div 16), char_of (y mod 16 * 16 + z div 4)] else None)
                else case (b64_val d, b64_groups s) of
                  (Some w, Some t) \<Rightarrow>
                    Some (char_of (x * 4 + y div 16) # char_of (y mod 16 * 16 + z div 4)
                          # char_of (z mod 4 * 64 + w) # t)
                | _ \<Rightarrow> None))
      | _ \<Rightarrow> None)"
| "b64_groups _ = None"

definition b64_DecodeString :: "string \<Rightarrow> string option" where
  "b64_DecodeString s = b64_groups (filter (\<lambda>c. c \<noteq> CHR 0x0A \<and> c \<noteq> CHR 0x0D) s)"

section \<open>Quoting\<close>

text \<open>\<^verbatim>\<open>strconv.Quote\<close>, which is the verb \<^verbatim>\<open>%q\<close> on strings.\<close>

definition hex_digit :: "nat \<Rightarrow> char" where
  "hex_digit d = (if d < 10 then char_of (48 + d) else char_of (87 + d))"

fun hex_of :: "nat \<Rightarrow> nat \<Rightarrow> string" where
  "hex_of 0 n = []"
| "hex_of (Suc w) n = hex_of w (n div 16) @ [hex_digit (n mod 16)]"

definition escape_of :: "rune \<Rightarrow> char option" where
  "escape_of r =
     (if r = 7 then Some CHR ''a'' else if r = 8 then Some CHR ''b'' else if r = 12 then Some CHR ''f''
      else if r = 10 then Some CHR ''n'' else if r = 13 then Some CHR ''r''
      else if r = 9 then Some CHR ''t'' else if r = 11 then Some CHR ''v'' else None)"

definition quote_rune :: "unicode \<Rightarrow> rune \<Rightarrow> string" where
  "quote_rune u r =
     (if r = 34 \<or> r = 92 then [CHR 0x5C, char_of r]
      else if IsPrint u r then EncodeRune r
      else case escape_of r of
        Some c \<Rightarrow> [CHR 0x5C, c]
      | None \<Rightarrow>
          (if r < 32 \<or> r = 127 then [CHR 0x5C, CHR ''x''] @ hex_of 2 r
           else if r < 0x10000 then [CHR 0x5C, CHR ''u''] @ hex_of 4 r
           else [CHR 0x5C, CHR ''U''] @ hex_of 8 r))"

function quote_loop :: "unicode \<Rightarrow> string \<Rightarrow> string" where
  "quote_loop u s =
     (if s = [] then []
      else let (r, n) = DecodeRune s in
        (if n = 1 \<and> r = RuneError then [CHR 0x5C, CHR ''x''] @ hex_of 2 (of_char (hd s)) else quote_rune u r)
        @ quote_loop u (drop n s))"
  by pat_completeness auto
termination
proof (relation "measure (length \<circ> snd)")
  fix u s x r n
  assume "s \<noteq> []" "x = DecodeRune s" "(r, n) = x"
  then have "s \<noteq> []" and "n = snd (DecodeRune s)" by (auto dest: sym)
  then show "((u, drop n s), u, s) \<in> measure (length \<circ> snd)" by (simp add: DecodeRune_width)
qed simp

declare quote_loop.simps [simp del]

definition Quote :: "unicode \<Rightarrow> string \<Rightarrow> string" where
  "Quote u s = [CHR 0x22] @ quote_loop u s @ [CHR 0x22]"

end
