(* ===== verification/TermStyle.thy ===== *)
theory TermStyle
  imports GoUtf8
begin

text \<open>
  \<^verbatim>\<open>server/terminal/style.go\<close>: the style of a character of the terminal screen, the colour codes that
  change it and the codes it is written with.

  A style is immutable in the code (\<^verbatim>\<open>color\<close> works on a copy, and its \<^verbatim>\<open>append\<close> never meets a backing
  array another style has grown into: a style is coloured once, when it is the screen's, and then
  replaced), so a pointer to a style is modelled by its value.
\<close>

section \<open>Styles\<close>

record styleMeta =
  fgColor :: "8 word"
  bgColor :: "8 word"
  fgColorX :: bool
  bgColorX :: bool
  bold :: bool
  faint :: bool
  italic :: bool
  underline :: bool
  strike :: bool
  blink :: bool

record style =
  colors :: "string list"
  meta :: styleMeta

definition zeroMeta :: styleMeta where
  "zeroMeta = \<lparr> fgColor = 0, bgColor = 0, fgColorX = False, bgColorX = False, bold = False, faint = False,
     italic = False, underline = False, strike = False, blink = False \<rparr>"

definition emptyStyle :: style where
  "emptyStyle = \<lparr> colors = [], meta = zeroMeta \<rparr>"

definition style_isEqual :: "style \<Rightarrow> style \<Rightarrow> bool" where
  "style_isEqual s t \<longleftrightarrow> meta s = meta t"

definition style_isEmpty :: "style \<Rightarrow> bool" where
  "style_isEmpty s \<longleftrightarrow> meta s = zeroMeta"

definition asANSICodes :: "style \<Rightarrow> string list" where
  "asANSICodes s = map (\<lambda>color. [CHR 0x1B, CHR ''[''] @ color @ ''m'') (colors s)"

definition asClasses :: "style \<Rightarrow> string list" where
  "asClasses s =
     (let m = meta s; fg = unat (fgColor m); bg = unat (bgColor m) in
      (if fg > 0 \<and> fg < 38 \<and> \<not> fgColorX m then [''term-fg'' @ show_nat fg] else [])
      @ (if fg > 38 \<and> \<not> fgColorX m then [''term-fgi'' @ show_nat fg] else [])
      @ (if fgColorX m then [''term-fgx'' @ show_nat fg] else [])
      @ (if bg > 0 \<and> bg < 48 \<and> \<not> bgColorX m then [''term-bg'' @ show_nat bg] else [])
      @ (if bg > 48 \<and> \<not> bgColorX m then [''term-bgi'' @ show_nat bg] else [])
      @ (if bgColorX m then [''term-bgx'' @ show_nat bg] else [])
      @ (if bold m then [''term-fg1''] else [])
      @ (if faint m then [''term-fg2''] else [])
      @ (if italic m then [''term-fg3''] else [])
      @ (if underline m then [''term-fg4''] else [])
      @ (if blink m then [''term-fg5''] else [])
      @ (if strike m then [''term-fg9''] else []))"

section \<open>Colour codes\<close>

datatype color_mode =
  COLOR_NORMAL | COLOR_GOT_38_NEED_5 | COLOR_GOT_48_NEED_5 | COLOR_GOT_38 | COLOR_GOT_48

text \<open>The last switch of \<^verbatim>\<open>color\<close>: one code outside an XTerm colour.\<close>

definition color_basic :: "nat \<Rightarrow> style \<Rightarrow> style \<times> color_mode" where
  "color_basic cc s =
     (if cc = 0 then (emptyStyle, COLOR_NORMAL)
      else if cc = 38 then (s, COLOR_GOT_38_NEED_5)
      else if cc = 48 then (s, COLOR_GOT_48_NEED_5)
      else
       (s\<lparr> meta :=
          (let m = meta s in
           if cc = 1 then m\<lparr> bold := True, faint := False \<rparr>
           else if cc = 2 then m\<lparr> faint := True, bold := False \<rparr>
           else if cc = 3 then m\<lparr> italic := True \<rparr>
           else if cc = 4 then m\<lparr> underline := True \<rparr>
           else if cc = 5 \<or> cc = 6 then m\<lparr> blink := True \<rparr>
           else if cc = 9 then m\<lparr> strike := True \<rparr>
           else if cc = 21 \<or> cc = 22 then m\<lparr> bold := False, faint := False \<rparr>
           else if cc = 23 then m\<lparr> italic := False \<rparr>
           else if cc = 24 then m\<lparr> underline := False \<rparr>
           else if cc = 25 then m\<lparr> blink := False \<rparr>
           else if cc = 29 then m\<lparr> strike := False \<rparr>
           else if cc = 39 then m\<lparr> fgColor := 0, fgColorX := False \<rparr>
           else if cc = 49 then m\<lparr> bgColor := 0, bgColorX := False \<rparr>
           else if 30 \<le> cc \<and> cc \<le> 37 \<or> 90 \<le> cc \<and> cc \<le> 97 then m\<lparr> fgColor := of_nat cc, fgColorX := False \<rparr>
           else if 40 \<le> cc \<and> cc \<le> 47 \<or> 100 \<le> cc \<and> cc \<le> 107 then m\<lparr> bgColor := of_nat cc, bgColorX := False \<rparr>
           else m) \<rparr>, COLOR_NORMAL))"

text \<open>The loop over the codes, with the state of the XTerm colour machine.\<close>

fun color_loop :: "color_mode \<Rightarrow> style \<Rightarrow> string list \<Rightarrow> style" where
  "color_loop mode s [] = s"
| "color_loop mode s (ccs # rest) =
     (case ParseUint8 ccs of
        (cc, Some _) \<Rightarrow> color_loop mode s rest
      | (cc, None) \<Rightarrow>
          (case mode of
             COLOR_GOT_38_NEED_5 \<Rightarrow> color_loop (if cc = 5 then COLOR_GOT_38 else COLOR_NORMAL) s rest
           | COLOR_GOT_48_NEED_5 \<Rightarrow> color_loop (if cc = 5 then COLOR_GOT_48 else COLOR_NORMAL) s rest
           | COLOR_GOT_38 \<Rightarrow>
               color_loop COLOR_NORMAL (s\<lparr> meta := (meta s)\<lparr> fgColor := of_nat cc, fgColorX := True \<rparr> \<rparr>) rest
           | COLOR_GOT_48 \<Rightarrow>
               color_loop COLOR_NORMAL (s\<lparr> meta := (meta s)\<lparr> bgColor := of_nat cc, bgColorX := True \<rparr> \<rparr>) rest
           | COLOR_NORMAL \<Rightarrow>
               (let (s', mode') = color_basic cc s in color_loop mode' s' rest)))"

definition style_color :: "style \<Rightarrow> string list \<Rightarrow> style" where
  "style_color s cs =
     (if length cs = 1 \<and> (cs ! 0 = ''0'' \<or> cs ! 0 = '''') then emptyStyle
      else color_loop COLOR_NORMAL (s\<lparr> colors := colors s @ cs \<rparr>) cs)"

section \<open>What a style is written as\<close>

text \<open>
  The codes a style was given one after the other, as a terminal that reads \<^verbatim>\<open>asANSICodes\<close> reads them:
  each in an escape sequence of its own.
\<close>

definition replay :: "string list \<Rightarrow> style" where
  "replay cs = foldl (\<lambda>s c. style_color s [c]) emptyStyle cs"

text \<open>A code that neither resets the style nor starts an XTerm colour.\<close>

definition plain_code :: "string \<Rightarrow> bool" where
  "plain_code c \<longleftrightarrow> c \<noteq> '''' \<and> (\<forall>n. ParseUint8 c = (n, None) \<longrightarrow> n \<noteq> 0 \<and> n \<noteq> 38 \<and> n \<noteq> 48)"

lemma plain_code_iff:
  "plain_code c \<longleftrightarrow> c \<noteq> '''' \<and> (snd (ParseUint8 c) = None \<longrightarrow> fst (ParseUint8 c) \<notin> {0, 38, 48})"
  by (cases "ParseUint8 c") (auto simp: plain_code_def)

text \<open>The effect of a code on the meta data alone, which does not read the codes of the style.\<close>

definition code_meta :: "string \<Rightarrow> styleMeta \<Rightarrow> styleMeta" where
  "code_meta c m = meta (color_loop COLOR_NORMAL \<lparr> colors = [], meta = m \<rparr> [c])"

lemma color_loop_plain:
  assumes "plain_code c"
  shows "color_loop COLOR_NORMAL s (c # rest) = color_loop COLOR_NORMAL (s\<lparr> meta := code_meta c (meta s) \<rparr>) rest"
proof -
  obtain n e where p: "ParseUint8 c = (n, e)" by (cases "ParseUint8 c")
  show ?thesis
  proof (cases e)
    case None
    with assms p have "n \<noteq> 0" "n \<noteq> 38" "n \<noteq> 48" by (auto simp: plain_code_def)
    with p None show ?thesis by (simp add: code_meta_def color_basic_def Let_def)
  next
    case (Some a)
    with p show ?thesis by (simp add: code_meta_def)
  qed
qed

lemma color_loop_plains:
  "list_all plain_code cs \<Longrightarrow>
   color_loop COLOR_NORMAL s cs = s\<lparr> meta := foldl (\<lambda>m c. code_meta c m) (meta s) cs \<rparr>"
proof (induction cs arbitrary: s)
  case (Cons c cs)
  then have c: "plain_code c" and cs: "list_all plain_code cs" by simp_all
  show ?case
    unfolding color_loop_plain [OF c] Cons.IH [OF cs] by simp
qed simp

lemma plain_not_reset: "plain_code c \<Longrightarrow> c \<noteq> ''0'' \<and> c \<noteq> ''''"
  by (auto simp: plain_code_def ParseUint8_def is_digit_def digit_val_def)

lemma style_color_plain:
  assumes "list_all plain_code cs"
  shows "style_color s cs = s\<lparr> colors := colors s @ cs, meta := foldl (\<lambda>m c. code_meta c m) (meta s) cs \<rparr>"
proof -
  have "\<not> (length cs = 1 \<and> (cs ! 0 = ''0'' \<or> cs ! 0 = ''''))"
    using assms plain_not_reset by (cases cs) auto
  then have "style_color s cs = color_loop COLOR_NORMAL (s\<lparr> colors := colors s @ cs \<rparr>) cs"
    unfolding style_color_def by (rule if_not_P)
  then show ?thesis using assms by (simp add: color_loop_plains)
qed

lemma replay_snoc: "replay (cs @ [c]) = style_color (replay cs) [c]"
  by (simp add: replay_def)

lemma replay_append:
  assumes "list_all plain_code cs"
  shows "meta (replay (ds @ cs)) = foldl (\<lambda>m c. code_meta c m) (meta (replay ds)) cs"
  using assms
proof (induction cs rule: rev_induct)
  case (snoc c cs)
  then have "meta (replay (ds @ cs @ [c])) = meta (style_color (replay (ds @ cs)) [c])"
    using replay_snoc [of "ds @ cs" c] by simp
  also have "\<dots> = code_meta c (meta (replay (ds @ cs)))"
    using snoc.prems by (simp add: style_color_plain)
  finally show ?case using snoc by simp
qed simp

text \<open>A style that tells what it looks like goes on telling it: if replaying the escape codes that
  \<^verbatim>\<open>asANSICodes\<close> writes for a style gives the look of the style, then the same holds after \<^verbatim>\<open>color\<close>,
  whichever codes it is given, unless one of them resets the style (0) or starts an XTerm colour
  (38, 48) - and a lone reset gives the empty style, for which it holds.\<close>

theorem style_codes_replay:
  assumes "meta (replay (colors s)) = meta s"
    and "list_all plain_code cs \<or> cs = [''0''] \<or> cs = ['''']"
  shows "meta (replay (colors (style_color s cs))) = meta (style_color s cs)"
  using assms(2)
proof (elim disjE)
  assume "list_all plain_code cs"
  then show ?thesis using assms(1) by (simp add: style_color_plain replay_append)
qed (simp_all add: style_color_def emptyStyle_def replay_def)

theorem style_codes_replay_witness:
  "meta (replay (colors (style_color emptyStyle [''1'', ''31'']))) = meta (style_color emptyStyle [''1'', ''31''])"
proof (rule style_codes_replay)
  show "meta (replay (colors emptyStyle)) = meta emptyStyle"
    by (simp add: replay_def emptyStyle_def)
  show "list_all plain_code [''1'', ''31''] \<or> [''1'', ''31''] = [''0''] \<or> [''1'', ''31''] = ['''']"
    by (simp add: plain_code_iff ParseUint8_def is_digit_def digit_val_def)
qed

text \<open>
  The two exceptions are real. A reset among other codes, as compilers write it (\<^verbatim>\<open>ESC[0;31m\<close>), drops
  the codes with the style, so that the red is never written; an XTerm colour is written one number
  at a time, which a terminal reads as blinking.
\<close>

lemma reset_in_list_forgets_codes:
  "asANSICodes (style_color emptyStyle [''0'', ''31'']) = []"
  "\<not> style_isEmpty (style_color emptyStyle [''0'', ''31''])"
  by (simp_all add: style_color_def ParseUint8_def is_digit_def digit_val_def color_basic_def
      emptyStyle_def asANSICodes_def style_isEmpty_def zeroMeta_def Let_def)

lemma xterm_color_written_as_blink:
  "blink (meta (replay (colors (style_color emptyStyle [''38'', ''5'', ''150'']))))"
  "\<not> blink (meta (style_color emptyStyle [''38'', ''5'', ''150'']))"
  by (simp_all add: style_color_def ParseUint8_def is_digit_def digit_val_def color_basic_def
      emptyStyle_def replay_def zeroMeta_def Let_def)

end
