(* ===== verification/TermElement.thy ===== *)
theory TermElement
  imports GoUtf8
begin

text \<open>
  \<^verbatim>\<open>server/terminal/element.go\<close>: the images, links and annotations a build log may embed in its output
  by escape sequences, and the parsers of these sequences. An error is its message.

  The type the system's MIME table gives a file name extension is the parameter \<open>mime\<close>; the Unicode
  tables outside ASCII are the parameter \<open>u\<close>.
\<close>

section \<open>Elements\<close>

datatype elementKind = ELEMENT_ITERM_IMAGE | ELEMENT_IMAGE | ELEMENT_LINK | ELEMENT_BK

record element =
  bk :: "string \<rightharpoonup> string"
  url :: string
  contentType :: string
  el_content :: string
  height :: string
  width :: string
  alt :: string
  elementType :: elementKind

definition zeroElement :: "elementKind \<Rightarrow> element" where
  "zeroElement k = \<lparr> bk = Map.empty, url = '''', contentType = '''', el_content = '''', height = '''',
     width = '''', alt = '''', elementType = k \<rparr>"

text \<open>
  The HTML of an element. The order in which Go iterates over the annotation's map is the argument
  \<open>ks\<close>, some order of the keys.
\<close>

definition quoted :: "string \<Rightarrow> string \<Rightarrow> string" where
  "quoted name v = name @ ''='' @ [CHR 0x22] @ v @ [CHR 0x22]"

definition asHTML :: "string list \<Rightarrow> element \<Rightarrow> string" where
  "asHTML ks i =
     (case elementType i of
        ELEMENT_LINK \<Rightarrow>
          (let content = (if el_content i = '''' then url i else el_content i) in
           ''<a '' @ quoted ''href'' (url i) @ ''>'' @ content @ ''</a>'')
      | ELEMENT_BK \<Rightarrow>
          ''<?bk'' @ concat (map (\<lambda>k. '' '' @ quoted k (ReplaceAll (CHR 0x22) ''&quot;'' (the (bk i k)))) ks) @ ''?>''
      | _ \<Rightarrow>
          (let alt' = (if alt i = '''' then url i else alt i);
               parts = [quoted ''alt'' alt']
                 @ (if elementType i = ELEMENT_ITERM_IMAGE
                    then [quoted ''src'' (''data:'' @ contentType i @ '';base64,'' @ el_content i)]
                    else [quoted ''src'' (url i)])
                 @ (if width i \<noteq> '''' then [quoted ''width'' (width i)] else [])
                 @ (if height i \<noteq> '''' then [quoted ''height'' (height i)] else []) in
           ''<img '' @ joinWith '' '' parts @ ''>''))"

section \<open>Parsing\<close>

definition htmlStripper_keeps :: "rune \<Rightarrow> bool" where
  "htmlStripper_keeps r \<longleftrightarrow> r \<notin> {60, 62, 39, 34}"

definition parseImageDimension :: "unicode \<Rightarrow> string \<Rightarrow> string" where
  "parseImageDimension u s0 =
     (let s = ToLower u s0 in
      if \<not> HasSuffix s ''px'' \<and> \<not> HasSuffix s ''%'' then s @ ''em'' else s)"

definition contentTypeForFile :: "(string \<Rightarrow> string) \<Rightarrow> string \<Rightarrow> string" where
  "contentTypeForFile mime filename =
     (case LastIndex filename (CHR ''.'') of None \<Rightarrow> '''' | Some dot \<Rightarrow> mime (drop dot filename))"

text \<open>
  \<^verbatim>\<open>tokenizeString\<close>: the loop over the runes with the tokens so far, the runes of the token being read
  and whether an escape character came just before; a string that ends in one is an error.
\<close>

fun tokenize_loop :: "rune \<Rightarrow> rune \<Rightarrow> string list \<Rightarrow> rune list \<Rightarrow> bool \<Rightarrow> rune list \<Rightarrow> string list \<times> bool" where
  "tokenize_loop sep esc tokens rs inEscape [] = (tokens @ [string_of_runes rs], inEscape)"
| "tokenize_loop sep esc tokens rs inEscape (r # rest) =
     (if inEscape then tokenize_loop sep esc tokens (rs @ [r]) False rest
      else if r = esc then tokenize_loop sep esc tokens rs True rest
      else if r = sep then tokenize_loop sep esc (tokens @ [string_of_runes rs]) [] False rest
      else tokenize_loop sep esc tokens (rs @ [r]) False rest)"

definition tokenizeString :: "string \<Rightarrow> rune \<Rightarrow> rune \<Rightarrow> string + string list" where
  "tokenizeString s sep esc =
     (case tokenize_loop sep esc [] [] False (runes_of s) of
        (tokens, True) \<Rightarrow> Inl ''invalid terminal escape''
      | (tokens, False) \<Rightarrow> Inr tokens)"

text \<open>
  The kinds of element sequence; \<open>Inl None\<close> is \<^verbatim>\<open>errUnsupportedElementSequence\<close>.
\<close>

definition splitAndVerifyElementSequence :: "string \<Rightarrow> string option + string \<times> elementKind \<times> string" where
  "splitAndVerifyElementSequence s =
     (if HasPrefix s ''1338;'' then Inr (drop (length ''1338;'') s, ELEMENT_IMAGE, '''')
      else if HasPrefix s ''1339;'' then Inr (drop (length ''1339;'') s, ELEMENT_LINK, '''')
      else if \<not> HasPrefix s ''1337;File='' then Inl None
      else
        let parts = splitOn (CHR '':'') (drop (length ''1337;File='') s) in
        if length parts \<noteq> 2 then
          Inl (Some (''expected sequence to have one arguments part and one content part, got ''
                     @ show_nat (length parts) @ '' part(s)''))
        else if parts ! 1 = '''' then Inl (Some ''image content missing'')
        else if b64_DecodeString (parts ! 1) = None then Inl (Some ''expected content part to be valid Base64'')
        else Inr (parts ! 0, ELEMENT_ITERM_IMAGE, parts ! 1))"

text \<open>One \<^verbatim>\<open>key=value\<close> argument: the element and the inline flag it leaves, or the error.\<close>

definition element_arg ::
    "unicode \<Rightarrow> (string \<Rightarrow> string) \<Rightarrow> string \<Rightarrow> element \<times> bool \<Rightarrow> string + element \<times> bool" where
  "element_arg u mime token ei =
     (case ei of (elem, imageInline) \<Rightarrow>
      (case splitTwo (CHR ''='') token of
         [ak, val] \<Rightarrow>
           (let lk = ToLower u ak in
            if lk = ''name'' then
              (case b64_DecodeString val of
                 None \<Rightarrow> Inl (''name= value of '' @ Quote u val @ '' is not valid base64'')
               | Some nameBytes \<Rightarrow>
                   (let n = Map_keep htmlStripper_keeps nameBytes in
                    Inr (elem\<lparr> url := n, contentType := contentTypeForFile mime n \<rparr>, imageInline)))
            else if lk = ''url'' then Inr (elem\<lparr> url := val \<rparr>, imageInline)
            else if lk = ''content'' then Inr (elem\<lparr> el_content := val \<rparr>, imageInline)
            else if lk = ''inline'' then Inr (elem, val = ''1'')
            else if lk = ''width'' then Inr (elem\<lparr> width := parseImageDimension u val \<rparr>, imageInline)
            else if lk = ''height'' then Inr (elem\<lparr> height := parseImageDimension u val \<rparr>, imageInline)
            else if lk = ''alt'' then Inr (elem\<lparr> alt := val \<rparr>, imageInline)
            else Inr (elem, imageInline))
       | _ \<Rightarrow> Inr (elem, imageInline)))"

fun element_args ::
    "unicode \<Rightarrow> (string \<Rightarrow> string) \<Rightarrow> string list \<Rightarrow> element \<times> bool \<Rightarrow> string + element \<times> bool" where
  "element_args u mime [] ei = Inr ei"
| "element_args u mime (token # tokens) ei =
     (case element_arg u mime token ei of Inl e \<Rightarrow> Inl e | Inr ei' \<Rightarrow> element_args u mime tokens ei')"

text \<open>\<open>Inr None\<close> is the pair of a nil element and a nil error.\<close>

definition parseElementSequence :: "unicode \<Rightarrow> (string \<Rightarrow> string) \<Rightarrow> string \<Rightarrow> string + element option" where
  "parseElementSequence u mime sequence =
     (case splitAndVerifyElementSequence sequence of
        Inl None \<Rightarrow> Inr None
      | Inl (Some e) \<Rightarrow> Inl e
      | Inr (args, kind, content) \<Rightarrow>
        (case tokenizeString (Map_keep htmlStripper_keeps args) 59 92 of
           Inl e \<Rightarrow> Inl e
         | Inr tokens \<Rightarrow>
           (case element_args u mime tokens ((zeroElement kind)\<lparr> el_content := content \<rparr>, False) of
              Inl e \<Rightarrow> Inl e
            | Inr (elem, imageInline) \<Rightarrow>
                (if kind = ELEMENT_ITERM_IMAGE \<and> url elem = '''' then
                   Inl ''name= argument not supplied, required to determine content type''
                 else if kind = ELEMENT_ITERM_IMAGE \<and> contentType elem = '''' then
                   Inl (''can't determine content type for '' @ Quote u (url elem))
                 else if kind \<noteq> ELEMENT_ITERM_IMAGE \<and> url elem = '''' then Inl ''url= argument not supplied''
                 else if kind = ELEMENT_ITERM_IMAGE \<and> \<not> imageInline then Inr None
                 else Inr (Some elem)))))"

fun bk_params :: "unicode \<Rightarrow> string list \<Rightarrow> (string \<rightharpoonup> string) \<Rightarrow> string + (string \<rightharpoonup> string)" where
  "bk_params u [] params = Inr params"
| "bk_params u (token # tokens) params =
     (case splitTwo (CHR ''='') token of
        [ak, val] \<Rightarrow> bk_params u tokens (params(ak \<mapsto> val))
      | _ \<Rightarrow> Inl (''Failed to read key=value from token '' @ Quote u token))"

definition parseBuildkiteElementSequence :: "unicode \<Rightarrow> string \<Rightarrow> string + element option" where
  "parseBuildkiteElementSequence u sequence =
     (if \<not> HasPrefix sequence ''bk;'' then Inr None
      else case tokenizeString (drop 3 sequence) 59 92 of
        Inl e \<Rightarrow> Inl e
      | Inr tokens \<Rightarrow>
          (case bk_params u tokens Map.empty of
             Inl e \<Rightarrow> Inl e
           | Inr params \<Rightarrow> Inr (Some ((zeroElement ELEMENT_BK)\<lparr> bk := params \<rparr>))))"

end
