(* ===== verification/TermScreen.thy ===== *)
theory TermScreen
  imports TermStyle TermElement
begin

text \<open>
  \<^verbatim>\<open>server/terminal/screen.go\<close>, \<^verbatim>\<open>node.go\<close> and \<^verbatim>\<open>output.go\<close>: the virtual screen build output is drawn on, the
  operations that move its cursor, write to it, clear it and pop its oldest lines, and its output.

  Go's \<^verbatim>\<open>int\<close> coordinates are integers; \<open>screen_ok\<close> shows that they never are negative, so that the
  indexing through \<open>nat\<close> is that of the code. The log warnings are left out.
\<close>

section \<open>Nodes and the screen\<close>

record node =
  node_style :: style
  node_elem :: "element option"
  blob :: rune

definition emptyNode :: node where
  "emptyNode = \<lparr> node_style = emptyStyle, node_elem = None, blob = 32 \<rparr>"

definition hasSameStyle :: "node \<Rightarrow> node \<Rightarrow> bool" where
  "hasSameStyle n m \<longleftrightarrow> style_isEqual (node_style n) (node_style m)"

record screen =
  scr_style :: style
  lines :: "node list list"
  x :: int
  y :: int
  maxLines :: int

definition newScreen :: "int \<Rightarrow> screen" where
  "newScreen n = \<lparr> scr_style = emptyStyle, lines = [], x = 0, y = 0, maxLines = n \<rparr>"

section \<open>Clearing\<close>

definition screenEndOfLine :: int where "screenEndOfLine = - 1"
definition screenStartOfLine :: int where "screenStartOfLine = 0"

text \<open>The loop that blanks the nodes from index \<open>i\<close> to \<open>xEnd\<close> or to the end of the line.\<close>

function clear_loop :: "int \<Rightarrow> int \<Rightarrow> node list \<Rightarrow> node list" where
  "clear_loop i xEnd line =
     (if i \<le> xEnd \<and> i < int (length line) then clear_loop (i + 1) xEnd (line[nat i := emptyNode]) else line)"
  by pat_completeness auto
termination
  by (relation "measure (\<lambda>(i, xEnd, line). nat (int (length line) - i))") auto

declare clear_loop.simps [simp del]

definition screen_clear :: "screen \<Rightarrow> int \<Rightarrow> int \<Rightarrow> int \<Rightarrow> screen" where
  "screen_clear s yy xStart xEnd =
     (if int (length (lines s)) \<le> yy then s
      else if xStart = screenStartOfLine \<and> xEnd = screenEndOfLine
      then s\<lparr> lines := (lines s)[nat yy := []] \<rparr>
      else
        let line = lines s ! nat yy;
            xEnd' = (if xEnd = screenEndOfLine then int (length line) - 1 else xEnd) in
        s\<lparr> lines := (lines s)[nat yy := clear_loop xStart xEnd' line] \<rparr>)"

section \<open>Moving the cursor\<close>

definition pi :: "string \<Rightarrow> int" where
  "pi s = (if s = '''' then 1 else fst (ParseInt8 s))"

definition screen_up :: "screen \<Rightarrow> string \<Rightarrow> screen" where
  "screen_up s i = (let y' = y s - pi i in s\<lparr> y := if y' < 0 then 0 else y' \<rparr>)"

definition screen_down :: "screen \<Rightarrow> string \<Rightarrow> screen" where
  "screen_down s i = s\<lparr> y := y s + pi i \<rparr>"

definition screen_forward :: "screen \<Rightarrow> string \<Rightarrow> screen" where
  "screen_forward s i = s\<lparr> x := x s + pi i \<rparr>"

definition screen_backward :: "screen \<Rightarrow> string \<Rightarrow> screen" where
  "screen_backward s i = s\<lparr> x := max 0 (x s - pi i) \<rparr>"

definition screen_newLine :: "screen \<Rightarrow> screen" where
  "screen_newLine s = s\<lparr> x := 0, y := y s + 1 \<rparr>"

definition screen_carriageReturn :: "screen \<Rightarrow> screen" where
  "screen_carriageReturn s = s\<lparr> x := 0 \<rparr>"

definition screen_backspace :: "screen \<Rightarrow> screen" where
  "screen_backspace s = (if x s > 0 then s\<lparr> x := x s - 1 \<rparr> else s)"

section \<open>Writing\<close>

definition growScreenHeight :: "screen \<Rightarrow> screen" where
  "growScreenHeight s =
     (let grown = lines s @ replicate (nat (y s + 1) - length (lines s)) [];
          extraLines = int (length grown) - maxLines s in
      if maxLines s > 0 \<and> extraLines > 0 then
        (let y' = y s - extraLines in
         s\<lparr> lines := drop (nat extraLines) grown, y := if y' < 0 then 0 else y' \<rparr>)
      else s\<lparr> lines := grown \<rparr>)"

definition growLineWidth :: "screen \<Rightarrow> node list \<Rightarrow> node list" where
  "growLineWidth s line = line @ replicate (nat (x s + 1) - length line) emptyNode"

text \<open>What \<^verbatim>\<open>write\<close> and \<^verbatim>\<open>appendElement\<close> share: the node at the cursor is replaced.\<close>

definition put_node :: "screen \<Rightarrow> node \<Rightarrow> screen" where
  "put_node s n =
     (let s = growScreenHeight s;
          line = growLineWidth s (lines s ! nat (y s)) in
      s\<lparr> lines := (lines s)[nat (y s) := line[nat (x s) := n]] \<rparr>)"

definition screen_write :: "screen \<Rightarrow> rune \<Rightarrow> screen" where
  "screen_write s data = put_node s \<lparr> node_style = scr_style s, node_elem = None, blob = data \<rparr>"

definition screen_append :: "screen \<Rightarrow> rune \<Rightarrow> screen" where
  "screen_append s data = (let s = screen_write s data in s\<lparr> x := x s + 1 \<rparr>)"

definition screen_appendMany :: "screen \<Rightarrow> rune list \<Rightarrow> screen" where
  "screen_appendMany s data = foldl screen_append s data"

definition screen_appendElement :: "screen \<Rightarrow> element \<Rightarrow> screen" where
  "screen_appendElement s i =
     (let s = put_node s \<lparr> node_style = scr_style s, node_elem = Some i, blob = 0 \<rparr> in s\<lparr> x := x s + 1 \<rparr>)"

section \<open>Escape sequences\<close>

definition screen_color :: "screen \<Rightarrow> string list \<Rightarrow> screen" where
  "screen_color s i = s\<lparr> scr_style := style_color (scr_style s) i \<rparr>"

definition screen_applyEscape :: "screen \<Rightarrow> rune \<Rightarrow> string list \<Rightarrow> screen" where
  "screen_applyEscape s code instructions0 =
     (let instructions = (if instructions0 = [] then [''''] else instructions0);
          i0 = instructions ! 0 in
      if code = 77 then screen_color s instructions
      else if code = 71 then s\<lparr> x := 0 \<rparr>
      else if code = 75 then
        (if i0 = ''0'' \<or> i0 = '''' then screen_clear s (y s) (x s) screenEndOfLine
         else if i0 = ''1'' then screen_clear s (y s) screenStartOfLine (x s)
         else if i0 = ''2'' then screen_clear s (y s) screenStartOfLine screenEndOfLine
         else s)
      else if code = 65 then screen_up s i0
      else if code = 66 then screen_down s i0
      else if code = 67 then screen_forward s i0
      else if code = 68 then screen_backward s i0
      else s)"

section \<open>Output\<close>

definition appendANSIStyle :: "string \<Rightarrow> node \<Rightarrow> string" where
  "appendANSIStyle buf n = buf @ concat (asANSICodes (node_style n))"

definition resetANSI :: "string \<Rightarrow> string" where
  "resetANSI buf = buf @ [CHR 0x1B] @ ''[0m''"

definition appendChar :: "string \<Rightarrow> rune \<Rightarrow> string" where
  "appendChar buf r = buf @
     (if r = 38 then ''&amp;'' else if r = 39 then ''&#39;'' else if r = 60 then ''&lt;''
      else if r = 62 then ''&gt;'' else if r = 34 then ''&quot;'' else if r = 47 then ''&#47;''
      else EncodeRune r)"

text \<open>
  The loop of \<^verbatim>\<open>outputLineAsANSI\<close>: the buffer, whether a style is applied, and the node before
  (\<open>None\<close> at index 0).
\<close>

fun output_loop :: "string \<Rightarrow> bool \<Rightarrow> node option \<Rightarrow> node list \<Rightarrow> string \<times> bool" where
  "output_loop buf applied prev [] = (buf, applied)"
| "output_loop buf applied prev (n # ns) =
     (let (buf, applied) =
        (case prev of
           None \<Rightarrow>
             (if \<not> style_isEmpty (node_style n) then (appendANSIStyle buf n, True) else (buf, applied))
         | Some previous \<Rightarrow>
             (if \<not> hasSameStyle n previous then
                (let (buf, applied) = (if applied then (resetANSI buf, False) else (buf, applied)) in
                 if \<not> style_isEmpty (node_style n) then (appendANSIStyle buf n, True) else (buf, applied))
              else (buf, applied))) in
      output_loop (buf @ EncodeRune (blob n)) applied (Some n) ns)"

definition outputLineAsANSI :: "node list \<Rightarrow> string" where
  "outputLineAsANSI line =
     (let (buf, applied) = output_loop [] False None line;
          buf = (if applied then resetANSI buf else buf) in
      TrimRight buf [CHR '' '', CHR 0x09])"

definition screen_asANSI :: "screen \<Rightarrow> string" where
  "screen_asANSI s = joinWith [CHR 0x0A] (map outputLineAsANSI (lines s))"

definition screen_popExtraLines :: "screen \<Rightarrow> int \<Rightarrow> string \<times> screen" where
  "screen_popExtraLines s linesToRetain =
     (let extraLines0 = int (length (lines s)) - linesToRetain;
          extraLines = (if extraLines0 > y s then y s else extraLines0) in
      if extraLines < 1 then ('''', s)
      else
        (screen_asANSI ((newScreen 0)\<lparr> lines := take (nat extraLines) (lines s) \<rparr>),
         s\<lparr> lines := drop (nat extraLines) (lines s), y := y s - extraLines \<rparr>))"

section \<open>The screen's invariant\<close>

text \<open>
  The cursor is never left of or above the screen, and a screen of bounded height never holds more
  lines than its bound.
\<close>

definition screen_ok :: "screen \<Rightarrow> bool" where
  "screen_ok s \<longleftrightarrow> 0 \<le> x s \<and> 0 \<le> y s \<and> (maxLines s > 0 \<longrightarrow> int (length (lines s)) \<le> maxLines s)"

text \<open>The cursor after a write: on a line and a column the screen has.\<close>

definition cursor_on :: "screen \<Rightarrow> bool" where
  "cursor_on s \<longleftrightarrow> nat (y s) < length (lines s) \<and> nat (x s) < length (lines s ! nat (y s))"

lemma screen_okI [inv_intro]:
  "0 \<le> x s \<Longrightarrow> 0 \<le> y s \<Longrightarrow> (maxLines s > 0 \<Longrightarrow> int (length (lines s)) \<le> maxLines s) \<Longrightarrow> screen_ok s"
  by (simp add: screen_ok_def)

lemma screen_okD: "screen_ok s \<Longrightarrow> 0 \<le> x s" "screen_ok s \<Longrightarrow> 0 \<le> y s"
  by (simp_all add: screen_ok_def)

lemma clear_loop_length [simp]: "length (clear_loop i e line) = length line"
proof (induction i e line rule: clear_loop.induct)
  case (1 i e line)
  then show ?case by (subst clear_loop.simps) simp
qed

lemma screen_clear_simps [simp]:
  "x (screen_clear s a b c) = x s" "y (screen_clear s a b c) = y s"
  "maxLines (screen_clear s a b c) = maxLines s" "length (lines (screen_clear s a b c)) = length (lines s)"
  by (simp_all add: screen_clear_def Let_def)

lemma growScreenHeight_simps [simp]:
  "x (growScreenHeight s) = x s" "maxLines (growScreenHeight s) = maxLines s"
  "scr_style (growScreenHeight s) = scr_style s"
  by (simp_all add: growScreenHeight_def Let_def)

lemma growScreenHeight_ok:
  assumes "screen_ok s"
  shows "screen_ok (growScreenHeight s)" and "nat (y (growScreenHeight s)) < length (lines (growScreenHeight s))"
proof -
  define g where "g = lines s @ replicate (nat (y s + 1) - length (lines s)) []"
  have grow: "growScreenHeight s =
     (let extraLines = int (length g) - maxLines s in
      if maxLines s > 0 \<and> extraLines > 0 then
        s\<lparr> lines := drop (nat extraLines) g, y := if y s - extraLines < 0 then 0 else y s - extraLines \<rparr>
      else s\<lparr> lines := g \<rparr>)"
    by (simp only: growScreenHeight_def g_def Let_def)
  have xy: "0 \<le> x s" "0 \<le> y s" using assms by (simp_all add: screen_ok_def)
  then have l: "y s < int (length g)" by (simp add: g_def)
  have "screen_ok (growScreenHeight s) \<and> nat (y (growScreenHeight s)) < length (lines (growScreenHeight s))"
  proof (cases "maxLines s > 0 \<and> int (length g) - maxLines s > 0")
    case True
    then show ?thesis
      using xy l by (auto simp: screen_ok_def grow Let_def nat_less_iff)
  next
    case False
    then have "growScreenHeight s = s\<lparr> lines := g \<rparr>" by (simp only: grow Let_def if_False)
    then show ?thesis using False xy l by (auto simp: screen_ok_def nat_less_iff not_less)
  qed
  then show "screen_ok (growScreenHeight s)" "nat (y (growScreenHeight s)) < length (lines (growScreenHeight s))"
    by simp_all
qed

lemma put_node_ok:
  assumes "screen_ok s"
  shows "screen_ok (put_node s n)" and "cursor_on (put_node s n)"
    and "lines (put_node s n) ! nat (y (put_node s n)) ! nat (x (put_node s n)) = n"
proof -
  note g = growScreenHeight_ok [OF assms]
  show "screen_ok (put_node s n)"
    using g(1) by (auto simp: put_node_def Let_def screen_ok_def)
  show "cursor_on (put_node s n)"
    using g(2) screen_okD(1) [OF g(1)] by (auto simp: put_node_def Let_def cursor_on_def growLineWidth_def)
  show "lines (put_node s n) ! nat (y (put_node s n)) ! nat (x (put_node s n)) = n"
    using g(2) screen_okD(1) [OF g(1)] by (auto simp: put_node_def Let_def growLineWidth_def)
qed

lemma screen_ok_x: "screen_ok s \<Longrightarrow> 0 \<le> i \<Longrightarrow> screen_ok (s\<lparr> x := i \<rparr>)"
  by (simp add: screen_ok_def)

lemma screen_append_ok [inv_intro]: "screen_ok s \<Longrightarrow> screen_ok (screen_append s r)"
  using put_node_ok(1) [of s] by (simp add: screen_append_def screen_write_def Let_def screen_ok_x screen_okD)

lemma screen_appendMany_ok [inv_intro]: "screen_ok s \<Longrightarrow> screen_ok (screen_appendMany s rs)"
  by (induction rs arbitrary: s) (simp_all add: screen_appendMany_def screen_append_ok)

lemma screen_appendElement_ok [inv_intro]: "screen_ok s \<Longrightarrow> screen_ok (screen_appendElement s e)"
  using put_node_ok(1) [of s] by (simp add: screen_appendElement_def Let_def screen_ok_x screen_okD)

lemma screen_move_ok [inv_intro]:
  "screen_ok s \<Longrightarrow> screen_ok (screen_newLine s)"
  "screen_ok s \<Longrightarrow> screen_ok (screen_carriageReturn s)"
  "screen_ok s \<Longrightarrow> screen_ok (screen_backspace s)"
  "screen_ok s \<Longrightarrow> screen_ok (screen_up s i)"
  "screen_ok s \<Longrightarrow> screen_ok (screen_backward s i)"
  "screen_ok s \<Longrightarrow> screen_ok (screen_clear s a b c)"
  "screen_ok s \<Longrightarrow> screen_ok (screen_color s cs)"
  by (simp_all add: screen_ok_def screen_newLine_def screen_carriageReturn_def screen_backspace_def
      screen_up_def screen_backward_def screen_color_def Let_def)

text \<open>
  Moving down or forward keeps the invariant for a count that is not negative, which a count of
  digits and question marks, all that a control sequence collects, is.
\<close>

lemma pi_nonneg: "i = '''' \<or> hd i \<noteq> CHR ''-'' \<Longrightarrow> 0 \<le> pi i"
  by (auto simp: pi_def ParseInt8_def Let_def split: prod.split)

lemma screen_down_forward_ok [inv_intro]:
  "screen_ok s \<Longrightarrow> 0 \<le> pi i \<Longrightarrow> screen_ok (screen_down s i)"
  "screen_ok s \<Longrightarrow> 0 \<le> pi i \<Longrightarrow> screen_ok (screen_forward s i)"
  by (simp_all add: screen_ok_def screen_down_def screen_forward_def)

definition counts_ok :: "string list \<Rightarrow> bool" where
  "counts_ok is \<longleftrightarrow> list_all (\<lambda>i. 0 \<le> pi i) is"

lemma screen_applyEscape_ok [inv_intro]:
  assumes "screen_ok s" and "counts_ok is"
  shows "screen_ok (screen_applyEscape s code is)"
proof -
  define i0 where "i0 = (if is = [] then [''''] else is) ! 0"
  have "0 \<le> pi i0"
    using assms(2) by (cases "is") (auto simp: counts_ok_def pi_def i0_def)
  then show ?thesis
    unfolding screen_applyEscape_def Let_def i0_def [symmetric]
    by (auto intro: screen_move_ok screen_down_forward_ok screen_ok_x assms(1))
qed

section \<open>Popping lines\<close>

lemma joinWith_append:
  "xs \<noteq> [] \<Longrightarrow> ys \<noteq> [] \<Longrightarrow> joinWith sep (xs @ ys) = joinWith sep xs @ sep @ joinWith sep ys"
proof (induction sep xs rule: joinWith.induct)
  case (2 sep a)
  then show ?case by (cases ys) simp_all
next
  case (3 sep a b zs)
  then show ?case by simp
qed simp

text \<open>Popping the screen's oldest lines loses and repeats nothing. The lines popped are those past the
  number to retain, but never the cursor's line; their output followed by what is left on the screen
  is the output of the screen before; the cursor stays on its line and the style and the invariant
  are kept.\<close>

theorem popExtraLines_conserves:
  assumes "screen_ok s" and "0 \<le> n"
    and "screen_popExtraLines s n = (out, s')"
  shows "screen_ok s' \<and>
    (let k = nat (min (int (length (lines s)) - n) (y s)) in
     s' = s\<lparr> lines := drop k (lines s), y := y s - int k \<rparr> \<and>
     screen_asANSI s = (if k = 0 then screen_asANSI s'
                        else if lines s' = [] then out
                        else out @ [CHR 0x0A] @ screen_asANSI s'))"
proof -
  define k where "k = nat (min (int (length (lines s)) - n) (y s))"
  have y: "0 \<le> y s" using assms(1) by (rule screen_okD)
  have out: "out = (if k = 0 then '''' else joinWith [CHR 0x0A] (map outputLineAsANSI (take k (lines s))))"
    and s': "s' = s\<lparr> lines := drop k (lines s), y := y s - int k \<rparr>"
    using assms(3) y by (auto simp: screen_popExtraLines_def Let_def k_def screen_asANSI_def min_def split: if_splits)
  have k: "int k \<le> y s" using y by (simp add: k_def)
  then have "screen_ok s'" using assms(1) by (auto simp: s' screen_ok_def)
  moreover have "screen_asANSI s = (if k = 0 then screen_asANSI s' else if lines s' = [] then out
      else out @ [CHR 0x0A] @ screen_asANSI s')"
  proof (cases "k = 0 \<or> drop k (lines s) = []")
    case True
    then show ?thesis by (auto simp: out s' screen_asANSI_def)
  next
    case False
    then have "lines s = take k (lines s) @ drop k (lines s)" "take k (lines s) \<noteq> []" by auto
    with False show ?thesis
      using joinWith_append [of "map outputLineAsANSI (take k (lines s))" "map outputLineAsANSI (drop k (lines s))" "[CHR 0x0A]"]
      by (simp add: out s' screen_asANSI_def map_append [symmetric] del: map_append)
  qed
  ultimately show ?thesis using s' by (simp add: k_def Let_def)
qed

definition popped_screen :: screen where
  "popped_screen = (newScreen 5)\<lparr> lines := [[emptyNode\<lparr> blob := 97 \<rparr>], [emptyNode\<lparr> blob := 98 \<rparr>], []], y := 2 \<rparr>"

theorem popExtraLines_conserves_witness:
  "screen_asANSI popped_screen = ''a'' @ [CHR 0x0A] @ ''b'' @ [CHR 0x0A] @ screen_asANSI (snd (screen_popExtraLines popped_screen 1))"
proof -
  obtain out s' where p: "screen_popExtraLines popped_screen 1 = (out, s')" by (meson surj_pair)
  have e: "EncodeRune 97 = ''a''" "EncodeRune 98 = ''b''"
    by (simp_all add: EncodeRune_def ValidRune_def char_of_def bit_Suc_0_iff)
  have l: "outputLineAsANSI [emptyNode\<lparr> blob := 97 \<rparr>] = ''a''" "outputLineAsANSI [emptyNode\<lparr> blob := 98 \<rparr>] = ''b''"
    by (simp_all add: outputLineAsANSI_def emptyNode_def style_isEmpty_def emptyStyle_def e TrimRight_def)
  have out: "out = ''a'' @ [CHR 0x0A] @ ''b''"
    using p by (simp add: screen_popExtraLines_def popped_screen_def newScreen_def screen_asANSI_def Let_def l
        numeral_2_eq_2)
  show ?thesis
    using popExtraLines_conserves [OF _ _ p] p
    by (simp add: popped_screen_def newScreen_def screen_ok_def Let_def out)
qed

end
