(* ===== verification/TermParser.thy ===== *)
theory TermParser
  imports TermScreen
begin

text \<open>
  \<^verbatim>\<open>server/terminal/parser.go\<close> and \<^verbatim>\<open>terminal.go\<close>: the stateful ANSI parser that draws a stream of chunks on
  the screen, and the writer built on it.

  The screen the parser points to is a field of the parser, for the writer holds no other reference
  to it. The parser lives across the chunks it is fed, its cursor and the two positions it has
  remembered count from the start of the chunk they were set in.
\<close>

section \<open>The parser's state\<close>

datatype parser_mode =
  MODE_NORMAL | MODE_ESCAPE | MODE_CONTROL | MODE_OSC | MODE_CHARSET | MODE_APC

record parser =
  p_screen :: screen
  ansi :: string
  instructions :: "string list"
  mode :: parser_mode
  cursor :: nat
  escapeStartedAt :: nat
  instructionStartedAt :: nat

text \<open>
  What the parser uses of its environment: the Unicode tables and the system's table of MIME types.
\<close>

record parser_env =
  env_unicode :: unicode
  env_mime :: "string \<Rightarrow> string"

definition withinBounds :: "string \<Rightarrow> nat \<Rightarrow> nat \<Rightarrow> bool" where
  "withinBounds data start stop \<longleftrightarrow> start \<le> stop \<and> stop \<le> length data"

definition slice :: "string \<Rightarrow> nat \<Rightarrow> nat \<Rightarrow> string" where
  "slice s i j = take (j - i) (drop i s)"

section \<open>The handlers\<close>

definition on_screen :: "(screen \<Rightarrow> screen) \<Rightarrow> parser \<Rightarrow> parser" where
  "on_screen f p = p\<lparr> p_screen := f (p_screen p) \<rparr>"

definition addInstruction :: "parser \<Rightarrow> parser" where
  "addInstruction p =
     (if \<not> withinBounds (ansi p) (instructionStartedAt p) (cursor p) then p
      else let instruction = slice (ansi p) (instructionStartedAt p) (cursor p) in
        if instruction \<noteq> '''' then p\<lparr> instructions := instructions p @ [instruction] \<rparr> else p)"

definition handleCharset :: "rune \<Rightarrow> parser \<Rightarrow> parser" where
  "handleCharset char p = p\<lparr> mode := MODE_NORMAL \<rparr>"

definition handleOperatingSystemCommand :: "parser_env \<Rightarrow> rune \<Rightarrow> parser \<Rightarrow> parser" where
  "handleOperatingSystemCommand env char p0 =
     (if char \<noteq> 7 then p0
      else
        let p = p0\<lparr> mode := MODE_NORMAL \<rparr> in
        if \<not> withinBounds (ansi p) (instructionStartedAt p) (cursor p) then p
        else
          let image = parseElementSequence (env_unicode env) (env_mime env)
                        (slice (ansi p) (instructionStartedAt p) (cursor p)) in
          if image = Inr None then p
          else
            let ownLine = (case image of Inr (Some e) \<Rightarrow> elementType e \<noteq> ELEMENT_LINK | _ \<Rightarrow> True);
                p = (if ownLine then
                       (let p = (if x (p_screen p) \<noteq> 0 then on_screen screen_newLine p else p) in
                        on_screen (\<lambda>s. screen_clear s (y s) screenStartOfLine screenEndOfLine) p)
                     else p);
                p = (case image of
                       Inl err \<Rightarrow>
                         on_screen (\<lambda>s. screen_appendMany s (runes_of err))
                           (on_screen (\<lambda>s. screen_appendMany s
                              (runes_of ''*** Error parsing custom element escape sequence: '')) p)
                     | Inr (Some e) \<Rightarrow> on_screen (\<lambda>s. screen_appendElement s e) p
                     | Inr None \<Rightarrow> p) in
            if ownLine then on_screen screen_newLine p else p)"

definition handleApplicationProgramCommand :: "parser_env \<Rightarrow> rune \<Rightarrow> parser \<Rightarrow> parser" where
  "handleApplicationProgramCommand env char p0 =
     (if char \<noteq> 7 then p0
      else
        let p = p0\<lparr> mode := MODE_NORMAL \<rparr> in
        if \<not> withinBounds (ansi p) (instructionStartedAt p) (cursor p) then p
        else
          case parseBuildkiteElementSequence (env_unicode env)
                 (slice (ansi p) (instructionStartedAt p) (cursor p)) of
            Inr None \<Rightarrow> p
          | Inl err \<Rightarrow>
              on_screen (\<lambda>s. screen_appendMany s (runes_of err))
                (on_screen (\<lambda>s. screen_appendMany s
                   (runes_of ''*** Error parsing buildkite element escape sequence: '')) p)
          | Inr (Some el) \<Rightarrow> on_screen (\<lambda>s. screen_appendElement s el) p)"

text \<open>
  \<^verbatim>\<open>unicode.ToUpper\<close> on the runes \<^verbatim>\<open>handleControlSequence\<close> tells apart: no rune outside ASCII has one of them
  as its upper case (the two that have an ASCII letter have \<^verbatim>\<open>I\<close> and \<^verbatim>\<open>S\<close>).
\<close>

definition ToUpper_ascii :: "rune \<Rightarrow> rune" where
  "ToUpper_ascii r = (if 97 \<le> r \<and> r \<le> 122 then r - 32 else r)"

definition handleControlSequence :: "rune \<Rightarrow> parser \<Rightarrow> parser" where
  "handleControlSequence char0 p =
     (let char = ToUpper_ascii char0 in
      if char = 63 \<or> (48 \<le> char \<and> char \<le> 57) then p
      else if char = 59 then
        (let p = addInstruction p in p\<lparr> instructionStartedAt := cursor p + 1 \<rparr>)
      else if char \<in> {81, 75, 71, 65, 66, 67, 68, 77} then
        (let p = addInstruction p in
         (on_screen (\<lambda>s. screen_applyEscape s char (instructions p)) p)\<lparr> mode := MODE_NORMAL \<rparr>)
      else if char = 72 \<or> char = 76 then p\<lparr> mode := MODE_NORMAL \<rparr>
      else p\<lparr> cursor := escapeStartedAt p, mode := MODE_NORMAL \<rparr>)"

definition handleNormal :: "rune \<Rightarrow> parser \<Rightarrow> parser" where
  "handleNormal char p =
     (if char = 10 then on_screen screen_newLine p
      else if char = 13 then on_screen screen_carriageReturn p
      else if char = 8 then on_screen screen_backspace p
      else if char = 27 then p\<lparr> escapeStartedAt := cursor p, mode := MODE_ESCAPE \<rparr>
      else on_screen (\<lambda>s. screen_append s char) p)"

definition handleEscape :: "rune \<Rightarrow> parser \<Rightarrow> parser" where
  "handleEscape char p =
     (if char = 91 then p\<lparr> instructionStartedAt := cursor p + 1, instructions := [], mode := MODE_CONTROL \<rparr>
      else if char = 93 then p\<lparr> instructionStartedAt := cursor p + 1, mode := MODE_OSC \<rparr>
      else if char = 41 \<or> char = 40 then p\<lparr> instructionStartedAt := cursor p + 1, mode := MODE_CHARSET \<rparr>
      else if char = 95 then p\<lparr> instructionStartedAt := cursor p + 1, mode := MODE_APC \<rparr>
      else p\<lparr> cursor := escapeStartedAt p, mode := MODE_NORMAL \<rparr>)"

section \<open>The loop\<close>

definition handle :: "parser_env \<Rightarrow> rune \<Rightarrow> parser \<Rightarrow> parser" where
  "handle env char p =
     (case mode p of
        MODE_ESCAPE \<Rightarrow> handleEscape char p
      | MODE_CONTROL \<Rightarrow> handleControlSequence char p
      | MODE_OSC \<Rightarrow> handleOperatingSystemCommand env char p
      | MODE_CHARSET \<Rightarrow> handleCharset char p
      | MODE_APC \<Rightarrow> handleApplicationProgramCommand env char p
      | MODE_NORMAL \<Rightarrow> handleNormal char p)"

definition parse_step :: "parser_env \<Rightarrow> parser \<Rightarrow> parser" where
  "parse_step env p =
     (let (char, charLen) = DecodeRune (drop (cursor p) (ansi p));
          p = handle env char p in
      p\<lparr> cursor := cursor p + charLen \<rparr>)"

text \<open>
  An aborted escape sequence moves the cursor back, so that the loop ends is not obvious: the work
  left is what there is to read after the cursor or, within an escape sequence, that and what there is
  to read again after the escape character.
\<close>

definition triangle :: "nat \<Rightarrow> nat" where
  "triangle n = n * (n + 1) div 2"

definition parse_work :: "parser \<Rightarrow> nat" where
  "parse_work p =
     (let n = length (ansi p); rest = n - cursor p in
      if mode p = MODE_ESCAPE \<or> mode p = MODE_CONTROL
      then rest + triangle (n - min (cursor p) (escapeStartedAt p + 1))
      else triangle rest)"

lemma triangle_Suc [simp]: "triangle (Suc n) = triangle n + Suc n"
  by (simp add: triangle_def)

lemma triangle_0 [simp]: "triangle 0 = 0"
  by (simp add: triangle_def)

lemma triangle_mono: "m \<le> n \<Longrightarrow> triangle m \<le> triangle n"
  unfolding triangle_def by (intro div_le_mono mult_le_mono) simp_all

lemma triangle_less: "m < n \<Longrightarrow> triangle m + n \<le> triangle n"
  using triangle_mono [of m "n - 1"] by (cases n) simp_all

lemma triangle_strict: "m < n \<Longrightarrow> triangle m < triangle n"
  using triangle_less [of m n] by linarith

text \<open>How a step moves the cursor and changes the mode.\<close>

lemma on_screen_simps [simp]:
  "ansi (on_screen f p) = ansi p" "mode (on_screen f p) = mode p" "cursor (on_screen f p) = cursor p"
  "escapeStartedAt (on_screen f p) = escapeStartedAt p"
  "instructionStartedAt (on_screen f p) = instructionStartedAt p"
  "instructions (on_screen f p) = instructions p" "p_screen (on_screen f p) = f (p_screen p)"
  by (simp_all add: on_screen_def)

lemma addInstruction_simps [simp]:
  "ansi (addInstruction p) = ansi p" "mode (addInstruction p) = mode p" "cursor (addInstruction p) = cursor p"
  "escapeStartedAt (addInstruction p) = escapeStartedAt p" "p_screen (addInstruction p) = p_screen p"
  by (simp_all add: addInstruction_def Let_def)

lemma handleOSC_simps [simp]:
  "ansi (handleOperatingSystemCommand env c p) = ansi p"
  "cursor (handleOperatingSystemCommand env c p) = cursor p"
  "escapeStartedAt (handleOperatingSystemCommand env c p) = escapeStartedAt p"
  "mode (handleOperatingSystemCommand env c p) = (if c = 7 then MODE_NORMAL else mode p)"
  by (simp_all add: handleOperatingSystemCommand_def Let_def split: sum.split option.split)

lemma handleAPC_simps [simp]:
  "ansi (handleApplicationProgramCommand env c p) = ansi p"
  "cursor (handleApplicationProgramCommand env c p) = cursor p"
  "escapeStartedAt (handleApplicationProgramCommand env c p) = escapeStartedAt p"
  "mode (handleApplicationProgramCommand env c p) = (if c = 7 then MODE_NORMAL else mode p)"
  by (simp_all add: handleApplicationProgramCommand_def Let_def split: sum.split option.split)

lemma handleControlSequence_ansi [simp]: "ansi (handleControlSequence c p) = ansi p"
  by (simp add: handleControlSequence_def Let_def del: insert_iff)

lemma handle_ansi [simp]: "ansi (handle env c p) = ansi p"
  by (cases "mode p") (simp_all add: handle_def handleEscape_def handleCharset_def handleNormal_def)

lemma handle_normal_moves:
  assumes "mode p = MODE_NORMAL"
  shows "cursor (handle env c p) = cursor p \<and>
     (mode (handle env c p) = MODE_NORMAL \<or>
      mode (handle env c p) = MODE_ESCAPE \<and> escapeStartedAt (handle env c p) = cursor p)"
  using assms by (simp add: handle_def handleNormal_def)

lemma handle_captured_moves:
  assumes "mode p \<in> {MODE_OSC, MODE_CHARSET, MODE_APC}"
  shows "cursor (handle env c p) = cursor p \<and> mode (handle env c p) \<notin> {MODE_ESCAPE, MODE_CONTROL}"
  using assms by (elim insertE emptyE) (simp_all add: handle_def handleCharset_def)

lemma handleControlSequence_moves:
  "cursor (handleControlSequence c p) = cursor p \<and> escapeStartedAt (handleControlSequence c p) = escapeStartedAt p \<or>
   cursor (handleControlSequence c p) = escapeStartedAt p \<and> mode (handleControlSequence c p) = MODE_NORMAL"
  by (simp add: handleControlSequence_def Let_def del: insert_iff)

lemma handle_escape_moves:
  assumes "mode p \<in> {MODE_ESCAPE, MODE_CONTROL}"
  shows "cursor (handle env c p) = cursor p \<and> escapeStartedAt (handle env c p) = escapeStartedAt p \<or>
     cursor (handle env c p) = escapeStartedAt p \<and> mode (handle env c p) = MODE_NORMAL"
  using assms handleControlSequence_moves [of c p]
  by (elim insertE emptyE) (simp_all add: handle_def handleEscape_def)

lemma parse_work_step:
  assumes "cursor p < length (ansi p)"
  shows "parse_work (parse_step env p) < parse_work p"
proof -
  define n where "n = length (ansi p)"
  obtain c k where d: "DecodeRune (drop (cursor p) (ansi p)) = (c, k)" by (meson surj_pair)
  then have k: "0 < k" "k \<le> n - cursor p"
    using DecodeRune_width [of "drop (cursor p) (ansi p)"] assms by (auto simp: n_def)
  define q where "q = handle env c p"
  have st: "parse_step env p = q\<lparr> cursor := cursor q + k \<rparr>"
    by (simp add: parse_step_def d q_def Let_def)
  have ansi: "ansi q = ansi p" by (simp add: q_def)
  have lt: "cursor p < n" using assms by (simp add: n_def)
  consider "mode p = MODE_NORMAL" | "mode p \<in> {MODE_OSC, MODE_CHARSET, MODE_APC}" | "mode p \<in> {MODE_ESCAPE, MODE_CONTROL}"
    by (cases "mode p") auto
  then show ?thesis
  proof cases
    case 1
    have t1: "triangle (n - (cursor p + k)) < triangle (n - cursor p)"
      by (rule triangle_strict) (use lt k in linarith)
    have "triangle (n - (cursor p + 1)) + (n - cursor p) \<le> triangle (n - cursor p)"
      by (rule triangle_less) (use lt in linarith)
    moreover have "n - (cursor p + k) < n - cursor p" using lt k by linarith
    ultimately have t2: "(n - (cursor p + k)) + triangle (n - (cursor p + 1)) < triangle (n - cursor p)"
      by linarith
    have m: "min (cursor p + k) (cursor p + 1) = cursor p + 1" using k by simp
    from handle_normal_moves [OF 1, of env c, folded q_def] show ?thesis
    proof (elim conjE disjE)
      assume "cursor q = cursor p" "mode q = MODE_NORMAL"
      then show ?thesis using 1 t1 by (simp add: parse_work_def st ansi n_def [symmetric] Let_def)
    next
      assume "cursor q = cursor p" "mode q = MODE_ESCAPE" "escapeStartedAt q = cursor p"
      then have "parse_work (parse_step env p) = (n - (cursor p + k)) + triangle (n - (cursor p + 1))"
        using m by (simp add: parse_work_def st ansi n_def [symmetric] Let_def)
      then show ?thesis using 1 t2 by (simp add: parse_work_def n_def [symmetric] Let_def)
    qed
  next
    case 2
    have "triangle (n - (cursor p + k)) < triangle (n - cursor p)"
      by (rule triangle_strict) (use lt k in linarith)
    then show ?thesis
      using handle_captured_moves [OF 2, of env c, folded q_def] 2
      by (auto simp: parse_work_def st ansi n_def [symmetric] Let_def)
  next
    case 3
    let ?t = "triangle (n - min (cursor p) (escapeStartedAt p + 1))"
    have work: "parse_work p = (n - cursor p) + ?t"
      using 3 by (auto simp: parse_work_def n_def Let_def)
    have t1: "triangle (n - min (cursor p + k) (escapeStartedAt p + 1)) \<le> ?t"
      and t2: "triangle (n - (cursor p + k)) \<le> ?t" and t3: "triangle (n - (escapeStartedAt p + k)) \<le> ?t"
      by (rule triangle_mono, use k in linarith)+
    have dec: "n - (cursor p + k) < n - cursor p" using lt k by linarith
    from handle_escape_moves [OF 3, of env c, folded q_def] show ?thesis
    proof (elim conjE disjE)
      assume moves: "cursor q = cursor p" "escapeStartedAt q = escapeStartedAt p"
      show ?thesis
      proof (cases "mode q = MODE_ESCAPE \<or> mode q = MODE_CONTROL")
        case True
        then have "parse_work (parse_step env p) =
            (n - (cursor p + k)) + triangle (n - min (cursor p + k) (escapeStartedAt p + 1))"
          using moves by (simp add: parse_work_def st ansi n_def Let_def)
        then show ?thesis using t1 dec work by linarith
      next
        case False
        then have "parse_work (parse_step env p) = triangle (n - (cursor p + k))"
          using moves by (simp add: parse_work_def st ansi n_def Let_def)
        then show ?thesis using t2 dec work by linarith
      qed
    next
      assume "cursor q = escapeStartedAt p" "mode q = MODE_NORMAL"
      then have "parse_work (parse_step env p) = triangle (n - (escapeStartedAt p + k))"
        by (simp add: parse_work_def st ansi n_def [symmetric] Let_def)
      then show ?thesis using t3 dec work by linarith
    qed
  qed
qed

text \<open>The loop of \<^verbatim>\<open>parseChunk\<close> from where the cursor is, and the number of times its body is run.\<close>

function parse_loop :: "parser_env \<Rightarrow> parser \<Rightarrow> parser" where
  "parse_loop env p = (if cursor p < length (ansi p) then parse_loop env (parse_step env p) else p)"
  by pat_completeness auto
termination
  by (relation "measure (parse_work \<circ> snd)") (simp_all add: parse_work_step)

declare parse_loop.simps [simp del]

function parse_steps :: "parser_env \<Rightarrow> parser \<Rightarrow> nat" where
  "parse_steps env p = (if cursor p < length (ansi p) then parse_steps env (parse_step env p) + 1 else 0)"
  by pat_completeness auto
termination
  by (relation "measure (parse_work \<circ> snd)") (simp_all add: parse_work_step)

declare parse_steps.simps [simp del]

definition parseChunk :: "parser_env \<Rightarrow> string \<Rightarrow> parser \<Rightarrow> parser" where
  "parseChunk env chunk p = parse_loop env (p\<lparr> ansi := chunk, cursor := 0 \<rparr>)"

definition newParser :: "screen \<Rightarrow> parser" where
  "newParser s = \<lparr> p_screen = s, ansi = '''', instructions = [], mode = MODE_NORMAL, cursor = 0,
     escapeStartedAt = 0, instructionStartedAt = 0 \<rparr>"

definition parseANSIToScreen :: "parser_env \<Rightarrow> screen \<Rightarrow> string \<Rightarrow> screen" where
  "parseANSIToScreen env s a = p_screen (parseChunk env a (newParser s))"

definition screen_parse :: "parser_env \<Rightarrow> screen \<Rightarrow> string \<Rightarrow> screen" where
  "screen_parse env s a = parseANSIToScreen env (s\<lparr> scr_style := emptyStyle \<rparr>) a"

section \<open>The writer\<close>

definition maxBuildLogLines :: int where "maxBuildLogLines = 10000"

definition NewScreenWriter :: parser where
  "NewScreenWriter = newParser ((newScreen maxBuildLogLines)\<lparr> scr_style := emptyStyle \<rparr>)"

definition ScreenWriter_Write :: "parser_env \<Rightarrow> parser \<Rightarrow> string \<Rightarrow> parser \<times> nat" where
  "ScreenWriter_Write env sw data = (parseChunk env data sw, length data)"

definition RenderAsANSI :: "parser \<Rightarrow> string" where
  "RenderAsANSI sw = screen_asANSI (p_screen sw)"

definition PopExtraLinesAsANSI :: "parser \<Rightarrow> int \<Rightarrow> string \<times> parser" where
  "PopExtraLinesAsANSI sw n = (let (out, s) = screen_popExtraLines (p_screen sw) n in (out, sw\<lparr> p_screen := s \<rparr>))"

end
