(* ===== verification/TermWriter.thy ===== *)
theory TermWriter
  imports TermParser
begin

text \<open>
  What the terminal writer guarantees: the parser runs its loop at most twice per byte, the screen's
  invariant holds after any sequence of writes and pops, and plain text comes out as it went in.
\<close>

section \<open>The parser is linear\<close>

definition is_ESC :: "char \<Rightarrow> bool" where
  "is_ESC b \<longleftrightarrow> of_char b = (27 :: nat)"

text \<open>Where the next escape character is, from a position on.\<close>

definition next_ESC :: "string \<Rightarrow> nat \<Rightarrow> nat" where
  "next_ESC s c = c + length (takeWhile (\<lambda>b. \<not> is_ESC b) (drop c s))"

lemma next_ESC_ge [simp]: "c \<le> next_ESC s c"
  by (simp add: next_ESC_def)

lemma next_ESC_here: "c < length s \<Longrightarrow> is_ESC (s ! c) \<Longrightarrow> next_ESC s c = c"
  by (simp add: next_ESC_def Cons_nth_drop_Suc [symmetric])

lemma next_ESC_skip:
  assumes "c \<le> d" and "d \<le> length s" and "\<forall>i. c \<le> i \<and> i < d \<longrightarrow> \<not> is_ESC (s ! i)"
  shows "next_ESC s c = next_ESC s d"
proof -
  have "drop c s = take (d - c) (drop c s) @ drop d s"
    using assms(1) by (metis append_take_drop_id drop_drop le_add_diff_inverse2)
  moreover have "\<not> is_ESC b" if "b \<in> set (take (d - c) (drop c s))" for b
    using that assms by (auto simp: in_set_conv_nth)
  ultimately have "takeWhile (\<lambda>b. \<not> is_ESC b) (drop c s) =
      take (d - c) (drop c s) @ takeWhile (\<lambda>b. \<not> is_ESC b) (drop d s)"
    by (metis takeWhile_append2)
  then show ?thesis using assms(1,2) by (simp add: next_ESC_def)
qed

lemma next_ESC_before:
  assumes "i < next_ESC s c" and "c \<le> i" and "i < length s"
  shows "\<not> is_ESC (s ! i)"
proof -
  have "i - c < length (takeWhile (\<lambda>b. \<not> is_ESC b) (drop c s))" using assms by (simp add: next_ESC_def)
  from set_takeWhileD [OF nth_mem [OF this]]
  have "\<not> is_ESC (takeWhile (\<lambda>b. \<not> is_ESC b) (drop c s) ! (i - c))" by simp
  then show ?thesis
    using assms \<open>i - c < _\<close> by (simp add: takeWhile_nth)
qed

lemma next_ESC_mono:
  assumes "c \<le> d" and "d \<le> length s"
  shows "next_ESC s c \<le> next_ESC s d"
proof (cases "d \<le> next_ESC s c")
  case True
  then have "\<forall>i. c \<le> i \<and> i < d \<longrightarrow> \<not> is_ESC (s ! i)"
    using assms(2) next_ESC_before [of _ s c] by (meson less_le_trans)
  then show ?thesis using next_ESC_skip assms by simp
next
  case False
  then show ?thesis using next_ESC_ge [of d s] by linarith
qed

text \<open>
  The loop iterations still to come: the bytes to read, and within an escape sequence those an abort
  would have to read again, outside one those after the next escape character.
\<close>

definition in_escape :: "parser \<Rightarrow> bool" where
  "in_escape p \<longleftrightarrow> mode p \<in> {MODE_ESCAPE, MODE_CONTROL}"

definition steps_left :: "parser \<Rightarrow> nat" where
  "steps_left p =
     (let n = length (ansi p) in
      (n - cursor p) +
      (n - (if in_escape p then min (escapeStartedAt p) (cursor p) else next_ESC (ansi p) (cursor p))))"

definition no_ESC_since :: "parser \<Rightarrow> bool" where
  "no_ESC_since p \<longleftrightarrow>
     in_escape p \<longrightarrow> (\<forall>i. escapeStartedAt p < i \<and> i < cursor p \<and> i < length (ansi p) \<longrightarrow> \<not> is_ESC (ansi p ! i))"

lemma handle_stays_ascii:
  assumes "in_escape p" and "in_escape (handle env c p)"
  shows "c < 0x80 \<and> c \<noteq> 27 \<and> cursor (handle env c p) = cursor p"
proof -
  consider "mode p = MODE_ESCAPE" | "mode p = MODE_CONTROL" using assms(1) by (auto simp: in_escape_def)
  then show ?thesis
  proof cases
    case 1
    then show ?thesis
      using assms(2) by (auto simp: in_escape_def handle_def handleEscape_def split: if_splits)
  next
    case 2
    then have m: "mode (handleControlSequence c p) \<noteq> MODE_NORMAL"
      using assms(2) by (auto simp: in_escape_def handle_def)
    then have "ToUpper_ascii c = 63 \<or> 48 \<le> ToUpper_ascii c \<and> ToUpper_ascii c \<le> 57 \<or> ToUpper_ascii c = 59"
      by (rule contrapos_np) (auto simp: handleControlSequence_def Let_def simp del: insert_iff)
    then have "c < 0x80 \<and> c \<noteq> 27" by (auto simp: ToUpper_ascii_def split: if_splits)
    moreover have "cursor (handleControlSequence c p) = cursor p"
      using handleControlSequence_moves [of c p] m by blast
    ultimately show ?thesis using 2 by (simp add: handle_def)
  qed
qed

lemma steps_left_step:
  assumes "cursor p < length (ansi p)" and "no_ESC_since p"
  shows "steps_left (parse_step env p) < steps_left p \<and> no_ESC_since (parse_step env p)"
proof -
  define s n where "s = ansi p" and "n = length s"
  obtain c k where d: "DecodeRune (drop (cursor p) s) = (c, k)" by (meson surj_pair)
  have ne: "drop (cursor p) s \<noteq> []" and lt: "cursor p < n" using assms(1) by (simp_all add: s_def n_def)
  have k: "0 < k" "cursor p + k \<le> n"
    using DecodeRune_width [of "drop (cursor p) s"] ne lt by (auto simp: d n_def)
  define q where "q = handle env c p"
  have st: "parse_step env p = q\<lparr> cursor := cursor q + k \<rparr>"
    using d by (simp add: parse_step_def s_def q_def Let_def)
  have [simp]: "ansi q = s" by (simp add: q_def s_def)
  have hd: "of_char (s ! cursor p) = c" "k = 1" if "c < 0x80"
    using DecodeRune_ascii [OF ne d that] lt by (simp_all add: hd_drop_conv_nth n_def)
  have fwd: "next_ESC s (cursor p) \<le> next_ESC s (cursor p + k)"
    using next_ESC_mono [of "cursor p" "cursor p + k" s] k by (simp add: n_def)
  have in_q: "in_escape (q\<lparr> cursor := a \<rparr>) = in_escape q" for a by (simp add: in_escape_def)
  show ?thesis
  proof (cases "in_escape p")
    case False
    then have left: "steps_left p = (n - cursor p) + (n - next_ESC s (cursor p))"
      by (simp add: steps_left_def s_def n_def Let_def)
    have cur: "cursor q = cursor p"
      and esc: "in_escape q \<Longrightarrow> mode p = MODE_NORMAL \<and> mode q = MODE_ESCAPE \<and> escapeStartedAt q = cursor p"
      using handle_normal_moves [of p env c] handle_captured_moves [of p env c] False
      by (cases "mode p"; auto simp: in_escape_def q_def)+
    show ?thesis
    proof (cases "in_escape q")
      case False
      then have new: "steps_left (parse_step env p) = (n - (cursor p + k)) + (n - next_ESC s (cursor p + k))"
        and inv: "no_ESC_since (parse_step env p)"
        by (simp_all add: st steps_left_def no_ESC_since_def in_q cur n_def [symmetric] Let_def)
      have "n - (cursor p + k) < n - cursor p" "n - next_ESC s (cursor p + k) \<le> n - next_ESC s (cursor p)"
        using k lt fwd by linarith+
      then show ?thesis using new inv left by linarith
    next
      case True
      note esc' = esc [OF True]
      have c27: "c = 27" using esc' by (auto simp: q_def handle_def handleNormal_def split: if_splits)
      then have "next_ESC s (cursor p) = cursor p" "k = 1"
        using hd lt by (simp_all add: next_ESC_here is_ESC_def n_def)
      moreover have "steps_left (parse_step env p) = (n - (cursor p + k)) + (n - min (cursor p) (cursor p + k))"
        using True esc' cur by (simp add: st steps_left_def in_q n_def [symmetric] Let_def)
      moreover have "no_ESC_since (parse_step env p)"
        using esc' cur \<open>k = 1\<close> by (auto simp: st no_ESC_since_def)
      ultimately show ?thesis using left lt by simp
    qed
  next
    case True
    then have left: "steps_left p = (n - cursor p) + (n - min (escapeStartedAt p) (cursor p))"
      by (simp add: steps_left_def s_def n_def Let_def)
    have none: "\<not> is_ESC (s ! i)" if "escapeStartedAt p < i" "i < cursor p" for i
      using assms(2) True that lt by (simp add: no_ESC_since_def s_def n_def)
    have moves: "cursor q = cursor p \<and> escapeStartedAt q = escapeStartedAt p \<or>
        cursor q = escapeStartedAt p \<and> mode q = MODE_NORMAL"
      using handle_escape_moves [of p env c] True by (auto simp: in_escape_def q_def)
    show ?thesis
    proof (cases "in_escape q")
      case stays: True
      then have c: "c < 0x80" "c \<noteq> 27" and cur: "cursor q = cursor p"
        using handle_stays_ascii [OF True, of env c] by (simp_all add: q_def)
      then have e: "escapeStartedAt q = escapeStartedAt p" using moves stays by (auto simp: in_escape_def)
      have "\<not> is_ESC (s ! i)" if "escapeStartedAt p < i" "i < cursor p + 1" for i
        using none [OF that(1)] that(2) hd(1) c by (cases "i = cursor p") (auto simp: is_ESC_def)
      then have "no_ESC_since (parse_step env p)"
        using hd(2) [OF c(1)] e cur by (simp add: st no_ESC_since_def)
      moreover have "steps_left (parse_step env p) =
          (n - (cursor p + 1)) + (n - min (escapeStartedAt p) (cursor p + 1))"
        using hd(2) [OF c(1)] stays e cur by (simp add: st steps_left_def in_q n_def [symmetric] Let_def)
      moreover have "n - (cursor p + 1) < n - cursor p"
        "n - min (escapeStartedAt p) (cursor p + 1) \<le> n - min (escapeStartedAt p) (cursor p)"
        using lt by linarith+
      ultimately show ?thesis using left by linarith
    next
      case leaves: False
      then have new: "steps_left (parse_step env p) = (n - (cursor q + k)) + (n - next_ESC s (cursor q + k))"
        and inv: "no_ESC_since (parse_step env p)"
        by (simp_all add: st steps_left_def no_ESC_since_def in_q n_def [symmetric] Let_def)
      have ge: "cursor q + k \<le> next_ESC s (cursor q + k)" by simp
      show ?thesis
      proof (cases "cursor q < cursor p")
        case False
        then have "n - (cursor q + k) < n - cursor p" "n - next_ESC s (cursor q + k) \<le> n - cursor p"
          using k lt ge by linarith+
        then show ?thesis using left new inv by linarith
      next
        case jump: True
        then have e: "cursor q = escapeStartedAt p" using moves by auto
        have "cursor p \<le> next_ESC s (escapeStartedAt p + k)"
        proof (cases "escapeStartedAt p + k < cursor p")
          case True
          then have "next_ESC s (escapeStartedAt p + k) = next_ESC s (cursor p)"
            using none k lt by (intro next_ESC_skip) (auto simp: n_def)
          then show ?thesis by simp
        qed (use next_ESC_ge [of "escapeStartedAt p + k" s] in linarith)
        moreover have "n - (escapeStartedAt p + k) < n - escapeStartedAt p" using jump e k lt by linarith
        ultimately have "steps_left (parse_step env p) < (n - escapeStartedAt p) + (n - cursor p)"
          unfolding new e by linarith
        then show ?thesis using left inv jump e by simp
      qed
    qed
  qed
qed

lemma parse_steps_le:
  "no_ESC_since p \<Longrightarrow> parse_steps env p \<le> steps_left p"
proof (induction env p rule: parse_steps.induct)
  case (1 env p)
  then show ?case
    using steps_left_step [of p env]
    by (subst parse_steps.simps) (force simp: Suc_le_eq intro: le_less_trans)
qed

text \<open>C37: Whatever a build writes, the parser's loop ends, and it runs its body at most twice for every byte
  of the chunk, though an aborted escape sequence moves the cursor back - and in whatever state the
  chunks before have left it.\<close>

theorem parseChunk_linear:
  "parse_steps env (p\<lparr> ansi := chunk, cursor := 0 \<rparr>) \<le> 2 * length chunk"
proof -
  have "no_ESC_since (p\<lparr> ansi := chunk, cursor := 0 \<rparr>)" by (simp add: no_ESC_since_def)
  moreover have "steps_left (p\<lparr> ansi := chunk, cursor := 0 \<rparr>) \<le> 2 * length chunk"
    by (simp add: steps_left_def Let_def)
  ultimately show ?thesis using parse_steps_le order_trans by blast
qed

section \<open>The invariant of the writer\<close>

lemma put_node_maxLines [simp]: "maxLines (put_node s n) = maxLines s"
  by (simp add: put_node_def Let_def)

lemma screen_append_maxLines [simp]: "maxLines (screen_append s r) = maxLines s"
  by (simp add: screen_append_def screen_write_def Let_def)

lemma screen_appendMany_maxLines [simp]: "maxLines (screen_appendMany s rs) = maxLines s"
  by (induction rs arbitrary: s) (simp_all add: screen_appendMany_def)

lemma screen_ops_maxLines [simp]:
  "maxLines (screen_appendElement s e) = maxLines s"
  "maxLines (screen_newLine s) = maxLines s"
  "maxLines (screen_carriageReturn s) = maxLines s"
  "maxLines (screen_backspace s) = maxLines s"
  "maxLines (screen_color s cs) = maxLines s"
  "maxLines (screen_up s i) = maxLines s" "maxLines (screen_down s i) = maxLines s"
  "maxLines (screen_forward s i) = maxLines s" "maxLines (screen_backward s i) = maxLines s"
  by (simp_all add: screen_appendElement_def screen_newLine_def screen_carriageReturn_def screen_backspace_def
      screen_color_def screen_up_def screen_down_def screen_forward_def screen_backward_def Let_def)

lemma screen_applyEscape_maxLines [simp]: "maxLines (screen_applyEscape s c is) = maxLines s"
  by (simp add: screen_applyEscape_def Let_def)

lemma handle_maxLines [simp]: "maxLines (p_screen (handle env c p)) = maxLines (p_screen p)"
proof (cases "mode p")
  case MODE_CONTROL
  then show ?thesis
    by (simp add: handle_def handleControlSequence_def Let_def del: insert_iff)
next
  case MODE_OSC
  then show ?thesis
    by (simp add: handle_def handleOperatingSystemCommand_def Let_def split: sum.split option.split)
next
  case MODE_APC
  then show ?thesis
    by (simp add: handle_def handleApplicationProgramCommand_def Let_def split: sum.split option.split)
qed (simp_all add: handle_def handleEscape_def handleCharset_def handleNormal_def)

text \<open>
  The parser's part of the invariant: the instructions it has collected are counts, for within a
  control sequence what lies between the start of the instruction and the cursor is digits and question
  marks.
\<close>

definition is_count :: "char \<Rightarrow> bool" where
  "is_count b \<longleftrightarrow> is_digit b \<or> of_char b = (63 :: nat)"

definition parser_ok :: "parser \<Rightarrow> bool" where
  "parser_ok p \<longleftrightarrow>
     screen_ok (p_screen p) \<and> counts_ok (instructions p) \<and>
     (mode p = MODE_CONTROL \<longrightarrow>
        (\<forall>i. instructionStartedAt p \<le> i \<and> i < cursor p \<and> i < length (ansi p) \<longrightarrow> is_count (ansi p ! i)))"

lemma counts_ok_snoc: "counts_ok is \<Longrightarrow> 0 \<le> pi i \<Longrightarrow> counts_ok (is @ [i])"
  by (simp add: counts_ok_def)

lemma addInstruction_counts:
  assumes "parser_ok p" and "mode p = MODE_CONTROL"
  shows "counts_ok (instructions (addInstruction p))"
proof (cases "withinBounds (ansi p) (instructionStartedAt p) (cursor p) \<and>
    slice (ansi p) (instructionStartedAt p) (cursor p) \<noteq> ''''")
  case True
  let ?i = "slice (ansi p) (instructionStartedAt p) (cursor p)"
  have "hd ?i = ansi p ! instructionStartedAt p" "instructionStartedAt p < cursor p"
    using True by (auto simp: slice_def withinBounds_def hd_drop_conv_nth)
  then have "is_count (hd ?i)"
    using assms True by (simp add: parser_ok_def withinBounds_def)
  then have "hd ?i \<noteq> CHR ''-''" by (auto simp: is_count_def is_digit_def)
  then have "0 \<le> pi ?i" by (intro pi_nonneg) simp
  then show ?thesis
    using assms(1) True by (simp add: addInstruction_def Let_def counts_ok_snoc parser_ok_def)
next
  case False
  then show ?thesis using assms(1) by (auto simp: addInstruction_def Let_def parser_ok_def)
qed

lemma handleControlSequence_ok:
  assumes "parser_ok p" and "mode p = MODE_CONTROL"
  shows "screen_ok (p_screen (handleControlSequence c p)) \<and>
    counts_ok (instructions (handleControlSequence c p)) \<and>
    (mode (handleControlSequence c p) = MODE_CONTROL \<longrightarrow>
       cursor (handleControlSequence c p) = cursor p \<and>
       (instructionStartedAt (handleControlSequence c p) = cursor p + 1 \<or>
        instructionStartedAt (handleControlSequence c p) = instructionStartedAt p \<and>
          (c = 63 \<or> 48 \<le> c \<and> c \<le> 57)))"
proof -
  have "screen_ok (p_screen p)" "counts_ok (instructions p)" using assms(1) by (simp_all add: parser_ok_def)
  then show ?thesis
    using addInstruction_counts [OF assms] assms(2)
    by (auto simp: handleControlSequence_def Let_def screen_applyEscape_ok ToUpper_ascii_def simp del: insert_iff
        split: if_splits)
qed

lemma handleOSC_ok:
  assumes "screen_ok (p_screen p)"
  shows "screen_ok (p_screen (handleOperatingSystemCommand env c p)) \<and>
    instructions (handleOperatingSystemCommand env c p) = instructions p"
  using assms
  by (simp add: handleOperatingSystemCommand_def Let_def screen_move_ok screen_appendMany_ok screen_appendElement_ok
      split: sum.split option.split)

lemma handleAPC_ok:
  assumes "screen_ok (p_screen p)"
  shows "screen_ok (p_screen (handleApplicationProgramCommand env c p)) \<and>
    instructions (handleApplicationProgramCommand env c p) = instructions p"
  using assms
  by (simp add: handleApplicationProgramCommand_def Let_def screen_appendMany_ok screen_appendElement_ok
      split: sum.split option.split)

lemma handle_ok:
  assumes "parser_ok p" and "mode p \<noteq> MODE_CONTROL"
  shows "screen_ok (p_screen (handle env c p)) \<and> counts_ok (instructions (handle env c p)) \<and>
    (mode (handle env c p) = MODE_CONTROL \<longrightarrow>
       cursor (handle env c p) = cursor p \<and> instructionStartedAt (handle env c p) = cursor p + 1 \<and> c = 91)"
proof -
  have "screen_ok (p_screen p)" "counts_ok (instructions p)" using assms(1) by (simp_all add: parser_ok_def)
  then show ?thesis
    using assms(2) handleOSC_ok [of p env c] handleAPC_ok [of p env c]
    by (cases "mode p")
      (simp_all add: handle_def handleEscape_def handleCharset_def handleNormal_def screen_move_ok
        screen_append_ok counts_ok_def)
qed

lemma parse_step_ok:
  assumes "parser_ok p" and "cursor p < length (ansi p)"
  shows "parser_ok (parse_step env p)"
proof -
  obtain c k where d: "DecodeRune (drop (cursor p) (ansi p)) = (c, k)" by (meson surj_pair)
  define q where "q = handle env c p"
  have st: "parse_step env p = q\<lparr> cursor := cursor q + k \<rparr>"
    using d by (simp add: parse_step_def q_def Let_def)
  have asc: "of_char (ansi p ! cursor p) = c" "k = 1" if "c < 0x80"
    using DecodeRune_ascii [OF _ d that] assms(2) by (simp_all add: hd_drop_conv_nth)
  have [simp]: "ansi q = ansi p" by (simp add: q_def)
  show ?thesis
  proof (cases "mode p = MODE_CONTROL")
    case True
    then have q: "q = handleControlSequence c p" by (simp add: q_def handle_def)
    note ok = handleControlSequence_ok [OF assms(1) True, of c, folded q]
    have old: "is_count (ansi p ! i)" if "instructionStartedAt p \<le> i" "i < cursor p" "i < length (ansi p)" for i
      using assms(1) True that by (simp add: parser_ok_def)
    have "is_count (ansi p ! i)"
      if m: "mode q = MODE_CONTROL" and i: "instructionStartedAt q \<le> i" "i < cursor q + k" "i < length (ansi p)" for i
    proof -
      have cur: "cursor q = cursor p" using ok m by simp
      have c: "c < 0x80"
        using handle_stays_ascii [of p env c] True m by (simp add: in_escape_def q_def)
      consider "instructionStartedAt q = cursor p + 1"
        | "instructionStartedAt q = instructionStartedAt p" "c = 63 \<or> 48 \<le> c \<and> c \<le> 57"
        using ok m by auto
      then show ?thesis
      proof cases
        case 1
        then show ?thesis using i cur asc(2) [OF c] by simp
      next
        case 2
        then have "is_count (ansi p ! cursor p)"
          using asc(1) [OF c] by (auto simp: is_count_def is_digit_def)
        then show ?thesis
          using old [of i] 2(1) i cur asc(2) [OF c] by (cases "i = cursor p") simp_all
      qed
    qed
    then show ?thesis using ok by (simp add: parser_ok_def st)
  next
    case False
    note ok = handle_ok [OF assms(1) False, of env c, folded q_def]
    then show ?thesis using asc by (auto simp: parser_ok_def st)
  qed
qed

lemma parse_step_maxLines [simp]: "maxLines (p_screen (parse_step env p)) = maxLines (p_screen p)"
  by (simp add: parse_step_def Let_def split: prod.split)

lemma parse_loop_ok:
  assumes "parser_ok p"
  shows "parser_ok (parse_loop env p) \<and> maxLines (p_screen (parse_loop env p)) = maxLines (p_screen p)"
  using assms
proof (induction env p rule: parse_loop.induct)
  case (1 env p)
  then show ?case using parse_step_ok [of p env] by (subst (1 2) parse_loop.simps) simp
qed

text \<open>The states a writer can reach: from a new one, by writing chunks and popping lines.\<close>

inductive writer_reach :: "parser_env \<Rightarrow> parser \<Rightarrow> bool" for env where
  fresh: "writer_reach env NewScreenWriter"
| written: "writer_reach env sw \<Longrightarrow> writer_reach env (fst (ScreenWriter_Write env sw data))"
| popped: "writer_reach env sw \<Longrightarrow> 0 \<le> n \<Longrightarrow> writer_reach env (snd (PopExtraLinesAsANSI sw n))"

lemma pop_ok:
  assumes "screen_ok s" and "screen_popExtraLines s n = (out, s')"
  shows "screen_ok s' \<and> maxLines s' = maxLines s"
  using assms by (auto simp: screen_popExtraLines_def screen_ok_def Let_def split: if_splits)

lemma writer_reach_ok:
  assumes "writer_reach env sw"
  shows "parser_ok sw \<and> maxLines (p_screen sw) = maxBuildLogLines"
  using assms
proof induction
  case fresh
  show ?case
    by (simp add: NewScreenWriter_def newParser_def newScreen_def parser_ok_def screen_ok_def counts_ok_def)
next
  case (written sw data)
  have "parser_ok (sw\<lparr> ansi := data, cursor := 0 \<rparr>)" using written.IH by (simp add: parser_ok_def)
  then show ?case
    using parse_loop_ok written.IH by (simp add: ScreenWriter_Write_def parseChunk_def)
next
  case (popped sw n)
  obtain out s' where p: "screen_popExtraLines (p_screen sw) n = (out, s')" by (meson surj_pair)
  then show ?case
    using popped.IH pop_ok [of "p_screen sw" n out s'] by (simp add: PopExtraLinesAsANSI_def parser_ok_def)
qed

text \<open>C36: However a build drives the terminal, in whatever chunks its output arrives and whichever escape
  sequences it contains, the cursor never leaves the screen to the left or the top, the screen never
  holds more than the 10000 lines that bound a build log's memory, and the counts the parser has
  collected for the next cursor movement are not negative.\<close>

theorem terminal_stays_bounded:
  assumes "writer_reach env sw"
  shows "0 \<le> x (p_screen sw) \<and> 0 \<le> y (p_screen sw) \<and> length (lines (p_screen sw)) \<le> 10000
    \<and> (\<forall>i \<in> set (instructions sw). 0 \<le> pi i \<and> pi i \<le> 127)"
  using writer_reach_ok [OF assms] ParseInt8_bounds
  by (auto simp: parser_ok_def screen_ok_def maxBuildLogLines_def counts_ok_def list_all_iff pi_def)

definition plain_env :: parser_env where
  "plain_env = \<lparr> env_unicode = \<lparr> printable = (\<lambda>r. True), lower = (\<lambda>r. r) \<rparr>, env_mime = (\<lambda>e. ''image/gif'') \<rparr>"

theorem terminal_stays_bounded_witness:
  "length (lines (p_screen (fst (ScreenWriter_Write plain_env NewScreenWriter ''hello'')))) \<le> 10000"
  using terminal_stays_bounded [OF written [OF fresh], of plain_env "''hello''"] by simp

section \<open>Plain text\<close>

text \<open>Runes that neither move the cursor back nor start an escape sequence.\<close>

definition plain_rune :: "rune \<Rightarrow> bool" where
  "plain_rune r \<longleftrightarrow> ValidRune r \<and> r \<noteq> 8 \<and> r \<noteq> 13 \<and> r \<noteq> 27"

definition draw :: "screen \<Rightarrow> rune \<Rightarrow> screen" where
  "draw s r = (if r = 10 then screen_newLine s else screen_append s r)"

lemma parse_loop_plain:
  assumes "mode p = MODE_NORMAL" and "drop (cursor p) (ansi p) = string_of_runes rs"
    and "list_all plain_rune rs" and "cursor p \<le> length (ansi p)"
  shows "parse_loop env p = p\<lparr> p_screen := foldl draw (p_screen p) rs, cursor := length (ansi p) \<rparr>"
  using assms
proof (induction rs arbitrary: p)
  case Nil
  then have "cursor p = length (ansi p)" by simp
  then show ?case by (subst parse_loop.simps) simp
next
  case (Cons r rs)
  let ?k = "length (EncodeRune r)"
  have r: "plain_rune r" using Cons.prems(3) by simp
  then have d: "DecodeRune (drop (cursor p) (ansi p)) = (r, ?k)"
    using Cons.prems(2) by (simp add: DecodeRune_EncodeRune plain_rune_def)
  have lt: "cursor p < length (ansi p)" using Cons.prems(2) by (cases "cursor p < length (ansi p)") auto
  have st: "parse_step env p = p\<lparr> p_screen := draw (p_screen p) r, cursor := cursor p + ?k \<rparr>" (is "_ = ?p")
    using r Cons.prems(1) d
    by (simp add: parse_step_def handle_def handleNormal_def plain_rune_def draw_def on_screen_def Let_def)
  have "drop (cursor p + ?k) (ansi p) = drop ?k (drop (cursor p) (ansi p))" by (simp add: add.commute)
  then have rest: "drop (cursor p + ?k) (ansi p) = string_of_runes rs" using Cons.prems(2) by simp
  have "?k \<le> length (drop (cursor p) (ansi p))" using Cons.prems(2) by simp
  then have "cursor p + ?k \<le> length (ansi p)" using lt by simp
  then have "parse_loop env ?p = ?p\<lparr> p_screen := foldl draw (p_screen ?p) rs, cursor := length (ansi ?p) \<rparr>"
    using Cons.prems(1,3) rest by (intro Cons.IH) simp_all
  then show ?case using lt st by (subst parse_loop.simps) simp
qed

lemma Write_plain:
  assumes "mode sw = MODE_NORMAL" and "list_all plain_rune rs"
  shows "mode (fst (ScreenWriter_Write env sw (string_of_runes rs))) = MODE_NORMAL"
    and "p_screen (fst (ScreenWriter_Write env sw (string_of_runes rs))) = foldl draw (p_screen sw) rs"
  using parse_loop_plain [of "sw\<lparr> ansi := string_of_runes rs, cursor := 0 \<rparr>" rs env] assms
  by (simp_all add: ScreenWriter_Write_def parseChunk_def)

definition write_chunks :: "parser_env \<Rightarrow> parser \<Rightarrow> string list \<Rightarrow> parser" where
  "write_chunks env sw chunks = foldl (\<lambda>sw c. fst (ScreenWriter_Write env sw c)) sw chunks"

lemma write_chunks_plain:
  "mode sw = MODE_NORMAL \<Longrightarrow> list_all (list_all plain_rune) rss \<Longrightarrow>
   p_screen (write_chunks env sw (map string_of_runes rss)) = foldl draw (p_screen sw) (concat rss)"
proof (induction rss arbitrary: sw)
  case (Cons rs rss)
  then show ?case using Write_plain [of sw rs env] by (simp add: write_chunks_def)
qed (simp add: write_chunks_def)

text \<open>The screen that shows lines of plain text, the last of which the cursor is at the end of.\<close>

definition strip :: "'a list list \<Rightarrow> 'a list list" where
  "strip ls = rev (dropWhile (\<lambda>l. l = []) (rev ls))"

definition plain_node :: "rune \<Rightarrow> node" where
  "plain_node r = \<lparr> node_style = emptyStyle, node_elem = None, blob = r \<rparr>"

definition shows_text :: "rune list list \<Rightarrow> screen \<Rightarrow> bool" where
  "shows_text ls s \<longleftrightarrow> ls \<noteq> [] \<and> lines s = map (map plain_node) (strip ls) \<and>
     x s = int (length (last ls)) \<and> y s = int (length ls) - 1 \<and> scr_style s = emptyStyle"

lemma strip_simps [simp]:
  "strip (ls @ [[]]) = strip ls" "l \<noteq> [] \<Longrightarrow> strip (ls @ [l]) = ls @ [l]" "strip [] = []"
  by (simp_all add: strip_def)

lemma strip_pad: "strip ls @ replicate (length ls - length (strip ls)) [] = ls"
proof (induction ls rule: rev_induct)
  case (snoc l ls)
  show ?case
  proof (cases "l = []")
    case True
    have "length (strip ls) \<le> length ls"
      using length_dropWhile_le [of "\<lambda>l. l = []" "rev ls"] by (simp add: strip_def)
    then have "replicate (Suc (length ls) - length (strip ls)) [] =
        replicate (length ls - length (strip ls)) [] @ [[] :: 'a list]"
      by (simp add: Suc_diff_le replicate_append_same)
    then show ?thesis using snoc True by (metis append_assoc length_append_singleton strip_simps(1))
  qed simp
qed simp

lemma shows_text_newLine:
  "shows_text ls s \<Longrightarrow> shows_text (ls @ [[]]) (screen_newLine s)"
  by (simp add: shows_text_def screen_newLine_def)

lemma shows_text_append:
  assumes "shows_text (ls @ [l]) s" and "int (length ls) < maxLines s"
  shows "shows_text (ls @ [l @ [r]]) (screen_append s r)"
proof -
  have y: "y s = int (length ls)" and x: "x s = int (length l)" and st: "scr_style s = emptyStyle"
    and l: "lines s = map (map plain_node) (strip (ls @ [l]))"
    using assms(1) by (simp_all add: shows_text_def)
  have "lines s @ replicate (nat (y s + 1) - length (lines s)) [] =
      map (map plain_node) (strip (ls @ [l]) @ replicate (length (ls @ [l]) - length (strip (ls @ [l]))) [])"
    by (simp add: y l nat_add_distrib map_replicate_const)
  also have "\<dots> = map (map plain_node) (ls @ [l])" by (simp only: strip_pad)
  finally have g: "lines s @ replicate (nat (y s + 1) - length (lines s)) [] = map (map plain_node) (ls @ [l])" .
  have grow: "growScreenHeight s = s\<lparr> lines := map (map plain_node) (ls @ [l]) \<rparr>"
    using assms(2) unfolding growScreenHeight_def g by (simp add: Let_def)
  have "lines (screen_append s r) = map (map plain_node) (ls @ [l @ [r]])"
    by (simp add: screen_append_def screen_write_def put_node_def grow Let_def y x st growLineWidth_def
        nth_append list_update_append nat_add_distrib plain_node_def)
  moreover have "x (screen_append s r) = int (length (l @ [r]))" "y (screen_append s r) = int (length ls)"
    "scr_style (screen_append s r) = emptyStyle"
    by (simp_all add: screen_append_def screen_write_def put_node_def grow Let_def y x st)
  ultimately show ?thesis by (simp add: shows_text_def)
qed

lemma shows_text_line:
  assumes "shows_text (ls @ [l]) s" and "int (length ls) < maxLines s" and "10 \<notin> set rs"
  shows "shows_text (ls @ [l @ rs]) (foldl draw s rs) \<and> maxLines (foldl draw s rs) = maxLines s"
  using assms
proof (induction rs arbitrary: l s)
  case (Cons r rs)
  then have "draw s r = screen_append s r" by (auto simp: draw_def)
  then show ?case
    using Cons.IH [of "l @ [r]" "screen_append s r"] shows_text_append [OF Cons.prems(1,2)] Cons.prems by simp
qed simp

fun join_lines :: "rune list list \<Rightarrow> rune list" where
  "join_lines [] = []"
| "join_lines [l] = l"
| "join_lines (l # m # ls) = l @ 10 # join_lines (m # ls)"

lemma shows_text_lines:
  assumes "shows_text (done @ [[]]) s" and "int (length done + length ls) \<le> maxLines s" and "ls \<noteq> []"
    and "\<forall>l\<in>set ls. 10 \<notin> set l"
  shows "shows_text (done @ ls) (foldl draw s (join_lines ls))"
  using assms
proof (induction ls arbitrary: "done" s rule: join_lines.induct)
  case (2 l)
  then show ?case using shows_text_line [of "done" "[]" s l] by simp
next
  case (3 l m ls)
  then have l: "shows_text (done @ [l]) (foldl draw s l)" "maxLines (foldl draw s l) = maxLines s"
    using shows_text_line [of "done" "[]" s l] by simp_all
  have "shows_text ((done @ [l]) @ (m # ls)) (foldl draw (screen_newLine (foldl draw s l)) (join_lines (m # ls)))"
    using 3 l shows_text_newLine [OF l(1)] by (intro "3.IH") simp_all
  moreover have "draw t 10 = screen_newLine t" for t by (simp add: draw_def)
  ultimately show ?case by simp
qed simp

lemma output_plain:
  "prev = None \<or> prev = Some (plain_node r) \<Longrightarrow>
   output_loop buf False prev (map plain_node l) = (buf @ string_of_runes l, False)"
  by (induction l arbitrary: buf prev r)
    (auto simp: plain_node_def style_isEmpty_def emptyStyle_def hasSameStyle_def style_isEqual_def)

definition trimmed :: "rune list \<Rightarrow> string" where
  "trimmed l = TrimRight (string_of_runes l) [CHR '' '', CHR 0x09]"

lemma shows_text_asANSI:
  "shows_text ls s \<Longrightarrow> screen_asANSI s = joinWith [CHR 0x0A] (map trimmed (strip ls))"
  by (simp add: shows_text_def screen_asANSI_def o_def outputLineAsANSI_def output_plain trimmed_def [abs_def])

text \<open>C35: Plain text passes through the terminal unchanged: whatever chunks a text is written in (cut between
  its runes), the output is its lines, each without its trailing blanks and tabs, and without the empty
  lines at the end of the text. The text is any Unicode text of at most 10000 lines with no escape,
  carriage return or backspace.\<close>

theorem plain_text_renders_verbatim:
  assumes "concat rss = join_lines ls" and "ls \<noteq> []" and "length ls \<le> 10000"
    and "list_all (list_all plain_rune) ls" and "\<forall>l\<in>set ls. 10 \<notin> set l"
  shows "RenderAsANSI (write_chunks env NewScreenWriter (map string_of_runes rss)) =
    joinWith [CHR 0x0A] (map trimmed (strip ls))"
proof -
  have "list_all plain_rune (join_lines ls)"
    using assms(4) by (induction ls rule: join_lines.induct) (auto simp: plain_rune_def ValidRune_def)
  then have "list_all (list_all plain_rune) rss"
    unfolding assms(1) [symmetric] by (induction rss) simp_all
  moreover have "mode NewScreenWriter = MODE_NORMAL" by (simp add: NewScreenWriter_def newParser_def)
  ultimately have "p_screen (write_chunks env NewScreenWriter (map string_of_runes rss)) =
      foldl draw (p_screen NewScreenWriter) (join_lines ls)"
    using assms(1) by (simp add: write_chunks_plain)
  moreover have "shows_text ([] @ [[]]) (p_screen NewScreenWriter)"
    and "maxLines (p_screen NewScreenWriter) = 10000"
    by (simp_all add: shows_text_def NewScreenWriter_def newParser_def newScreen_def strip_def maxBuildLogLines_def)
  then have "shows_text ([] @ ls) (foldl draw (p_screen NewScreenWriter) (join_lines ls))"
    using assms(2,3,5) by (intro shows_text_lines) simp_all
  ultimately show ?thesis by (simp add: RenderAsANSI_def shows_text_asANSI)
qed

theorem plain_text_renders_verbatim_witness:
  "RenderAsANSI (write_chunks plain_env NewScreenWriter (map string_of_runes [[97, 32], [10, 10, 8364], [10]])) =
    joinWith [CHR 0x0A] [trimmed [97, 32], trimmed [], trimmed [8364]]"
  using plain_text_renders_verbatim [of "[[97, 32], [10, 10, 8364], [10]]" "[[97, 32], [], [8364], []]" plain_env]
  by (simp add: strip_def plain_rune_def ValidRune_def)

end
