(* ===== verification/GoSlice.thy ===== *)
theory GoSlice
  imports Prelude
begin

text \<open>
  The parts of Go's language and standard library that several components use: slices over a
  shared backing array (an \<^verbatim>\<open>append\<close> into spare capacity writes the array in place, so other
  slices of the same array see the write) and the binary search \<^verbatim>\<open>sort.Search\<close>.
\<close>

section \<open>Slices\<close>

text \<open>
  A slice that starts at the beginning of its array: the array (its length is the capacity) and
  the number of elements. \<open>elems\<close> is what ranging over the slice yields.
\<close>

record 'a slice =
  backing :: "'a list"
  slen :: nat

definition elems :: "'a slice \<Rightarrow> 'a list" where
  "elems s = take (slen s) (backing s)"

definition wf_slice :: "'a slice \<Rightarrow> bool" where
  "wf_slice s \<longleftrightarrow> slen s \<le> length (backing s)"

definition empty_slice :: "'a slice" where
  "empty_slice = \<lparr>backing = [], slen = 0\<rparr>"

text \<open>\<open>append(s, xs...)\<close>: in place when the capacity suffices, else into a fresh array.\<close>

definition slice_append :: "'a slice \<Rightarrow> 'a list \<Rightarrow> 'a slice" where
  "slice_append s xs =
     (let n = slen s + length xs in
      if n \<le> length (backing s)
      then \<lparr>backing = take (slen s) (backing s) @ xs @ drop n (backing s), slen = n\<rparr>
      else \<lparr>backing = elems s @ xs, slen = n\<rparr>)"

text \<open>\<open>s[:k]\<close>\<close>

definition slice_to :: "nat \<Rightarrow> 'a slice \<Rightarrow> 'a slice" where
  "slice_to k s = s\<lparr>slen := k\<rparr>"

text \<open>\<open>s[i] = x\<close>\<close>

definition slice_set :: "nat \<Rightarrow> 'a \<Rightarrow> 'a slice \<Rightarrow> 'a slice" where
  "slice_set i x s = s\<lparr>backing := (backing s)[i := x]\<rparr>"

lemma elems_empty [simp]: "elems empty_slice = []"
  by (simp add: elems_def empty_slice_def)

lemma wf_empty [simp]: "wf_slice empty_slice"
  by (simp add: wf_slice_def empty_slice_def)

lemma length_elems [simp]: "wf_slice s \<Longrightarrow> length (elems s) = slen s"
  by (simp add: elems_def wf_slice_def)

lemma elems_slen_0 [simp]: "slen s = 0 \<Longrightarrow> elems s = []"
  by (simp add: elems_def)

lemma elems_append [simp]: "wf_slice s \<Longrightarrow> elems (slice_append s xs) = elems s @ xs"
  by (simp add: elems_def slice_append_def wf_slice_def Let_def)

lemma wf_append [simp]: "wf_slice s \<Longrightarrow> wf_slice (slice_append s xs)"
  by (auto simp: slice_append_def wf_slice_def elems_def Let_def)

lemma elems_to [simp]: "k \<le> slen s \<Longrightarrow> elems (slice_to k s) = take k (elems s)"
  by (simp add: elems_def slice_to_def min_def)

lemma wf_to [simp]: "wf_slice s \<Longrightarrow> k \<le> slen s \<Longrightarrow> wf_slice (slice_to k s)"
  by (simp add: wf_slice_def slice_to_def)

lemma slen_to [simp]: "slen (slice_to k s) = k"
  by (simp add: slice_to_def)

lemma backing_to [simp]: "backing (slice_to k s) = backing s"
  by (simp add: slice_to_def)

lemma elems_prefix: "n = length xs \<Longrightarrow> elems \<lparr>backing = xs @ ys, slen = n\<rparr> = xs"
  by (simp add: elems_def)

lemma slen_append [simp]: "slen (slice_append s xs) = slen s + length xs"
  by (simp add: slice_append_def Let_def)

lemma slen_set [simp]: "slen (slice_set i x s) = slen s"
  by (simp add: slice_set_def)

lemma wf_set [simp]: "wf_slice s \<Longrightarrow> wf_slice (slice_set i x s)"
  by (simp add: wf_slice_def slice_set_def)

lemma elems_set [simp]: "elems (slice_set i x s) = (elems s)[i := x]"
  by (simp add: elems_def slice_set_def take_update_swap)

text \<open>The two idioms built from them: inserting before index \<open>k\<close> and removing index \<open>k\<close>.\<close>

lemma elems_insert_at:
  assumes "wf_slice s" and "k < slen s"
  shows "elems (slice_set k x (slice_append (slice_to (k + 1) s) (drop k (elems s))))
    = take k (elems s) @ x # drop k (elems s)"
proof -
  have "elems (slice_append (slice_to (k + 1) s) (drop k (elems s)))
      = take (Suc k) (elems s) @ drop k (elems s)"
    using assms by simp
  moreover have "take (Suc k) (elems s) = take k (elems s) @ [elems s ! k]"
    using assms by (simp add: take_Suc_conv_app_nth)
  ultimately show ?thesis using assms by (simp add: list_update_append)
qed

lemma elems_remove_at:
  assumes "wf_slice s" and "k < slen s"
  shows "elems (slice_append (slice_to k s) (drop (k + 1) (elems s)))
    = take k (elems s) @ drop (k + 1) (elems s)"
  using assms by simp

lemma length_backing_remove_at:
  assumes "wf_slice s" and "k < slen s"
  shows "length (backing (slice_append (slice_to k s) (drop (k + 1) (elems s)))) = length (backing s)"
  using assms by (auto simp: slice_append_def slice_to_def wf_slice_def elems_def Let_def)

section \<open>sort.Search\<close>

text \<open>
  \<^verbatim>\<open>sort.Search(n, f)\<close>: the smallest index in \<open>[0, n)\<close> at which \<open>f\<close> holds, or \<open>n\<close>, provided \<open>f\<close>
  never turns false again; the loop halves the interval \<open>[i, j)\<close>.
\<close>

function search_loop :: "(nat \<Rightarrow> bool) \<Rightarrow> nat \<Rightarrow> nat \<Rightarrow> nat" where
  "search_loop f i j =
     (if i < j
      then let h = (i + j) div 2 in
           if \<not> f h then search_loop f (h + 1) j else search_loop f i h
      else i)"
  by pat_completeness auto
termination
  by (relation "measure (\<lambda>(f, i, j). j - i)") auto

declare search_loop.simps [simp del]

definition sort_Search :: "nat \<Rightarrow> (nat \<Rightarrow> bool) \<Rightarrow> nat" where
  "sort_Search n f = search_loop f 0 n"

lemma search_loop_spec:
  assumes "\<And>a b. a \<le> b \<Longrightarrow> b < n \<Longrightarrow> f a \<Longrightarrow> f b"
    and "i \<le> j" and "j \<le> n"
    and "\<forall>k<i. \<not> f k" and "\<forall>k. j \<le> k \<and> k < n \<longrightarrow> f k"
  shows "search_loop f i j \<le> n \<and> (\<forall>k<(search_loop f i j). \<not> f k)
    \<and> (\<forall>k. search_loop f i j \<le> k \<and> k < n \<longrightarrow> f k)"
  using assms
proof (induction f i j rule: search_loop.induct)
  case (1 f i j)
  show ?case
  proof (cases "i < j")
    case False
    with "1.prems" show ?thesis by (subst (1 2 3) search_loop.simps) auto
  next
    case True
    define h where "h = (i + j) div 2"
    have h: "i \<le> h" "h < j" using True by (auto simp: h_def)
    show ?thesis
    proof (cases "f h")
      case True
      have up: "\<forall>k. h \<le> k \<and> k < n \<longrightarrow> f k" using "1.prems"(1) True by blast
      have "search_loop f i j = search_loop f i h"
        using True \<open>i < j\<close> by (subst search_loop.simps) (simp add: h_def [symmetric] Let_def)
      moreover have "search_loop f i h \<le> n \<and> (\<forall>k<(search_loop f i h). \<not> f k)
          \<and> (\<forall>k. search_loop f i h \<le> k \<and> k < n \<longrightarrow> f k)"
        using "1.IH"(2) [OF \<open>i < j\<close> h_def] True h "1.prems" up by auto
      ultimately show ?thesis by simp
    next
      case False
      have down: "\<forall>k<h + 1. \<not> f k"
      proof (intro allI impI notI)
        fix k assume "k < h + 1" and "f k"
        with "1.prems"(1) [of k h] h "1.prems"(3) have "f h" by simp
        with False show False by simp
      qed
      have "search_loop f i j = search_loop f (h + 1) j"
        using False \<open>i < j\<close> by (subst search_loop.simps) (simp add: h_def [symmetric] Let_def)
      moreover have "search_loop f (h + 1) j \<le> n \<and> (\<forall>k<(search_loop f (h + 1) j). \<not> f k)
          \<and> (\<forall>k. search_loop f (h + 1) j \<le> k \<and> k < n \<longrightarrow> f k)"
        using "1.IH"(1) [OF \<open>i < j\<close> h_def] False h "1.prems" down by auto
      ultimately show ?thesis by simp
    qed
  qed
qed

text \<open>On a list whose elements satisfy \<open>P\<close> from some point on, the search finds that point.\<close>

lemma sort_Search_spec:
  fixes P and xs
  defines "r \<equiv> sort_Search (length xs) (\<lambda>i. P (xs ! i))"
  assumes "sorted_wrt (\<lambda>x y. P x \<longrightarrow> P y) xs"
  shows "r \<le> length xs"
    and "k < r \<Longrightarrow> \<not> P (xs ! k)"
    and "r \<le> k \<Longrightarrow> k < length xs \<Longrightarrow> P (xs ! k)"
proof -
  have mono: "P (xs ! b)" if "a \<le> b" "b < length xs" "P (xs ! a)" for a b
    using that sorted_wrt_nth_less [OF assms(2), of a b] by (cases "a = b") auto
  have "r \<le> length xs \<and> (\<forall>k<r. \<not> P (xs ! k)) \<and> (\<forall>k. r \<le> k \<and> k < length xs \<longrightarrow> P (xs ! k))"
    unfolding r_def sort_Search_def
    by (rule search_loop_spec) (use mono in auto)
  then show "r \<le> length xs" and "k < r \<Longrightarrow> \<not> P (xs ! k)"
    and "r \<le> k \<Longrightarrow> k < length xs \<Longrightarrow> P (xs ! k)"
    by blast+
qed

end
