(* ===== verification/RangeMap.thy ===== *)
theory RangeMap
  imports GoSlice
begin

text \<open>
  \<^verbatim>\<open>server/util/rangemap/rangemap.go\<close>: a map from disjoint key ranges \<open>[left, right)\<close> to values, kept
  as a slice sorted by left bound and searched with \<^verbatim>\<open>sort.Search\<close>.

  The ranges are the records \<open>rng\<close> (the code holds pointers to them; nothing in this component
  writes through one), the map is a record with the one field \<open>ranges\<close>, a Go slice. The
  abstract state \<open>RangeMap_Lookup rm\<close> is a partial function from keys to values.
\<close>

section \<open>The code\<close>

datatype rm_error = RangeOverlapError | RangeDoesNotExistError

record 'v rng =
  rLeft :: bytes
  rRight :: bytes
  rVal :: 'v

definition Range_Contains :: "'v rng \<Rightarrow> bytes \<Rightarrow> bool" where
  "Range_Contains r key =
     (let greaterThanOrEqualToLeft = bytes_Compare key (rLeft r) > -1;
          lessThanRight = bytes_Compare key (rRight r) = -1
      in greaterThanOrEqualToLeft \<and> lessThanRight)"

record 'v RangeMap =
  ranges :: "'v rng slice"

definition RangeMap_New :: "'v RangeMap" where
  "RangeMap_New = \<lparr>ranges = empty_slice\<rparr>"

text \<open>The binary searches of \<open>Add\<close> (first range with \<open>Left \<ge> right\<close>) and of the look-ups (first
  range with \<open>Left > key\<close>).\<close>

definition first_left_ge :: "'v RangeMap \<Rightarrow> bytes \<Rightarrow> nat" where
  "first_left_ge rm right =
     sort_Search (slen (ranges rm)) (\<lambda>i. bytes_Compare (rLeft (elems (ranges rm) ! i)) right \<ge> 0)"

definition first_left_gt :: "'v RangeMap \<Rightarrow> bytes \<Rightarrow> nat" where
  "first_left_gt rm key =
     sort_Search (slen (ranges rm)) (\<lambda>i. bytes_Compare (rLeft (elems (ranges rm) ! i)) key > 0)"

definition RangeMap_Add :: "'v RangeMap \<Rightarrow> bytes \<Rightarrow> bytes \<Rightarrow> 'v \<Rightarrow> (rm_error + 'v rng) \<times> 'v RangeMap" where
  "RangeMap_Add rm left right v =
     (let n = slen (ranges rm);
          insertIndex = first_left_ge rm right in
      if n > 0 \<and> insertIndex > 0
         \<and> bytes_Compare (rRight (elems (ranges rm) ! (insertIndex - 1))) left > 0
      then (Inl RangeOverlapError, rm)
      else
        let newRange = \<lparr>rLeft = left, rRight = right, rVal = v\<rparr> in
        (Inr newRange,
         if insertIndex \<ge> n
         then rm\<lparr>ranges := slice_append (ranges rm) [newRange]\<rparr>
         else rm\<lparr>ranges := slice_set insertIndex newRange
                (slice_append (slice_to (insertIndex + 1) (ranges rm))
                   (drop insertIndex (elems (ranges rm))))\<rparr>))"

text \<open>The scan of \<open>Remove\<close> for the range with these bounds.\<close>

fun find_range :: "bytes \<Rightarrow> bytes \<Rightarrow> nat \<Rightarrow> 'v rng list \<Rightarrow> nat option" where
  "find_range left right i [] = None"
| "find_range left right i (r # rs) =
     (if bytes_Compare left (rLeft r) = 0 \<and> bytes_Compare right (rRight r) = 0 then Some i
      else find_range left right (Suc i) rs)"

definition RangeMap_Remove :: "'v RangeMap \<Rightarrow> bytes \<Rightarrow> bytes \<Rightarrow> rm_error option \<times> 'v RangeMap" where
  "RangeMap_Remove rm left right =
     (case find_range left right 0 (elems (ranges rm)) of
        None \<Rightarrow> (Some RangeDoesNotExistError, rm)
      | Some deleteIndex \<Rightarrow>
          (None, rm\<lparr>ranges := slice_append (slice_to deleteIndex (ranges rm))
                     (drop (deleteIndex + 1) (elems (ranges rm)))\<rparr>))"

text \<open>\<open>Get\<close> returns a pointer into the slice: its index, here.\<close>

definition RangeMap_Get :: "'v RangeMap \<Rightarrow> bytes \<Rightarrow> bytes \<Rightarrow> nat option" where
  "RangeMap_Get rm left right =
     (if slen (ranges rm) = 0 then None
      else
        let i0 = first_left_gt rm left;
            i = (if i0 > 0 then i0 - 1 else i0);
            r = elems (ranges rm) ! i in
        if bytes_Compare (rLeft r) left = 0 \<and> bytes_Compare (rRight r) right = 0
        then Some i else None)"

text \<open>
  \<open>GetOverlapping\<close> returns the sub-slice \<open>ranges[lo:hi]\<close>, which shares its array with the map:
  the pair \<open>(lo, hi)\<close>, or \<open>None\<close> for the run-time panic when \<open>lo > hi\<close>. The nil slice is \<open>(0, 0)\<close>.
\<close>

definition RangeMap_GetOverlapping :: "'v RangeMap \<Rightarrow> bytes \<Rightarrow> bytes \<Rightarrow> (nat \<times> nat) option" where
  "RangeMap_GetOverlapping rm left right =
     (if slen (ranges rm) = 0 then Some (0, 0)
      else
        let l0 = first_left_gt rm left;
            leftIndex = (if l0 > 0 \<and> Range_Contains (elems (ranges rm) ! (l0 - 1)) left then l0 - 1 else l0);
            r0 = first_left_gt rm right;
            rightIndex = (if r0 > 0 then r0 - 1 else r0) in
        if leftIndex \<le> rightIndex + 1 then Some (leftIndex, rightIndex + 1) else None)"

definition RangeMap_Lookup :: "'v RangeMap \<Rightarrow> bytes \<Rightarrow> 'v option" where
  "RangeMap_Lookup rm key =
     (if slen (ranges rm) = 0 then None
      else
        let i0 = first_left_gt rm key;
            i = (if i0 > 0 then i0 - 1 else i0) in
        if Range_Contains (elems (ranges rm) ! i) key then Some (rVal (elems (ranges rm) ! i)) else None)"

definition RangeMap_Ranges :: "'v RangeMap \<Rightarrow> 'v rng list" where
  "RangeMap_Ranges rm = elems (ranges rm)"

definition RangeMap_Clear :: "'v RangeMap \<Rightarrow> 'v RangeMap" where
  "RangeMap_Clear rm = rm\<lparr>ranges := empty_slice\<rparr>"

section \<open>The invariant\<close>

text \<open>The ranges are non-empty and each ends before the next begins.\<close>

definition before :: "'v rng \<Rightarrow> 'v rng \<Rightarrow> bool" where
  "before a b \<longleftrightarrow> rRight a \<le> rLeft b"

definition wf_ranges :: "'v rng list \<Rightarrow> bool" where
  "wf_ranges rs \<longleftrightarrow> (\<forall>r\<in>set rs. rLeft r < rRight r) \<and> sorted_wrt before rs"

definition wf_rm :: "'v RangeMap \<Rightarrow> bool" where
  "wf_rm rm \<longleftrightarrow> wf_slice (ranges rm) \<and> wf_ranges (elems (ranges rm))"

definition overlaps :: "bytes \<Rightarrow> bytes \<Rightarrow> 'v rng \<Rightarrow> bool" where
  "overlaps left right r \<longleftrightarrow> rLeft r < right \<and> left < rRight r"

lemma Range_Contains_iff [simp]: "Range_Contains r key \<longleftrightarrow> rLeft r \<le> key \<and> key < rRight r"
  by (simp add: Range_Contains_def Let_def)

lemma wf_ranges_Nil [simp]: "wf_ranges []"
  by (simp add: wf_ranges_def)

lemma wf_ranges_append:
  "wf_ranges (xs @ ys) \<longleftrightarrow> wf_ranges xs \<and> wf_ranges ys \<and> (\<forall>x\<in>set xs. \<forall>y\<in>set ys. before x y)"
  by (auto simp: wf_ranges_def sorted_wrt_append)

lemma wf_ranges_Cons:
  "wf_ranges (x # ys) \<longleftrightarrow> rLeft x < rRight x \<and> (\<forall>y\<in>set ys. before x y) \<and> wf_ranges ys"
  by (auto simp: wf_ranges_def)

lemma wf_ranges_left_mono:
  assumes "wf_ranges rs"
  shows "sorted_wrt (\<lambda>x y. rLeft x < rLeft y) rs"
proof -
  have "sorted_wrt before rs" and "\<forall>r\<in>set rs. rLeft r < rRight r"
    using assms by (simp_all add: wf_ranges_def)
  then show ?thesis
    by (induction rs) (auto simp: before_def)
qed

lemma wf_ranges_search:
  assumes "wf_ranges rs"
  shows "sorted_wrt (\<lambda>x y. k < rLeft x \<longrightarrow> k < rLeft y) rs"
    and "sorted_wrt (\<lambda>x y. k \<le> rLeft x \<longrightarrow> k \<le> rLeft y) rs"
  by (rule sorted_wrt_mono_rel [OF _ wf_ranges_left_mono [OF assms]]; force)+

text \<open>What the searches find.\<close>

lemma first_left_gt:
  assumes "wf_rm rm"
  shows "first_left_gt rm key \<le> slen (ranges rm)"
    and "k < first_left_gt rm key \<Longrightarrow> rLeft (elems (ranges rm) ! k) \<le> key"
    and "first_left_gt rm key \<le> k \<Longrightarrow> k < slen (ranges rm) \<Longrightarrow> key < rLeft (elems (ranges rm) ! k)"
proof -
  have wf: "wf_ranges (elems (ranges rm))" and len: "slen (ranges rm) = length (elems (ranges rm))"
    using assms by (simp_all add: wf_rm_def)
  note s = sort_Search_spec [OF wf_ranges_search(1) [OF wf, of key]]
  show "first_left_gt rm key \<le> slen (ranges rm)"
    and "k < first_left_gt rm key \<Longrightarrow> rLeft (elems (ranges rm) ! k) \<le> key"
    and "first_left_gt rm key \<le> k \<Longrightarrow> k < slen (ranges rm) \<Longrightarrow> key < rLeft (elems (ranges rm) ! k)"
    using s(1) s(2) [of k] s(3) [of k] by (simp_all only: first_left_gt_def len bytes_Compare_simps not_less)
qed

lemma first_left_ge:
  assumes "wf_rm rm"
  shows "first_left_ge rm key \<le> slen (ranges rm)"
    and "k < first_left_ge rm key \<Longrightarrow> rLeft (elems (ranges rm) ! k) < key"
    and "first_left_ge rm key \<le> k \<Longrightarrow> k < slen (ranges rm) \<Longrightarrow> key \<le> rLeft (elems (ranges rm) ! k)"
proof -
  have wf: "wf_ranges (elems (ranges rm))" and len: "slen (ranges rm) = length (elems (ranges rm))"
    using assms by (simp_all add: wf_rm_def)
  note s = sort_Search_spec [OF wf_ranges_search(2) [OF wf, of key]]
  show "first_left_ge rm key \<le> slen (ranges rm)"
    and "k < first_left_ge rm key \<Longrightarrow> rLeft (elems (ranges rm) ! k) < key"
    and "first_left_ge rm key \<le> k \<Longrightarrow> k < slen (ranges rm) \<Longrightarrow> key \<le> rLeft (elems (ranges rm) ! k)"
    using s(1) s(2) [of k] s(3) [of k] by (simp_all only: first_left_ge_def len bytes_Compare_simps not_le)
qed

lemma wf_rm_nth:
  assumes "wf_rm rm" and "j < slen (ranges rm)"
  shows "rLeft (elems (ranges rm) ! j) < rRight (elems (ranges rm) ! j)"
    and "i < j \<Longrightarrow> rRight (elems (ranges rm) ! i) \<le> rLeft (elems (ranges rm) ! j)"
  using assms by (auto simp: wf_rm_def wf_ranges_def before_def [symmetric] intro: sorted_wrt_nth_less)

section \<open>Lookup\<close>

text \<open>The range left of the search's result is the only one that can hold the key.\<close>

lemma lookup_index:
  assumes wf: "wf_rm rm" and k: "k < slen (ranges rm)" "Range_Contains (elems (ranges rm) ! k) key"
  shows "first_left_gt rm key = Suc k"
proof -
  let ?i = "first_left_gt rm key"
  have "k < ?i" using first_left_gt(3) [OF wf, of key k] k by force
  moreover have "?i \<le> Suc k"
  proof (rule ccontr)
    assume "\<not> ?i \<le> Suc k"
    then have "Suc k < ?i" by simp
    then have "rLeft (elems (ranges rm) ! Suc k) \<le> key" and "Suc k < slen (ranges rm)"
      using first_left_gt(1,2) [OF wf] by (auto intro: less_le_trans)
    with wf_rm_nth(2) [OF wf, of "Suc k" k] k(2) show False by auto
  qed
  ultimately show ?thesis by simp
qed

lemma Lookup_Some_iff:
  assumes wf: "wf_rm rm"
  shows "RangeMap_Lookup rm key = Some v \<longleftrightarrow>
    (\<exists>r\<in>set (elems (ranges rm)). Range_Contains r key \<and> rVal r = v)" (is "?l \<longleftrightarrow> ?r")
proof
  assume ?l
  then have n: "slen (ranges rm) \<noteq> 0"
    and *: "Range_Contains (elems (ranges rm) ! (first_left_gt rm key - 1)) key
      \<and> rVal (elems (ranges rm) ! (first_left_gt rm key - 1)) = v"
    by (auto simp: RangeMap_Lookup_def Let_def split: if_splits)
  have "first_left_gt rm key - 1 < length (elems (ranges rm))"
    using n first_left_gt(1) [OF wf, of key] wf by (simp add: wf_rm_def)
  with * show ?r by (metis nth_mem)
next
  assume ?r
  then obtain k where k: "k < slen (ranges rm)" "Range_Contains (elems (ranges rm) ! k) key"
      "rVal (elems (ranges rm) ! k) = v"
    using wf by (auto simp: in_set_conv_nth wf_rm_def)
  with lookup_index [OF wf k(1,2)] show ?l
    by (simp add: RangeMap_Lookup_def Let_def)
qed

lemma Lookup_None_iff:
  assumes "wf_rm rm"
  shows "RangeMap_Lookup rm key = None \<longleftrightarrow> (\<forall>r\<in>set (elems (ranges rm)). \<not> Range_Contains r key)"
  using Lookup_Some_iff [OF assms, of key] by (metis not_None_eq)

text \<open>Two maps with related ranges have related look-ups.\<close>

lemma Lookup_eqI:
  assumes "wf_rm rm" and "wf_rm rm'"
    and "\<And>r. Range_Contains r key \<Longrightarrow> r \<in> set (elems (ranges rm)) \<longleftrightarrow> r \<in> set (elems (ranges rm'))"
  shows "RangeMap_Lookup rm key = RangeMap_Lookup rm' key"
proof (cases "RangeMap_Lookup rm key")
  case None
  then have "RangeMap_Lookup rm' key = None"
    using assms Lookup_None_iff by blast
  with None show ?thesis by simp
next
  case (Some v)
  then obtain r where r: "r \<in> set (elems (ranges rm))" "Range_Contains r key" "rVal r = v"
    unfolding Lookup_Some_iff [OF assms(1)] by blast
  then have "r \<in> set (elems (ranges rm'))" using assms(3) by blast
  with r have "RangeMap_Lookup rm' key = Some v"
    unfolding Lookup_Some_iff [OF assms(2)] by blast
  with Some show ?thesis by simp
qed

section \<open>Add\<close>

lemma Add_overlap_iff:
  assumes wf: "wf_rm rm" and "left < right"
  shows "(\<exists>e. fst (RangeMap_Add rm left right v) = Inl e) \<longleftrightarrow> (\<exists>r\<in>set (elems (ranges rm)). overlaps left right r)"
    (is "?l \<longleftrightarrow> ?r")
proof
  let ?rs = "elems (ranges rm)" and ?i = "first_left_ge rm right"
  assume ?l
  then have n: "0 < slen (ranges rm)" "0 < ?i" "left < rRight (?rs ! (?i - 1))"
    by (auto simp: RangeMap_Add_def Let_def split: if_splits)
  then have "overlaps left right (?rs ! (?i - 1))"
    using first_left_ge(2) [OF wf, of "?i - 1" right] by (simp add: overlaps_def)
  moreover have "?i - 1 < length ?rs"
    using n first_left_ge(1) [OF wf, of right] wf by (simp add: wf_rm_def)
  ultimately show ?r by (metis nth_mem)
next
  let ?rs = "elems (ranges rm)" and ?i = "first_left_ge rm right"
  assume ?r
  then obtain k where k: "k < slen (ranges rm)" "overlaps left right (?rs ! k)"
    using wf by (auto simp: in_set_conv_nth wf_rm_def)
  have ki: "k < ?i" using first_left_ge(3) [OF wf, of right k] k by (force simp: overlaps_def)
  have "left < rRight (?rs ! (?i - 1))"
  proof (cases "k = ?i - 1")
    case True
    with k show ?thesis by (simp add: overlaps_def)
  next
    case False
    have i: "?i - 1 < slen (ranges rm)" using ki first_left_ge(1) [OF wf, of right] by simp
    have "left < rRight (?rs ! k)" using k by (simp add: overlaps_def)
    also have "\<dots> \<le> rLeft (?rs ! (?i - 1))"
      using wf_rm_nth(2) [OF wf i, of k] False ki by simp
    also have "\<dots> < rRight (?rs ! (?i - 1))" by (rule wf_rm_nth(1) [OF wf i])
    finally show ?thesis .
  qed
  with ki k show ?l by (simp add: RangeMap_Add_def Let_def)
qed

lemma Add_error_unchanged:
  "fst (RangeMap_Add rm left right v) = Inl e \<Longrightarrow> e = RangeOverlapError \<and> snd (RangeMap_Add rm left right v) = rm"
  by (auto simp: RangeMap_Add_def Let_def split: if_splits)

lemma Add_elems:
  assumes wf: "wf_rm rm" and ok: "fst (RangeMap_Add rm left right v) = Inr r"
  defines "i \<equiv> first_left_ge rm right"
  shows "r = \<lparr>rLeft = left, rRight = right, rVal = v\<rparr>"
    and "elems (ranges (snd (RangeMap_Add rm left right v)))
      = take i (elems (ranges rm)) @ \<lparr>rLeft = left, rRight = right, rVal = v\<rparr> # drop i (elems (ranges rm))"
    and "wf_slice (ranges (snd (RangeMap_Add rm left right v)))"
proof -
  have ws: "wf_slice (ranges rm)" and i: "i \<le> slen (ranges rm)"
    using wf first_left_ge(1) [OF wf, of right] by (simp_all add: wf_rm_def i_def)
  show "r = \<lparr>rLeft = left, rRight = right, rVal = v\<rparr>"
    using ok by (auto simp: RangeMap_Add_def Let_def split: if_splits)
  show "elems (ranges (snd (RangeMap_Add rm left right v)))
      = take i (elems (ranges rm)) @ \<lparr>rLeft = left, rRight = right, rVal = v\<rparr> # drop i (elems (ranges rm))"
    using ok ws i elems_insert_at [OF ws, of i] length_elems [OF ws]
    by (auto simp: RangeMap_Add_def Let_def i_def [symmetric] split: if_splits)
  show "wf_slice (ranges (snd (RangeMap_Add rm left right v)))"
    using ok ws i by (auto simp: RangeMap_Add_def Let_def i_def [symmetric] split: if_splits)
qed

lemma wf_ranges_split:
  assumes "wf_ranges rs"
  shows "wf_ranges (take i rs)" and "wf_ranges (drop i rs)"
    and "x \<in> set (take i rs) \<Longrightarrow> y \<in> set (drop i rs) \<Longrightarrow> before x y"
proof -
  have "wf_ranges (take i rs @ drop i rs)" using assms by simp
  then show "wf_ranges (take i rs)" and "wf_ranges (drop i rs)"
    and "x \<in> set (take i rs) \<Longrightarrow> y \<in> set (drop i rs) \<Longrightarrow> before x y"
    unfolding wf_ranges_append by blast+
qed

lemma wf_Add [inv_intro]:
  assumes wf: "wf_rm rm" and lr: "left < right"
  shows "wf_rm (snd (RangeMap_Add rm left right v))"
proof (cases "fst (RangeMap_Add rm left right v)")
  case (Inl e)
  with Add_error_unchanged [OF Inl] wf show ?thesis by simp
next
  case (Inr r)
  let ?rs = "elems (ranges rm)" and ?i = "first_left_ge rm right"
    and ?new = "\<lparr>rLeft = left, rRight = right, rVal = v\<rparr>"
  have wr: "wf_ranges ?rs" using wf by (simp add: wf_rm_def)
  have "\<forall>r\<in>set ?rs. \<not> overlaps left right r"
    using Add_overlap_iff [OF wf lr, of v] Inr by auto
  then have left: "before x ?new" if "x \<in> set (take ?i ?rs)" for x
    using that first_left_ge(2) [OF wf, of _ right] in_set_takeD [OF that]
    by (force simp: overlaps_def before_def in_set_conv_nth)
  have right: "before ?new y" if "y \<in> set (drop ?i ?rs)" for y
    using that first_left_ge(3) [OF wf, of right] wf
    by (force simp: before_def in_set_conv_nth wf_rm_def)
  have "wf_ranges (take ?i ?rs @ ?new # drop ?i ?rs)"
    unfolding wf_ranges_append wf_ranges_Cons
    using wf_ranges_split [OF wr] left right lr by auto
  with Add_elems [OF wf Inr] show ?thesis by (simp add: wf_rm_def)
qed

text \<open>A successful \<open>Add\<close> overrides the look-up on its range and nowhere else.\<close>

lemma Lookup_Add [abs_simps]:
  assumes wf: "wf_rm rm" and lr: "left < right" and ok: "fst (RangeMap_Add rm left right v) = Inr r"
  shows "RangeMap_Lookup (snd (RangeMap_Add rm left right v)) key =
    (if left \<le> key \<and> key < right then Some v else RangeMap_Lookup rm key)"
proof -
  let ?rm' = "snd (RangeMap_Add rm left right v)"
  have wf': "wf_rm ?rm'" by (rule wf_Add [OF wf lr])
  have set: "set (elems (ranges ?rm')) = insert \<lparr>rLeft = left, rRight = right, rVal = v\<rparr> (set (elems (ranges rm)))"
    unfolding Add_elems(2) [OF wf ok]
    by (metis append_take_drop_id list.simps(15) set_append Un_insert_right)
  show ?thesis
  proof (cases "left \<le> key \<and> key < right")
    case True
    then have "RangeMap_Lookup ?rm' key = Some v"
      unfolding Lookup_Some_iff [OF wf'] set by (intro bexI [OF _ insertI1]) simp
    with True show ?thesis by simp
  next
    case False
    then show ?thesis
      by (simp only: if_False) (rule Lookup_eqI [OF wf' wf], unfold set, auto)
  qed
qed

section \<open>Remove\<close>

lemma find_range_Some:
  "find_range left right i rs = Some d \<Longrightarrow>
    i \<le> d \<and> d - i < length rs \<and> rLeft (rs ! (d - i)) = left \<and> rRight (rs ! (d - i)) = right"
proof (induction rs arbitrary: i)
  case Nil
  then show ?case by simp
next
  case (Cons r rs)
  show ?case
  proof (cases "left = rLeft r \<and> right = rRight r")
    case True
    with Cons.prems show ?thesis by auto
  next
    case False
    with Cons.prems have "find_range left right (Suc i) rs = Some d" by auto
    from Cons.IH [OF this] show ?thesis by (auto simp: nth_Cons' Suc_diff_le)
  qed
qed

lemma find_range_None:
  "find_range left right i rs = None \<longleftrightarrow> (\<forall>r\<in>set rs. \<not> (rLeft r = left \<and> rRight r = right))"
  by (induction rs arbitrary: i) auto

lemma wf_Remove [inv_intro]:
  assumes "wf_rm rm"
  shows "wf_rm (snd (RangeMap_Remove rm left right))"
proof (cases "find_range left right 0 (elems (ranges rm))")
  case None
  with assms show ?thesis by (simp add: RangeMap_Remove_def)
next
  case (Some d)
  have ws: "wf_slice (ranges rm)" and wr: "wf_ranges (elems (ranges rm))"
    using assms by (simp_all add: wf_rm_def)
  have d: "d < slen (ranges rm)" using find_range_Some [OF Some] ws by simp
  have "wf_ranges (take d (elems (ranges rm)) @ drop (Suc d) (elems (ranges rm)))"
    unfolding wf_ranges_append
  proof (intro conjI ballI)
    fix x y
    assume "x \<in> set (take d (elems (ranges rm)))" and "y \<in> set (drop (Suc d) (elems (ranges rm)))"
    then show "before x y"
      using wf_ranges_split(3) [OF wr, of x d y] set_drop_subset_set_drop [of d "Suc d" "elems (ranges rm)"]
      by auto
  qed (rule wf_ranges_split [OF wr])+
  with Some ws d show ?thesis by (simp add: RangeMap_Remove_def wf_rm_def)
qed

lemma Remove_elems:
  assumes wf: "wf_rm rm" and "find_range left right 0 (elems (ranges rm)) = Some d"
  shows "d < slen (ranges rm)"
    and "elems (ranges (snd (RangeMap_Remove rm left right)))
      = take d (elems (ranges rm)) @ drop (Suc d) (elems (ranges rm))"
    and "set (elems (ranges (snd (RangeMap_Remove rm left right))))
      = {r \<in> set (elems (ranges rm)). \<not> (rLeft r = left \<and> rRight r = right)}"
proof -
  let ?rs = "elems (ranges rm)"
  have ws: "wf_slice (ranges rm)" and wr: "wf_ranges ?rs" using wf by (simp_all add: wf_rm_def)
  have d: "d < length ?rs" "rLeft (?rs ! d) = left" "rRight (?rs ! d) = right"
    using find_range_Some [OF assms(2)] by auto
  then show "d < slen (ranges rm)" using ws by simp
  with assms(2) ws show el: "elems (ranges (snd (RangeMap_Remove rm left right))) = take d ?rs @ drop (Suc d) ?rs"
    by (simp add: RangeMap_Remove_def)
  have "sorted_wrt (<) (map rLeft ?rs)"
    using wf_ranges_left_mono [OF wr] by (simp add: sorted_wrt_map)
  then have "distinct (map rLeft ?rs)" by (simp only: strict_sorted_iff)
  then have dist: "distinct ?rs" and inj: "inj_on rLeft (set ?rs)" by (simp_all add: distinct_map)
  have "set (take d ?rs @ drop (Suc d) ?rs) = set ?rs - {?rs ! d}"
    by (rule set_take_drop_Suc [OF dist d(1)])
  also have "\<dots> = {r \<in> set ?rs. \<not> (rLeft r = left \<and> rRight r = right)}"
    using d inj by (auto dest: inj_onD [where y = "?rs ! d"])
  finally show "set (elems (ranges (snd (RangeMap_Remove rm left right))))
      = {r \<in> set ?rs. \<not> (rLeft r = left \<and> rRight r = right)}"
    unfolding el .
qed

lemma Lookup_Remove [abs_simps]:
  assumes wf: "wf_rm rm"
  shows "RangeMap_Lookup (snd (RangeMap_Remove rm left right)) key =
    (if fst (RangeMap_Remove rm left right) = None \<and> left \<le> key \<and> key < right then None
     else RangeMap_Lookup rm key)"
proof (cases "find_range left right 0 (elems (ranges rm))")
  case None
  then show ?thesis by (simp add: RangeMap_Remove_def)
next
  case (Some d)
  let ?rs = "elems (ranges rm)" and ?rm' = "snd (RangeMap_Remove rm left right)"
  note set = Remove_elems(3) [OF wf Some]
  have wf': "wf_rm ?rm'" by (rule wf_Remove [OF wf])
  have d: "d < slen (ranges rm)" "rLeft (?rs ! d) = left" "rRight (?rs ! d) = right"
    using Remove_elems(1) [OF wf Some] find_range_Some [OF Some] by auto
  have ok: "fst (RangeMap_Remove rm left right) = None" using Some by (simp add: RangeMap_Remove_def)
  show ?thesis
  proof (cases "left \<le> key \<and> key < right")
    case False
    then show ?thesis
      by (simp only: ok simp_thms if_False) (rule Lookup_eqI [OF wf' wf], unfold set, auto)
  next
    case True
    have "r = ?rs ! d" if "r \<in> set ?rs" "Range_Contains r key" for r
    proof -
      from that(1) obtain k where k: "k < slen (ranges rm)" "r = ?rs ! k"
        using wf by (auto simp: in_set_conv_nth wf_rm_def)
      then have "Suc k = Suc d"
        using lookup_index [OF wf, of k key] lookup_index [OF wf, of d key] that(2) d True by simp
      with k show ?thesis by simp
    qed
    then have "RangeMap_Lookup ?rm' key = None"
      unfolding Lookup_None_iff [OF wf'] set using d by blast
    with True ok show ?thesis by simp
  qed
qed

section \<open>Get and GetOverlapping\<close>

lemma Get_Some_iff:
  assumes wf: "wf_rm rm"
  shows "RangeMap_Get rm left right = Some i \<longleftrightarrow>
    i < slen (ranges rm) \<and> rLeft (elems (ranges rm) ! i) = left \<and> rRight (elems (ranges rm) ! i) = right"
    (is "?l \<longleftrightarrow> ?r")
proof
  assume ?l
  then have "0 < slen (ranges rm)" and "i = first_left_gt rm left - 1"
    and "rLeft (elems (ranges rm) ! i) = left \<and> rRight (elems (ranges rm) ! i) = right"
    by (auto simp: RangeMap_Get_def Let_def split: if_splits)
  with first_left_gt(1) [OF wf, of left] show ?r by auto
next
  assume r: ?r
  then have "left < right" using wf_rm_nth(1) [OF wf, of i] by simp
  with r have "first_left_gt rm left = Suc i" by (intro lookup_index [OF wf]) auto
  with r show ?l by (simp add: RangeMap_Get_def Let_def)
qed

lemma GetOverlapping_bounds:
  assumes wf: "wf_rm rm" and lr: "left < right" and ne: "0 < slen (ranges rm)"
  shows "\<exists>lo hi. RangeMap_GetOverlapping rm left right = Some (lo, hi) \<and> lo \<le> hi \<and> hi \<le> slen (ranges rm)
    \<and> hi = max 1 (first_left_gt rm right)
    \<and> lo = (if 0 < first_left_gt rm left \<and> Range_Contains (elems (ranges rm) ! (first_left_gt rm left - 1)) left
            then first_left_gt rm left - 1 else first_left_gt rm left)"
proof -
  have "first_left_gt rm left \<le> first_left_gt rm right"
  proof (rule ccontr)
    assume "\<not> first_left_gt rm left \<le> first_left_gt rm right"
    then have lt: "first_left_gt rm right < first_left_gt rm left" by simp
    then have "first_left_gt rm right < slen (ranges rm)"
      using first_left_gt(1) [OF wf, of left] by simp
    with first_left_gt(2) [OF wf lt] first_left_gt(3) [OF wf order_refl, of right] lr
    show False by auto
  qed
  then show ?thesis
    using ne first_left_gt(1) [OF wf, of right]
    by (auto simp: RangeMap_GetOverlapping_def Let_def max_def)
qed

lemma GetOverlapping_complete:
  assumes wf: "wf_rm rm" and lr: "left < right" and k: "k < slen (ranges rm)"
    and ov: "overlaps left right (elems (ranges rm) ! k)"
    and g: "RangeMap_GetOverlapping rm left right = Some (lo, hi)"
  shows "lo \<le> k \<and> k < hi"
proof -
  let ?rs = "elems (ranges rm)" and ?l = "first_left_gt rm left"
  have ne: "0 < slen (ranges rm)" using k by simp
  obtain lo' hi' where *: "Some (lo, hi) = Some (lo', hi')" "hi' = max 1 (first_left_gt rm right)"
      "lo' = (if 0 < ?l \<and> Range_Contains (?rs ! (?l - 1)) left then ?l - 1 else ?l)"
    using GetOverlapping_bounds [OF wf lr ne] g by auto
  have "k < first_left_gt rm right"
    using first_left_gt(3) [OF wf, of right k] k ov by (force simp: overlaps_def)
  then have hi: "k < hi" using * by simp
  have "lo \<le> k"
  proof (cases "?l \<le> k")
    case True
    with * show ?thesis by (auto split: if_splits)
  next
    case False
    then have "rLeft (?rs ! k) \<le> left" using first_left_gt(2) [OF wf] by simp
    with ov have "Range_Contains (?rs ! k) left" by (simp add: overlaps_def)
    with lookup_index [OF wf k this] * show ?thesis by simp
  qed
  with hi show ?thesis by simp
qed

lemma GetOverlapping_sound:
  assumes wf: "wf_rm rm" and lr: "left < right" and k: "lo \<le> k" "k < hi"
    and g: "RangeMap_GetOverlapping rm left right = Some (lo, hi)"
  shows "k < slen (ranges rm)
    \<and> (overlaps left right (elems (ranges rm) ! k) \<or> rLeft (elems (ranges rm) ! k) = right
      \<or> (k = 0 \<and> right < rLeft (elems (ranges rm) ! 0)))"
proof -
  let ?rs = "elems (ranges rm)" and ?l = "first_left_gt rm left" and ?r = "first_left_gt rm right"
  have ne: "0 < slen (ranges rm)" using g k by (cases "slen (ranges rm) = 0") (auto simp: RangeMap_GetOverlapping_def)
  obtain lo' hi' where *: "Some (lo, hi) = Some (lo', hi')" "hi' = max 1 ?r" "hi' \<le> slen (ranges rm)"
      "lo' = (if 0 < ?l \<and> Range_Contains (?rs ! (?l - 1)) left then ?l - 1 else ?l)"
    using GetOverlapping_bounds [OF wf lr ne] g by auto
  have klen: "k < slen (ranges rm)" using *(1,3) k by simp
  show ?thesis
  proof (cases "k < ?r")
    case False
    with * k have "k = 0" "?r = 0" by (auto simp: max_def split: if_splits)
    with first_left_gt(3) [OF wf, of right 0] ne show ?thesis by simp
  next
    case True
    have "left < rRight (?rs ! k)"
    proof (cases "?l \<le> k")
      case True
      then have "left < rLeft (?rs ! k)" using first_left_gt(3) [OF wf] klen by simp
      also have "\<dots> < rRight (?rs ! k)" by (rule wf_rm_nth(1) [OF wf klen])
      finally show ?thesis .
    next
      case False
      with *(1,4) k(1) have "k = ?l - 1" and "Range_Contains (?rs ! (?l - 1)) left"
        by (auto split: if_splits)
      then show ?thesis by simp
    qed
    with first_left_gt(2) [OF wf True] klen show ?thesis by (auto simp: overlaps_def)
  qed
qed

section \<open>The interface and its clients\<close>

text \<open>
  What a client of the range map relies on. \<open>apply_updates\<close> below is such a client: a run of
  removals followed by one addition, as the range cache performs it.
\<close>

locale range_index =
  fixes inv :: "'m \<Rightarrow> bool"
    and lookup :: "'m \<Rightarrow> bytes \<Rightarrow> 'v option"
    and add :: "'m \<Rightarrow> bytes \<Rightarrow> bytes \<Rightarrow> 'v \<Rightarrow> (rm_error + 'v rng) \<times> 'm"
    and remove :: "'m \<Rightarrow> bytes \<Rightarrow> bytes \<Rightarrow> rm_error option \<times> 'm"
  assumes inv_add: "inv m \<Longrightarrow> l < r \<Longrightarrow> inv (snd (add m l r v))"
    and inv_remove: "inv m \<Longrightarrow> inv (snd (remove m l r))"
    and lookup_add_ok: "inv m \<Longrightarrow> l < r \<Longrightarrow> fst (add m l r v) = Inr x \<Longrightarrow>
      lookup (snd (add m l r v)) k = (if l \<le> k \<and> k < r then Some v else lookup m k)"
    and add_error: "fst (add m l r v) = Inl e \<Longrightarrow> snd (add m l r v) = m"
    and lookup_remove: "inv m \<Longrightarrow> lookup (snd (remove m l r)) k =
      (if fst (remove m l r) = None \<and> l \<le> k \<and> k < r then None else lookup m k)"
begin

primrec remove_all :: "(bytes \<times> bytes) list \<Rightarrow> 'm \<Rightarrow> 'm" where
  "remove_all [] m = m"
| "remove_all (b # bs) m = remove_all bs (snd (remove m (fst b) (snd b)))"

lemma inv_remove_all: "inv m \<Longrightarrow> inv (remove_all bs m)"
  by (induction bs arbitrary: m) (auto intro: inv_remove)

lemma lookup_remove_all: "inv m \<Longrightarrow> lookup (remove_all bs m) k \<in> {lookup m k, None}"
proof (induction bs arbitrary: m)
  case Nil
  then show ?case by simp
next
  case (Cons b bs)
  have "lookup (remove_all bs (snd (remove m (fst b) (snd b)))) k
      \<in> {lookup (snd (remove m (fst b) (snd b))) k, None}"
    by (rule Cons.IH [OF inv_remove [OF Cons.prems]])
  then show ?case by (auto simp: lookup_remove [OF Cons.prems] split: if_splits)
qed

lemma inv_replace: "inv m \<Longrightarrow> l < r \<Longrightarrow> inv (snd (add (remove_all bs m) l r v))"
  by (intro inv_add inv_remove_all)

lemma lookup_replace:
  assumes "inv m" and "l < r"
  shows "lookup (snd (add (remove_all bs m) l r v)) k \<in> {lookup m k, None} \<union> (if l \<le> k \<and> k < r then {Some v} else {})"
proof (cases "fst (add (remove_all bs m) l r v)")
  case (Inl e)
  with lookup_remove_all [OF assms(1), of bs k] add_error [OF Inl] show ?thesis by auto
next
  case (Inr x)
  with lookup_remove_all [OF assms(1), of bs k] assms(2)
  show ?thesis by (auto simp: lookup_add_ok [OF inv_remove_all [OF assms(1)] assms(2) Inr])
qed

end

interpretation rm: range_index wf_rm RangeMap_Lookup RangeMap_Add RangeMap_Remove
proof unfold_locales
  show "snd (RangeMap_Add m l r v) = m" if "fst (RangeMap_Add m l r v) = Inl e" for m :: "'a RangeMap" and l r v e
    using Add_error_unchanged [OF that] by simp
qed (auto intro: inv_intro simp: abs_simps)

section \<open>Properties\<close>

text \<open>C2: \<open>Add\<close> of a non-empty range to a well-formed range map refines the insertion into a map
  from keys to values: it fails with the overlap error, changing nothing, exactly when some stored
  range overlaps \<open>[left, right)\<close>; otherwise the map stays well-formed and every look-up
  in \<open>[left, right)\<close> yields the new value, every other look-up what it yielded before.\<close>

theorem RangeMap_Add_refines:
  assumes "wf_rm rm" and "left < right"
  shows "case RangeMap_Add rm left right v of
      (Inl e, rm') \<Rightarrow> e = RangeOverlapError \<and> rm' = rm \<and> (\<exists>r\<in>set (RangeMap_Ranges rm). overlaps left right r)
    | (Inr r, rm') \<Rightarrow> (\<forall>r\<in>set (RangeMap_Ranges rm). \<not> overlaps left right r) \<and> wf_rm rm'
        \<and> RangeMap_Lookup rm' = (\<lambda>key. if left \<le> key \<and> key < right then Some v else RangeMap_Lookup rm key)"
proof (cases "fst (RangeMap_Add rm left right v)")
  case (Inl e)
  with Add_error_unchanged [OF Inl] Add_overlap_iff [OF assms, of v] show ?thesis
    by (auto simp: RangeMap_Ranges_def split: prod.split)
next
  case (Inr r)
  with Add_overlap_iff [OF assms, of v] wf_Add [OF assms, of v] Lookup_Add [OF assms Inr] show ?thesis
    by (auto simp: RangeMap_Ranges_def fun_eq_iff split: prod.split)
qed

definition example_rm :: "nat RangeMap" where
  "example_rm = \<lparr>ranges = \<lparr>backing = [\<lparr>rLeft = [1], rRight = [5], rVal = 10\<rparr>, \<lparr>rLeft = [5], rRight = [9], rVal = 20\<rparr>], slen = 2\<rparr>\<rparr>"

lemma wf_example_rm: "wf_rm example_rm"
  by (simp add: example_rm_def wf_rm_def wf_slice_def elems_def wf_ranges_def before_def)

theorem RangeMap_Add_refines_witness:
  "case RangeMap_Add example_rm [9] [12] 30 of
      (Inl e, rm') \<Rightarrow> e = RangeOverlapError \<and> rm' = example_rm \<and> (\<exists>r\<in>set (RangeMap_Ranges example_rm). overlaps [9] [12] r)
    | (Inr r, rm') \<Rightarrow> (\<forall>r\<in>set (RangeMap_Ranges example_rm). \<not> overlaps [9] [12] r) \<and> wf_rm rm'
        \<and> RangeMap_Lookup rm' = (\<lambda>key. if [9] \<le> key \<and> key < [12] then Some 30 else RangeMap_Lookup example_rm key)"
  by (rule RangeMap_Add_refines [OF wf_example_rm]) simp

text \<open>The binary search of \<open>Lookup\<close> is equivalent to a linear scan: on a well-formed map it
  returns the value of the first (and only) stored range that contains the key, and nil if there is none.\<close>

theorem RangeMap_Lookup_eq_find:
  assumes "wf_rm rm"
  shows "RangeMap_Lookup rm key = map_option rVal (find (\<lambda>r. Range_Contains r key) (RangeMap_Ranges rm))"
proof (cases "find (\<lambda>r. Range_Contains r key) (RangeMap_Ranges rm)")
  case None
  then have "RangeMap_Lookup rm key = None"
    unfolding Lookup_None_iff [OF assms] by (auto simp: find_None_iff RangeMap_Ranges_def)
  with None show ?thesis by simp
next
  case (Some r)
  then have "r \<in> set (elems (ranges rm))" and "Range_Contains r key"
    by (auto simp: find_Some_iff RangeMap_Ranges_def)
  then have "RangeMap_Lookup rm key = Some (rVal r)"
    unfolding Lookup_Some_iff [OF assms] by blast
  with Some show ?thesis by simp
qed

theorem RangeMap_Lookup_eq_find_witness:
  "RangeMap_Lookup example_rm [7] = map_option rVal (find (\<lambda>r. Range_Contains r [7]) (RangeMap_Ranges example_rm))
    \<and> RangeMap_Lookup example_rm [7] = Some 20"
  using RangeMap_Lookup_eq_find [OF wf_example_rm, of "[7]"]
  by (simp add: RangeMap_Ranges_def example_rm_def elems_def)

text \<open>\<open>GetOverlapping\<close> on a non-empty well-formed map and a non-empty interval never panics; the
  sub-slice it returns holds every stored range that overlaps \<open>[left, right)\<close>, and a
  range it holds overlaps the interval, or begins exactly at its excluded right end, or is the
  first range of the map and lies wholly to the right of the interval (the two cases in which the result is
  larger than the set of overlapping ranges).\<close>

theorem RangeMap_GetOverlapping_spec:
  assumes "wf_rm rm" and "left < right" and "RangeMap_Ranges rm \<noteq> []"
  shows "\<exists>lo hi. RangeMap_GetOverlapping rm left right = Some (lo, hi) \<and> hi \<le> length (RangeMap_Ranges rm)
    \<and> (\<forall>k<length (RangeMap_Ranges rm). overlaps left right (RangeMap_Ranges rm ! k) \<longrightarrow> lo \<le> k \<and> k < hi)
    \<and> (\<forall>k. lo \<le> k \<and> k < hi \<longrightarrow> overlaps left right (RangeMap_Ranges rm ! k)
          \<or> rLeft (RangeMap_Ranges rm ! k) = right
          \<or> (k = 0 \<and> right < rLeft (RangeMap_Ranges rm ! 0)))"
proof -
  have len: "length (RangeMap_Ranges rm) = slen (ranges rm)" using assms(1) by (simp add: RangeMap_Ranges_def wf_rm_def)
  with assms(3) have ne: "0 < slen (ranges rm)" by (metis length_greater_0_conv)
  obtain lo hi where g: "RangeMap_GetOverlapping rm left right = Some (lo, hi)" "hi \<le> slen (ranges rm)"
    using GetOverlapping_bounds [OF assms(1,2) ne] by auto
  with GetOverlapping_complete [OF assms(1,2) _ _ g(1)] GetOverlapping_sound [OF assms(1,2) _ _ g(1)]
  show ?thesis unfolding len by (auto simp: RangeMap_Ranges_def)
qed

theorem RangeMap_GetOverlapping_spec_witness:
  "\<exists>lo hi. RangeMap_GetOverlapping example_rm [2] [5] = Some (lo, hi) \<and> hi \<le> length (RangeMap_Ranges example_rm)
    \<and> (\<forall>k<length (RangeMap_Ranges example_rm). overlaps [2] [5] (RangeMap_Ranges example_rm ! k) \<longrightarrow> lo \<le> k \<and> k < hi)
    \<and> (\<forall>k. lo \<le> k \<and> k < hi \<longrightarrow> overlaps [2] [5] (RangeMap_Ranges example_rm ! k)
          \<or> rLeft (RangeMap_Ranges example_rm ! k) = [5]
          \<or> (k = 0 \<and> [5] < rLeft (RangeMap_Ranges example_rm ! 0)))"
  by (rule RangeMap_GetOverlapping_spec [OF wf_example_rm])
    (simp_all add: RangeMap_Ranges_def example_rm_def elems_def)

end
