(* ===== verification/RangeCache.thy ===== *)
theory RangeCache
  imports RangeMap "HOL-Library.Multiset"
begin

text \<open>
  \<^verbatim>\<open>enterprise/server/raft/rangecache/rangecache.go\<close>: what a node knows of which replicas hold
  which key range, learnt from gossip. It is a client of the range map whose values
  are range descriptors; a descriptor replaces what it overlaps only if its generation is newer.

  A range-map value is a Go \<^verbatim>\<open>interface{}\<close>: \<open>Some rd\<close> is a \<^verbatim>\<open>*RangeDescriptor\<close>, \<open>None\<close> a value of
  another dynamic type (for which the type assertions of the code fail). Protobuf decoding is the
  parameter \<open>unmarshal\<close>. Descriptors are cloned on their way in, so the store holds values.
\<close>

section \<open>The code\<close>

text \<open>The messages of \<^verbatim>\<open>proto/raft.proto\<close>.\<close>

record ReplicaDescriptor =
  cluster_id :: u64
  node_id :: u64

record RangeDescriptor =
  rdLeft :: bytes
  rdRight :: bytes
  range_id :: u64
  replicas :: "ReplicaDescriptor list"
  generation :: u64

type_synonym range_val = "RangeDescriptor option"

datatype rc_error = RangeMapError rm_error | StatusError error

record RangeCache =
  rangeMap :: "range_val RangeMap"

definition RangeCache_New :: RangeCache where
  "RangeCache_New = \<lparr>rangeMap = RangeMap_New\<rparr>"

text \<open>The first loop of \<open>updateRange\<close>: is some range of the sub-slice at least as new?\<close>

definition same_or_later :: "RangeDescriptor \<Rightarrow> range_val rng list \<Rightarrow> bool" where
  "same_or_later newDescriptor view \<longleftrightarrow>
     list_ex (\<lambda>r. case rVal r of None \<Rightarrow> False | Some v \<Rightarrow> generation v \<ge> generation newDescriptor) view"

text \<open>
  The second loop: the sub-slice being iterated over is a window of the array that \<open>Remove\<close>
  shifts in place, so every iteration reads the array as the removals before it have left it.
\<close>

fun remove_view :: "nat list \<Rightarrow> 'v RangeMap \<Rightarrow> 'v RangeMap" where
  "remove_view [] rm = rm"
| "remove_view (p # ps) rm =
     (let overlappingRange = backing (ranges rm) ! p in
      remove_view ps (snd (RangeMap_Remove rm (rLeft overlappingRange) (rRight overlappingRange))))"

definition updateRange :: "RangeCache \<Rightarrow> RangeDescriptor \<Rightarrow> (rc_error option \<times> RangeCache) option" where
  "updateRange rc newDescriptor =
     (let left = rdLeft newDescriptor; right = rdRight newDescriptor; rm = rangeMap rc in
      case RangeMap_Get rm left right of
        None \<Rightarrow>
          (case RangeMap_GetOverlapping rm left right of
             None \<Rightarrow> None
           | Some (lo, hi) \<Rightarrow>
               if same_or_later newDescriptor (drop lo (take hi (elems (ranges rm)))) then Some (None, rc)
               else
                 (case RangeMap_Add (remove_view [lo..<hi] rm) left right (Some newDescriptor) of
                    (Inl e, rm') \<Rightarrow> Some (Some (RangeMapError e), rc\<lparr>rangeMap := rm'\<rparr>)
                  | (Inr _, rm') \<Rightarrow> Some (None, rc\<lparr>rangeMap := rm'\<rparr>)))
      | Some i \<Rightarrow>
          let r = elems (ranges rm) ! i in
          (case rVal r of
             None \<Rightarrow> Some (Some (StatusError (Err FailedPrecondition ''Val was not a rangeVal'')), rc)
           | Some v \<Rightarrow>
               if generation newDescriptor > generation v
               then Some (None, rc\<lparr>rangeMap := rm\<lparr>ranges := slice_set i (r\<lparr>rVal := Some newDescriptor\<rparr>) (ranges rm)\<rparr>\<rparr>)
               else Some (None, rc)))"

definition RangeCache_UpdateRange :: "RangeCache \<Rightarrow> RangeDescriptor \<Rightarrow> (rc_error option \<times> RangeCache) option" where
  "RangeCache_UpdateRange rc rangeDescriptor = updateRange rc rangeDescriptor"

text \<open>Gossip events: the members' tags, of which only the meta-range tag is read.\<close>

datatype EventType = EventMemberJoin | EventMemberUpdate | OtherEventType
datatype Event = MemberEvent "(string \<rightharpoonup> bytes) list" | OtherEvent

definition MetaRangeTag :: string where
  "MetaRangeTag = ''meta_range''"

fun OnEvent_members :: "(bytes \<Rightarrow> RangeDescriptor option) \<Rightarrow> (string \<rightharpoonup> bytes) list \<Rightarrow> RangeCache \<Rightarrow> RangeCache option" where
  "OnEvent_members unmarshal [] rc = Some rc"
| "OnEvent_members unmarshal (tags # members) rc =
     (case tags MetaRangeTag of
        None \<Rightarrow> OnEvent_members unmarshal members rc
      | Some tagData \<Rightarrow>
          (case unmarshal tagData of
             None \<Rightarrow> Some rc
           | Some rd \<Rightarrow>
               (case updateRange rc rd of
                  None \<Rightarrow> None
                | Some (_, rc') \<Rightarrow> OnEvent_members unmarshal members rc')))"

definition OnEvent :: "(bytes \<Rightarrow> RangeDescriptor option) \<Rightarrow> EventType \<Rightarrow> Event \<Rightarrow> RangeCache \<Rightarrow> RangeCache option" where
  "OnEvent unmarshal updateType event rc =
     (if updateType = EventMemberJoin \<or> updateType = EventMemberUpdate
      then OnEvent_members unmarshal (case event of MemberEvent ms \<Rightarrow> ms | OtherEvent \<Rightarrow> []) rc
      else Some rc)"

fun replica_index :: "ReplicaDescriptor \<Rightarrow> nat \<Rightarrow> ReplicaDescriptor list \<Rightarrow> nat option" where
  "replica_index rep i [] = None"
| "replica_index rep i (replica # rs) =
     (if cluster_id replica = cluster_id rep \<and> node_id replica = node_id rep then Some i
      else replica_index rep (Suc i) rs)"

definition SetPreferredReplica :: "ReplicaDescriptor \<Rightarrow> RangeDescriptor \<Rightarrow> RangeCache \<Rightarrow> RangeCache" where
  "SetPreferredReplica rep rng rc =
     (let rm = rangeMap rc in
      case RangeMap_Get rm (rdLeft rng) (rdRight rng) of
        None \<Rightarrow> rc
      | Some i \<Rightarrow>
          let r = elems (ranges rm) ! i in
          (case rVal r of
             None \<Rightarrow> rc
           | Some rd \<Rightarrow>
               (case replica_index rep 0 (replicas rd) of
                  None \<Rightarrow> rc
                | Some leadReplicaIndex \<Rightarrow>
                    let reps = replicas rd;
                        reps' = reps[0 := reps ! leadReplicaIndex, leadReplicaIndex := reps ! 0] in
                    rc\<lparr>rangeMap := rm\<lparr>ranges := slice_set i (r\<lparr>rVal := Some (rd\<lparr>replicas := reps'\<rparr>)\<rparr>) (ranges rm)\<rparr>\<rparr>)))"

definition RangeCache_Get :: "RangeCache \<Rightarrow> bytes \<Rightarrow> RangeDescriptor option" where
  "RangeCache_Get rc key =
     (case RangeMap_Lookup (rangeMap rc) key of Some (Some rv) \<Rightarrow> Some rv | _ \<Rightarrow> None)"

section \<open>Writing a stored value in place\<close>

abbreviation set_val :: "nat \<Rightarrow> 'v \<Rightarrow> 'v RangeMap \<Rightarrow> 'v RangeMap" where
  "set_val i v rm \<equiv> rm\<lparr>ranges := slice_set i ((elems (ranges rm) ! i)\<lparr>rVal := v\<rparr>) (ranges rm)\<rparr>"

lemma wf_set_val [inv_intro]:
  assumes "wf_rm rm" and "i < slen (ranges rm)"
  shows "wf_rm (set_val i v rm)"
proof -
  let ?rs = "elems (ranges rm)"
  have len: "length ?rs = slen (ranges rm)" using assms(1) by (simp add: wf_rm_def)
  have "rLeft (?rs[i := (?rs ! i)\<lparr>rVal := v\<rparr>] ! k) = rLeft (?rs ! k)"
    and "rRight (?rs[i := (?rs ! i)\<lparr>rVal := v\<rparr>] ! k) = rRight (?rs ! k)" if "k < length ?rs" for k
    using that assms(2) len by (simp_all add: nth_list_update)
  then have "wf_ranges (?rs[i := (?rs ! i)\<lparr>rVal := v\<rparr>])"
    unfolding wf_ranges_def sorted_wrt_iff_nth_less all_set_conv_all_nth
    using wf_rm_nth [OF assms(1)] len by (simp add: before_def)
  with assms show ?thesis by (simp add: wf_rm_def)
qed

lemma Lookup_set_val [abs_simps]:
  assumes wf: "wf_rm rm" and i: "i < slen (ranges rm)"
  shows "RangeMap_Lookup (set_val i v rm) key =
    (if Range_Contains (elems (ranges rm) ! i) key then Some v else RangeMap_Lookup rm key)"
proof -
  let ?rs = "elems (ranges rm)"
  have ilen: "i < length ?rs" using i wf by (simp add: wf_rm_def)
  have "first_left_gt (set_val i v rm) key = first_left_gt rm key"
    using ilen unfolding first_left_gt_def by (simp add: nth_list_update if_distrib cong: if_cong)
  then have same: "RangeMap_Lookup (set_val i v rm) key =
      (let k = first_left_gt rm key - 1 in
       if Range_Contains (?rs ! k) key then Some (if k = i then v else rVal (?rs ! k)) else None)"
    using i ilen by (auto simp: RangeMap_Lookup_def Let_def nth_list_update)
  show ?thesis
  proof (cases "Range_Contains (?rs ! i) key")
    case True
    with lookup_index [OF wf i] have "first_left_gt rm key - 1 = i" by simp
    with True show ?thesis unfolding same by simp
  next
    case False
    with same i show ?thesis by (auto simp: RangeMap_Lookup_def Let_def)
  qed
qed

section \<open>The removal loop\<close>

lemma Remove_ranges:
  assumes "wf_rm rm"
  shows "RangeMap_Remove rm (rLeft r) (rRight r) =
    (case find_range (rLeft r) (rRight r) 0 (elems (ranges rm)) of
       None \<Rightarrow> (Some RangeDoesNotExistError, rm)
     | Some d \<Rightarrow> (None, rm\<lparr>ranges := \<lparr>backing = take d (elems (ranges rm)) @ drop (Suc d) (elems (ranges rm))
           @ drop (slen (ranges rm) - 1) (backing (ranges rm)), slen = slen (ranges rm) - 1\<rparr>\<rparr>))"
proof (cases "find_range (rLeft r) (rRight r) 0 (elems (ranges rm))")
  case (Some d)
  have ws: "wf_slice (ranges rm)" using assms by (simp add: wf_rm_def)
  then have d: "d < slen (ranges rm)" using find_range_Some [OF Some] by simp
  have len: "length (drop (d + 1) (elems (ranges rm))) = slen (ranges rm) - Suc d"
    using ws by simp
  have "take d (backing (ranges rm)) = take d (elems (ranges rm))"
    using d by (simp add: elems_def min_def)
  moreover have "d + (slen (ranges rm) - Suc d) = slen (ranges rm) - 1" using d by simp
  moreover have "slen (ranges rm) - 1 \<le> length (backing (ranges rm))" using ws by (simp add: wf_slice_def)
  ultimately show ?thesis
    unfolding RangeMap_Remove_def Some option.case slice_append_def Let_def
    by (simp only: len slen_to backing_to if_True) simp
qed (simp add: RangeMap_Remove_def)

lemma find_range_nth:
  assumes wf: "wf_rm rm" and d: "d < slen (ranges rm)"
  shows "find_range (rLeft (elems (ranges rm) ! d)) (rRight (elems (ranges rm) ! d)) 0 (elems (ranges rm)) = Some d"
proof -
  let ?rs = "elems (ranges rm)"
  have len: "length ?rs = slen (ranges rm)" using wf by (simp add: wf_rm_def)
  obtain k where k: "find_range (rLeft (?rs ! d)) (rRight (?rs ! d)) 0 ?rs = Some k"
    using find_range_None [of "rLeft (?rs ! d)" "rRight (?rs ! d)" 0 ?rs] nth_mem [of d ?rs] d len by fastforce
  have "k < length ?rs" "rLeft (?rs ! k) = rLeft (?rs ! d)" "rRight (?rs ! k) = rRight (?rs ! d)"
    using find_range_Some [OF k] by auto
  then have "RangeMap_Get rm (rLeft (?rs ! d)) (rRight (?rs ! d)) = Some k"
    and "RangeMap_Get rm (rLeft (?rs ! d)) (rRight (?rs ! d)) = Some d"
    unfolding Get_Some_iff [OF wf] using d len by simp_all
  with k show ?thesis by simp
qed

text \<open>What removing the range at an index leaves in the array, the part beyond the length included.\<close>

lemma Remove_nth:
  assumes wf: "wf_rm rm" and d: "d < slen (ranges rm)"
    and r: "r = elems (ranges rm) ! d"
  shows "ranges (snd (RangeMap_Remove rm (rLeft r) (rRight r))) =
      \<lparr>backing = take d (elems (ranges rm)) @ drop (Suc d) (elems (ranges rm))
           @ drop (slen (ranges rm) - 1) (backing (ranges rm)), slen = slen (ranges rm) - 1\<rparr>"
  unfolding Remove_ranges [OF wf] unfolding r find_range_nth [OF wf d] by simp

text \<open>Whatever it removes, the loop is a run of removals.\<close>

lemma remove_view_is_remove_all: "\<exists>bs. remove_view ps m = rm.remove_all bs m"
proof (induction ps m rule: remove_view.induct)
  case (1 m)
  have "remove_view [] m = rm.remove_all [] m" by simp
  then show ?case by blast
next
  case (2 p ps m)
  then obtain bs where "remove_view (p # ps) m
      = rm.remove_all ((rLeft (backing (ranges m) ! p), rRight (backing (ranges m) ! p)) # bs) m"
    by (auto simp: Let_def)
  then show ?case by blast
qed

lemma wf_remove_view [inv_intro]: "wf_rm m \<Longrightarrow> wf_rm (remove_view ps m)"
  using remove_view_is_remove_all [of ps m] rm.inv_remove_all by metis

section \<open>What an update does\<close>

lemma same_or_later_iff:
  "same_or_later nd view \<longleftrightarrow> (\<exists>r\<in>set view. \<exists>v. rVal r = Some v \<and> generation nd \<le> generation v)"
  unfolding same_or_later_def list_ex_iff by (rule bex_cong) (auto split: option.split)

lemma nth_in_window:
  "lo \<le> k \<Longrightarrow> k < hi \<Longrightarrow> k < length xs \<Longrightarrow> xs ! k \<in> set (drop lo (take hi xs))"
  by (auto simp: in_set_conv_nth intro!: exI [of _ "k - lo"])

lemma GetOverlapping_total:
  assumes "wf_rm rm" and "left < right"
  shows "\<exists>lo hi. RangeMap_GetOverlapping rm left right = Some (lo, hi) \<and> hi \<le> slen (ranges rm)"
  using GetOverlapping_bounds [OF assms] by (cases "slen (ranges rm) = 0") (auto simp: RangeMap_GetOverlapping_def)

text \<open>The branches of \<open>updateRange\<close>, one equation each.\<close>

lemma updateRange_stale:
  assumes "RangeMap_Get (rangeMap rc) (rdLeft nd) (rdRight nd) = None"
    and "RangeMap_GetOverlapping (rangeMap rc) (rdLeft nd) (rdRight nd) = Some (lo, hi)"
    and "same_or_later nd (drop lo (take hi (elems (ranges (rangeMap rc)))))"
  shows "updateRange rc nd = Some (None, rc)"
  using assms by (simp add: updateRange_def)

lemma updateRange_newer:
  assumes "RangeMap_Get (rangeMap rc) (rdLeft nd) (rdRight nd) = None"
    and "RangeMap_GetOverlapping (rangeMap rc) (rdLeft nd) (rdRight nd) = Some (lo, hi)"
    and "\<not> same_or_later nd (drop lo (take hi (elems (ranges (rangeMap rc)))))"
  shows "updateRange rc nd =
    (let a = RangeMap_Add (remove_view [lo..<hi] (rangeMap rc)) (rdLeft nd) (rdRight nd) (Some nd) in
     Some (case fst a of Inl e \<Rightarrow> Some (RangeMapError e) | Inr _ \<Rightarrow> None, rc\<lparr>rangeMap := snd a\<rparr>))"
  using assms by (simp add: updateRange_def Let_def split: prod.split sum.split)

lemma updateRange_exact:
  assumes "RangeMap_Get (rangeMap rc) (rdLeft nd) (rdRight nd) = Some i"
  shows "updateRange rc nd =
    (case rVal (elems (ranges (rangeMap rc)) ! i) of
       None \<Rightarrow> Some (Some (StatusError (Err FailedPrecondition ''Val was not a rangeVal'')), rc)
     | Some v \<Rightarrow> Some (None, if generation v < generation nd
         then rc\<lparr>rangeMap := set_val i (Some nd) (rangeMap rc)\<rparr> else rc))"
  using assms by (simp add: updateRange_def Let_def split: option.split)

text \<open>Ranges that share a key are the same range.\<close>

lemma overlaps_same:
  assumes wf: "wf_rm rm" and i: "i < slen (ranges rm)" and k: "k < slen (ranges rm)"
    and "overlaps (rLeft (elems (ranges rm) ! i)) (rRight (elems (ranges rm) ! i)) (elems (ranges rm) ! k)"
  shows "k = i"
proof (rule ccontr)
  assume "k \<noteq> i"
  then consider "k < i" | "i < k" by linarith
  then show False
    using assms(4) wf_rm_nth(2) [OF wf i] wf_rm_nth(2) [OF wf k] by cases (force simp: overlaps_def)+
qed

lemma in_Ranges:
  assumes "wf_rm rm" and "r \<in> set (RangeMap_Ranges rm)"
  obtains k where "k < slen (ranges rm)" and "r = elems (ranges rm) ! k"
  using assms by (auto simp: RangeMap_Ranges_def in_set_conv_nth wf_rm_def)

lemma updateRange_result:
  assumes wf: "wf_rm (rangeMap rc)" and lr: "rdLeft nd < rdRight nd"
  shows "\<exists>e rc'. updateRange rc nd = Some (e, rc') \<and> wf_rm (rangeMap rc') \<and>
    (\<forall>key. RangeMap_Lookup (rangeMap rc') key \<in> {RangeMap_Lookup (rangeMap rc) key, None}
       \<union> (if rdLeft nd \<le> key \<and> key < rdRight nd then {Some (Some nd)} else {}))"
proof (cases "RangeMap_Get (rangeMap rc) (rdLeft nd) (rdRight nd)")
  case (Some i)
  with Get_Some_iff [OF wf] have i: "i < slen (ranges (rangeMap rc))"
    "rLeft (elems (ranges (rangeMap rc)) ! i) = rdLeft nd" "rRight (elems (ranges (rangeMap rc)) ! i) = rdRight nd"
    by auto
  show ?thesis
    unfolding updateRange_exact [OF Some]
    using wf wf_set_val [OF wf i(1)] by (auto simp: Lookup_set_val [OF wf i(1)] i split: option.split)
next
  case None
  from GetOverlapping_total [OF wf lr] obtain lo hi
    where g: "RangeMap_GetOverlapping (rangeMap rc) (rdLeft nd) (rdRight nd) = Some (lo, hi)" by blast
  show ?thesis
  proof (cases "same_or_later nd (drop lo (take hi (elems (ranges (rangeMap rc)))))")
    case True
    then show ?thesis unfolding updateRange_stale [OF None g True] using wf by simp
  next
    case False
    obtain bs where "remove_view [lo..<hi] (rangeMap rc) = rm.remove_all bs (rangeMap rc)"
      using remove_view_is_remove_all by blast
    then show ?thesis
      unfolding updateRange_newer [OF None g False] Let_def
      using rm.inv_replace [OF wf lr, of bs "Some nd"] rm.lookup_replace [OF wf lr, of bs "Some nd"] by simp
  qed
qed

section \<open>Properties\<close>

text \<open>A descriptor is ignored, without error and without any change, when a cached range that overlaps it
  has the same or a later generation.\<close>

theorem updateRange_ignores_stale:
  assumes wf: "wf_rm (rangeMap rc)" and lr: "rdLeft nd < rdRight nd"
    and r: "r \<in> set (RangeMap_Ranges (rangeMap rc))" "overlaps (rdLeft nd) (rdRight nd) r"
    and v: "rVal r = Some v" "generation nd \<le> generation v"
  shows "updateRange rc nd = Some (None, rc)"
proof -
  obtain k where k: "k < slen (ranges (rangeMap rc))" "r = elems (ranges (rangeMap rc)) ! k"
    by (rule in_Ranges [OF wf r(1)])
  have len: "length (elems (ranges (rangeMap rc))) = slen (ranges (rangeMap rc))" using wf by (simp add: wf_rm_def)
  show ?thesis
  proof (cases "RangeMap_Get (rangeMap rc) (rdLeft nd) (rdRight nd)")
    case (Some i)
    then have i: "i < slen (ranges (rangeMap rc))" "rLeft (elems (ranges (rangeMap rc)) ! i) = rdLeft nd"
        "rRight (elems (ranges (rangeMap rc)) ! i) = rdRight nd"
      unfolding Get_Some_iff [OF wf] by auto
    with overlaps_same [OF wf i(1) k(1)] r(2) k(2) have "k = i" by simp
    with updateRange_exact [OF Some] k(2) v show ?thesis by simp
  next
    case None
    from GetOverlapping_total [OF wf lr] obtain lo hi
      where g: "RangeMap_GetOverlapping (rangeMap rc) (rdLeft nd) (rdRight nd) = Some (lo, hi)" by blast
    have "lo \<le> k \<and> k < hi" using GetOverlapping_complete [OF wf lr k(1) _ g] r(2) k(2) by simp
    then have "r \<in> set (drop lo (take hi (elems (ranges (rangeMap rc)))))"
      using nth_in_window [of lo k hi "elems (ranges (rangeMap rc))"] k len by simp
    then show ?thesis
      using v by (intro updateRange_stale [OF None g]) (auto simp: same_or_later_iff)
  qed
qed

lemma window_one: "lo < length xs \<Longrightarrow> drop lo (take (Suc lo) xs) = [xs ! lo]"
  by (simp add: take_Suc_conv_app_nth)

text \<open>When the range cached under the same bounds, or the only range \<open>GetOverlapping\<close> returns, is older than
  the new descriptor, \<open>updateRange\<close> succeeds and replaces it: keys in the new range look up to
  the new descriptor, the remainder of the old range to nothing, and every other key is untouched.\<close>

theorem updateRange_replaces:
  assumes wf: "wf_rm (rangeMap rc)" and lr: "rdLeft nd < rdRight nd"
    and k: "r = RangeMap_Ranges (rangeMap rc) ! k"
    and only: "RangeMap_Get (rangeMap rc) (rdLeft nd) (rdRight nd) = Some k
      \<or> RangeMap_Get (rangeMap rc) (rdLeft nd) (rdRight nd) = None
        \<and> RangeMap_GetOverlapping (rangeMap rc) (rdLeft nd) (rdRight nd) = Some (k, Suc k)
        \<and> k < length (RangeMap_Ranges (rangeMap rc))
        \<and> (\<forall>x\<in>set (RangeMap_Ranges (rangeMap rc)). overlaps (rdLeft nd) (rdRight nd) x \<longrightarrow> x = r)"
    and v: "rVal r = Some v" "generation v < generation nd"
  shows "\<exists>rc'. updateRange rc nd = Some (None, rc') \<and> (\<forall>key. RangeCache_Get rc' key =
    (if rdLeft nd \<le> key \<and> key < rdRight nd then Some nd
     else if Range_Contains r key then None else RangeCache_Get rc key))"
  using only
proof
  assume g: "RangeMap_Get (rangeMap rc) (rdLeft nd) (rdRight nd) = Some k"
  then have i: "k < slen (ranges (rangeMap rc))" "rLeft r = rdLeft nd" "rRight r = rdRight nd"
    unfolding Get_Some_iff [OF wf] by (simp_all add: k RangeMap_Ranges_def)
  have "updateRange rc nd = Some (None, rc\<lparr>rangeMap := set_val k (Some nd) (rangeMap rc)\<rparr>)"
    using updateRange_exact [OF g] v by (simp add: k RangeMap_Ranges_def)
  with i show ?thesis by (simp add: RangeCache_Get_def Lookup_set_val [OF wf i(1)] k RangeMap_Ranges_def)
next
  let ?m = "rangeMap rc"
  assume *: "RangeMap_Get ?m (rdLeft nd) (rdRight nd) = None
        \<and> RangeMap_GetOverlapping ?m (rdLeft nd) (rdRight nd) = Some (k, Suc k)
        \<and> k < length (RangeMap_Ranges ?m)
        \<and> (\<forall>x\<in>set (RangeMap_Ranges ?m). overlaps (rdLeft nd) (rdRight nd) x \<longrightarrow> x = r)"
  have len: "k < slen (ranges ?m)" using * wf by (simp add: RangeMap_Ranges_def wf_rm_def)
  have rk: "r = elems (ranges ?m) ! k" using k by (simp add: RangeMap_Ranges_def)
  have "\<not> same_or_later nd (drop k (take (Suc k) (elems (ranges ?m))))"
    using * v window_one [of k "elems (ranges ?m)"] rk by (simp add: RangeMap_Ranges_def same_or_later_iff)
  note u = updateRange_newer [OF conjunct1 [OF *] conjunct1 [OF conjunct2 [OF *]] this]
  let ?m' = "snd (RangeMap_Remove ?m (rLeft r) (rRight r))"
  have b: "backing (ranges ?m) ! k = r" using len unfolding rk elems_def by simp
  then have view: "remove_view [k..<Suc k] ?m = ?m'" by simp
  have f: "find_range (rLeft r) (rRight r) 0 (elems (ranges ?m)) = Some k"
    unfolding rk by (rule find_range_nth [OF wf len])
  have wf': "wf_rm ?m'" by (rule wf_Remove [OF wf])
  have "\<not> overlaps (rdLeft nd) (rdRight nd) x" if "x \<in> set (elems (ranges ?m'))" for x
    using that * unfolding Remove_elems(3) [OF wf f] by (auto simp: RangeMap_Ranges_def)
  then obtain x where ok: "fst (RangeMap_Add ?m' (rdLeft nd) (rdRight nd) (Some nd)) = Inr x"
    using Add_overlap_iff [OF wf' lr] by (metis obj_sumE)
  have "fst (RangeMap_Remove ?m (rLeft r) (rRight r)) = None" using f by (simp add: RangeMap_Remove_def)
  then have "RangeMap_Lookup (snd (RangeMap_Add ?m' (rdLeft nd) (rdRight nd) (Some nd))) key =
      (if rdLeft nd \<le> key \<and> key < rdRight nd then Some (Some nd)
       else if Range_Contains r key then None else RangeMap_Lookup ?m key)" for key
    unfolding Lookup_Add [OF wf' lr ok] Lookup_Remove [OF wf] by simp
  then show ?thesis unfolding u view by (simp add: ok RangeCache_Get_def)
qed

text \<open>The cached ranges that an update looks at: the one with its bounds, or what \<open>GetOverlapping\<close> returns.\<close>

definition competing :: "RangeCache \<Rightarrow> RangeDescriptor \<Rightarrow> range_val rng list" where
  "competing rc nd =
     (case RangeMap_Get (rangeMap rc) (rdLeft nd) (rdRight nd) of
        Some i \<Rightarrow> [RangeMap_Ranges (rangeMap rc) ! i]
      | None \<Rightarrow> (case RangeMap_GetOverlapping (rangeMap rc) (rdLeft nd) (rdRight nd) of
          None \<Rightarrow> [] | Some (lo, hi) \<Rightarrow> drop lo (take hi (RangeMap_Ranges (rangeMap rc)))))"

lemma competing_complete:
  assumes wf: "wf_rm (rangeMap rc)" and lr: "rdLeft nd < rdRight nd"
    and r: "r \<in> set (RangeMap_Ranges (rangeMap rc))" "overlaps (rdLeft nd) (rdRight nd) r"
  shows "r \<in> set (competing rc nd)"
proof -
  obtain k where k: "k < slen (ranges (rangeMap rc))" "r = elems (ranges (rangeMap rc)) ! k" by (rule in_Ranges [OF wf r(1)])
  have len: "length (elems (ranges (rangeMap rc))) = slen (ranges (rangeMap rc))" using wf by (simp add: wf_rm_def)
  show ?thesis
  proof (cases "RangeMap_Get (rangeMap rc) (rdLeft nd) (rdRight nd)")
    case (Some i)
    then have i: "i < slen (ranges (rangeMap rc))" "rLeft (elems (ranges (rangeMap rc)) ! i) = rdLeft nd"
        "rRight (elems (ranges (rangeMap rc)) ! i) = rdRight nd"
      unfolding Get_Some_iff [OF wf] by auto
    then show ?thesis using overlaps_same [OF wf i(1) k(1)] r(2) k(2) Some by (simp add: competing_def RangeMap_Ranges_def)
  next
    case None
    obtain lo hi where g: "RangeMap_GetOverlapping (rangeMap rc) (rdLeft nd) (rdRight nd) = Some (lo, hi)"
      using GetOverlapping_total [OF wf lr] by blast
    have "lo \<le> k \<and> k < hi" using GetOverlapping_complete [OF wf lr k(1) _ g] r(2) k(2) by simp
    then show ?thesis using nth_in_window [of lo k hi "elems (ranges (rangeMap rc))"] k len g None
      by (simp add: competing_def RangeMap_Ranges_def)
  qed
qed

lemma updateRange_unobstructed:
  assumes wf: "wf_rm (rangeMap rc)" and lr: "rdLeft nd < rdRight nd" and none: "competing rc nd = []"
  shows "\<exists>rc'. updateRange rc nd = Some (None, rc') \<and>
    (\<forall>key. RangeCache_Get rc' key = (if rdLeft nd \<le> key \<and> key < rdRight nd then Some nd else RangeCache_Get rc key))"
proof -
  let ?m = "rangeMap rc"
  obtain lo hi where g: "RangeMap_Get ?m (rdLeft nd) (rdRight nd) = None" "RangeMap_GetOverlapping ?m (rdLeft nd) (rdRight nd) = Some (lo, hi)"
    and hi: "hi \<le> slen (ranges ?m)" and e: "drop lo (take hi (elems (ranges ?m))) = []"
    using GetOverlapping_total [OF wf lr] none by (auto simp: competing_def RangeMap_Ranges_def split: option.splits)
  have "hi \<le> lo" using hi e wf by (simp add: wf_rm_def)
  then have v: "remove_view [lo..<hi] ?m = ?m" by simp
  have "\<not> (\<exists>r\<in>set (elems (ranges ?m)). overlaps (rdLeft nd) (rdRight nd) r)"
    using competing_complete [OF wf lr] none by (auto simp: RangeMap_Ranges_def)
  then obtain x where ok: "fst (RangeMap_Add ?m (rdLeft nd) (rdRight nd) (Some nd)) = Inr x"
    using Add_overlap_iff [OF wf lr] by (metis obj_sumE)
  have s: "\<not> same_or_later nd (drop lo (take hi (elems (ranges ?m))))" using e by (simp add: same_or_later_def)
  show ?thesis
    using updateRange_newer [OF g s] Lookup_Add [OF wf lr ok] ok by (simp add: v RangeCache_Get_def Let_def)
qed

text \<open>What a newer descriptor leaves, whatever was removed for it.\<close>

lemma updateRange_newer_result:
  assumes wf: "wf_rm (rangeMap rc)" and lr: "rdLeft nd < rdRight nd" and new: "\<not> same_or_later nd (competing rc nd)"
    and u: "updateRange rc nd = Some (e, rc')" and key: "rdLeft nd \<le> key" "key < rdRight nd"
  shows "if e = None then RangeCache_Get rc' key = Some nd else RangeCache_Get rc' key \<in> {RangeCache_Get rc key, None}"
proof (cases "RangeMap_Get (rangeMap rc) (rdLeft nd) (rdRight nd)")
  case (Some i)
  then have i: "i < slen (ranges (rangeMap rc))" "rLeft (elems (ranges (rangeMap rc)) ! i) = rdLeft nd"
      "rRight (elems (ranges (rangeMap rc)) ! i) = rdRight nd"
    unfolding Get_Some_iff [OF wf] by auto
  then show ?thesis
    using u new updateRange_exact [OF Some] key
    by (auto simp: competing_def Some same_or_later_def RangeMap_Ranges_def RangeCache_Get_def Lookup_set_val [OF wf i(1)] split: option.splits if_splits)
next
  case None
  obtain lo hi where g: "RangeMap_GetOverlapping (rangeMap rc) (rdLeft nd) (rdRight nd) = Some (lo, hi)"
    using GetOverlapping_total [OF wf lr] by blast
  let ?m = "remove_view [lo..<hi] (rangeMap rc)"
  let ?a = "RangeMap_Add ?m (rdLeft nd) (rdRight nd) (Some nd)"
  have "\<not> same_or_later nd (drop lo (take hi (elems (ranges (rangeMap rc)))))" using new None g by (simp add: competing_def RangeMap_Ranges_def)
  from updateRange_newer [OF None g this]
  have r: "e = (case fst ?a of Inl err \<Rightarrow> Some (RangeMapError err) | Inr _ \<Rightarrow> None)" "rc' = rc\<lparr>rangeMap := snd ?a\<rparr>"
    using u by (simp_all add: Let_def)
  have wf': "wf_rm ?m" by (rule wf_remove_view [OF wf])
  obtain bs where bs: "?m = rm.remove_all bs (rangeMap rc)" using remove_view_is_remove_all by blast
  have l: "RangeMap_Lookup ?m key \<in> {RangeMap_Lookup (rangeMap rc) key, None}" unfolding bs by (rule rm.lookup_remove_all [OF wf])
  show ?thesis
  proof (cases "fst ?a")
    case (Inl err)
    then show ?thesis using r l Add_error_unchanged [OF Inl] by (auto simp: RangeCache_Get_def)
  next
    case (Inr x)
    then show ?thesis using r key Lookup_Add [OF wf' lr Inr] by (simp add: RangeCache_Get_def)
  qed
qed

text \<open>With a single competitor, an older one, the update is exact.\<close>

lemma updateRange_single:
  assumes wf: "wf_rm (rangeMap rc)" and lr: "rdLeft nd < rdRight nd" and one: "competing rc nd = [r]"
    and v: "rVal r = Some v" "generation v < generation nd"
  shows "\<exists>rc'. updateRange rc nd = Some (None, rc') \<and> (\<forall>key. RangeCache_Get rc' key =
    (if rdLeft nd \<le> key \<and> key < rdRight nd then Some nd else if Range_Contains r key then None else RangeCache_Get rc key))"
proof (cases "RangeMap_Get (rangeMap rc) (rdLeft nd) (rdRight nd)")
  case (Some i)
  then show ?thesis using one updateRange_replaces [OF wf lr _ _ v, of i] by (simp add: competing_def)
next
  case None
  let ?rs = "RangeMap_Ranges (rangeMap rc)"
  obtain lo hi where g: "RangeMap_GetOverlapping (rangeMap rc) (rdLeft nd) (rdRight nd) = Some (lo, hi)" and hi: "hi \<le> slen (ranges (rangeMap rc))"
    using GetOverlapping_total [OF wf lr] by blast
  have w: "drop lo (take hi ?rs) = [r]" using one None g by (simp add: competing_def)
  have len: "length ?rs = slen (ranges (rangeMap rc))" using wf by (simp add: RangeMap_Ranges_def wf_rm_def)
  have "length (drop lo (take hi ?rs)) = 1" using w by simp
  then have h: "hi = Suc lo" "lo < length ?rs" using hi len by auto
  then have "r = ?rs ! lo" using w window_one [OF h(2)] by simp
  moreover have "\<forall>x\<in>set ?rs. overlaps (rdLeft nd) (rdRight nd) x \<longrightarrow> x = r" using competing_complete [OF wf lr] one by auto
  ultimately show ?thesis using updateRange_replaces [OF wf lr _ _ v, of lo] None g h by simp
qed

lemma competing_stale:
  assumes wf: "wf_rm (rangeMap rc)" and lr: "rdLeft nd < rdRight nd" and s: "same_or_later nd (competing rc nd)"
  shows "updateRange rc nd = Some (None, rc)"
proof (cases "RangeMap_Get (rangeMap rc) (rdLeft nd) (rdRight nd)")
  case (Some i)
  then show ?thesis using s updateRange_exact [OF Some]
    by (auto simp: competing_def same_or_later_def RangeMap_Ranges_def split: option.splits)
next
  case None
  obtain lo hi where g: "RangeMap_GetOverlapping (rangeMap rc) (rdLeft nd) (rdRight nd) = Some (lo, hi)"
    using GetOverlapping_total [OF wf lr] by blast
  show ?thesis using s None g by (intro updateRange_stale [OF None g]) (simp add: competing_def RangeMap_Ranges_def)
qed

text \<open>C18: What \<open>updateRange\<close> does on a well-formed cache with a non-empty range. It returns without a panic, and leaves the cache well-formed. It looks at
  the cached range with the same bounds, or at those that \<open>GetOverlapping\<close> returns, all that overlap the new one among them. If
  one of these is of the same or a later generation, nothing changes and there is no error. Otherwise, if it succeeds, every key of the
  new range is looked up to the new descriptor, and if it fails, to what it was before or nothing; every other key is looked up to what it was before or nothing. And it
  does succeed where it looked at one range at most: then exactly the keys of that range, outside the new one, lose their descriptor.\<close>

theorem updateRange_outcome:
  assumes "wf_rm (rangeMap rc)" and "rdLeft nd < rdRight nd"
  shows "\<exists>e rc'. updateRange rc nd = Some (e, rc') \<and> wf_rm (rangeMap rc') \<and>
    (\<forall>r\<in>set (RangeMap_Ranges (rangeMap rc)). overlaps (rdLeft nd) (rdRight nd) r \<longrightarrow> r \<in> set (competing rc nd)) \<and>
    (if same_or_later nd (competing rc nd) then e = None \<and> rc' = rc
     else (\<forall>key. if rdLeft nd \<le> key \<and> key < rdRight nd \<and> e = None then RangeCache_Get rc' key = Some nd
             else RangeCache_Get rc' key \<in> {RangeCache_Get rc key, None}) \<and>
       (length (competing rc nd) \<le> 1 \<and> (\<forall>r\<in>set (competing rc nd). rVal r \<noteq> None) \<longrightarrow>
         e = None \<and> (\<forall>key. \<not> (rdLeft nd \<le> key \<and> key < rdRight nd) \<longrightarrow>
           RangeCache_Get rc' key = (if \<exists>r\<in>set (competing rc nd). Range_Contains r key then None else RangeCache_Get rc key))))"
proof -
  obtain e rc' where u: "updateRange rc nd = Some (e, rc')" "wf_rm (rangeMap rc')"
    and l: "\<And>key. RangeMap_Lookup (rangeMap rc') key \<in> {RangeMap_Lookup (rangeMap rc) key, None}
       \<union> (if rdLeft nd \<le> key \<and> key < rdRight nd then {Some (Some nd)} else {})"
    using updateRange_result [OF assms] by blast
  have A: "\<forall>r\<in>set (RangeMap_Ranges (rangeMap rc)). overlaps (rdLeft nd) (rdRight nd) r \<longrightarrow> r \<in> set (competing rc nd)"
    using competing_complete [OF assms] by blast
  have B: "e = None \<and> rc' = rc" if s: "same_or_later nd (competing rc nd)"
    using u(1) competing_stale [OF assms s] by simp
  have C: "if rdLeft nd \<le> key \<and> key < rdRight nd \<and> e = None then RangeCache_Get rc' key = Some nd
      else RangeCache_Get rc' key \<in> {RangeCache_Get rc key, None}" if new: "\<not> same_or_later nd (competing rc nd)" for key
    using updateRange_newer_result [OF assms new u(1), of key] l [of key] by (auto simp: RangeCache_Get_def split: if_splits)
  have D: "e = None \<and> (\<forall>key. \<not> (rdLeft nd \<le> key \<and> key < rdRight nd) \<longrightarrow>
      RangeCache_Get rc' key = (if \<exists>r\<in>set (competing rc nd). Range_Contains r key then None else RangeCache_Get rc key))"
    if new: "\<not> same_or_later nd (competing rc nd)" and few: "length (competing rc nd) \<le> 1 \<and> (\<forall>r\<in>set (competing rc nd). rVal r \<noteq> None)"
  proof (cases "competing rc nd")
    case Nil
    then show ?thesis using updateRange_unobstructed [OF assms Nil] u(1) by auto
  next
    case (Cons r rs)
    then have one: "competing rc nd = [r]" using few by simp
    then obtain v where "rVal r = Some v" "generation v < generation nd"
      using new few by (auto simp: same_or_later_def)
    then show ?thesis using updateRange_single [OF assms one] u(1) one by auto
  qed
  show ?thesis
  proof (cases "same_or_later nd (competing rc nd)")
    case True
    then show ?thesis using u A B [OF True] unfolding if_P [OF True] by blast
  next
    case False
    show ?thesis unfolding if_not_P [OF False] using u A C [OF False] D [OF False] by blast
  qed
qed

text \<open>
  The removal loop on a window of two ranges that is followed by a third: after the first removal the
  array has moved up, so the second iteration reads, and removes, the range after the window.
\<close>

lemma remove_view_two:
  assumes wf: "wf_rm m" and k: "Suc (Suc k) < slen (ranges m)"
  shows "elems (ranges (remove_view [k..<Suc (Suc k)] m)) =
    take k (elems (ranges m)) @ elems (ranges m) ! Suc k # drop (Suc (Suc (Suc k))) (elems (ranges m))"
proof -
  let ?es = "elems (ranges m)"
  have len: "length ?es = slen (ranges m)" using wf by (simp add: wf_rm_def)
  define m1 where "m1 = snd (RangeMap_Remove m (rLeft (?es ! k)) (rRight (?es ! k)))"
  have r1: "ranges m1 = \<lparr>backing = take k ?es @ drop (Suc k) ?es
           @ drop (slen (ranges m) - 1) (backing (ranges m)), slen = slen (ranges m) - 1\<rparr>"
    unfolding m1_def by (rule Remove_nth [OF wf _ refl]) (use k in simp)
  have e1: "elems (ranges m1) = take k ?es @ drop (Suc k) ?es"
    using r1 k len by (simp add: elems_def)
  have wf1: "wf_rm m1" unfolding m1_def by (rule wf_Remove [OF wf])
  have b1: "backing (ranges m1) ! Suc k = ?es ! Suc (Suc k)"
    using r1 k len by (simp add: nth_append min_def)
  have n1: "elems (ranges m1) ! Suc k = ?es ! Suc (Suc k)"
    unfolding e1 using k len by (simp add: nth_append min_def)
  define m2 where "m2 = snd (RangeMap_Remove m1 (rLeft (?es ! Suc (Suc k))) (rRight (?es ! Suc (Suc k))))"
  have "ranges m2 = \<lparr>backing = take (Suc k) (elems (ranges m1)) @ drop (Suc (Suc k)) (elems (ranges m1))
           @ drop (slen (ranges m1) - 1) (backing (ranges m1)), slen = slen (ranges m1) - 1\<rparr>"
    unfolding m2_def by (rule Remove_nth [OF wf1 _ n1 [symmetric]]) (use k r1 in simp)
  moreover have "slen (ranges m1) - 1 = length (take (Suc k) (elems (ranges m1)) @ drop (Suc (Suc k)) (elems (ranges m1)))"
    unfolding e1 using r1 k len by simp
  ultimately have "elems (ranges m2) = take (Suc k) (elems (ranges m1)) @ drop (Suc (Suc k)) (elems (ranges m1))"
    by (simp only: append_assoc [symmetric] elems_prefix)
  also have "\<dots> = take k ?es @ ?es ! Suc k # drop (Suc (Suc (Suc k))) ?es"
    unfolding e1 using k len Cons_nth_drop_Suc [of "Suc k" ?es, symmetric] by (simp add: min_def)
  finally have e2: "elems (ranges m2) = take k ?es @ ?es ! Suc k # drop (Suc (Suc (Suc k))) ?es" .
  have "backing (ranges m) ! k = ?es ! k" using k by (simp add: elems_def)
  then have "remove_view [k..<Suc (Suc k)] m = m2"
    by (simp add: upt_rec [of k] m1_def [symmetric] b1 m2_def Let_def)
  with e2 show ?thesis by simp
qed

text \<open>A newer descriptor that overlaps two cached ranges followed by a third is refused with the overlap
  error, and the cache afterwards lacks the first of the two and the third, unrelated range, because the
  removal loop walks a window of the array that each removal shifts.\<close>

theorem updateRange_skips_second_overlap:
  assumes wf: "wf_rm (rangeMap rc)" and lr: "rdLeft nd < rdRight nd"
    and new: "RangeMap_Get (rangeMap rc) (rdLeft nd) (rdRight nd) = None"
    and two: "RangeMap_GetOverlapping (rangeMap rc) (rdLeft nd) (rdRight nd) = Some (k, Suc (Suc k))"
    and third: "Suc (Suc k) < length (RangeMap_Ranges (rangeMap rc))"
    and older: "\<forall>r\<in>set (RangeMap_Ranges (rangeMap rc)). \<forall>v. rVal r = Some v \<longrightarrow> generation v < generation nd"
    and second: "overlaps (rdLeft nd) (rdRight nd) (RangeMap_Ranges (rangeMap rc) ! Suc k)"
  shows "\<exists>rc'. updateRange rc nd = Some (Some (RangeMapError RangeOverlapError), rc')
    \<and> RangeMap_Ranges (rangeMap rc') = take k (RangeMap_Ranges (rangeMap rc))
        @ RangeMap_Ranges (rangeMap rc) ! Suc k # drop (Suc (Suc (Suc k))) (RangeMap_Ranges (rangeMap rc))"
proof -
  let ?m = "rangeMap rc" and ?m' = "remove_view [k..<Suc (Suc k)] (rangeMap rc)"
  have "\<not> same_or_later nd (drop k (take (Suc (Suc k)) (elems (ranges ?m))))"
    using older by (auto simp: same_or_later_iff RangeMap_Ranges_def not_le dest!: in_set_dropD in_set_takeD)
  note u = updateRange_newer [OF new two this]
  have k: "Suc (Suc k) < slen (ranges ?m)" using third wf by (simp add: RangeMap_Ranges_def wf_rm_def)
  note e = remove_view_two [OF wf k]
  have "\<exists>e. fst (RangeMap_Add ?m' (rdLeft nd) (rdRight nd) (Some nd)) = Inl e"
    unfolding Add_overlap_iff [OF wf_remove_view [OF wf] lr] e using second by (auto simp: RangeMap_Ranges_def)
  then obtain e where inl: "fst (RangeMap_Add ?m' (rdLeft nd) (rdRight nd) (Some nd)) = Inl e" ..
  then show ?thesis
    unfolding u Let_def using Add_error_unchanged [OF inl] e by (simp add: RangeMap_Ranges_def)
qed

lemma replica_index_Some:
  "replica_index rep i rs = Some j \<Longrightarrow> i \<le> j \<and> j - i < length rs
    \<and> cluster_id (rs ! (j - i)) = cluster_id rep \<and> node_id (rs ! (j - i)) = node_id rep"
proof (induction rs arbitrary: i)
  case (Cons r rs)
  show ?case
  proof (cases "cluster_id r = cluster_id rep \<and> node_id r = node_id rep")
    case False
    with Cons.prems have "replica_index rep (Suc i) rs = Some j" by auto
    from Cons.IH [OF this] show ?thesis by (auto simp: nth_Cons' Suc_diff_le)
  qed (use Cons.prems in simp)
qed simp

text \<open>Any list of gossip members keeps the cache well-formed, and never panics, as long as the descriptors it
  carries have non-empty ranges.\<close>

lemma OnEvent_members_wf:
  assumes "\<And>b rd. unmarshal b = Some rd \<Longrightarrow> rdLeft rd < rdRight rd" and "wf_rm (rangeMap rc)"
  shows "\<exists>rc'. OnEvent_members unmarshal ms rc = Some rc' \<and> wf_rm (rangeMap rc')"
  using assms(2)
proof (induction ms arbitrary: rc)
  case (Cons tags ms)
  show ?case
  proof (cases "tags MetaRangeTag")
    case None
    with Cons show ?thesis by simp
  next
    case tag: (Some tagData)
    show ?thesis
    proof (cases "unmarshal tagData")
      case None
      with tag Cons.prems show ?thesis by simp
    next
      case (Some rd)
      obtain e rc' where "updateRange rc rd = Some (e, rc')" "wf_rm (rangeMap rc')"
        using updateRange_result [OF Cons.prems assms(1) [OF Some]] by blast
      with tag Some Cons.IH show ?thesis by simp
    qed
  qed
qed simp

text \<open>Gossip never panics the cache and keeps it well-formed, whatever the members of the event, if
  the descriptors the tags decode to have non-empty ranges.\<close>

theorem OnEvent_safe:
  assumes "\<And>b rd. unmarshal b = Some rd \<Longrightarrow> rdLeft rd < rdRight rd" and "wf_rm (rangeMap rc)"
  shows "\<exists>rc'. OnEvent unmarshal updateType event rc = Some rc' \<and> wf_rm (rangeMap rc')"
  using OnEvent_members_wf [OF assms] assms(2) by (auto simp: OnEvent_def split: Event.split)

text \<open>\<open>SetPreferredReplica\<close> on a cached range that lists the preferred replica moves it to the front
  and permutes the replicas, keeps the rest of the descriptor, and no other key's look-up changes.\<close>

theorem SetPreferredReplica_front:
  assumes wf: "wf_rm (rangeMap rc)"
    and get: "RangeMap_Get (rangeMap rc) (rdLeft rng) (rdRight rng) = Some i"
    and rd: "rVal (RangeMap_Ranges (rangeMap rc) ! i) = Some rd"
    and mem: "\<exists>r\<in>set (replicas rd). cluster_id r = cluster_id rep \<and> node_id r = node_id rep"
  shows "\<exists>rd'. cluster_id (hd (replicas rd')) = cluster_id rep \<and> node_id (hd (replicas rd')) = node_id rep
    \<and> mset (replicas rd') = mset (replicas rd) \<and> rd' = rd\<lparr>replicas := replicas rd'\<rparr>
    \<and> (\<forall>key. RangeCache_Get (SetPreferredReplica rep rng rc) key =
          (if rdLeft rng \<le> key \<and> key < rdRight rng then Some rd' else RangeCache_Get rc key))"
proof -
  let ?m = "rangeMap rc"
  have i: "i < slen (ranges ?m)" "rLeft (elems (ranges ?m) ! i) = rdLeft rng" "rRight (elems (ranges ?m) ! i) = rdRight rng"
    using get unfolding Get_Some_iff [OF wf] by auto
  have "replica_index rep n rs \<noteq> None"
    if "\<exists>r\<in>set rs. cluster_id r = cluster_id rep \<and> node_id r = node_id rep" for n rs
    using that by (induction rs arbitrary: n) auto
  with mem obtain j where j: "replica_index rep 0 (replicas rd) = Some j" by blast
  note jl = replica_index_Some [OF j]
  define reps where "reps = (replicas rd)[0 := replicas rd ! j, j := replicas rd ! 0]"
  define rd' where "rd' = rd\<lparr>replicas := reps\<rparr>"
  have "SetPreferredReplica rep rng rc = rc\<lparr>rangeMap := set_val i (Some rd') ?m\<rparr>"
    using get rd j by (simp add: SetPreferredReplica_def RangeMap_Ranges_def rd'_def reps_def Let_def)
  then have "RangeCache_Get (SetPreferredReplica rep rng rc) key =
      (if rdLeft rng \<le> key \<and> key < rdRight rng then Some rd' else RangeCache_Get rc key)" for key
    using i by (simp add: RangeCache_Get_def Lookup_set_val [OF wf i(1)])
  moreover have "mset (replicas rd') = mset (replicas rd)"
    using mset_swap [of j "replicas rd" 0] jl by (cases "replicas rd") (simp_all add: rd'_def reps_def list_update_swap)
  moreover have "hd (replicas rd') = replicas rd ! j"
    using jl hd_conv_nth [of reps] by (cases "reps = []") (auto simp: rd'_def reps_def nth_list_update)
  ultimately show ?thesis using jl by (intro exI [of _ rd']) (simp add: rd'_def)
qed

section \<open>Witnesses\<close>

text \<open>A cache of three ranges, \<open>[1,3)\<close>, \<open>[3,5)\<close> and \<open>[7,9)\<close>, all of generation 1.\<close>

definition example_rd :: "byte \<Rightarrow> byte \<Rightarrow> u64 \<Rightarrow> RangeDescriptor" where
  "example_rd l r g = \<lparr>rdLeft = [l], rdRight = [r], range_id = 1,
     replicas = [\<lparr>cluster_id = 1, node_id = 1\<rparr>, \<lparr>cluster_id = 1, node_id = 2\<rparr>], generation = g\<rparr>"

definition example_range :: "byte \<Rightarrow> byte \<Rightarrow> range_val rng" where
  "example_range l r = \<lparr>rLeft = [l], rRight = [r], rVal = Some (example_rd l r 1)\<rparr>"

definition example_rc :: RangeCache where
  "example_rc = \<lparr>rangeMap = \<lparr>ranges = \<lparr>backing = [example_range 1 3, example_range 3 5, example_range 7 9], slen = 3\<rparr>\<rparr>\<rparr>"

lemma example_rc_wf [simp]: "wf_rm (rangeMap example_rc)"
  by (simp add: example_rc_def example_range_def wf_rm_def wf_slice_def elems_def wf_ranges_def before_def)

lemma example_rd_simps [simp]:
  "rdLeft (example_rd l r g) = [l]" "rdRight (example_rd l r g) = [r]" "generation (example_rd l r g) = g"
  by (simp_all add: example_rd_def)

lemma example_range_simps [simp]:
  "rLeft (example_range l r) = [l]" "rRight (example_range l r) = [r]" "rVal (example_range l r) = Some (example_rd l r 1)"
  by (simp_all add: example_range_def)

lemma example_rc_Ranges [simp]:
  "RangeMap_Ranges (rangeMap example_rc) = [example_range 1 3, example_range 3 5, example_range 7 9]"
  by (simp add: example_rc_def RangeMap_Ranges_def elems_def)

lemma example_lookups:
  "RangeMap_Get (rangeMap example_rc) [2] [4] = None"
  "RangeMap_GetOverlapping (rangeMap example_rc) [2] [4] = Some (0, 2)"
  "RangeMap_Get (rangeMap example_rc) [7] [8] = None"
  "RangeMap_GetOverlapping (rangeMap example_rc) [7] [8] = Some (2, 3)"
  "RangeMap_Get (rangeMap example_rc) [3] [5] = Some 1"
  by code_simp+

theorem updateRange_outcome_witness:
  "\<exists>e rc'. updateRange example_rc (example_rd 7 8 2) = Some (e, rc') \<and> e = None \<and> RangeCache_Get rc' [7] = Some (example_rd 7 8 2)"
proof -
  have c: "competing example_rc (example_rd 7 8 2) = [example_range 7 9]" by code_simp
  have s: "\<not> same_or_later (example_rd 7 8 2) [example_range 7 9]" by code_simp
  have one: "length [example_range 7 9] \<le> 1 \<and> (\<forall>r\<in>set [example_range 7 9]. rVal r \<noteq> None)" by simp
  have lr: "rdLeft (example_rd 7 8 2) < rdRight (example_rd 7 8 2)" "rdLeft (example_rd 7 8 2) \<le> [7]" "[7] < rdRight (example_rd 7 8 2)" by simp_all
  obtain e rc' where u: "updateRange example_rc (example_rd 7 8 2) = Some (e, rc')" "e = None"
    "\<forall>key. if rdLeft (example_rd 7 8 2) \<le> key \<and> key < rdRight (example_rd 7 8 2) \<and> e = None then RangeCache_Get rc' key = Some (example_rd 7 8 2)
       else RangeCache_Get rc' key \<in> {RangeCache_Get example_rc key, None}"
    using updateRange_outcome [OF example_rc_wf lr(1)] s one unfolding c if_not_P [OF s] by blast
  then show ?thesis using lr(2,3) by auto
qed

theorem updateRange_ignores_stale_witness:
  "updateRange example_rc (example_rd 2 4 1) = Some (None, example_rc)"
  by (rule updateRange_ignores_stale [where r = "example_range 1 3" and v = "example_rd 1 3 1"])
    (simp_all add: overlaps_def)

theorem updateRange_replaces_witness:
  "\<exists>rc'. updateRange example_rc (example_rd 7 8 2) = Some (None, rc') \<and> (\<forall>key. RangeCache_Get rc' key =
    (if rdLeft (example_rd 7 8 2) \<le> key \<and> key < rdRight (example_rd 7 8 2) then Some (example_rd 7 8 2)
     else if Range_Contains (example_range 7 9) key then None else RangeCache_Get example_rc key))"
  by (rule updateRange_replaces [where k = 2 and v = "example_rd 7 9 1"])
    (simp_all add: example_lookups overlaps_def del: Range_Contains_iff)

theorem updateRange_skips_second_overlap_witness:
  "\<exists>rc'. updateRange example_rc (example_rd 2 4 2) = Some (Some (RangeMapError RangeOverlapError), rc')
    \<and> RangeMap_Ranges (rangeMap rc') = take 0 (RangeMap_Ranges (rangeMap example_rc))
        @ RangeMap_Ranges (rangeMap example_rc) ! Suc 0 # drop (Suc (Suc (Suc 0))) (RangeMap_Ranges (rangeMap example_rc))"
  by (rule updateRange_skips_second_overlap)
    (simp_all add: example_lookups overlaps_def numeral_2_eq_2 [symmetric])

definition example_unmarshal :: "bytes \<Rightarrow> RangeDescriptor option" where
  "example_unmarshal b = (case b of [] \<Rightarrow> None | _ \<Rightarrow> Some (example_rd 5 6 1))"

theorem OnEvent_safe_witness:
  "\<exists>rc'. OnEvent example_unmarshal EventMemberJoin (MemberEvent [[MetaRangeTag \<mapsto> [1]]]) example_rc = Some rc'
    \<and> wf_rm (rangeMap rc')"
  by (rule OnEvent_safe) (auto simp: example_unmarshal_def split: list.splits)

lemma example_replicas:
  "rVal (RangeMap_Ranges (rangeMap example_rc) ! 1) = Some (example_rd 3 5 1)"
  "\<exists>r\<in>set (replicas (example_rd 3 5 1)). cluster_id r = 1 \<and> node_id r = 2"
  by simp (simp add: example_rd_def)

theorem SetPreferredReplica_front_witness:
  "\<exists>rd'. cluster_id (hd (replicas rd')) = 1 \<and> node_id (hd (replicas rd')) = 2
    \<and> mset (replicas rd') = mset (replicas (example_rd 3 5 1)) \<and> rd' = (example_rd 3 5 1)\<lparr>replicas := replicas rd'\<rparr>
    \<and> (\<forall>key. RangeCache_Get (SetPreferredReplica \<lparr>cluster_id = 1, node_id = 2\<rparr> (example_rd 3 5 0) example_rc) key =
          (if rdLeft (example_rd 3 5 0) \<le> key \<and> key < rdRight (example_rd 3 5 0) then Some rd' else RangeCache_Get example_rc key))"
  using SetPreferredReplica_front [of example_rc "example_rd 3 5 0" 1 "example_rd 3 5 1" "\<lparr>cluster_id = 1, node_id = 2\<rparr>"]
    example_replicas by (simp only: example_rc_wf example_lookups example_rd_simps ReplicaDescriptor.simps simp_thms)

end
