(* ===== verification/GoHeap.thy ===== *)
theory GoHeap
  imports Prelude "HOL-Library.Multiset"
begin

text \<open>
  Go's \<^verbatim>\<open>container/heap\<close>, as far as the program uses it (\<^verbatim>\<open>Push\<close> and \<^verbatim>\<open>Pop\<close>): a binary heap in a slice,
  ordered by the client's \<^verbatim>\<open>Less\<close>. What the package asks of the client is the locale \<open>heap_interface\<close>.
\<close>

section \<open>The code\<close>

definition swap :: "nat \<Rightarrow> nat \<Rightarrow> 'a list \<Rightarrow> 'a list" where
  "swap i j xs = xs[i := xs ! j, j := xs ! i]"

function heap_up :: "('a \<Rightarrow> 'a \<Rightarrow> bool) \<Rightarrow> 'a list \<Rightarrow> nat \<Rightarrow> 'a list" where
  "heap_up lt xs j =
     (let i = (j - 1) div 2 in
      if i = j \<or> \<not> lt (xs ! j) (xs ! i) then xs
      else heap_up lt (swap i j xs) i)"
  by pat_completeness auto
termination
  by (relation "measure (\<lambda>(lt, xs, j). j)") auto

function heap_down :: "('a \<Rightarrow> 'a \<Rightarrow> bool) \<Rightarrow> 'a list \<Rightarrow> nat \<Rightarrow> nat \<Rightarrow> 'a list" where
  "heap_down lt xs i n =
     (let j1 = 2 * i + 1 in
      if j1 \<ge> n then xs
      else
        let j2 = j1 + 1;
            j = (if j2 < n \<and> lt (xs ! j2) (xs ! j1) then j2 else j1) in
        if \<not> lt (xs ! j) (xs ! i) then xs
        else heap_down lt (swap i j xs) j n)"
  by pat_completeness auto
termination
  by (relation "measure (\<lambda>(lt, xs, i, n). n - i)") (auto split: if_splits)

declare heap_up.simps [simp del] heap_down.simps [simp del]

definition heap_Push :: "('a \<Rightarrow> 'a \<Rightarrow> bool) \<Rightarrow> 'a \<Rightarrow> 'a list \<Rightarrow> 'a list" where
  "heap_Push lt x xs = (let ys = xs @ [x] in heap_up lt ys (length ys - 1))"

text \<open>\<open>Pop\<close> swaps the first element to the end, restores the order of the rest and cuts off the end.\<close>

definition heap_Pop :: "('a \<Rightarrow> 'a \<Rightarrow> bool) \<Rightarrow> 'a list \<Rightarrow> 'a \<times> 'a list" where
  "heap_Pop lt xs =
     (let n = length xs - 1;
          ys = heap_down lt (swap 0 n xs) 0 n in
      (ys ! n, take n ys))"

section \<open>Swapping\<close>

lemma length_swap [simp]: "length (swap i j xs) = length xs"
  by (simp add: swap_def)

lemma nth_swap:
  "i < length xs \<Longrightarrow> j < length xs \<Longrightarrow> k < length xs \<Longrightarrow>
    swap i j xs ! k = (if k = j then xs ! i else if k = i then xs ! j else xs ! k)"
  by (auto simp: swap_def nth_list_update)

lemma mset_swap' [simp]: "i < length xs \<Longrightarrow> j < length xs \<Longrightarrow> mset (swap i j xs) = mset xs"
  by (metis swap_def mset_swap)

lemma mset_heap_up [simp]: "j < length xs \<Longrightarrow> mset (heap_up lt xs j) = mset xs"
proof (induction lt xs j rule: heap_up.induct)
  case (1 lt xs j)
  then show ?case by (subst heap_up.simps) (auto simp: Let_def)
qed

lemma length_heap_up [simp]: "length (heap_up lt xs j) = length xs"
proof (induction lt xs j rule: heap_up.induct)
  case (1 lt xs j)
  then show ?case by (subst heap_up.simps) (auto simp: Let_def)
qed

lemma length_heap_down [simp]: "length (heap_down lt xs i n) = length xs"
proof (induction lt xs i n rule: heap_down.induct)
  case (1 lt xs i n)
  then show ?case by (subst heap_down.simps) (auto simp: Let_def)
qed

lemma mset_heap_down [simp]: "n \<le> length xs \<Longrightarrow> mset (heap_down lt xs i n) = mset xs"
proof (induction lt xs i n rule: heap_down.induct)
  case (1 lt xs i n)
  then show ?case by (subst heap_down.simps) (auto simp: Let_def)
qed

text \<open>\<open>heap_down\<close> does not look beyond its bound.\<close>

lemma heap_down_beyond: "n \<le> k \<Longrightarrow> heap_down lt xs i n ! k = xs ! k"
proof (induction lt xs i n rule: heap_down.induct)
  case (1 lt xs i n)
  then show ?case by (subst heap_down.simps) (auto simp: Let_def swap_def)
qed

section \<open>The heap order\<close>

definition parent :: "nat \<Rightarrow> nat" where
  "parent k = (k - 1) div 2"

lemma parent_less [simp]: "0 < k \<Longrightarrow> parent k < k"
  by (simp add: parent_def)

lemma parent_bound: "0 < k \<Longrightarrow> k < n \<Longrightarrow> parent k < n"
  by (rule less_trans [OF parent_less])

lemma parent_eq_iff: "0 < k \<Longrightarrow> parent k = i \<longleftrightarrow> k = 2 * i + 1 \<or> k = 2 * i + 2"
  by (auto simp: parent_def)

definition is_heap :: "('a \<Rightarrow> 'a \<Rightarrow> bool) \<Rightarrow> 'a list \<Rightarrow> nat \<Rightarrow> bool" where
  "is_heap lt xs n \<longleftrightarrow> (\<forall>k. 0 < k \<longrightarrow> k < n \<longrightarrow> \<not> lt (xs ! k) (xs ! parent k))"

lemma heap_up_unfold:
  "heap_up lt xs j =
    (if parent j = j \<or> \<not> lt (xs ! j) (xs ! parent j) then xs else heap_up lt (swap (parent j) j xs) (parent j))"
  by (subst heap_up.simps) (simp only: Let_def parent_def)

text \<open>What \<^verbatim>\<open>heap.Interface\<close> relies on: \<^verbatim>\<open>Less\<close> is a strict weak order.\<close>

locale heap_interface =
  fixes lt :: "'a \<Rightarrow> 'a \<Rightarrow> bool"
  assumes lt_asym: "lt x y \<Longrightarrow> \<not> lt y x"
    and not_lt_trans: "\<not> lt y x \<Longrightarrow> \<not> lt z y \<Longrightarrow> \<not> lt z x"
begin

lemma lt_irrefl [simp]: "\<not> lt x x"
  using lt_asym by blast

lemma heap_up_correct:
  assumes "j < length xs"
    and "\<And>k. 0 < k \<Longrightarrow> k < length xs \<Longrightarrow> k \<noteq> j \<Longrightarrow> \<not> lt (xs ! k) (xs ! parent k)"
    and "\<And>k. 0 < j \<Longrightarrow> k < length xs \<Longrightarrow> 0 < k \<Longrightarrow> parent k = j \<Longrightarrow> \<not> lt (xs ! k) (xs ! parent j)"
  shows "is_heap lt (heap_up lt xs j) (length xs)"
  using assms
proof (induction j arbitrary: xs rule: less_induct)
  case (less j)
  let ?i = "parent j"
  show ?case
  proof (cases "?i = j \<or> \<not> lt (xs ! j) (xs ! ?i)")
    case True
    then have "heap_up lt xs j = xs" by (subst heap_up_unfold) simp
    moreover have "\<not> lt (xs ! k) (xs ! parent k)" if "0 < k" "k < length xs" for k
      using True that less.prems(2) [OF that] by (cases "k = j") auto
    ultimately show ?thesis by (simp add: is_heap_def)
  next
    case False
    then have up: "heap_up lt xs j = heap_up lt (swap ?i j xs) ?i"
      by (subst heap_up_unfold) simp
    have j: "0 < j" using False by (auto simp: parent_def intro: gr0I)
    then have i: "?i < j" by simp
    note sw = nth_swap [of ?i xs j, OF less_trans [OF i less.prems(1)] less.prems(1)]
    have lt: "lt (xs ! j) (xs ! ?i)" using False by simp
    have "is_heap lt (heap_up lt (swap ?i j xs) ?i) (length (swap ?i j xs))"
    proof (rule less.IH [OF i])
      show "?i < length (swap ?i j xs)" using i less.prems(1) by simp
    next
      fix k assume k: "0 < k" "k < length (swap ?i j xs)" "k \<noteq> ?i"
      then have pk: "parent k < length xs" by (simp add: parent_bound)
      show "\<not> lt (swap ?i j xs ! k) (swap ?i j xs ! parent k)"
      proof (cases "k = j")
        case True
        then show ?thesis using i k lt lt_asym pk by (simp add: sw)
      next
        case kj: False
        consider "parent k = j" | "parent k = ?i" "parent k \<noteq> j" | "parent k \<noteq> j" "parent k \<noteq> ?i" by blast
        then show ?thesis
        proof cases
          case 1
          with k kj less.prems(3) [OF j, of k] i pk show ?thesis by (simp add: sw)
        next
          case 2
          have "\<not> lt (xs ! k) (xs ! ?i)" using less.prems(2) [of k] k kj 2 by simp
          then have "\<not> lt (xs ! k) (xs ! j)" using not_lt_trans [OF lt_asym [OF lt]] by blast
          with 2 k kj pk show ?thesis by (simp add: sw)
        next
          case 3
          with k kj pk less.prems(2) [of k] show ?thesis by (simp add: sw)
        qed
      qed
    next
      fix k assume k: "0 < ?i" "k < length (swap ?i j xs)" "0 < k" "parent k = ?i"
      have pi: "parent ?i < ?i" using k(1) by simp
      then have ne: "parent ?i \<noteq> j" "parent ?i \<noteq> ?i" "parent ?i < length xs" using i less.prems(1) by simp_all
      have a: "\<not> lt (xs ! ?i) (xs ! parent ?i)" using less.prems(2) [of ?i] k i less.prems(1) by simp
      show "\<not> lt (swap ?i j xs ! k) (swap ?i j xs ! parent ?i)"
      proof (cases "k = j")
        case True
        with a k ne show ?thesis by (simp add: sw)
      next
        case False
        have "k \<noteq> ?i" using k parent_less [of k] by auto
        moreover have "\<not> lt (xs ! k) (xs ! ?i)" using less.prems(2) [of k] k False by simp
        then have "\<not> lt (xs ! k) (xs ! parent ?i)" using not_lt_trans [OF a] by blast
        ultimately show ?thesis using False k ne by (simp add: sw)
      qed
    qed
    with up show ?thesis by simp
  qed
qed


lemma heap_down_correct:
  assumes "n \<le> length xs"
    and "\<And>k. 0 < k \<Longrightarrow> k < n \<Longrightarrow> parent k \<noteq> i \<Longrightarrow> \<not> lt (xs ! k) (xs ! parent k)"
    and "\<And>k. 0 < i \<Longrightarrow> 0 < k \<Longrightarrow> k < n \<Longrightarrow> parent k = i \<Longrightarrow> \<not> lt (xs ! k) (xs ! parent i)"
  shows "is_heap lt (heap_down lt xs i n) n"
  using assms
proof (induction "n - i" arbitrary: i xs rule: less_induct)
  case less
  define j where "j = (if 2 * i + 2 < n \<and> lt (xs ! (2 * i + 2)) (xs ! (2 * i + 1)) then 2 * i + 2 else 2 * i + 1)"
  have unf: "heap_down lt xs i n = (if n \<le> 2 * i + 1 \<or> \<not> lt (xs ! j) (xs ! i) then xs else heap_down lt (swap i j xs) j n)"
    by (subst heap_down.simps) (simp add: j_def Let_def)
  have best: "\<not> lt (xs ! k) (xs ! j)" if "0 < k" "k < n" "parent k = i" for k
    using that lt_asym by (auto simp: parent_eq_iff j_def)
  show ?case
  proof (cases "n \<le> 2 * i + 1 \<or> \<not> lt (xs ! j) (xs ! i)")
    case True
    have "\<not> lt (xs ! k) (xs ! parent k)" if k: "0 < k" "k < n" for k
    proof (cases "parent k = i")
      case pk: True
      then have "\<not> n \<le> 2 * i + 1" using k by (auto simp: parent_eq_iff)
      with True have "\<not> lt (xs ! j) (xs ! i)" by simp
      from not_lt_trans [OF this best [OF k pk]] pk show ?thesis by simp
    qed (rule less.prems(2) [OF k])
    then show ?thesis unfolding unf using True by (simp add: is_heap_def)
  next
    case False
    then have j: "j < n" "i < j" "parent j = i" "0 < j" and lt: "lt (xs ! j) (xs ! i)"
      by (auto simp: j_def parent_eq_iff split: if_splits)
    have il: "i < length xs" and jl: "j < length xs" using j less.prems(1) by auto
    note sw = nth_swap [OF il jl]
    have "is_heap lt (heap_down lt (swap i j xs) j n) n"
    proof (rule less.hyps)
      show "n - j < n - i" using j by simp
      show "n \<le> length (swap i j xs)" using less.prems(1) by simp
    next
      fix k assume k: "0 < k" "k < n" "parent k \<noteq> j"
      have kl: "k < length xs" "parent k < length xs" using k less.prems(1) parent_bound [of k n] by simp_all
      consider "k = j" | "k \<noteq> j" "parent k = i" | "k = i" "parent k \<noteq> i" | "k \<noteq> j" "parent k \<noteq> i" "k \<noteq> i" by blast
      then show "\<not> lt (swap i j xs ! k) (swap i j xs ! parent k)"
      proof cases
        case 1
        with j kl lt_asym [OF lt] show ?thesis by (simp add: sw)
      next
        case 2
        have "k \<noteq> i" using 2 k parent_less [of k] by auto
        with 2 j kl best [OF k(1,2)] show ?thesis by (simp add: sw)
      next
        case 3
        have "\<not> lt (xs ! j) (xs ! parent i)" using less.prems(3) [of j] 3 k j by simp
        with 3 j kl k show ?thesis by (simp add: sw)
      next
        case 4
        with k kl less.prems(2) [OF k(1,2)] show ?thesis by (simp add: sw)
      qed
    next
      fix k assume k: "0 < j" "0 < k" "k < n" "parent k = j"
      have "\<not> lt (xs ! k) (xs ! j)" using less.prems(2) [of k] k j by simp
      moreover have "k \<noteq> i" "k \<noteq> j" "k < length xs" using k j less.prems(1) parent_less [of k] by auto
      ultimately show "\<not> lt (swap i j xs ! k) (swap i j xs ! parent j)" using j il by (simp add: sw)
    qed
    with False show ?thesis unfolding unf by simp
  qed
qed

text \<open>The first element of a heap precedes, or ties with, every other.\<close>

lemma heap_root: "is_heap lt xs n \<Longrightarrow> k < n \<Longrightarrow> \<not> lt (xs ! k) (xs ! 0)"
proof (induction k rule: less_induct)
  case (less k)
  show ?case
  proof (cases "k = 0")
    case False
    then have "\<not> lt (xs ! parent k) (xs ! 0)" using less.IH [of "parent k"] less.prems parent_bound [of k n] by simp
    moreover have "\<not> lt (xs ! k) (xs ! parent k)" using less.prems False by (simp add: is_heap_def)
    ultimately show ?thesis by (rule not_lt_trans)
  qed simp
qed

lemma mset_heap_Push [simp]: "mset (heap_Push lt x xs) = add_mset x (mset xs)"
  by (simp add: heap_Push_def Let_def)

lemma set_heap_Push [simp]: "set (heap_Push lt x xs) = insert x (set xs)"
  by (metis mset_heap_Push set_mset_add_mset_insert set_mset_mset)

lemma length_heap_Push [simp]: "length (heap_Push lt x xs) = Suc (length xs)"
  by (simp add: heap_Push_def Let_def)

lemma heap_Push_heap:
  assumes "is_heap lt xs (length xs)"
  shows "is_heap lt (heap_Push lt x xs) (length (heap_Push lt x xs))"
proof -
  have "is_heap lt (heap_up lt (xs @ [x]) (length xs)) (length (xs @ [x]))"
  proof (rule heap_up_correct)
    fix k assume k: "0 < k" "k < length (xs @ [x])" "k \<noteq> length xs"
    moreover have "parent k < k" using k by simp
    ultimately show "\<not> lt ((xs @ [x]) ! k) ((xs @ [x]) ! parent k)"
      using assms by (simp add: is_heap_def nth_append)
  next
    fix k assume "0 < k" "k < length (xs @ [x])" "parent k = length xs"
    with parent_less [of k] show "\<not> lt ((xs @ [x]) ! k) ((xs @ [x]) ! parent (length xs))" by simp
  qed simp
  then show ?thesis by (simp add: heap_Push_def Let_def)
qed

lemma heap_Pop_correct:
  assumes h: "is_heap lt xs (length xs)" and ne: "xs \<noteq> []" and p: "heap_Pop lt xs = (x, ys)"
  shows "x = xs ! 0" and "mset xs = add_mset x (mset ys)" and "is_heap lt ys (length ys)"
    and "\<forall>y\<in>set ys. \<not> lt y x"
proof -
  define n where "n = length xs - 1"
  define zs where "zs = heap_down lt (swap 0 n xs) 0 n"
  have n: "length xs = Suc n" using ne by (simp add: n_def)
  have len: "length zs = Suc n" by (simp add: zs_def n)
  have x: "x = zs ! n" and ys: "ys = take n zs"
    using p unfolding heap_Pop_def Let_def n_def [symmetric] zs_def [symmetric] by simp_all
  have "zs ! n = swap 0 n xs ! n" by (simp add: zs_def heap_down_beyond)
  then show x0: "x = xs ! 0" using x n by (simp add: nth_swap)
  have "zs = ys @ [x]" using len x ys by (metis take_Suc_conv_app_nth lessI take_all order_refl)
  then have "mset zs = add_mset x (mset ys)" by simp
  moreover have "mset zs = mset xs" using n by (simp add: zs_def)
  ultimately show ms: "mset xs = add_mset x (mset ys)" by simp
  have "is_heap lt zs n"
    unfolding zs_def
  proof (rule heap_down_correct)
    fix k assume k: "0 < k" "k < n" "parent k \<noteq> 0"
    have "parent k < n" using k by (simp add: parent_bound)
    with k h n show "\<not> lt (swap 0 n xs ! k) (swap 0 n xs ! parent k)"
      by (simp add: nth_swap is_heap_def)
  qed (use n in simp_all)
  then show "is_heap lt ys (length ys)"
    using len unfolding ys is_heap_def by (auto simp: parent_bound)
  have "\<not> lt y x" if "y \<in> set xs" for y
    using that heap_root [OF h] x0 by (auto simp: in_set_conv_nth)
  moreover have "set ys \<subseteq> set xs" using ms by (metis set_mset_mset set_mset_add_mset_insert subset_insertI)
  ultimately show "\<forall>y\<in>set ys. \<not> lt y x" by blast
qed

end

end
