(* ===== verification/PriorityQueue.thy ===== *)
theory PriorityQueue
  imports GoHeap
begin

text \<open>
  \<^verbatim>\<open>enterprise/server/scheduling/priority_queue/priority_queue.go\<close>: task reservations ordered by
  priority (highest first) and insertion time, in a binary heap. The reservation is a type
  parameter; a time is the integer number of nanoseconds it stands for and \<open>now\<close> is what
  \<^verbatim>\<open>time.Now()\<close> returned. Seen from outside, with the one priority the code uses and a
  clock that advances, it is a first-in-first-out queue: the locale \<open>fifo_queue\<close>.
\<close>

section \<open>The code\<close>

record 'v pqItem =
  pq_value :: 'v
  pq_priority :: int
  insertTime :: int

definition Less_item :: "'v pqItem \<Rightarrow> 'v pqItem \<Rightarrow> bool" where
  "Less_item x y \<longleftrightarrow> pq_priority x > pq_priority y
     \<or> (pq_priority x = pq_priority y \<and> insertTime x < insertTime y)"

record 'v PriorityQueue =
  inner :: "'v pqItem list"

definition NewPriorityQueue :: "'v PriorityQueue" where
  "NewPriorityQueue = \<lparr>inner = []\<rparr>"

definition PriorityQueue_Push :: "int \<Rightarrow> 'v \<Rightarrow> 'v PriorityQueue \<Rightarrow> 'v PriorityQueue" where
  "PriorityQueue_Push now req pq =
     pq\<lparr>inner := heap_Push Less_item \<lparr>pq_value = req, pq_priority = 0, insertTime = now\<rparr> (inner pq)\<rparr>"

definition PriorityQueue_Pop :: "'v PriorityQueue \<Rightarrow> 'v option \<times> 'v PriorityQueue" where
  "PriorityQueue_Pop pq =
     (if length (inner pq) = 0 then (None, pq)
      else let (item, rest) = heap_Pop Less_item (inner pq) in (Some (pq_value item), pq\<lparr>inner := rest\<rparr>))"

definition PriorityQueue_Peek :: "'v PriorityQueue \<Rightarrow> 'v option" where
  "PriorityQueue_Peek pq = (if length (inner pq) = 0 then None else Some (pq_value (inner pq ! 0)))"

definition PriorityQueue_GetAll :: "'v PriorityQueue \<Rightarrow> 'v list" where
  "PriorityQueue_GetAll pq = map pq_value (inner pq)"

definition PriorityQueue_Len :: "'v PriorityQueue \<Rightarrow> nat" where
  "PriorityQueue_Len pq = length (inner pq)"

section \<open>The heap order\<close>

interpretation pqh: heap_interface Less_item
  by unfold_locales (auto simp: Less_item_def)

definition pq_heap :: "'v PriorityQueue \<Rightarrow> bool" where
  "pq_heap pq \<longleftrightarrow> is_heap Less_item (inner pq) (length (inner pq))"

lemma pq_heap_New [inv_intro]: "pq_heap NewPriorityQueue"
  by (simp add: pq_heap_def NewPriorityQueue_def is_heap_def)

lemma pq_heap_Push [inv_intro]: "pq_heap pq \<Longrightarrow> pq_heap (PriorityQueue_Push now req pq)"
  unfolding pq_heap_def PriorityQueue_Push_def by (simp add: pqh.heap_Push_heap del: pqh.length_heap_Push)

lemma PriorityQueue_Pop_cases:
  assumes "pq_heap pq"
  obtains "inner pq = []" and "PriorityQueue_Pop pq = (None, pq)"
  | item rest where "PriorityQueue_Pop pq = (Some (pq_value item), pq\<lparr>inner := rest\<rparr>)"
      and "inner pq \<noteq> []" and "item = inner pq ! 0" and "mset (inner pq) = add_mset item (mset rest)"
      and "is_heap Less_item rest (length rest)" and "\<forall>y\<in>set rest. \<not> Less_item y item"
proof (cases "inner pq = []")
  case True
  then show thesis using that(1) by (simp add: PriorityQueue_Pop_def)
next
  case False
  obtain item rest where p: "heap_Pop Less_item (inner pq) = (item, rest)" by fastforce
  note c = pqh.heap_Pop_correct [OF assms [unfolded pq_heap_def] False p]
  show thesis by (rule that(2) [OF _ False c]) (simp add: PriorityQueue_Pop_def False p)
qed

text \<open>\<open>Pop\<close> of a non-empty queue returns the reservation \<open>Peek\<close> shows, removes just that item, keeps the
  heap order, and no item left is more urgent (of higher priority, or of equal priority and earlier).\<close>

theorem PriorityQueue_Pop_best:
  assumes "pq_heap pq" and "inner pq \<noteq> []"
  shows "\<exists>item rest. PriorityQueue_Pop pq = (Some (pq_value item), rest)
    \<and> PriorityQueue_Peek pq = Some (pq_value item) \<and> mset (inner pq) = add_mset item (mset (inner rest))
    \<and> pq_heap rest \<and> (\<forall>y\<in>set (inner rest). \<not> Less_item y item)"
  using assms(1)
proof (cases rule: PriorityQueue_Pop_cases)
  case (2 item rest)
  then show ?thesis
    by (intro exI [of _ item] exI [of _ "pq\<lparr>inner := rest\<rparr>"]) (simp add: PriorityQueue_Peek_def pq_heap_def)
qed (use assms(2) in simp)

definition example_pq :: "string PriorityQueue" where
  "example_pq = PriorityQueue_Push 3 ''c'' (PriorityQueue_Push 2 ''b'' (PriorityQueue_Push 1 ''a'' NewPriorityQueue))"

theorem PriorityQueue_Pop_best_witness:
  "\<exists>item rest. PriorityQueue_Pop example_pq = (Some (pq_value item), rest)
    \<and> PriorityQueue_Peek example_pq = Some (pq_value item) \<and> mset (inner example_pq) = add_mset item (mset (inner rest))
    \<and> pq_heap rest \<and> (\<forall>y\<in>set (inner rest). \<not> Less_item y item)"
proof (rule PriorityQueue_Pop_best)
  show "pq_heap example_pq" unfolding example_pq_def by (intro inv_intro)
  have "length (inner example_pq) = 3" by (simp add: example_pq_def PriorityQueue_Push_def NewPriorityQueue_def)
  then show "inner example_pq \<noteq> []" by auto
qed

section \<open>First in, first out\<close>

text \<open>
  The queue as its clients see it: the reservations in the order of their insertion times. It is
  in order as long as every item has the same priority and the times are distinct and in
  the past.
\<close>

definition pq_inv :: "int \<Rightarrow> 'v PriorityQueue \<Rightarrow> bool" where
  "pq_inv now pq \<longleftrightarrow> pq_heap pq \<and> (\<forall>x\<in>set (inner pq). pq_priority x = 0 \<and> insertTime x < now)
     \<and> distinct (map insertTime (inner pq))"

definition pq_abs :: "'v PriorityQueue \<Rightarrow> 'v list" where
  "pq_abs pq = map pq_value (sort_key insertTime (inner pq))"

lemma sort_key_unique:
  assumes "distinct (map f xs)" and "mset xs = mset ys" and "sorted (map f ys)"
  shows "sort_key f xs = ys"
  using assms by (intro sort_key_inj_key_eq) (simp_all add: distinct_map)

lemma distinct_times_Push:
  assumes "distinct (map insertTime xs)" and "insertTime x \<notin> insertTime ` set xs"
  shows "distinct (map insertTime (heap_Push Less_item x xs))"
proof -
  have "mset (map insertTime (heap_Push Less_item x xs)) = mset (map insertTime (x # xs))"
    by (simp only: mset_map pqh.mset_heap_Push mset.simps)
  then have "distinct (map insertTime (heap_Push Less_item x xs)) = distinct (map insertTime (x # xs))"
    by (rule mset_eq_imp_distinct_iff)
  with assms show ?thesis by simp
qed

lemma pq_abs_Push:
  assumes "pq_inv now pq"
  shows "pq_abs (PriorityQueue_Push now req pq) = pq_abs pq @ [req]"
proof -
  let ?new = "\<lparr>pq_value = req, pq_priority = 0, insertTime = now\<rparr>"
  have "sort_key insertTime (heap_Push Less_item ?new (inner pq)) = sort_key insertTime (inner pq) @ [?new]"
  proof (rule sort_key_unique)
    show "distinct (map insertTime (heap_Push Less_item ?new (inner pq)))"
      using assms by (intro distinct_times_Push) (auto simp: pq_inv_def)
    show "sorted (map insertTime (sort_key insertTime (inner pq) @ [?new]))"
      using assms by (auto simp: pq_inv_def sorted_append less_imp_le)
  qed simp
  then show ?thesis by (simp add: pq_abs_def PriorityQueue_Push_def)
qed

lemma pq_inv_Push:
  assumes "pq_inv now pq" and "now < now'"
  shows "pq_inv now' (PriorityQueue_Push now req pq)"
proof -
  let ?new = "\<lparr>pq_value = req, pq_priority = 0, insertTime = now\<rparr>"
  have "distinct (map insertTime (heap_Push Less_item ?new (inner pq)))"
    using assms by (intro distinct_times_Push) (auto simp: pq_inv_def)
  with assms pq_heap_Push [of pq now req] show ?thesis
    by (auto simp: pq_inv_def PriorityQueue_Push_def)
qed

lemma PriorityQueue_Pop_fifo:
  assumes inv: "pq_inv now pq"
  shows "PriorityQueue_Pop pq = (None, pq) \<and> pq_abs pq = []
    \<or> (\<exists>item rest. PriorityQueue_Pop pq = (Some (pq_value item), pq\<lparr>inner := rest\<rparr>) \<and> inner pq \<noteq> []
        \<and> item = inner pq ! 0 \<and> pq_abs pq = pq_value item # pq_abs (pq\<lparr>inner := rest\<rparr>)
        \<and> pq_inv now (pq\<lparr>inner := rest\<rparr>))"
proof -
  have h: "pq_heap pq" using inv by (simp add: pq_inv_def)
  then show ?thesis
  proof (cases rule: PriorityQueue_Pop_cases)
    case 1
    then show ?thesis by (simp add: pq_abs_def)
  next
    case (2 item rest)
    have set: "set (inner pq) = insert item (set rest)" using arg_cong [OF 2(4), of set_mset] by simp
    have dist: "distinct (map insertTime (item # rest))"
      using inv mset_eq_imp_distinct_iff [of "map insertTime (inner pq)" "map insertTime (item # rest)"] 2(4)
      by (simp add: pq_inv_def)
    have "\<forall>y\<in>set rest. insertTime item \<le> insertTime y"
      using inv 2(6) set by (force simp: pq_inv_def Less_item_def)
    then have "sort_key insertTime (inner pq) = item # sort_key insertTime rest"
      using inv 2(4) by (intro sort_key_unique) (simp_all add: pq_inv_def)
    moreover have "pq_inv now (pq\<lparr>inner := rest\<rparr>)"
      using inv 2(5) set dist by (simp add: pq_inv_def pq_heap_def)
    ultimately show ?thesis using 2(1-3) by (auto simp: pq_abs_def)
  qed
qed

text \<open>
  The contract a client of a queue of reservations relies on, and what follows for runs of
  additions and removals.
\<close>

locale fifo_queue =
  fixes qinv :: "int \<Rightarrow> 'q \<Rightarrow> bool"
    and qabs :: "'q \<Rightarrow> 'v list"
    and push :: "int \<Rightarrow> 'v \<Rightarrow> 'q \<Rightarrow> 'q"
    and pop :: "'q \<Rightarrow> 'v option \<times> 'q"
    and peek :: "'q \<Rightarrow> 'v option"
    and qlen :: "'q \<Rightarrow> nat"
  assumes inv_push: "qinv now q \<Longrightarrow> now < now' \<Longrightarrow> qinv now' (push now v q)"
    and inv_later: "qinv now q \<Longrightarrow> now \<le> now' \<Longrightarrow> qinv now' q"
    and abs_push: "qinv now q \<Longrightarrow> qabs (push now v q) = qabs q @ [v]"
    and pop_empty: "qinv now q \<Longrightarrow> qabs q = [] \<Longrightarrow> pop q = (None, q)"
    and pop_cons: "qinv now q \<Longrightarrow> qabs q = v # vs \<Longrightarrow>
      fst (pop q) = Some v \<and> qabs (snd (pop q)) = vs \<and> qinv now (snd (pop q))"
    and peek_abs: "qinv now q \<Longrightarrow> peek q = (case qabs q of [] \<Rightarrow> None | v # vs \<Rightarrow> Some v)"
    and len_abs: "qinv now q \<Longrightarrow> qlen q = length (qabs q)"
begin

lemma peek_pop: "qinv now q \<Longrightarrow> fst (pop q) = peek q"
  by (cases "qabs q") (auto simp: pop_empty pop_cons peek_abs)

lemma inv_pop: "qinv now q \<Longrightarrow> qinv now (snd (pop q))"
  by (cases "qabs q") (auto simp: pop_empty pop_cons)

lemma abs_pop: "qinv now q \<Longrightarrow> qabs (snd (pop q)) = tl (qabs q)"
  by (cases "qabs q") (auto simp: pop_empty pop_cons)

lemma len_pop: "qinv now q \<Longrightarrow> qlen (snd (pop q)) = qlen q - 1"
  using len_abs [OF inv_pop] by (simp add: len_abs abs_pop)

lemma pop_None_iff: "qinv now q \<Longrightarrow> fst (pop q) = None \<longleftrightarrow> qabs q = []"
  by (cases "qabs q") (auto simp: pop_empty pop_cons)

lemma pushes_abs:
  "qinv now q \<Longrightarrow> sorted_wrt (<) (map fst tvs) \<Longrightarrow> \<forall>t\<in>set (map fst tvs). now \<le> t \<Longrightarrow>
    qabs (fold (\<lambda>tv. push (fst tv) (snd tv)) tvs q) = qabs q @ map snd tvs
    \<and> (\<exists>now'. qinv now' (fold (\<lambda>tv. push (fst tv) (snd tv)) tvs q))"
proof (induction tvs arbitrary: q now)
  case (Cons tv tvs)
  have q: "qinv (fst tv) q" using Cons.prems by (auto intro: inv_later)
  have "qinv (fst tv + 1) (push (fst tv) (snd tv) q)" by (rule inv_push [OF q]) simp
  then show ?case using Cons.IH [of "fst tv + 1"] Cons.prems abs_push [OF q] by fastforce
qed auto

lemma pops_abs: "qinv now q \<Longrightarrow> qinv now (((snd \<circ> pop) ^^ k) q) \<and> qabs (((snd \<circ> pop) ^^ k) q) = drop k (qabs q)"
  by (induction k) (auto simp: inv_pop abs_pop drop_Suc tl_drop)

lemma pops_nth:
  assumes "qinv now q" and "k < length (qabs q)"
  shows "fst (pop (((snd \<circ> pop) ^^ k) q)) = Some (qabs q ! k)"
proof -
  have "qabs (((snd \<circ> pop) ^^ k) q) = qabs q ! k # drop (Suc k) (qabs q)"
    using pops_abs [OF assms(1)] assms(2) by (simp add: Cons_nth_drop_Suc)
  with pop_cons pops_abs [OF assms(1)] show ?thesis by blast
qed

end

lemma pq_abs_Nil: "pq_abs q = [] \<longleftrightarrow> inner q = []"
  unfolding pq_abs_def by (metis Nil_is_map_conv length_0_conv length_sort)

interpretation pqf: fifo_queue pq_inv pq_abs PriorityQueue_Push PriorityQueue_Pop PriorityQueue_Peek PriorityQueue_Len
proof unfold_locales
  fix now now' :: int and q :: "'a PriorityQueue" and v vs
  show "pq_inv now q \<Longrightarrow> now < now' \<Longrightarrow> pq_inv now' (PriorityQueue_Push now v q)" by (rule pq_inv_Push)
  show "pq_inv now q \<Longrightarrow> now \<le> now' \<Longrightarrow> pq_inv now' q" by (auto simp: pq_inv_def)
  show "pq_inv now q \<Longrightarrow> pq_abs (PriorityQueue_Push now v q) = pq_abs q @ [v]" by (rule pq_abs_Push)
  show "pq_inv now q \<Longrightarrow> pq_abs q = [] \<Longrightarrow> PriorityQueue_Pop q = (None, q)"
    by (auto dest: PriorityQueue_Pop_fifo)
  show "pq_inv now q \<Longrightarrow> pq_abs q = v # vs \<Longrightarrow> fst (PriorityQueue_Pop q) = Some v
      \<and> pq_abs (snd (PriorityQueue_Pop q)) = vs \<and> pq_inv now (snd (PriorityQueue_Pop q))"
    by (auto dest: PriorityQueue_Pop_fifo)
  show "pq_inv now q \<Longrightarrow> PriorityQueue_Peek q = (case pq_abs q of [] \<Rightarrow> None | v # vs \<Rightarrow> Some v)"
    by (drule PriorityQueue_Pop_fifo) (auto simp: PriorityQueue_Peek_def pq_abs_Nil [symmetric])
  show "PriorityQueue_Len q = length (pq_abs q)" by (simp add: PriorityQueue_Len_def pq_abs_def)
qed

lemma pq_inv_New [inv_intro]: "pq_inv now NewPriorityQueue"
  by (simp add: pq_inv_def pq_heap_New) (simp add: NewPriorityQueue_def)

lemma pq_abs_New [abs_simps]: "pq_abs NewPriorityQueue = []"
  by (simp add: pq_abs_def NewPriorityQueue_def)

text \<open>Reservations pushed at strictly increasing times come out of a new queue in the order they went in, however
  the heap rearranged them: popping as often as was pushed returns all of them, first in first out.\<close>

theorem PriorityQueue_fifo:
  assumes "sorted_wrt (<) (map fst tvs)" and "k < length tvs"
    and "pq = fold (\<lambda>tv. PriorityQueue_Push (fst tv) (snd tv)) tvs NewPriorityQueue"
  shows "fst (PriorityQueue_Pop (((snd \<circ> PriorityQueue_Pop) ^^ k) pq)) = Some (snd (tvs ! k))"
proof -
  have "\<forall>t\<in>set (map fst tvs). fst (hd tvs) \<le> t"
    using assms(1) by (cases tvs) auto
  from pqf.pushes_abs [OF pq_inv_New assms(1) this]
  obtain now where "pq_abs pq = map snd tvs" and "pq_inv now pq"
    unfolding assms(3) pq_abs_New by auto
  with pqf.pops_nth [of now pq k] assms(2) show ?thesis by simp
qed

theorem PriorityQueue_fifo_witness:
  "fst (PriorityQueue_Pop (((snd \<circ> PriorityQueue_Pop) ^^ 1)
      (fold (\<lambda>tv. PriorityQueue_Push (fst tv) (snd tv)) [(10, ''a''), (20, ''b''), (30, ''c'')] NewPriorityQueue)))
    = Some (snd ([(10 :: int, ''a''), (20, ''b''), (30, ''c'')] ! 1))"
  by (rule PriorityQueue_fifo [OF _ _ refl]) simp_all

end
