(* ===== verification/GoList.thy ===== *)
theory GoList
  imports Prelude
begin

text \<open>
  Go's \<^verbatim>\<open>container/list\<close>: a doubly linked list whose elements are addressed by pointer. An element
  is the number it was allocated under; \<open>els\<close> lists the elements that are linked in, front first, with
  the values they hold. The elements the program keeps are those of one list, so the list
  pointer inside an element, which the package compares before it unlinks, is not modelled.
\<close>

section \<open>The code\<close>

record 'v golist =
  els :: "(nat \<times> 'v) list"
  fresh :: nat

definition gl_New :: "'v golist" where
  "gl_New = \<lparr>els = [], fresh = 0\<rparr>"

definition gl_PushBack :: "'v \<Rightarrow> 'v golist \<Rightarrow> nat \<times> 'v golist" where
  "gl_PushBack v l = (fresh l, \<lparr>els = els l @ [(fresh l, v)], fresh = fresh l + 1\<rparr>)"

definition gl_PushFront :: "'v \<Rightarrow> 'v golist \<Rightarrow> nat \<times> 'v golist" where
  "gl_PushFront v l = (fresh l, \<lparr>els = (fresh l, v) # els l, fresh = fresh l + 1\<rparr>)"

definition gl_Remove :: "nat \<Rightarrow> 'v golist \<Rightarrow> 'v golist" where
  "gl_Remove e l = l\<lparr>els := filter (\<lambda>x. fst x \<noteq> e) (els l)\<rparr>"

definition gl_MoveToFront :: "nat \<Rightarrow> 'v golist \<Rightarrow> 'v golist" where
  "gl_MoveToFront e l = l\<lparr>els := filter (\<lambda>x. fst x = e) (els l) @ filter (\<lambda>x. fst x \<noteq> e) (els l)\<rparr>"

definition gl_Front :: "'v golist \<Rightarrow> nat option" where
  "gl_Front l = (case els l of [] \<Rightarrow> None | x # xs \<Rightarrow> Some (fst x))"

definition gl_Back :: "'v golist \<Rightarrow> nat option" where
  "gl_Back l = (case rev (els l) of [] \<Rightarrow> None | x # xs \<Rightarrow> Some (fst x))"

definition gl_Next :: "nat \<Rightarrow> 'v golist \<Rightarrow> nat option" where
  "gl_Next e l = (case dropWhile (\<lambda>x. fst x \<noteq> e) (els l) of x # y # ys \<Rightarrow> Some (fst y) | _ \<Rightarrow> None)"

definition gl_Len :: "'v golist \<Rightarrow> nat" where
  "gl_Len l = length (els l)"

text \<open>Reading, and writing through, an element's \<^verbatim>\<open>Value\<close>.\<close>

definition gl_Value :: "'v golist \<Rightarrow> nat \<Rightarrow> 'v option" where
  "gl_Value l e = map_of (els l) e"

definition gl_set :: "nat \<Rightarrow> 'v \<Rightarrow> 'v golist \<Rightarrow> 'v golist" where
  "gl_set e v l = l\<lparr>els := map (\<lambda>x. if fst x = e then (e, v) else x) (els l)\<rparr>"

section \<open>The invariant\<close>

definition wf_gl :: "'v golist \<Rightarrow> bool" where
  "wf_gl l \<longleftrightarrow> distinct (map fst (els l)) \<and> (\<forall>e\<in>fst ` set (els l). e < fresh l)"

lemma wf_gl_New [inv_intro, simp]: "wf_gl gl_New" "els gl_New = []"
  by (simp_all add: wf_gl_def gl_New_def)

lemma wf_gl_fresh: "wf_gl l \<Longrightarrow> (fresh l, v) \<notin> set (els l)" "wf_gl l \<Longrightarrow> fresh l \<notin> fst ` set (els l)"
  by (force simp: wf_gl_def)+

lemma wf_gl_PushBack [inv_intro]: "wf_gl l \<Longrightarrow> wf_gl (snd (gl_PushBack v l))"
  by (force simp: wf_gl_def gl_PushBack_def)

lemma wf_gl_PushFront [inv_intro]: "wf_gl l \<Longrightarrow> wf_gl (snd (gl_PushFront v l))"
  by (force simp: wf_gl_def gl_PushFront_def)

lemma wf_gl_Remove [inv_intro]: "wf_gl l \<Longrightarrow> wf_gl (gl_Remove e l)"
  by (auto simp: wf_gl_def gl_Remove_def distinct_map_filter)

lemma map_fst_set [simp]: "map fst (els (gl_set e v l)) = map fst (els l)"
  by (auto simp: gl_set_def)

lemma wf_gl_set [inv_intro]:
  assumes "wf_gl l"
  shows "wf_gl (gl_set e v l)"
proof -
  have "fst ` set (els (gl_set e v l)) = fst ` set (els l)"
    unfolding set_map [symmetric] map_fst_set ..
  with assms show ?thesis by (simp add: wf_gl_def) (simp add: gl_set_def)
qed

lemma wf_gl_MoveToFront [inv_intro]: "wf_gl l \<Longrightarrow> wf_gl (gl_MoveToFront e l)"
  by (auto simp: wf_gl_def gl_MoveToFront_def distinct_map_filter)

text \<open>A linked-in element splits the list.\<close>

lemma wf_gl_split:
  assumes "wf_gl l" and "(e, v) \<in> set (els l)"
  obtains xs ys where "els l = xs @ (e, v) # ys" and "e \<notin> fst ` set xs" and "e \<notin> fst ` set ys"
proof -
  from assms(2) obtain xs ys where l: "els l = xs @ (e, v) # ys" by (meson split_list)
  with assms(1) have "e \<notin> fst ` set xs" and "e \<notin> fst ` set ys" by (auto simp: wf_gl_def)
  with l show thesis by (rule that)
qed

lemma filter_other: "e \<notin> fst ` set xs \<Longrightarrow> filter (\<lambda>x. fst x \<noteq> e) xs = xs"
  by (intro filter_True) auto

lemma filter_this: "e \<notin> fst ` set xs \<Longrightarrow> filter (\<lambda>x. fst x = e) xs = []"
  by (auto simp: filter_empty_conv)

lemma map_other: "e \<notin> fst ` set xs \<Longrightarrow> map (\<lambda>x. if fst x = e then (e, v) else x) xs = xs"
  by (intro map_idI) auto

lemma dropWhile_other: "e \<notin> fst ` set xs \<Longrightarrow> dropWhile (\<lambda>x. fst x \<noteq> e) (xs @ (e, v) # ys) = (e, v) # ys"
  by (induction xs) auto

lemma takeWhile_other: "e \<notin> fst ` set xs \<Longrightarrow> takeWhile (\<lambda>x. fst x \<noteq> e) (xs @ (e, v) # ys) = xs"
  by (induction xs) auto

lemma split_simps:
  assumes "els l = xs @ (e, v) # ys" and "e \<notin> fst ` set xs" and "e \<notin> fst ` set ys"
  shows "gl_Value l e = Some v"
    and "els (gl_Remove e l) = xs @ ys"
    and "els (gl_set e v' l) = xs @ (e, v') # ys"
    and "els (gl_MoveToFront e l) = (e, v) # xs @ ys"
    and "gl_Next e l = (case ys of [] \<Rightarrow> None | y # ys \<Rightarrow> Some (fst y))"
proof -
  have "map_of xs e = None" using assms(2) by (simp add: map_of_eq_None_iff)
  then show "gl_Value l e = Some v" using assms by (simp add: gl_Value_def map_add_def)
qed (use assms in \<open>simp_all add: gl_Remove_def gl_set_def gl_MoveToFront_def gl_Next_def filter_other filter_this map_other
      dropWhile_other split: list.split\<close>)

end
