(* ===== verification/TaskQueue.thy ===== *)
theory TaskQueue
  imports PriorityQueue GoList
begin

text \<open>
  The \<^verbatim>\<open>taskQueue\<close> of \<^verbatim>\<open>enterprise/server/scheduling/priority_task_scheduler/priority_task_scheduler.go\<close>:
  one queue of reservations per task group, visited round robin. It is a client of the priority
  queue, through the contract \<open>fifo_queue\<close>. The list elements' values are always group
  queues, so the type assertions of the code cannot fail and have no branch here; the
  queue-length metrics are left out.
\<close>

section \<open>The code\<close>

text \<open>The messages of \<^verbatim>\<open>proto/scheduler.proto\<close>, as far as the scheduler reads them.\<close>

record TaskSize =
  estimated_memory_bytes :: u64
  estimated_milli_cpu :: u64

record reservation =
  task_id :: string
  task_group_id :: string
  task_size :: "TaskSize option"

record groupPriorityQueue =
  gpq :: "reservation PriorityQueue"
  groupID :: string

record taskQueue =
  pqs :: "groupPriorityQueue golist"
  pqByGroupID :: "string \<rightharpoonup> nat"
  currentPQ :: "nat option"
  numTasks :: int

definition newTaskQueue :: taskQueue where
  "newTaskQueue = \<lparr>pqs = gl_New, pqByGroupID = Map.empty, currentPQ = None, numTasks = 0\<rparr>"

definition taskQueue_GetAll :: "taskQueue \<Rightarrow> reservation list" where
  "taskQueue_GetAll t = concat (map (\<lambda>x. PriorityQueue_GetAll (gpq (snd x))) (els (pqs t)))"

text \<open>\<open>pq.Push(req)\<close> through the pointer held by the element \<open>el\<close>.\<close>

definition push_at :: "int \<Rightarrow> reservation \<Rightarrow> nat \<Rightarrow> taskQueue \<Rightarrow> taskQueue" where
  "push_at now req el t =
     (case gl_Value (pqs t) el of
        None \<Rightarrow> t
      | Some pq \<Rightarrow> t\<lparr>pqs := gl_set el (pq\<lparr>gpq := PriorityQueue_Push now req (gpq pq)\<rparr>) (pqs t)\<rparr>)"

definition taskQueue_Enqueue :: "int \<Rightarrow> reservation \<Rightarrow> taskQueue \<Rightarrow> taskQueue" where
  "taskQueue_Enqueue now req t =
     (let taskGroupID = task_group_id req;
          (el, t') =
            (case pqByGroupID t taskGroupID of
               Some el \<Rightarrow> (el, t)
             | None \<Rightarrow>
                 let pq = \<lparr>gpq = NewPriorityQueue, groupID = taskGroupID\<rparr>;
                     (el, l) = gl_PushBack pq (pqs t) in
                 (el, t\<lparr>pqs := l, pqByGroupID := (pqByGroupID t)(taskGroupID \<mapsto> el),
                        currentPQ := (if currentPQ t = None then Some el else currentPQ t)\<rparr>));
          t'' = push_at now req el t' in
      t''\<lparr>numTasks := numTasks t'' + 1\<rparr>)"

definition taskQueue_Dequeue :: "taskQueue \<Rightarrow> reservation option \<times> taskQueue" where
  "taskQueue_Dequeue t =
     (case currentPQ t of
        None \<Rightarrow> (None, t)
      | Some pqEl \<Rightarrow>
          (case gl_Value (pqs t) pqEl of
             None \<Rightarrow> (None, t)
           | Some pq \<Rightarrow>
               let (req, q) = PriorityQueue_Pop (gpq pq);
                   l1 = gl_set pqEl (pq\<lparr>gpq := q\<rparr>) (pqs t);
                   cur = gl_Next pqEl l1;
                   (l2, m) = (if PriorityQueue_Len q = 0
                              then (gl_Remove pqEl l1, (pqByGroupID t)(groupID pq := None))
                              else (l1, pqByGroupID t));
                   cur' = (case cur of None \<Rightarrow> gl_Front l2 | Some e \<Rightarrow> Some e) in
               (req, \<lparr>pqs = l2, pqByGroupID = m, currentPQ = cur', numTasks = numTasks t - 1\<rparr>)))"

definition taskQueue_Peek :: "taskQueue \<Rightarrow> reservation option" where
  "taskQueue_Peek t =
     (case currentPQ t of
        None \<Rightarrow> None
      | Some el \<Rightarrow> (case gl_Value (pqs t) el of None \<Rightarrow> None | Some pq \<Rightarrow> PriorityQueue_Peek (gpq pq)))"

definition taskQueue_Len :: "taskQueue \<Rightarrow> int" where
  "taskQueue_Len t = numTasks t"

section \<open>The abstract queue\<close>

text \<open>
  The rotation: the groups with their reservations in order, beginning with the one that is
  served next. The invariant ties the list, the index by group and the current element together.
\<close>

definition group_abs :: "nat \<times> groupPriorityQueue \<Rightarrow> string \<times> reservation list" where
  "group_abs x = (groupID (snd x), pq_abs (gpq (snd x)))"

definition rotation :: "taskQueue \<Rightarrow> (string \<times> reservation list) list" where
  "rotation t = map group_abs
     (dropWhile (\<lambda>x. Some (fst x) \<noteq> currentPQ t) (els (pqs t))
      @ takeWhile (\<lambda>x. Some (fst x) \<noteq> currentPQ t) (els (pqs t)))"

definition tq_inv :: "int \<Rightarrow> taskQueue \<Rightarrow> bool" where
  "tq_inv now t \<longleftrightarrow> wf_gl (pqs t)
     \<and> (\<forall>x\<in>set (els (pqs t)). pq_inv now (gpq (snd x)) \<and> pq_abs (gpq (snd x)) \<noteq> [])
     \<and> (\<forall>g e. pqByGroupID t g = Some e \<longleftrightarrow> (\<exists>pq. (e, pq) \<in> set (els (pqs t)) \<and> groupID pq = g))
     \<and> (case currentPQ t of None \<Rightarrow> els (pqs t) = [] | Some e \<Rightarrow> e \<in> fst ` set (els (pqs t)))
     \<and> numTasks t = int (sum_list (map (\<lambda>x. length (pq_abs (gpq (snd x)))) (els (pqs t))))"

lemma tq_inv_New [inv_intro]: "tq_inv now newTaskQueue"
  by (simp add: tq_inv_def newTaskQueue_def)

lemma rotation_New [abs_simps]: "rotation newTaskQueue = []"
  by (simp add: rotation_def newTaskQueue_def)

lemma rotation_split:
  assumes "els (pqs t) = xs @ (e, pq) # ys" and "e \<notin> fst ` set xs" and "currentPQ t = Some e"
  shows "rotation t = group_abs (e, pq) # map group_abs ys @ map group_abs xs"
  using assms dropWhile_other [OF assms(2), of pq ys] takeWhile_other [OF assms(2), of pq ys]
  by (simp add: rotation_def)

lemma current_cases:
  assumes "tq_inv now t"
  obtains "currentPQ t = None" and "els (pqs t) = []" and "rotation t = []"
  | e pq xs ys where "currentPQ t = Some e" and "els (pqs t) = xs @ (e, pq) # ys"
      and "e \<notin> fst ` set xs" and "e \<notin> fst ` set ys"
      and "rotation t = group_abs (e, pq) # map group_abs ys @ map group_abs xs"
proof (cases "currentPQ t")
  case None
  with assms have "els (pqs t) = []" by (simp add: tq_inv_def)
  with None that(1) show thesis by (simp add: rotation_def)
next
  case (Some e)
  with assms obtain pq where mem: "(e, pq) \<in> set (els (pqs t))" by (auto simp: tq_inv_def)
  from assms have wf: "wf_gl (pqs t)" by (simp add: tq_inv_def)
  show thesis
  proof (rule wf_gl_split [OF wf mem])
    fix xs ys assume s: "els (pqs t) = xs @ (e, pq) # ys" "e \<notin> fst ` set xs" "e \<notin> fst ` set ys"
    show thesis by (rule that(2) [OF Some s rotation_split [OF s(1,2) Some]])
  qed
qed

lemma set_rotation: "set (rotation t) = group_abs ` set (els (pqs t))"
proof -
  have "set (dropWhile P xs @ takeWhile P xs) = set xs" for P and xs :: "(nat \<times> groupPriorityQueue) list"
    by (metis set_append Un_commute takeWhile_dropWhile_id)
  then show ?thesis by (simp only: rotation_def set_map)
qed

lemma numTasks_rotation:
  assumes "tq_inv now t"
  shows "numTasks t = int (sum_list (map (length \<circ> snd) (rotation t)))"
proof -
  have "sum_list (map (length \<circ> snd) (rotation t)) = sum_list (map (\<lambda>x. length (pq_abs (gpq (snd x)))) (els (pqs t)))"
    using assms by (cases rule: current_cases) (simp_all add: group_abs_def comp_def)
  with assms show ?thesis by (simp add: tq_inv_def)
qed

lemma distinct_rotation:
  assumes "tq_inv now t"
  shows "distinct (map fst (rotation t))"
proof -
  have d: "distinct (map fst (els (pqs t)))" using assms by (simp add: tq_inv_def wf_gl_def)
  have idx: "pqByGroupID t g = Some k \<longleftrightarrow> (\<exists>pq. (k, pq) \<in> set (els (pqs t)) \<and> groupID pq = g)" for g k
    using assms by (simp add: tq_inv_def)
  have "inj_on (fst \<circ> group_abs) (set (els (pqs t)))"
  proof (rule inj_onI)
    fix x y assume xy: "x \<in> set (els (pqs t))" "y \<in> set (els (pqs t))" "(fst \<circ> group_abs) x = (fst \<circ> group_abs) y"
    have "pqByGroupID t (groupID (snd x)) = Some (fst x)"
      unfolding idx using xy(1) by (intro exI [of _ "snd x"]) simp
    moreover have "pqByGroupID t (groupID (snd x)) = Some (fst y)"
      unfolding idx using xy(2,3) by (intro exI [of _ "snd y"]) (simp add: group_abs_def)
    ultimately have "fst x = fst y" by simp
    with xy d show "x = y" by (metis eq_key_imp_eq_value prod.collapse)
  qed
  then have "distinct (map (fst \<circ> group_abs) (els (pqs t)))" using d by (simp add: distinct_map)
  moreover have "mset (map f (dropWhile P xs @ takeWhile P xs)) = mset (map f xs)" for f :: "nat \<times> groupPriorityQueue \<Rightarrow> string" and P xs
    by (metis add.commute map_append mset_append takeWhile_dropWhile_id)
  ultimately have "distinct (map (fst \<circ> group_abs) (dropWhile P (els (pqs t)) @ takeWhile P (els (pqs t))))" for P
    using mset_eq_imp_distinct_iff by blast
  then show ?thesis by (simp add: rotation_def)
qed

section \<open>Dequeue\<close>

lemma Dequeue_empty:
  assumes "tq_inv now t" and "rotation t = []"
  shows "taskQueue_Dequeue t = (None, t)" and "taskQueue_Peek t = None"
  using assms(1) by (cases rule: current_cases; use assms(2) in \<open>simp add: taskQueue_Dequeue_def taskQueue_Peek_def\<close>)+

text \<open>One equation for \<open>Dequeue\<close> at the current group, whose queue begins with \<open>r\<close>.\<close>

lemma Dequeue_unfold:
  assumes cur: "currentPQ t = Some e" and s: "els (pqs t) = xs @ (e, pq) # ys"
    and ne: "e \<notin> fst ` set xs" "e \<notin> fst ` set ys"
    and inv: "pq_inv now (gpq pq)" and abs: "pq_abs (gpq pq) = r # rs"
  obtains q l where "pq_inv now q" and "pq_abs q = rs"
    and "taskQueue_Dequeue t = (Some r, \<lparr>pqs = l,
          pqByGroupID = (if rs = [] then (pqByGroupID t)(groupID pq := None) else pqByGroupID t),
          currentPQ = (case ys of [] \<Rightarrow> gl_Front l | y # _ \<Rightarrow> Some (fst y)), numTasks = numTasks t - 1\<rparr>)"
    and "els l = xs @ (if rs = [] then [] else [(e, pq\<lparr>gpq := q\<rparr>)]) @ ys" and "wf_gl (pqs t) \<Longrightarrow> wf_gl l"
proof -
  obtain q where q: "PriorityQueue_Pop (gpq pq) = (Some r, q)" "pq_abs q = rs" "pq_inv now q"
    using pqf.pop_cons [OF inv abs] by (cases "PriorityQueue_Pop (gpq pq)") auto
  define l1 where "l1 = gl_set e (pq\<lparr>gpq := q\<rparr>) (pqs t)"
  define l where "l = (if rs = [] then gl_Remove e l1 else l1)"
  note sp = split_simps [OF s ne]
  have l1: "els l1 = xs @ (e, pq\<lparr>gpq := q\<rparr>) # ys" unfolding l1_def by (rule sp(3))
  note sp1 = split_simps [OF l1 ne]
  have len: "PriorityQueue_Len q = 0 \<longleftrightarrow> rs = []" using pqf.len_abs [OF q(3)] q(2) by simp
  have el: "els l = xs @ (if rs = [] then [] else [(e, pq\<lparr>gpq := q\<rparr>)]) @ ys"
    using l1 sp1(2) by (simp add: l_def)
  have wf: "wf_gl l" if "wf_gl (pqs t)" unfolding l_def l1_def using that by (auto intro: inv_intro)
  have "taskQueue_Dequeue t = (Some r, \<lparr>pqs = l,
          pqByGroupID = (if rs = [] then (pqByGroupID t)(groupID pq := None) else pqByGroupID t),
          currentPQ = (case ys of [] \<Rightarrow> gl_Front l | y # _ \<Rightarrow> Some (fst y)), numTasks = numTasks t - 1\<rparr>)"
    by (simp add: taskQueue_Dequeue_def cur sp(1) q(1) l1_def [symmetric] sp1(5) len l_def split: list.split)
  with q el wf show thesis by (intro that)
qed

lemma Dequeue_step:
  assumes inv: "tq_inv now t" and rot: "rotation t = (g, r # rs) # qs"
  shows "\<exists>t'. taskQueue_Dequeue t = (Some r, t') \<and> tq_inv now t'
    \<and> rotation t' = qs @ (if rs = [] then [] else [(g, rs)]) \<and> numTasks t' = numTasks t - 1"
  using inv
proof (cases rule: current_cases)
  case (2 e pq xs ys)
  have g: "groupID pq = g" "pq_abs (gpq pq) = r # rs" and qs: "qs = map group_abs ys @ map group_abs xs"
    using 2(5) rot by (simp_all add: group_abs_def)
  have wf: "wf_gl (pqs t)" and pi: "pq_inv now (gpq pq)" using inv 2(2) by (simp_all add: tq_inv_def)
  obtain q l where q: "pq_inv now q" "pq_abs q = rs"
    and deq: "taskQueue_Dequeue t = (Some r, \<lparr>pqs = l,
          pqByGroupID = (if rs = [] then (pqByGroupID t)(groupID pq := None) else pqByGroupID t),
          currentPQ = (case ys of [] \<Rightarrow> gl_Front l | y # _ \<Rightarrow> Some (fst y)), numTasks = numTasks t - 1\<rparr>)"
    and l: "els l = xs @ (if rs = [] then [] else [(e, pq\<lparr>gpq := q\<rparr>)]) @ ys" "wf_gl l"
    using Dequeue_unfold [OF 2(1-4) pi g(2)] wf by metis
  define t' where "t' = snd (taskQueue_Dequeue t)"
  have t': "pqs t' = l" "pqByGroupID t' = (if rs = [] then (pqByGroupID t)(g := None) else pqByGroupID t)"
      "currentPQ t' = (case ys of [] \<Rightarrow> gl_Front l | y # _ \<Rightarrow> Some (fst y))" "numTasks t' = numTasks t - 1"
    using deq g by (simp_all add: t'_def)
  have ids: "distinct (map fst (xs @ (e, pq) # ys))" using wf 2(2) by (simp add: wf_gl_def)
  have idx: "pqByGroupID t h = Some k \<longleftrightarrow> (\<exists>p. (k, p) \<in> set (els (pqs t)) \<and> groupID p = h)" for h k
    using inv by (simp add: tq_inv_def)
  have rot': "rotation t' = qs @ (if rs = [] then [] else [(g, rs)])"
  proof (cases ys)
    case Nil
    have "currentPQ t' = gl_Front l" using t'(3) Nil by simp
    then show ?thesis
      using l(1) Nil qs g q(2) t'(1) by (cases xs) (auto simp: rotation_def gl_Front_def group_abs_def)
  next
    case (Cons y zs)
    have "fst y \<notin> fst ` set (xs @ (if rs = [] then [] else [(e, pq\<lparr>gpq := q\<rparr>)]))" using ids Cons by auto
    moreover have "els (pqs t') = (xs @ (if rs = [] then [] else [(e, pq\<lparr>gpq := q\<rparr>)])) @ (fst y, snd y) # zs"
      using l(1) t'(1) Cons by simp
    moreover have "currentPQ t' = Some (fst y)" using t'(3) Cons by simp
    ultimately have "rotation t' = group_abs (fst y, snd y) # map group_abs zs
        @ map group_abs (xs @ (if rs = [] then [] else [(e, pq\<lparr>gpq := q\<rparr>)]))" by (intro rotation_split)
    then show ?thesis using Cons qs g q(2) by (simp add: group_abs_def)
  qed
  have others: "x \<in> set xs \<or> x \<in> set ys \<Longrightarrow> pq_inv now (gpq (snd x)) \<and> pq_abs (gpq (snd x)) \<noteq> []" for x
    using inv 2(2) by (auto simp: tq_inv_def)
  have ge: "pqByGroupID t g = Some e" using idx [of g e] 2(2) g(1) by auto
  have "tq_inv now t'"
    unfolding tq_inv_def
  proof (intro conjI ballI allI)
    show "wf_gl (pqs t')" using l(2) t'(1) by simp
    fix x assume "x \<in> set (els (pqs t'))"
    then show "pq_inv now (gpq (snd x))" and "pq_abs (gpq (snd x)) \<noteq> []"
      using others [of x] q t'(1) l(1) by (auto split: if_splits)
  next
    fix h k
    show "pqByGroupID t' h = Some k \<longleftrightarrow> (\<exists>p. (k, p) \<in> set (els (pqs t')) \<and> groupID p = h)"
    proof (cases "rs = []")
      case True
      have "(\<exists>p. (k, p) \<in> set (xs @ ys) \<and> groupID p = h) \<longleftrightarrow> h \<noteq> g \<and> pqByGroupID t h = Some k"
        using idx [of h k] 2(2-4) g(1) ge by (auto simp: rev_image_eqI)
      then show ?thesis using True t'(1,2) l(1) by simp
    next
      case False
      then show ?thesis using idx [of h k] 2(2) g(1) t'(1,2) l(1) by auto
    qed
  next
    show "case currentPQ t' of None \<Rightarrow> els (pqs t') = [] | Some k \<Rightarrow> k \<in> fst ` set (els (pqs t'))"
      using t'(1,3) l(1) by (cases ys) (auto simp: gl_Front_def split: list.split)
  next
    show "numTasks t' = int (sum_list (map (\<lambda>x. length (pq_abs (gpq (snd x)))) (els (pqs t'))))"
      using inv t'(1,4) l(1) q(2) 2(2) g(2) by (simp add: tq_inv_def)
  qed
  then show ?thesis using rot' t'(4) deq t'_def by auto
qed (use rot in simp)

section \<open>Enqueue\<close>

text \<open>
  Where a reservation goes: to the end of its group's queue; a group that has none is
  visited after the groups behind the current one and before those the rotation has passed.
\<close>

lemma push_at_split:
  assumes "els (pqs t) = xs @ (e, pq) # ys" and "e \<notin> fst ` set xs" and "e \<notin> fst ` set ys"
  shows "push_at now req e t = t\<lparr>pqs := gl_set e (pq\<lparr>gpq := PriorityQueue_Push now req (gpq pq)\<rparr>) (pqs t)\<rparr>"
    and "els (pqs (push_at now req e t)) = xs @ (e, pq\<lparr>gpq := PriorityQueue_Push now req (gpq pq)\<rparr>) # ys"
  using split_simps [OF assms] by (simp_all add: push_at_def)

lemma tq_inv_push_at:
  assumes s: "els (pqs t) = xs @ (e, pq) # ys" "e \<notin> fst ` set xs" "e \<notin> fst ` set ys"
    and wf: "wf_gl (pqs t)" and pq: "pq_inv now (gpq pq)" and now: "now < now'"
    and others: "\<And>x. x \<in> set xs \<or> x \<in> set ys \<Longrightarrow> pq_inv now (gpq (snd x)) \<and> pq_abs (gpq (snd x)) \<noteq> []"
    and idx: "\<And>g k. pqByGroupID t g = Some k \<longleftrightarrow> (\<exists>pq. (k, pq) \<in> set (els (pqs t)) \<and> groupID pq = g)"
    and cur: "currentPQ t = Some c" "c \<in> fst ` set (els (pqs t))"
    and num: "numTasks t = int (sum_list (map (\<lambda>x. length (pq_abs (gpq (snd x)))) (els (pqs t))))"
  shows "tq_inv now' ((push_at now req e t)\<lparr>numTasks := numTasks (push_at now req e t) + 1\<rparr>)"
proof -
  define t' where "t' = (push_at now req e t)\<lparr>numTasks := numTasks (push_at now req e t) + 1\<rparr>"
  note p = push_at_split [OF s, of now req]
  have el: "els (pqs t') = xs @ (e, pq\<lparr>gpq := PriorityQueue_Push now req (gpq pq)\<rparr>) # ys"
    using p(2) by (simp add: t'_def)
  have rest: "pqByGroupID t' = pqByGroupID t" "currentPQ t' = currentPQ t" "numTasks t' = numTasks t + 1"
    by (simp_all add: t'_def p(1))
  have "tq_inv now' t'"
    unfolding tq_inv_def
  proof (intro conjI ballI allI)
    show "wf_gl (pqs t')" using wf wf_gl_set by (simp add: t'_def p(1))
    fix x assume "x \<in> set (els (pqs t'))"
    then show "pq_inv now' (gpq (snd x))" and "pq_abs (gpq (snd x)) \<noteq> []"
      using others [of x] pqf.inv_later [of now "gpq (snd x)" now'] pqf.inv_push [OF pq now, of req]
        pqf.abs_push [OF pq, of req] now el by auto
  next
    fix g k
    show "pqByGroupID t' g = Some k \<longleftrightarrow> (\<exists>p. (k, p) \<in> set (els (pqs t')) \<and> groupID p = g)"
      unfolding rest idx el s by auto
  next
    show "case currentPQ t' of None \<Rightarrow> els (pqs t') = [] | Some k \<Rightarrow> k \<in> fst ` set (els (pqs t'))"
      using cur s el rest by auto
  next
    show "numTasks t' = int (sum_list (map (\<lambda>x. length (pq_abs (gpq (snd x)))) (els (pqs t'))))"
      using num s el rest pqf.abs_push [OF pq, of req] by simp
  qed
  then show ?thesis by (simp add: t'_def)
qed

lemma rotation_map:
  assumes "els (pqs t') = map f (els (pqs t))" and "currentPQ t' = currentPQ t"
    and fst: "\<And>x. fst (f x) = fst x"
    and abs: "\<And>x. x \<in> set (els (pqs t)) \<Longrightarrow> group_abs (f x) = h (group_abs x)"
  shows "rotation t' = map h (rotation t)"
  unfolding rotation_def assms(1,2) dropWhile_map takeWhile_map comp_def fst
  using abs by (auto dest!: set_dropWhileD set_takeWhileD)

text \<open>The two branches of \<open>Enqueue\<close>.\<close>

lemma Enqueue_known:
  assumes inv: "tq_inv now t" and now: "now < now'" and k: "pqByGroupID t (task_group_id req) = Some k"
  shows "tq_inv now' (taskQueue_Enqueue now req t)
    \<and> numTasks (taskQueue_Enqueue now req t) = numTasks t + 1
    \<and> rotation (taskQueue_Enqueue now req t)
      = map (\<lambda>(g, rs). (g, if g = task_group_id req then rs @ [req] else rs)) (rotation t)"
proof -
  from inv k obtain pq where mem: "(k, pq) \<in> set (els (pqs t))" "groupID pq = task_group_id req"
    by (auto simp: tq_inv_def)
  have wf: "wf_gl (pqs t)" using inv by (simp add: tq_inv_def)
  obtain xs ys where s: "els (pqs t) = xs @ (k, pq) # ys" "k \<notin> fst ` set xs" "k \<notin> fst ` set ys"
    by (rule wf_gl_split [OF wf mem(1)])
  have pq: "pq_inv now (gpq pq)" using inv mem by (auto simp: tq_inv_def)
  obtain c where c: "currentPQ t = Some c" "c \<in> fst ` set (els (pqs t))"
    using inv s by (auto simp: tq_inv_def split: option.splits)
  have enq: "taskQueue_Enqueue now req t = (push_at now req k t)\<lparr>numTasks := numTasks (push_at now req k t) + 1\<rparr>"
    using k by (simp add: taskQueue_Enqueue_def Let_def)
  have idx: "pqByGroupID t g = Some j \<longleftrightarrow> (\<exists>pq. (j, pq) \<in> set (els (pqs t)) \<and> groupID pq = g)" for g j
    using inv by (simp add: tq_inv_def)
  have "tq_inv now' (taskQueue_Enqueue now req t)"
    unfolding enq by (rule tq_inv_push_at [OF s wf pq now _ idx c]) (use inv s in \<open>auto simp: tq_inv_def\<close>)
  moreover have "rotation (taskQueue_Enqueue now req t)
      = map (\<lambda>(g, rs). (g, if g = task_group_id req then rs @ [req] else rs)) (rotation t)"
  proof -
    let ?upd = "\<lambda>x. if fst x = k then (k, pq\<lparr>gpq := PriorityQueue_Push now req (gpq pq)\<rparr>) else x"
    have "els (pqs (taskQueue_Enqueue now req t)) = map ?upd (els (pqs t))"
      unfolding enq using push_at_split(1) [OF s, of now req] by (simp add: gl_set_def)
    moreover have "currentPQ (taskQueue_Enqueue now req t) = currentPQ t"
      unfolding enq using push_at_split(1) [OF s, of now req] by simp
    moreover have "group_abs (?upd x) = (case group_abs x of (g, rs) \<Rightarrow> (g, if g = task_group_id req then rs @ [req] else rs))"
      if "x \<in> set (els (pqs t))" for x
    proof (cases "fst x = k")
      case True
      then have "x = (k, pq)" using that s by (cases x) force
      then show ?thesis using mem(2) pqf.abs_push [OF pq] by (simp add: group_abs_def)
    next
      case False
      then have "groupID (snd x) \<noteq> task_group_id req"
        using idx [of "task_group_id req" "fst x"] k that by (metis option.inject prod.collapse)
      then show ?thesis using False by (simp add: group_abs_def)
    qed
    ultimately show ?thesis
      by (intro rotation_map [where f = ?upd]) auto
  qed
  ultimately show ?thesis by (simp add: enq push_at_split(1) [OF s])
qed

lemma Enqueue_unknown:
  assumes inv: "tq_inv now t" and now: "now < now'" and k: "pqByGroupID t (task_group_id req) = None"
  shows "tq_inv now' (taskQueue_Enqueue now req t)
    \<and> numTasks (taskQueue_Enqueue now req t) = numTasks t + 1
    \<and> (\<exists>ahead passed. rotation t = ahead @ passed \<and> (ahead = [] \<longleftrightarrow> rotation t = [])
         \<and> rotation (taskQueue_Enqueue now req t) = ahead @ (task_group_id req, [req]) # passed)"
proof -
  let ?g = "task_group_id req"
  define pq where "pq = \<lparr>gpq = NewPriorityQueue :: reservation PriorityQueue, groupID = ?g\<rparr>"
  define k where "k = fresh (pqs t)"
  define t1 where "t1 = t\<lparr>pqs := snd (gl_PushBack pq (pqs t)), pqByGroupID := (pqByGroupID t)(?g \<mapsto> k),
      currentPQ := (if currentPQ t = None then Some k else currentPQ t)\<rparr>"
  have wf: "wf_gl (pqs t)" and cur: "case currentPQ t of None \<Rightarrow> els (pqs t) = [] | Some e \<Rightarrow> e \<in> fst ` set (els (pqs t))"
    and idx: "\<And>g j. pqByGroupID t g = Some j \<longleftrightarrow> (\<exists>pq. (j, pq) \<in> set (els (pqs t)) \<and> groupID pq = g)"
    using inv by (simp_all add: tq_inv_def)
  have el1: "els (pqs t1) = els (pqs t) @ [(k, pq)]" by (simp add: t1_def gl_PushBack_def k_def)
  have new: "k \<notin> fst ` set (els (pqs t))" unfolding k_def by (rule wf_gl_fresh(2) [OF wf])
  have s: "els (pqs t1) = els (pqs t) @ (k, pq) # []" "k \<notin> fst ` set (els (pqs t))" "k \<notin> fst ` set []"
    using el1 new by auto
  have enq: "taskQueue_Enqueue now req t = (push_at now req k t1)\<lparr>numTasks := numTasks (push_at now req k t1) + 1\<rparr>"
    using assms(3) by (simp add: taskQueue_Enqueue_def Let_def t1_def k_def gl_PushBack_def pq_def)
  have p: "pq_inv now (gpq pq)" "pq_abs (gpq pq) = []" by (simp_all add: pq_def pq_inv_New pq_abs_New)
  obtain c where c: "currentPQ t1 = Some c" "c \<in> fst ` set (els (pqs t1))"
    using cur el1 by (cases "currentPQ t") (simp_all add: t1_def)
  have idx1: "pqByGroupID t1 g = Some j \<longleftrightarrow> (\<exists>pq. (j, pq) \<in> set (els (pqs t1)) \<and> groupID pq = g)" for g j
  proof (cases "g = ?g")
    case True
    have "\<not> (\<exists>pq. (j, pq) \<in> set (els (pqs t)) \<and> groupID pq = g)" using idx [of g j] assms(3) True by simp
    with True el1 show ?thesis by (auto simp: t1_def pq_def)
  next
    case False
    with idx [of g j] el1 show ?thesis by (auto simp: t1_def pq_def)
  qed
  have inv': "tq_inv now' (taskQueue_Enqueue now req t)"
    unfolding enq
  proof (rule tq_inv_push_at [OF s _ p(1) now _ idx1 c])
    show "wf_gl (pqs t1)" using wf_gl_PushBack [OF wf] by (simp add: t1_def)
  qed (use inv el1 p in \<open>auto simp: tq_inv_def t1_def\<close>)
  have new_abs: "group_abs (k, pq\<lparr>gpq := PriorityQueue_Push now req (gpq pq)\<rparr>) = (?g, [req])"
    using pqf.abs_push [OF p(1), of req] p(2) by (simp add: group_abs_def) (simp add: pq_def)
  define x where "x = (k, pq\<lparr>gpq := PriorityQueue_Push now req (gpq pq)\<rparr>)"
  have el: "els (pqs (taskQueue_Enqueue now req t)) = els (pqs t) @ [x]"
    unfolding enq x_def using push_at_split(2) [OF s] by simp
  have cur': "currentPQ (taskQueue_Enqueue now req t) = currentPQ t1"
    unfolding enq using push_at_split(1) [OF s] by simp
  have "\<exists>ahead passed. rotation t = ahead @ passed \<and> (ahead = [] \<longleftrightarrow> rotation t = [])
         \<and> rotation (taskQueue_Enqueue now req t) = ahead @ (?g, [req]) # passed"
    using inv
  proof (cases rule: current_cases)
    case 1
    then have "rotation (taskQueue_Enqueue now req t) = [(?g, [req])]"
      using cur' el new_abs by (simp add: rotation_def t1_def x_def)
    with 1 show ?thesis by simp
  next
    case (2 e pq' xs ys)
    have "rotation (taskQueue_Enqueue now req t) = group_abs (e, pq') # map group_abs (ys @ [x]) @ map group_abs xs"
      by (rule rotation_split) (use 2 el cur' in \<open>simp_all add: t1_def\<close>)
    with 2 new_abs show ?thesis
      by (intro exI [of _ "group_abs (e, pq') # map group_abs ys"] exI [of _ "map group_abs xs"]) (simp add: x_def)
  qed
  moreover have "numTasks (taskQueue_Enqueue now req t) = numTasks t + 1"
    by (simp add: enq push_at_split(1) [OF s]) (simp add: t1_def)
  ultimately show ?thesis using inv' by blast
qed

lemma pqByGroupID_rotation:
  assumes "tq_inv now t"
  shows "pqByGroupID t g = None \<longleftrightarrow> g \<notin> fst ` set (rotation t)"
proof -
  have idx: "pqByGroupID t g = Some k \<longleftrightarrow> (\<exists>pq. (k, pq) \<in> set (els (pqs t)) \<and> groupID pq = g)" for k
    using assms by (simp add: tq_inv_def)
  have "pqByGroupID t g = None \<longleftrightarrow> (\<nexists>k. pqByGroupID t g = Some k)" by simp
  also have "\<dots> \<longleftrightarrow> (\<forall>x\<in>set (els (pqs t)). groupID (snd x) \<noteq> g)" unfolding idx by fastforce
  finally show ?thesis by (auto simp: set_rotation group_abs_def image_iff)
qed

lemma tq_inv_Enqueue [inv_intro]: "tq_inv now t \<Longrightarrow> now < now' \<Longrightarrow> tq_inv now' (taskQueue_Enqueue now req t)"
  using Enqueue_known Enqueue_unknown by (cases "pqByGroupID t (task_group_id req)") blast+

section \<open>Properties\<close>

text \<open>\<open>Enqueue\<close> keeps the invariant and appends the reservation to its group's queue, changing no other
  group's; a group without a queue gets one in the rotation, behind the groups still ahead in this round.\<close>

theorem taskQueue_Enqueue_refines:
  assumes "tq_inv now t" and "now < now'"
  shows "tq_inv now' (taskQueue_Enqueue now req t) \<and> taskQueue_Len (taskQueue_Enqueue now req t) = taskQueue_Len t + 1 \<and>
    (if task_group_id req \<in> fst ` set (rotation t)
     then rotation (taskQueue_Enqueue now req t)
       = map (\<lambda>(g, rs). (g, if g = task_group_id req then rs @ [req] else rs)) (rotation t)
     else \<exists>ahead passed. rotation t = ahead @ passed \<and> (ahead = [] \<longleftrightarrow> rotation t = [])
       \<and> rotation (taskQueue_Enqueue now req t) = ahead @ (task_group_id req, [req]) # passed)"
proof (cases "pqByGroupID t (task_group_id req)")
  case None
  with Enqueue_unknown [OF assms None] pqByGroupID_rotation [OF assms(1), of "task_group_id req"] show ?thesis
    by (simp add: taskQueue_Len_def)
next
  case (Some k)
  with Enqueue_known [OF assms Some] pqByGroupID_rotation [OF assms(1), of "task_group_id req"] show ?thesis
    by (simp add: taskQueue_Len_def)
qed

lemma rotation_nonempty: "tq_inv now t \<Longrightarrow> x \<in> set (rotation t) \<Longrightarrow> snd x \<noteq> []"
  by (auto simp: set_rotation tq_inv_def group_abs_def)

lemma Peek_head:
  assumes inv: "tq_inv now t" and "rotation t = (g, r # rs) # qs"
  shows "taskQueue_Peek t = Some r"
  using inv
proof (cases rule: current_cases)
  case (2 e pq xs ys)
  then have "pq_inv now (gpq pq)" and "pq_abs (gpq pq) = r # rs"
    using assms by (simp_all add: tq_inv_def group_abs_def)
  with pqf.peek_abs [of now "gpq pq"] split_simps(1) [OF 2(2-4)] 2(1) show ?thesis by (simp add: taskQueue_Peek_def)
qed (use assms(2) in simp)

text \<open>\<open>Dequeue\<close> keeps the invariant and serves the groups round robin: it takes the first reservation of
  the first group of the rotation, the one \<open>Peek\<close> shows, and moves the group to the end, or drops it
  when that was its last; with nothing queued both return nil.\<close>

theorem taskQueue_Dequeue_refines:
  assumes "tq_inv now t"
  shows "case rotation t of
      [] \<Rightarrow> taskQueue_Dequeue t = (None, t) \<and> taskQueue_Peek t = None
    | (g, rs) # qs \<Rightarrow> rs \<noteq> [] \<and> (\<exists>t'. taskQueue_Dequeue t = (Some (hd rs), t') \<and> taskQueue_Peek t = Some (hd rs)
        \<and> tq_inv now t' \<and> taskQueue_Len t' = taskQueue_Len t - 1
        \<and> rotation t' = qs @ (if tl rs = [] then [] else [(g, tl rs)]))"
proof (cases "rotation t")
  case Nil
  with Dequeue_empty [OF assms] show ?thesis by simp
next
  case (Cons x qs)
  obtain g rs where x: "x = (g, rs)" by fastforce
  with Cons rotation_nonempty [OF assms, of x] obtain r rs' where rs: "rs = r # rs'" by (cases rs) auto
  with Cons x Dequeue_step [OF assms, of g r rs' qs] Peek_head [OF assms, of g r rs' qs] show ?thesis
    by (auto simp: taskQueue_Len_def)
qed

text \<open>No group starves while nothing new is queued: the group at position \<open>k\<close> of the rotation is served
  by the dequeue number \<open>k\<close>, so each group is served within one round.\<close>

theorem taskQueue_fair:
  assumes "tq_inv now t" and "k < length (rotation t)"
  shows "fst (taskQueue_Dequeue (((snd \<circ> taskQueue_Dequeue) ^^ k) t)) = Some (hd (snd (rotation t ! k)))"
  using assms
proof (induction k arbitrary: t)
  case 0
  with taskQueue_Dequeue_refines [OF 0(1)] show ?case by (auto split: list.splits)
next
  case (Suc k)
  obtain g rs qs where rot: "rotation t = (g, rs) # qs" using Suc.prems(2) by (cases "rotation t") auto
  with taskQueue_Dequeue_refines [OF Suc.prems(1)] obtain t' rest where
    t': "snd (taskQueue_Dequeue t) = t'" "tq_inv now t'" "rotation t' = qs @ rest" by auto
  have "k < length (rotation t')" and "rotation t' ! k = rotation t ! Suc k"
    using Suc.prems(2) rot t'(3) by (simp_all add: nth_append)
  with Suc.IH [OF t'(2)] t'(1) show ?case
    by (simp only: funpow_Suc_right comp_def)
qed

section \<open>Witnesses\<close>

definition example_req :: "string \<Rightarrow> string \<Rightarrow> u64 \<Rightarrow> reservation" where
  "example_req i g m = \<lparr>task_id = i, task_group_id = g,
     task_size = Some \<lparr>estimated_memory_bytes = m, estimated_milli_cpu = 1\<rparr>\<rparr>"

definition example_tq :: taskQueue where
  "example_tq = taskQueue_Enqueue 3 (example_req ''b1'' ''B'' 5) (taskQueue_Enqueue 2 (example_req ''a2'' ''A'' 5)
     (taskQueue_Enqueue 1 (example_req ''a1'' ''A'' 5) newTaskQueue))"

lemma example_tq_inv: "tq_inv 4 example_tq"
  unfolding example_tq_def
  by (rule tq_inv_Enqueue [where now = 3], rule tq_inv_Enqueue [where now = 2], rule tq_inv_Enqueue [where now = 1])
    (simp_all add: tq_inv_New)

lemma example_tq_rotation:
  "rotation example_tq = [(''A'', [example_req ''a1'' ''A'' 5, example_req ''a2'' ''A'' 5]), (''B'', [example_req ''b1'' ''B'' 5])]"
  by code_simp

theorem taskQueue_Enqueue_refines_witness:
  "tq_inv 5 (taskQueue_Enqueue 4 (example_req ''c1'' ''C'' 1) example_tq)
    \<and> taskQueue_Len (taskQueue_Enqueue 4 (example_req ''c1'' ''C'' 1) example_tq) = taskQueue_Len example_tq + 1 \<and>
    (if task_group_id (example_req ''c1'' ''C'' 1) \<in> fst ` set (rotation example_tq)
     then rotation (taskQueue_Enqueue 4 (example_req ''c1'' ''C'' 1) example_tq)
       = map (\<lambda>(g, rs). (g, if g = task_group_id (example_req ''c1'' ''C'' 1) then rs @ [example_req ''c1'' ''C'' 1] else rs)) (rotation example_tq)
     else \<exists>ahead passed. rotation example_tq = ahead @ passed \<and> (ahead = [] \<longleftrightarrow> rotation example_tq = [])
       \<and> rotation (taskQueue_Enqueue 4 (example_req ''c1'' ''C'' 1) example_tq)
         = ahead @ (task_group_id (example_req ''c1'' ''C'' 1), [example_req ''c1'' ''C'' 1]) # passed)"
  by (rule taskQueue_Enqueue_refines [OF example_tq_inv]) simp

theorem taskQueue_Dequeue_refines_witness:
  "case rotation example_tq of
      [] \<Rightarrow> taskQueue_Dequeue example_tq = (None, example_tq) \<and> taskQueue_Peek example_tq = None
    | (g, rs) # qs \<Rightarrow> rs \<noteq> [] \<and> (\<exists>t'. taskQueue_Dequeue example_tq = (Some (hd rs), t') \<and> taskQueue_Peek example_tq = Some (hd rs)
        \<and> tq_inv 4 t' \<and> taskQueue_Len t' = taskQueue_Len example_tq - 1
        \<and> rotation t' = qs @ (if tl rs = [] then [] else [(g, tl rs)]))"
  by (rule taskQueue_Dequeue_refines [OF example_tq_inv])

theorem taskQueue_fair_witness:
  "fst (taskQueue_Dequeue (((snd \<circ> taskQueue_Dequeue) ^^ 1) example_tq)) = Some (hd (snd (rotation example_tq ! 1)))"
  by (rule taskQueue_fair [OF example_tq_inv]) (simp add: example_tq_rotation)

end
