(* ===== verification/TaskScheduler.thy ===== *)
theory TaskScheduler
  imports TaskQueue
begin

text \<open>
  \<^verbatim>\<open>enterprise/server/scheduling/priority_task_scheduler/priority_task_scheduler.go\<close>: the executor's
  scheduler. It starts the reservation at the head of its task queue whenever its memory and
  CPU estimates fit into what the running tasks leave free. The methods hold one mutex, so
  each is one step of a transition system; the goroutines that run tasks, the senders waiting on the
  wake-up channel and the clock are its environment. Leasing a task and running it are calls to
  other services: here a running task may finish at any time.
\<close>

section \<open>The code\<close>

record PriorityTaskScheduler =
  q :: taskQueue
  shuttingDown :: bool
  newTaskSignal :: nat
  activeTaskCancelFuncs :: "nat set"
  ramBytesCapacity :: u64
  ramBytesUsed :: u64
  cpuMillisCapacity :: u64
  cpuMillisUsed :: u64
  exclusiveTaskScheduling :: bool

text \<open>
  The capacities come from the options, or, when these are 0, from what the machine allocates to
  the executor (a parameter, already scaled by \<^verbatim>\<open>tasksize.MaxResourceCapacityRatio\<close>).
\<close>

definition NewPriorityTaskScheduler :: "u64 \<Rightarrow> u64 \<Rightarrow> u64 \<Rightarrow> u64 \<Rightarrow> bool \<Rightarrow> PriorityTaskScheduler" where
  "NewPriorityTaskScheduler ramOverride cpuOverride allocatedRAM allocatedCPU exclusive =
     \<lparr>q = newTaskQueue, shuttingDown = False, newTaskSignal = 0, activeTaskCancelFuncs = {},
      ramBytesCapacity = (if ramOverride = 0 then allocatedRAM else ramOverride), ramBytesUsed = 0,
      cpuMillisCapacity = (if cpuOverride = 0 then allocatedCPU else cpuOverride), cpuMillisUsed = 0,
      exclusiveTaskScheduling = exclusive\<rparr>"

text \<open>The protobuf getters return 0 for a reservation without a size.\<close>

definition GetEstimatedMemoryBytes :: "reservation \<Rightarrow> u64" where
  "GetEstimatedMemoryBytes res = (case task_size res of None \<Rightarrow> 0 | Some sz \<Rightarrow> estimated_memory_bytes sz)"

definition GetEstimatedMilliCpu :: "reservation \<Rightarrow> u64" where
  "GetEstimatedMilliCpu res = (case task_size res of None \<Rightarrow> 0 | Some sz \<Rightarrow> estimated_milli_cpu sz)"

definition EnqueueTaskReservation :: "int \<Rightarrow> reservation \<Rightarrow> PriorityTaskScheduler \<Rightarrow> PriorityTaskScheduler" where
  "EnqueueTaskReservation now req s = s\<lparr>q := taskQueue_Enqueue now req (q s)\<rparr>"

text \<open>The send on the channel of capacity 1 that follows it: possible when the buffer is empty.\<close>

definition send_signal :: "PriorityTaskScheduler \<Rightarrow> PriorityTaskScheduler option" where
  "send_signal s = (if newTaskSignal s < 1 then Some (s\<lparr>newTaskSignal := newTaskSignal s + 1\<rparr>) else None)"

definition trackTask :: "reservation \<Rightarrow> nat \<Rightarrow> PriorityTaskScheduler \<Rightarrow> PriorityTaskScheduler" where
  "trackTask res cancel s =
     (let s' = s\<lparr>activeTaskCancelFuncs := insert cancel (activeTaskCancelFuncs s)\<rparr> in
      case task_size res of
        None \<Rightarrow> s'
      | Some sz \<Rightarrow> s'\<lparr>ramBytesUsed := ramBytesUsed s + estimated_memory_bytes sz,
                        cpuMillisUsed := cpuMillisUsed s + estimated_milli_cpu sz\<rparr>)"

definition untrackTask :: "reservation \<Rightarrow> nat \<Rightarrow> PriorityTaskScheduler \<Rightarrow> PriorityTaskScheduler" where
  "untrackTask res cancel s =
     (let s' = s\<lparr>activeTaskCancelFuncs := activeTaskCancelFuncs s - {cancel}\<rparr> in
      case task_size res of
        None \<Rightarrow> s'
      | Some sz \<Rightarrow> s'\<lparr>ramBytesUsed := ramBytesUsed s - estimated_memory_bytes sz,
                        cpuMillisUsed := cpuMillisUsed s - estimated_milli_cpu sz\<rparr>)"

definition canFitAnotherTask :: "reservation \<Rightarrow> PriorityTaskScheduler \<Rightarrow> bool" where
  "canFitAnotherTask res s =
     (let knownRAMremaining = ramBytesCapacity s - ramBytesUsed s;
          knownCPUremaining = cpuMillisCapacity s - cpuMillisUsed s;
          willFit = (sint knownRAMremaining \<ge> sint (GetEstimatedMemoryBytes res)
            \<and> sint knownCPUremaining \<ge> sint (GetEstimatedMilliCpu res)) in
      if willFit \<and> exclusiveTaskScheduling s \<and> card (activeTaskCancelFuncs s) \<ge> 1 then False else willFit)"

text \<open>
  \<open>handleTask\<close> starts at most one task: the reservation of the goroutine it spawns, if any.
  \<open>cancel\<close> is the address of the fresh cancel function.
\<close>

definition handleTask :: "nat \<Rightarrow> PriorityTaskScheduler \<Rightarrow> reservation option \<times> PriorityTaskScheduler" where
  "handleTask cancel s =
     (if shuttingDown s then (None, s)
      else if taskQueue_Len (q s) = 0 then (None, s)
      else
        case taskQueue_Peek (q s) of
          None \<Rightarrow> (None, s)
        | Some nextTask \<Rightarrow>
            if \<not> canFitAnotherTask nextTask s then (None, s)
            else
              (case taskQueue_Dequeue (q s) of
                 (None, q') \<Rightarrow> (None, s\<lparr>q := q'\<rparr>)
               | (Some res, q') \<Rightarrow> (Some res, trackTask res cancel (s\<lparr>q := q'\<rparr>))))"

text \<open>\<open>Shutdown\<close> raises the flag, then polls until no task is active.\<close>

definition Shutdown_begin :: "PriorityTaskScheduler \<Rightarrow> PriorityTaskScheduler" where
  "Shutdown_begin s = s\<lparr>shuttingDown := True\<rparr>"

definition Shutdown_done :: "PriorityTaskScheduler \<Rightarrow> bool" where
  "Shutdown_done s \<longleftrightarrow> card (activeTaskCancelFuncs s) = 0"

definition GetQueuedTaskReservations :: "PriorityTaskScheduler \<Rightarrow> reservation list" where
  "GetQueuedTaskReservations s = taskQueue_GetAll (q s)"

section \<open>The system\<close>

text \<open>
  The scheduler with its environment: the goroutines running tasks (each with the address of its cancel
  function), the callers of \<open>EnqueueTaskReservation\<close> that still wait to send the signal, the
  clock, the next address, and, as history, the reservations whose goroutines have ended.
\<close>

record system =
  sched :: PriorityTaskScheduler
  goroutines :: "(nat \<times> reservation) list"
  senders :: nat
  clock :: int
  nextCancel :: nat
  ended :: "reservation list"

datatype event =
    Enqueue reservation
  | Send
  | Signal
  | Timer
  | Finish nat
  | ShutdownSignal

definition run_handleTask :: "system \<Rightarrow> system" where
  "run_handleTask s =
     (case handleTask (nextCancel s) (sched s) of
        (None, s') \<Rightarrow> s\<lparr>sched := s'\<rparr>
      | (Some res, s') \<Rightarrow> s\<lparr>sched := s', goroutines := (nextCancel s, res) # goroutines s, nextCancel := nextCancel s + 1\<rparr>)"

fun sys_step :: "event \<Rightarrow> system \<Rightarrow> system option" where
  "sys_step (Enqueue req) s =
     Some (s\<lparr>sched := EnqueueTaskReservation (clock s) req (sched s), senders := senders s + 1, clock := clock s + 1\<rparr>)"
| "sys_step Send s =
     (if senders s = 0 then None
      else map_option (\<lambda>s'. s\<lparr>sched := s', senders := senders s - 1\<rparr>) (send_signal (sched s)))"
| "sys_step Signal s =
     (if newTaskSignal (sched s) = 0 then None
      else Some (run_handleTask (s\<lparr>sched := (sched s)\<lparr>newTaskSignal := newTaskSignal (sched s) - 1\<rparr>\<rparr>)))"
| "sys_step Timer s = Some (run_handleTask s)"
| "sys_step (Finish cancel) s =
     (case map_of (goroutines s) cancel of
        None \<Rightarrow> None
      | Some res \<Rightarrow> Some (s\<lparr>sched := untrackTask res cancel (sched s),
          goroutines := filter (\<lambda>x. fst x \<noteq> cancel) (goroutines s), ended := res # ended s\<rparr>))"
| "sys_step ShutdownSignal s = Some (s\<lparr>sched := Shutdown_begin (sched s)\<rparr>)"

definition sys_init :: "PriorityTaskScheduler \<Rightarrow> system" where
  "sys_init s = \<lparr>sched = s, goroutines = [], senders = 0, clock = 0, nextCancel = 0, ended = []\<rparr>"

inductive runs :: "system \<Rightarrow> event list \<Rightarrow> system \<Rightarrow> bool" where
  runs_nil: "runs s [] s"
| runs_snoc: "runs s es s' \<Longrightarrow> sys_step e s' = Some s'' \<Longrightarrow> runs s (es @ [e]) s''"

section \<open>The resource invariant\<close>

definition ram_of :: "reservation \<Rightarrow> int" where
  "ram_of res = sint (GetEstimatedMemoryBytes res)"

definition cpu_of :: "reservation \<Rightarrow> int" where
  "cpu_of res = sint (GetEstimatedMilliCpu res)"

definition sized :: "reservation \<Rightarrow> bool" where
  "sized res \<longleftrightarrow> 0 \<le> ram_of res \<and> 0 \<le> cpu_of res"

definition running :: "system \<Rightarrow> reservation list" where
  "running s = map snd (goroutines s)"

definition queued :: "system \<Rightarrow> reservation list" where
  "queued s = concat (map snd (rotation (q (sched s))))"

definition sys_inv :: "system \<Rightarrow> bool" where
  "sys_inv s \<longleftrightarrow> tq_inv (clock s) (q (sched s))
     \<and> distinct (map fst (goroutines s)) \<and> activeTaskCancelFuncs (sched s) = fst ` set (goroutines s)
     \<and> (\<forall>c\<in>fst ` set (goroutines s). c < nextCancel s)
     \<and> (exclusiveTaskScheduling (sched s) \<longrightarrow> length (goroutines s) \<le> 1)
     \<and> newTaskSignal (sched s) \<le> 1"

definition res_inv :: "system \<Rightarrow> bool" where
  "res_inv s \<longleftrightarrow> (\<forall>r\<in>set (queued s) \<union> set (running s). sized r)
     \<and> sint (ramBytesUsed (sched s)) = sum_list (map ram_of (running s))
     \<and> sint (cpuMillisUsed (sched s)) = sum_list (map cpu_of (running s))
     \<and> sum_list (map ram_of (running s)) \<le> sint (ramBytesCapacity (sched s))
     \<and> sum_list (map cpu_of (running s)) \<le> sint (cpuMillisCapacity (sched s))"

text \<open>The fields an operation leaves alone.\<close>

lemma trackTask_fields [simp]:
  "q (trackTask r c s) = q s" "shuttingDown (trackTask r c s) = shuttingDown s"
  "newTaskSignal (trackTask r c s) = newTaskSignal s"
  "activeTaskCancelFuncs (trackTask r c s) = insert c (activeTaskCancelFuncs s)"
  "ramBytesCapacity (trackTask r c s) = ramBytesCapacity s" "cpuMillisCapacity (trackTask r c s) = cpuMillisCapacity s"
  "exclusiveTaskScheduling (trackTask r c s) = exclusiveTaskScheduling s"
  "ramBytesUsed (trackTask r c s) = ramBytesUsed s + GetEstimatedMemoryBytes r"
  "cpuMillisUsed (trackTask r c s) = cpuMillisUsed s + GetEstimatedMilliCpu r"
  by (simp_all add: trackTask_def Let_def GetEstimatedMemoryBytes_def GetEstimatedMilliCpu_def split: option.split)

lemma untrackTask_fields [simp]:
  "q (untrackTask r c s) = q s" "shuttingDown (untrackTask r c s) = shuttingDown s"
  "newTaskSignal (untrackTask r c s) = newTaskSignal s"
  "activeTaskCancelFuncs (untrackTask r c s) = activeTaskCancelFuncs s - {c}"
  "ramBytesCapacity (untrackTask r c s) = ramBytesCapacity s" "cpuMillisCapacity (untrackTask r c s) = cpuMillisCapacity s"
  "exclusiveTaskScheduling (untrackTask r c s) = exclusiveTaskScheduling s"
  "ramBytesUsed (untrackTask r c s) = ramBytesUsed s - GetEstimatedMemoryBytes r"
  "cpuMillisUsed (untrackTask r c s) = cpuMillisUsed s - GetEstimatedMilliCpu r"
  by (simp_all add: untrackTask_def Let_def GetEstimatedMemoryBytes_def GetEstimatedMilliCpu_def split: option.split)

lemma rotation_cases:
  assumes "tq_inv now t"
  obtains "rotation t = []" | g r rs qs where "rotation t = (g, r # rs) # qs"
proof (cases "rotation t")
  case (Cons x qs)
  then have "snd x \<noteq> []" using rotation_nonempty [OF assms, of x] by simp
  then show thesis using Cons that(2) by (cases x; cases "snd x") auto
qed (rule that(1))

lemma Len_zero_iff:
  assumes "tq_inv now t"
  shows "taskQueue_Len t = 0 \<longleftrightarrow> rotation t = []"
  using assms
proof (cases rule: rotation_cases)
  case 2
  then show ?thesis using numTasks_rotation [OF assms] by (simp add: taskQueue_Len_def)
qed (use numTasks_rotation [OF assms] in \<open>simp add: taskQueue_Len_def\<close>)

text \<open>The outcomes of \<open>handleTask\<close>: nothing changes, or the head of the queue is started.\<close>

definition head_starts :: "PriorityTaskScheduler \<Rightarrow> bool" where
  "head_starts s \<longleftrightarrow> \<not> shuttingDown s
     \<and> (case taskQueue_Peek (q s) of None \<Rightarrow> False | Some r \<Rightarrow> canFitAnotherTask r s)"

lemma head_starts_signal [simp]: "head_starts (s\<lparr>newTaskSignal := n\<rparr>) = head_starts s"
proof -
  have "canFitAnotherTask r (s\<lparr>newTaskSignal := n\<rparr>) = canFitAnotherTask r s" for r
    by (simp add: canFitAnotherTask_def)
  then show ?thesis by (simp add: head_starts_def split: option.split)
qed

lemma handleTask_idle:
  assumes "tq_inv now (q s)" and "\<not> head_starts s"
  shows "handleTask c s = (None, s)"
  using assms by (auto simp: handleTask_def head_starts_def split: option.split)

lemma handleTask_starts:
  assumes inv: "tq_inv now (q s)" and st: "head_starts s"
  obtains g r rs qs t where "rotation (q s) = (g, r # rs) # qs" and "taskQueue_Peek (q s) = Some r"
    and "canFitAnotherTask r s" and "tq_inv now t" and "rotation t = qs @ (if rs = [] then [] else [(g, rs)])"
    and "handleTask c s = (Some r, trackTask r c (s\<lparr>q := t\<rparr>))"
  using inv
proof (cases rule: rotation_cases)
  case 1
  with Dequeue_empty(2) [OF inv] st show thesis by (simp add: head_starts_def)
next
  case (2 g r rs qs)
  note peek = Peek_head [OF inv 2]
  obtain t where t: "taskQueue_Dequeue (q s) = (Some r, t)" "tq_inv now t"
      "rotation t = qs @ (if rs = [] then [] else [(g, rs)])"
    using Dequeue_step [OF inv 2] by blast
  have fit: "canFitAnotherTask r s" using st peek by (simp add: head_starts_def)
  have "handleTask c s = (Some r, trackTask r c (s\<lparr>q := t\<rparr>))"
    using st peek t(1) fit Len_zero_iff [OF inv] 2 by (simp add: handleTask_def head_starts_def)
  with 2 peek fit t show thesis by (intro that)
qed

lemma canFit_bounds:
  assumes "canFitAnotherTask r s"
    and "0 \<le> sint (ramBytesUsed s)" "sint (ramBytesUsed s) \<le> sint (ramBytesCapacity s)"
    and "0 \<le> sint (cpuMillisUsed s)" "sint (cpuMillisUsed s) \<le> sint (cpuMillisCapacity s)"
  shows "sint (ramBytesUsed s) + ram_of r \<le> sint (ramBytesCapacity s)"
    and "sint (cpuMillisUsed s) + cpu_of r \<le> sint (cpuMillisCapacity s)"
    and "exclusiveTaskScheduling s \<Longrightarrow> card (activeTaskCancelFuncs s) = 0"
  using assms by (auto simp: canFitAnotherTask_def Let_def sint_minus_nonneg ram_of_def cpu_of_def split: if_splits)

text \<open>One step of the scheduler on the abstract system: what is queued, running, and accounted for.\<close>

lemma run_handleTask_idle:
  "tq_inv now (q (sched s)) \<Longrightarrow> \<not> head_starts (sched s) \<Longrightarrow> run_handleTask s = s"
  by (simp add: run_handleTask_def handleTask_idle)

lemma run_handleTask_starts:
  assumes "tq_inv now (q (sched s))" and "head_starts (sched s)"
  obtains g r rs qs t where "rotation (q (sched s)) = (g, r # rs) # qs"
    and "taskQueue_Peek (q (sched s)) = Some r" and "canFitAnotherTask r (sched s)" and "tq_inv now t"
    and "rotation t = qs @ (if rs = [] then [] else [(g, rs)])"
    and "run_handleTask s = s\<lparr>sched := trackTask r (nextCancel s) ((sched s)\<lparr>q := t\<rparr>),
           goroutines := (nextCancel s, r) # goroutines s, nextCancel := nextCancel s + 1\<rparr>"
  by (rule handleTask_starts [OF assms, of "nextCancel s"], rule that) (assumption | simp add: run_handleTask_def)+

lemma sys_inv_run_handleTask:
  assumes inv: "sys_inv s"
  shows "sys_inv (run_handleTask s)"
proof (cases "head_starts (sched s)")
  case False
  with inv show ?thesis by (simp add: run_handleTask_idle [of "clock s"] sys_inv_def)
next
  case True
  have tq: "tq_inv (clock s) (q (sched s))" using inv by (simp add: sys_inv_def)
  from run_handleTask_starts [OF tq True] obtain g r rs qs t
    where t: "tq_inv (clock s) t" and fit: "canFitAnotherTask r (sched s)"
      and run: "run_handleTask s = s\<lparr>sched := trackTask r (nextCancel s) ((sched s)\<lparr>q := t\<rparr>),
           goroutines := (nextCancel s, r) # goroutines s, nextCancel := nextCancel s + 1\<rparr>" by metis
  have "length (goroutines s) = 0" if "exclusiveTaskScheduling (sched s)"
  proof -
    have "card (activeTaskCancelFuncs (sched s)) = 0"
      using fit that by (simp add: canFitAnotherTask_def Let_def split: if_splits)
    moreover have "card (activeTaskCancelFuncs (sched s)) = length (goroutines s)"
      using inv distinct_card [of "map fst (goroutines s)"] by (simp add: sys_inv_def)
    ultimately show ?thesis by simp
  qed
  with inv t show ?thesis unfolding run by (fastforce simp: sys_inv_def)
qed

lemma sum_list_filter_key:
  assumes "distinct (map fst xs)" and "map_of xs c = Some r"
  shows "mset (map snd xs) = add_mset r (mset (map snd (filter (\<lambda>x. fst x \<noteq> c) xs)))"
  using assms
proof (induction xs)
  case (Cons x xs)
  show ?case
  proof (cases "fst x = c")
    case True
    then have "filter (\<lambda>x. fst x \<noteq> c) xs = xs" using Cons.prems(1) by (intro filter_other) simp
    with True Cons.prems show ?thesis by auto
  qed (use Cons in auto)
qed simp

lemma sum_list_of_mset: "mset xs = add_mset r (mset ys) \<Longrightarrow> sum_list (map f xs) = f r + (sum_list (map f ys) :: int)"
  by (metis sum_mset_sum_list mset_map image_mset_add_mset sum_mset.add_mset)

lemma set_of_mset: "mset xs = add_mset r (mset ys) \<Longrightarrow> set xs = insert r (set ys)"
  by (metis set_mset_mset set_mset_add_mset_insert)

text \<open>
  What each step does to the reservations queued and running, as multisets: the resource invariant, the
  conservation of reservations and the behaviour under shutdown all follow from these.
\<close>

lemma queued_Enqueue:
  assumes "tq_inv now t"
  shows "mset (concat (map snd (rotation (taskQueue_Enqueue now req t)))) = add_mset req (mset (concat (map snd (rotation t))))"
proof (cases "pqByGroupID t (task_group_id req)")
  case None
  then show ?thesis using Enqueue_unknown [OF assms, of "now + 1" req] by auto
next
  case (Some k)
  have rot: "rotation (taskQueue_Enqueue now req t)
      = map (\<lambda>(g, rs). (g, if g = task_group_id req then rs @ [req] else rs)) (rotation t)"
    using Enqueue_known [OF assms _ Some, of "now + 1"] by simp
  have mem: "task_group_id req \<in> fst ` set (rotation t)"
    using Some pqByGroupID_rotation [OF assms, of "task_group_id req"] by simp
  have upd: "mset (concat (map snd (map (\<lambda>(g, rs). (g, if g = task_group_id req then rs @ [req] else rs)) xs)))
      = (if task_group_id req \<in> fst ` set xs then add_mset req (mset (concat (map snd xs))) else mset (concat (map snd xs)))"
    if "distinct (map fst xs)" for xs :: "(string \<times> reservation list) list"
    using that by (induction xs) (auto simp: image_iff split: prod.splits)
  have "distinct (map fst (rotation t))" by (rule distinct_rotation [OF assms])
  from upd [OF this] mem show ?thesis unfolding rot by simp
qed

lemma queued_run_handleTask:
  assumes "tq_inv now (q (sched s))" and "head_starts (sched s)"
  obtains r where "taskQueue_Peek (q (sched s)) = Some r" and "canFitAnotherTask r (sched s)"
    and "mset (queued s) = add_mset r (mset (queued (run_handleTask s)))"
    and "running (run_handleTask s) = r # running s" and "ended (run_handleTask s) = ended s"
    and "ramBytesUsed (sched (run_handleTask s)) = ramBytesUsed (sched s) + GetEstimatedMemoryBytes r"
    and "cpuMillisUsed (sched (run_handleTask s)) = cpuMillisUsed (sched s) + GetEstimatedMilliCpu r"
    and "ramBytesCapacity (sched (run_handleTask s)) = ramBytesCapacity (sched s)"
    and "cpuMillisCapacity (sched (run_handleTask s)) = cpuMillisCapacity (sched s)"
proof (rule run_handleTask_starts [OF assms])
  fix g r rs qs t
  assume *: "rotation (q (sched s)) = (g, r # rs) # qs" "taskQueue_Peek (q (sched s)) = Some r" "canFitAnotherTask r (sched s)"
    "rotation t = qs @ (if rs = [] then [] else [(g, rs)])"
    "run_handleTask s = s\<lparr>sched := trackTask r (nextCancel s) ((sched s)\<lparr>q := t\<rparr>),
           goroutines := (nextCancel s, r) # goroutines s, nextCancel := nextCancel s + 1\<rparr>"
  show thesis by (rule that [of r]) (use * in \<open>simp_all add: queued_def running_def\<close>)
qed

lemma used_nonneg:
  assumes "\<forall>r\<in>set rs. sized r"
  shows "0 \<le> sum_list (map ram_of rs)" and "0 \<le> sum_list (map cpu_of rs)"
  using assms by (auto simp: sized_def intro!: sum_list_nonneg)

lemma res_inv_run_handleTask:
  assumes inv: "sys_inv s" and res: "res_inv s"
  shows "res_inv (run_handleTask s)"
proof (cases "head_starts (sched s)")
  case False
  with inv res show ?thesis by (simp add: run_handleTask_idle [of "clock s"] sys_inv_def)
next
  case True
  have tq: "tq_inv (clock s) (q (sched s))" using inv by (simp add: sys_inv_def)
  from queued_run_handleTask [OF tq True] obtain r where
    r: "canFitAnotherTask r (sched s)" "mset (queued s) = add_mset r (mset (queued (run_handleTask s)))"
      "running (run_handleTask s) = r # running s"
      "ramBytesUsed (sched (run_handleTask s)) = ramBytesUsed (sched s) + GetEstimatedMemoryBytes r"
      "cpuMillisUsed (sched (run_handleTask s)) = cpuMillisUsed (sched s) + GetEstimatedMilliCpu r"
      "ramBytesCapacity (sched (run_handleTask s)) = ramBytesCapacity (sched s)"
      "cpuMillisCapacity (sched (run_handleTask s)) = cpuMillisCapacity (sched s)" by metis
  have set: "set (queued s) = insert r (set (queued (run_handleTask s)))" by (rule set_of_mset [OF r(2)])
  have sized: "\<forall>x\<in>set (running s). sized x" "sized r" using res set by (auto simp: res_inv_def)
  note nn = used_nonneg [OF sized(1)]
  have ram: "sint (ramBytesUsed (sched s)) = sum_list (map ram_of (running s))"
      "sum_list (map ram_of (running s)) \<le> sint (ramBytesCapacity (sched s))"
    and cpu: "sint (cpuMillisUsed (sched s)) = sum_list (map cpu_of (running s))"
      "sum_list (map cpu_of (running s)) \<le> sint (cpuMillisCapacity (sched s))"
    using res by (simp_all add: res_inv_def)
  have fit: "sint (ramBytesUsed (sched s)) + ram_of r \<le> sint (ramBytesCapacity (sched s))"
      "sint (cpuMillisUsed (sched s)) + cpu_of r \<le> sint (cpuMillisCapacity (sched s))"
    by (rule canFit_bounds(1,2) [OF r(1)]; use nn ram cpu in simp)+
  have "sint (ramBytesUsed (sched s) + GetEstimatedMemoryBytes r) = sint (ramBytesUsed (sched s)) + ram_of r"
    using fit(1) nn(1) ram sized(2) unfolding ram_of_def sized_def
    by (intro sint_plus_nonneg [where c = "ramBytesCapacity (sched s)"]) simp_all
  moreover have "sint (cpuMillisUsed (sched s) + GetEstimatedMilliCpu r) = sint (cpuMillisUsed (sched s)) + cpu_of r"
    using fit(2) nn(2) cpu sized(2) unfolding cpu_of_def sized_def
    by (intro sint_plus_nonneg [where c = "cpuMillisCapacity (sched s)"]) simp_all
  ultimately show ?thesis using r fit ram cpu set res by (simp add: res_inv_def)
qed

lemma untrack_res_inv:
  assumes inv: "sys_inv s" and res: "res_inv s" and c: "map_of (goroutines s) c = Some r"
    and st: "sys_step (Finish c) s = Some s'"
  shows "res_inv s'" and "mset (running s) = add_mset r (mset (running s'))" and "queued s' = queued s"
proof -
  have s': "s' = s\<lparr>sched := untrackTask r c (sched s),
          goroutines := filter (\<lambda>x. fst x \<noteq> c) (goroutines s), ended := r # ended s\<rparr>"
    using st c by simp
  show ms: "mset (running s) = add_mset r (mset (running s'))"
    using sum_list_filter_key [OF _ c] inv by (simp add: s' running_def sys_inv_def)
  show q: "queued s' = queued s" by (simp add: s' queued_def)
  have set: "set (running s) = insert r (set (running s'))" by (rule set_of_mset [OF ms])
  then have sized: "\<forall>x\<in>set (running s'). sized x" "sized r" using res by (auto simp: res_inv_def)
  note nn = used_nonneg [OF sized(1)]
  note sum = sum_list_of_mset [OF ms, of ram_of] sum_list_of_mset [OF ms, of cpu_of]
  have "sint (ramBytesUsed (sched s) - GetEstimatedMemoryBytes r) = sint (ramBytesUsed (sched s)) - ram_of r"
    unfolding ram_of_def using res sum(1) nn(1) sized(2)
    by (intro sint_minus_nonneg) (simp_all add: res_inv_def sized_def ram_of_def [symmetric])
  moreover have "sint (cpuMillisUsed (sched s) - GetEstimatedMilliCpu r) = sint (cpuMillisUsed (sched s)) - cpu_of r"
    unfolding cpu_of_def using res sum(2) nn(2) sized(2)
    by (intro sint_minus_nonneg) (simp_all add: res_inv_def sized_def cpu_of_def [symmetric])
  ultimately show "res_inv s'"
    using res sum q set sized by (simp add: res_inv_def s' sized_def)
qed

section \<open>Invariants of the runs\<close>

inductive_cases runs_snocE: "runs s (es @ [e]) s''"

lemma sys_step_Finish_iff:
  "sys_step (Finish c) s = Some s' \<longleftrightarrow> (\<exists>r. map_of (goroutines s) c = Some r \<and> s' = s\<lparr>sched := untrackTask r c (sched s),
          goroutines := filter (\<lambda>x. fst x \<noteq> c) (goroutines s), ended := r # ended s\<rparr>)"
  by (auto split: option.splits)

lemma sys_step_SendD:
  "sys_step Send s = Some s' \<Longrightarrow> newTaskSignal (sched s) = 0
    \<and> s' = s\<lparr>sched := (sched s)\<lparr>newTaskSignal := 1\<rparr>, senders := senders s - 1\<rparr>"
  by (auto simp: send_signal_def split: if_splits)

lemma sys_inv_signal [simp]:
  "sys_inv s \<Longrightarrow> n \<le> 1 \<Longrightarrow> sys_inv (s\<lparr>sched := (sched s)\<lparr>newTaskSignal := n\<rparr>\<rparr>)"
  by (simp add: sys_inv_def)

lemma res_inv_signal [simp]: "res_inv (s\<lparr>sched := (sched s)\<lparr>newTaskSignal := n\<rparr>\<rparr>) = res_inv s"
  by (simp add: res_inv_def queued_def running_def)

lemma sys_inv_step:
  assumes inv: "sys_inv s" and st: "sys_step e s = Some s'"
  shows "sys_inv s'"
proof (cases e)
  case (Enqueue req)
  then have "s' = s\<lparr>sched := EnqueueTaskReservation (clock s) req (sched s), senders := senders s + 1, clock := clock s + 1\<rparr>"
    using st by simp
  then show ?thesis
    using inv tq_inv_Enqueue [of "clock s" "q (sched s)" "clock s + 1" req] by (simp add: sys_inv_def EnqueueTaskReservation_def)
next
  case Send
  with inv sys_step_SendD [of s s'] st show ?thesis by (simp add: sys_inv_def del: sys_step.simps)
next
  case Signal
  with inv st show ?thesis
    by (auto simp: sys_inv_def [of s] intro!: sys_inv_run_handleTask sys_inv_signal split: if_splits)
next
  case Timer
  with inv st show ?thesis by (auto intro: sys_inv_run_handleTask)
next
  case (Finish c)
  with st obtain r where "s' = s\<lparr>sched := untrackTask r c (sched s),
          goroutines := filter (\<lambda>x. fst x \<noteq> c) (goroutines s), ended := r # ended s\<rparr>"
    by (auto simp: sys_step_Finish_iff simp del: sys_step.simps)
  with inv show ?thesis
    by (auto simp: sys_inv_def distinct_map_filter intro: le_trans [OF length_filter_le])
next
  case ShutdownSignal
  then have "s' = s\<lparr>sched := Shutdown_begin (sched s)\<rparr>" using st by simp
  with inv show ?thesis by (simp add: sys_inv_def Shutdown_begin_def)
qed

lemma res_inv_step:
  assumes inv: "sys_inv s" and res: "res_inv s" and st: "sys_step e s = Some s'"
    and sized: "\<And>req. e = Enqueue req \<Longrightarrow> sized req"
  shows "res_inv s'"
proof (cases e)
  case (Enqueue req)
  then have s': "s' = s\<lparr>sched := EnqueueTaskReservation (clock s) req (sched s), senders := senders s + 1, clock := clock s + 1\<rparr>"
    using st by simp
  have "mset (queued s') = add_mset req (mset (queued s))"
    using queued_Enqueue [of "clock s" "q (sched s)" req] inv by (simp add: s' queued_def EnqueueTaskReservation_def sys_inv_def)
  from set_of_mset [OF this] res sized [OF Enqueue] show ?thesis
    by (simp add: res_inv_def running_def s' EnqueueTaskReservation_def)
next
  case Send
  with res sys_step_SendD [of s s'] st show ?thesis by (simp add: res_inv_def queued_def running_def del: sys_step.simps)
next
  case Signal
  with inv res st show ?thesis
    by (auto simp: sys_inv_def [of s] intro!: res_inv_run_handleTask sys_inv_signal split: if_splits)
next
  case Timer
  with inv res st show ?thesis by (auto intro: res_inv_run_handleTask)
next
  case (Finish c)
  then obtain r where "map_of (goroutines s) c = Some r" using st by (auto split: option.splits)
  with untrack_res_inv(1) [OF inv res this] st Finish show ?thesis by blast
next
  case ShutdownSignal
  then have "s' = s\<lparr>sched := Shutdown_begin (sched s)\<rparr>" using st by simp
  with res show ?thesis by (simp add: res_inv_def queued_def running_def Shutdown_begin_def)
qed

lemma handleTask_caps [simp]:
  "ramBytesCapacity (snd (handleTask c s)) = ramBytesCapacity s"
  "cpuMillisCapacity (snd (handleTask c s)) = cpuMillisCapacity s"
  "exclusiveTaskScheduling (snd (handleTask c s)) = exclusiveTaskScheduling s"
  "shuttingDown (snd (handleTask c s)) = shuttingDown s"
  by (simp_all add: handleTask_def split: option.split prod.split)

lemma sched_run_handleTask [simp]: "sched (run_handleTask s) = snd (handleTask (nextCancel s) (sched s))"
  by (simp add: run_handleTask_def split: option.split prod.split)

lemma caps_step:
  assumes "sys_step e s = Some s'"
  shows "ramBytesCapacity (sched s') = ramBytesCapacity (sched s)
    \<and> cpuMillisCapacity (sched s') = cpuMillisCapacity (sched s)
    \<and> exclusiveTaskScheduling (sched s') = exclusiveTaskScheduling (sched s)
    \<and> (shuttingDown (sched s) \<longrightarrow> shuttingDown (sched s'))"
proof (cases e)
  case (Finish c)
  with assms show ?thesis by (auto simp: sys_step_Finish_iff simp del: sys_step.simps)
next
  case Send
  with assms show ?thesis by (auto simp: send_signal_def split: if_splits)
next
  case Signal
  with assms show ?thesis by (auto split: if_splits)
qed (use assms in \<open>auto simp: EnqueueTaskReservation_def Shutdown_begin_def\<close>)

lemma runs_sys_inv: "runs s es s' \<Longrightarrow> sys_inv s \<Longrightarrow> sys_inv s'"
  by (induction rule: runs.induct) (auto intro: sys_inv_step)

lemma runs_caps:
  assumes "runs s es s'"
  shows "ramBytesCapacity (sched s') = ramBytesCapacity (sched s)
    \<and> cpuMillisCapacity (sched s') = cpuMillisCapacity (sched s)
    \<and> exclusiveTaskScheduling (sched s') = exclusiveTaskScheduling (sched s)
    \<and> (shuttingDown (sched s) \<longrightarrow> shuttingDown (sched s'))"
  using assms
proof (induction rule: runs.induct)
  case (runs_snoc s es s' e s'')
  with caps_step [OF runs_snoc(2)] show ?case by simp
qed simp

lemma runs_res_inv:
  "runs s es s' \<Longrightarrow> sys_inv s \<Longrightarrow> res_inv s \<Longrightarrow> \<forall>req. Enqueue req \<in> set es \<longrightarrow> sized req \<Longrightarrow> res_inv s'"
proof (induction rule: runs.induct)
  case (runs_snoc s es s' e s'')
  then show ?case using res_inv_step [OF runs_sys_inv] by (metis in_set_conv_decomp set_append UnI1 Un_iff list.set_intros(1))
qed simp

lemma sys_inv_init:
  "sys_inv (sys_init (NewPriorityTaskScheduler ro co ar ac ex))"
  by (simp add: sys_inv_def sys_init_def NewPriorityTaskScheduler_def tq_inv_New)

lemma res_inv_init:
  assumes "0 \<le> sint (ramBytesCapacity (NewPriorityTaskScheduler ro co ar ac ex))"
    and "0 \<le> sint (cpuMillisCapacity (NewPriorityTaskScheduler ro co ar ac ex))"
  shows "res_inv (sys_init (NewPriorityTaskScheduler ro co ar ac ex))"
  using assms by (simp add: res_inv_def sys_init_def queued_def running_def rotation_New
      NewPriorityTaskScheduler_def)

text \<open>Which reservations a step moves: from outside into the queue, from the queue to a goroutine, from there out.\<close>

definition enqueued :: "event list \<Rightarrow> reservation list" where
  "enqueued es = concat (map (\<lambda>e. case e of Enqueue r \<Rightarrow> [r] | _ \<Rightarrow> []) es)"

lemma enqueued_snoc [simp]: "enqueued [] = []"
  "enqueued (es @ [e]) = enqueued es @ (case e of Enqueue r \<Rightarrow> [r] | _ \<Rightarrow> [])"
  by (simp_all add: enqueued_def)

definition all_reservations :: "system \<Rightarrow> reservation multiset" where
  "all_reservations s = mset (queued s) + mset (running s) + mset (ended s)"

lemma all_run_handleTask:
  assumes "sys_inv s"
  shows "all_reservations (run_handleTask s) = all_reservations s"
proof (cases "head_starts (sched s)")
  case False
  with assms show ?thesis by (simp add: run_handleTask_idle [of "clock s"] sys_inv_def)
next
  case True
  have tq: "tq_inv (clock s) (q (sched s))" using assms by (simp add: sys_inv_def)
  from queued_run_handleTask [OF tq True] obtain r where
    "mset (queued s) = add_mset r (mset (queued (run_handleTask s)))"
    "running (run_handleTask s) = r # running s" "ended (run_handleTask s) = ended s" by metis
  then show ?thesis by (simp add: all_reservations_def)
qed

lemma all_reservations_signal [simp]:
  "all_reservations (s\<lparr>sched := (sched s)\<lparr>newTaskSignal := n\<rparr>\<rparr>) = all_reservations s"
  by (simp add: all_reservations_def queued_def running_def)

lemma all_reservations_step:
  assumes inv: "sys_inv s" and st: "sys_step e s = Some s'"
  shows "all_reservations s' = all_reservations s + mset (case e of Enqueue r \<Rightarrow> [r] | _ \<Rightarrow> [])"
proof (cases e)
  case (Enqueue req)
  then have s': "s' = s\<lparr>sched := EnqueueTaskReservation (clock s) req (sched s), senders := senders s + 1, clock := clock s + 1\<rparr>"
    using st by simp
  have "mset (queued s') = add_mset req (mset (queued s))"
    using queued_Enqueue [of "clock s" "q (sched s)" req] inv by (simp add: s' queued_def EnqueueTaskReservation_def sys_inv_def)
  then show ?thesis using Enqueue by (simp add: all_reservations_def) (simp add: s' running_def)
next
  case Send
  with sys_step_SendD [of s s'] st show ?thesis by (simp add: all_reservations_def queued_def running_def del: sys_step.simps)
next
  case Signal
  with inv st show ?thesis
    by (auto simp: sys_inv_def [of s] all_run_handleTask [OF sys_inv_signal] split: if_splits)
next
  case Timer
  with inv st show ?thesis using all_run_handleTask [OF inv] by simp
next
  case (Finish c)
  with st obtain r where r: "map_of (goroutines s) c = Some r" and "s' = s\<lparr>sched := untrackTask r c (sched s),
          goroutines := filter (\<lambda>x. fst x \<noteq> c) (goroutines s), ended := r # ended s\<rparr>"
    by (auto simp: sys_step_Finish_iff simp del: sys_step.simps)
  moreover have "distinct (map fst (goroutines s))" using inv by (simp add: sys_inv_def)
  ultimately show ?thesis
    using sum_list_filter_key [OF _ r] Finish by (simp add: all_reservations_def running_def queued_def)
next
  case ShutdownSignal
  then have "s' = s\<lparr>sched := Shutdown_begin (sched s)\<rparr>" using st by simp
  with ShutdownSignal show ?thesis by (simp add: all_reservations_def queued_def running_def Shutdown_begin_def)
qed

lemma GetAll_queued:
  assumes "tq_inv now t"
  shows "mset (taskQueue_GetAll t) = mset (concat (map snd (rotation t)))"
proof -
  have eq: "mset (PriorityQueue_GetAll pq) = mset (pq_abs pq)" for pq :: "reservation PriorityQueue"
    by (simp add: PriorityQueue_GetAll_def pq_abs_def)
  have "mset (concat (map (\<lambda>x. PriorityQueue_GetAll (gpq (snd x))) xs)) = mset (concat (map (\<lambda>x. pq_abs (gpq (snd x))) xs))"
    for xs :: "(nat \<times> groupPriorityQueue) list"
    by (induction xs) (simp_all add: eq)
  then show ?thesis
    by (cases rule: current_cases [OF assms]) (simp_all add: eq taskQueue_GetAll_def group_abs_def comp_def)
qed

section \<open>Properties\<close>

text \<open>C27: in every run of the scheduler in which the reservations' sizes are not negative, what the
  running tasks were estimated to need never exceeds the memory or the CPU capacity, the two counters are exactly
  the sums over the running tasks (no overflow), and in exclusive mode at most one task runs.\<close>

theorem scheduler_within_capacity:
  assumes "runs (sys_init (NewPriorityTaskScheduler ro co ar ac ex)) es s"
    and "\<forall>req. Enqueue req \<in> set es \<longrightarrow> sized req"
    and "0 \<le> sint (if ro = 0 then ar else ro)" and "0 \<le> sint (if co = 0 then ac else co)"
  shows "sum_list (map ram_of (running s)) \<le> sint (if ro = 0 then ar else ro)
    \<and> sum_list (map cpu_of (running s)) \<le> sint (if co = 0 then ac else co)
    \<and> sint (ramBytesUsed (sched s)) = sum_list (map ram_of (running s))
    \<and> sint (cpuMillisUsed (sched s)) = sum_list (map cpu_of (running s))
    \<and> card (activeTaskCancelFuncs (sched s)) = length (running s)
    \<and> (if ex then length (running s) \<le> 1 else True)"
proof -
  have inv: "sys_inv s" by (rule runs_sys_inv [OF assms(1) sys_inv_init])
  have "res_inv s"
    by (rule runs_res_inv [OF assms(1) sys_inv_init res_inv_init assms(2)])
      (use assms(3,4) in \<open>simp_all add: NewPriorityTaskScheduler_def\<close>)
  moreover have "card (activeTaskCancelFuncs (sched s)) = length (goroutines s)"
    using inv distinct_card [of "map fst (goroutines s)"] by (simp add: sys_inv_def)
  ultimately show ?thesis
    using inv runs_caps [OF assms(1)]
    by (simp add: res_inv_def sys_inv_def running_def) (simp add: sys_init_def NewPriorityTaskScheduler_def split: if_splits)
qed

text \<open>C34: no reservation is lost or started twice: in every run the reservations handed to
  \<open>EnqueueTaskReservation\<close> are, with their multiplicities, exactly those queued, running or ended, and the queue's length counter
  and \<open>GetQueuedTaskReservations\<close> agree with what is queued.\<close>

theorem scheduler_conserves:
  assumes "runs (sys_init (NewPriorityTaskScheduler ro co ar ac ex)) es s"
  shows "mset (enqueued es) = mset (GetQueuedTaskReservations (sched s)) + mset (running s) + mset (ended s)
    \<and> taskQueue_Len (q (sched s)) = int (length (GetQueuedTaskReservations (sched s)))"
proof -
  define s0 where "s0 = sys_init (NewPriorityTaskScheduler ro co ar ac ex)"
  have inv0: "sys_inv s0" unfolding s0_def by (rule sys_inv_init)
  have all0: "all_reservations s0 = {#}"
    by (simp add: all_reservations_def s0_def sys_init_def queued_def running_def NewPriorityTaskScheduler_def rotation_New)
  have r: "runs s0 es s" using assms by (simp add: s0_def)
  then have "all_reservations s = mset (enqueued es) + all_reservations s0"
    using inv0
  proof (induction rule: runs.induct)
    case (runs_snoc s es s' e s'')
    then show ?case using all_reservations_step [OF runs_sys_inv [OF runs_snoc(1,4)] runs_snoc(2)] by simp
  qed simp
  moreover have tq: "tq_inv (clock s) (q (sched s))" using runs_sys_inv [OF r inv0] by (simp add: sys_inv_def)
  note ga = GetAll_queued [OF tq]
  moreover have "taskQueue_Len (q (sched s)) = int (length (concat (map snd (rotation (q (sched s))))))"
    using numTasks_rotation [OF tq] by (simp add: taskQueue_Len_def length_concat comp_def)
  ultimately show ?thesis
    using mset_eq_length [OF ga] all0 by (simp add: all_reservations_def queued_def GetQueuedTaskReservations_def)
qed

text \<open>A step from a state in which nothing can be started: the goroutines can only become fewer.\<close>

lemma idle_step:
  assumes inv: "sys_inv s" and idle: "\<not> head_starts (sched s)" and st: "sys_step e s = Some s'"
  shows "set (goroutines s') \<subseteq> set (goroutines s) \<and> mset (queued s) \<subseteq># mset (queued s')"
proof (cases e)
  case (Enqueue req)
  then have s': "s' = s\<lparr>sched := EnqueueTaskReservation (clock s) req (sched s), senders := senders s + 1, clock := clock s + 1\<rparr>"
    using st by simp
  have "mset (queued s') = add_mset req (mset (queued s))"
    using queued_Enqueue [of "clock s" "q (sched s)" req] inv by (simp add: s' queued_def EnqueueTaskReservation_def sys_inv_def)
  then show ?thesis by (simp add: s')
next
  case Send
  with sys_step_SendD [of s s'] st show ?thesis by (simp add: queued_def del: sys_step.simps)
next
  case Signal
  with Signal inv st show ?thesis
    by (auto simp: run_handleTask_idle [of "clock s"] sys_inv_def queued_def idle split: if_splits)
next
  case Timer
  with inv idle st show ?thesis by (simp add: run_handleTask_idle [of "clock s"] sys_inv_def)
next
  case (Finish c)
  with st obtain r where "s' = s\<lparr>sched := untrackTask r c (sched s),
          goroutines := filter (\<lambda>x. fst x \<noteq> c) (goroutines s), ended := r # ended s\<rparr>"
    by (auto simp: sys_step_Finish_iff simp del: sys_step.simps)
  then show ?thesis by (simp add: queued_def)
next
  case ShutdownSignal
  then have "s' = s\<lparr>sched := Shutdown_begin (sched s)\<rparr>" using st by simp
  then show ?thesis by (simp add: queued_def Shutdown_begin_def)
qed

text \<open>Once the shutdown signal has been handled no task is started any more, however the run continues: the
  goroutines only become fewer, the flag stays up, and every queued reservation stays queued,
  for another executor to claim.\<close>

theorem shutdown_starts_nothing:
  assumes "runs (sys_init (NewPriorityTaskScheduler ro co ar ac ex)) es s"
    and "sys_step ShutdownSignal s = Some s1" and "runs s1 es' s'"
  shows "shuttingDown (sched s') \<and> set (goroutines s') \<subseteq> set (goroutines s) \<and> mset (queued s) \<subseteq># mset (queued s')"
proof -
  have inv1: "sys_inv s1" by (rule sys_inv_step [OF runs_sys_inv [OF assms(1) sys_inv_init] assms(2)])
  have s1: "shuttingDown (sched s1)" "goroutines s1 = goroutines s" "queued s1 = queued s"
    using assms(2) by (auto simp: Shutdown_begin_def queued_def)
  have "set (goroutines s') \<subseteq> set (goroutines s1) \<and> mset (queued s1) \<subseteq># mset (queued s')"
    using assms(3) inv1 s1(1)
  proof (induction rule: runs.induct)
    case (runs_snoc s1 es s' e s'')
    have "\<not> head_starts (sched s')" using runs_caps [OF runs_snoc(1)] runs_snoc(5) by (simp add: head_starts_def)
    from idle_step [OF runs_sys_inv [OF runs_snoc(1,4)] this runs_snoc(2)] runs_snoc show ?case
      by (auto intro: subset_mset.order_trans)
  qed simp
  then show ?thesis using runs_caps [OF assms(3)] s1 by simp
qed

lemma Peek_Enqueue:
  assumes "tq_inv now t" and "taskQueue_Peek t = Some r"
  shows "taskQueue_Peek (taskQueue_Enqueue now req t) = Some r"
  using assms(1)
proof (cases rule: rotation_cases)
  case 1
  with Dequeue_empty(2) [OF assms(1)] assms(2) show ?thesis by simp
next
  case (2 g r' rs qs)
  with Peek_head [OF assms(1)] assms(2) have r: "r' = r" by simp
  have "now < now + 1" by simp
  note inv' = tq_inv_Enqueue [OF assms(1) this, of req]
  show ?thesis
  proof (cases "pqByGroupID t (task_group_id req)")
    case None
    from Enqueue_unknown [OF assms(1) \<open>now < now + 1\<close> None] 2 obtain qs' where
      "rotation (taskQueue_Enqueue now req t) = (g, r' # rs) # qs'" by (auto simp: append_eq_Cons_conv Cons_eq_append_conv)
    with Peek_head [OF inv'] r show ?thesis by blast
  next
    case (Some k)
    from Enqueue_known [OF assms(1) \<open>now < now + 1\<close> Some] 2 obtain rs' qs' where
      "rotation (taskQueue_Enqueue now req t) = (g, r' # rs') # qs'" by (cases "g = task_group_id req") auto
    with Peek_head [OF inv'] r show ?thesis by blast
  qed
qed

text \<open>A reservation at the head of the queue that is larger than the executor blocks it for good: if
  its memory estimate exceeds the capacity, it stays at the head in every continuation of the run and no
  other reservation is started, however small.\<close>

theorem oversized_head_blocks:
  assumes "runs (sys_init (NewPriorityTaskScheduler ro co ar ac ex)) es s"
    and "\<forall>req. Enqueue req \<in> set (es @ es') \<longrightarrow> sized req"
    and "0 \<le> sint (if ro = 0 then ar else ro)" and "0 \<le> sint (if co = 0 then ac else co)"
    and "taskQueue_Peek (q (sched s)) = Some r" and "sint (if ro = 0 then ar else ro) < ram_of r"
    and "runs s es' s'"
  shows "taskQueue_Peek (q (sched s')) = Some r \<and> set (goroutines s') \<subseteq> set (goroutines s)"
proof -
  let ?cap = "sint (if ro = 0 then ar else ro)"
  have inv: "sys_inv s" by (rule runs_sys_inv [OF assms(1) sys_inv_init])
  have res: "res_inv s"
    by (rule runs_res_inv [OF assms(1) sys_inv_init res_inv_init])
      (use assms(2-4) in \<open>simp_all add: NewPriorityTaskScheduler_def\<close>)
  have cap: "sint (ramBytesCapacity (sched s)) = ?cap"
    using runs_caps [OF assms(1)] by (simp add: sys_init_def NewPriorityTaskScheduler_def)
  have es': "\<forall>req. Enqueue req \<in> set es' \<longrightarrow> sized req" using assms(2) by simp
  show ?thesis
    using assms(7) inv res cap assms(5) es'
  proof (induction rule: runs.induct)
    case (runs_snoc s es' s' e s'')
    have inv': "sys_inv s'" by (rule runs_sys_inv [OF runs_snoc(1) runs_snoc.prems(1)])
    have res': "res_inv s'" by (rule runs_res_inv [OF runs_snoc(1) runs_snoc.prems(1,2)]) (use runs_snoc.prems(5) in simp)
    have peek: "taskQueue_Peek (q (sched s')) = Some r" and sub: "set (goroutines s') \<subseteq> set (goroutines s)"
      using runs_snoc.IH runs_snoc.prems by simp_all
    have big: "sint (ramBytesCapacity (sched s')) < ram_of r"
      using runs_caps [OF runs_snoc(1)] runs_snoc.prems(3) assms(6) by simp
    have "\<not> canFitAnotherTask r (sched s')"
    proof
      assume "canFitAnotherTask r (sched s')"
      moreover have "0 \<le> sint (ramBytesUsed (sched s'))" "sint (ramBytesUsed (sched s')) \<le> sint (ramBytesCapacity (sched s'))"
        "0 \<le> sint (cpuMillisUsed (sched s'))" "sint (cpuMillisUsed (sched s')) \<le> sint (cpuMillisCapacity (sched s'))"
        using res' used_nonneg [of "running s'"] by (auto simp: res_inv_def)
      ultimately show False using canFit_bounds(1) big by fastforce
    qed
    with peek have idle: "\<not> head_starts (sched s')" by (simp add: head_starts_def)
    have tq: "tq_inv (clock s') (q (sched s'))" using inv' by (simp add: sys_inv_def)
    have "taskQueue_Peek (q (sched s'')) = Some r"
      using runs_snoc(2) peek Peek_Enqueue [OF tq peek] idle tq
      by (cases e) (auto simp: EnqueueTaskReservation_def send_signal_def Shutdown_begin_def handleTask_idle
          split: if_splits option.splits)
    with idle_step [OF inv' idle runs_snoc(2)] sub show ?case by blast
  qed simp
qed

section \<open>Witnesses\<close>

text \<open>Running a list of events; a run is what this computes.\<close>

primrec exec :: "event list \<Rightarrow> system \<Rightarrow> system option" where
  "exec [] s = Some s"
| "exec (e # es) s = (case sys_step e s of None \<Rightarrow> None | Some s' \<Rightarrow> exec es s')"

lemma runs_Cons: "runs s' es s'' \<Longrightarrow> sys_step e s = Some s' \<Longrightarrow> runs s (e # es) s''"
proof (induction rule: runs.induct)
  case (runs_nil s')
  then show ?case using runs_snoc [OF runs.runs_nil [of s], of e] by simp
next
  case (runs_snoc s' es s1 e' s2)
  then show ?case using runs.runs_snoc [of s "e # es" s1 e' s2] by simp
qed

lemma runs_exec: "exec es s = Some s' \<Longrightarrow> runs s es s'"
  by (induction es arbitrary: s) (auto intro: runs_nil runs_Cons split: option.splits)

definition example_events :: "event list" where
  "example_events = [Enqueue (example_req ''a1'' ''A'' 6), Send, Enqueue (example_req ''b1'' ''B'' 3),
     Signal, Enqueue (example_req ''a2'' ''A'' 99), Timer, Finish 0]"

definition example_sys :: system where
  "example_sys = the (exec example_events (sys_init (NewPriorityTaskScheduler 10 8 0 0 False)))"

lemma example_runs: "runs (sys_init (NewPriorityTaskScheduler 10 8 0 0 False)) example_events example_sys"
proof (rule runs_exec)
  have "exec example_events (sys_init (NewPriorityTaskScheduler 10 8 0 0 False)) \<noteq> None" by code_simp
  then show "exec example_events (sys_init (NewPriorityTaskScheduler 10 8 0 0 False)) = Some example_sys"
    by (simp add: example_sys_def)
qed

lemma example_sized: "\<forall>req. Enqueue req \<in> set (example_events @ [Timer]) \<longrightarrow> sized req"
  by (simp add: example_events_def example_req_def sized_def ram_of_def cpu_of_def GetEstimatedMemoryBytes_def
      GetEstimatedMilliCpu_def)

theorem scheduler_within_capacity_witness:
  "sum_list (map ram_of (running example_sys)) \<le> sint (if (10 :: u64) = 0 then 0 else 10 :: u64)
    \<and> sum_list (map cpu_of (running example_sys)) \<le> sint (if (8 :: u64) = 0 then 0 else 8 :: u64)
    \<and> sint (ramBytesUsed (sched example_sys)) = sum_list (map ram_of (running example_sys))
    \<and> sint (cpuMillisUsed (sched example_sys)) = sum_list (map cpu_of (running example_sys))
    \<and> card (activeTaskCancelFuncs (sched example_sys)) = length (running example_sys)
    \<and> (if False then length (running example_sys) \<le> 1 else True)"
  by (rule scheduler_within_capacity [OF example_runs]) (use example_sized in simp_all)

theorem scheduler_conserves_witness:
  "mset (enqueued example_events) = mset (GetQueuedTaskReservations (sched example_sys)) + mset (running example_sys) + mset (ended example_sys)
    \<and> taskQueue_Len (q (sched example_sys)) = int (length (GetQueuedTaskReservations (sched example_sys)))"
  by (rule scheduler_conserves [OF example_runs])

theorem shutdown_starts_nothing_witness:
  "\<exists>s1 s'. shuttingDown (sched s') \<and> set (goroutines s') \<subseteq> set (goroutines example_sys) \<and> mset (queued example_sys) \<subseteq># mset (queued s')"
proof -
  have "\<exists>s1. sys_step ShutdownSignal example_sys = Some s1" by simp
  then obtain s1 where s1: "sys_step ShutdownSignal example_sys = Some s1" ..
  have "\<exists>s'. exec [Timer, Timer] s1 = Some s'" by simp
  then obtain s' where "exec [Timer, Timer] s1 = Some s'" ..
  from shutdown_starts_nothing [OF example_runs s1 runs_exec [OF this]] show ?thesis by blast
qed

theorem oversized_head_blocks_witness:
  "\<exists>s'. runs example_sys [Timer] s' \<and> taskQueue_Peek (q (sched s')) = Some (example_req ''a2'' ''A'' 99)
    \<and> set (goroutines s') \<subseteq> set (goroutines example_sys)"
proof -
  have "\<exists>s'. exec [Timer] example_sys = Some s'" by simp
  then obtain s' where "exec [Timer] example_sys = Some s'" ..
  then have r: "runs example_sys [Timer] s'" by (rule runs_exec)
  have "taskQueue_Peek (q (sched example_sys)) = Some (example_req ''a2'' ''A'' 99)" by code_simp
  from oversized_head_blocks [OF example_runs example_sized _ _ this _ r] r show ?thesis
    by (auto simp: ram_of_def example_req_def GetEstimatedMemoryBytes_def)
qed

end
