(* ===== verification/Lru.thy ===== *)
theory Lru
  imports GoList "HOL-Library.Multiset"
begin

text \<open>
  \<^verbatim>\<open>server/util/lru/lru.go\<close>: the size-bounded least-recently-used map under the memory cache and several
  others. Entries sit in a \<^verbatim>\<open>container/list\<close>, most recent first, and are found through buckets
  of list elements, addressed by one hash of the key and told apart by a second.

  The two hash functions belong to other packages and are parameters (\<open>hashes\<close>). Sizes are
  integers: a sum of sizes is at most the maximal size plus one entry's. The eviction
  callback is an arbitrary client function; the model records the values it is called with.
\<close>

section \<open>The code\<close>

record hashes =
  MemHash :: "bytes \<Rightarrow> u64"
  Sum64 :: "bytes \<Rightarrow> u64"

record 'v Entry =
  key :: u64
  conflictKey :: u64
  entry_value :: 'v

record 'v LRU =
  sizeFn :: "'v \<Rightarrow> int"
  evictList :: "'v Entry golist"
  items :: "u64 \<rightharpoonup> nat list"
  onEvict :: bool
  maxSize :: int
  currentSize :: int
  callbacks :: "'v list"

text \<open>\<open>NewLRU\<close>; the absent size function is \<open>None\<close>.\<close>

definition NewLRU :: "('v \<Rightarrow> int) option \<Rightarrow> bool \<Rightarrow> int \<Rightarrow> error + 'v LRU" where
  "NewLRU size_fn on_evict max_size =
     (if max_size \<le> 0 then Inl (Err Unknown ''must provide a positive size'')
      else
        case size_fn of
          None \<Rightarrow> Inl (Err InvalidArgument ''SizeFn is required'')
        | Some f \<Rightarrow> Inr \<lparr>sizeFn = f, evictList = gl_New, items = Map.empty, onEvict = on_evict,
            maxSize = max_size, currentSize = 0, callbacks = []\<rparr>)"

text \<open>A key is a Go \<^verbatim>\<open>interface{}\<close>: a string or a byte slice, else it cannot be hashed.\<close>

datatype lru_key = NilKey | StringKey bytes | BytesKey bytes | OtherKey

definition keyHash :: "hashes \<Rightarrow> lru_key \<Rightarrow> (u64 \<times> u64) option" where
  "keyHash hs k =
     (case k of
        NilKey \<Rightarrow> None
      | StringKey s \<Rightarrow> Some (MemHash hs s, Sum64 hs s)
      | BytesKey s \<Rightarrow> Some (MemHash hs s, Sum64 hs s)
      | OtherKey \<Rightarrow> None)"

definition has_conflictKey :: "(nat \<Rightarrow> 'v Entry option) \<Rightarrow> u64 \<Rightarrow> nat \<Rightarrow> bool" where
  "has_conflictKey vals ck ent = (case vals ent of None \<Rightarrow> False | Some kv \<Rightarrow> conflictKey kv = ck)"

definition lookupItem :: "u64 \<Rightarrow> u64 \<Rightarrow> 'v LRU \<Rightarrow> nat option" where
  "lookupItem pk ck c =
     (case items c pk of
        None \<Rightarrow> None
      | Some entries \<Rightarrow> find (has_conflictKey (gl_Value (evictList c)) ck) entries)"

definition addItem :: "u64 \<Rightarrow> u64 \<Rightarrow> 'v \<Rightarrow> bool \<Rightarrow> 'v LRU \<Rightarrow> 'v LRU" where
  "addItem pk ck v front c =
     (let kv = \<lparr>key = pk, conflictKey = ck, entry_value = v\<rparr>;
          (element, l) = (if front then gl_PushFront kv (evictList c) else gl_PushBack kv (evictList c));
          entries = (case items c pk of None \<Rightarrow> [] | Some es \<Rightarrow> es) in
      c\<lparr>evictList := l, items := (items c)(pk \<mapsto> entries @ [element]), currentSize := currentSize c + sizeFn c v\<rparr>)"

text \<open>The index of the first entry of a bucket with this conflict key; the last entry takes its place.\<close>

fun delete_index :: "(nat \<Rightarrow> 'v Entry option) \<Rightarrow> u64 \<Rightarrow> nat \<Rightarrow> nat list \<Rightarrow> nat option" where
  "delete_index vals ck i [] = None"
| "delete_index vals ck i (ent # es) =
     (if has_conflictKey vals ck ent then Some i else delete_index vals ck (Suc i) es)"

text \<open>\<open>vals\<close> are the values of the elements; unlinking an element, which comes first, keeps its value.\<close>

definition removeItem :: "(nat \<Rightarrow> 'v Entry option) \<Rightarrow> u64 \<Rightarrow> u64 \<Rightarrow> 'v LRU \<Rightarrow> 'v LRU" where
  "removeItem vals pk ck c =
     (case items c pk of
        None \<Rightarrow> c
      | Some entries \<Rightarrow>
          if length entries = 0 then c\<lparr>items := (items c)(pk \<mapsto> [])\<rparr>
          else
            (case delete_index vals ck 0 entries of
               None \<Rightarrow> c
             | Some i \<Rightarrow> c\<lparr>items := (items c)(pk \<mapsto> butlast (entries[i := last entries]))\<rparr>))"

definition removeElement :: "nat \<Rightarrow> 'v LRU \<Rightarrow> 'v LRU" where
  "removeElement e c =
     (case gl_Value (evictList c) e of
        None \<Rightarrow> c
      | Some kv \<Rightarrow>
          let c1 = c\<lparr>evictList := gl_Remove e (evictList c)\<rparr>;
              c2 = removeItem (gl_Value (evictList c)) (key kv) (conflictKey kv) c1;
              c3 = c2\<lparr>currentSize := currentSize c2 - sizeFn c2 (entry_value kv)\<rparr> in
          if onEvict c3 then c3\<lparr>callbacks := callbacks c3 @ [entry_value kv]\<rparr> else c3)"

definition removeOldest :: "'v LRU \<Rightarrow> 'v LRU" where
  "removeOldest c = (case gl_Back (evictList c) of None \<Rightarrow> c | Some ent \<Rightarrow> removeElement ent c)"

text \<open>The loop \<^verbatim>\<open>for c.currentSize > c.maxSize\<close>: \<open>None\<close> if it never ends.\<close>

partial_function (option) evict_loop :: "'v LRU \<Rightarrow> 'v LRU option" where
  "evict_loop c = (if currentSize c > maxSize c then evict_loop (removeOldest c) else Some c)"

definition LRU_Add :: "hashes \<Rightarrow> lru_key \<Rightarrow> 'v \<Rightarrow> 'v LRU \<Rightarrow> (bool \<times> 'v LRU) option" where
  "LRU_Add hs k v c =
     (case keyHash hs k of
        None \<Rightarrow> Some (False, c)
      | Some (pk, ck) \<Rightarrow>
          (case lookupItem pk ck c of
             Some ent \<Rightarrow>
               let l = gl_MoveToFront ent (evictList c) in
               Some (True, c\<lparr>evictList := (case gl_Value l ent of
                 None \<Rightarrow> l | Some kv \<Rightarrow> gl_set ent (kv\<lparr>entry_value := v\<rparr>) l)\<rparr>)
           | None \<Rightarrow> map_option (Pair True) (evict_loop (addItem pk ck v True c))))"

definition LRU_PushBack :: "hashes \<Rightarrow> lru_key \<Rightarrow> 'v \<Rightarrow> 'v LRU \<Rightarrow> bool \<times> 'v LRU" where
  "LRU_PushBack hs k v c =
     (case keyHash hs k of
        None \<Rightarrow> (False, c)
      | Some (pk, ck) \<Rightarrow>
          (case lookupItem pk ck c of
             Some ent \<Rightarrow>
               (True, c\<lparr>evictList := (case gl_Value (evictList c) ent of
                 None \<Rightarrow> evictList c | Some kv \<Rightarrow> gl_set ent (kv\<lparr>entry_value := v\<rparr>) (evictList c))\<rparr>)
           | None \<Rightarrow>
               let c' = addItem pk ck v False c in
               if currentSize c' > maxSize c' then (False, removeOldest c') else (True, c')))"

definition LRU_Get :: "hashes \<Rightarrow> lru_key \<Rightarrow> 'v LRU \<Rightarrow> 'v option \<times> 'v LRU" where
  "LRU_Get hs k c =
     (case keyHash hs k of
        None \<Rightarrow> (None, c)
      | Some (pk, ck) \<Rightarrow>
          (case lookupItem pk ck c of
             None \<Rightarrow> (None, c)
           | Some ent \<Rightarrow>
               let c' = c\<lparr>evictList := gl_MoveToFront ent (evictList c)\<rparr> in
               (map_option entry_value (gl_Value (evictList c') ent), c')))"

definition LRU_Contains :: "hashes \<Rightarrow> lru_key \<Rightarrow> 'v LRU \<Rightarrow> bool \<times> 'v LRU" where
  "LRU_Contains hs k c =
     (case keyHash hs k of
        None \<Rightarrow> (False, c)
      | Some (pk, ck) \<Rightarrow>
          (case lookupItem pk ck c of
             None \<Rightarrow> (False, c)
           | Some ent \<Rightarrow>
               let c' = c\<lparr>evictList := gl_MoveToFront ent (evictList c)\<rparr> in
               (gl_Value (evictList c') ent \<noteq> None, c')))"

definition LRU_Peek :: "hashes \<Rightarrow> lru_key \<Rightarrow> 'v LRU \<Rightarrow> 'v option" where
  "LRU_Peek hs k c =
     (case keyHash hs k of
        None \<Rightarrow> None
      | Some (pk, ck) \<Rightarrow>
          (case lookupItem pk ck c of
             None \<Rightarrow> None
           | Some ent \<Rightarrow> map_option entry_value (gl_Value (evictList c) ent)))"

definition LRU_Remove :: "hashes \<Rightarrow> lru_key \<Rightarrow> 'v LRU \<Rightarrow> bool \<times> 'v LRU" where
  "LRU_Remove hs k c =
     (case keyHash hs k of
        None \<Rightarrow> (False, c)
      | Some (pk, ck) \<Rightarrow>
          (case lookupItem pk ck c of None \<Rightarrow> (False, c) | Some ent \<Rightarrow> (True, removeElement ent c)))"

definition LRU_RemoveOldest :: "'v LRU \<Rightarrow> 'v option \<times> 'v LRU" where
  "LRU_RemoveOldest c =
     (case gl_Back (evictList c) of
        None \<Rightarrow> (None, c)
      | Some ent \<Rightarrow> (map_option entry_value (gl_Value (evictList c) ent), removeElement ent c))"

definition LRU_Len :: "'v LRU \<Rightarrow> nat" where
  "LRU_Len c = gl_Len (evictList c)"

definition LRU_Size :: "'v LRU \<Rightarrow> int" where
  "LRU_Size c = currentSize c"

definition LRU_MaxSize :: "'v LRU \<Rightarrow> int" where
  "LRU_MaxSize c = maxSize c"

text \<open>
  \<open>Purge\<close>, with the order in which Go happens to enumerate the map (\<open>order\<close>, the keys of \<open>items\<close>): the
  callbacks run bucket by bucket, the list is emptied, and \<open>currentSize\<close> stays as it is.
\<close>

definition LRU_Purge :: "u64 list \<Rightarrow> 'v LRU \<Rightarrow> 'v LRU" where
  "LRU_Purge order c =
     (let evicted = concat (map (\<lambda>k. case items c k of None \<Rightarrow> []
            | Some vals \<Rightarrow> concat (map (\<lambda>e. case gl_Value (evictList c) e of None \<Rightarrow> [] | Some kv \<Rightarrow> [entry_value kv]) vals)) order) in
      c\<lparr>items := (\<lambda>k. if k \<in> set order then None else items c k),
        evictList := (evictList c)\<lparr>els := []\<rparr>,
        callbacks := (if onEvict c then callbacks c @ evicted else callbacks c)\<rparr>)"

section \<open>The abstract cache and the invariant\<close>

text \<open>
  Abstractly the cache is the list of its entries, most recent first, under pairs of
  hashes. The invariant: the buckets index exactly the linked elements, and no pair of hashes occurs twice.
\<close>

definition lru_abs :: "'v LRU \<Rightarrow> ((u64 \<times> u64) \<times> 'v) list" where
  "lru_abs c = map (\<lambda>x. ((key (snd x), conflictKey (snd x)), entry_value (snd x))) (els (evictList c))"

definition entry_ids :: "'v LRU \<Rightarrow> (nat \<times> u64 \<times> u64) list" where
  "entry_ids c = map (\<lambda>x. (fst x, key (snd x), conflictKey (snd x))) (els (evictList c))"

definition bucket :: "'v LRU \<Rightarrow> u64 \<Rightarrow> nat list" where
  "bucket c pk = (case items c pk of None \<Rightarrow> [] | Some es \<Rightarrow> es)"

definition lru_inv :: "'v LRU \<Rightarrow> bool" where
  "lru_inv c \<longleftrightarrow> wf_gl (evictList c) \<and> distinct (map snd (entry_ids c))
     \<and> (\<forall>pk. distinct (bucket c pk) \<and> set (bucket c pk) = {e. \<exists>ck. (e, pk, ck) \<in> set (entry_ids c)})"

definition used :: "'v LRU \<Rightarrow> int" where
  "used c = sum_list (map (sizeFn c \<circ> snd) (lru_abs c))"

text \<open>The bytes the size counter is off by.\<close>

definition drift :: "'v LRU \<Rightarrow> int" where
  "drift c = currentSize c - used c"

definition sizes_nonneg :: "'v LRU \<Rightarrow> bool" where
  "sizes_nonneg c \<longleftrightarrow> (\<forall>x\<in>set (lru_abs c). 0 \<le> sizeFn c (snd x))"

lemma keys_entry_ids: "map fst (lru_abs c) = map snd (entry_ids c)"
  by (simp add: lru_abs_def entry_ids_def)

lemma gl_Value_member: "wf_gl l \<Longrightarrow> (e, v) \<in> set (els l) \<Longrightarrow> gl_Value l e = Some v"
  by (simp add: gl_Value_def wf_gl_def)

lemma lru_inv_perm:
  assumes "lru_inv c" and "items c' = items c" and "wf_gl (evictList c')"
    and "mset (entry_ids c') = mset (entry_ids c)"
  shows "lru_inv c'"
proof -
  have "set (entry_ids c') = set (entry_ids c)" using assms(4) by (rule mset_eq_setD)
  moreover have "distinct (map snd (entry_ids c')) = distinct (map snd (entry_ids c))"
    by (rule mset_eq_imp_distinct_iff) (simp add: assms(4))
  ultimately show ?thesis using assms(1,2,3) by (simp add: lru_inv_def bucket_def)
qed

text \<open>What \<open>lookupItem\<close> finds.\<close>

lemma lookupItem_Some:
  assumes inv: "lru_inv c" and l: "lookupItem pk ck c = Some e"
  obtains xs v ys where "els (evictList c) = xs @ (e, \<lparr>key = pk, conflictKey = ck, entry_value = v\<rparr>) # ys"
    and "e \<notin> fst ` set xs" and "e \<notin> fst ` set ys"
proof -
  from l obtain es where es: "items c pk = Some es" "find (has_conflictKey (gl_Value (evictList c)) ck) es = Some e"
    by (auto simp: lookupItem_def split: option.splits)
  then have "e \<in> set (bucket c pk)" and ck: "has_conflictKey (gl_Value (evictList c)) ck e"
    by (auto simp: bucket_def find_Some_iff)
  with inv obtain ck' where "(e, pk, ck') \<in> set (entry_ids c)" by (auto simp: lru_inv_def)
  then obtain kv where kv: "(e, kv) \<in> set (els (evictList c))" "key kv = pk" by (auto simp: entry_ids_def)
  have wf: "wf_gl (evictList c)" using inv by (simp add: lru_inv_def)
  have "conflictKey kv = ck" using ck gl_Value_member [OF wf kv(1)] by (simp add: has_conflictKey_def)
  with kv(2) have "kv = \<lparr>key = pk, conflictKey = ck, entry_value = entry_value kv\<rparr>" by (cases kv) simp
  with wf_gl_split [OF wf kv(1)] that show thesis by metis
qed

lemma lookupItem_None:
  assumes inv: "lru_inv c"
  shows "lookupItem pk ck c = None \<longleftrightarrow> (pk, ck) \<notin> fst ` set (lru_abs c)"
proof
  assume "(pk, ck) \<notin> fst ` set (lru_abs c)"
  then show "lookupItem pk ck c = None"
    by (cases "lookupItem pk ck c") (auto elim!: lookupItem_Some [OF inv] simp: lru_abs_def)
next
  assume n: "lookupItem pk ck c = None"
  show "(pk, ck) \<notin> fst ` set (lru_abs c)"
  proof
    assume "(pk, ck) \<in> fst ` set (lru_abs c)"
    then obtain e kv where kv: "(e, kv) \<in> set (els (evictList c))" "key kv = pk" "conflictKey kv = ck"
      by (auto simp: lru_abs_def)
    then have "(e, pk, ck) \<in> set (entry_ids c)" by (force simp: entry_ids_def)
    with inv have "e \<in> set (bucket c pk)" by (auto simp: lru_inv_def)
    moreover have "has_conflictKey (gl_Value (evictList c)) ck e"
      using gl_Value_member [OF _ kv(1)] inv kv(3) by (simp add: has_conflictKey_def lru_inv_def)
    ultimately show False using n by (auto simp: lookupItem_def bucket_def find_None_iff split: option.splits)
  qed
qed

lemma distinct_keys: "lru_inv c \<Longrightarrow> distinct (map fst (lru_abs c))"
  by (simp add: keys_entry_ids lru_inv_def)

section \<open>Adding and removing an entry\<close>

lemma addItem_fields [simp]:
  "sizeFn (addItem pk ck v front c) = sizeFn c" "maxSize (addItem pk ck v front c) = maxSize c"
  "onEvict (addItem pk ck v front c) = onEvict c" "callbacks (addItem pk ck v front c) = callbacks c"
  by (simp_all add: addItem_def Let_def split: prod.split)

lemma addItem_front:
  assumes inv: "lru_inv c" and new: "(pk, ck) \<notin> fst ` set (lru_abs c)"
  shows "lru_inv (addItem pk ck v front c)"
    and "lru_abs (addItem pk ck v front c) = (if front then ((pk, ck), v) # lru_abs c else lru_abs c @ [((pk, ck), v)])"
    and "currentSize (addItem pk ck v front c) = currentSize c + sizeFn c v"
    and "drift (addItem pk ck v front c) = drift c"
proof -
  let ?c = "addItem pk ck v front c"
  show abs: "lru_abs ?c = (if front then ((pk, ck), v) # lru_abs c else lru_abs c @ [((pk, ck), v)])"
    by (simp add: lru_abs_def addItem_def gl_PushFront_def gl_PushBack_def)
  show "currentSize ?c = currentSize c + sizeFn c v"
    by (simp add: addItem_def Let_def split: prod.split)
  then show "drift ?c = drift c"
    using abs by (auto simp: drift_def used_def addItem_def split: prod.splits)
  have ids: "entry_ids ?c = (if front then (fresh (evictList c), pk, ck) # entry_ids c else entry_ids c @ [(fresh (evictList c), pk, ck)])"
    by (simp add: entry_ids_def addItem_def gl_PushFront_def gl_PushBack_def)
  have wf: "wf_gl (evictList c)" using inv by (simp add: lru_inv_def)
  have fr: "(fresh (evictList c), k) \<notin> set (entry_ids c)" for k
    using wf_gl_fresh(2) [OF wf] by (force simp: entry_ids_def)
  have new': "(pk, ck) \<notin> snd ` set (entry_ids c)"
    using new keys_entry_ids [of c] by (metis set_map)
  have wf': "wf_gl (evictList ?c)"
    using wf_gl_PushFront [OF wf] wf_gl_PushBack [OF wf] by (cases front) (simp_all add: addItem_def Let_def split_beta)
  have it: "items ?c = (items c)(pk \<mapsto> bucket c pk @ [fresh (evictList c)])"
    by (cases front) (simp_all add: bucket_def addItem_def Let_def gl_PushFront_def gl_PushBack_def)
  have b: "bucket ?c p = bucket c p @ (if p = pk then [fresh (evictList c)] else [])" for p
    by (simp add: bucket_def it)
  show "lru_inv ?c"
    unfolding lru_inv_def
  proof (intro conjI allI)
    show "distinct (map snd (entry_ids ?c))" using inv new' by (auto simp: ids lru_inv_def)
    fix p
    have old: "distinct (bucket c p)" "set (bucket c p) = {e. \<exists>ck. (e, p, ck) \<in> set (entry_ids c)}"
      using inv by (simp_all add: lru_inv_def)
    then show "distinct (bucket ?c p)" using fr by (auto simp: b)
    show "set (bucket ?c p) = {e. \<exists>ck. (e, p, ck) \<in> set (entry_ids ?c)}"
      unfolding b using old(2) by (auto simp: ids)
  qed (rule wf')
qed

lemma delete_index_Some:
  "delete_index vals ck i es = Some j \<Longrightarrow> i \<le> j \<and> j - i < length es \<and> has_conflictKey vals ck (es ! (j - i))"
proof (induction es arbitrary: i)
  case (Cons ent es)
  show ?case
  proof (cases "has_conflictKey vals ck ent")
    case False
    with Cons.prems have "delete_index vals ck (Suc i) es = Some j" by simp
    from Cons.IH [OF this] show ?thesis by (auto simp: nth_Cons' Suc_diff_le)
  qed (use Cons.prems in auto)
qed simp

lemma delete_index_None: "delete_index vals ck i es = None \<longleftrightarrow> (\<forall>e\<in>set es. \<not> has_conflictKey vals ck e)"
  by (induction es arbitrary: i) auto

text \<open>Replacing an entry of a bucket by the last one and cutting the end off.\<close>

lemma replace_by_last:
  assumes "distinct xs" and "i < length xs"
  shows "distinct (butlast (xs[i := last xs]))" and "set (butlast (xs[i := last xs])) = set xs - {xs ! i}"
proof -
  obtain ys z where xs: "xs = ys @ [z]" using assms(2) by (cases xs rule: rev_cases) auto
  have z: "z \<notin> set ys" "distinct ys" using assms(1) xs by auto
  have "butlast (xs[i := last xs]) = (if i = length ys then ys else ys[i := z])"
    using assms(2) xs by (auto simp: list_update_append)
  moreover have "distinct (ys[i := z])" using z by (simp add: distinct_list_update)
  moreover have "i \<noteq> length ys \<Longrightarrow> set (ys[i := z]) = set xs - {xs ! i}"
    using assms(2) xs z set_update_distinct [of ys i z] by (auto simp: nth_append)
  moreover have "i = length ys \<Longrightarrow> set ys = set xs - {xs ! i}" using xs z by auto
  ultimately show "distinct (butlast (xs[i := last xs]))" and "set (butlast (xs[i := last xs])) = set xs - {xs ! i}"
    using z by auto
qed

lemma removeItem_fields [simp]:
  "sizeFn (removeItem vals pk ck c) = sizeFn c" "maxSize (removeItem vals pk ck c) = maxSize c"
  "onEvict (removeItem vals pk ck c) = onEvict c" "callbacks (removeItem vals pk ck c) = callbacks c"
  "evictList (removeItem vals pk ck c) = evictList c" "currentSize (removeItem vals pk ck c) = currentSize c"
  by (simp_all add: removeItem_def split: option.split)

text \<open>Removing a linked element takes its entry out of the abstract cache, wherever it is.\<close>

lemma removeElement_split:
  assumes inv: "lru_inv c" and s: "els (evictList c) = xs @ (e, kv) # ys" and ne: "e \<notin> fst ` set xs" "e \<notin> fst ` set ys"
  shows "lru_inv (removeElement e c)"
    and "els (evictList (removeElement e c)) = xs @ ys"
    and "sizeFn (removeElement e c) = sizeFn c" and "maxSize (removeElement e c) = maxSize c"
    and "onEvict (removeElement e c) = onEvict c"
    and "currentSize (removeElement e c) = currentSize c - sizeFn c (entry_value kv)"
    and "callbacks (removeElement e c) = callbacks c @ (if onEvict c then [entry_value kv] else [])"
    and "drift (removeElement e c) = drift c"
proof -
  let ?c1 = "c\<lparr>evictList := gl_Remove e (evictList c)\<rparr>"
  define vals where "vals = gl_Value (evictList c)"
  define c2 where "c2 = removeItem vals (key kv) (conflictKey kv) ?c1"
  let ?c = "removeElement e c"
  have wf: "wf_gl (evictList c)" using inv by (simp add: lru_inv_def)
  note sp = split_simps [OF s ne]
  have rem: "?c = (let c3 = c2\<lparr>currentSize := currentSize c2 - sizeFn c2 (entry_value kv)\<rparr> in
      if onEvict c3 then c3\<lparr>callbacks := callbacks c3 @ [entry_value kv]\<rparr> else c3)"
    by (simp add: removeElement_def sp(1) c2_def vals_def Let_def)
  show els: "els (evictList ?c) = xs @ ys" by (simp add: rem Let_def c2_def sp(2))
  show "sizeFn ?c = sizeFn c" "maxSize ?c = maxSize c" "onEvict ?c = onEvict c"
    "currentSize ?c = currentSize c - sizeFn c (entry_value kv)"
    "callbacks ?c = callbacks c @ (if onEvict c then [entry_value kv] else [])"
    by (simp_all add: rem Let_def c2_def)
  then show "drift ?c = drift c"
    by (simp add: drift_def used_def lru_abs_def s els)
  have ids: "entry_ids c = map (\<lambda>x. (fst x, key (snd x), conflictKey (snd x))) (xs @ (e, kv) # ys)"
    by (simp add: entry_ids_def s)
  have ids': "entry_ids ?c = map (\<lambda>x. (fst x, key (snd x), conflictKey (snd x))) (xs @ ys)"
    by (simp add: entry_ids_def els)
  have set': "set (entry_ids ?c) = set (entry_ids c) - {(e, key kv, conflictKey kv)}"
    unfolding ids ids' using ne by (auto simp: image_iff)
  have mem: "(e, key kv, conflictKey kv) \<in> set (entry_ids c)" by (simp add: ids)
  have dist: "distinct (map snd (entry_ids c))" using inv by (simp add: lru_inv_def)
  have uniq: "ck = conflictKey kv" if "(e, p, ck) \<in> set (entry_ids c)" for p ck
    using that ne unfolding ids by auto
  have old: "distinct (bucket c p)" "set (bucket c p) = {k. \<exists>ck. (k, p, ck) \<in> set (entry_ids c)}" for p
    using inv by (simp_all add: lru_inv_def)
  have hc: "has_conflictKey vals (conflictKey kv) k \<longleftrightarrow> k = e" if "k \<in> set (bucket c (key kv))" for k
  proof -
    from that old obtain ck where k: "(k, key kv, ck) \<in> set (entry_ids c)" by auto
    then obtain kv' where kv': "(k, kv') \<in> set (els (evictList c))" "key kv' = key kv" "conflictKey kv' = ck"
      by (auto simp: entry_ids_def)
    then have v: "vals k = Some kv'" unfolding vals_def using gl_Value_member [OF wf] by blast
    have "ck = conflictKey kv \<longleftrightarrow> k = e"
    proof
      assume "ck = conflictKey kv"
      with k mem dist show "k = e" by (metis eq_key_imp_eq_value snd_conv distinct_map inj_onD fst_conv)
    next
      assume "k = e"
      with uniq k show "ck = conflictKey kv" by blast
    qed
    with v kv'(3) show ?thesis by (simp add: has_conflictKey_def)
  qed
  have e_in: "e \<in> set (bucket c (key kv))" using old(2) mem by auto
  define es where "es = bucket c (key kv)"
  have it: "items c (key kv) = Some es" and ne_es: "es \<noteq> []"
    using e_in by (cases "items c (key kv)"; simp add: es_def bucket_def; auto)+
  obtain i where i: "delete_index vals (conflictKey kv) 0 es = Some i"
    using delete_index_None [of vals "conflictKey kv" 0 es] hc [OF e_in] e_in unfolding es_def by fastforce
  have il: "i < length es" and ei: "es ! i = e"
    using delete_index_Some [OF i] hc [of "es ! i"] by (auto simp: es_def)
  have "items ?c = (items c)(key kv \<mapsto> butlast (es[i := last es]))"
    by (simp add: rem Let_def c2_def removeItem_def it i ne_es)
  then have b: "bucket ?c p = (if p = key kv then butlast (es[i := last es]) else bucket c p)" for p
    by (simp add: bucket_def)
  show "lru_inv ?c"
    unfolding lru_inv_def
  proof (intro conjI allI)
    show "wf_gl (evictList ?c)" using wf_gl_Remove [OF wf] by (simp add: rem Let_def c2_def)
    show "distinct (map snd (entry_ids ?c))" using dist unfolding ids ids' by auto
    fix p
    note rl = replace_by_last [OF old(1) [of "key kv", folded es_def] il]
    show "distinct (bucket ?c p)" using old(1) rl(1) by (simp add: b)
    show "set (bucket ?c p) = {k. \<exists>ck. (k, p, ck) \<in> set (entry_ids ?c)}"
    proof (cases "p = key kv")
      case True
      then have "set (bucket ?c p) = {k. \<exists>ck. (k, p, ck) \<in> set (entry_ids c)} - {e}"
        using rl(2) ei old(2) [of "key kv"] by (simp add: b es_def)
      with True show ?thesis using uniq unfolding set' by auto
    next
      case False
      then show ?thesis using old(2) [of p] by (auto simp: b set')
    qed
  qed
qed

lemma removeOldest_snoc:
  assumes inv: "lru_inv c" and abs: "lru_abs c = us @ [(k, v)]"
  shows "lru_inv (removeOldest c)" and "lru_abs (removeOldest c) = us"
    and "sizeFn (removeOldest c) = sizeFn c" and "maxSize (removeOldest c) = maxSize c"
    and "onEvict (removeOldest c) = onEvict c" and "drift (removeOldest c) = drift c"
    and "callbacks (removeOldest c) = callbacks c @ (if onEvict c then [v] else [])"
    and "LRU_RemoveOldest c = (Some v, removeOldest c)"
proof -
  have "els (evictList c) \<noteq> []" using abs by (auto simp: lru_abs_def)
  then obtain xs e kv where s: "els (evictList c) = xs @ (e, kv) # []" by (metis rev_exhaust prod.collapse)
  have us: "us = map (\<lambda>x. ((key (snd x), conflictKey (snd x)), entry_value (snd x))) xs" and v: "v = entry_value kv"
    using abs by (simp_all add: lru_abs_def s)
  have ne: "e \<notin> fst ` set xs" "e \<notin> fst ` set []" using inv s by (auto simp: lru_inv_def wf_gl_def)
  have bk: "gl_Back (evictList c) = Some e" by (simp add: gl_Back_def s)
  then have r: "removeOldest c = removeElement e c" by (simp add: removeOldest_def)
  note re = removeElement_split [OF inv s ne]
  show "lru_inv (removeOldest c)" "sizeFn (removeOldest c) = sizeFn c" "maxSize (removeOldest c) = maxSize c"
    "onEvict (removeOldest c) = onEvict c" "drift (removeOldest c) = drift c"
    "callbacks (removeOldest c) = callbacks c @ (if onEvict c then [v] else [])"
    using re v by (simp_all add: r)
  show "lru_abs (removeOldest c) = us" by (simp add: lru_abs_def r re(2) us)
  show "LRU_RemoveOldest c = (Some v, removeOldest c)"
    by (simp add: LRU_RemoveOldest_def bk r split_simps(1) [OF s ne] v)
qed

section \<open>The eviction loop\<close>

text \<open>
  It ends, whatever the drift, provided the drift alone does not exceed the maximal size; it leaves
  the longest prefix of the entries, most recent first, that fits, and calls back the others, oldest first.
\<close>

lemma evict_loop_prefix:
  assumes "lru_inv c" and "sizes_nonneg c" and "drift c \<le> maxSize c"
  shows "\<exists>c' n. evict_loop c = Some c' \<and> lru_inv c' \<and> n \<le> length (lru_abs c) \<and> lru_abs c' = take n (lru_abs c)
    \<and> sizeFn c' = sizeFn c \<and> maxSize c' = maxSize c \<and> onEvict c' = onEvict c \<and> drift c' = drift c
    \<and> currentSize c' \<le> maxSize c'
    \<and> (n < length (lru_abs c) \<longrightarrow> maxSize c < drift c + sum_list (map (sizeFn c \<circ> snd) (take (Suc n) (lru_abs c))))
    \<and> callbacks c' = callbacks c @ (if onEvict c then map snd (rev (drop n (lru_abs c))) else [])"
  using assms
proof (induction "length (lru_abs c)" arbitrary: c)
  case 0
  then have "currentSize c \<le> maxSize c" by (simp add: drift_def used_def)
  with 0 show ?case by (subst evict_loop.simps) (auto intro!: exI [of _ c])
next
  case (Suc m)
  show ?case
  proof (cases "currentSize c \<le> maxSize c")
    case True
    with Suc.prems show ?thesis
      by (subst evict_loop.simps) (auto intro!: exI [of _ "length (lru_abs c)"])
  next
    case False
    from Suc.hyps(2) obtain us k v where abs: "lru_abs c = us @ [(k, v)]"
      by (metis length_0_conv nat.distinct(1) rev_exhaust prod.collapse)
    note ro = removeOldest_snoc [OF Suc.prems(1) abs]
    have "sizes_nonneg (removeOldest c)" using Suc.prems(2) by (simp add: sizes_nonneg_def ro abs)
    moreover have "m = length (lru_abs (removeOldest c))" "drift (removeOldest c) \<le> maxSize (removeOldest c)"
      using Suc.hyps(2) Suc.prems(3) by (simp_all add: ro(2-6) abs)
    ultimately obtain c' n where
      ih: "evict_loop (removeOldest c) = Some c'" "lru_inv c'" "n \<le> length us" "lru_abs c' = take n us"
        "sizeFn c' = sizeFn c" "maxSize c' = maxSize c" "onEvict c' = onEvict c" "drift c' = drift c"
        "currentSize c' \<le> maxSize c'"
        "n < length us \<longrightarrow> maxSize c < drift c + sum_list (map (sizeFn c \<circ> snd) (take (Suc n) us))"
        "callbacks c' = callbacks (removeOldest c) @ (if onEvict c then map snd (rev (drop n us)) else [])"
      using Suc.hyps(1) [of "removeOldest c"] ro(1) unfolding ro(2-6) by blast
    have "evict_loop c = Some c'" using False ih(1) by (subst evict_loop.simps) simp
    moreover have "maxSize c < drift c + sum_list (map (sizeFn c \<circ> snd) (take (Suc n) (lru_abs c)))"
    proof (cases "n = length us")
      case True
      with False show ?thesis by (simp add: abs) (simp add: drift_def used_def abs)
    qed (use ih(3,10) in \<open>simp add: abs\<close>)
    ultimately show ?thesis
      using ih ro(7) abs by (intro exI [of _ c'] exI [of _ n]) auto
  qed
qed

section \<open>The operations on the abstract cache\<close>

text \<open>Using an entry moves it to the front.\<close>

definition touch :: "'k \<Rightarrow> ('k \<times> 'v) list \<Rightarrow> ('k \<times> 'v) list" where
  "touch k xs = (case map_of xs k of None \<Rightarrow> xs | Some v \<Rightarrow> (k, v) # filter (\<lambda>x. fst x \<noteq> k) xs)"

lemma map_of_touch [simp]: "map_of (touch k xs) = map_of xs"
proof
  fix k'
  have "map_of (filter (\<lambda>x. fst x \<noteq> k) xs) k' = (if k' = k then None else map_of xs k')"
    by (induction xs) auto
  then show "map_of (touch k xs) k' = map_of xs k'"
    by (auto simp: touch_def split: option.split)
qed

lemma map_of_middle:
  "k \<notin> fst ` set xs \<Longrightarrow> map_of (xs @ (k, v) # ys) k = Some v"
  by (induction xs) auto

lemma distinct_middle: "distinct (map fst (xs @ (k, v) # ys)) \<Longrightarrow> k \<notin> fst ` set xs"
  by auto

lemma filter_middle:
  assumes "distinct (map fst (xs @ (k, v) # ys))"
  shows "filter (\<lambda>x. fst x \<noteq> k) (xs @ (k, v) # ys) = xs @ ys"
proof -
  have "k \<notin> fst ` set xs" "k \<notin> fst ` set ys" using assms by auto
  then have "filter (\<lambda>x. fst x \<noteq> k) xs = xs" "filter (\<lambda>x. fst x \<noteq> k) ys = ys"
    by (auto intro!: filter_True)
  then show ?thesis by simp
qed

text \<open>A found element, as seen in the abstract cache.\<close>

lemma lookup_abs:
  assumes inv: "lru_inv c" and l: "lookupItem pk ck c = Some e"
  obtains xs v ys where "els (evictList c) = xs @ (e, \<lparr>key = pk, conflictKey = ck, entry_value = v\<rparr>) # ys"
    and "e \<notin> fst ` set xs" and "e \<notin> fst ` set ys" and "map_of (lru_abs c) (pk, ck) = Some v"
    and "filter (\<lambda>x. fst x \<noteq> (pk, ck)) (lru_abs c)
      = map (\<lambda>x. ((key (snd x), conflictKey (snd x)), entry_value (snd x))) (xs @ ys)"
proof (rule lookupItem_Some [OF inv l])
  fix xs v ys
  assume s: "els (evictList c) = xs @ (e, \<lparr>key = pk, conflictKey = ck, entry_value = v\<rparr>) # ys"
    and ne: "e \<notin> fst ` set xs" "e \<notin> fst ` set ys"
  let ?f = "\<lambda>x. ((key (snd x), conflictKey (snd x)), entry_value (snd x))"
  have abs: "lru_abs c = map ?f xs @ ((pk, ck), v) # map ?f ys" by (simp add: lru_abs_def s)
  have dist: "distinct (map fst (map ?f xs @ ((pk, ck), v) # map ?f ys))" using distinct_keys [OF inv] unfolding abs .
  from distinct_middle [OF this] have "(pk, ck) \<notin> fst ` set (map ?f xs)" .
  then have "map_of (lru_abs c) (pk, ck) = Some v" unfolding abs by (rule map_of_middle)
  moreover have "filter (\<lambda>x. fst x \<noteq> (pk, ck)) (lru_abs c) = map ?f (xs @ ys)"
    unfolding abs filter_middle [OF dist] by simp
  ultimately show thesis using that s ne by blast
qed

lemma lookup_touch:
  assumes inv: "lru_inv c" and l: "lookupItem pk ck c = Some e"
  defines "c' \<equiv> c\<lparr>evictList := gl_MoveToFront e (evictList c)\<rparr>"
  shows "lru_inv c'" and "lru_abs c' = touch (pk, ck) (lru_abs c)"
    and "map_option entry_value (gl_Value (evictList c') e) = map_of (lru_abs c) (pk, ck)"
    and "map_option entry_value (gl_Value (evictList c) e) = map_of (lru_abs c) (pk, ck)"
    and "\<exists>v. map_of (lru_abs c) (pk, ck) = Some v"
proof -
  obtain xs v ys where
    s: "els (evictList c) = xs @ (e, \<lparr>key = pk, conflictKey = ck, entry_value = v\<rparr>) # ys"
      "e \<notin> fst ` set xs" "e \<notin> fst ` set ys"
    and m: "map_of (lru_abs c) (pk, ck) = Some v"
    and f: "filter (\<lambda>x. fst x \<noteq> (pk, ck)) (lru_abs c)
      = map (\<lambda>x. ((key (snd x), conflictKey (snd x)), entry_value (snd x))) (xs @ ys)"
    by (rule lookup_abs [OF inv l])
  note sp = split_simps [OF s]
  have wf: "wf_gl (evictList c)" using inv by (simp add: lru_inv_def)
  have els': "els (evictList c') = [] @ (e, \<lparr>key = pk, conflictKey = ck, entry_value = v\<rparr>) # (xs @ ys)"
    using sp(4) by (simp add: c'_def)
  have ids: "mset (entry_ids c') = mset (entry_ids c)" unfolding entry_ids_def els' s(1) by simp
  have wf': "wf_gl (evictList c')" using wf_gl_MoveToFront [OF wf] by (simp add: c'_def)
  show "lru_inv c'" by (rule lru_inv_perm [OF inv _ wf' ids]) (simp add: c'_def)
  show "lru_abs c' = touch (pk, ck) (lru_abs c)"
    using m f by (simp add: touch_def) (simp add: lru_abs_def els')
  have "gl_Value (evictList c') e = Some \<lparr>key = pk, conflictKey = ck, entry_value = v\<rparr>"
    by (rule split_simps(1) [OF els']) (use s in auto)
  then show "map_option entry_value (gl_Value (evictList c') e) = map_of (lru_abs c) (pk, ck)" using m by simp
  show "map_option entry_value (gl_Value (evictList c) e) = map_of (lru_abs c) (pk, ck)" using sp(1) m by simp
  show "\<exists>v. map_of (lru_abs c) (pk, ck) = Some v" using m by simp
qed

lemma touch_absent: "lru_inv c \<Longrightarrow> lookupItem pk ck c = None \<Longrightarrow>
    map_of (lru_abs c) (pk, ck) = None \<and> touch (pk, ck) (lru_abs c) = lru_abs c"
  using lookupItem_None [of c pk ck] map_of_eq_None_iff [of "lru_abs c" "(pk, ck)"] by (simp add: touch_def)

lemma LRU_Get_cases:
  assumes "keyHash hs k = Some (pk, ck)"
  shows "lookupItem pk ck c = None \<Longrightarrow> LRU_Get hs k c = (None, c) \<and> LRU_Contains hs k c = (False, c) \<and> LRU_Peek hs k c = None"
    and "lookupItem pk ck c = Some e \<Longrightarrow>
      (let c' = c\<lparr>evictList := gl_MoveToFront e (evictList c)\<rparr> in
       LRU_Get hs k c = (map_option entry_value (gl_Value (evictList c') e), c')
       \<and> LRU_Contains hs k c = (gl_Value (evictList c') e \<noteq> None, c')
       \<and> LRU_Peek hs k c = map_option entry_value (gl_Value (evictList c) e))"
  using assms by (simp_all add: LRU_Get_def LRU_Contains_def LRU_Peek_def Let_def)

lemma LRU_Get_abs:
  assumes inv: "lru_inv c" and k: "keyHash hs k = Some h"
  shows "fst (LRU_Get hs k c) = map_of (lru_abs c) h \<and> lru_inv (snd (LRU_Get hs k c))
    \<and> lru_abs (snd (LRU_Get hs k c)) = touch h (lru_abs c)
    \<and> (fst (LRU_Contains hs k c) \<longleftrightarrow> map_of (lru_abs c) h \<noteq> None)
    \<and> snd (LRU_Contains hs k c) = snd (LRU_Get hs k c)
    \<and> LRU_Peek hs k c = map_of (lru_abs c) h
    \<and> snd (LRU_Get hs k c) = c\<lparr>evictList := evictList (snd (LRU_Get hs k c))\<rparr>"
proof -
  obtain pk ck where h: "h = (pk, ck)" by fastforce
  note k' = k [unfolded h]
  show ?thesis
  proof (cases "lookupItem pk ck c")
    case None
    with touch_absent [OF inv None] LRU_Get_cases(1) [OF k' None] inv show ?thesis by (simp add: h)
  next
    case (Some e)
    note lt = lookup_touch [OF inv Some]
    have "gl_Value (gl_MoveToFront e (evictList c)) e \<noteq> None" using lt(3,5) by auto
    with lt LRU_Get_cases(2) [OF k' Some] show ?thesis by (simp add: Let_def h)
  qed
qed

text \<open>\<open>Add\<close>: a known key is overwritten, and the size counter is not adjusted.\<close>

lemma LRU_Add_known:
  assumes inv: "lru_inv c" and k: "keyHash hs k = Some h" and m: "map_of (lru_abs c) h = Some old"
  obtains c' where "LRU_Add hs k v c = Some (True, c')" and "lru_inv c'"
    and "lru_abs c' = (h, v) # filter (\<lambda>x. fst x \<noteq> h) (lru_abs c)"
    and "\<exists>l. c' = c\<lparr>evictList := l\<rparr>"
proof -
  obtain pk ck where h: "h = (pk, ck)" by fastforce
  from m touch_absent [OF inv, of pk ck] h obtain e where l: "lookupItem pk ck c = Some e"
    by (cases "lookupItem pk ck c") auto
  obtain xs v0 ys where
    s: "els (evictList c) = xs @ (e, \<lparr>key = pk, conflictKey = ck, entry_value = v0\<rparr>) # ys"
      "e \<notin> fst ` set xs" "e \<notin> fst ` set ys"
    and "map_of (lru_abs c) (pk, ck) = Some v0"
    and f: "filter (\<lambda>x. fst x \<noteq> (pk, ck)) (lru_abs c)
      = map (\<lambda>x. ((key (snd x), conflictKey (snd x)), entry_value (snd x))) (xs @ ys)"
    by (rule lookup_abs [OF inv l])
  define l1 where "l1 = gl_MoveToFront e (evictList c)"
  have l1: "els l1 = [] @ (e, \<lparr>key = pk, conflictKey = ck, entry_value = v0\<rparr>) # (xs @ ys)"
    using split_simps(4) [OF s] by (simp add: l1_def)
  have ne1: "e \<notin> fst ` set []" "e \<notin> fst ` set (xs @ ys)" using s by auto
  note sp1 = split_simps [OF l1 ne1]
  define c' where "c' = c\<lparr>evictList := gl_set e \<lparr>key = pk, conflictKey = ck, entry_value = v\<rparr> l1\<rparr>"
  have "LRU_Add hs k v c = Some (True, c')"
    using k h l by (simp add: LRU_Add_def Let_def l1_def [symmetric] sp1(1) c'_def)
  moreover have wf: "wf_gl (evictList c)" using inv by (simp add: lru_inv_def)
  have els': "els (evictList c') = [] @ (e, \<lparr>key = pk, conflictKey = ck, entry_value = v\<rparr>) # xs @ ys"
    using sp1(3) by (simp add: c'_def)
  have ids: "mset (entry_ids c') = mset (entry_ids c)" unfolding entry_ids_def els' s(1) by simp
  have wf': "wf_gl (evictList c')" using wf_gl_set [OF wf_gl_MoveToFront [OF wf]] by (simp add: c'_def l1_def)
  have "lru_inv c'" by (rule lru_inv_perm [OF inv _ wf' ids]) (simp add: c'_def)
  moreover have "lru_abs c' = (h, v) # filter (\<lambda>x. fst x \<noteq> h) (lru_abs c)"
    unfolding h f unfolding lru_abs_def els' by simp
  moreover have "\<exists>l. c' = c\<lparr>evictList := l\<rparr>" by (auto simp: c'_def)
  ultimately show thesis by (rule that)
qed

lemma LRU_Add_new:
  assumes inv: "lru_inv c" and k: "keyHash hs k = Some h" and m: "map_of (lru_abs c) h = None"
    and nonneg: "sizes_nonneg c" "0 \<le> sizeFn c v" and fit: "drift c \<le> maxSize c"
  obtains c' n where "LRU_Add hs k v c = Some (True, c')" and "lru_inv c'"
    and "n \<le> Suc (length (lru_abs c))" and "lru_abs c' = take n ((h, v) # lru_abs c)"
    and "sizeFn c' = sizeFn c" and "maxSize c' = maxSize c" and "drift c' = drift c" and "currentSize c' \<le> maxSize c"
    and "n < Suc (length (lru_abs c)) \<longrightarrow>
      maxSize c < drift c + sum_list (map (sizeFn c \<circ> snd) (take (Suc n) ((h, v) # lru_abs c)))"
    and "callbacks c' = callbacks c @ (if onEvict c then map snd (rev (drop n ((h, v) # lru_abs c))) else [])"
proof -
  obtain pk ck where h: "h = (pk, ck)" by fastforce
  have new: "(pk, ck) \<notin> fst ` set (lru_abs c)" using m h by (simp add: map_of_eq_None_iff)
  have l: "lookupItem pk ck c = None" using lookupItem_None [OF inv] new by simp
  note ai = addItem_front [OF inv new, of v True]
  let ?c = "addItem pk ck v True c"
  have "sizes_nonneg ?c" using nonneg ai(2) by (simp add: sizes_nonneg_def)
  moreover have "drift ?c \<le> maxSize ?c" using fit ai(4) by simp
  ultimately obtain c' n where
    "evict_loop ?c = Some c'" "lru_inv c'" "n \<le> length (lru_abs ?c)" "lru_abs c' = take n (lru_abs ?c)"
    "sizeFn c' = sizeFn ?c" "maxSize c' = maxSize ?c" "drift c' = drift ?c" "currentSize c' \<le> maxSize c'"
    "n < length (lru_abs ?c) \<longrightarrow> maxSize ?c < drift ?c + sum_list (map (sizeFn ?c \<circ> snd) (take (Suc n) (lru_abs ?c)))"
    "callbacks c' = callbacks ?c @ (if onEvict ?c then map snd (rev (drop n (lru_abs ?c))) else [])"
    using evict_loop_prefix [OF ai(1)] by blast
  with k l ai(2,4) h show thesis by (intro that [of c' n]) (simp_all add: LRU_Add_def)
qed

lemma LRU_Remove_abs:
  assumes inv: "lru_inv c" and k: "keyHash hs k = Some h"
  shows "lru_inv (snd (LRU_Remove hs k c))"
    and "lru_abs (snd (LRU_Remove hs k c)) = filter (\<lambda>x. fst x \<noteq> h) (lru_abs c)"
    and "fst (LRU_Remove hs k c) \<longleftrightarrow> map_of (lru_abs c) h \<noteq> None"
    and "sizeFn (snd (LRU_Remove hs k c)) = sizeFn c" and "maxSize (snd (LRU_Remove hs k c)) = maxSize c"
    and "drift (snd (LRU_Remove hs k c)) = drift c"
    and "\<forall>v. 0 \<le> sizeFn c v \<Longrightarrow> currentSize (snd (LRU_Remove hs k c)) \<le> currentSize c"
proof -
  obtain pk ck where h: "h = (pk, ck)" by fastforce
  have "lru_inv (snd (LRU_Remove hs k c)) \<and> lru_abs (snd (LRU_Remove hs k c)) = filter (\<lambda>x. fst x \<noteq> h) (lru_abs c)
    \<and> (fst (LRU_Remove hs k c) \<longleftrightarrow> map_of (lru_abs c) h \<noteq> None)
    \<and> sizeFn (snd (LRU_Remove hs k c)) = sizeFn c \<and> maxSize (snd (LRU_Remove hs k c)) = maxSize c
    \<and> drift (snd (LRU_Remove hs k c)) = drift c
    \<and> ((\<forall>v. 0 \<le> sizeFn c v) \<longrightarrow> currentSize (snd (LRU_Remove hs k c)) \<le> currentSize c)"
  proof (cases "lookupItem pk ck c")
    case None
    then have "filter (\<lambda>x. fst x \<noteq> h) (lru_abs c) = lru_abs c"
      using lookupItem_None [OF inv, of pk ck] h by (intro filter_other) simp
    with None k h inv touch_absent [OF inv None] show ?thesis by (simp add: LRU_Remove_def)
  next
    case (Some e)
    obtain xs v ys where s: "els (evictList c) = xs @ (e, \<lparr>key = pk, conflictKey = ck, entry_value = v\<rparr>) # ys"
        "e \<notin> fst ` set xs" "e \<notin> fst ` set ys" and m: "map_of (lru_abs c) (pk, ck) = Some v"
      and f: "filter (\<lambda>x. fst x \<noteq> (pk, ck)) (lru_abs c)
        = map (\<lambda>x. ((key (snd x), conflictKey (snd x)), entry_value (snd x))) (xs @ ys)"
      by (rule lookup_abs [OF inv Some])
    note re = removeElement_split [OF inv s]
    have "LRU_Remove hs k c = (True, removeElement e c)" using Some k h by (simp add: LRU_Remove_def)
    moreover have "lru_abs (removeElement e c) = filter (\<lambda>x. fst x \<noteq> h) (lru_abs c)"
      unfolding h f unfolding lru_abs_def re(2) ..
    ultimately show ?thesis using re m h by simp
  qed
  then show "lru_inv (snd (LRU_Remove hs k c))"
    and "lru_abs (snd (LRU_Remove hs k c)) = filter (\<lambda>x. fst x \<noteq> h) (lru_abs c)"
    and "fst (LRU_Remove hs k c) \<longleftrightarrow> map_of (lru_abs c) h \<noteq> None"
    and "sizeFn (snd (LRU_Remove hs k c)) = sizeFn c" and "maxSize (snd (LRU_Remove hs k c)) = maxSize c"
    and "drift (snd (LRU_Remove hs k c)) = drift c"
    and "\<forall>v. 0 \<le> sizeFn c v \<Longrightarrow> currentSize (snd (LRU_Remove hs k c)) \<le> currentSize c" by blast+
qed

lemma lru_inv_New [inv_intro]:
  assumes "NewLRU (Some f) ev m = Inr c"
  shows "lru_inv c" and "lru_abs c = []" and "drift c = 0" and "sizeFn c = f" and "maxSize c = m" and "0 < m"
  using assms by (auto simp: NewLRU_def lru_inv_def entry_ids_def bucket_def lru_abs_def drift_def used_def split: if_splits)

section \<open>The interface of a bounded cache\<close>

text \<open>
  What a client of \<^verbatim>\<open>interfaces.LRU\<close> relies on: an added value may be evicted at once or later, but a
  look-up never yields anything but the value last added under the key. Keys with equal hashes are the same key.
\<close>

locale bounded_cache =
  fixes binv :: "'c \<Rightarrow> bool"
    and content :: "'c \<Rightarrow> 'k \<Rightarrow> 'v option"
    and same :: "'k \<Rightarrow> 'k \<Rightarrow> bool"
    and okkey :: "'k \<Rightarrow> bool"
    and add :: "'k \<Rightarrow> 'v \<Rightarrow> 'c \<Rightarrow> (bool \<times> 'c) option"
    and get :: "'k \<Rightarrow> 'c \<Rightarrow> 'v option \<times> 'c"
    and contains :: "'k \<Rightarrow> 'c \<Rightarrow> bool \<times> 'c"
    and remove :: "'k \<Rightarrow> 'c \<Rightarrow> bool \<times> 'c"
  assumes add_law: "binv c \<Longrightarrow> okkey k \<Longrightarrow> \<exists>c'. add k v c = Some (True, c') \<and> binv c' \<and>
      (\<forall>k' w. okkey k' \<longrightarrow> content c' k' = Some w \<longrightarrow> (if same k k' then w = v else content c k' = Some w))"
    and get_law: "binv c \<Longrightarrow> okkey k \<Longrightarrow> fst (get k c) = content c k \<and> binv (snd (get k c)) \<and> content (snd (get k c)) = content c"
    and contains_law: "binv c \<Longrightarrow> okkey k \<Longrightarrow> fst (contains k c) = (content c k \<noteq> None) \<and> snd (contains k c) = snd (get k c)"
    and remove_law: "binv c \<Longrightarrow> okkey k \<Longrightarrow> binv (snd (remove k c)) \<and>
      (\<forall>k'. okkey k' \<longrightarrow> content (snd (remove k c)) k' = (if same k k' then None else content c k'))"
    and same_refl: "same k k"
begin

lemma get_after_add:
  assumes "binv c" and "okkey k"
  shows "\<exists>c'. add k v c = Some (True, c') \<and> binv c' \<and> fst (get k c') \<in> {None, Some v}"
proof -
  obtain c' where c': "add k v c = Some (True, c')" "binv c'"
      "\<And>k' w. okkey k' \<Longrightarrow> content c' k' = Some w \<Longrightarrow> (if same k k' then w = v else content c k' = Some w)"
    using add_law [OF assms, of v] by blast
  moreover have "fst (get k c') = content c' k" using get_law [OF c'(2) assms(2)] by simp
  ultimately show ?thesis using assms(2) same_refl [of k] by (cases "content c' k") auto
qed

lemma get_after_remove:
  assumes "binv c" and "okkey k"
  shows "fst (get k (snd (remove k c))) = None"
proof -
  note r = remove_law [OF assms]
  then have "fst (get k (snd (remove k c))) = content (snd (remove k c)) k"
    using get_law assms(2) by blast
  also have "\<dots> = None" using r assms(2) same_refl by simp
  finally show ?thesis .
qed

end

text \<open>The LRU cache provides it, if its size function is not negative.\<close>

definition lru_ok :: "'v LRU \<Rightarrow> bool" where
  "lru_ok c \<longleftrightarrow> lru_inv c \<and> (\<forall>v. 0 \<le> sizeFn c v) \<and> currentSize c \<le> maxSize c"

definition lru_content :: "hashes \<Rightarrow> 'v LRU \<Rightarrow> lru_key \<Rightarrow> 'v option" where
  "lru_content hs c k = Option.bind (keyHash hs k) (map_of (lru_abs c))"

lemma lru_ok_drift: "lru_ok c \<Longrightarrow> drift c \<le> maxSize c" "lru_ok c \<Longrightarrow> sizes_nonneg c"
proof -
  assume ok: "lru_ok c"
  then have "0 \<le> used c" unfolding used_def by (intro sum_list_nonneg) (auto simp: lru_ok_def)
  with ok show "drift c \<le> maxSize c" by (simp add: lru_ok_def drift_def)
  from ok show "sizes_nonneg c" by (simp add: lru_ok_def sizes_nonneg_def)
qed

lemma map_of_take_Some: "distinct (map fst xs) \<Longrightarrow> map_of (take n xs) k = Some v \<Longrightarrow> map_of xs k = Some v"
  by (metis append_take_drop_id map_add_Some_iff map_of_SomeD map_of_append map_of_is_SomeI in_set_takeD)

lemma map_of_filter_ne: "map_of (filter (\<lambda>x. fst x \<noteq> k) xs) k' = (if k' = k then None else map_of xs k')"
  by (induction xs) auto

lemma lru_ok_Add:
  assumes ok: "lru_ok c" and k: "keyHash hs k = Some h"
  shows "\<exists>c'. LRU_Add hs k v c = Some (True, c') \<and> lru_ok c'
    \<and> (\<forall>h' w. map_of (lru_abs c') h' = Some w \<longrightarrow> (if h' = h then w = v else map_of (lru_abs c) h' = Some w))"
proof (cases "map_of (lru_abs c) h")
  case (Some old)
  have inv: "lru_inv c" using ok by (simp add: lru_ok_def)
  obtain c' where "LRU_Add hs k v c = Some (True, c')" "lru_inv c'"
      "lru_abs c' = (h, v) # filter (\<lambda>x. fst x \<noteq> h) (lru_abs c)" "\<exists>l. c' = c\<lparr>evictList := l\<rparr>"
    by (rule LRU_Add_known [OF inv k Some])
  moreover from this have "lru_ok c'" using ok by (auto simp: lru_ok_def)
  ultimately show ?thesis by (intro exI [of _ c']) (auto simp: map_of_filter_ne split: if_splits)
next
  case None
  have inv: "lru_inv c" and nn: "0 \<le> sizeFn c v" using ok by (simp_all add: lru_ok_def)
  obtain c' n where c': "LRU_Add hs k v c = Some (True, c')" "lru_inv c'"
      "lru_abs c' = take n ((h, v) # lru_abs c)" "sizeFn c' = sizeFn c" "maxSize c' = maxSize c"
      "currentSize c' \<le> maxSize c"
    by (rule LRU_Add_new [OF inv k None lru_ok_drift(2) [OF ok] nn lru_ok_drift(1) [OF ok]])
  have "distinct (map fst ((h, v) # lru_abs c))"
    using distinct_keys [OF inv] None by (simp add: map_of_eq_None_iff)
  then have "map_of (lru_abs c') h' = Some w \<Longrightarrow> map_of ((h, v) # lru_abs c) h' = Some w" for h' w
    unfolding c'(3) by (rule map_of_take_Some)
  moreover have "lru_ok c'" using c' ok by (simp add: lru_ok_def)
  ultimately show ?thesis using c'(1) by (intro exI [of _ c']) (force split: if_splits)
qed

interpretation lru: bounded_cache lru_ok "lru_content hs" "\<lambda>k k'. keyHash hs k = keyHash hs k'"
    "\<lambda>k. keyHash hs k \<noteq> None" "LRU_Add hs" "LRU_Get hs" "LRU_Contains hs" "LRU_Remove hs" for hs
proof unfold_locales
  fix c :: "'a LRU" and k :: lru_key and v :: 'a
  assume ok: "lru_ok c" and "keyHash hs k \<noteq> None"
  then obtain h where h: "keyHash hs k = Some h" by blast
  have inv: "lru_inv c" using ok by (simp add: lru_ok_def)
  obtain c' where c': "LRU_Add hs k v c = Some (True, c')" "lru_ok c'"
      "\<And>h' w. map_of (lru_abs c') h' = Some w \<Longrightarrow> (if h' = h then w = v else map_of (lru_abs c) h' = Some w)"
    using lru_ok_Add [OF ok h, of v] by blast
  show "\<exists>c'. LRU_Add hs k v c = Some (True, c') \<and> lru_ok c' \<and>
      (\<forall>k' w. keyHash hs k' \<noteq> None \<longrightarrow> lru_content hs c' k' = Some w
        \<longrightarrow> (if keyHash hs k = keyHash hs k' then w = v else lru_content hs c k' = Some w))"
  proof (intro exI [of _ c'] conjI allI impI)
    fix k' w assume "keyHash hs k' \<noteq> None" and w: "lru_content hs c' k' = Some w"
    then obtain h' where h': "keyHash hs k' = Some h'" by blast
    with w c'(3) [of h' w] h show "if keyHash hs k = keyHash hs k' then w = v else lru_content hs c k' = Some w"
      by (auto simp: lru_content_def split: if_splits)
  qed (rule c')+
  note g = LRU_Get_abs [OF inv h]
  have "lru_ok (snd (LRU_Get hs k c))"
  proof -
    have "snd (LRU_Get hs k c) = c\<lparr>evictList := evictList (snd (LRU_Get hs k c))\<rparr>" using g by blast
    then have "sizeFn (snd (LRU_Get hs k c)) = sizeFn c" "maxSize (snd (LRU_Get hs k c)) = maxSize c"
      "currentSize (snd (LRU_Get hs k c)) = currentSize c" by (metis LRU.select_convs LRU.surjective LRU.update_convs(2))+
    with g ok show ?thesis by (simp add: lru_ok_def)
  qed
  with g h show "fst (LRU_Get hs k c) = lru_content hs c k \<and> lru_ok (snd (LRU_Get hs k c))
      \<and> lru_content hs (snd (LRU_Get hs k c)) = lru_content hs c"
    by (simp add: lru_content_def fun_eq_iff)
  from g h show "fst (LRU_Contains hs k c) = (lru_content hs c k \<noteq> None) \<and> snd (LRU_Contains hs k c) = snd (LRU_Get hs k c)"
    by (simp add: lru_content_def)
  note r = LRU_Remove_abs [OF inv h]
  have "currentSize (snd (LRU_Remove hs k c)) \<le> maxSize c"
    using r(7) ok by (fastforce simp: lru_ok_def)
  then show "lru_ok (snd (LRU_Remove hs k c)) \<and> (\<forall>k'. keyHash hs k' \<noteq> None \<longrightarrow>
      lru_content hs (snd (LRU_Remove hs k c)) k' = (if keyHash hs k = keyHash hs k' then None else lru_content hs c k'))"
    using r ok h by (auto simp: lru_ok_def lru_content_def map_of_filter_ne)
qed simp

lemma mset_concat_map_mset: "mset xs = mset ys \<Longrightarrow> mset (concat (map f xs)) = mset (concat (map f ys))"
  by (metis mset_concat mset_map sum_mset_sum_list image_mset.compositionality)

lemma buckets_enumerate:
  assumes inv: "lru_inv c" and order: "distinct order" "set order = dom (items c)"
  shows "mset (concat (map (bucket c) order)) = mset (map fst (els (evictList c)))"
proof -
  have s: "set (bucket c p) = {e. \<exists>ck. (e, p, ck) \<in> set (entry_ids c)}" "distinct (bucket c p)" for p
    using inv by (simp_all add: lru_inv_def)
  have de: "distinct (map fst (els (evictList c)))" using inv by (simp add: lru_inv_def wf_gl_def)
  have "distinct (concat (map (bucket c) order))"
  proof -
    have dj: "set (bucket c p) \<inter> set (bucket c p') = {}" if "p \<noteq> p'" for p p'
      using that de unfolding s by (auto simp: entry_ids_def dest: eq_key_imp_eq_value)
    have "distinct ps \<Longrightarrow> distinct (concat (map (bucket c) ps))" for ps
    proof (induction ps)
      case (Cons p ps)
      have "set (bucket c p) \<inter> set (bucket c p') = {}" if "p' \<in> set ps" for p'
        by (rule dj) (use that Cons.prems in auto)
      then have "set (bucket c p) \<inter> set (concat (map (bucket c) ps)) = {}" by auto
      with Cons s(2) show ?case by simp
    qed simp
    then show ?thesis using order(1) .
  qed
  moreover have "set (concat (map (bucket c) order)) = set (map fst (els (evictList c)))"
  proof -
    have "e \<in> set (bucket c p) \<Longrightarrow> p \<in> set order" for e p
      using order(2) by (auto simp: bucket_def split: option.splits)
    then have "set (concat (map (bucket c) order)) = {e. \<exists>p. e \<in> set (bucket c p)}" by auto
    also have "\<dots> = fst ` set (entry_ids c)" unfolding s by force
    also have "\<dots> = set (map fst (els (evictList c)))" by (simp add: entry_ids_def image_image)
    finally show ?thesis .
  qed
  ultimately show ?thesis using de by (simp only: set_eq_iff_mset_eq_distinct)
qed

section \<open>Properties\<close>

text \<open>\<open>Add\<close> of a new key terminates, puts the entry in front and evicts exactly the oldest
  entries that do not fit: what remains is the longest prefix, most recent first, within the maximal size (the accounting error
  included), the rest is passed to the callback, oldest first, and the size counter ends within the maximum.\<close>

theorem LRU_Add_evicts:
  assumes "lru_ok c" and "keyHash hs k = Some h" and "map_of (lru_abs c) h = None"
  shows "\<exists>c' n. LRU_Add hs k v c = Some (True, c') \<and> lru_ok c' \<and> n \<le> Suc (length (lru_abs c))
    \<and> lru_abs c' = take n ((h, v) # lru_abs c) \<and> drift c' = drift c \<and> LRU_Size c' \<le> LRU_MaxSize c
    \<and> (n < Suc (length (lru_abs c)) \<longrightarrow>
        LRU_MaxSize c < drift c + sum_list (map (sizeFn c \<circ> snd) (take (Suc n) ((h, v) # lru_abs c))))
    \<and> callbacks c' = callbacks c @ (if onEvict c then map snd (rev (drop n ((h, v) # lru_abs c))) else [])"
proof -
  have inv: "lru_inv c" and nn: "0 \<le> sizeFn c v" using assms(1) by (simp_all add: lru_ok_def)
  obtain c' n where *: "LRU_Add hs k v c = Some (True, c')" "lru_inv c'"
    "n \<le> Suc (length (lru_abs c))" "lru_abs c' = take n ((h, v) # lru_abs c)"
    "sizeFn c' = sizeFn c" "maxSize c' = maxSize c" "drift c' = drift c" "currentSize c' \<le> maxSize c"
    "n < Suc (length (lru_abs c)) \<longrightarrow>
      maxSize c < drift c + sum_list (map (sizeFn c \<circ> snd) (take (Suc n) ((h, v) # lru_abs c)))"
    "callbacks c' = callbacks c @ (if onEvict c then map snd (rev (drop n ((h, v) # lru_abs c))) else [])"
    by (rule LRU_Add_new [OF inv assms(2,3) lru_ok_drift(2) [OF assms(1)] nn lru_ok_drift(1) [OF assms(1)]])
  moreover have "lru_ok c'" using * assms(1) by (simp add: lru_ok_def)
  ultimately show ?thesis unfolding LRU_Size_def LRU_MaxSize_def by blast
qed

text \<open>\<open>Get\<close>, \<open>Contains\<close> and \<open>Peek\<close> of a hashable key agree with the look-up in the list of entries; the first two move
  the entry to the front and change nothing else, \<open>Peek\<close> changes nothing.\<close>

theorem LRU_Get_refines:
  assumes "lru_ok c" and "keyHash hs k = Some h"
  shows "fst (LRU_Get hs k c) = map_of (lru_abs c) h \<and> lru_ok (snd (LRU_Get hs k c))
    \<and> lru_abs (snd (LRU_Get hs k c)) = touch h (lru_abs c)
    \<and> (fst (LRU_Contains hs k c) \<longleftrightarrow> map_of (lru_abs c) h \<noteq> None) \<and> snd (LRU_Contains hs k c) = snd (LRU_Get hs k c)
    \<and> LRU_Peek hs k c = map_of (lru_abs c) h"
  using LRU_Get_abs [OF _ assms(2), of c] lru.get_law [of c hs k] assms by (simp add: lru_ok_def)

text \<open>Overwriting a key leaves the size counter as it was: the bytes held change by the difference of the two sizes while
  \<open>Size\<close> does not, so a cache can hold more than its maximum and nothing is evicted.\<close>

theorem LRU_overwrite_drifts:
  assumes "lru_ok c" and "keyHash hs k = Some h" and "map_of (lru_abs c) h = Some old"
  shows "\<exists>c'. LRU_Add hs k v c = Some (True, c') \<and> lru_ok c' \<and> LRU_Size c' = LRU_Size c
    \<and> used c' = used c - sizeFn c old + sizeFn c v \<and> callbacks c' = callbacks c \<and> LRU_Len c' = LRU_Len c"
proof -
  have inv: "lru_inv c" using assms(1) by (simp add: lru_ok_def)
  obtain c' l where c': "LRU_Add hs k v c = Some (True, c')" "lru_inv c'"
      "lru_abs c' = (h, v) # filter (\<lambda>x. fst x \<noteq> h) (lru_abs c)" "c' = c\<lparr>evictList := l\<rparr>"
    using LRU_Add_known [OF inv assms(2,3), of v] by metis
  obtain xs ys where abs: "lru_abs c = xs @ (h, old) # ys"
    using map_of_SomeD [OF assms(3)] split_list by metis
  have "distinct (map fst (xs @ (h, old) # ys))" using distinct_keys [OF inv] unfolding abs .
  from filter_middle [OF this] have abs': "lru_abs c' = (h, v) # xs @ ys" using c'(3) abs by simp
  have "used c' = used c - sizeFn c old + sizeFn c v" unfolding used_def abs abs' using c'(4) by simp
  moreover have "LRU_Len c' = LRU_Len c"
    using arg_cong [OF abs', of length] arg_cong [OF abs, of length] by (simp add: LRU_Len_def gl_Len_def lru_abs_def)
  ultimately show ?thesis using c' assms(1) by (auto simp: lru_ok_def LRU_Size_def)
qed

text \<open>\<open>Purge\<close>, whatever order the map is enumerated in, empties the cache and calls back every entry once, but keeps
  the size counter: of the maximum, what had been used stays lost.\<close>

theorem LRU_Purge_keeps_size:
  assumes "lru_ok c" and "distinct order" and "set order = dom (items c)"
  shows "lru_ok (LRU_Purge order c) \<and> lru_abs (LRU_Purge order c) = [] \<and> LRU_Size (LRU_Purge order c) = LRU_Size c
    \<and> (if onEvict c then mset (callbacks (LRU_Purge order c)) = mset (callbacks c) + mset (map snd (lru_abs c)) else True)"
proof -
  have inv: "lru_inv c" using assms(1) by (simp add: lru_ok_def)
  let ?c = "LRU_Purge order c"
  have abs: "lru_abs ?c = []" "entry_ids ?c = []" by (simp_all add: LRU_Purge_def lru_abs_def entry_ids_def)
  have b: "bucket ?c p = []" for p
    using assms(3) by (auto simp: LRU_Purge_def bucket_def split: option.split)
  have "lru_ok ?c"
    using assms(1) b abs by (simp add: lru_ok_def lru_inv_def) (simp add: LRU_Purge_def wf_gl_def)
  moreover have "mset (callbacks ?c) = mset (callbacks c) + mset (map snd (lru_abs c))" if "onEvict c"
  proof -
    let ?val = "\<lambda>e. case gl_Value (evictList c) e of None \<Rightarrow> [] | Some kv \<Rightarrow> [entry_value kv]"
    have wf: "wf_gl (evictList c)" using inv by (simp add: lru_inv_def)
    have "concat (map (\<lambda>k. case items c k of None \<Rightarrow> [] | Some vals \<Rightarrow> concat (map ?val vals)) order)
        = concat (map ?val (concat (map (bucket c) order)))"
      by (induction order) (simp_all add: bucket_def split: option.split)
    moreover have "mset (concat (map ?val (concat (map (bucket c) order)))) = mset (concat (map ?val (map fst (els (evictList c)))))"
      by (rule mset_concat_map_mset [OF buckets_enumerate [OF inv assms(2,3)]])
    moreover have "concat (map ?val (map fst xs)) = map (\<lambda>x. entry_value (snd x)) xs" if "set xs \<subseteq> set (els (evictList c))" for xs
      using that gl_Value_member [OF wf] by (induction xs) auto
    ultimately show ?thesis using that by (simp add: LRU_Purge_def lru_abs_def comp_def)
  qed
  ultimately show ?thesis using abs by (simp add: LRU_Size_def) (simp add: LRU_Purge_def)
qed

section \<open>Witnesses\<close>

definition example_hashes :: hashes where
  "example_hashes = \<lparr>MemHash = (\<lambda>s. word_of_nat (sum_list (map unat s))), Sum64 = (\<lambda>s. word_of_nat (length s))\<rparr>"

definition byte_size :: "bytes \<Rightarrow> int" where
  "byte_size v = int (length v)"

definition example_lru :: "bytes LRU" where
  "example_lru = (case NewLRU (Some byte_size) True 5 of Inl _ \<Rightarrow> undefined
     | Inr c \<Rightarrow> snd (the (LRU_Add example_hashes (StringKey [2]) [7, 7] (snd (the (LRU_Add example_hashes (StringKey [1]) [8, 8] c))))))"

lemma New_lru_ok: "NewLRU (Some f) ev m = Inr c \<Longrightarrow> \<forall>v. 0 \<le> f v \<Longrightarrow> lru_ok c"
  using lru_inv_New [of f ev m c] by (auto simp: lru_ok_def drift_def used_def)

lemma add_ok: "lru_ok c \<Longrightarrow> keyHash hs k \<noteq> None \<Longrightarrow> lru_ok (snd (the (LRU_Add hs k v c)))"
  using lru.add_law [of c hs k v] by auto

lemma example_lru_ok: "lru_ok example_lru"
proof -
  obtain c where c: "NewLRU (Some byte_size) True 5 = Inr c" by (simp add: NewLRU_def)
  have "lru_ok c" by (rule New_lru_ok [OF c]) (simp add: byte_size_def)
  then show ?thesis unfolding example_lru_def c sum.case by (intro add_ok) (simp_all add: keyHash_def)
qed

lemma example_lru_eq: "example_lru = \<lparr>sizeFn = byte_size,
    evictList = \<lparr>els = [(1, \<lparr>key = 2, conflictKey = 1, entry_value = [7, 7]\<rparr>), (0, \<lparr>key = 1, conflictKey = 1, entry_value = [8, 8]\<rparr>)],
      fresh = 2\<rparr>, items = [1 \<mapsto> [0], 2 \<mapsto> [1]], onEvict = True, maxSize = 5, currentSize = 4, callbacks = []\<rparr>"
  by (simp add: example_lru_def NewLRU_def LRU_Add_def keyHash_def example_hashes_def lookupItem_def addItem_def
      gl_PushFront_def gl_New_def Let_def byte_size_def evict_loop.simps fun_upd_twist)

lemma example_lru_abs: "lru_abs example_lru = [((2, 1), [7, 7]), ((1, 1), [8, 8])]" "dom (items example_lru) = {1, 2}"
  by (auto simp: example_lru_eq lru_abs_def)

lemma example_keyHash: "keyHash example_hashes (StringKey [k]) = Some (word_of_nat (unat k), 1)"
  by (simp add: keyHash_def example_hashes_def)

theorem LRU_Add_evicts_witness:
  "\<exists>c' n. LRU_Add example_hashes (StringKey [3]) [9, 9] example_lru = Some (True, c') \<and> lru_ok c' \<and> n \<le> Suc (length (lru_abs example_lru))
    \<and> lru_abs c' = take n (((3, 1), [9, 9]) # lru_abs example_lru) \<and> drift c' = drift example_lru \<and> LRU_Size c' \<le> LRU_MaxSize example_lru
    \<and> (n < Suc (length (lru_abs example_lru)) \<longrightarrow>
        LRU_MaxSize example_lru < drift example_lru + sum_list (map (sizeFn example_lru \<circ> snd) (take (Suc n) (((3, 1), [9, 9]) # lru_abs example_lru))))
    \<and> callbacks c' = callbacks example_lru @ (if onEvict example_lru then map snd (rev (drop n (((3, 1), [9, 9]) # lru_abs example_lru))) else [])"
  by (rule LRU_Add_evicts [OF example_lru_ok]) (simp_all add: example_keyHash example_lru_abs)

theorem LRU_Get_refines_witness:
  "fst (LRU_Get example_hashes (StringKey [1]) example_lru) = map_of (lru_abs example_lru) (1, 1)
    \<and> lru_ok (snd (LRU_Get example_hashes (StringKey [1]) example_lru))
    \<and> lru_abs (snd (LRU_Get example_hashes (StringKey [1]) example_lru)) = touch (1, 1) (lru_abs example_lru)
    \<and> (fst (LRU_Contains example_hashes (StringKey [1]) example_lru) \<longleftrightarrow> map_of (lru_abs example_lru) (1, 1) \<noteq> None)
    \<and> snd (LRU_Contains example_hashes (StringKey [1]) example_lru) = snd (LRU_Get example_hashes (StringKey [1]) example_lru)
    \<and> LRU_Peek example_hashes (StringKey [1]) example_lru = map_of (lru_abs example_lru) (1, 1)"
  by (rule LRU_Get_refines [OF example_lru_ok]) (simp add: example_keyHash)

theorem LRU_overwrite_drifts_witness:
  "\<exists>c'. LRU_Add example_hashes (StringKey [1]) (replicate 9 0) example_lru = Some (True, c') \<and> lru_ok c' \<and> LRU_Size c' = LRU_Size example_lru
    \<and> used c' = used example_lru - sizeFn example_lru [8, 8] + sizeFn example_lru (replicate 9 0) \<and> callbacks c' = callbacks example_lru
    \<and> LRU_Len c' = LRU_Len example_lru"
  by (rule LRU_overwrite_drifts [OF example_lru_ok, where h = "(1, 1)"]) (simp_all add: example_keyHash example_lru_abs)

theorem LRU_Purge_keeps_size_witness:
  "lru_ok (LRU_Purge [2, 1] example_lru) \<and> lru_abs (LRU_Purge [2, 1] example_lru) = [] \<and> LRU_Size (LRU_Purge [2, 1] example_lru) = LRU_Size example_lru
    \<and> (if onEvict example_lru then mset (callbacks (LRU_Purge [2, 1] example_lru)) = mset (callbacks example_lru) + mset (map snd (lru_abs example_lru)) else True)"
  by (rule LRU_Purge_keeps_size [OF example_lru_ok]) (auto simp: example_lru_abs)

end
