(* ===== verification/Digest.thy ===== *)
theory Digest
  imports GoStrings
begin

text \<open>
  \<^verbatim>\<open>server/remote_cache/digest/digest.go\<close>: digests, their validation, and the resource names of the
  byte-stream API. The three regular expressions are written out as the matchers they denote, with
  Go's leftmost-first, greedy choice: a name's instance is everything before the last
  separator after which the rest matches. Hashing (SHA-256), random UUIDs and gRPC metadata are outside.
  Error messages are the constant format strings, without their arguments.
\<close>

section \<open>The code\<close>

text \<open>\<^verbatim>\<open>repb.Digest\<close>; the size is an \<^verbatim>\<open>int64\<close> that is only compared, printed and parsed.\<close>

record Digest =
  dHash :: string
  dSizeBytes :: int

text \<open>The getters of a message are nil-safe.\<close>

definition GetHash :: "Digest option \<Rightarrow> string" where
  "GetHash d = (case d of None \<Rightarrow> '''' | Some x \<Rightarrow> dHash x)"

definition GetSizeBytes :: "Digest option \<Rightarrow> int" where
  "GetSizeBytes d = (case d of None \<Rightarrow> 0 | Some x \<Rightarrow> dSizeBytes x)"

datatype Compressor = IDENTITY | ZSTD | OTHER_COMPRESSOR

record ResourceName =
  rnDigest :: Digest
  instanceName :: string
  compressor :: Compressor

definition NewResourceName :: "Digest \<Rightarrow> string \<Rightarrow> ResourceName" where
  "NewResourceName d inst = \<lparr>rnDigest = d, instanceName = inst, compressor = IDENTITY\<rparr>"

definition SetCompressor :: "Compressor \<Rightarrow> ResourceName \<Rightarrow> ResourceName" where
  "SetCompressor c r = r\<lparr>compressor := c\<rparr>"

definition blobTypeSegment :: "Compressor \<Rightarrow> string" where
  "blobTypeSegment c = (if c = ZSTD then ''compressed-blobs/zstd'' else ''blobs'')"

definition DownloadString :: "ResourceName \<Rightarrow> string" where
  "DownloadString r =
     (let inst = filepath_Join (filepath_SplitList (instanceName r)) in
      inst @ ''/'' @ blobTypeSegment (compressor r) @ ''/'' @ dHash (rnDigest r) @ ''/'' @ show_int (dSizeBytes (rnDigest r)))"

text \<open>The UUID is a parameter, absent if none could be generated.\<close>

definition UploadString :: "string option \<Rightarrow> ResourceName \<Rightarrow> error + string" where
  "UploadString uuid r =
     (let inst = filepath_Join (filepath_SplitList (instanceName r)) in
      case uuid of
        None \<Rightarrow> Inl (Err Unknown ''uuid'')
      | Some u \<Rightarrow> Inr (inst @ ''/uploads/'' @ u @ ''/'' @ blobTypeSegment (compressor r) @ ''/''
          @ dHash (rnDigest r) @ ''/'' @ show_int (dSizeBytes (rnDigest r))))"

text \<open>A digest as a map key.\<close>

record Key =
  kHash :: string
  kSizeBytes :: int

definition NewKey :: "Digest \<Rightarrow> Key" where
  "NewKey d = \<lparr>kHash = dHash d, kSizeBytes = dSizeBytes d\<rparr>"

definition ToDigest :: "Key \<Rightarrow> Digest" where
  "ToDigest dk = \<lparr>dHash = kHash dk, dSizeBytes = kSizeBytes dk\<rparr>"

definition EmptySha256 :: string where
  "EmptySha256 = ''e3b0c44298fc1c149afbf4c8996fb92427ae41e4649b934ca495991b7852b855''"

definition hashKeyLength :: nat where
  "hashKeyLength = 64"

definition is_hex :: "char \<Rightarrow> bool" where
  "is_hex c \<longleftrightarrow> is_digit c \<or> 97 \<le> (of_char c :: nat) \<and> (of_char c :: nat) \<le> 102"

text \<open>\<^verbatim>\<open>status.OK()\<close>, which \<open>Validate\<close> returns for the empty blob, is the nil error.\<close>

definition Validate :: "Digest option \<Rightarrow> error + string" where
  "Validate d =
     (case d of
        None \<Rightarrow> Inl (Err InvalidArgument ''Invalid (nil) Digest'')
      | Some d \<Rightarrow>
          if dSizeBytes d = 0 then
            if dHash d = EmptySha256 then Inr ''''
            else Inl (Err InvalidArgument ''Invalid (zero-length) SHA256 hash'')
          else if length (dHash d) \<noteq> hashKeyLength then
            Inl (Err InvalidArgument ''Hash length was %d, expected %d'')
          else if \<not> (length (dHash d) = 64 \<and> list_all is_hex (dHash d)) then
            Inl (Err InvalidArgument ''Malformed hash'')
          else Inr (dHash d))"

section \<open>Matching resource names\<close>

definition strip_prefix :: "string \<Rightarrow> string \<Rightarrow> string option" where
  "strip_prefix p s = (if take (length p) s = p then Some (drop (length p) s) else None)"

text \<open>\<^verbatim>\<open>(?P<hash>[a-f0-9]{64})/(?P<size>\d+)\<close>\<close>

definition match_hash_size :: "string \<Rightarrow> (string \<times> string) option" where
  "match_hash_size s =
     (let n = takeWhile is_digit (drop 65 s) in
      if length s > 65 \<and> list_all is_hex (take 64 s) \<and> s ! 64 = CHR ''/'' \<and> n \<noteq> [] then Some (take 64 s, n) else None)"

text \<open>\<^verbatim>\<open>(?P<blob_type>blobs|compressed-blobs/zstd)/\<close>, \<open>ac\<close>, and the above; \<open>ac\<close> is empty or \<^verbatim>\<open>ac/\<close>.\<close>

definition match_blob :: "string \<Rightarrow> string \<Rightarrow> (string \<times> string \<times> string) option" where
  "match_blob ac s =
     (case strip_prefix (''blobs/'' @ ac) s of
        Some r \<Rightarrow> map_option (Pair ''blobs'') (match_hash_size r)
      | None \<Rightarrow>
          (case strip_prefix (''compressed-blobs/zstd/'' @ ac) s of
             Some r \<Rightarrow> map_option (Pair ''compressed-blobs/zstd'') (match_hash_size r)
           | None \<Rightarrow> None))"

text \<open>\<^verbatim>\<open>(?:(?P<instance_name>.*)/)?\<close> and a tail: the greedy dot-star prefers the last slash that works.\<close>

definition match_instance :: "(string \<Rightarrow> 'm option) \<Rightarrow> string \<Rightarrow> (string \<times> 'm) option" where
  "match_instance tail s =
     (case find (\<lambda>i. s ! i = CHR ''/'' \<and> CHR 0x0A \<notin> set (take i s) \<and> tail (drop (Suc i) s) \<noteq> None) (rev [0..<length s]) of
        Some i \<Rightarrow> map_option (Pair (take i s)) (tail (drop (Suc i) s))
      | None \<Rightarrow> map_option (Pair '''') (tail s))"

definition match_uuid :: "string \<Rightarrow> (string \<times> string \<times> string) option" where
  "match_uuid s =
     (case strip_prefix ''uploads/'' s of
        None \<Rightarrow> None
      | Some r \<Rightarrow>
          if length r > 36 \<and> list_all (\<lambda>c. is_hex c \<or> c = CHR ''-'') (take 36 r) \<and> r ! 36 = CHR ''/''
          then match_blob '''' (drop 37 r) else None)"

definition downloadRegex :: "string \<Rightarrow> (string \<times> string \<times> string \<times> string) option" where
  "downloadRegex s = match_instance (match_blob '''') s"

definition actionCacheRegex :: "string \<Rightarrow> (string \<times> string \<times> string \<times> string) option" where
  "actionCacheRegex s = match_instance (match_blob ''ac/'') s"

definition uploadRegex :: "string \<Rightarrow> (string \<times> string \<times> string \<times> string) option" where
  "uploadRegex s =
     (case match_instance match_uuid s of
        Some m \<Rightarrow> Some m
      | None \<Rightarrow> map_option (Pair '''') (match_blob '''' s))"

definition parseResourceName :: "string \<Rightarrow> (string \<Rightarrow> (string \<times> string \<times> string \<times> string) option) \<Rightarrow> error + ResourceName" where
  "parseResourceName s matcher =
     (case matcher s of
        None \<Rightarrow> Inl (Err InvalidArgument ''Unparsable resource name: %s'')
      | Some (inst, blobTypeStr, hash, sizeStr) \<Rightarrow>
          if hash = '''' then Inl (Err InvalidArgument ''Unparsable resource name (empty hash?): %s'')
          else
            (case ParseInt sizeStr of
               None \<Rightarrow> Inl (Err Unknown ''strconv.ParseInt'')
             | Some sizeBytes \<Rightarrow>
                 let comp = (if blobTypeStr = ''compressed-blobs/zstd'' then ZSTD else IDENTITY);
                     d = \<lparr>dHash = hash, dSizeBytes = sizeBytes\<rparr> in
                 Inr (SetCompressor comp (NewResourceName d inst))))"

definition ParseUploadResourceName :: "string \<Rightarrow> error + ResourceName" where
  "ParseUploadResourceName s = parseResourceName s uploadRegex"

definition ParseDownloadResourceName :: "string \<Rightarrow> error + ResourceName" where
  "ParseDownloadResourceName s = parseResourceName s downloadRegex"

definition ParseActionCacheResourceName :: "string \<Rightarrow> error + ResourceName" where
  "ParseActionCacheResourceName s = parseResourceName s actionCacheRegex"

definition Parse :: "string \<Rightarrow> error + Digest" where
  "Parse str =
     (let dParts = splitTwo CHR ''/'' str in
      if length dParts \<noteq> 2 \<or> length (dParts ! 0) \<noteq> 64
      then Inl (Err FailedPrecondition (''Error parsing digest %q: should be of form ''
        @ [CHR 0x27] @ ''f31e59431cdc5d631853e28151fb664f859b5f4c5dc94f0695408a6d31b84724/142'' @ [CHR 0x27]))
      else
        (case ParseInt (dParts ! 1) of
           None \<Rightarrow> Inl (Err FailedPrecondition ''Error parsing digest %q: %s'')
         | Some i \<Rightarrow> Inr \<lparr>dHash = dParts ! 0, dSizeBytes = i\<rparr>))"

section \<open>Lemmas\<close>

lemma ToDigest_NewKey [simp]: "ToDigest (NewKey d) = d"
  by (simp add: ToDigest_def NewKey_def)

lemma NewKey_ToDigest [simp]: "NewKey (ToDigest k) = k"
  by (simp add: ToDigest_def NewKey_def)

lemma hex_chars: "is_hex c \<Longrightarrow> c \<noteq> CHR ''/'' \<and> c \<noteq> CHR ''l'' \<and> c \<noteq> CHR ''o'' \<and> c \<noteq> CHR ''z'' \<and> c \<noteq> CHR 0x0A"
  by (auto simp: is_hex_def is_digit_def)

lemma digit_chars: "is_digit c \<Longrightarrow> is_hex c"
  by (simp add: is_hex_def)

lemma hex_no_slash: "list_all is_hex s \<Longrightarrow> CHR ''/'' \<notin> set s"
  by (auto simp: list_all_iff dest: hex_chars)

text \<open>Where a slash can be in a concatenation.\<close>

lemma slash_suffixes_Cons:
  assumes "c \<notin> set a"
  shows "(\<forall>k<length (a @ c # b). (a @ c # b) ! k = c \<longrightarrow> Q (drop (Suc k) (a @ c # b)))
    \<longleftrightarrow> Q b \<and> (\<forall>k<length b. b ! k = c \<longrightarrow> Q (drop (Suc k) b))" (is "?l \<longleftrightarrow> ?r")
proof
  assume l: ?l
  have "Q b" using l [rule_format, of "length a"] by simp
  moreover have "Q (drop (Suc k) b)" if "k < length b" "b ! k = c" for k
    using l [rule_format, of "length a + Suc k"] that by (simp add: nth_append)
  ultimately show ?r by blast
next
  assume r: ?r
  show ?l
  proof (intro allI impI)
    fix k assume k: "k < length (a @ c # b)" "(a @ c # b) ! k = c"
    have "\<not> k < length a" using assms k by (auto simp: nth_append)
    then obtain j where j: "k = length a + j" using le_Suc_ex not_less by blast
    show "Q (drop (Suc k) (a @ c # b))"
    proof (cases j)
      case 0
      with r j show ?thesis by simp
    next
      case (Suc i)
      with j k have "i < length b" "b ! i = c" by (simp_all add: nth_append)
      with r j Suc show ?thesis by simp
    qed
  qed
qed

lemma slash_suffixes_none: "c \<notin> set b \<Longrightarrow> \<forall>k<length b. b ! k = c \<longrightarrow> Q (drop (Suc k) b)"
  by auto

lemma find_last:
  assumes "i < n" and "P i" and "\<And>j. i < j \<Longrightarrow> j < n \<Longrightarrow> \<not> P j"
  shows "find P (rev [0..<n]) = Some i"
  using assms
proof (induction n)
  case (Suc n)
  then show ?case by (cases "i = n") auto
qed simp

lemma match_instance_split:
  assumes "tail t = Some m" and "CHR 0x0A \<notin> set inst"
    and "\<forall>k<length t. t ! k = CHR ''/'' \<longrightarrow> tail (drop (Suc k) t) = None"
  shows "match_instance tail (inst @ CHR ''/'' # t) = Some (inst, m)"
proof -
  let ?s = "inst @ CHR ''/'' # t"
  have "find (\<lambda>i. ?s ! i = CHR ''/'' \<and> CHR 0x0A \<notin> set (take i ?s) \<and> tail (drop (Suc i) ?s) \<noteq> None) (rev [0..<length ?s])
      = Some (length inst)"
  proof (rule find_last)
    fix j assume j: "length inst < j" "j < length ?s"
    then obtain k where k: "j = length inst + Suc k" using less_imp_Suc_add by auto
    with j assms(3) show "\<not> (?s ! j = CHR ''/'' \<and> CHR 0x0A \<notin> set (take j ?s) \<and> tail (drop (Suc j) ?s) \<noteq> None)"
      by (simp add: nth_append)
  qed (use assms(1,2) in simp_all)
  with assms(1) show ?thesis by (simp add: match_instance_def)
qed

text \<open>The tail of a printed name: segment, hash and size.\<close>

lemma match_hash_size_printed:
  assumes "length h = 64" and "list_all is_hex h" and "list_all is_digit n" and "n \<noteq> []"
  shows "match_hash_size (h @ CHR ''/'' # n) = Some (h, n)"
  using assms by (simp add: match_hash_size_def nth_append takeWhile_eq_all_conv [THEN iffD2] list_all_iff)

lemma match_blob_printed:
  assumes "length h = 64" and "list_all is_hex h" and "list_all is_digit n" and "n \<noteq> []"
  shows "match_blob '''' (blobTypeSegment c @ CHR ''/'' # h @ CHR ''/'' # n) = Some (blobTypeSegment c, h, n)"
  using match_hash_size_printed [OF assms] by (simp add: match_blob_def blobTypeSegment_def strip_prefix_def)

lemma strip_prefix_Some: "strip_prefix p s = Some r \<Longrightarrow> s = p @ r"
  unfolding strip_prefix_def by (metis append_take_drop_id option.distinct(1) option.inject)

lemma match_blob_other:
  assumes "s \<noteq> [] \<Longrightarrow> is_digit (hd s) \<or> hd s = CHR ''z'' \<or> (tl s \<noteq> [] \<and> is_hex (hd (tl s)))"
  shows "match_blob '''' s = None"
proof (cases s)
  case Nil
  then show ?thesis by (simp add: match_blob_def strip_prefix_def)
next
  case (Cons x xs)
  show ?thesis
  proof (rule ccontr)
    assume "match_blob '''' s \<noteq> None"
    then obtain r where "s = ''blobs/'' @ r \<or> s = ''compressed-blobs/zstd/'' @ r"
      by (auto simp: match_blob_def dest!: strip_prefix_Some split: option.splits)
    then have "x = CHR ''b'' \<or> x = CHR ''c''" and "xs \<noteq> []" and "hd xs = CHR ''l'' \<or> hd xs = CHR ''o''"
      using Cons by (cases xs; auto)+
    with assms Cons hex_chars show False by (auto simp: is_digit_def)
  qed
qed

lemma hex_second:
  assumes "length h = 64" and "list_all is_hex h"
  shows "tl (h @ t) \<noteq> [] \<and> is_hex (hd (tl (h @ t)))"
proof -
  have "h \<noteq> []" and "tl h \<noteq> []" using assms(1) by (cases h; auto)+
  then show ?thesis using assms(2) by (cases h; cases "tl h") auto
qed

lemma blob_suffixes:
  fixes c :: Compressor and h n :: string
  assumes h: "length h = 64" "list_all is_hex h" and n: "list_all is_digit n"
  defines "t \<equiv> blobTypeSegment c @ CHR ''/'' # h @ CHR ''/'' # n"
  shows "\<forall>k<length t. t ! k = CHR ''/'' \<longrightarrow> match_blob '''' (drop (Suc k) t) = None"
proof -
  have hs: "CHR ''/'' \<notin> set h" by (rule hex_no_slash [OF h(2)])
  have ns: "CHR ''/'' \<notin> set n" using n by (intro hex_no_slash) (auto simp: list_all_iff digit_chars)
  have mn: "match_blob '''' n = None" using n by (intro match_blob_other) (cases n; simp)
  have mh: "match_blob '''' (h @ CHR ''/'' # n) = None" using hex_second [OF h] by (intro match_blob_other) simp
  have rest: "\<forall>k<length (h @ CHR ''/'' # n). (h @ CHR ''/'' # n) ! k = CHR ''/''
      \<longrightarrow> match_blob '''' (drop (Suc k) (h @ CHR ''/'' # n)) = None"
    unfolding slash_suffixes_Cons [OF hs, where Q = "\<lambda>s. match_blob '''' s = None"]
    using mn slash_suffixes_none [OF ns, of "\<lambda>s. match_blob '''' s = None"] by blast
  show ?thesis
  proof (cases "c = ZSTD")
    case False
    have "CHR ''/'' \<notin> set ''blobs''" by simp
    from slash_suffixes_Cons [OF this, of "h @ CHR ''/'' # n" "\<lambda>s. match_blob '''' s = None"]
    show ?thesis using False mh rest by (simp only: t_def blobTypeSegment_def if_False)
  next
    case True
    have mz: "match_blob '''' (''zstd'' @ CHR ''/'' # h @ CHR ''/'' # n) = None" by (rule match_blob_other) simp
    have 1: "CHR ''/'' \<notin> set ''compressed-blobs''" and 2: "CHR ''/'' \<notin> set ''zstd''" by simp_all
    have t: "t = ''compressed-blobs'' @ CHR ''/'' # ''zstd'' @ CHR ''/'' # h @ CHR ''/'' # n"
      using True by (simp add: t_def blobTypeSegment_def)
    from slash_suffixes_Cons [OF 1, of "''zstd'' @ CHR ''/'' # h @ CHR ''/'' # n" "\<lambda>s. match_blob '''' s = None"]
      slash_suffixes_Cons [OF 2, of "h @ CHR ''/'' # n" "\<lambda>s. match_blob '''' s = None"] mz mh rest
    show ?thesis unfolding t by blast
  qed
qed

lemma download_name:
  assumes "length (dHash (rnDigest r)) = 64" and "list_all is_hex (dHash (rnDigest r))"
    and "0 \<le> dSizeBytes (rnDigest r)" and "dSizeBytes (rnDigest r) < 2 ^ 63" and "compressor r \<noteq> OTHER_COMPRESSOR"
    and "CHR 0x0A \<notin> set (filepath_Join (filepath_SplitList (instanceName r)))"
  shows "ParseDownloadResourceName (DownloadString r)
    = Inr (r\<lparr>instanceName := filepath_Join (filepath_SplitList (instanceName r))\<rparr>)"
proof -
  let ?h = "dHash (rnDigest r)" and ?n = "show_int (dSizeBytes (rnDigest r))" and ?c = "compressor r"
    and ?inst = "filepath_Join (filepath_SplitList (instanceName r))"
  have n: "list_all is_digit ?n" "?n \<noteq> []" using assms(3) show_nat_digits by (simp_all add: show_int_def)
  have dl: "downloadRegex (DownloadString r) = Some (?inst, blobTypeSegment ?c, ?h, ?n)"
    using match_instance_split [OF match_blob_printed [OF assms(1,2) n, of ?c] assms(6) blob_suffixes [OF assms(1,2) n(1)]]
    by (simp add: downloadRegex_def DownloadString_def Let_def)
  have "?h \<noteq> []" using assms(1) by auto
  moreover have "ParseInt ?n = Some (dSizeBytes (rnDigest r))" using assms(3,4) by (intro ParseInt_show_int) simp_all
  moreover have "(if blobTypeSegment ?c = ''compressed-blobs/zstd'' then ZSTD else IDENTITY) = ?c"
    using assms(5) by (cases ?c) (simp_all add: blobTypeSegment_def)
  ultimately show ?thesis
    by (simp add: ParseDownloadResourceName_def parseResourceName_def dl Let_def SetCompressor_def NewResourceName_def)
qed

text \<open>The same for the name of an upload, with any UUID.\<close>

lemma match_uuid_other: "s \<noteq> [] \<Longrightarrow> hd s \<noteq> CHR ''u'' \<Longrightarrow> match_uuid s = None"
  by (cases s) (auto simp: match_uuid_def dest!: strip_prefix_Some split: option.splits)

lemma match_uuid_Nil: "match_uuid [] = None"
  by (simp add: match_uuid_def strip_prefix_def)

definition is_uuid :: "string \<Rightarrow> bool" where
  "is_uuid u \<longleftrightarrow> length u = 36 \<and> list_all (\<lambda>c. is_hex c \<or> c = CHR ''-'') u"

lemma hex_not_u: "is_hex c \<Longrightarrow> c \<noteq> CHR ''u''"
  by (auto simp: is_hex_def is_digit_def)

lemma blob_suffixes_uuid:
  fixes c :: Compressor and h n :: string
  assumes h: "length h = 64" "list_all is_hex h" and n: "list_all is_digit n"
  defines "t \<equiv> blobTypeSegment c @ CHR ''/'' # h @ CHR ''/'' # n"
  shows "match_uuid t = None" and "\<forall>k<length t. t ! k = CHR ''/'' \<longrightarrow> match_uuid (drop (Suc k) t) = None"
proof -
  show "match_uuid t = None" by (rule match_uuid_other) (simp_all add: t_def blobTypeSegment_def)
  have hs: "CHR ''/'' \<notin> set h" by (rule hex_no_slash [OF h(2)])
  have ns: "CHR ''/'' \<notin> set n" using n by (intro hex_no_slash) (auto simp: list_all_iff digit_chars)
  have mn: "match_uuid n = None"
    using n digit_chars hex_not_u by (cases n) (auto intro!: match_uuid_other match_uuid_Nil)
  have mh: "match_uuid (h @ CHR ''/'' # n) = None"
    using h hex_not_u by (cases h) (auto intro!: match_uuid_other)
  have rest: "\<forall>k<length (h @ CHR ''/'' # n). (h @ CHR ''/'' # n) ! k = CHR ''/''
      \<longrightarrow> match_uuid (drop (Suc k) (h @ CHR ''/'' # n)) = None"
    unfolding slash_suffixes_Cons [OF hs, where Q = "\<lambda>s. match_uuid s = None"]
    using mn slash_suffixes_none [OF ns, of "\<lambda>s. match_uuid s = None"] by blast
  show "\<forall>k<length t. t ! k = CHR ''/'' \<longrightarrow> match_uuid (drop (Suc k) t) = None"
  proof (cases "c = ZSTD")
    case False
    have "CHR ''/'' \<notin> set ''blobs''" by simp
    from slash_suffixes_Cons [OF this, of "h @ CHR ''/'' # n" "\<lambda>s. match_uuid s = None"]
    show ?thesis using False mh rest by (simp only: t_def blobTypeSegment_def if_False)
  next
    case True
    have mz: "match_uuid (''zstd'' @ CHR ''/'' # h @ CHR ''/'' # n) = None" by (rule match_uuid_other) simp_all
    have 1: "CHR ''/'' \<notin> set ''compressed-blobs''" and 2: "CHR ''/'' \<notin> set ''zstd''" by simp_all
    have t: "t = ''compressed-blobs'' @ CHR ''/'' # ''zstd'' @ CHR ''/'' # h @ CHR ''/'' # n"
      using True by (simp add: t_def blobTypeSegment_def)
    from slash_suffixes_Cons [OF 1, of "''zstd'' @ CHR ''/'' # h @ CHR ''/'' # n" "\<lambda>s. match_uuid s = None"]
      slash_suffixes_Cons [OF 2, of "h @ CHR ''/'' # n" "\<lambda>s. match_uuid s = None"] mz mh rest
    show ?thesis unfolding t by blast
  qed
qed

lemma upload_name:
  assumes h: "length (dHash (rnDigest r)) = 64" "list_all is_hex (dHash (rnDigest r))"
    and size: "0 \<le> dSizeBytes (rnDigest r)" "dSizeBytes (rnDigest r) < 2 ^ 63" and c: "compressor r \<noteq> OTHER_COMPRESSOR"
    and inst: "CHR 0x0A \<notin> set (filepath_Join (filepath_SplitList (instanceName r)))" and u: "is_uuid u"
  shows "\<exists>s. UploadString (Some u) r = Inr s \<and> s \<noteq> [] \<and>
    ParseUploadResourceName s = Inr (r\<lparr>instanceName := filepath_Join (filepath_SplitList (instanceName r))\<rparr>)"
proof -
  let ?h = "dHash (rnDigest r)" and ?n = "show_int (dSizeBytes (rnDigest r))" and ?c = "compressor r"
    and ?inst = "filepath_Join (filepath_SplitList (instanceName r))"
  let ?b = "blobTypeSegment ?c @ CHR ''/'' # ?h @ CHR ''/'' # ?n"
  have n: "list_all is_digit ?n" "?n \<noteq> []" using size(1) show_nat_digits by (simp_all add: show_int_def)
  have us: "CHR ''/'' \<notin> set u" using u hex_chars by (auto simp: is_uuid_def list_all_iff)
  have uu: "match_uuid (u @ CHR ''/'' # ?b) = None"
    using u hex_not_u by (cases u) (auto simp: is_uuid_def intro!: match_uuid_other)
  define t where "t = ''uploads'' @ CHR ''/'' # u @ CHR ''/'' # ?b"
  have "strip_prefix ''uploads/'' t = Some (u @ CHR ''/'' # ?b)" by (simp add: strip_prefix_def t_def)
  then have m: "match_uuid t = Some (blobTypeSegment ?c, ?h, ?n)"
    using u match_blob_printed [OF h n, of ?c] by (simp add: match_uuid_def is_uuid_def nth_append)
  have "CHR ''/'' \<notin> set ''uploads''" by simp
  from slash_suffixes_Cons [OF this, of "u @ CHR ''/'' # ?b" "\<lambda>s. match_uuid s = None"]
    slash_suffixes_Cons [OF us, of ?b "\<lambda>s. match_uuid s = None"] uu blob_suffixes_uuid [OF h n(1), of ?c]
  have "\<forall>k<length t. t ! k = CHR ''/'' \<longrightarrow> match_uuid (drop (Suc k) t) = None"
    unfolding t_def by blast
  then have ul: "uploadRegex (?inst @ CHR ''/'' # t) = Some (?inst, blobTypeSegment ?c, ?h, ?n)"
    using match_instance_split [where tail = match_uuid, OF m inst] by (simp add: uploadRegex_def)
  have "UploadString (Some u) r = Inr (?inst @ CHR ''/'' # t)" by (simp add: UploadString_def t_def Let_def)
  moreover have "?h \<noteq> []" using h(1) by auto
  moreover have "ParseInt ?n = Some (dSizeBytes (rnDigest r))" using size by (intro ParseInt_show_int) simp_all
  moreover have "(if blobTypeSegment ?c = ''compressed-blobs/zstd'' then ZSTD else IDENTITY) = ?c"
    using c by (cases ?c) (simp_all add: blobTypeSegment_def)
  ultimately show ?thesis
    by (simp add: ParseUploadResourceName_def parseResourceName_def ul Let_def SetCompressor_def NewResourceName_def)
qed

section \<open>Properties\<close>

text \<open>Reading a download resource name gives back what was printed: for a digest with a well-formed hash and a
  non-negative 64-bit size, plain or zstd-compressed, \<open>ParseDownloadResourceName\<close> of \<open>DownloadString\<close> returns
  the digest, the compressor and the instance name as \<open>DownloadString\<close> normalised it, which has no line break.\<close>

theorem ParseDownload_DownloadString:
  assumes "length (dHash (rnDigest r)) = 64" and "list_all is_hex (dHash (rnDigest r))"
    and "0 \<le> dSizeBytes (rnDigest r)" and "dSizeBytes (rnDigest r) < 2 ^ 63" and "compressor r \<noteq> OTHER_COMPRESSOR"
    and "CHR 0x0A \<notin> set (filepath_Join (filepath_SplitList (instanceName r)))"
  shows "ParseDownloadResourceName (DownloadString r)
    = Inr (r\<lparr>instanceName := filepath_Join (filepath_SplitList (instanceName r))\<rparr>)"
  using assms by (rule download_name)

definition example_hash :: string where
  "example_hash = EmptySha256"

lemma example_hash: "length example_hash = 64" "list_all is_hex example_hash"
  by (simp_all add: example_hash_def EmptySha256_def is_hex_def is_digit_def)

theorem ParseDownload_DownloadString_witness:
  "ParseDownloadResourceName (DownloadString \<lparr>rnDigest = \<lparr>dHash = example_hash, dSizeBytes = 142\<rparr>, instanceName = ''a/b'', compressor = ZSTD\<rparr>)
    = Inr \<lparr>rnDigest = \<lparr>dHash = example_hash, dSizeBytes = 142\<rparr>, instanceName = ''a/b'', compressor = ZSTD\<rparr>"
proof -
  have "filepath_Join (filepath_SplitList ''a/b'') = ''a/b''"
    by (simp add: filepath_Join_def filepath_SplitList_def filepath_Clean_def)
  with ParseDownload_DownloadString [of "\<lparr>rnDigest = \<lparr>dHash = example_hash, dSizeBytes = 142\<rparr>, instanceName = ''a/b'', compressor = ZSTD\<rparr>"]
  show ?thesis by (simp add: example_hash)
qed

text \<open>\<open>Parse\<close> inverts printing a digest as hash, slash and size, for every hash of 64 characters without a slash and every
  64-bit size.\<close>

theorem Parse_printed:
  assumes "length (dHash d) = 64" and "CHR ''/'' \<notin> set (dHash d)"
    and "- (2 ^ 63) \<le> dSizeBytes d" and "dSizeBytes d < 2 ^ 63"
  shows "Parse (dHash d @ ''/'' @ show_int (dSizeBytes d)) = Inr d"
proof -
  have "takeWhile (\<lambda>x. x \<noteq> CHR ''/'') (dHash d @ CHR ''/'' # t) = dHash d"
    and "dropWhile (\<lambda>x. x \<noteq> CHR ''/'') (dHash d @ CHR ''/'' # t) = CHR ''/'' # t" for t
    using assms(2) by (auto simp: takeWhile_append dropWhile_append takeWhile_eq_all_conv dropWhile_eq_Nil_conv)
  with assms show ?thesis by (simp add: Parse_def splitTwo_def Let_def ParseInt_show_int)
qed

theorem Parse_printed_witness:
  "Parse (example_hash @ ''/'' @ show_int 142) = Inr \<lparr>dHash = example_hash, dSizeBytes = 142\<rparr>"
  using Parse_printed [of "\<lparr>dHash = example_hash, dSizeBytes = 142\<rparr>"] example_hash hex_no_slash [OF example_hash(2)] by simp

end
