(* ===== verification/CacheInterface.thy ===== *)
theory CacheInterface
  imports Prelude
begin

text \<open>
  \<^verbatim>\<open>interfaces.Cache\<close> of \<^verbatim>\<open>server/interfaces/interfaces.go\<close>: the operations of a blob cache, of its readers and
  of its writers, as a record of functions on its state, and the contracts its clients rely on as locales.
  An operation yields its result (an error or a value) and the new state, or \<open>None\<close> if it never returns.
\<close>

type_synonym ('s, 'a) action = "'s \<Rightarrow> ('a \<times> 's) option"

record ('d, 's, 'r, 'w) Cache =
  c_Contains :: "'d \<Rightarrow> ('s, error + bool) action"
  c_FindMissing :: "'d list \<Rightarrow> ('s, error + 'd list) action"
  c_Get :: "'d \<Rightarrow> ('s, error + bytes) action"
  c_GetMulti :: "'d list \<Rightarrow> ('s, error + ('d \<rightharpoonup> bytes)) action"
  c_Set :: "'d \<Rightarrow> bytes \<Rightarrow> ('s, error option) action"
  c_SetMulti :: "('d \<times> bytes) list \<Rightarrow> ('s, error option) action"
  c_Delete :: "'d \<Rightarrow> ('s, error option) action"
  c_Reader :: "'d \<Rightarrow> int \<Rightarrow> ('s, error + 'r) action"
  r_Read :: "'r \<Rightarrow> nat \<Rightarrow> ('s, bytes \<times> error option \<times> 'r) action"
  r_Close :: "'r \<Rightarrow> ('s, error option) action"
  c_Writer :: "'d \<Rightarrow> ('s, error + 'w) action"
  w_Write :: "'w \<Rightarrow> bytes \<Rightarrow> ('s, nat \<times> error option \<times> 'w) action"
  w_Close :: "'w \<Rightarrow> ('s, error option) action"

text \<open>\<^verbatim>\<open>io.EOF\<close>.\<close>

definition EOF :: error where
  "EOF = Err Unknown ''EOF''"

text \<open>What a cache may do to blobs that an operation is not about: drop them (a bounded cache evicts), nothing else.\<close>

definition drops :: "('d \<Rightarrow> bool) \<Rightarrow> ('d \<Rightarrow> bytes option) \<Rightarrow> ('d \<Rightarrow> bytes option) \<Rightarrow> bool" where
  "drops valid b b' \<longleftrightarrow> (\<forall>d w. valid d \<longrightarrow> b' d = Some w \<longrightarrow> b d = Some w)"

text \<open>And what the blobs may be after \<open>v\<close> was stored for \<open>d\<close>: the new data under its key, or left out again.\<close>

definition stores :: "('d \<Rightarrow> bool) \<Rightarrow> ('d \<Rightarrow> 'd \<Rightarrow> bool) \<Rightarrow> 'd \<Rightarrow> bytes \<Rightarrow> ('d \<Rightarrow> bytes option) \<Rightarrow> ('d \<Rightarrow> bytes option) \<Rightarrow> bool" where
  "stores valid same_key d v b b' \<longleftrightarrow>
     (\<forall>d' w. valid d' \<longrightarrow> b' d' = Some w \<longrightarrow> (if same_key d d' then w = v else b d' = Some w))"

lemma drops_refl [simp]: "drops valid b b"
  by (simp add: drops_def)

lemma drops_trans: "drops valid b b' \<Longrightarrow> drops valid b' b'' \<Longrightarrow> drops valid b b''"
  by (simp add: drops_def)

lemma dropsD: "drops valid b b' \<Longrightarrow> valid d \<Longrightarrow> b' d = Some w \<Longrightarrow> b d = Some w"
  by (simp add: drops_def)

lemma storesD: "stores valid sk d v b b' \<Longrightarrow> valid d' \<Longrightarrow> b' d' = Some w \<Longrightarrow> (if sk d d' then w = v else b d' = Some w)"
  by (simp add: stores_def)

lemma drops_stores: "drops valid b b' \<Longrightarrow> stores valid sk d v b' b'' \<Longrightarrow> stores valid sk d v b b''"
  by (auto simp: drops_def stores_def)

text \<open>
  The contract: look-ups answer from the contents; a write that succeeds puts the blob in or leaves it out; a
  deletion removes it; a writer collects what is written and stores it when it is closed.
  \<open>pend w d buf\<close> says that the open writer \<open>w\<close> is for \<open>d\<close> and was given \<open>buf\<close>.
\<close>

locale blob_cache =
  fixes cache :: "('d, 's, 'r, 'w) Cache"
    and cinv :: "'s \<Rightarrow> bool"
    and blobs :: "'s \<Rightarrow> 'd \<Rightarrow> bytes option"
    and pend :: "'w \<Rightarrow> 'd \<Rightarrow> bytes \<Rightarrow> bool"
    and valid :: "'d \<Rightarrow> bool"
    and same_key :: "'d \<Rightarrow> 'd \<Rightarrow> bool"
  assumes same_key_refl: "same_key d d"
    and blobs_same: "cinv s \<Longrightarrow> valid d \<Longrightarrow> valid d' \<Longrightarrow> same_key d d' \<Longrightarrow> blobs s d = blobs s d'"
    and Get_law: "cinv s \<Longrightarrow> valid d \<Longrightarrow> \<exists>r s'. c_Get cache d s = Some (r, s') \<and> cinv s' \<and> drops valid (blobs s) (blobs s')
      \<and> (case r of Inr v \<Rightarrow> blobs s d = Some v | Inl e \<Rightarrow> blobs s d = None)"
    and FindMissing_law: "cinv s \<Longrightarrow> \<forall>d\<in>set ds. valid d \<Longrightarrow> \<exists>s'.
      c_FindMissing cache ds s = Some (Inr (filter (\<lambda>d. blobs s d = None) ds), s') \<and> cinv s' \<and> drops valid (blobs s) (blobs s')"
    and GetMulti_law: "cinv s \<Longrightarrow> \<forall>d\<in>set ds. valid d \<Longrightarrow> \<exists>s'.
      c_GetMulti cache ds s = Some (Inr (\<lambda>d. if d \<in> set ds then blobs s d else None), s') \<and> cinv s' \<and> drops valid (blobs s) (blobs s')"
    and Set_law: "cinv s \<Longrightarrow> valid d \<Longrightarrow> \<exists>s'. c_Set cache d v s = Some (None, s') \<and> cinv s'
      \<and> stores valid same_key d v (blobs s) (blobs s')"
    and Delete_law: "cinv s \<Longrightarrow> valid d \<Longrightarrow> \<exists>s'. c_Delete cache d s = Some (None, s') \<and> cinv s'
      \<and> (\<forall>d'. valid d' \<longrightarrow> blobs s' d' = (if same_key d d' then None else blobs s d'))"
    and Writer_law: "cinv s \<Longrightarrow> valid d \<Longrightarrow> \<exists>w s'. c_Writer cache d s = Some (Inr w, s') \<and> cinv s'
      \<and> drops valid (blobs s) (blobs s') \<and> pend w d []"
    and Write_law: "cinv s \<Longrightarrow> pend w d buf \<Longrightarrow> \<exists>w' s'. w_Write cache w p s = Some ((length p, None, w'), s') \<and> cinv s'
      \<and> drops valid (blobs s) (blobs s') \<and> pend w' d (buf @ p)"
    and WriterClose_law: "cinv s \<Longrightarrow> valid d \<Longrightarrow> pend w d buf \<Longrightarrow> \<exists>s'. w_Close cache w s = Some (None, s') \<and> cinv s'
      \<and> stores valid same_key d buf (blobs s) (blobs s')"
begin

text \<open>Reading what was written, and after a deletion.\<close>

lemma Get_after_Set:
  assumes "cinv s" and "valid d"
  shows "\<exists>s' r s''. c_Set cache d v s = Some (None, s') \<and> cinv s' \<and> c_Get cache d s' = Some (r, s'')
    \<and> (case r of Inr w \<Rightarrow> w = v | Inl e \<Rightarrow> blobs s' d = None)"
proof -
  obtain s' where s': "c_Set cache d v s = Some (None, s')" "cinv s'" "stores valid same_key d v (blobs s) (blobs s')"
    using Set_law [OF assms] by blast
  obtain r s'' where r: "c_Get cache d s' = Some (r, s'')" "case r of Inr v \<Rightarrow> blobs s' d = Some v | Inl e \<Rightarrow> blobs s' d = None"
    using Get_law [OF s'(2) assms(2)] by blast
  have "case r of Inr w \<Rightarrow> w = v | Inl e \<Rightarrow> blobs s' d = None"
    using r(2) storesD [OF s'(3) assms(2)] same_key_refl [of d] by (auto split: sum.splits)
  with s' r show ?thesis by blast
qed

lemma Get_after_Delete:
  assumes "cinv s" and "valid d"
  shows "\<exists>s' e s''. c_Delete cache d s = Some (None, s') \<and> c_Get cache d s' = Some (Inl e, s'')"
proof -
  obtain s' where s': "c_Delete cache d s = Some (None, s')" "cinv s'" "blobs s' d = None"
    using Delete_law [OF assms] assms(2) same_key_refl by auto
  obtain r s'' where "c_Get cache d s' = Some (r, s'')" "case r of Inr v \<Rightarrow> blobs s' d = Some v | Inl e \<Rightarrow> blobs s' d = None"
    using Get_law [OF s'(2) assms(2)] by blast
  with s' show ?thesis by (cases r) auto
qed

end

text \<open>A cache whose look-ups drop nothing, and whose \<open>Contains\<close> is exact.\<close>

locale exact_cache = blob_cache +
  assumes Contains_law: "cinv s \<Longrightarrow> valid d \<Longrightarrow> \<exists>s'. c_Contains cache d s = Some (Inr (blobs s d \<noteq> None), s') \<and> cinv s' \<and> blobs s' = blobs s"
    and Get_keeps: "cinv s \<Longrightarrow> valid d \<Longrightarrow> c_Get cache d s = Some (r, s') \<Longrightarrow> blobs s' = blobs s"
begin

lemma Contains_Get:
  assumes "cinv s" and "valid d" and "c_Get cache d s = Some (r, s')"
  shows "\<exists>s'. c_Contains cache d s = Some (Inr (\<not> isl r), s')"
  using Contains_law [OF assms(1,2)] Get_law [OF assms(1,2)] assms(3) by (cases r) auto

end

text \<open>
  The streams of a cache: a reader yields the blob it was opened on, piece by piece, and closing it is harmless; a
  blob that \<open>fits\<close> is in the cache once its writer is closed, and neither opening a writer nor
  writing to it nor a look-up changes what fits.
\<close>

locale streaming_cache = exact_cache cache cinv blobs pend valid same_key
  for cache :: "('d, 's, 'r, 'w) Cache"
    and cinv :: "'s \<Rightarrow> bool"
    and blobs :: "'s \<Rightarrow> 'd \<Rightarrow> bytes option"
    and pend :: "'w \<Rightarrow> 'd \<Rightarrow> bytes \<Rightarrow> bool"
    and valid :: "'d \<Rightarrow> bool"
    and same_key :: "'d \<Rightarrow> 'd \<Rightarrow> bool" +
  fixes yields :: "'r \<Rightarrow> bytes \<Rightarrow> bool"
    and fits :: "'s \<Rightarrow> 'd \<Rightarrow> bytes \<Rightarrow> bool"
  assumes Reader_law: "cinv s \<Longrightarrow> valid d \<Longrightarrow> \<exists>r s'. c_Reader cache d 0 s = Some (r, s') \<and> cinv s' \<and> blobs s' = blobs s
      \<and> (case r of Inr rd \<Rightarrow> (\<exists>v. blobs s d = Some v \<and> yields rd v) | Inl e \<Rightarrow> blobs s d = None \<and> err_code e = NotFound)"
    and Read_law: "cinv s \<Longrightarrow> yields rd v \<Longrightarrow> 0 < n \<Longrightarrow> \<exists>bs e rd' s' v'. r_Read cache rd n s = Some ((bs, e, rd'), s') \<and> cinv s'
      \<and> blobs s' = blobs s \<and> v = bs @ v' \<and> yields rd' v' \<and> (e = None \<and> bs \<noteq> [] \<or> e = Some EOF \<and> v' = [])"
    and ReaderClose_law: "cinv s \<Longrightarrow> \<exists>s'. r_Close cache rd s = Some (None, s') \<and> cinv s' \<and> blobs s' = blobs s"
    and FindMissing_keeps: "cinv s \<Longrightarrow> \<forall>d\<in>set ds. valid d \<Longrightarrow> c_FindMissing cache ds s = Some (r1, s') \<Longrightarrow>
      blobs s' = blobs s \<and> (fits s d v \<longrightarrow> fits s' d v)"
    and Writer_keeps: "cinv s \<Longrightarrow> c_Writer cache d s = Some (r2, s') \<Longrightarrow> blobs s' = blobs s \<and> (fits s d v \<longrightarrow> fits s' d v)"
    and Write_keeps: "cinv s \<Longrightarrow> pend w d buf \<Longrightarrow> w_Write cache w p s = Some (r3, s') \<Longrightarrow>
      blobs s' = blobs s \<and> (fits s d v \<longrightarrow> fits s' d v)"
    and Close_fits: "cinv s \<Longrightarrow> valid d \<Longrightarrow> pend w d buf \<Longrightarrow> fits s d buf \<Longrightarrow> w_Close cache w s = Some (r4, s') \<Longrightarrow>
      blobs s' d = Some buf"

end
