(* ===== verification/MemoryCache.thy ===== *)
theory MemoryCache
  imports Lru Digest CacheInterface
begin

text \<open>
  \<^verbatim>\<open>server/backends/memory_cache/memory_cache.go\<close> and \<^verbatim>\<open>server/util/prefix/prefix.go\<close>: the in-memory blob
  cache, a client of the LRU cache through the contract \<open>bounded_cache\<close>. Blobs are stored under a path made of the user's
  prefix, the kind of cache, the instance name and the hash.

  A handle (\<open>MemoryCache\<close>) names the kind and instance; all handles made by \<open>WithIsolation\<close> share
  one LRU cache, which the operations take and return. A request context is what it holds for
  the code: the authenticated group, if any, and the prefix attached to it. The map a
  batch of blobs comes in is the list in which Go happens to enumerate it.
\<close>

section \<open>The user prefix\<close>

text \<open>
  Authentication is another service: a context has the result of \<^verbatim>\<open>AuthenticatedUser\<close>, the group id of the user
  or \<open>None\<close> for its error; whether an authenticator is configured and anonymous use is
  enabled are parameters of the environment.
\<close>

record request_ctx =
  auth_group :: "string option"
  user_prefix :: "string option"

record env =
  has_authenticator :: bool
  anonymous_enabled :: bool

definition AuthAnonymousUser :: string where
  "AuthAnonymousUser = ''ANON''"

definition addPrefix :: "string \<Rightarrow> string \<Rightarrow> string" where
  "addPrefix prefix k = prefix @ ''/'' @ k"

definition userPrefixCacheKey :: "request_ctx \<Rightarrow> env \<Rightarrow> string \<Rightarrow> error + string" where
  "userPrefixCacheKey ctx env k =
     (case (if has_authenticator env then auth_group ctx else None) of
        Some g \<Rightarrow>
          if g = '''' then Inl (Err PermissionDenied ''Attempting to write to cache as a user with no group.'')
          else Inr (addPrefix g k)
      | None \<Rightarrow>
          if \<not> anonymous_enabled env then Inl (Err PermissionDenied ''Anonymous access disabled, permission denied.'')
          else Inr (addPrefix AuthAnonymousUser k))"

text \<open>On an error the prefix is Go's zero value, the empty string.\<close>

definition AttachUserPrefixToContext :: "request_ctx \<Rightarrow> env \<Rightarrow> error + request_ctx" where
  "AttachUserPrefixToContext ctx env =
     (let r = userPrefixCacheKey ctx env '''';
          prefix = (case r of Inl _ \<Rightarrow> '''' | Inr p \<Rightarrow> p) in
      if isl r \<and> \<not> anonymous_enabled env
      then Inl (Err PermissionDenied ''Anonymous access disabled, permission denied.'')
      else Inr (ctx\<lparr>user_prefix := Some prefix\<rparr>))"

definition UserPrefixFromContext :: "request_ctx \<Rightarrow> error + string" where
  "UserPrefixFromContext ctx =
     (case user_prefix ctx of
        Some v \<Rightarrow> Inr v
      | None \<Rightarrow> Inl (Err PermissionDenied ''Anonymous access disabled, permission denied.''))"

section \<open>The cache\<close>

datatype CacheType = UnknownCacheType | ActionCacheType | CASCacheType

fun CacheType_Prefix :: "CacheType \<Rightarrow> string" where
  "CacheType_Prefix ActionCacheType = ''ac''"
| "CacheType_Prefix CASCacheType = ''''"
| "CacheType_Prefix UnknownCacheType = ''unknown''"

text \<open>What the LRU cache stores is a Go \<^verbatim>\<open>interface{}\<close>: a byte slice, or a value of another type.\<close>

datatype cache_value = ByteSlice bytes | OtherValue

definition cache_sizeFn :: "cache_value \<Rightarrow> int" where
  "cache_sizeFn v = (case v of ByteSlice b \<Rightarrow> int (length b) | OtherValue \<Rightarrow> 0)"

record MemoryCache =
  cacheType :: CacheType
  remoteInstanceName :: string

definition NewMemoryCache :: "int \<Rightarrow> error + MemoryCache \<times> cache_value LRU" where
  "NewMemoryCache maxSizeBytes =
     (case NewLRU (Some cache_sizeFn) False maxSizeBytes of
        Inl e \<Rightarrow> Inl e
      | Inr l \<Rightarrow> Inr (\<lparr>cacheType = CASCacheType, remoteInstanceName = ''''\<rparr>, l))"

definition MemoryCache_key :: "MemoryCache \<Rightarrow> request_ctx \<Rightarrow> Digest option \<Rightarrow> error + string" where
  "MemoryCache_key m ctx d =
     (case Validate d of
        Inl e \<Rightarrow> Inl e
      | Inr hash \<Rightarrow>
          (case UserPrefixFromContext ctx of
             Inl e \<Rightarrow> Inl e
           | Inr userPrefix \<Rightarrow>
               if cacheType m = ActionCacheType
               then Inr (filepath_Join [userPrefix, CacheType_Prefix (cacheType m), remoteInstanceName m, hash])
               else Inr (filepath_Join [userPrefix, CacheType_Prefix (cacheType m), hash])))"

definition WithIsolation :: "MemoryCache \<Rightarrow> CacheType \<Rightarrow> string \<Rightarrow> MemoryCache" where
  "WithIsolation m ct inst = \<lparr>cacheType = ct, remoteInstanceName = inst\<rparr>"

definition string_key :: "string \<Rightarrow> lru_key" where
  "string_key s = StringKey (map of_char s)"

type_synonym store = "cache_value LRU"

definition MemoryCache_Contains :: "hashes \<Rightarrow> MemoryCache \<Rightarrow> request_ctx \<Rightarrow> Digest option \<Rightarrow> store \<Rightarrow> (error + bool) \<times> store" where
  "MemoryCache_Contains hs m ctx d l =
     (case MemoryCache_key m ctx d of
        Inl e \<Rightarrow> (Inl e, l)
      | Inr k \<Rightarrow> let (contains, l') = LRU_Contains hs (string_key k) l in (Inr contains, l'))"

fun MemoryCache_FindMissing :: "hashes \<Rightarrow> MemoryCache \<Rightarrow> request_ctx \<Rightarrow> Digest option list \<Rightarrow> store
    \<Rightarrow> (error + Digest option list) \<times> store" where
  "MemoryCache_FindMissing hs m ctx [] l = (Inr [], l)"
| "MemoryCache_FindMissing hs m ctx (d # ds) l =
     (case MemoryCache_Contains hs m ctx d l of
        (Inl e, l') \<Rightarrow> (Inl e, l')
      | (Inr ok, l') \<Rightarrow>
          (case MemoryCache_FindMissing hs m ctx ds l' of
             (Inl e, l'') \<Rightarrow> (Inl e, l'')
           | (Inr missing, l'') \<Rightarrow> (Inr (if \<not> ok then d # missing else missing), l'')))"

definition MemoryCache_Get :: "hashes \<Rightarrow> MemoryCache \<Rightarrow> request_ctx \<Rightarrow> Digest option \<Rightarrow> store \<Rightarrow> (error + bytes) \<times> store" where
  "MemoryCache_Get hs m ctx d l =
     (case MemoryCache_key m ctx d of
        Inl e \<Rightarrow> (Inl e, l)
      | Inr k \<Rightarrow>
          (case LRU_Get hs (string_key k) l of
             (None, l') \<Rightarrow> (Inl (Err NotFound ''Key %s not found''), l')
           | (Some (ByteSlice v), l') \<Rightarrow> (Inr v, l')
           | (Some OtherValue, l') \<Rightarrow> (Inl (Err Internal ''LRU type assertion failed for %s''), l')))"

fun MemoryCache_GetMulti :: "hashes \<Rightarrow> MemoryCache \<Rightarrow> request_ctx \<Rightarrow> Digest option list \<Rightarrow> store
    \<Rightarrow> (error + (Digest option \<rightharpoonup> bytes)) \<times> store" where
  "MemoryCache_GetMulti hs m ctx [] l = (Inr Map.empty, l)"
| "MemoryCache_GetMulti hs m ctx (d # ds) l =
     (case MemoryCache_Get hs m ctx d l of
        (Inl e, l') \<Rightarrow>
          if err_code e = NotFound then MemoryCache_GetMulti hs m ctx ds l' else (Inl e, l')
      | (Inr v, l') \<Rightarrow>
          (case MemoryCache_GetMulti hs m ctx ds l' of
             (Inl e, l'') \<Rightarrow> (Inl e, l'')
           | (Inr found, l'') \<Rightarrow> (Inr (if d \<in> dom found then found else found(d \<mapsto> v)), l'')))"

text \<open>\<open>Set\<close>: the outer option is \<open>None\<close> if the eviction loop of the LRU cache does not end.\<close>

definition MemoryCache_Set :: "hashes \<Rightarrow> MemoryCache \<Rightarrow> request_ctx \<Rightarrow> Digest option \<Rightarrow> bytes \<Rightarrow> store \<Rightarrow> (error option \<times> store) option" where
  "MemoryCache_Set hs m ctx d data l =
     (case MemoryCache_key m ctx d of
        Inl e \<Rightarrow> Some (Some e, l)
      | Inr k \<Rightarrow> map_option (\<lambda>(_, l'). (None, l')) (LRU_Add hs (string_key k) (ByteSlice data) l))"

fun MemoryCache_SetMulti :: "hashes \<Rightarrow> MemoryCache \<Rightarrow> request_ctx \<Rightarrow> (Digest option \<times> bytes) list \<Rightarrow> store
    \<Rightarrow> (error option \<times> store) option" where
  "MemoryCache_SetMulti hs m ctx [] l = Some (None, l)"
| "MemoryCache_SetMulti hs m ctx ((d, data) # kvs) l =
     (case MemoryCache_Set hs m ctx d data l of
        None \<Rightarrow> None
      | Some (Some e, l') \<Rightarrow> Some (Some e, l')
      | Some (None, l') \<Rightarrow> MemoryCache_SetMulti hs m ctx kvs l')"

definition MemoryCache_Delete :: "hashes \<Rightarrow> MemoryCache \<Rightarrow> request_ctx \<Rightarrow> Digest option \<Rightarrow> store \<Rightarrow> error option \<times> store" where
  "MemoryCache_Delete hs m ctx d l =
     (case MemoryCache_key m ctx d of
        Inl e \<Rightarrow> (Some e, l)
      | Inr k \<Rightarrow> (None, snd (LRU_Remove hs (string_key k) l)))"

text \<open>\<open>Reader\<close>: a reader is what is left to read. \<^verbatim>\<open>Seek\<close> to a negative offset fails and is ignored.\<close>

definition MemoryCache_Reader :: "hashes \<Rightarrow> MemoryCache \<Rightarrow> request_ctx \<Rightarrow> Digest option \<Rightarrow> int \<Rightarrow> store \<Rightarrow> (error + bytes) \<times> store" where
  "MemoryCache_Reader hs m ctx d offset l =
     (case MemoryCache_Get hs m ctx d l of
        (Inl e, l') \<Rightarrow> (Inl e, l')
      | (Inr buf, l') \<Rightarrow>
          let r = (if offset < 0 then buf else drop (nat offset) buf) in
          (Inr (if length buf > 0 then take (length buf) r else r), l'))"

text \<open>Reading from it is \<^verbatim>\<open>bytes.Reader\<close> of the standard library: end of file exactly when nothing is left.\<close>

definition bytes_Read :: "bytes \<Rightarrow> nat \<Rightarrow> bytes \<times> error option \<times> bytes" where
  "bytes_Read r n = (take n r, if r = [] then Some EOF else None, drop n r)"

text \<open>\<open>Writer\<close>: a writer is the digest it was opened for and the bytes written so far, stored when it is closed.\<close>

record setOnClose =
  wDigest :: "Digest option"
  wBuffer :: bytes

definition MemoryCache_Writer :: "Digest option \<Rightarrow> setOnClose" where
  "MemoryCache_Writer d = \<lparr>wDigest = d, wBuffer = []\<rparr>"

definition setOnClose_Write :: "setOnClose \<Rightarrow> bytes \<Rightarrow> setOnClose" where
  "setOnClose_Write w p = w\<lparr>wBuffer := wBuffer w @ p\<rparr>"

definition setOnClose_Close :: "hashes \<Rightarrow> MemoryCache \<Rightarrow> request_ctx \<Rightarrow> setOnClose \<Rightarrow> store \<Rightarrow> (error option \<times> store) option" where
  "setOnClose_Close hs m ctx w l = MemoryCache_Set hs m ctx (wDigest w) (wBuffer w) l"

section \<open>The contract of a blob cache\<close>

text \<open>
  The cache keeps the contract of \<open>exact_cache\<close> for digests it can name: the handle and context
  fix the key of each digest.
\<close>

definition memory_cache :: "hashes \<Rightarrow> MemoryCache \<Rightarrow> request_ctx \<Rightarrow> (Digest option, store, bytes, setOnClose) Cache" where
  "memory_cache hs m ctx =
     \<lparr>c_Contains = (\<lambda>d l. Some (MemoryCache_Contains hs m ctx d l)),
      c_FindMissing = (\<lambda>ds l. Some (MemoryCache_FindMissing hs m ctx ds l)),
      c_Get = (\<lambda>d l. Some (MemoryCache_Get hs m ctx d l)),
      c_GetMulti = (\<lambda>ds l. Some (MemoryCache_GetMulti hs m ctx ds l)),
      c_Set = MemoryCache_Set hs m ctx, c_SetMulti = MemoryCache_SetMulti hs m ctx,
      c_Delete = (\<lambda>d l. Some (MemoryCache_Delete hs m ctx d l)),
      c_Reader = (\<lambda>d off l. Some (MemoryCache_Reader hs m ctx d off l)),
      r_Read = (\<lambda>r n l. Some (bytes_Read r n, l)), r_Close = (\<lambda>r l. Some (None, l)),
      c_Writer = (\<lambda>d l. Some (Inr (MemoryCache_Writer d), l)),
      w_Write = (\<lambda>w p l. Some ((length p, None, setOnClose_Write w p), l)),
      w_Close = setOnClose_Close hs m ctx\<rparr>"

definition all_bytes :: "store \<Rightarrow> bool" where
  "all_bytes l \<longleftrightarrow> (\<forall>x\<in>set (lru_abs l). snd x \<noteq> OtherValue)"

definition store_ok :: "store \<Rightarrow> bool" where
  "store_ok l \<longleftrightarrow> lru_ok l \<and> all_bytes l"

definition named :: "MemoryCache \<Rightarrow> request_ctx \<Rightarrow> Digest option \<Rightarrow> bool" where
  "named m ctx d \<longleftrightarrow> \<not> isl (MemoryCache_key m ctx d)"

definition key_of :: "MemoryCache \<Rightarrow> request_ctx \<Rightarrow> Digest option \<Rightarrow> lru_key" where
  "key_of m ctx d = string_key (projr (MemoryCache_key m ctx d))"

definition blob :: "hashes \<Rightarrow> MemoryCache \<Rightarrow> request_ctx \<Rightarrow> store \<Rightarrow> Digest option \<Rightarrow> bytes option" where
  "blob hs m ctx l d = (case lru_content hs l (key_of m ctx d) of Some (ByteSlice v) \<Rightarrow> Some v | _ \<Rightarrow> None)"

lemma named_key: "named m ctx d \<Longrightarrow> MemoryCache_key m ctx d = Inr (projr (MemoryCache_key m ctx d))"
  by (cases "MemoryCache_key m ctx d") (simp_all add: named_def)

lemma string_key_hash: "Lru.keyHash hs (string_key s) \<noteq> None"
  by (simp add: Lru.keyHash_def string_key_def)

lemma all_bytes_map_of: "all_bytes l \<Longrightarrow> map_of (lru_abs l) h \<noteq> Some OtherValue"
  unfolding all_bytes_def by (metis map_of_SomeD snd_conv)

lemma all_bytes_content: "all_bytes l \<Longrightarrow> lru_content hs l k \<noteq> Some OtherValue"
  using all_bytes_map_of by (cases "Lru.keyHash hs k") (auto simp: lru_content_def)

lemma store_ok_Get:
  assumes "store_ok l"
  shows "store_ok (snd (LRU_Get hs (string_key s) l))"
    and "lru_content hs (snd (LRU_Get hs (string_key s) l)) = lru_content hs l"
    and "fst (LRU_Get hs (string_key s) l) = lru_content hs l (string_key s)"
proof -
  have ok: "lru_ok l" using assms by (simp add: store_ok_def)
  note g = lru.get_law [OF ok string_key_hash]
  obtain h where h: "Lru.keyHash hs (string_key s) = Some h" using string_key_hash by blast
  have "lru_abs (snd (LRU_Get hs (string_key s) l)) = touch h (lru_abs l)"
    using LRU_Get_abs [OF _ h, of l] ok by (simp add: lru_ok_def)
  then have "all_bytes (snd (LRU_Get hs (string_key s) l))"
    using assms all_bytes_map_of [of l h] by (auto simp: store_ok_def all_bytes_def touch_def split: option.splits)
  with g show "store_ok (snd (LRU_Get hs (string_key s) l))"
    "lru_content hs (snd (LRU_Get hs (string_key s) l)) = lru_content hs l"
    "fst (LRU_Get hs (string_key s) l) = lru_content hs l (string_key s)"
    by (simp_all add: store_ok_def)
qed

lemma MemoryCache_Get_blob:
  assumes ok: "store_ok l" and n: "named m ctx d"
  shows "store_ok (snd (MemoryCache_Get hs m ctx d l)) \<and> blob hs m ctx (snd (MemoryCache_Get hs m ctx d l)) = blob hs m ctx l
    \<and> fst (MemoryCache_Get hs m ctx d l) = (case blob hs m ctx l d of Some v \<Rightarrow> Inr v | None \<Rightarrow> Inl (Err NotFound ''Key %s not found''))"
proof -
  obtain s where s: "MemoryCache_key m ctx d = Inr s" using named_key [OF n] by blast
  note g = store_ok_Get [OF ok, of hs s]
  have "all_bytes l" using ok by (simp add: store_ok_def)
  then have "lru_content hs l (string_key s) \<noteq> Some OtherValue" by (rule all_bytes_content)
  with g s show ?thesis
    by (cases "LRU_Get hs (string_key s) l")
      (auto simp: MemoryCache_Get_def blob_def key_of_def fun_eq_iff split: option.splits cache_value.splits)
qed

lemma MemoryCache_Contains_blob:
  assumes ok: "store_ok l" and n: "named m ctx d"
  shows "store_ok (snd (MemoryCache_Contains hs m ctx d l)) \<and> blob hs m ctx (snd (MemoryCache_Contains hs m ctx d l)) = blob hs m ctx l
    \<and> fst (MemoryCache_Contains hs m ctx d l) = Inr (blob hs m ctx l d \<noteq> None)"
proof -
  obtain s where s: "MemoryCache_key m ctx d = Inr s" using named_key [OF n] by blast
  note g = store_ok_Get [OF ok, of hs s]
  have lo: "lru_ok l" and "all_bytes l" using ok by (simp_all add: store_ok_def)
  then have "lru_content hs l (string_key s) \<noteq> Some OtherValue" by (intro all_bytes_content)
  then have "blob hs m ctx l d \<noteq> None \<longleftrightarrow> lru_content hs l (string_key s) \<noteq> None"
    using s by (auto simp: blob_def key_of_def split: option.splits cache_value.splits)
  with g s lru.contains_law [OF lo string_key_hash, of hs s] show ?thesis
    by (simp add: MemoryCache_Contains_def split_beta blob_def fun_eq_iff)
qed

lemma MemoryCache_FindMissing_blob:
  assumes "store_ok l" and "\<forall>d\<in>set ds. named m ctx d"
  shows "store_ok (snd (MemoryCache_FindMissing hs m ctx ds l))
    \<and> blob hs m ctx (snd (MemoryCache_FindMissing hs m ctx ds l)) = blob hs m ctx l
    \<and> fst (MemoryCache_FindMissing hs m ctx ds l) = Inr (filter (\<lambda>d. blob hs m ctx l d = None) ds)"
  using assms
proof (induction ds arbitrary: l)
  case (Cons d ds)
  have n: "named m ctx d" using Cons.prems by simp
  obtain b l' where c: "MemoryCache_Contains hs m ctx d l = (b, l')" by fastforce
  with MemoryCache_Contains_blob [OF Cons.prems(1) n, of hs]
  have b: "b = Inr (blob hs m ctx l d \<noteq> None)" "store_ok l'" "blob hs m ctx l' = blob hs m ctx l" by simp_all
  with Cons.IH [OF b(2)] Cons.prems(2) c show ?case
    by (cases "MemoryCache_FindMissing hs m ctx ds l'") simp
qed simp

lemma MemoryCache_GetMulti_blob:
  assumes "store_ok l" and "\<forall>d\<in>set ds. named m ctx d"
  shows "store_ok (snd (MemoryCache_GetMulti hs m ctx ds l))
    \<and> blob hs m ctx (snd (MemoryCache_GetMulti hs m ctx ds l)) = blob hs m ctx l
    \<and> fst (MemoryCache_GetMulti hs m ctx ds l) = Inr (\<lambda>d. if d \<in> set ds then blob hs m ctx l d else None)"
  using assms
proof (induction ds arbitrary: l)
  case (Cons d ds)
  have n: "named m ctx d" using Cons.prems by simp
  obtain r l' where g: "MemoryCache_Get hs m ctx d l = (r, l')" by fastforce
  with MemoryCache_Get_blob [OF Cons.prems(1) n, of hs]
  have r: "r = (case blob hs m ctx l d of Some v \<Rightarrow> Inr v | None \<Rightarrow> Inl (Err NotFound ''Key %s not found''))"
    "store_ok l'" "blob hs m ctx l' = blob hs m ctx l" by simp_all
  with Cons.IH [OF r(2)] Cons.prems(2) g show ?case
    by (cases "MemoryCache_GetMulti hs m ctx ds l'"; cases "blob hs m ctx l d") (auto simp: fun_eq_iff)
qed simp

lemma MemoryCache_Set_blob:
  assumes ok: "store_ok l" and n: "named m ctx d"
  shows "\<exists>l'. MemoryCache_Set hs m ctx d v l = Some (None, l') \<and> store_ok l'
    \<and> (\<forall>d' w. named m ctx d' \<longrightarrow> blob hs m ctx l' d' = Some w \<longrightarrow>
         (if Lru.keyHash hs (key_of m ctx d) = Lru.keyHash hs (key_of m ctx d') then w = v else blob hs m ctx l d' = Some w))"
proof -
  obtain s where s: "MemoryCache_key m ctx d = Inr s" using named_key [OF n] by blast
  have k: "key_of m ctx d = string_key s" by (simp add: key_of_def s)
  have lo: "lru_ok l" and ab: "all_bytes l" using ok by (simp_all add: store_ok_def)
  obtain l' where l': "LRU_Add hs (string_key s) (ByteSlice v) l = Some (True, l')" "lru_ok l'"
    and c: "\<And>k' w. Lru.keyHash hs k' \<noteq> None \<Longrightarrow> lru_content hs l' k' = Some w \<Longrightarrow>
      (if Lru.keyHash hs (string_key s) = Lru.keyHash hs k' then w = ByteSlice v else lru_content hs l k' = Some w)"
    using lru.add_law [OF lo string_key_hash, of hs s "ByteSlice v"] by blast
  obtain h where h: "Lru.keyHash hs (string_key s) = Some h" using string_key_hash by blast
  have "all_bytes l'"
  proof -
    have "map_of (lru_abs l') h' = Some w \<Longrightarrow> (if h' = h then w = ByteSlice v else map_of (lru_abs l) h' = Some w)" for h' w
    proof -
      obtain c' where c': "LRU_Add hs (string_key s) (ByteSlice v) l = Some (True, c')"
          "\<And>h' w. map_of (lru_abs c') h' = Some w \<Longrightarrow> (if h' = h then w = ByteSlice v else map_of (lru_abs l) h' = Some w)"
        using lru_ok_Add [OF lo h] by blast
      moreover have "c' = l'" using c'(1) l'(1) by simp
      ultimately show "map_of (lru_abs l') h' = Some w \<Longrightarrow> (if h' = h then w = ByteSlice v else map_of (lru_abs l) h' = Some w)"
        by blast
    qed
    note added = this
    have m: "map_of (lru_abs l') h' \<noteq> Some OtherValue" for h'
      using added [of h' OtherValue] all_bytes_map_of [OF ab, of h'] by (auto split: if_splits)
    have "distinct (map fst (lru_abs l'))" using l'(2) distinct_keys by (auto simp: lru_ok_def)
    with m show ?thesis unfolding all_bytes_def by (metis map_of_is_SomeI prod.collapse)
  qed
  moreover have "if Lru.keyHash hs (key_of m ctx d) = Lru.keyHash hs (key_of m ctx d') then w = v else blob hs m ctx l d' = Some w"
    if "blob hs m ctx l' d' = Some w" for d' w
  proof -
    from that have "lru_content hs l' (key_of m ctx d') = Some (ByteSlice w)"
      by (auto simp: blob_def split: option.splits cache_value.splits)
    with c [of "key_of m ctx d'" "ByteSlice w"] string_key_hash [of hs] show ?thesis
      unfolding k by (auto simp: key_of_def blob_def split: if_splits)
  qed
  ultimately show ?thesis using l' s by (intro exI [of _ l']) (simp add: MemoryCache_Set_def store_ok_def)
qed

lemma MemoryCache_Delete_blob:
  assumes ok: "store_ok l" and n: "named m ctx d"
  shows "fst (MemoryCache_Delete hs m ctx d l) = None \<and> store_ok (snd (MemoryCache_Delete hs m ctx d l))
    \<and> (\<forall>d'. named m ctx d' \<longrightarrow> blob hs m ctx (snd (MemoryCache_Delete hs m ctx d l)) d' =
         (if Lru.keyHash hs (key_of m ctx d) = Lru.keyHash hs (key_of m ctx d') then None else blob hs m ctx l d'))"
proof -
  obtain s where s: "MemoryCache_key m ctx d = Inr s" using named_key [OF n] by blast
  have k: "key_of m ctx d = string_key s" by (simp add: key_of_def s)
  have lo: "lru_ok l" and ab: "all_bytes l" using ok by (simp_all add: store_ok_def)
  note r = lru.remove_law [OF lo string_key_hash, of hs s]
  obtain h where h: "Lru.keyHash hs (string_key s) = Some h" using string_key_hash by blast
  have "all_bytes (snd (LRU_Remove hs (string_key s) l))"
    using LRU_Remove_abs(2) [OF _ h, of l] lo ab by (simp add: lru_ok_def all_bytes_def)
  with r s k string_key_hash [of hs] show ?thesis
    by (simp add: MemoryCache_Delete_def store_ok_def blob_def key_of_def)
qed

definition writer_for :: "setOnClose \<Rightarrow> Digest option \<Rightarrow> bytes \<Rightarrow> bool" where
  "writer_for w d buf \<longleftrightarrow> w = \<lparr>wDigest = d, wBuffer = buf\<rparr>"

definition key_hash_eq :: "hashes \<Rightarrow> MemoryCache \<Rightarrow> request_ctx \<Rightarrow> Digest option \<Rightarrow> Digest option \<Rightarrow> bool" where
  "key_hash_eq hs m ctx d d' \<longleftrightarrow> Lru.keyHash hs (key_of m ctx d) = Lru.keyHash hs (key_of m ctx d')"

lemma MemoryCache_Set_stores:
  assumes "store_ok l" and "named m ctx d"
  shows "\<exists>l'. MemoryCache_Set hs m ctx d v l = Some (None, l') \<and> store_ok l'
    \<and> stores (named m ctx) (key_hash_eq hs m ctx) d v (blob hs m ctx l) (blob hs m ctx l')"
  using MemoryCache_Set_blob [OF assms, of hs v] by (simp add: stores_def key_hash_eq_def)

interpretation mc: exact_cache "memory_cache hs m ctx" store_ok "blob hs m ctx" writer_for "named m ctx"
    "key_hash_eq hs m ctx" for hs m ctx
proof unfold_locales
  fix l l' :: store and d d' :: "Digest option" and ds v r w buf p
  show "key_hash_eq hs m ctx d d" by (simp add: key_hash_eq_def)
  show "key_hash_eq hs m ctx d d' \<Longrightarrow> blob hs m ctx l d = blob hs m ctx l d'"
    by (simp add: blob_def lru_content_def key_hash_eq_def)
  assume ok: "store_ok l"
  show "named m ctx d \<Longrightarrow> \<exists>r s'. c_Get (memory_cache hs m ctx) d l = Some (r, s') \<and> store_ok s'
      \<and> drops (named m ctx) (blob hs m ctx l) (blob hs m ctx s')
      \<and> (case r of Inr v \<Rightarrow> blob hs m ctx l d = Some v | Inl e \<Rightarrow> blob hs m ctx l d = None)"
    using MemoryCache_Get_blob [OF ok, of m ctx d hs]
    by (cases "MemoryCache_Get hs m ctx d l") (auto simp: memory_cache_def split: option.splits)
  show "named m ctx d \<Longrightarrow> c_Get (memory_cache hs m ctx) d l = Some (r, l') \<Longrightarrow> blob hs m ctx l' = blob hs m ctx l"
    using MemoryCache_Get_blob [OF ok, of m ctx d hs] by (simp add: memory_cache_def)
  show "named m ctx d \<Longrightarrow> \<exists>s'. c_Contains (memory_cache hs m ctx) d l = Some (Inr (blob hs m ctx l d \<noteq> None), s')
      \<and> store_ok s' \<and> blob hs m ctx s' = blob hs m ctx l"
    using MemoryCache_Contains_blob [OF ok, of m ctx d hs]
    by (cases "MemoryCache_Contains hs m ctx d l") (simp add: memory_cache_def)
  show "\<forall>d\<in>set ds. named m ctx d \<Longrightarrow> \<exists>s'.
      c_FindMissing (memory_cache hs m ctx) ds l = Some (Inr (filter (\<lambda>d. blob hs m ctx l d = None) ds), s')
      \<and> store_ok s' \<and> drops (named m ctx) (blob hs m ctx l) (blob hs m ctx s')"
    using MemoryCache_FindMissing_blob [OF ok, of ds m ctx hs]
    by (cases "MemoryCache_FindMissing hs m ctx ds l") (simp add: memory_cache_def)
  show "\<forall>d\<in>set ds. named m ctx d \<Longrightarrow> \<exists>s'.
      c_GetMulti (memory_cache hs m ctx) ds l = Some (Inr (\<lambda>d. if d \<in> set ds then blob hs m ctx l d else None), s')
      \<and> store_ok s' \<and> drops (named m ctx) (blob hs m ctx l) (blob hs m ctx s')"
    using MemoryCache_GetMulti_blob [OF ok, of ds m ctx hs]
    by (cases "MemoryCache_GetMulti hs m ctx ds l") (simp add: memory_cache_def)
  show "named m ctx d \<Longrightarrow> \<exists>s'. c_Set (memory_cache hs m ctx) d v l = Some (None, s') \<and> store_ok s'
      \<and> stores (named m ctx) (key_hash_eq hs m ctx) d v (blob hs m ctx l) (blob hs m ctx s')"
    using MemoryCache_Set_stores [OF ok, of m ctx d hs v] by (simp add: memory_cache_def)
  show "named m ctx d \<Longrightarrow> \<exists>s'. c_Delete (memory_cache hs m ctx) d l = Some (None, s') \<and> store_ok s'
      \<and> (\<forall>d'. named m ctx d' \<longrightarrow> blob hs m ctx s' d' = (if key_hash_eq hs m ctx d d' then None else blob hs m ctx l d'))"
    using MemoryCache_Delete_blob [OF ok, of m ctx d hs]
    by (cases "MemoryCache_Delete hs m ctx d l") (simp add: memory_cache_def key_hash_eq_def)
  show "named m ctx d \<Longrightarrow> \<exists>w s'. c_Writer (memory_cache hs m ctx) d l = Some (Inr w, s') \<and> store_ok s'
      \<and> drops (named m ctx) (blob hs m ctx l) (blob hs m ctx s') \<and> writer_for w d []"
    using ok by (simp add: memory_cache_def MemoryCache_Writer_def writer_for_def)
  show "writer_for w d buf \<Longrightarrow> \<exists>w' s'. w_Write (memory_cache hs m ctx) w p l = Some ((length p, None, w'), s') \<and> store_ok s'
      \<and> drops (named m ctx) (blob hs m ctx l) (blob hs m ctx s') \<and> writer_for w' d (buf @ p)"
    using ok by (simp add: memory_cache_def writer_for_def setOnClose_Write_def)
  show "named m ctx d \<Longrightarrow> writer_for w d buf \<Longrightarrow> \<exists>s'. w_Close (memory_cache hs m ctx) w l = Some (None, s') \<and> store_ok s'
      \<and> stores (named m ctx) (key_hash_eq hs m ctx) d buf (blob hs m ctx l) (blob hs m ctx s')"
    using MemoryCache_Set_stores [OF ok, of m ctx d hs buf] by (simp add: memory_cache_def writer_for_def setOnClose_Close_def)
qed

lemma memory_cache_simps [simp]:
  "c_Contains (memory_cache hs m ctx) d l = Some (MemoryCache_Contains hs m ctx d l)"
  "c_FindMissing (memory_cache hs m ctx) ds l = Some (MemoryCache_FindMissing hs m ctx ds l)"
  "c_Get (memory_cache hs m ctx) d l = Some (MemoryCache_Get hs m ctx d l)"
  "c_GetMulti (memory_cache hs m ctx) ds l = Some (MemoryCache_GetMulti hs m ctx ds l)"
  "c_Set (memory_cache hs m ctx) = MemoryCache_Set hs m ctx"
  "c_Delete (memory_cache hs m ctx) d l = Some (MemoryCache_Delete hs m ctx d l)"
  "c_Reader (memory_cache hs m ctx) d off l = Some (MemoryCache_Reader hs m ctx d off l)"
  "r_Read (memory_cache hs m ctx) r n l = Some (bytes_Read r n, l)"
  "r_Close (memory_cache hs m ctx) r l = Some (None, l)"
  "c_Writer (memory_cache hs m ctx) d l = Some (Inr (MemoryCache_Writer d), l)"
  "w_Write (memory_cache hs m ctx) w p l = Some ((length p, None, setOnClose_Write w p), l)"
  "w_Close (memory_cache hs m ctx) = setOnClose_Close hs m ctx"
  by (simp_all add: memory_cache_def)

lemma MemoryCache_Set_fits:
  assumes ok: "store_ok l" and n: "named m ctx d" and missing: "blob hs m ctx l d = None"
    and size: "sizeFn l = cache_sizeFn" and fits: "drift l + int (length v) \<le> LRU_MaxSize l"
  shows "\<exists>l'. MemoryCache_Set hs m ctx d v l = Some (None, l') \<and> store_ok l' \<and> blob hs m ctx l' d = Some v"
proof -
  obtain s where s: "MemoryCache_key m ctx d = Inr s" using named_key [OF n] by blast
  obtain h where h: "Lru.keyHash hs (string_key s) = Some h" using string_key_hash by blast
  have lo: "lru_ok l" and ab: "all_bytes l" and inv: "lru_inv l" using ok by (simp_all add: store_ok_def lru_ok_def)
  have b: "blob hs m ctx l' d = (case map_of (lru_abs l') h of Some (ByteSlice v) \<Rightarrow> Some v | _ \<Rightarrow> None)" for l'
    using s h by (simp add: blob_def key_of_def lru_content_def)
  have None: "map_of (lru_abs l) h = None"
    using missing all_bytes_map_of [OF ab, of h] by (auto simp: b split: option.splits cache_value.splits)
  have nn: "0 \<le> sizeFn l (ByteSlice v)" using size by (simp add: cache_sizeFn_def)
  obtain l' k where l': "LRU_Add hs (string_key s) (ByteSlice v) l = Some (True, l')"
      "lru_abs l' = take k ((h, ByteSlice v) # lru_abs l)"
      "k < Suc (length (lru_abs l)) \<longrightarrow> maxSize l < drift l + sum_list (map (sizeFn l \<circ> snd) (take (Suc k) ((h, ByteSlice v) # lru_abs l)))"
    by (rule LRU_Add_new [OF inv h None lru_ok_drift(2) [OF lo] nn lru_ok_drift(1) [OF lo]])
  have "k \<noteq> 0" using l'(3) size fits by (intro notI) (simp add: LRU_MaxSize_def cache_sizeFn_def)
  then have "map_of (lru_abs l') h = Some (ByteSlice v)" using l'(2) by (cases k) simp_all
  moreover have "MemoryCache_Set hs m ctx d v l = Some (None, l')" using s l'(1) by (simp add: MemoryCache_Set_def)
  moreover from this have "store_ok l'" using MemoryCache_Set_stores [OF ok n, of hs v] by simp
  ultimately show ?thesis by (simp add: b)
qed

text \<open>What the LRU cache has room for: a blob that is there already, or a new one within its maximum.\<close>

definition memory_fits :: "hashes \<Rightarrow> MemoryCache \<Rightarrow> request_ctx \<Rightarrow> store \<Rightarrow> Digest option \<Rightarrow> bytes \<Rightarrow> bool" where
  "memory_fits hs m ctx l d v \<longleftrightarrow>
     blob hs m ctx l d = Some v \<or>
     blob hs m ctx l d = None \<and> sizeFn l = cache_sizeFn \<and> drift l + int (length v) \<le> LRU_MaxSize l"

text \<open>A look-up changes the order of the entries only.\<close>

lemma mset_touch:
  assumes "distinct (map fst xs)"
  shows "mset (touch k xs) = mset xs"
proof (cases "map_of xs k")
  case (Some v)
  then obtain ys zs where xs: "xs = ys @ (k, v) # zs" by (meson map_of_SomeD split_list)
  have "filter (\<lambda>x. fst x \<noteq> k) xs = ys @ zs" using assms unfolding xs by (rule filter_middle)
  then show ?thesis by (simp add: touch_def Some) (simp add: xs)
qed (simp add: touch_def)

lemma LRU_Get_accounts:
  assumes "lru_inv l"
  shows "sizeFn (snd (LRU_Get hs (string_key s) l)) = sizeFn l" "LRU_MaxSize (snd (LRU_Get hs (string_key s) l)) = LRU_MaxSize l"
    "drift (snd (LRU_Get hs (string_key s) l)) = drift l"
proof -
  let ?l = "snd (LRU_Get hs (string_key s) l)"
  obtain h where h: "Lru.keyHash hs (string_key s) = Some h" using string_key_hash by blast
  note g = LRU_Get_abs [OF assms h]
  then obtain ev where ev: "?l = l\<lparr>evictList := ev\<rparr>" by blast
  then show f: "sizeFn ?l = sizeFn l" "LRU_MaxSize ?l = LRU_MaxSize l" by (simp_all add: LRU_MaxSize_def)
  have "mset (lru_abs ?l) = mset (lru_abs l)" using g mset_touch [OF distinct_keys [OF assms]] by simp
  then have "mset (map (sizeFn l \<circ> snd) (lru_abs ?l)) = mset (map (sizeFn l \<circ> snd) (lru_abs l))"
    by (metis mset_map)
  then have "sum_list (map (sizeFn l \<circ> snd) (lru_abs ?l)) = sum_list (map (sizeFn l \<circ> snd) (lru_abs l))"
    by (metis sum_mset_sum_list)
  then show "drift ?l = drift l" using f(1) ev by (simp add: drift_def used_def)
qed

lemma Contains_accounts:
  assumes "store_ok l" and "named m ctx d"
  shows "sizeFn (snd (MemoryCache_Contains hs m ctx d l)) = sizeFn l"
    "LRU_MaxSize (snd (MemoryCache_Contains hs m ctx d l)) = LRU_MaxSize l"
    "drift (snd (MemoryCache_Contains hs m ctx d l)) = drift l"
proof -
  obtain s where s: "MemoryCache_key m ctx d = Inr s" using named_key [OF assms(2)] by blast
  obtain h where h: "Lru.keyHash hs (string_key s) = Some h" using string_key_hash by blast
  have inv: "lru_inv l" using assms(1) by (simp add: store_ok_def lru_ok_def)
  have "snd (MemoryCache_Contains hs m ctx d l) = snd (LRU_Get hs (string_key s) l)"
    using LRU_Get_abs [OF inv h] s by (cases "LRU_Contains hs (string_key s) l") (simp add: MemoryCache_Contains_def)
  then show "sizeFn (snd (MemoryCache_Contains hs m ctx d l)) = sizeFn l"
    "LRU_MaxSize (snd (MemoryCache_Contains hs m ctx d l)) = LRU_MaxSize l"
    "drift (snd (MemoryCache_Contains hs m ctx d l)) = drift l"
    using LRU_Get_accounts [OF inv] by simp_all
qed

lemma FindMissing_accounts:
  assumes "store_ok l" and "\<forall>d\<in>set ds. named m ctx d"
  shows "sizeFn (snd (MemoryCache_FindMissing hs m ctx ds l)) = sizeFn l
    \<and> LRU_MaxSize (snd (MemoryCache_FindMissing hs m ctx ds l)) = LRU_MaxSize l
    \<and> drift (snd (MemoryCache_FindMissing hs m ctx ds l)) = drift l"
  using assms
proof (induction ds arbitrary: l)
  case (Cons d ds)
  have n: "named m ctx d" using Cons.prems by simp
  obtain b l' where c: "MemoryCache_Contains hs m ctx d l = (b, l')" by fastforce
  with MemoryCache_Contains_blob [OF Cons.prems(1) n, of hs] Contains_accounts [OF Cons.prems(1) n, of hs]
  have "b = Inr (blob hs m ctx l d \<noteq> None)" "store_ok l'" "sizeFn l' = sizeFn l" "LRU_MaxSize l' = LRU_MaxSize l"
    "drift l' = drift l" by simp_all
  with Cons.IH [of l'] Cons.prems(2) c show ?case
    by (cases "MemoryCache_FindMissing hs m ctx ds l'") (auto split: sum.split)
qed simp

interpretation ms: streaming_cache "memory_cache hs m ctx" store_ok "blob hs m ctx" writer_for "named m ctx"
    "key_hash_eq hs m ctx" "(=)" "memory_fits hs m ctx" for hs m ctx
proof unfold_locales
  fix l l' :: store and d :: "Digest option" and ds v w buf p n and rd :: bytes
    and r1 :: "error + Digest option list" and r2 :: "error + setOnClose" and r3 :: "nat \<times> error option \<times> setOnClose"
    and r4 :: "error option"
  assume ok: "store_ok l"
  show "named m ctx d \<Longrightarrow> \<exists>r s'. c_Reader (memory_cache hs m ctx) d 0 l = Some (r, s') \<and> store_ok s'
      \<and> blob hs m ctx s' = blob hs m ctx l
      \<and> (case r of Inr rd \<Rightarrow> \<exists>v. blob hs m ctx l d = Some v \<and> rd = v | Inl e \<Rightarrow> blob hs m ctx l d = None \<and> err_code e = NotFound)"
    using MemoryCache_Get_blob [OF ok, of m ctx d hs]
    by (cases "MemoryCache_Get hs m ctx d l") (auto simp: MemoryCache_Reader_def split: option.splits)
  show "rd = v \<Longrightarrow> 0 < n \<Longrightarrow> \<exists>bs e rd' s' v'. r_Read (memory_cache hs m ctx) rd n l = Some ((bs, e, rd'), s') \<and> store_ok s'
      \<and> blob hs m ctx s' = blob hs m ctx l \<and> v = bs @ v' \<and> rd' = v' \<and> (e = None \<and> bs \<noteq> [] \<or> e = Some EOF \<and> v' = [])"
    using ok by (simp add: bytes_Read_def)
  show "\<exists>s'. r_Close (memory_cache hs m ctx) rd l = Some (None, s') \<and> store_ok s' \<and> blob hs m ctx s' = blob hs m ctx l"
    using ok by simp
  show "\<forall>d\<in>set ds. named m ctx d \<Longrightarrow> c_FindMissing (memory_cache hs m ctx) ds l = Some (r1, l') \<Longrightarrow>
      blob hs m ctx l' = blob hs m ctx l \<and> (memory_fits hs m ctx l d v \<longrightarrow> memory_fits hs m ctx l' d v)"
    using MemoryCache_FindMissing_blob [OF ok, of ds m ctx hs] FindMissing_accounts [OF ok, of ds m ctx hs]
    by (simp add: memory_fits_def)
  show "c_Writer (memory_cache hs m ctx) d l = Some (r2, l') \<Longrightarrow>
      blob hs m ctx l' = blob hs m ctx l \<and> (memory_fits hs m ctx l d v \<longrightarrow> memory_fits hs m ctx l' d v)"
    by simp
  show "writer_for w d buf \<Longrightarrow> w_Write (memory_cache hs m ctx) w p l = Some (r3, l') \<Longrightarrow>
      blob hs m ctx l' = blob hs m ctx l \<and> (memory_fits hs m ctx l d v \<longrightarrow> memory_fits hs m ctx l' d v)"
    by simp
  assume n: "named m ctx d" and w: "writer_for w d buf" and f: "memory_fits hs m ctx l d buf"
    and c: "w_Close (memory_cache hs m ctx) w l = Some (r4, l')"
  have s: "MemoryCache_Set hs m ctx d buf l = Some (r4, l')"
    using c w by (simp add: writer_for_def setOnClose_Close_def)
  show "blob hs m ctx l' d = Some buf"
  proof (cases "blob hs m ctx l d")
    case None
    then show ?thesis
      using MemoryCache_Set_fits [OF ok n None, of buf] f s by (auto simp: memory_fits_def)
  next
    case (Some v)
    then have v: "v = buf" using f by (simp add: memory_fits_def)
    obtain k where k: "MemoryCache_key m ctx d = Inr k" using named_key [OF n] by blast
    obtain h where h: "Lru.keyHash hs (string_key k) = Some h" using string_key_hash by blast
    have inv: "lru_inv l" using ok by (simp add: store_ok_def lru_ok_def)
    have "map_of (lru_abs l) h \<noteq> None"
      using Some k h by (auto simp: blob_def key_of_def lru_content_def split: option.splits)
    then obtain old where "map_of (lru_abs l) h = Some old" by blast
    then obtain c' where c': "LRU_Add hs (string_key k) (ByteSlice buf) l = Some (True, c')"
        "lru_abs c' = (h, ByteSlice buf) # filter (\<lambda>x. fst x \<noteq> h) (lru_abs l)"
      using LRU_Add_known [OF inv h] by metis
    then have "l' = c'" using s k by (simp add: MemoryCache_Set_def)
    then show ?thesis using c'(2) k h by (simp add: blob_def key_of_def lru_content_def)
  qed
qed

section \<open>Keys\<close>

lemma Validate_Inr:
  assumes "Validate d = Inr h"
  shows "h = '''' \<or> plain h" and "CHR ''/'' \<notin> set h"
proof -
  have *: "h = '''' \<or> (length h = 64 \<and> list_all is_hex h)"
    using assms by (auto simp: Validate_def split: option.splits if_splits)
  then show "CHR ''/'' \<notin> set h" using hex_no_slash by auto
  with * show "h = '''' \<or> plain h" by (auto simp: plain_def)
qed

lemma takeWhile_group: "CHR ''/'' \<notin> set g \<Longrightarrow> takeWhile (\<lambda>c. c \<noteq> CHR ''/'') (g @ ''/'') = g"
  by (simp add: takeWhile_append takeWhile_eq_all_conv [THEN iffD2])

lemma splitOn_group: "CHR ''/'' \<notin> set g \<Longrightarrow> splitOn CHR ''/'' (g @ ''/'') = [g, '''']"
  using splitOn_append [of "CHR ''/''" g "''''"] by (simp add: splitOn_plain)

text \<open>The key of a path of elements below a group's prefix.\<close>

lemma key_elements:
  assumes "plain g"
  shows "filepath_Join ((g @ ''/'') # es) =
    (let p = joinWith ''/'' (clean_elems False [g] (concat (map (splitOn CHR ''/'') es))) in if p = [] then ''.'' else p)"
proof -
  have g: "CHR ''/'' \<notin> set g" using assms by (simp add: plain_def)
  have "plain (takeWhile (\<lambda>c. c \<noteq> CHR ''/'') (g @ ''/''))" using assms takeWhile_group [OF g] by simp
  from filepath_Join_relative [OF this, of es] show ?thesis
    by (simp only: list.map concat.simps splitOn_group [OF g] append_Cons append_Nil clean_plain [OF assms] clean_empty)
qed

lemma joinWith_hd_nonempty: "x \<noteq> [] \<Longrightarrow> joinWith s (x # xs) \<noteq> []"
  by (cases xs) auto

lemma CAS_key:
  assumes "cacheType m = CASCacheType" and "user_prefix ctx = Some (g @ ''/'')" and "plain g" and "Validate d = Inr h"
  shows "MemoryCache_key m ctx d = Inr (joinWith ''/'' (g # (if h = '''' then [] else [h])))"
proof -
  have "splitOn CHR ''/'' h = [h]" using Validate_Inr(2) [OF assms(4)] by (rule splitOn_plain)
  then have "clean_elems False [g] (concat (map (splitOn CHR ''/'') [CacheType_Prefix CASCacheType, h]))
      = g # (if h = '''' then [] else [h])"
    using Validate_Inr(1) [OF assms(4)] by (auto simp: plain_def)
  moreover have "g \<noteq> []" using assms(3) by (simp add: plain_def)
  ultimately show ?thesis
    using assms by (simp add: MemoryCache_key_def UserPrefixFromContext_def key_elements Let_def joinWith_hd_nonempty
        del: joinWith.simps)
qed

lemma AC_key:
  assumes "cacheType m = ActionCacheType" and "user_prefix ctx = Some (g @ ''/'')" and "plain g" and "Validate d = Inr h"
    and "clean_elems False [''ac'', g] (splitOn CHR ''/'' (remoteInstanceName m)) = st" and "st \<noteq> []" and "hd st \<noteq> []"
    and "\<And>es. clean_elems False [''ac'', g] (splitOn CHR ''/'' (remoteInstanceName m) @ es) = clean_elems False (rev st) es"
  shows "MemoryCache_key m ctx d = Inr (joinWith ''/'' (st @ (if h = '''' then [] else [h])))"
proof -
  have "splitOn CHR ''/'' h = [h]" using Validate_Inr(2) [OF assms(4)] by (rule splitOn_plain)
  then have "clean_elems False [g] (concat (map (splitOn CHR ''/'') [CacheType_Prefix ActionCacheType, remoteInstanceName m, h]))
      = st @ (if h = '''' then [] else [h])"
    using Validate_Inr(1) [OF assms(4)] assms(8) [of "[h]"] by (auto simp: plain_def)
  moreover have "joinWith ''/'' (st @ ys) \<noteq> []" for ys
    using assms(6,7) joinWith_hd_nonempty [of "hd st" "''/''" "tl st @ ys"] by (cases st) simp_all
  ultimately show ?thesis
    using assms(1-4) by (simp add: MemoryCache_key_def UserPrefixFromContext_def key_elements Let_def del: joinWith.simps)
qed

section \<open>Witnesses\<close>

definition example_digest :: "Digest option" where
  "example_digest = Some \<lparr>dHash = example_hash, dSizeBytes = 2\<rparr>"

definition example_ctx :: "string \<Rightarrow> request_ctx" where
  "example_ctx g = \<lparr>auth_group = Some g, user_prefix = Some (g @ ''/'')\<rparr>"

definition example_handle :: MemoryCache where
  "example_handle = \<lparr>cacheType = CASCacheType, remoteInstanceName = ''''\<rparr>"

definition example_store :: store where
  "example_store = snd (projr (NewMemoryCache 10))"

lemma example_Validate: "Validate example_digest = Inr example_hash"
  using example_hash by (simp add: Validate_def example_digest_def hashKeyLength_def)

lemma example_plain: "plain ''GR1''" "plain ''GR2''" "plain example_hash"
  using Validate_Inr(1) [OF example_Validate] example_hash by (auto simp: plain_def)

lemma example_key:
  "plain g \<Longrightarrow> MemoryCache_key example_handle (example_ctx g) example_digest = Inr (g @ ''/'' @ example_hash)"
  using CAS_key [of example_handle "example_ctx g" g example_digest example_hash] example_Validate example_hash
  by (auto simp: example_handle_def example_ctx_def)

lemma example_named: "plain g \<Longrightarrow> named example_handle (example_ctx g) example_digest"
  by (simp add: named_def example_key)

lemma example_store: "NewLRU (Some cache_sizeFn) False 10 = Inr example_store"
  by (simp add: example_store_def NewMemoryCache_def NewLRU_def)

lemma example_store_ok: "store_ok example_store"
  using New_lru_ok [OF example_store] lru_inv_New(2) [OF example_store]
  by (simp add: store_ok_def all_bytes_def cache_sizeFn_def split: cache_value.splits)

lemma example_Get: "isl (fst (MemoryCache_Get hs example_handle (example_ctx ''GR1'') example_digest example_store))"
proof -
  have "lru_abs example_store = []" by (rule lru_inv_New(2) [OF example_store])
  then have "blob hs example_handle (example_ctx ''GR1'') example_store example_digest = None"
    by (auto simp: blob_def lru_content_def split: option.splits bind_splits)
  with MemoryCache_Get_blob [OF example_store_ok example_named [OF example_plain(1)], of hs] show ?thesis by simp
qed

section \<open>Properties\<close>

text \<open>Content-addressed blobs of different groups never share a key: if two requests on the CAS, each with the
  prefix of a group whose id is a plain path element, have the same key, the groups are the same and
  the digests have the same hash.\<close>

theorem CAS_keys_isolated:
  assumes "MemoryCache_key m1 ctx1 d1 = Inr k" and "MemoryCache_key m2 ctx2 d2 = Inr k"
    and "cacheType m1 = CASCacheType" and "cacheType m2 = CASCacheType"
    and "user_prefix ctx1 = Some (g1 @ ''/'')" and "user_prefix ctx2 = Some (g2 @ ''/'')" and "plain g1" and "plain g2"
  shows "g1 = g2 \<and> Validate d1 = Validate d2"
proof -
  obtain h1 where h1: "Validate d1 = Inr h1" using assms(1) by (auto simp: MemoryCache_key_def split: sum.splits)
  obtain h2 where h2: "Validate d2 = Inr h2" using assms(2) by (auto simp: MemoryCache_key_def split: sum.splits)
  have "joinWith ''/'' (g1 # (if h1 = '''' then [] else [h1])) = joinWith ''/'' (g2 # (if h2 = '''' then [] else [h2]))"
    using CAS_key [OF assms(3,5,7) h1] CAS_key [OF assms(4,6,8) h2] assms(1,2) by simp
  then have "g1 # (if h1 = '''' then [] else [h1]) = g2 # (if h2 = '''' then [] else [h2])"
    by (rule joinWith_inj)
      (use Validate_Inr(2) [OF h1] Validate_Inr(2) [OF h2] assms(7,8) in \<open>auto simp: plain_def split: if_splits\<close>)
  with h1 h2 show ?thesis by (auto split: if_splits)
qed

theorem CAS_keys_isolated_witness:
  "MemoryCache_key example_handle (example_ctx ''GR1'') example_digest = Inr (''GR1/'' @ example_hash) \<and> ''GR1'' = ''GR1''
    \<and> Validate example_digest = Validate example_digest"
  using CAS_keys_isolated [of example_handle "example_ctx ''GR1''" example_digest "''GR1/'' @ example_hash"
      example_handle "example_ctx ''GR1''" example_digest "''GR1''" "''GR1''"]
    example_key [OF example_plain(1)] example_plain(1)
  by (simp add: example_handle_def example_ctx_def)

text \<open>The action cache is not isolated in this way: the instance name is part of the path and is not
  checked, so a user of one group who names the instance \<^verbatim>\<open>../../G/ac\<close> reads and writes, for every digest, the
  key that group \<open>G\<close> uses without an instance name.\<close>

theorem ActionCache_key_escapes:
  assumes "Validate d = Inr h" and "plain g1" and "plain g2"
    and "user_prefix ctx1 = Some (g1 @ ''/'')" and "user_prefix ctx2 = Some (g2 @ ''/'')"
  shows "\<exists>k. MemoryCache_key (WithIsolation m ActionCacheType (''../../'' @ g2 @ ''/ac'')) ctx1 d = Inr k
    \<and> MemoryCache_key (WithIsolation m ActionCacheType '''') ctx2 d = Inr k"
proof -
  have g2: "CHR ''/'' \<notin> set g2" using assms(3) by (simp add: plain_def)
  have "splitOn CHR ''/'' (g2 @ ''/ac'') = [g2, ''ac'']"
    using splitOn_append [of "CHR ''/''" g2 "''ac''"] splitOn_plain [OF g2] by simp
  then have sp: "splitOn CHR ''/'' (''../../'' @ g2 @ ''/ac'') = [''..'', ''..'', g2, ''ac'']" by simp
  have n: "g1 \<noteq> ''..''" "g2 \<noteq> ''..''" "g2 \<noteq> ''.''" "g2 \<noteq> ''''" using assms(2,3) by (auto simp: plain_def)
  have "MemoryCache_key (WithIsolation m ActionCacheType (''../../'' @ g2 @ ''/ac'')) ctx1 d
      = Inr (joinWith ''/'' ([g2, ''ac''] @ (if h = '''' then [] else [h])))"
    by (rule AC_key [OF _ assms(4,2,1)]) (use sp n in \<open>simp_all add: WithIsolation_def\<close>)
  moreover have "MemoryCache_key (WithIsolation m ActionCacheType '''') ctx2 d
      = Inr (joinWith ''/'' ([g2, ''ac''] @ (if h = '''' then [] else [h])))"
    by (rule AC_key [OF _ assms(5,3,1)]) (use n in \<open>simp_all add: WithIsolation_def\<close>)
  ultimately show ?thesis by blast
qed

theorem ActionCache_key_escapes_witness:
  "\<exists>k. MemoryCache_key (WithIsolation example_handle ActionCacheType ''../../GR2/ac'') (example_ctx ''GR1'') example_digest = Inr k
    \<and> MemoryCache_key (WithIsolation example_handle ActionCacheType '''') (example_ctx ''GR2'') example_digest = Inr k"
  using ActionCache_key_escapes [OF example_Validate example_plain(1,2),
      of "example_ctx ''GR1''" "example_ctx ''GR2''" example_handle]
  by (simp add: example_ctx_def)

text \<open>Reading what was written: after \<open>Set\<close> of a valid digest \<open>Get\<close> returns the data or, if it was evicted, NotFound;
  and whatever any digest reads as afterwards is the new data, under the same key, or
  what it read as before.\<close>

theorem MemoryCache_Get_after_Set:
  assumes "store_ok l" and "named m ctx d"
  shows "\<exists>l'. MemoryCache_Set hs m ctx d v l = Some (None, l') \<and> store_ok l'
    \<and> fst (MemoryCache_Get hs m ctx d l') \<in> {Inr v, Inl (Err NotFound ''Key %s not found'')}
    \<and> (\<forall>d' w. named m ctx d' \<and> fst (MemoryCache_Get hs m ctx d' l') = Inr w \<longrightarrow>
         w = v \<or> fst (MemoryCache_Get hs m ctx d' l) = Inr w)"
proof -
  obtain l' where l': "MemoryCache_Set hs m ctx d v l = Some (None, l')" "store_ok l'"
    and b: "\<And>d' w. named m ctx d' \<Longrightarrow> blob hs m ctx l' d' = Some w \<Longrightarrow>
         (if Lru.keyHash hs (key_of m ctx d) = Lru.keyHash hs (key_of m ctx d') then w = v else blob hs m ctx l d' = Some w)"
    using mc.Set_law [OF assms, of hs v] by (auto simp: memory_cache_def stores_def key_hash_eq_def)
  have g: "fst (MemoryCache_Get hs m ctx d' l0) = (case blob hs m ctx l0 d' of Some v \<Rightarrow> Inr v | None \<Rightarrow> Inl (Err NotFound ''Key %s not found''))"
    if "store_ok l0" "named m ctx d'" for d' l0
    using MemoryCache_Get_blob [OF that] by blast
  have "fst (MemoryCache_Get hs m ctx d l') \<in> {Inr v, Inl (Err NotFound ''Key %s not found'')}"
    using g [OF l'(2) assms(2)] b [OF assms(2)] by (cases "blob hs m ctx l' d") auto
  moreover have "w = v \<or> fst (MemoryCache_Get hs m ctx d' l) = Inr w"
    if "named m ctx d'" "fst (MemoryCache_Get hs m ctx d' l') = Inr w" for d' w
    using g [OF l'(2) that(1)] g [OF assms(1) that(1)] b [OF that(1), of w] that(2) by (auto split: option.splits if_splits)
  ultimately show ?thesis using l' by blast
qed

theorem MemoryCache_Get_after_Set_witness:
  "\<exists>l'. MemoryCache_Set example_hashes example_handle (example_ctx ''GR1'') example_digest [7] example_store = Some (None, l')
    \<and> fst (MemoryCache_Get example_hashes example_handle (example_ctx ''GR1'') example_digest l')
        \<in> {Inr [7], Inl (Err NotFound ''Key %s not found'')}"
  using MemoryCache_Get_after_Set [OF example_store_ok example_named [OF example_plain(1)], of example_hashes "[7]"]
  by blast

text \<open>\<open>FindMissing\<close> lists, in order, exactly the digests whose \<open>Get\<close> would fail, and no \<open>Get\<close> answers differently after it.\<close>

theorem MemoryCache_FindMissing_exact:
  assumes "store_ok l" and "\<forall>d\<in>set ds. named m ctx d"
  shows "fst (MemoryCache_FindMissing hs m ctx ds l) = Inr (filter (\<lambda>d. isl (fst (MemoryCache_Get hs m ctx d l))) ds)
    \<and> (\<forall>d. named m ctx d \<longrightarrow>
         fst (MemoryCache_Get hs m ctx d (snd (MemoryCache_FindMissing hs m ctx ds l))) = fst (MemoryCache_Get hs m ctx d l))"
proof -
  note f = MemoryCache_FindMissing_blob [OF assms, of hs]
  have "isl (fst (MemoryCache_Get hs m ctx d l)) \<longleftrightarrow> blob hs m ctx l d = None" if "named m ctx d" for d
    using MemoryCache_Get_blob [OF assms(1) that, of hs] by (auto split: option.splits)
  then have "filter (\<lambda>d. isl (fst (MemoryCache_Get hs m ctx d l))) ds = filter (\<lambda>d. blob hs m ctx l d = None) ds"
    using assms(2) by (intro filter_cong) auto
  with f MemoryCache_Get_blob [of _ m ctx _ hs] assms(1) show ?thesis by auto
qed

theorem MemoryCache_FindMissing_exact_witness:
  "fst (MemoryCache_FindMissing example_hashes example_handle (example_ctx ''GR1'') [example_digest] example_store)
     = Inr [example_digest]"
  using MemoryCache_FindMissing_exact [OF example_store_ok, of "[example_digest]" example_handle "example_ctx ''GR1''" example_hashes]
    example_named [OF example_plain(1)] by (simp add: example_Get)

text \<open>Where anonymous use is enabled, a user who is authenticated but has no group is not refused: the error is
  dropped and the context gets the empty prefix, outside every group's namespace.\<close>

theorem groupless_user_gets_empty_prefix:
  assumes "has_authenticator env" and "auth_group ctx = Some ''''"
  shows "AttachUserPrefixToContext ctx env =
    (if anonymous_enabled env then Inr (ctx\<lparr>user_prefix := Some ''''\<rparr>)
     else Inl (Err PermissionDenied ''Anonymous access disabled, permission denied.''))"
  using assms by (simp add: AttachUserPrefixToContext_def userPrefixCacheKey_def)

theorem groupless_user_gets_empty_prefix_witness:
  "AttachUserPrefixToContext (example_ctx '''') \<lparr>has_authenticator = True, anonymous_enabled = True\<rparr>
     = Inr ((example_ctx '''')\<lparr>user_prefix := Some ''''\<rparr>)"
  using groupless_user_gets_empty_prefix [of "\<lparr>has_authenticator = True, anonymous_enabled = True\<rparr>" "example_ctx ''''"]
  by (simp add: example_ctx_def)

end
