(* ===== verification/Status.thy ===== *)
theory Status
  imports Prelude
begin

text \<open>
  \<^verbatim>\<open>server/util/status/status.go\<close>: the errors of the server, a gRPC code and a message. Go's \<^verbatim>\<open>error\<close> is an \<open>error option\<close>,
  \<open>None\<close> being \<^verbatim>\<open>nil\<close>, whose code is \<^verbatim>\<open>codes.OK\<close>. The recorded stack trace is left out; the \<^verbatim>\<open>...Errorf\<close> variants only
  format the message first.
\<close>

definition makeStatusError :: "code \<Rightarrow> string \<Rightarrow> error" where
  "makeStatusError c msg = Err c msg"

text \<open>\<open>status.Code\<close> of gRPC; \<open>None\<close> is \<^verbatim>\<open>codes.OK\<close>.\<close>

definition status_Code :: "error option \<Rightarrow> code option" where
  "status_Code err = map_option err_code err"

definition OK :: "error option" where
  "OK = None"

definition CanceledError :: "string \<Rightarrow> error" where
  "CanceledError msg = makeStatusError Canceled msg"

definition IsCanceledError :: "error option \<Rightarrow> bool" where
  "IsCanceledError err \<longleftrightarrow> status_Code err = Some Canceled"

definition UnknownError :: "string \<Rightarrow> error" where
  "UnknownError msg = makeStatusError Unknown msg"

definition IsUnknownError :: "error option \<Rightarrow> bool" where
  "IsUnknownError err \<longleftrightarrow> status_Code err = Some Unknown"

definition InvalidArgumentError :: "string \<Rightarrow> error" where
  "InvalidArgumentError msg = makeStatusError InvalidArgument msg"

definition IsInvalidArgumentError :: "error option \<Rightarrow> bool" where
  "IsInvalidArgumentError err \<longleftrightarrow> status_Code err = Some InvalidArgument"

definition DeadlineExceededError :: "string \<Rightarrow> error" where
  "DeadlineExceededError msg = makeStatusError DeadlineExceeded msg"

definition IsDeadlineExceededError :: "error option \<Rightarrow> bool" where
  "IsDeadlineExceededError err \<longleftrightarrow> status_Code err = Some DeadlineExceeded"

definition NotFoundError :: "string \<Rightarrow> error" where
  "NotFoundError msg = makeStatusError NotFound msg"

definition IsNotFoundError :: "error option \<Rightarrow> bool" where
  "IsNotFoundError err \<longleftrightarrow> status_Code err = Some NotFound"

definition AlreadyExistsError :: "string \<Rightarrow> error" where
  "AlreadyExistsError msg = makeStatusError AlreadyExists msg"

definition IsAlreadyExistsError :: "error option \<Rightarrow> bool" where
  "IsAlreadyExistsError err \<longleftrightarrow> status_Code err = Some AlreadyExists"

definition PermissionDeniedError :: "string \<Rightarrow> error" where
  "PermissionDeniedError msg = makeStatusError PermissionDenied msg"

definition IsPermissionDeniedError :: "error option \<Rightarrow> bool" where
  "IsPermissionDeniedError err \<longleftrightarrow> status_Code err = Some PermissionDenied"

definition ResourceExhaustedError :: "string \<Rightarrow> error" where
  "ResourceExhaustedError msg = makeStatusError ResourceExhausted msg"

definition IsResourceExhaustedError :: "error option \<Rightarrow> bool" where
  "IsResourceExhaustedError err \<longleftrightarrow> status_Code err = Some ResourceExhausted"

definition FailedPreconditionError :: "string \<Rightarrow> error" where
  "FailedPreconditionError msg = makeStatusError FailedPrecondition msg"

definition IsFailedPreconditionError :: "error option \<Rightarrow> bool" where
  "IsFailedPreconditionError err \<longleftrightarrow> status_Code err = Some FailedPrecondition"

definition AbortedError :: "string \<Rightarrow> error" where
  "AbortedError msg = makeStatusError Aborted msg"

definition IsAbortedError :: "error option \<Rightarrow> bool" where
  "IsAbortedError err \<longleftrightarrow> status_Code err = Some Aborted"

definition OutOfRangeError :: "string \<Rightarrow> error" where
  "OutOfRangeError msg = makeStatusError OutOfRange msg"

definition IsOutOfRangeError :: "error option \<Rightarrow> bool" where
  "IsOutOfRangeError err \<longleftrightarrow> status_Code err = Some OutOfRange"

definition UnimplementedError :: "string \<Rightarrow> error" where
  "UnimplementedError msg = makeStatusError Unimplemented msg"

definition IsUnimplementedError :: "error option \<Rightarrow> bool" where
  "IsUnimplementedError err \<longleftrightarrow> status_Code err = Some Unimplemented"

definition InternalError :: "string \<Rightarrow> error" where
  "InternalError msg = makeStatusError Internal msg"

definition IsInternalError :: "error option \<Rightarrow> bool" where
  "IsInternalError err \<longleftrightarrow> status_Code err = Some Internal"

definition UnavailableError :: "string \<Rightarrow> error" where
  "UnavailableError msg = makeStatusError Unavailable msg"

definition IsUnavailableError :: "error option \<Rightarrow> bool" where
  "IsUnavailableError err \<longleftrightarrow> status_Code err = Some Unavailable"

definition DataLossError :: "string \<Rightarrow> error" where
  "DataLossError msg = makeStatusError DataLoss msg"

definition IsDataLossError :: "error option \<Rightarrow> bool" where
  "IsDataLossError err \<longleftrightarrow> status_Code err = Some DataLoss"

definition UnauthenticatedError :: "string \<Rightarrow> error" where
  "UnauthenticatedError msg = makeStatusError Unauthenticated msg"

definition IsUnauthenticatedError :: "error option \<Rightarrow> bool" where
  "IsUnauthenticatedError err \<longleftrightarrow> status_Code err = Some Unauthenticated"

text \<open>The message of an error; of one that is not from gRPC it is the text itself.\<close>

definition Message :: "error option \<Rightarrow> string" where
  "Message err = (case err of None \<Rightarrow> '''' | Some e \<Rightarrow> err_msg e)"

definition WrapError :: "error \<Rightarrow> string \<Rightarrow> error" where
  "WrapError e msg = makeStatusError (err_code e) (msg @ '': '' @ Message (Some e))"

section \<open>Lemmas\<close>

named_theorems status_simps \<open>error constructors and tests\<close>

lemmas error_defs = makeStatusError_def CanceledError_def UnknownError_def InvalidArgumentError_def DeadlineExceededError_def NotFoundError_def AlreadyExistsError_def PermissionDeniedError_def ResourceExhaustedError_def FailedPreconditionError_def AbortedError_def OutOfRangeError_def UnimplementedError_def InternalError_def UnavailableError_def DataLossError_def UnauthenticatedError_def

lemmas error_test_defs = IsCanceledError_def IsUnknownError_def IsInvalidArgumentError_def IsDeadlineExceededError_def IsNotFoundError_def IsAlreadyExistsError_def IsPermissionDeniedError_def IsResourceExhaustedError_def IsFailedPreconditionError_def IsAbortedError_def IsOutOfRangeError_def IsUnimplementedError_def IsInternalError_def IsUnavailableError_def IsDataLossError_def IsUnauthenticatedError_def

text \<open>An error passes the test of its own code and no other; \<^verbatim>\<open>nil\<close> passes none.\<close>

lemma error_tests [status_simps]:
  "IsCanceledError (Some e) \<longleftrightarrow> err_code e = Canceled"
  "\<not> IsCanceledError None"
  "IsUnknownError (Some e) \<longleftrightarrow> err_code e = Unknown"
  "\<not> IsUnknownError None"
  "IsInvalidArgumentError (Some e) \<longleftrightarrow> err_code e = InvalidArgument"
  "\<not> IsInvalidArgumentError None"
  "IsDeadlineExceededError (Some e) \<longleftrightarrow> err_code e = DeadlineExceeded"
  "\<not> IsDeadlineExceededError None"
  "IsNotFoundError (Some e) \<longleftrightarrow> err_code e = NotFound"
  "\<not> IsNotFoundError None"
  "IsAlreadyExistsError (Some e) \<longleftrightarrow> err_code e = AlreadyExists"
  "\<not> IsAlreadyExistsError None"
  "IsPermissionDeniedError (Some e) \<longleftrightarrow> err_code e = PermissionDenied"
  "\<not> IsPermissionDeniedError None"
  "IsResourceExhaustedError (Some e) \<longleftrightarrow> err_code e = ResourceExhausted"
  "\<not> IsResourceExhaustedError None"
  "IsFailedPreconditionError (Some e) \<longleftrightarrow> err_code e = FailedPrecondition"
  "\<not> IsFailedPreconditionError None"
  "IsAbortedError (Some e) \<longleftrightarrow> err_code e = Aborted"
  "\<not> IsAbortedError None"
  "IsOutOfRangeError (Some e) \<longleftrightarrow> err_code e = OutOfRange"
  "\<not> IsOutOfRangeError None"
  "IsUnimplementedError (Some e) \<longleftrightarrow> err_code e = Unimplemented"
  "\<not> IsUnimplementedError None"
  "IsInternalError (Some e) \<longleftrightarrow> err_code e = Internal"
  "\<not> IsInternalError None"
  "IsUnavailableError (Some e) \<longleftrightarrow> err_code e = Unavailable"
  "\<not> IsUnavailableError None"
  "IsDataLossError (Some e) \<longleftrightarrow> err_code e = DataLoss"
  "\<not> IsDataLossError None"
  "IsUnauthenticatedError (Some e) \<longleftrightarrow> err_code e = Unauthenticated"
  "\<not> IsUnauthenticatedError None"
  by (simp_all add: error_test_defs status_Code_def)

lemma error_codes [status_simps]:
  "err_code (CanceledError m) = Canceled"
  "err_code (UnknownError m) = Unknown"
  "err_code (InvalidArgumentError m) = InvalidArgument"
  "err_code (DeadlineExceededError m) = DeadlineExceeded"
  "err_code (NotFoundError m) = NotFound"
  "err_code (AlreadyExistsError m) = AlreadyExists"
  "err_code (PermissionDeniedError m) = PermissionDenied"
  "err_code (ResourceExhaustedError m) = ResourceExhausted"
  "err_code (FailedPreconditionError m) = FailedPrecondition"
  "err_code (AbortedError m) = Aborted"
  "err_code (OutOfRangeError m) = OutOfRange"
  "err_code (UnimplementedError m) = Unimplemented"
  "err_code (InternalError m) = Internal"
  "err_code (UnavailableError m) = Unavailable"
  "err_code (DataLossError m) = DataLoss"
  "err_code (UnauthenticatedError m) = Unauthenticated"
  by (simp_all add: error_defs)

text \<open>Wrapping keeps the code, so every test answers as before.\<close>

lemma WrapError_code [status_simps]: "err_code (WrapError e m) = err_code e" "err_msg (WrapError e m) = m @ '': '' @ err_msg e"
  by (simp_all add: WrapError_def makeStatusError_def Message_def)

end
