(* ===== verification/ComposableCache.thy ===== *)
theory ComposableCache
  imports MemoryCache Status "HOL-Library.Monad_Syntax"
begin

unbundle bit_operations_syntax

text \<open>
  \<^verbatim>\<open>enterprise/server/composable_cache/composable_cache.go\<close>: an outer (fast) cache in front of an inner one, each
  any implementation of the cache interface, on its own state. The state of the composed cache is the pair
  of theirs. Blobs read from the inner cache may be copied to the outer one (read-through), and writes
  may go to both (write-through). The contract of a blob cache is proved once
  for two caches that keep it, and interpreted on two memory caches.
\<close>

section \<open>The code\<close>

definition ModeReadThrough :: "32 word" where
  "ModeReadThrough = push_bit (32 - 1 - 0) 1"

definition ModeWriteThrough :: "32 word" where
  "ModeWriteThrough = push_bit (32 - 1 - 1) 1"

record ('d, 'so, 'ro, 'wo, 'si, 'ri, 'wi) composableCache =
  inner :: "('d, 'si, 'ri, 'wi) Cache"
  outer :: "('d, 'so, 'ro, 'wo) Cache"
  mode :: "32 word"

definition NewComposableCache :: "('d, 'so, 'ro, 'wo) Cache \<Rightarrow> ('d, 'si, 'ri, 'wi) Cache \<Rightarrow> 32 word
    \<Rightarrow> ('d, 'so, 'ro, 'wo, 'si, 'ri, 'wi) composableCache" where
  "NewComposableCache out inn m = \<lparr>inner = inn, outer = out, mode = m\<rparr>"

text \<open>\<open>WithIsolation\<close>: the two arguments are what the inner and the outer cache's \<open>WithIsolation\<close> return.\<close>

definition cc_WithIsolation :: "('d, 'so, 'ro, 'wo, 'si, 'ri, 'wi) composableCache \<Rightarrow> error + ('d, 'si, 'ri, 'wi) Cache
    \<Rightarrow> error + ('d, 'so, 'ro, 'wo) Cache \<Rightarrow> error + ('d, 'so, 'ro, 'wo, 'si, 'ri, 'wi) composableCache" where
  "cc_WithIsolation c newInner newOuter =
     (case newInner of
        Inl e \<Rightarrow> Inl (WrapError e ''WithIsolation failed on inner cache'')
      | Inr i \<Rightarrow>
          (case newOuter of
             Inl e \<Rightarrow> Inl (WrapError e ''WithIsolation failed on outer cache'')
           | Inr out \<Rightarrow> Inr \<lparr>inner = i, outer = out, mode = mode c\<rparr>))"

text \<open>\<open>Contains\<close>; with an error the boolean is Go's zero value.\<close>

fun cc_Contains :: "('d, 'so, 'ro, 'wo, 'si, 'ri, 'wi) composableCache \<Rightarrow> 'd \<Rightarrow> ('so \<times> 'si, error + bool) action" where
  "cc_Contains c d (so, si) = do {
     (r, so') \<leftarrow> c_Contains (outer c) d so;
     let outerExists = (case r of Inl _ \<Rightarrow> False | Inr b \<Rightarrow> b);
     if isl r \<and> outerExists then Some (Inr outerExists, (so', si))
     else do {
       (r', si') \<leftarrow> c_Contains (inner c) d si;
       Some (r', (so', si'))
     }
   }"

fun cc_FindMissing :: "('d, 'so, 'ro, 'wo, 'si, 'ri, 'wi) composableCache \<Rightarrow> 'd list \<Rightarrow> ('so \<times> 'si, error + 'd list) action" where
  "cc_FindMissing c digests (so, si) = do {
     (r, so') \<leftarrow> c_FindMissing (outer c) digests so;
     let missing = (case r of Inl _ \<Rightarrow> digests | Inr m \<Rightarrow> m);
     if length missing = 0 then Some (Inr [], (so', si))
     else do {
       (r', si') \<leftarrow> c_FindMissing (inner c) missing si;
       Some (r', (so', si'))
     }
   }"

fun cc_Get :: "('d, 'so, 'ro, 'wo, 'si, 'ri, 'wi) composableCache \<Rightarrow> 'd \<Rightarrow> ('so \<times> 'si, error + bytes) action" where
  "cc_Get c d (so, si) = do {
     (outerRsp, so') \<leftarrow> c_Get (outer c) d so;
     case outerRsp of
       Inr v \<Rightarrow> Some (Inr v, (so', si))
     | Inl _ \<Rightarrow> do {
         (innerRsp, si') \<leftarrow> c_Get (inner c) d si;
         case innerRsp of
           Inl e \<Rightarrow> Some (Inl e, (so', si'))
         | Inr v \<Rightarrow>
             if mode c AND ModeReadThrough \<noteq> 0 then do {
               (_, so'') \<leftarrow> c_Set (outer c) d v so';
               Some (Inr v, (so'', si'))
             } else Some (Inr v, (so', si'))
       }
   }"

fun cc_GetMulti :: "('d, 'so, 'ro, 'wo, 'si, 'ri, 'wi) composableCache \<Rightarrow> 'd list \<Rightarrow> ('so \<times> 'si, error + ('d \<rightharpoonup> bytes)) action" where
  "cc_GetMulti c digests (so, si) = do {
     (r, so') \<leftarrow> c_GetMulti (outer c) digests so;
     let foundMap = (case r of Inl _ \<Rightarrow> Map.empty | Inr m \<Rightarrow> m);
     let stillMissing = filter (\<lambda>d. foundMap d = None) digests;
     if length stillMissing = 0 then Some (Inr foundMap, (so', si))
     else do {
       (r', si') \<leftarrow> c_GetMulti (inner c) stillMissing si;
       case r' of
         Inl e \<Rightarrow> Some (Inl e, (so', si'))
       | Inr m \<Rightarrow> Some (Inr (foundMap ++ m), (so', si'))
     }
   }"

fun cc_Set :: "('d, 'so, 'ro, 'wo, 'si, 'ri, 'wi) composableCache \<Rightarrow> 'd \<Rightarrow> bytes \<Rightarrow> ('so \<times> 'si, error option) action" where
  "cc_Set c d data (so, si) = do {
     (r, si') \<leftarrow> c_Set (inner c) d data si;
     case r of
       Some e \<Rightarrow> Some (Some e, (so, si'))
     | None \<Rightarrow>
         if mode c AND ModeWriteThrough \<noteq> 0 then do {
           (_, so') \<leftarrow> c_Set (outer c) d data so;
           Some (None, (so', si'))
         } else Some (None, (so, si'))
   }"

fun cc_SetMulti :: "('d, 'so, 'ro, 'wo, 'si, 'ri, 'wi) composableCache \<Rightarrow> ('d \<times> bytes) list \<Rightarrow> ('so \<times> 'si, error option) action" where
  "cc_SetMulti c kvs (so, si) = do {
     (r, si') \<leftarrow> c_SetMulti (inner c) kvs si;
     case r of
       Some e \<Rightarrow> Some (Some e, (so, si'))
     | None \<Rightarrow>
         if mode c AND ModeWriteThrough \<noteq> 0 then do {
           (_, so') \<leftarrow> c_SetMulti (outer c) kvs so;
           Some (None, (so', si'))
         } else Some (None, (so, si'))
   }"

fun cc_Delete :: "('d, 'so, 'ro, 'wo, 'si, 'ri, 'wi) composableCache \<Rightarrow> 'd \<Rightarrow> ('so \<times> 'si, error option) action" where
  "cc_Delete c d (so, si) = do {
     (r, si') \<leftarrow> c_Delete (inner c) d si;
     case r of
       Some e \<Rightarrow> Some (Some e, (so, si'))
     | None \<Rightarrow>
         if mode c AND ModeWriteThrough \<noteq> 0 then do {
           (_, so') \<leftarrow> c_Delete (outer c) d so;
           Some (None, (so', si'))
         } else Some (None, (so, si'))
   }"

text \<open>
  Readers: the outer cache's, the inner cache's, or the inner one's with what it yields copied to a
  writer of the outer cache (\<^verbatim>\<open>io.TeeReader\<close> of the standard library), both closed when it is closed.
\<close>

datatype ('ro, 'ri, 'wo) creader = OuterReader 'ro | InnerReader 'ri | TeeReader 'ri 'wo

fun cc_Reader :: "('d, 'so, 'ro, 'wo, 'si, 'ri, 'wi) composableCache \<Rightarrow> 'd \<Rightarrow> int
    \<Rightarrow> ('so \<times> 'si, error + ('ro, 'ri, 'wo) creader) action" where
  "cc_Reader c d offset (so, si) = do {
     (r, so') \<leftarrow> c_Reader (outer c) d offset so;
     case r of
       Inr outerReader \<Rightarrow> Some (Inr (OuterReader outerReader), (so', si))
     | Inl _ \<Rightarrow> do {
         (r', si') \<leftarrow> c_Reader (inner c) d offset si;
         case r' of
           Inl e \<Rightarrow> Some (Inl e, (so', si'))
         | Inr innerReader \<Rightarrow>
             if mode c AND ModeReadThrough \<noteq> 0 \<and> offset = 0 then do {
               (w, so'') \<leftarrow> c_Writer (outer c) d so';
               case w of
                 Inr outerWriter \<Rightarrow> Some (Inr (TeeReader innerReader outerWriter), (so'', si'))
               | Inl _ \<Rightarrow> Some (Inr (InnerReader innerReader), (so'', si'))
             } else Some (Inr (InnerReader innerReader), (so', si'))
       }
   }"

fun creader_Read :: "('d, 'so, 'ro, 'wo, 'si, 'ri, 'wi) composableCache \<Rightarrow> ('ro, 'ri, 'wo) creader \<Rightarrow> nat
    \<Rightarrow> ('so \<times> 'si, bytes \<times> error option \<times> ('ro, 'ri, 'wo) creader) action" where
  "creader_Read c (OuterReader r) n (so, si) = do {
     ((b, err, r'), so') \<leftarrow> r_Read (outer c) r n so;
     Some ((b, err, OuterReader r'), (so', si))
   }"
| "creader_Read c (InnerReader r) n (so, si) = do {
     ((b, err, r'), si') \<leftarrow> r_Read (inner c) r n si;
     Some ((b, err, InnerReader r'), (so, si'))
   }"
| "creader_Read c (TeeReader r w) n (so, si) = do {
     ((b, err, r'), si') \<leftarrow> r_Read (inner c) r n si;
     if length b > 0 then do {
       ((k, werr, w'), so') \<leftarrow> w_Write (outer c) w b so;
       if werr \<noteq> None then Some ((take k b, werr, TeeReader r' w'), (so', si'))
       else Some ((b, err, TeeReader r' w'), (so', si'))
     } else Some ((b, err, TeeReader r' w), (so, si'))
   }"

text \<open>\<^verbatim>\<open>MultiCloser\<close> closes the inner reader, then the outer writer, and stops at the first error.\<close>

fun creader_Close :: "('d, 'so, 'ro, 'wo, 'si, 'ri, 'wi) composableCache \<Rightarrow> ('ro, 'ri, 'wo) creader
    \<Rightarrow> ('so \<times> 'si, error option) action" where
  "creader_Close c (OuterReader r) (so, si) = do {
     (e, so') \<leftarrow> r_Close (outer c) r so;
     Some (e, (so', si))
   }"
| "creader_Close c (InnerReader r) (so, si) = do {
     (e, si') \<leftarrow> r_Close (inner c) r si;
     Some (e, (so, si'))
   }"
| "creader_Close c (TeeReader r w) (so, si) = do {
     (e, si') \<leftarrow> r_Close (inner c) r si;
     case e of
       Some err \<Rightarrow> Some (Some err, (so, si'))
     | None \<Rightarrow> do {
         (e', so') \<leftarrow> w_Close (outer c) w so;
         Some (e', (so', si'))
       }
   }"

text \<open>Writers: the inner cache's, or \<^verbatim>\<open>doubleWriter\<close>; the outer writer is written to and closed only
  after the inner one did so without an error, and its own errors are ignored.\<close>

datatype ('wi, 'wo) cwriter = InnerWriter 'wi | DoubleWriter 'wi 'wo

fun cc_Writer :: "('d, 'so, 'ro, 'wo, 'si, 'ri, 'wi) composableCache \<Rightarrow> 'd \<Rightarrow> ('so \<times> 'si, error + ('wi, 'wo) cwriter) action" where
  "cc_Writer c d (so, si) = do {
     (r, si') \<leftarrow> c_Writer (inner c) d si;
     case r of
       Inl e \<Rightarrow> Some (Inl e, (so, si'))
     | Inr innerWriter \<Rightarrow>
         if mode c AND ModeWriteThrough \<noteq> 0 then do {
           (w, so') \<leftarrow> c_Writer (outer c) d so;
           case w of
             Inr outerWriter \<Rightarrow> Some (Inr (DoubleWriter innerWriter outerWriter), (so', si'))
           | Inl _ \<Rightarrow> Some (Inr (InnerWriter innerWriter), (so', si'))
         } else Some (Inr (InnerWriter innerWriter), (so, si'))
   }"

fun cwriter_Write :: "('d, 'so, 'ro, 'wo, 'si, 'ri, 'wi) composableCache \<Rightarrow> ('wi, 'wo) cwriter \<Rightarrow> bytes
    \<Rightarrow> ('so \<times> 'si, nat \<times> error option \<times> ('wi, 'wo) cwriter) action" where
  "cwriter_Write c (InnerWriter w) p (so, si) = do {
     ((n, err, w'), si') \<leftarrow> w_Write (inner c) w p si;
     Some ((n, err, InnerWriter w'), (so, si'))
   }"
| "cwriter_Write c (DoubleWriter wi wo) p (so, si) = do {
     ((n, err, wi'), si') \<leftarrow> w_Write (inner c) wi p si;
     if err \<noteq> None then Some ((n, err, DoubleWriter wi' wo), (so, si'))
     else if n > 0 then do {
       ((_, _, wo'), so') \<leftarrow> w_Write (outer c) wo p so;
       Some ((n, err, DoubleWriter wi' wo'), (so', si'))
     } else Some ((n, err, DoubleWriter wi' wo), (so, si'))
   }"

fun cwriter_Close :: "('d, 'so, 'ro, 'wo, 'si, 'ri, 'wi) composableCache \<Rightarrow> ('wi, 'wo) cwriter
    \<Rightarrow> ('so \<times> 'si, error option) action" where
  "cwriter_Close c (InnerWriter w) (so, si) = do {
     (err, si') \<leftarrow> w_Close (inner c) w si;
     Some (err, (so, si'))
   }"
| "cwriter_Close c (DoubleWriter wi wo) (so, si) = do {
     (err, si') \<leftarrow> w_Close (inner c) wi si;
     if err = None then do {
       (_, so') \<leftarrow> w_Close (outer c) wo so;
       Some (err, (so', si'))
     } else Some (err, (so, si'))
   }"

text \<open>A composed cache is a cache.\<close>

definition composable_cache :: "('d, 'so, 'ro, 'wo, 'si, 'ri, 'wi) composableCache
    \<Rightarrow> ('d, 'so \<times> 'si, ('ro, 'ri, 'wo) creader, ('wi, 'wo) cwriter) Cache" where
  "composable_cache c =
     \<lparr>c_Contains = cc_Contains c, c_FindMissing = cc_FindMissing c, c_Get = cc_Get c, c_GetMulti = cc_GetMulti c,
      c_Set = cc_Set c, c_SetMulti = cc_SetMulti c, c_Delete = cc_Delete c,
      c_Reader = cc_Reader c, r_Read = creader_Read c, r_Close = creader_Close c,
      c_Writer = cc_Writer c, w_Write = cwriter_Write c, w_Close = cwriter_Close c\<rparr>"

section \<open>The contract of two caches composed\<close>

text \<open>
  What the pair holds: the outer cache's blob, else the inner one's. With write-through the two never hold different
  blobs for a digest (\<open>coherent\<close>), and the composition is a blob cache again.
\<close>

definition cc_content :: "('so \<Rightarrow> 'd \<Rightarrow> bytes option) \<Rightarrow> ('si \<Rightarrow> 'd \<Rightarrow> bytes option) \<Rightarrow> 'so \<times> 'si \<Rightarrow> 'd \<Rightarrow> bytes option" where
  "cc_content bo bi s d = (case bo (fst s) d of Some v \<Rightarrow> Some v | None \<Rightarrow> bi (snd s) d)"

definition coherent :: "('d \<Rightarrow> bool) \<Rightarrow> ('d \<Rightarrow> bytes option) \<Rightarrow> ('d \<Rightarrow> bytes option) \<Rightarrow> bool" where
  "coherent valid b b' \<longleftrightarrow> (\<forall>d v w. valid d \<longrightarrow> b d = Some v \<longrightarrow> b' d = Some w \<longrightarrow> v = w)"

definition cc_inv :: "('so \<Rightarrow> bool) \<Rightarrow> ('si \<Rightarrow> bool) \<Rightarrow> ('d \<Rightarrow> bool) \<Rightarrow> ('so \<Rightarrow> 'd \<Rightarrow> bytes option) \<Rightarrow> ('si \<Rightarrow> 'd \<Rightarrow> bytes option)
    \<Rightarrow> 'so \<times> 'si \<Rightarrow> bool" where
  "cc_inv io ii valid bo bi s \<longleftrightarrow> io (fst s) \<and> ii (snd s) \<and> coherent valid (bo (fst s)) (bi (snd s))"

fun cc_pend :: "('wo \<Rightarrow> 'd \<Rightarrow> bytes \<Rightarrow> bool) \<Rightarrow> ('wi \<Rightarrow> 'd \<Rightarrow> bytes \<Rightarrow> bool) \<Rightarrow> ('wi, 'wo) cwriter \<Rightarrow> 'd \<Rightarrow> bytes \<Rightarrow> bool" where
  "cc_pend pout pinn (InnerWriter w) d buf \<longleftrightarrow> False"
| "cc_pend pout pinn (DoubleWriter wi wo) d buf \<longleftrightarrow> pinn wi d buf \<and> pout wo d buf"

lemma coherent_drops:
  "coherent valid b b' \<Longrightarrow> drops valid b c \<Longrightarrow> drops valid b' c' \<Longrightarrow> coherent valid c c'"
  unfolding coherent_def drops_def by blast

lemma coherent_stores:
  assumes "coherent valid b b'" and "stores valid sk d v b c" and "stores valid sk d v b' c'"
  shows "coherent valid c c'"
  unfolding coherent_def
proof (intro allI impI)
  fix d' x y assume d: "valid d'" "c d' = Some x" "c' d' = Some y"
  show "x = y"
  proof (cases "sk d d'")
    case True
    with storesD [OF assms(2) d(1,2)] storesD [OF assms(3) d(1,3)] show ?thesis by simp
  next
    case False
    with storesD [OF assms(2) d(1,2)] storesD [OF assms(3) d(1,3)] have "b d' = Some x" "b' d' = Some y" by simp_all
    with assms(1) d(1) show ?thesis by (auto simp: coherent_def)
  qed
qed

lemma cc_content_pair: "cc_content bo bi (so, si) d = (case bo so d of Some v \<Rightarrow> Some v | None \<Rightarrow> bi si d)"
  by (simp add: cc_content_def split: option.split)

lemma content_drops:
  assumes "coherent valid (bo so) (bi si)" and "drops valid (bo so) (bo so')" and "drops valid (bi si) (bi si')"
  shows "drops valid (cc_content bo bi (so, si)) (cc_content bo bi (so', si'))"
  unfolding drops_def
proof (intro allI impI)
  fix d w assume d: "valid d" "cc_content bo bi (so', si') d = Some w"
  then have "bo so d = Some w \<or> bi si d = Some w"
    using assms(2,3) by (auto simp: cc_content_def drops_def split: option.splits)
  with assms(1) d(1) show "cc_content bo bi (so, si) d = Some w"
    by (auto simp: cc_content_def coherent_def split: option.splits)
qed

lemma content_stores:
  assumes "coherent valid (bo so) (bi si)" and "stores valid sk d v (bo so) (bo so')" and "stores valid sk d v (bi si) (bi si')"
  shows "stores valid sk d v (cc_content bo bi (so, si)) (cc_content bo bi (so', si'))"
  unfolding stores_def
proof (intro allI impI)
  fix d' w assume d: "valid d'" "cc_content bo bi (so', si') d' = Some w"
  then have "(bo so' d' = Some w) \<or> (bi si' d' = Some w)" by (auto simp: cc_content_def split: option.splits)
  then have "if sk d d' then w = v else bo so d' = Some w \<or> bi si d' = Some w"
    using storesD [OF assms(2) d(1), of w] storesD [OF assms(3) d(1), of w] by (auto split: if_splits)
  with assms(1) d(1) show "if sk d d' then w = v else cc_content bo bi (so, si) d' = Some w"
    by (auto simp: cc_content_def coherent_def split: option.splits if_splits)
qed

lemma content_None: "cc_content bo bi (so, si) d = None \<longleftrightarrow> bo so d = None \<and> bi si d = None"
  by (simp add: cc_content_def split: option.split)

locale two_caches = out: blob_cache co io bo po valid same_key + inn: blob_cache ci ii bi pn valid same_key
  for co :: "('d, 'so, 'ro, 'wo) Cache" and io bo po
    and ci :: "('d, 'si, 'ri, 'wi) Cache" and ii bi pn and valid same_key +
  fixes mode :: "32 word"
begin

lemma two_inv:
  assumes "cc_inv io ii valid bo bi (so, si)"
  shows "io so" and "ii si" and "coherent valid (bo so) (bi si)"
  using assms by (simp_all add: cc_inv_def)

lemma two_drops:
  assumes "cc_inv io ii valid bo bi (so, si)" and "io so'" and "ii si'"
    and "drops valid (bo so) (bo so')" and "drops valid (bi si) (bi si')"
  shows "cc_inv io ii valid bo bi (so', si')" and "drops valid (cc_content bo bi (so, si)) (cc_content bo bi (so', si'))"
  using assms coherent_drops [OF two_inv(3) [OF assms(1)]] content_drops [of valid bo so bi si so' si'] two_inv [OF assms(1)]
  by (simp_all add: cc_inv_def)

lemma two_stores:
  assumes "cc_inv io ii valid bo bi (so, si)" and "io so'" and "ii si'"
    and "stores valid same_key d v (bo so) (bo so')" and "stores valid same_key d v (bi si) (bi si')"
  shows "cc_inv io ii valid bo bi (so', si')"
    and "stores valid same_key d v (cc_content bo bi (so, si)) (cc_content bo bi (so', si'))"
  using assms coherent_stores [OF two_inv(3) [OF assms(1)]] content_stores [of valid bo so bi si same_key d v so' si']
    two_inv [OF assms(1)]
  by (simp_all add: cc_inv_def)

lemma FindMissing_two:
  assumes s: "cc_inv io ii valid bo bi (so, si)" and ds: "\<forall>d\<in>set ds. valid d"
  shows "\<exists>s'. cc_FindMissing (NewComposableCache co ci mode) ds (so, si)
      = Some (Inr (filter (\<lambda>d. cc_content bo bi (so, si) d = None) ds), s')
    \<and> cc_inv io ii valid bo bi s' \<and> drops valid (cc_content bo bi (so, si)) (cc_content bo bi s')"
proof -
  note inv = two_inv [OF s]
  obtain so' where o': "c_FindMissing co ds so = Some (Inr (filter (\<lambda>d. bo so d = None) ds), so')" "io so'"
    "drops valid (bo so) (bo so')" using out.FindMissing_law [OF inv(1) ds] by blast
  let ?m = "filter (\<lambda>d. bo so d = None) ds"
  have "\<forall>d\<in>set ?m. valid d" using ds by simp
  then obtain si' where i': "c_FindMissing ci ?m si = Some (Inr (filter (\<lambda>d. bi si d = None) ?m), si')" "ii si'"
    "drops valid (bi si) (bi si')" using inn.FindMissing_law [OF inv(2)] by blast
  have r: "filter (\<lambda>d. bi si d = None) ?m = filter (\<lambda>d. cc_content bo bi (so, si) d = None) ds"
    by (simp add: content_None conj_commute)
  show ?thesis
  proof (cases "?m = []")
    case True
    then have "filter (\<lambda>d. cc_content bo bi (so, si) d = None) ds = []" using r by simp
    moreover have "cc_FindMissing (NewComposableCache co ci mode) ds (so, si) = Some (Inr [], (so', si))"
      using o'(1) True by (simp add: NewComposableCache_def)
    ultimately show ?thesis using two_drops [OF s o'(2) inv(2) o'(3) drops_refl] by metis
  next
    case False
    then have "cc_FindMissing (NewComposableCache co ci mode) ds (so, si)
        = Some (Inr (filter (\<lambda>d. cc_content bo bi (so, si) d = None) ds), (so', si'))"
      using o'(1) i'(1) r by (simp add: NewComposableCache_def)
    then show ?thesis using two_drops [OF s o'(2) i'(2) o'(3) i'(3)] by blast
  qed
qed

lemma GetMulti_two:
  assumes s: "cc_inv io ii valid bo bi (so, si)" and ds: "\<forall>d\<in>set ds. valid d"
  shows "\<exists>s'. cc_GetMulti (NewComposableCache co ci mode) ds (so, si)
      = Some (Inr (\<lambda>d. if d \<in> set ds then cc_content bo bi (so, si) d else None), s')
    \<and> cc_inv io ii valid bo bi s' \<and> drops valid (cc_content bo bi (so, si)) (cc_content bo bi s')"
proof -
  note inv = two_inv [OF s]
  let ?f = "\<lambda>d. if d \<in> set ds then bo so d else None"
  obtain so' where o': "c_GetMulti co ds so = Some (Inr ?f, so')" "io so'"
    "drops valid (bo so) (bo so')" using out.GetMulti_law [OF inv(1) ds] by blast
  let ?m = "filter (\<lambda>d. ?f d = None) ds"
  have "\<forall>d\<in>set ?m. valid d" using ds by simp
  then obtain si' where i': "c_GetMulti ci ?m si = Some (Inr (\<lambda>d. if d \<in> set ?m then bi si d else None), si')" "ii si'"
    "drops valid (bi si) (bi si')" using inn.GetMulti_law [OF inv(2)] by blast
  have r: "?f ++ (\<lambda>d. if d \<in> set ?m then bi si d else None) = (\<lambda>d. if d \<in> set ds then cc_content bo bi (so, si) d else None)"
  proof
    fix d
    show "(?f ++ (\<lambda>d. if d \<in> set ?m then bi si d else None)) d = (if d \<in> set ds then cc_content bo bi (so, si) d else None)"
      by (cases "d \<in> set ds"; cases "bo so d"; cases "bi si d") (simp_all add: map_add_def cc_content_pair)
  qed
  show ?thesis
  proof (cases "?m = []")
    case True
    then have "d \<in> set ds \<Longrightarrow> bo so d \<noteq> None" for d by (auto simp: filter_empty_conv)
    then have "?f = (\<lambda>d. if d \<in> set ds then cc_content bo bi (so, si) d else None)"
      by (intro ext) (fastforce simp: cc_content_pair split: option.split)
    moreover have "cc_GetMulti (NewComposableCache co ci mode) ds (so, si) = Some (Inr ?f, (so', si))"
      using o'(1) True by (simp add: NewComposableCache_def)
    ultimately show ?thesis using two_drops [OF s o'(2) inv(2) o'(3) drops_refl]
      by (intro exI [of _ "(so', si)"]) (simp del: cc_GetMulti.simps)
  next
    case False
    then have "cc_GetMulti (NewComposableCache co ci mode) ds (so, si)
        = Some (Inr (\<lambda>d. if d \<in> set ds then cc_content bo bi (so, si) d else None), (so', si'))"
      using o'(1) i'(1) r by (simp add: NewComposableCache_def del: filter_filter set_filter)
    then show ?thesis using two_drops [OF s o'(2) i'(2) o'(3) i'(3)] by blast
  qed
qed

lemma Get_two:
  assumes s: "cc_inv io ii valid bo bi (so, si)" and d: "valid d"
  shows "\<exists>r s'. cc_Get (NewComposableCache co ci mode) d (so, si) = Some (r, s')
    \<and> cc_inv io ii valid bo bi s' \<and> drops valid (cc_content bo bi (so, si)) (cc_content bo bi s')
    \<and> (case r of Inr v \<Rightarrow> cc_content bo bi (so, si) d = Some v | Inl e \<Rightarrow> cc_content bo bi (so, si) d = None)"
proof -
  note inv = two_inv [OF s]
  obtain r so' where o': "c_Get co d so = Some (r, so')" "io so'" "drops valid (bo so) (bo so')"
    "case r of Inr v \<Rightarrow> bo so d = Some v | Inl e \<Rightarrow> bo so d = None" using out.Get_law [OF inv(1) d] by blast
  show ?thesis
  proof (cases r)
    case (Inr v)
    then have "cc_Get (NewComposableCache co ci mode) d (so, si) = Some (Inr v, (so', si))"
      "cc_content bo bi (so, si) d = Some v"
      using o'(1,4) by (simp_all add: NewComposableCache_def cc_content_def)
    then show ?thesis using two_drops [OF s o'(2) inv(2) o'(3) drops_refl]
      by (intro exI [of _ "Inr v"] exI [of _ "(so', si)"]) (simp del: cc_Get.simps)
  next
    case (Inl e)
    obtain r' si' where i': "c_Get ci d si = Some (r', si')" "ii si'" "drops valid (bi si) (bi si')"
      "case r' of Inr v \<Rightarrow> bi si d = Some v | Inl e \<Rightarrow> bi si d = None" using inn.Get_law [OF inv(2) d] by blast
    note od' = two_drops [OF s o'(2) i'(2) o'(3) i'(3)]
    have c: "cc_content bo bi (so, si) d = bi si d" using o'(4) Inl by (simp add: cc_content_def)
    show ?thesis
    proof (cases r')
      case (Inl e')
      then have "cc_Get (NewComposableCache co ci mode) d (so, si) = Some (Inl e', (so', si'))"
        using o'(1) i'(1) \<open>r = Inl e\<close> by (simp add: NewComposableCache_def)
      then show ?thesis using i'(4) od' c Inl
        by (intro exI [of _ "Inl e'"] exI [of _ "(so', si')"]) (simp del: cc_Get.simps)
    next
      case (Inr v)
      obtain so'' where o'': "c_Set co d v so' = Some (None, so'')" "io so''" "stores valid same_key d v (bo so') (bo so'')"
        using out.Set_law [OF o'(2) d, of v] by blast
      have v: "bi si d = Some v" using i'(4) Inr by simp
      have "stores valid same_key d v (bi si') (bi si')"
        unfolding stores_def using inn.blobs_same [OF inv(2) d] v dropsD [OF i'(3)] by fastforce
      note st = two_stores [OF od'(1) o''(2) i'(2) o''(3) this]
      have "drops valid (cc_content bo bi (so, si)) (cc_content bo bi (so'', si'))"
        unfolding drops_def
      proof (intro allI impI)
        fix d' w assume dw: "valid d'" "cc_content bo bi (so'', si') d' = Some w"
        show "cc_content bo bi (so, si) d' = Some w"
        proof (cases "same_key d d'")
          case True
          then have "w = v" using storesD [OF st(2) dw] by simp
          moreover have "bo so d' = None" using out.blobs_same [OF inv(1) d dw(1) True] o'(4) \<open>r = Inl e\<close> by simp
          moreover have "bi si d' = Some v" using inn.blobs_same [OF inv(2) d dw(1) True] v by simp
          ultimately show ?thesis by (simp add: cc_content_def)
        next
          case False
          with storesD [OF st(2) dw] dropsD [OF od'(2) dw(1)] show ?thesis by simp
        qed
      qed
      moreover have "cc_Get (NewComposableCache co ci mode) d (so, si)
          = Some (Inr v, (if mode AND ModeReadThrough \<noteq> 0 then (so'', si') else (so', si')))"
        using o'(1) i'(1) \<open>r = Inl e\<close> Inr o''(1) by (simp add: NewComposableCache_def)
      ultimately show ?thesis using od' st(1) c v
        by (intro exI [of _ "Inr v"] exI [of _ "if mode AND ModeReadThrough \<noteq> 0 then (so'', si') else (so', si')"])
          (simp del: cc_Get.simps)
    qed
  qed
qed

end

text \<open>With write-through the composition keeps the whole contract.\<close>

locale write_through = two_caches +
  assumes wt: "mode AND ModeWriteThrough \<noteq> 0"
begin

lemma Set_two:
  assumes s: "cc_inv io ii valid bo bi (so, si)" and d: "valid d"
  shows "\<exists>s'. cc_Set (NewComposableCache co ci mode) d v (so, si) = Some (None, s') \<and> cc_inv io ii valid bo bi s'
    \<and> stores valid same_key d v (cc_content bo bi (so, si)) (cc_content bo bi s')"
proof -
  note inv = two_inv [OF s]
  obtain si' where i': "c_Set ci d v si = Some (None, si')" "ii si'" "stores valid same_key d v (bi si) (bi si')"
    using inn.Set_law [OF inv(2) d, of v] by blast
  obtain so' where o': "c_Set co d v so = Some (None, so')" "io so'" "stores valid same_key d v (bo so) (bo so')"
    using out.Set_law [OF inv(1) d, of v] by blast
  have "cc_Set (NewComposableCache co ci mode) d v (so, si) = Some (None, (so', si'))"
    using i'(1) o'(1) wt by (simp add: NewComposableCache_def)
  with two_stores [OF s o'(2) i'(2) o'(3) i'(3)] show ?thesis by blast
qed

lemma Delete_two:
  assumes s: "cc_inv io ii valid bo bi (so, si)" and d: "valid d"
  shows "\<exists>s'. cc_Delete (NewComposableCache co ci mode) d (so, si) = Some (None, s') \<and> cc_inv io ii valid bo bi s'
    \<and> (\<forall>d'. valid d' \<longrightarrow> cc_content bo bi s' d' = (if same_key d d' then None else cc_content bo bi (so, si) d'))"
proof -
  note inv = two_inv [OF s]
  obtain si' where i': "c_Delete ci d si = Some (None, si')" "ii si'"
    "\<And>d'. valid d' \<Longrightarrow> bi si' d' = (if same_key d d' then None else bi si d')"
    using inn.Delete_law [OF inv(2) d] by blast
  obtain so' where o': "c_Delete co d so = Some (None, so')" "io so'"
    "\<And>d'. valid d' \<Longrightarrow> bo so' d' = (if same_key d d' then None else bo so d')"
    using out.Delete_law [OF inv(1) d] by blast
  have "drops valid (bi si) (bi si')" "drops valid (bo so) (bo so')"
    using i'(3) o'(3) by (auto simp: drops_def split: if_splits)
  then have "cc_inv io ii valid bo bi (so', si')" by (intro two_drops [OF s o'(2) i'(2)])
  moreover have "cc_Delete (NewComposableCache co ci mode) d (so, si) = Some (None, (so', si'))"
    using i'(1) o'(1) wt by (simp add: NewComposableCache_def)
  ultimately show ?thesis using i'(3) o'(3)
    by (intro exI [of _ "(so', si')"]) (simp add: cc_content_pair del: cc_Delete.simps split: option.split)
qed

lemma Writer_two:
  assumes s: "cc_inv io ii valid bo bi (so, si)" and d: "valid d"
  shows "\<exists>w s'. cc_Writer (NewComposableCache co ci mode) d (so, si) = Some (Inr w, s') \<and> cc_inv io ii valid bo bi s'
    \<and> drops valid (cc_content bo bi (so, si)) (cc_content bo bi s') \<and> cc_pend po pn w d []"
proof -
  note inv = two_inv [OF s]
  obtain wi si' where i': "c_Writer ci d si = Some (Inr wi, si')" "ii si'" "drops valid (bi si) (bi si')" "pn wi d []"
    using inn.Writer_law [OF inv(2) d] by blast
  obtain wo so' where o': "c_Writer co d so = Some (Inr wo, so')" "io so'" "drops valid (bo so) (bo so')" "po wo d []"
    using out.Writer_law [OF inv(1) d] by blast
  have "cc_Writer (NewComposableCache co ci mode) d (so, si) = Some (Inr (DoubleWriter wi wo), (so', si'))"
    using i'(1) o'(1) wt by (simp add: NewComposableCache_def)
  with two_drops [OF s o'(2) i'(2) o'(3) i'(3)] o'(4) i'(4) show ?thesis
    by (intro exI [of _ "DoubleWriter wi wo"] exI [of _ "(so', si')"]) (simp del: cc_Writer.simps)
qed

lemma Write_two:
  assumes s: "cc_inv io ii valid bo bi (so, si)" and w: "cc_pend po pn w d buf"
  shows "\<exists>w' s'. cwriter_Write (NewComposableCache co ci mode) w p (so, si) = Some ((length p, None, w'), s')
    \<and> cc_inv io ii valid bo bi s' \<and> drops valid (cc_content bo bi (so, si)) (cc_content bo bi s') \<and> cc_pend po pn w' d (buf @ p)"
proof -
  note inv = two_inv [OF s]
  obtain wi wo where ws: "w = DoubleWriter wi wo" "pn wi d buf" "po wo d buf" using w by (cases w) auto
  obtain wi' si' where i': "w_Write ci wi p si = Some ((length p, None, wi'), si')" "ii si'" "drops valid (bi si) (bi si')"
    "pn wi' d (buf @ p)" using inn.Write_law [OF inv(2) ws(2)] by blast
  obtain wo' so' where o': "w_Write co wo p so = Some ((length p, None, wo'), so')" "io so'" "drops valid (bo so) (bo so')"
    "po wo' d (buf @ p)" using out.Write_law [OF inv(1) ws(3)] by blast
  show ?thesis
  proof (cases "p = []")
    case True
    then have "cwriter_Write (NewComposableCache co ci mode) w p (so, si) = Some ((length p, None, DoubleWriter wi' wo), (so, si'))"
      using i'(1) ws(1) by (simp add: NewComposableCache_def)
    with two_drops [OF s inv(1) i'(2) drops_refl i'(3)] i'(4) ws(3) True show ?thesis
      by (intro exI [of _ "DoubleWriter wi' wo"] exI [of _ "(so, si')"]) (simp del: cwriter_Write.simps)
  next
    case False
    then have "cwriter_Write (NewComposableCache co ci mode) w p (so, si) = Some ((length p, None, DoubleWriter wi' wo'), (so', si'))"
      using i'(1) o'(1) ws(1) by (simp add: NewComposableCache_def)
    with two_drops [OF s o'(2) i'(2) o'(3) i'(3)] o'(4) i'(4) show ?thesis
      by (intro exI [of _ "DoubleWriter wi' wo'"] exI [of _ "(so', si')"]) (simp del: cwriter_Write.simps)
  qed
qed

lemma Close_two:
  assumes s: "cc_inv io ii valid bo bi (so, si)" and d: "valid d" and w: "cc_pend po pn w d buf"
  shows "\<exists>s'. cwriter_Close (NewComposableCache co ci mode) w (so, si) = Some (None, s') \<and> cc_inv io ii valid bo bi s'
    \<and> stores valid same_key d buf (cc_content bo bi (so, si)) (cc_content bo bi s')"
proof -
  note inv = two_inv [OF s]
  obtain wi wo where ws: "w = DoubleWriter wi wo" "pn wi d buf" "po wo d buf" using w by (cases w) auto
  obtain si' where i': "w_Close ci wi si = Some (None, si')" "ii si'" "stores valid same_key d buf (bi si) (bi si')"
    using inn.WriterClose_law [OF inv(2) d ws(2)] by blast
  obtain so' where o': "w_Close co wo so = Some (None, so')" "io so'" "stores valid same_key d buf (bo so) (bo so')"
    using out.WriterClose_law [OF inv(1) d ws(3)] by blast
  have "cwriter_Close (NewComposableCache co ci mode) w (so, si) = Some (None, (so', si'))"
    using i'(1) o'(1) ws(1) by (simp add: NewComposableCache_def)
  with two_stores [OF s o'(2) i'(2) o'(3) i'(3)] show ?thesis by blast
qed

lemma content_same:
  "cc_inv io ii valid bo bi s \<Longrightarrow> valid d \<Longrightarrow> valid d' \<Longrightarrow> same_key d d' \<Longrightarrow> cc_content bo bi s d = cc_content bo bi s d'"
  using out.blobs_same [of "fst s" d d'] inn.blobs_same [of "snd s" d d'] by (simp add: cc_inv_def cc_content_def split: option.split)

end

sublocale write_through \<subseteq> comp: blob_cache "composable_cache (NewComposableCache co ci mode)" "cc_inv io ii valid bo bi"
    "cc_content bo bi" "cc_pend po pn" valid same_key
proof unfold_locales
  fix s :: "'b \<times> 'e" and d d'
  show "same_key d d" by (rule out.same_key_refl)
  show "cc_inv io ii valid bo bi s \<Longrightarrow> valid d \<Longrightarrow> valid d' \<Longrightarrow> same_key d d' \<Longrightarrow> cc_content bo bi s d = cc_content bo bi s d'"
    by (rule content_same)
qed (simp_all add: composable_cache_def split_paired_all Get_two FindMissing_two GetMulti_two Set_two Delete_two Writer_two Write_two Close_two
      del: cc_Get.simps cc_FindMissing.simps cc_GetMulti.simps cc_Set.simps cc_Delete.simps cc_Writer.simps split_paired_Ex)

section \<open>Two memory caches\<close>

interpretation mm: write_through "memory_cache hs m ctx" store_ok "blob hs m ctx" writer_for
    "memory_cache hs m ctx" store_ok "blob hs m ctx" writer_for "named m ctx" "key_hash_eq hs m ctx" "ModeWriteThrough OR x"
    for hs m ctx x
proof unfold_locales
  have "(ModeWriteThrough OR x) AND ModeWriteThrough = ModeWriteThrough"
    by (simp add: word_bw_comms word_ao_absorbs)
  then show "(ModeWriteThrough OR x) AND ModeWriteThrough \<noteq> 0" by (simp add: ModeWriteThrough_def)
qed

definition two_memory :: "hashes \<Rightarrow> MemoryCache \<Rightarrow> request_ctx \<Rightarrow> 32 word
    \<Rightarrow> (Digest option, store, bytes, setOnClose, store, bytes, setOnClose) composableCache" where
  "two_memory hs m ctx = NewComposableCache (memory_cache hs m ctx) (memory_cache hs m ctx)"

definition two_ok :: "hashes \<Rightarrow> MemoryCache \<Rightarrow> request_ctx \<Rightarrow> store \<times> store \<Rightarrow> bool" where
  "two_ok hs m ctx = cc_inv store_ok store_ok (named m ctx) (blob hs m ctx) (blob hs m ctx)"

lemma memory_Get_cases:
  assumes "store_ok l" and "named m ctx d"
  obtains (found) v l' where "blob hs m ctx l d = Some v" "MemoryCache_Get hs m ctx d l = (Inr v, l')" "store_ok l'"
      "blob hs m ctx l' = blob hs m ctx l"
    | (missing) l' where "blob hs m ctx l d = None" "MemoryCache_Get hs m ctx d l = (Inl (Err NotFound ''Key %s not found''), l')"
      "store_ok l'" "blob hs m ctx l' = blob hs m ctx l"
  using MemoryCache_Get_blob [OF assms, of hs]
  by (cases "MemoryCache_Get hs m ctx d l"; cases "blob hs m ctx l d") auto

lemma two_memory_simps [simp]:
  "inner (two_memory hs m ctx md) = memory_cache hs m ctx" "outer (two_memory hs m ctx md) = memory_cache hs m ctx"
  "mode (two_memory hs m ctx md) = md"
  by (simp_all add: two_memory_def NewComposableCache_def)

text \<open>The chunks written to a writer one after another, up to the first error.\<close>

fun write_each :: "('d, 'so, 'ro, 'wo, 'si, 'ri, 'wi) composableCache \<Rightarrow> ('wi, 'wo) cwriter \<Rightarrow> bytes list
    \<Rightarrow> ('so \<times> 'si, error option \<times> ('wi, 'wo) cwriter) action" where
  "write_each c w [] s = Some ((None, w), s)"
| "write_each c w (p # ps) s = do {
     ((n, err, w'), s') \<leftarrow> cwriter_Write c w p s;
     if err \<noteq> None then Some ((err, w'), s') else write_each c w' ps s'
   }"

text \<open>Neither of the two caches has the blob.\<close>

definition unknown :: "hashes \<Rightarrow> MemoryCache \<Rightarrow> request_ctx \<Rightarrow> Digest option \<Rightarrow> store \<times> store \<Rightarrow> bool" where
  "unknown hs m ctx d s \<longleftrightarrow> blob hs m ctx (fst s) d = None \<and> blob hs m ctx (snd s) d = None"

lemma key_hash_eq_refl: "key_hash_eq hs m ctx d d"
  by (rule mc.same_key_refl)

lemma two_memory_Set:
  assumes "two_ok hs m ctx s" and "named m ctx d"
  shows "\<exists>s'. cc_Set (two_memory hs m ctx (ModeWriteThrough OR x)) d v s = Some (None, s') \<and> two_ok hs m ctx s'
    \<and> cc_content (blob hs m ctx) (blob hs m ctx) s' d \<in> {None, Some v}"
proof -
  obtain s' where s': "cc_Set (two_memory hs m ctx (ModeWriteThrough OR x)) d v s = Some (None, s')" "two_ok hs m ctx s'"
      "stores (named m ctx) (key_hash_eq hs m ctx) d v (cc_content (blob hs m ctx) (blob hs m ctx) s) (cc_content (blob hs m ctx) (blob hs m ctx) s')"
    using mm.Set_two [where so = "fst s" and si = "snd s", unfolded prod.collapse] assms unfolding two_ok_def two_memory_def by blast
  then show ?thesis
    using storesD [OF s'(3) assms(2)] key_hash_eq_refl [of hs m ctx d]
    by (cases "cc_content (blob hs m ctx) (blob hs m ctx) s' d") auto
qed

lemma two_memory_Get:
  assumes "two_ok hs m ctx s" and "named m ctx d" and "cc_content (blob hs m ctx) (blob hs m ctx) s d \<in> {None, Some v}"
  shows "\<exists>r s'. cc_Get (two_memory hs m ctx (ModeWriteThrough OR x)) d s = Some (r, s') \<and> two_ok hs m ctx s'
    \<and> (r = Inr v \<or> isl r \<and> unknown hs m ctx d s)"
proof -
  obtain r s' where s': "cc_Get (two_memory hs m ctx (ModeWriteThrough OR x)) d s = Some (r, s')" "two_ok hs m ctx s'"
      "case r of Inr u \<Rightarrow> cc_content (blob hs m ctx) (blob hs m ctx) s d = Some u
       | Inl e \<Rightarrow> cc_content (blob hs m ctx) (blob hs m ctx) s d = None"
    using mm.Get_two [where so = "fst s" and si = "snd s", unfolded prod.collapse] assms(1,2) unfolding two_ok_def two_memory_def by blast
  moreover have "r = Inr v \<or> isl r \<and> unknown hs m ctx d s"
    using s'(3) assms(3) content_None [of "blob hs m ctx" "blob hs m ctx" "fst s" "snd s" d] by (cases r) (auto simp: unknown_def)
  ultimately show ?thesis by blast
qed

lemma two_memory_chunks:
  assumes "two_ok hs m ctx s" and "cc_pend writer_for writer_for w d buf"
  shows "\<exists>w' s'. write_each (two_memory hs m ctx (ModeWriteThrough OR x)) w ps s = Some ((None, w'), s') \<and> two_ok hs m ctx s'
    \<and> cc_pend writer_for writer_for w' d (buf @ concat ps)"
  using assms
proof (induction ps arbitrary: w buf s)
  case (Cons p ps)
  obtain w1 s1 where w1: "cwriter_Write (two_memory hs m ctx (ModeWriteThrough OR x)) w p s = Some ((length p, None, w1), s1)"
      "two_ok hs m ctx s1" "cc_pend writer_for writer_for w1 d (buf @ p)"
    using mm.Write_two [where so = "fst s" and si = "snd s", unfolded prod.collapse] Cons.prems unfolding two_ok_def two_memory_def by blast
  show ?case using Cons.IH [OF w1(2,3)] w1(1) by (auto simp del: cwriter_Write.simps)
qed auto

lemma two_memory_writer:
  assumes "two_ok hs m ctx s" and "named m ctx d"
  shows "\<exists>w s1 w' s2 s3. cc_Writer (two_memory hs m ctx (ModeWriteThrough OR x)) d s = Some (Inr w, s1)
    \<and> write_each (two_memory hs m ctx (ModeWriteThrough OR x)) w ps s1 = Some ((None, w'), s2)
    \<and> cwriter_Close (two_memory hs m ctx (ModeWriteThrough OR x)) w' s2 = Some (None, s3)
    \<and> two_ok hs m ctx s1 \<and> two_ok hs m ctx s2 \<and> two_ok hs m ctx s3
    \<and> cc_content (blob hs m ctx) (blob hs m ctx) s3 d \<in> {None, Some (concat ps)}"
proof -
  obtain w s1 where s1: "cc_Writer (two_memory hs m ctx (ModeWriteThrough OR x)) d s = Some (Inr w, s1)" "two_ok hs m ctx s1"
      "cc_pend writer_for writer_for w d []"
    using mm.Writer_two [where so = "fst s" and si = "snd s", unfolded prod.collapse] assms unfolding two_ok_def two_memory_def by blast
  obtain w' s2 where s2: "write_each (two_memory hs m ctx (ModeWriteThrough OR x)) w ps s1 = Some ((None, w'), s2)"
      "two_ok hs m ctx s2" "cc_pend writer_for writer_for w' d (concat ps)"
    using two_memory_chunks [OF s1(2,3), of x ps] by auto
  obtain s3 where s3: "cwriter_Close (two_memory hs m ctx (ModeWriteThrough OR x)) w' s2 = Some (None, s3)" "two_ok hs m ctx s3"
      "stores (named m ctx) (key_hash_eq hs m ctx) d (concat ps) (cc_content (blob hs m ctx) (blob hs m ctx) s2)
        (cc_content (blob hs m ctx) (blob hs m ctx) s3)"
    using mm.Close_two [where so = "fst s2" and si = "snd s2", unfolded prod.collapse] s2(2,3) assms(2) unfolding two_ok_def two_memory_def by blast
  have "cc_content (blob hs m ctx) (blob hs m ctx) s3 d \<in> {None, Some (concat ps)}"
    using storesD [OF s3(3) assms(2)] key_hash_eq_refl [of hs m ctx d]
    by (cases "cc_content (blob hs m ctx) (blob hs m ctx) s3 d") auto
  with s1 s2 s3 show ?thesis by blast
qed

text \<open>A look-up that finds nothing changes neither the size function nor the maximum nor the accounting error.\<close>

lemma missing_Get_keeps:
  assumes ok: "store_ok l" and n: "named m ctx d" and g: "MemoryCache_Get hs m ctx d l = (Inl e, l')" and missing: "blob hs m ctx l d = None"
  shows "sizeFn l' = sizeFn l" "LRU_MaxSize l' = LRU_MaxSize l" "drift l' = drift l"
proof -
  obtain s where s: "MemoryCache_key m ctx d = Inr s" using named_key [OF n] by blast
  obtain h where h: "Lru.keyHash hs (string_key s) = Some h" using string_key_hash by blast
  have inv: "lru_inv l" and ab: "all_bytes l" using ok by (simp_all add: store_ok_def lru_ok_def)
  have l': "l' = snd (LRU_Get hs (string_key s) l)"
    using g s by (auto simp: MemoryCache_Get_def split: option.splits cache_value.splits prod.splits)
  have "map_of (lru_abs l) h = None"
    using missing s h all_bytes_map_of [OF ab, of h]
    by (auto simp: blob_def key_of_def lru_content_def split: option.splits cache_value.splits)
  then have a: "lru_abs l' = lru_abs l" using LRU_Get_abs [OF inv h] l' by (simp add: touch_def)
  have e: "l' = l\<lparr>evictList := evictList l'\<rparr>" using LRU_Get_abs [OF inv h] l' by blast
  have f: "sizeFn l' = sizeFn l" "maxSize l' = maxSize l" "currentSize l' = currentSize l"
    by (subst e, simp)+
  show "sizeFn l' = sizeFn l" "LRU_MaxSize l' = LRU_MaxSize l" "drift l' = drift l"
    using a f by (simp_all add: LRU_MaxSize_def drift_def used_def)
qed

section \<open>Examples\<close>

text \<open>The empty store, and one that holds three bytes.\<close>

abbreviation example_group :: request_ctx where
  "example_group \<equiv> example_ctx ''GR1''"

definition example_full :: store where
  "example_full = snd (the (MemoryCache_Set example_hashes example_handle example_group example_digest [1, 2, 3] example_store))"

lemma example_named': "named example_handle example_group example_digest"
  by (rule example_named [OF example_plain(1)])

lemma example_empty: "blob hs example_handle ctx example_store d = None"
  using lru_inv_New(2) [OF example_store] by (cases "Lru.keyHash hs (key_of example_handle ctx d)") (simp_all add: blob_def lru_content_def)

lemma example_store_fields: "sizeFn example_store = cache_sizeFn" "drift example_store = 0" "LRU_MaxSize example_store = 10"
  using lru_inv_New(3,4,5) [OF example_store] by (simp_all add: LRU_MaxSize_def)

lemma example_full:
  "store_ok example_full" "fst (MemoryCache_Get example_hashes example_handle example_group example_digest example_full) = Inr [1, 2, 3]"
proof -
  obtain l' where "MemoryCache_Set example_hashes example_handle example_group example_digest [1, 2, 3] example_store = Some (None, l')"
      "store_ok l'" "blob example_hashes example_handle example_group l' example_digest = Some [1, 2, 3]"
    using MemoryCache_Set_fits [OF example_store_ok example_named' example_empty example_store_fields(1), of "[1, 2, 3]" example_hashes]
      example_store_fields(2,3)
    by auto
  then show "store_ok example_full" "fst (MemoryCache_Get example_hashes example_handle example_group example_digest example_full) = Inr [1, 2, 3]"
    using MemoryCache_Get_blob [of l' example_handle example_group example_digest example_hashes] example_named'
    by (simp_all add: example_full_def)
qed

lemma example_two_ok: "two_ok example_hashes example_handle example_group (example_store, example_store)"
  using example_store_ok by (simp add: two_ok_def cc_inv_def coherent_def example_empty)

text \<open>A memory cache as an outer cache that cannot be written to any more.\<close>

definition failing_memory :: "(Digest option, store, bytes, setOnClose) Cache" where
  "failing_memory = (memory_cache example_hashes example_handle example_group)
     \<lparr>c_Set := \<lambda>d v s. Some (Some (Err Unavailable ''''), s), w_Close := \<lambda>w s. Some (Some (Err Unavailable ''''), s)\<rparr>"

section \<open>Properties\<close>

text \<open>C40: for a composition with write-through of two memory caches (whose writes never fail), a blob written at once
  by \<open>Set\<close>, or in any number of chunks to a writer that is then closed, is written without an error, and a
  \<open>Get\<close> that follows returns either just what was written or, only when neither cache has kept the blob, an error,
  whatever either cache held or evicted before; and at every step the two caches stay coherent.\<close>

theorem write_through_read_your_writes:
  assumes "two_ok hs m ctx s" and "named m ctx d"
  shows "(\<exists>s' r s''. cc_Set (two_memory hs m ctx (ModeWriteThrough OR x)) d v s = Some (None, s') \<and> two_ok hs m ctx s'
      \<and> cc_Get (two_memory hs m ctx (ModeWriteThrough OR x)) d s' = Some (r, s'') \<and> two_ok hs m ctx s''
      \<and> (r = Inr v \<or> isl r \<and> unknown hs m ctx d s'))
    \<and> (\<exists>w s1 w' s2 s3 r s4. cc_Writer (two_memory hs m ctx (ModeWriteThrough OR x)) d s = Some (Inr w, s1)
      \<and> write_each (two_memory hs m ctx (ModeWriteThrough OR x)) w chunks s1 = Some ((None, w'), s2)
      \<and> cwriter_Close (two_memory hs m ctx (ModeWriteThrough OR x)) w' s2 = Some (None, s3)
      \<and> two_ok hs m ctx s1 \<and> two_ok hs m ctx s2 \<and> two_ok hs m ctx s3
      \<and> cc_Get (two_memory hs m ctx (ModeWriteThrough OR x)) d s3 = Some (r, s4) \<and> two_ok hs m ctx s4
      \<and> (r = Inr (concat chunks) \<or> isl r \<and> unknown hs m ctx d s3))"
proof (intro conjI)
  obtain s' where s': "cc_Set (two_memory hs m ctx (ModeWriteThrough OR x)) d v s = Some (None, s')" "two_ok hs m ctx s'"
      "cc_content (blob hs m ctx) (blob hs m ctx) s' d \<in> {None, Some v}"
    using two_memory_Set [OF assms] by blast
  then show "\<exists>s' r s''. cc_Set (two_memory hs m ctx (ModeWriteThrough OR x)) d v s = Some (None, s') \<and> two_ok hs m ctx s'
      \<and> cc_Get (two_memory hs m ctx (ModeWriteThrough OR x)) d s' = Some (r, s'') \<and> two_ok hs m ctx s''
      \<and> (r = Inr v \<or> isl r \<and> unknown hs m ctx d s')"
    using two_memory_Get [OF s'(2) assms(2) s'(3)] by blast
next
  obtain w s1 w' s2 s3 where s3: "cc_Writer (two_memory hs m ctx (ModeWriteThrough OR x)) d s = Some (Inr w, s1)"
      "write_each (two_memory hs m ctx (ModeWriteThrough OR x)) w chunks s1 = Some ((None, w'), s2)"
      "cwriter_Close (two_memory hs m ctx (ModeWriteThrough OR x)) w' s2 = Some (None, s3)"
      "two_ok hs m ctx s1" "two_ok hs m ctx s2" "two_ok hs m ctx s3"
      "cc_content (blob hs m ctx) (blob hs m ctx) s3 d \<in> {None, Some (concat chunks)}"
    using two_memory_writer [OF assms] by blast
  then show "\<exists>w s1 w' s2 s3 r s4. cc_Writer (two_memory hs m ctx (ModeWriteThrough OR x)) d s = Some (Inr w, s1)
      \<and> write_each (two_memory hs m ctx (ModeWriteThrough OR x)) w chunks s1 = Some ((None, w'), s2)
      \<and> cwriter_Close (two_memory hs m ctx (ModeWriteThrough OR x)) w' s2 = Some (None, s3)
      \<and> two_ok hs m ctx s1 \<and> two_ok hs m ctx s2 \<and> two_ok hs m ctx s3
      \<and> cc_Get (two_memory hs m ctx (ModeWriteThrough OR x)) d s3 = Some (r, s4) \<and> two_ok hs m ctx s4
      \<and> (r = Inr (concat chunks) \<or> isl r \<and> unknown hs m ctx d s3)"
    using two_memory_Get [OF s3(6) assms(2) s3(7)] by blast
qed

theorem write_through_read_your_writes_witness:
  "(\<exists>s' r s''. cc_Set (two_memory example_hashes example_handle example_group (ModeWriteThrough OR ModeReadThrough)) example_digest [7]
      (example_store, example_store) = Some (None, s')
    \<and> cc_Get (two_memory example_hashes example_handle example_group (ModeWriteThrough OR ModeReadThrough)) example_digest s' = Some (r, s'')
    \<and> (r = Inr [7] \<or> isl r \<and> unknown example_hashes example_handle example_group example_digest s'))
   \<and> (\<exists>w s1 w' s2. cc_Writer (two_memory example_hashes example_handle example_group (ModeWriteThrough OR ModeReadThrough)) example_digest
      (example_store, example_store) = Some (Inr w, s1)
    \<and> write_each (two_memory example_hashes example_handle example_group (ModeWriteThrough OR ModeReadThrough)) w [[7], [], [8, 9]] s1
      = Some ((None, w'), s2))"
  using write_through_read_your_writes [OF example_two_ok example_named', of ModeReadThrough "[7]" "[[7], [], [8, 9]]"] by blast

text \<open>A write to the outer cache that fails is not reported: \<open>Set\<close> (and the \<open>Close\<close> of a writer) returns no error, and
  an outer cache that still has the old blob after it failed goes on serving the old data.\<close>

theorem failed_outer_write_reads_stale:
  assumes "mode c AND ModeWriteThrough \<noteq> 0" and "c_Set (inner c) d v si = Some (None, si')"
    and "c_Set (outer c) d v so = Some (Some e, so')" and "c_Get (outer c) d so' = Some (Inr old, so'')"
    and "w_Close (inner c) wi sj = Some (None, sj')" and "w_Close (outer c) wo sp = Some (Some e', so')"
  shows "cc_Set c d v (so, si) = Some (None, (so', si')) \<and> cc_Get c d (so', si') = Some (Inr old, (so'', si'))
    \<and> cwriter_Close c (DoubleWriter wi wo) (sp, sj) = Some (None, (so', sj')) \<and> cc_Get c d (so', sj') = Some (Inr old, (so'', sj'))"
  using assms by simp

theorem failed_outer_write_reads_stale_witness:
  "\<exists>s' s''. cc_Set (NewComposableCache failing_memory (memory_cache example_hashes example_handle example_group) ModeWriteThrough)
      example_digest [7] (example_full, example_store) = Some (None, s')
    \<and> cc_Get (NewComposableCache failing_memory (memory_cache example_hashes example_handle example_group) ModeWriteThrough)
      example_digest s' = Some (Inr [1, 2, 3], s'')"
proof -
  let ?m = "memory_cache example_hashes example_handle example_group"
  let ?c = "NewComposableCache failing_memory ?m ModeWriteThrough"
  obtain si' where "MemoryCache_Set example_hashes example_handle example_group example_digest [7] example_store = Some (None, si')"
    using MemoryCache_Set_stores [OF example_store_ok example_named'] by blast
  moreover obtain so'' where "MemoryCache_Get example_hashes example_handle example_group example_digest example_full = (Inr [1, 2, 3], so'')"
    using example_full(2) by (cases "MemoryCache_Get example_hashes example_handle example_group example_digest example_full") simp
  moreover obtain wi s1 where "c_Writer ?m example_digest example_store = Some (Inr wi, s1)" "writer_for wi example_digest []" "store_ok s1"
    using mc.Writer_law [OF example_store_ok example_named'] by blast
  moreover obtain sj' where "w_Close ?m wi s1 = Some (None, sj')"
    using mc.WriterClose_law [OF calculation(5) example_named' calculation(4)] by blast
  moreover have "ModeWriteThrough \<noteq> 0" by (simp add: ModeWriteThrough_def)
  ultimately have "mode ?c AND ModeWriteThrough \<noteq> 0"
      "cc_Set ?c example_digest [7] (example_full, example_store) = Some (None, (example_full, si'))
      \<and> cc_Get ?c example_digest (example_full, si') = Some (Inr [1, 2, 3], (so'', si'))"
    using failed_outer_write_reads_stale [of ?c example_digest "[7]" example_store si' example_full "Err Unavailable ''''" example_full
        "[1, 2, 3]" so'' wi s1 sj' undefined example_full "Err Unavailable ''''"]
    by (simp_all add: NewComposableCache_def failing_memory_def del: cc_Get.simps cc_Set.simps cwriter_Close.simps)
  then show ?thesis by blast
qed

text \<open>Without write-through, a blob that the outer cache has shadows every later write and even a deletion: \<open>Get\<close> still
  returns the old data.\<close>

theorem no_write_through_reads_stale:
  assumes "store_ok so" and "store_ok si" and "named m ctx d" and "md AND ModeWriteThrough = 0"
    and "fst (MemoryCache_Get hs m ctx d so) = Inr old"
  shows "(\<exists>s' s''. cc_Set (two_memory hs m ctx md) d v (so, si) = Some (None, s')
      \<and> cc_Get (two_memory hs m ctx md) d s' = Some (Inr old, s''))
    \<and> (\<exists>s' s''. cc_Delete (two_memory hs m ctx md) d (so, si) = Some (None, s')
      \<and> cc_Get (two_memory hs m ctx md) d s' = Some (Inr old, s''))"
proof -
  obtain si' where "MemoryCache_Set hs m ctx d v si = Some (None, si')"
    using MemoryCache_Set_stores [OF assms(2,3)] by blast
  moreover obtain si'' where "MemoryCache_Delete hs m ctx d si = (None, si'')"
    using MemoryCache_Delete_blob [OF assms(2,3), of hs] by (cases "MemoryCache_Delete hs m ctx d si") simp
  moreover obtain so' where "MemoryCache_Get hs m ctx d so = (Inr old, so')"
    using assms(5) by (cases "MemoryCache_Get hs m ctx d so") simp
  ultimately show ?thesis using assms(4) by simp
qed

theorem no_write_through_reads_stale_witness:
  "\<exists>s' s''. cc_Set (two_memory example_hashes example_handle example_group 0) example_digest [7] (example_full, example_store) = Some (None, s')
    \<and> cc_Get (two_memory example_hashes example_handle example_group 0) example_digest s' = Some (Inr [1, 2, 3], s'')"
  using no_write_through_reads_stale [OF example_full(1) example_store_ok example_named' _ example_full(2), of 0 "[7]"] by simp

text \<open>\<open>Contains\<close> never uses the outer cache's answer: for a blob that only the outer cache has, it says
  no, while \<open>FindMissing\<close> does not list it and \<open>Get\<close> returns it.\<close>

theorem composable_Contains_ignores_outer:
  assumes "store_ok so" and "store_ok si" and "named m ctx d"
    and "fst (MemoryCache_Get hs m ctx d so) = Inr v" and "isl (fst (MemoryCache_Get hs m ctx d si))"
  shows "map_option fst (cc_Contains (two_memory hs m ctx md) d (so, si)) = Some (Inr False)
    \<and> map_option fst (cc_FindMissing (two_memory hs m ctx md) [d] (so, si)) = Some (Inr [])
    \<and> map_option fst (cc_Get (two_memory hs m ctx md) d (so, si)) = Some (Inr v)"
proof -
  have so: "blob hs m ctx so d = Some v"
    using assms(4) by (cases rule: memory_Get_cases [OF assms(1,3), of hs]) simp_all
  have si: "blob hs m ctx si d = None"
    using assms(5) by (cases rule: memory_Get_cases [OF assms(2,3), of hs]) simp_all
  obtain so1 where "MemoryCache_Contains hs m ctx d so = (Inr True, so1)"
    using MemoryCache_Contains_blob [OF assms(1,3), of hs] so by (cases "MemoryCache_Contains hs m ctx d so") simp
  moreover obtain si1 where "MemoryCache_Contains hs m ctx d si = (Inr False, si1)"
    using MemoryCache_Contains_blob [OF assms(2,3), of hs] si by (cases "MemoryCache_Contains hs m ctx d si") simp
  moreover obtain so2 where "MemoryCache_FindMissing hs m ctx [d] so = (Inr [], so2)"
    using MemoryCache_FindMissing_blob [OF assms(1), of "[d]" m ctx hs] assms(3) so
    by (cases "MemoryCache_FindMissing hs m ctx [d] so") simp
  moreover obtain so3 where "MemoryCache_Get hs m ctx d so = (Inr v, so3)"
    using assms(4) by (cases "MemoryCache_Get hs m ctx d so") simp
  ultimately show ?thesis by (simp del: MemoryCache_FindMissing.simps)
qed

theorem composable_Contains_ignores_outer_witness:
  "map_option fst (cc_Contains (two_memory example_hashes example_handle example_group 0) example_digest (example_full, example_store)) = Some (Inr False)
    \<and> map_option fst (cc_Get (two_memory example_hashes example_handle example_group 0) example_digest (example_full, example_store)) = Some (Inr [1, 2, 3])"
  using composable_Contains_ignores_outer [OF example_full(1) example_store_ok example_named' example_full(2) example_Get, of 0] by blast

text \<open>With read-through, a reader of a blob that only the inner cache has, closed after the first \<open>k\<close> bytes, leaves these
  \<open>k\<close> bytes as the blob in the outer cache, and \<open>Get\<close> returns them from then on (the outer cache having room for them).\<close>

theorem partial_read_truncates_blob:
  assumes "store_ok so" and "store_ok si" and "named m ctx d" and "md AND ModeReadThrough \<noteq> 0"
    and "isl (fst (MemoryCache_Get hs m ctx d so))" and "fst (MemoryCache_Get hs m ctx d si) = Inr v"
    and "0 < k" and "k \<le> length v" and "sizeFn so = cache_sizeFn" and "drift so + int k \<le> LRU_MaxSize so"
  shows "\<exists>rd s1 rd' s2 s3 s4. cc_Reader (two_memory hs m ctx md) d 0 (so, si) = Some (Inr rd, s1)
    \<and> creader_Read (two_memory hs m ctx md) rd k s1 = Some ((take k v, None, rd'), s2)
    \<and> creader_Close (two_memory hs m ctx md) rd' s2 = Some (None, s3)
    \<and> cc_Get (two_memory hs m ctx md) d s3 = Some (Inr (take k v), s4)"
proof -
  obtain so1 e where so1: "MemoryCache_Get hs m ctx d so = (Inl e, so1)" "blob hs m ctx so d = None" "store_ok so1"
      "blob hs m ctx so1 = blob hs m ctx so"
    using assms(5) by (cases rule: memory_Get_cases [OF assms(1,3), of hs]) auto
  obtain si1 where si1: "MemoryCache_Get hs m ctx d si = (Inr v, si1)"
    using assms(6) by (cases "MemoryCache_Get hs m ctx d si") simp
  have v: "v \<noteq> []" "take k v \<noteq> []" using assms(7,8) by auto
  note keep = missing_Get_keeps [OF assms(1,3) so1(1,2)]
  have "length (take k v) = k" using assms(8) by simp
  then obtain so2 where so2: "MemoryCache_Set hs m ctx d (take k v) so1 = Some (None, so2)" "store_ok so2" "blob hs m ctx so2 d = Some (take k v)"
    using MemoryCache_Set_fits [OF so1(3) assms(3), of hs "take k v"] so1(2,4) keep assms(9,10) by auto
  obtain so3 where "MemoryCache_Get hs m ctx d so2 = (Inr (take k v), so3)"
    using so2(3) by (cases rule: memory_Get_cases [OF so2(2) assms(3), of hs]) auto
  moreover have "cc_Reader (two_memory hs m ctx md) d 0 (so, si) = Some (Inr (TeeReader v (MemoryCache_Writer d)), (so1, si1))"
    using so1(1) si1 assms(4) v by (simp add: MemoryCache_Reader_def)
  moreover have "creader_Read (two_memory hs m ctx md) (TeeReader v (MemoryCache_Writer d)) k (so1, si1)
      = Some ((take k v, None, TeeReader (drop k v) \<lparr>wDigest = d, wBuffer = take k v\<rparr>), (so1, si1))"
    using v by (simp add: bytes_Read_def setOnClose_Write_def MemoryCache_Writer_def)
  moreover have "creader_Close (two_memory hs m ctx md) (TeeReader (drop k v) \<lparr>wDigest = d, wBuffer = take k v\<rparr>) (so1, si1)
      = Some (None, (so2, si1))"
    using so2(1) by (simp add: setOnClose_Close_def)
  ultimately show ?thesis by fastforce
qed

theorem partial_read_truncates_blob_witness:
  "\<exists>rd s1 rd' s2 s3 s4. cc_Reader (two_memory example_hashes example_handle example_group ModeReadThrough) example_digest 0 (example_store, example_full)
      = Some (Inr rd, s1)
    \<and> creader_Read (two_memory example_hashes example_handle example_group ModeReadThrough) rd 1 s1 = Some ((take 1 [1, 2, 3], None, rd'), s2)
    \<and> creader_Close (two_memory example_hashes example_handle example_group ModeReadThrough) rd' s2 = Some (None, s3)
    \<and> cc_Get (two_memory example_hashes example_handle example_group ModeReadThrough) example_digest s3 = Some (Inr (take 1 [1, 2, 3]), s4)"
  by (rule partial_read_truncates_blob [OF example_store_ok example_full(1) example_named' _ example_Get example_full(2)])
    (simp_all add: ModeReadThrough_def example_store_fields)

end
