(* ===== verification/CacheProxy.thy ===== *)
theory CacheProxy
  imports MemoryCache Status "HOL-Library.Monad_Syntax"
begin

text \<open>
  \<^verbatim>\<open>enterprise/server/util/cacheproxy/cacheproxy.go\<close>: the service by which the nodes of the distributed cache
  read and write each other's caches, its handlers and its client.

  A cluster is the state of all nodes. gRPC is outside the code: a call runs the handler on the node it
  is for, and fails with \<^verbatim>\<open>Unavailable\<close> if the network does not reach the node. A stream of responses is what
  the handler sends and its final error; a stream of requests is the state the handler has when it
  waits for the next one. The caches the nodes serve, as they come from \<^verbatim>\<open>WithIsolation\<close>, and the callbacks
  are in the record \<open>network\<close>. Logs are left out.
\<close>

section \<open>Messages\<close>

datatype iso_type = UNKNOWN_TYPE | CAS_CACHE | ACTION_CACHE

record Isolation =
  isoCacheType :: iso_type
  isoRemoteInstanceName :: string

record dcKey =
  dcHash :: string
  dcSize :: int

record WriteRequest =
  wrIsolation :: Isolation
  wrKey :: dcKey
  wrData :: bytes
  wrFinishWrite :: bool
  wrHandoffPeer :: string

definition digestFromKey :: "dcKey \<Rightarrow> Digest option" where
  "digestFromKey k = Some \<lparr>dHash = dcHash k, dSizeBytes = dcSize k\<rparr>"

definition digestToKey :: "Digest option \<Rightarrow> dcKey" where
  "digestToKey d = \<lparr>dcHash = GetHash d, dcSize = GetSizeBytes d\<rparr>"

definition ProtoCacheTypeToCacheType :: "iso_type \<Rightarrow> error + CacheType" where
  "ProtoCacheTypeToCacheType t =
     (case t of
        CAS_CACHE \<Rightarrow> Inr CASCacheType
      | ACTION_CACHE \<Rightarrow> Inr ActionCacheType
      | UNKNOWN_TYPE \<Rightarrow> Inl (InvalidArgumentError ''unknown cache type %v''))"

definition IsolationToString :: "Isolation \<Rightarrow> string" where
  "IsolationToString isol =
     (let ct = (case ProtoCacheTypeToCacheType (isoCacheType isol) of Inl _ \<Rightarrow> UnknownCacheType | Inr t \<Rightarrow> t);
          rep = filepath_Join [isoRemoteInstanceName isol, CacheType_Prefix ct] in
      if rep = '''' \<or> last rep \<noteq> CHR ''/'' then rep @ ''/'' else rep)"

section \<open>The cluster\<close>

record handoff =
  ho_ctx :: request_ctx
  ho_digest :: "Digest option"
  ho_isolation :: Isolation

text \<open>
  The caches, the queues of hinted handoffs a node holds for its peers and the times it heard from them.
\<close>

record 'c cluster =
  caches :: "string \<Rightarrow> 'c"
  hintedHandoffsByPeer :: "string \<Rightarrow> (string \<rightharpoonup> handoff list)"
  lastContactedBy :: "string \<Rightarrow> (string \<rightharpoonup> int)"

record ('c, 'r, 'w) network =
  net_env :: env
  reachable :: "string \<Rightarrow> bool"
  served :: "string \<Rightarrow> request_ctx \<Rightarrow> CacheType \<Rightarrow> string \<Rightarrow> error + (Digest option, 'c, 'r, 'w) Cache"
  heartbeatCallback :: "string \<Rightarrow> string \<Rightarrow> 'c cluster \<Rightarrow> 'c cluster"
  hintedHandoffCallback :: "string \<Rightarrow> request_ctx \<Rightarrow> string \<Rightarrow> Isolation \<Rightarrow> Digest option \<Rightarrow> 'c cluster \<Rightarrow> 'c cluster"

definition on_node :: "string \<Rightarrow> ('c, 'a) action \<Rightarrow> ('c cluster, 'a) action" where
  "on_node node f cl =
     (case f (caches cl node) of
        None \<Rightarrow> None
      | Some (r, c') \<Rightarrow> Some (r, cl\<lparr>caches := (caches cl)(node := c')\<rparr>))"

section \<open>The handlers\<close>

definition getCache :: "('c, 'r, 'w) network \<Rightarrow> string \<Rightarrow> request_ctx \<Rightarrow> Isolation \<Rightarrow> error + (Digest option, 'c, 'r, 'w) Cache" where
  "getCache net node ctx isol =
     (case ProtoCacheTypeToCacheType (isoCacheType isol) of
        Inl e \<Rightarrow> Inl e
      | Inr ct \<Rightarrow> served net node ctx ct (isoRemoteInstanceName isol))"

definition attached_cache :: "('c, 'r, 'w) network \<Rightarrow> string \<Rightarrow> request_ctx \<Rightarrow> Isolation \<Rightarrow> error + (Digest option, 'c, 'r, 'w) Cache" where
  "attached_cache net node ctx isol =
     (case AttachUserPrefixToContext ctx (net_env net) of
        Inl e \<Rightarrow> Inl e
      | Inr ctx' \<Rightarrow> getCache net node ctx' isol)"

definition proxy_FindMissing :: "('c, 'r, 'w) network \<Rightarrow> string \<Rightarrow> request_ctx \<Rightarrow> Isolation \<Rightarrow> dcKey list
    \<Rightarrow> ('c cluster, error + dcKey list) action" where
  "proxy_FindMissing net node ctx isol ks cl =
     (case attached_cache net node ctx isol of
        Inl e \<Rightarrow> Some (Inl e, cl)
      | Inr cache \<Rightarrow> do {
          (r, cl') \<leftarrow> on_node node (c_FindMissing cache (map digestFromKey ks)) cl;
          Some (map_sum id (map digestToKey) r, cl')
        })"

text \<open>\<open>GetMulti\<close>: the blobs found are sent in the order Go enumerates the map, that of the keys here.\<close>

definition proxy_GetMulti :: "('c, 'r, 'w) network \<Rightarrow> string \<Rightarrow> request_ctx \<Rightarrow> Isolation \<Rightarrow> dcKey list
    \<Rightarrow> ('c cluster, error + (dcKey \<times> bytes) list) action" where
  "proxy_GetMulti net node ctx isol ks cl =
     (case attached_cache net node ctx isol of
        Inl e \<Rightarrow> Some (Inl e, cl)
      | Inr cache \<Rightarrow> do {
          (r, cl') \<leftarrow> on_node node (c_GetMulti cache (map digestFromKey ks)) cl;
          Some (map_sum id (\<lambda>found.
            List.map_filter (\<lambda>d. map_option (\<lambda>buf. (digestToKey d, buf)) (found d)) (remdups (map digestFromKey ks))) r, cl')
        })"

text \<open>
  \<^verbatim>\<open>io.CopyBuffer\<close> to the stream: what is read is sent piece by piece until an error, which is nil at the end.
\<close>

partial_function (option) copy_loop :: "(Digest option, 'c, 'r, 'w) Cache \<Rightarrow> nat \<Rightarrow> 'r \<Rightarrow> bytes list
    \<Rightarrow> ('c, bytes list \<times> error option \<times> 'r) action" where
  "copy_loop cache n r sent c =
     (case r_Read cache r n c of
        None \<Rightarrow> None
      | Some ((bs, err, r'), c') \<Rightarrow>
          let sent' = (if bs = [] then sent else sent @ [bs]) in
          (case err of
             None \<Rightarrow> copy_loop cache n r' sent' c'
           | Some e \<Rightarrow> Some ((sent', if e = EOF then None else Some e, r'), c')))"

definition readBufSizeBytes :: int where
  "readBufSizeBytes = 1000000"

definition proxy_Read :: "('c, 'r, 'w) network \<Rightarrow> string \<Rightarrow> request_ctx \<Rightarrow> Isolation \<Rightarrow> dcKey \<Rightarrow> int
    \<Rightarrow> ('c cluster, bytes list \<times> error option) action" where
  "proxy_Read net node ctx isol k offset cl =
     (case attached_cache net node ctx isol of
        Inl e \<Rightarrow> Some (([], Some e), cl)
      | Inr cache \<Rightarrow> do {
          (r, cl1) \<leftarrow> on_node node (c_Reader cache (digestFromKey k) offset) cl;
          case r of
            Inl e \<Rightarrow> Some (([], Some e), cl1)
          | Inr reader \<Rightarrow> do {
              let bufSize = (if dcSize k > 0 \<and> dcSize k < readBufSizeBytes then dcSize k else readBufSizeBytes);
              ((sent, err, reader'), cl2) \<leftarrow> on_node node (copy_loop cache (nat bufSize) reader []) cl1;
              (_, cl3) \<leftarrow> on_node node (r_Close cache reader') cl2;
              Some ((sent, err), cl3)
            }
        })"

text \<open>
  The handler of a stream of writes, waiting for the next request: the cache and writer it has opened, if any,
  the peer to hand the blob to, the bytes written, and its result once it has returned.
\<close>

record ('c, 'r, 'w) write_stream =
  wsNode :: string
  wsCtx :: request_ctx
  wsCloser :: "((Digest option, 'c, 'r, 'w) Cache \<times> 'w) option"
  wsHandoffPeer :: string
  wsBytesWritten :: int
  wsResult :: "(error + int) option"

definition proxy_Write_open :: "('c, 'r, 'w) network \<Rightarrow> string \<Rightarrow> request_ctx \<Rightarrow> ('c, 'r, 'w) write_stream" where
  "proxy_Write_open net node ctx =
     (let st = \<lparr>wsNode = node, wsCtx = ctx, wsCloser = None, wsHandoffPeer = '''', wsBytesWritten = 0, wsResult = None\<rparr> in
      case AttachUserPrefixToContext ctx (net_env net) of
        Inl e \<Rightarrow> st\<lparr>wsResult := Some (Inl e)\<rparr>
      | Inr ctx' \<Rightarrow> st\<lparr>wsCtx := ctx'\<rparr>)"

definition callHintedHandoffCB :: "('c, 'r, 'w) network \<Rightarrow> string \<Rightarrow> request_ctx \<Rightarrow> string \<Rightarrow> Isolation \<Rightarrow> Digest option
    \<Rightarrow> 'c cluster \<Rightarrow> 'c cluster" where
  "callHintedHandoffCB net = hintedHandoffCallback net"

definition proxy_Write_first :: "('c, 'r, 'w) network \<Rightarrow> WriteRequest \<Rightarrow> ('c, 'r, 'w) write_stream
    \<Rightarrow> ('c cluster, error + ('c, 'r, 'w) write_stream) action" where
  "proxy_Write_first net req st cl =
     (case wsCloser st of
        Some _ \<Rightarrow> Some (Inr st, cl)
      | None \<Rightarrow>
          (case getCache net (wsNode st) (wsCtx st) (wrIsolation req) of
             Inl e \<Rightarrow> Some (Inl e, cl)
           | Inr cache \<Rightarrow> do {
               (r, cl') \<leftarrow> on_node (wsNode st) (c_Writer cache (digestFromKey (wrKey req))) cl;
               Some (map_sum id (\<lambda>w. st\<lparr>wsCloser := Some (cache, w), wsHandoffPeer := wrHandoffPeer req\<rparr>) r, cl')
             }))"

definition proxy_Write_recv :: "('c, 'r, 'w) network \<Rightarrow> WriteRequest \<Rightarrow> ('c, 'r, 'w) write_stream
    \<Rightarrow> ('c cluster, ('c, 'r, 'w) write_stream) action" where
  "proxy_Write_recv net req st0 cl = do {
     (r, cl1) \<leftarrow> proxy_Write_first net req st0 cl;
     case r of
       Inl e \<Rightarrow> Some (st0\<lparr>wsResult := Some (Inl e)\<rparr>, cl1)
     | Inr st \<Rightarrow>
         (case wsCloser st of
            None \<Rightarrow> Some (st, cl1)
          | Some (cache, w) \<Rightarrow> do {
              ((n, err, w'), cl2) \<leftarrow> on_node (wsNode st) (w_Write cache w (wrData req)) cl1;
              let st = st\<lparr>wsCloser := Some (cache, w')\<rparr>;
              case err of
                Some e \<Rightarrow> Some (st\<lparr>wsResult := Some (Inl e)\<rparr>, cl2)
              | None \<Rightarrow> do {
                  let st = st\<lparr>wsBytesWritten := wsBytesWritten st + int n\<rparr>;
                  if \<not> wrFinishWrite req then Some (st, cl2)
                  else do {
                    (err', cl3) \<leftarrow> on_node (wsNode st) (w_Close cache w') cl2;
                    case err' of
                      Some e \<Rightarrow> Some (st\<lparr>wsResult := Some (Inl e)\<rparr>, cl3)
                    | None \<Rightarrow>
                        Some (st\<lparr>wsResult := Some (Inr (wsBytesWritten st))\<rparr>,
                              if wsHandoffPeer st \<noteq> ''''
                              then callHintedHandoffCB net (wsNode st) (wsCtx st) (wsHandoffPeer st) (wrIsolation req)
                                     (digestFromKey (wrKey req)) cl3
                              else cl3)
                  }
                }
            })
   }"

definition proxy_Heartbeat :: "('c, 'r, 'w) network \<Rightarrow> string \<Rightarrow> string \<Rightarrow> 'c cluster \<Rightarrow> error option \<times> 'c cluster" where
  "proxy_Heartbeat net node source cl =
     (if source = '''' then (Some (InvalidArgumentError ''A source is required.''), cl)
      else (None, heartbeatCallback net node source cl))"

section \<open>The client\<close>

text \<open>A call of a peer's handler, if the peer can be reached.\<close>

definition not_ready :: error where
  "not_ready = UnavailableError ''connection to peer %q is not ready''"

definition call_peer :: "('c, 'r, 'w) network \<Rightarrow> string \<Rightarrow> ('c cluster, error + 'a) action \<Rightarrow> ('c cluster, error + 'a) action" where
  "call_peer net peer f cl = (if reachable net peer then f cl else Some (Inl not_ready, cl))"

definition RemoteFindMissing :: "('c, 'r, 'w) network \<Rightarrow> request_ctx \<Rightarrow> string \<Rightarrow> Isolation \<Rightarrow> Digest option list
    \<Rightarrow> ('c cluster, error + Digest option list) action" where
  "RemoteFindMissing net ctx peer isol ds cl = do {
     (r, cl') \<leftarrow> call_peer net peer (proxy_FindMissing net peer ctx isol (map digestToKey ds)) cl;
     Some (map_sum id (map digestFromKey) r, cl')
   }"

definition RemoteContains :: "('c, 'r, 'w) network \<Rightarrow> request_ctx \<Rightarrow> string \<Rightarrow> Isolation \<Rightarrow> Digest option
    \<Rightarrow> ('c cluster, error + bool) action" where
  "RemoteContains net ctx peer isol d cl = do {
     (r, cl') \<leftarrow> RemoteFindMissing net ctx peer isol [d] cl;
     Some (map_sum id (\<lambda>missing. missing = []) r, cl')
   }"

text \<open>
  \<open>RemoteGetMulti\<close>: an answer is matched to the last digest asked for with its hash; later answers win.
\<close>

definition hashDigest :: "Digest option list \<Rightarrow> string \<Rightarrow> Digest option option" where
  "hashDigest ds h = map_of (rev (map (\<lambda>d. (GetHash d, d)) ds)) h"

definition RemoteGetMulti :: "('c, 'r, 'w) network \<Rightarrow> request_ctx \<Rightarrow> string \<Rightarrow> Isolation \<Rightarrow> Digest option list
    \<Rightarrow> ('c cluster, error + (Digest option \<rightharpoonup> bytes)) action" where
  "RemoteGetMulti net ctx peer isol ds cl = do {
     (r, cl') \<leftarrow> call_peer net peer (proxy_GetMulti net peer ctx isol (map digestToKey ds)) cl;
     Some (map_sum id (foldl (\<lambda>m (k, v). case hashDigest ds (dcHash k) of Some d \<Rightarrow> m(d \<mapsto> v) | None \<Rightarrow> m) Map.empty) r, cl')
   }"

text \<open>The readers and writers a node works with: those of a cache of its own, and the two ends of a stream.\<close>

datatype ('c, 'r, 'w) dreader = LocalReader "(Digest option, 'c, 'r, 'w) Cache" 'r | PipeReader "bytes list" "error option"

datatype ('c, 'r, 'w) dwriter =
  LocalWriter "(Digest option, 'c, 'r, 'w) Cache" 'w
| StreamWriter "('c, 'r, 'w) write_stream" dcKey Isolation string
| DevNull

definition RemoteReader :: "('c, 'r, 'w) network \<Rightarrow> request_ctx \<Rightarrow> string \<Rightarrow> Isolation \<Rightarrow> Digest option \<Rightarrow> int
    \<Rightarrow> ('c cluster, error + ('c, 'r, 'w) dreader) action" where
  "RemoteReader net ctx peer isol d offset cl =
     (if \<not> reachable net peer then Some (Inl not_ready, cl)
      else do {
        ((sent, err), cl') \<leftarrow> proxy_Read net peer ctx isol (digestToKey d) offset cl;
        let err' = (case err of None \<Rightarrow> EOF | Some e \<Rightarrow> e);
        if sent \<noteq> [] then Some (Inr (PipeReader sent err), cl')
        else if err' = EOF \<and> GetSizeBytes d = offset then Some (Inr (PipeReader [] None), cl')
        else Some (Inl err', cl')
      })"

text \<open>Reading from the pipe: the pieces one after the other, then the error the writing end was closed with.\<close>

fun pipe_Read :: "bytes list \<Rightarrow> error option \<Rightarrow> nat \<Rightarrow> bytes \<times> error option \<times> bytes list" where
  "pipe_Read [] err n = ([], Some (case err of None \<Rightarrow> EOF | Some e \<Rightarrow> e), [])"
| "pipe_Read (p # ps) err n = (take n p, None, if length p \<le> n then ps else drop n p # ps)"

definition RemoteWriter :: "('c, 'r, 'w) network \<Rightarrow> request_ctx \<Rightarrow> string \<Rightarrow> string \<Rightarrow> Isolation \<Rightarrow> Digest option
    \<Rightarrow> ('c cluster, error + ('c, 'r, 'w) dwriter) action" where
  "RemoteWriter net ctx peer handoffPeer isol d cl = do {
     (skip, cl1) \<leftarrow> (if isoCacheType isol = CAS_CACHE
        then do { (r, cl') \<leftarrow> RemoteContains net ctx peer isol d cl; Some (r = Inr True, cl') }
        else Some (False, cl));
     if skip then Some (Inr DevNull, cl1)
     else if \<not> reachable net peer then Some (Inl not_ready, cl1)
     else Some (Inr (StreamWriter (proxy_Write_open net peer ctx) (digestToKey d) isol handoffPeer), cl1)
   }"

text \<open>Sending fails with \<^verbatim>\<open>io.EOF\<close> once the handler has returned.\<close>

definition stream_Send :: "('c, 'r, 'w) network \<Rightarrow> WriteRequest \<Rightarrow> ('c, 'r, 'w) write_stream
    \<Rightarrow> ('c cluster, error option \<times> ('c, 'r, 'w) write_stream) action" where
  "stream_Send net req st cl =
     (if wsResult st \<noteq> None then Some ((Some EOF, st), cl)
      else do { (st', cl') \<leftarrow> proxy_Write_recv net req st cl; Some ((None, st'), cl') })"

definition streamWriteCloser_Write :: "('c, 'r, 'w) network \<Rightarrow> ('c, 'r, 'w) write_stream \<Rightarrow> dcKey \<Rightarrow> Isolation \<Rightarrow> string \<Rightarrow> bytes
    \<Rightarrow> ('c cluster, nat \<times> error option \<times> ('c, 'r, 'w) write_stream) action" where
  "streamWriteCloser_Write net st k isol handoffPeer data cl = do {
     ((err, st'), cl') \<leftarrow> stream_Send net
        \<lparr>wrIsolation = isol, wrKey = k, wrData = data, wrFinishWrite = False, wrHandoffPeer = handoffPeer\<rparr> st cl;
     Some ((length data, err, st'), cl')
   }"

text \<open>A handler that sees the end of the stream before the last request returns without a response.\<close>

definition streamWriteCloser_Close :: "('c, 'r, 'w) network \<Rightarrow> ('c, 'r, 'w) write_stream \<Rightarrow> dcKey \<Rightarrow> Isolation \<Rightarrow> string
    \<Rightarrow> ('c cluster, error option) action" where
  "streamWriteCloser_Close net st k isol handoffPeer cl = do {
     ((err, st'), cl') \<leftarrow> stream_Send net
        \<lparr>wrIsolation = isol, wrKey = k, wrData = [], wrFinishWrite = True, wrHandoffPeer = handoffPeer\<rparr> st cl;
     case err of
       Some e \<Rightarrow> Some (Some e, cl')
     | None \<Rightarrow> Some (case wsResult st' of Some (Inl e) \<Rightarrow> Some e | Some (Inr _) \<Rightarrow> None | None \<Rightarrow> Some EOF, cl')
   }"

definition SendHeartbeat :: "('c, 'r, 'w) network \<Rightarrow> string \<Rightarrow> string \<Rightarrow> 'c cluster \<Rightarrow> error option \<times> 'c cluster" where
  "SendHeartbeat net self peer cl =
     (if reachable net peer then proxy_Heartbeat net peer self cl else (Some not_ready, cl))"

end
