(* ===== verification/PeerSet.thy ===== *)
theory PeerSet
  imports Prelude
begin

text \<open>
  \<^verbatim>\<open>server/util/peerset/peerset.go\<close>: the order in which a client of the distributed cache tries the peers of
  a key: the preferred ones, then for every failed preferred peer a fallback one that keeps the
  data for it (a hinted handoff). Names of peers are strings; the empty one means that there is none left.
\<close>

section \<open>The code\<close>

record PeerSet =
  PreferredPeers :: "string list"
  FallbackPeers :: "string list"
  FailedPeers :: "string list"
  next_i :: nat

definition New :: "string list \<Rightarrow> string list \<Rightarrow> PeerSet" where
  "New preferredPeers fallbackPeers =
     \<lparr>PreferredPeers = preferredPeers, FallbackPeers = fallbackPeers, FailedPeers = [], next_i = 0\<rparr>"

text \<open>\<open>shuffle\<close> is what \<^verbatim>\<open>rand.Shuffle\<close> makes of a list.\<close>

definition NewRead :: "(string list \<Rightarrow> string list) \<Rightarrow> string \<Rightarrow> string list \<Rightarrow> string list \<Rightarrow> PeerSet" where
  "NewRead shuffle localhost preferredPeers fallbackPeers =
     (let rest = filter (\<lambda>p. p \<noteq> localhost) preferredPeers;
          first = filter (\<lambda>p. p = localhost) preferredPeers in
      New (first @ shuffle rest) fallbackPeers)"

definition MarkPeerAsFailed :: "string \<Rightarrow> PeerSet \<Rightarrow> PeerSet" where
  "MarkPeerAsFailed failedPeer p =
     (if failedPeer \<in> set (PreferredPeers p) then p\<lparr>FailedPeers := FailedPeers p @ [failedPeer]\<rparr> else p)"

definition GetNextPeerAndHandoff :: "PeerSet \<Rightarrow> (string \<times> string) \<times> PeerSet" where
  "GetNextPeerAndHandoff p =
     (let i = next_i p; numPreferred = length (PreferredPeers p) in
      if i < numPreferred then ((PreferredPeers p ! i, ''''), p\<lparr>next_i := i + 1\<rparr>)
      else
        let j = i - numPreferred in
        if j < length (FallbackPeers p) \<and> j < length (FailedPeers p)
        then ((FallbackPeers p ! j, FailedPeers p ! j), p\<lparr>next_i := i + 1\<rparr>)
        else (('''', ''''), p))"

definition GetNextPeer :: "PeerSet \<Rightarrow> string \<times> PeerSet" where
  "GetNextPeer p = (let ((peer, _), p') = GetNextPeerAndHandoff p in (peer, p'))"

text \<open>\<open>GetBackfillTargets\<close> panics (\<open>None\<close>) before the first call for a peer: the last used index is then -1.\<close>

definition GetBackfillTargets :: "PeerSet \<Rightarrow> (string \<times> string list) option" where
  "GetBackfillTargets p =
     (let lastUsedIndex = int (next_i p) - 1; np = length (PreferredPeers p) in
      if lastUsedIndex < int np \<and> lastUsedIndex < 0 then None
      else
        let k = nat lastUsedIndex;
            (source, targets) =
              (if lastUsedIndex < int np then (PreferredPeers p ! k, take k (PreferredPeers p))
               else if k - np < length (FallbackPeers p) then (FallbackPeers p ! (k - np), PreferredPeers p)
               else ('''', [])) in
        if source \<in> set (FailedPeers p) then Some ('''', [])
        else Some (source, filter (\<lambda>t. t \<notin> set (FailedPeers p)) targets))"

section \<open>Lemmas\<close>

text \<open>What a peer set will yield, if no more peers fail: the rest of the preferred ones, then the pairs of a fallback peer
  and the failed peer it stands in for.\<close>

definition plan :: "PeerSet \<Rightarrow> (string \<times> string) list" where
  "plan p = map (\<lambda>x. (x, '''')) (PreferredPeers p) @ zip (FallbackPeers p) (FailedPeers p)"

lemma GetNext_plan:
  "GetNextPeerAndHandoff p = (if next_i p < length (plan p) then (plan p ! next_i p, p\<lparr>next_i := next_i p + 1\<rparr>) else (('''', ''''), p))"
  by (auto simp: GetNextPeerAndHandoff_def plan_def Let_def nth_append)

lemma plan_simps [simp]: "plan (p\<lparr>next_i := i\<rparr>) = plan p"
  by (simp add: plan_def)

text \<open>A client's run: calls for the next peer and reports of failures, in any order.\<close>

datatype peer_call = Next | Failed string

fun peer_run :: "peer_call list \<Rightarrow> PeerSet \<Rightarrow> (string \<times> string) list \<times> PeerSet" where
  "peer_run [] p = ([], p)"
| "peer_run (Next # cs) p =
     (let (r, p') = GetNextPeerAndHandoff p; (rs, p'') = peer_run cs p' in (r # rs, p''))"
| "peer_run (Failed x # cs) p = peer_run cs (MarkPeerAsFailed x p)"

lemma MarkPeer_fields [simp]:
  "PreferredPeers (MarkPeerAsFailed x p) = PreferredPeers p" "FallbackPeers (MarkPeerAsFailed x p) = FallbackPeers p"
  "next_i (MarkPeerAsFailed x p) = next_i p"
  by (simp_all add: MarkPeerAsFailed_def)

lemma zip_take_length: "zip (take (length ys) xs) ys = zip xs ys"
proof (induction xs arbitrary: ys)
  case (Cons x xs)
  then show ?case by (cases ys) simp_all
qed simp

lemma plan_Mark: "\<exists>zs. plan (MarkPeerAsFailed x p) = plan p @ zs"
  by (simp add: plan_def MarkPeerAsFailed_def zip_append2 zip_take_length)

text \<open>What was yielded is a prefix of the plan, padded with empty answers where the plan had run out.\<close>

lemma peer_run_plan:
  assumes "peer_run cs p = (rs, p')"
  shows "(\<exists>zs. plan p' = plan p @ zs) \<and> filter (\<lambda>r. r \<noteq> ('''', '''')) rs = filter (\<lambda>r. r \<noteq> ('''', '''')) (drop (next_i p) (take (next_i p') (plan p')))
    \<and> next_i p \<le> next_i p' \<and> (next_i p \<le> length (plan p) \<longrightarrow> next_i p' \<le> length (plan p'))"
  using assms
proof (induction cs p arbitrary: rs p' rule: peer_run.induct)
  case (2 cs p)
  obtain r q where q: "GetNextPeerAndHandoff p = (r, q)" by fastforce
  obtain rs' where rs': "peer_run cs q = (rs', p')" "rs = r # rs'"
    using "2.prems" q by (cases "peer_run cs q") simp
  note IH = "2.IH" [OF _ _ rs'(1)]
  then have IH: "(\<exists>zs. plan p' = plan q @ zs) \<and> filter (\<lambda>r. r \<noteq> ('''', '''')) rs' = filter (\<lambda>r. r \<noteq> ('''', '''')) (drop (next_i q) (take (next_i p') (plan p')))
    \<and> next_i q \<le> next_i p' \<and> (next_i q \<le> length (plan q) \<longrightarrow> next_i p' \<le> length (plan p'))" using q by fastforce
  show ?case
  proof (cases "next_i p < length (plan p)")
    case True
    with q have r: "r = plan p ! next_i p" "q = p\<lparr>next_i := next_i p + 1\<rparr>" by (simp_all add: GetNext_plan)
    then obtain zs where zs: "plan p' = plan p @ zs" using IH by auto
    have "next_i p < length (take (next_i p') (plan p'))" using True zs IH r(2) by auto
    from Cons_nth_drop_Suc [OF this] have "drop (next_i p) (take (next_i p') (plan p')) = r # drop (next_i q) (take (next_i p') (plan p'))"
      using True zs IH r by (simp add: nth_append)
    with IH rs'(2) zs r(2) True show ?thesis by auto
  next
    case False
    with q have "r = ('''', '''')" "q = p" by (simp_all add: GetNext_plan)
    with IH rs'(2) show ?thesis by auto
  qed
next
  case (3 x cs p)
  obtain zs where zs: "plan (MarkPeerAsFailed x p) = plan p @ zs" using plan_Mark by blast
  from "3.IH" "3.prems" zs show ?case by auto
qed simp

lemma peer_run_fields:
  "PreferredPeers (snd (peer_run cs p)) = PreferredPeers p \<and> FallbackPeers (snd (peer_run cs p)) = FallbackPeers p
    \<and> (set (FailedPeers p) \<subseteq> set (PreferredPeers p) \<longrightarrow> set (FailedPeers (snd (peer_run cs p))) \<subseteq> set (PreferredPeers p))"
proof (induction cs p rule: peer_run.induct)
  case (2 cs p)
  obtain r q where q: "GetNextPeerAndHandoff p = (r, q)" by fastforce
  then have "PreferredPeers q = PreferredPeers p" "FallbackPeers q = FallbackPeers p" "FailedPeers q = FailedPeers p"
    by (auto simp: GetNext_plan split: if_splits)
  with "2.IH" [OF refl] q show ?case by (cases "peer_run cs q") fastforce
next
  case (3 x cs p)
  then show ?case by (auto simp: MarkPeerAsFailed_def)
qed simp

section \<open>Properties\<close>

text \<open>Whatever peers are reported as failed in between, the answers other than "none" are, in order and without a gap, the preferred
  peers and then, for every failed peer in the order of the reports, the next fallback peer with it as the handoff.\<close>

theorem peers_tried_in_order:
  assumes "peer_run cs (New pref fb) = (rs, p')" and "'''' \<notin> set pref" and "'''' \<notin> set fb"
  shows "filter (\<lambda>r. r \<noteq> ('''', '''')) rs
      = take (next_i p') (map (\<lambda>x. (x, '''')) pref @ zip fb (FailedPeers p'))
    \<and> next_i p' \<le> length pref + length (FailedPeers p') \<and> set (FailedPeers p') \<subseteq> set pref"
proof -
  have f: "PreferredPeers p' = pref" "FallbackPeers p' = fb" "set (FailedPeers p') \<subseteq> set pref"
    using peer_run_fields [of cs "New pref fb"] assms(1) by (simp_all add: New_def)
  note r = peer_run_plan [OF assms(1)]
  have "('''', '''') \<notin> set (plan p')" using assms(2,3) f by (auto simp: plan_def dest: set_zip_leftD)
  then have "filter (\<lambda>r. r \<noteq> ('''', '''')) (take (next_i p') (plan p')) = take (next_i p') (plan p')"
    by (intro filter_True) (metis in_set_takeD)
  moreover have "next_i p' \<le> length (plan p')" using r by (simp add: New_def)
  ultimately show ?thesis using r f by (simp add: New_def plan_def min_def split: if_splits)
qed

text \<open>The backfill plan is safe: the source is the last peer that was handed out, and neither it nor any target is a failed
  peer; targets are preferred peers handed out before the source.\<close>

theorem backfill_avoids_failed:
  assumes "GetBackfillTargets p = Some (source, targets)" and "source \<noteq> ''''" and "next_i p \<le> length (plan p)"
  shows "source = fst (plan p ! (next_i p - 1)) \<and> source \<notin> set (FailedPeers p) \<and> set targets \<inter> set (FailedPeers p) = {}
    \<and> set targets \<subseteq> set (take (next_i p - 1) (PreferredPeers p))"
proof -
  let ?np = "length (PreferredPeers p)"
  have pos: "0 < next_i p"
    using assms(1) by (auto simp: GetBackfillTargets_def Let_def split: if_splits)
  have k: "nat (int (next_i p) - 1) = next_i p - 1" by simp
  show ?thesis
  proof (cases "next_i p - 1 < ?np")
    case True
    with assms(1,2) pos show ?thesis
      by (auto simp: GetBackfillTargets_def Let_def plan_def nth_append k split: if_splits)
  next
    case False
    with assms(3) pos have "next_i p - 1 - ?np < length (FallbackPeers p)" by (auto simp: plan_def)
    with False assms pos show ?thesis
      by (auto simp: GetBackfillTargets_def Let_def plan_def nth_append k split: if_splits)
  qed
qed

theorem peers_tried_in_order_witness:
  "fst (peer_run [Next, Failed ''a'', Next, Next, Next] (New [''a'', ''b''] [''c'', ''d'']))
     = [(''a'', ''''), (''b'', ''''), (''c'', ''a''), ('''', '''')]
   \<and> filter (\<lambda>r. r \<noteq> ('''', '''')) [(''a'', ''''), (''b'', ''''), (''c'', ''a''), ('''', '''')]
     = take 3 (map (\<lambda>x. (x, '''')) [''a'', ''b''] @ zip [''c'', ''d''] [''a''])"
  using peers_tried_in_order [of "[Next, Failed ''a'', Next, Next, Next]" "[''a'', ''b'']" "[''c'', ''d'']"
      "[(''a'', ''''), (''b'', ''''), (''c'', ''a''), ('''', '''')]"
      "\<lparr>PreferredPeers = [''a'', ''b''], FallbackPeers = [''c'', ''d''], FailedPeers = [''a''], next_i = 3\<rparr>"]
  by (simp add: New_def GetNextPeerAndHandoff_def MarkPeerAsFailed_def)

theorem backfill_avoids_failed_witness:
  "\<exists>s ts. GetBackfillTargets \<lparr>PreferredPeers = [''a'', ''b''], FallbackPeers = [''c''], FailedPeers = [''a''], next_i = 3\<rparr> = Some (s, ts)
    \<and> s = ''c'' \<and> set ts \<inter> {''a''} = {}"
  using backfill_avoids_failed [of "\<lparr>PreferredPeers = [''a'', ''b''], FallbackPeers = [''c''], FailedPeers = [''a''], next_i = 3\<rparr>" "''c''" "[''b'']"]
  by (simp add: GetBackfillTargets_def plan_def)

end
