(* ===== verification/ConsistentHash.thy ===== *)
theory ConsistentHash
  imports GoSlice GoStrings
begin

unbundle bit_operations_syntax

text \<open>
  \<^verbatim>\<open>server/util/consistent_hash/consistent_hash.go\<close>: the ring that assigns keys to cache peers. Every item has
  \<open>numReplicas\<close> points on a ring of 32-bit hashes; a key belongs to the item of the next point. The
  code keeps the sorted points, the map from a point to the index of its item, and a cache of the
  replica lists it computed, keyed by a checksum of the list of indices. Strings are bytes here: they are hashed
  and sorted.
\<close>

section \<open>The code\<close>

text \<open>\<^verbatim>\<open>crc32.ChecksumIEEE\<close> of the standard library.\<close>

definition crc32_shift :: "32 word \<Rightarrow> 32 word" where
  "crc32_shift crc = (if bit crc 0 then drop_bit 1 crc XOR 0xEDB88320 else drop_bit 1 crc)"

definition crc32_byte :: "32 word \<Rightarrow> byte \<Rightarrow> 32 word" where
  "crc32_byte crc b = (crc32_shift ^^ 8) (crc XOR ucast b)"

definition ChecksumIEEE :: "bytes \<Rightarrow> 32 word" where
  "ChecksumIEEE bs = NOT (foldl crc32_byte (NOT 0) bs)"

text \<open>\<^verbatim>\<open>strconv.Itoa\<close>, as bytes.\<close>

definition Itoa :: "nat \<Rightarrow> bytes" where
  "Itoa n = map of_char (show_nat n)"

text \<open>An \<^verbatim>\<open>int\<close> of the ring is a 32-bit hash, so a natural number; a point that is not on the ring maps to 0.\<close>

record ConsistentHash =
  ring :: "nat \<Rightarrow> byte"
  keys :: "nat list"
  items :: "bytes list"
  numReplicas :: nat
  replicaSets :: "32 word \<rightharpoonup> bytes list"

definition NewConsistentHash :: ConsistentHash where
  "NewConsistentHash = \<lparr>ring = (\<lambda>_. 0), keys = [], items = [], numReplicas = 100, replicaSets = Map.empty\<rparr>"

definition hashKey :: "bytes \<Rightarrow> nat" where
  "hashKey key = unat (ChecksumIEEE key)"

text \<open>The points in the order \<open>Set\<close> adds them.\<close>

definition ring_points :: "nat \<Rightarrow> bytes list \<Rightarrow> (nat \<times> byte) list" where
  "ring_points n is =
     concat (map (\<lambda>(itemIndex, key). map (\<lambda>i. (hashKey (Itoa i @ key), word_of_nat itemIndex)) [0..<n])
       (enumerate 0 is))"

definition ConsistentHash_Set :: "bytes list \<Rightarrow> ConsistentHash \<Rightarrow> error option \<times> ConsistentHash" where
  "ConsistentHash_Set is c =
     (if length is > 256
      then (Some (Err InvalidArgument ''Too many items in consistent hash, max allowed: 256''), c)
      else
        let sorted_items = sort is;
            points = ring_points (numReplicas c) sorted_items in
        (None, c\<lparr>keys := sort (map fst points), ring := foldl (\<lambda>r (h, x). r(h := x)) (\<lambda>_. 0) points,
                 replicaSets := Map.empty, items := sorted_items\<rparr>))"

definition first_index :: "ConsistentHash \<Rightarrow> bytes \<Rightarrow> nat" where
  "first_index c key =
     (let h = hashKey key;
          idx = sort_Search (length (keys c)) (\<lambda>i. keys c ! i \<ge> h) in
      if idx = length (keys c) then 0 else idx)"

definition item_at :: "ConsistentHash \<Rightarrow> byte \<Rightarrow> bytes" where
  "item_at c x = items c ! unat x"

definition ConsistentHash_Get :: "ConsistentHash \<Rightarrow> bytes \<Rightarrow> bytes" where
  "ConsistentHash_Get c key =
     (if length (keys c) = 0 then [] else item_at c (ring c (keys c ! first_index c key)))"

text \<open>\<open>lookupReplicas\<close>: the indices its callback is called with.\<close>

definition lookupReplicas :: "ConsistentHash \<Rightarrow> nat \<Rightarrow> byte list" where
  "lookupReplicas c idx = map (\<lambda>offset. ring c (keys c ! ((idx + offset) mod length (keys c)))) [1..<length (keys c)]"

definition add_replica :: "ConsistentHash \<Rightarrow> bytes list \<times> byte set \<Rightarrow> byte \<Rightarrow> bytes list \<times> byte set" where
  "add_replica c acc replicaIndex =
     (if replicaIndex \<notin> snd acc then (fst acc @ [item_at c replicaIndex], insert replicaIndex (snd acc)) else acc)"

text \<open>\<open>GetAllReplicas\<close> returns \<^verbatim>\<open>nil\<close> on an empty ring.\<close>

definition GetAllReplicas :: "bytes \<Rightarrow> ConsistentHash \<Rightarrow> bytes list \<times> ConsistentHash" where
  "GetAllReplicas key c =
     (if length (keys c) = 0 then ([], c)
      else
        let idx = first_index c key;
            originalIndex = ring c (keys c ! idx);
            replicasKey = ChecksumIEEE (originalIndex # lookupReplicas c idx) in
        case replicaSets c replicasKey of
          Some replicas \<Rightarrow> (replicas, c)
        | None \<Rightarrow>
            let replicas = fst (foldl (add_replica c) ([item_at c originalIndex], {originalIndex}) (lookupReplicas c idx)) in
            (replicas, c\<lparr>replicaSets := (replicaSets c)(replicasKey \<mapsto> replicas)\<rparr>))"

text \<open>
  \<open>GetNReplicas\<close> slices the list: up to its capacity, the number of points, the elements past its
  length are Go's zero value; past the capacity it panics (\<open>None\<close>).
\<close>

definition GetNReplicas :: "bytes \<Rightarrow> nat \<Rightarrow> ConsistentHash \<Rightarrow> (bytes list \<times> ConsistentHash) option" where
  "GetNReplicas key n c =
     (let (replicas, c') = GetAllReplicas key c in
      if n \<le> length (keys c) then Some (take n (replicas @ replicate (n - length replicas) []), c') else None)"

section \<open>Lemmas\<close>

text \<open>The ring after \<open>Set\<close>: sorted points, each with the index of an item that has it.\<close>

definition walk :: "ConsistentHash \<Rightarrow> nat \<Rightarrow> byte list" where
  "walk c idx = ring c (keys c ! idx) # lookupReplicas c idx"

definition walk_items :: "ConsistentHash \<Rightarrow> nat \<Rightarrow> bytes list" where
  "walk_items c idx = fst (foldl (add_replica c) ([item_at c (ring c (keys c ! idx))], {ring c (keys c ! idx)}) (lookupReplicas c idx))"

definition ch_inv :: "ConsistentHash \<Rightarrow> bool" where
  "ch_inv c \<longleftrightarrow> sorted (keys c) \<and> distinct (items c) \<and> (\<forall>k\<in>set (keys c). unat (ring c k) < length (items c))
     \<and> (\<forall>ck rs. replicaSets c ck = Some rs \<longrightarrow> (\<exists>idx<length (keys c). ck = ChecksumIEEE (walk c idx) \<and> rs = walk_items c idx))"

text \<open>The items that own a point.\<close>

definition ring_items :: "ConsistentHash \<Rightarrow> bytes set" where
  "ring_items c = item_at c ` ring c ` set (keys c)"

lemma foldl_upd_in:
  "h \<in> fst ` set ps \<Longrightarrow> \<exists>x. (h, x) \<in> set ps \<and> foldl (\<lambda>r (h, x). r(h := x)) r ps h = x"
proof (induction ps rule: rev_induct)
  case (snoc p ps)
  then show ?case by (cases p; cases "h = fst p") auto
qed simp

lemma ring_points_set:
  "(h, x) \<in> set (ring_points n is) \<longleftrightarrow> (\<exists>i j. i < n \<and> j < length is \<and> h = hashKey (Itoa i @ is ! j) \<and> x = word_of_nat j)"
  by (force simp: ring_points_def in_set_enumerate_eq)

lemma Set_fields:
  assumes "ConsistentHash_Set is c = (None, c')"
  shows "length is \<le> 256" and "items c' = sort is" and "keys c' = sort (map fst (ring_points (numReplicas c) (sort is)))"
    and "ring c' = foldl (\<lambda>r (h, x). r(h := x)) (\<lambda>_. 0) (ring_points (numReplicas c) (sort is))"
    and "replicaSets c' = Map.empty" and "numReplicas c' = numReplicas c"
  using assms by (auto simp: ConsistentHash_Set_def Let_def split: if_splits)

text \<open>Every point of the ring is a point of the item that owns it, and every item's points are on the ring.\<close>

lemma Set_owner:
  assumes s: "ConsistentHash_Set is c = (None, c')" and k: "k \<in> set (keys c')"
  shows "\<exists>i<numReplicas c. k = hashKey (Itoa i @ item_at c' (ring c' k))" and "unat (ring c' k) < length (items c')"
proof -
  note f = Set_fields [OF s]
  have "k \<in> fst ` set (ring_points (numReplicas c) (sort is))" using k f(3) by simp
  from foldl_upd_in [OF this, of "\<lambda>_. 0"] obtain x where
    x: "(k, x) \<in> set (ring_points (numReplicas c) (sort is))" "ring c' k = x" unfolding f(4) by blast
  then obtain i j where ij: "i < numReplicas c" "j < length (sort is)" "k = hashKey (Itoa i @ sort is ! j)" "x = word_of_nat j"
    unfolding ring_points_set by blast
  have "unat x = j" using ij(2,4) f(1) by (simp add: unsigned_of_nat take_bit_eq_mod)
  with ij x f(2) show "\<exists>i<numReplicas c. k = hashKey (Itoa i @ item_at c' (ring c' k))" "unat (ring c' k) < length (items c')"
    by (auto simp: item_at_def)
qed

lemma Set_points:
  assumes s: "ConsistentHash_Set is c = (None, c')"
  shows "set (keys c') = {hashKey (Itoa i @ key) |i key. i < numReplicas c \<and> key \<in> set is}"
proof -
  have "set (keys c') = fst ` set (ring_points (numReplicas c) (sort is))" using Set_fields(3) [OF s] by simp
  also have "\<dots> = {hashKey (Itoa i @ key) |i key. i < numReplicas c \<and> key \<in> set (sort is)}"
  proof (intro set_eqI iffI)
    fix h assume "h \<in> fst ` set (ring_points (numReplicas c) (sort is))"
    then obtain x where "(h, x) \<in> set (ring_points (numReplicas c) (sort is))" by auto
    then show "h \<in> {hashKey (Itoa i @ key) |i key. i < numReplicas c \<and> key \<in> set (sort is)}"
      unfolding ring_points_set using nth_mem by blast
  next
    fix h assume "h \<in> {hashKey (Itoa i @ key) |i key. i < numReplicas c \<and> key \<in> set (sort is)}"
    then obtain i j where "i < numReplicas c" "j < length (sort is)" "h = hashKey (Itoa i @ sort is ! j)"
      by (auto simp: in_set_conv_nth simp flip: set_sort)
    then have "(h, word_of_nat j) \<in> set (ring_points (numReplicas c) (sort is))" unfolding ring_points_set by blast
    then show "h \<in> fst ` set (ring_points (numReplicas c) (sort is))" by force
  qed
  finally show ?thesis by simp
qed

lemma ch_inv_Set:
  assumes "ConsistentHash_Set is c = (None, c')" and "distinct is"
  shows "ch_inv c'"
  using assms Set_fields [OF assms(1)] Set_owner(2) [OF assms(1)] by (simp add: ch_inv_def)

text \<open>If no point is shared, every item has its points.\<close>

lemma ring_items_Set:
  assumes s: "ConsistentHash_Set is c = (None, c')" and n: "0 < numReplicas c"
    and apart: "\<And>i i' x y. i < numReplicas c \<Longrightarrow> i' < numReplicas c \<Longrightarrow> x \<in> set is \<Longrightarrow> y \<in> set is \<Longrightarrow>
      hashKey (Itoa i @ x) = hashKey (Itoa i' @ y) \<Longrightarrow> x = y"
  shows "ring_items c' = set is"
proof -
  have it: "item_at c' (ring c' k) \<in> set is" if "k \<in> set (keys c')" for k
    using nth_mem [OF Set_owner(2) [OF s that]] Set_fields(2) [OF s] by (simp add: item_at_def)
  have "x \<in> ring_items c'" if x: "x \<in> set is" for x
  proof -
    let ?k = "hashKey (Itoa 0 @ x)"
    have k: "?k \<in> set (keys c')" unfolding Set_points [OF s] using n x by blast
    then have "item_at c' (ring c' ?k) = x" using Set_owner(1) [OF s k] apart [OF n _ x it [OF k]] by metis
    then show ?thesis using k by (force simp: ring_items_def)
  qed
  with it show ?thesis by (auto simp: ring_items_def)
qed

text \<open>The checksum tells strings apart that differ in the last byte only.\<close>

lemma crc32_shift_eq: "crc32_shift a = crc32_shift b \<longleftrightarrow> a = b"
proof
  assume e: "crc32_shift a = crc32_shift b"
  have "bit (crc32_shift x) 31 = bit x 0" for x
    by (auto simp: crc32_shift_def bit_simps dest: bit_imp_le_length)
  with e have 0: "bit a 0 = bit b 0" by metis
  have x: "u = v" if "u XOR k = v XOR k" for u v k :: "32 word"
    using arg_cong [OF that, of "\<lambda>w. w XOR k"] by (simp add: xor.assoc)
  from e 0 have d: "drop_bit 1 a = drop_bit 1 b" unfolding crc32_shift_def by (metis x)
  show "a = b"
  proof (rule bit_eqI)
    fix n
    show "bit a n = bit b n"
      using 0 arg_cong [OF d, of "\<lambda>x. bit x (n - 1)"] by (cases n) (simp_all add: bit_drop_bit_eq)
  qed
qed simp

lemma ucast_8_32: "(ucast a :: 32 word) = ucast b \<Longrightarrow> a = (b :: byte)"
  by (drule arg_cong [where f = "ucast :: 32 word \<Rightarrow> byte"]) (simp add: ucast_up_ucast_id is_up)

lemma crc32_byte_eq: "crc32_byte c a = crc32_byte c b \<longleftrightarrow> a = b"
proof
  have inj: "(crc32_shift ^^ n) x = (crc32_shift ^^ n) y \<Longrightarrow> x = y" for n x y
    by (induction n arbitrary: x y) (simp_all add: crc32_shift_eq)
  assume "crc32_byte c a = crc32_byte c b"
  then have "c XOR ucast a = c XOR ucast b" unfolding crc32_byte_def by (rule inj)
  then have "c XOR (c XOR ucast a) = c XOR (c XOR (ucast b :: 32 word))" by simp
  then have "(ucast a :: 32 word) = ucast b" by (simp flip: xor.assoc)
  then show "a = b" by (rule ucast_8_32)
qed simp

lemma Checksum_snoc_eq: "ChecksumIEEE (bs @ [a]) = ChecksumIEEE (bs @ [b]) \<longleftrightarrow> a = b"
  by (simp add: ChecksumIEEE_def crc32_byte_eq)

text \<open>The search finds the next point.\<close>

lemma first_index_spec:
  assumes "sorted (keys c)" and "keys c \<noteq> []"
  shows "first_index c key < length (keys c)"
    and "q \<in> set (keys c) \<Longrightarrow> if hashKey key \<le> keys c ! first_index c key then hashKey key \<le> q \<longrightarrow> keys c ! first_index c key \<le> q
         else q < hashKey key \<and> keys c ! first_index c key \<le> q"
proof -
  let ?h = "hashKey key" and ?s = "sort_Search (length (keys c)) (\<lambda>i. keys c ! i \<ge> hashKey key)"
  have sw: "sorted_wrt (\<lambda>x y. ?h \<le> x \<longrightarrow> ?h \<le> y) (keys c)"
    by (rule sorted_wrt_mono_rel [OF _ assms(1)]) auto
  note sp = sort_Search_spec [where P = "\<lambda>x. ?h \<le> x", OF sw]
  show lt: "first_index c key < length (keys c)"
    using sp(1) assms(2) by (auto simp: first_index_def Let_def)
  assume "q \<in> set (keys c)"
  then obtain j where j: "j < length (keys c)" "q = keys c ! j" by (auto simp: in_set_conv_nth)
  show "if ?h \<le> keys c ! first_index c key then ?h \<le> q \<longrightarrow> keys c ! first_index c key \<le> q
         else q < ?h \<and> keys c ! first_index c key \<le> q"
  proof (cases "?s = length (keys c)")
    case True
    then have "first_index c key = 0" "\<not> ?h \<le> keys c ! 0" "\<not> ?h \<le> q"
      using sp(2) [of 0] sp(2) [of j] j assms(2) by (simp_all add: first_index_def)
    with j assms(1) show ?thesis by (simp add: sorted_nth_mono)
  next
    case False
    then have i: "first_index c key = ?s" "?s < length (keys c)" using sp(1) by (simp_all add: first_index_def Let_def)
    with sp(3) [of ?s] have "?h \<le> keys c ! first_index c key" by simp
    moreover have "keys c ! ?s \<le> q" if "?h \<le> q"
    proof -
      have "?s \<le> j" using sp(2) [of j] that j by (meson not_le)
      with j assms(1) show ?thesis by (simp add: sorted_nth_mono)
    qed
    ultimately show ?thesis using i by simp
  qed
qed

text \<open>The distance from \<open>h\<close> up to a point, modulo the size of the ring.\<close>

lemma cyclic_le:
  fixes h p q :: "32 word"
  assumes "if unat h \<le> unat p then unat h \<le> unat q \<longrightarrow> unat p \<le> unat q else unat q < unat h \<and> unat p \<le> unat q"
  shows "p - h \<le> q - h"
proof -
  have d: "unat (x - h) = (if unat h \<le> unat x then unat x - unat h else unat x + 4294967296 - unat h)" for x
    using unat_sub_if' [of x h] by simp
  have b: "unat x < 4294967296" for x :: "32 word" using unsigned_less [of x] by simp
  have "unat (p - h) \<le> unat (q - h)"
    unfolding d using b [of p] b [of q] b [of h] assms
    by (cases "unat h \<le> unat p"; cases "unat h \<le> unat q"; simp; linarith)
  then show ?thesis by (simp add: word_le_nat_alt)
qed

text \<open>Collecting the distinct items of a walk.\<close>

lemma add_replicas:
  assumes "snd acc = set ixs" and "fst acc = map (item_at c) ixs" and "distinct ixs"
  shows "\<exists>ixs'. fst (foldl (add_replica c) acc ws) = map (item_at c) ixs' \<and> distinct ixs' \<and> set ixs' = set ixs \<union> set ws
    \<and> (\<exists>zs. ixs' = ixs @ zs)"
  using assms
proof (induction ws arbitrary: acc ixs)
  case (Cons w ws)
  show ?case
  proof (cases "w \<in> set ixs")
    case True
    with Cons.prems have "add_replica c acc w = acc" by (simp add: add_replica_def)
    with Cons.IH [OF Cons.prems] True show ?thesis by (simp add: insert_absorb)
  next
    case False
    with Cons.prems have "snd (add_replica c acc w) = set (ixs @ [w])" "fst (add_replica c acc w) = map (item_at c) (ixs @ [w])"
      "distinct (ixs @ [w])" by (simp_all add: add_replica_def)
    from Cons.IH [OF this] show ?thesis by (auto simp: Un_assoc)
  qed
qed auto

lemma set_walk:
  assumes "idx < length (keys c)"
  shows "set (walk c idx) = ring c ` set (keys c)"
proof -
  let ?n = "length (keys c)"
  have "(\<lambda>offset. (idx + offset) mod ?n) ` {0..<?n} = {0..<?n}"
  proof (intro equalityI subsetI)
    fix k assume k: "k \<in> {0..<?n}"
    show "k \<in> (\<lambda>offset. (idx + offset) mod ?n) ` {0..<?n}"
    proof (cases "idx \<le> k")
      case True
      with k show ?thesis by (intro image_eqI [of _ _ "k - idx"]) auto
    next
      case False
      with k assms have "k = (idx + (k + ?n - idx)) mod ?n" "k + ?n - idx < ?n" by auto
      then show ?thesis by (intro image_eqI [of _ _ "k + ?n - idx"]) auto
    qed
  next
    fix k assume "k \<in> (\<lambda>offset. (idx + offset) mod ?n) ` {0..<?n}"
    moreover have "0 < ?n" using assms by (cases "keys c") simp_all
    ultimately show "k \<in> {0..<?n}" by auto
  qed
  moreover have "{0..<?n} = insert 0 {1..<?n}" using assms by auto
  ultimately have "{0..<?n} = insert idx ((\<lambda>offset. (idx + offset) mod ?n) ` {1..<?n})"
    using assms by (metis (no_types, lifting) add_0_right image_insert mod_less)
  then have "(\<lambda>i. ring c (keys c ! i)) ` {0..<?n}
      = insert (ring c (keys c ! idx)) ((\<lambda>offset. ring c (keys c ! ((idx + offset) mod ?n))) ` {1..<?n})"
    using arg_cong [of _ _ "image (\<lambda>i. ring c (keys c ! i))"] by (simp only: image_insert image_image)
  moreover have "(\<lambda>i. ring c (keys c ! i)) ` {0..<?n} = ring c ` set (keys c)"
  proof -
    have "(!) (keys c) ` {0..<?n} = set (keys c)" using arg_cong [OF map_nth [of "keys c"], of set] by simp
    from arg_cong [OF this, of "image (ring c)"] show ?thesis by (simp add: image_image)
  qed
  ultimately show ?thesis by (simp add: walk_def lookupReplicas_def)
qed

lemma walk_items_spec:
  assumes "ch_inv c" and "idx < length (keys c)"
  shows "distinct (walk_items c idx)" and "set (walk_items c idx) = ring_items c"
    and "hd (walk_items c idx) = item_at c (ring c (keys c ! idx))" and "walk_items c idx \<noteq> []"
proof -
  let ?o = "ring c (keys c ! idx)"
  obtain ixs zs where w: "walk_items c idx = map (item_at c) ixs" "distinct ixs" "set ixs = set [?o] \<union> set (lookupReplicas c idx)"
      "ixs = [?o] @ zs"
    using add_replicas [of "([item_at c ?o], {?o})" "[?o]" c "lookupReplicas c idx"] unfolding walk_items_def by auto
  have s: "set ixs = ring c ` set (keys c)" using w(3) set_walk [OF assms(2)] by (simp add: walk_def)
  have "inj_on (item_at c) (set ixs)"
  proof (rule inj_onI)
    fix x y assume xy: "x \<in> set ixs" "y \<in> set ixs" "item_at c x = item_at c y"
    then have "unat x < length (items c)" "unat y < length (items c)" using assms(1) s by (auto simp: ch_inv_def)
    with xy(3) assms(1) have "unat x = unat y" by (simp add: item_at_def ch_inv_def nth_eq_iff_index_eq)
    then show "x = y" by (rule word_unat_eq_iff [THEN iffD2])
  qed
  with w(1,2) show "distinct (walk_items c idx)" by (simp add: distinct_map)
  show "set (walk_items c idx) = ring_items c" using w(1) s by (simp add: ring_items_def)
  show "hd (walk_items c idx) = item_at c ?o" "walk_items c idx \<noteq> []" using w(1,4) by simp_all
qed

lemma GetAllReplicas_cases:
  assumes "ch_inv c" and "keys c \<noteq> []"
  obtains idx where "idx < length (keys c)" "fst (GetAllReplicas key c) = walk_items c idx"
    "ChecksumIEEE (walk c idx) = ChecksumIEEE (walk c (first_index c key))" "ch_inv (snd (GetAllReplicas key c))"
    "snd (GetAllReplicas key c) = c\<lparr>replicaSets := replicaSets (snd (GetAllReplicas key c))\<rparr>"
proof -
  let ?i = "first_index c key"
  have i: "?i < length (keys c)" using assms first_index_spec(1) by (simp add: ch_inv_def)
  have w: "walk c' = walk c" "walk_items c' = walk_items c" if "c' = c\<lparr>replicaSets := rs\<rparr>" for c' rs
  proof -
    have "add_replica c' = add_replica c" using that by (simp add: fun_eq_iff add_replica_def item_at_def)
    moreover have i: "item_at c' = item_at c" "ring c' = ring c" "keys c' = keys c" using that by (simp_all add: fun_eq_iff item_at_def)
    moreover have l: "lookupReplicas c' = lookupReplicas c" by (rule ext) (simp only: lookupReplicas_def i)
    ultimately show "walk c' = walk c" "walk_items c' = walk_items c"
      by (intro ext; simp only: walk_def walk_items_def)+
  qed
  show thesis
  proof (cases "replicaSets c (ChecksumIEEE (walk c ?i))")
    case (Some rs)
    with assms have "GetAllReplicas key c = (rs, c)" by (simp add: GetAllReplicas_def walk_def Let_def)
    moreover obtain idx where "idx < length (keys c)" "ChecksumIEEE (walk c ?i) = ChecksumIEEE (walk c idx)" "rs = walk_items c idx"
      using assms(1) Some unfolding ch_inv_def by blast
    ultimately show thesis using that [of idx] assms(1) by simp
  next
    case None
    with assms have g: "GetAllReplicas key c
        = (walk_items c ?i, c\<lparr>replicaSets := (replicaSets c)(ChecksumIEEE (walk c ?i) \<mapsto> walk_items c ?i)\<rparr>)"
      by (simp add: GetAllReplicas_def walk_def walk_items_def Let_def)
    let ?c' = "c\<lparr>replicaSets := (replicaSets c)(ChecksumIEEE (walk c ?i) \<mapsto> walk_items c ?i)\<rparr>"
    have "ch_inv ?c'"
      using assms(1) i w [OF refl] unfolding ch_inv_def by (auto split: if_splits)
    with g that [of ?i] i show thesis by simp
  qed
qed

lemma GetAllReplicas_replicas:
  assumes "ch_inv c" and "keys c \<noteq> []"
  shows "distinct (fst (GetAllReplicas key c))" "set (fst (GetAllReplicas key c)) = ring_items c" "ch_inv (snd (GetAllReplicas key c))"
proof -
  obtain idx where idx: "idx < length (keys c)" "fst (GetAllReplicas key c) = walk_items c idx" "ch_inv (snd (GetAllReplicas key c))"
    using GetAllReplicas_cases [OF assms] by metis
  then show "distinct (fst (GetAllReplicas key c))" "set (fst (GetAllReplicas key c)) = ring_items c" "ch_inv (snd (GetAllReplicas key c))"
    using walk_items_spec [OF assms(1) idx(1)] by simp_all
qed

section \<open>Properties\<close>

text \<open>C38: the ring: after \<open>Set\<close> of at most 256 distinct items, every key is assigned to an item one of whose points comes next
  on the ring: going up from the key's hash and wrapping around at the end of the 32 bits, no point of any item is nearer.\<close>

theorem ConsistentHash_Get_nearest:
  assumes "distinct is" and "is \<noteq> []" and "0 < numReplicas c" and "length is \<le> 256"
  shows "\<exists>c' i. ConsistentHash_Set is c = (None, c') \<and> ConsistentHash_Get c' key \<in> set is \<and> i < numReplicas c
    \<and> (\<forall>i'<numReplicas c. \<forall>it\<in>set is.
         ChecksumIEEE (Itoa i @ ConsistentHash_Get c' key) - ChecksumIEEE key \<le> ChecksumIEEE (Itoa i' @ it) - ChecksumIEEE key)"
proof -
  obtain c' where s: "ConsistentHash_Set is c = (None, c')" using assms(4) by (simp add: ConsistentHash_Set_def Let_def)
  note pts = Set_points [OF s]
  have ne: "keys c' \<noteq> []"
  proof -
    have "hashKey (Itoa 0 @ hd is) \<in> set (keys c')" unfolding pts using assms(2,3) hd_in_set by blast
    then show ?thesis by auto
  qed
  have inv: "ch_inv c'" by (rule ch_inv_Set [OF s assms(1)])
  then have srt: "sorted (keys c')" by (simp add: ch_inv_def)
  let ?k = "keys c' ! first_index c' key"
  have k: "?k \<in> set (keys c')" using first_index_spec(1) [OF srt ne] by simp
  have get: "ConsistentHash_Get c' key = item_at c' (ring c' ?k)" using ne by (simp add: ConsistentHash_Get_def)
  obtain i where i: "i < numReplicas c" "?k = hashKey (Itoa i @ ConsistentHash_Get c' key)"
    using Set_owner(1) [OF s k] get by auto
  have "unat (ring c' ?k) < length (items c')" by (rule Set_owner(2) [OF s k])
  then have mem: "ConsistentHash_Get c' key \<in> set is" using get Set_fields(2) [OF s] by (metis item_at_def nth_mem set_sort)
  have "ChecksumIEEE (Itoa i @ ConsistentHash_Get c' key) - ChecksumIEEE key \<le> ChecksumIEEE (Itoa i' @ it) - ChecksumIEEE key"
    if "i' < numReplicas c" "it \<in> set is" for i' it
  proof -
    have "hashKey (Itoa i' @ it) \<in> set (keys c')" unfolding pts using that by blast
    from first_index_spec(2) [OF srt ne this, of key] i(2)
    show ?thesis by (intro cyclic_le) (simp add: hashKey_def split: if_splits)
  qed
  with s mem i(1) show ?thesis by blast
qed

text \<open>In every state reached by \<open>Set\<close> and look-ups, \<open>GetAllReplicas\<close> lists exactly the items on the ring, each
  once, and keeps the cache of replica lists sound; and if the checksum tells the walks around the ring apart
  it lists them in the order of the walk from the key's point, the key's own item first.\<close>

theorem GetAllReplicas_spec:
  assumes "ch_inv c" and "keys c \<noteq> []"
  shows "distinct (fst (GetAllReplicas key c)) \<and> set (fst (GetAllReplicas key c)) = ring_items c
    \<and> ch_inv (snd (GetAllReplicas key c))
    \<and> ((\<forall>i<length (keys c). \<forall>j<length (keys c). ChecksumIEEE (walk c i) = ChecksumIEEE (walk c j) \<longrightarrow> walk c i = walk c j)
        \<longrightarrow> hd (fst (GetAllReplicas key c)) = ConsistentHash_Get c key)"
proof -
  obtain idx where idx: "idx < length (keys c)" "fst (GetAllReplicas key c) = walk_items c idx"
      "ChecksumIEEE (walk c idx) = ChecksumIEEE (walk c (first_index c key))" "ch_inv (snd (GetAllReplicas key c))"
    using GetAllReplicas_cases [OF assms] by metis
  note w = walk_items_spec [OF assms(1) idx(1)]
  have "first_index c key < length (keys c)" using assms first_index_spec(1) by (simp add: ch_inv_def)
  moreover have "hd (walk_items c idx) = ConsistentHash_Get c key" if "walk c idx = walk c (first_index c key)"
    using that w(3) assms(2) by (simp add: walk_def ConsistentHash_Get_def)
  ultimately show ?thesis using w(1,2) idx by auto
qed

text \<open>Asking for more replicas than there are peers on the ring does not fail: the answer is filled up with empty names.\<close>

theorem GetNReplicas_pads_with_empty:
  assumes "ch_inv c" and "keys c \<noteq> []" and "card (ring_items c) < n" and "n \<le> length (keys c)"
  shows "\<exists>rs c'. GetNReplicas key n c = Some (rs @ replicate (n - card (ring_items c)) [], c') \<and> set rs = ring_items c"
proof -
  obtain idx where idx: "idx < length (keys c)" "fst (GetAllReplicas key c) = walk_items c idx"
    using GetAllReplicas_cases [OF assms(1,2)] by metis
  note w = walk_items_spec [OF assms(1) idx(1)]
  have "length (walk_items c idx) = card (ring_items c)" using w(1,2) distinct_card by fastforce
  then show ?thesis using assms(3,4) idx(2) w(2) by (auto simp: GetNReplicas_def split_beta Let_def)
qed

section \<open>Witnesses\<close>

definition example_ring :: ConsistentHash where
  "example_ring = snd (ConsistentHash_Set [[65], [66]] (NewConsistentHash\<lparr>numReplicas := 2\<rparr>))"

lemma example_ring_Set: "ConsistentHash_Set [[65], [66]] (NewConsistentHash\<lparr>numReplicas := 2\<rparr>) = (None, example_ring)"
  by (simp add: example_ring_def ConsistentHash_Set_def Let_def)

lemma example_ring_inv: "ch_inv example_ring"
  by (rule ch_inv_Set [OF example_ring_Set]) simp

lemma example_ring_keys: "length (keys example_ring) = 4"
  by (simp add: Set_fields(3) [OF example_ring_Set] ring_points_def enumerate_eq_zip NewConsistentHash_def)

lemma example_ring_card: "card (ring_items example_ring) < 3"
proof -
  have "set (items example_ring) = {[65], [66]}" using Set_fields(2) [OF example_ring_Set] by simp
  then have "item_at example_ring (ring example_ring k) \<in> {[65], [66]}" if "k \<in> set (keys example_ring)" for k
    using nth_mem [OF Set_owner(2) [OF example_ring_Set that]] by (simp add: item_at_def)
  then have "ring_items example_ring \<subseteq> {[65], [66]}" by (auto simp: ring_items_def)
  from card_mono [OF _ this] show ?thesis by simp
qed

theorem ConsistentHash_Get_nearest_witness:
  "\<exists>c'. ConsistentHash_Set [[65], [66]] NewConsistentHash = (None, c') \<and> ConsistentHash_Get c' [1, 2] \<in> {[65], [66]}"
  using ConsistentHash_Get_nearest [of "[[65], [66]]" NewConsistentHash "[1, 2]"] by (auto simp: NewConsistentHash_def)

theorem GetAllReplicas_spec_witness:
  "distinct (fst (GetAllReplicas [1] example_ring)) \<and> set (fst (GetAllReplicas [1] example_ring)) = ring_items example_ring"
  using GetAllReplicas_spec [OF example_ring_inv, of "[1]"] example_ring_keys by fastforce

theorem GetNReplicas_pads_with_empty_witness:
  "\<exists>rs c'. GetNReplicas [1] 3 example_ring = Some (rs @ replicate (3 - card (ring_items example_ring)) [], c') \<and> set rs = ring_items example_ring"
  by (rule GetNReplicas_pads_with_empty [OF example_ring_inv _ example_ring_card]) (use example_ring_keys in auto)

end
