(* ===== verification/DistributedCache.thy ===== *)
theory DistributedCache
  imports CacheProxy PeerSet ConsistentHash "HOL-Library.AList"
begin

text \<open>
  \<^verbatim>\<open>enterprise/server/backends/distributed/distributed.go\<close>: the cache of a cluster of nodes. The consistent hash gives
  every digest its preferred peers, as many as the replication factor, and the order of the others; a
  peer set hands them out and substitutes a fallback peer for each preferred one that fails. Reads ask
  the peers one after the other and copy what they find to the peers that lacked it; writes go to
  as many peers as the replication factor, and a fallback peer keeps a hint for the peer it stands in for.

  An operation runs on one node. The goroutines it starts for different peers run one after the other
  here, all of them, as the peers' states are disjoint; that \<^verbatim>\<open>errgroup\<close> cancels the context of the others when one
  fails is left out. \<open>None\<close> is an operation that panics or never returns.
\<close>

section \<open>The state\<close>

definition maxHintedHandoffsPerPeer :: nat where
  "maxHintedHandoffsPerPeer = 100000"

record CacheConfig =
  ListenAddr :: string
  Nodes :: "string list"
  ReplicationFactor :: int
  ClusterSize :: int
  DisableLocalLookup :: bool

record ('c, 'r, 'w) dcache =
  local_cache :: "(Digest option, 'c, 'r, 'w) Cache"
  isolation :: Isolation
  config :: CacheConfig

text \<open>The node's consistent hash and the cluster.\<close>

record 'c dstate =
  consistentHash :: ConsistentHash
  cluster_of :: "'c cluster"

text \<open>A string as the bytes the ring hashes, and back.\<close>

definition str_bytes :: "string \<Rightarrow> bytes" where
  "str_bytes s = map of_char s"

definition bytes_str :: "bytes \<Rightarrow> string" where
  "bytes_str b = map (\<lambda>x. char_of (unat x)) b"

text \<open>
  \<open>NewDistributedCache\<close> with hardcoded nodes (the peers found by Redis are set on the ring in the same way).
\<close>

definition NewDistributedCache :: "(Digest option, 'c, 'r, 'w) Cache \<Rightarrow> CacheConfig \<Rightarrow> ('c, 'r, 'w) dcache \<times> ConsistentHash" where
  "NewDistributedCache c cfg =
     (\<lparr>local_cache = c, isolation = \<lparr>isoCacheType = UNKNOWN_TYPE, isoRemoteInstanceName = ''''\<rparr>, config = cfg\<rparr>,
      if Nodes cfg \<noteq> [] then snd (ConsistentHash_Set (map str_bytes (Nodes cfg)) NewConsistentHash) else NewConsistentHash)"

definition toProtoCacheType :: "CacheType \<Rightarrow> error + iso_type" where
  "toProtoCacheType t =
     (case t of
        CASCacheType \<Rightarrow> Inr CAS_CACHE
      | ActionCacheType \<Rightarrow> Inr ACTION_CACHE
      | UnknownCacheType \<Rightarrow> Inl (InvalidArgumentError ''Unknown cache type %v''))"

text \<open>\<open>WithIsolation\<close>: the argument \<open>newLocal\<close> is what the local cache's \<open>WithIsolation\<close> returns.\<close>

definition dc_WithIsolation :: "('c, 'r, 'w) dcache \<Rightarrow> error + (Digest option, 'c, 'r, 'w) Cache \<Rightarrow> CacheType \<Rightarrow> string
    \<Rightarrow> error + ('c, 'r, 'w) dcache" where
  "dc_WithIsolation c newLocal ct inst =
     (case newLocal of
        Inl e \<Rightarrow> Inl e
      | Inr l \<Rightarrow>
          (case toProtoCacheType ct of
             Inl e \<Rightarrow> Inl e
           | Inr t \<Rightarrow> Inr (c\<lparr>isolation := \<lparr>isoCacheType = t, isoRemoteInstanceName = inst\<rparr>, local_cache := l\<rparr>)))"

definition dc_Check :: "('c, 'r, 'w) dcache \<Rightarrow> 'c dstate \<Rightarrow> error option" where
  "dc_Check c st =
     (if int (length (items (consistentHash st))) < ClusterSize (config c)
      then Some (UnavailableError ''%d nodes available but cluster size is %d.'')
      else if int (card (dom (lastContactedBy (cluster_of st) (ListenAddr (config c))))) < ClusterSize (config c)
      then Some (UnavailableError ''%d nodes in network but cluster size is %d.'')
      else None)"

section \<open>Heartbeats and hinted handoffs\<close>

definition recvHeartbeatCallback :: "int \<Rightarrow> string \<Rightarrow> string \<Rightarrow> 'c cluster \<Rightarrow> 'c cluster" where
  "recvHeartbeatCallback now node peer cl =
     cl\<lparr>lastContactedBy := (lastContactedBy cl)(node := (lastContactedBy cl node)(peer \<mapsto> now))\<rparr>"

text \<open>The channel of a peer's handoffs is bounded; a hint that finds it full is dropped.\<close>

definition recvHintedHandoffCallback :: "string \<Rightarrow> request_ctx \<Rightarrow> string \<Rightarrow> Isolation \<Rightarrow> Digest option \<Rightarrow> 'c cluster \<Rightarrow> 'c cluster" where
  "recvHintedHandoffCallback node ctx peer isol d cl =
     (let hs = hintedHandoffsByPeer cl node;
          ch = (case hs peer of None \<Rightarrow> [] | Some c \<Rightarrow> c);
          order = \<lparr>ho_ctx = ctx, ho_digest = d, ho_isolation = isol\<rparr>;
          ch' = (if length ch < maxHintedHandoffsPerPeer then ch @ [order] else ch) in
      cl\<lparr>hintedHandoffsByPeer := (hintedHandoffsByPeer cl)(node := hs(peer \<mapsto> ch'))\<rparr>)"

section \<open>Calls of peers\<close>

definition is_local :: "('c, 'r, 'w) dcache \<Rightarrow> string \<Rightarrow> bool" where
  "is_local c peer \<longleftrightarrow> \<not> DisableLocalLookup (config c) \<and> peer = ListenAddr (config c)"

definition remoteContains :: "('c, 'r, 'w) network \<Rightarrow> request_ctx \<Rightarrow> ('c, 'r, 'w) dcache \<Rightarrow> string \<Rightarrow> Isolation \<Rightarrow> Digest option
    \<Rightarrow> ('c cluster, error + bool) action" where
  "remoteContains net ctx c peer isol d =
     (if is_local c peer then on_node peer (c_Contains (local_cache c) d) else RemoteContains net ctx peer isol d)"

definition remoteFindMissing :: "('c, 'r, 'w) network \<Rightarrow> request_ctx \<Rightarrow> ('c, 'r, 'w) dcache \<Rightarrow> string \<Rightarrow> Isolation \<Rightarrow> Digest option list
    \<Rightarrow> ('c cluster, error + Digest option list) action" where
  "remoteFindMissing net ctx c peer isol ds =
     (if is_local c peer then on_node peer (c_FindMissing (local_cache c) ds) else RemoteFindMissing net ctx peer isol ds)"

definition remoteGetMulti :: "('c, 'r, 'w) network \<Rightarrow> request_ctx \<Rightarrow> ('c, 'r, 'w) dcache \<Rightarrow> string \<Rightarrow> Isolation \<Rightarrow> Digest option list
    \<Rightarrow> ('c cluster, error + (Digest option \<rightharpoonup> bytes)) action" where
  "remoteGetMulti net ctx c peer isol ds =
     (if is_local c peer then on_node peer (c_GetMulti (local_cache c) ds) else RemoteGetMulti net ctx peer isol ds)"

definition remoteReader :: "('c, 'r, 'w) network \<Rightarrow> request_ctx \<Rightarrow> ('c, 'r, 'w) dcache \<Rightarrow> string \<Rightarrow> Isolation \<Rightarrow> Digest option \<Rightarrow> int
    \<Rightarrow> ('c cluster, error + ('c, 'r, 'w) dreader) action" where
  "remoteReader net ctx c peer isol d offset cl =
     (if is_local c peer then do {
        (r, cl') \<leftarrow> on_node peer (c_Reader (local_cache c) d offset) cl;
        Some (map_sum id (LocalReader (local_cache c)) r, cl')
      }
      else RemoteReader net ctx peer isol d offset cl)"

definition remoteWriter :: "('c, 'r, 'w) network \<Rightarrow> request_ctx \<Rightarrow> ('c, 'r, 'w) dcache \<Rightarrow> string \<Rightarrow> string \<Rightarrow> Isolation \<Rightarrow> Digest option
    \<Rightarrow> ('c cluster, error + ('c, 'r, 'w) dwriter) action" where
  "remoteWriter net ctx c peer handoffPeer isol d cl =
     (if is_local c peer then do {
        (r, cl') \<leftarrow> on_node peer (c_Writer (local_cache c) d) cl;
        Some (map_sum id (LocalWriter (local_cache c)) r, cl')
      }
      else RemoteWriter net ctx peer handoffPeer isol d cl)"

text \<open>The methods of the readers and writers these return; a local one is on the node \<open>self\<close>.\<close>

fun dreader_Read :: "string \<Rightarrow> ('c, 'r, 'w) dreader \<Rightarrow> nat \<Rightarrow> ('c cluster, bytes \<times> error option \<times> ('c, 'r, 'w) dreader) action" where
  "dreader_Read self (LocalReader cache r) n cl = do {
     ((bs, err, r'), cl') \<leftarrow> on_node self (r_Read cache r n) cl;
     Some ((bs, err, LocalReader cache r'), cl')
   }"
| "dreader_Read self (PipeReader ps err) n cl =
     (let (bs, e, ps') = pipe_Read ps err n in Some ((bs, e, PipeReader ps' err), cl))"

fun dreader_Close :: "string \<Rightarrow> ('c, 'r, 'w) dreader \<Rightarrow> ('c cluster, error option) action" where
  "dreader_Close self (LocalReader cache r) cl = on_node self (r_Close cache r) cl"
| "dreader_Close self (PipeReader ps err) cl = Some (None, cl)"

fun dwriter_Write :: "('c, 'r, 'w) network \<Rightarrow> string \<Rightarrow> ('c, 'r, 'w) dwriter \<Rightarrow> bytes
    \<Rightarrow> ('c cluster, nat \<times> error option \<times> ('c, 'r, 'w) dwriter) action" where
  "dwriter_Write net self (LocalWriter cache w) data cl = do {
     ((n, err, w'), cl') \<leftarrow> on_node self (w_Write cache w data) cl;
     Some ((n, err, LocalWriter cache w'), cl')
   }"
| "dwriter_Write net self (StreamWriter st k isol h) data cl = do {
     ((n, err, st'), cl') \<leftarrow> streamWriteCloser_Write net st k isol h data cl;
     Some ((n, err, StreamWriter st' k isol h), cl')
   }"
| "dwriter_Write net self DevNull data cl = Some ((length data, None, DevNull), cl)"

fun dwriter_Close :: "('c, 'r, 'w) network \<Rightarrow> string \<Rightarrow> ('c, 'r, 'w) dwriter \<Rightarrow> ('c cluster, error option) action" where
  "dwriter_Close net self (LocalWriter cache w) cl = on_node self (w_Close cache w) cl"
| "dwriter_Close net self (StreamWriter st k isol h) cl = streamWriteCloser_Close net st k isol h cl"
| "dwriter_Close net self DevNull cl = Some (None, cl)"

section \<open>Copies\<close>

text \<open>\<^verbatim>\<open>io.Copy\<close>, with its buffer of 32 kB.\<close>

definition ErrShortWrite :: error where
  "ErrShortWrite = Err Unknown ''short write''"

partial_function (option) io_Copy :: "('c, 'r, 'w) network \<Rightarrow> string \<Rightarrow> ('c, 'r, 'w) dwriter \<Rightarrow> ('c, 'r, 'w) dreader
    \<Rightarrow> ('c cluster, error option \<times> ('c, 'r, 'w) dwriter \<times> ('c, 'r, 'w) dreader) action" where
  "io_Copy net self w r cl =
     (case dreader_Read self r 32768 cl of
        None \<Rightarrow> None
      | Some ((bs, err, r'), cl1) \<Rightarrow>
          (case (if bs = [] then Some ((0, None, w), cl1) else dwriter_Write net self w bs cl1) of
             None \<Rightarrow> None
           | Some ((n, werr, w'), cl2) \<Rightarrow>
               (case werr of
                  Some e \<Rightarrow> Some ((Some e, w', r'), cl2)
                | None \<Rightarrow>
                    if n \<noteq> length bs then Some ((Some ErrShortWrite, w', r'), cl2)
                    else case err of
                      None \<Rightarrow> io_Copy net self w' r' cl2
                    | Some e \<Rightarrow> Some ((if e = EOF then None else Some e, w', r'), cl2))))"

text \<open>What \<open>copyFile\<close> and \<open>sendFile\<close> share once both ends are open; the reader is closed in the end.\<close>

definition copy_and_close :: "('c, 'r, 'w) network \<Rightarrow> string \<Rightarrow> ('c, 'r, 'w) dreader \<Rightarrow> ('c, 'r, 'w) dwriter
    \<Rightarrow> ('c cluster, error option) action" where
  "copy_and_close net self r rwc cl = do {
     ((err, w', r'), cl1) \<leftarrow> io_Copy net self rwc r cl;
     (res, cl2) \<leftarrow> (case err of Some e \<Rightarrow> Some (Some e, cl1) | None \<Rightarrow> dwriter_Close net self w' cl1);
     (_, cl3) \<leftarrow> dreader_Close self r' cl2;
     Some (res, cl3)
   }"

definition copyFile :: "('c, 'r, 'w) network \<Rightarrow> request_ctx \<Rightarrow> ('c, 'r, 'w) dcache \<Rightarrow> Digest option \<Rightarrow> string \<Rightarrow> Isolation \<Rightarrow> string
    \<Rightarrow> ('c cluster, error option) action" where
  "copyFile net ctx c d source isol dest cl = do {
     (ex, cl1) \<leftarrow> remoteContains net ctx c dest isol d cl;
     if ex = Inr True then Some (None, cl1)
     else do {
       (rr, cl2) \<leftarrow> remoteReader net ctx c source isol d 0 cl1;
       case rr of
         Inl e \<Rightarrow> Some (Some e, cl2)
       | Inr r \<Rightarrow> do {
           (wr, cl3) \<leftarrow> remoteWriter net ctx c dest '''' isol d cl2;
           case wr of
             Inl e \<Rightarrow> do { (_, cl4) \<leftarrow> dreader_Close (ListenAddr (config c)) r cl3; Some (Some e, cl4) }
           | Inr rwc \<Rightarrow> copy_and_close net (ListenAddr (config c)) r rwc cl3
         }
     }
   }"

text \<open>\<open>sendFile\<close>, of a handoff: the blob is read from the node's own cache with the handoff's isolation.\<close>

definition sendFile :: "('c, 'r, 'w) network \<Rightarrow> request_ctx \<Rightarrow> ('c, 'r, 'w) dcache \<Rightarrow> Digest option \<Rightarrow> Isolation \<Rightarrow> string
    \<Rightarrow> ('c cluster, error option) action" where
  "sendFile net ctx c d isol dest cl = do {
     (ex, cl1) \<leftarrow> RemoteContains net ctx dest isol d cl;
     if ex = Inr True then Some (None, cl1)
     else
       case getCache net (ListenAddr (config c)) ctx isol of
         Inl e \<Rightarrow> Some (Some e, cl1)
       | Inr localCache \<Rightarrow> do {
           (rr, cl2) \<leftarrow> on_node (ListenAddr (config c)) (c_Reader localCache d 0) cl1;
           case rr of
             Inl e \<Rightarrow> Some (Some e, cl2)
           | Inr r \<Rightarrow> do {
               (wr, cl3) \<leftarrow> RemoteWriter net ctx dest '''' isol d cl2;
               case wr of
                 Inl e \<Rightarrow> do { (_, cl4) \<leftarrow> on_node (ListenAddr (config c)) (r_Close localCache r) cl3; Some (Some e, cl4) }
               | Inr rwc \<Rightarrow> copy_and_close net (ListenAddr (config c)) (LocalReader localCache r) rwc cl3
             }
         }
   }"

text \<open>
  \<open>handleHintedHandoffs\<close> takes the orders off the channel one by one until it is empty; an order that
  cannot be sent ends the loop, and is off the channel all the same.
\<close>

definition set_handoffs :: "string \<Rightarrow> string \<Rightarrow> handoff list \<Rightarrow> 'c cluster \<Rightarrow> 'c cluster" where
  "set_handoffs node peer os cl =
     cl\<lparr>hintedHandoffsByPeer := (hintedHandoffsByPeer cl)(node := (hintedHandoffsByPeer cl node)(peer \<mapsto> os))\<rparr>"

partial_function (option) handleHintedHandoffs :: "('c, 'r, 'w) network \<Rightarrow> ('c, 'r, 'w) dcache \<Rightarrow> string
    \<Rightarrow> 'c cluster \<Rightarrow> 'c cluster option" where
  "handleHintedHandoffs net c peer cl =
     (case hintedHandoffsByPeer cl (ListenAddr (config c)) peer of
        Some (order # os) \<Rightarrow>
          (case sendFile net (ho_ctx order) c (ho_digest order) (ho_isolation order) peer
                  (set_handoffs (ListenAddr (config c)) peer os cl) of
             None \<Rightarrow> None
           | Some (Some e, cl') \<Rightarrow> Some cl'
           | Some (None, cl') \<Rightarrow> handleHintedHandoffs net c peer cl')
      | _ \<Rightarrow> Some cl)"

text \<open>One tick of \<open>heartbeatPeers\<close>.\<close>

fun heartbeat_tick :: "('c, 'r, 'w) network \<Rightarrow> ('c, 'r, 'w) dcache \<Rightarrow> string list \<Rightarrow> 'c cluster \<Rightarrow> 'c cluster option" where
  "heartbeat_tick net c [] cl = Some cl"
| "heartbeat_tick net c (peer # peers) cl =
     (case SendHeartbeat net (ListenAddr (config c)) peer cl of
        (None, cl') \<Rightarrow>
          (case handleHintedHandoffs net c peer cl' of None \<Rightarrow> None | Some cl'' \<Rightarrow> heartbeat_tick net c peers cl'')
      | (Some e, cl') \<Rightarrow> heartbeat_tick net c peers cl')"

section \<open>The peers of a digest\<close>

text \<open>
  All replicas of a digest's hash, split at the replication factor; slicing panics if there are fewer.
\<close>

definition split_peers :: "int \<Rightarrow> Digest option \<Rightarrow> 'c dstate \<Rightarrow> ((string list \<times> string list) \<times> 'c dstate) option" where
  "split_peers rf d st =
     (let (all, ch) = GetAllReplicas (str_bytes (GetHash d)) (consistentHash st);
          allPeers = map bytes_str all in
      if rf < 0 \<or> int (length allPeers) < rf then None
      else Some ((take (nat rf) allPeers, drop (nat rf) allPeers), st\<lparr>consistentHash := ch\<rparr>))"

definition dc_peers :: "('c, 'r, 'w) dcache \<Rightarrow> Digest option \<Rightarrow> ('c dstate, PeerSet) action" where
  "dc_peers c d st = do {
     ((pref, fb), st') \<leftarrow> split_peers (ReplicationFactor (config c)) d st;
     Some (New pref fb, st')
   }"

text \<open>\<open>shuffle\<close> is what \<^verbatim>\<open>rand.Shuffle\<close> makes of a list of peers.\<close>

definition readPeers :: "(string list \<Rightarrow> string list) \<Rightarrow> ('c, 'r, 'w) dcache \<Rightarrow> Digest option \<Rightarrow> ('c dstate, PeerSet) action" where
  "readPeers shuffle c d st = do {
     ((pref, fb), st') \<leftarrow> split_peers (ReplicationFactor (config c)) d st;
     Some (NewRead shuffle (ListenAddr (config c)) pref fb, st')
   }"

definition on_cluster :: "('c cluster, 'a) action \<Rightarrow> ('c dstate, 'a) action" where
  "on_cluster f st = do { (r, cl') \<leftarrow> f (cluster_of st); Some (r, st\<lparr>cluster_of := cl'\<rparr>) }"

section \<open>Backfills\<close>

record backfillOrder =
  bfDigest :: "Digest option"
  bfSource :: string
  bfDest :: string

fun dedupe_loop :: "string set \<Rightarrow> backfillOrder list \<Rightarrow> backfillOrder list" where
  "dedupe_loop seen [] = []"
| "dedupe_loop seen (bf # bfs) =
     (if GetHash (bfDigest bf) \<in> seen then dedupe_loop seen bfs
      else bf # dedupe_loop (insert (GetHash (bfDigest bf)) seen) bfs)"

definition dedupeBackfills :: "backfillOrder list \<Rightarrow> backfillOrder list" where
  "dedupeBackfills bfs = dedupe_loop {} bfs"

text \<open>All copies are made; the first error is returned.\<close>

fun backfill_all :: "('c, 'r, 'w) network \<Rightarrow> request_ctx \<Rightarrow> ('c, 'r, 'w) dcache \<Rightarrow> backfillOrder list
    \<Rightarrow> ('c cluster, error option) action" where
  "backfill_all net ctx c [] cl = Some (None, cl)"
| "backfill_all net ctx c (bf # bfs) cl = do {
     (err, cl1) \<leftarrow> copyFile net ctx c (bfDigest bf) (bfSource bf) (isolation c) (bfDest bf) cl;
     (errs, cl2) \<leftarrow> backfill_all net ctx c bfs cl1;
     Some (if err \<noteq> None then err else errs, cl2)
   }"

definition backfillPeers :: "('c, 'r, 'w) network \<Rightarrow> request_ctx \<Rightarrow> ('c, 'r, 'w) dcache \<Rightarrow> backfillOrder list
    \<Rightarrow> ('c cluster, error option) action" where
  "backfillPeers net ctx c bfs cl =
     (if bfs = [] then Some (None, cl) else backfill_all net ctx c (dedupeBackfills bfs) cl)"

definition getBackfillOrders :: "Digest option \<Rightarrow> PeerSet \<Rightarrow> backfillOrder list option" where
  "getBackfillOrders d ps = do {
     (source, targets) \<leftarrow> GetBackfillTargets ps;
     Some (map (\<lambda>t. \<lparr>bfDigest = d, bfSource = source, bfDest = t\<rparr>) targets)
   }"

text \<open>The backfill after a look-up; its error is only logged.\<close>

definition backfill :: "('c, 'r, 'w) network \<Rightarrow> request_ctx \<Rightarrow> ('c, 'r, 'w) dcache \<Rightarrow> Digest option \<Rightarrow> PeerSet
    \<Rightarrow> 'c cluster \<Rightarrow> 'c cluster option" where
  "backfill net ctx c d ps cl = do {
     bfs \<leftarrow> getBackfillOrders d ps;
     (_, cl') \<leftarrow> backfillPeers net ctx c bfs cl;
     Some cl'
   }"

section \<open>Reading\<close>

text \<open>How many peers a peer set can still hand out.\<close>

definition peers_left :: "PeerSet \<Rightarrow> nat" where
  "peers_left ps = length (PreferredPeers ps) + length (FallbackPeers ps) - next_i ps"

lemma GetNextPeer_left:
  assumes "GetNextPeer ps = (peer, ps')" and "peer \<noteq> ''''"
  shows "peers_left ps' < peers_left ps"
  using assms
  by (auto simp: GetNextPeer_def GetNextPeerAndHandoff_def peers_left_def Let_def split: if_splits)

lemma GetNextPeerAndHandoff_left:
  assumes "GetNextPeerAndHandoff ps = ((peer, h), ps')" and "peer \<noteq> ''''"
  shows "peers_left ps' < peers_left ps"
  by (rule GetNextPeer_left [of ps peer]) (use assms in \<open>simp_all add: GetNextPeer_def\<close>)

lemma peers_left_Mark [simp]: "peers_left (MarkPeerAsFailed p ps) = peers_left ps"
  by (simp add: peers_left_def)

function contains_loop :: "('c, 'r, 'w) network \<Rightarrow> request_ctx \<Rightarrow> ('c, 'r, 'w) dcache \<Rightarrow> Digest option \<Rightarrow> PeerSet
    \<Rightarrow> ('c cluster, bool \<times> PeerSet) action" where
  "contains_loop net ctx c d ps cl =
     (let (peer, ps1) = GetNextPeer ps in
      if peer = '''' then Some ((False, ps1), cl)
      else
        case remoteContains net ctx c peer (isolation c) d cl of
          None \<Rightarrow> None
        | Some (Inr True, cl') \<Rightarrow> Some ((True, ps1), cl')
        | Some (Inr False, cl') \<Rightarrow> contains_loop net ctx c d ps1 cl'
        | Some (Inl e, cl') \<Rightarrow> contains_loop net ctx c d (MarkPeerAsFailed peer ps1) cl')"
  by pat_completeness auto
termination
  by (relation "measure (\<lambda>(net, ctx, c, d, ps, cl). peers_left ps)")
    (auto simp: GetNextPeer_left dest!: sym [of _ "GetNextPeer _"])

declare contains_loop.simps [simp del]

definition dc_Contains :: "(string list \<Rightarrow> string list) \<Rightarrow> ('c, 'r, 'w) network \<Rightarrow> request_ctx \<Rightarrow> ('c, 'r, 'w) dcache \<Rightarrow> Digest option
    \<Rightarrow> ('c dstate, error + bool) action" where
  "dc_Contains shuffle net ctx c d st = do {
     (ps, st1) \<leftarrow> readPeers shuffle c d st;
     ((found, ps'), cl1) \<leftarrow> contains_loop net ctx c d ps (cluster_of st1);
     cl2 \<leftarrow> (if found then backfill net ctx c d ps' cl1 else Some cl1);
     Some (Inr found, st1\<lparr>cluster_of := cl2\<rparr>)
   }"

text \<open>\<open>distributedReader\<close>: a peer that answers \<^verbatim>\<open>NotFound\<close> lacks the blob, any other error is a failure.\<close>

function reader_loop :: "('c, 'r, 'w) network \<Rightarrow> request_ctx \<Rightarrow> ('c, 'r, 'w) dcache \<Rightarrow> Digest option \<Rightarrow> int \<Rightarrow> PeerSet
    \<Rightarrow> ('c cluster, ('c, 'r, 'w) dreader option \<times> PeerSet) action" where
  "reader_loop net ctx c d offset ps cl =
     (let (peer, ps1) = GetNextPeer ps in
      if peer = '''' then Some ((None, ps1), cl)
      else
        case remoteReader net ctx c peer (isolation c) d offset cl of
          None \<Rightarrow> None
        | Some (Inr r, cl') \<Rightarrow> Some ((Some r, ps1), cl')
        | Some (Inl e, cl') \<Rightarrow>
            if IsNotFoundError (Some e) then reader_loop net ctx c d offset ps1 cl'
            else reader_loop net ctx c d offset (MarkPeerAsFailed peer ps1) cl')"
  by pat_completeness auto
termination
  by (relation "measure (\<lambda>(net, ctx, c, d, offset, ps, cl). peers_left ps)")
    (auto simp: GetNextPeer_left dest!: sym [of _ "GetNextPeer _"])

declare reader_loop.simps [simp del]

definition distributedReader :: "(string list \<Rightarrow> string list) \<Rightarrow> ('c, 'r, 'w) network \<Rightarrow> request_ctx \<Rightarrow> ('c, 'r, 'w) dcache \<Rightarrow> Digest option
    \<Rightarrow> int \<Rightarrow> ('c dstate, error + ('c, 'r, 'w) dreader) action" where
  "distributedReader shuffle net ctx c d offset st = do {
     (ps, st1) \<leftarrow> readPeers shuffle c d st;
     ((r, ps'), cl1) \<leftarrow> reader_loop net ctx c d offset ps (cluster_of st1);
     case r of
       None \<Rightarrow> Some (Inl (NotFoundError ''Exhausted all peers attempting to read %q, peerset: %v''), st1\<lparr>cluster_of := cl1\<rparr>)
     | Some reader \<Rightarrow> do {
         cl2 \<leftarrow> backfill net ctx c d ps' cl1;
         Some (Inr reader, st1\<lparr>cluster_of := cl2\<rparr>)
       }
   }"

text \<open>
  \<^verbatim>\<open>ioutil.ReadAll\<close> reads into the free part of a slice that starts with a capacity of 512 bytes and grows;
  \<open>free n\<close> is the free part once \<open>n\<close> bytes are read.
\<close>

partial_function (option) ReadAll :: "(nat \<Rightarrow> nat) \<Rightarrow> string \<Rightarrow> ('c, 'r, 'w) dreader \<Rightarrow> bytes
    \<Rightarrow> ('c cluster, (error + bytes) \<times> ('c, 'r, 'w) dreader) action" where
  "ReadAll free self r buf cl =
     (case dreader_Read self r (free (length buf)) cl of
        None \<Rightarrow> None
      | Some ((bs, err, r'), cl') \<Rightarrow>
          (case err of
             None \<Rightarrow> ReadAll free self r' (buf @ bs) cl'
           | Some e \<Rightarrow> Some ((if e = EOF then Inr (buf @ bs) else Inl e, r'), cl')))"

definition dc_Get :: "(string list \<Rightarrow> string list) \<Rightarrow> (nat \<Rightarrow> nat) \<Rightarrow> ('c, 'r, 'w) network \<Rightarrow> request_ctx \<Rightarrow> ('c, 'r, 'w) dcache
    \<Rightarrow> Digest option \<Rightarrow> ('c dstate, error + bytes) action" where
  "dc_Get shuffle free net ctx c d st = do {
     (r, st1) \<leftarrow> distributedReader shuffle net ctx c d 0 st;
     case r of
       Inl e \<Rightarrow> Some (Inl e, st1)
     | Inr reader \<Rightarrow> do {
         ((res, reader'), cl1) \<leftarrow> ReadAll free (ListenAddr (config c)) reader [] (cluster_of st1);
         (_, cl2) \<leftarrow> dreader_Close (ListenAddr (config c)) reader' cl1;
         Some (res, st1\<lparr>cluster_of := cl2\<rparr>)
       }
   }"

section \<open>Writing\<close>

text \<open>\<open>multiWriter\<close>: the writers opened, by peer.\<close>

function open_writers :: "('c, 'r, 'w) network \<Rightarrow> request_ctx \<Rightarrow> ('c, 'r, 'w) dcache \<Rightarrow> Digest option \<Rightarrow> PeerSet
    \<Rightarrow> (string \<times> ('c, 'r, 'w) dwriter) list \<Rightarrow> ('c cluster, (string \<times> ('c, 'r, 'w) dwriter) list) action" where
  "open_writers net ctx c d ps ws cl =
     (case GetNextPeerAndHandoff ps of ((peer, hintedHandoff), ps1) \<Rightarrow>
      if peer = '''' then Some (ws, cl)
      else
        case remoteWriter net ctx c peer hintedHandoff (isolation c) d cl of
          None \<Rightarrow> None
        | Some (Inl e, cl') \<Rightarrow> open_writers net ctx c d (MarkPeerAsFailed peer ps1) ws cl'
        | Some (Inr w, cl') \<Rightarrow> open_writers net ctx c d ps1 (AList.update peer w ws) cl')"
  by pat_completeness auto
termination
  by (relation "measure (\<lambda>(net, ctx, c, d, ps, ws, cl). peers_left ps)")
    (auto simp: GetNextPeerAndHandoff_left dest!: sym [of _ "GetNextPeerAndHandoff _"])

declare open_writers.simps [simp del]

definition multiWriter :: "('c, 'r, 'w) network \<Rightarrow> request_ctx \<Rightarrow> ('c, 'r, 'w) dcache \<Rightarrow> Digest option
    \<Rightarrow> ('c dstate, error + (string \<times> ('c, 'r, 'w) dwriter) list) action" where
  "multiWriter net ctx c d st = do {
     (ps, st1) \<leftarrow> dc_peers c d st;
     (ws, cl1) \<leftarrow> open_writers net ctx c d ps [] (cluster_of st1);
     Some (if int (length ws) < ReplicationFactor (config c)
           then Inl (UnavailableError ''Not enough peers (%d) available to satisfy replication factor (%d).'')
           else Inr ws, st1\<lparr>cluster_of := cl1\<rparr>)
   }"

text \<open>Writing to and closing all of them: the first error is returned.\<close>

fun mw_Write :: "('c, 'r, 'w) network \<Rightarrow> string \<Rightarrow> (string \<times> ('c, 'r, 'w) dwriter) list \<Rightarrow> bytes
    \<Rightarrow> ('c cluster, error option \<times> (string \<times> ('c, 'r, 'w) dwriter) list) action" where
  "mw_Write net self [] data cl = Some ((None, []), cl)"
| "mw_Write net self ((peer, w) # ws) data cl = do {
     ((n, err, w'), cl1) \<leftarrow> dwriter_Write net self w data cl;
     let err = (if err = None \<and> n \<noteq> length data then Some ErrShortWrite else err);
     ((errs, ws'), cl2) \<leftarrow> mw_Write net self ws data cl1;
     Some ((if err \<noteq> None then err else errs, (peer, w') # ws'), cl2)
   }"

fun mw_Close :: "('c, 'r, 'w) network \<Rightarrow> string \<Rightarrow> (string \<times> ('c, 'r, 'w) dwriter) list \<Rightarrow> ('c cluster, error option) action" where
  "mw_Close net self [] cl = Some (None, cl)"
| "mw_Close net self ((peer, w) # ws) cl = do {
     (err, cl1) \<leftarrow> dwriter_Close net self w cl;
     (errs, cl2) \<leftarrow> mw_Close net self ws cl1;
     Some (if err \<noteq> None then err else errs, cl2)
   }"

definition dc_Set :: "('c, 'r, 'w) network \<Rightarrow> request_ctx \<Rightarrow> ('c, 'r, 'w) dcache \<Rightarrow> Digest option \<Rightarrow> bytes
    \<Rightarrow> ('c dstate, error option) action" where
  "dc_Set net ctx c d data st = do {
     (wr, st1) \<leftarrow> multiWriter net ctx c d st;
     case wr of
       Inl e \<Rightarrow> Some (Some e, st1)
     | Inr ws \<Rightarrow> do {
         ((err, ws'), cl1) \<leftarrow> mw_Write net (ListenAddr (config c)) ws data (cluster_of st1);
         case err of
           Some e \<Rightarrow> Some (Some e, st1\<lparr>cluster_of := cl1\<rparr>)
         | None \<Rightarrow> do {
             (err', cl2) \<leftarrow> mw_Close net (ListenAddr (config c)) ws' cl1;
             Some (err', st1\<lparr>cluster_of := cl2\<rparr>)
           }
       }
   }"

fun dc_SetMulti :: "('c, 'r, 'w) network \<Rightarrow> request_ctx \<Rightarrow> ('c, 'r, 'w) dcache \<Rightarrow> (Digest option \<times> bytes) list
    \<Rightarrow> ('c dstate, error option) action" where
  "dc_SetMulti net ctx c [] st = Some (None, st)"
| "dc_SetMulti net ctx c ((d, data) # kvs) st = do {
     (err, st1) \<leftarrow> dc_Set net ctx c d data st;
     (errs, st2) \<leftarrow> dc_SetMulti net ctx c kvs st1;
     Some (if err \<noteq> None then err else errs, st2)
   }"

definition dc_Delete :: "('c dstate, error option) action" where
  "dc_Delete st = Some (Some (UnimplementedError ''Not yet implemented.''), st)"

section \<open>Batches\<close>

text \<open>
  \<open>FindMissing\<close> and \<open>GetMulti\<close> work on hashes, in the order Go enumerates its maps, which is that of their first
  occurrence here. In every round each hash that is not settled is asked of its next peer.
\<close>

definition batch_hashes :: "Digest option list \<Rightarrow> string list" where
  "batch_hashes ds = rev (remdups (rev (map GetHash ds)))"

definition first_digest :: "Digest option list \<Rightarrow> string \<Rightarrow> Digest option" where
  "first_digest ds h = hd (filter (\<lambda>d. GetHash d = h) ds)"

text \<open>The peer set of every hash, made from the first digest that has it.\<close>

fun peer_map :: "(string list \<Rightarrow> string list) \<Rightarrow> ('c, 'r, 'w) dcache \<Rightarrow> Digest option list \<Rightarrow> (string \<rightharpoonup> PeerSet)
    \<Rightarrow> ('c dstate, string \<rightharpoonup> PeerSet) action" where
  "peer_map shuffle c [] m st = Some (m, st)"
| "peer_map shuffle c (d # ds) m st =
     (if m (GetHash d) \<noteq> None then peer_map shuffle c ds m st
      else do { (ps, st1) \<leftarrow> readPeers shuffle c d st; peer_map shuffle c ds (m(GetHash d \<mapsto> ps)) st1 })"

text \<open>The requests of a round: the digests to ask of each peer, and the peer sets after.\<close>

fun plan_round :: "(string \<Rightarrow> Digest option) \<Rightarrow> (string \<Rightarrow> bool) \<Rightarrow> string list \<Rightarrow> (string \<rightharpoonup> PeerSet)
    \<Rightarrow> (string \<times> Digest option list) list \<Rightarrow> (string \<times> Digest option list) list \<times> (string \<rightharpoonup> PeerSet)" where
  "plan_round dig settled [] m reqs = (reqs, m)"
| "plan_round dig settled (h # hs) m reqs =
     (if settled h then plan_round dig settled hs m reqs
      else
        let (peer, ps) = GetNextPeer (the (m h)); m' = m(h \<mapsto> ps) in
        if peer = '''' then plan_round dig settled hs m' reqs
        else plan_round dig settled hs m'
          (AList.update peer ((case map_of reqs peer of None \<Rightarrow> [] | Some ds \<Rightarrow> ds) @ [dig h]) reqs))"

definition mark_all :: "string \<Rightarrow> Digest option list \<Rightarrow> (string \<rightharpoonup> PeerSet) \<Rightarrow> (string \<rightharpoonup> PeerSet)" where
  "mark_all peer ds m = foldl (\<lambda>m d. m(GetHash d := map_option (MarkPeerAsFailed peer) (m (GetHash d)))) m ds"

fun fm_round :: "('c, 'r, 'w) network \<Rightarrow> request_ctx \<Rightarrow> ('c, 'r, 'w) dcache \<Rightarrow> (string \<times> Digest option list) list
    \<Rightarrow> string set \<Rightarrow> (string \<rightharpoonup> PeerSet) \<Rightarrow> ('c cluster, string set \<times> (string \<rightharpoonup> PeerSet)) action" where
  "fm_round net ctx c [] found m cl = Some ((found, m), cl)"
| "fm_round net ctx c ((peer, ds) # reqs) found m cl = do {
     (r, cl1) \<leftarrow> remoteFindMissing net ctx c peer (isolation c) ds cl;
     case r of
       Inl e \<Rightarrow> fm_round net ctx c reqs found (mark_all peer ds m) cl1
     | Inr missing \<Rightarrow>
         fm_round net ctx c reqs (found \<union> {h \<in> GetHash ` set ds. h \<notin> GetHash ` set missing}) m cl1
   }"

partial_function (option) fm_loop :: "('c, 'r, 'w) network \<Rightarrow> request_ctx \<Rightarrow> ('c, 'r, 'w) dcache \<Rightarrow> Digest option list
    \<Rightarrow> string set \<Rightarrow> (string \<rightharpoonup> PeerSet) \<Rightarrow> ('c cluster, string set \<times> (string \<rightharpoonup> PeerSet)) action" where
  "fm_loop net ctx c ds found m cl =
     (let (reqs, m1) = plan_round (first_digest ds) (\<lambda>h. h \<in> found) (batch_hashes ds) m [] in
      if reqs = [] then Some ((found, m1), cl)
      else
        case fm_round net ctx c reqs found m1 cl of
          None \<Rightarrow> None
        | Some ((found', m2), cl1) \<Rightarrow>
            if card found' = length (batch_hashes ds) then Some ((found', m2), cl1)
            else fm_loop net ctx c ds found' m2 cl1)"

text \<open>The backfills of the hashes that were found.\<close>

fun batch_backfills :: "(string \<Rightarrow> Digest option) \<Rightarrow> (string \<rightharpoonup> PeerSet) \<Rightarrow> string list \<Rightarrow> backfillOrder list option" where
  "batch_backfills dig m [] = Some []"
| "batch_backfills dig m (h # hs) = do {
     bfs \<leftarrow> getBackfillOrders (dig h) (the (m h));
     rest \<leftarrow> batch_backfills dig m hs;
     Some (bfs @ rest)
   }"

definition dc_FindMissing :: "(string list \<Rightarrow> string list) \<Rightarrow> ('c, 'r, 'w) network \<Rightarrow> request_ctx \<Rightarrow> ('c, 'r, 'w) dcache
    \<Rightarrow> Digest option list \<Rightarrow> ('c dstate, error + Digest option list) action" where
  "dc_FindMissing shuffle net ctx c ds st = do {
     (m, st1) \<leftarrow> peer_map shuffle c ds Map.empty st;
     ((found, m'), cl1) \<leftarrow> fm_loop net ctx c ds {} m (cluster_of st1);
     bfs \<leftarrow> batch_backfills (first_digest ds) m' (filter (\<lambda>h. h \<in> found) (batch_hashes ds));
     (_, cl2) \<leftarrow> backfillPeers net ctx c bfs cl1;
     Some (Inr (filter (\<lambda>d. GetHash d \<notin> found) ds), st1\<lparr>cluster_of := cl2\<rparr>)
   }"

fun gm_round :: "('c, 'r, 'w) network \<Rightarrow> request_ctx \<Rightarrow> ('c, 'r, 'w) dcache \<Rightarrow> (string \<times> Digest option list) list
    \<Rightarrow> (string \<rightharpoonup> bytes) \<Rightarrow> (string \<rightharpoonup> PeerSet) \<Rightarrow> ('c cluster, (string \<rightharpoonup> bytes) \<times> (string \<rightharpoonup> PeerSet)) action" where
  "gm_round net ctx c [] got m cl = Some ((got, m), cl)"
| "gm_round net ctx c ((peer, ds) # reqs) got m cl = do {
     (r, cl1) \<leftarrow> remoteGetMulti net ctx c peer (isolation c) ds cl;
     case r of
       Inl e \<Rightarrow> gm_round net ctx c reqs got (mark_all peer ds m) cl1
     | Inr rsp \<Rightarrow>
         gm_round net ctx c reqs
           (foldl (\<lambda>g d. case rsp d of Some data \<Rightarrow> g(GetHash d \<mapsto> data) | None \<Rightarrow> g) got ds) m cl1
   }"

partial_function (option) gm_loop :: "('c, 'r, 'w) network \<Rightarrow> request_ctx \<Rightarrow> ('c, 'r, 'w) dcache \<Rightarrow> Digest option list
    \<Rightarrow> (string \<rightharpoonup> bytes) \<Rightarrow> (string \<rightharpoonup> PeerSet) \<Rightarrow> ('c cluster, (string \<rightharpoonup> bytes) \<times> (string \<rightharpoonup> PeerSet)) action" where
  "gm_loop net ctx c ds got m cl =
     (let (reqs, m1) = plan_round (first_digest ds) (\<lambda>h. got h \<noteq> None) (batch_hashes ds) m [] in
      if reqs = [] then Some ((got, m1), cl)
      else
        case gm_round net ctx c reqs got m1 cl of
          None \<Rightarrow> None
        | Some ((got', m2), cl1) \<Rightarrow>
            if card (dom got') = length (batch_hashes ds) then Some ((got', m2), cl1)
            else gm_loop net ctx c ds got' m2 cl1)"

text \<open>
  The answer has an entry for every digest: nil, the empty slice, for one that was not found. Empty blobs are not
  backfilled.
\<close>

definition dc_GetMulti :: "(string list \<Rightarrow> string list) \<Rightarrow> ('c, 'r, 'w) network \<Rightarrow> request_ctx \<Rightarrow> ('c, 'r, 'w) dcache
    \<Rightarrow> Digest option list \<Rightarrow> ('c dstate, error + (Digest option \<rightharpoonup> bytes)) action" where
  "dc_GetMulti shuffle net ctx c ds st = do {
     (m, st1) \<leftarrow> peer_map shuffle c ds Map.empty st;
     ((got, m'), cl1) \<leftarrow> gm_loop net ctx c ds Map.empty m (cluster_of st1);
     bfs \<leftarrow> batch_backfills (first_digest ds) m'
       (filter (\<lambda>h. case got h of Some buf \<Rightarrow> buf \<noteq> [] | None \<Rightarrow> False) (batch_hashes ds));
     (_, cl2) \<leftarrow> backfillPeers net ctx c bfs cl1;
     Some (Inr (\<lambda>d. if d \<in> set ds then Some (case got (GetHash d) of Some buf \<Rightarrow> buf | None \<Rightarrow> []) else None),
           st1\<lparr>cluster_of := cl2\<rparr>)
   }"

section \<open>Properties\<close>

text \<open>The repair of lagging replicas after a look-up copies the blob to the first of them only: the orders of one digest
  all have its hash, and all but the first are taken for duplicates.\<close>

theorem backfill_repairs_one_replica:
  "backfill net ctx c d ps cl =
     (case GetBackfillTargets ps of
        None \<Rightarrow> None
      | Some (source, []) \<Rightarrow> Some cl
      | Some (source, target # _) \<Rightarrow> map_option snd (copyFile net ctx c d source (isolation c) target cl))"
proof -
  have dup: "dedupe_loop seen (map (\<lambda>t. \<lparr>bfDigest = d, bfSource = s, bfDest = t\<rparr>) ts) = []" if "GetHash d \<in> seen" for seen s ts
    using that by (induction ts) simp_all
  show ?thesis
  proof (cases "GetBackfillTargets ps")
    case (Some r)
    then show ?thesis
      by (cases r; cases "snd r"; cases "copyFile net ctx c d (fst r) (isolation c) (hd (snd r)) cl")
        (auto simp: backfill_def getBackfillOrders_def backfillPeers_def dedupeBackfills_def dup)
  qed (simp add: backfill_def getBackfillOrders_def)
qed

end
