(* ===== verification/DistributedContract.thy ===== *)
theory DistributedContract
  imports DistributedCache
begin

text \<open>
  The contract between the distributed cache and the caches of the nodes: every node serves a cache that keeps the
  contract \<open>streaming_cache\<close>. Proved here, once for all such caches: reads of a peer yield what the peer holds,
  copies and writes end, and a write that is closed is held by the peer.
\<close>

section \<open>The cluster's contents\<close>

definition cluster_ok :: "('c \<Rightarrow> bool) \<Rightarrow> 'c cluster \<Rightarrow> bool" where
  "cluster_ok cinv cl \<longleftrightarrow> (\<forall>p. cinv (caches cl p))"

definition held :: "('c \<Rightarrow> Digest option \<Rightarrow> bytes option) \<Rightarrow> 'c cluster \<Rightarrow> string \<Rightarrow> Digest option \<Rightarrow> bytes option" where
  "held blobs cl p d = blobs (caches cl p) d"

text \<open>The peers a node can reach: itself, unless it must not look up locally, and those the network reaches.\<close>

definition available :: "('c, 'r, 'w) network \<Rightarrow> ('c, 'r, 'w) dcache \<Rightarrow> string \<Rightarrow> bool" where
  "available net c p \<longleftrightarrow> is_local c p \<or> reachable net p"

lemma on_node_Some:
  "f (caches cl p) = Some (r, c') \<Longrightarrow> on_node p f cl = Some (r, cl\<lparr>caches := (caches cl)(p := c')\<rparr>)"
  by (simp add: on_node_def)

lemma cluster_ok_upd: "cluster_ok cinv cl \<Longrightarrow> cinv c' \<Longrightarrow> cluster_ok cinv (cl\<lparr>caches := (caches cl)(p := c')\<rparr>)"
  by (simp add: cluster_ok_def)

lemma cluster_okD: "cluster_ok cinv cl \<Longrightarrow> cinv (caches cl p)"
  by (simp add: cluster_ok_def)

lemma held_upd: "blobs c' = blobs (caches cl p) \<Longrightarrow> held blobs (cl\<lparr>caches := (caches cl)(p := c')\<rparr>) = held blobs cl"
  by (simp add: held_def fun_eq_iff)

lemma digest_key: "d \<noteq> None \<Longrightarrow> digestFromKey (digestToKey d) = d"
  by (cases d) (simp_all add: digestFromKey_def digestToKey_def GetHash_def GetSizeBytes_def)

locale cluster_caches = streaming_cache cache cinv blobs pend valid same_key yields fits
  for cache :: "(Digest option, 'c, 'r, 'w) Cache"
    and cinv :: "'c \<Rightarrow> bool"
    and blobs :: "'c \<Rightarrow> Digest option \<Rightarrow> bytes option"
    and pend :: "'w \<Rightarrow> Digest option \<Rightarrow> bytes \<Rightarrow> bool"
    and valid :: "Digest option \<Rightarrow> bool"
    and same_key :: "Digest option \<Rightarrow> Digest option \<Rightarrow> bool"
    and yields :: "'r \<Rightarrow> bytes \<Rightarrow> bool"
    and fits :: "'c \<Rightarrow> Digest option \<Rightarrow> bytes \<Rightarrow> bool" +
  fixes net :: "('c, 'r, 'w) network" and ctx :: request_ctx and c :: "('c, 'r, 'w) dcache"
  assumes served_cache: "attached_cache net node ctx (isolation c) = Inr cache"
    and local_is_cache: "local_cache c = cache"
    and valid_digest: "valid d \<Longrightarrow> d \<noteq> None"
    and callback_caches: "caches (hintedHandoffCallback net n x p i d cl) = caches cl"
begin

section \<open>Look-ups\<close>

lemma FindMissing_node:
  assumes "cluster_ok cinv cl" and "valid d"
  shows "\<exists>cl'. on_node p (c_FindMissing cache [d]) cl = Some (Inr (if held blobs cl p d = None then [d] else []), cl')
    \<and> cluster_ok cinv cl' \<and> held blobs cl' = held blobs cl \<and> (\<forall>q v. fits (caches cl q) d v \<longrightarrow> fits (caches cl' q) d v)"
proof -
  have c: "cinv (caches cl p)" by (rule cluster_okD [OF assms(1)])
  obtain s' where s': "c_FindMissing cache [d] (caches cl p) = Some (Inr (filter (\<lambda>d. blobs (caches cl p) d = None) [d]), s')" "cinv s'"
    using FindMissing_law [OF c, of "[d]"] assms(2) by auto
  have k: "blobs s' = blobs (caches cl p)" "fits (caches cl p) d v \<Longrightarrow> fits s' d v" for v
    using FindMissing_keeps [OF c _ s'(1)] assms(2) by auto
  show ?thesis
    using s' k on_node_Some [where f = "c_FindMissing cache [d]", OF s'(1)] cluster_ok_upd [OF assms(1) s'(2)] held_upd [of blobs s' cl p]
    by (auto simp: held_def)
qed

lemma remoteContains_spec:
  assumes "cluster_ok cinv cl" and "valid d"
  shows "\<exists>r cl'. remoteContains net ctx c p (isolation c) d cl = Some (r, cl') \<and> cluster_ok cinv cl' \<and> held blobs cl' = held blobs cl"
proof (cases "is_local c p")
  case True
  obtain s' where s': "c_Contains cache d (caches cl p) = Some (Inr (blobs (caches cl p) d \<noteq> None), s')" "cinv s'"
      "blobs s' = blobs (caches cl p)"
    using Contains_law [OF cluster_okD [OF assms(1)] assms(2)] by blast
  then show ?thesis
    using True on_node_Some [where f = "c_Contains cache d", OF s'(1)] cluster_ok_upd [OF assms(1) s'(2)] held_upd [OF s'(3)]
    by (simp add: remoteContains_def local_is_cache)
next
  case False
  show ?thesis
  proof (cases "reachable net p")
    case True
    obtain cl' where "on_node p (c_FindMissing cache [d]) cl = Some (Inr (if held blobs cl p d = None then [d] else []), cl')"
        "cluster_ok cinv cl'" "held blobs cl' = held blobs cl"
      using FindMissing_node [OF assms] by blast
    then show ?thesis
      using False True served_cache digest_key [OF valid_digest [OF assms(2)]]
      by (simp add: remoteContains_def RemoteContains_def RemoteFindMissing_def call_peer_def proxy_FindMissing_def)
  next
    case unreachable: False
    then show ?thesis
      using False assms(1) by (simp add: remoteContains_def RemoteContains_def RemoteFindMissing_def call_peer_def)
  qed
qed

section \<open>Readers\<close>

fun dyields :: "('c, 'r, 'w) dreader \<Rightarrow> bytes \<Rightarrow> bool" where
  "dyields (LocalReader ca r) v \<longleftrightarrow> ca = cache \<and> yields r v"
| "dyields (PipeReader ps err) v \<longleftrightarrow> err = None \<and> concat ps = v \<and> [] \<notin> set ps"

lemma copy_loop_spec:
  assumes "cinv s" and "yields rd v" and "0 < n"
  shows "\<exists>ps rd' s'. copy_loop cache n rd sent s = Some ((sent @ ps, None, rd'), s') \<and> cinv s' \<and> blobs s' = blobs s
    \<and> concat ps = v \<and> [] \<notin> set ps"
  using assms(1,2)
proof (induction "length v" arbitrary: v rd s sent rule: less_induct)
  case less
  obtain bs e rd' s' v' where r: "r_Read cache rd n s = Some ((bs, e, rd'), s')" "cinv s'" "blobs s' = blobs s"
      "v = bs @ v'" "yields rd' v'" "e = None \<and> bs \<noteq> [] \<or> e = Some EOF \<and> v' = []"
    using Read_law [OF less.prems assms(3)] by blast
  define sent' where "sent' = (if bs = [] then sent else sent @ [bs])"
  from r(6) show ?case
  proof (elim disjE conjE)
    assume e: "e = None" "bs \<noteq> []"
    then have "length v' < length v" using r(4) by simp
    from less.hyps [OF this r(2,5), of sent'] obtain ps rd'' s'' where
      "copy_loop cache n rd' sent' s' = Some ((sent' @ ps, None, rd''), s'')" "cinv s''" "blobs s'' = blobs s'"
      "concat ps = v'" "[] \<notin> set ps" by blast
    then show ?thesis
      using r e by (subst copy_loop.simps) (auto simp: sent'_def Let_def intro!: exI [of _ "bs # ps"])
  next
    assume "e = Some EOF" "v' = []"
    then show ?thesis
      using r by (subst copy_loop.simps) (auto simp: Let_def)
  qed
qed

lemma proxy_Read_spec:
  assumes "cluster_ok cinv cl" and "valid d"
  shows "\<exists>ps err cl'. proxy_Read net p ctx (isolation c) (digestToKey d) 0 cl = Some ((ps, err), cl') \<and> cluster_ok cinv cl'
    \<and> held blobs cl' = held blobs cl
    \<and> (case held blobs cl p d of Some v \<Rightarrow> err = None \<and> concat ps = v \<and> [] \<notin> set ps
       | None \<Rightarrow> ps = [] \<and> (\<exists>e. err = Some e \<and> err_code e = NotFound))"
proof -
  obtain r s1 where r: "c_Reader cache d 0 (caches cl p) = Some (r, s1)" "cinv s1" "blobs s1 = blobs (caches cl p)"
    and res: "case r of Inr rd \<Rightarrow> (\<exists>v. blobs (caches cl p) d = Some v \<and> yields rd v)
      | Inl e \<Rightarrow> blobs (caches cl p) d = None \<and> err_code e = NotFound"
    using Reader_law [OF cluster_okD [OF assms(1)] assms(2)] by blast
  note n1 = on_node_Some [where f = "c_Reader cache d 0", OF r(1)]
  note dk = digest_key [OF valid_digest [OF assms(2)]]
  show ?thesis
  proof (cases r)
    case (Inl e)
    then show ?thesis
      using n1 res cluster_ok_upd [OF assms(1) r(2)] held_upd [OF r(3)]
      by (auto simp: proxy_Read_def served_cache dk held_def)
  next
    case (Inr rd)
    then obtain v where v: "blobs (caches cl p) d = Some v" "yields rd v" using res by auto
    define k where "k = digestToKey d"
    define bs where "bs = nat (if dcSize k > 0 \<and> dcSize k < readBufSizeBytes then dcSize k else readBufSizeBytes)"
    define cl1 where "cl1 = cl\<lparr>caches := (caches cl)(p := s1)\<rparr>"
    have pos: "0 < bs" by (simp add: bs_def readBufSizeBytes_def)
    have ok1: "cluster_ok cinv cl1" and held1: "held blobs cl1 = held blobs cl" and p1: "caches cl1 p = s1"
      using cluster_ok_upd [OF assms(1) r(2)] held_upd [OF r(3)] by (simp_all add: cl1_def)
    obtain ps rd' s2 where cp: "copy_loop cache bs rd [] s1 = Some (([] @ ps, None, rd'), s2)" "cinv s2" "blobs s2 = blobs s1"
        "concat ps = v" "[] \<notin> set ps"
      using copy_loop_spec [OF r(2) v(2) pos] by blast
    define cl2 where "cl2 = cl1\<lparr>caches := (caches cl1)(p := s2)\<rparr>"
    have n2: "on_node p (copy_loop cache bs rd []) cl1 = Some (([] @ ps, None, rd'), cl2)"
      using on_node_Some [of "copy_loop cache bs rd []" cl1 p] cp(1) p1 by (simp add: cl2_def)
    have ok2: "cluster_ok cinv cl2" and held2: "held blobs cl2 = held blobs cl" and p2: "caches cl2 p = s2"
      using cluster_ok_upd [OF ok1 cp(2)] held_upd [of blobs s2 cl1 p] cp(3) p1 held1 by (simp_all add: cl2_def)
    obtain s3 where cls: "r_Close cache rd' s2 = Some (None, s3)" "cinv s3" "blobs s3 = blobs s2"
      using ReaderClose_law [OF cp(2)] by blast
    define cl3 where "cl3 = cl2\<lparr>caches := (caches cl2)(p := s3)\<rparr>"
    have n3: "on_node p (r_Close cache rd') cl2 = Some (None, cl3)"
      using on_node_Some [of "r_Close cache rd'" cl2 p] cls(1) p2 by (simp add: cl3_def)
    have ok3: "cluster_ok cinv cl3" and held3: "held blobs cl3 = held blobs cl"
      using cluster_ok_upd [OF ok2 cls(2)] held_upd [of blobs s3 cl2 p] cls(3) p2 held2 by (simp_all add: cl3_def)
    have "proxy_Read net p ctx (isolation c) k 0 cl = Some ((ps, None), cl3)"
      using n1 n2 n3 Inr dk by (simp add: proxy_Read_def served_cache k_def [symmetric] cl1_def [symmetric] bs_def [symmetric] Let_def)
    then show ?thesis using ok3 held3 cp(4,5) v(1) by (simp add: k_def held_def)
  qed
qed

lemma remoteReader_spec:
  assumes "cluster_ok cinv cl" and "valid d"
  shows "\<exists>r cl'. remoteReader net ctx c p (isolation c) d 0 cl = Some (r, cl') \<and> cluster_ok cinv cl' \<and> held blobs cl' = held blobs cl
    \<and> (if available net c p then
         (case held blobs cl p d of
            Some v \<Rightarrow> v \<noteq> [] \<or> GetSizeBytes d = 0 \<longrightarrow> (\<exists>rd. r = Inr rd \<and> dyields rd v)
          | None \<Rightarrow> \<exists>e. r = Inl e \<and> err_code e = NotFound)
       else \<exists>e. r = Inl e \<and> err_code e \<noteq> NotFound)
    \<and> (\<forall>rd. r = Inr rd \<longrightarrow> (\<exists>v. dyields rd v))"
proof (cases "is_local c p")
  case True
  obtain r s1 where r: "c_Reader cache d 0 (caches cl p) = Some (r, s1)" "cinv s1" "blobs s1 = blobs (caches cl p)"
    and res: "case r of Inr rd \<Rightarrow> (\<exists>v. blobs (caches cl p) d = Some v \<and> yields rd v)
      | Inl e \<Rightarrow> blobs (caches cl p) d = None \<and> err_code e = NotFound"
    using Reader_law [OF cluster_okD [OF assms(1)] assms(2)] by blast
  note n = on_node_Some [where f = "c_Reader cache d 0", OF r(1)]
  show ?thesis
    using True n res cluster_ok_upd [OF assms(1) r(2)] held_upd [OF r(3)]
    by (cases r) (auto simp: remoteReader_def local_is_cache available_def held_def)
next
  case False
  show ?thesis
  proof (cases "reachable net p")
    case True
    obtain ps err cl' where pr: "proxy_Read net p ctx (isolation c) (digestToKey d) 0 cl = Some ((ps, err), cl')"
        "cluster_ok cinv cl'" "held blobs cl' = held blobs cl"
      and res: "case held blobs cl p d of Some v \<Rightarrow> err = None \<and> concat ps = v \<and> [] \<notin> set ps
        | None \<Rightarrow> ps = [] \<and> (\<exists>e. err = Some e \<and> err_code e = NotFound)"
      using proxy_Read_spec [OF assms] by blast
    have EOF: "err_code EOF \<noteq> NotFound" by (simp add: EOF_def)
    show ?thesis
    proof (cases "held blobs cl p d")
      case None
      then show ?thesis
        using False True pr res EOF by (auto simp: remoteReader_def RemoteReader_def available_def Let_def)
    next
      case (Some v)
      then have v: "err = None" "concat ps = v" "[] \<notin> set ps" using res by simp_all
      have "v = []" if "ps = []" using that v(2) by simp
      with Some v show ?thesis
        using False True pr by (auto simp: remoteReader_def RemoteReader_def available_def Let_def)
    qed
  next
    case unreachable: False
    then show ?thesis
      using False assms(1)
      by (simp add: remoteReader_def RemoteReader_def available_def not_ready_def UnavailableError_def makeStatusError_def)
  qed
qed

lemma dreader_Read_spec:
  assumes "cluster_ok cinv cl" and "dyields rd v" and "0 < n"
  shows "\<exists>bs e rd' cl' v'. dreader_Read self rd n cl = Some ((bs, e, rd'), cl') \<and> cluster_ok cinv cl' \<and> held blobs cl' = held blobs cl
    \<and> v = bs @ v' \<and> dyields rd' v' \<and> (e = None \<and> bs \<noteq> [] \<or> e = Some EOF \<and> v' = [])"
proof (cases rd)
  case (LocalReader ca r)
  then have ca: "ca = cache" "yields r v" using assms(2) by simp_all
  obtain bs e r' s' v' where r: "r_Read cache r n (caches cl self) = Some ((bs, e, r'), s')" "cinv s'" "blobs s' = blobs (caches cl self)"
      "v = bs @ v'" "yields r' v'" "e = None \<and> bs \<noteq> [] \<or> e = Some EOF \<and> v' = []"
    using Read_law [OF cluster_okD [OF assms(1)] ca(2) assms(3)] by blast
  note k = on_node_Some [where f = "r_Read cache r n", OF r(1)]
  show ?thesis
    using LocalReader ca r k cluster_ok_upd [OF assms(1) r(2)] held_upd [OF r(3)] by auto
next
  case (PipeReader ps err)
  show ?thesis
  proof (cases ps)
    case Nil
    then show ?thesis using PipeReader assms by (simp add: Let_def)
  next
    case (Cons q qs)
    have "take n q \<noteq> []" using Cons PipeReader assms by auto
    moreover have "v = take n q @ concat (if length q \<le> n then qs else drop n q # qs)"
      using Cons PipeReader assms by auto
    moreover have "[] \<notin> set (if length q \<le> n then qs else drop n q # qs)"
      using Cons PipeReader assms by auto
    ultimately show ?thesis
      using Cons PipeReader assms by (simp add: Let_def)
  qed
qed

lemma dreader_Close_spec:
  assumes "cluster_ok cinv cl" and "dyields rd v"
  shows "\<exists>r cl'. dreader_Close self rd cl = Some (r, cl') \<and> cluster_ok cinv cl' \<and> held blobs cl' = held blobs cl"
proof (cases rd)
  case (LocalReader ca r)
  then have ca: "ca = cache" using assms(2) by simp
  obtain s' where s': "r_Close cache r (caches cl self) = Some (None, s')" "cinv s'" "blobs s' = blobs (caches cl self)"
    using ReaderClose_law [OF cluster_okD [OF assms(1)]] by blast
  have "dreader_Close self rd cl = Some (None, cl\<lparr>caches := (caches cl)(self := s')\<rparr>)"
    unfolding LocalReader ca dreader_Close.simps by (rule on_node_Some) (rule s'(1))
  then show ?thesis using cluster_ok_upd [OF assms(1) s'(2)] held_upd [OF s'(3)] by blast
next
  case (PipeReader ps err)
  then show ?thesis using assms(1) by simp
qed

lemma ReadAll_spec:
  assumes "cluster_ok cinv cl" and "dyields rd v" and free: "\<forall>n. 0 < free n"
  shows "\<exists>rd' cl'. ReadAll free self rd buf cl = Some ((Inr (buf @ v), rd'), cl') \<and> cluster_ok cinv cl' \<and> held blobs cl' = held blobs cl
    \<and> (\<exists>v'. dyields rd' v')"
  using assms(1,2)
proof (induction "length v" arbitrary: v rd cl buf rule: less_induct)
  case less
  obtain bs e rd' cl' v' where r: "dreader_Read self rd (free (length buf)) cl = Some ((bs, e, rd'), cl')" "cluster_ok cinv cl'"
      "held blobs cl' = held blobs cl" "v = bs @ v'" "dyields rd' v'" "e = None \<and> bs \<noteq> [] \<or> e = Some EOF \<and> v' = []"
    using dreader_Read_spec [OF less.prems free [rule_format], of self "length buf"] by (elim exE conjE) (rule that; assumption)
  from r(6) show ?case
  proof (elim disjE conjE)
    assume e: "e = None" "bs \<noteq> []"
    then have "length v' < length v" using r(4) by simp
    from less.hyps [OF this r(2,5), of "buf @ bs"] obtain rd'' cl'' where
      "ReadAll free self rd' (buf @ bs) cl' = Some ((Inr ((buf @ bs) @ v'), rd''), cl'')" "cluster_ok cinv cl''"
      "held blobs cl'' = held blobs cl'" "\<exists>v'. dyields rd'' v'" by blast
    then show ?thesis using r e by (subst ReadAll.simps) simp
  next
    assume "e = Some EOF" "v' = []"
    then show ?thesis using r by (subst ReadAll.simps) auto
  qed
qed

section \<open>Writers\<close>

text \<open>What opening a writer and writing to it do to the cluster: nothing that shows.\<close>

definition keeps :: "Digest option \<Rightarrow> 'c cluster \<Rightarrow> 'c cluster \<Rightarrow> bool" where
  "keeps d cl cl' \<longleftrightarrow> cluster_ok cinv cl' \<and> held blobs cl' = held blobs cl
     \<and> (\<forall>q v. fits (caches cl q) d v \<longrightarrow> fits (caches cl' q) d v)"

lemma keeps_refl: "cluster_ok cinv cl \<Longrightarrow> keeps d cl cl"
  by (simp add: keeps_def)

lemma keeps_trans: "keeps d cl cl' \<Longrightarrow> keeps d cl' cl'' \<Longrightarrow> keeps d cl cl''"
  by (simp add: keeps_def)

lemma keeps_ok: "keeps d cl cl' \<Longrightarrow> cluster_ok cinv cl'"
  by (simp add: keeps_def)

lemma keeps_upd:
  assumes "cluster_ok cinv cl" and "cinv s'" and "blobs s' = blobs (caches cl p)"
    and "\<And>v. fits (caches cl p) d v \<Longrightarrow> fits s' d v"
  shows "keeps d cl (cl\<lparr>caches := (caches cl)(p := s')\<rparr>)"
  using assms by (auto simp: keeps_def cluster_ok_def held_def fun_eq_iff)

definition stream_pend :: "('c, 'r, 'w) write_stream \<Rightarrow> string \<Rightarrow> Digest option \<Rightarrow> bytes \<Rightarrow> bool" where
  "stream_pend st p d buf \<longleftrightarrow> wsNode st = p \<and> wsResult st = None \<and> getCache net p (wsCtx st) (isolation c) = Inr cache
     \<and> (wsCloser st = None \<and> buf = [] \<or> (\<exists>w. wsCloser st = Some (cache, w) \<and> pend w d buf))"

fun dpend :: "('c, 'r, 'w) dwriter \<Rightarrow> string \<Rightarrow> Digest option \<Rightarrow> bytes \<Rightarrow> bool" where
  "dpend (LocalWriter ca w) p d buf \<longleftrightarrow> ca = cache \<and> p = ListenAddr (config c) \<and> pend w d buf"
| "dpend (StreamWriter st k i h) p d buf \<longleftrightarrow> k = digestToKey d \<and> i = isolation c \<and> stream_pend st p d buf"
| "dpend DevNull p d buf \<longleftrightarrow> True"

lemma open_stream:
  "stream_pend (proxy_Write_open net p ctx) p d []"
proof -
  obtain ctx' where "AttachUserPrefixToContext ctx (net_env net) = Inr ctx'" "getCache net p ctx' (isolation c) = Inr cache"
    using served_cache [of p] by (auto simp: attached_cache_def split: sum.splits)
  then show ?thesis by (simp add: stream_pend_def proxy_Write_open_def Let_def)
qed

lemma remoteWriter_spec:
  assumes "cluster_ok cinv cl" and "valid d"
  shows "\<exists>r cl'. remoteWriter net ctx c p h (isolation c) d cl = Some (r, cl') \<and> keeps d cl cl'
    \<and> (if available net c p then \<exists>w. r = Inr w \<and> dpend w p d [] \<and> (w = DevNull \<longrightarrow> held blobs cl p d \<noteq> None) else isl r)"
proof (cases "is_local c p")
  case True
  obtain w s' where w: "c_Writer cache d (caches cl p) = Some (Inr w, s')" "cinv s'" "pend w d []"
    using Writer_law [OF cluster_okD [OF assms(1)] assms(2)] by blast
  note k = Writer_keeps [OF cluster_okD [OF assms(1)] w(1)]
  have "on_node p (c_Writer cache d) cl = Some (Inr w, cl\<lparr>caches := (caches cl)(p := s')\<rparr>)"
    by (rule on_node_Some) (rule w(1))
  moreover have "keeps d cl (cl\<lparr>caches := (caches cl)(p := s')\<rparr>)"
    by (rule keeps_upd [OF assms(1) w(2)]) (use k in simp_all)
  ultimately show ?thesis
    using True w(3) by (simp add: remoteWriter_def local_is_cache available_def is_local_def)
next
  case False
  show ?thesis
  proof (cases "reachable net p")
    case True
    obtain cl' where fm: "on_node p (c_FindMissing cache [d]) cl = Some (Inr (if held blobs cl p d = None then [d] else []), cl')"
        "cluster_ok cinv cl'" "held blobs cl' = held blobs cl" "\<forall>q v. fits (caches cl q) d v \<longrightarrow> fits (caches cl' q) d v"
      using FindMissing_node [OF assms] by blast
    then have "keeps d cl cl'" by (simp add: keeps_def)
    then show ?thesis
      using False True served_cache digest_key [OF valid_digest [OF assms(2)]] fm keeps_refl [OF assms(1)] open_stream
      by (simp add: remoteWriter_def RemoteWriter_def RemoteContains_def RemoteFindMissing_def call_peer_def proxy_FindMissing_def
          available_def)
  next
    case unreachable: False
    then show ?thesis
      using False keeps_refl [OF assms(1)]
      by (simp add: remoteWriter_def RemoteWriter_def RemoteContains_def RemoteFindMissing_def call_peer_def available_def)
  qed
qed

text \<open>The first request of a stream opens the writer, on the peer.\<close>

lemma Write_first_spec:
  assumes "cluster_ok cinv cl" and "valid d" and "stream_pend st p d buf" and "wrIsolation req = isolation c" and "wrKey req = digestToKey d"
  shows "\<exists>st' w cl'. proxy_Write_first net req st cl = Some (Inr st', cl') \<and> keeps d cl cl' \<and> wsCloser st' = Some (cache, w)
    \<and> pend w d buf \<and> stream_pend st' p d buf"
proof (cases "wsCloser st")
  case None
  obtain w s' where w: "c_Writer cache d (caches cl p) = Some (Inr w, s')" "cinv s'" "pend w d []"
    using Writer_law [OF cluster_okD [OF assms(1)] assms(2)] by blast
  note k = Writer_keeps [OF cluster_okD [OF assms(1)] w(1)]
  have "on_node p (c_Writer cache d) cl = Some (Inr w, cl\<lparr>caches := (caches cl)(p := s')\<rparr>)"
    by (rule on_node_Some) (rule w(1))
  moreover have "keeps d cl (cl\<lparr>caches := (caches cl)(p := s')\<rparr>)"
    by (rule keeps_upd [OF assms(1) w(2)]) (use k in simp_all)
  ultimately show ?thesis
    using None assms(3-5) w(3) digest_key [OF valid_digest [OF assms(2)]] by (simp add: proxy_Write_first_def stream_pend_def)
next
  case (Some x)
  then show ?thesis
    using assms(3) keeps_refl [OF assms(1)] by (auto simp: proxy_Write_first_def stream_pend_def)
qed

lemma w_Write_node:
  assumes "cluster_ok cinv cl" and "pend w d buf"
  shows "\<exists>w' cl'. on_node p (w_Write cache w data) cl = Some ((length data, None, w'), cl') \<and> keeps d cl cl' \<and> pend w' d (buf @ data)"
proof -
  obtain w' s' where w: "w_Write cache w data (caches cl p) = Some ((length data, None, w'), s')" "cinv s'" "pend w' d (buf @ data)"
    using Write_law [OF cluster_okD [OF assms(1)] assms(2)] by blast
  note k = Write_keeps [OF cluster_okD [OF assms(1)] assms(2) w(1)]
  have "on_node p (w_Write cache w data) cl = Some ((length data, None, w'), cl\<lparr>caches := (caches cl)(p := s')\<rparr>)"
    by (rule on_node_Some) (rule w(1))
  moreover have "keeps d cl (cl\<lparr>caches := (caches cl)(p := s')\<rparr>)"
    by (rule keeps_upd [OF assms(1) w(2)]) (use k in simp_all)
  ultimately show ?thesis using w(3) by blast
qed

lemma w_Close_node:
  assumes "cluster_ok cinv cl" and "valid d" and "pend w d buf"
  shows "\<exists>cl'. on_node p (w_Close cache w) cl = Some (None, cl') \<and> cluster_ok cinv cl' \<and> (\<forall>q. q \<noteq> p \<longrightarrow> caches cl' q = caches cl q)
    \<and> (fits (caches cl p) d buf \<longrightarrow> held blobs cl' p d = Some buf)"
proof -
  obtain s' where s': "w_Close cache w (caches cl p) = Some (None, s')" "cinv s'"
    using WriterClose_law [OF cluster_okD [OF assms(1)] assms(2,3)] by blast
  note f = Close_fits [OF cluster_okD [OF assms(1)] assms(2,3) _ s'(1)]
  have "on_node p (w_Close cache w) cl = Some (None, cl\<lparr>caches := (caches cl)(p := s')\<rparr>)"
    by (rule on_node_Some) (rule s'(1))
  then show ?thesis using f cluster_ok_upd [OF assms(1) s'(2)] 
    by (intro exI [of _ "cl\<lparr>caches := (caches cl)(p := s')\<rparr>"]) (simp add: held_def)
qed

lemma dwriter_Write_spec:
  assumes "cluster_ok cinv cl" and "valid d" and "dpend w p d buf"
  shows "\<exists>w' cl'. dwriter_Write net (ListenAddr (config c)) w data cl = Some ((length data, None, w'), cl') \<and> keeps d cl cl'
    \<and> dpend w' p d (buf @ data) \<and> (w' = DevNull \<longleftrightarrow> w = DevNull)"
proof (cases w)
  case (LocalWriter ca wr)
  then have ca: "ca = cache" "p = ListenAddr (config c)" "pend wr d buf" using assms(3) by simp_all
  obtain w' cl' where "on_node p (w_Write cache wr data) cl = Some ((length data, None, w'), cl')" "keeps d cl cl'" "pend w' d (buf @ data)"
    using w_Write_node [OF assms(1) ca(3)] by blast
  then show ?thesis using LocalWriter ca by simp
next
  case (StreamWriter st k i h)
  then have s: "k = digestToKey d" "i = isolation c" "stream_pend st p d buf" using assms(3) by simp_all
  define req where "req = \<lparr>wrIsolation = isolation c, wrKey = digestToKey d, wrData = data, wrFinishWrite = False, wrHandoffPeer = h\<rparr>"
  obtain st1 w1 cl1 where f: "proxy_Write_first net req st cl = Some (Inr st1, cl1)" "keeps d cl cl1" "wsCloser st1 = Some (cache, w1)"
      "pend w1 d buf" "stream_pend st1 p d buf"
    using Write_first_spec [OF assms(1,2) s(3), of req] by (auto simp: req_def)
  obtain w2 cl2 where w2: "on_node p (w_Write cache w1 data) cl1 = Some ((length data, None, w2), cl2)" "keeps d cl1 cl2"
      "pend w2 d (buf @ data)"
    using w_Write_node [OF keeps_ok [OF f(2)] f(4)] by blast
  have "wsNode st1 = p" using f(5) by (simp add: stream_pend_def)
  then have "proxy_Write_recv net req st cl =
      Some (st1\<lparr>wsCloser := Some (cache, w2), wsBytesWritten := wsBytesWritten st1 + int (length data)\<rparr>, cl2)"
    using f w2 by (simp add: proxy_Write_recv_def Let_def) (simp add: req_def)
  moreover have "wsResult st = None" using s(3) by (simp add: stream_pend_def)
  moreover have "stream_pend (st1\<lparr>wsCloser := Some (cache, w2), wsBytesWritten := wsBytesWritten st1 + int (length data)\<rparr>) p d (buf @ data)"
    using f(5) w2(3) by (simp add: stream_pend_def)
  ultimately show ?thesis
    using StreamWriter s keeps_trans [OF f(2) w2(2)]
    by (simp add: streamWriteCloser_Write_def stream_Send_def req_def [symmetric])
next
  case DevNull
  then show ?thesis using keeps_refl [OF assms(1)] by simp
qed

lemma dwriter_Close_spec:
  assumes "cluster_ok cinv cl" and "valid d" and "dpend w p d buf"
  shows "\<exists>cl'. dwriter_Close net (ListenAddr (config c)) w cl = Some (None, cl') \<and> cluster_ok cinv cl'
    \<and> (\<forall>q. q \<noteq> p \<longrightarrow> held blobs cl' q = held blobs cl q \<and> (\<forall>v. fits (caches cl q) d v \<longrightarrow> fits (caches cl' q) d v))
    \<and> (w \<noteq> DevNull \<longrightarrow> fits (caches cl p) d buf \<longrightarrow> held blobs cl' p d = Some buf) \<and> (w = DevNull \<longrightarrow> cl' = cl)"
proof (cases w)
  case (LocalWriter ca wr)
  then have ca: "ca = cache" "p = ListenAddr (config c)" "pend wr d buf" using assms(3) by simp_all
  obtain cl' where "on_node p (w_Close cache wr) cl = Some (None, cl')" "cluster_ok cinv cl'" "\<forall>q. q \<noteq> p \<longrightarrow> caches cl' q = caches cl q"
      "fits (caches cl p) d buf \<longrightarrow> held blobs cl' p d = Some buf"
    using w_Close_node [OF assms(1,2) ca(3)] by blast
  then show ?thesis using LocalWriter ca by (auto simp: held_def)
next
  case (StreamWriter st k i h)
  then have s: "k = digestToKey d" "i = isolation c" "stream_pend st p d buf" using assms(3) by simp_all
  define req where "req = \<lparr>wrIsolation = isolation c, wrKey = digestToKey d, wrData = [], wrFinishWrite = True, wrHandoffPeer = h\<rparr>"
  obtain st1 w1 cl1 where f: "proxy_Write_first net req st cl = Some (Inr st1, cl1)" "keeps d cl cl1" "wsCloser st1 = Some (cache, w1)"
      "pend w1 d buf" "stream_pend st1 p d buf"
    using Write_first_spec [OF assms(1,2) s(3), of req] by (auto simp: req_def)
  obtain w2 cl2 where w2: "on_node p (w_Write cache w1 []) cl1 = Some ((length ([] :: bytes), None, w2), cl2)" "keeps d cl1 cl2"
      "pend w2 d (buf @ [])"
    using w_Write_node [OF keeps_ok [OF f(2)] f(4)] by blast
  have w2': "on_node p (w_Write cache w1 []) cl1 = Some ((0, None, w2), cl2)" "pend w2 d buf" using w2 by simp_all
  obtain cl3 where w3: "on_node p (w_Close cache w2) cl2 = Some (None, cl3)" "cluster_ok cinv cl3" "\<forall>q. q \<noteq> p \<longrightarrow> caches cl3 q = caches cl2 q"
      "fits (caches cl2 p) d buf \<longrightarrow> held blobs cl3 p d = Some buf"
    using w_Close_node [OF keeps_ok [OF w2(2)] assms(2) w2'(2)] by blast
  have k: "keeps d cl cl2" by (rule keeps_trans [OF f(2) w2(2)])
  have node: "wsNode st1 = p" using f(5) by (simp add: stream_pend_def)
  define cl4 where "cl4 = (if wsHandoffPeer st1 \<noteq> '''' then callHintedHandoffCB net p (wsCtx st1) (wsHandoffPeer st1) (wrIsolation req)
      (digestFromKey (wrKey req)) cl3 else cl3)"
  have c4: "caches cl4 = caches cl3" by (simp add: cl4_def callHintedHandoffCB_def callback_caches)
  have "\<exists>st4. proxy_Write_recv net req st cl = Some (st4, cl4) \<and> (\<exists>n. wsResult st4 = Some (Inr n))"
    using f w2' w3 node by (simp add: proxy_Write_recv_def Let_def cl4_def) (simp add: req_def)
  moreover have "wsResult st = None" using s(3) by (simp add: stream_pend_def)
  ultimately have "dwriter_Close net (ListenAddr (config c)) w cl = Some (None, cl4)"
    using StreamWriter s by (auto simp: streamWriteCloser_Close_def stream_Send_def req_def [symmetric])
  moreover have "cluster_ok cinv cl4" using w3(2) c4 by (simp add: cluster_ok_def)
  moreover have "held blobs cl4 q = held blobs cl q \<and> (\<forall>v. fits (caches cl q) d v \<longrightarrow> fits (caches cl4 q) d v)" if "q \<noteq> p" for q
    using k w3(3) c4 that by (simp add: keeps_def held_def fun_eq_iff)
  moreover have "held blobs cl4 p d = Some buf" if "fits (caches cl p) d buf"
    using k w3(4) c4 that by (simp add: keeps_def held_def)
  ultimately show ?thesis using StreamWriter by blast
next
  case DevNull
  then show ?thesis using assms(1) by simp
qed

section \<open>Copies end\<close>

lemma io_Copy_spec:
  assumes "cluster_ok cinv cl" and "valid d" and "dyields rd v" and "dpend w p d buf"
  shows "\<exists>w' rd' cl'. io_Copy net (ListenAddr (config c)) w rd cl = Some ((None, w', rd'), cl') \<and> cluster_ok cinv cl'
    \<and> dpend w' p d (buf @ v) \<and> (\<exists>v'. dyields rd' v')"
  using assms(1,3,4)
proof (induction "length v" arbitrary: v rd w buf cl rule: less_induct)
  case less
  let ?self = "ListenAddr (config c)"
  have pos: "0 < (32768 :: nat)" by simp
  obtain bs e rd' cl1 v' where r: "dreader_Read ?self rd 32768 cl = Some ((bs, e, rd'), cl1)" "cluster_ok cinv cl1"
      "held blobs cl1 = held blobs cl" "v = bs @ v'" "dyields rd' v'" "e = None \<and> bs \<noteq> [] \<or> e = Some EOF \<and> v' = []"
    using dreader_Read_spec [OF less.prems(1,2) pos, of ?self] by (elim exE conjE) (rule that; assumption)
  obtain w' cl2 where w: "(if bs = [] then Some ((0, None, w), cl1) else dwriter_Write net ?self w bs cl1) = Some ((length bs, None, w'), cl2)"
      "cluster_ok cinv cl2" "dpend w' p d (buf @ bs)"
  proof (cases "bs = []")
    case True
    then show ?thesis using that [of w cl1] r(2) less.prems(3) by simp
  next
    case False
    then show ?thesis
      using dwriter_Write_spec [OF r(2) assms(2) less.prems(3), of bs] that keeps_ok by auto
  qed
  from r(6) show ?case
  proof (elim disjE conjE)
    assume e: "e = None" "bs \<noteq> []"
    then have "length v' < length v" using r(4) by simp
    from less.hyps [OF this w(2) r(5) w(3)] obtain w'' rd'' cl'' where
      "io_Copy net ?self w' rd' cl2 = Some ((None, w'', rd''), cl'')" "cluster_ok cinv cl''" "dpend w'' p d ((buf @ bs) @ v')"
      "\<exists>v'. dyields rd'' v'" by blast
    then show ?thesis using r w e by (subst io_Copy.simps) simp
  next
    assume "e = Some EOF" "v' = []"
    then show ?thesis using r w by (subst io_Copy.simps) auto
  qed
qed

lemma copy_and_close_spec:
  assumes "cluster_ok cinv cl" and "valid d" and "dyields rd v" and "dpend w p d []"
  shows "\<exists>r cl'. copy_and_close net (ListenAddr (config c)) rd w cl = Some (r, cl') \<and> cluster_ok cinv cl'"
proof -
  let ?self = "ListenAddr (config c)"
  obtain w' rd' cl1 v' where c1: "io_Copy net ?self w rd cl = Some ((None, w', rd'), cl1)" "cluster_ok cinv cl1" "dpend w' p d v" "dyields rd' v'"
    using io_Copy_spec [OF assms] by auto
  obtain cl2 where c2: "dwriter_Close net ?self w' cl1 = Some (None, cl2)" "cluster_ok cinv cl2"
    using dwriter_Close_spec [OF c1(2) assms(2) c1(3)] by blast
  obtain r cl3 where "dreader_Close ?self rd' cl2 = Some (r, cl3)" "cluster_ok cinv cl3"
    using dreader_Close_spec [OF c2(2) c1(4)] by blast
  then show ?thesis using c1 c2 by (simp add: copy_and_close_def)
qed

lemma copyFile_ends:
  assumes "cluster_ok cinv cl" and "valid d"
  shows "\<exists>r cl'. copyFile net ctx c d source (isolation c) dest cl = Some (r, cl') \<and> cluster_ok cinv cl'"
proof -
  let ?self = "ListenAddr (config c)"
  obtain ex cl1 where c1: "remoteContains net ctx c dest (isolation c) d cl = Some (ex, cl1)" "cluster_ok cinv cl1"
    using remoteContains_spec [OF assms] by blast
  obtain rr cl2 where c2: "remoteReader net ctx c source (isolation c) d 0 cl1 = Some (rr, cl2)" "cluster_ok cinv cl2"
      "\<forall>rd. rr = Inr rd \<longrightarrow> (\<exists>v. dyields rd v)"
    using remoteReader_spec [OF c1(2) assms(2)] by blast
  obtain wr cl3 where c3: "remoteWriter net ctx c dest '''' (isolation c) d cl2 = Some (wr, cl3)" "keeps d cl2 cl3"
      "if available net c dest then \<exists>w. wr = Inr w \<and> dpend w dest d [] \<and> (w = DevNull \<longrightarrow> held blobs cl2 dest d \<noteq> None) else isl wr"
    using remoteWriter_spec [OF c2(2) assms(2)] by blast
  show ?thesis
  proof (cases "ex = Inr True")
    case True
    then show ?thesis using c1 by (simp add: copyFile_def)
  next
    case False
    show ?thesis
    proof (cases rr)
      case (Inl e)
      then show ?thesis using False c1 c2 by (simp add: copyFile_def)
    next
      case (Inr rd)
      then obtain v where v: "dyields rd v" using c2(3) by blast
      show ?thesis
      proof (cases wr)
        case wInl: (Inl e)
        obtain r cl4 where "dreader_Close ?self rd cl3 = Some (r, cl4)" "cluster_ok cinv cl4"
          using dreader_Close_spec [OF keeps_ok [OF c3(2)] v] by blast
        then show ?thesis using False Inr wInl c1 c2 c3 by (simp add: copyFile_def)
      next
        case wInr: (Inr w)
        then have "dpend w dest d []" using c3(3) by (auto split: if_splits)
        from copy_and_close_spec [OF keeps_ok [OF c3(2)] assms(2) v this]
        show ?thesis using False Inr wInr c1 c2 c3 by (simp add: copyFile_def)
      qed
    qed
  qed
qed

lemma backfill_all_ends:
  assumes "cluster_ok cinv cl" and "\<forall>bf\<in>set bfs. valid (bfDigest bf)"
  shows "\<exists>r cl'. backfill_all net ctx c bfs cl = Some (r, cl') \<and> cluster_ok cinv cl'"
  using assms
proof (induction bfs arbitrary: cl)
  case (Cons bf bfs)
  obtain r cl1 where "copyFile net ctx c (bfDigest bf) (bfSource bf) (isolation c) (bfDest bf) cl = Some (r, cl1)" "cluster_ok cinv cl1"
    using copyFile_ends Cons.prems by (meson list.set_intros(1))
  moreover obtain rs cl2 where "backfill_all net ctx c bfs cl1 = Some (rs, cl2)" "cluster_ok cinv cl2"
    using Cons.IH [OF calculation(2)] Cons.prems(2) by auto
  ultimately show ?case by simp
qed simp

lemma dedupe_subset: "set (dedupe_loop seen bfs) \<subseteq> set bfs"
  by (induction bfs arbitrary: seen) auto

lemma backfill_ends:
  assumes "cluster_ok cinv cl" and "valid d" and "0 < next_i ps"
  shows "\<exists>cl'. backfill net ctx c d ps cl = Some cl' \<and> cluster_ok cinv cl'"
proof -
  obtain s ts where b: "GetBackfillTargets ps = Some (s, ts)"
    using assms(3) by (cases "GetBackfillTargets ps") (auto simp: GetBackfillTargets_def Let_def split: if_splits)
  define bfs where "bfs = map (\<lambda>t. \<lparr>bfDigest = d, bfSource = s, bfDest = t\<rparr>) ts"
  have "\<forall>bf\<in>set (dedupeBackfills bfs). valid (bfDigest bf)"
    using dedupe_subset [of "{}" bfs] assms(2) by (auto simp: dedupeBackfills_def bfs_def)
  then obtain r cl' where "backfill_all net ctx c (dedupeBackfills bfs) cl = Some (r, cl')" "cluster_ok cinv cl'"
    using backfill_all_ends [OF assms(1)] by blast
  then show ?thesis
    using b assms(1) by (auto simp: backfill_def getBackfillOrders_def bfs_def [symmetric] backfillPeers_def)
qed

section \<open>Reading from the peers\<close>

text \<open>
  The first peer that has the blob ends the loop; if it ends without one, every available peer among the preferred
  ones that were left has answered that it lacks the blob.
\<close>

lemma GetNextPeer_cases:
  assumes "'''' \<notin> set (PreferredPeers ps)" and "'''' \<notin> set (FallbackPeers ps)" and "GetNextPeer ps = (peer, ps1)"
  shows "PreferredPeers ps1 = PreferredPeers ps" and "FallbackPeers ps1 = FallbackPeers ps"
    and "peer = '''' \<Longrightarrow> drop (next_i ps) (PreferredPeers ps) = []"
    and "peer \<noteq> '''' \<Longrightarrow> next_i ps1 = next_i ps + 1 \<and> peer \<in> set (PreferredPeers ps) \<union> set (FallbackPeers ps)
      \<and> set (drop (next_i ps) (PreferredPeers ps)) \<subseteq> insert peer (set (drop (next_i ps1) (PreferredPeers ps)))"
proof -
  show "PreferredPeers ps1 = PreferredPeers ps" "FallbackPeers ps1 = FallbackPeers ps"
    using assms(3) by (auto simp: GetNextPeer_def GetNextPeerAndHandoff_def Let_def split: if_splits)
  show "peer = '''' \<Longrightarrow> drop (next_i ps) (PreferredPeers ps) = []"
    using assms by (auto simp: GetNextPeer_def GetNextPeerAndHandoff_def Let_def in_set_conv_nth split: if_splits)
  show "peer \<noteq> '''' \<Longrightarrow> next_i ps1 = next_i ps + 1 \<and> peer \<in> set (PreferredPeers ps) \<union> set (FallbackPeers ps)
      \<and> set (drop (next_i ps) (PreferredPeers ps)) \<subseteq> insert peer (set (drop (next_i ps1) (PreferredPeers ps)))"
    using assms(3)
    by (auto simp: GetNextPeer_def GetNextPeerAndHandoff_def Let_def Cons_nth_drop_Suc [symmetric] split: if_splits)
qed

lemma reader_loop_spec:
  assumes "cluster_ok cinv cl" and "valid d" and "'''' \<notin> set (PreferredPeers ps)" and "'''' \<notin> set (FallbackPeers ps)"
    and sized: "\<forall>p. held blobs cl p d = Some [] \<longrightarrow> GetSizeBytes d = 0"
  shows "\<exists>res ps' cl'. reader_loop net ctx c d 0 ps cl = Some ((res, ps'), cl') \<and> cluster_ok cinv cl' \<and> held blobs cl' = held blobs cl
    \<and> (case res of
         Some rd \<Rightarrow> 0 < next_i ps' \<and> (\<exists>p v. p \<in> set (PreferredPeers ps) \<union> set (FallbackPeers ps) \<and> available net c p
             \<and> held blobs cl p d = Some v \<and> dyields rd v)
       | None \<Rightarrow> \<forall>p\<in>set (drop (next_i ps) (PreferredPeers ps)). available net c p \<longrightarrow> held blobs cl p d = None)"
  using assms
proof (induction "peers_left ps" arbitrary: ps cl rule: less_induct)
  case less
  obtain peer ps1 where g: "GetNextPeer ps = (peer, ps1)" by fastforce
  note gc = GetNextPeer_cases [OF less.prems(3,4) g]
  show ?case
  proof (cases "peer = ''''")
    case True
    then show ?thesis
      using g gc(3) less.prems(1) by (subst reader_loop.simps) simp
  next
    case False
    obtain r cl1 where r: "remoteReader net ctx c peer (isolation c) d 0 cl = Some (r, cl1)" "cluster_ok cinv cl1" "held blobs cl1 = held blobs cl"
      and res: "if available net c peer then
         (case held blobs cl peer d of
            Some v \<Rightarrow> v \<noteq> [] \<or> GetSizeBytes d = 0 \<longrightarrow> (\<exists>rd. r = Inr rd \<and> dyields rd v)
          | None \<Rightarrow> \<exists>e. r = Inl e \<and> err_code e = NotFound)
       else \<exists>e. r = Inl e \<and> err_code e \<noteq> NotFound"
      using remoteReader_spec [OF less.prems(1,2)] by blast
    have left: "peers_left ps1 < peers_left ps" using GetNextPeer_left [OF g False] .
    show ?thesis
    proof (cases r)
      case (Inr rd)
      then obtain v where v: "available net c peer" "held blobs cl peer d = Some v" "dyields rd v"
        using res less.prems(5) by (cases "available net c peer"; cases "held blobs cl peer d") auto
      then show ?thesis
        using Inr r g gc(4) False by (subst reader_loop.simps) auto
    next
      case (Inl e)
      then have none: "available net c peer \<Longrightarrow> held blobs cl peer d = None"
        using res less.prems(5) by (auto split: option.splits)
      define ps2 where "ps2 = (if IsNotFoundError (Some e) then ps1 else MarkPeerAsFailed peer ps1)"
      have ps2: "PreferredPeers ps2 = PreferredPeers ps" "FallbackPeers ps2 = FallbackPeers ps" "next_i ps2 = next_i ps1"
        "peers_left ps2 = peers_left ps1"
        using gc(1,2) by (simp_all add: ps2_def)
      have st: "reader_loop net ctx c d 0 ps cl = reader_loop net ctx c d 0 ps2 cl1"
        using Inl r g False by (subst reader_loop.simps) (simp add: ps2_def)
      obtain res' ps' cl' where "reader_loop net ctx c d 0 ps2 cl1 = Some ((res', ps'), cl')" "cluster_ok cinv cl'"
          "held blobs cl' = held blobs cl1"
        and fin: "case res' of
         Some rd \<Rightarrow> 0 < next_i ps' \<and> (\<exists>p v. p \<in> set (PreferredPeers ps2) \<union> set (FallbackPeers ps2) \<and> available net c p
             \<and> held blobs cl1 p d = Some v \<and> dyields rd v)
       | None \<Rightarrow> \<forall>p\<in>set (drop (next_i ps2) (PreferredPeers ps2)). available net c p \<longrightarrow> held blobs cl1 p d = None"
        using less.hyps [of ps2 cl1] left less.prems(2-5) ps2 r by auto
      moreover have "case res' of
         Some rd \<Rightarrow> 0 < next_i ps' \<and> (\<exists>p v. p \<in> set (PreferredPeers ps) \<union> set (FallbackPeers ps) \<and> available net c p
             \<and> held blobs cl p d = Some v \<and> dyields rd v)
       | None \<Rightarrow> \<forall>p\<in>set (drop (next_i ps) (PreferredPeers ps)). available net c p \<longrightarrow> held blobs cl p d = None"
        using fin none gc(4) False ps2 r(3) by (cases res') auto
      ultimately show ?thesis using st r(3) by auto
    qed
  qed
qed

end

end
