(* ===== verification/DistributedReplication.thy ===== *)
theory DistributedReplication
  imports DistributedContract
begin

text \<open>
  What reads and writes of the distributed cache promise, for caches that keep the contract: a read finds
  the blob if a preferred peer that can be reached holds it; a write that succeeds leaves it on
  as many peers as the replication factor.
\<close>

lemma split_peers_cluster:
  assumes "split_peers rf d st = Some ((pref, fb), st1)"
  shows "cluster_of st1 = cluster_of st" and "int (length pref) = rf"
  using assms by (auto simp: split_peers_def Let_def split: prod.splits if_splits)

context cluster_caches
begin

section \<open>Reads\<close>

lemma dc_Get_spec:
  assumes ok: "cluster_ok cinv (cluster_of st)" and d: "valid d"
    and sp: "split_peers (ReplicationFactor (config c)) d st = Some ((pref, fb), st1)"
    and names: "'''' \<notin> set pref" "'''' \<notin> set fb" and sh: "\<forall>xs. set (shuffle xs) = set xs" and free: "\<forall>n. 0 < free n"
    and sized: "\<forall>p. held blobs (cluster_of st) p d = Some [] \<longrightarrow> GetSizeBytes d = 0"
  shows "\<exists>r st'. dc_Get shuffle free net ctx c d st = Some (r, st') \<and> cluster_ok cinv (cluster_of st')
    \<and> (case r of
         Inr v \<Rightarrow> \<exists>p\<in>set pref \<union> set fb. available net c p \<and> held blobs (cluster_of st) p d = Some v
       | Inl e \<Rightarrow> err_code e = NotFound \<and> (\<forall>p\<in>set pref. available net c p \<longrightarrow> held blobs (cluster_of st) p d = None))"
proof -
  define ps where "ps = NewRead shuffle (ListenAddr (config c)) pref fb"
  have ps: "set (PreferredPeers ps) = set pref" "FallbackPeers ps = fb" "next_i ps = 0"
    using sh by (auto simp: ps_def NewRead_def New_def Let_def)
  have rp: "readPeers shuffle c d st = Some (ps, st1)" using sp by (simp add: readPeers_def ps_def)
  note cl = split_peers_cluster(1) [OF sp]
  obtain res ps' cl1 where rl: "reader_loop net ctx c d 0 ps (cluster_of st) = Some ((res, ps'), cl1)" "cluster_ok cinv cl1"
      "held blobs cl1 = held blobs (cluster_of st)"
    and res: "case res of
         Some rd \<Rightarrow> 0 < next_i ps' \<and> (\<exists>p v. p \<in> set (PreferredPeers ps) \<union> set (FallbackPeers ps) \<and> available net c p
             \<and> held blobs (cluster_of st) p d = Some v \<and> dyields rd v)
       | None \<Rightarrow> \<forall>p\<in>set (drop (next_i ps) (PreferredPeers ps)). available net c p \<longrightarrow> held blobs (cluster_of st) p d = None"
    using reader_loop_spec [OF ok d _ _ sized, of ps] names ps by auto
  show ?thesis
  proof (cases res)
    case None
    then show ?thesis
      using rl res ps rp cl by (simp add: dc_Get_def distributedReader_def NotFoundError_def makeStatusError_def)
  next
    case (Some rd)
    then obtain p v where pv: "p \<in> set pref \<union> set fb" "available net c p" "held blobs (cluster_of st) p d = Some v" "dyields rd v"
        "0 < next_i ps'" using res ps by auto
    obtain cl2 where b: "backfill net ctx c d ps' cl1 = Some cl2" "cluster_ok cinv cl2"
      using backfill_ends [OF rl(2) d pv(5)] by blast
    obtain rd' cl3 v' where ra: "ReadAll free (ListenAddr (config c)) rd [] cl2 = Some ((Inr v, rd'), cl3)" "cluster_ok cinv cl3" "dyields rd' v'"
      using ReadAll_spec [OF b(2) pv(4) free, of "ListenAddr (config c)" "[]"] by auto
    obtain x cl4 where "dreader_Close (ListenAddr (config c)) rd' cl3 = Some (x, cl4)" "cluster_ok cinv cl4"
      using dreader_Close_spec [OF ra(2,3)] by blast
    then show ?thesis
      using Some rl rp cl b ra pv by (auto simp: dc_Get_def distributedReader_def)
  qed
qed

section \<open>Writes\<close>

text \<open>The writers of a write: one per peer, each on its way to the peer or dropped because the peer has the blob.\<close>

definition writers_ok :: "Digest option \<Rightarrow> bytes \<Rightarrow> 'c cluster \<Rightarrow> (string \<times> ('c, 'r, 'w) dwriter) list \<Rightarrow> bool" where
  "writers_ok d buf cl ws \<longleftrightarrow> distinct (map fst ws)
     \<and> (\<forall>(p, w)\<in>set ws. available net c p \<and> dpend w p d buf \<and> (w = DevNull \<longrightarrow> held blobs cl p d \<noteq> None))"

lemma writers_ok_keeps: "writers_ok d buf cl ws \<Longrightarrow> held blobs cl' = held blobs cl \<Longrightarrow> writers_ok d buf cl' ws"
  by (simp add: writers_ok_def)

lemma writers_ok_cong:
  assumes "writers_ok d buf cl ws" and "\<And>p. p \<in> fst ` set ws \<Longrightarrow> held blobs cl' p = held blobs cl p"
  shows "writers_ok d buf cl' ws"
proof -
  have "held blobs cl' p = held blobs cl p" if "(p, w) \<in> set ws" for p w
    using assms(2) [of p] that by (metis fst_conv imageI)
  then show ?thesis using assms(1) unfolding writers_ok_def by (metis (no_types, lifting) case_prodI2 case_prodD)
qed

lemma writers_ok_update:
  assumes "writers_ok d buf cl ws" and "available net c p" and "dpend w p d buf" and "w = DevNull \<longrightarrow> held blobs cl p d \<noteq> None"
  shows "writers_ok d buf cl (AList.update p w ws)"
proof -
  have "q = p \<and> w' = w \<or> (q, w') \<in> set ws" if "(q, w') \<in> set (AList.update p w ws)" for q w'
    using that by (induction ws) (auto split: if_splits)
  then show ?thesis
    using assms by (fastforce simp: writers_ok_def distinct_update)
qed

lemma open_writers_spec:
  assumes "cluster_ok cinv cl" and "valid d" and "'''' \<notin> set (PreferredPeers ps)" and "'''' \<notin> set (FallbackPeers ps)"
    and "writers_ok d [] cl ws"
  shows "\<exists>ws' cl'. open_writers net ctx c d ps ws cl = Some (ws', cl') \<and> keeps d cl cl' \<and> writers_ok d [] cl' ws'
    \<and> fst ` set ws \<subseteq> fst ` set ws' \<and> fst ` set ws' \<subseteq> fst ` set ws \<union> set (PreferredPeers ps) \<union> set (FallbackPeers ps)
    \<and> (\<forall>p\<in>set (drop (next_i ps) (PreferredPeers ps)). available net c p \<longrightarrow> p \<in> fst ` set ws')"
  using assms
proof (induction "peers_left ps" arbitrary: ps ws cl rule: less_induct)
  case less
  obtain peer h ps1 where g: "GetNextPeerAndHandoff ps = ((peer, h), ps1)" by (metis surj_pair)
  then have gn: "GetNextPeer ps = (peer, ps1)" by (simp add: GetNextPeer_def)
  note gc = GetNextPeer_cases [OF less.prems(3,4) gn]
  show ?case
  proof (cases "peer = ''''")
    case True
    then show ?thesis
      using g gc(3) less.prems(5) keeps_refl [OF less.prems(1)] by (subst open_writers.simps) auto
  next
    case False
    have left: "peers_left ps1 < peers_left ps" using GetNextPeer_left [OF gn False] .
    obtain r cl1 where r: "remoteWriter net ctx c peer h (isolation c) d cl = Some (r, cl1)" "keeps d cl cl1"
      and res: "if available net c peer then \<exists>w. r = Inr w \<and> dpend w peer d [] \<and> (w = DevNull \<longrightarrow> held blobs cl peer d \<noteq> None) else isl r"
      using remoteWriter_spec [OF less.prems(1,2)] by blast
    have h1: "held blobs cl1 = held blobs cl" using r(2) by (simp add: keeps_def)
    define ps2 where "ps2 = (if isl r then MarkPeerAsFailed peer ps1 else ps1)"
    define ws2 where "ws2 = (case r of Inl e \<Rightarrow> ws | Inr w \<Rightarrow> AList.update peer w ws)"
    have ps2: "PreferredPeers ps2 = PreferredPeers ps" "FallbackPeers ps2 = FallbackPeers ps" "next_i ps2 = next_i ps + 1"
        "peers_left ps2 < peers_left ps"
      using gc(1,2,4) False left by (simp_all add: ps2_def)
    have ok2: "writers_ok d [] cl1 ws2"
    proof (cases r)
      case (Inr w)
      then have w: "available net c peer" "dpend w peer d []" "w = DevNull \<longrightarrow> held blobs cl1 peer d \<noteq> None"
        using res h1 by (auto split: if_splits)
      show ?thesis
        using writers_ok_update [OF writers_ok_keeps [OF less.prems(5) h1] w] Inr by (simp add: ws2_def)
    qed (use writers_ok_keeps [OF less.prems(5) h1] in \<open>simp add: ws2_def\<close>)
    have dom: "fst ` set ws \<subseteq> fst ` set ws2" "fst ` set ws2 \<subseteq> insert peer (fst ` set ws)" "available net c peer \<Longrightarrow> peer \<in> fst ` set ws2"
      using res by (auto simp: ws2_def dom_update split: sum.splits if_splits)
    have st: "open_writers net ctx c d ps ws cl = open_writers net ctx c d ps2 ws2 cl1"
      using g r(1) False by (subst open_writers.simps) (simp add: ps2_def ws2_def split: sum.split)
    have names2: "'''' \<notin> set (PreferredPeers ps2)" "'''' \<notin> set (FallbackPeers ps2)" using less.prems(3,4) ps2(1,2) by simp_all
    obtain ws' cl' where ow: "open_writers net ctx c d ps2 ws2 cl1 = Some (ws', cl')" "keeps d cl1 cl'" "writers_ok d [] cl' ws'"
        "fst ` set ws2 \<subseteq> fst ` set ws'" "fst ` set ws' \<subseteq> fst ` set ws2 \<union> set (PreferredPeers ps2) \<union> set (FallbackPeers ps2)"
        "\<forall>p\<in>set (drop (next_i ps2) (PreferredPeers ps2)). available net c p \<longrightarrow> p \<in> fst ` set ws'"
      using less.hyps [OF ps2(4) keeps_ok [OF r(2)] less.prems(2) names2 ok2] by (elim exE conjE) (rule that; assumption)
    have "fst ` set ws \<subseteq> fst ` set ws'" using dom(1) ow(4) by blast
    moreover have "fst ` set ws' \<subseteq> fst ` set ws \<union> set (PreferredPeers ps) \<union> set (FallbackPeers ps)"
    proof -
      have "peer \<in> set (PreferredPeers ps) \<union> set (FallbackPeers ps)" using gc(4) [OF False] by (elim conjE)
      then have "fst ` set ws2 \<subseteq> fst ` set ws \<union> set (PreferredPeers ps) \<union> set (FallbackPeers ps)" using dom(2) by blast
      then show ?thesis using ow(5) unfolding ps2(1,2) by blast
    qed
    moreover have "\<forall>p\<in>set (drop (next_i ps) (PreferredPeers ps)). available net c p \<longrightarrow> p \<in> fst ` set ws'"
    proof (intro ballI impI)
      fix p assume p: "p \<in> set (drop (next_i ps) (PreferredPeers ps))" and a: "available net c p"
      then have "p = peer \<or> p \<in> set (drop (next_i ps2) (PreferredPeers ps2))"
        using gc(4) [OF False] ps2(1,3) by auto
      then show "p \<in> fst ` set ws'" using ow(4,6) dom(3) a by blast
    qed
    ultimately show ?thesis
      using st ow(1,3) keeps_trans [OF r(2) ow(2)] by (intro exI [of _ ws'] exI [of _ cl'] conjI) simp_all
  qed
qed

lemma mw_Write_spec:
  assumes "cluster_ok cinv cl" and "valid d" and "writers_ok d buf cl ws"
  shows "\<exists>ws' cl'. mw_Write net (ListenAddr (config c)) ws data cl = Some ((None, ws'), cl') \<and> keeps d cl cl'
    \<and> writers_ok d (buf @ data) cl' ws' \<and> map fst ws' = map fst ws"
  using assms
proof (induction ws arbitrary: cl)
  case (Cons x ws)
  obtain p w where x: "x = (p, w)" by fastforce
  have w: "available net c p" "dpend w p d buf" "w = DevNull \<longrightarrow> held blobs cl p d \<noteq> None" "writers_ok d buf cl ws" "p \<notin> fst ` set ws"
    using Cons.prems(3) x by (auto simp: writers_ok_def)
  obtain w' cl1 where w': "dwriter_Write net (ListenAddr (config c)) w data cl = Some ((length data, None, w'), cl1)" "keeps d cl cl1"
      "dpend w' p d (buf @ data)" "w' = DevNull \<longleftrightarrow> w = DevNull"
    using dwriter_Write_spec [OF Cons.prems(1,2) w(2)] by blast
  have h1: "held blobs cl1 = held blobs cl" using w'(2) by (simp add: keeps_def)
  obtain ws' cl2 where ws': "mw_Write net (ListenAddr (config c)) ws data cl1 = Some ((None, ws'), cl2)" "keeps d cl1 cl2"
      "writers_ok d (buf @ data) cl2 ws'" "map fst ws' = map fst ws"
    using Cons.IH [OF keeps_ok [OF w'(2)] Cons.prems(2) writers_ok_keeps [OF w(4) h1]] by blast
  have "held blobs cl2 = held blobs cl" using ws'(2) h1 by (simp add: keeps_def)
  then have "writers_ok d (buf @ data) cl2 ((p, w') # ws')"
    using ws'(3,4) w w'(3,4) by (auto simp: writers_ok_def)
  then show ?case
    using x w' ws' keeps_trans [OF w'(2) ws'(2)] by (simp add: Let_def)
qed (simp add: keeps_refl writers_ok_def)

lemma mw_Close_spec:
  assumes "cluster_ok cinv cl" and "valid d" and "writers_ok d buf cl ws" and "\<forall>p\<in>fst ` set ws. fits (caches cl p) d buf"
  shows "\<exists>cl'. mw_Close net (ListenAddr (config c)) ws cl = Some (None, cl') \<and> cluster_ok cinv cl'
    \<and> (\<forall>q. q \<notin> fst ` set ws \<longrightarrow> held blobs cl' q = held blobs cl q)
    \<and> (\<forall>(p, w)\<in>set ws. if w = DevNull then held blobs cl' p d = held blobs cl p d else held blobs cl' p d = Some buf)"
  using assms
proof (induction ws arbitrary: cl)
  case (Cons x ws)
  obtain p w where x: "x = (p, w)" by fastforce
  have w: "dpend w p d buf" "writers_ok d buf cl ws" "p \<notin> fst ` set ws"
    using Cons.prems(3) x by (auto simp: writers_ok_def)
  obtain cl1 where c1: "dwriter_Close net (ListenAddr (config c)) w cl = Some (None, cl1)" "cluster_ok cinv cl1"
      "\<forall>q. q \<noteq> p \<longrightarrow> held blobs cl1 q = held blobs cl q \<and> (\<forall>v. fits (caches cl q) d v \<longrightarrow> fits (caches cl1 q) d v)"
      "w \<noteq> DevNull \<longrightarrow> fits (caches cl p) d buf \<longrightarrow> held blobs cl1 p d = Some buf" "w = DevNull \<longrightarrow> cl1 = cl"
    using dwriter_Close_spec [OF Cons.prems(1,2) w(1)] by (elim exE conjE) (rule that; assumption)
  have ne: "q \<noteq> p" if "q \<in> fst ` set ws" for q using that w(3) by blast
  have wk: "writers_ok d buf cl1 ws" by (rule writers_ok_cong [OF w(2)]) (use c1(3) ne in blast)
  have ft: "\<forall>p\<in>fst ` set ws. fits (caches cl1 p) d buf" using Cons.prems(4) c1(3) ne x by auto
  obtain cl2 where c2: "mw_Close net (ListenAddr (config c)) ws cl1 = Some (None, cl2)" "cluster_ok cinv cl2"
      "\<forall>q. q \<notin> fst ` set ws \<longrightarrow> held blobs cl2 q = held blobs cl1 q"
      "\<forall>(p, w)\<in>set ws. if w = DevNull then held blobs cl2 p d = held blobs cl1 p d else held blobs cl2 p d = Some buf"
    using Cons.IH [OF c1(2) Cons.prems(2) wk ft] by (elim exE conjE) (rule that; assumption)
  have p2: "held blobs cl2 p = held blobs cl1 p" using c2(3) w(3) by blast
  have "if w = DevNull then held blobs cl2 p d = held blobs cl p d else held blobs cl2 p d = Some buf"
    using p2 c1(4,5) Cons.prems(4) x by simp
  moreover have "\<forall>(q, w)\<in>set ws. if w = DevNull then held blobs cl2 q d = held blobs cl q d else held blobs cl2 q d = Some buf"
  proof
    fix y assume y: "y \<in> set ws"
    then have "held blobs cl1 (fst y) = held blobs cl (fst y)" using c1(3) ne by blast
    with y c2(4) show "case y of (q, w) \<Rightarrow> if w = DevNull then held blobs cl2 q d = held blobs cl q d else held blobs cl2 q d = Some buf"
      by fastforce
  qed
  moreover have "\<forall>q. q \<notin> fst ` set (x # ws) \<longrightarrow> held blobs cl2 q = held blobs cl q" using c2(3) c1(3) x by simp
  moreover have "mw_Close net (ListenAddr (config c)) (x # ws) cl = Some (None, cl2)" using x c1(1) c2(1) by simp
  ultimately show ?case using c2(2) x by (intro exI conjI; simp)
qed simp

lemma dc_Set_spec:
  assumes ok: "cluster_ok cinv (cluster_of st)" and d: "valid d"
    and sp: "split_peers (ReplicationFactor (config c)) d st = Some ((pref, fb), st1)"
    and names: "'''' \<notin> set pref" "'''' \<notin> set fb"
    and fit: "\<forall>p\<in>set pref \<union> set fb. available net c p \<longrightarrow> fits (caches (cluster_of st) p) d data"
  shows "\<exists>r st'. dc_Set net ctx c d data st = Some (r, st') \<and> cluster_ok cinv (cluster_of st') \<and> consistentHash st' = consistentHash st1
    \<and> (\<forall>q. held blobs (cluster_of st') q d \<in> {held blobs (cluster_of st) q d, Some data})
    \<and> (\<exists>ws \<subseteq> set pref \<union> set fb. {p \<in> set pref. available net c p} \<subseteq> ws \<and> (\<forall>p\<in>ws. available net c p)
       \<and> (if int (card ws) < ReplicationFactor (config c)
          then r = Some (UnavailableError ''Not enough peers (%d) available to satisfy replication factor (%d).'')
            \<and> held blobs (cluster_of st') = held blobs (cluster_of st)
          else r = None \<and> (\<forall>p\<in>ws. held blobs (cluster_of st') p d
              \<in> {Some data} \<union> ({held blobs (cluster_of st) p d} - {None}))))"
proof -
  note cl = split_peers_cluster(1) [OF sp]
  have dp: "dc_peers c d st = Some (New pref fb, st1)" using sp by (simp add: dc_peers_def)
  obtain ws cl1 where ow: "open_writers net ctx c d (New pref fb) [] (cluster_of st) = Some (ws, cl1)" "keeps d (cluster_of st) cl1"
      "writers_ok d [] cl1 ws" "fst ` set ws \<subseteq> set pref \<union> set fb" "\<forall>p\<in>set pref. available net c p \<longrightarrow> p \<in> fst ` set ws"
    using open_writers_spec [OF ok d, of "New pref fb" "[]"] names by (auto simp: New_def writers_ok_def)
  define P where "P = fst ` set ws"
  have P: "P \<subseteq> set pref \<union> set fb" "{p \<in> set pref. available net c p} \<subseteq> P" "\<forall>p\<in>P. available net c p" "card P = length ws"
    using ow(3-5) distinct_card [of "map fst ws"] by (auto simp: P_def writers_ok_def)
  have h1: "held blobs cl1 = held blobs (cluster_of st)" using ow(2) by (simp add: keeps_def)
  have result: ?thesis if "dc_Set net ctx c d data st = Some (r, st')" and "cluster_ok cinv (cluster_of st')"
      and "consistentHash st' = consistentHash st1" and "\<forall>q. held blobs (cluster_of st') q d \<in> {held blobs (cluster_of st) q d, Some data}"
      and "if int (card P) < ReplicationFactor (config c)
          then r = Some (UnavailableError ''Not enough peers (%d) available to satisfy replication factor (%d).'')
            \<and> held blobs (cluster_of st') = held blobs (cluster_of st)
          else r = None \<and> (\<forall>p\<in>P. held blobs (cluster_of st') p d
              \<in> {Some data} \<union> ({held blobs (cluster_of st) p d} - {None}))" for r st'
    by (intro exI [of _ r] exI [of _ st'] exI [of _ P] conjI) (use that P in simp_all)
  show ?thesis
  proof (cases "int (length ws) < ReplicationFactor (config c)")
    case True
    have "dc_Set net ctx c d data st =
        Some (Some (UnavailableError ''Not enough peers (%d) available to satisfy replication factor (%d).''), st1\<lparr>cluster_of := cl1\<rparr>)"
      using True dp ow(1) cl by (simp add: dc_Set_def multiWriter_def)
    then show ?thesis
      by (rule result) (use True P h1 keeps_ok [OF ow(2)] in auto)
  next
    case False
    obtain ws' cl2 where w: "mw_Write net (ListenAddr (config c)) ws data cl1 = Some ((None, ws'), cl2)" "keeps d cl1 cl2"
        "writers_ok d data cl2 ws'" "map fst ws' = map fst ws"
      using mw_Write_spec [OF keeps_ok [OF ow(2)] d ow(3), of data] by auto
    have P': "fst ` set ws' = P" using w(4) by (metis P_def list.set_map)
    have "\<forall>p\<in>fst ` set ws'. fits (caches cl2 p) d data"
      using fit P(1,3) P' keeps_trans [OF ow(2) w(2)] unfolding keeps_def by blast
    then obtain cl3 where c3: "mw_Close net (ListenAddr (config c)) ws' cl2 = Some (None, cl3)" "cluster_ok cinv cl3"
        "\<forall>(p, w)\<in>set ws'. if w = DevNull then held blobs cl3 p d = held blobs cl2 p d else held blobs cl3 p d = Some data"
        "\<forall>q. q \<notin> fst ` set ws' \<longrightarrow> held blobs cl3 q = held blobs cl2 q"
      using mw_Close_spec [OF keeps_ok [OF w(2)] d w(3)] by blast
    have h2: "held blobs cl2 = held blobs (cluster_of st)" using w(2) h1 by (simp add: keeps_def)
    have on: "held blobs cl3 p d \<in> {Some data} \<union> ({held blobs (cluster_of st) p d} - {None})" if p: "p \<in> P" for p
    proof -
      obtain wr where wr: "(p, wr) \<in> set ws'" using p P' by force
      then have "if wr = DevNull then held blobs cl3 p d = held blobs cl2 p d \<and> held blobs cl2 p d \<noteq> None
          else held blobs cl3 p d = Some data"
        using c3(3) w(3) by (fastforce simp: writers_ok_def)
      then show ?thesis using h2 by (auto split: if_splits)
    qed
    have off: "held blobs cl3 q d \<in> {held blobs (cluster_of st) q d, Some data}" for q
      by (cases "q \<in> P") (use on [of q] c3(4) h2 P' in auto)
    have "dc_Set net ctx c d data st = Some (None, st1\<lparr>cluster_of := cl3\<rparr>)"
      using False dp ow(1) cl w(1) c3(1) by (simp add: dc_Set_def multiWriter_def)
    then show ?thesis
      by (rule result) (use False P c3(2) on off in auto)
  qed
qed

end

end
