(* ===== verification/DistributedMemory.thy ===== *)
theory DistributedMemory
  imports DistributedReplication
begin

text \<open>
  The distributed cache over memory caches: a cluster whose nodes all serve a memory cache keeps the contract
  \<open>cluster_caches\<close>, so the promises on reads and writes hold for it.
\<close>

section \<open>A cluster of memory caches\<close>

text \<open>The network of such a cluster; \<open>up\<close> says which nodes can be reached.\<close>

definition memory_net :: "hashes \<Rightarrow> MemoryCache \<Rightarrow> env \<Rightarrow> (string \<Rightarrow> bool) \<Rightarrow> int \<Rightarrow> (store, bytes, setOnClose) network" where
  "memory_net hs m env up now =
     \<lparr>net_env = env, reachable = up,
      served = (\<lambda>node ctx ct inst. Inr (memory_cache hs (WithIsolation m ct inst) ctx)),
      heartbeatCallback = recvHeartbeatCallback now, hintedHandoffCallback = recvHintedHandoffCallback\<rparr>"

text \<open>What one node holds for a digest.\<close>

definition holds :: "hashes \<Rightarrow> MemoryCache \<Rightarrow> request_ctx \<Rightarrow> store dstate \<Rightarrow> string \<Rightarrow> Digest option \<Rightarrow> bytes option" where
  "holds hs m ctx st p d = blob hs m ctx (caches (cluster_of st) p) d"

text \<open>The ring of a node: sound, with enough peers, none of them with an empty name.\<close>

definition ring_ok :: "('c, 'r, 'w) dcache \<Rightarrow> ConsistentHash \<Rightarrow> bool" where
  "ring_ok c ch \<longleftrightarrow> ch_inv ch \<and> keys ch \<noteq> [] \<and> [] \<notin> ring_items ch
     \<and> 0 \<le> ReplicationFactor (config c) \<and> ReplicationFactor (config c) \<le> int (card (ring_items ch))"

definition memory_cluster_ok :: "('c, 'r, 'w) dcache \<Rightarrow> store dstate \<Rightarrow> bool" where
  "memory_cluster_ok c st \<longleftrightarrow> ring_ok c (consistentHash st) \<and> (\<forall>p. store_ok (caches (cluster_of st) p))"

text \<open>The peers of a digest: the preferred ones first.\<close>

definition peers_of :: "('c, 'r, 'w) dcache \<Rightarrow> Digest option \<Rightarrow> 'x dstate \<Rightarrow> string list \<times> string list" where
  "peers_of c d st =
     (let all = map bytes_str (fst (GetAllReplicas (str_bytes (GetHash d)) (consistentHash st)));
          rf = nat (ReplicationFactor (config c)) in (take rf all, drop rf all))"

definition peer_set :: "('c, 'r, 'w) dcache \<Rightarrow> Digest option \<Rightarrow> 'x dstate \<Rightarrow> string set" where
  "peer_set c d st = set (fst (peers_of c d st)) \<union> set (snd (peers_of c d st))"

lemma GetAllReplicas_again:
  assumes "GetAllReplicas k0 ch = (rs, ch')"
  shows "GetAllReplicas k0 ch' = (rs, ch')"
proof (cases "keys ch = [] \<or> ch' = ch")
  case True
  then show ?thesis using assms by (auto simp: GetAllReplicas_def)
next
  case False
  let ?i = "first_index ch k0"
  obtain k where k: "replicaSets ch (ChecksumIEEE (walk ch ?i)) = None" "ch' = ch\<lparr>replicaSets := (replicaSets ch)(ChecksumIEEE (walk ch ?i) \<mapsto> rs)\<rparr>"
    using False assms by (auto simp: GetAllReplicas_def Let_def walk_def split: option.splits)
  have f: "keys ch' = keys ch" "ring ch' = ring ch" using k(2) by simp_all
  then have "first_index ch' k0 = ?i" "lookupReplicas ch' ?i = lookupReplicas ch ?i" by (simp_all add: first_index_def lookupReplicas_def)
  then show ?thesis using False k f by (simp add: GetAllReplicas_def Let_def walk_def)
qed

lemma split_peers_ok:
  assumes "ring_ok c (consistentHash st)"
  obtains st1 where "split_peers (ReplicationFactor (config c)) d st = Some (peers_of c d st, st1)"
    "cluster_of st1 = cluster_of st" "ring_ok c (consistentHash st1)" "\<And>x. consistentHash x = consistentHash st1 \<Longrightarrow> peers_of c d x = peers_of c d st"
    "'''' \<notin> set (fst (peers_of c d st))" "'''' \<notin> set (snd (peers_of c d st))"
    "length (fst (peers_of c d st)) = nat (ReplicationFactor (config c))"
proof -
  let ?key = "str_bytes (GetHash d)"
  let ?g = "GetAllReplicas ?key (consistentHash st)"
  have inv: "ch_inv (consistentHash st)" "keys (consistentHash st) \<noteq> []" "[] \<notin> ring_items (consistentHash st)"
    and rf: "0 \<le> ReplicationFactor (config c)" "ReplicationFactor (config c) \<le> int (card (ring_items (consistentHash st)))"
    using assms by (simp_all add: ring_ok_def)
  note sp = GetAllReplicas_replicas [OF inv(1,2), of ?key]
  obtain idx where same: "snd ?g = (consistentHash st)\<lparr>replicaSets := replicaSets (snd ?g)\<rparr>"
    using GetAllReplicas_cases [OF inv(1,2)] by metis
  have len: "length (fst ?g) = card (ring_items (consistentHash st))" using sp distinct_card by fastforce
  define st1 where "st1 = st\<lparr>consistentHash := snd ?g\<rparr>"
  have k: "keys (snd ?g) = keys (consistentHash st)" "ring (snd ?g) = ring (consistentHash st)" "items (snd ?g) = items (consistentHash st)"
    by (subst same, simp)+
  then have "ring_items (snd ?g) = ring_items (consistentHash st)" by (simp add: ring_items_def item_at_def)
  then have "ring_ok c (consistentHash st1)" using assms sp k by (simp add: ring_ok_def st1_def)
  moreover have "split_peers (ReplicationFactor (config c)) d st = Some (peers_of c d st, st1)"
    using rf len by (simp add: split_peers_def peers_of_def Let_def st1_def split_beta)
  moreover have "peers_of c d x = peers_of c d st" if "consistentHash x = consistentHash st1" for x
    using GetAllReplicas_again [of ?key "consistentHash st" "fst ?g" "snd ?g"] that by (simp add: peers_of_def st1_def)
  moreover have "'''' \<notin> bytes_str ` set (fst ?g)" using sp inv(3) by (auto simp: bytes_str_def)
  then have "'''' \<notin> set (fst (peers_of c d st))" "'''' \<notin> set (snd (peers_of c d st))"
    by (auto simp: peers_of_def Let_def dest!: in_set_takeD in_set_dropD)
  moreover have "length (fst (peers_of c d st)) = nat (ReplicationFactor (config c))"
    using rf len by (simp add: peers_of_def Let_def)
  moreover have "cluster_of st1 = cluster_of st" by (simp add: st1_def)
  ultimately show thesis by (intro that [of st1])
qed

section \<open>The contract holds\<close>

text \<open>A handle of the distributed cache as \<open>WithIsolation\<close> makes it, in a request whose prefix is attached already.\<close>

definition memory_node :: "hashes \<Rightarrow> MemoryCache \<Rightarrow> env \<Rightarrow> request_ctx \<Rightarrow> CacheType \<Rightarrow> string
    \<Rightarrow> (store, bytes, setOnClose) dcache \<Rightarrow> bool" where
  "memory_node hs m e ctx ct inst c \<longleftrightarrow> AttachUserPrefixToContext ctx e = Inr ctx
     \<and> (\<exists>c0. dc_WithIsolation c0 (Inr (memory_cache hs (WithIsolation m ct inst) ctx)) ct inst = Inr c)"

lemma memory_cluster_caches:
  assumes "memory_node hs m e ctx ct inst c"
  shows "cluster_caches (memory_cache hs (WithIsolation m ct inst) ctx) store_ok (blob hs (WithIsolation m ct inst) ctx) writer_for
    (named (WithIsolation m ct inst) ctx) (key_hash_eq hs (WithIsolation m ct inst) ctx) (=) (memory_fits hs (WithIsolation m ct inst) ctx)
    (memory_net hs m e up now) ctx c"
proof unfold_locales
  obtain c0 where at: "AttachUserPrefixToContext ctx e = Inr ctx"
    and wi: "dc_WithIsolation c0 (Inr (memory_cache hs (WithIsolation m ct inst) ctx)) ct inst = Inr c"
    using assms by (auto simp: memory_node_def)
  from wi show "attached_cache (memory_net hs m e up now) node ctx (isolation c) = Inr (memory_cache hs (WithIsolation m ct inst) ctx)" for node
    by (auto simp: attached_cache_def getCache_def memory_net_def at dc_WithIsolation_def toProtoCacheType_def
        ProtoCacheTypeToCacheType_def split: CacheType.splits)
  from wi show "local_cache c = memory_cache hs (WithIsolation m ct inst) ctx"
    by (auto simp: dc_WithIsolation_def split: sum.splits)
  show "named (WithIsolation m ct inst) ctx d \<Longrightarrow> d \<noteq> None" for d
    by (cases d) (simp_all add: named_def MemoryCache_key_def Validate_def)
  show "caches (hintedHandoffCallback (memory_net hs m e up now) n x p i d cl) = caches cl" for n x p i d cl
    by (simp add: memory_net_def recvHintedHandoffCallback_def Let_def)
qed

text \<open>With anonymous users enabled and no authenticator, every handle on the CAS is one.\<close>

definition anonymous_env :: env where
  "anonymous_env = \<lparr>has_authenticator = False, anonymous_enabled = True\<rparr>"

definition anonymous_ctx :: request_ctx where
  "anonymous_ctx = \<lparr>auth_group = None, user_prefix = Some (addPrefix AuthAnonymousUser '''')\<rparr>"

definition anonymous_node :: "hashes \<Rightarrow> MemoryCache \<Rightarrow> CacheConfig \<Rightarrow> string \<Rightarrow> (store, bytes, setOnClose) dcache" where
  "anonymous_node hs m cfg inst =
     projr (dc_WithIsolation (fst (NewDistributedCache (memory_cache hs m anonymous_ctx) cfg))
       (Inr (memory_cache hs (WithIsolation m CASCacheType inst) anonymous_ctx)) CASCacheType inst)"

interpretation dm: cluster_caches "memory_cache hs (WithIsolation m CASCacheType inst) anonymous_ctx" store_ok
  "blob hs (WithIsolation m CASCacheType inst) anonymous_ctx" writer_for "named (WithIsolation m CASCacheType inst) anonymous_ctx"
  "key_hash_eq hs (WithIsolation m CASCacheType inst) anonymous_ctx" "(=)" "memory_fits hs (WithIsolation m CASCacheType inst) anonymous_ctx"
  "memory_net hs m anonymous_env up now" anonymous_ctx "anonymous_node hs m cfg inst" for hs m inst up now cfg
proof (rule memory_cluster_caches)
  have "AttachUserPrefixToContext anonymous_ctx anonymous_env = Inr anonymous_ctx"
    by (simp add: AttachUserPrefixToContext_def userPrefixCacheKey_def anonymous_ctx_def anonymous_env_def)
  moreover have "dc_WithIsolation (fst (NewDistributedCache (memory_cache hs m anonymous_ctx) cfg))
      (Inr (memory_cache hs (WithIsolation m CASCacheType inst) anonymous_ctx)) CASCacheType inst = Inr (anonymous_node hs m cfg inst)"
    by (simp add: anonymous_node_def dc_WithIsolation_def toProtoCacheType_def)
  ultimately show "memory_node hs m anonymous_env anonymous_ctx CASCacheType inst (anonymous_node hs m cfg inst)"
    unfolding memory_node_def by blast
qed

section \<open>Examples\<close>

definition example_dcache :: "(store, bytes, setOnClose) dcache" where
  "example_dcache = \<lparr>local_cache = memory_cache example_hashes example_handle (example_ctx ''GR1''),
     isolation = \<lparr>isoCacheType = CAS_CACHE, isoRemoteInstanceName = ''''\<rparr>,
     config = \<lparr>ListenAddr = ''A'', Nodes = [''A'', ''B''], ReplicationFactor = 2, ClusterSize = 2, DisableLocalLookup = False\<rparr>\<rparr>"

definition example_two :: ConsistentHash where
  "example_two = snd (ConsistentHash_Set [[65], [66]] (NewConsistentHash\<lparr>numReplicas := 1\<rparr>))"

definition example_cluster :: "store dstate" where
  "example_cluster = \<lparr>consistentHash = example_two, cluster_of =
     \<lparr>caches = (\<lambda>_. example_store), hintedHandoffsByPeer = (\<lambda>_. Map.empty), lastContactedBy = (\<lambda>_. Map.empty)\<rparr>\<rparr>"

definition example_denv :: env where
  "example_denv = \<lparr>has_authenticator = True, anonymous_enabled = False\<rparr>"

lemma example_handle_CAS: "WithIsolation example_handle CASCacheType '''' = example_handle"
  by (simp add: WithIsolation_def example_handle_def)

lemma example_memory_node:
  "memory_node example_hashes example_handle example_denv (example_ctx ''GR1'') CASCacheType '''' example_dcache"
proof -
  have "AttachUserPrefixToContext (example_ctx ''GR1'') example_denv = Inr (example_ctx ''GR1'')"
    by (simp add: AttachUserPrefixToContext_def userPrefixCacheKey_def example_ctx_def example_denv_def addPrefix_def)
  moreover have "dc_WithIsolation example_dcache (Inr (memory_cache example_hashes example_handle (example_ctx ''GR1''))) CASCacheType ''''
      = Inr example_dcache"
    by (simp add: example_dcache_def dc_WithIsolation_def toProtoCacheType_def)
  ultimately show ?thesis unfolding memory_node_def example_handle_CAS by blast
qed

lemma example_two_items: "ring_items example_two = {[65], [66]}"
proof -
  have s: "ConsistentHash_Set [[65], [66]] (NewConsistentHash\<lparr>numReplicas := 1\<rparr>) = (None, example_two)"
    by (simp add: example_two_def ConsistentHash_Set_def Let_def)
  have apart: "x = y" if "x \<in> set [[65], [66 :: byte]]" "y \<in> set [[65], [66]]" "hashKey (Itoa 0 @ x) = hashKey (Itoa 0 @ y)" for x y
  proof -
    have "\<exists>a. x = [a]" "\<exists>b. y = [b]" using that(1,2) by auto
    then obtain a b where ab: "x = [a]" "y = [b]" by blast
    then have "ChecksumIEEE (Itoa 0 @ [a]) = ChecksumIEEE (Itoa 0 @ [b])"
      using that(3) unfolding hashKey_def by (simp only: word_unat_eq_iff)
    then show ?thesis using ab by (simp only: Checksum_snoc_eq)
  qed
  have "ring_items example_two = set [[65], [66]]"
  proof (rule ring_items_Set [OF s])
    fix i i' x y
    assume "i < numReplicas (NewConsistentHash\<lparr>numReplicas := 1\<rparr>)" "i' < numReplicas (NewConsistentHash\<lparr>numReplicas := 1\<rparr>)"
    then have 0: "i = 0" "i' = 0" by simp_all
    show "x \<in> set [[65], [66]] \<Longrightarrow> y \<in> set [[65], [66]] \<Longrightarrow> hashKey (Itoa i @ x) = hashKey (Itoa i' @ y) \<Longrightarrow> x = y"
      unfolding 0 by (rule apart)
  qed simp
  then show ?thesis by simp
qed

lemma example_cluster_ok: "memory_cluster_ok example_dcache example_cluster"
proof -
  have s: "ConsistentHash_Set [[65], [66]] (NewConsistentHash\<lparr>numReplicas := 1\<rparr>) = (None, example_two)"
    by (simp add: example_two_def ConsistentHash_Set_def Let_def)
  have "ch_inv example_two" by (rule ch_inv_Set [OF s]) simp
  moreover have "keys example_two \<noteq> []" using example_two_items by (auto simp: ring_items_def)
  ultimately show ?thesis
    using example_store_ok by (simp add: memory_cluster_ok_def ring_ok_def example_two_items example_cluster_def example_dcache_def)
qed

lemma example_blob: "blob example_hashes example_handle (example_ctx ''GR1'') example_store example_digest = None"
proof -
  have "lru_abs example_store = []" by (rule lru_inv_New(2) [OF example_store])
  then show ?thesis by (auto simp: blob_def lru_content_def split: option.splits bind_splits)
qed

lemma example_fits: "memory_fits example_hashes example_handle (example_ctx ''GR1'') (caches (cluster_of example_cluster) p) example_digest [7, 8]"
proof -
  have "lru_abs example_store = []" by (rule lru_inv_New(2) [OF example_store])
  then have "used example_store = 0" by (simp add: used_def)
  then show ?thesis using example_blob
    by (simp add: memory_fits_def example_cluster_def drift_def)
      (simp add: example_store_def NewMemoryCache_def NewLRU_def LRU_MaxSize_def)
qed

section \<open>The promises, for memory caches\<close>

lemma Set_memory:
  assumes node: "memory_node hs m e ctx ct inst c" and st: "memory_cluster_ok c st" and d: "named (WithIsolation m ct inst) ctx d"
    and fit: "\<forall>p\<in>peer_set c d st. available (memory_net hs m e up now) c p \<longrightarrow>
      memory_fits hs (WithIsolation m ct inst) ctx (caches (cluster_of st) p) d data"
  shows "\<exists>r st'. dc_Set (memory_net hs m e up now) ctx c d data st = Some (r, st') \<and> memory_cluster_ok c st' \<and> peers_of c d st' = peers_of c d st
    \<and> (\<forall>q. holds hs (WithIsolation m ct inst) ctx st' q d \<in> {holds hs (WithIsolation m ct inst) ctx st q d, Some data})
    \<and> (\<exists>ws \<subseteq> peer_set c d st. {p \<in> set (fst (peers_of c d st)). available (memory_net hs m e up now) c p} \<subseteq> ws
       \<and> (\<forall>p\<in>ws. available (memory_net hs m e up now) c p)
       \<and> (if int (card ws) < ReplicationFactor (config c)
          then r = Some (UnavailableError ''Not enough peers (%d) available to satisfy replication factor (%d).'')
            \<and> holds hs (WithIsolation m ct inst) ctx st' = holds hs (WithIsolation m ct inst) ctx st
          else r = None \<and> (\<forall>p\<in>ws. holds hs (WithIsolation m ct inst) ctx st' p d = Some data)))"
proof -
  let ?net = "memory_net hs m e up now" and ?m = "WithIsolation m ct inst"
  have ring: "ring_ok c (consistentHash st)" and ok: "cluster_ok store_ok (cluster_of st)"
    using st by (simp_all add: memory_cluster_ok_def cluster_ok_def)
  obtain pref fb where pf: "peers_of c d st = (pref, fb)" by fastforce
  obtain st1 where sp: "split_peers (ReplicationFactor (config c)) d st = Some ((pref, fb), st1)" "ring_ok c (consistentHash st1)"
      "\<And>x. consistentHash (x :: store dstate) = consistentHash st1 \<Longrightarrow> peers_of c d x = peers_of c d st" "'''' \<notin> set pref" "'''' \<notin> set fb"
    using split_peers_ok [OF ring, of d] unfolding pf fst_conv snd_conv by metis
  have ps: "peer_set c d st = set pref \<union> set fb" by (simp add: peer_set_def pf)
  have eqs: "held (blob hs ?m ctx) (cluster_of x) = holds hs ?m ctx x" for x
    by (simp add: fun_eq_iff holds_def held_def)
  note set = cluster_caches.dc_Set_spec [OF memory_cluster_caches [OF node, of up now] ok d sp(1,4,5) fit [unfolded ps], unfolded eqs]
  have same: "holds hs ?m ctx st p d \<in> {None, Some data}" if "p \<in> peer_set c d st" "available ?net c p" for p
    using fit that by (auto simp: memory_fits_def holds_def)
  obtain r st' ws where r: "dc_Set ?net ctx c d data st = Some (r, st')" "cluster_ok store_ok (cluster_of st')"
      "consistentHash st' = consistentHash st1" "\<forall>q. holds hs ?m ctx st' q d \<in> {holds hs ?m ctx st q d, Some data}"
    and ws: "ws \<subseteq> set pref \<union> set fb" "{p \<in> set pref. available ?net c p} \<subseteq> ws" "\<forall>p\<in>ws. available ?net c p"
    and res: "if int (card ws) < ReplicationFactor (config c)
        then r = Some (UnavailableError ''Not enough peers (%d) available to satisfy replication factor (%d).'')
          \<and> holds hs ?m ctx st' = holds hs ?m ctx st
        else r = None \<and> (\<forall>p\<in>ws. holds hs ?m ctx st' p d \<in> {Some data} \<union> ({holds hs ?m ctx st p d} - {None}))"
    using set by (elim exE conjE) (rule that; assumption)
  have "holds hs ?m ctx st' p d = Some data"
    if "holds hs ?m ctx st' p d \<in> {Some data} \<union> ({holds hs ?m ctx st p d} - {None})" "p \<in> ws" for p
  proof -
    have "p \<in> peer_set c d st" "available ?net c p" using that(2) ws(1,3) ps by auto
    from same [OF this] that(1) show ?thesis by auto
  qed
  with res have "if int (card ws) < ReplicationFactor (config c)
        then r = Some (UnavailableError ''Not enough peers (%d) available to satisfy replication factor (%d).'')
          \<and> holds hs ?m ctx st' = holds hs ?m ctx st
        else r = None \<and> (\<forall>p\<in>ws. holds hs ?m ctx st' p d = Some data)"
    by (simp split: if_splits)
  moreover have "memory_cluster_ok c st'" using r(2,3) sp(2) by (simp add: memory_cluster_ok_def cluster_ok_def)
  moreover have "peers_of c d st' = peers_of c d st" by (rule sp(3)) (rule r(3))
  ultimately show ?thesis
    using r(1,4) ws by (intro exI [of _ r] exI [of _ st'] exI [of _ ws] conjI) (simp_all only: pf fst_conv snd_conv peer_set_def simp_thms)
qed

lemma Get_memory:
  assumes node: "memory_node hs m e ctx ct inst c" and st: "memory_cluster_ok c st" and d: "named (WithIsolation m ct inst) ctx d"
    and sh: "\<forall>xs. set (shuffle xs) = set xs" and free: "\<forall>n. 0 < free n"
    and sized: "\<forall>p. holds hs (WithIsolation m ct inst) ctx st p d = Some [] \<longrightarrow> GetSizeBytes d = 0"
  shows "\<exists>r st'. dc_Get shuffle free (memory_net hs m e up now) ctx c d st = Some (r, st')
    \<and> (case r of
         Inr v \<Rightarrow> \<exists>p\<in>peer_set c d st. available (memory_net hs m e up now) c p \<and> holds hs (WithIsolation m ct inst) ctx st p d = Some v
       | Inl err \<Rightarrow> err_code err = NotFound \<and>
           (\<forall>p\<in>set (fst (peers_of c d st)). available (memory_net hs m e up now) c p \<longrightarrow> holds hs (WithIsolation m ct inst) ctx st p d = None))"
proof -
  let ?net = "memory_net hs m e up now" and ?m = "WithIsolation m ct inst"
  have ring: "ring_ok c (consistentHash st)" and ok: "cluster_ok store_ok (cluster_of st)"
    using st by (simp_all add: memory_cluster_ok_def cluster_ok_def)
  obtain pref fb where pf: "peers_of c d st = (pref, fb)" by fastforce
  obtain st1 where sp: "split_peers (ReplicationFactor (config c)) d st = Some ((pref, fb), st1)" "'''' \<notin> set pref" "'''' \<notin> set fb"
    using split_peers_ok [OF ring, of d] unfolding pf fst_conv snd_conv by metis
  have eqs: "held (blob hs ?m ctx) (cluster_of x) = holds hs ?m ctx x" for x
    by (simp add: fun_eq_iff holds_def held_def)
  from cluster_caches.dc_Get_spec [OF memory_cluster_caches [OF node, of up now] ok d sp sh free, unfolded eqs, OF sized]
  obtain r st' where "dc_Get shuffle free ?net ctx c d st = Some (r, st')"
    "case r of
         Inr v \<Rightarrow> \<exists>p\<in>set pref \<union> set fb. available ?net c p \<and> holds hs ?m ctx st p d = Some v
       | Inl err \<Rightarrow> err_code err = NotFound \<and> (\<forall>p\<in>set pref. available ?net c p \<longrightarrow> holds hs ?m ctx st p d = None)"
    by blast
  then show ?thesis
    by (cases r; intro exI [of _ r] exI [of _ st'] conjI; simp add: pf peer_set_def)
qed

section \<open>Properties\<close>

text \<open>A write through the distributed cache always returns; it tries every preferred peer of the digest, and succeeds only
  if as many different reachable peers as the replication factor, all reachable preferred ones among them, hold the data in
  the end; if it finds too few it reports that, and no node's contents have changed.\<close>

theorem Set_replicates:
  assumes node: "memory_node hs m e ctx ct inst c" and st: "memory_cluster_ok c st" and d: "named (WithIsolation m ct inst) ctx d"
    and fit: "\<forall>p\<in>peer_set c d st. available (memory_net hs m e up now) c p \<longrightarrow>
      memory_fits hs (WithIsolation m ct inst) ctx (caches (cluster_of st) p) d data"
  shows "\<exists>r st'. dc_Set (memory_net hs m e up now) ctx c d data st = Some (r, st') \<and> memory_cluster_ok c st' \<and> peers_of c d st' = peers_of c d st
    \<and> (\<exists>ws \<subseteq> peer_set c d st. {p \<in> set (fst (peers_of c d st)). available (memory_net hs m e up now) c p} \<subseteq> ws
       \<and> (\<forall>p\<in>ws. available (memory_net hs m e up now) c p)
       \<and> (if int (card ws) < ReplicationFactor (config c)
          then r = Some (UnavailableError ''Not enough peers (%d) available to satisfy replication factor (%d).'')
            \<and> holds hs (WithIsolation m ct inst) ctx st' = holds hs (WithIsolation m ct inst) ctx st
          else r = None \<and> (\<forall>p\<in>ws. holds hs (WithIsolation m ct inst) ctx st' p d = Some data)))"
  using Set_memory [OF assms] by blast

theorem Set_replicates_witness:
  "\<exists>r st'. dc_Set (memory_net example_hashes example_handle example_denv (\<lambda>_. True) 0) (example_ctx ''GR1'') example_dcache example_digest [7, 8]
      example_cluster = Some (r, st') \<and> memory_cluster_ok example_dcache st'"
  using Set_replicates [OF example_memory_node example_cluster_ok, unfolded example_handle_CAS, OF example_named [OF example_plain(1)],
      of "\<lambda>_. True" 0 "[7, 8]"] example_fits by blast

text \<open>C33: reading through the distributed cache always returns, whatever peers are down: a value some reachable peer of the digest
  holds, or NotFound, and then no reachable preferred peer holds the blob.\<close>

theorem Get_finds:
  assumes "memory_node hs m e ctx ct inst c" and "memory_cluster_ok c st" and "named (WithIsolation m ct inst) ctx d"
    and "\<forall>xs. set (shuffle xs) = set xs" and "\<forall>n. 0 < free n"
    and "\<forall>p. holds hs (WithIsolation m ct inst) ctx st p d = Some [] \<longrightarrow> GetSizeBytes d = 0"
  shows "\<exists>r st'. dc_Get shuffle free (memory_net hs m e up now) ctx c d st = Some (r, st')
    \<and> (case r of
         Inr v \<Rightarrow> \<exists>p\<in>peer_set c d st. available (memory_net hs m e up now) c p \<and> holds hs (WithIsolation m ct inst) ctx st p d = Some v
       | Inl err \<Rightarrow> err_code err = NotFound \<and>
           (\<forall>p\<in>set (fst (peers_of c d st)). available (memory_net hs m e up now) c p \<longrightarrow> holds hs (WithIsolation m ct inst) ctx st p d = None))"
  by (rule Get_memory [OF assms])

text \<open>C32: read your writes: after a write that succeeded, with any nodes failing or coming back in between, a read returns
  the data, as long as some preferred peer that was reachable for the write still is, and no node held other data before.\<close>

theorem read_your_writes:
  assumes node: "memory_node hs m e ctx ct inst c" and st: "memory_cluster_ok c st" and d: "named (WithIsolation m ct inst) ctx d"
    and fit: "\<forall>p\<in>peer_set c d st. available (memory_net hs m e up now) c p \<longrightarrow>
      memory_fits hs (WithIsolation m ct inst) ctx (caches (cluster_of st) p) d data"
    and old: "\<forall>p. holds hs (WithIsolation m ct inst) ctx st p d \<in> {None, Some data}" and size: "data = [] \<longrightarrow> GetSizeBytes d = 0"
    and w: "dc_Set (memory_net hs m e up now) ctx c d data st = Some (None, st')"
    and p: "p \<in> set (fst (peers_of c d st))" "available (memory_net hs m e up now) c p" "available (memory_net hs m e up' now') c p"
    and sh: "\<forall>xs. set (shuffle xs) = set xs" and free: "\<forall>n. 0 < free n"
  shows "\<exists>st''. dc_Get shuffle free (memory_net hs m e up' now') ctx c d st' = Some (Inr data, st'')"
proof -
  let ?h = "holds hs (WithIsolation m ct inst) ctx"
  obtain ws where s: "memory_cluster_ok c st'" "peers_of c d st' = peers_of c d st" "\<forall>q. ?h st' q d \<in> {?h st q d, Some data}"
      "p \<in> ws" "\<forall>q\<in>ws. ?h st' q d = Some data"
    using Set_memory [OF node st d fit] w p(1,2) by (auto split: if_splits)
  have only: "?h st' q d \<in> {None, Some data}" for q using s(3) old by (metis insert_iff singletonD)
  have "\<forall>q. ?h st' q d = Some [] \<longrightarrow> GetSizeBytes d = 0" using only size by (metis empty_iff insert_iff option.distinct(1) option.inject)
  from Get_memory [OF node s(1) d sh free this, of up' now'] obtain r st'' where
    g: "dc_Get shuffle free (memory_net hs m e up' now') ctx c d st' = Some (r, st'')"
    and r: "case r of
         Inr v \<Rightarrow> \<exists>p\<in>peer_set c d st'. available (memory_net hs m e up' now') c p \<and> ?h st' p d = Some v
       | Inl err \<Rightarrow> err_code err = NotFound \<and> (\<forall>p\<in>set (fst (peers_of c d st')). available (memory_net hs m e up' now') c p \<longrightarrow> ?h st' p d = None)"
    by blast
  have "r = Inr data"
  proof (cases r)
    case (Inl err)
    then show ?thesis using r p s(2,4,5) by auto
  next
    case (Inr v)
    then obtain q where "?h st' q d = Some v" using r by auto
    then show ?thesis using Inr only [of q] by auto
  qed
  with g show ?thesis by blast
qed

lemma example_holds: "holds example_hashes example_handle (example_ctx ''GR1'') example_cluster p example_digest = None"
  using example_blob by (simp add: holds_def example_cluster_def)

lemma example_peers: "set (fst (peers_of example_dcache d example_cluster)) = {''A'', ''B''}"
proof -
  let ?rs = "fst (GetAllReplicas (str_bytes (GetHash d)) (consistentHash example_cluster))"
  have "ch_inv (consistentHash example_cluster)" "keys (consistentHash example_cluster) \<noteq> []"
    using example_cluster_ok by (simp_all add: memory_cluster_ok_def ring_ok_def)
  note g = GetAllReplicas_replicas [OF this, of "str_bytes (GetHash d)"]
  have s: "set ?rs = {[65], [66]}" using g(2) example_two_items by (simp add: example_cluster_def)
  then have "length ?rs = 2" using g(1) distinct_card [of ?rs] by simp
  moreover have "bytes_str [65] = ''A''" "bytes_str [66] = ''B''" by (simp_all add: bytes_str_def char_of_eq_iff)
  ultimately show ?thesis using s by (simp add: peers_of_def example_dcache_def Let_def)
qed

theorem Get_finds_witness:
  "\<exists>r st'. dc_Get rev (\<lambda>_. 512) (memory_net example_hashes example_handle example_denv (\<lambda>p. p = ''B'') 0) (example_ctx ''GR1'') example_dcache
      example_digest example_cluster = Some (r, st')"
proof -
  have "\<forall>p. holds example_hashes (WithIsolation example_handle CASCacheType '''') (example_ctx ''GR1'') example_cluster p example_digest = Some []
      \<longrightarrow> GetSizeBytes example_digest = 0" unfolding example_handle_CAS by (simp add: example_holds)
  from Get_finds [OF example_memory_node example_cluster_ok _ _ _ this, unfolded example_handle_CAS, OF example_named [OF example_plain(1)],
      of rev "\<lambda>_. 512" "\<lambda>p. p = ''B''" 0] show ?thesis by auto
qed

text \<open>Every node is up for the write, and no other node for the read.\<close>

theorem read_your_writes_witness:
  "\<exists>st' st''. dc_Set (memory_net example_hashes example_handle example_denv (\<lambda>_. True) 0) (example_ctx ''GR1'') example_dcache example_digest [7, 8]
      example_cluster = Some (None, st')
    \<and> dc_Get rev (\<lambda>_. 512) (memory_net example_hashes example_handle example_denv (\<lambda>_. False) 5) (example_ctx ''GR1'') example_dcache
      example_digest st' = Some (Inr [7, 8], st'')"
proof -
  let ?up = "memory_net example_hashes example_handle example_denv (\<lambda>_. True) 0"
  have up: "available ?up example_dcache p" for p by (simp add: available_def memory_net_def)
  have local: "available (memory_net example_hashes example_handle example_denv (\<lambda>_. False) 5) example_dcache ''A''"
    by (simp add: available_def is_local_def example_dcache_def)
  note n = example_named [OF example_plain(1)]
  obtain r st' ws where s: "dc_Set ?up (example_ctx ''GR1'') example_dcache example_digest [7, 8] example_cluster = Some (r, st')"
      "{p \<in> set (fst (peers_of example_dcache example_digest example_cluster)). available ?up example_dcache p} \<subseteq> ws"
      "ws \<subseteq> peer_set example_dcache example_digest example_cluster"
      "int (card ws) < ReplicationFactor (config example_dcache) \<or> r = None"
    using Set_memory [OF example_memory_node example_cluster_ok, unfolded example_handle_CAS, OF n, of "\<lambda>_. True" 0 "[7, 8]"] example_fits
    by (auto split: if_splits)
  have "card (set (fst (peers_of example_dcache example_digest example_cluster))) \<le> card ws"
    using s(2,3) up by (intro card_mono) (auto simp: peer_set_def intro: finite_subset)
  moreover have "card (set (fst (peers_of example_dcache example_digest example_cluster))) = 2"
    by (simp add: example_peers)
  ultimately have r: "r = None" using s(4) by (simp add: example_dcache_def)
  from read_your_writes [OF example_memory_node example_cluster_ok, unfolded example_handle_CAS, OF n, of "\<lambda>_. True" 0 "[7, 8]" st' "''A''"
      "\<lambda>_. False" 5 rev "\<lambda>_. 512"] s(1) r example_fits example_holds example_peers up local
  show ?thesis by auto
qed

end
