(* ===== verification/Claims.thy ===== *)
theory Claims
  imports Status
begin

unbundle bit_operations_syntax

text \<open>
  Who a request acts for: roles (\<^verbatim>\<open>server/util/role/role.go\<close>), capabilities (\<^verbatim>\<open>server/util/capabilities/capabilities.go\<close>), the
  claims of an authenticated user with the methods of \<^verbatim>\<open>interfaces.UserInfo\<close> (\<^verbatim>\<open>enterprise/server/auth/auth.go\<close>), and the
  check of a role in a group (\<^verbatim>\<open>server/util/authutil/authutil.go\<close>). Protocol-buffer enums are datatypes.
\<close>

section \<open>Roles\<close>

type_synonym Role = "32 word"

definition role_None :: Role where "role_None = 0"

definition role_Developer :: Role where "role_Developer = push_bit 0 1"

definition role_Admin :: Role where "role_Admin = push_bit 1 1"

definition role_Default :: Role where "role_Default = role_Developer"

datatype Group_Role = UNKNOWN_ROLE | DEVELOPER_ROLE | ADMIN_ROLE

definition role_ToProto :: "Role \<Rightarrow> Group_Role" where
  "role_ToProto r = (if r AND role_Admin = role_Admin then ADMIN_ROLE else DEVELOPER_ROLE)"

definition role_FromProto :: "Group_Role \<Rightarrow> Role" where
  "role_FromProto r = (if r = ADMIN_ROLE then role_Admin else role_Developer)"

section \<open>Capabilities\<close>

datatype Capability = UNKNOWN_CAPABILITY | CACHE_WRITE_CAPABILITY | REGISTER_EXECUTOR_CAPABILITY

text \<open>The number of an enum value.\<close>

fun cap_value :: "Capability \<Rightarrow> 32 word" where
  "cap_value UNKNOWN_CAPABILITY = 0"
| "cap_value CACHE_WRITE_CAPABILITY = 1"
| "cap_value REGISTER_EXECUTOR_CAPABILITY = 2"

text \<open>\<open>FromInt\<close> ranges over a Go map of the enum's values; \<open>order\<close> is the order it is enumerated in.\<close>

definition capabilities_FromInt :: "Capability list \<Rightarrow> 32 word \<Rightarrow> Capability list" where
  "capabilities_FromInt order m = filter (\<lambda>c. 0 <s m AND cap_value c) order"

definition capabilities_ToInt :: "Capability list \<Rightarrow> 32 word" where
  "capabilities_ToInt caps = foldl (\<lambda>m c. m OR cap_value c) 0 caps"

definition DefaultAuthenticatedUserCapabilities :: "Capability list" where
  "DefaultAuthenticatedUserCapabilities = [CACHE_WRITE_CAPABILITY]"

definition AnonymousUserCapabilities :: "Capability list" where
  "AnonymousUserCapabilities = DefaultAuthenticatedUserCapabilities"

definition AnonymousUserCapabilitiesMask :: "32 word" where
  "AnonymousUserCapabilitiesMask = capabilities_ToInt AnonymousUserCapabilities"

section \<open>Claims\<close>

record GroupMembership =
  memberGroupID :: string
  memberRole :: Role

record Claims =
  UserID :: string
  GroupID :: string
  Impersonating :: bool
  AllowedGroups :: "string list"
  GroupMemberships :: "GroupMembership list"
  Capabilities :: "Capability list"
  UseGroupOwnedExecutors :: bool

definition IsAdmin :: "Claims \<Rightarrow> bool" where
  "IsAdmin c \<longleftrightarrow> (\<exists>groupID\<in>set (AllowedGroups c). groupID = ''admin'')"

definition HasCapability :: "Claims \<Rightarrow> Capability \<Rightarrow> bool" where
  "HasCapability c cp \<longleftrightarrow> (\<exists>cc\<in>set (Capabilities c). cp = cc)"

text \<open>The first membership in the group decides; \<open>None\<close> is success.\<close>

definition AuthorizeGroupRole :: "Claims \<Rightarrow> string \<Rightarrow> Role \<Rightarrow> error option" where
  "AuthorizeGroupRole u groupID allowedRoles =
     (let r = (case find (\<lambda>m. memberGroupID m = groupID) (GroupMemberships u) of None \<Rightarrow> role_None | Some m \<Rightarrow> memberRole m) in
      if r = role_None then Some (PermissionDeniedError ''You do not have access to the requested organization'')
      else if r AND allowedRoles = 0 then Some (PermissionDeniedError ''You do not have the appropriate role within this organization'')
      else None)"

section \<open>The environment of a request\<close>

text \<open>
  The server's configuration, and the answer of its authenticator for the request: \<open>None\<close> if there is no authenticator, else
  an error or the claims.
\<close>

record auth_env =
  authenticator :: "(error + Claims) option"
  AnonymousUsageEnabled :: bool
  AuthAdminGroupID :: string

definition AuthenticatedUser :: "auth_env \<Rightarrow> error + Claims" where
  "AuthenticatedUser env =
     (case authenticator env of None \<Rightarrow> Inl (UnimplementedError ''Not implemented'') | Some r \<Rightarrow> r)"

definition IsAnonymousUserError :: "error \<Rightarrow> bool" where
  "IsAnonymousUserError err \<longleftrightarrow>
     IsUnauthenticatedError (Some err) \<or> IsPermissionDeniedError (Some err) \<or> IsUnimplementedError (Some err)"

definition IsGranted :: "auth_env \<Rightarrow> Capability \<Rightarrow> error + bool" where
  "IsGranted env cp =
     (let authIsRequired = (\<not> AnonymousUsageEnabled env);
          anonymous = (0 <s cap_value cp AND AnonymousUserCapabilitiesMask) in
      case authenticator env of
        None \<Rightarrow> if authIsRequired then Inl (UnimplementedError ''Not Implemented'') else Inr anonymous
      | Some (Inl err) \<Rightarrow>
          if IsAnonymousUserError err then (if authIsRequired then Inr False else Inr anonymous) else Inl err
      | Some (Inr user) \<Rightarrow> Inr (HasCapability user cp))"

section \<open>Lemmas\<close>

text \<open>The two roles are single, distinct bits.\<close>

lemma role_bits [simp]:
  "role_Admin AND role_Admin \<noteq> 0" "role_Developer AND role_Developer \<noteq> 0" "role_Developer AND role_Admin = 0"
  "role_Admin \<noteq> role_None" "role_Developer \<noteq> role_None" "role_Developer AND (role_Admin OR role_Developer) \<noteq> 0"
  "role_Admin AND (role_Admin OR role_Developer) \<noteq> 0" "role_Admin \<noteq> role_Developer" "role_Developer \<noteq> role_Admin"
  "role_Admin \<noteq> 0" "role_Developer \<noteq> 0"
  by (simp_all add: role_Admin_def role_Developer_def role_None_def)

lemma role_proto [simp]: "role_ToProto (role_FromProto r) = (if r = UNKNOWN_ROLE then DEVELOPER_ROLE else r)"
  by (cases r) (simp_all add: role_ToProto_def role_FromProto_def role_Admin_def role_Developer_def)

lemma cap_bits: "0 <s cap_value c AND cap_value c' \<longleftrightarrow> c = c' \<and> c \<noteq> UNKNOWN_CAPABILITY"
  by (cases c; cases c') (simp_all add: word_sless_alt)

lemma cap_union: "0 <s (m OR cap_value c') AND cap_value c \<longleftrightarrow> 0 <s m AND cap_value c \<or> c = c' \<and> c \<noteq> UNKNOWN_CAPABILITY"
  if "\<not> bit m 31"
proof -
  have *: "(m OR cap_value c') AND cap_value c = (m AND cap_value c) OR (cap_value c' AND cap_value c)"
    by (simp add: word_ao_dist)
  have b: "0 <s m AND cap_value c \<longleftrightarrow> c \<noteq> UNKNOWN_CAPABILITY \<and> m AND cap_value c \<noteq> 0" for m
  proof (cases c)
    case CACHE_WRITE_CAPABILITY
    have "m AND 1 = 0 \<or> m AND 1 = 1" by (simp add: and_one_eq mod_2_eq_odd)
    then show ?thesis using CACHE_WRITE_CAPABILITY by (auto simp: word_sless_alt)
  next
    case REGISTER_EXECUTOR_CAPABILITY
    have "m AND 2 = (if bit m 1 then 2 else 0)"
      using and_exp_eq_0_iff_not_bit [of m 1] by (auto intro!: bit_eqI simp: bit_simps)
    then show ?thesis using REGISTER_EXECUTOR_CAPABILITY by (auto simp: word_sless_alt)
  qed (simp add: word_sless_alt)
  have "(m AND cap_value c) OR (cap_value c' AND cap_value c) = 0 \<longleftrightarrow> m AND cap_value c = 0 \<and> cap_value c' AND cap_value c = 0"
    by (simp add: or_eq_0_iff)
  moreover have "c \<noteq> UNKNOWN_CAPABILITY \<Longrightarrow> cap_value c' AND cap_value c \<noteq> 0 \<longleftrightarrow> c = c'"
    by (cases c; cases c') simp_all
  ultimately show ?thesis unfolding b using * by auto
qed

lemma ToInt_snoc: "capabilities_ToInt (caps @ [c]) = capabilities_ToInt caps OR cap_value c"
  by (simp add: capabilities_ToInt_def)

lemma ToInt_nonneg: "\<not> bit (capabilities_ToInt caps) 31"
proof (induction caps rule: rev_induct)
  case (snoc c caps)
  have "\<not> bit (cap_value c) 31" by (cases c) (simp_all add: bit_1_iff bit_numeral_rec)
  with snoc show ?case by (simp add: ToInt_snoc bit_or_iff)
qed (simp add: capabilities_ToInt_def)

text \<open>The mask keeps exactly the capabilities it was made from.\<close>

lemma FromInt_ToInt: "set (capabilities_FromInt order (capabilities_ToInt caps)) = {c \<in> set order. c \<in> set caps \<and> c \<noteq> UNKNOWN_CAPABILITY}"
proof -
  have "0 <s capabilities_ToInt caps AND cap_value c \<longleftrightarrow> c \<in> set caps \<and> c \<noteq> UNKNOWN_CAPABILITY" for c
  proof (induction caps rule: rev_induct)
    case (snoc c' caps)
    then show ?case by (auto simp: ToInt_snoc cap_union [OF ToInt_nonneg])
  qed (simp add: capabilities_ToInt_def)
  then show ?thesis by (auto simp: capabilities_FromInt_def)
qed

end
