(* ===== verification/QueryBuilder.thy ===== *)
theory QueryBuilder
  imports Prelude GoStrings "HOL-Library.Monad_Syntax"
begin

text \<open>
  \<^verbatim>\<open>server/util/query_builder/query_builder.go\<close>: SQL queries as text with question marks, and the list of arguments
  for them. Go's builder is a mutable object; here every operation returns the updated query, and \<open>Build\<close>, which writes
  the arguments of the joined sub-queries back into the object, returns it beside the text. A sub-query belongs to the query it is joined to.
  Padding an empty string panics, so operations that pad are options.
\<close>

section \<open>The code\<close>

datatype sql_arg = IntArg int | StrArg string

definition pad :: "string \<Rightarrow> string option" where
  "pad clause =
     (if clause = [] then None
      else
        let c = (if hd clause \<noteq> CHR '' '' then CHR '' '' # clause else clause) in
        Some (if last c \<noteq> CHR '' '' then c @ '' '' else c))"

datatype Query = Query (limit: "int option") (offset: "int option") (orderBy: string) (groupBy: string) (baseQuery: string)
    (arguments: "sql_arg list") (whereClauses: "string list") (joinClauses: "joinClause list") (ascending: bool)
  and joinClause = JoinClause (tableSubquery: Query) (joinAlias: string) (onClause: string)

definition NewQuery :: "string \<Rightarrow> Query" where
  "NewQuery base = Query None None '''' '''' base [] [] [] False"

fun AddWhereClause :: "string \<Rightarrow> sql_arg list \<Rightarrow> Query \<Rightarrow> Query option" where
  "AddWhereClause clause args (Query l off ord g b as w j asc) =
     map_option (\<lambda>c. Query l off ord g b (as @ args) (w @ [c]) j asc) (pad clause)"

fun AddJoinClause :: "Query \<Rightarrow> string \<Rightarrow> string \<Rightarrow> Query \<Rightarrow> Query" where
  "AddJoinClause subQuery al on (Query l off ord g b as w j asc) =
     Query l off ord g b as w (j @ [JoinClause subQuery al on]) asc"

fun SetOrderBy :: "string \<Rightarrow> bool \<Rightarrow> Query \<Rightarrow> Query" where
  "SetOrderBy field asc' (Query l off ord g b as w j asc) = Query l off field g b as w j asc'"

fun SetGroupBy :: "string \<Rightarrow> Query \<Rightarrow> Query" where
  "SetGroupBy field (Query l off ord g b as w j asc) = Query l off ord field b as w j asc"

fun SetLimit :: "int \<Rightarrow> Query \<Rightarrow> Query" where
  "SetLimit n (Query l off ord g b as w j asc) = Query (Some n) off ord g b as w j asc"

fun SetOffset :: "int \<Rightarrow> Query \<Rightarrow> Query" where
  "SetOffset n (Query l off ord g b as w j asc) = Query l (Some n) ord g b as w j asc"

text \<open>The clauses after the joins, appended in turn to the text so far.\<close>

definition build_where :: "string list \<Rightarrow> string \<Rightarrow> string option" where
  "build_where w q =
     (if w = [] then Some q
      else do { k \<leftarrow> pad ''WHERE''; r \<leftarrow> pad (joinWith ''AND'' w); Some (q @ k @ r) })"

definition build_phrase :: "string \<Rightarrow> string \<Rightarrow> string \<Rightarrow> string option" where
  "build_phrase phrase field q = do { k \<leftarrow> pad phrase; f \<leftarrow> pad field; Some (q @ k @ f) }"

definition build_tail :: "Query \<Rightarrow> string \<Rightarrow> string option" where
  "build_tail q fullQuery = do {
     q1 \<leftarrow> build_where (whereClauses q) fullQuery;
     q2 \<leftarrow> (if groupBy q \<noteq> '''' then build_phrase ''GROUP BY'' (groupBy q) q1 else Some q1);
     q3 \<leftarrow> (if orderBy q \<noteq> ''''
           then map_option (\<lambda>s. s @ (if ascending q then ''ASC'' else ''DESC'')) (build_phrase ''ORDER BY'' (orderBy q) q2)
           else Some q2);
     q4 \<leftarrow> (case limit q of None \<Rightarrow> Some q3 | Some n \<Rightarrow> build_phrase ''LIMIT'' (show_int n) q3);
     case offset q of None \<Rightarrow> Some q4 | Some n \<Rightarrow> build_phrase ''OFFSET'' (show_int n) q4
   }"

fun Build :: "Query \<Rightarrow> ((string \<times> sql_arg list) \<times> Query) option"
  and joinClause_Build :: "joinClause \<Rightarrow> ((string \<times> sql_arg list) \<times> joinClause) option"
  and build_joins :: "joinClause list \<Rightarrow> string \<Rightarrow> ((string \<times> sql_arg list) \<times> joinClause list) option" where
  "Build (Query l off ord g b as w j asc) = do {
     ((fullQuery, argsInJoinClauses), j') \<leftarrow> build_joins j b;
     let as' = argsInJoinClauses @ as;
     s \<leftarrow> build_tail (Query l off ord g b as' w j' asc) fullQuery;
     Some ((s, as'), Query l off ord g b as' w j' asc)
   }"
| "joinClause_Build (JoinClause sub al on) = do {
     ((subQuery, args), sub') \<leftarrow> Build sub;
     k \<leftarrow> pad ''JOIN'';
     pa \<leftarrow> pad al;
     pk \<leftarrow> pad ''ON'';
     po \<leftarrow> pad on;
     Some ((k @ ''('' @ subQuery @ '') AS'' @ pa @ pk @ po, args), JoinClause sub' al on)
   }"
| "build_joins [] fullQuery = Some ((fullQuery, []), [])"
| "build_joins (j # js) fullQuery = do {
     ((s, args), j') \<leftarrow> joinClause_Build j;
     ((t, args'), js') \<leftarrow> build_joins js (fullQuery @ s);
     Some ((t, args @ args'), j' # js')
   }"

record OrClauses =
  or_whereClauses :: "string list"
  or_arguments :: "sql_arg list"

definition NoClauses :: OrClauses where
  "NoClauses = \<lparr>or_whereClauses = [], or_arguments = []\<rparr>"

definition AddOr :: "string \<Rightarrow> sql_arg list \<Rightarrow> OrClauses \<Rightarrow> OrClauses option" where
  "AddOr clause args q =
     map_option (\<lambda>c. \<lparr>or_whereClauses = or_whereClauses q @ [c], or_arguments = or_arguments q @ args\<rparr>) (pad clause)"

definition OrClauses_Build :: "OrClauses \<Rightarrow> (string \<times> sql_arg list) option" where
  "OrClauses_Build q =
     (if or_whereClauses q = [] then Some ('''', or_arguments q)
      else map_option (\<lambda>s. (s, or_arguments q)) (pad (joinWith ''OR'' (or_whereClauses q))))"

section \<open>Placeholders\<close>

text \<open>The question marks of a text, and the balance of a query: its own clauses and the sub-queries' have as many
  question marks as arguments.\<close>

definition marks :: "string \<Rightarrow> nat" where
  "marks s = count_list s CHR ''?''"

fun balanced :: "Query \<Rightarrow> bool" and join_balanced :: "joinClause \<Rightarrow> bool" and joins_balanced :: "joinClause list \<Rightarrow> bool" where
  "balanced (Query l off ord g b as w j asc) \<longleftrightarrow>
     marks b = 0 \<and> marks ord = 0 \<and> marks g = 0 \<and> sum_list (map marks w) = length as \<and> joins_balanced j"
| "join_balanced (JoinClause sub al on) \<longleftrightarrow> balanced sub \<and> marks al = 0 \<and> marks on = 0"
| "joins_balanced [] \<longleftrightarrow> True"
| "joins_balanced (j # js) \<longleftrightarrow> join_balanced j \<and> joins_balanced js"

lemma marks_simps [simp]: "marks [] = 0" "marks (s @ t) = marks s + marks t" "marks (c # s) = (if c = CHR ''?'' then Suc (marks s) else marks s)"
  by (simp_all add: marks_def)

lemma marks_pad: "pad s = Some t \<Longrightarrow> marks t = marks s"
  by (auto simp: pad_def Let_def split: if_splits)

lemma marks_joinWith: "marks sep = 0 \<Longrightarrow> marks (joinWith sep xs) = sum_list (map marks xs)"
  by (induction sep xs rule: joinWith.induct) simp_all

lemma digit_no_mark: "d < 10 \<Longrightarrow> digit_char d \<noteq> CHR ''?''"
proof -
  assume "d < 10"
  then have "is_digit (digit_char d)" by simp
  moreover have "\<not> is_digit CHR ''?''" by (simp add: is_digit_def)
  ultimately show ?thesis by metis
qed

lemma marks_show_nat: "marks (show_nat n) = 0"
proof (induction n rule: show_nat.induct)
  case (1 n)
  have "digit_char (n mod 10) \<noteq> CHR ''?''" by (rule digit_no_mark) simp
  with 1 digit_no_mark [of n] show ?case by (subst show_nat.simps) simp
qed

lemma marks_show_int [simp]: "marks (show_int i) = 0"
  by (simp add: show_int_def marks_show_nat)

lemma marks_where: "build_where w q = Some s \<Longrightarrow> marks s = marks q + sum_list (map marks w)"
  by (auto simp: build_where_def marks_joinWith dest!: marks_pad split: if_splits bind_splits)

lemma marks_phrase: "build_phrase p f q = Some s \<Longrightarrow> marks s = marks q + marks p + marks f"
  by (auto simp: build_phrase_def dest!: marks_pad split: bind_splits)

lemma marks_tail:
  assumes "build_tail q s = Some t"
  shows "marks t = marks s + sum_list (map marks (whereClauses q)) + marks (groupBy q) + marks (orderBy q)"
  using assms unfolding build_tail_def
  by (auto dest!: marks_where marks_phrase split: bind_splits if_splits option.splits)

lemma marks_Build:
  "Build q = Some ((s, args), q') \<Longrightarrow> balanced q \<Longrightarrow> marks s = length args"
  "joinClause_Build j = Some ((s, args), j') \<Longrightarrow> join_balanced j \<Longrightarrow> marks s = length args"
  "build_joins js pre = Some ((s, args), js') \<Longrightarrow> joins_balanced js \<Longrightarrow> marks s = marks pre + length args"
proof (induction q and j and js pre arbitrary: s args q' and s args j' and s args js'
    rule: Build_joinClause_Build_build_joins.induct)
  case (1 l off ord g b as w j asc)
  from "1.prems"(1) obtain fq aj j' where f: "build_joins j b = Some ((fq, aj), j')"
      "build_tail (Query l off ord g b (aj @ as) w j' asc) fq = Some s" "args = aj @ as"
    by (auto simp: Let_def split: bind_splits)
  from "1.IH" [OF f(1)] "1.prems"(2) marks_tail [OF f(2)] f(3) show ?case by simp
next
  case (2 sub al on)
  from "2.prems"(1) obtain sq sub' k pa pk po where f: "Build sub = Some ((sq, args), sub')" "pad ''JOIN'' = Some k" "pad al = Some pa"
      "pad ''ON'' = Some pk" "pad on = Some po" "s = k @ ''('' @ sq @ '') AS'' @ pa @ pk @ po"
    by (auto split: bind_splits)
  from "2.IH" [OF f(1)] "2.prems"(2) f(2-6) marks_pad show ?case by (fastforce dest!: marks_pad)
next
  case (3 pre)
  then show ?case by simp
next
  case (4 j js pre)
  from "4.prems"(1) obtain s1 a1 j1 a2 js' where f: "joinClause_Build j = Some ((s1, a1), j1)"
      "build_joins js (pre @ s1) = Some ((s, a2), js')" "args = a1 @ a2"
    by (auto split: bind_splits)
  from "4.IH"(1) [OF f(1)] "4.IH"(2) [OF f(1) refl refl f(2)] "4.prems"(2) f(3) show ?case by simp
qed

text \<open>Building again what was built: the text is the same, the arguments of the joins come once more.\<close>

lemma build_tail_args: "build_tail (Query l off ord g b as w j asc) s = build_tail (Query l off ord g b [] w [] asc) s"
  by (simp only: build_tail_def Query.sel)

lemma Build_again:
  "Build q = Some ((s, args), q') \<Longrightarrow> \<exists>args' q''. Build q' = Some ((s, args'), q'') \<and> length args + (length args - length (arguments q)) \<le> length args'"
  "joinClause_Build j = Some ((s, args), j') \<Longrightarrow> \<exists>args' j''. joinClause_Build j' = Some ((s, args'), j'') \<and> length args \<le> length args'"
  "build_joins js pre = Some ((s, args), js') \<Longrightarrow> \<exists>args' js''. build_joins js' pre = Some ((s, args'), js'') \<and> length args \<le> length args'"
proof (induction q and j and js pre arbitrary: s args q' and s args j' and s args js'
    rule: Build_joinClause_Build_build_joins.induct)
  case (1 l off ord g b as w j asc)
  from "1.prems"(1) obtain fq aj j' where f: "build_joins j b = Some ((fq, aj), j')"
      "build_tail (Query l off ord g b (aj @ as) w j' asc) fq = Some s" "args = aj @ as" "q' = Query l off ord g b (aj @ as) w j' asc"
    by (auto simp: Let_def split: bind_splits)
  obtain aj' j'' where j'': "build_joins j' b = Some ((fq, aj'), j'')" "length aj \<le> length aj'"
    using "1.IH" [OF f(1)] by blast
  have "build_tail (Query l off ord g b (aj' @ aj @ as) w j'' asc) fq = Some s"
    using f(2) build_tail_args by metis
  with j'' f(3,4) show ?case by (simp add: Let_def)
next
  case (2 sub al on)
  from "2.prems"(1) obtain sq sub' k pa pk po where f: "Build sub = Some ((sq, args), sub')" "pad ''JOIN'' = Some k" "pad al = Some pa"
      "pad ''ON'' = Some pk" "pad on = Some po" "s = k @ ''('' @ sq @ '') AS'' @ pa @ pk @ po" "j' = JoinClause sub' al on"
    by (auto split: bind_splits)
  from "2.IH" [OF f(1)] f(2-7) show ?case by auto
next
  case (3 pre)
  then show ?case by simp
next
  case (4 j js pre)
  from "4.prems"(1) obtain s1 a1 j1 a2 js1 where f: "joinClause_Build j = Some ((s1, a1), j1)"
      "build_joins js (pre @ s1) = Some ((s, a2), js1)" "args = a1 @ a2" "js' = j1 # js1"
    by (auto split: bind_splits)
  from "4.IH"(1) [OF f(1)] obtain a1' j1' where "joinClause_Build j1 = Some ((s1, a1'), j1')" "length a1 \<le> length a1'" by blast
  moreover from "4.IH"(2) [OF f(1) refl refl f(2)] obtain a2' js1' where "build_joins js1 (pre @ s1) = Some ((s, a2'), js1')" "length a2 \<le> length a2'"
    by blast
  ultimately show ?case using f(3,4) by simp
qed

section \<open>Properties\<close>

text \<open>A query in which every clause, of the sub-queries too, has a question mark for each of its arguments is built into a text with
  exactly as many question marks as arguments; and if joins contribute arguments, building the same query object a second time gives the same
  text with more arguments than question marks.\<close>

theorem placeholders_match_once:
  assumes "Build q = Some ((s, args), q')" and "balanced q"
  shows "marks s = length args
    \<and> (\<exists>args' q''. Build q' = Some ((s, args'), q'') \<and> (length (arguments q) < length args \<longrightarrow> marks s < length args'))"
  using marks_Build(1) [OF assms] Build_again(1) [OF assms(1)] by fastforce

definition example_query :: Query where
  "example_query = AddJoinClause (the (AddWhereClause ''u = ?'' [StrArg ''x''] (NewQuery ''SELECT *''))) ''j'' ''a = b''
     (the (AddWhereClause ''p = ?'' [IntArg 4] (NewQuery ''SELECT * FROM T'')))"

theorem placeholders_match_once_witness:
  "\<exists>s q' q''. Build example_query = Some ((s, [StrArg ''x'', IntArg 4]), q') \<and> marks s = 2
    \<and> (\<exists>args'. Build q' = Some ((s, args'), q'') \<and> 2 < length args')"
proof -
  have b: "balanced example_query" by (simp add: example_query_def NewQuery_def pad_def)
  obtain s q' where s: "Build example_query = Some ((s, [StrArg ''x'', IntArg 4]), q')"
    by (simp add: example_query_def NewQuery_def pad_def build_tail_def build_where_def Let_def)
  have "length (arguments example_query) < 2" by (simp add: example_query_def NewQuery_def pad_def)
  with placeholders_match_once [OF s b] s show ?thesis by auto
qed

end
