(* ===== verification/Perms.thy ===== *)
theory Perms
  imports Claims QueryBuilder
begin

unbundle bit_operations_syntax

text \<open>
  \<^verbatim>\<open>server/util/perms/perms.go\<close>: Unix-style permission bits of stored objects, their access-control lists, and the checks of
  a user against them, in the server and as a condition of SQL queries; and \<^verbatim>\<open>server/role_filter/role_filter.go\<close>: which
  roles may call which RPC.
\<close>

section \<open>Permission bits\<close>

definition OWNER_READ :: int where "OWNER_READ = 0x100"
definition OWNER_WRITE :: int where "OWNER_WRITE = 0x80"
definition GROUP_READ :: int where "GROUP_READ = 0x20"
definition GROUP_WRITE :: int where "GROUP_WRITE = 0x10"
definition OTHERS_READ :: int where "OTHERS_READ = 4"
definition OTHERS_WRITE :: int where "OTHERS_WRITE = 2"
definition PERMS_ALL :: int where "PERMS_ALL = 0x1FF"

record UserGroupPerm =
  ugpUserID :: string
  ugpGroupID :: string
  ugpPerms :: int

definition AnonymousUserPermissions :: UserGroupPerm where
  "AnonymousUserPermissions = \<lparr>ugpUserID = '''', ugpGroupID = '''', ugpPerms = OTHERS_READ\<rparr>"

definition GroupAuthPermissions :: "string \<Rightarrow> UserGroupPerm" where
  "GroupAuthPermissions groupID = \<lparr>ugpUserID = groupID, ugpGroupID = groupID, ugpPerms = GROUP_READ OR GROUP_WRITE\<rparr>"

text \<open>The protocol buffer \<^verbatim>\<open>ACL\<close>; a message field that is not set is \<open>None\<close>, and the id of an unset user is empty.\<close>

record ACL_Permissions =
  acl_Read :: bool
  acl_Write :: bool

record ACL =
  acl_UserId :: "string option"
  acl_GroupId :: string
  OwnerPermissions :: "ACL_Permissions option"
  GroupPermissions :: "ACL_Permissions option"
  OthersPermissions :: "ACL_Permissions option"

definition ToACLProto :: "string option \<Rightarrow> string \<Rightarrow> int \<Rightarrow> ACL" where
  "ToACLProto userID groupID perms =
     \<lparr>acl_UserId = userID, acl_GroupId = groupID,
      OwnerPermissions = Some \<lparr>acl_Read = (perms AND OWNER_READ \<noteq> 0), acl_Write = (perms AND OWNER_WRITE \<noteq> 0)\<rparr>,
      GroupPermissions = Some \<lparr>acl_Read = (perms AND GROUP_READ \<noteq> 0), acl_Write = (perms AND GROUP_WRITE \<noteq> 0)\<rparr>,
      OthersPermissions = Some \<lparr>acl_Read = (perms AND OTHERS_READ \<noteq> 0), acl_Write = (perms AND OTHERS_WRITE \<noteq> 0)\<rparr>\<rparr>"

definition or_if :: "bool \<Rightarrow> int \<Rightarrow> int \<Rightarrow> int" where
  "or_if b m p = (if b then p OR m else p)"

definition FromACL :: "ACL option \<Rightarrow> error + int" where
  "FromACL acl =
     (case acl of
        None \<Rightarrow> Inl (InvalidArgumentError ''ACL is nil.'')
      | Some a \<Rightarrow>
          (case (OwnerPermissions a, GroupPermissions a, OthersPermissions a) of
             (Some owner, Some grp, Some others) \<Rightarrow>
               Inr (or_if (acl_Write others) OTHERS_WRITE (or_if (acl_Read others) OTHERS_READ
                   (or_if (acl_Write grp) GROUP_WRITE (or_if (acl_Read grp) GROUP_READ
                   (or_if (acl_Write owner) OWNER_WRITE (or_if (acl_Read owner) OWNER_READ 0))))))
           | _ \<Rightarrow> Inl (InvalidArgumentError ''ACL is missing one or more required permissions fields.'')))"

definition acl_user :: "ACL \<Rightarrow> string" where
  "acl_user a = (case acl_UserId a of None \<Rightarrow> '''' | Some u \<Rightarrow> u)"

text \<open>The checks return the error, \<open>None\<close> being success.\<close>

definition AuthorizeRead :: "Claims option \<Rightarrow> ACL option \<Rightarrow> error option" where
  "AuthorizeRead authenticatedUser acl =
     (case authenticatedUser of
        None \<Rightarrow> Some (InvalidArgumentError ''authenticatedUser cannot be nil.'')
      | Some u \<Rightarrow>
          (case acl of
             None \<Rightarrow> Some (InvalidArgumentError ''acl cannot be nil.'')
           | Some a \<Rightarrow>
               (case FromACL acl of
                  Inl err \<Rightarrow> Some err
                | Inr perms \<Rightarrow>
                    if perms AND OTHERS_READ \<noteq> 0 \<or> IsAdmin u then None
                    else if UserID u = acl_user a \<and> perms AND OWNER_READ \<noteq> 0 then None
                    else if perms AND GROUP_READ \<noteq> 0 \<and> acl_GroupId a \<in> set (AllowedGroups u) then None
                    else Some (PermissionDeniedError ''You do not have permission to perform this action.''))))"

definition AuthorizeWrite :: "Claims option \<Rightarrow> ACL option \<Rightarrow> error option" where
  "AuthorizeWrite authenticatedUser acl =
     (case authenticatedUser of
        None \<Rightarrow> Some (InvalidArgumentError ''authenticatedUser cannot be nil.'')
      | Some u \<Rightarrow>
          (case acl of
             None \<Rightarrow> Some (InvalidArgumentError ''acl cannot be nil.'')
           | Some a \<Rightarrow>
               (case FromACL acl of
                  Inl err \<Rightarrow> Some err
                | Inr perms \<Rightarrow>
                    if UserID u = acl_user a \<and> perms AND OWNER_WRITE \<noteq> 0 then None
                    else if perms AND GROUP_WRITE \<noteq> 0 \<and> acl_GroupId a \<in> set (AllowedGroups u) then None
                    else Some (PermissionDeniedError ''You do not have permission to perform this action.''))))"

section \<open>Permissions in queries\<close>

text \<open>The clauses for an authenticated user; \<open>tp\<close> is the prefix of the table's alias.\<close>

definition perms_clause :: "string \<Rightarrow> string" where
  "perms_clause tp = ''('' @ tp @ ''perms & ? != 0)''"

definition user_clauses :: "string \<Rightarrow> Claims \<Rightarrow> OrClauses \<Rightarrow> OrClauses option" where
  "user_clauses tp u q = do {
     q1 \<leftarrow> (if UserID u \<noteq> '''' then do {
              q' \<leftarrow> AddOr (''('' @ tp @ ''perms & ? != 0 AND '' @ tp @ ''group_id IN '' @
                     ''('' @ joinWith '', '' (map (\<lambda>_. ''?'') (AllowedGroups u)) @ '')'' @ '')'')
                   (IntArg GROUP_READ # map StrArg (AllowedGroups u)) q;
              AddOr (''('' @ tp @ ''perms & ? != 0 AND '' @ tp @ ''user_id = ?)'') [IntArg OWNER_READ, StrArg (UserID u)] q'
            } else if GroupID u \<noteq> '''' then
              AddOr (''('' @ tp @ ''perms & ? != 0 AND '' @ tp @ ''group_id = ?)'') [IntArg GROUP_READ, StrArg (GroupID u)] q
            else Some q);
     if IsAdmin u then AddOr (perms_clause tp) [IntArg PERMS_ALL] q1 else Some q1
   }"

definition AddPermissionsCheckToQueryWithTableAlias :: "auth_env \<Rightarrow> string \<Rightarrow> Query \<Rightarrow> (error + Query) option" where
  "AddPermissionsCheckToQueryWithTableAlias env tableAlias q = do {
     let tablePrefix = (if tableAlias \<noteq> '''' then tableAlias @ ''.'' else '''');
     q0 \<leftarrow> AddOr (perms_clause tablePrefix) [IntArg OTHERS_READ] NoClauses;
     let user = (case authenticator env of Some (Inr u) \<Rightarrow> Some u | _ \<Rightarrow> None);
     q1 \<leftarrow> (case user of Some u \<Rightarrow> user_clauses tablePrefix u q0 | None \<Rightarrow> Some q0);
     if user = None \<and> \<not> AnonymousUsageEnabled env
     then Some (Inl (PermissionDeniedError ''Anonymous access disabled, permission denied.''))
     else do {
       (orQuery, orArgs) \<leftarrow> OrClauses_Build q1;
       q' \<leftarrow> AddWhereClause (''('' @ orQuery @ '')'') orArgs q;
       Some (Inr q')
     }
   }"

definition AddPermissionsCheckToQuery :: "auth_env \<Rightarrow> Query \<Rightarrow> (error + Query) option" where
  "AddPermissionsCheckToQuery env q = AddPermissionsCheckToQueryWithTableAlias env '''' q"

section \<open>Groups\<close>

definition AuthorizeGroupAccess :: "auth_env \<Rightarrow> string \<Rightarrow> error option" where
  "AuthorizeGroupAccess env groupID =
     (if groupID = '''' then Some (InvalidArgumentError ''group ID is required'')
      else case AuthenticatedUser env of
        Inl err \<Rightarrow> Some err
      | Inr user \<Rightarrow>
          if groupID \<in> set (AllowedGroups user) then None
          else Some (PermissionDeniedError ''You do not have access to the requested group''))"

text \<open>The request context, as far as it is used: the selected group and the group to impersonate, if there is a context.\<close>

record RequestContext =
  rcGroupId :: string
  rcImpersonatingGroupId :: string

definition AuthenticateSelectedGroupID :: "auth_env \<Rightarrow> RequestContext option \<Rightarrow> error + string" where
  "AuthenticateSelectedGroupID env protoCtx =
     (case protoCtx of
        None \<Rightarrow> Inl (InvalidArgumentError ''request_context field is required'')
      | Some c \<Rightarrow>
          if rcGroupId c = '''' then Inl (InvalidArgumentError ''request_context.group_id field is required'')
          else (case AuthorizeGroupAccess env (rcGroupId c) of Some err \<Rightarrow> Inl err | None \<Rightarrow> Inr (rcGroupId c)))"

definition AuthenticatedGroupID :: "auth_env \<Rightarrow> error + string" where
  "AuthenticatedGroupID env =
     (case AuthenticatedUser env of
        Inl err \<Rightarrow> Inl err
      | Inr u \<Rightarrow>
          if GroupID u = '''' then Inl (FailedPreconditionError ''Authenticated user does not have an associated group ID'')
          else Inr (GroupID u))"

section \<open>Roles of RPCs\<close>

definition RoleIndependentRPCs :: "string list" where
  "RoleIndependentRPCs =
     [''GetUser'', ''GetImpersonatedUser'', ''CreateUser'', ''GetGroup'', ''GetInvocation'', ''GetEventLogChunk'', ''GetTarget'',
      ''GetExecution'', ''CreateGroup'', ''JoinGroup'', ''GetBazelConfig'', ''GetInvocation'', ''GetLog'', ''GetTarget'', ''GetAction'', ''GetFile'']"

definition GroupAdminOnlyRPCs :: "string list" where
  "GroupAdminOnlyRPCs =
     [''UpdateGroup'', ''GetGroupUsers'', ''UpdateGroupUsers'', ''UnlinkGitHubAccount'', ''CreateApiKey'', ''UpdateApiKey'', ''DeleteApiKey'',
      ''CreateWorkflow'', ''DeleteWorkflow'', ''GetWorkflows'', ''GetRepos'', ''GetExecutionNodes'', ''GetUsage'']"

definition ServerAdminOnlyRPCs :: "string list" where
  "ServerAdminOnlyRPCs = [''GetInvocationOwner'']"

definition AuthorizeRPC :: "auth_env \<Rightarrow> string \<Rightarrow> error option" where
  "AuthorizeRPC env rpcName =
     (if rpcName \<in> set RoleIndependentRPCs then None
      else case AuthenticatedUser env of
        Inl err \<Rightarrow> Some err
      | Inr u \<Rightarrow>
          if ''admin'' \<in> set (AllowedGroups u) then None
          else if AuthAdminGroupID env \<noteq> '''' \<and> rpcName \<in> set ServerAdminOnlyRPCs then
            if \<exists>m\<in>set (GroupMemberships u). memberGroupID m = AuthAdminGroupID env \<and> memberRole m = role_Admin then None
            else Some (PermissionDeniedError ''Permission denied.'')
          else if GroupID u = '''' then Some (UnauthenticatedError ''Could not determine authenticated group ID from request'')
          else AuthorizeGroupRole u (GroupID u)
                 (if rpcName \<in> set GroupAdminOnlyRPCs then role_Admin else role_Admin OR role_Developer))"

section \<open>Lemmas\<close>

lemmas perm_bits = OWNER_READ_def OWNER_WRITE_def GROUP_READ_def GROUP_WRITE_def OTHERS_READ_def OTHERS_WRITE_def

text \<open>A single bit of a number that is or-ed together from single bits.\<close>

lemma and_bit: "(p :: int) AND 2 ^ n \<noteq> 0 \<longleftrightarrow> bit p n"
  by (simp add: and_exp_eq_0_iff_not_bit)

lemma perm_bit_simps [simp]:
  "p AND OWNER_READ \<noteq> 0 \<longleftrightarrow> bit p 8" "p AND OWNER_WRITE \<noteq> 0 \<longleftrightarrow> bit p 7" "p AND GROUP_READ \<noteq> 0 \<longleftrightarrow> bit p 5"
  "p AND GROUP_WRITE \<noteq> 0 \<longleftrightarrow> bit p 4" "p AND OTHERS_READ \<noteq> 0 \<longleftrightarrow> bit p 2" "p AND OTHERS_WRITE \<noteq> 0 \<longleftrightarrow> bit p 1"
  using and_bit [of p 8] and_bit [of p 7] and_bit [of p 5] and_bit [of p 4] and_bit [of p 2] and_bit [of p 1]
  by (simp_all add: perm_bits)

lemma perm_exp: "OWNER_READ = 2 ^ 8" "OWNER_WRITE = 2 ^ 7" "GROUP_READ = 2 ^ 5" "GROUP_WRITE = 2 ^ 4" "OTHERS_READ = 2 ^ 2" "OTHERS_WRITE = 2 ^ 1"
  by (simp_all add: perm_bits)

lemma bit_or_if [simp]: "bit (or_if b (2 ^ k) p) n \<longleftrightarrow> bit p n \<or> b \<and> n = k"
  by (auto simp: or_if_def bit_or_iff bit_exp_iff)

lemma FromACL_bits:
  assumes "OwnerPermissions a = Some ow" and "GroupPermissions a = Some gr" and "OthersPermissions a = Some ot"
  obtains p where "FromACL (Some a) = Inr p" "bit p 8 = acl_Read ow" "bit p 7 = acl_Write ow" "bit p 5 = acl_Read gr"
    "bit p 4 = acl_Write gr" "bit p 2 = acl_Read ot" "bit p 1 = acl_Write ot"
    "\<And>n. n \<notin> {8, 7, 5, 4, 2, 1} \<Longrightarrow> \<not> bit p n"
proof -
  let ?p = "or_if (acl_Write ot) OTHERS_WRITE (or_if (acl_Read ot) OTHERS_READ
                   (or_if (acl_Write gr) GROUP_WRITE (or_if (acl_Read gr) GROUP_READ
                   (or_if (acl_Write ow) OWNER_WRITE (or_if (acl_Read ow) OWNER_READ 0)))))"
  have "FromACL (Some a) = Inr ?p" using assms by (simp add: FromACL_def)
  then show thesis by (rule that) (simp_all only: perm_exp bit_or_if bit_0_eq; simp)+
qed

lemma ToACL_bits:
  obtains p where "FromACL (Some (ToACLProto user grp perms)) = Inr p" "bit p 8 = bit perms 8" "bit p 7 = bit perms 7"
    "bit p 5 = bit perms 5" "bit p 4 = bit perms 4" "bit p 2 = bit perms 2" "bit p 1 = bit perms 1"
    "\<And>n. n \<notin> {8, 7, 5, 4, 2, 1} \<Longrightarrow> \<not> bit p n"
proof -
  let ?a = "ToACLProto user grp perms"
  have f: "OwnerPermissions ?a = Some \<lparr>acl_Read = bit perms 8, acl_Write = bit perms 7\<rparr>"
    "GroupPermissions ?a = Some \<lparr>acl_Read = bit perms 5, acl_Write = bit perms 4\<rparr>"
    "OthersPermissions ?a = Some \<lparr>acl_Read = bit perms 2, acl_Write = bit perms 1\<rparr>"
    by (simp_all add: ToACLProto_def)
  show thesis by (rule FromACL_bits [OF f, unfolded ACL_Permissions.select_convs]) (rule that; assumption)
qed

section \<open>The query condition\<close>

text \<open>The four forms of condition the code writes.\<close>

definition padded :: "string \<Rightarrow> string" where
  "padded s = '' '' @ s @ '' ''"

definition user_form :: "string \<Rightarrow> string" where
  "user_form tp = ''('' @ tp @ ''perms & ? != 0 AND '' @ tp @ ''user_id = ?)''"

definition group_form :: "string \<Rightarrow> string" where
  "group_form tp = ''('' @ tp @ ''perms & ? != 0 AND '' @ tp @ ''group_id = ?)''"

definition groups_form :: "string \<Rightarrow> nat \<Rightarrow> string" where
  "groups_form tp n = ''('' @ tp @ ''perms & ? != 0 AND '' @ tp @ ''group_id IN ('' @ joinWith '', '' (replicate n ''?'') @ ''))''"

lemma pad_parens: "pad (''('' @ s @ '')'') = Some (padded (''('' @ s @ '')''))"
  by (simp add: pad_def padded_def)

lemma pad_forms:
  "pad (perms_clause tp) = Some (padded (perms_clause tp))" "pad (user_form tp) = Some (padded (user_form tp))"
  "pad (group_form tp) = Some (padded (group_form tp))" "pad (groups_form tp n) = Some (padded (groups_form tp n))"
  using pad_parens [of "tp @ ''perms & ? != 0''"] pad_parens [of "tp @ ''perms & ? != 0 AND '' @ tp @ ''user_id = ?''"]
    pad_parens [of "tp @ ''perms & ? != 0 AND '' @ tp @ ''group_id = ?''"]
    pad_parens [of "tp @ ''perms & ? != 0 AND '' @ tp @ ''group_id IN ('' @ joinWith '', '' (replicate n ''?'') @ '')''"]
  by (simp_all add: perms_clause_def user_form_def group_form_def groups_form_def)

lemma marks_join_replicate: "marks (joinWith '', '' (replicate n ''?'')) = n"
  by (simp add: marks_joinWith sum_list_replicate)

lemma marks_forms:
  assumes "marks tp = 0"
  shows "marks (padded (perms_clause tp)) = 1" "marks (padded (user_form tp)) = 2" "marks (padded (group_form tp)) = 2"
    "marks (padded (groups_form tp n)) = Suc n"
  using assms by (simp_all add: padded_def perms_clause_def user_form_def group_form_def groups_form_def marks_join_replicate)

text \<open>The conditions the code adds for a user, in terms of the forms.\<close>

lemma user_clauses_forms:
  "user_clauses tp u q = Some
     \<lparr>or_whereClauses = or_whereClauses q
        @ (if UserID u \<noteq> '''' then [padded (groups_form tp (length (AllowedGroups u))), padded (user_form tp)]
           else if GroupID u \<noteq> '''' then [padded (group_form tp)] else [])
        @ (if IsAdmin u then [padded (perms_clause tp)] else []),
      or_arguments = or_arguments q
        @ (if UserID u \<noteq> '''' then IntArg GROUP_READ # map StrArg (AllowedGroups u) @ [IntArg OWNER_READ, StrArg (UserID u)]
           else if GroupID u \<noteq> '''' then [IntArg GROUP_READ, StrArg (GroupID u)] else [])
        @ (if IsAdmin u then [IntArg PERMS_ALL] else [])\<rparr>"
proof -
  have g: "''('' @ tp @ ''perms & ? != 0 AND '' @ tp @ ''group_id IN '' @ ''('' @ joinWith '', '' (map (\<lambda>_. ''?'') gs) @ '')'' @ '')''
      = groups_form tp (length gs)" for gs :: "string list"
    by (simp add: groups_form_def map_replicate_const)
  show ?thesis
    unfolding user_clauses_def g user_form_def [symmetric] group_form_def [symmetric]
    by (simp add: AddOr_def pad_forms)
qed

section \<open>Properties\<close>

text \<open>The permission check keeps a query balanced: every id and every bit mask it compares with is an argument of the query
  behind a question mark of its own, in the order of the question marks, and none is part of the text.\<close>

theorem permission_check_keeps_balance:
  assumes "AddPermissionsCheckToQueryWithTableAlias env tableAlias q = Some (Inr q')" and "balanced q" and "marks tableAlias = 0"
  shows "balanced q'"
proof -
  define tp where "tp = (if tableAlias \<noteq> '''' then tableAlias @ ''.'' else '''')"
  define user where "user = (case authenticator env of Some (Inr u) \<Rightarrow> Some u | _ \<Rightarrow> None)"
  have tp: "marks tp = 0" using assms(3) by (simp add: tp_def)
  obtain q0 q1 s a where q: "AddOr (perms_clause tp) [IntArg OTHERS_READ] NoClauses = Some q0"
      "(case user of Some u \<Rightarrow> user_clauses tp u q0 | None \<Rightarrow> Some q0) = Some q1"
      "OrClauses_Build q1 = Some (s, a)" "AddWhereClause (''('' @ s @ '')'') a q = Some q'"
    using assms(1) unfolding AddPermissionsCheckToQueryWithTableAlias_def Let_def tp_def [symmetric] user_def [symmetric]
    by (auto split: bind_splits if_splits)
  have q1: "sum_list (map marks (or_whereClauses q1)) = length (or_arguments q1)"
    using q(1,2) marks_forms [OF tp] by (cases user) (auto simp: AddOr_def pad_forms NoClauses_def user_clauses_forms simp del: marks_simps)
  have "marks s = length a"
    using q1 q(3) marks_joinWith [of "''OR''"] by (auto simp: OrClauses_Build_def dest!: marks_pad split: if_splits)
  moreover obtain l off ord g b as w j asc where "q = Query l off ord g b as w j asc" by (cases q) blast
  ultimately show ?thesis using q(4) assms(2) by (auto dest!: marks_pad)
qed

text \<open>An access-control list keeps exactly the six read and write bits of the stored permissions: execute bits are lost.\<close>

theorem FromACL_ToACLProto:
  "FromACL (Some (ToACLProto user grp perms)) = Inr (perms AND 0x1B6)"
proof -
  obtain p where p: "FromACL (Some (ToACLProto user grp perms)) = Inr p" "bit p 8 = bit perms 8" "bit p 7 = bit perms 7"
      "bit p 5 = bit perms 5" "bit p 4 = bit perms 4" "bit p 2 = bit perms 2" "bit p 1 = bit perms 1"
      "\<And>n. n \<notin> {8, 7, 5, 4, 2, 1} \<Longrightarrow> \<not> bit p n"
    by (rule ToACL_bits [of user grp perms]) (rule that; assumption)
  have m: "bit (0x1B6 :: int) n \<longleftrightarrow> n \<in> {8, 7, 5, 4, 2, 1}" for n
  proof -
    have "(0x1B6 :: int) = 2 ^ 8 OR 2 ^ 7 OR 2 ^ 5 OR 2 ^ 4 OR 2 ^ 2 OR 2 ^ 1" by simp
    then show ?thesis by (simp only: bit_or_iff bit_exp_iff) auto
  qed
  have "bit p n \<longleftrightarrow> bit (perms AND 0x1B6) n" for n
  proof (cases "n \<in> {8, 7, 5, 4, 2, 1}")
    case True
    then show ?thesis unfolding bit_and_iff m using p(2-7) by (elim insertE) simp_all
  next
    case False
    then show ?thesis unfolding bit_and_iff m using p(8) [OF False] by blast
  qed
  then have "p = perms AND 0x1B6" by (rule bit_eqI)
  with p(1) show ?thesis by simp
qed

text \<open>Where no server-admin group is configured, the RPCs that only server admins may call are open to every developer of any group.\<close>

theorem server_admin_rpcs_open_without_admin_group:
  assumes "rpc \<in> set ServerAdminOnlyRPCs" and "AuthAdminGroupID env = ''''" and "authenticator env = Some (Inr u)" and "GroupID u \<noteq> ''''"
    and "find (\<lambda>m. memberGroupID m = GroupID u) (GroupMemberships u) = Some m" and "memberRole m = role_Developer"
  shows "AuthorizeRPC env rpc = None"
  using assms by (auto simp: AuthorizeRPC_def AuthenticatedUser_def AuthorizeGroupRole_def Let_def ServerAdminOnlyRPCs_def GroupAdminOnlyRPCs_def
      RoleIndependentRPCs_def)

definition example_claims :: Claims where
  "example_claims = \<lparr>UserID = ''US1'', GroupID = ''GR1'', Impersonating = False, AllowedGroups = [''GR1'', ''GR2''],
     GroupMemberships = [\<lparr>memberGroupID = ''GR1'', memberRole = role_Developer\<rparr>], Capabilities = [], UseGroupOwnedExecutors = False\<rparr>"

theorem permission_check_keeps_balance_witness:
  "\<exists>q'. AddPermissionsCheckToQueryWithTableAlias
      \<lparr>authenticator = Some (Inr example_claims), AnonymousUsageEnabled = False, AuthAdminGroupID = ''''\<rparr> ''i'' (NewQuery ''SELECT 1'') = Some (Inr q')
    \<and> balanced q'"
proof -
  let ?env = "\<lparr>authenticator = Some (Inr example_claims), AnonymousUsageEnabled = False, AuthAdminGroupID = ''''\<rparr>"
  have "case AddPermissionsCheckToQueryWithTableAlias ?env ''i'' (NewQuery ''SELECT 1'') of Some (Inr _) \<Rightarrow> True | _ \<Rightarrow> False"
    by code_simp
  then obtain q' where q': "AddPermissionsCheckToQueryWithTableAlias ?env ''i'' (NewQuery ''SELECT 1'') = Some (Inr q')"
    by (auto split: option.splits sum.splits)
  moreover have "balanced q'"
    by (rule permission_check_keeps_balance [OF q']) (simp_all add: NewQuery_def)
  ultimately show ?thesis by blast
qed

theorem server_admin_rpcs_open_without_admin_group_witness:
  "AuthorizeRPC \<lparr>authenticator = Some (Inr example_claims), AnonymousUsageEnabled = False, AuthAdminGroupID = ''''\<rparr> ''GetInvocationOwner'' = None"
  by (rule server_admin_rpcs_open_without_admin_group [where u = example_claims and m = "\<lparr>memberGroupID = ''GR1'', memberRole = role_Developer\<rparr>"])
    (simp_all add: ServerAdminOnlyRPCs_def example_claims_def)

end
