(* ===== verification/Auth.thy ===== *)
theory Auth
  imports Perms Lru Digest
begin

text \<open>
  \<^verbatim>\<open>enterprise/server/auth/auth.go\<close>: how a request gets its claims, from an API key, a user's session or a JSON web token, and the
  cache of API keys, a client of the LRU cache. Parameters: the database (\<open>auth_db\<close>), the signing and verification of
  tokens (a third-party package), the clock (the time, in nanoseconds, of the call). OpenID providers, cookies and the HTTP handlers are not
  modelled.
\<close>

section \<open>The cache of API keys\<close>

record APIKeyGroup =
  akgCapabilities :: "32 word"
  akgGroupID :: string
  akgUseGroupOwnedExecutors :: bool

record apiKeyGroupCacheEntry =
  entry_data :: APIKeyGroup
  expiresAfter :: int

record apiKeyGroupCache =
  cache_lru :: "apiKeyGroupCacheEntry LRU"
  ttl :: int

definition apiKeyGroupCacheSize :: int where
  "apiKeyGroupCacheSize = 10000"

definition defaultAPIKeyGroupCacheTTL :: int where
  "defaultAPIKeyGroupCacheTTL = 5 * 60 * 1000000000"

text \<open>\<open>configTTL\<close> is what \<^verbatim>\<open>time.ParseDuration\<close> makes of the configured string, if one is set.\<close>

definition newAPIKeyGroupCache :: "(error + int) option \<Rightarrow> error + apiKeyGroupCache" where
  "newAPIKeyGroupCache configTTL =
     (case configTTL of
        Some (Inl err) \<Rightarrow> Inl (InvalidArgumentError ''invalid API Key -> Group cache TTL [%s]: %v'')
      | _ \<Rightarrow>
          let t = (case configTTL of Some (Inr d) \<Rightarrow> d | _ \<Rightarrow> defaultAPIKeyGroupCacheTTL) in
          (case NewLRU (Some (\<lambda>v. 1)) False apiKeyGroupCacheSize of
             Inl err \<Rightarrow> Inl (InternalError ''error initializing API Key -> Group cache: %v'')
           | Inr l \<Rightarrow> Inr \<lparr>cache_lru = l, ttl = t\<rparr>))"

definition key_string :: "string \<Rightarrow> lru_key" where
  "key_string s = StringKey (map of_char s)"

definition apiKeyGroupCache_Get :: "hashes \<Rightarrow> int \<Rightarrow> string \<Rightarrow> apiKeyGroupCache \<Rightarrow> APIKeyGroup option \<times> apiKeyGroupCache" where
  "apiKeyGroupCache_Get hs now apiKey c =
     (let (v, l) = LRU_Get hs (key_string apiKey) (cache_lru c);
          c' = c\<lparr>cache_lru := l\<rparr> in
      case v of
        None \<Rightarrow> (None, c')
      | Some entry \<Rightarrow> if now > expiresAfter entry then (None, c') else (Some (entry_data entry), c'))"

definition apiKeyGroupCache_Add :: "hashes \<Rightarrow> int \<Rightarrow> string \<Rightarrow> APIKeyGroup \<Rightarrow> apiKeyGroupCache \<Rightarrow> apiKeyGroupCache option" where
  "apiKeyGroupCache_Add hs now apiKey akg c =
     map_option (\<lambda>(_, l). c\<lparr>cache_lru := l\<rparr>)
       (LRU_Add hs (key_string apiKey) \<lparr>entry_data = akg, expiresAfter = now + ttl c\<rparr> (cache_lru c))"

section \<open>The authentication database\<close>

record User =
  dbUserID :: string
  dbGroups :: "(string \<times> Role) list"

record auth_db =
  GetAPIKeyGroupFromAPIKey :: "string \<Rightarrow> error + APIKeyGroup"
  GetAPIKeyGroupFromBasicAuth :: "string \<Rightarrow> string \<Rightarrow> error + APIKeyGroup"
  LookupUserFromSubID :: "string \<Rightarrow> error + User"

text \<open>
  The look-up of an API key: through the cache, if there is one. The result is \<open>None\<close> only if the cache's eviction loop
  does not end.
\<close>

definition lookupAPIKeyGroupFromAPIKey :: "hashes \<Rightarrow> int \<Rightarrow> auth_db option \<Rightarrow> string \<Rightarrow> apiKeyGroupCache option
    \<Rightarrow> ((error + APIKeyGroup) \<times> apiKeyGroupCache option) option" where
  "lookupAPIKeyGroupFromAPIKey hs now authDB apiKey cache =
     (if apiKey = '''' then Some (Inl (UnauthenticatedError ''missing API key''), cache)
      else
        let (d, cache') = (case cache of
              None \<Rightarrow> (None, None)
            | Some c \<Rightarrow> let (d, c') = apiKeyGroupCache_Get hs now apiKey c in (d, Some c')) in
        case d of
          Some akg \<Rightarrow> Some (Inr akg, cache')
        | None \<Rightarrow>
            (case authDB of
               None \<Rightarrow> Some (Inl (FailedPreconditionError ''AuthDB not configured''), cache')
             | Some db \<Rightarrow>
                 (case (GetAPIKeyGroupFromAPIKey db apiKey, cache') of
                    (Inr akg, Some c) \<Rightarrow> map_option (\<lambda>c'. (Inr akg, Some c')) (apiKeyGroupCache_Add hs now apiKey akg c)
                  | (r, _) \<Rightarrow> Some (r, cache'))))"

section \<open>Claims\<close>

definition userClaims :: "User \<Rightarrow> string \<Rightarrow> Claims" where
  "userClaims u effectiveGroup =
     \<lparr>UserID = dbUserID u, GroupID = effectiveGroup, Impersonating = False, AllowedGroups = map fst (dbGroups u),
      GroupMemberships = map (\<lambda>(g, r). \<lparr>memberGroupID = g, memberRole = r\<rparr>) (dbGroups u),
      Capabilities = [], UseGroupOwnedExecutors = False\<rparr>"

text \<open>\<open>order\<close> is the order Go enumerates the capabilities in.\<close>

definition groupClaims :: "Capability list \<Rightarrow> APIKeyGroup \<Rightarrow> Claims" where
  "groupClaims order akg =
     \<lparr>UserID = '''', GroupID = akgGroupID akg, Impersonating = False, AllowedGroups = [akgGroupID akg],
      GroupMemberships = [\<lparr>memberGroupID = akgGroupID akg, memberRole = role_Default\<rparr>],
      Capabilities = capabilities_FromInt order (akgCapabilities akg), UseGroupOwnedExecutors = akgUseGroupOwnedExecutors akg\<rparr>"

definition claimsFromAPIKey :: "hashes \<Rightarrow> int \<Rightarrow> Capability list \<Rightarrow> auth_db option \<Rightarrow> string \<Rightarrow> apiKeyGroupCache option
    \<Rightarrow> ((error + Claims) \<times> apiKeyGroupCache option) option" where
  "claimsFromAPIKey hs now order authDB apiKey cache =
     map_option (\<lambda>(r, cache'). (map_sum id (groupClaims order) r, cache')) (lookupAPIKeyGroupFromAPIKey hs now authDB apiKey cache)"

definition claimsFromBasicAuth :: "Capability list \<Rightarrow> auth_db option \<Rightarrow> string \<Rightarrow> string \<Rightarrow> error + Claims" where
  "claimsFromBasicAuth order authDB login pass =
     (case authDB of
        None \<Rightarrow> Inl (FailedPreconditionError ''AuthDB not configured'')
      | Some db \<Rightarrow> map_sum id (groupClaims order) (GetAPIKeyGroupFromBasicAuth db login pass))"

definition claimsFromAuthorityString :: "hashes \<Rightarrow> int \<Rightarrow> Capability list \<Rightarrow> auth_db option \<Rightarrow> string \<Rightarrow> apiKeyGroupCache option
    \<Rightarrow> ((error + Claims) \<times> apiKeyGroupCache option) option" where
  "claimsFromAuthorityString hs now order authDB authority cache =
     (case splitTwo CHR '':'' authority of
        [login, pass] \<Rightarrow> Some (claimsFromBasicAuth order authDB login pass, cache)
      | _ \<Rightarrow> claimsFromAPIKey hs now order authDB authority cache)"

text \<open>
  The claims of a user: \<open>adminGroupID\<close> is the configured server-admin group, \<open>rc\<close> the request context. To impersonate,
  some membership must be an admin's of that group.
\<close>

definition ClaimsFromSubID :: "string \<Rightarrow> auth_db option \<Rightarrow> RequestContext option \<Rightarrow> string \<Rightarrow> error + Claims" where
  "ClaimsFromSubID adminGroupID authDB rc subID =
     (case authDB of
        None \<Rightarrow> Inl (FailedPreconditionError ''AuthDB not configured'')
      | Some db \<Rightarrow>
          (case LookupUserFromSubID db subID of
             Inl err \<Rightarrow> Inl err
           | Inr u \<Rightarrow>
               let eg = (case rc of
                           Some c \<Rightarrow> if rcGroupId c \<noteq> '''' \<and> rcGroupId c \<in> fst ` set (dbGroups u) then rcGroupId c else ''''
                         | None \<Rightarrow> '''');
                   claims = userClaims u eg in
               case rc of
                 None \<Rightarrow> Inr claims
               | Some c \<Rightarrow>
                   if rcImpersonatingGroupId c = '''' then Inr claims
                   else if \<exists>m\<in>set (GroupMemberships claims). memberGroupID m = adminGroupID \<and> memberRole m = role_Admin
                   then Inr ((userClaims (u\<lparr>dbGroups := [(rcImpersonatingGroupId c, role_Admin)]\<rparr>) (rcImpersonatingGroupId c))
                               \<lparr>Impersonating := True\<rparr>)
                   else Inl (PermissionDeniedError ''You do not have permissions to impersonate group members.'')))"

section \<open>API keys in text\<close>

definition APIKeyHeader :: string where
  "APIKeyHeader = ''x-buildbuddy-api-key''"

definition is_alnum :: "char \<Rightarrow> bool" where
  "is_alnum c \<longleftrightarrow> (let n = of_char c :: nat in 48 \<le> n \<and> n \<le> 57 \<or> 65 \<le> n \<and> n \<le> 90 \<or> 97 \<le> n \<and> n \<le> 122)"

text \<open>The matches of \<open>apiKeyRegex\<close>, left to right and not overlapping: the header, an equals sign, and letters and digits.\<close>

function apiKeyRegex :: "string \<Rightarrow> string list" where
  "apiKeyRegex s =
     (case s of
        [] \<Rightarrow> []
      | c # cs \<Rightarrow>
          (case strip_prefix (APIKeyHeader @ ''='') s of
             Some r \<Rightarrow> takeWhile is_alnum r # apiKeyRegex (dropWhile is_alnum r)
           | None \<Rightarrow> apiKeyRegex cs))"
  by pat_completeness auto
termination
proof (relation "measure length")
  fix s r :: string and c cs x
  assume "s = c # cs" and "strip_prefix (APIKeyHeader @ ''='') s = Some r"
  then have "length s = length (APIKeyHeader @ ''='') + length r" using strip_prefix_Some by fastforce
  then show "(dropWhile is_alnum r, s) \<in> measure length"
    using length_dropWhile_le [of is_alnum r] by simp
qed simp_all

declare apiKeyRegex.simps [simp del]

definition ParseAPIKeyFromString :: "string \<Rightarrow> error + string" where
  "ParseAPIKeyFromString input =
     (let matches = apiKeyRegex input in
      if matches = [] then Inr ''''
      else if last matches \<noteq> '''' then Inr (last matches)
      else Inl (UnauthenticatedError ''failed to parse API key: missing API Key''))"

section \<open>The context of a request\<close>

text \<open>What the code reads from the context of a call: the peer's certificates (their serial numbers) if it has any, the headers,
  and the token and error that authentication put there.\<close>

record auth_ctx =
  peerCerts :: "string list"
  apiKeyHeaders :: "string list"
  basicAuthHeaders :: "string list"
  authorityHeaders :: "string list"
  tokenString :: "string option"
  userError :: "error option"

text \<open>Signing and verifying tokens.\<close>

record jwt =
  jwt_sign :: "Claims \<Rightarrow> error + string"
  jwt_verify :: "string \<Rightarrow> error + Claims"

definition AuthContextWithError :: "auth_ctx \<Rightarrow> error \<Rightarrow> auth_ctx" where
  "AuthContextWithError ctx err = ctx\<lparr>userError := Some err\<rparr>"

definition authContextFromClaims :: "jwt \<Rightarrow> auth_ctx \<Rightarrow> error + Claims \<Rightarrow> auth_ctx" where
  "authContextFromClaims j ctx r =
     (case r of
        Inl err \<Rightarrow> AuthContextWithError ctx err
      | Inr claims \<Rightarrow>
          (case jwt_sign j claims of
             Inl err \<Rightarrow> AuthContextWithError ctx err
           | Inr tok \<Rightarrow> ctx\<lparr>tokenString := Some tok, userError := None\<rparr>))"

definition userNotFoundMsg :: string where
  "userNotFoundMsg = ''User not found''"

definition authenticatedUser :: "jwt \<Rightarrow> auth_ctx \<Rightarrow> error + Claims" where
  "authenticatedUser j ctx =
     (case tokenString ctx of
        Some (c # cs) \<Rightarrow> jwt_verify j (c # cs)
      | _ \<Rightarrow>
          (case userError ctx of
             None \<Rightarrow> Inl (UnauthenticatedError userNotFoundMsg)
           | Some err \<Rightarrow>
               if IsUnauthenticatedError (Some err) \<or> IsPermissionDeniedError (Some err) then Inl err
               else Inl (UnauthenticatedError (userNotFoundMsg @ '': '' @ err_msg err))))"

definition authenticateGRPCRequest :: "hashes \<Rightarrow> int \<Rightarrow> Capability list \<Rightarrow> auth_db option \<Rightarrow> jwt \<Rightarrow> auth_ctx \<Rightarrow> bool
    \<Rightarrow> apiKeyGroupCache option \<Rightarrow> ((error + Claims) \<times> apiKeyGroupCache option) option" where
  "authenticateGRPCRequest hs now order authDB j ctx acceptJWT cache =
     (let missing = UnauthenticatedError ''gRPC request is missing credentials.'';
          no_header = (if acceptJWT \<and> \<not> isl (authenticatedUser j ctx) then authenticatedUser j ctx else Inl missing) in
      if peerCerts ctx \<noteq> [] \<and> hd (peerCerts ctx) \<noteq> '''' then claimsFromAPIKey hs now order authDB (hd (peerCerts ctx)) cache
      else if apiKeyHeaders ctx \<noteq> [] then claimsFromAPIKey hs now order authDB (last (apiKeyHeaders ctx)) cache
      else if basicAuthHeaders ctx \<noteq> [] then claimsFromAuthorityString hs now order authDB (hd (basicAuthHeaders ctx)) cache
      else if authorityHeaders ctx \<noteq> [] then
        (case splitTwo CHR ''@'' (hd (authorityHeaders ctx)) of
           [lp, host] \<Rightarrow> claimsFromAuthorityString hs now order authDB lp cache
         | _ \<Rightarrow> Some (no_header, cache))
      else Some (no_header, cache))"

definition AuthenticatedGRPCContext :: "hashes \<Rightarrow> int \<Rightarrow> Capability list \<Rightarrow> auth_db option \<Rightarrow> jwt \<Rightarrow> auth_ctx
    \<Rightarrow> apiKeyGroupCache option \<Rightarrow> (auth_ctx \<times> apiKeyGroupCache option) option" where
  "AuthenticatedGRPCContext hs now order authDB j ctx cache =
     map_option (\<lambda>(r, cache'). (authContextFromClaims j ctx r, cache'))
       (authenticateGRPCRequest hs now order authDB j ctx True cache)"

section \<open>The key cache is fresh\<close>

text \<open>A run of look-ups: the time of each, the database at that time, and the key.\<close>

type_synonym key_lookup = "int \<times> auth_db \<times> string"

fun lookups :: "hashes \<Rightarrow> key_lookup list \<Rightarrow> apiKeyGroupCache \<Rightarrow> ((error + APIKeyGroup) list \<times> apiKeyGroupCache) option" where
  "lookups hs [] c = Some ([], c)"
| "lookups hs ((now, db, ak) # ls) c =
     (case lookupAPIKeyGroupFromAPIKey hs now (Some db) ak (Some c) of
        Some (r, Some c') \<Rightarrow> map_option (\<lambda>(rs, c''). (r # rs, c'')) (lookups hs ls c')
      | _ \<Rightarrow> None)"

text \<open>Every entry was answered by the database at an earlier look-up of a key with the same hash, and expires \<open>ttl\<close> later.\<close>

definition answered :: "hashes \<Rightarrow> int \<Rightarrow> key_lookup list \<Rightarrow> string \<Rightarrow> apiKeyGroupCacheEntry \<Rightarrow> bool" where
  "answered hs life hist ak e \<longleftrightarrow> (\<exists>(t, db, ak')\<in>set hist. Lru.keyHash hs (key_string ak') = Lru.keyHash hs (key_string ak)
     \<and> GetAPIKeyGroupFromAPIKey db ak' = Inr (entry_data e) \<and> expiresAfter e = t + life)"

definition key_cache_inv :: "hashes \<Rightarrow> key_lookup list \<Rightarrow> apiKeyGroupCache \<Rightarrow> bool" where
  "key_cache_inv hs hist c \<longleftrightarrow> lru_ok (cache_lru c)
     \<and> (\<forall>ak e. lru_content hs (cache_lru c) (key_string ak) = Some e \<longrightarrow> answered hs (ttl c) hist ak e)"

lemma key_string_hash [simp]: "Lru.keyHash hs (key_string s) \<noteq> None"
  by (simp add: Lru.keyHash_def key_string_def)

lemma answered_mono: "answered hs life hist ak e \<Longrightarrow> answered hs life (hist @ ls) ak e"
  by (auto simp: answered_def)

lemma key_cache_New: "newAPIKeyGroupCache r = Inr c \<Longrightarrow> key_cache_inv hs [] c"
proof -
  assume n: "newAPIKeyGroupCache r = Inr c"
  then obtain l where l: "NewLRU (Some (\<lambda>v. 1)) False apiKeyGroupCacheSize = Inr l" "cache_lru c = l"
    by (auto simp: newAPIKeyGroupCache_def Let_def split: option.splits sum.splits)
  have "lru_content hs l (key_string s) = None" for s
    using lru_inv_New(2) [OF l(1)] by (cases "Lru.keyHash hs (key_string s)") (simp_all add: lru_content_def)
  with New_lru_ok [OF l(1)] l(2) show ?thesis by (simp add: key_cache_inv_def)
qed

lemma key_cache_Get:
  assumes "key_cache_inv hs hist c" and "apiKeyGroupCache_Get hs now ak c = (d, c')"
  shows "key_cache_inv hs hist c'" and "ttl c' = ttl c"
    and "d = Some akg \<Longrightarrow> \<exists>e. answered hs (ttl c) hist ak e \<and> entry_data e = akg \<and> now \<le> expiresAfter e"
proof -
  have ok: "lru_ok (cache_lru c)" using assms(1) by (simp add: key_cache_inv_def)
  note g = lru.get_law [OF ok key_string_hash, of hs ak]
  obtain v l where l: "LRU_Get hs (key_string ak) (cache_lru c) = (v, l)" by fastforce
  have c': "c' = c\<lparr>cache_lru := l\<rparr>" using assms(2) l by (auto simp: apiKeyGroupCache_Get_def Let_def split: option.splits if_splits)
  with g l assms(1) show "key_cache_inv hs hist c'" "ttl c' = ttl c" by (simp_all add: key_cache_inv_def)
  assume "d = Some akg"
  then obtain e where e: "v = Some e" "entry_data e = akg" "now \<le> expiresAfter e"
    using assms(2) l by (auto simp: apiKeyGroupCache_Get_def Let_def split: option.splits if_splits)
  then have "lru_content hs (cache_lru c) (key_string ak) = Some e" using g l by simp
  with e assms(1) show "\<exists>e. answered hs (ttl c) hist ak e \<and> entry_data e = akg \<and> now \<le> expiresAfter e"
    by (auto simp: key_cache_inv_def)
qed

lemma key_cache_Add:
  assumes "key_cache_inv hs hist c" and "GetAPIKeyGroupFromAPIKey db ak = Inr akg"
  shows "\<exists>c'. apiKeyGroupCache_Add hs now ak akg c = Some c' \<and> key_cache_inv hs (hist @ [(now, db, ak)]) c' \<and> ttl c' = ttl c"
proof -
  have ok: "lru_ok (cache_lru c)" using assms(1) by (simp add: key_cache_inv_def)
  let ?e = "\<lparr>entry_data = akg, expiresAfter = now + ttl c\<rparr>"
  obtain l where l: "LRU_Add hs (key_string ak) ?e (cache_lru c) = Some (True, l)" "lru_ok l"
    and w: "\<And>k' w. Lru.keyHash hs k' \<noteq> None \<Longrightarrow> lru_content hs l k' = Some w \<Longrightarrow>
      (if Lru.keyHash hs (key_string ak) = Lru.keyHash hs k' then w = ?e else lru_content hs (cache_lru c) k' = Some w)"
    using lru.add_law [OF ok key_string_hash, of hs ak ?e] by blast
  have "answered hs (ttl c) (hist @ [(now, db, ak)]) ak' e" if "lru_content hs l (key_string ak') = Some e" for ak' e
  proof (cases "Lru.keyHash hs (key_string ak) = Lru.keyHash hs (key_string ak')")
    case True
    with w [OF key_string_hash that] assms(2) show ?thesis by (auto simp: answered_def)
  next
    case False
    with w [OF key_string_hash that] assms(1) show ?thesis by (auto simp: key_cache_inv_def intro: answered_mono)
  qed
  with l show ?thesis by (simp add: apiKeyGroupCache_Add_def key_cache_inv_def)
qed

text \<open>One look-up keeps the invariant, and a key it finds was answered by the database now or less than \<open>ttl\<close> ago.\<close>

lemma lookup_answered:
  assumes inv: "key_cache_inv hs hist c"
  obtains r c' where "lookupAPIKeyGroupFromAPIKey hs now (Some db) ak (Some c) = Some (r, Some c')"
    and "key_cache_inv hs (hist @ [(now, db, ak)]) c'" and "ttl c' = ttl c"
    and "\<And>akg. r = Inr akg \<Longrightarrow> \<exists>(t, db', ak')\<in>set (hist @ [(now, db, ak)]).
           Lru.keyHash hs (key_string ak') = Lru.keyHash hs (key_string ak) \<and> GetAPIKeyGroupFromAPIKey db' ak' = Inr akg
           \<and> (now \<le> t + ttl c \<or> (t, db', ak') = (now, db, ak))"
proof -
  have mono: "key_cache_inv hs (hist @ [x]) c'" if "key_cache_inv hs hist c'" for c' x
    using that by (auto simp: key_cache_inv_def intro: answered_mono)
  show thesis
  proof (cases "ak = ''''")
    case True
    then show thesis using that [of "Inl (UnauthenticatedError ''missing API key'')" c] mono [OF inv] by (simp add: lookupAPIKeyGroupFromAPIKey_def)
  next
    case False
    obtain d c' where g: "apiKeyGroupCache_Get hs now ak c = (d, c')" by fastforce
    note G = key_cache_Get [OF inv g]
    show thesis
    proof (cases d)
      case (Some akg)
      then have "lookupAPIKeyGroupFromAPIKey hs now (Some db) ak (Some c) = Some (Inr akg, Some c')"
        using False g by (simp add: lookupAPIKeyGroupFromAPIKey_def)
      moreover have "\<exists>(t, db', ak')\<in>set (hist @ [(now, db, ak)]).
          Lru.keyHash hs (key_string ak') = Lru.keyHash hs (key_string ak) \<and> GetAPIKeyGroupFromAPIKey db' ak' = Inr akg
          \<and> (now \<le> t + ttl c \<or> (t, db', ak') = (now, db, ak))"
        using G(3) [OF Some] by (fastforce simp: answered_def)
      ultimately show thesis using that [of "Inr akg" c'] mono [OF G(1)] G(2) by blast
    next
      case None
      show thesis
      proof (cases "GetAPIKeyGroupFromAPIKey db ak")
        case (Inl e)
        then have "lookupAPIKeyGroupFromAPIKey hs now (Some db) ak (Some c) = Some (Inl e, Some c')"
          using None False g by (simp add: lookupAPIKeyGroupFromAPIKey_def)
        then show thesis using that [of "Inl e" c'] mono [OF G(1)] G(2) by simp
      next
        case (Inr akg)
        from key_cache_Add [OF G(1) this] obtain c'' where c'': "apiKeyGroupCache_Add hs now ak akg c' = Some c''"
            "key_cache_inv hs (hist @ [(now, db, ak)]) c''" "ttl c'' = ttl c'" by blast
        then have "lookupAPIKeyGroupFromAPIKey hs now (Some db) ak (Some c) = Some (Inr akg, Some c'')"
          using None False g Inr by (simp add: lookupAPIKeyGroupFromAPIKey_def)
        then show thesis using that [of "Inr akg" c''] c''(2,3) G(2) Inr by simp
      qed
    qed
  qed
qed

lemma lookups_answered:
  assumes "key_cache_inv hs hist c"
  shows "\<exists>rs c'. lookups hs ls c = Some (rs, c') \<and> length rs = length ls \<and> (\<forall>i akg. i < length ls \<longrightarrow> rs ! i = Inr akg \<longrightarrow>
    (\<exists>(t, db, ak)\<in>set (hist @ take (Suc i) ls). Lru.keyHash hs (key_string ak) = Lru.keyHash hs (key_string (snd (snd (ls ! i))))
      \<and> GetAPIKeyGroupFromAPIKey db ak = Inr akg \<and> (fst (ls ! i) \<le> t + ttl c \<or> (t, db, ak) = ls ! i)))"
  using assms
proof (induction ls arbitrary: hist c)
  case (Cons l ls)
  obtain now db ak where l: "l = (now, db, ak)" by (cases l) auto
  obtain r c1 where r: "lookupAPIKeyGroupFromAPIKey hs now (Some db) ak (Some c) = Some (r, Some c1)"
      "key_cache_inv hs (hist @ [(now, db, ak)]) c1" "ttl c1 = ttl c"
      "\<And>akg. r = Inr akg \<Longrightarrow> \<exists>(t, db', ak')\<in>set (hist @ [(now, db, ak)]).
           Lru.keyHash hs (key_string ak') = Lru.keyHash hs (key_string ak) \<and> GetAPIKeyGroupFromAPIKey db' ak' = Inr akg
           \<and> (now \<le> t + ttl c \<or> (t, db', ak') = (now, db, ak))"
    by (rule lookup_answered [OF Cons.prems, of now db ak]) (rule that; assumption)
  obtain rs c' where rs: "lookups hs ls c1 = Some (rs, c')" "length rs = length ls"
      "\<forall>i akg. i < length ls \<longrightarrow> rs ! i = Inr akg \<longrightarrow>
    (\<exists>(t, db', ak')\<in>set ((hist @ [(now, db, ak)]) @ take (Suc i) ls). Lru.keyHash hs (key_string ak') = Lru.keyHash hs (key_string (snd (snd (ls ! i))))
      \<and> GetAPIKeyGroupFromAPIKey db' ak' = Inr akg \<and> (fst (ls ! i) \<le> t + ttl c1 \<or> (t, db', ak') = ls ! i))"
    using Cons.IH [OF r(2)] by blast
  have "\<exists>(t, db', ak')\<in>set (hist @ take (Suc i) (l # ls)). Lru.keyHash hs (key_string ak') = Lru.keyHash hs (key_string (snd (snd ((l # ls) ! i))))
      \<and> GetAPIKeyGroupFromAPIKey db' ak' = Inr akg \<and> (fst ((l # ls) ! i) \<le> t + ttl c \<or> (t, db', ak') = (l # ls) ! i)"
    if "i < length (l # ls)" "(r # rs) ! i = Inr akg" for i akg
  proof (cases i)
    case 0
    with that r(4) l show ?thesis by simp
  next
    case (Suc j)
    with that have "j < length ls" "rs ! j = Inr akg" by simp_all
    from rs(3) [rule_format, OF this] Suc l r(3) show ?thesis by simp
  qed
  with r(1) rs(1,2) l show ?case by (intro exI [of _ "r # rs"] exI [of _ c']) simp
qed simp

section \<open>Properties\<close>

text \<open>The API-key cache serves nothing older than its time-to-live: in a run of look-ups from an empty cache, with keys that
  the LRU cache's hashes tell apart, every answer is one the database gave for that ak at that very look-up or at one at most \<open>ttl\<close> before; and
  all look-ups return.\<close>

theorem key_cache_fresh:
  assumes "newAPIKeyGroupCache r = Inr c"
    and "\<forall>(t, db, ak)\<in>set ls. \<forall>(t', db', ak')\<in>set ls.
      Lru.keyHash hs (key_string ak) = Lru.keyHash hs (key_string ak') \<longrightarrow> ak = ak'"
  shows "\<exists>rs c'. lookups hs ls c = Some (rs, c') \<and> length rs = length ls
    \<and> (\<forall>i akg. i < length ls \<longrightarrow> rs ! i = Inr akg \<longrightarrow>
        (\<exists>(t, db, ak)\<in>set (take (Suc i) ls). ak = snd (snd (ls ! i)) \<and> GetAPIKeyGroupFromAPIKey db ak = Inr akg
          \<and> (fst (ls ! i) \<le> t + ttl c \<or> (t, db, ak) = ls ! i)))"
proof -
  obtain rs c' where rs: "lookups hs ls c = Some (rs, c')" "length rs = length ls"
    "\<And>i akg. i < length ls \<Longrightarrow> rs ! i = Inr akg \<Longrightarrow>
    \<exists>(t, db, ak)\<in>set (take (Suc i) ls). Lru.keyHash hs (key_string ak) = Lru.keyHash hs (key_string (snd (snd (ls ! i))))
      \<and> GetAPIKeyGroupFromAPIKey db ak = Inr akg \<and> (fst (ls ! i) \<le> t + ttl c \<or> (t, db, ak) = ls ! i)"
    using lookups_answered [OF key_cache_New [OF assms(1)], of hs ls] by auto
  have "\<exists>(t, db, ak)\<in>set (take (Suc i) ls). ak = snd (snd (ls ! i)) \<and> GetAPIKeyGroupFromAPIKey db ak = Inr akg
          \<and> (fst (ls ! i) \<le> t + ttl c \<or> (t, db, ak) = ls ! i)" if i: "i < length ls" "rs ! i = Inr akg" for i akg
  proof -
    obtain t db ak where x: "(t, db, ak) \<in> set (take (Suc i) ls)"
      "Lru.keyHash hs (key_string ak) = Lru.keyHash hs (key_string (snd (snd (ls ! i))))"
      "GetAPIKeyGroupFromAPIKey db ak = Inr akg" "fst (ls ! i) \<le> t + ttl c \<or> (t, db, ak) = ls ! i"
      using rs(3) [OF i] by auto
    have "(t, db, ak) \<in> set ls" "ls ! i \<in> set ls" using x(1) i(1) by (auto dest: in_set_takeD)
    with assms(2) x(2) have "ak = snd (snd (ls ! i))" by fastforce
    with x show ?thesis by blast
  qed
  with rs(1,2) show ?thesis by blast
qed

text \<open>C39: impersonation: a session gets impersonating claims only if its user is an admin of the configured server-admin group; the claims then
  give access to exactly the impersonated group. Other sessions get exactly the user's own groups, with one of them or none selected.\<close>

theorem impersonation_confined:
  assumes "ClaimsFromSubID adminGroupID (Some db) rc subID = Inr c" and "LookupUserFromSubID db subID = Inr u"
  shows "if Impersonating c
    then (adminGroupID, role_Admin) \<in> set (dbGroups u) \<and> AllowedGroups c = [GroupID c] \<and> GroupID c \<noteq> ''''
      \<and> (\<exists>x. rc = Some x \<and> GroupID c = rcImpersonatingGroupId x) \<and> GroupMemberships c = [\<lparr>memberGroupID = GroupID c, memberRole = role_Admin\<rparr>]
    else AllowedGroups c = map fst (dbGroups u) \<and> UserID c = dbUserID u \<and> (GroupID c = '''' \<or> GroupID c \<in> set (AllowedGroups c))"
proof -
  have m: "(\<exists>m\<in>set (GroupMemberships (userClaims u eg)). memberGroupID m = g \<and> memberRole m = r) \<longleftrightarrow> (g, r) \<in> set (dbGroups u)" for eg g r
    by (force simp: userClaims_def)
  show ?thesis
    using assms m by (auto simp: ClaimsFromSubID_def Let_def userClaims_def split: option.splits if_splits; force)
qed

text \<open>An API key is never an admin: whatever its capabilities, the claims of a key of a group other than \<open>admin\<close> pass the role filter for no RPC
  that only group admins may call, and for no RPC that only server admins may call where a server-admin group is configured.\<close>

theorem api_key_never_admin:
  assumes "authenticator env = Some (Inr (groupClaims order akg))" and "akgGroupID akg \<noteq> ''admin''"
    and "rpc \<in> set GroupAdminOnlyRPCs \<or> rpc \<in> set ServerAdminOnlyRPCs \<and> AuthAdminGroupID env \<noteq> ''''"
  shows "AuthorizeRPC env rpc \<noteq> None"
proof -
  have "rpc \<notin> set RoleIndependentRPCs" using assms(3)
    by (auto simp: GroupAdminOnlyRPCs_def ServerAdminOnlyRPCs_def RoleIndependentRPCs_def)
  moreover have "rpc \<in> set GroupAdminOnlyRPCs \<Longrightarrow> rpc \<notin> set ServerAdminOnlyRPCs"
    by (auto simp: GroupAdminOnlyRPCs_def ServerAdminOnlyRPCs_def)
  ultimately show ?thesis
    using assms by (auto simp: AuthorizeRPC_def AuthenticatedUser_def groupClaims_def AuthorizeGroupRole_def role_Default_def Let_def)
qed

text \<open>A failed authentication does not undo an earlier one: where the context already carries a valid token, a gRPC request with a wrong
  API key still acts with the claims of the token.\<close>

theorem failed_key_keeps_token:
  assumes "peerCerts ctx = []" and "apiKeyHeaders ctx = [ak]" and "ak \<noteq> ''''" and "GetAPIKeyGroupFromAPIKey db ak = Inl err"
    and "tokenString ctx = Some tok" and "tok \<noteq> ''''" and "jwt_verify j tok = Inr claims"
  shows "\<exists>ctx'. AuthenticatedGRPCContext hs now order (Some db) j ctx None = Some (ctx', None)
    \<and> userError ctx' = Some err \<and> authenticatedUser j ctx' = Inr claims"
proof -
  obtain t ts where "tok = t # ts" using assms(6) by (cases tok) simp
  with assms show ?thesis
    by (simp add: AuthenticatedGRPCContext_def authenticateGRPCRequest_def claimsFromAPIKey_def lookupAPIKeyGroupFromAPIKey_def
        authContextFromClaims_def AuthContextWithError_def authenticatedUser_def Let_def)
qed

section \<open>Witnesses\<close>

definition example_key :: APIKeyGroup where
  "example_key = \<lparr>akgCapabilities = 1, akgGroupID = ''GR1'', akgUseGroupOwnedExecutors = False\<rparr>"

definition example_user :: User where
  "example_user = \<lparr>dbUserID = ''US1'', dbGroups = [(''GR1'', role_Developer), (''GRA'', role_Admin)]\<rparr>"

definition example_db :: auth_db where
  "example_db = \<lparr>GetAPIKeyGroupFromAPIKey = (\<lambda>k. if k = ''k'' then Inr example_key else Inl (UnauthenticatedError ''no such key'')),
     GetAPIKeyGroupFromBasicAuth = (\<lambda>_ _. Inl (UnauthenticatedError ''no'')), LookupUserFromSubID = (\<lambda>_. Inr example_user)\<rparr>"

theorem key_cache_fresh_witness:
  "\<exists>c rs c'. newAPIKeyGroupCache (Some (Inr 10)) = Inr c
    \<and> lookups example_hashes [(0, example_db, ''k''), (5, example_db, ''k'')] c = Some (rs, c') \<and> length rs = 2"
proof -
  obtain c where c: "newAPIKeyGroupCache (Some (Inr 10)) = Inr c"
    by (simp add: newAPIKeyGroupCache_def NewLRU_def apiKeyGroupCacheSize_def)
  from key_cache_fresh [OF this, of "[(0, example_db, ''k''), (5, example_db, ''k'')]" example_hashes] c show ?thesis by auto
qed

theorem impersonation_confined_witness:
  "\<exists>c. ClaimsFromSubID ''GRA'' (Some example_db) (Some \<lparr>rcGroupId = '''', rcImpersonatingGroupId = ''GR7''\<rparr>) ''s'' = Inr c
    \<and> Impersonating c \<and> AllowedGroups c = [GroupID c] \<and> GroupID c = ''GR7''"
proof -
  let ?rc = "Some \<lparr>rcGroupId = '''', rcImpersonatingGroupId = ''GR7''\<rparr>"
  obtain c where c: "ClaimsFromSubID ''GRA'' (Some example_db) ?rc ''s'' = Inr c" "Impersonating c"
    by (simp add: ClaimsFromSubID_def example_db_def example_user_def userClaims_def)
  moreover have "LookupUserFromSubID example_db ''s'' = Inr example_user" by (simp add: example_db_def)
  ultimately show ?thesis using impersonation_confined [OF c(1)] by auto
qed

theorem api_key_never_admin_witness:
  "AuthorizeRPC \<lparr>authenticator = Some (Inr (groupClaims [] example_key)), AnonymousUsageEnabled = True, AuthAdminGroupID = ''GRA''\<rparr> ''GetUsage'' \<noteq> None"
  by (rule api_key_never_admin [OF auth_env.select_convs(1)]) (simp_all add: example_key_def GroupAdminOnlyRPCs_def)

theorem failed_key_keeps_token_witness:
  "\<exists>ctx'. AuthenticatedGRPCContext example_hashes 0 [] (Some example_db)
      \<lparr>jwt_sign = (\<lambda>_. Inr ''t''), jwt_verify = (\<lambda>_. Inr (groupClaims [] example_key))\<rparr>
      \<lparr>peerCerts = [], apiKeyHeaders = [''x''], basicAuthHeaders = [], authorityHeaders = [], tokenString = Some ''t'', userError = None\<rparr> None
      = Some (ctx', None)
    \<and> authenticatedUser \<lparr>jwt_sign = (\<lambda>_. Inr ''t''), jwt_verify = (\<lambda>_. Inr (groupClaims [] example_key))\<rparr> ctx' = Inr (groupClaims [] example_key)"
  using failed_key_keeps_token [of "\<lparr>peerCerts = [], apiKeyHeaders = [''x''], basicAuthHeaders = [], authorityHeaders = [], tokenString = Some ''t'', userError = None\<rparr>"
      "''x''" example_db "UnauthenticatedError ''no such key''" "''t''"
      "\<lparr>jwt_sign = (\<lambda>_. Inr ''t''), jwt_verify = (\<lambda>_. Inr (groupClaims [] example_key))\<rparr>" "groupClaims [] example_key" example_hashes 0 "[]"]
  by (auto simp: example_db_def)

end
