(* ===== verification/RaftKeys.thy ===== *)
theory RaftKeys
  imports Digest Status
begin

text \<open>
  \<^verbatim>\<open>enterprise/server/raft/keys/keys.go\<close> and \<^verbatim>\<open>constants/constants.go\<close>: the key space of the replicated store. Keys
  are byte strings in lexicographic order; what starts with byte 1 is local to a replica, with byte 2 belongs to the
  meta-range, with byte 3 to the system, and everything from byte 4 on may be split between ranges.

  Go strings that become keys are read byte for byte (\<open>str_key\<close>). A nil message is its zero value, as
  the generated getters read it.
\<close>

section \<open>Keys\<close>

definition str_key :: "string \<Rightarrow> bytes" where
  "str_key s = map of_char s"

definition MakeKey :: "bytes list \<Rightarrow> bytes" where
  "MakeKey ks = concat ks"

definition Key_Next :: "bytes \<Rightarrow> bytes" where
  "Key_Next k = (let nk = k @ [0] in nk[length nk - 1 := 0])"

definition RangeMetaKey :: "bytes \<Rightarrow> bytes" where
  "RangeMetaKey key = MakeKey [[2], key]"

definition SystemKey :: "bytes \<Rightarrow> bytes" where
  "SystemKey key = MakeKey [[3], key]"

definition IsLocalKey :: "bytes \<Rightarrow> bool" where
  "IsLocalKey key = (if length key = 0 then False else key ! 0 = 1)"

section \<open>Constants\<close>

definition localPrefixByte :: byte where "localPrefixByte = 1"
definition localMaxByte :: byte where "localMaxByte = 2"
definition metaPrefixByte :: byte where "metaPrefixByte = localMaxByte"
definition metaMaxByte :: byte where "metaMaxByte = 3"
definition systemPrefixByte :: byte where "systemPrefixByte = metaMaxByte"
definition systemMaxByte :: byte where "systemMaxByte = 4"

definition InitialClusterID :: u64 where "InitialClusterID = 1"
definition InitialNodeID :: u64 where "InitialNodeID = 1"
definition InitialRangeID :: u64 where "InitialRangeID = 1"
definition MinByte :: byte where "MinByte = 0"
definition MaxByte :: byte where "MaxByte = 255"
definition UnsplittableMaxByte :: byte where "UnsplittableMaxByte = systemMaxByte"

definition CASErrorMessage :: string where "CASErrorMessage = ''CAS expected value did not match''"

definition LocalPrefix :: bytes where "LocalPrefix = [localPrefixByte]"
definition MetaRangePrefix :: bytes where "MetaRangePrefix = [metaPrefixByte]"
definition SystemPrefix :: bytes where "SystemPrefix = [systemPrefixByte]"
definition LastClusterIDKey :: bytes where "LastClusterIDKey = MakeKey [SystemPrefix, str_key ''last_cluster_id'']"
definition LastNodeIDKey :: bytes where "LastNodeIDKey = MakeKey [SystemPrefix, str_key ''last_node_id'']"
definition LastRangeIDKey :: bytes where "LastRangeIDKey = MakeKey [SystemPrefix, str_key ''last_range_id'']"
definition ClusterSetupTimeKey :: bytes where "ClusterSetupTimeKey = MakeKey [LocalPrefix, str_key ''cluster_setup_time'']"
definition LastAppliedIndexKey :: bytes where "LastAppliedIndexKey = MakeKey [LocalPrefix, str_key ''lastAppliedIndex'']"
definition LocalRangeKey :: bytes where "LocalRangeKey = MakeKey [LocalPrefix, str_key ''range'']"
definition LocalRangeLeaseKey :: bytes where "LocalRangeLeaseKey = MakeKey [LocalPrefix, str_key ''rangelease'']"
definition LocalRangeSetupTimeKey :: bytes where
  "LocalRangeSetupTimeKey = MakeKey [LocalPrefix, str_key ''range_initialization_time'']"

definition RangeNotFoundMsg :: string where "RangeNotFoundMsg = ''Range not present''"
definition RangeNotLeasedMsg :: string where "RangeNotLeasedMsg = ''Range not leased''"
definition RangeNotCurrentMsg :: string where "RangeNotCurrentMsg = ''Range not current''"
definition RangeLeaseInvalidMsg :: string where "RangeLeaseInvalidMsg = ''Range lease invalid''"

section \<open>The keys of a file\<close>

text \<open>\<^verbatim>\<open>Isolation.CacheType\<close> and \<^verbatim>\<open>FileRecord\<close> of \<^verbatim>\<open>proto/raft.proto\<close>.\<close>

datatype fr_cache_type = FR_UNKNOWN_TYPE | FR_ACTION_CACHE | FR_CAS_CACHE

record FileRecord =
  fr_group_id :: string
  fr_cache_type :: fr_cache_type
  fr_instance :: string
  fr_digest :: Digest

definition fileRecordSegments :: "FileRecord \<Rightarrow> error + string list" where
  "fileRecordSegments r =
     (if fr_group_id r = '''' then Inl (FailedPreconditionError ''Empty group ID not allowed in filerecord.'')
      else
        let s0 = fr_group_id r in
        case (if fr_cache_type r = FR_CAS_CACHE then Some ''cas''
              else if fr_cache_type r = FR_ACTION_CACHE then Some ''ac'' else None) of
          None \<Rightarrow> Inl (FailedPreconditionError ''Isolation type must be explicitly set, not UNKNOWN.'')
        | Some s1 \<Rightarrow>
            if length (dHash (fr_digest r)) > 4
            then Inr [s0, s1, take 4 (dHash (fr_digest r)), dHash (fr_digest r)]
            else Inl (FailedPreconditionError ''Malformed digest; too short.''))"

definition FileKey :: "FileRecord \<Rightarrow> error + bytes" where
  "FileKey r =
     (case fileRecordSegments r of
        Inl err \<Rightarrow> Inl err
      | Inr s \<Rightarrow> Inr (str_key (filepath_Join [s ! 0, s ! 1, s ! 2, s ! 3])))"

definition FileDataKey :: "FileRecord \<Rightarrow> error + bytes" where
  "FileDataKey r =
     (case fileRecordSegments r of
        Inl err \<Rightarrow> Inl err
      | Inr s \<Rightarrow> Inr (str_key (filepath_Join [s ! 0, s ! 1, s ! 3] @ ''-'')))"

definition FileMetadataKey :: "FileRecord \<Rightarrow> error + bytes" where
  "FileMetadataKey r =
     (case fileRecordSegments r of
        Inl err \<Rightarrow> Inl err
      | Inr s \<Rightarrow> Inr (str_key (filepath_Join [s ! 0, s ! 1, s ! 3])))"

section \<open>Order of keys\<close>

lemma Key_Next_simp [simp]: "Key_Next k = k @ [0]"
  by (simp add: Key_Next_def Let_def list_update_append)

text \<open>\<open>Next\<close> is the immediate successor in key order.\<close>

lemma less_append: "zs \<noteq> [] \<Longrightarrow> (k :: bytes) < k @ zs"
  by (induction k) (auto simp: neq_Nil_conv)

lemma word8_pos_or_zero: "x = 0 \<or> 0 < (x :: byte)"
  using word_neq_0_conv by blast

lemma less_snoc_zero_iff: "(x :: bytes) < k @ [0] \<longleftrightarrow> x \<le> k"
proof (induction k arbitrary: x)
  case Nil
  then show ?case by (cases x) (auto simp: word_less_nat_alt)
next
  case (Cons a k)
  then show ?case by (cases x) auto
qed

lemma Key_Next_least: "k < x \<longleftrightarrow> Key_Next k \<le> x"
  using less_snoc_zero_iff [of x k] by (metis Key_Next_simp leD leI)

lemma RangeMetaKey_simp: "RangeMetaKey k = 2 # k"
  by (simp add: RangeMetaKey_def MakeKey_def)

lemma RangeMetaKey_order [simp]:
  "RangeMetaKey a < RangeMetaKey b \<longleftrightarrow> a < b" "RangeMetaKey a \<le> RangeMetaKey b \<longleftrightarrow> a \<le> b"
  "RangeMetaKey a = RangeMetaKey b \<longleftrightarrow> a = b"
  by (simp_all add: RangeMetaKey_simp)

lemma IsLocalKey_iff: "IsLocalKey k \<longleftrightarrow> (\<exists>ks. k = 1 # ks)"
  by (cases k) (auto simp: IsLocalKey_def)

lemma IsLocalKey_between: "IsLocalKey k \<longleftrightarrow> [1] \<le> k \<and> k < [2]"
proof (cases k)
  case (Cons a ks)
  have "a = 1" if "1 \<le> a" "a < 2"
  proof -
    have "unat a = unat (1 :: byte)" using that by (simp add: word_le_nat_alt word_less_nat_alt)
    then show ?thesis by (simp only: word_unat_eq_iff)
  qed
  then show ?thesis using Cons by (cases ks) (auto simp: IsLocalKey_iff le_less)
qed (simp add: IsLocalKey_iff)

lemmas key_defs = localPrefixByte_def localMaxByte_def metaPrefixByte_def metaMaxByte_def systemPrefixByte_def
  systemMaxByte_def UnsplittableMaxByte_def MinByte_def MaxByte_def LocalPrefix_def MetaRangePrefix_def SystemPrefix_def

lemma LocalRangeKey_local [simp]: "IsLocalKey LocalRangeKey" "IsLocalKey LastAppliedIndexKey"
  by (simp_all add: IsLocalKey_iff LocalRangeKey_def LastAppliedIndexKey_def MakeKey_def key_defs)


lemma meta_key_not_local [simp]: "\<not> IsLocalKey (RangeMetaKey k)"
  by (simp add: IsLocalKey_iff RangeMetaKey_simp)

section \<open>Keys of distinct files\<close>

lemma of_char_byte: "(of_char c :: byte) = word_of_nat (of_char c)"
  by (cases c) simp

lemma str_key_inj [simp]: "str_key s = str_key t \<longleftrightarrow> s = t"
proof -
  have "inj (of_char :: char \<Rightarrow> byte)"
  proof (rule injI)
    fix c d :: char
    assume "(of_char c :: byte) = of_char d"
    then have "unat (word_of_nat (of_char c) :: byte) = unat (word_of_nat (of_char d) :: byte)"
      by (simp only: of_char_byte)
    then have "(of_char c :: nat) mod 256 = of_char d mod 256"
      by (simp only: unat_of_nat) simp
    then show "c = d" by simp
  qed
  then show ?thesis by (simp add: str_key_def inj_map_eq_map)
qed

lemma local_keys_distinct [simp]: "LocalRangeKey \<noteq> LastAppliedIndexKey" "LastAppliedIndexKey \<noteq> LocalRangeKey"
  by (simp_all add: LocalRangeKey_def LastAppliedIndexKey_def MakeKey_def)

lemma str_key_append: "str_key (s @ t) = str_key s @ str_key t"
  by (simp add: str_key_def)

lemma FileDataKey_of_metadata:
  "FileDataKey r = (case FileMetadataKey r of Inl e \<Rightarrow> Inl e | Inr k \<Rightarrow> Inr (k @ str_key ''-''))"
  by (simp add: FileDataKey_def FileMetadataKey_def str_key_append split: sum.split)

definition cache_segment :: "fr_cache_type \<Rightarrow> string" where
  "cache_segment t = (if t = FR_CAS_CACHE then ''cas'' else ''ac'')"

definition plain_record :: "FileRecord \<Rightarrow> bool" where
  "plain_record r \<longleftrightarrow> plain (fr_group_id r) \<and> plain (dHash (fr_digest r)) \<and> 4 < length (dHash (fr_digest r))
     \<and> fr_cache_type r \<noteq> FR_UNKNOWN_TYPE"

lemma plain_takeWhile: "plain e \<Longrightarrow> takeWhile (\<lambda>c. c \<noteq> CHR ''/'') e = e"
  by (auto simp: plain_def takeWhile_eq_all_conv)

lemma plain_split: "plain e \<Longrightarrow> splitOn CHR ''/'' e = [e]"
  by (simp add: plain_def splitOn_plain)

lemma filepath_Join_plain:
  assumes "plain a" "plain b" "plain c"
  shows "filepath_Join [a, b, c] = joinWith ''/'' [a, b, c]"
  using assms filepath_Join_relative [of a "[b, c]"]
  by (simp add: plain_takeWhile plain_split clean_plain plain_def Let_def)

lemma plain_cache_segment [simp]: "plain (cache_segment t)"
  by (simp add: cache_segment_def plain_def)

lemma FileMetadataKey_plain:
  "plain_record r \<Longrightarrow> FileMetadataKey r =
     Inr (str_key (joinWith ''/'' [fr_group_id r, cache_segment (fr_cache_type r), dHash (fr_digest r)]))"
  using filepath_Join_plain [OF _ plain_cache_segment, of "fr_group_id r" "dHash (fr_digest r)" "fr_cache_type r"]
  by (cases "fr_cache_type r")
    (auto simp: plain_record_def FileMetadataKey_def fileRecordSegments_def Let_def cache_segment_def plain_def)

text \<open>Two well-formed records have the same key only if group, cache and hash agree; the size and the
  instance name are not part of it.\<close>

lemma FileMetadataKey_inj:
  assumes "plain_record r" "plain_record s" "FileMetadataKey r = FileMetadataKey s"
  shows "fr_group_id r = fr_group_id s \<and> fr_cache_type r = fr_cache_type s \<and> dHash (fr_digest r) = dHash (fr_digest s)"
proof -
  have "joinWith [CHR ''/''] [fr_group_id r, cache_segment (fr_cache_type r), dHash (fr_digest r)]
      = joinWith [CHR ''/''] [fr_group_id s, cache_segment (fr_cache_type s), dHash (fr_digest s)]"
    using assms by (simp add: FileMetadataKey_plain)
  from joinWith_inj [OF this] assms(1,2) plain_cache_segment
  have "[fr_group_id r, cache_segment (fr_cache_type r), dHash (fr_digest r)]
      = [fr_group_id s, cache_segment (fr_cache_type s), dHash (fr_digest s)]"
    by (auto simp: plain_record_def plain_def)
  then show ?thesis
    using assms(1,2) by (cases "fr_cache_type r"; cases "fr_cache_type s") (auto simp: cache_segment_def plain_record_def)
qed

end
