(* ===== verification/RaftMessages.thy ===== *)
theory RaftMessages
  imports RaftKeys RangeCache
begin

text \<open>
  The commands of the replicated store (\<^verbatim>\<open>proto/raft.proto\<close>) and \<^verbatim>\<open>enterprise/server/raft/rbuilder/rbuilder.go\<close>, which
  builds batches of them and takes the batches of responses apart.

  A request or response union is a datatype with one constructor per field, \<open>ReqNone\<close> and \<open>RspNone\<close> when the field is
  unset. A nil message is \<open>None\<close> where the code distinguishes it from an empty one. An optional byte field is the
  empty list when it is unset. An error status is an \<open>error option\<close>, \<open>None\<close> being \<^verbatim>\<open>OK\<close>.
\<close>

section \<open>Messages\<close>

record KV =
  kvKey :: bytes
  kvValue :: bytes

datatype ScanType = UNDEFINED_SCAN_TYPE | SEEKLT_SCAN_TYPE | SEEKGE_SCAN_TYPE

record FindSplitPointResponse =
  spLeft :: bytes
  spRight :: bytes
  spLeftSize :: nat
  spRightSize :: nat

datatype RequestUnion =
    ReqFileWrite FileRecord
  | ReqDirectWrite "KV option"
  | ReqDirectRead bytes
  | ReqIncrement bytes u64
  | ReqScan bytes bytes ScanType
  | ReqCas "KV option" bytes
  | ReqFindSplitPoint
  | ReqSplit "RangeDescriptor option" "RangeDescriptor option" "FindSplitPointResponse option"
  | ReqNone

datatype ResponseValue =
    RspFileWrite "unit option"
  | RspDirectWrite "unit option"
  | RspDirectRead "KV option"
  | RspIncrement "(bytes \<times> u64) option"
  | RspScan "KV list option"
  | RspCas "KV option"
  | RspFindSplitPoint "FindSplitPointResponse option"
  | RspSplit "(RangeDescriptor \<times> RangeDescriptor) option"
  | RspNone

record ResponseUnion =
  rspStatus :: "error option"
  rspValue :: ResponseValue

record Header =
  hReplica :: "ReplicaDescriptor option"
  hRangeId :: u64
  hGeneration :: u64

section \<open>Building a batch\<close>

record BatchBuilder =
  bbCmd :: "RequestUnion list"
  bbErr :: "error option"

definition NewBatchBuilder :: BatchBuilder where
  "NewBatchBuilder = \<lparr>bbCmd = [], bbErr = None\<rparr>"

definition bb_setErr :: "error \<Rightarrow> BatchBuilder \<Rightarrow> BatchBuilder" where
  "bb_setErr err bb = (if bbErr bb \<noteq> None then bb else bb\<lparr>bbErr := Some err\<rparr>)"

definition bb_Merge :: "BatchBuilder \<Rightarrow> BatchBuilder \<Rightarrow> BatchBuilder" where
  "bb_Merge bb bb2 = bb\<lparr>bbCmd := bbCmd bb @ bbCmd bb2\<rparr>"

text \<open>\<open>ReqNone\<close> stands for a message of any other type.\<close>

definition bb_Add :: "BatchBuilder \<Rightarrow> RequestUnion \<Rightarrow> BatchBuilder" where
  "bb_Add bb m =
     (if m = ReqNone then bb_setErr (FailedPreconditionError ''BatchBuilder.Add handling not implemented.'') bb
      else bb\<lparr>bbCmd := bbCmd bb @ [m]\<rparr>)"

definition bb_ToProto :: "BatchBuilder \<Rightarrow> error + RequestUnion list" where
  "bb_ToProto bb = (case bbErr bb of Some err \<Rightarrow> Inl err | None \<Rightarrow> Inr (bbCmd bb))"

definition bb_ToBuf :: "(RequestUnion list \<Rightarrow> error + bytes) \<Rightarrow> BatchBuilder \<Rightarrow> error + bytes" where
  "bb_ToBuf marshal bb = (case bbErr bb of Some err \<Rightarrow> Inl err | None \<Rightarrow> marshal (bbCmd bb))"

section \<open>Reading a batch of responses\<close>

record BatchResponse =
  brCmd :: "ResponseUnion list"
  brErr :: "error option"

definition br_setErr :: "error \<Rightarrow> BatchResponse \<Rightarrow> BatchResponse" where
  "br_setErr err br = (if brErr br \<noteq> None then br else br\<lparr>brErr := Some err\<rparr>)"

text \<open>\<open>NewBatchResponse\<close> takes a value of any type; \<open>None\<close> is one that is not a byte slice, and decodes as an
  empty one. A decoding error leaves what was decoded so far, here nothing.\<close>

definition NewBatchResponse :: "(bytes \<Rightarrow> error + ResponseUnion list) \<Rightarrow> bytes option \<Rightarrow> BatchResponse" where
  "NewBatchResponse unmarshal val =
     (let br = \<lparr>brCmd = [], brErr = None\<rparr>;
          br1 = (if val = None then br_setErr (FailedPreconditionError ''Could not coerce value to []byte.'') br else br);
          buf = (case val of None \<Rightarrow> [] | Some b \<Rightarrow> b) in
      case unmarshal buf of
        Inl err \<Rightarrow> br_setErr err br1
      | Inr us \<Rightarrow> br1\<lparr>brCmd := us\<rparr>)"

definition NewBatchResponseFromProto :: "ResponseUnion list \<Rightarrow> BatchResponse" where
  "NewBatchResponseFromProto c = \<lparr>brCmd = c, brErr = None\<rparr>"

definition checkIndex :: "nat \<Rightarrow> BatchResponse \<Rightarrow> BatchResponse" where
  "checkIndex n br =
     (if n \<ge> length (brCmd br) then br_setErr (FailedPreconditionError ''batch did not contain element'') br else br)"

definition unionError :: "ResponseUnion \<Rightarrow> error option" where
  "unionError u = rspStatus u"

text \<open>The eight accessors differ in the field they read: the response in it, if it is of that kind, and
  the union's error.\<close>

definition br_get :: "(ResponseValue \<Rightarrow> 'a option) \<Rightarrow> nat \<Rightarrow> BatchResponse \<Rightarrow> ('a option \<times> error option) \<times> BatchResponse" where
  "br_get field n br =
     (let br' = checkIndex n br in
      case brErr br' of
        Some err \<Rightarrow> ((None, Some err), br')
      | None \<Rightarrow> let u = brCmd br' ! n in ((field (rspValue u), unionError u), br'))"

fun GetDirectRead :: "ResponseValue \<Rightarrow> KV option" where
  "GetDirectRead (RspDirectRead r) = r" | "GetDirectRead _ = None"
fun GetIncrement :: "ResponseValue \<Rightarrow> (bytes \<times> u64) option" where
  "GetIncrement (RspIncrement r) = r" | "GetIncrement _ = None"
fun GetScan :: "ResponseValue \<Rightarrow> KV list option" where
  "GetScan (RspScan r) = r" | "GetScan _ = None"
fun GetCas :: "ResponseValue \<Rightarrow> KV option" where
  "GetCas (RspCas r) = r" | "GetCas _ = None"
fun GetFindSplitPoint :: "ResponseValue \<Rightarrow> FindSplitPointResponse option" where
  "GetFindSplitPoint (RspFindSplitPoint r) = r" | "GetFindSplitPoint _ = None"
fun GetSplit :: "ResponseValue \<Rightarrow> (RangeDescriptor \<times> RangeDescriptor) option" where
  "GetSplit (RspSplit r) = r" | "GetSplit _ = None"

definition DirectReadResponse where "DirectReadResponse = br_get GetDirectRead"
definition IncrementResponse where "IncrementResponse = br_get GetIncrement"
definition ScanResponse where "ScanResponse = br_get GetScan"
definition CASResponse where "CASResponse = br_get GetCas"
definition FindSplitPointResponse_at where "FindSplitPointResponse_at = br_get GetFindSplitPoint"
definition SplitResponse where "SplitResponse = br_get GetSplit"

lemmas response_accessors = DirectReadResponse_def IncrementResponse_def ScanResponse_def CASResponse_def
  FindSplitPointResponse_at_def SplitResponse_def

section \<open>Properties\<close>

lemma bb_foldl:
  "foldl bb_Add bb ms =
     bb\<lparr>bbCmd := bbCmd bb @ filter (\<lambda>m. m \<noteq> ReqNone) ms,
        bbErr := (if bbErr bb = None \<and> ReqNone \<in> set ms
                  then Some (FailedPreconditionError ''BatchBuilder.Add handling not implemented.'') else bbErr bb)\<rparr>"
  by (induction ms arbitrary: bb) (auto simp: bb_Add_def bb_setErr_def)

text \<open>A batch that is given only messages it knows is sent as it was put together; one message of another kind,
  anywhere, makes the batch an error whatever is added after it; but merging such a batch into another loses the
  error, and what is sent is the messages that were known.\<close>

theorem batch_of_messages:
  "(let err = FailedPreconditionError ''BatchBuilder.Add handling not implemented.'';
        bb = foldl bb_Add NewBatchBuilder ms; bb2 = foldl bb_Add NewBatchBuilder ms' in
    bb_ToProto bb = (if ReqNone \<in> set ms then Inl err else Inr ms)
    \<and> bb_ToProto (bb_Merge bb bb2) =
        (if ReqNone \<in> set ms then Inl err else Inr (ms @ filter (\<lambda>m. m \<noteq> ReqNone) ms')))"
proof -
  have "ReqNone \<notin> set ms \<Longrightarrow> filter (\<lambda>m. m \<noteq> ReqNone) ms = ms"
    by (induction ms) auto
  then show ?thesis
    by (auto simp: Let_def bb_ToProto_def bb_Merge_def bb_foldl NewBatchBuilder_def)
qed

text \<open>Reading the n-th response: its own, and an error that stays once an index was out of range.\<close>

lemma br_get_ok: "n < length us \<Longrightarrow>
    br_get f n (NewBatchResponseFromProto us) = ((f (rspValue (us ! n)), rspStatus (us ! n)), NewBatchResponseFromProto us)"
  by (simp add: br_get_def NewBatchResponseFromProto_def checkIndex_def unionError_def Let_def)

lemma br_get_sticks: "brErr br = Some e \<Longrightarrow> br_get f n br = ((None, Some e), br)"
  by (simp add: br_get_def checkIndex_def br_setErr_def)

end
