(* ===== verification/RaftNode.thy ===== *)
theory RaftNode
  imports RaftMessages
begin

text \<open>
  What the replicas of a node share (\<^verbatim>\<open>enterprise/server/raft/store/store.go\<close>): the replicas themselves, as a heap of
  records indexed by address (a \<^verbatim>\<open>*Replica\<close> of the code), the store's table of replicas by range, the descriptors of its
  open ranges, and the goroutines it has started, which run later.
\<close>

section \<open>State\<close>

text \<open>\<open>rpDb = None\<close> is the nil database of a replica that was not opened; \<open>rpMapped\<close> is \<^verbatim>\<open>mappedRange\<close>.\<close>

record 'db Replica =
  rpDb :: "'db option"
  rpClosed :: bool
  rpCluster :: u64
  rpNode :: u64
  rpLast :: u64
  rpRange :: "RangeDescriptor option"
  rpMapped :: "unit rng option"

datatype job = SetMetaRangeTag bytes | MaybeAcquireRangeLease RangeDescriptor | ReleaseRangeLease u64

record 'db store_node =
  nReps :: "nat \<Rightarrow> 'db Replica"
  nNext :: nat
  nTable :: "u64 \<rightharpoonup> nat"
  nOpen :: "(u64 \<times> RangeDescriptor) list"
  nJobs :: "job list"

definition update_rep :: "nat \<Rightarrow> ('db Replica \<Rightarrow> 'db Replica) \<Rightarrow> 'db store_node \<Rightarrow> 'db store_node" where
  "update_rep a f n = n\<lparr>nReps := (nReps n)(a := f (nReps n a))\<rparr>"

definition go :: "job \<Rightarrow> 'db store_node \<Rightarrow> 'db store_node" where
  "go j n = n\<lparr>nJobs := nJobs n @ [j]\<rparr>"

text \<open>\<^verbatim>\<open>replica.New\<close>, called for a store by \<^verbatim>\<open>ReplicaFactoryFn\<close>.\<close>

definition ReplicaFactoryFn :: "u64 \<Rightarrow> u64 \<Rightarrow> 'db store_node \<Rightarrow> nat \<times> 'db store_node" where
  "ReplicaFactoryFn clusterID nodeID n =
     (nNext n,
      n\<lparr>nReps := (nReps n)(nNext n := \<lparr>rpDb = None, rpClosed = False, rpCluster = clusterID, rpNode = nodeID, rpLast = 0,
                                     rpRange = None, rpMapped = None\<rparr>),
        nNext := Suc (nNext n)\<rparr>)"

section \<open>The table of ranges\<close>

text \<open>\<^verbatim>\<open>rangelease.ContainsMetaRange\<close>\<close>

definition ContainsMetaRange :: "RangeDescriptor \<Rightarrow> bool" where
  "ContainsMetaRange rd =
     (let r = \<lparr>rLeft = rdLeft rd, rRight = rdRight rd, rVal = ()\<rparr> in
      Range_Contains r [MinByte] \<and> Range_Contains r [UnsplittableMaxByte - 1])"

text \<open>\<open>openRanges\<close> is a Go map: its entries, in no particular order, one per range.\<close>

definition open_put :: "u64 \<Rightarrow> RangeDescriptor \<Rightarrow> 'db store_node \<Rightarrow> 'db store_node" where
  "open_put i rd n = n\<lparr>nOpen := (i, rd) # filter (\<lambda>(j, _). j \<noteq> i) (nOpen n)\<rparr>"

definition open_delete :: "u64 \<Rightarrow> 'db store_node \<Rightarrow> 'db store_node" where
  "open_delete i n = n\<lparr>nOpen := filter (\<lambda>(j, _). j \<noteq> i) (nOpen n)\<rparr>"

fun lookupRange_loop :: "u64 \<Rightarrow> (u64 \<times> RangeDescriptor) list \<Rightarrow> RangeDescriptor option" where
  "lookupRange_loop clusterID [] = None"
| "lookupRange_loop clusterID ((i, rd) # rest) =
     (if length (replicas rd) = 0 then lookupRange_loop clusterID rest
      else if clusterID = cluster_id (replicas rd ! 0) then Some rd
      else lookupRange_loop clusterID rest)"

definition lookupRange :: "u64 \<Rightarrow> 'db store_node \<Rightarrow> RangeDescriptor option" where
  "lookupRange clusterID n = lookupRange_loop clusterID (nOpen n)"

definition GetRange :: "u64 \<Rightarrow> 'db store_node \<Rightarrow> RangeDescriptor option" where
  "GetRange clusterID n = lookupRange clusterID n"

definition onLeaderUpdated :: "u64 \<Rightarrow> 'db store_node \<Rightarrow> 'db store_node" where
  "onLeaderUpdated clusterID n =
     (case lookupRange clusterID n of None \<Rightarrow> n | Some rd \<Rightarrow> go (MaybeAcquireRangeLease rd) n)"

definition AddRange :: "(RangeDescriptor \<Rightarrow> error + bytes) \<Rightarrow> RangeDescriptor \<Rightarrow> nat \<Rightarrow> 'db store_node \<Rightarrow> 'db store_node" where
  "AddRange marshal rd a n =
     (let n1 = (case nTable n (range_id rd) of None \<Rightarrow> n\<lparr>nTable := (nTable n)(range_id rd \<mapsto> a)\<rparr> | Some _ \<Rightarrow> n);
          n2 = open_put (range_id rd) rd n1 in
      if length (replicas rd) = 0 then n2
      else if ContainsMetaRange rd then
        (case marshal rd of
           Inl err \<Rightarrow> n2
         | Inr buf \<Rightarrow> go (MaybeAcquireRangeLease rd) (go (SetMetaRangeTag buf) n2))
      else go (MaybeAcquireRangeLease rd) n2)"

definition RemoveRange :: "RangeDescriptor \<Rightarrow> 'db store_node \<Rightarrow> 'db store_node" where
  "RemoveRange rd n =
     (let n1 = open_delete (range_id rd) (n\<lparr>nTable := (nTable n)(range_id rd := None)\<rparr>) in
      if length (replicas rd) = 0 then n1 else go (ReleaseRangeLease (range_id rd)) n1)"

definition GetReplica :: "u64 \<Rightarrow> 'db store_node \<Rightarrow> error + nat" where
  "GetReplica rangeID n =
     (case nTable n rangeID of None \<Rightarrow> Inl (NotFoundError ''Replica not found'') | Some a \<Rightarrow> Inr a)"

text \<open>
  \<open>RangeIsActive\<close> decides whether the node may answer for a range. \<open>lease_valid\<close> says which ranges have a
  lease in the store's table that is valid now.
\<close>

definition RangeIsActive :: "(u64 \<Rightarrow> bool) \<Rightarrow> Header option \<Rightarrow> 'db store_node \<Rightarrow> error option \<times> 'db store_node" where
  "RangeIsActive lease_valid header n =
     (case header of
        None \<Rightarrow> (Some (FailedPreconditionError ''Nil header not allowed''), n)
      | Some h \<Rightarrow>
          (case map_of (nOpen n) (hRangeId h) of
             None \<Rightarrow> (Some (OutOfRangeError (RangeNotFoundMsg @ '': range'')), n)
           | Some rd \<Rightarrow>
               if length (replicas rd) = 0 then (Some (OutOfRangeError (RangeNotFoundMsg @ '': range had no replicas'')), n)
               else if generation rd \<noteq> hGeneration h then (Some (OutOfRangeError (RangeNotCurrentMsg @ '': generation'')), n)
               else if lease_valid (hRangeId h) then (None, n)
               else (Some (OutOfRangeError (RangeLeaseInvalidMsg @ '': no lease found for range'')), go (MaybeAcquireRangeLease rd) n)))"

section \<open>Lemmas\<close>

named_theorems node_simps \<open>what the operations on the table leave alone\<close>

lemma nReps_go [node_simps]: "nReps (go j n) = nReps n" "nTable (go j n) = nTable n" "nOpen (go j n) = nOpen n" "nNext (go j n) = nNext n"
  by (simp_all add: go_def)

lemma nReps_open [node_simps]:
  "nReps (open_put i rd n) = nReps n" "nTable (open_put i rd n) = nTable n" "nNext (open_put i rd n) = nNext n"
  "nReps (open_delete i n) = nReps n" "nTable (open_delete i n) = nTable n" "nNext (open_delete i n) = nNext n"
  by (simp_all add: open_put_def open_delete_def)

lemma nReps_ranges [node_simps]:
  "nReps (AddRange m rd a n) = nReps n" "nReps (RemoveRange rd n) = nReps n"
  "nNext (AddRange m rd a n) = nNext n" "nNext (RemoveRange rd n) = nNext n"
  by (simp_all add: AddRange_def RemoveRange_def Let_def node_simps split: option.split sum.split)

lemma update_rep_simps [node_simps]:
  "nReps (update_rep a f n) = (nReps n)(a := f (nReps n a))" "nTable (update_rep a f n) = nTable n"
  "nOpen (update_rep a f n) = nOpen n" "nNext (update_rep a f n) = nNext n"
  by (simp_all add: update_rep_def)

lemma map_of_open_put [node_simps]: "map_of (nOpen (open_put i rd n)) = (map_of (nOpen n))(i \<mapsto> rd)"
proof -
  have "map_of (filter (\<lambda>(j, _). j \<noteq> i) xs) j = (if j = i then None else map_of xs j)" for xs :: "(u64 \<times> RangeDescriptor) list" and j
    by (induction xs) auto
  then show ?thesis by (auto simp: open_put_def fun_eq_iff)
qed

lemma map_of_open_delete [node_simps]: "map_of (nOpen (open_delete i n)) = (map_of (nOpen n))(i := None)"
proof -
  have "map_of (filter (\<lambda>(j, _). j \<noteq> i) xs) j = (if j = i then None else map_of xs j)" for xs :: "(u64 \<times> RangeDescriptor) list" and j
    by (induction xs) auto
  then show ?thesis by (auto simp: open_delete_def fun_eq_iff)
qed

lemma AddRange_table:
  "nTable (AddRange m rd a n) = (case nTable n (range_id rd) of None \<Rightarrow> (nTable n)(range_id rd \<mapsto> a) | Some _ \<Rightarrow> nTable n)"
  by (simp add: AddRange_def Let_def node_simps split: option.split sum.split)

lemma AddRange_open [node_simps]: "map_of (nOpen (AddRange m rd a n)) = (map_of (nOpen n))(range_id rd \<mapsto> rd)"
  by (simp add: AddRange_def Let_def node_simps split: option.split sum.split)

lemma RemoveRange_table [node_simps]: "nTable (RemoveRange rd n) = (nTable n)(range_id rd := None)"
  by (simp add: RemoveRange_def Let_def node_simps)

lemma RemoveRange_open [node_simps]: "map_of (nOpen (RemoveRange rd n)) = (map_of (nOpen n))(range_id rd := None)"
  by (simp add: RemoveRange_def Let_def node_simps)

end
