(* ===== verification/PebbleDb.thy ===== *)
theory PebbleDb
  imports Status
begin

text \<open>
  The ordered key-value store under the replicated store is a third-party package: the record \<open>pebble\<close>, what the program
  calls of it, is a parameter of every definition that uses it, and the locale \<open>pebble_store\<close> says what
  its documentation promises of the calls that succeed (and that the errors of the others are its own, not the program's status errors). A batch collects writes; reading an indexed batch sees the
  database as it is now with the batch's writes over it; nothing reaches the database before \<open>Apply\<close>. A
  snapshot is the database value itself. An iterator is the pairs that are still ahead of it, in key order; the slices it
  gives out are good until it is moved on or closed, and nothing is promised of what they read as afterwards (\<open>pb_retained\<close>).

  Message encodings are a pair of functions each (\<open>codec\<close>), with the round trip as the one law.
\<close>

section \<open>The store as the program calls it\<close>

type_synonym kvs = "(bytes \<times> bytes) list"

text \<open>
  \<open>Inr None\<close> is \<^verbatim>\<open>pebble.ErrNotFound\<close>. \<open>pb_retained ahead i\<close> is what the key and value slices taken from an iterator over
  the pairs \<open>ahead\<close> at its \<open>i\<close>-th position read as once it was moved on to the end and closed.
\<close>

record ('db, 'wb) pebble =
  pb_Get :: "'db \<Rightarrow> bytes \<Rightarrow> error + bytes option"
  pb_All :: "'db \<Rightarrow> kvs"
  pb_NewBatch :: "'wb"
  pb_bGet :: "'db \<Rightarrow> 'wb \<Rightarrow> bytes \<Rightarrow> error + bytes option"
  pb_bAll :: "'db \<Rightarrow> 'wb \<Rightarrow> kvs"
  pb_Set :: "bytes \<Rightarrow> bytes \<Rightarrow> 'wb \<Rightarrow> error + 'wb"
  pb_DeleteRange :: "bytes \<Rightarrow> bytes \<Rightarrow> 'wb \<Rightarrow> error + 'wb"
  pb_Apply :: "'db \<Rightarrow> 'wb \<Rightarrow> error + 'db"
  pb_retained :: "kvs \<Rightarrow> nat \<Rightarrow> bytes \<times> bytes"

text \<open>The positions of an iterator over the pairs \<open>all\<close>, and its bounds.\<close>

definition iter_bounded :: "bytes option \<Rightarrow> bytes option \<Rightarrow> kvs \<Rightarrow> kvs" where
  "iter_bounded lower upper all =
     filter (\<lambda>(k, v). (case lower of None \<Rightarrow> True | Some l \<Rightarrow> l \<le> k) \<and> (case upper of None \<Rightarrow> True | Some u \<Rightarrow> k < u)) all"

definition iter_SeekGE :: "bytes \<Rightarrow> kvs \<Rightarrow> kvs" where
  "iter_SeekGE key all = dropWhile (\<lambda>(k, v). k < key) all"

definition iter_SeekLT :: "bytes \<Rightarrow> kvs \<Rightarrow> kvs" where
  "iter_SeekLT key all =
     (let n = length (takeWhile (\<lambda>(k, v). k < key) all) in if n = 0 then [] else drop (n - 1) all)"

record 'a codec =
  c_Marshal :: "'a \<Rightarrow> error + bytes"
  c_Unmarshal :: "bytes \<Rightarrow> error + 'a"

definition codec_ok :: "'a codec \<Rightarrow> bool" where
  "codec_ok c \<longleftrightarrow> (\<forall>x b. c_Marshal c x = Inr b \<longrightarrow> c_Unmarshal c b = Inr x)"

lemma codec_okD: "codec_ok c \<Longrightarrow> c_Marshal c x = Inr b \<Longrightarrow> c_Unmarshal c b = Inr x"
  by (simp add: codec_ok_def)

section \<open>What it promises\<close>

definition kv_iter :: "kvs \<Rightarrow> (bytes \<rightharpoonup> bytes) \<Rightarrow> bool" where
  "kv_iter all m \<longleftrightarrow> sorted_wrt (<) (map fst all) \<and> map_of all = m"

definition delete_between :: "bytes \<Rightarrow> bytes \<Rightarrow> (bytes \<rightharpoonup> bytes) \<Rightarrow> bytes \<rightharpoonup> bytes" where
  "delete_between a b m = (\<lambda>k. if a \<le> k \<and> k < b then None else m k)"

locale pebble_store =
  fixes P :: "('db, 'wb) pebble"
    and contents :: "'db \<Rightarrow> bytes \<rightharpoonup> bytes"
    and effect :: "'wb \<Rightarrow> (bytes \<rightharpoonup> bytes) \<Rightarrow> bytes \<rightharpoonup> bytes"
  assumes Get: "pb_Get P db k = Inr r \<Longrightarrow> r = contents db k"
    and Get_err: "pb_Get P db k = Inl err \<Longrightarrow> err_code err \<noteq> NotFound"
    and All: "kv_iter (pb_All P db) (contents db)"
    and NewBatch: "effect (pb_NewBatch P) m = m"
    and bGet: "pb_bGet P db wb k = Inr r \<Longrightarrow> r = effect wb (contents db) k"
    and bGet_err: "pb_bGet P db wb k = Inl err \<Longrightarrow> err_code err \<noteq> NotFound"
    and bAll: "kv_iter (pb_bAll P db wb) (effect wb (contents db))"
    and Set: "pb_Set P k v wb = Inr wb' \<Longrightarrow> effect wb' m = (effect wb m)(k \<mapsto> v)"
    and DeleteRange: "pb_DeleteRange P a b wb = Inr wb' \<Longrightarrow> effect wb' m = delete_between a b (effect wb m)"
    and Apply: "pb_Apply P db wb = Inr db' \<Longrightarrow> contents db' = effect wb (contents db)"

text \<open>A store whose slices outlive the iterator (more than is promised), and one that uses the same buffers for every
  position, as the promise allows.\<close>

definition slices_kept :: "('db, 'wb) pebble \<Rightarrow> bool" where
  "slices_kept P \<longleftrightarrow> (\<forall>ahead i. i < length ahead \<longrightarrow> pb_retained P ahead i = ahead ! i)"

definition reusing_buffers :: "('db, 'wb) pebble \<Rightarrow> ('db, 'wb) pebble" where
  "reusing_buffers P = P\<lparr>pb_retained := \<lambda>ahead i. last ahead\<rparr>"

lemma reusing_buffers_simps [simp]:
  "pb_All (reusing_buffers P) = pb_All P" "pb_retained (reusing_buffers P) ahead i = last ahead"
  by (simp_all add: reusing_buffers_def)

lemma reusing_buffers_store: "pebble_store P cont eff \<Longrightarrow> pebble_store (reusing_buffers P) cont eff"
  by (simp add: pebble_store_def reusing_buffers_def)

lemma delete_between_simps:
  "a \<le> k \<and> k < b \<Longrightarrow> delete_between a b m k = None"
  "\<not> (a \<le> k \<and> k < b) \<Longrightarrow> delete_between a b m k = m k"
  by (auto simp: delete_between_def)

section \<open>Iterating over a sorted list of pairs\<close>

lemma kv_iter_distinct: "kv_iter all m \<Longrightarrow> distinct (map fst all)"
  unfolding kv_iter_def by (simp add: strict_sorted_iff)

lemma kv_iter_unique:
  assumes "kv_iter xs m" "kv_iter ys m"
  shows "xs = ys"
proof -
  have d: "distinct (map fst xs)" "distinct (map fst ys)" using assms by (auto dest: kv_iter_distinct)
  have m: "map_of xs = map_of ys" using assms by (simp add: kv_iter_def)
  then have "set xs = set ys" using map_of_inject_set [OF d] by blast
  moreover have "sorted (map fst xs)" "sorted (map fst ys)"
    using assms by (auto simp: kv_iter_def strict_sorted_iff)
  ultimately show ?thesis
    using d by (intro map_sorted_distinct_set_unique [of fst xs ys]) (auto simp: distinct_map)
qed

lemma kv_iter_Nil [simp]: "kv_iter [] m \<longleftrightarrow> m = Map.empty"
  by (auto simp: kv_iter_def)

lemma kv_iter_map_of: "kv_iter all m \<Longrightarrow> m k = map_of all k"
  by (auto simp: kv_iter_def)

lemma sorted_fst_Cons:
  "sorted_wrt (<) (map fst ((k, v) # all)) \<longleftrightarrow> (\<forall>k'\<in>fst ` set all. k < k') \<and> sorted_wrt (<) (map fst all)"
  by auto

lemma iter_SeekGE_found:
  assumes "kv_iter all m" and "m k = Some v"
  shows "\<exists>rest. iter_SeekGE k all = (k, v) # rest"
proof -
  have "sorted_wrt (<) (map fst all)" "map_of all k = Some v" using assms by (auto simp: kv_iter_def)
  then show ?thesis
  proof (induction all)
    case (Cons kv all)
    obtain k0 v0 where kv: "kv = (k0, v0)" by (cases kv)
    show ?case
    proof (cases "k0 = k")
      case False
      then have "map_of all k = Some v" using Cons.prems(2) kv by simp
      moreover from this have "k0 < k"
        using Cons.prems(1) kv by (metis fst_conv image_eqI map_of_SomeD sorted_fst_Cons)
      ultimately show ?thesis using Cons.IH Cons.prems(1) by (simp add: kv iter_SeekGE_def)
    qed (use Cons.prems kv in \<open>simp add: iter_SeekGE_def\<close>)
  qed simp
qed

lemma iter_SeekGE_missing:
  assumes "kv_iter all m" and "m k = None" and "iter_SeekGE k all = (k', v) # rest"
  shows "k' \<noteq> k"
proof -
  have "(k', v) \<in> set all" using assms(3) by (metis iter_SeekGE_def list.set_intros(1) set_dropWhileD)
  moreover have "map_of all k = None" using assms(1,2) by (simp add: kv_iter_map_of)
  ultimately show ?thesis by (auto simp: map_of_eq_None_iff rev_image_eqI)
qed

section \<open>An in-memory store\<close>

text \<open>
  A store that satisfies the laws: the database is the log of its writes, a batch the list of the writes to append,
  and iterating replays the log into a sorted list of pairs.
\<close>

datatype mem_op = MemSet bytes bytes | MemDelete bytes bytes

fun kv_insert :: "bytes \<Rightarrow> bytes \<Rightarrow> kvs \<Rightarrow> kvs" where
  "kv_insert k v [] = [(k, v)]"
| "kv_insert k v ((k', v') # kv) =
     (if k < k' then (k, v) # (k', v') # kv else if k = k' then (k, v) # kv else (k', v') # kv_insert k v kv)"

fun mem_do :: "mem_op \<Rightarrow> kvs \<Rightarrow> kvs" where
  "mem_do (MemSet k v) kv = kv_insert k v kv"
| "mem_do (MemDelete a b) kv = filter (\<lambda>(k, v). \<not> (a \<le> k \<and> k < b)) kv"

fun mem_effect1 :: "mem_op \<Rightarrow> (bytes \<rightharpoonup> bytes) \<Rightarrow> bytes \<rightharpoonup> bytes" where
  "mem_effect1 (MemSet k v) m = m(k \<mapsto> v)"
| "mem_effect1 (MemDelete a b) m = delete_between a b m"

definition mem_effect :: "mem_op list \<Rightarrow> (bytes \<rightharpoonup> bytes) \<Rightarrow> bytes \<rightharpoonup> bytes" where
  "mem_effect wb m = fold mem_effect1 wb m"

definition mem_contents :: "mem_op list \<Rightarrow> bytes \<rightharpoonup> bytes" where
  "mem_contents db = mem_effect db Map.empty"

definition mem_all :: "mem_op list \<Rightarrow> kvs" where
  "mem_all db = fold mem_do db []"

definition mem_pebble :: "(mem_op list, mem_op list) pebble" where
  "mem_pebble =
     \<lparr>pb_Get = (\<lambda>db k. Inr (map_of (mem_all db) k)),
      pb_All = mem_all,
      pb_NewBatch = [],
      pb_bGet = (\<lambda>db wb k. Inr (map_of (mem_all (db @ wb)) k)),
      pb_bAll = (\<lambda>db wb. mem_all (db @ wb)),
      pb_Set = (\<lambda>k v wb. Inr (wb @ [MemSet k v])),
      pb_DeleteRange = (\<lambda>a b wb. Inr (wb @ [MemDelete a b])),
      pb_Apply = (\<lambda>db wb. Inr (db @ wb)),
      pb_retained = (\<lambda>ahead i. ahead ! i)\<rparr>"

lemma mem_slices_kept: "slices_kept mem_pebble"
  by (simp add: slices_kept_def mem_pebble_def)

lemma kv_insert_fst: "fst ` set (kv_insert k v kv) = insert k (fst ` set kv)"
  by (induction k v kv rule: kv_insert.induct) auto

lemma kv_insert_sorted: "sorted_wrt (<) (map fst kv) \<Longrightarrow> sorted_wrt (<) (map fst (kv_insert k v kv))"
proof (induction k v kv rule: kv_insert.induct)
  case (2 k v k' v' kv)
  consider "k < k'" | "k = k'" | "k' < k" by (rule linorder_cases)
  then show ?case
    using 2 by cases (auto simp: sorted_fst_Cons kv_insert_fst simp del: list.map intro: order.strict_trans)
qed simp

lemma kv_insert_map_of: "sorted_wrt (<) (map fst kv) \<Longrightarrow> map_of (kv_insert k v kv) = (map_of kv)(k \<mapsto> v)"
  by (induction k v kv rule: kv_insert.induct) (auto simp: fun_eq_iff)

lemma kv_delete_sorted: "sorted_wrt (<) (map fst kv) \<Longrightarrow> sorted_wrt (<) (map fst (filter P kv))"
  by (induction kv) auto

lemma kv_delete_map_of:
  "distinct (map fst kv) \<Longrightarrow> map_of (filter (\<lambda>(k, v). Q k) kv) k = (if Q k then map_of kv k else None)"
  by (induction kv) (auto simp: map_of_eq_None_iff image_iff)

lemma kv_iter_do:
  assumes "kv_iter kv m"
  shows "kv_iter (mem_do op kv) (mem_effect1 op m)"
proof (cases op)
  case (MemSet k v)
  then show ?thesis using assms by (simp add: kv_iter_def kv_insert_sorted kv_insert_map_of)
next
  case (MemDelete a b)
  have "map_of (filter (\<lambda>(k, v). \<not> (a \<le> k \<and> k < b)) kv) = delete_between a b m"
    using kv_delete_map_of [OF kv_iter_distinct [OF assms], of "\<lambda>k. \<not> (a \<le> k \<and> k < b)"] assms
    by (auto simp: kv_iter_def delete_between_def fun_eq_iff)
  then show ?thesis using assms MemDelete by (simp add: kv_iter_def kv_delete_sorted)
qed

lemma kv_iter_fold: "kv_iter kv m \<Longrightarrow> kv_iter (fold mem_do ops kv) (fold mem_effect1 ops m)"
  by (induction ops arbitrary: kv m) (simp_all add: kv_iter_do)

lemma mem_kv_iter: "kv_iter (mem_all db) (mem_contents db)"
  using kv_iter_fold [of "[]" Map.empty db] by (simp add: mem_all_def mem_contents_def mem_effect_def)

lemma mem_contents_append: "mem_contents (db @ wb) = mem_effect wb (mem_contents db)"
  by (simp add: mem_contents_def mem_effect_def)

lemma map_of_mem_all [simp]: "map_of (mem_all db) = mem_contents db"
  using mem_kv_iter [of db] by (simp add: kv_iter_def)

interpretation mem: pebble_store mem_pebble mem_contents mem_effect
proof
  show "kv_iter (pb_All mem_pebble db) (mem_contents db)" for db
    by (simp add: mem_pebble_def mem_kv_iter)
  show "kv_iter (pb_bAll mem_pebble db wb) (mem_effect wb (mem_contents db))" for db wb
    using mem_kv_iter [of "db @ wb"] by (simp add: mem_pebble_def mem_contents_append)
qed (auto simp: mem_pebble_def mem_effect_def mem_contents_append [unfolded mem_effect_def])

end
