(* ===== verification/RaftSnapshot.thy ===== *)
theory RaftSnapshot
  imports RaftMessages PebbleDb "HOL-Library.Log_Nat"
begin

text \<open>
  The snapshots of \<^verbatim>\<open>enterprise/server/raft/replica/replica.go\<close>: the whole contents of a replica's database as a stream of
  length-prefixed messages, written to a writer and read back into another database. The writer is a parameter, a
  function from the bytes handed to it to the count it accepts and its error; a stream that is read is its bytes and
  the error that ends it, \<open>None\<close> being \<^verbatim>\<open>io.EOF\<close>.
\<close>

section \<open>Variable-length integers\<close>

text \<open>
  \<^verbatim>\<open>binary.PutVarint\<close> and \<^verbatim>\<open>binary.ReadVarint\<close> of the standard library (Go 1.17): 7 bits at a time, least significant first,
  of the zig-zag encoding. A stream that ends inside a number ends the way the stream does.
\<close>

fun PutUvarint :: "nat \<Rightarrow> bytes" where
  "PutUvarint x = (if x < 0x80 then [of_nat x] else of_nat (x mod 0x80 + 0x80) # PutUvarint (x div 0x80))"

declare PutUvarint.simps [simp del]

definition PutVarint :: "int \<Rightarrow> bytes" where
  "PutVarint x = PutUvarint (nat (if x < 0 then - 2 * x - 1 else 2 * x))"

datatype stream_end = EOF | Failed error

fun ReadUvarint :: "nat \<Rightarrow> nat \<Rightarrow> nat \<Rightarrow> bytes \<Rightarrow> stream_end \<Rightarrow> (stream_end + nat) \<times> bytes" where
  "ReadUvarint i x s [] fin = (Inl fin, [])"
| "ReadUvarint i x s (b # bs) fin =
     (if b < 0x80 then
        (if i = 9 \<and> b > 1 then (Inl (Failed (Err Unknown ''binary: varint overflows a 64-bit integer'')), bs)
         else (Inr (x + unat b * 2 ^ s), bs))
      else if i \<ge> 9 then (Inl (Failed (Err Unknown ''binary: varint overflows a 64-bit integer'')), bs)
      else ReadUvarint (Suc i) (x + (unat b mod 0x80) * 2 ^ s) (s + 7) bs fin)"

definition ReadVarint :: "bytes \<Rightarrow> stream_end \<Rightarrow> (stream_end + int) \<times> bytes" where
  "ReadVarint bs fin =
     (case ReadUvarint 0 0 0 bs fin of
        (Inl e, rest) \<Rightarrow> (Inl e, rest)
      | (Inr ux, rest) \<Rightarrow> (Inr (if ux mod 2 = 1 then - int (ux div 2) - 1 else int (ux div 2)), rest))"

section \<open>The code\<close>

fun SaveSnapshotToWriter ::
  "KV codec \<Rightarrow> (bytes \<Rightarrow> 'o \<Rightarrow> (nat \<times> error option) \<times> 'o) \<Rightarrow> kvs \<Rightarrow> 'o \<Rightarrow> error option \<times> 'o" where
  "SaveSnapshotToWriter kvC wr [] w = (None, w)"
| "SaveSnapshotToWriter kvC wr ((k, v) # iter) w =
     (case c_Marshal kvC \<lparr>kvKey = k, kvValue = v\<rparr> of
        Inl err \<Rightarrow> (Some err, w)
      | Inr protoBytes \<Rightarrow>
          (case wr (PutVarint (int (length protoBytes))) w of
             ((_, Some err), w1) \<Rightarrow> (Some err, w1)
           | ((_, None), w1) \<Rightarrow>
               (case wr protoBytes w1 of
                  ((_, Some err), w2) \<Rightarrow> (Some err, w2)
                | ((n, None), w2) \<Rightarrow>
                    if n \<noteq> length protoBytes then (Some (FailedPreconditionError ''wrote wrong number of bytes?''), w2)
                    else SaveSnapshotToWriter kvC wr iter w2)))"

text \<open>
  The loop of \<open>ApplySnapshotFromReader\<close>, which collects the pairs in a batch. \<open>None\<close> is the panic of allocating a
  negative number of bytes. Reading a number consumes at least a byte, so the loop ends.
\<close>

lemma ReadUvarint_shorter: "ReadUvarint i x s bs fin = (Inr ux, rest) \<Longrightarrow> length rest < length bs"
proof (induction i x s bs fin rule: ReadUvarint.induct)
  case (2 i x s b bs fin)
  show ?case
  proof (cases "b < 0x80 \<or> i \<ge> 9")
    case True
    then show ?thesis using "2.prems" by (auto split: if_splits)
  next
    case False
    then have "length rest < length bs" using 2 by simp
    then show ?thesis by simp
  qed
qed simp

lemma ReadVarint_shorter: "ReadVarint bs fin = (Inr x, rest) \<Longrightarrow> length rest < length bs"
  by (auto simp: ReadVarint_def split: prod.splits sum.splits dest: ReadUvarint_shorter)

function apply_loop :: "('db, 'wb) pebble \<Rightarrow> KV codec \<Rightarrow> bytes \<Rightarrow> stream_end \<Rightarrow> 'wb \<Rightarrow> (error option \<times> 'wb) option" where
  "apply_loop P kvC bs fin wb =
     (case ReadVarint bs fin of
        (Inl EOF, _) \<Rightarrow> Some (None, wb)
      | (Inl (Failed err), _) \<Rightarrow> Some (Some err, wb)
      | (Inr cnt, rest) \<Rightarrow>
          if cnt < 0 then None
          else
            let n = nat cnt in
            if length rest < n
            then Some (Some (case fin of
                   EOF \<Rightarrow> if rest = [] then Err Unknown ''EOF'' else Err Unknown ''unexpected EOF''
                 | Failed err \<Rightarrow> err), wb)
            else
              (case c_Unmarshal kvC (take n rest) of
                 Inl err \<Rightarrow> Some (Some err, wb)
               | Inr kv \<Rightarrow>
                   (case pb_Set P (kvKey kv) (kvValue kv) wb of
                      Inl err \<Rightarrow> Some (Some err, wb)
                    | Inr wb' \<Rightarrow> apply_loop P kvC (drop n rest) fin wb')))"
  by pat_completeness auto
termination
  by (relation "measure (\<lambda>(P, kvC, bs, fin, wb). length bs)") (auto dest!: ReadVarint_shorter [OF sym])

declare apply_loop.simps [simp del]

definition ApplySnapshotFromReader ::
  "('db, 'wb) pebble \<Rightarrow> KV codec \<Rightarrow> bytes \<Rightarrow> stream_end \<Rightarrow> 'db \<Rightarrow> (error option \<times> 'db) option" where
  "ApplySnapshotFromReader P kvC bs fin db =
     (case pb_DeleteRange P [MinByte] [MaxByte] (pb_NewBatch P) of
        Inl err \<Rightarrow> Some (Some err, db)
      | Inr wb \<Rightarrow>
          (case apply_loop P kvC bs fin wb of
             None \<Rightarrow> None
           | Some (Some err, _) \<Rightarrow> Some (Some err, db)
           | Some (None, wb') \<Rightarrow> (case pb_Apply P db wb' of Inl err \<Rightarrow> Some (Some err, db) | Inr db' \<Rightarrow> Some (None, db'))))"

section \<open>Numbers read back\<close>

lemma unat_of_byte: "n < 256 \<Longrightarrow> unat (word_of_nat n :: byte) = n"
  by (simp add: unat_of_nat)

lemma byte_less_iff: "n < 256 \<Longrightarrow> (word_of_nat n :: byte) < 0x80 \<longleftrightarrow> n < 128"
  by (simp add: word_less_nat_alt unat_of_byte)

lemma ReadUvarint_Put:
  assumes "i \<le> 9" and "n < 2 ^ (64 - 7 * i)"
  shows "ReadUvarint i x s (PutUvarint n @ bs) fin = (Inr (x + n * 2 ^ s), bs)"
  using assms
proof (induction n arbitrary: i x s rule: PutUvarint.induct)
  case (1 n)
  show ?case
  proof (cases "n < 128")
    case True
    have "\<not> (i = 9 \<and> (word_of_nat n :: byte) > 1)"
      using "1.prems" True by (auto simp: word_less_nat_alt unat_of_byte)
    then show ?thesis
      using True by (subst PutUvarint.simps) (auto simp: byte_less_iff unat_of_byte)
  next
    case False
    have i: "i < 9"
    proof (rule ccontr)
      assume "\<not> i < 9"
      then have "i = 9" using "1.prems"(1) by linarith
      then show False using "1.prems"(2) False by simp
    qed
    let ?b = "n mod 128 + 128"
    have "n mod 128 < 128" by simp
    then have b: "?b < 256" by linarith
    have "n div 128 < 2 ^ (64 - 7 * Suc i)"
    proof -
      have "64 - 7 * i = (64 - 7 * Suc i) + 7" using i by simp
      then have "(2 :: nat) ^ (64 - 7 * i) = 2 ^ (64 - 7 * Suc i) * 2 ^ 7" by (simp only: power_add)
      then show ?thesis using "1.prems"(2) by (simp add: less_mult_imp_div_less)
    qed
    then have "ReadUvarint (Suc i) (x + n mod 128 * 2 ^ s) (s + 7) (PutUvarint (n div 128) @ bs) fin
        = (Inr (x + n mod 128 * 2 ^ s + n div 128 * 2 ^ (s + 7)), bs)"
      using 1 False i by simp
    moreover have "n mod 128 * 2 ^ s + n div 128 * 2 ^ (s + 7) = n * 2 ^ s"
    proof -
      have "n mod 128 * 2 ^ s + n div 128 * 2 ^ (s + 7) = (n mod 128 + 128 * (n div 128)) * 2 ^ s"
        by (simp only: power_add add_mult_distrib) simp
      then show ?thesis by simp
    qed
    moreover have "unat (word_of_nat ?b :: byte) = ?b" "\<not> (word_of_nat ?b :: byte) < 0x80"
      using unat_of_byte [OF b] byte_less_iff [OF b] by simp_all
    ultimately show ?thesis
      using False i by (subst PutUvarint.simps) (simp add: add.assoc del: of_nat_add)
  qed
qed

lemma ReadVarint_Put: "n < 2 ^ 63 \<Longrightarrow> ReadVarint (PutVarint (int n) @ bs) fin = (Inr (int n), bs)"
  using ReadUvarint_Put [of 0 "2 * n" 0 0 bs fin] by (simp add: ReadVarint_def PutVarint_def nat_mult_distrib)

section \<open>Snapshots read back\<close>

text \<open>A writer that takes everything, such as a file.\<close>

definition buf_write :: "bytes \<Rightarrow> bytes \<Rightarrow> (nat \<times> error option) \<times> bytes" where
  "buf_write bs w = ((length bs, None), w @ bs)"

definition small_messages :: "KV codec \<Rightarrow> bool" where
  "small_messages c \<longleftrightarrow> (\<forall>kv b. c_Marshal c kv = Inr b \<longrightarrow> length b < 2 ^ 63)"

fun set_all :: "('db, 'wb) pebble \<Rightarrow> kvs \<Rightarrow> 'wb \<Rightarrow> error option \<times> 'wb" where
  "set_all P [] wb = (None, wb)"
| "set_all P ((k, v) # all) wb = (case pb_Set P k v wb of Inl err \<Rightarrow> (Some err, wb) | Inr wb' \<Rightarrow> set_all P all wb')"

lemma apply_loop_end: "apply_loop P kvC [] EOF wb = Some (None, wb)"
  by (simp add: apply_loop.simps ReadVarint_def)

lemma apply_loop_message:
  assumes "length b < 2 ^ 63" and "c_Unmarshal kvC b = Inr kv"
  shows "apply_loop P kvC (PutVarint (int (length b)) @ b @ rest) fin wb =
    (case pb_Set P (kvKey kv) (kvValue kv) wb of
       Inl err \<Rightarrow> Some (Some err, wb) | Inr wb' \<Rightarrow> apply_loop P kvC rest fin wb')"
proof -
  have "take (length b) (b @ rest) = b" "drop (length b) (b @ rest) = rest" by simp_all
  then show ?thesis
    using assms
    by (subst apply_loop.simps, cases "pb_Set P (kvKey kv) (kvValue kv) wb") (simp_all add: ReadVarint_Put del: take_append drop_append)
qed

text \<open>What was saved is applied pair by pair.\<close>

lemma saved_applies:
  assumes "codec_ok kvC" and "small_messages kvC" and "SaveSnapshotToWriter kvC buf_write all w = (None, w')"
  shows "\<exists>s. w' = w @ s \<and> (\<forall>(P :: ('db, 'wb) pebble) wb. apply_loop P kvC s EOF wb = Some (set_all P all wb))"
  using assms(3)
proof (induction all arbitrary: w)
  case (Cons kv all)
  obtain k v where kv: "kv = (k, v)" by (cases kv)
  obtain b where b: "c_Marshal kvC \<lparr>kvKey = k, kvValue = v\<rparr> = Inr b"
    using Cons.prems by (auto simp: kv split: sum.splits)
  then have "SaveSnapshotToWriter kvC buf_write all (w @ PutVarint (int (length b)) @ b) = (None, w')"
    using Cons.prems by (simp add: kv) (simp add: buf_write_def [of "PutVarint (int (length b))"] buf_write_def [of b])
  from Cons.IH [OF this] obtain s where s: "w' = (w @ PutVarint (int (length b)) @ b) @ s"
      "\<forall>(P :: ('db, 'wb) pebble) wb. apply_loop P kvC s EOF wb = Some (set_all P all wb)"
    by auto
  have "apply_loop P kvC (PutVarint (int (length b)) @ b @ s) EOF wb = Some (set_all P (kv # all) wb)" for P :: "('db, 'wb) pebble" and wb
    using apply_loop_message [of b kvC "\<lparr>kvKey = k, kvValue = v\<rparr>" P s EOF wb] codec_okD [OF assms(1) b] assms(2) b s(2)
    by (auto simp: kv small_messages_def split: sum.split)
  then show ?case using s(1) by (intro exI [of _ "PutVarint (int (length b)) @ b @ s"]) simp
qed (simp add: apply_loop_end)

lemma map_of_rev_distinct: "distinct (map fst xs) \<Longrightarrow> map_of (rev xs) = map_of xs"
  by (rule map_of_inject_set [THEN iffD2]) (simp_all add: rev_map [symmetric])

context pebble_store
begin

lemma set_all_effect: "set_all P all wb = (None, wb') \<Longrightarrow> effect wb' m = effect wb m ++ map_of (rev all)"
proof (induction all arbitrary: wb)
  case (Cons kv all)
  obtain k v where kv: "kv = (k, v)" by (cases kv)
  obtain wb1 where w: "pb_Set P k v wb = Inr wb1" "set_all P all wb1 = (None, wb')"
    using Cons.prems by (auto simp: kv split: sum.splits)
  have "effect wb' m = effect wb1 m ++ map_of (rev all)" by (rule Cons.IH [OF w(2)])
  also have "effect wb1 m = (effect wb m)(k \<mapsto> v)" by (rule Set [OF w(1)])
  finally show ?case by (auto simp: kv map_add_def fun_eq_iff split: option.split)
qed simp

lemma restored_contents:
  assumes "codec_ok kvC" and "small_messages kvC" and "SaveSnapshotToWriter kvC buf_write (pb_All P src) [] = (None, s)"
    and "ApplySnapshotFromReader P kvC s EOF dst = Some (None, dst')"
  shows "contents dst' = delete_between [MinByte] [MaxByte] (contents dst) ++ contents src"
proof -
  have ap: "apply_loop P kvC s EOF wb = Some (set_all P (pb_All P src) wb)" for wb
    using saved_applies [OF assms(1-3)] by auto
  obtain wb wb' where w: "pb_DeleteRange P [MinByte] [MaxByte] (pb_NewBatch P) = Inr wb"
      "set_all P (pb_All P src) wb = (None, wb')" "pb_Apply P dst wb' = Inr dst'"
    using assms(4) by (auto simp: ApplySnapshotFromReader_def ap split: sum.splits prod.splits option.splits)
  have "map_of (rev (pb_All P src)) = contents src"
    using map_of_rev_distinct [OF kv_iter_distinct [OF All [of src]]] All [of src] by (simp add: kv_iter_def)
  then show ?thesis
    using Apply [OF w(3)] set_all_effect [OF w(2)] DeleteRange [OF w(1)] by (simp add: NewBatch)
qed

end

end
