(* ===== verification/RaftFilestore.thy ===== *)
theory RaftFilestore
  imports RaftKeys PebbleDb
begin

text \<open>
  \<^verbatim>\<open>enterprise/server/raft/filestore/filestore.go\<close>: files kept in the key-value store as numbered chunks of at most
  \<open>maxPebbleValueSize\<close> bytes, the writer that cuts a stream into them and the reader that puts
  them together again.

  The writer's buffer is the record field \<open>chBuf\<close>, the part \<^verbatim>\<open>buf[:idx]\<close> of it that is filled, of the
  capacity \<open>chCap\<close>. What it writes to is a parameter: a function that sets a key. A reader keeps the iterator it was
  given, the pairs of the store in key order. Chunk numbers are \<^verbatim>\<open>int64\<close> in the code and stay far from its bounds.
\<close>

section \<open>The code\<close>

definition initialChunkNum :: int where "initialChunkNum = 1"
definition maxPebbleValueSize :: nat where "maxPebbleValueSize = 3000000"

text \<open>\<^verbatim>\<open>StorageMetadata\<close> and \<^verbatim>\<open>FileMetadata\<close> of \<^verbatim>\<open>proto/raft.proto\<close>.\<close>

record PebbleMetadata =
  pmKey :: bytes
  pmChunks :: int

record StorageMetadata =
  smFile :: "string option"
  smPebble :: "PebbleMetadata option"

record FileMetadata =
  fmRecord :: FileRecord
  fmStorage :: "StorageMetadata option"

definition chunkName :: "bytes \<Rightarrow> int \<Rightarrow> bytes" where
  "chunkName key idx = key @ str_key (show_int idx)"

record 'w pebbleChunker =
  chWb :: 'w
  chKey :: bytes
  chBuf :: bytes
  chCap :: nat
  chNum :: int
  chClosed :: bool

definition PebbleWriter :: "'w \<Rightarrow> FileRecord \<Rightarrow> error + 'w pebbleChunker" where
  "PebbleWriter wb fr =
     (case FileDataKey fr of
        Inl err \<Rightarrow> Inl err
      | Inr key \<Rightarrow> Inr \<lparr>chWb = wb, chKey = key, chBuf = [], chCap = maxPebbleValueSize, chNum = initialChunkNum, chClosed = False\<rparr>)"

definition NewWriter :: "'w \<Rightarrow> FileRecord \<Rightarrow> error + 'w pebbleChunker" where
  "NewWriter wb fileRecord = PebbleWriter wb fileRecord"

definition flush :: "(bytes \<Rightarrow> bytes \<Rightarrow> 'w \<Rightarrow> error + 'w) \<Rightarrow> 'w pebbleChunker \<Rightarrow> error option \<times> 'w pebbleChunker" where
  "flush wset c =
     (if length (chBuf c) > 0 then
        (case wset (chunkName (chKey c) (chNum c)) (chBuf c) (chWb c) of
           Inl err \<Rightarrow> (Some err, c)
         | Inr wb \<Rightarrow> (None, c\<lparr>chWb := wb, chBuf := [], chNum := chNum c + 1\<rparr>))
      else (None, c))"

text \<open>The loop of \<open>Write\<close>; \<open>data\<close> is what is left, \<open>dataReadPtr\<close> what has been taken.\<close>

partial_function (option) write_loop ::
  "(bytes \<Rightarrow> bytes \<Rightarrow> 'w \<Rightarrow> error + 'w) \<Rightarrow> 'w pebbleChunker \<Rightarrow> bytes \<Rightarrow> nat \<Rightarrow> ((nat \<times> error option) \<times> 'w pebbleChunker) option"
where
  "write_loop wset c data dataReadPtr =
     (let n = chCap c - length (chBuf c);
          copied = take n data;
          data' = drop n data;
          ptr = dataReadPtr + length copied;
          c1 = c\<lparr>chBuf := chBuf c @ copied\<rparr>;
          (err, c2) = (if length (chBuf c1) = chCap c1 then flush wset c1 else (None, c1)) in
      case err of
        Some e \<Rightarrow> Some ((0, Some e), c2)
      | None \<Rightarrow> if data' = [] then Some ((ptr, None), c2) else write_loop wset c2 data' ptr)"

definition chunker_Write ::
  "(bytes \<Rightarrow> bytes \<Rightarrow> 'w \<Rightarrow> error + 'w) \<Rightarrow> 'w pebbleChunker \<Rightarrow> bytes \<Rightarrow> ((nat \<times> error option) \<times> 'w pebbleChunker) option" where
  "chunker_Write wset c data =
     (if chClosed c then Some ((0, Some (FailedPreconditionError ''writer already closed'')), c)
      else write_loop wset c data 0)"

definition chunker_Close :: "(bytes \<Rightarrow> bytes \<Rightarrow> 'w \<Rightarrow> error + 'w) \<Rightarrow> 'w pebbleChunker \<Rightarrow> error option \<times> 'w pebbleChunker" where
  "chunker_Close wset c =
     (if chClosed c then (Some (FailedPreconditionError ''writer already closed''), c)
      else
        case flush wset c of
          (Some err, c') \<Rightarrow> (Some err, c')
        | (None, c') \<Rightarrow> (None, c'\<lparr>chClosed := True\<rparr>))"

definition chunker_Metadata :: "'w pebbleChunker \<Rightarrow> StorageMetadata option" where
  "chunker_Metadata c =
     (if \<not> chClosed c then None
      else Some \<lparr>smFile = None, smPebble = Some \<lparr>pmKey = chKey c, pmChunks = chNum c - initialChunkNum\<rparr>\<rparr>)"

record pebbleStreamer =
  stIter :: kvs
  stKey :: bytes
  stIdx :: int
  stNum :: int
  stBuf :: bytes

definition PebbleReader :: "kvs \<Rightarrow> PebbleMetadata \<Rightarrow> pebbleStreamer" where
  "PebbleReader iter p = \<lparr>stIter = iter, stKey = pmKey p, stIdx = initialChunkNum, stNum = pmChunks p, stBuf = []\<rparr>"

text \<open>Errors of a reader: \<open>None\<close> is \<^verbatim>\<open>io.EOF\<close>.\<close>

definition fetchNext :: "pebbleStreamer \<Rightarrow> error option + pebbleStreamer" where
  "fetchNext c =
     (if stIdx c \<ge> stNum c + initialChunkNum then Inl None
      else
        let chunk = chunkName (stKey c) (stIdx c) in
        case iter_SeekGE chunk (stIter c) of
          [] \<Rightarrow> Inl (Some (OutOfRangeError ''chunk not found''))
        | (k, v) # _ \<Rightarrow>
            if k \<noteq> chunk then Inl (Some (OutOfRangeError ''chunk not found''))
            else Inr (c\<lparr>stBuf := v, stIdx := stIdx c + 1\<rparr>))"

lemma fetchNext_idx: "fetchNext c = Inr c' \<Longrightarrow> stIdx c < stNum c + 1 \<and> stIdx c' = stIdx c + 1 \<and> stNum c' = stNum c"
  by (auto simp: fetchNext_def initialChunkNum_def Let_def split: if_splits list.splits prod.splits)

text \<open>
  \<open>Read\<close> fills \<open>buf\<close>, always from its start, and returns the number of bytes it copied. The result is \<open>buf\<close>
  as it is left, the count, and the error.
\<close>

function streamer_Read :: "pebbleStreamer \<Rightarrow> bytes \<Rightarrow> nat \<Rightarrow> (bytes \<times> nat \<times> error option option) \<times> pebbleStreamer" where
  "streamer_Read c buf copied =
     (case (if stBuf c = [] then fetchNext c else Inr c) of
        Inl err \<Rightarrow> ((buf, copied, Some err), c)
      | Inr c1 \<Rightarrow>
          let n = min (length buf) (length (stBuf c1));
              buf' = take n (stBuf c1) @ drop n buf;
              c2 = c1\<lparr>stBuf := drop n (stBuf c1)\<rparr> in
          if n = length buf then ((buf', copied + n, None), c2)
          else streamer_Read c2 buf' (copied + n))"
  by pat_completeness auto
termination
proof (relation "measure (\<lambda>(c, buf, copied). 2 * nat (stNum c + 1 - stIdx c) + (if stBuf c = [] then 0 else 1))", goal_cases)
  case (2 c buf copied c1 n buf' c2)
  then have "stBuf c2 = []" by auto
  then show ?case
    using 2 fetchNext_idx [of c c1] by (auto split: if_splits)
qed simp

declare streamer_Read.simps [simp del]

definition PebbleHasChunks :: "kvs \<Rightarrow> PebbleMetadata \<Rightarrow> bool" where
  "PebbleHasChunks iter p =
     list_all (\<lambda>idx. let chunk = chunkName (pmKey p) idx in
        case iter_SeekGE chunk iter of [] \<Rightarrow> False | (k, v) # _ \<Rightarrow> k = chunk)
       [initialChunkNum..pmChunks p]"

text \<open>\<open>NewReader\<close>; opening a file on disk is a parameter.\<close>

datatype 'f file_reader = DiskReader 'f | ChunkReader pebbleStreamer

definition NewReader :: "(string \<Rightarrow> error + 'f) \<Rightarrow> string \<Rightarrow> kvs \<Rightarrow> StorageMetadata \<Rightarrow> error + 'f file_reader" where
  "NewReader open_file fileDir iter md =
     (case smFile md of
        Some name \<Rightarrow> (case open_file (filepath_Join [fileDir, name]) of Inl err \<Rightarrow> Inl err | Inr f \<Rightarrow> Inr (DiskReader f))
      | None \<Rightarrow>
          (case smPebble md of
             Some p \<Rightarrow> Inr (ChunkReader (PebbleReader iter p))
           | None \<Rightarrow> Inl (InvalidArgumentError ''No stored metadata'')))"

text \<open>
  \<^verbatim>\<open>io.CopyBuffer\<close> from such a reader with the buffer \<open>buf\<close>, which the calls share: the bytes handed on, and the error if it was not
  \<^verbatim>\<open>io.EOF\<close>. A count above the buffer's length is the run-time panic of slicing the buffer, \<open>None\<close>; so is running
  out of \<open>fuel\<close>, one unit for every call of \<open>Read\<close>.
\<close>

fun copy_reader :: "nat \<Rightarrow> bytes \<Rightarrow> pebbleStreamer \<Rightarrow> (bytes \<times> error option) option" where
  "copy_reader 0 buf c = None"
| "copy_reader (Suc fuel) buf c =
     (case streamer_Read c buf 0 of
        ((buf', nr, err), c') \<Rightarrow>
          if nr > length buf then None
          else
            let out = take nr buf' in
            case err of
              Some e \<Rightarrow> Some (out, e)
            | None \<Rightarrow> (case copy_reader fuel buf' c' of None \<Rightarrow> None | Some (rest, e) \<Rightarrow> Some (out @ rest, e)))"

text \<open>A client that writes a stream piece by piece, stopping at the first error.\<close>

fun write_all :: "(bytes \<Rightarrow> bytes \<Rightarrow> 'w \<Rightarrow> error + 'w) \<Rightarrow> 'w pebbleChunker \<Rightarrow> bytes list \<Rightarrow> (error option \<times> 'w pebbleChunker) option" where
  "write_all wset c [] = Some (None, c)"
| "write_all wset c (p # ps) =
     (case chunker_Write wset c p of
        None \<Rightarrow> None
      | Some ((n, Some e), c') \<Rightarrow> Some (Some e, c')
      | Some ((n, None), c') \<Rightarrow> write_all wset c' ps)"

section \<open>Chunk names\<close>

lemma show_int_inj: "0 \<le> i \<Longrightarrow> 0 \<le> j \<Longrightarrow> show_int i = show_int j \<longleftrightarrow> i = j"
  by (metis eq_nat_nat_iff linorder_not_less read_show_nat show_int_def)

lemma chunkName_inj [simp]: "0 \<le> i \<Longrightarrow> 0 \<le> j \<Longrightarrow> chunkName k i = chunkName k j \<longleftrightarrow> i = j"
  by (simp add: chunkName_def show_int_inj)

section \<open>Writing\<close>

text \<open>The law of the store that is written to: a successful call sets that key and no other.\<close>

definition sets_key :: "(bytes \<Rightarrow> bytes \<Rightarrow> 'w \<Rightarrow> error + 'w) \<Rightarrow> ('w \<Rightarrow> bytes \<rightharpoonup> bytes) \<Rightarrow> bool" where
  "sets_key wset view \<longleftrightarrow> (\<forall>k v w w'. wset k v w = Inr w' \<longrightarrow> view w' = (view w)(k \<mapsto> v))"

text \<open>The data \<open>D\<close> written so far is in full chunks \<open>chs\<close> in the store and in the buffer.\<close>

definition chunker_inv :: "('w \<Rightarrow> bytes \<rightharpoonup> bytes) \<Rightarrow> 'w pebbleChunker \<Rightarrow> 'w pebbleChunker \<Rightarrow> bytes list \<Rightarrow> bytes \<Rightarrow> bool" where
  "chunker_inv view c0 c chs D \<longleftrightarrow>
     chKey c = chKey c0 \<and> chCap c = chCap c0 \<and> \<not> chClosed c \<and> chNum c = 1 + int (length chs)
     \<and> (\<forall>i<length chs. view (chWb c) (chunkName (chKey c0) (1 + int i)) = Some (chs ! i))
     \<and> (\<forall>k. (\<forall>i\<ge>1. k \<noteq> chunkName (chKey c0) i) \<longrightarrow> view (chWb c) k = view (chWb c0) k)
     \<and> (\<forall>x\<in>set chs. length x = chCap c0) \<and> length (chBuf c) < chCap c0 \<and> D = concat chs @ chBuf c"

lemma flush_full:
  assumes "sets_key wset view" and "chunker_inv view c0 c chs D"
    and "flush wset (c\<lparr>chBuf := chBuf c @ x\<rparr>) = (None, c2)" and "chBuf c @ x \<noteq> []"
  shows "chKey c2 = chKey c0 \<and> chCap c2 = chCap c0 \<and> \<not> chClosed c2 \<and> chNum c2 = 1 + int (length (chs @ [chBuf c @ x]))
     \<and> (\<forall>i<length (chs @ [chBuf c @ x]). view (chWb c2) (chunkName (chKey c0) (1 + int i)) = Some ((chs @ [chBuf c @ x]) ! i))
     \<and> (\<forall>k. (\<forall>i\<ge>1. k \<noteq> chunkName (chKey c0) i) \<longrightarrow> view (chWb c2) k = view (chWb c0) k)
     \<and> chBuf c2 = []"
proof -
  let ?b = "chBuf c @ x"
  obtain wb where w: "wset (chunkName (chKey c) (chNum c)) ?b (chWb c) = Inr wb"
      "c2 = c\<lparr>chBuf := ?b, chWb := wb, chBuf := [], chNum := chNum c + 1\<rparr>"
    using assms(3,4) by (auto simp: flush_def split: sum.splits if_splits)
  have v: "view wb = (view (chWb c))(chunkName (chKey c0) (1 + int (length chs)) \<mapsto> ?b)"
    using assms(1,2) w(1) by (auto simp: sets_key_def chunker_inv_def)
  have "view wb (chunkName (chKey c0) (1 + int i)) = Some ((chs @ [?b]) ! i)" if "i < length (chs @ [?b])" for i
    using that assms(2) unfolding v by (auto simp: chunker_inv_def nth_append)
  moreover have "view wb k = view (chWb c0) k" if "\<forall>i\<ge>1. k \<noteq> chunkName (chKey c0) i" for k
    using that assms(2) unfolding v by (auto simp: chunker_inv_def)
  ultimately show ?thesis using assms(2) w(2) by (auto simp: chunker_inv_def)
qed

lemma write_loop_ok:
  assumes "sets_key wset view" and "chunker_inv view c0 c chs D"
  shows "\<exists>n err c'. write_loop wset c data ptr = Some ((n, err), c') \<and>
    (err = None \<longrightarrow> n = ptr + length data \<and> (\<exists>chs'. chunker_inv view c0 c' chs' (D @ data)))"
  using assms(2)
proof (induction "length data" arbitrary: c chs D data ptr rule: less_induct)
  case less
  let ?n = "chCap c - length (chBuf c)"
  have inv: "length (chBuf c) < chCap c0" "chCap c = chCap c0"
    using less.prems by (auto simp: chunker_inv_def)
  show ?case
  proof (cases "length data < ?n")
    case True
    then have nf: "length (chBuf c @ data) \<noteq> chCap c" by simp
    have "chunker_inv view c0 (c\<lparr>chBuf := chBuf c @ data\<rparr>) chs (D @ data)"
      using less.prems True inv by (auto simp: chunker_inv_def)
    then show ?thesis
      using True nf by (subst write_loop.simps) (auto simp: Let_def)
  next
    case False
    let ?x = "take ?n data"
    have full: "length (chBuf c @ ?x) = chCap c" using False inv by simp
    have ne: "chBuf c @ ?x \<noteq> []" using full inv by auto
    obtain err c2 where f: "flush wset (c\<lparr>chBuf := chBuf c @ ?x\<rparr>) = (err, c2)" by fastforce
    have step: "write_loop wset c data ptr =
        (case err of Some e \<Rightarrow> Some ((0, Some e), c2)
         | None \<Rightarrow> if drop ?n data = [] then Some ((ptr + length ?x, None), c2) else write_loop wset c2 (drop ?n data) (ptr + length ?x))"
      using full f by (subst write_loop.simps) (simp add: Let_def)
    show ?thesis
    proof (cases err)
      case (Some e)
      then show ?thesis using step by simp
    next
      case None
      note ff = flush_full [OF assms(1) less.prems f [unfolded None] ne]
      have D: "D @ ?x = concat (chs @ [chBuf c @ ?x]) @ chBuf c2"
        using less.prems ff by (auto simp: chunker_inv_def)
      have inv2: "chunker_inv view c0 c2 (chs @ [chBuf c @ ?x]) (D @ ?x)"
        unfolding chunker_inv_def using ff D full inv less.prems
        by (auto simp: chunker_inv_def nth_append simp del: append_take_drop_id)
      show ?thesis
      proof (cases "drop ?n data = []")
        case True
        then have "?x = data" by simp
        then show ?thesis using step None True inv2 by auto
      next
        case False
        have "length (drop ?n data) < length data"
          using False inv by simp
        moreover have "(D @ ?x) @ drop ?n data = D @ data" by simp
        moreover have "ptr + length ?x + length (drop ?n data) = ptr + length data" using full inv by simp
        ultimately obtain n err' c' where
          "write_loop wset c2 (drop ?n data) (ptr + length ?x) = Some ((n, err'), c')"
          "err' = None \<longrightarrow> n = ptr + length data \<and> (\<exists>chs'. chunker_inv view c0 c' chs' (D @ data))"
          using less.hyps [OF _ inv2, of "drop ?n data" "ptr + length ?x"] by (metis (no_types, lifting))
        then show ?thesis using step None False by simp
      qed
    qed
  qed
qed

text \<open>Every write returns.\<close>

lemma write_all_ok:
  assumes "sets_key wset view" and "chunker_inv view c0 c chs D"
  shows "\<exists>err c'. write_all wset c ps = Some (err, c') \<and> (err = None \<longrightarrow> (\<exists>chs'. chunker_inv view c0 c' chs' (D @ concat ps)))"
  using assms(2)
proof (induction ps arbitrary: c chs D)
  case (Cons p ps)
  have open': "chunker_Write wset c p = write_loop wset c p 0"
    using Cons.prems by (simp add: chunker_Write_def chunker_inv_def)
  obtain n err c1 where w: "write_loop wset c p 0 = Some ((n, err), c1)"
      "err = None \<longrightarrow> (\<exists>chs'. chunker_inv view c0 c1 chs' (D @ p))"
    using write_loop_ok [OF assms(1) Cons.prems, of p 0] by auto
  show ?case
  proof (cases err)
    case None
    then obtain chs' where "chunker_inv view c0 c1 chs' (D @ p)" using w(2) by auto
    from Cons.IH [OF this] show ?thesis using open' w None by simp
  qed (use open' w in simp)
qed auto

text \<open>A finished file: its chunks in the store, all but the last full.\<close>

definition stored_chunks :: "(bytes \<rightharpoonup> bytes) \<Rightarrow> bytes \<Rightarrow> nat \<Rightarrow> bytes list \<Rightarrow> bool" where
  "stored_chunks m key cap chs \<longleftrightarrow>
     (\<forall>i<length chs. m (chunkName key (1 + int i)) = Some (chs ! i)) \<and> (\<forall>x\<in>set chs. x \<noteq> [] \<and> length x \<le> cap)
     \<and> (\<forall>x\<in>set (butlast chs). length x = cap)"

lemma chunker_Close_ok:
  assumes "sets_key wset view" and "chunker_inv view c0 c chs D" and "chunker_Close wset c = (None, c')"
  shows "\<exists>chs'. stored_chunks (view (chWb c')) (chKey c0) (chCap c0) chs' \<and> concat chs' = D
    \<and> chunker_Metadata c' = Some \<lparr>smFile = None, smPebble = Some \<lparr>pmKey = chKey c0, pmChunks = int (length chs')\<rparr>\<rparr>
    \<and> (\<forall>k. (\<forall>i\<ge>1. k \<noteq> chunkName (chKey c0) i) \<longrightarrow> view (chWb c') k = view (chWb c0) k)
    \<and> chClosed c'"
proof -
  obtain c1 where f: "flush wset c = (None, c1)" and c': "c' = c1\<lparr>chClosed := True\<rparr>"
    using assms(2,3) by (auto simp: chunker_Close_def chunker_inv_def split: prod.splits option.splits)
  show ?thesis
  proof (cases "chBuf c = []")
    case True
    then have "c1 = c" using f by (simp add: flush_def)
    then show ?thesis
      using assms(2) True c'
      by (intro exI [of _ chs]) (auto simp: chunker_inv_def stored_chunks_def chunker_Metadata_def initialChunkNum_def in_set_butlastD)
  next
    case False
    have "flush wset (c\<lparr>chBuf := chBuf c @ []\<rparr>) = (None, c1)" using f by simp
    from flush_full [OF assms(1,2) this] False
    have ff: "chKey c1 = chKey c0" "chNum c1 = 1 + int (length (chs @ [chBuf c]))"
      "\<forall>i<length (chs @ [chBuf c]). view (chWb c1) (chunkName (chKey c0) (1 + int i)) = Some ((chs @ [chBuf c]) ! i)"
      "\<forall>k. (\<forall>i\<ge>1. k \<noteq> chunkName (chKey c0) i) \<longrightarrow> view (chWb c1) k = view (chWb c0) k"
      by simp_all
    then show ?thesis
      using assms(2) False c'
      by (intro exI [of _ "chs @ [chBuf c]"])
        (auto simp: chunker_inv_def stored_chunks_def chunker_Metadata_def initialChunkNum_def butlast_append)
  qed
qed

section \<open>Reading\<close>

text \<open>The chunks that a reader has not fetched yet.\<close>

definition chunks_ahead :: "(bytes \<rightharpoonup> bytes) \<Rightarrow> pebbleStreamer \<Rightarrow> bytes list \<Rightarrow> bool" where
  "chunks_ahead m c rs \<longleftrightarrow>
     kv_iter (stIter c) m \<and> 1 \<le> stIdx c \<and> stNum c + 1 - stIdx c = int (length rs)
     \<and> (\<forall>i<length rs. m (chunkName (stKey c) (stIdx c + int i)) = Some (rs ! i))"

lemma fetchNext_end: "chunks_ahead m c [] \<Longrightarrow> fetchNext c = Inl None"
  by (auto simp: chunks_ahead_def fetchNext_def initialChunkNum_def)

lemma fetchNext_chunk:
  assumes "chunks_ahead m c (r # rs)"
  shows "fetchNext c = Inr (c\<lparr>stBuf := r, stIdx := stIdx c + 1\<rparr>)"
    and "chunks_ahead m (c\<lparr>stBuf := b, stIdx := stIdx c + 1\<rparr>) rs"
proof -
  let ?k = "chunkName (stKey c) (stIdx c)"
  have "m ?k = Some r" using assms by (auto simp: chunks_ahead_def dest: spec [of _ 0])
  then obtain t where "iter_SeekGE ?k (stIter c) = (?k, r) # t"
    using iter_SeekGE_found assms unfolding chunks_ahead_def by metis
  then show "fetchNext c = Inr (c\<lparr>stBuf := r, stIdx := stIdx c + 1\<rparr>)"
    using assms by (auto simp: fetchNext_def initialChunkNum_def chunks_ahead_def)
  have "m (chunkName (stKey c) (stIdx c + 1 + int i)) = Some (rs ! i)" if "i < length rs" for i
    using assms that unfolding chunks_ahead_def by (auto simp: add.assoc dest!: spec [of _ "Suc i"])
  then show "chunks_ahead m (c\<lparr>stBuf := b, stIdx := stIdx c + 1\<rparr>) rs"
    using assms by (auto simp: chunks_ahead_def)
qed

lemma chunks_ahead_buf [simp]: "chunks_ahead m (c\<lparr>stBuf := b\<rparr>) rs = chunks_ahead m c rs"
  by (simp add: chunks_ahead_def)

lemma Read_fetches:
  assumes "stBuf c = []" and "fetchNext c = Inr c1" and "stBuf c1 \<noteq> []"
  shows "streamer_Read c buf n = streamer_Read c1 buf n"
  using assms by (subst (1 2) streamer_Read.simps) simp

lemma Read_enough:
  assumes "stBuf c \<noteq> []" and "length buf \<le> length (stBuf c)"
  shows "streamer_Read c buf n = ((take (length buf) (stBuf c), n + length buf, None), c\<lparr>stBuf := drop (length buf) (stBuf c)\<rparr>)"
  using assms by (subst streamer_Read.simps) (simp add: Let_def min_def)

lemma Read_short:
  assumes "stBuf c \<noteq> []" and "length (stBuf c) < length buf"
  shows "streamer_Read c buf n = streamer_Read (c\<lparr>stBuf := []\<rparr>) (stBuf c @ drop (length (stBuf c)) buf) (n + length (stBuf c))"
  using assms by (subst streamer_Read.simps) (simp add: Let_def min_def)

lemma Read_end:
  "stBuf c = [] \<Longrightarrow> fetchNext c = Inl e \<Longrightarrow> streamer_Read c buf n = ((buf, n, Some e), c)"
  by (subst streamer_Read.simps) simp

text \<open>
  The pieces a buffer of \<open>L\<close> bytes may be filled from without crossing a chunk boundary: what is buffered and
  every chunk but the last are a multiple of \<open>L\<close>.
\<close>

definition aligned :: "nat \<Rightarrow> bytes list \<Rightarrow> bool" where
  "aligned L xs \<longleftrightarrow> (\<forall>x\<in>set (butlast xs). L dvd length x)"

lemma copy_reader_ok:
  assumes "chunks_ahead m c rs" and "aligned (length buf) (stBuf c # rs)" and "\<forall>r\<in>set rs. r \<noteq> []"
    and "buf \<noteq> []" and "length (stBuf c @ concat rs) < fuel"
  shows "copy_reader fuel buf c = Some (stBuf c @ concat rs, None)"
  using assms
proof (induction fuel arbitrary: buf c rs)
  case (Suc fuel)
  have step: "copy_reader (Suc fuel) buf c = Some (stBuf c @ concat rs, None)"
    if ca: "chunks_ahead m c rs" and al: "aligned (length buf) (stBuf c # rs)" and ne: "\<forall>r\<in>set rs. r \<noteq> []"
      and b: "stBuf c \<noteq> []" and fu: "length (stBuf c @ concat rs) < Suc fuel" for c rs
  proof (cases "length buf \<le> length (stBuf c)")
    case True
    let ?c = "c\<lparr>stBuf := drop (length buf) (stBuf c)\<rparr>"
    have "rs \<noteq> [] \<Longrightarrow> length buf dvd length (stBuf c)" using al by (simp add: aligned_def)
    then have "rs \<noteq> [] \<Longrightarrow> length buf dvd length (drop (length buf) (stBuf c))"
      using True by (simp add: dvd_diff_nat)
    then have "aligned (length buf) (stBuf ?c # rs)" using al by (auto simp: aligned_def)
    moreover have "length (stBuf ?c @ concat rs) < fuel"
      using fu True \<open>buf \<noteq> []\<close> by (cases buf) auto
    ultimately have "copy_reader fuel (take (length buf) (stBuf c)) ?c = Some (stBuf ?c @ concat rs, None)"
      using Suc.IH [of ?c rs "take (length buf) (stBuf c)"] ca ne True \<open>buf \<noteq> []\<close> b by (simp add: min_absorb2)
    then show ?thesis using Read_enough [OF b True] True by (simp add: Let_def)
  next
    case False
    then have "\<not> length buf dvd length (stBuf c)" using b by (meson dvd_imp_le length_greater_0_conv)
    then have rs: "rs = []" using al by (auto simp: aligned_def split: if_splits)
    then have "fetchNext (c\<lparr>stBuf := []\<rparr>) = Inl None" using ca fetchNext_end [of m "c\<lparr>stBuf := []\<rparr>"] by simp
    then show ?thesis
      using False b rs by (simp add: Read_short Read_end Let_def)
  qed
  show ?case
  proof (cases "stBuf c = []")
    case False
    then show ?thesis using step Suc.prems by blast
  next
    case True
    show ?thesis
    proof (cases rs)
      case Nil
      then show ?thesis
        using True Suc.prems Read_end [OF True fetchNext_end] by (simp add: Let_def)
    next
      case (Cons r rs')
      let ?c = "c\<lparr>stBuf := r, stIdx := stIdx c + 1\<rparr>"
      note ft = fetchNext_chunk [OF Suc.prems(1) [unfolded Cons]]
      have "copy_reader (Suc fuel) buf ?c = Some (stBuf ?c @ concat rs', None)"
        using Suc.prems Cons ft(2) True by (intro step) (auto simp: aligned_def)
      moreover have "copy_reader (Suc fuel) buf c = copy_reader (Suc fuel) buf ?c"
        using Read_fetches [OF True ft(1)] Suc.prems(3) Cons by simp
      ultimately show ?thesis using True Cons by simp
    qed
  qed
qed simp

text \<open>A read that crosses a chunk boundary reports more bytes than the buffer has.\<close>

lemma copy_reader_crossing:
  assumes "chunks_ahead m c (r # rs)" and "stBuf c \<noteq> []" and "length (stBuf c) < length buf" and "length buf \<le> length r"
  shows "copy_reader fuel buf c = None"
proof (cases fuel)
  case (Suc n)
  let ?c = "c\<lparr>stBuf := []\<rparr>" and ?c1 = "c\<lparr>stBuf := r, stIdx := stIdx c + 1\<rparr>"
    and ?b = "stBuf c @ drop (length (stBuf c)) buf"
  have f: "fetchNext ?c = Inr ?c1"
    using fetchNext_chunk(1) [of m ?c r rs] assms(1) by simp
  have r: "stBuf ?c1 \<noteq> []" using assms(2-4) by auto
  have "streamer_Read c buf 0 = streamer_Read ?c1 ?b (0 + length (stBuf c))"
    using Read_short [OF assms(2,3), of 0] Read_fetches [OF _ f r] by simp
  also have "\<dots> = ((take (length ?b) r, length (stBuf c) + length ?b, None), ?c1\<lparr>stBuf := drop (length ?b) r\<rparr>)"
    using Read_enough [OF r, of ?b] assms(3,4) by simp
  finally show ?thesis using assms(2,3) Suc by simp
qed simp

lemma copy_reader_misaligned:
  assumes "chunks_ahead m c (r # rs)" and "buf \<noteq> []" and "\<not> length buf dvd length (stBuf c)" and "length buf \<le> length r"
  shows "copy_reader fuel buf c = None"
  using assms
proof (induction fuel arbitrary: buf c)
  case (Suc fuel)
  have b: "stBuf c \<noteq> []" using Suc.prems by auto
  show ?case
  proof (cases "length buf \<le> length (stBuf c)")
    case True
    let ?c = "c\<lparr>stBuf := drop (length buf) (stBuf c)\<rparr>" and ?buf = "take (length buf) (stBuf c)"
    have "length ?buf = length buf" using True by (simp add: min_absorb2)
    moreover have "\<not> length buf dvd length (stBuf ?c)"
      using Suc.prems(3) True by (simp add: dvd_minus_self)
    moreover have "?buf \<noteq> []" using Suc.prems(2) b by simp
    ultimately have "copy_reader fuel ?buf ?c = None"
      using Suc.IH [of ?c ?buf] Suc.prems by simp
    then show ?thesis using Read_enough [OF b True] by (simp add: Let_def)
  qed (use copy_reader_crossing [OF Suc.prems(1) b, of buf "Suc fuel"] Suc.prems in \<open>auto simp del: copy_reader.simps\<close>)
qed simp

section \<open>Files\<close>

lemma NewWriter_inv: "NewWriter wb fr = Inr c \<Longrightarrow> chunker_inv view c c [] [] \<and> chCap c = maxPebbleValueSize \<and> FileDataKey fr = Inr (chKey c) \<and> chWb c = wb"
  by (auto simp: NewWriter_def PebbleWriter_def chunker_inv_def maxPebbleValueSize_def initialChunkNum_def split: sum.splits)

text \<open>Into a store that never fails, every write and the closing succeed.\<close>

definition never_fails :: "(bytes \<Rightarrow> bytes \<Rightarrow> 'w \<Rightarrow> error + 'w) \<Rightarrow> bool" where
  "never_fails wset \<longleftrightarrow> (\<forall>k v w. \<exists>w'. wset k v w = Inr w')"

lemma flush_succeeds:
  assumes "never_fails wset" and "flush wset c = (err, c')"
  shows "err = None"
  using assms spec [OF assms(1) [unfolded never_fails_def], of "chunkName (chKey c) (chNum c)"]
  by (auto simp: flush_def split: if_splits sum.splits) (metis Inl_Inr_False)

lemma write_loop_succeeds:
  "write_loop wset c data ptr = Some y \<Longrightarrow> never_fails wset \<longrightarrow> snd (fst y) = None"
proof (rule write_loop.raw_induct [where P = "\<lambda>wset c data ptr y. never_fails wset \<longrightarrow> snd (fst y) = None"], goal_cases)
  case (1 wl wset c data ptr y)
  show "never_fails wset \<longrightarrow> snd (fst y) = None"
  proof
    assume nf: "never_fails wset"
    let ?n = "chCap c - length (chBuf c)"
    let ?c1 = "c\<lparr>chBuf := chBuf c @ take ?n data\<rparr>"
    obtain err c2 where e: "(if length (chBuf ?c1) = chCap ?c1 then flush wset ?c1 else (None, ?c1)) = (err, c2)"
      by fastforce
    then have err: "err = None" using flush_succeeds [OF nf] by (metis (no_types, lifting) prod.inject)
    have "(if drop ?n data = [] then Some ((ptr + length (take ?n data), None), c2)
           else wl wset c2 (drop ?n data) (ptr + length (take ?n data))) = Some y"
      using 1(3) unfolding Let_def e err by simp
    then show "snd (fst y) = None"
      using 1(2) nf by (auto split: if_splits)
  qed
qed

lemma write_all_never_fails:
  assumes "sets_key wset view" and "never_fails wset" and "chunker_inv view c0 c chs D"
  shows "\<exists>c' chs'. write_all wset c ps = Some (None, c') \<and> chunker_inv view c0 c' chs' (D @ concat ps)"
  using assms(3)
proof (induction ps arbitrary: c chs D)
  case (Cons p ps)
  have open': "chunker_Write wset c p = write_loop wset c p 0"
    using Cons.prems by (simp add: chunker_Write_def chunker_inv_def)
  obtain n err c1 where w: "write_loop wset c p 0 = Some ((n, err), c1)"
      "err = None \<longrightarrow> (\<exists>chs'. chunker_inv view c0 c1 chs' (D @ p))"
    using write_loop_ok [OF assms(1) Cons.prems, of p 0] by auto
  have "err = None" using write_loop_succeeds [OF w(1)] assms(2) by simp
  then obtain chs' where "chunker_inv view c0 c1 chs' (D @ p)" using w(2) by auto
  from Cons.IH [OF this] show ?case using open' w \<open>err = None\<close> by simp
qed auto

lemma file_written:
  assumes "sets_key wset view" and "never_fails wset" and "NewWriter wb fr = Inr c0"
  shows "\<exists>c c'. write_all wset c0 ps = Some (None, c) \<and> chunker_Close wset c = (None, c')"
proof -
  note i0 = conjunct1 [OF NewWriter_inv [OF assms(3), of view]]
  obtain c chs where c: "write_all wset c0 ps = Some (None, c)" "chunker_inv view c0 c chs (concat ps)"
    using write_all_never_fails [OF assms(1,2) i0, of ps] by auto
  obtain err c1 where f: "flush wset c = (err, c1)" by fastforce
  then have "err = None" using flush_succeeds [OF assms(2)] by blast
  then show ?thesis using c f by (auto simp: chunker_Close_def chunker_inv_def)
qed

text \<open>A reader of a stored file.\<close>

lemma PebbleReader_ahead:
  assumes "kv_iter iter m" and "stored_chunks m key cap chs"
  shows "chunks_ahead m (PebbleReader iter \<lparr>pmKey = key, pmChunks = int (length chs)\<rparr>) chs"
  using assms by (simp add: chunks_ahead_def PebbleReader_def initialChunkNum_def stored_chunks_def)

lemma stored_chunks_second:
  assumes "stored_chunks m key cap chs" and "cap + L \<le> length (concat chs)" and "0 < L" and "L \<le> cap"
  shows "\<exists>a b rs. chs = a # b # rs \<and> length a = cap \<and> L \<le> length b"
proof (cases chs)
  case (Cons a rs)
  show ?thesis
  proof (cases rs)
    case (Cons b rs')
    then show ?thesis
      using assms \<open>chs = a # rs\<close> by (cases "rs' = []") (auto simp: stored_chunks_def)
  qed (use assms \<open>chs = a # rs\<close> in \<open>auto simp: stored_chunks_def\<close>)
qed (use assms in simp)

lemma copy_reader_second_chunk:
  assumes "chunks_ahead m c (a # b # rs)" and "length buf \<le> length b" and "stBuf c = []" and "buf \<noteq> []" and "a \<noteq> []"
    and "\<not> length buf dvd length a"
  shows "copy_reader fuel buf c = None"
proof -
  note ft = fetchNext_chunk [OF assms(1)]
  have "copy_reader fuel buf (c\<lparr>stBuf := a, stIdx := stIdx c + 1\<rparr>) = None"
    using copy_reader_misaligned [OF ft(2), of buf a] assms by simp
  then show ?thesis
    using Read_fetches [OF assms(3) ft(1)] assms(5) by (cases fuel) simp_all
qed

lemma stored_chunks_aligned: "stored_chunks m key cap chs \<Longrightarrow> L dvd cap \<Longrightarrow> aligned L ([] # chs)"
  by (auto simp: stored_chunks_def aligned_def)

lemma written_file:
  assumes "sets_key wset view" and "NewWriter wb fr = Inr c0" and "write_all wset c0 ps = Some (None, c)"
    and "chunker_Close wset c = (None, c')"
  shows "\<exists>chs. stored_chunks (view (chWb c')) (chKey c0) maxPebbleValueSize chs \<and> concat chs = concat ps
    \<and> chunker_Metadata c' = Some \<lparr>smFile = None, smPebble = Some \<lparr>pmKey = chKey c0, pmChunks = int (length chs)\<rparr>\<rparr>
    \<and> (\<forall>k. (\<forall>i\<ge>1. k \<noteq> chunkName (chKey c0) i) \<longrightarrow> view (chWb c') k = view wb k)"
proof -
  note n = NewWriter_inv [OF assms(2), of view]
  obtain chs' where i: "chunker_inv view c0 c chs' (concat ps)"
    using write_all_ok [OF assms(1) conjunct1 [OF n], of ps] assms(3) by auto
  show ?thesis using chunker_Close_ok [OF assms(1) i assms(4)] n by auto
qed

text \<open>A file that was written in any pieces and closed reads back whole: with a buffer whose length divides the chunk
  size, copying from the reader that the file's own metadata opens ends with \<^verbatim>\<open>io.EOF\<close> after exactly the bytes
  that were written, in as many calls as there are bytes at most.\<close>

theorem file_reads_back:
  assumes "sets_key wset view" and "NewWriter wb fr = Inr c0" and "write_all wset c0 ps = Some (None, c)"
    and "chunker_Close wset c = (None, c')" and "kv_iter iter (view (chWb c'))"
    and "buf \<noteq> []" and "length buf dvd maxPebbleValueSize"
  shows "\<exists>md rd. chunker_Metadata c' = Some md \<and> NewReader open_file dir iter md = Inr (ChunkReader rd) \<and>
    copy_reader (Suc (length (concat ps))) buf rd = Some (concat ps, None)"
proof -
  obtain chs where w: "stored_chunks (view (chWb c')) (chKey c0) maxPebbleValueSize chs" "concat chs = concat ps"
      "chunker_Metadata c' = Some \<lparr>smFile = None, smPebble = Some \<lparr>pmKey = chKey c0, pmChunks = int (length chs)\<rparr>\<rparr>"
    using written_file [OF assms(1-4)] by auto
  let ?rd = "PebbleReader iter \<lparr>pmKey = chKey c0, pmChunks = int (length chs)\<rparr>"
  have "stBuf ?rd = []" by (simp add: PebbleReader_def)
  then have "copy_reader (Suc (length (concat ps))) buf ?rd = Some (concat ps, None)"
    using copy_reader_ok [OF PebbleReader_ahead [OF assms(5) w(1)], of buf "Suc (length (concat ps))"]
      stored_chunks_aligned [OF w(1) assms(7)] w assms(6) by (simp add: stored_chunks_def)
  then show ?thesis using w(3) by (auto simp: NewReader_def)
qed

text \<open>Reading a file of more than one chunk through a buffer that does not divide the chunk size never ends well (the second
  chunk being at least as long as the buffer): the read that crosses the boundary overwrites what it had copied and reports more bytes than the
  buffer holds, and the copy panics. (\<^verbatim>\<open>Store.Read\<close> takes such a buffer from the size in the request's digest.)\<close>

theorem misaligned_read_panics:
  assumes "sets_key wset view" and "NewWriter wb fr = Inr c0" and "write_all wset c0 ps = Some (None, c)"
    and "chunker_Close wset c = (None, c')" and "kv_iter iter (view (chWb c'))"
    and "\<not> length buf dvd maxPebbleValueSize" and "0 < length buf" and "length buf \<le> maxPebbleValueSize"
    and "maxPebbleValueSize + length buf \<le> length (concat ps)"
  shows "\<exists>md rd. chunker_Metadata c' = Some md \<and> NewReader open_file dir iter md = Inr (ChunkReader rd) \<and>
    copy_reader fuel buf rd = None"
proof -
  obtain chs where w: "stored_chunks (view (chWb c')) (chKey c0) maxPebbleValueSize chs" "concat chs = concat ps"
      "chunker_Metadata c' = Some \<lparr>smFile = None, smPebble = Some \<lparr>pmKey = chKey c0, pmChunks = int (length chs)\<rparr>\<rparr>"
    using written_file [OF assms(1-4)] by auto
  let ?rd = "PebbleReader iter \<lparr>pmKey = chKey c0, pmChunks = int (length chs)\<rparr>"
  obtain a b rs where chs: "chs = a # b # rs" "length a = maxPebbleValueSize" "length buf \<le> length b"
    using stored_chunks_second [OF w(1) _ assms(7,8)] assms(9) unfolding w(2) by blast
  have "a \<noteq> []" using chs(2) by (auto simp: maxPebbleValueSize_def)
  then have "copy_reader fuel buf ?rd = None"
    using copy_reader_second_chunk [OF PebbleReader_ahead [OF assms(5) w(1), unfolded chs(1)] chs(3)] assms(6-8) chs
    by (auto simp: PebbleReader_def)
  then show ?thesis using w(3) by (auto simp: NewReader_def)
qed

section \<open>Examples\<close>

definition example_record :: FileRecord where
  "example_record = \<lparr>fr_group_id = ''GR1'', fr_cache_type = FR_ACTION_CACHE, fr_instance = '''', fr_digest = \<lparr>dHash = ''abcdef'', dSizeBytes = 7\<rparr>\<rparr>"

lemma example_record_plain: "plain_record example_record"
  by (simp add: plain_record_def example_record_def plain_def)

definition mem_set :: "bytes \<Rightarrow> bytes \<Rightarrow> mem_op list \<Rightarrow> error + mem_op list" where
  "mem_set = pb_Set mem_pebble"

lemma mem_set_ok: "sets_key mem_set mem_contents" "never_fails mem_set"
  by (simp_all add: mem_set_def mem_pebble_def sets_key_def never_fails_def mem_contents_append mem_effect_def)

lemma example_file:
  "\<exists>c0 c c'. NewWriter [] example_record = Inr c0 \<and> write_all mem_set c0 ps = Some (None, c) \<and> chunker_Close mem_set c = (None, c')"
proof -
  obtain c0 where "NewWriter ([] :: mem_op list) example_record = Inr c0"
    using FileMetadataKey_plain [OF example_record_plain]
    by (simp add: NewWriter_def PebbleWriter_def FileDataKey_of_metadata)
  then show ?thesis using file_written [OF mem_set_ok, of "[]" example_record] by blast
qed

lemma file_reads_back_witness:
  "\<exists>c0 c c' md rd. NewWriter [] example_record = Inr c0 \<and> write_all mem_set c0 [[1, 2], [], [3]] = Some (None, c)
    \<and> chunker_Close mem_set c = (None, c') \<and> chunker_Metadata c' = Some md
    \<and> NewReader (\<lambda>f. Inr ()) '''' (mem_all (chWb c')) md = Inr (ChunkReader rd)
    \<and> copy_reader 4 (replicate 1000000 0) rd = Some ([1, 2, 3], None)"
proof -
  obtain c0 c c' where w: "NewWriter [] example_record = Inr c0" "write_all mem_set c0 [[1, 2], [], [3]] = Some (None, c)"
      "chunker_Close mem_set c = (None, c')"
    using example_file by blast
  have four: "4 = Suc (length (concat [[1, 2], [], [3 :: byte]]))" by simp
  have L: "replicate 1000000 (0 :: byte) \<noteq> []" "length (replicate 1000000 (0 :: byte)) dvd maxPebbleValueSize"
    by (simp_all add: maxPebbleValueSize_def)
  have "concat [[1, 2], [], [3 :: byte]] = [1, 2, 3]" by simp
  then show ?thesis
    unfolding four using file_reads_back [OF mem_set_ok(1) w mem_kv_iter L, of "\<lambda>f. Inr ()" "''''"] w by metis
qed

lemma misaligned_read_panics_witness:
  "\<exists>c0 c c' md rd. NewWriter [] example_record = Inr c0 \<and> write_all mem_set c0 [replicate 4000000 7] = Some (None, c)
    \<and> chunker_Close mem_set c = (None, c') \<and> chunker_Metadata c' = Some md
    \<and> NewReader (\<lambda>f. Inr ()) '''' (mem_all (chWb c')) md = Inr (ChunkReader rd)
    \<and> copy_reader 5000000 (replicate 7 0) rd = None"
proof -
  obtain c0 c c' where w: "NewWriter [] example_record = Inr c0" "write_all mem_set c0 [replicate 4000000 7] = Some (None, c)"
      "chunker_Close mem_set c = (None, c')"
    using example_file by blast
  show ?thesis
    using misaligned_read_panics [OF mem_set_ok(1) w mem_kv_iter, of "replicate 7 0" "\<lambda>f. Inr ()" "''''" 5000000] w
    by (auto simp: maxPebbleValueSize_def simp del: copy_reader.simps)
qed

end
