(* ===== verification/RaftReplica.thy ===== *)
theory RaftReplica
  imports RaftNode RaftSnapshot RaftFilestore
begin

text \<open>
  \<^verbatim>\<open>enterprise/server/raft/replica/replica.go\<close>: the state machine that every member of a raft group runs. A replica is a record
  in the node's heap, named by its address \<open>a\<close>; a handler takes the database \<open>db\<close> of the replica, the batch \<open>wb\<close> that the commands
  of one \<open>Update\<close> share, and the node, and returns the batch and the node as it leaves them. \<open>None\<close> is a
  run-time panic, or waiting for a lock that the same goroutine holds.

  What is outside is in \<open>replica_env\<close>: the key-value store, the message encodings, the temporary file for a snapshot, the reader of a
  file on a peer, and a command sent to another range through the sender, which acts on other groups' replicas.
\<close>

section \<open>The environment\<close>

record ('db, 'wb) replica_env =
  en_pebble :: "('db, 'wb) pebble"
  en_rd :: "RangeDescriptor codec"
  en_kv :: "KV codec"
  en_fm :: "FileMetadata codec"
  en_req :: "RequestUnion list codec"
  en_rsp :: "ResponseUnion list codec"
  en_CreateTemp :: "error option"
  en_ReadFileFromPeer :: "ReplicaDescriptor \<Rightarrow> FileRecord \<Rightarrow> error + bytes list \<times> error option"
  en_SyncPropose :: "bytes \<Rightarrow> RequestUnion list \<Rightarrow> error + ResponseUnion list"
  en_EstimateDiskUsage :: "'db \<Rightarrow> bytes \<Rightarrow> bytes \<Rightarrow> error + u64"

section \<open>Values\<close>

definition uint64ToBytes :: "u64 \<Rightarrow> bytes" where
  "uint64ToBytes i = map (\<lambda>j. ucast (drop_bit (8 * j) i)) [0..<8]"

text \<open>Reading fewer than 8 bytes panics.\<close>

definition bytesToUint64 :: "bytes \<Rightarrow> u64 option" where
  "bytesToUint64 buf =
     (if length buf < 8 then None
      else Some (fold (\<lambda>j acc. or acc (push_bit (8 * j) (ucast (buf ! j)))) [0..<8] 0))"

text \<open>\<open>lookup\<close> and \<open>batchLookup\<close> differ in what they read from: \<open>get\<close>.\<close>

definition lookup :: "(bytes \<Rightarrow> error + bytes option) \<Rightarrow> bytes \<Rightarrow> error + bytes" where
  "lookup get query =
     (case get query of
        Inl err \<Rightarrow> Inl err
      | Inr None \<Rightarrow> Inl (NotFoundError ''Key not found: pebble: not found'')
      | Inr (Some buf) \<Rightarrow> if length buf = 0 then Inl (NotFoundError ''Key not found (empty)'') else Inr buf)"

definition batchLookup :: "(bytes \<Rightarrow> error + bytes option) \<Rightarrow> bytes \<Rightarrow> error + bytes" where
  "batchLookup get query =
     (case get query of
        Inl err \<Rightarrow> Inl err
      | Inr None \<Rightarrow> Inl (NotFoundError ''Key not found: pebble: not found'')
      | Inr (Some buf) \<Rightarrow> if length buf = 0 then Inl (NotFoundError ''Key not found (empty)'') else Inr buf)"

definition getLastAppliedIndex :: "(bytes \<Rightarrow> error + bytes option) \<Rightarrow> (error + u64) option" where
  "getLastAppliedIndex get =
     (case lookup get LastAppliedIndexKey of
        Inl err \<Rightarrow> if IsNotFoundError (Some err) then Some (Inr 0) else Some (Inl err)
      | Inr val \<Rightarrow> if length val = 0 then Some (Inr 0) else map_option Inr (bytesToUint64 val))"

section \<open>The range of a replica\<close>

definition setRange :: "('db, 'wb) replica_env \<Rightarrow> nat \<Rightarrow> bytes \<Rightarrow> bytes \<Rightarrow> 'db store_node \<Rightarrow> error option \<times> 'db store_node" where
  "setRange e a key val n =
     (if bytes_Compare key LocalRangeKey \<noteq> 0
      then (Some (FailedPreconditionError ''setRange called with non-range key''), n)
      else
        case c_Unmarshal (en_rd e) val of
          Inl err \<Rightarrow> (Some err, n)
        | Inr rd \<Rightarrow>
            let n1 = (case rpRange (nReps n a) of None \<Rightarrow> n | Some old \<Rightarrow> RemoveRange old n);
                n2 = update_rep a (\<lambda>r. r\<lparr>rpRange := Some rd, rpMapped := Some \<lparr>rLeft = rdLeft rd, rRight = rdRight rd, rVal = ()\<rparr>\<rparr>) n1 in
            (None, AddRange (c_Marshal (en_rd e)) rd a n2))"

definition in_range :: "'db Replica \<Rightarrow> bytes \<Rightarrow> bool" where
  "in_range r key \<longleftrightarrow> (case rpMapped r of None \<Rightarrow> False | Some m \<Rightarrow> Range_Contains m key)"

definition rangeCheckedSet ::
  "('db, 'wb) replica_env \<Rightarrow> nat \<Rightarrow> 'wb \<Rightarrow> bytes \<Rightarrow> bytes \<Rightarrow> 'db store_node \<Rightarrow> error option \<times> 'wb \<times> 'db store_node" where
  "rangeCheckedSet e a wb key val n =
     (if \<not> IsLocalKey key then
        if in_range (nReps n a) key then
          (case pb_Set (en_pebble e) key val wb of Inl err \<Rightarrow> (Some err, wb, n) | Inr wb' \<Rightarrow> (None, wb', n))
        else (Some (OutOfRangeError ''range does not contain key''), wb, n)
      else
        case pb_Set (en_pebble e) key val wb of
          Inl err \<Rightarrow> (Some err, wb, n)
        | Inr wb' \<Rightarrow>
            if bytes_Compare key LocalRangeKey = 0 then (None, wb', snd (setRange e a key val n))
            else (None, wb', n))"

definition checkAndSetRangeDescriptor :: "('db, 'wb) replica_env \<Rightarrow> nat \<Rightarrow> (bytes \<Rightarrow> error + bytes option) \<Rightarrow> 'db store_node \<Rightarrow> 'db store_node" where
  "checkAndSetRangeDescriptor e a get n =
     (case lookup get LocalRangeKey of Inl _ \<Rightarrow> n | Inr buf \<Rightarrow> snd (setRange e a LocalRangeKey buf n))"

section \<open>Access to the database\<close>

text \<open>\<open>Reader\<close> and \<open>DB\<close>, which count their users; a nil database panics when it is used.\<close>

definition Reader :: "nat \<Rightarrow> 'db store_node \<Rightarrow> error + 'db option" where
  "Reader a n = (if rpClosed (nReps n a) then Inl (FailedPreconditionError ''db is closed.'') else Inr (rpDb (nReps n a)))"

definition DB :: "nat \<Rightarrow> 'db store_node \<Rightarrow> error + 'db option" where
  "DB a n = (if rpClosed (nReps n a) then Inl (FailedPreconditionError ''db is closed.'') else Inr (rpDb (nReps n a)))"

definition Usage :: "('db, 'wb) replica_env \<Rightarrow> nat \<Rightarrow> 'db store_node \<Rightarrow> error + ReplicaDescriptor \<times> u64" where
  "Usage e a n =
     (let r = nReps n a; rd = \<lparr>cluster_id = rpCluster r, node_id = rpNode r\<rparr> in
      case rpDb r of
        None \<Rightarrow> Inr (rd, 0)
      | Some db \<Rightarrow> (case en_EstimateDiskUsage e db [MinByte] [MaxByte] of Inl err \<Rightarrow> Inl err | Inr du \<Rightarrow> Inr (rd, du)))"

section \<open>Commands\<close>

text \<open>The metadata of the file and the batch with its chunks; the writer is over the batch itself.\<close>

definition readFileFromPeer ::
  "('db, 'wb) replica_env \<Rightarrow> 'db Replica \<Rightarrow> FileRecord \<Rightarrow> 'wb \<Rightarrow> ((error + FileMetadata) \<times> 'wb) option" where
  "readFileFromPeer e r fileRecord wb =
     (let thisReplica = \<lparr>cluster_id = rpCluster r, node_id = rpNode r\<rparr>; wset = pb_Set (en_pebble e) in
      case en_ReadFileFromPeer e thisReplica fileRecord of
        Inl err \<Rightarrow> Some (Inl err, wb)
      | Inr (pieces, rerr) \<Rightarrow>
          (case NewWriter wb fileRecord of
             Inl err \<Rightarrow> Some (Inl err, wb)
           | Inr wc \<Rightarrow>
               (case write_all wset wc pieces of
                  None \<Rightarrow> None
                | Some (Some err, wc1) \<Rightarrow> Some (Inl err, chWb wc1)
                | Some (None, wc1) \<Rightarrow>
                    (case rerr of
                       Some err \<Rightarrow> Some (Inl err, chWb wc1)
                     | None \<Rightarrow>
                         (case chunker_Close wset wc1 of
                            (Some err, wc2) \<Rightarrow> Some (Inl err, chWb wc2)
                          | (None, wc2) \<Rightarrow>
                              Some (Inr \<lparr>fmRecord = fileRecord, fmStorage = chunker_Metadata wc2\<rparr>, chWb wc2))))))"

text \<open>An encoding error is overwritten by the next statement: the metadata is then empty.\<close>

definition fileWrite ::
  "('db, 'wb) replica_env \<Rightarrow> nat \<Rightarrow> 'db \<Rightarrow> 'wb \<Rightarrow> FileRecord \<Rightarrow> 'db store_node \<Rightarrow> ((error + unit) \<times> 'wb \<times> 'db store_node) option" where
  "fileWrite e a db wb fr n =
     (let iter = pb_bAll (en_pebble e) db wb in
      case FileMetadataKey fr of
        Inl err \<Rightarrow> Some (Inl err, wb, n)
      | Inr key \<Rightarrow>
          let found = (case iter_SeekGE key iter of [] \<Rightarrow> False | (k, _) # _ \<Rightarrow> bytes_Compare key k = 0) in
          if found then Some (Inr (), wb, n)
          else
            (case readFileFromPeer e (nReps n a) fr wb of
               None \<Rightarrow> None
             | Some (Inl err, wb1) \<Rightarrow> Some (Inl err, wb1, n)
             | Some (Inr md, wb1) \<Rightarrow>
                 let protoBytes = (case c_Marshal (en_fm e) md of Inl _ \<Rightarrow> [] | Inr b \<Rightarrow> b) in
                 (case rangeCheckedSet e a wb1 key protoBytes n of
                    (Some err, wb2, n2) \<Rightarrow> Some (Inl err, wb2, n2)
                  | (None, wb2, n2) \<Rightarrow> Some (Inr (), wb2, n2))))"

definition directWrite ::
  "('db, 'wb) replica_env \<Rightarrow> nat \<Rightarrow> 'wb \<Rightarrow> KV option \<Rightarrow> 'db store_node \<Rightarrow> (error option \<times> 'wb \<times> 'db store_node) option" where
  "directWrite e a wb kv n =
     (case kv of None \<Rightarrow> None | Some kv \<Rightarrow> Some (rangeCheckedSet e a wb (kvKey kv) (kvValue kv) n))"

definition directRead :: "(bytes \<Rightarrow> error + bytes option) \<Rightarrow> bytes \<Rightarrow> error + KV" where
  "directRead get key =
     (case lookup get key of Inl err \<Rightarrow> Inl err | Inr buf \<Rightarrow> Inr \<lparr>kvKey = key, kvValue = buf\<rparr>)"

text \<open>Without a check that the key is in the range.\<close>

definition increment ::
  "('db, 'wb) replica_env \<Rightarrow> 'db \<Rightarrow> 'wb \<Rightarrow> bytes \<Rightarrow> u64 \<Rightarrow> ((error + bytes \<times> u64) \<times> 'wb) option" where
  "increment e db wb key delta =
     (if length key = 0 then Some (Inl (InvalidArgumentError ''Increment requires a valid key.''), wb)
      else
        let looked = batchLookup (pb_bGet (en_pebble e) db wb) key in
        case (case looked of
                Inl err \<Rightarrow> if \<not> IsNotFoundError (Some err) then Some (Inl err) else Some (Inr 0)
              | Inr buf \<Rightarrow> map_option Inr (bytesToUint64 buf)) of
          None \<Rightarrow> None
        | Some (Inl err) \<Rightarrow> Some (Inl err, wb)
        | Some (Inr old) \<Rightarrow>
            let val = old + delta in
            (case pb_Set (en_pebble e) key (uint64ToBytes val) wb of
               Inl err \<Rightarrow> Some (Inl err, wb)
             | Inr wb' \<Rightarrow> Some (Inr (key, val), wb')))"

definition cas ::
  "('db, 'wb) replica_env \<Rightarrow> nat \<Rightarrow> 'db \<Rightarrow> 'wb \<Rightarrow> KV option \<Rightarrow> bytes \<Rightarrow> 'db store_node
    \<Rightarrow> ((KV option \<times> error option) \<times> 'wb \<times> 'db store_node) option" where
  "cas e a db wb kv expected n =
     (let key = (case kv of None \<Rightarrow> [] | Some kv \<Rightarrow> kvKey kv);
          looked = lookup (pb_bGet (en_pebble e) db wb) key in
      case (case looked of
              Inl err \<Rightarrow> if IsNotFoundError (Some err) then Inr [] else Inl err
            | Inr buf \<Rightarrow> Inr buf) of
        Inl err \<Rightarrow> Some ((None, Some err), wb, n)
      | Inr buf \<Rightarrow>
          if bytes_Compare buf expected = 0 then
            (case kv of
               None \<Rightarrow> None
             | Some kv' \<Rightarrow>
                 (case rangeCheckedSet e a wb (kvKey kv') (kvValue kv') n of
                    (None, wb', n') \<Rightarrow> Some ((Some kv', None), wb', n')
                  | (Some err, wb', n') \<Rightarrow> Some ((None, Some err), wb', n')))
          else Some ((Some \<lparr>kvKey = key, kvValue = buf\<rparr>, Some (FailedPreconditionError CASErrorMessage)), wb, n))"

section \<open>Splitting\<close>

definition HasPrefix :: "bytes \<Rightarrow> bytes \<Rightarrow> bool" where
  "HasPrefix s p \<longleftrightarrow> length s \<ge> length p \<and> take (length p) s = p"

definition canSplitKeys :: "bytes \<Rightarrow> bytes \<Rightarrow> bool" where
  "canSplitKeys leftKey rightKey =
     (let splitStart = [UnsplittableMaxByte] in
      if bytes_Compare rightKey splitStart \<le> 0 then False
      else if bytes_Compare leftKey splitStart \<le> 0 \<and> bytes_Compare rightKey splitStart > 0 then False
      else if HasPrefix rightKey leftKey then False
      else True)"

fun find_split_loop :: "nat \<Rightarrow> nat \<Rightarrow> bytes \<Rightarrow> kvs \<Rightarrow> FindSplitPointResponse option" where
  "find_split_loop totalSize leftSize lastKey [] = None"
| "find_split_loop totalSize leftSize lastKey ((k, v) # iter) =
     (if leftSize \<ge> totalSize div 2 \<and> canSplitKeys lastKey k
      then Some \<lparr>spLeft = lastKey, spRight = k, spLeftSize = leftSize, spRightSize = totalSize - leftSize\<rparr>
      else find_split_loop totalSize (leftSize + length v) k iter)"

definition findSplitPoint :: "('db, 'wb) replica_env \<Rightarrow> 'db \<Rightarrow> 'wb \<Rightarrow> error + FindSplitPointResponse" where
  "findSplitPoint e db wb =
     (let iter = iter_bounded (Some [MinByte]) (Some [MaxByte]) (pb_bAll (en_pebble e) db wb);
          totalSize = sum_list (map (\<lambda>(k, v). length v) iter) in
      case find_split_loop totalSize 0 [] iter of
        Some sp \<Rightarrow> Inr sp
      | None \<Rightarrow> Inl (NotFoundError ''Could not find split point.''))"

definition populateDBFromSnapshot :: "('db, 'wb) replica_env \<Rightarrow> 'db \<Rightarrow> 'db \<Rightarrow> (error option \<times> 'db) option" where
  "populateDBFromSnapshot e sourceDB destDB =
     (case en_CreateTemp e of
        Some err \<Rightarrow> Some (Some err, destDB)
      | None \<Rightarrow>
          (case SaveSnapshotToWriter (en_kv e) buf_write (pb_All (en_pebble e) sourceDB) [] of
             (Some err, _) \<Rightarrow> Some (Some err, destDB)
           | (None, f) \<Rightarrow> ApplySnapshotFromReader (en_pebble e) (en_kv e) f EOF destDB))"

definition updateMetarange ::
  "('db, 'wb) replica_env \<Rightarrow> RangeDescriptor \<Rightarrow> RangeDescriptor \<Rightarrow> RangeDescriptor \<Rightarrow> error option" where
  "updateMetarange e oldLeft left right =
     (let marshal = c_Marshal (en_rd e) in
      case marshal left of Inl err \<Rightarrow> Some err
      | Inr leftBuf \<Rightarrow>
        (case marshal oldLeft of Inl err \<Rightarrow> Some err
         | Inr oldLeftBuf \<Rightarrow>
           (case marshal right of Inl err \<Rightarrow> Some err
            | Inr rightBuf \<Rightarrow>
              (case bb_ToProto (bb_Add (bb_Add NewBatchBuilder
                      (ReqCas (Some \<lparr>kvKey = RangeMetaKey (rdRight right), kvValue = rightBuf\<rparr>) oldLeftBuf))
                      (ReqDirectWrite (Some \<lparr>kvKey = RangeMetaKey (rdRight left), kvValue = leftBuf\<rparr>))) of
                 Inl err \<Rightarrow> Some err
               | Inr batchProto \<Rightarrow>
                 (case en_SyncPropose e (RangeMetaKey (rdRight right)) batchProto of
                    Inl err \<Rightarrow> Some err
                  | Inr rsp \<Rightarrow>
                    (case fst (CASResponse 0 (NewBatchResponseFromProto rsp)) of
                       (casRsp, None) \<Rightarrow> None
                     | (None, Some err) \<Rightarrow> Some err
                     | (Some kv, Some err) \<Rightarrow>
                         if bytes_Compare (kvValue kv) rightBuf = 0 then None
                         else
                           (case c_Unmarshal (en_rd e) (kvValue kv) of
                              Inl err' \<Rightarrow> Some err'
                            | Inr existing \<Rightarrow> if generation existing > generation right then None else Some err)))))))"

text \<open>The two descriptors that a split makes of one.\<close>

definition split_descriptors ::
  "RangeDescriptor \<Rightarrow> RangeDescriptor \<Rightarrow> FindSplitPointResponse \<Rightarrow> RangeDescriptor \<times> RangeDescriptor" where
  "split_descriptors left proposedRight sp =
     (let leftRD = left\<lparr>generation := generation left + 1\<rparr>;
          rightRD = proposedRight\<lparr>generation := generation leftRD + 1, rdRight := rdRight left, rdLeft := spRight sp\<rparr> in
      (leftRD\<lparr>rdRight := spLeft sp\<rparr>, rightRD))"

text \<open>
  What \<open>split\<close> does once both databases are at hand: \<open>b\<close> is the address of the right replica, \<open>rdb\<close> its database, \<open>rd\<close> the
  current descriptor of the left one.
\<close>

definition split_write ::
  "('db, 'wb) replica_env \<Rightarrow> nat \<Rightarrow> 'wb \<Rightarrow> nat \<Rightarrow> 'db \<Rightarrow> RangeDescriptor \<Rightarrow> RangeDescriptor \<Rightarrow> FindSplitPointResponse \<Rightarrow> 'db store_node
    \<Rightarrow> (error + RangeDescriptor \<times> RangeDescriptor) \<times> 'wb \<times> 'db store_node" where
  "split_write e a wb b rdb rd proposedRight sp n =
     (let P = en_pebble e; marshal = c_Marshal (en_rd e) in
      case pb_DeleteRange P [MinByte] (Key_Next (spLeft sp)) (pb_NewBatch P) of
        Inl err \<Rightarrow> (Inl err, wb, n)
      | Inr rwb \<Rightarrow>
      (case pb_DeleteRange P (spRight sp) [MaxByte] wb of
        Inl err \<Rightarrow> (Inl err, wb, n)
      | Inr wb1 \<Rightarrow>
      (case split_descriptors rd proposedRight sp of (leftRD, rightRD) \<Rightarrow>
      (case marshal rightRD of
        Inl err \<Rightarrow> (Inl err, wb1, n)
      | Inr rightRDBuf \<Rightarrow>
      (case marshal leftRD of
        Inl err \<Rightarrow> (Inl err, wb1, n)
      | Inr leftRDBuf \<Rightarrow>
      (case rangeCheckedSet e a wb1 LocalRangeKey leftRDBuf n of
        (Some err, wb2, n2) \<Rightarrow> (Inl err, wb2, n2)
      | (None, wb2, n2) \<Rightarrow>
      (case rangeCheckedSet e b rwb LocalRangeKey rightRDBuf n2 of
        (Some err, _, n3) \<Rightarrow> (Inl err, wb2, n3)
      | (None, rwb2, n3) \<Rightarrow>
      (case pb_Apply P rdb rwb2 of
        Inl err \<Rightarrow> (Inl err, wb2, n3)
      | Inr rdb2 \<Rightarrow>
          let n4 = update_rep b (\<lambda>r. r\<lparr>rpDb := Some rdb2\<rparr>) n3 in
          if bytes_Compare (rdLeft rd) [UnsplittableMaxByte] = -1 then
            (case rangeCheckedSet e a wb2 (RangeMetaKey (rdRight rightRD)) rightRDBuf n4 of
               (Some err, wb3, n5) \<Rightarrow> (Inl err, wb3, n5)
             | (None, wb3, n5) \<Rightarrow>
                 (case rangeCheckedSet e a wb3 (RangeMetaKey (rdRight leftRD)) leftRDBuf n5 of
                    (Some err, wb4, n6) \<Rightarrow> (Inl err, wb4, n6)
                  | (None, wb4, n6) \<Rightarrow> (Inr (leftRD, rightRD), wb4, n6)))
          else
            (case updateMetarange e rd leftRD rightRD of
               Some err \<Rightarrow> (Inl err, wb2, n4)
             | None \<Rightarrow> (Inr (leftRD, rightRD), wb2, n4))))))))))"

text \<open>
  The right replica is locked as every user of a database locks it, so a range that is told to split into itself
  waits for its own lock.
\<close>

definition split ::
  "('db, 'wb) replica_env \<Rightarrow> nat \<Rightarrow> 'db \<Rightarrow> 'wb \<Rightarrow> RangeDescriptor option \<Rightarrow> RangeDescriptor option \<Rightarrow> FindSplitPointResponse option
    \<Rightarrow> 'db store_node \<Rightarrow> ((error + RangeDescriptor \<times> RangeDescriptor) \<times> 'wb \<times> 'db store_node) option" where
  "split e a db wb left proposedRight splitPoint n =
     (case (left, proposedRight) of
        (Some left, Some proposedRight) \<Rightarrow>
          (case splitPoint of
             None \<Rightarrow> Some (Inl (FailedPreconditionError ''unable to split range: couldn't find split point''), wb, n)
           | Some sp \<Rightarrow>
          (case DB a n of
             Inl err \<Rightarrow> Some (Inl err, wb, n)
           | Inr _ \<Rightarrow>
          (if rpRange (nReps n a) \<noteq> Some left then Some (Inl (OutOfRangeError ''split (current) != (req)''), wb, n)
           else
          (case GetReplica (range_id proposedRight) n of
             Inl err \<Rightarrow> Some (Inl err, wb, n)
           | Inr b \<Rightarrow>
          (if b = a then None
           else
          (case DB b n of
             Inl err \<Rightarrow> Some (Inl err, wb, n)
           | Inr None \<Rightarrow> None
           | Inr (Some rdb) \<Rightarrow>
          (case populateDBFromSnapshot e db rdb of
             None \<Rightarrow> None
           | Some (Some err, _) \<Rightarrow> Some (Inl err, wb, n)
           | Some (None, rdb1) \<Rightarrow>
               Some (split_write e a wb b rdb1 left proposedRight sp (update_rep b (\<lambda>r. r\<lparr>rpDb := Some rdb1\<rparr>) n)))))))))
      | _ \<Rightarrow> Some (Inl (FailedPreconditionError ''left and right ranges must be provided''), wb, n))"

section \<open>Reading\<close>

text \<open>The response holds the iterator's own slices, which are read only when it has been closed.\<close>

definition scan :: "(kvs \<Rightarrow> nat \<Rightarrow> bytes \<times> bytes) \<Rightarrow> kvs \<Rightarrow> bytes \<Rightarrow> bytes \<Rightarrow> ScanType \<Rightarrow> error + KV list" where
  "scan retained all left right scan_type =
     (if length left = 0 then Inl (InvalidArgumentError ''Scan requires a valid key.'')
      else
        let upper = (if right \<noteq> [] then right else Key_Next left);
            iter = iter_bounded None (Some upper) all;
            ahead = (if scan_type = SEEKLT_SCAN_TYPE then iter_SeekLT left iter else iter_SeekGE left iter) in
        Inr (map (\<lambda>i. case retained ahead i of (k, v) \<Rightarrow> \<lparr>kvKey = k, kvValue = v\<rparr>) [0..<length ahead]))"

text \<open>A response and the status of its error, as \<open>handlePropose\<close> and \<open>handleRead\<close> put them together.\<close>

definition rsp_of :: "('a option \<Rightarrow> ResponseValue) \<Rightarrow> error + 'a \<Rightarrow> ResponseUnion" where
  "rsp_of con r = (case r of Inl err \<Rightarrow> \<lparr>rspStatus = Some err, rspValue = con None\<rparr> | Inr x \<Rightarrow> \<lparr>rspStatus = None, rspValue = con (Some x)\<rparr>)"

definition handlePropose ::
  "('db, 'wb) replica_env \<Rightarrow> nat \<Rightarrow> 'db \<Rightarrow> 'wb \<Rightarrow> RequestUnion \<Rightarrow> 'db store_node \<Rightarrow> (ResponseUnion \<times> 'wb \<times> 'db store_node) option" where
  "handlePropose e a db wb req n =
     (case req of
        ReqFileWrite fr \<Rightarrow>
          map_option (\<lambda>(r, wb', n'). (rsp_of RspFileWrite r, wb', n')) (fileWrite e a db wb fr n)
      | ReqDirectWrite kv \<Rightarrow>
          map_option (\<lambda>(err, wb', n'). (\<lparr>rspStatus = err, rspValue = RspDirectWrite (Some ())\<rparr>, wb', n')) (directWrite e a wb kv n)
      | ReqIncrement key delta \<Rightarrow>
          map_option (\<lambda>(r, wb'). (rsp_of RspIncrement r, wb', n)) (increment e db wb key delta)
      | ReqCas kv expected \<Rightarrow>
          map_option (\<lambda>((r, err), wb', n'). (\<lparr>rspStatus = err, rspValue = RspCas r\<rparr>, wb', n')) (cas e a db wb kv expected n)
      | ReqFindSplitPoint \<Rightarrow> Some (rsp_of RspFindSplitPoint (findSplitPoint e db wb), wb, n)
      | ReqSplit left right sp \<Rightarrow>
          map_option (\<lambda>(r, wb', n'). (rsp_of RspSplit r, wb', n')) (split e a db wb left right sp n)
      | _ \<Rightarrow> Some (\<lparr>rspStatus = Some (UnimplementedError ''SyncPropose handling not implemented.''), rspValue = RspNone\<rparr>, wb, n))"

definition handleRead :: "('db, 'wb) replica_env \<Rightarrow> 'db \<Rightarrow> RequestUnion \<Rightarrow> ResponseUnion" where
  "handleRead e db req =
     (case req of
        ReqDirectRead key \<Rightarrow> rsp_of RspDirectRead (directRead (pb_Get (en_pebble e) db) key)
      | ReqScan left right t \<Rightarrow> rsp_of RspScan (scan (pb_retained (en_pebble e)) (pb_All (en_pebble e) db) left right t)
      | _ \<Rightarrow> \<lparr>rspStatus = Some (UnimplementedError ''Read handling not implemented.''), rspValue = RspNone\<rparr>)"

end
