(* ===== verification/RaftMachine.thy ===== *)
theory RaftMachine
  imports RaftReplica
begin

text \<open>
  The life of a replica (\<^verbatim>\<open>replica.go\<close>): opening, \<open>Update\<close> with the committed log entries, \<open>Lookup\<close>, snapshots and closing. The
  consensus library calls these, and calls them as the interface it documents says: one at a time, except \<open>Lookup\<close>.
\<close>

section \<open>Updates\<close>

record Entry =
  eIndex :: u64
  eCmd :: bytes

text \<open>\<^verbatim>\<open>dbsm.Result\<close>: the length of the command and the encoded responses.\<close>

record Result =
  resValue :: u64
  resData :: bytes

fun propose_all ::
  "('db, 'wb) replica_env \<Rightarrow> nat \<Rightarrow> 'db \<Rightarrow> 'wb \<Rightarrow> RequestUnion list \<Rightarrow> 'db store_node \<Rightarrow> (ResponseUnion list \<times> 'wb \<times> 'db store_node) option" where
  "propose_all e a db wb [] n = Some ([], wb, n)"
| "propose_all e a db wb (req # reqs) n =
     (case handlePropose e a db wb req n of
        None \<Rightarrow> None
      | Some (rsp, wb1, n1) \<Rightarrow>
          (case propose_all e a db wb1 reqs n1 of
             None \<Rightarrow> None
           | Some (rsps, wb2, n2) \<Rightarrow> Some (rsp # rsps, wb2, n2)))"

fun update_loop ::
  "('db, 'wb) replica_env \<Rightarrow> nat \<Rightarrow> 'db \<Rightarrow> 'wb \<Rightarrow> Entry list \<Rightarrow> 'db store_node \<Rightarrow> ((error + Result list) \<times> 'wb \<times> 'db store_node) option" where
  "update_loop e a db wb [] n = Some (Inr [], wb, n)"
| "update_loop e a db wb (entry # entries) n =
     (case c_Unmarshal (en_req e) (eCmd entry) of
        Inl err \<Rightarrow> Some (Inl err, wb, n)
      | Inr reqs \<Rightarrow>
          (case propose_all e a db wb reqs n of
             None \<Rightarrow> None
           | Some (rsps, wb1, n1) \<Rightarrow>
               (case c_Marshal (en_rsp e) rsps of
                  Inl err \<Rightarrow> Some (Inl err, wb1, n1)
                | Inr rspBuf \<Rightarrow>
                    (case update_loop e a db wb1 entries n1 of
                       None \<Rightarrow> None
                     | Some (Inl err, wb2, n2) \<Rightarrow> Some (Inl err, wb2, n2)
                     | Some (Inr results, wb2, n2) \<Rightarrow>
                         Some (Inr (\<lparr>resValue = of_nat (length (eCmd entry)), resData = rspBuf\<rparr> # results), wb2, n2)))))"

text \<open>No entry at all makes the code read the one before the first.\<close>

definition Update :: "('db, 'wb) replica_env \<Rightarrow> nat \<Rightarrow> Entry list \<Rightarrow> 'db store_node \<Rightarrow> ((error + Result list) \<times> 'db store_node) option" where
  "Update e a entries n =
     (case DB a n of
        Inl err \<Rightarrow> Some (Inl err, n)
      | Inr None \<Rightarrow> None
      | Inr (Some db) \<Rightarrow>
          (case update_loop e a db (pb_NewBatch (en_pebble e)) entries n of
             None \<Rightarrow> None
           | Some (Inl err, _, n1) \<Rightarrow> Some (Inl err, n1)
           | Some (Inr results, wb, n1) \<Rightarrow>
               if entries = [] then None
               else
                 let lastIndex = eIndex (last entries) in
                 (case pb_Set (en_pebble e) LastAppliedIndexKey (uint64ToBytes lastIndex) wb of
                    Inl err \<Rightarrow> Some (Inl err, n1)
                  | Inr wb2 \<Rightarrow>
                      (case pb_Apply (en_pebble e) db wb2 of
                         Inl err \<Rightarrow> Some (Inl err, n1)
                       | Inr db2 \<Rightarrow>
                           let n2 = update_rep a (\<lambda>r. r\<lparr>rpDb := Some db2\<rparr>) n1 in
                           if rpLast (nReps n2 a) \<ge> lastIndex
                           then Some (Inl (FailedPreconditionError ''lastApplied not moving forward''), n2)
                           else Some (Inr results, update_rep a (\<lambda>r. r\<lparr>rpLast := lastIndex\<rparr>) n2)))))"

text \<open>\<open>Lookup\<close> takes a value of any type: \<open>None\<close> is one that is not a byte slice.\<close>

definition Lookup :: "('db, 'wb) replica_env \<Rightarrow> nat \<Rightarrow> bytes option \<Rightarrow> 'db store_node \<Rightarrow> (error + bytes) option" where
  "Lookup e a key n =
     (case key of
        None \<Rightarrow> Some (Inl (FailedPreconditionError ''Cannot convert key to []byte''))
      | Some reqBuf \<Rightarrow>
          (case Reader a n of
             Inl err \<Rightarrow> Some (Inl err)
           | Inr rdb \<Rightarrow>
               (case c_Unmarshal (en_req e) reqBuf of
                  Inl err \<Rightarrow> Some (Inl err)
                | Inr reqs \<Rightarrow>
                    (case rdb of
                       None \<Rightarrow> None
                     | Some db \<Rightarrow> Some (c_Marshal (en_rsp e) (map (handleRead e db) reqs))))))"

section \<open>Opening and closing\<close>

text \<open>\<open>opened\<close> is what \<^verbatim>\<open>pebble.Open\<close> returns for the replica's directory.\<close>

definition Open :: "('db, 'wb) replica_env \<Rightarrow> nat \<Rightarrow> error + 'db \<Rightarrow> 'db store_node \<Rightarrow> ((error + u64) \<times> 'db store_node) option" where
  "Open e a opened n =
     (case opened of
        Inl err \<Rightarrow> Some (Inl err, n)
      | Inr db \<Rightarrow>
          let n1 = update_rep a (\<lambda>r. r\<lparr>rpDb := Some db, rpClosed := False\<rparr>) n;
              get = pb_Get (en_pebble e) db;
              n2 = checkAndSetRangeDescriptor e a get n1 in
          map_option (\<lambda>r. (r, n2)) (getLastAppliedIndex get))"

definition Close :: "(error option) \<Rightarrow> nat \<Rightarrow> 'db store_node \<Rightarrow> error option \<times> 'db store_node" where
  "Close db_close a n =
     (if rpClosed (nReps n a) then (None, n)
      else
        let n1 = update_rep a (\<lambda>r. r\<lparr>rpClosed := True\<rparr>) n;
            n2 = (case rpRange (nReps n a) of None \<Rightarrow> n1 | Some rd \<Rightarrow> RemoveRange rd n1) in
        (if rpDb (nReps n a) \<noteq> None then db_close else None, n2))"

section \<open>Snapshots\<close>

text \<open>A snapshot is the database as it is.\<close>

definition PrepareSnapshot :: "nat \<Rightarrow> 'db store_node \<Rightarrow> (error + 'db) option" where
  "PrepareSnapshot a n =
     (case DB a n of Inl err \<Rightarrow> Some (Inl err) | Inr None \<Rightarrow> None | Inr (Some db) \<Rightarrow> Some (Inr db))"

text \<open>\<open>None\<close> is a prepared value of another type.\<close>

definition SaveSnapshot ::
  "('db, 'wb) replica_env \<Rightarrow> 'db option \<Rightarrow> (bytes \<Rightarrow> 'o \<Rightarrow> (nat \<times> error option) \<times> 'o) \<Rightarrow> 'o \<Rightarrow> error option \<times> 'o" where
  "SaveSnapshot e preparedSnap wr w =
     (case preparedSnap of
        None \<Rightarrow> (Some (FailedPreconditionError ''unable to coerce snapshot to *pebble.Snapshot''), w)
      | Some snap \<Rightarrow> SaveSnapshotToWriter (en_kv e) wr (pb_All (en_pebble e) snap) w)"

definition RecoverFromSnapshot ::
  "('db, 'wb) replica_env \<Rightarrow> nat \<Rightarrow> bytes \<Rightarrow> stream_end \<Rightarrow> 'db store_node \<Rightarrow> (error option \<times> 'db store_node) option" where
  "RecoverFromSnapshot e a bs fin n =
     (case DB a n of
        Inl err \<Rightarrow> Some (Some err, n)
      | Inr None \<Rightarrow> None
      | Inr (Some db) \<Rightarrow>
          (case ApplySnapshotFromReader (en_pebble e) (en_kv e) bs fin db of
             None \<Rightarrow> None
           | Some (Some err, _) \<Rightarrow> Some (Some err, n)
           | Some (None, db1) \<Rightarrow>
               let n1 = update_rep a (\<lambda>r. r\<lparr>rpDb := Some db1\<rparr>) n;
                   get = pb_Get (en_pebble e) db1 in
               (case getLastAppliedIndex get of
                  None \<Rightarrow> None
                | Some (Inl err) \<Rightarrow> Some (Some err, n1)
                | Some (Inr newLastApplied) \<Rightarrow>
                    if rpLast (nReps n1 a) > newLastApplied
                    then Some (Some (FailedPreconditionError ''last applied not moving forward''), n1)
                    else
                      let n2 = update_rep a (\<lambda>r. r\<lparr>rpLast := newLastApplied\<rparr>) n1 in
                      Some (None, checkAndSetRangeDescriptor e a get n2))))"

end
