(* ===== verification/RaftExample.thy ===== *)
theory RaftExample
  imports RaftMachine
begin

text \<open>
  A concrete environment for the replicas: the in-memory store, length-prefixed encodings of descriptors and pairs, and
  commands that are looked up in a list. The properties' examples run on it.
\<close>

section \<open>Encodings\<close>

definition enc_nat :: "nat \<Rightarrow> bytes" where
  "enc_nat n = replicate n 1 @ [0]"

definition dec_nat :: "bytes \<Rightarrow> nat \<times> bytes" where
  "dec_nat bs = (length (takeWhile (\<lambda>b. b = 1) bs), tl (dropWhile (\<lambda>b. b = 1) bs))"

definition enc_bytes :: "bytes \<Rightarrow> bytes" where
  "enc_bytes b = enc_nat (length b) @ b"

definition dec_bytes :: "bytes \<Rightarrow> bytes \<times> bytes" where
  "dec_bytes bs = (case dec_nat bs of (n, rest) \<Rightarrow> (take n rest, drop n rest))"

fun dec_replicas :: "nat \<Rightarrow> bytes \<Rightarrow> ReplicaDescriptor list" where
  "dec_replicas 0 bs = []"
| "dec_replicas (Suc n) bs =
     (case dec_nat bs of (c, bs1) \<Rightarrow> case dec_nat bs1 of (d, bs2) \<Rightarrow>
        \<lparr>cluster_id = of_nat c, node_id = of_nat d\<rparr> # dec_replicas n bs2)"

definition enc_rd :: "RangeDescriptor \<Rightarrow> bytes" where
  "enc_rd rd = enc_bytes (rdLeft rd) @ enc_bytes (rdRight rd) @ enc_nat (unat (range_id rd)) @ enc_nat (unat (generation rd))
     @ enc_nat (length (replicas rd)) @ concat (map (\<lambda>r. enc_nat (unat (cluster_id r)) @ enc_nat (unat (node_id r))) (replicas rd))"

definition dec_rd :: "bytes \<Rightarrow> RangeDescriptor" where
  "dec_rd bs =
     (case dec_bytes bs of (l, bs1) \<Rightarrow> case dec_bytes bs1 of (r, bs2) \<Rightarrow> case dec_nat bs2 of (i, bs3) \<Rightarrow>
      case dec_nat bs3 of (g, bs4) \<Rightarrow> case dec_nat bs4 of (n, bs5) \<Rightarrow>
        \<lparr>rdLeft = l, rdRight = r, range_id = of_nat i, replicas = dec_replicas n bs5, generation = of_nat g\<rparr>)"

lemma dec_enc_nat [simp]: "dec_nat (enc_nat n @ bs) = (n, bs)"
proof -
  have "takeWhile (\<lambda>b. b = 1) (replicate n (1 :: byte) @ 0 # bs) = replicate n 1"
    "dropWhile (\<lambda>b. b = 1) (replicate n (1 :: byte) @ 0 # bs) = 0 # bs"
    by (induction n) simp_all
  then show ?thesis by (simp add: dec_nat_def enc_nat_def)
qed

lemma dec_enc_bytes [simp]: "dec_bytes (enc_bytes b @ bs) = (b, bs)"
  by (simp add: dec_bytes_def enc_bytes_def)

lemma dec_enc_replicas:
  "dec_replicas (length rs) (concat (map (\<lambda>r. enc_nat (unat (cluster_id r)) @ enc_nat (unat (node_id r))) rs)) = rs"
  by (induction rs) simp_all

lemma dec_enc_rd [simp]: "dec_rd (enc_rd rd) = rd"
  by (simp add: dec_rd_def enc_rd_def dec_enc_replicas)

definition mem_rd_codec :: "RangeDescriptor codec" where
  "mem_rd_codec = \<lparr>c_Marshal = \<lambda>rd. Inr (enc_rd rd), c_Unmarshal = \<lambda>b. Inr (dec_rd b)\<rparr>"

definition mem_kv_codec :: "KV codec" where
  "mem_kv_codec =
     \<lparr>c_Marshal = \<lambda>kv. let b = enc_bytes (kvKey kv) @ enc_bytes (kvValue kv) in
                   if length b < 2 ^ 63 then Inr b else Inl (Err Unknown ''message too large''),
      c_Unmarshal = \<lambda>b. case dec_bytes b of (k, b1) \<Rightarrow> case dec_bytes b1 of (v, _) \<Rightarrow> Inr \<lparr>kvKey = k, kvValue = v\<rparr>\<rparr>"

lemma mem_codecs: "codec_ok mem_rd_codec" "codec_ok mem_kv_codec" "small_messages mem_kv_codec"
proof -
  show "codec_ok mem_rd_codec" by (auto simp: codec_ok_def mem_rd_codec_def)
  have "dec_bytes (enc_bytes v) = (v, [])" for v using dec_enc_bytes [of v "[]"] by simp
  then show "codec_ok mem_kv_codec" by (auto simp: codec_ok_def mem_kv_codec_def Let_def split: if_splits)
  show "small_messages mem_kv_codec" by (auto simp: small_messages_def mem_kv_codec_def Let_def split: if_splits)
qed

section \<open>An environment\<close>

text \<open>The command \<open>[i]\<close> is the \<open>i\<close>-th batch of a list; responses are not looked at.\<close>

definition mem_env :: "RequestUnion list list \<Rightarrow> (mem_op list, mem_op list) replica_env" where
  "mem_env batches =
     \<lparr>en_pebble = mem_pebble, en_rd = mem_rd_codec, en_kv = mem_kv_codec,
      en_fm = \<lparr>c_Marshal = \<lambda>md. Inr [1], c_Unmarshal = \<lambda>b. Inl (Err Unknown '''')\<rparr>,
      en_req = \<lparr>c_Marshal = \<lambda>reqs. Inl (Err Unknown ''''),
                c_Unmarshal = \<lambda>b. case b of [i] \<Rightarrow> if unat i < length batches then Inr (batches ! unat i) else Inl (Err Unknown '''') | _ \<Rightarrow> Inl (Err Unknown '''')\<rparr>,
      en_rsp = \<lparr>c_Marshal = \<lambda>rsps. Inr [], c_Unmarshal = \<lambda>b. Inl (Err Unknown '''')\<rparr>,
      en_CreateTemp = None,
      en_ReadFileFromPeer = \<lambda>r f. Inl (NotFoundError ''no peer''),
      en_SyncPropose = \<lambda>k reqs. Inl (UnavailableError ''no peer''),
      en_EstimateDiskUsage = \<lambda>db l r. Inr 0\<rparr>"

lemma mem_env_simps [simp]:
  "en_pebble (mem_env bs) = mem_pebble" "en_rd (mem_env bs) = mem_rd_codec" "en_kv (mem_env bs) = mem_kv_codec"
  "c_Marshal (en_rsp (mem_env bs)) rsps = Inr []" "en_CreateTemp (mem_env bs) = None"
  "en_SyncPropose (mem_env bs) k reqs = Inl (UnavailableError ''no peer'')"
  by (simp_all add: mem_env_def)

lemma mem_env_cmd [simp]: "c_Unmarshal (en_req (mem_env bs)) [i] = (if unat i < length bs then Inr (bs ! unat i) else Inl (Err Unknown ''''))"
  by (simp add: mem_env_def)

lemma mem_pebble_simps [simp]:
  "pb_NewBatch mem_pebble = []" "pb_Set mem_pebble k v wb = Inr (wb @ [MemSet k v])"
  "pb_DeleteRange mem_pebble a b wb = Inr (wb @ [MemDelete a b])" "pb_Apply mem_pebble db wb = Inr (db @ wb)"
  "pb_Get mem_pebble db k = Inr (mem_contents db k)" "pb_bGet mem_pebble db wb k = Inr (mem_contents (db @ wb) k)"
  "pb_All mem_pebble db = mem_all db" "pb_bAll mem_pebble db wb = mem_all (db @ wb)"
  by (simp_all add: mem_pebble_def)

text \<open>A node with one replica, at address 0, of a range \<open>[4, 200)\<close>.\<close>

definition raft_rd :: RangeDescriptor where
  "raft_rd = \<lparr>rdLeft = [4], rdRight = [200], range_id = 1, replicas = [\<lparr>cluster_id = 1, node_id = 1\<rparr>], generation = 1\<rparr>"

text \<open>The same with the meta-range.\<close>

definition meta_rd :: RangeDescriptor where
  "meta_rd = raft_rd\<lparr>rdLeft := [0]\<rparr>"

definition example_rep :: "mem_op list \<Rightarrow> RangeDescriptor \<Rightarrow> mem_op list Replica" where
  "example_rep db rd = \<lparr>rpDb = Some db, rpClosed = False, rpCluster = 1, rpNode = 1, rpLast = 0, rpRange = Some rd,
     rpMapped = Some \<lparr>rLeft = rdLeft rd, rRight = rdRight rd, rVal = ()\<rparr>\<rparr>"

definition example_node :: "mem_op list \<Rightarrow> mem_op list store_node" where
  "example_node db = \<lparr>nReps = \<lambda>a. example_rep db raft_rd, nNext = 1, nTable = [1 \<mapsto> 0], nOpen = [(1, raft_rd)], nJobs = []\<rparr>"

end
