(* ===== verification/RaftContract.thy ===== *)
theory RaftContract
  imports RaftExample
begin

text \<open>
  What a replica promises, over any key-value store that keeps its own promises: compare-and-swap, the range check, the
  durable index, recovery from a snapshot, and the store's table of ranges. The view of a batch is what reading it shows:
  the database with the batch's writes over it.
\<close>

section \<open>Laws of the environment\<close>

locale replica_laws =
  fixes e :: "('db, 'wb) replica_env"
    and contents :: "'db \<Rightarrow> bytes \<rightharpoonup> bytes"
    and effect :: "'wb \<Rightarrow> (bytes \<rightharpoonup> bytes) \<Rightarrow> bytes \<rightharpoonup> bytes"
  assumes store: "pebble_store (en_pebble e) contents effect"
    and rd_codec: "codec_ok (en_rd e)"
    and kv_codec: "codec_ok (en_kv e)" "small_messages (en_kv e)"
begin

lemmas Get = pebble_store.Get [OF store] and Get_err = pebble_store.Get_err [OF store]
  and bGet_err = pebble_store.bGet_err [OF store] and All = pebble_store.All [OF store]
  and NewBatch = pebble_store.NewBatch [OF store] and bGet = pebble_store.bGet [OF store]
  and bAll = pebble_store.bAll [OF store] and Set = pebble_store.Set [OF store]
  and DeleteRange = pebble_store.DeleteRange [OF store] and Apply = pebble_store.Apply [OF store]

abbreviation view :: "'db \<Rightarrow> 'wb \<Rightarrow> bytes \<rightharpoonup> bytes" where
  "view db wb \<equiv> effect wb (contents db)"

end

interpretation mem_replica: replica_laws "mem_env bs" mem_contents mem_effect
  by (rule replica_laws.intro) (simp_all only: mem_env_simps mem.pebble_store_axioms mem_codecs)

section \<open>The value under a key\<close>

text \<open>An unset key and an empty value read the same.\<close>

definition value_of :: "bytes option \<Rightarrow> bytes" where
  "value_of v = (case v of None \<Rightarrow> [] | Some b \<Rightarrow> b)"

lemma lookup_value:
  "lookup get k = (case get k of Inl err \<Rightarrow> Inl err | Inr v \<Rightarrow>
     if value_of v = [] then Inl (NotFoundError (if v = None then ''Key not found: pebble: not found'' else ''Key not found (empty)''))
     else Inr (value_of v))"
  by (auto simp: lookup_def value_of_def split: sum.split option.split)

lemma not_found_test [simp]: "IsNotFoundError (Some (NotFoundError m))"
  by (simp add: NotFoundError_def makeStatusError_def error_tests)

lemma not_found_code [simp]: "err_code (NotFoundError m) = NotFound"
  by (simp add: NotFoundError_def makeStatusError_def)

lemma batchLookup_lookup: "batchLookup = lookup"
  by (intro ext) (simp add: batchLookup_def lookup_def)

section \<open>Setting keys\<close>

lemma rangeCheckedSet_ok:
  assumes "rangeCheckedSet e a wb key val n = (None, wb', n')"
  shows "pb_Set (en_pebble e) key val wb = Inr wb'"
    and "IsLocalKey key \<or> in_range (nReps n a) key"
    and "n' = (if key = LocalRangeKey then snd (setRange e a key val n) else n)"
  using assms by (auto simp: rangeCheckedSet_def split: if_splits sum.splits)

lemma rangeCheckedSet_err:
  "rangeCheckedSet e a wb key val n = (Some err, wb', n') \<Longrightarrow> wb' = wb \<and> n' = n"
  by (auto simp: rangeCheckedSet_def split: if_splits sum.splits)

lemma setRange_rep:
  "rpDb (nReps (snd (setRange e a k v n)) b) = rpDb (nReps n b)"
  "rpLast (nReps (snd (setRange e a k v n)) b) = rpLast (nReps n b)"
  "rpClosed (nReps (snd (setRange e a k v n)) b) = rpClosed (nReps n b)"
  "b \<noteq> a \<Longrightarrow> nReps (snd (setRange e a k v n)) b = nReps n b"
  by (auto simp: setRange_def Let_def node_simps split: sum.split option.split)

lemma setRange_range:
  assumes "c_Unmarshal (en_rd e) v = Inr rd"
  shows "rpRange (nReps (snd (setRange e a LocalRangeKey v n)) a) = Some rd"
    and "in_range (nReps (snd (setRange e a LocalRangeKey v n)) a) k \<longleftrightarrow> rdLeft rd \<le> k \<and> k < rdRight rd"
  using assms by (auto simp: setRange_def Let_def node_simps in_range_def split: option.split)

section \<open>Compare and swap\<close>

context replica_laws
begin

lemma cas_outcome:
  assumes "cas e a db wb (Some kv) expected n = Some ((r, err), wb', n')"
  shows "(err = None \<longrightarrow> value_of (view db wb (kvKey kv)) = expected \<and> r = Some kv \<and>
            (\<forall>m. effect wb' m = (effect wb m)(kvKey kv \<mapsto> kvValue kv)) \<and> (IsLocalKey (kvKey kv) \<or> in_range (nReps n a) (kvKey kv)))
       \<and> (err \<noteq> None \<longrightarrow> wb' = wb \<and> n' = n)
       \<and> (err \<noteq> None \<and> r \<noteq> None \<longrightarrow> err = Some (FailedPreconditionError CASErrorMessage) \<and>
            value_of (view db wb (kvKey kv)) \<noteq> expected \<and> r = Some \<lparr>kvKey = kvKey kv, kvValue = value_of (view db wb (kvKey kv))\<rparr>)"
proof -
  have looked: "cas e a db wb (Some kv) expected n =
      (case pb_bGet (en_pebble e) db wb (kvKey kv) of
         Inl x \<Rightarrow> Some ((None, Some x), wb, n)
       | Inr v \<Rightarrow>
           if value_of v = expected then
             (case rangeCheckedSet e a wb (kvKey kv) (kvValue kv) n of
                (None, wb', n') \<Rightarrow> Some ((Some kv, None), wb', n')
              | (Some err, wb', n') \<Rightarrow> Some ((None, Some err), wb', n'))
           else Some ((Some \<lparr>kvKey = kvKey kv, kvValue = value_of v\<rparr>, Some (FailedPreconditionError CASErrorMessage)), wb, n))"
    using bGet_err [of db wb "kvKey kv"]
    by (cases "pb_bGet (en_pebble e) db wb (kvKey kv)") (auto simp: cas_def lookup_value Let_def error_tests)
  show ?thesis
  proof (cases "pb_bGet (en_pebble e) db wb (kvKey kv)")
    case (Inr v)
    then have v: "v = view db wb (kvKey kv)" by (rule bGet)
    show ?thesis
      using assms Inr
      by (auto simp: looked v split: if_splits prod.splits option.splits
          dest: rangeCheckedSet_err rangeCheckedSet_ok(1,2) Set)
  qed (use assms in \<open>auto simp: looked\<close>)
qed

lemma lookup_view:
  assumes "pb_bGet (en_pebble e) db wb k = Inr v"
  shows "lookup (pb_bGet (en_pebble e) db wb) k =
    (if value_of (view db wb k) = [] then Inl (NotFoundError (if view db wb k = None then ''Key not found: pebble: not found'' else ''Key not found (empty)''))
     else Inr (value_of (view db wb k)))"
  using assms bGet [OF assms] by (simp add: lookup_value)

end

section \<open>Numbers in the store\<close>

lemma length_uint64ToBytes [simp]: "length (uint64ToBytes i) = 8"
  by (simp add: uint64ToBytes_def)

lemma bit_fold_or:
  "n < 64 \<Longrightarrow> bit (fold (\<lambda>j acc. or acc (push_bit (8 * j) (g j))) js (acc :: u64)) n \<longleftrightarrow>
     bit acc n \<or> (\<exists>j\<in>set js. 8 * j \<le> n \<and> bit (g j) (n - 8 * j))"
  by (induction js arbitrary: acc) (auto simp: bit_or_iff bit_push_bit_iff)

lemma bytesToUint64_ToBytes [simp]: "bytesToUint64 (uint64ToBytes i) = Some i"
proof -
  let ?g = "\<lambda>j. ucast (uint64ToBytes i ! j) :: u64"
  have "fold (\<lambda>j acc. or acc (push_bit (8 * j) (?g j))) [0..<8] (0 :: u64) = i"
  proof (rule bit_word_eqI)
    fix n assume n: "n < LENGTH(64)"
    have g: "bit (?g j) m \<longleftrightarrow> m < 8 \<and> bit i (8 * j + m)" if "j < 8" for j m
      using that by (auto simp: uint64ToBytes_def bit_ucast_iff bit_drop_bit_eq)
    have d: "n div 8 \<in> set [0..<8] \<and> 8 * (n div 8) \<le> n \<and> n - 8 * (n div 8) < 8"
      using n by (simp add: minus_mult_div_eq_mod less_mult_imp_div_less)
    have "bit (fold (\<lambda>j acc. or acc (push_bit (8 * j) (?g j))) [0..<8] (0 :: u64)) n
        \<longleftrightarrow> (\<exists>j\<in>set [0..<8]. 8 * j \<le> n \<and> bit (?g j) (n - 8 * j))"
      using bit_fold_or [of n ?g "[0..<8]" 0] n by simp
    also have "\<dots> \<longleftrightarrow> (\<exists>j\<in>set [0..<8]. 8 * j \<le> n \<and> n - 8 * j < 8 \<and> bit i n)"
      by (rule bex_cong) (auto simp: g)
    also have "\<dots> \<longleftrightarrow> bit i n" using d by blast
    finally show "bit (fold (\<lambda>j acc. or acc (push_bit (8 * j) (?g j))) [0..<8] (0 :: u64)) n = bit i n" .
  qed
  then show ?thesis by (simp add: bytesToUint64_def)
qed

section \<open>What a command leaves alone\<close>

text \<open>No command touches the replica's own database before \<open>Update\<close> applies the batch, nor any replica's index.\<close>

definition unchanged :: "nat \<Rightarrow> 'db store_node \<Rightarrow> 'db store_node \<Rightarrow> bool" where
  "unchanged a n n' \<longleftrightarrow> rpDb (nReps n' a) = rpDb (nReps n a) \<and>
     (\<forall>b. rpLast (nReps n' b) = rpLast (nReps n b) \<and> rpClosed (nReps n' b) = rpClosed (nReps n b))"

lemma unchanged_refl [simp]: "unchanged a n n"
  by (simp add: unchanged_def)

lemma unchanged_trans: "unchanged a n n1 \<Longrightarrow> unchanged a n1 n2 \<Longrightarrow> unchanged a n n2"
  by (simp add: unchanged_def)

lemma keeps_setRange: "unchanged a n (snd (setRange e b k v n))"
  by (simp add: unchanged_def setRange_rep)

lemma keeps_rangeCheckedSet: "rangeCheckedSet e b wb k v n = (err, wb', n') \<Longrightarrow> unchanged a n n'"
  using keeps_setRange by (fastforce simp: rangeCheckedSet_def split: if_splits sum.splits)

lemma keeps_other_db: "b \<noteq> a \<Longrightarrow> unchanged a n (update_rep b (\<lambda>r. r\<lparr>rpDb := d\<rparr>) n)"
  by (simp add: unchanged_def node_simps)

lemma keeps_split_write:
  assumes "b \<noteq> a" and "split_write e a wb b rdb rd right sp n = (r, wb', n')"
  shows "unchanged a n n'"
  using assms unfolding split_write_def Let_def
  by (auto split: sum.splits prod.splits option.splits if_splits
      dest!: keeps_rangeCheckedSet [where a = a] simp: unchanged_def node_simps)

lemma keeps_split: "split e a db wb l r sp n = Some (res, wb', n') \<Longrightarrow> unchanged a n n'"
  unfolding split_def
  by (auto split: option.splits sum.splits if_splits prod.splits
      intro: unchanged_trans keeps_other_db keeps_split_write)

lemma keeps_handlePropose: "handlePropose e a db wb req n = Some (rsp, wb', n') \<Longrightarrow> unchanged a n n'"
  by (cases req)
    (auto simp: handlePropose_def fileWrite_def directWrite_def cas_def Let_def
      split: option.splits sum.splits if_splits prod.splits list.splits
      dest: keeps_rangeCheckedSet keeps_split)

lemma keeps_propose_all: "propose_all e a db wb reqs n = Some (rsps, wb', n') \<Longrightarrow> unchanged a n n'"
proof (induction reqs arbitrary: wb n rsps)
  case (Cons req reqs)
  then show ?case
    by (auto split: option.splits prod.splits dest!: keeps_handlePropose intro: unchanged_trans)
qed simp

lemma keeps_update_loop: "update_loop e a db wb entries n = Some (res, wb', n') \<Longrightarrow> unchanged a n n'"
proof (induction entries arbitrary: wb n res)
  case (Cons entry entries)
  then show ?case
    by (auto split: option.splits prod.splits sum.splits dest!: keeps_propose_all intro: unchanged_trans)
qed simp

section \<open>The index that an update leaves behind\<close>

lemma Update_cases:
  assumes "rpDb (nReps n a) = Some db" and "\<not> rpClosed (nReps n a)" and "entries \<noteq> []"
    and "update_loop e a db (pb_NewBatch (en_pebble e)) entries n = Some (Inr results, wb, n1)"
    and "pb_Set (en_pebble e) LastAppliedIndexKey (uint64ToBytes (eIndex (last entries))) wb = Inr wb2"
    and "pb_Apply (en_pebble e) db wb2 = Inr db2"
  shows "Update e a entries n =
    (let n2 = update_rep a (\<lambda>r. r\<lparr>rpDb := Some db2\<rparr>) n1 in
     if rpLast (nReps n a) \<ge> eIndex (last entries)
     then Some (Inl (FailedPreconditionError ''lastApplied not moving forward''), n2)
     else Some (Inr results, update_rep a (\<lambda>r. r\<lparr>rpLast := eIndex (last entries)\<rparr>) n2))"
  using assms keeps_update_loop [OF assms(4)]
  by (simp add: Update_def DB_def Let_def unchanged_def node_simps)

lemma Update_ok:
  assumes "Update e a entries n = Some (Inr results, n')"
  shows "\<exists>db wb n1 wb2 db2. rpDb (nReps n a) = Some db \<and> \<not> rpClosed (nReps n a) \<and> entries \<noteq> []
    \<and> update_loop e a db (pb_NewBatch (en_pebble e)) entries n = Some (Inr results, wb, n1)
    \<and> pb_Set (en_pebble e) LastAppliedIndexKey (uint64ToBytes (eIndex (last entries))) wb = Inr wb2
    \<and> pb_Apply (en_pebble e) db wb2 = Inr db2 \<and> rpDb (nReps n' a) = Some db2 \<and> rpLast (nReps n' a) = eIndex (last entries)
    \<and> rpLast (nReps n a) < eIndex (last entries)"
proof -
  obtain db where db: "rpDb (nReps n a) = Some db" "\<not> rpClosed (nReps n a)"
    using assms by (auto simp: Update_def DB_def split: if_splits option.splits)
  obtain wb n1 where l: "update_loop e a db (pb_NewBatch (en_pebble e)) entries n = Some (Inr results, wb, n1)" "entries \<noteq> []"
    using assms db by (auto simp: Update_def DB_def Let_def split: if_splits option.splits prod.splits sum.splits)
  obtain wb2 db2 where s: "pb_Set (en_pebble e) LastAppliedIndexKey (uint64ToBytes (eIndex (last entries))) wb = Inr wb2"
      "pb_Apply (en_pebble e) db wb2 = Inr db2"
    using assms db l by (auto simp: Update_def DB_def Let_def split: if_splits option.splits prod.splits sum.splits)
  show ?thesis
    using assms db l s unfolding Update_cases [OF db l(2,1) s]
    by (auto simp: Let_def node_simps not_le split: if_splits)
qed

context replica_laws
begin

lemma index_reads_back:
  assumes "contents db LastAppliedIndexKey = Some (uint64ToBytes i)" and "getLastAppliedIndex (pb_Get (en_pebble e) db) = Some r"
  shows "r = Inr i \<or> (\<exists>err. r = Inl err \<and> pb_Get (en_pebble e) db LastAppliedIndexKey = Inl err)"
proof (cases "pb_Get (en_pebble e) db LastAppliedIndexKey")
  case (Inl err)
  then show ?thesis
    using assms(2) Get_err [OF Inl] by (auto simp: getLastAppliedIndex_def lookup_value error_tests)
next
  case (Inr v)
  have "uint64ToBytes i \<noteq> []" using length_uint64ToBytes [of i] by (metis list.size(3) zero_neq_numeral)
  then show ?thesis
    using assms Get [OF Inr] Inr by (auto simp: getLastAppliedIndex_def lookup_value value_of_def)
qed

lemma Update_contents:
  assumes "Update e a entries n = Some (Inr results, n')"
  shows "\<exists>db wb n1 db2. rpDb (nReps n a) = Some db \<and> rpDb (nReps n' a) = Some db2
    \<and> update_loop e a db (pb_NewBatch (en_pebble e)) entries n = Some (Inr results, wb, n1)
    \<and> contents db2 = (effect wb (contents db))(LastAppliedIndexKey \<mapsto> uint64ToBytes (eIndex (last entries)))"
  using Update_ok [OF assms] Set Apply by (metis (no_types, lifting))

end

text \<open>
  What a command that was answered with \<open>rsp\<close> does to the values under the keys: an acknowledged write, increment or swap changes its key,
  everything else nothing. \<open>single_key\<close> leaves out the commands that write more than one key.
\<close>

fun single_key :: "RequestUnion \<Rightarrow> bool" where
  "single_key (ReqFileWrite fr) \<longleftrightarrow> False"
| "single_key (ReqSplit left right sp) \<longleftrightarrow> False"
| "single_key _ \<longleftrightarrow> True"

definition number_at :: "(bytes \<rightharpoonup> bytes) \<Rightarrow> bytes \<Rightarrow> u64" where
  "number_at m k = (if value_of (m k) = [] then 0 else the (bytesToUint64 (value_of (m k))))"

fun answered :: "RequestUnion \<Rightarrow> ResponseUnion \<Rightarrow> (bytes \<rightharpoonup> bytes) \<Rightarrow> bytes \<rightharpoonup> bytes" where
  "answered (ReqDirectWrite (Some kv)) rsp m = (if rspStatus rsp = None then m(kvKey kv \<mapsto> kvValue kv) else m)"
| "answered (ReqIncrement k d) rsp m = (if rspStatus rsp = None then m(k \<mapsto> uint64ToBytes (number_at m k + d)) else m)"
| "answered (ReqCas (Some kv) expected) rsp m = (if rspStatus rsp = None then m(kvKey kv \<mapsto> kvValue kv) else m)"
| "answered _ rsp m = m"

fun all_answered :: "RequestUnion list \<Rightarrow> ResponseUnion list \<Rightarrow> (bytes \<rightharpoonup> bytes) \<Rightarrow> bytes \<rightharpoonup> bytes" where
  "all_answered (req # reqs) (rsp # rsps) m = all_answered reqs rsps (answered req rsp m)"
| "all_answered _ _ m = m"

context replica_laws
begin

lemma rangeCheckedSet_view:
  "rangeCheckedSet e a wb k v n = (err, wb', n') \<Longrightarrow> effect wb' m = (if err = None then (effect wb m)(k \<mapsto> v) else effect wb m)"
  using Set rangeCheckedSet_err [of e a wb k v n _ wb' n'] by (cases err) (auto dest: rangeCheckedSet_ok(1))

lemma increment_view:
  assumes "increment e db wb k d = Some (r, wb')"
  shows "view db wb' = (case r of Inl _ \<Rightarrow> view db wb | Inr _ \<Rightarrow> (view db wb)(k \<mapsto> uint64ToBytes (number_at (view db wb) k + d)))"
proof (cases "pb_bGet (en_pebble e) db wb k")
  case (Inl err)
  then have "batchLookup (pb_bGet (en_pebble e) db wb) k = Inl err" "\<not> IsNotFoundError (Some err)"
    using bGet_err [OF Inl] by (simp_all add: batchLookup_lookup lookup_value error_tests)
  then show ?thesis using assms by (auto simp: increment_def Let_def split: if_splits)
next
  case (Inr v)
  show ?thesis
    using assms lookup_view [OF Inr]
    by (auto simp: increment_def batchLookup_lookup number_at_def Let_def Set split: if_splits option.splits sum.splits)
qed

lemma handlePropose_view:
  assumes "handlePropose e a db wb req n = Some (rsp, wb', n')" and "single_key req"
  shows "view db wb' = answered req rsp (view db wb)"
proof (cases req)
  case (ReqDirectWrite kv)
  then show ?thesis
    using assms(1) by (cases kv)
      (auto simp: handlePropose_def directWrite_def split: prod.splits dest!: rangeCheckedSet_view [where m = "contents db"])
next
  case (ReqIncrement k d)
  then obtain r where "increment e db wb k d = Some (r, wb')" "rsp = rsp_of RspIncrement r"
    using assms(1) by (auto simp: handlePropose_def)
  then show ?thesis using increment_view ReqIncrement by (auto simp: rsp_of_def split: sum.splits)
next
  case (ReqCas kv expected)
  then obtain r err where c: "cas e a db wb kv expected n = Some ((r, err), wb', n')" "rsp = \<lparr>rspStatus = err, rspValue = RspCas r\<rparr>"
    using assms(1) by (auto simp: handlePropose_def)
  show ?thesis
  proof (cases kv)
    case None
    then have "wb' = wb"
      using c(1) by (auto simp: cas_def Let_def split: sum.splits if_splits)
    then show ?thesis using ReqCas None by simp
  next
    case (Some kv')
    then show ?thesis using cas_outcome [of a db wb kv' expected n r err wb' n'] c ReqCas by auto
  qed
qed (use assms in \<open>auto simp: handlePropose_def\<close>)

lemma propose_all_view:
  "propose_all e a db wb reqs n = Some (rsps, wb', n') \<Longrightarrow> \<forall>req\<in>set reqs. single_key req \<Longrightarrow> view db wb' = all_answered reqs rsps (view db wb)"
proof (induction reqs arbitrary: wb n rsps)
  case (Cons req reqs)
  then show ?case by (auto split: option.splits prod.splits dest!: handlePropose_view)
qed simp

lemma propose_all_length: "propose_all e a db wb reqs n = Some (rsps, wb', n') \<Longrightarrow> length rsps = length reqs"
  by (induction reqs arbitrary: wb n rsps) (auto split: option.splits prod.splits)

lemma all_answered_append: "length reqs = length rsps \<Longrightarrow> all_answered (reqs @ reqs') (rsps @ rsps') m = all_answered reqs' rsps' (all_answered reqs rsps m)"
  by (induction reqs rsps arbitrary: m rule: list_induct2) simp_all

lemma update_loop_view:
  "update_loop e a db wb entries n = Some (Inr results, wb', n') \<Longrightarrow>
    \<exists>reqss rspss. list_all2 (\<lambda>entry reqs. c_Unmarshal (en_req e) (eCmd entry) = Inr reqs) entries reqss \<and>
      list_all2 (\<lambda>res rsps. c_Marshal (en_rsp e) rsps = Inr (resData res)) results rspss \<and> list_all2 (\<lambda>reqs rsps. length reqs = length rsps) reqss rspss \<and>
      ((\<forall>req\<in>set (concat reqss). single_key req) \<longrightarrow> view db wb' = all_answered (concat reqss) (concat rspss) (view db wb))"
proof (induction entries arbitrary: wb n results)
  case (Cons entry entries)
  obtain reqs rsps wb1 n1 buf results1 where p: "c_Unmarshal (en_req e) (eCmd entry) = Inr reqs"
      "propose_all e a db wb reqs n = Some (rsps, wb1, n1)" "c_Marshal (en_rsp e) rsps = Inr buf"
      "update_loop e a db wb1 entries n1 = Some (Inr results1, wb', n')" "results = \<lparr>resValue = of_nat (length (eCmd entry)), resData = buf\<rparr> # results1"
    using Cons.prems by (auto split: sum.splits option.splits prod.splits)
  obtain reqss rspss where i: "list_all2 (\<lambda>entry reqs. c_Unmarshal (en_req e) (eCmd entry) = Inr reqs) entries reqss"
      "list_all2 (\<lambda>res rsps. c_Marshal (en_rsp e) rsps = Inr (resData res)) results1 rspss" "list_all2 (\<lambda>reqs rsps. length reqs = length rsps) reqss rspss"
      "(\<forall>req\<in>set (concat reqss). single_key req) \<longrightarrow> view db wb' = all_answered (concat reqss) (concat rspss) (view db wb1)"
    using Cons.IH [OF p(4)] by blast
  have l: "length reqs = length rsps" using propose_all_length [OF p(2)] by simp
  then have "(\<forall>req\<in>set (concat (reqs # reqss)). single_key req) \<longrightarrow> view db wb' = all_answered (concat (reqs # reqss)) (concat (rsps # rspss)) (view db wb)"
    using i(4) propose_all_view [OF p(2)] by (auto simp: all_answered_append)
  with p i l show ?case by (intro exI [of _ "reqs # reqss"] exI [of _ "rsps # rspss"]) simp
qed simp

end



text \<open>Entries that are not newer than the replica's index are refused, but only after they were applied: the error leaves their
  writes, and the older index, in the database.\<close>

theorem stale_update_is_applied:
  assumes "replica_laws e contents effect" and "rpDb (nReps n a) = Some db" and "\<not> rpClosed (nReps n a)" and "entries \<noteq> []"
    and "update_loop e a db (pb_NewBatch (en_pebble e)) entries n = Some (Inr results, wb, n1)"
    and "pb_Set (en_pebble e) LastAppliedIndexKey (uint64ToBytes (eIndex (last entries))) wb = Inr wb2"
    and "pb_Apply (en_pebble e) db wb2 = Inr db2" and "eIndex (last entries) \<le> rpLast (nReps n a)"
  shows "\<exists>n'. Update e a entries n = Some (Inl (FailedPreconditionError ''lastApplied not moving forward''), n')
    \<and> rpDb (nReps n' a) = Some db2
    \<and> contents db2 = (effect wb (contents db))(LastAppliedIndexKey \<mapsto> uint64ToBytes (eIndex (last entries)))"
  using Update_cases [OF assms(2-7)] assms(8) replica_laws.Set [OF assms(1,6)] replica_laws.Apply [OF assms(1,7)]
  by (simp add: Let_def node_simps)

lemma stale_update_is_applied_witness:
  "\<exists>n' db2. Update (mem_env [[ReqDirectWrite (Some \<lparr>kvKey = [5], kvValue = [9]\<rparr>)]]) 0 [\<lparr>eIndex = 0, eCmd = [0]\<rparr>] (example_node [])
      = Some (Inl (FailedPreconditionError ''lastApplied not moving forward''), n')
    \<and> rpDb (nReps n' 0) = Some db2 \<and> mem_contents db2 [5] = Some [9]"
proof -
  let ?e = "mem_env [[ReqDirectWrite (Some \<lparr>kvKey = [5], kvValue = [9]\<rparr>)]]"
  have l: "update_loop ?e 0 [] (pb_NewBatch (en_pebble ?e)) [\<lparr>eIndex = 0, eCmd = [0]\<rparr>] (example_node [])
      = Some (Inr [\<lparr>resValue = 1, resData = []\<rparr>], [MemSet [5] [9]], example_node [])"
    by (simp add: example_node_def example_rep_def raft_rd_def handlePropose_def directWrite_def
      rangeCheckedSet_def IsLocalKey_def in_range_def Let_def)
  have n: "rpDb (nReps (example_node []) 0) = Some []" "\<not> rpClosed (nReps (example_node []) 0)"
      "eIndex (last [\<lparr>eIndex = 0, eCmd = [0 :: byte]\<rparr>]) \<le> rpLast (nReps (example_node []) 0)"
    by (simp_all add: example_node_def example_rep_def)
  let ?wb = "[MemSet [5] [9], MemSet LastAppliedIndexKey (uint64ToBytes 0)]"
  have "pb_Set (en_pebble ?e) LastAppliedIndexKey (uint64ToBytes (eIndex (last [\<lparr>eIndex = 0, eCmd = [0 :: byte]\<rparr>]))) [MemSet [5] [9]] = Inr ?wb"
    "pb_Apply (en_pebble ?e) [] ?wb = Inr ?wb" by simp_all
  note st = stale_update_is_applied [OF mem_replica.replica_laws_axioms n(1,2) _ l this n(3)]
  have "LastAppliedIndexKey \<noteq> [5]" by (simp add: LastAppliedIndexKey_def MakeKey_def key_defs)
  then show ?thesis using st by (auto simp: mem_effect_def mem_contents_def)
qed

section \<open>Recovery\<close>

text \<open>C3: A snapshot that one replica saves and another recovers from carries the whole database: afterwards the second
  replica's database has what the first had, and of its own contents only what lies outside the key space
  (the empty key and keys from the byte 255 on), which no snapshot deletes; its index is the one stored there.\<close>

theorem recovered_contents:
  assumes "replica_laws e contents effect"
    and "PrepareSnapshot a n = Some (Inr snap)" and "SaveSnapshot e (Some snap) buf_write [] = (None, s)"
    and "rpDb (nReps m b) = Some db" and "RecoverFromSnapshot e b s EOF m = Some (None, m')"
  shows "\<exists>db'. rpDb (nReps m' b) = Some db' \<and> rpDb (nReps n a) = Some snap
    \<and> contents db' = delete_between [MinByte] [MaxByte] (contents db) ++ contents snap
    \<and> getLastAppliedIndex (pb_Get (en_pebble e) db') = Some (Inr (rpLast (nReps m' b)))
    \<and> rpLast (nReps m b) \<le> rpLast (nReps m' b)"
proof -
  have snap: "rpDb (nReps n a) = Some snap"
    using assms(2) by (auto simp: PrepareSnapshot_def DB_def split: if_splits option.splits)
  obtain db1 i where r: "ApplySnapshotFromReader (en_pebble e) (en_kv e) s EOF db = Some (None, db1)"
      "getLastAppliedIndex (pb_Get (en_pebble e) db1) = Some (Inr i)" "rpLast (nReps m b) \<le> i"
      "m' = checkAndSetRangeDescriptor e b (pb_Get (en_pebble e) db1)
              (update_rep b (\<lambda>r. r\<lparr>rpLast := i\<rparr>) (update_rep b (\<lambda>r. r\<lparr>rpDb := Some db1\<rparr>) m))"
    using assms(4,5) by (auto simp: RecoverFromSnapshot_def DB_def Let_def node_simps not_less split: if_splits option.splits prod.splits sum.splits)
  have "unchanged b (update_rep b (\<lambda>r. r\<lparr>rpLast := i\<rparr>) (update_rep b (\<lambda>r. r\<lparr>rpDb := Some db1\<rparr>) m)) m'"
    using keeps_setRange by (auto simp: r(4) checkAndSetRangeDescriptor_def split: sum.split)
  then have "rpDb (nReps m' b) = Some db1" "rpLast (nReps m' b) = i" by (simp_all add: unchanged_def node_simps)
  moreover have "contents db1 = delete_between [MinByte] [MaxByte] (contents db) ++ contents snap"
    using pebble_store.restored_contents [OF replica_laws.store [OF assms(1)] replica_laws.kv_codec [OF assms(1)] _ r(1)] assms(3)
    by (simp add: SaveSnapshot_def)
  ultimately show ?thesis using snap r by simp
qed

lemma recovered_contents_witness:
  "\<exists>s m' db'. SaveSnapshot (mem_env []) (Some [MemSet [5] [9]]) buf_write [] = (None, s)
    \<and> RecoverFromSnapshot (mem_env []) 0 s EOF (example_node [MemSet [6] [1]]) = Some (None, m')
    \<and> rpDb (nReps m' 0) = Some db' \<and> mem_contents db' [5] = Some [9] \<and> mem_contents db' [6] = None"
proof -
  let ?e = "mem_env []" and ?m = "example_node [MemSet [6] [1]]"
  obtain s where s: "SaveSnapshot ?e (Some [MemSet [5] [9]]) buf_write [] = (None, s)"
    by (simp add: SaveSnapshot_def mem_all_def mem_kv_codec_def buf_write_def Let_def enc_bytes_def enc_nat_def)
  then obtain s' where "s = [] @ s'" and ap: "\<forall>(P :: (mem_op list, mem_op list) pebble) wb.
      apply_loop P (en_kv ?e) s' EOF wb = Some (set_all P (mem_all [MemSet [5] [9]]) wb)"
    using saved_applies [of "en_kv ?e" "mem_all [MemSet [5] [9]]" "[]" s] by (auto simp: SaveSnapshot_def mem_codecs)
  then have "\<exists>m'. RecoverFromSnapshot ?e 0 s EOF ?m = Some (None, m')"
    by (simp add: RecoverFromSnapshot_def DB_def example_node_def example_rep_def ApplySnapshotFromReader_def mem_all_def Let_def
      update_rep_def getLastAppliedIndex_def lookup_def mem_contents_def mem_effect_def delete_between_def
      LastAppliedIndexKey_def MakeKey_def key_defs error_tests)
  then obtain m' where m: "RecoverFromSnapshot ?e 0 s EOF ?m = Some (None, m')" by blast
  have p: "PrepareSnapshot 0 (example_node [MemSet [5] [9]]) = Some (Inr [MemSet [5] [9]])"
    "rpDb (nReps ?m 0) = Some [MemSet [6] [1]]"
    by (simp_all add: PrepareSnapshot_def DB_def example_node_def example_rep_def)
  obtain db' where "rpDb (nReps m' 0) = Some db'"
      "mem_contents db' = delete_between [MinByte] [MaxByte] (mem_contents [MemSet [6] [1]]) ++ mem_contents [MemSet [5] [9]]"
    using recovered_contents [OF mem_replica.replica_laws_axioms p(1) s p(2) m] by blast
  then have "rpDb (nReps m' 0) = Some db'" "mem_contents db' [5] = Some [9]" "mem_contents db' [6] = None"
    by (simp_all add: mem_contents_def mem_effect_def delete_between_def key_defs map_add_def)
  then show ?thesis using s m by blast
qed

section \<open>Writing out of range\<close>

text \<open>A direct write reaches the batch only if the key is local to the replica or in its range, and is refused as out of range
  otherwise; an increment is not checked: it changes whatever key it names, in the range or not.\<close>

theorem increment_skips_range_check:
  assumes "replica_laws e contents effect" and "k \<noteq> []" and "\<not> IsLocalKey k" and "\<not> in_range (nReps n a) k"
    and "bytesToUint64 old = Some i" and "effect wb (contents db) k = Some old"
    and "pb_bGet (en_pebble e) db wb k = Inr v" and "pb_Set (en_pebble e) k (uint64ToBytes (i + d)) wb = Inr wb'"
  shows "handlePropose e a db wb (ReqDirectWrite (Some \<lparr>kvKey = k, kvValue = x\<rparr>)) n =
      Some (\<lparr>rspStatus = Some (OutOfRangeError ''range does not contain key''), rspValue = RspDirectWrite (Some ())\<rparr>, wb, n)
    \<and> handlePropose e a db wb (ReqIncrement k d) n =
      Some (\<lparr>rspStatus = None, rspValue = RspIncrement (Some (k, i + d))\<rparr>, wb', n)
    \<and> effect wb' m = (effect wb m)(k \<mapsto> uint64ToBytes (i + d))"
proof -
  have "old \<noteq> []" using assms(5) by (auto simp: bytesToUint64_def)
  then have "lookup (pb_bGet (en_pebble e) db wb) k = Inr old"
    using replica_laws.lookup_view [OF assms(1,7)] assms(6) by (simp add: value_of_def)
  then have "increment e db wb k d = Some (Inr (k, i + d), wb')"
    using assms(2,5,8) by (simp add: increment_def batchLookup_lookup Let_def)
  then show ?thesis
    using assms(3,4) replica_laws.Set [OF assms(1,8)]
    by (simp add: handlePropose_def directWrite_def rangeCheckedSet_def rsp_of_def)
qed

lemma increment_skips_range_check_witness:
  "handlePropose (mem_env []) 0 [MemSet [250] (uint64ToBytes 4)] [] (ReqIncrement [250] 3) (example_node []) =
     Some (\<lparr>rspStatus = None, rspValue = RspIncrement (Some ([250], 7))\<rparr>, [MemSet [250] (uint64ToBytes 7)], example_node [])"
proof -
  have "\<not> IsLocalKey [250]" "\<not> in_range (nReps (example_node []) 0) [250]"
    "mem_effect [] (mem_contents [MemSet [250] (uint64ToBytes 4)]) [250] = Some (uint64ToBytes 4)"
    by (simp_all add: IsLocalKey_def in_range_def example_node_def example_rep_def raft_rd_def mem_effect_def mem_contents_def)
  from increment_skips_range_check [OF mem_replica.replica_laws_axioms _ this(1,2) _ this(3), of 4 "[]" _ 3 "[MemSet [250] (uint64ToBytes 7)]"]
  show ?thesis by simp
qed

section \<open>Compare-and-swap as a lock\<close>

text \<open>C4: Of two compare-and-swap commands for the same key that expect the same value and write another, applied one after the
  other in a batch, at most one succeeds; the loser gets the winner's value, and writes nothing.\<close>

theorem one_cas_wins:
  assumes "replica_laws e contents effect" and "kvKey kv1 = kvKey kv2" and "kvValue kv1 \<noteq> expected"
    and "propose_all e a db wb [ReqCas (Some kv1) expected, ReqCas (Some kv2) expected] n = Some ([rsp1, rsp2], wb', n')"
    and "rspStatus rsp1 = None"
  shows "rspStatus rsp2 \<noteq> None \<and> (rspValue rsp2 = RspCas None \<or> rspValue rsp2 = RspCas (Some kv1))
    \<and> effect wb' m = (effect wb m)(kvKey kv1 \<mapsto> kvValue kv1)"
proof -
  obtain r1 wb1 n1 r2 err2 where c: "cas e a db wb (Some kv1) expected n = Some ((r1, None), wb1, n1)"
      "cas e a db wb1 (Some kv2) expected n1 = Some ((r2, err2), wb', n')" "rsp2 = \<lparr>rspStatus = err2, rspValue = RspCas r2\<rparr>"
    using assms(4,5) by (auto simp: handlePropose_def split: option.splits prod.splits)
  have "effect wb1 x = (effect wb x)(kvKey kv1 \<mapsto> kvValue kv1)" for x
    using replica_laws.cas_outcome [OF assms(1) c(1)] by simp
  then show ?thesis
    using replica_laws.cas_outcome [OF assms(1) c(2)] assms(2,3) c(3)
    by (cases kv1) (auto simp: value_of_def)
qed

lemma one_cas_wins_witness:
  "\<exists>rsp1 rsp2 wb' n'. propose_all (mem_env []) 0 [] [] [ReqCas (Some \<lparr>kvKey = [5], kvValue = [1]\<rparr>) [], ReqCas (Some \<lparr>kvKey = [5], kvValue = [2]\<rparr>) []]
      (example_node []) = Some ([rsp1, rsp2], wb', n') \<and> rspStatus rsp1 = None \<and> rspStatus rsp2 \<noteq> None \<and> mem_effect wb' Map.empty [5] = Some [1]"
proof -
  let ?p = "propose_all (mem_env []) 0 [] [] [ReqCas (Some \<lparr>kvKey = [5], kvValue = [1]\<rparr>) [], ReqCas (Some \<lparr>kvKey = [5], kvValue = [2]\<rparr>) []] (example_node [])"
  have "\<exists>rsp1 rsp2 wb' n'. ?p = Some ([rsp1, rsp2], wb', n') \<and> rspStatus rsp1 = None"
    by (simp add: handlePropose_def cas_def lookup_def mem_contents_def mem_effect_def error_tests rangeCheckedSet_def IsLocalKey_def
      in_range_def example_node_def example_rep_def raft_rd_def Let_def)
  then obtain rsp1 rsp2 wb' n' where p: "?p = Some ([rsp1, rsp2], wb', n')" "rspStatus rsp1 = None" by blast
  show ?thesis
    using one_cas_wins [OF mem_replica.replica_laws_axioms _ _ p, of Map.empty] p by (intro exI [of _ rsp1] exI [of _ rsp2] exI [of _ wb'] exI [of _ n']) simp
qed

end
