(* ===== verification/RaftSplit.thy ===== *)
theory RaftSplit
  imports RaftContract
begin

text \<open>
  What a split of a range does: where the data goes, which replica accepts which key afterwards, and what a client
  loses. The keys of interest are those of the splittable space, from the byte 4 up to the byte 255.
\<close>

definition splittable :: "bytes \<Rightarrow> bool" where
  "splittable k \<longleftrightarrow> [UnsplittableMaxByte] \<le> k \<and> k < [MaxByte]"

lemma splittable_above:
  assumes "splittable k"
  shows "\<not> IsLocalKey k" "k \<noteq> LocalRangeKey" "k \<noteq> RangeMetaKey x" "[MinByte] \<le> k" "k < [MaxByte]"
proof -
  have k: "[4] \<le> k" "k < [255]" using assms by (simp_all add: splittable_def key_defs)
  then show l: "\<not> IsLocalKey k" by (auto simp: IsLocalKey_iff)
  then show "k \<noteq> LocalRangeKey" by auto
  show "k \<noteq> RangeMetaKey x" using k by (auto simp: RangeMetaKey_simp)
  show "[MinByte] \<le> k" using k(1) by (cases k) (auto simp: key_defs word_gt_0)
  show "k < [MaxByte]" using k by (simp add: key_defs)
qed

section \<open>Where the data goes\<close>

text \<open>
  \<open>split_state\<close> describes batch, node and right database after the local part of a split of \<open>l\<close> at \<open>sp\<close>: \<open>view0\<close> is what the
  left batch showed before, \<open>saved\<close> what was in the left database.
\<close>

definition split_state ::
  "nat \<Rightarrow> nat \<Rightarrow> RangeDescriptor \<Rightarrow> RangeDescriptor \<Rightarrow> FindSplitPointResponse \<Rightarrow> 'db store_node \<Rightarrow> (bytes \<rightharpoonup> bytes) \<Rightarrow> (bytes \<rightharpoonup> bytes)
    \<Rightarrow> (bytes \<rightharpoonup> bytes) \<Rightarrow> (bytes \<rightharpoonup> bytes) \<Rightarrow> bool" where
  "split_state a b l r sp n view0 saved left_after right_after \<longleftrightarrow>
     (\<forall>k. in_range (nReps n a) k \<longleftrightarrow> rdLeft l \<le> k \<and> k < spLeft sp)
     \<and> (\<forall>k. in_range (nReps n b) k \<longleftrightarrow> spRight sp \<le> k \<and> k < rdRight l)
     \<and> (\<forall>k. splittable k \<longrightarrow> left_after k = (if spRight sp \<le> k then None else view0 k))
     \<and> (\<forall>k. splittable k \<longrightarrow> right_after k = (if k \<le> spLeft sp then None else saved k))"

context replica_laws
begin

lemma split_write_state:
  assumes "b \<noteq> a" and "contents rdb = delete_between [MinByte] [MaxByte] old ++ contents db"
    and "pb_DeleteRange (en_pebble e) [MinByte] (Key_Next (spLeft sp)) (pb_NewBatch (en_pebble e)) = Inr rwb"
    and "pb_DeleteRange (en_pebble e) (spRight sp) [MaxByte] wb = Inr wb1"
    and "split_descriptors l pr sp = (leftRD, rightRD)"
    and "c_Marshal (en_rd e) rightRD = Inr rb" and "c_Marshal (en_rd e) leftRD = Inr lb"
    and "rangeCheckedSet e a wb1 LocalRangeKey lb n = (None, wb2, n2)"
    and "rangeCheckedSet e b rwb LocalRangeKey rb n2 = (None, rwb2, n3)"
    and "pb_Apply (en_pebble e) rdb rwb2 = Inr rdb2"
  shows "split_state a b l pr sp (update_rep b (\<lambda>r. r\<lparr>rpDb := Some rdb2\<rparr>) n3) (view db wb) (contents db) (view db wb2) (contents rdb2)"
    and "rpDb (nReps (update_rep b (\<lambda>r. r\<lparr>rpDb := Some rdb2\<rparr>) n3) b) = Some rdb2"
proof -
  have rds: "rdLeft leftRD = rdLeft l" "rdRight leftRD = spLeft sp" "rdLeft rightRD = spRight sp" "rdRight rightRD = rdRight l"
    using assms(5) by (auto simp: split_descriptors_def Let_def)
  note sa = rangeCheckedSet_ok [OF assms(8)] and sb = rangeCheckedSet_ok [OF assms(9)]
  have n3: "n3 = snd (setRange e b LocalRangeKey rb (snd (setRange e a LocalRangeKey lb n)))" using sa(3) sb(3) by simp
  have ul: "c_Unmarshal (en_rd e) lb = Inr leftRD" "c_Unmarshal (en_rd e) rb = Inr rightRD"
    using codec_okD [OF rd_codec] assms(6,7) by auto
  let ?n = "update_rep b (\<lambda>r. r\<lparr>rpDb := Some rdb2\<rparr>) n3"
  have ina: "in_range (nReps ?n a) k \<longleftrightarrow> rdLeft l \<le> k \<and> k < spLeft sp" for k
    using setRange_range(2) [OF ul(1)] assms(1) rds by (simp add: node_simps n3 setRange_rep)
  have inb: "in_range (nReps ?n b) k \<longleftrightarrow> spRight sp \<le> k \<and> k < rdRight l" for k
    using setRange_range(2) [OF ul(2)] rds by (simp add: node_simps n3 in_range_def)
  have wb2: "view db wb2 = (delete_between (spRight sp) [MaxByte] (view db wb))(LocalRangeKey \<mapsto> lb)"
    using Set [OF sa(1)] DeleteRange [OF assms(4)] by simp
  have left: "view db wb2 k = (if spRight sp \<le> k then None else view db wb k)" if "splittable k" for k
    using splittable_above [OF that] by (simp add: wb2 delete_between_def)
  have rdb2: "contents rdb2 = (delete_between [MinByte] (Key_Next (spLeft sp)) (contents rdb))(LocalRangeKey \<mapsto> rb)"
    using Apply [OF assms(10)] Set [OF sb(1)] DeleteRange [OF assms(3)] by (simp add: NewBatch)
  have right: "contents rdb2 k = (if k \<le> spLeft sp then None else contents db k)" if "splittable k" for k
    using splittable_above [OF that] Key_Next_least [of "spLeft sp" k]
    by (auto simp: rdb2 delete_between_def assms(2) map_add_def not_le less_snoc_zero_iff split: option.split)
  show "split_state a b l pr sp ?n (view db wb) (contents db) (view db wb2) (contents rdb2)"
    using ina inb left right by (simp add: split_state_def)
  show "rpDb (nReps ?n b) = Some rdb2" by (simp add: node_simps)
qed

text \<open>Writing the two entries of the meta-range changes neither the ranges nor the splittable keys.\<close>

lemma meta_write_state:
  assumes "split_state a b l pr sp n v s (view db wb) ra" and "rangeCheckedSet e a wb (RangeMetaKey x) val n = (None, wb', n')"
  shows "split_state a b l pr sp n' v s (view db wb') ra \<and> n' = n"
proof -
  note st = rangeCheckedSet_ok [OF assms(2)]
  have "RangeMetaKey x \<noteq> LocalRangeKey" using meta_key_not_local LocalRangeKey_local by metis
  then have "n' = n" using st(3) by simp
  moreover have "view db wb' k = view db wb k" if "splittable k" for k
    using Set [OF st(1)] splittable_above(3) [OF that, of x] by simp
  ultimately show ?thesis using assms(1) by (simp add: split_state_def)
qed

end

lemma split_run:
  assumes "split e a db wb (Some l) (Some pr) (Some sp) n = Some (res, wb', n')"
    and "\<not> rpClosed (nReps n a)" and "rpRange (nReps n a) = Some l" and "nTable n (range_id pr) = Some b"
    and "\<not> rpClosed (nReps n b)"
  shows "\<exists>rdb err rdb1. b \<noteq> a \<and> rpDb (nReps n b) = Some rdb \<and> populateDBFromSnapshot e db rdb = Some (err, rdb1) \<and>
    (case err of
       Some x \<Rightarrow> res = Inl x \<and> wb' = wb \<and> n' = n
     | None \<Rightarrow> split_write e a wb b rdb1 l pr sp (update_rep b (\<lambda>r. r\<lparr>rpDb := Some rdb1\<rparr>) n) = (res, wb', n'))"
proof -
  obtain rdb where "b \<noteq> a" "rpDb (nReps n b) = Some rdb"
    using assms by (auto simp: split_def DB_def GetReplica_def split: if_splits option.splits)
  then show ?thesis
    using assms by (auto simp: split_def DB_def GetReplica_def split: if_splits option.splits prod.splits)
qed

lemma split_preconditions:
  assumes "split e a db wb lo ro spo n = Some (Inr (l', r'), wb', n')"
  shows "\<exists>l pr sp b. lo = Some l \<and> ro = Some pr \<and> spo = Some sp \<and> \<not> rpClosed (nReps n a) \<and> rpRange (nReps n a) = Some l
    \<and> nTable n (range_id pr) = Some b \<and> \<not> rpClosed (nReps n b)"
  using assms by (auto simp: split_def DB_def GetReplica_def split: if_splits option.splits prod.splits sum.splits)

context replica_laws
begin

lemma populate_contents:
  assumes "populateDBFromSnapshot e db rdb = Some (None, rdb1)"
  shows "contents rdb1 = delete_between [MinByte] [MaxByte] (contents rdb) ++ contents db"
proof -
  obtain f where "SaveSnapshotToWriter (en_kv e) buf_write (pb_All (en_pebble e) db) [] = (None, f)"
      "ApplySnapshotFromReader (en_pebble e) (en_kv e) f EOF rdb = Some (None, rdb1)"
    using assms by (auto simp: populateDBFromSnapshot_def split: option.splits prod.splits)
  then show ?thesis by (rule pebble_store.restored_contents [OF store kv_codec])
qed

lemma split_succeeds:
  assumes "split e a db wb lo ro spo n = Some (Inr (l', r'), wb', n')"
  shows "\<exists>l pr sp b rdb2. lo = Some l \<and> ro = Some pr \<and> spo = Some sp \<and> rpRange (nReps n a) = Some l \<and> nTable n (range_id pr) = Some b
    \<and> (l', r') = split_descriptors l pr sp \<and> rpDb (nReps n' b) = Some rdb2
    \<and> split_state a b l pr sp n' (view db wb) (contents db) (view db wb') (contents rdb2)"
proof -
  obtain l pr sp b where pre: "lo = Some l" "ro = Some pr" "spo = Some sp" "\<not> rpClosed (nReps n a)" "rpRange (nReps n a) = Some l"
      "nTable n (range_id pr) = Some b" "\<not> rpClosed (nReps n b)"
    using split_preconditions [OF assms] by blast
  obtain rdb rdb1 where b: "b \<noteq> a" "populateDBFromSnapshot e db rdb = Some (None, rdb1)"
      "split_write e a wb b rdb1 l pr sp (update_rep b (\<lambda>r. r\<lparr>rpDb := Some rdb1\<rparr>) n) = (Inr (l', r'), wb', n')"
    using split_run [OF assms [unfolded pre(1-3)] pre(4-7)] by (auto split: option.splits)
  let ?n = "update_rep b (\<lambda>r. r\<lparr>rpDb := Some rdb1\<rparr>) n"
  obtain rwb wb1 rb lb wb2 n2 rwb2 n3 rdb2 where c:
    "pb_DeleteRange (en_pebble e) [MinByte] (Key_Next (spLeft sp)) (pb_NewBatch (en_pebble e)) = Inr rwb"
    "pb_DeleteRange (en_pebble e) (spRight sp) [MaxByte] wb = Inr wb1"
    "split_descriptors l pr sp = (l', r')" "c_Marshal (en_rd e) r' = Inr rb" "c_Marshal (en_rd e) l' = Inr lb"
    "rangeCheckedSet e a wb1 LocalRangeKey lb ?n = (None, wb2, n2)"
    "rangeCheckedSet e b rwb LocalRangeKey rb n2 = (None, rwb2, n3)"
    "pb_Apply (en_pebble e) rdb1 rwb2 = Inr rdb2"
    using b(3) unfolding split_write_def Let_def by (auto split: sum.splits prod.splits option.splits if_splits)
  let ?n4 = "update_rep b (\<lambda>r. r\<lparr>rpDb := Some rdb2\<rparr>) n3"
  note st = split_write_state [OF b(1) populate_contents [OF b(2)] c]
  have fin: "split_state a b l pr sp n' (view db wb) (contents db) (view db wb') (contents rdb2) \<and> n' = ?n4"
  proof (cases "bytes_Compare (rdLeft l) [UnsplittableMaxByte] = -1")
    case True
    obtain wb3 n5 where m: "rangeCheckedSet e a wb2 (RangeMetaKey (rdRight r')) rb ?n4 = (None, wb3, n5)"
        "rangeCheckedSet e a wb3 (RangeMetaKey (rdRight l')) lb n5 = (None, wb', n')"
      using b(3) True c unfolding split_write_def Let_def by (auto split: sum.splits prod.splits option.splits if_splits)
    from meta_write_state [OF st(1) m(1)] meta_write_state [OF _ m(2)] show ?thesis by blast
  next
    case False
    then have "wb' = wb2" "n' = ?n4"
      using b(3) c unfolding split_write_def Let_def by (auto split: sum.splits prod.splits option.splits if_splits)
    then show ?thesis using st by simp
  qed
  then show ?thesis using pre c(3) st(2) by auto
qed

end

section \<open>The split point\<close>

lemma canSplitKeys_above: "canSplitKeys l r \<Longrightarrow> [UnsplittableMaxByte] < l \<and> [UnsplittableMaxByte] < r"
  by (auto simp: canSplitKeys_def Let_def bytes_Compare_def split: if_splits)

lemma find_split_loop_keys:
  assumes "find_split_loop T s k0 iter = Some sp" and "sorted_wrt (<) (map fst iter)" and "\<forall>k\<in>fst ` set iter. k0 < k"
  shows "(spLeft sp = k0 \<or> spLeft sp \<in> fst ` set iter) \<and> spRight sp \<in> fst ` set iter \<and> spLeft sp < spRight sp
    \<and> canSplitKeys (spLeft sp) (spRight sp)"
  using assms
proof (induction T s k0 iter rule: find_split_loop.induct)
  case (2 T s k0 k v iter)
  show ?case
  proof (cases "s \<ge> T div 2 \<and> canSplitKeys k0 k")
    case True
    then show ?thesis using "2.prems" by auto
  next
    case False
    then have "find_split_loop T (s + length v) k iter = Some sp" using "2.prems"(1) by (auto split: if_splits)
    from "2.IH" [OF False this] "2.prems" show ?thesis by auto
  qed
qed simp

text \<open>The point that is found is a stored key and the next one, both in the splittable space.\<close>

lemma findSplitPoint_stored:
  assumes "replica_laws e contents effect" and "findSplitPoint e db wb = Inr sp"
  shows "splittable (spLeft sp)" and "splittable (spRight sp)" and "spLeft sp < spRight sp"
    and "effect wb (contents db) (spLeft sp) \<noteq> None" and "effect wb (contents db) (spRight sp) \<noteq> None"
proof -
  let ?iter = "iter_bounded (Some [MinByte]) (Some [MaxByte]) (pb_bAll (en_pebble e) db wb)"
  have it: "kv_iter (pb_bAll (en_pebble e) db wb) (effect wb (contents db))"
    by (rule replica_laws.bAll [OF assms(1)])
  have f: "find_split_loop (sum_list (map (\<lambda>(k, v). length v) ?iter)) 0 [] ?iter = Some sp"
    using assms(2) by (auto simp: findSplitPoint_def Let_def split: option.splits)
  have "sorted_wrt (<) (map fst ?iter)"
    using it by (auto simp: kv_iter_def iter_bounded_def intro: kv_delete_sorted)
  moreover have "\<forall>k\<in>fst ` set ?iter. [] < k"
    by (auto simp: iter_bounded_def neq_Nil_conv key_defs intro: le_neq_trans)
  ultimately have k: "(spLeft sp = [] \<or> spLeft sp \<in> fst ` set ?iter) \<and> spRight sp \<in> fst ` set ?iter \<and> spLeft sp < spRight sp
      \<and> canSplitKeys (spLeft sp) (spRight sp)"
    by (rule find_split_loop_keys [OF f])
  then have ab: "[UnsplittableMaxByte] < spLeft sp" "[UnsplittableMaxByte] < spRight sp"
    using canSplitKeys_above by blast+
  then have mem: "spLeft sp \<in> fst ` set ?iter" "spRight sp \<in> fst ` set ?iter" using k by auto
  have "x < [MaxByte] \<and> effect wb (contents db) x \<noteq> None" if "x \<in> fst ` set ?iter" for x
  proof -
    have "x < [MaxByte]" "x \<in> fst ` set (pb_bAll (en_pebble e) db wb)"
      using that by (auto simp: iter_bounded_def)
    moreover from this have "map_of (pb_bAll (en_pebble e) db wb) x \<noteq> None"
      by (simp only: map_of_eq_None_iff) simp
    ultimately show ?thesis using it by (simp add: kv_iter_def)
  qed
  from this [OF mem(1)] this [OF mem(2)] show "splittable (spLeft sp)" "splittable (spRight sp)" "spLeft sp < spRight sp"
    "effect wb (contents db) (spLeft sp) \<noteq> None" "effect wb (contents db) (spRight sp) \<noteq> None"
    using ab k by (simp_all add: splittable_def)
qed

section \<open>Properties\<close>

text \<open>C1: A split that succeeds divides the range at its split point: the right replica accepts exactly the keys from the
  right key of the point to the old end, and its database holds what the left database held there; the left replica accepts the
  keys from the old start to the left key of the point, and its batch still shows them as before. Their
  generations are the next two.\<close>

theorem split_divides:
  assumes "replica_laws e contents effect" and "split e a db wb (Some l) (Some pr) (Some sp) n = Some (Inr (l', r'), wb', n')"
    and "nTable n (range_id pr) = Some b"
  shows "generation l' = generation l + 1 \<and> generation r' = generation l + 2
    \<and> (\<exists>rdb. rpDb (nReps n' b) = Some rdb \<and>
        (\<forall>k. splittable k \<longrightarrow>
          (if spRight sp \<le> k then
             in_range (nReps n' b) k = (k < rdRight l) \<and> (spLeft sp \<le> k \<longrightarrow> \<not> in_range (nReps n' a) k)
             \<and> (spLeft sp < k \<longrightarrow> contents rdb k = contents db k) \<and> effect wb' (contents db) k = None
           else
             in_range (nReps n' a) k = (rdLeft l \<le> k \<and> k < spLeft sp) \<and> \<not> in_range (nReps n' b) k
             \<and> effect wb' (contents db) k = effect wb (contents db) k)))"
proof -
  obtain rdb where s: "(l', r') = split_descriptors l pr sp" "rpDb (nReps n' b) = Some rdb"
      "split_state a b l pr sp n' (effect wb (contents db)) (contents db) (effect wb' (contents db)) (contents rdb)"
    using replica_laws.split_succeeds [OF assms(1,2)] assms(3) by auto
  have "generation l' = generation l + 1 \<and> generation r' = generation l + 2"
    using s(1) by (simp add: split_descriptors_def Let_def)
  moreover have "if spRight sp \<le> k then
             in_range (nReps n' b) k = (k < rdRight l) \<and> (spLeft sp \<le> k \<longrightarrow> \<not> in_range (nReps n' a) k)
             \<and> (spLeft sp < k \<longrightarrow> contents rdb k = contents db k) \<and> effect wb' (contents db) k = None
           else
             in_range (nReps n' a) k = (rdLeft l \<le> k \<and> k < spLeft sp) \<and> \<not> in_range (nReps n' b) k
             \<and> effect wb' (contents db) k = effect wb (contents db) k" if "splittable k" for k
    using s(3) that by (auto simp: split_state_def)
  ultimately show ?thesis using s(2) by blast
qed

text \<open>The split point that the code itself finds leaves a stored key that nobody serves: the left key of the point is in the
  database, and after the split neither the left nor the right replica accepts it or any key up to the
  right key of the point (ranges exclude their right end, but the left range is made to end at its last key).\<close>

theorem split_orphans_a_key:
  assumes "replica_laws e contents effect" and "findSplitPoint e db wb = Inr sp"
    and "split e a db wb (Some l) (Some pr) (Some sp) n = Some (Inr (l', r'), wb', n')"
    and "nTable n (range_id pr) = Some b"
  shows "effect wb (contents db) (spLeft sp) \<noteq> None \<and> effect wb' (contents db) (spLeft sp) = effect wb (contents db) (spLeft sp)
    \<and> (\<forall>k. spLeft sp \<le> k \<and> k < spRight sp \<longrightarrow> \<not> in_range (nReps n' a) k \<and> \<not> in_range (nReps n' b) k)"
proof -
  obtain rdb where "split_state a b l pr sp n' (effect wb (contents db)) (contents db) (effect wb' (contents db)) (contents rdb)"
    using replica_laws.split_succeeds [OF assms(1,3)] assms(4) by auto
  then show ?thesis
    using findSplitPoint_stored [OF assms(1,2)] by (auto simp: split_state_def)
qed

text \<open>What was written to the right half earlier in the same batch of entries is lost by the split: the right replica is filled from
  the database, which does not have it yet, and the batch deletes it on the left.\<close>

theorem split_loses_batched_write:
  assumes "replica_laws e contents effect" and "split e a db wb (Some l) (Some pr) (Some sp) n = Some (Inr (l', r'), wb', n')"
    and "nTable n (range_id pr) = Some b" and "splittable k" and "spRight sp \<le> k" and "spLeft sp < k" and "k < rdRight l"
    and "effect wb (contents db) k = Some v" and "contents db k = None"
  shows "\<exists>rdb. rpDb (nReps n' b) = Some rdb \<and> in_range (nReps n' b) k \<and> contents rdb k = None \<and> effect wb' (contents db) k = None"
proof -
  obtain rdb where "rpDb (nReps n' b) = Some rdb"
      "split_state a b l pr sp n' (effect wb (contents db)) (contents db) (effect wb' (contents db)) (contents rdb)"
    using replica_laws.split_succeeds [OF assms(1,2)] assms(3) by auto
  then show ?thesis using assms(4-9) by (auto simp: split_state_def)
qed



text \<open>A store whose writes do not fail.\<close>

definition writes_succeed :: "('db, 'wb) pebble \<Rightarrow> bool" where
  "writes_succeed P \<longleftrightarrow> (\<forall>k v wb. \<exists>wb'. pb_Set P k v wb = Inr wb') \<and> (\<forall>a b wb. \<exists>wb'. pb_DeleteRange P a b wb = Inr wb')
     \<and> (\<forall>db wb. \<exists>db'. pb_Apply P db wb = Inr db')"

lemma rangeCheckedSet_local:
  "writes_succeed (en_pebble e) \<Longrightarrow> \<exists>wb' n'. rangeCheckedSet e a wb LocalRangeKey v n = (None, wb', n')"
  by (auto simp: rangeCheckedSet_def writes_succeed_def split: sum.split) (metis Inl_Inr_False)

text \<open>A split that reports failure because the meta-range could not be updated has taken effect all the same: both replicas
  have their new ranges, and the batch, which \<open>Update\<close> applies whatever its commands answer, has the right half
  deleted, while the meta-range still sends every client of the old range to the left replica.\<close>

theorem failed_split_takes_effect:
  assumes "replica_laws e contents effect" and "writes_succeed (en_pebble e)"
    and "c_Marshal (en_rd e) l' = Inr lb" and "c_Marshal (en_rd e) r' = Inr rb"
    and "\<not> rpClosed (nReps n a)" and "rpRange (nReps n a) = Some l" and "nTable n (range_id pr) = Some b" and "b \<noteq> a"
    and "\<not> rpClosed (nReps n b)" and "rpDb (nReps n b) = Some rdb" and "populateDBFromSnapshot e db rdb = Some (None, rdb1)"
    and "split_descriptors l pr sp = (l', r')" and "[UnsplittableMaxByte] \<le> rdLeft l" and "updateMetarange e l l' r' = Some err"
  shows "\<exists>wb' n' rdb2. split e a db wb (Some l) (Some pr) (Some sp) n = Some (Inl err, wb', n')
    \<and> rpDb (nReps n' b) = Some rdb2
    \<and> split_state a b l pr sp n' (effect wb (contents db)) (contents db) (effect wb' (contents db)) (contents rdb2)"
proof -
  let ?n = "update_rep b (\<lambda>r. r\<lparr>rpDb := Some rdb1\<rparr>) n"
  obtain rwb wb1 where d: "pb_DeleteRange (en_pebble e) [MinByte] (Key_Next (spLeft sp)) (pb_NewBatch (en_pebble e)) = Inr rwb"
    "pb_DeleteRange (en_pebble e) (spRight sp) [MaxByte] wb = Inr wb1"
    using assms(2) unfolding writes_succeed_def by blast
  obtain wb2 n2 where w: "rangeCheckedSet e a wb1 LocalRangeKey lb ?n = (None, wb2, n2)"
    using rangeCheckedSet_local [OF assms(2)] by blast
  obtain rwb2 n3 where r: "rangeCheckedSet e b rwb LocalRangeKey rb n2 = (None, rwb2, n3)"
    using rangeCheckedSet_local [OF assms(2)] by blast
  obtain rdb2 where ap: "pb_Apply (en_pebble e) rdb1 rwb2 = Inr rdb2"
    using assms(2) unfolding writes_succeed_def by blast
  let ?n4 = "update_rep b (\<lambda>r. r\<lparr>rpDb := Some rdb2\<rparr>) n3"
  have "split_write e a wb b rdb1 l pr sp ?n = (Inl err, wb2, ?n4)"
    using d w r ap assms(3,4,12,14) leD [OF assms(13)] by (simp add: split_write_def Let_def del: Key_Next_simp)
  then have "split e a db wb (Some l) (Some pr) (Some sp) n = Some (Inl err, wb2, ?n4)"
    using assms(5-11) by (simp add: split_def DB_def GetReplica_def)
  then show ?thesis
    using replica_laws.split_write_state [OF assms(1,8) replica_laws.populate_contents [OF assms(1,11)] d assms(12,4,3) w r ap]
    by blast
qed

text \<open>The command that a split sends to the meta-range compares and swaps the entry of the right range, but writes the entry of the
  left range whatever comes of that: a replica that applies an old split late finds the newer descriptor, reports
  success, and has overwritten the left entry with the old one.\<close>

theorem late_split_overwrites_metarange:
  assumes "replica_laws m contents effect"
    and "c_Marshal (en_rd e) left = Inr lb" and "c_Marshal (en_rd e) oldLeft = Inr ob" and "c_Marshal (en_rd e) right = Inr rb"
    and "effect wb (contents db) (RangeMetaKey (rdRight right)) = Some newer" and "newer \<noteq> ob" and "newer \<noteq> rb" and "newer \<noteq> []"
    and "c_Unmarshal (en_rd e) newer = Inr rd" and "generation right < generation rd"
    and "pb_bGet (en_pebble m) db wb (RangeMetaKey (rdRight right)) = Inr v"
    and "pb_Set (en_pebble m) (RangeMetaKey (rdRight left)) lb wb = Inr wb'" and "in_range (nReps n a) (RangeMetaKey (rdRight left))"
    and "\<And>reqs rsps wb1 n1. propose_all m a db wb reqs n = Some (rsps, wb1, n1)
           \<Longrightarrow> en_SyncPropose e (RangeMetaKey (rdRight right)) reqs = Inr rsps"
  shows "updateMetarange e oldLeft left right = None
    \<and> (\<exists>rsps. propose_all m a db wb
          [ReqCas (Some \<lparr>kvKey = RangeMetaKey (rdRight right), kvValue = rb\<rparr>) ob,
           ReqDirectWrite (Some \<lparr>kvKey = RangeMetaKey (rdRight left), kvValue = lb\<rparr>)] n = Some (rsps, wb', n))
    \<and> effect wb' (contents db) (RangeMetaKey (rdRight left)) = Some lb"
proof -
  let ?rk = "RangeMetaKey (rdRight right)" and ?lk = "RangeMetaKey (rdRight left)"
  let ?reqs = "[ReqCas (Some \<lparr>kvKey = ?rk, kvValue = rb\<rparr>) ob, ReqDirectWrite (Some \<lparr>kvKey = ?lk, kvValue = lb\<rparr>)]"
  have "lookup (pb_bGet (en_pebble m) db wb) ?rk = Inr newer"
    using replica_laws.lookup_view [OF assms(1,11)] assms(5,8) by (simp add: value_of_def)
  then have c: "handlePropose m a db wb (ReqCas (Some \<lparr>kvKey = ?rk, kvValue = rb\<rparr>) ob) n =
      Some (\<lparr>rspStatus = Some (FailedPreconditionError CASErrorMessage), rspValue = RspCas (Some \<lparr>kvKey = ?rk, kvValue = newer\<rparr>)\<rparr>, wb, n)"
    using assms(6) by (simp add: handlePropose_def cas_def Let_def)
  have d: "handlePropose m a db wb (ReqDirectWrite (Some \<lparr>kvKey = ?lk, kvValue = lb\<rparr>)) n =
      Some (\<lparr>rspStatus = None, rspValue = RspDirectWrite (Some ())\<rparr>, wb', n)"
    using assms(12,13) by (simp add: handlePropose_def directWrite_def rangeCheckedSet_def)
  obtain r2 where p: "propose_all m a db wb ?reqs n =
      Some ([\<lparr>rspStatus = Some (FailedPreconditionError CASErrorMessage), rspValue = RspCas (Some \<lparr>kvKey = ?rk, kvValue = newer\<rparr>)\<rparr>, r2], wb', n)"
    using c d by simp
  have "updateMetarange e oldLeft left right = None"
    using assms(2-4,7,9,10) assms(14) [OF p]
    by (simp add: updateMetarange_def Let_def bb_ToProto_def bb_Add_def NewBatchBuilder_def CASResponse_def br_get_ok)
  then show ?thesis
    using p replica_laws.Set [OF assms(1,12)] by auto
qed

section \<open>Examples\<close>

text \<open>A node with the replica 0 of the range 1 and the replica 1 of a new range 2, in the range's own group.\<close>

definition example_stub :: RangeDescriptor where
  "example_stub = \<lparr>rdLeft = [], rdRight = [], range_id = 2, replicas = [], generation = 0\<rparr>"

definition split_node :: "RangeDescriptor \<Rightarrow> mem_op list \<Rightarrow> mem_op list store_node" where
  "split_node rd db = \<lparr>nReps = \<lambda>x. if x = 0 then example_rep db rd else example_rep [] example_stub,
     nNext = 2, nTable = [1 \<mapsto> 0, 2 \<mapsto> 1], nOpen = [(1, rd), (2, example_stub)], nJobs = []\<rparr>"

definition split_db :: "mem_op list" where
  "split_db = [MemSet [5] [1], MemSet [6] [2], MemSet [7] [3]]"

definition split_sp :: FindSplitPointResponse where
  "split_sp = \<lparr>spLeft = [6], spRight = [7], spLeftSize = 2, spRightSize = 2\<rparr>"

lemma mem_all_split_db: "mem_all split_db = [([5], [1]), ([6], [2]), ([7], [3])]"
  "mem_all (split_db @ [MemSet [8] [4]]) = [([5], [1]), ([6], [2]), ([7], [3]), ([8], [4])]"
  by (simp_all add: mem_all_def split_db_def)

lemma split_db_populates: "\<exists>rdb1. populateDBFromSnapshot (mem_env bs) split_db rdb = Some (None, rdb1)"
proof -
  obtain f where f: "SaveSnapshotToWriter mem_kv_codec buf_write (mem_all split_db) [] = (None, f)"
    by (simp add: mem_all_split_db mem_kv_codec_def buf_write_def Let_def enc_bytes_def enc_nat_def)
  have "\<forall>(P :: (mem_op list, mem_op list) pebble) wb. apply_loop P mem_kv_codec f EOF wb = Some (set_all P (mem_all split_db) wb)"
    using saved_applies [OF mem_codecs(2,3) f] by auto
  then have "apply_loop mem_pebble mem_kv_codec f EOF wb = Some (None, wb @ [MemSet [5] [1], MemSet [6] [2], MemSet [7] [3]])" for wb
    by (simp add: mem_all_split_db)
  then show ?thesis
    unfolding populateDBFromSnapshot_def mem_env_simps mem_pebble_simps f ApplySnapshotFromReader_def by simp
qed

lemma example_split_point: "findSplitPoint (mem_env bs) split_db [MemSet [8] [4]] = Inr split_sp"
  by (simp add: findSplitPoint_def mem_all_split_db iter_bounded_def key_defs canSplitKeys_def HasPrefix_def Let_def split_sp_def
    bytes_Compare_def)

lemma example_split:
  "\<exists>l' r' wb' n'. split (mem_env bs) 0 split_db [MemSet [8] [4]] (Some meta_rd) (Some example_stub) (Some split_sp) (split_node meta_rd split_db)
     = Some (Inr (l', r'), wb', n')"
proof -
  obtain rdb1 where p: "populateDBFromSnapshot (mem_env bs) split_db [] = Some (None, rdb1)"
    using split_db_populates by blast
  have m: "c_Marshal mem_rd_codec rd = Inr (enc_rd rd)" "c_Unmarshal mem_rd_codec (enc_rd rd) = Inr rd" for rd
    by (simp_all add: mem_rd_codec_def)
  show ?thesis
    by (simp add: split_def DB_def GetReplica_def split_node_def example_rep_def example_stub_def meta_rd_def raft_rd_def p
      split_write_def split_descriptors_def split_sp_def rangeCheckedSet_def m setRange_def Let_def node_simps key_defs
      in_range_def RangeMetaKey_simp bytes_Compare_def LocalRangeKey_def MakeKey_def IsLocalKey_def)
qed

lemma split_node_table: "nTable (split_node rd db) (range_id example_stub) = Some 1"
  by (simp add: split_node_def example_stub_def)

lemma example_views:
  "mem_effect [MemSet [8] [4]] (mem_contents split_db) [8] = Some [4]" "mem_contents split_db [8] = None"
  "mem_contents split_db [7] = Some [3]"
  by (simp_all add: mem_effect_def mem_contents_def split_db_def)

lemma split_divides_witness:
  "\<exists>l' r' wb' n' rdb. split (mem_env []) 0 split_db [MemSet [8] [4]] (Some meta_rd) (Some example_stub) (Some split_sp) (split_node meta_rd split_db)
     = Some (Inr (l', r'), wb', n') \<and> generation r' = 3 \<and> rpDb (nReps n' 1) = Some rdb \<and> in_range (nReps n' 1) [7] \<and> mem_contents rdb [7] = Some [3]"
proof -
  obtain l' r' wb' n' where sp: "split (mem_env []) 0 split_db [MemSet [8] [4]] (Some meta_rd) (Some example_stub) (Some split_sp)
      (split_node meta_rd split_db) = Some (Inr (l', r'), wb', n')"
    using example_split by blast
  have k: "splittable [7]" "spRight split_sp \<le> [7]" "spLeft split_sp < [7]" "[7] < rdRight meta_rd"
    by (simp_all add: splittable_def key_defs split_sp_def meta_rd_def raft_rd_def)
  have g: "generation meta_rd + 2 = 3" by (simp add: meta_rd_def raft_rd_def)
  show ?thesis
    using split_divides [OF mem_replica.replica_laws_axioms sp split_node_table] k g example_views sp by auto
qed

lemma split_orphans_a_key_witness:
  "\<exists>l' r' wb' n'. split (mem_env []) 0 split_db [MemSet [8] [4]] (Some meta_rd) (Some example_stub) (Some split_sp) (split_node meta_rd split_db)
     = Some (Inr (l', r'), wb', n') \<and> mem_effect [MemSet [8] [4]] (mem_contents split_db) [6] \<noteq> None
     \<and> \<not> in_range (nReps n' 0) [6] \<and> \<not> in_range (nReps n' 1) [6]"
proof -
  obtain l' r' wb' n' where sp: "split (mem_env []) 0 split_db [MemSet [8] [4]] (Some meta_rd) (Some example_stub) (Some split_sp)
      (split_node meta_rd split_db) = Some (Inr (l', r'), wb', n')"
    using example_split by blast
  have "spLeft split_sp = [6]" "spRight split_sp = [7]" by (simp_all add: split_sp_def)
  then show ?thesis
    using split_orphans_a_key [OF mem_replica.replica_laws_axioms example_split_point sp split_node_table] sp by auto
qed

lemma split_loses_batched_write_witness:
  "\<exists>l' r' wb' n' rdb. split (mem_env []) 0 split_db [MemSet [8] [4]] (Some meta_rd) (Some example_stub) (Some split_sp) (split_node meta_rd split_db)
     = Some (Inr (l', r'), wb', n') \<and> rpDb (nReps n' 1) = Some rdb \<and> in_range (nReps n' 1) [8] \<and> mem_contents rdb [8] = None"
proof -
  obtain l' r' wb' n' where sp: "split (mem_env []) 0 split_db [MemSet [8] [4]] (Some meta_rd) (Some example_stub) (Some split_sp)
      (split_node meta_rd split_db) = Some (Inr (l', r'), wb', n')"
    using example_split by blast
  have k: "splittable [8]" "spRight split_sp \<le> [8]" "spLeft split_sp < [8]" "[8] < rdRight meta_rd"
    by (simp_all add: splittable_def key_defs split_sp_def meta_rd_def raft_rd_def)
  show ?thesis
    using split_loses_batched_write [OF mem_replica.replica_laws_axioms sp split_node_table k example_views(1,2)] sp by auto
qed

lemma failed_split_takes_effect_witness:
  "\<exists>err wb' n' rdb. split (mem_env []) 0 split_db [] (Some raft_rd) (Some example_stub) (Some split_sp) (split_node raft_rd split_db)
     = Some (Inl err, wb', n') \<and> rpDb (nReps n' 1) = Some rdb \<and> in_range (nReps n' 1) [7] \<and> mem_contents rdb [7] = Some [3]
     \<and> mem_effect wb' (mem_contents split_db) [7] = None"
proof -
  obtain rdb1 where p: "populateDBFromSnapshot (mem_env []) split_db [] = Some (None, rdb1)"
    using split_db_populates by blast
  obtain l' r' where lr: "split_descriptors raft_rd example_stub split_sp = (l', r')" by fastforce
  have m: "c_Marshal (en_rd (mem_env [])) rd = Inr (enc_rd rd)" for rd by (simp add: mem_rd_codec_def)
  have u: "updateMetarange (mem_env []) raft_rd l' r' = Some (UnavailableError ''no peer'')"
    using m by (simp add: updateMetarange_def Let_def bb_ToProto_def bb_Add_def NewBatchBuilder_def)
  have w: "writes_succeed (en_pebble (mem_env []))" by (simp add: writes_succeed_def)
  have n: "\<not> rpClosed (nReps (split_node raft_rd split_db) 0)" "rpRange (nReps (split_node raft_rd split_db) 0) = Some raft_rd"
    "(1 :: nat) \<noteq> 0" "\<not> rpClosed (nReps (split_node raft_rd split_db) 1)" "rpDb (nReps (split_node raft_rd split_db) 1) = Some []"
    "[UnsplittableMaxByte] \<le> rdLeft raft_rd"
    by (simp_all add: split_node_def example_rep_def raft_rd_def key_defs)
  obtain wb' n' rdb2 where sp: "split (mem_env []) 0 split_db [] (Some raft_rd) (Some example_stub) (Some split_sp) (split_node raft_rd split_db)
      = Some (Inl (UnavailableError ''no peer''), wb', n')" "rpDb (nReps n' 1) = Some rdb2"
      "split_state 0 1 raft_rd example_stub split_sp n' (mem_effect [] (mem_contents split_db)) (mem_contents split_db)
         (mem_effect wb' (mem_contents split_db)) (mem_contents rdb2)"
    using failed_split_takes_effect [OF mem_replica.replica_laws_axioms w m m n(1,2) split_node_table n(3-5) p lr n(6) u] by blast
  have "splittable [7]" "spRight split_sp \<le> [7]" "\<not> [7] \<le> spLeft split_sp" "[7] < rdRight raft_rd"
    by (simp_all add: splittable_def key_defs split_sp_def raft_rd_def)
  then show ?thesis using sp example_views(3) by (auto simp: split_state_def)
qed

text \<open>A meta-range replica whose entry for the right range is already at generation 9.\<close>

lemma late_split_overwrites_metarange_witness:
  "\<exists>e :: (mem_op list, mem_op list) replica_env. updateMetarange e raft_rd (raft_rd\<lparr>generation := 2, rdRight := [6]\<rparr>) (raft_rd\<lparr>generation := 3, rdLeft := [7]\<rparr>) = None
    \<and> mem_effect [MemSet (RangeMetaKey [6]) (enc_rd (raft_rd\<lparr>generation := 2, rdRight := [6]\<rparr>))]
        (mem_contents [MemSet (RangeMetaKey [200]) (enc_rd (raft_rd\<lparr>generation := 9\<rparr>)), MemSet (RangeMetaKey [6]) [77]]) (RangeMetaKey [6])
      = Some (enc_rd (raft_rd\<lparr>generation := 2, rdRight := [6]\<rparr>))"
proof -
  let ?l = "raft_rd\<lparr>generation := 2, rdRight := [6]\<rparr>" and ?r = "raft_rd\<lparr>generation := 3, rdLeft := [7]\<rparr>"
    and ?new = "raft_rd\<lparr>generation := 9\<rparr>"
  let ?db = "[MemSet (RangeMetaKey [200]) (enc_rd ?new), MemSet (RangeMetaKey [6]) [77]]" and ?n = "split_node meta_rd []"
  let ?wb' = "[MemSet (RangeMetaKey [6]) (enc_rd ?l)]"
  let ?e = "(mem_env [])\<lparr>en_SyncPropose := \<lambda>k reqs. case propose_all (mem_env []) 0 ?db [] reqs ?n of
      None \<Rightarrow> Inl (UnavailableError ''no peer'') | Some (rsps, _, _) \<Rightarrow> Inr rsps\<rparr>"
  have inj: "enc_rd x = enc_rd y \<longleftrightarrow> x = y" for x y by (metis dec_enc_rd)
  have c: "c_Marshal (en_rd ?e) x = Inr (enc_rd x)" "c_Unmarshal (en_rd ?e) (enc_rd x) = Inr x" for x
    by (simp_all add: mem_env_def mem_rd_codec_def)
  have v: "mem_effect [] (mem_contents ?db) (RangeMetaKey (rdRight ?r)) = Some (enc_rd ?new)"
    by (simp add: mem_effect_def mem_contents_def raft_rd_def RangeMetaKey_simp)
  have d: "enc_rd ?new \<noteq> enc_rd raft_rd" "enc_rd ?new \<noteq> enc_rd ?r" "enc_rd ?new \<noteq> []" "generation ?r < generation ?new"
    by (simp_all add: inj) (simp_all add: raft_rd_def enc_rd_def enc_bytes_def enc_nat_def)
  have r: "in_range (nReps ?n 0) (RangeMetaKey (rdRight ?l))"
    by (simp add: in_range_def split_node_def example_rep_def meta_rd_def raft_rd_def RangeMetaKey_simp)
  have g: "pb_bGet (en_pebble (mem_env [])) ?db [] (RangeMetaKey (rdRight ?r)) = Inr (mem_contents ?db (RangeMetaKey (rdRight ?r)))"
    "pb_Set (en_pebble (mem_env [])) (RangeMetaKey (rdRight ?l)) (enc_rd ?l) [] = Inr ?wb'"
    by simp_all
  have "updateMetarange ?e raft_rd ?l ?r = None \<and> mem_effect ?wb' (mem_contents ?db) (RangeMetaKey (rdRight ?l)) = Some (enc_rd ?l)"
    using late_split_overwrites_metarange [OF mem_replica.replica_laws_axioms c(1) c(1) c(1) v d(1-3) c(2) d(4) g r] by simp
  then show ?thesis by (intro exI [of _ ?e]) simp
qed

end
