(* ===== verification/RaftLease.thy ===== *)
theory RaftLease
  imports RaftSplit
begin

text \<open>
  \<^verbatim>\<open>enterprise/server/raft/nodeliveness/nodeliveness.go\<close> and \<^verbatim>\<open>rangelease/rangelease.go\<close>: a node keeps a record of its own
  liveness, and of the lease on each range it leads, alive by compare-and-swap on a key of the replicated store.

  The world \<open>w\<close> is what the remote calls act on; \<^verbatim>\<open>time.Now()\<close> is \<open>le_Now w\<close>, so that time passes with the calls. A function
  returns its result, the liveness and lease as it leaves them and the world; \<open>None\<close> is a loop that never
  ends, or a run-time panic. The goroutines that renew a lease call \<open>ensureValidLease\<close> later; that one is running is
  the field \<^verbatim>\<open>stopped\<close>. Times are \<^verbatim>\<open>int64\<close> nanoseconds, far from their bounds.
\<close>

section \<open>The code\<close>

record NodeLivenessRecord =
  nlEpoch :: u64
  nlExpiration :: int

text \<open>\<open>LeaseNone\<close> is a record with neither field set.\<close>

datatype RangeLeaseRecord = LeaseNone | LeaseLiveness u64 bytes | LeaseExpiration int

record 'w lease_env =
  le_SyncPropose :: "bytes \<Rightarrow> RequestUnion list \<Rightarrow> 'w \<Rightarrow> (error + ResponseUnion list) \<times> 'w"
  le_Now :: "'w \<Rightarrow> int"
  le_Witness :: "u64 \<Rightarrow> u64 \<Rightarrow> u64"
  le_nl :: "NodeLivenessRecord codec"
  le_rl :: "RangeLeaseRecord codec"

definition defaultLeaseDuration :: int where "defaultLeaseDuration = 9 * 10 ^ 9"
definition defaultGracePeriod :: int where "defaultGracePeriod = 4 * 10 ^ 9"

text \<open>\<^verbatim>\<open>strings.Contains\<close>, and the test that a request lost a compare-and-swap.\<close>

definition contains :: "string \<Rightarrow> string \<Rightarrow> bool" where
  "contains s sub \<longleftrightarrow> list_ex (\<lambda>i. take (length sub) (drop i s) = sub) [0..<Suc (length s)]"

definition is_cas_conflict :: "error \<Rightarrow> bool" where
  "is_cas_conflict err \<longleftrightarrow> IsFailedPreconditionError (Some err) \<and> contains (err_msg err) CASErrorMessage"

text \<open>One compare-and-swap through the sender; both files have it, with their own key.\<close>

definition sendCasRequest ::
  "'w lease_env \<Rightarrow> bytes \<Rightarrow> bytes \<Rightarrow> bytes \<Rightarrow> bytes \<Rightarrow> 'w \<Rightarrow> (KV option \<times> error option) \<times> 'w" where
  "sendCasRequest e routeKey leaseKey expectedValue newVal w =
     (case bb_ToProto (bb_Add NewBatchBuilder (ReqCas (Some \<lparr>kvKey = leaseKey, kvValue = newVal\<rparr>) expectedValue)) of
        Inl err \<Rightarrow> ((None, Some err), w)
      | Inr casRequest \<Rightarrow>
          (case le_SyncPropose e routeKey casRequest w of
             (Inl err, w') \<Rightarrow> ((None, Some err), w')
           | (Inr rsp, w') \<Rightarrow> (fst (CASResponse 0 (NewBatchResponseFromProto rsp)), w')))"

subsection \<open>Node liveness\<close>

record Liveness =
  lvNodeID :: bytes
  lvClock :: u64
  lvDuration :: int
  lvGrace :: int
  lvRecord :: "NodeLivenessRecord option"
  lvStopped :: bool
  lvRenewal :: int

definition Liveness_New :: "bytes \<Rightarrow> Liveness" where
  "Liveness_New nodeID = \<lparr>lvNodeID = nodeID, lvClock = 0, lvDuration = defaultLeaseDuration, lvGrace = defaultGracePeriod,
     lvRecord = Some \<lparr>nlEpoch = 0, nlExpiration = 0\<rparr>, lvStopped = True, lvRenewal = 0\<rparr>"

definition Liveness_WithTimeouts :: "int \<Rightarrow> int \<Rightarrow> Liveness \<Rightarrow> Liveness" where
  "Liveness_WithTimeouts leaseDuration gracePeriod h = h\<lparr>lvDuration := leaseDuration, lvGrace := gracePeriod\<rparr>"

definition GetEpoch :: "NodeLivenessRecord option \<Rightarrow> u64" where
  "GetEpoch l = (case l of None \<Rightarrow> 0 | Some r \<Rightarrow> nlEpoch r)"

definition GetExpiration :: "NodeLivenessRecord option \<Rightarrow> int" where
  "GetExpiration l = (case l of None \<Rightarrow> 0 | Some r \<Rightarrow> nlExpiration r)"

definition verifyLiveness :: "'w lease_env \<Rightarrow> Liveness \<Rightarrow> 'w \<Rightarrow> error option" where
  "verifyLiveness e h w =
     (if GetEpoch (lvRecord h) \<noteq> lvClock h then Some (FailedPreconditionError ''LeaseInvalid: lease epoch != current epoch'')
      else if le_Now e w > GetExpiration (lvRecord h) then Some (FailedPreconditionError ''LeaseInvalid: expired'')
      else None)"

definition marshal_opt :: "('a \<Rightarrow> error + bytes) \<Rightarrow> 'a option \<Rightarrow> error + bytes" where
  "marshal_opt marshal r = (case r of None \<Rightarrow> Inr [] | Some x \<Rightarrow> marshal x)"

definition leaseKeyOf :: "Liveness \<Rightarrow> bytes" where
  "leaseKeyOf h = MakeKey [SystemPrefix, lvNodeID h]"

definition clearLiveness :: "'w lease_env \<Rightarrow> Liveness \<Rightarrow> 'w \<Rightarrow> error option \<times> Liveness \<times> 'w" where
  "clearLiveness e h w =
     (case marshal_opt (c_Marshal (le_nl e)) (lvRecord h) of
        Inl err \<Rightarrow> (Some err, h, w)
      | Inr expectedValue \<Rightarrow>
          (case c_Marshal (le_nl e) \<lparr>nlEpoch = lvClock h, nlExpiration = 1\<rparr> of
             Inl err \<Rightarrow> (Some err, h, w)
           | Inr newVal \<Rightarrow>
               (case sendCasRequest e (leaseKeyOf h) (leaseKeyOf h) expectedValue newVal w of
                  ((_, None), w') \<Rightarrow> (None, h\<lparr>lvRecord := None\<rparr>, w')
                | ((_, Some err), w') \<Rightarrow> (Some err, h, w'))))"

text \<open>A record that cannot be decoded leaves an empty one.\<close>

definition renewLiveness :: "'w lease_env \<Rightarrow> Liveness \<Rightarrow> 'w \<Rightarrow> error option \<times> Liveness \<times> 'w" where
  "renewLiveness e h w =
     (case marshal_opt (c_Marshal (le_nl e)) (lvRecord h) of
        Inl err \<Rightarrow> (Some err, h, w)
      | Inr expectedValue \<Rightarrow>
          let leaseRequest = \<lparr>nlEpoch = lvClock h, nlExpiration = le_Now e w + lvDuration h\<rparr> in
          (case c_Marshal (le_nl e) leaseRequest of
             Inl err \<Rightarrow> (Some err, h, w)
           | Inr newVal \<Rightarrow>
               (case sendCasRequest e (leaseKeyOf h) (leaseKeyOf h) expectedValue newVal w of
                  ((_, None), w') \<Rightarrow>
                    (None, h\<lparr>lvRecord := Some leaseRequest, lvRenewal := nlExpiration leaseRequest - le_Now e w' - lvGrace h\<rparr>, w')
                | ((kv, Some err), w') \<Rightarrow>
                    if is_cas_conflict err then
                      (case c_Unmarshal (le_nl e) (case kv of None \<Rightarrow> [] | Some kv \<Rightarrow> kvValue kv) of
                         Inl err' \<Rightarrow> (Some err', h\<lparr>lvRecord := Some \<lparr>nlEpoch = 0, nlExpiration = 0\<rparr>\<rparr>, w')
                       | Inr r \<Rightarrow> (None, h\<lparr>lvRecord := Some r, lvClock := le_Witness e (lvClock h) (nlEpoch r)\<rparr>, w'))
                    else (Some err, h, w'))))"

text \<open>The loop of \<open>ensureValidLease\<close>.\<close>

partial_function (option) renew_liveness_loop :: "'w lease_env \<Rightarrow> Liveness \<Rightarrow> 'w \<Rightarrow> (error option \<times> Liveness \<times> 'w) option" where
  "renew_liveness_loop e h w =
     (case renewLiveness e h w of
        (Some err, h', w') \<Rightarrow> Some (Some err, h', w')
      | (None, h', w') \<Rightarrow>
          if verifyLiveness e h' w' = None then Some (None, h', w') else renew_liveness_loop e h' w')"

definition ensureValidLiveness ::
  "'w lease_env \<Rightarrow> bool \<Rightarrow> Liveness \<Rightarrow> 'w \<Rightarrow> ((error + NodeLivenessRecord option) \<times> Liveness \<times> 'w) option" where
  "ensureValidLiveness e forceRenewal h w =
     (let alreadyValid = (verifyLiveness e h w = None) in
      if alreadyValid \<and> \<not> forceRenewal then Some (Inr (lvRecord h), h, w)
      else
        case renew_liveness_loop e h w of
          None \<Rightarrow> None
        | Some (Some err, h', w') \<Rightarrow> Some (Inl err, h', w')
        | Some (None, h', w') \<Rightarrow> Some (Inr (lvRecord h'), h'\<lparr>lvStopped := False\<rparr>, w'))"

definition Liveness_Valid :: "'w lease_env \<Rightarrow> Liveness \<Rightarrow> 'w \<Rightarrow> bool" where
  "Liveness_Valid e h w \<longleftrightarrow> verifyLiveness e h w = None"

definition Liveness_Lease :: "'w lease_env \<Rightarrow> Liveness \<Rightarrow> 'w \<Rightarrow> (error option \<times> Liveness \<times> 'w) option" where
  "Liveness_Lease e h w =
     map_option (\<lambda>(r, h', w'). (case r of Inl err \<Rightarrow> Some err | Inr _ \<Rightarrow> None, h', w')) (ensureValidLiveness e False h w)"

definition Liveness_Release :: "'w lease_env \<Rightarrow> Liveness \<Rightarrow> 'w \<Rightarrow> error option \<times> Liveness \<times> 'w" where
  "Liveness_Release e h w =
     (let h1 = h\<lparr>lvStopped := True\<rparr> in
      if verifyLiveness e h1 w \<noteq> None then (None, h1, w) else clearLiveness e h1 w)"

definition BlockingGetCurrentNodeLiveness ::
  "'w lease_env \<Rightarrow> Liveness \<Rightarrow> 'w \<Rightarrow> ((error + u64 \<times> bytes) \<times> Liveness \<times> 'w) option" where
  "BlockingGetCurrentNodeLiveness e h w =
     map_option (\<lambda>(r, h', w'). (case r of Inl err \<Rightarrow> Inl err | Inr l \<Rightarrow> Inr (GetEpoch l, lvNodeID h'), h', w'))
       (ensureValidLiveness e False h w)"

definition BlockingValidateNodeLiveness ::
  "'w lease_env \<Rightarrow> u64 \<Rightarrow> bytes \<Rightarrow> Liveness \<Rightarrow> 'w \<Rightarrow> (error option \<times> Liveness \<times> 'w) option" where
  "BlockingValidateNodeLiveness e epoch nodeID h w =
     (if bytes_Compare nodeID (lvNodeID h) \<noteq> 0 then Some (Some (FailedPreconditionError ''Invalid rangeLease: nodeID mismatch''), h, w)
      else
        map_option (\<lambda>(r, h', w').
            (case r of
               Inl err \<Rightarrow> Some err
             | Inr l \<Rightarrow> if GetEpoch l \<noteq> epoch then Some (FailedPreconditionError ''Invalid rangeLease: epoch is no longer valid'') else None,
             h', w'))
          (ensureValidLiveness e False h w))"

subsection \<open>Range leases\<close>

record Lease =
  rlDuration :: int
  rlGrace :: int
  rlDescriptor :: RangeDescriptor
  rlRecord :: "RangeLeaseRecord option"
  rlRenewal :: int
  rlStopped :: bool

definition Lease_New :: "RangeDescriptor \<Rightarrow> Lease" where
  "Lease_New rd = \<lparr>rlDuration = defaultLeaseDuration, rlGrace = defaultGracePeriod, rlDescriptor = rd, rlRecord = Some LeaseNone,
     rlRenewal = 2 ^ 63 - 1, rlStopped = True\<rparr>"

definition Lease_WithTimeouts :: "int \<Rightarrow> int \<Rightarrow> Lease \<Rightarrow> Lease" where
  "Lease_WithTimeouts leaseDuration gracePeriod l = l\<lparr>rlDuration := leaseDuration, rlGrace := gracePeriod\<rparr>"

fun record_expiration :: "RangeLeaseRecord option \<Rightarrow> int" where
  "record_expiration (Some (LeaseExpiration t)) = t"
| "record_expiration _ = 0"

definition verifyLease ::
  "'w lease_env \<Rightarrow> RangeLeaseRecord option \<Rightarrow> Liveness \<Rightarrow> 'w \<Rightarrow> (error option \<times> Liveness \<times> 'w) option" where
  "verifyLease e rl h w =
     (case rl of
        None \<Rightarrow> Some (Some (FailedPreconditionError ''Invalid rangeLease: nil''), h, w)
      | Some (LeaseLiveness epoch nodeID) \<Rightarrow> BlockingValidateNodeLiveness e epoch nodeID h w
      | _ \<Rightarrow>
          if le_Now e w > record_expiration rl then Some (Some (FailedPreconditionError ''Invalid rangeLease: expired''), h, w)
          else Some (None, h, w))"

definition clearLease :: "'w lease_env \<Rightarrow> Lease \<Rightarrow> 'w \<Rightarrow> error option \<times> Lease \<times> 'w" where
  "clearLease e l w =
     (case marshal_opt (c_Marshal (le_rl e)) (rlRecord l) of
        Inl err \<Rightarrow> (Some err, l, w)
      | Inr expectedValue \<Rightarrow>
          (case sendCasRequest e (rdLeft (rlDescriptor l)) LocalRangeLeaseKey expectedValue [] w of
             ((_, None), w') \<Rightarrow> (None, l\<lparr>rlRecord := None\<rparr>, w')
           | ((_, Some err), w') \<Rightarrow> (Some err, l, w')))"

definition assembleLeaseRequest ::
  "'w lease_env \<Rightarrow> Lease \<Rightarrow> Liveness \<Rightarrow> 'w \<Rightarrow> ((error + RangeLeaseRecord) \<times> Liveness \<times> 'w) option" where
  "assembleLeaseRequest e l h w =
     (if ContainsMetaRange (rlDescriptor l) then Some (Inr (LeaseExpiration (le_Now e w + rlDuration l)), h, w)
      else
        map_option (\<lambda>(r, h', w'). (case r of Inl err \<Rightarrow> Inl err | Inr (epoch, node) \<Rightarrow> Inr (LeaseLiveness epoch node), h', w'))
          (BlockingGetCurrentNodeLiveness e h w))"

text \<open>The renewal time is set at the end of \<open>renewLease\<close>, from the record as it is then.\<close>

definition set_renewal :: "'w lease_env \<Rightarrow> Lease \<Rightarrow> 'w \<Rightarrow> Lease" where
  "set_renewal e l w =
     (if record_expiration (rlRecord l) \<noteq> 0
      then l\<lparr>rlRenewal := record_expiration (rlRecord l) - le_Now e w - rlGrace l\<rparr> else l)"

text \<open>Decoding the other holder's record into a nil one panics.\<close>

definition renewLease ::
  "'w lease_env \<Rightarrow> Lease \<Rightarrow> Liveness \<Rightarrow> 'w \<Rightarrow> (error option \<times> Lease \<times> Liveness \<times> 'w) option" where
  "renewLease e l h w =
     (case marshal_opt (c_Marshal (le_rl e)) (rlRecord l) of
        Inl err \<Rightarrow> Some (Some err, l, h, w)
      | Inr expectedValue \<Rightarrow>
          (case assembleLeaseRequest e l h w of
             None \<Rightarrow> None
           | Some (Inl err, h1, w1) \<Rightarrow> Some (Some err, l, h1, w1)
           | Some (Inr leaseRequest, h1, w1) \<Rightarrow>
               (case c_Marshal (le_rl e) leaseRequest of
                  Inl err \<Rightarrow> Some (Some err, l, h1, w1)
                | Inr newVal \<Rightarrow>
                    if bytes_Compare newVal expectedValue = 0 then Some (None, l, h1, w1)
                    else
                      (case sendCasRequest e (rdLeft (rlDescriptor l)) LocalRangeLeaseKey expectedValue newVal w1 of
                         ((_, None), w2) \<Rightarrow> Some (None, set_renewal e (l\<lparr>rlRecord := Some leaseRequest\<rparr>) w2, h1, w2)
                       | ((kv, Some err), w2) \<Rightarrow>
                           if is_cas_conflict err then
                             (if rlRecord l = None then None
                              else
                                case c_Unmarshal (le_rl e) (case kv of None \<Rightarrow> [] | Some kv \<Rightarrow> kvValue kv) of
                                  Inl err' \<Rightarrow> Some (Some err', l\<lparr>rlRecord := Some LeaseNone\<rparr>, h1, w2)
                                | Inr r \<Rightarrow> Some (None, set_renewal e (l\<lparr>rlRecord := Some r\<rparr>) w2, h1, w2))
                           else Some (Some err, l, h1, w2)))))"

partial_function (option) renew_loop ::
  "'w lease_env \<Rightarrow> Lease \<Rightarrow> Liveness \<Rightarrow> 'w \<Rightarrow> (error option \<times> Lease \<times> Liveness \<times> 'w) option" where
  "renew_loop e l h w =
     (case renewLease e l h w of
        None \<Rightarrow> None
      | Some (Some err, l', h', w') \<Rightarrow> Some (Some err, l', h', w')
      | Some (None, l', h', w') \<Rightarrow>
          (case verifyLease e (rlRecord l') h' w' of
             None \<Rightarrow> None
           | Some (err, h'', w'') \<Rightarrow> if err = None then Some (None, l', h'', w'') else renew_loop e l' h'' w''))"

definition ensureValidLease ::
  "'w lease_env \<Rightarrow> bool \<Rightarrow> Lease \<Rightarrow> Liveness \<Rightarrow> 'w \<Rightarrow> ((error + RangeLeaseRecord option) \<times> Lease \<times> Liveness \<times> 'w) option" where
  "ensureValidLease e forceRenewal l h w =
     (case verifyLease e (rlRecord l) h w of
        None \<Rightarrow> None
      | Some (err, h1, w1) \<Rightarrow>
          if err = None \<and> \<not> forceRenewal then Some (Inr (rlRecord l), l, h1, w1)
          else
            (case renew_loop e l h1 w1 of
               None \<Rightarrow> None
             | Some (Some err, l', h', w') \<Rightarrow> Some (Inl err, l', h', w')
             | Some (None, l', h', w') \<Rightarrow> Some (Inr (rlRecord l'), l'\<lparr>rlStopped := False\<rparr>, h', w')))"

definition Lease_Lease :: "'w lease_env \<Rightarrow> Lease \<Rightarrow> Liveness \<Rightarrow> 'w \<Rightarrow> (error option \<times> Lease \<times> Liveness \<times> 'w) option" where
  "Lease_Lease e l h w =
     map_option (\<lambda>(r, s). (case r of Inl err \<Rightarrow> Some err | Inr _ \<Rightarrow> None, s)) (ensureValidLease e False l h w)"

definition Lease_Valid :: "'w lease_env \<Rightarrow> Lease \<Rightarrow> Liveness \<Rightarrow> 'w \<Rightarrow> (bool \<times> Liveness \<times> 'w) option" where
  "Lease_Valid e l h w = map_option (\<lambda>(err, s). (err = None, s)) (verifyLease e (rlRecord l) h w)"

definition Lease_Release ::
  "'w lease_env \<Rightarrow> Lease \<Rightarrow> Liveness \<Rightarrow> 'w \<Rightarrow> (error option \<times> Lease \<times> Liveness \<times> 'w) option" where
  "Lease_Release e l h w =
     (let l1 = l\<lparr>rlStopped := True\<rparr> in
      case verifyLease e (rlRecord l1) h w of
        None \<Rightarrow> None
      | Some (Some _, h1, w1) \<Rightarrow> Some (None, l1, h1, w1)
      | Some (None, h1, w1) \<Rightarrow>
          (case verifyLease e (rlRecord l1) h1 w1 of
             None \<Rightarrow> None
           | Some (Some _, h2, w2) \<Rightarrow> Some (None, l1, h2, w2)
           | Some (None, h2, w2) \<Rightarrow> (case clearLease e l1 w2 of (err, l2, w3) \<Rightarrow> Some (err, l2, h2, w3))))"

section \<open>The register under a lease\<close>

text \<open>
  What the leases rely on: the route \<open>rk\<close> reaches a register, the value \<open>reg w\<close> of the key \<open>k\<close>, on which compare-and-swap is
  exact. A lost or refused request is another error and is not covered.
\<close>

locale cas_register =
  fixes propose :: "bytes \<Rightarrow> RequestUnion list \<Rightarrow> 'w \<Rightarrow> (error + ResponseUnion list) \<times> 'w"
    and rk k :: bytes and reg :: "'w \<Rightarrow> bytes"
  assumes swap: "reg w = ex \<Longrightarrow> \<exists>w'. propose rk [ReqCas (Some \<lparr>kvKey = k, kvValue = v\<rparr>) ex] w =
        (Inr [\<lparr>rspStatus = None, rspValue = RspCas (Some \<lparr>kvKey = k, kvValue = v\<rparr>)\<rparr>], w') \<and> reg w' = v"
    and conflict: "reg w \<noteq> ex \<Longrightarrow> \<exists>w'. propose rk [ReqCas (Some \<lparr>kvKey = k, kvValue = v\<rparr>) ex] w =
        (Inr [\<lparr>rspStatus = Some (FailedPreconditionError CASErrorMessage), rspValue = RspCas (Some \<lparr>kvKey = k, kvValue = reg w\<rparr>)\<rparr>], w')
        \<and> reg w' = reg w"
begin

lemma send_swap:
  assumes "le_SyncPropose e = propose" and "reg w = ex"
  shows "\<exists>w'. sendCasRequest e rk k ex v w = ((Some \<lparr>kvKey = k, kvValue = v\<rparr>, None), w') \<and> reg w' = v"
  using swap [OF assms(2), of v] assms(1)
  by (auto simp: sendCasRequest_def bb_ToProto_def bb_Add_def NewBatchBuilder_def CASResponse_def br_get_ok)

lemma send_conflict:
  assumes "le_SyncPropose e = propose" and "reg w \<noteq> ex"
  shows "\<exists>w'. sendCasRequest e rk k ex v w =
    ((Some \<lparr>kvKey = k, kvValue = reg w\<rparr>, Some (FailedPreconditionError CASErrorMessage)), w') \<and> reg w' = reg w"
  using conflict [OF assms(2), of v] assms(1)
  by (auto simp: sendCasRequest_def bb_ToProto_def bb_Add_def NewBatchBuilder_def CASResponse_def br_get_ok)

end

lemma cas_conflict_test [simp]: "is_cas_conflict (FailedPreconditionError CASErrorMessage)"
  by (simp add: is_cas_conflict_def error_tests FailedPreconditionError_def makeStatusError_def contains_def CASErrorMessage_def)

text \<open>The replica provides it: compare-and-swap commands on a local key or one in its range, one after the other in a batch.\<close>

definition replica_propose :: "mem_op list \<Rightarrow> mem_op list store_node \<Rightarrow> bytes \<Rightarrow> RequestUnion list \<Rightarrow> mem_op list
    \<Rightarrow> (error + ResponseUnion list) \<times> mem_op list" where
  "replica_propose db n rk reqs wb =
     (case propose_all (mem_env []) 0 db wb reqs n of
        None \<Rightarrow> (Inl (UnavailableError ''''), wb)
      | Some (rsps, wb', _) \<Rightarrow> (Inr rsps, wb'))"

definition replica_reg :: "mem_op list \<Rightarrow> bytes \<Rightarrow> mem_op list \<Rightarrow> bytes" where
  "replica_reg db k wb = value_of (mem_contents (db @ wb) k)"

lemma lease_key_local [simp]: "IsLocalKey LocalRangeLeaseKey" "LocalRangeLeaseKey \<noteq> LocalRangeKey"
  by (simp_all add: IsLocalKey_iff LocalRangeLeaseKey_def LocalRangeKey_def MakeKey_def key_defs)

lemma replica_cas_register:
  assumes k: "k \<noteq> LocalRangeKey" "IsLocalKey k \<or> in_range (nReps n 0) k"
  shows "cas_register (replica_propose db n) rk k (replica_reg db k)"
proof
  fix wb ex v
  have look: "lookup (pb_bGet (en_pebble (mem_env [])) db wb) k =
      (let cur = value_of (mem_contents (db @ wb) k) in
       if cur = [] then Inl (NotFoundError (if mem_contents (db @ wb) k = None then ''Key not found: pebble: not found'' else ''Key not found (empty)''))
       else Inr cur)"
    by (simp add: lookup_value Let_def)
  have set_it: "rangeCheckedSet (mem_env []) 0 wb k v n = (None, wb @ [MemSet k v], n)"
    using k by (auto simp: rangeCheckedSet_def)
  show "\<exists>wb'. replica_propose db n rk [ReqCas (Some \<lparr>kvKey = k, kvValue = v\<rparr>) ex] wb =
      (Inr [\<lparr>rspStatus = None, rspValue = RspCas (Some \<lparr>kvKey = k, kvValue = v\<rparr>)\<rparr>], wb') \<and> replica_reg db k wb' = v"
    if "replica_reg db k wb = ex"
    using that look set_it
    by (auto simp: replica_reg_def replica_propose_def handlePropose_def cas_def Let_def value_of_def mem_contents_append mem_effect_def error_tests split: if_splits)
  show "\<exists>wb'. replica_propose db n rk [ReqCas (Some \<lparr>kvKey = k, kvValue = v\<rparr>) ex] wb =
      (Inr [\<lparr>rspStatus = Some (FailedPreconditionError CASErrorMessage),
             rspValue = RspCas (Some \<lparr>kvKey = k, kvValue = replica_reg db k wb\<rparr>)\<rparr>], wb') \<and> replica_reg db k wb' = replica_reg db k wb"
    if "replica_reg db k wb \<noteq> ex"
    using that look
    by (auto simp: replica_reg_def replica_propose_def handlePropose_def cas_def Let_def error_tests split: if_splits)
qed

interpretation lease_register: cas_register "replica_propose db n" rk LocalRangeLeaseKey "replica_reg db LocalRangeLeaseKey"
  by (rule replica_cas_register) simp_all

section \<open>Properties\<close>

definition marshals :: "'a codec \<Rightarrow> bool" where
  "marshals c \<longleftrightarrow> (\<forall>x. \<exists>b. c_Marshal c x = Inr b)"

text \<open>C5: A lease by time has no owner: while one node's lease is still running, another node that asks for the lease of the same
  range loses the compare-and-swap, takes the first one's record for its own, and finds it valid; both then
  hold a valid lease.\<close>

theorem time_lease_is_shared:
  assumes "cas_register (le_SyncPropose e) (rdLeft rd) LocalRangeLeaseKey reg"
    and "codec_ok (le_rl e)" and "marshals (le_rl e)" and "c_Marshal (le_rl e) LeaseNone = Inr []"
    and "ContainsMetaRange rd" and "\<forall>w. 0 < le_Now e w \<and> le_Now e w \<le> t" and "c_Marshal (le_rl e) (LeaseExpiration t) = Inr (reg w)"
    and "rlRecord la = Some (LeaseExpiration t)"
  shows "\<exists>lb w'. ensureValidLease e False (Lease_New rd) hb w = Some (Inr (Some (LeaseExpiration t)), lb, hb, w')
    \<and> reg w' = reg w \<and> Lease_Valid e lb hb w' = Some (True, hb, w') \<and> Lease_Valid e la ha w' = Some (True, ha, w')"
proof -
  let ?l = "Lease_New rd" and ?r = "LeaseExpiration (le_Now e w + rlDuration (Lease_New rd))"
  have un: "c_Unmarshal (le_rl e) (reg w) = Inr (LeaseExpiration t)" using codec_okD [OF assms(2,7)] .
  have un0: "c_Unmarshal (le_rl e) [] = Inr LeaseNone" using codec_okD [OF assms(2,4)] .
  have ne: "reg w \<noteq> []" using un un0 by (metis RangeLeaseRecord.distinct(3) old.sum.inject(2))
  obtain nv where nv: "c_Marshal (le_rl e) ?r = Inr nv" using assms(3) by (auto simp: marshals_def)
  have "nv \<noteq> []" using codec_okD [OF assms(2) nv] un0 by (metis RangeLeaseRecord.distinct(3) old.sum.inject(2))
  obtain w' where w': "sendCasRequest e (rdLeft rd) LocalRangeLeaseKey [] nv w =
      ((Some \<lparr>kvKey = LocalRangeLeaseKey, kvValue = reg w\<rparr>, Some (FailedPreconditionError CASErrorMessage)), w')" "reg w' = reg w"
    using cas_register.send_conflict [OF assms(1) refl ne, of nv] by blast
  let ?lb = "set_renewal e (?l\<lparr>rlRecord := Some (LeaseExpiration t)\<rparr>) w'"
  have rn: "renewLease e ?l hb w = Some (None, ?lb, hb, w')"
    using assms(4,5) nv \<open>nv \<noteq> []\<close> w' un
    by (simp add: renewLease_def marshal_opt_def Lease_New_def assembleLeaseRequest_def)
  have ok: "verifyLease e (Some (LeaseExpiration t)) h v = Some (None, h, v)" for h v
    using assms(6) by (simp add: verifyLease_def not_less)
  have rec: "rlRecord ?lb = Some (LeaseExpiration t)" by (simp add: set_renewal_def)
  have "renew_loop e ?l hb w = Some (None, ?lb, hb, w')"
    by (subst renew_loop.simps) (simp add: rn rec ok)
  moreover have "verifyLease e (rlRecord ?l) hb w \<noteq> None \<and> fst (the (verifyLease e (rlRecord ?l) hb w)) \<noteq> None
      \<and> snd (the (verifyLease e (rlRecord ?l) hb w)) = (hb, w)"
    using assms(6) by (simp add: verifyLease_def Lease_New_def)
  ultimately have "ensureValidLease e False ?l hb w = Some (Inr (Some (LeaseExpiration t)), ?lb\<lparr>rlStopped := False\<rparr>, hb, w')"
    using rec by (auto simp: ensureValidLease_def)
  then show ?thesis
    using w'(2) ok rec assms(8) by (auto simp: Lease_Valid_def)
qed

text \<open>C6: A lease by node epoch does not exclude another node either: one that asks for it first adopts the holder's record, which it
  finds invalid because the holder is another node, and then swaps its own record in, without asking whether
  the holder is alive; the holder's own check does not look at the register and still succeeds.\<close>

theorem epoch_lease_is_stolen:
  assumes "cas_register (le_SyncPropose e) (rdLeft rd) LocalRangeLeaseKey reg"
    and "codec_ok (le_rl e)" and "marshals (le_rl e)" and "c_Marshal (le_rl e) LeaseNone = Inr []"
    and "\<not> ContainsMetaRange rd" and "\<forall>w. 0 < le_Now e w"
    and "\<forall>w. verifyLiveness e ha w = None" and "\<forall>w. verifyLiveness e hb w = None" and "lvNodeID ha \<noteq> lvNodeID hb"
    and "c_Marshal (le_rl e) (LeaseLiveness (GetEpoch (lvRecord ha)) (lvNodeID ha)) = Inr (reg w)"
    and "rlRecord la = Some (LeaseLiveness (GetEpoch (lvRecord ha)) (lvNodeID ha))"
  shows "\<exists>lb w'. ensureValidLease e False (Lease_New rd) hb w = Some (Inr (rlRecord lb), lb, hb, w')
    \<and> c_Marshal (le_rl e) (the (rlRecord lb)) = Inr (reg w') \<and> reg w' \<noteq> reg w
    \<and> Lease_Valid e lb hb w' = Some (True, hb, w') \<and> Lease_Valid e la ha w' = Some (True, ha, w')"
proof -
  let ?l = "Lease_New rd"
  let ?ra = "LeaseLiveness (GetEpoch (lvRecord ha)) (lvNodeID ha)" and ?rb = "LeaseLiveness (GetEpoch (lvRecord hb)) (lvNodeID hb)"
  have un: "c_Unmarshal (le_rl e) (reg w) = Inr ?ra" using codec_okD [OF assms(2,10)] .
  have un0: "c_Unmarshal (le_rl e) [] = Inr LeaseNone" using codec_okD [OF assms(2,4)] .
  have ne: "reg w \<noteq> []" using un un0 by (metis RangeLeaseRecord.distinct(1) old.sum.inject(2))
  obtain nv where nv: "c_Marshal (le_rl e) ?rb = Inr nv" using assms(3) by (auto simp: marshals_def)
  have nvne: "nv \<noteq> []" "nv \<noteq> reg w"
    using codec_okD [OF assms(2) nv] un un0 assms(9)
    by (metis RangeLeaseRecord.distinct(1) old.sum.inject(2), metis RangeLeaseRecord.inject(1) old.sum.inject(2))
  have get: "BlockingGetCurrentNodeLiveness e hb v = Some (Inr (GetEpoch (lvRecord hb), lvNodeID hb), hb, v)" for v
    using assms(8) by (simp add: BlockingGetCurrentNodeLiveness_def ensureValidLiveness_def)
  then have req: "assembleLeaseRequest e x hb v = Some (Inr ?rb, hb, v)" if "rlDescriptor x = rd" for x v
    using assms(5) that by (simp add: assembleLeaseRequest_def)
  obtain w1 where w1: "sendCasRequest e (rdLeft rd) LocalRangeLeaseKey [] nv w =
      ((Some \<lparr>kvKey = LocalRangeLeaseKey, kvValue = reg w\<rparr>, Some (FailedPreconditionError CASErrorMessage)), w1)" "reg w1 = reg w"
    using cas_register.send_conflict [OF assms(1) refl ne, of nv] by blast
  let ?l1 = "?l\<lparr>rlRecord := Some ?ra\<rparr>"
  have rn1: "renewLease e ?l hb w = Some (None, ?l1, hb, w1)"
    using assms(4) nv nvne(1) w1 un req [of ?l]
    by (simp add: renewLease_def marshal_opt_def set_renewal_def) (simp add: Lease_New_def marshal_opt_def set_renewal_def)
  obtain w2 where w2: "sendCasRequest e (rdLeft rd) LocalRangeLeaseKey (reg w1) nv w1 =
      ((Some \<lparr>kvKey = LocalRangeLeaseKey, kvValue = nv\<rparr>, None), w2)" "reg w2 = nv"
    using cas_register.send_swap [OF assms(1) refl, of w1 "reg w1" nv] by blast
  let ?l2 = "?l1\<lparr>rlRecord := Some ?rb\<rparr>"
  have rn2: "renewLease e ?l1 hb w1 = Some (None, ?l2, hb, w2)"
    using assms(10) nv nvne(2) w1(2) w2 req [of ?l1]
    by (simp add: renewLease_def marshal_opt_def set_renewal_def Lease_New_def)
  have bad: "verifyLease e (Some ?ra) hb v = Some (Some (FailedPreconditionError ''Invalid rangeLease: nodeID mismatch''), hb, v)" for v
    using assms(9) by (simp add: verifyLease_def BlockingValidateNodeLiveness_def)
  have okb: "verifyLease e (Some ?rb) hb v = Some (None, hb, v)" for v
    using assms(8) by (simp add: verifyLease_def BlockingValidateNodeLiveness_def ensureValidLiveness_def)
  have oka: "verifyLease e (Some ?ra) ha v = Some (None, ha, v)" for v
    using assms(7) by (simp add: verifyLease_def BlockingValidateNodeLiveness_def ensureValidLiveness_def)
  have "renew_loop e ?l1 hb w1 = Some (None, ?l2, hb, w2)"
    by (subst renew_loop.simps) (simp add: rn2 okb)
  then have loop: "renew_loop e ?l hb w = Some (None, ?l2, hb, w2)"
    by (subst renew_loop.simps) (simp add: rn1 bad)
  have start: "verifyLease e (rlRecord ?l) hb w = Some (Some (FailedPreconditionError ''Invalid rangeLease: expired''), hb, w)"
    using assms(6) by (simp add: verifyLease_def Lease_New_def)
  have "ensureValidLease e False ?l hb w = Some (Inr (Some ?rb), ?l2\<lparr>rlStopped := False\<rparr>, hb, w2)"
    by (simp add: ensureValidLease_def start loop)
  then show ?thesis
    using w2(2) nv nvne(2) okb oka assms(11) by (intro exI [of _ "?l2\<lparr>rlStopped := False\<rparr>"] exI [of _ w2]) (simp add: Lease_Valid_def)
qed

text \<open>The loop cut off after \<open>k\<close> rounds, each of which proposes once: \<open>None\<close> when it has not ended by then.\<close>

fun renew_rounds :: "nat \<Rightarrow> 'w lease_env \<Rightarrow> Liveness \<Rightarrow> 'w \<Rightarrow> (error option \<times> Liveness \<times> 'w) option" where
  "renew_rounds 0 e h w = None"
| "renew_rounds (Suc k) e h w =
     (case renewLiveness e h w of
        (Some err, h', w') \<Rightarrow> Some (Some err, h', w')
      | (None, h', w') \<Rightarrow> if verifyLiveness e h' w' = None then Some (None, h', w') else renew_rounds k e h' w')"

lemma renew_rounds_loop: "renew_rounds k e h w = Some x \<Longrightarrow> renew_liveness_loop e h w = Some x"
proof (induction k arbitrary: h w)
  case (Suc k)
  then show ?case
    by (cases "renewLiveness e h w") (subst renew_liveness_loop.simps, auto split: option.splits if_splits)
qed simp

text \<open>C20: While nobody else writes a node's liveness key, the loop that asks for the node's record ends within two rounds, and within one if
  the node knew the stored value: with the record it asks for in the first round, or, after having read the stored one, with one whose epoch
  is what witnessing the stored epoch gives, so that every older record is recognised as such. The record is the stored one, and valid.\<close>

theorem liveness_is_acquired:
  assumes "cas_register (le_SyncPropose e) (leaseKeyOf h) (leaseKeyOf h) reg"
    and "codec_ok (le_nl e)" and "marshals (le_nl e)" and "\<forall>c v. le_Witness e c v \<noteq> v"
    and "\<forall>v. t0 \<le> le_Now e v \<and> le_Now e v \<le> t0 + lvDuration h"
    and "marshal_opt (c_Marshal (le_nl e)) (lvRecord h) = Inr known" and "c_Marshal (le_nl e) stored = Inr (reg w)"
    and "verifyLiveness e h w \<noteq> None \<or> force"
  shows "\<exists>r h1 h' w'. renew_rounds (if reg w = known then 1 else 2) e h w = Some (None, h1, w') \<and> h' = h1\<lparr>lvStopped := False\<rparr>
    \<and> ensureValidLiveness e force h w = Some (Inr (Some r), h', w') \<and> lvRecord h' = Some r
    \<and> c_Marshal (le_nl e) r = Inr (reg w') \<and> Liveness_Valid e h' w' \<and> lvStopped h' = False
    \<and> nlEpoch r = (if reg w = known then lvClock h else le_Witness e (lvClock h) (nlEpoch stored))"
proof -
  let ?r = "\<lambda>(g :: Liveness) v. \<lparr>nlEpoch = lvClock g, nlExpiration = le_Now e v + lvDuration g\<rparr>"
  have loop: "\<exists>w'. renew_rounds 1 e g v = Some (None, g\<lparr>lvRecord := Some (?r g v), lvRenewal := nlExpiration (?r g v) - le_Now e w' - lvGrace g\<rparr>, w')
      \<and> c_Marshal (le_nl e) (?r g v) = Inr (reg w')"
    if g: "leaseKeyOf g = leaseKeyOf h" "lvDuration g = lvDuration h"
      and m: "marshal_opt (c_Marshal (le_nl e)) (lvRecord g) = Inr (reg v)" for g v
  proof -
    obtain nv where nv: "c_Marshal (le_nl e) (?r g v) = Inr nv" using assms(3) by (auto simp: marshals_def)
    obtain w' where w': "sendCasRequest e (leaseKeyOf h) (leaseKeyOf h) (reg v) nv v = ((Some \<lparr>kvKey = leaseKeyOf h, kvValue = nv\<rparr>, None), w')"
        "reg w' = nv"
      using cas_register.send_swap [OF assms(1) refl, of v "reg v" nv] by blast
    have "le_Now e w' \<le> le_Now e v + lvDuration h" using assms(5) by (smt (verit))
    then show ?thesis
      using m nv w' g
      by (auto simp: One_nat_def renewLiveness_def Let_def verifyLiveness_def GetEpoch_def GetExpiration_def)
  qed
  show ?thesis
  proof (cases "reg w = known")
    case True
    obtain w' where k: "renew_rounds 1 e h w = Some (None, h\<lparr>lvRecord := Some (?r h w), lvRenewal := nlExpiration (?r h w) - le_Now e w' - lvGrace h\<rparr>, w')"
        "c_Marshal (le_nl e) (?r h w) = Inr (reg w')"
      using loop [of h w] assms(6) True by auto
    note k renew_rounds_loop [OF k(1)]
    moreover have "le_Now e w' \<le> le_Now e w + lvDuration h" using assms(5) by (smt (verit))
    ultimately show ?thesis
      using assms(8) True
      by (auto simp: ensureValidLiveness_def Liveness_Valid_def verifyLiveness_def GetEpoch_def GetExpiration_def Let_def)
  next
    case False
    obtain nv where nv: "c_Marshal (le_nl e) (?r h w) = Inr nv" using assms(3) by (auto simp: marshals_def)
    obtain w1 where w1: "sendCasRequest e (leaseKeyOf h) (leaseKeyOf h) known nv w =
        ((Some \<lparr>kvKey = leaseKeyOf h, kvValue = reg w\<rparr>, Some (FailedPreconditionError CASErrorMessage)), w1)" "reg w1 = reg w"
      using cas_register.send_conflict [OF assms(1) refl False, of nv] by blast
    let ?h1 = "h\<lparr>lvRecord := Some stored, lvClock := le_Witness e (lvClock h) (nlEpoch stored)\<rparr>"
    have rn: "renewLiveness e h w = (None, ?h1, w1)"
      using assms(6) nv w1(1) codec_okD [OF assms(2,7)] by (simp add: renewLiveness_def Let_def)
    have "nlEpoch stored \<noteq> le_Witness e (lvClock h) (nlEpoch stored)" using assms(4) by metis
    then have bad: "verifyLiveness e ?h1 w1 \<noteq> None" by (simp add: verifyLiveness_def GetEpoch_def)
    obtain w2 where k: "renew_rounds 1 e ?h1 w1 =
          Some (None, ?h1\<lparr>lvRecord := Some (?r ?h1 w1), lvRenewal := nlExpiration (?r ?h1 w1) - le_Now e w2 - lvGrace ?h1\<rparr>, w2)"
        "c_Marshal (le_nl e) (?r ?h1 w1) = Inr (reg w2)"
      using loop [of ?h1 w1] assms(7) w1(2) by (auto simp: leaseKeyOf_def marshal_opt_def)
    have k2: "renew_rounds 2 e h w = renew_rounds 1 e ?h1 w1"
      using bad by (auto simp: numeral_2_eq_2 One_nat_def rn)
    note k k2 renew_rounds_loop [OF k2 [unfolded k(1)]]
    moreover have "le_Now e w2 \<le> le_Now e w1 + lvDuration h" using assms(5) by (smt (verit))
    ultimately show ?thesis
      using assms(8) False
      by (auto simp: ensureValidLiveness_def Liveness_Valid_def verifyLiveness_def GetEpoch_def GetExpiration_def Let_def)
  qed
qed

section \<open>Examples\<close>

definition enc_int :: "int \<Rightarrow> bytes" where
  "enc_int t = (if t < 0 then 1 else 0) # enc_nat (nat (abs t))"

definition dec_int :: "bytes \<Rightarrow> int" where
  "dec_int b = (let n = int (fst (dec_nat (tl b))) in if hd b = 1 then - n else n)"

lemma dec_enc_int [simp]: "dec_int (enc_int t) = t"
  using dec_enc_nat [of "nat (abs t)" "[]"] by (simp add: dec_int_def enc_int_def)

definition ex_rl_codec :: "RangeLeaseRecord codec" where
  "ex_rl_codec =
     \<lparr>c_Marshal = \<lambda>r. Inr (case r of LeaseNone \<Rightarrow> [] | LeaseExpiration t \<Rightarrow> 1 # enc_int t | LeaseLiveness ep nid \<Rightarrow> 2 # enc_nat (unat ep) @ nid),
      c_Unmarshal = \<lambda>b. Inr (if b = [] then LeaseNone else if hd b = 1 then LeaseExpiration (dec_int (tl b))
                        else let (n, nid) = dec_nat (tl b) in LeaseLiveness (of_nat n) nid)\<rparr>"

definition ex_nl_codec :: "NodeLivenessRecord codec" where
  "ex_nl_codec =
     \<lparr>c_Marshal = \<lambda>r. Inr (enc_nat (unat (nlEpoch r)) @ enc_int (nlExpiration r)),
      c_Unmarshal = \<lambda>b. Inr (let (n, c) = dec_nat b in \<lparr>nlEpoch = of_nat n, nlExpiration = dec_int c\<rparr>)\<rparr>"

lemma ex_lease_codecs: "codec_ok ex_rl_codec" "marshals ex_rl_codec" "c_Marshal ex_rl_codec LeaseNone = Inr []"
  "codec_ok ex_nl_codec" "marshals ex_nl_codec"
  by (auto simp: codec_ok_def ex_rl_codec_def ex_nl_codec_def marshals_def split: RangeLeaseRecord.split)

text \<open>A constant clock, and the meta-range's replica.\<close>

definition ex_lease_env :: "mem_op list \<Rightarrow> mem_op list lease_env" where
  "ex_lease_env db = \<lparr>le_SyncPropose = replica_propose db (split_node meta_rd db), le_Now = \<lambda>w. 5,
     le_Witness = \<lambda>c v. if v < c then c else v + 1, le_nl = ex_nl_codec, le_rl = ex_rl_codec\<rparr>"

lemma ex_lease_env_simps [simp]:
  "le_SyncPropose (ex_lease_env db) = replica_propose db (split_node meta_rd db)" "le_Now (ex_lease_env db) w = 5"
  "le_nl (ex_lease_env db) = ex_nl_codec" "le_rl (ex_lease_env db) = ex_rl_codec"
  by (simp_all add: ex_lease_env_def)

lemma ex_register: "cas_register (le_SyncPropose (ex_lease_env db)) rk LocalRangeLeaseKey (replica_reg db LocalRangeLeaseKey)"
  by (simp add: lease_register.cas_register_axioms)

definition ex_liveness :: "byte \<Rightarrow> Liveness" where
  "ex_liveness nid = (Liveness_New [nid])\<lparr>lvRecord := Some \<lparr>nlEpoch = 0, nlExpiration = 9\<rparr>\<rparr>"

lemma ex_liveness_valid: "verifyLiveness (ex_lease_env db) (ex_liveness nid) w = None"
  by (simp add: ex_liveness_def Liveness_New_def verifyLiveness_def GetEpoch_def GetExpiration_def)

lemma time_lease_is_shared_witness:
  "\<exists>lb w'. ensureValidLease (ex_lease_env [MemSet LocalRangeLeaseKey (1 # enc_int 9)]) False (Lease_New meta_rd) (ex_liveness 66) []
      = Some (Inr (Some (LeaseExpiration 9)), lb, ex_liveness 66, w')"
proof -
  let ?db = "[MemSet LocalRangeLeaseKey (1 # enc_int 9)]"
  have m: "c_Marshal (le_rl (ex_lease_env ?db)) (LeaseExpiration 9) = Inr (replica_reg ?db LocalRangeLeaseKey [])"
    by (simp add: ex_rl_codec_def replica_reg_def mem_contents_def mem_effect_def value_of_def)
  have c: "ContainsMetaRange meta_rd" "\<forall>w. 0 < le_Now (ex_lease_env ?db) w \<and> le_Now (ex_lease_env ?db) w \<le> 9"
    "rlRecord ((Lease_New meta_rd)\<lparr>rlRecord := Some (LeaseExpiration 9)\<rparr>) = Some (LeaseExpiration 9)"
    by (simp_all add: ContainsMetaRange_def meta_rd_def raft_rd_def key_defs)
  show ?thesis
    using time_lease_is_shared [OF ex_register _ _ _ c(1,2) m c(3), of "ex_liveness 66" "ex_liveness 66"] ex_lease_codecs by fastforce
qed

lemma epoch_lease_is_stolen_witness:
  "\<exists>lb w'. ensureValidLease (ex_lease_env [MemSet LocalRangeLeaseKey (2 # enc_nat 0 @ [65])]) False (Lease_New raft_rd) (ex_liveness 66) []
      = Some (Inr (rlRecord lb), lb, ex_liveness 66, w')
    \<and> Lease_Valid (ex_lease_env [MemSet LocalRangeLeaseKey (2 # enc_nat 0 @ [65])])
        ((Lease_New raft_rd)\<lparr>rlRecord := Some (LeaseLiveness 0 [65])\<rparr>) (ex_liveness 65) w' = Some (True, ex_liveness 65, w')"
proof -
  let ?db = "[MemSet LocalRangeLeaseKey (2 # enc_nat 0 @ [65])]"
  let ?e = "ex_lease_env ?db"
  have h: "GetEpoch (lvRecord (ex_liveness 65)) = 0" "lvNodeID (ex_liveness 65) = [65]" "lvNodeID (ex_liveness 65) \<noteq> lvNodeID (ex_liveness 66)"
    by (simp_all add: ex_liveness_def Liveness_New_def GetEpoch_def)
  have m: "c_Marshal (le_rl ?e) (LeaseLiveness (GetEpoch (lvRecord (ex_liveness 65))) (lvNodeID (ex_liveness 65))) =
      Inr (replica_reg ?db LocalRangeLeaseKey [])"
    unfolding h(1,2) by (simp add: ex_rl_codec_def replica_reg_def mem_contents_def mem_effect_def value_of_def)
  have la: "rlRecord ((Lease_New raft_rd)\<lparr>rlRecord := Some (LeaseLiveness 0 [65])\<rparr>) =
      Some (LeaseLiveness (GetEpoch (lvRecord (ex_liveness 65))) (lvNodeID (ex_liveness 65)))"
    unfolding h(1,2) by simp
  have c: "\<not> ContainsMetaRange raft_rd" "\<forall>w. 0 < le_Now ?e w"
    "\<forall>w. verifyLiveness ?e (ex_liveness 65) w = None" "\<forall>w. verifyLiveness ?e (ex_liveness 66) w = None"
    by (simp_all add: ContainsMetaRange_def raft_rd_def key_defs ex_liveness_valid)
  show ?thesis
    using epoch_lease_is_stolen [OF ex_register _ _ _ c h(3) m la] ex_lease_codecs by auto
qed

lemma liveness_is_acquired_witness:
  "\<exists>r h' w'. ensureValidLiveness (ex_lease_env [MemSet [3, 65] (enc_nat 4 @ enc_int 2)]) False (Liveness_New [65]) [] = Some (Inr (Some r), h', w')
    \<and> nlEpoch r = 5 \<and> Liveness_Valid (ex_lease_env [MemSet [3, 65] (enc_nat 4 @ enc_int 2)]) h' w'"
proof -
  let ?db = "[MemSet [3, 65] (enc_nat 4 @ enc_int 2)]"
  let ?e = "ex_lease_env ?db" and ?h = "Liveness_New [65]"
  have k: "leaseKeyOf ?h = [3, 65]" by (simp add: leaseKeyOf_def Liveness_New_def MakeKey_def key_defs)
  have "[3, 65] \<noteq> LocalRangeKey" "in_range (nReps (split_node meta_rd ?db) 0) [3, 65]"
    by (simp_all add: LocalRangeKey_def MakeKey_def key_defs in_range_def split_node_def example_rep_def meta_rd_def raft_rd_def)
  then have r: "cas_register (le_SyncPropose ?e) (leaseKeyOf ?h) (leaseKeyOf ?h) (replica_reg ?db [3, 65])"
    unfolding k ex_lease_env_simps by (intro replica_cas_register) simp_all
  have m: "c_Marshal (le_nl ?e) \<lparr>nlEpoch = 4, nlExpiration = 2\<rparr> = Inr (replica_reg ?db [3, 65] [])"
    by (simp add: ex_nl_codec_def replica_reg_def mem_contents_def mem_effect_def value_of_def)
  have kn: "marshal_opt (c_Marshal (le_nl ?e)) (lvRecord ?h) = Inr (enc_nat 0 @ enc_int 0)"
    by (simp add: marshal_opt_def Liveness_New_def ex_nl_codec_def)
  have ne: "replica_reg ?db [3, 65] [] \<noteq> enc_nat 0 @ enc_int 0"
    by (simp add: replica_reg_def mem_contents_def mem_effect_def value_of_def) (simp add: enc_nat_def numeral_eq_Suc)
  have t: "\<forall>v. 5 \<le> le_Now ?e v \<and> le_Now ?e v \<le> 5 + lvDuration ?h"
    by (simp add: Liveness_New_def defaultLeaseDuration_def)
  have wt: "\<forall>c v. le_Witness ?e c v \<noteq> v"
    by (auto simp: ex_lease_env_def)
  have inv: "verifyLiveness ?e ?h [] \<noteq> None \<or> False"
    by (simp add: verifyLiveness_def Liveness_New_def GetEpoch_def GetExpiration_def)
  have ep: "le_Witness ?e (lvClock ?h) (nlEpoch \<lparr>nlEpoch = 4, nlExpiration = 2\<rparr>) = 5"
    by (simp add: ex_lease_env_def Liveness_New_def)
  show ?thesis
    using liveness_is_acquired [OF r _ _ wt t kn m inv] ex_lease_codecs ne ep by auto
qed

end
