(* ===== verification/Retry.thy ===== *)
theory Retry
  imports Prelude
begin

text \<open>
  \<^verbatim>\<open>server/util/retry/retry.go\<close>: attempts with an exponential backoff, until there are enough of them or the context is done.

  Waiting acts on a world \<open>w\<close>: \<open>sleep d w\<close> is whether \<open>d\<close> nanoseconds went by before the context was done, and the world
  afterwards. Durations are \<open>int\<close>; \<^verbatim>\<open>Multiplier\<close> is a natural number here, as all callers have it, so that the floating-point
  power is exact or above the maximum.
\<close>

section \<open>The code\<close>

record retry_Options =
  InitialBackoff :: int
  MaxBackoff :: int
  Multiplier :: nat
  MaxRetries :: int

record Retry =
  opts :: retry_Options
  currentAttempt :: nat
  isReset :: bool

definition Retry_Reset :: "Retry \<Rightarrow> Retry" where
  "Retry_Reset r = r\<lparr>currentAttempt := 0, isReset := True\<rparr>"

definition Retry_New :: "retry_Options \<Rightarrow> Retry" where
  "Retry_New o' = Retry_Reset \<lparr>opts = o', currentAttempt = 0, isReset = False\<rparr>"

definition Millisecond :: int where "Millisecond = 10 ^ 6"
definition Second :: int where "Second = 10 ^ 9"

definition DefaultWithContext :: Retry where
  "DefaultWithContext =
     Retry_Reset \<lparr>opts = \<lparr>InitialBackoff = 50 * Millisecond, MaxBackoff = 3 * Second, Multiplier = 2, MaxRetries = 0\<rparr>,
                  currentAttempt = 0, isReset = False\<rparr>"

definition delay :: "Retry \<Rightarrow> int" where
  "delay r =
     (let backoff = InitialBackoff (opts r) * int (Multiplier (opts r)) ^ currentAttempt r in
      if backoff > MaxBackoff (opts r) then MaxBackoff (opts r) else backoff)"

definition Retry_Next :: "(int \<Rightarrow> 'w \<Rightarrow> bool \<times> 'w) \<Rightarrow> Retry \<Rightarrow> 'w \<Rightarrow> (bool \<times> Retry) \<times> 'w" where
  "Retry_Next sleep r w =
     (if isReset r then ((True, r\<lparr>isReset := False\<rparr>), w)
      else if MaxRetries (opts r) > 0 \<and> int (currentAttempt r) = MaxRetries (opts r) then ((False, r), w)
      else
        case sleep (delay r) w of
          (True, w') \<Rightarrow> ((True, r\<lparr>currentAttempt := currentAttempt r + 1\<rparr>), w')
        | (False, w') \<Rightarrow> ((False, r), w'))"

text \<open>
  The loop \<^verbatim>\<open>for retrier.Next() { ... }\<close>. The body either leaves the loop with a result (\<open>Inl\<close>) or continues with a new state;
  \<open>Inr\<close> of the loop is that the retrier said no. The body's \<open>None\<close> is a panic, or a call that does not return.
\<close>

partial_function (option) retry_loop ::
  "(int \<Rightarrow> 'w \<Rightarrow> bool \<times> 'w) \<Rightarrow> ('s \<Rightarrow> 'w \<Rightarrow> (('r + 's) \<times> 'w) option) \<Rightarrow> Retry \<Rightarrow> 's \<Rightarrow> 'w \<Rightarrow> (('r + 's) \<times> 'w) option" where
  "retry_loop sleep body r s w =
     (case Retry_Next sleep r w of
        ((again, r'), w') \<Rightarrow>
          if \<not> again then Some (Inr s, w')
          else
            (case body s w' of
               None \<Rightarrow> None
             | Some (Inl x, w'') \<Rightarrow> Some (Inl x, w'')
             | Some (Inr s', w'') \<Rightarrow> retry_loop sleep body r' s' w''))"

section \<open>Backoff\<close>

definition good_backoff :: "Retry \<Rightarrow> bool" where
  "good_backoff r \<longleftrightarrow> 0 < InitialBackoff (opts r) \<and> InitialBackoff (opts r) \<le> MaxBackoff (opts r) \<and> 1 \<le> Multiplier (opts r)"

lemma delay_bounds:
  assumes "good_backoff r"
  shows "0 < delay r" and "InitialBackoff (opts r) \<le> delay r" and "delay r \<le> MaxBackoff (opts r)"
proof -
  let ?I = "InitialBackoff (opts r)" and ?p = "int (Multiplier (opts r)) ^ currentAttempt r"
  have I: "0 < ?I" "?I \<le> MaxBackoff (opts r)" using assms by (simp_all add: good_backoff_def)
  have "1 \<le> ?p" using assms by (simp add: good_backoff_def)
  then have "?I * 1 \<le> ?I * ?p" using I(1) by (simp add: mult_left_mono)
  then have "0 < ?I * ?p" using I(1) by linarith
  with \<open>?I * 1 \<le> ?I * ?p\<close> show "?I \<le> delay r" and "delay r \<le> MaxBackoff (opts r)" and "0 < delay r"
    using I by (simp_all add: delay_def Let_def)
qed

lemma good_backoff_Default [simp]: "good_backoff DefaultWithContext"
  by (simp add: good_backoff_def DefaultWithContext_def Retry_Reset_def Millisecond_def Second_def)

lemma good_backoff_Next: "Retry_Next sleep r w = ((b, r'), w') \<Longrightarrow> good_backoff r' \<longleftrightarrow> good_backoff r"
  by (auto simp: Retry_Next_def good_backoff_def split: if_splits bool.splits prod.splits)

section \<open>A context with a deadline\<close>

text \<open>
  What a bounded context gives: \<open>left w\<close> is a bound on the waits that are still to come, which every completed
  wait reduces. A loop whose body does not put the deadline off then returns.
\<close>

locale retry_deadline =
  fixes sleep :: "int \<Rightarrow> 'w \<Rightarrow> bool \<times> 'w" and left :: "'w \<Rightarrow> nat"
  assumes completed: "0 < d \<Longrightarrow> sleep d w = (True, w') \<Longrightarrow> left w' < left w"
    and interrupted: "sleep d w = (False, w') \<Longrightarrow> left w' \<le> left w"
begin

lemma Next_left:
  assumes "good_backoff r" and "Retry_Next sleep r w = ((b, r'), w')"
  shows "left w' \<le> left w" and "\<not> isReset r \<Longrightarrow> b \<Longrightarrow> left w' < left w" and "b \<Longrightarrow> \<not> isReset r'"
  using assms(2) completed [OF delay_bounds(1) [OF assms(1)], of w] interrupted [of "delay r" w]
  by (fastforce simp: Retry_Next_def less_imp_le split: if_splits bool.splits prod.splits)+

lemma loop_returns:
  assumes body: "\<And>s w. left w \<le> n \<Longrightarrow> \<exists>x w'. body s w = Some (x, w') \<and> left w' \<le> left w"
    and "good_backoff r" and "left w \<le> n"
  shows "\<exists>x w'. retry_loop sleep body r s w = Some (x, w') \<and> left w' \<le> left w"
proof -
  have "\<exists>x w'. retry_loop sleep body r s w = Some (x, w') \<and> left w' \<le> left w"
    if "2 * left w + (if isReset r then 1 else 0) < k" "good_backoff r" "left w \<le> n" for k r s w
    using that
  proof (induction k arbitrary: r s w)
    case (Suc k)
    obtain b r' w' where N: "Retry_Next sleep r w = ((b, r'), w')" by (metis prod.exhaust)
    note L = Next_left [OF Suc.prems(2) N]
    show ?case
    proof (cases b)
      case True
      obtain x w'' where B: "body s w' = Some (x, w'')" "left w'' \<le> left w'"
        using body [of w' s] L(1) Suc.prems(3) by auto
      show ?thesis
      proof (cases x)
        case (Inr s')
        have "2 * left w'' + (if isReset r' then 1 else 0) < k"
          using L B(2) True Suc.prems(1) by (cases "isReset r") auto
        moreover have "good_backoff r'" "left w'' \<le> n"
          using good_backoff_Next [OF N] Suc.prems L(1) B(2) by auto
        ultimately obtain y w3 where "retry_loop sleep body r' s' w'' = Some (y, w3)" "left w3 \<le> left w''"
          using Suc.IH [of w'' r' s'] by blast
        then show ?thesis
          using N True B Inr L(1) by (subst retry_loop.simps) auto
      qed (use N True B L(1) in \<open>subst retry_loop.simps, auto\<close>)
    qed (use N L(1) in \<open>subst retry_loop.simps, auto\<close>)
  qed simp
  then show ?thesis using assms(2,3) by blast
qed

end

text \<open>A clock and a deadline, with whatever else the world has.\<close>

record timed =
  tmNow :: int
  tmDeadline :: int

definition deadline_sleep :: "int \<Rightarrow> 'a timed_scheme \<Rightarrow> bool \<times> 'a timed_scheme" where
  "deadline_sleep d w =
     (if tmNow w + d < tmDeadline w then (True, w\<lparr>tmNow := tmNow w + d\<rparr>)
      else (False, w\<lparr>tmNow := max (tmNow w) (tmDeadline w)\<rparr>))"

definition time_left :: "'a timed_scheme \<Rightarrow> nat" where
  "time_left w = nat (tmDeadline w - tmNow w)"

interpretation deadline: retry_deadline deadline_sleep time_left
  by unfold_locales (auto simp: deadline_sleep_def time_left_def split: if_splits)

section \<open>What a loop ends with\<close>

text \<open>An invariant of the body is one of the loop.\<close>

lemma retry_loop_inv:
  assumes "\<And>s w x w'. I s w \<Longrightarrow> body s w = Some (Inl x, w') \<Longrightarrow> Q x w'"
    and "\<And>s w s' w'. I s w \<Longrightarrow> body s w = Some (Inr s', w') \<Longrightarrow> I s' w'"
    and "\<And>s w d b w'. I s w \<Longrightarrow> sleep d w = (b, w') \<Longrightarrow> I s w'"
    and "retry_loop sleep body r s w = Some (res, w')" and "I s w"
  shows "(\<exists>x. res = Inl x \<and> Q x w') \<or> (\<exists>s'. res = Inr s' \<and> I s' w')"
proof -
  have N: "I s w1" if "Retry_Next sleep r w = ((b, r'), w1)" "I s w" for r b r' s w w1
    using that assms(3) by (fastforce simp: Retry_Next_def split: if_splits bool.splits prod.splits)
  let ?P = "\<lambda>sleep' body' r s w y. sleep' = sleep \<longrightarrow> body' = body \<longrightarrow> I s w \<longrightarrow>
      (\<exists>x. fst y = Inl x \<and> Q x (snd y)) \<or> (\<exists>s'. fst y = Inr s' \<and> I s' (snd y))"
  have "?P sleep body r s w (res, w')"
    using assms(4)
  proof (rule retry_loop.raw_induct [where P = ?P, rotated], goal_cases)
    case (1 f sleep' body' r s w y)
    show ?case
    proof (intro impI)
      assume s: "sleep' = sleep" and bd: "body' = body" and I: "I s w"
      obtain again r' w1 where nx: "Retry_Next sleep r w = ((again, r'), w1)" by (metis prod.exhaust)
      with N I have I1: "I s w1" by blast
      show "(\<exists>x. fst y = Inl x \<and> Q x (snd y)) \<or> (\<exists>s'. fst y = Inr s' \<and> I s' (snd y))"
      proof (cases again)
        case True
        then obtain z w2 where b: "body s w1 = Some (z, w2)" and
          y: "(\<exists>x. z = Inl x \<and> y = (Inl x, w2)) \<or> (\<exists>s'. z = Inr s' \<and> f sleep body r' s' w2 = Some y)"
          using 1(2) nx by (auto simp: s bd split: option.splits sum.splits prod.splits)
        show ?thesis
        proof (cases z)
          case (Inl x)
          with y b assms(1) [OF I1] show ?thesis by auto
        next
          case (Inr s')
          with assms(2) [OF I1] b have "I s' w2" by simp
          with y Inr 1(1) show ?thesis by blast
        qed
      qed (use 1(2) nx I1 in \<open>auto simp: s bd\<close>)
    qed
  qed
  then show ?thesis using assms(5) by simp
qed

text \<open>Without a limit on the attempts and with a context that is never done, a body that always continues is retried for ever.\<close>

lemma retry_loop_diverges:
  assumes "\<And>d w. fst (sleep d w)" and "MaxRetries (opts r) \<le> 0" and "\<And>s w. \<exists>s' w'. body s w = Some (Inr s', w')"
  shows "retry_loop sleep body r s w = None"
proof (rule ccontr)
  let ?P = "\<lambda>sleep' body' r s w y. sleep' = sleep \<longrightarrow> body' = body \<longrightarrow> MaxRetries (opts r) \<le> 0 \<longrightarrow> False"
  assume "retry_loop sleep body r s w \<noteq> None"
  then obtain y where "retry_loop sleep body r s w = Some y" by blast
  then have "?P sleep body r s w y"
  proof (rule retry_loop.raw_induct [where P = ?P, rotated], goal_cases)
    case (1 f sleep' body' r s w y)
    show ?case
    proof (intro impI)
      assume s: "sleep' = sleep" "body' = body" and m: "MaxRetries (opts r) \<le> 0"
      obtain again r' w1 where nx: "Retry_Next sleep r w = ((again, r'), w1)" by (metis prod.exhaust)
      then have r': "again" "MaxRetries (opts r') \<le> 0"
        using assms(1) [of "delay r" w] m by (auto simp: Retry_Next_def split: if_splits prod.splits bool.splits)
      obtain s' w2 where "body s w1 = Some (Inr s', w2)" using assms(3) by blast
      with 1(2) nx r'(1) have "f sleep body r' s' w2 = Some y" by (simp add: s)
      with 1(1) r'(2) show False by blast
    qed
  qed
  with assms(2) show False by simp
qed

context retry_deadline
begin

lemma loop_runs_out:
  assumes b: "\<And>s w. \<exists>w'. body s w = Some (Inr s0, w') \<and> left w' \<le> left w" and r: "good_backoff r"
  shows "\<exists>w'. retry_loop sleep body r s0 w = Some (Inr s0, w')"
proof -
  have "\<exists>x w'. body s w = Some (x, w') \<and> left w' \<le> left w" for s w
    using b [of s w] by blast
  then obtain x w' where l: "retry_loop sleep body r s0 w = Some (x, w')"
    using loop_returns [of "left w" body r w s0] r by blast
  have "(\<exists>y. x = Inl y \<and> False) \<or> (\<exists>s'. x = Inr s' \<and> s' = s0)"
  proof (rule retry_loop_inv [where I = "\<lambda>s _. s = s0" and Q = "\<lambda>_ _. False", OF _ _ _ l])
    show False if "body s w = Some (Inl x, w')" for s w x w' using b [of s w] that by auto
    show "s' = s0" if "body s w = Some (Inr s', w')" for s w s' w' using b [of s w] that by auto
  qed simp_all
  with l show ?thesis by auto
qed

end

end
