(* ===== verification/RaftSender.thy ===== *)
theory RaftSender
  imports RaftLease Retry
begin

text \<open>
  \<^verbatim>\<open>enterprise/server/raft/sender/sender.go\<close>: a request goes to the range that has its key, found in the range cache or in the
  meta-range, and there to the replicas in turn.

  The world \<open>w\<close> is what remote calls act on; a connection is the address it goes to. The registry of nodes and the calls of
  the API client are fields of \<open>sender_env\<close>. What changes at the sender itself is the range cache \<open>rc\<close>. \<open>None\<close> is a call
  that never returns, or a panic.
\<close>

section \<open>The code\<close>

record 'w sender_env =
  se_ResolveGRPC :: "u64 \<Rightarrow> u64 \<Rightarrow> error + string"
  se_Get :: "string \<Rightarrow> 'w \<Rightarrow> error option \<times> 'w"
  se_SyncPropose :: "string \<Rightarrow> Header \<Rightarrow> RequestUnion list \<Rightarrow> 'w \<Rightarrow> (error + ResponseUnion list) \<times> 'w"
  se_SyncRead :: "string \<Rightarrow> Header \<Rightarrow> RequestUnion list \<Rightarrow> 'w \<Rightarrow> (error + ResponseUnion list) \<times> 'w"
  se_rd :: "RangeDescriptor codec"
  se_sleep :: "int \<Rightarrow> 'w \<Rightarrow> bool \<times> 'w"

type_synonym ('w, 'r) runFunc = "string \<Rightarrow> Header \<Rightarrow> 'w \<Rightarrow> (error + 'r) \<times> 'w"

definition makeHeader :: "RangeDescriptor \<Rightarrow> nat \<Rightarrow> Header" where
  "makeHeader rangeDescriptor replicaIdx =
     \<lparr>hReplica = Some (replicas rangeDescriptor ! replicaIdx), hRangeId = range_id rangeDescriptor,
      hGeneration = generation rangeDescriptor\<rparr>"

definition connectionForReplicaDescriptor :: "'w sender_env \<Rightarrow> ReplicaDescriptor \<Rightarrow> 'w \<Rightarrow> (error + string) \<times> 'w" where
  "connectionForReplicaDescriptor e rd w =
     (case se_ResolveGRPC e (cluster_id rd) (node_id rd) of
        Inl err \<Rightarrow> (Inl err, w)
      | Inr addr \<Rightarrow> (case se_Get e addr w of (Some err, w') \<Rightarrow> (Inl err, w') | (None, w') \<Rightarrow> (Inr addr, w')))"

text \<open>The first pair of the scan that decodes.\<close>

fun first_descriptor :: "RangeDescriptor codec \<Rightarrow> KV list \<Rightarrow> error + RangeDescriptor" where
  "first_descriptor rdC [] = Inl (UnavailableError ''Error finding range descriptor for key'')"
| "first_descriptor rdC (kv # kvs) =
     (case c_Unmarshal rdC (kvValue kv) of Inl _ \<Rightarrow> first_descriptor rdC kvs | Inr rd \<Rightarrow> Inr rd)"

definition lookupRangeDescriptor :: "'w sender_env \<Rightarrow> bytes \<Rightarrow> ('w, RangeDescriptor) runFunc" where
  "lookupRangeDescriptor e key c h w =
     (case bb_ToProto (bb_Add NewBatchBuilder (ReqScan (RangeMetaKey key) SystemPrefix SEEKGE_SCAN_TYPE)) of
        Inl err \<Rightarrow> (Inl err, w)
      | Inr batchReq \<Rightarrow>
          (case se_SyncRead e c h batchReq w of
             (Inl err, w') \<Rightarrow> (Inl err, w')
           | (Inr rsp, w') \<Rightarrow>
               (case fst (ScanResponse 0 (NewBatchResponseFromProto rsp)) of
                  (_, Some err) \<Rightarrow> (Inl err, w')
                | (scanRsp, None) \<Rightarrow>
                    let kvs = (case scanRsp of None \<Rightarrow> [] | Some kvs \<Rightarrow> kvs) in
                    if length kvs = 0 then (Inl (FailedPreconditionError ''scan response had 0 kvs''), w')
                    else (first_descriptor (se_rd e) kvs, w'))))"

text \<open>The loop of \<open>tryReplicas\<close> over the replicas from index \<open>i\<close> on: the index that answered, and its answer.\<close>

definition strings_HasPrefix :: "string \<Rightarrow> string \<Rightarrow> bool" where
  "strings_HasPrefix s p \<longleftrightarrow> take (length p) s = p"

fun tryReplicas_loop ::
  "'w sender_env \<Rightarrow> RangeDescriptor \<Rightarrow> ('w, 'r) runFunc \<Rightarrow> ReplicaDescriptor list \<Rightarrow> nat \<Rightarrow> 'w \<Rightarrow> (error + nat \<times> 'r) \<times> 'w" where
  "tryReplicas_loop e rd fn [] i w = (Inl (OutOfRangeError ''No replicas available in range''), w)"
| "tryReplicas_loop e rd fn (replica # rs) i w =
     (case connectionForReplicaDescriptor e replica w of
        (Inl err, w1) \<Rightarrow> (Inl err, w1)
      | (Inr client, w1) \<Rightarrow>
          (case fn client (makeHeader rd i) w1 of
             (Inr r, w2) \<Rightarrow> (Inr (i, r), w2)
           | (Inl err, w2) \<Rightarrow>
               if IsOutOfRangeError (Some err) then
                 let m = Message (Some err) in
                 if strings_HasPrefix m RangeNotFoundMsg \<or> strings_HasPrefix m RangeNotCurrentMsg then (Inl err, w2)
                 else if strings_HasPrefix m RangeNotLeasedMsg \<or> strings_HasPrefix m RangeLeaseInvalidMsg
                 then tryReplicas_loop e rd fn rs (Suc i) w2
                 else (Inl err, w2)
               else (Inl err, w2)))"

definition tryReplicas :: "'w sender_env \<Rightarrow> RangeDescriptor \<Rightarrow> ('w, 'r) runFunc \<Rightarrow> 'w \<Rightarrow> (error + nat \<times> 'r) \<times> 'w" where
  "tryReplicas e rd fn w = tryReplicas_loop e rd fn (replicas rd) 0 w"

definition fetch_attempt :: "'w sender_env \<Rightarrow> RangeCache \<Rightarrow> bytes \<Rightarrow> unit \<Rightarrow> 'w \<Rightarrow> (((error + RangeDescriptor) + unit) \<times> 'w) option" where
  "fetch_attempt e rc key _ w =
     (case RangeCache_Get rc MetaRangePrefix of
        None \<Rightarrow> Some (Inr (), w)
      | Some metaRangeDescriptor \<Rightarrow>
          (case tryReplicas e metaRangeDescriptor (lookupRangeDescriptor e key) w of
             (Inr (_, rd), w') \<Rightarrow> Some (Inl (Inr rd), w')
           | (Inl err, w') \<Rightarrow> if \<not> IsOutOfRangeError (Some err) then Some (Inl (Inl err), w') else Some (Inr (), w')))"

definition fetchRangeDescriptorFromMetaRange :: "'w sender_env \<Rightarrow> RangeCache \<Rightarrow> bytes \<Rightarrow> 'w \<Rightarrow> ((error + RangeDescriptor) \<times> 'w) option" where
  "fetchRangeDescriptorFromMetaRange e rc key w =
     (case retry_loop (se_sleep e) (fetch_attempt e rc key) DefaultWithContext () w of
        None \<Rightarrow> None
      | Some (Inl r, w') \<Rightarrow> Some (r, w')
      | Some (Inr _, w') \<Rightarrow> Some (Inl (UnavailableError ''Error finding range descriptor for key''), w'))"

definition LookupRangeDescriptor :: "'w sender_env \<Rightarrow> RangeCache \<Rightarrow> bytes \<Rightarrow> bool \<Rightarrow> 'w \<Rightarrow> ((error + RangeDescriptor) \<times> 'w) option" where
  "LookupRangeDescriptor e rc key skipCache w =
     (case (RangeCache_Get rc key, skipCache) of
        (Some rangeDescriptor, False) \<Rightarrow> Some (Inr rangeDescriptor, w)
      | _ \<Rightarrow> fetchRangeDescriptorFromMetaRange e rc key w)"

text \<open>\<^verbatim>\<open>client.PeerHeader\<close>: where to send a file, and the header to send with it.\<close>

record PeerHeader =
  phHeader :: Header
  phGRPCAddr :: string

definition GetAllNodes :: "'w sender_env \<Rightarrow> RangeCache \<Rightarrow> bytes \<Rightarrow> 'w \<Rightarrow> ((error + PeerHeader list) \<times> 'w) option" where
  "GetAllNodes e rc key w =
     (case LookupRangeDescriptor e rc key False w of
        None \<Rightarrow> None
      | Some (Inl err, w') \<Rightarrow> Some (Inl err, w')
      | Some (Inr rd, w') \<Rightarrow>
          Some (Inr (concat (map (\<lambda>i.
                   case se_ResolveGRPC e (cluster_id (replicas rd ! i)) (node_id (replicas rd ! i)) of
                     Inl _ \<Rightarrow> []
                   | Inr addr \<Rightarrow> [\<lparr>phHeader = makeHeader rd i, phGRPCAddr = addr\<rparr>])
                 [0..<length (replicas rd)])), w'))"

text \<open>The state of \<open>Run\<close>'s loop is \<open>skipRangeCache\<close>; a result comes with the range cache.\<close>

definition run_attempt ::
  "'w sender_env \<Rightarrow> RangeCache \<Rightarrow> bytes \<Rightarrow> ('w, 'r) runFunc \<Rightarrow> bool \<Rightarrow> 'w \<Rightarrow> ((((error + 'r) \<times> RangeCache) + bool) \<times> 'w) option" where
  "run_attempt e rc key fn skipRangeCache w =
     (case LookupRangeDescriptor e rc key skipRangeCache w of
        None \<Rightarrow> None
      | Some (Inl err, w1) \<Rightarrow> Some (Inr skipRangeCache, w1)
      | Some (Inr rd, w1) \<Rightarrow>
          (case tryReplicas e rd fn w1 of
             (Inr (i, r), w2) \<Rightarrow>
               (case RangeCache_UpdateRange rc rd of
                  None \<Rightarrow> None
                | Some (None, rc') \<Rightarrow> Some (Inl (Inr r, SetPreferredReplica (replicas rd ! i) rd rc'), w2)
                | Some (Some _, rc') \<Rightarrow> Some (Inl (Inr r, rc'), w2))
           | (Inl err, w2) \<Rightarrow>
               if \<not> IsOutOfRangeError (Some err) then Some (Inl (Inl err, rc), w2) else Some (Inr True, w2)))"

definition Run :: "'w sender_env \<Rightarrow> RangeCache \<Rightarrow> bytes \<Rightarrow> ('w, 'r) runFunc \<Rightarrow> 'w \<Rightarrow> (((error + 'r) \<times> RangeCache) \<times> 'w) option" where
  "Run e rc key fn w =
     (case retry_loop (se_sleep e) (run_attempt e rc key fn) DefaultWithContext False w of
        None \<Rightarrow> None
      | Some (Inl r, w') \<Rightarrow> Some (r, w')
      | Some (Inr _, w') \<Rightarrow> Some ((Inl (UnavailableError ''sender.Run retries exceeded''), rc), w'))"

definition Sender_SyncPropose ::
  "'w sender_env \<Rightarrow> RangeCache \<Rightarrow> bytes \<Rightarrow> RequestUnion list \<Rightarrow> 'w \<Rightarrow> (((error + ResponseUnion list) \<times> RangeCache) \<times> 'w) option" where
  "Sender_SyncPropose e rc key batchCmd w = Run e rc key (\<lambda>c h. se_SyncPropose e c h batchCmd) w"

definition Sender_SyncRead ::
  "'w sender_env \<Rightarrow> RangeCache \<Rightarrow> bytes \<Rightarrow> RequestUnion list \<Rightarrow> 'w \<Rightarrow> (((error + ResponseUnion list) \<times> RangeCache) \<times> 'w) option" where
  "Sender_SyncRead e rc key batchCmd w = Run e rc key (\<lambda>c h. se_SyncRead e c h batchCmd) w"

definition Sender_Increment :: "'w sender_env \<Rightarrow> RangeCache \<Rightarrow> bytes \<Rightarrow> u64 \<Rightarrow> 'w \<Rightarrow> (((error + u64) \<times> RangeCache) \<times> 'w) option" where
  "Sender_Increment e rc key n w =
     (case bb_ToProto (bb_Add NewBatchBuilder (ReqIncrement key n)) of
        Inl err \<Rightarrow> Some ((Inl err, rc), w)
      | Inr batch \<Rightarrow>
          (case Sender_SyncPropose e rc key batch w of
             None \<Rightarrow> None
           | Some ((Inl err, rc'), w') \<Rightarrow> Some ((Inl err, rc'), w')
           | Some ((Inr rsp, rc'), w') \<Rightarrow>
               (case fst (IncrementResponse 0 (NewBatchResponseFromProto rsp)) of
                  (_, Some err) \<Rightarrow> Some ((Inl err, rc'), w')
                | (r, None) \<Rightarrow> Some ((Inr (case r of None \<Rightarrow> 0 | Some (_, v) \<Rightarrow> v), rc'), w'))))"

definition Sender_DirectRead :: "'w sender_env \<Rightarrow> RangeCache \<Rightarrow> bytes \<Rightarrow> 'w \<Rightarrow> (((error + bytes) \<times> RangeCache) \<times> 'w) option" where
  "Sender_DirectRead e rc key w =
     (case bb_ToProto (bb_Add NewBatchBuilder (ReqDirectRead key)) of
        Inl err \<Rightarrow> Some ((Inl err, rc), w)
      | Inr batch \<Rightarrow>
          (case Sender_SyncRead e rc key batch w of
             None \<Rightarrow> None
           | Some ((Inl err, rc'), w') \<Rightarrow> Some ((Inl err, rc'), w')
           | Some ((Inr rsp, rc'), w') \<Rightarrow>
               (case fst (DirectReadResponse 0 (NewBatchResponseFromProto rsp)) of
                  (_, Some err) \<Rightarrow> Some ((Inl err, rc'), w')
                | (kv, None) \<Rightarrow> Some ((Inr (case kv of None \<Rightarrow> [] | Some kv \<Rightarrow> kvValue kv), rc'), w'))))"

section \<open>Replicas in turn\<close>

lemma tryReplicas_index: "tryReplicas e rd fn w = (Inr (i, r), w') \<Longrightarrow> i < length (replicas rd)"
proof -
  have "j < n + length rs" if "tryReplicas_loop e rd fn rs n w = (Inr (j, r), w')" for rs n j w
    using that
  proof (induction e rd fn rs n w rule: tryReplicas_loop.induct)
    case (2 e rd fn replica rs n w)
    then show ?case
      by (fastforce simp: Let_def split: prod.splits sum.splits if_splits)
  qed simp
  then show "tryReplicas e rd fn w = (Inr (i, r), w') \<Longrightarrow> i < length (replicas rd)"
    unfolding tryReplicas_def by fastforce
qed

section \<open>Looking up the meta-range\<close>

text \<open>
  \<open>holds_meta rdC rds m\<close>: below the system keys the store has the descriptors \<open>rds\<close>, each under the meta key of its right end,
  and no other keys in the meta-range.
\<close>

definition holds_meta :: "RangeDescriptor codec \<Rightarrow> RangeDescriptor set \<Rightarrow> (bytes \<rightharpoonup> bytes) \<Rightarrow> bool" where
  "holds_meta rdC rds m \<longleftrightarrow>
     (\<forall>rd\<in>rds. \<exists>v. m (RangeMetaKey (rdRight rd)) = Some v) \<and>
     (\<forall>k v. m k = Some v \<longrightarrow> MetaRangePrefix \<le> k \<longrightarrow> k < SystemPrefix \<longrightarrow>
        (\<exists>rd\<in>rds. k = RangeMetaKey (rdRight rd) \<and> c_Unmarshal rdC v = Inr rd))"

lemma meta_key_bounds: "MetaRangePrefix \<le> RangeMetaKey k" "RangeMetaKey k < SystemPrefix"
  by (simp_all add: RangeMetaKey_simp key_defs)

lemma iter_head:
  assumes "kv_iter all m" and "iter_SeekGE a (iter_bounded None (Some u) all) = (k, v) # rest"
  shows "m k = Some v" and "a \<le> k" and "k < u" and "\<And>k'. m k' \<noteq> None \<Longrightarrow> a \<le> k' \<Longrightarrow> k' < u \<Longrightarrow> k \<le> k'"
proof -
  let ?f = "filter (\<lambda>(k, v). k < u) all"
  have b: "iter_bounded None (Some u) all = ?f" by (simp add: iter_bounded_def)
  have s: "sorted_wrt (<) (map fst all)" "map_of all = m" using assms(1) by (simp_all add: kv_iter_def)
  have "sorted_wrt (<) (map fst (filter Q xs))" if "sorted_wrt (<) (map fst xs)" for Q and xs :: kvs
    using that by (induction xs) auto
  with s(1) have sf: "sorted_wrt (<) (map fst ?f)" by blast
  have mem: "(k, v) \<in> set ?f" using assms(2) unfolding b iter_SeekGE_def by (metis list.set_intros(1) set_dropWhileD)
  then show "m k = Some v" and "k < u"
    using s kv_iter_distinct [OF assms(1)] by (auto intro: map_of_is_SomeI)
  show "a \<le> k" using hd_dropWhile [of "\<lambda>(k, v). k < a" ?f] assms(2) unfolding b iter_SeekGE_def by auto
  fix k' assume k': "m k' \<noteq> None" "a \<le> k'" "k' < u"
  then obtain v' where "(k', v') \<in> set ?f" using s(2) by (auto dest: map_of_SomeD)
  moreover have tw: "?f = takeWhile (\<lambda>(k, v). k < a) ?f @ (k, v) # rest"
    using assms(2) unfolding b iter_SeekGE_def by (metis takeWhile_dropWhile_id)
  moreover have "(k', v') \<notin> set (takeWhile (\<lambda>(k, v). k < a) ?f)" using k'(2) by (auto dest: set_takeWhileD)
  ultimately have "(k', v') \<in> set ((k, v) # rest)" by (metis Un_iff set_append)
  moreover have "sorted_wrt (<) (map fst ((k, v) # rest))"
  proof -
    have "sorted_wrt (<) (map fst (takeWhile (\<lambda>(k, v). k < a) ?f @ (k, v) # rest))" using sf unfolding tw [symmetric] .
    then show ?thesis unfolding map_append sorted_wrt_append by blast
  qed
  ultimately show "k \<le> k'" by (auto simp: sorted_fst_Cons)
qed

lemma iter_none:
  assumes "kv_iter all m" and "iter_SeekGE a (iter_bounded None (Some u) all) = []"
  shows "a \<le> k \<Longrightarrow> k < u \<Longrightarrow> m k = None"
proof (rule ccontr)
  assume k: "a \<le> k" "k < u" "m k \<noteq> None"
  then obtain v where "(k, v) \<in> set (iter_bounded None (Some u) all)"
    using assms(1) by (auto simp: kv_iter_def iter_bounded_def dest: map_of_SomeD)
  with assms(2) k(1) show False by (auto simp: iter_SeekGE_def dropWhile_eq_Nil_conv)
qed


text \<open>The read reaches a replica whose database has the meta-range.\<close>

lemma lookup_least_end:
  assumes P: "pebble_store (en_pebble E) cont eff" and kept: "slices_kept (en_pebble E)"
    and read: "\<And>reqs w. se_SyncRead e c h reqs w = (Inr (map (handleRead E db) reqs), w)"
    and meta: "holds_meta (se_rd e) rds (cont db)" and rd: "rd \<in> rds" "key \<le> rdRight rd"
  shows "\<exists>rd'\<in>rds. lookupRangeDescriptor e key c h w = (Inr rd', w) \<and> key \<le> rdRight rd' \<and> rdRight rd' \<le> rdRight rd"
proof -
  let ?all = "pb_All (en_pebble E) db"
  let ?it = "iter_SeekGE (RangeMetaKey key) (iter_bounded None (Some SystemPrefix) ?all)"
  have it: "kv_iter ?all (cont db)" by (rule pebble_store.All [OF P])
  obtain v where v: "cont db (RangeMetaKey (rdRight rd)) = Some v" using meta rd(1) by (auto simp: holds_meta_def)
  have "?it \<noteq> []" using iter_none [OF it, of "RangeMetaKey key" SystemPrefix "RangeMetaKey (rdRight rd)"] v rd(2) meta_key_bounds by auto
  then obtain k v' rest where h: "?it = (k, v') # rest" by (metis list.exhaust prod.exhaust)
  note H = iter_head [OF it h]
  have "MetaRangePrefix \<le> k" using H(2) meta_key_bounds(1) [of key] by (rule order_trans [rotated])
  with H(1,3) meta obtain rd' where rd': "rd' \<in> rds" "k = RangeMetaKey (rdRight rd')" "c_Unmarshal (se_rd e) v' = Inr rd'"
    unfolding holds_meta_def by blast
  have "k \<le> RangeMetaKey (rdRight rd)" using H(4) [of "RangeMetaKey (rdRight rd)"] v rd(2) meta_key_bounds by auto
  then have "rdRight rd' \<le> rdRight rd" "key \<le> rdRight rd'" using rd'(2) H(2) by simp_all
  moreover have "lookupRangeDescriptor e key c h w = (Inr rd', w)"
    using h rd'(3) kept [unfolded slices_kept_def, rule_format, of 0 "(k, v') # rest"]
    by (simp add: upt_conv_Cons lookupRangeDescriptor_def bb_ToProto_def bb_Add_def NewBatchBuilder_def read handleRead_def rsp_of_def scan_def
        RangeMetaKey_simp key_defs ScanResponse_def br_get_ok Let_def del: upt_Suc)
  ultimately show ?thesis using rd'(1) by blast
qed




section \<open>Runs\<close>

lemma first_attempt: "retry_loop sleep body DefaultWithContext s w =
   (case body s w of None \<Rightarrow> None | Some (Inl x, w') \<Rightarrow> Some (Inl x, w')
    | Some (Inr s', w') \<Rightarrow> retry_loop sleep body (DefaultWithContext\<lparr>isReset := False\<rparr>) s' w')"
  by (subst retry_loop.simps) (simp add: Retry_Next_def DefaultWithContext_def Retry_Reset_def split: option.split sum.split)

text \<open>A request that some replica of the cached range answers comes back with that answer, and teaches the cache its leader: afterwards
  every key of the range is looked up to the same replicas with the one that answered in front, so that the
  next request tries it first, and nothing else in the cache has changed.\<close>

theorem Run_learns_leader:
  assumes wf: "wf_rm (rangeMap rc)"
    and cached: "RangeMap_Get (rangeMap rc) (rdLeft rd) (rdRight rd) = Some k" "rVal (RangeMap_Ranges (rangeMap rc) ! k) = Some rd"
    and key: "rdLeft rd \<le> key" "key < rdRight rd"
    and answer: "tryReplicas e rd fn w = (Inr (i, r), w')"
  shows "\<exists>rc' rd'. Run e rc key fn w = Some ((Inr r, rc'), w')
    \<and> (\<forall>key'. RangeCache_Get rc' key' = (if rdLeft rd \<le> key' \<and> key' < rdRight rd then Some rd' else RangeCache_Get rc key'))
    \<and> hd (replicas rd') = replicas rd ! i \<and> mset (replicas rd') = mset (replicas rd) \<and> rd' = rd\<lparr>replicas := replicas rd'\<rparr>"
proof -
  have k: "k < slen (ranges (rangeMap rc))" "rLeft (elems (ranges (rangeMap rc)) ! k) = rdLeft rd"
    "rRight (elems (ranges (rangeMap rc)) ! k) = rdRight rd"
    using cached(1) unfolding Get_Some_iff [OF wf] by auto
  have len: "length (elems (ranges (rangeMap rc))) = slen (ranges (rangeMap rc))" using wf by (simp add: wf_rm_def)
  have "RangeMap_Lookup (rangeMap rc) key = Some (Some rd)"
    unfolding Lookup_Some_iff [OF wf] using k cached(2) key len
    by (intro bexI [of _ "elems (ranges (rangeMap rc)) ! k"]) (simp_all add: RangeMap_Ranges_def)
  then have get: "RangeCache_Get rc key = Some rd" by (simp add: RangeCache_Get_def)
  have up: "RangeCache_UpdateRange rc rd = Some (None, rc)"
    using updateRange_exact [OF cached(1)] cached(2) by (simp add: RangeCache_UpdateRange_def RangeMap_Ranges_def)
  have i: "i < length (replicas rd)" by (rule tryReplicas_index [OF answer])
  obtain rd' where rd': "cluster_id (hd (replicas rd')) = cluster_id (replicas rd ! i)" "node_id (hd (replicas rd')) = node_id (replicas rd ! i)"
    "mset (replicas rd') = mset (replicas rd)" "rd' = rd\<lparr>replicas := replicas rd'\<rparr>"
    "\<forall>key'. RangeCache_Get (SetPreferredReplica (replicas rd ! i) rd rc) key' =
       (if rdLeft rd \<le> key' \<and> key' < rdRight rd then Some rd' else RangeCache_Get rc key')"
    using SetPreferredReplica_front [OF wf cached, of "replicas rd ! i"] i nth_mem by blast
  have "hd (replicas rd') = replicas rd ! i" using rd'(1,2) by (intro ReplicaDescriptor.equality) simp_all
  moreover have "Run e rc key fn w = Some ((Inr r, SetPreferredReplica (replicas rd ! i) rd rc), w')"
    by (simp add: Run_def first_attempt run_attempt_def LookupRangeDescriptor_def get answer up)
  ultimately show ?thesis using rd' by blast
qed

section \<open>Requests end with their deadline\<close>

text \<open>Calls take time, and never put the deadline off.\<close>

definition takes_time :: "('a timed_scheme \<Rightarrow> 'b \<times> 'a timed_scheme) \<Rightarrow> bool" where
  "takes_time f \<longleftrightarrow> (\<forall>w. time_left (snd (f w)) \<le> time_left w)"

lemma takes_timeD: "takes_time f \<Longrightarrow> f w = (x, w') \<Longrightarrow> time_left w' \<le> time_left w"
  unfolding takes_time_def by (metis snd_conv)

definition timely :: "'a timed_scheme sender_env \<Rightarrow> bool" where
  "timely e \<longleftrightarrow> se_sleep e = deadline_sleep \<and> (\<forall>addr. takes_time (se_Get e addr)) \<and> (\<forall>c h reqs. takes_time (se_SyncRead e c h reqs))"

lemma timely_connection:
  assumes "timely e"
  shows "takes_time (connectionForReplicaDescriptor e rep)"
  unfolding takes_time_def connectionForReplicaDescriptor_def
proof (intro allI, cases "se_ResolveGRPC e (cluster_id rep) (node_id rep)")
  case (Inr addr)
  fix w
  obtain r w' where "se_Get e addr w = (r, w')" by fastforce
  with Inr assms show "time_left (snd (case se_ResolveGRPC e (cluster_id rep) (node_id rep) of Inl err \<Rightarrow> (Inl err, w)
      | Inr addr \<Rightarrow> (case se_Get e addr w of (Some err, w') \<Rightarrow> (Inl err, w') | (None, w') \<Rightarrow> (Inr addr, w')))) \<le> time_left w"
    unfolding timely_def by (auto dest: takes_timeD split: option.split)
qed simp

lemma timely_lookup:
  assumes "timely e"
  shows "takes_time (lookupRangeDescriptor e key c h)"
  unfolding takes_time_def
proof
  fix w
  let ?reqs = "[ReqScan (RangeMetaKey key) SystemPrefix SEEKGE_SCAN_TYPE]"
  obtain r w' where s: "se_SyncRead e c h ?reqs w = (r, w')" by fastforce
  moreover have "takes_time (se_SyncRead e c h ?reqs)" using assms by (simp add: timely_def)
  ultimately have "time_left w' \<le> time_left w" by (rule takes_timeD [rotated])
  then show "time_left (snd (lookupRangeDescriptor e key c h w)) \<le> time_left w"
    by (simp add: lookupRangeDescriptor_def bb_ToProto_def bb_Add_def NewBatchBuilder_def s Let_def split: sum.split prod.split option.split)
qed

lemma timely_tryReplicas:
  assumes "timely e" and fn: "\<And>c h. takes_time (fn c h)"
  shows "takes_time (tryReplicas e rd fn)"
proof -
  have "time_left (snd (tryReplicas_loop e rd fn rs i w)) \<le> time_left w" for rs i w
  proof (induction rs arbitrary: i w)
    case (Cons replica rs)
    obtain c w1 where c: "connectionForReplicaDescriptor e replica w = (c, w1)" by fastforce
    then have w1: "time_left w1 \<le> time_left w" using takes_timeD [OF timely_connection [OF assms(1)]] by blast
    show ?case
    proof (cases c)
      case (Inr addr)
      obtain x w2 where x: "fn addr (makeHeader rd i) w1 = (x, w2)" by fastforce
      then have "time_left w2 \<le> time_left w" using takes_timeD [OF fn] w1 by (meson order_trans)
      then show ?thesis using c x Inr Cons.IH [of "Suc i" w2] by (auto simp: Let_def split: sum.split intro: order_trans)
    qed (use c w1 in simp)
  qed simp
  then show ?thesis by (simp add: takes_time_def tryReplicas_def)
qed

lemma timely_fetch:
  assumes "timely e"
  shows "\<exists>x w'. fetchRangeDescriptorFromMetaRange e rc key w = Some (x, w') \<and> time_left w' \<le> time_left w"
proof -
  have "\<exists>x w'. fetch_attempt e rc key s w = Some (x, w') \<and> time_left w' \<le> time_left w" for s w
    using takes_timeD [OF timely_tryReplicas [OF assms timely_lookup [OF assms]]]
    by (fastforce simp: fetch_attempt_def split: option.split prod.split sum.split)
  then have "\<exists>x w'. retry_loop deadline_sleep (fetch_attempt e rc key) DefaultWithContext () w = Some (x, w') \<and> time_left w' \<le> time_left w"
    by (intro deadline.loop_returns [where n = "time_left w"]) simp_all
  then show ?thesis
    using assms by (auto simp: fetchRangeDescriptorFromMetaRange_def timely_def split: sum.split)
qed

text \<open>C21: A request made under a deadline returns, whatever the replicas and the meta-range answer and however often they send it
  on, as long as the ranges they name are not empty (updating the cache with an empty range could panic).\<close>

theorem Run_returns:
  assumes "timely e" and fn: "\<And>c h. takes_time (fn c h)" and wf: "wf_rm (rangeMap rc)"
    and "\<And>w r w'. fetchRangeDescriptorFromMetaRange e rc key w = Some (Inr r, w') \<Longrightarrow> rdLeft r < rdRight r"
    and "\<And>r. RangeCache_Get rc key = Some r \<Longrightarrow> rdLeft r < rdRight r"
  shows "\<exists>res rc' w'. Run e rc key fn w = Some ((res, rc'), w') \<and> time_left w' \<le> time_left w"
proof -
  have look: "\<exists>x w'. LookupRangeDescriptor e rc key skip w = Some (x, w') \<and> time_left w' \<le> time_left w
      \<and> (\<forall>r. x = Inr r \<longrightarrow> rdLeft r < rdRight r)" for skip w
    using timely_fetch [OF assms(1), of rc key w] assms(4,5)
    by (fastforce simp: LookupRangeDescriptor_def split: option.split bool.split)
  have "\<exists>x w'. run_attempt e rc key fn skip w = Some (x, w') \<and> time_left w' \<le> time_left w" for skip w
  proof -
    obtain x w1 where l: "LookupRangeDescriptor e rc key skip w = Some (x, w1)" "time_left w1 \<le> time_left w"
      "\<forall>r. x = Inr r \<longrightarrow> rdLeft r < rdRight r" using look by blast
    show ?thesis
    proof (cases x)
      case (Inr rd)
      obtain y w2 where y: "tryReplicas e rd fn w1 = (y, w2)" by fastforce
      then have w2: "time_left w2 \<le> time_left w"
        using takes_timeD [OF timely_tryReplicas [OF assms(1) fn]] l(2) by (meson order_trans)
      have "\<exists>err rc'. RangeCache_UpdateRange rc rd = Some (err, rc')"
        using updateRange_result [OF wf, of rd] l(3) Inr by (auto simp: RangeCache_UpdateRange_def)
      with l(1) Inr y w2 show ?thesis by (auto simp: run_attempt_def split: sum.split prod.split option.split)
    qed (use l in \<open>simp add: run_attempt_def\<close>)
  qed
  then have "\<exists>x w'. retry_loop deadline_sleep (run_attempt e rc key fn) DefaultWithContext False w = Some (x, w') \<and> time_left w' \<le> time_left w"
    by (intro deadline.loop_returns [where n = "time_left w"]) simp_all
  then show ?thesis
    using assms(1) by (auto simp: Run_def timely_def split: sum.split)
qed

text \<open>Without a deadline, as in the calls that a split and a lease make, a range whose replicas all decline is asked for ever.\<close>

lemma Run_never_gives_up:
  assumes "\<And>d w. fst (se_sleep e d w)"
    and "\<And>skip w. \<exists>rd w1 err w2. LookupRangeDescriptor e rc key skip w = Some (Inr rd, w1)
      \<and> tryReplicas e rd fn w1 = (Inl err, w2) \<and> err_code err = OutOfRange"
  shows "Run e rc key fn w = None"
proof -
  have "\<exists>s' w'. run_attempt e rc key fn s w = Some (Inr s', w')" for s w
  proof -
    obtain rd w1 err w2 where "LookupRangeDescriptor e rc key s w = Some (Inr rd, w1)"
      "tryReplicas e rd fn w1 = (Inl err, w2)" "err_code err = OutOfRange" using assms(2) by blast
    then have "run_attempt e rc key fn s w = Some (Inr True, w2)" by (simp add: run_attempt_def status_simps)
    then show ?thesis by blast
  qed
  then have "retry_loop (se_sleep e) (run_attempt e rc key fn) DefaultWithContext False w = None"
    by (intro retry_loop_diverges assms(1)) (simp_all add: DefaultWithContext_def Retry_Reset_def)
  then show ?thesis by (simp add: Run_def)
qed

section \<open>Witnesses\<close>

text \<open>A meta-range with two ranges, \<open>[0, 4)\<close> and \<open>[4, 200)\<close>, and a sender whose every call reaches it.\<close>

definition first_rd :: RangeDescriptor where
  "first_rd = meta_rd\<lparr>rdRight := [4]\<rparr>"

definition meta_db :: "mem_op list" where
  "meta_db = [MemSet (RangeMetaKey [4]) (enc_rd first_rd), MemSet (RangeMetaKey [200]) (enc_rd raft_rd)]"

definition ex_sender :: "timed sender_env" where
  "ex_sender =
     \<lparr>se_ResolveGRPC = \<lambda>c n. Inr ''node'', se_Get = \<lambda>addr w. (None, w),
      se_SyncPropose = \<lambda>c h reqs w. (Inl (UnavailableError ''no leader''), w\<lparr>tmNow := tmNow w + 1\<rparr>),
      se_SyncRead = \<lambda>c h reqs w. (Inr (map (handleRead (mem_env []) meta_db) reqs), w),
      se_rd = mem_rd_codec, se_sleep = deadline_sleep\<rparr>"

lemma ex_sender_simps [simp]:
  "se_ResolveGRPC ex_sender x y = Inr ''node''" "se_Get ex_sender addr w = (None, w)"
  "se_SyncPropose ex_sender c h reqs w = (Inl (UnavailableError ''no leader''), w\<lparr>tmNow := tmNow w + 1\<rparr>)"
  "se_SyncRead ex_sender c h reqs w = (Inr (map (handleRead (mem_env []) meta_db) reqs), w)"
  "se_rd ex_sender = mem_rd_codec" "se_sleep ex_sender = deadline_sleep"
  by (simp_all add: ex_sender_def)


text \<open>A request that only the second replica takes.\<close>

definition second_only :: "string \<Rightarrow> Header \<Rightarrow> timed \<Rightarrow> (error + u64) \<times> timed" where
  "second_only c h w =
     (if hReplica h = Some \<lparr>cluster_id = 1, node_id = 2\<rparr> then (Inr (hRangeId h), w)
      else (Inl (OutOfRangeError (RangeLeaseInvalidMsg @ '': no lease'')), w))"

lemma ex_holds_meta: "holds_meta mem_rd_codec {first_rd, raft_rd} (mem_contents meta_db)"
proof -
  have c: "mem_contents meta_db = [RangeMetaKey [4] \<mapsto> enc_rd first_rd, RangeMetaKey [200] \<mapsto> enc_rd raft_rd]"
    by (simp add: meta_db_def mem_contents_def mem_effect_def)
  have "c_Unmarshal mem_rd_codec (enc_rd r) = Inr r" for r
    using codec_okD [OF mem_codecs(1)] by (simp add: mem_rd_codec_def)
  moreover have "rdRight first_rd = [4]" "rdRight raft_rd = [200]" by (simp_all add: first_rd_def raft_rd_def)
  ultimately show ?thesis unfolding holds_meta_def c by (auto split: if_splits)
qed



lemma second_answers:
  "tryReplicas ex_sender (example_rd l r g) second_only w = (Inr (1, 1), w)"
  by (simp add: tryReplicas_def example_rd_def connectionForReplicaDescriptor_def second_only_def makeHeader_def
      status_simps Message_def error_defs strings_HasPrefix_def RangeNotFoundMsg_def RangeNotCurrentMsg_def RangeNotLeasedMsg_def
      RangeLeaseInvalidMsg_def)

theorem Run_learns_leader_witness:
  "\<exists>rc' rd'. Run ex_sender example_rc [4] second_only \<lparr>tmNow = 0, tmDeadline = 1\<rparr> = Some ((Inr 1, rc'), \<lparr>tmNow = 0, tmDeadline = 1\<rparr>)
    \<and> (\<forall>key'. RangeCache_Get rc' key' = (if rdLeft (example_rd 3 5 1) \<le> key' \<and> key' < rdRight (example_rd 3 5 1) then Some rd'
        else RangeCache_Get example_rc key'))
    \<and> hd (replicas rd') = replicas (example_rd 3 5 1) ! 1 \<and> mset (replicas rd') = mset (replicas (example_rd 3 5 1))
    \<and> rd' = (example_rd 3 5 1)\<lparr>replicas := replicas rd'\<rparr>"
proof (rule Run_learns_leader)
  show "RangeMap_Get (rangeMap example_rc) (rdLeft (example_rd 3 5 1)) (rdRight (example_rd 3 5 1)) = Some 1"
    using example_lookups(5) by simp
  show "rVal (RangeMap_Ranges (rangeMap example_rc) ! 1) = Some (example_rd 3 5 1)" by (rule example_replicas(1))
qed (simp_all add: second_answers)

lemma ex_timely: "timely ex_sender"
  by (simp add: timely_def takes_time_def)

lemma ex_lookup: "\<exists>r\<in>{first_rd, raft_rd}. \<forall>c h. lookupRangeDescriptor ex_sender [4] c h w = (Inr r, w)"
proof -
  have "holds_meta (se_rd ex_sender) {first_rd, raft_rd} (mem_contents meta_db)" using ex_holds_meta by simp
  then have "\<exists>r\<in>{first_rd, raft_rd}. lookupRangeDescriptor ex_sender [4] c h w = (Inr r, w)" for c h
    using lookup_least_end [of "mem_env []" mem_contents mem_effect ex_sender c h meta_db "{first_rd, raft_rd}" raft_rd "[4]" w]
      mem.pebble_store_axioms mem_slices_kept by (auto simp: raft_rd_def)
  moreover have "lookupRangeDescriptor ex_sender [4] c h w = lookupRangeDescriptor ex_sender [4] [] undefined w" for c h
    by (simp add: lookupRangeDescriptor_def bb_ToProto_def bb_Add_def NewBatchBuilder_def)
  ultimately show ?thesis by metis
qed

lemma ex_fetch:
  assumes "fetchRangeDescriptorFromMetaRange ex_sender example_rc [4] w = Some (Inr r, w')"
  shows "r \<in> {first_rd, raft_rd}"
proof -
  have md: "RangeCache_Get example_rc MetaRangePrefix = Some (example_rd 1 3 1)" by code_simp
  obtain r' where r': "r' \<in> {first_rd, raft_rd}" "\<And>c h. lookupRangeDescriptor ex_sender [4] c h w = (Inr r', w)"
    using ex_lookup by blast
  then have "tryReplicas ex_sender (example_rd 1 3 1) (lookupRangeDescriptor ex_sender [4]) w = (Inr (0, r'), w)"
    by (simp add: tryReplicas_def example_rd_def connectionForReplicaDescriptor_def)
  with assms r'(1) show ?thesis
    by (simp add: fetchRangeDescriptorFromMetaRange_def first_attempt fetch_attempt_def md)
qed

theorem Run_returns_witness:
  "\<exists>res rc' w'. Run ex_sender example_rc [4] (\<lambda>c h. se_SyncPropose ex_sender c h []) \<lparr>tmNow = 0, tmDeadline = 10 ^ 9\<rparr> = Some ((res, rc'), w')
    \<and> time_left w' \<le> time_left \<lparr>tmNow = 0, tmDeadline = 10 ^ 9\<rparr>"
proof (rule Run_returns [OF ex_timely])
  show "takes_time (se_SyncPropose ex_sender c h [])" for c h by (simp add: takes_time_def time_left_def nat_mono)
  show "rdLeft r < rdRight r" if "fetchRangeDescriptorFromMetaRange ex_sender example_rc [4] w = Some (Inr r, w')" for w r w'
    using ex_fetch [OF that] by (auto simp: first_rd_def meta_rd_def raft_rd_def)
  have "RangeCache_Get example_rc [4] = Some (example_rd 3 5 1)" by code_simp
  then show "rdLeft r < rdRight r" if "RangeCache_Get example_rc [4] = Some r" for r using that by auto
qed simp

end
