(* ===== verification/RaftService.thy ===== *)
theory RaftService
  imports RaftSender
begin

text \<open>
  The requests that a node serves (\<^verbatim>\<open>store.go\<close>) and how they go through the consensus library (\<^verbatim>\<open>client/client.go\<close>): proposing and
  reading through raft, and the files that are read from and written to a replica outside of it.

  The library is \<open>nodehost\<close>: its calls act on the world \<open>w\<close>, and its errors are what it documents, \<^verbatim>\<open>ErrTimeout\<close> and the like,
  with the test for temporary ones. A context is the \<open>sleep\<close> of the retries under it.
\<close>

section \<open>Proposing and reading\<close>

datatype request_outcome = Completed Result | Rejected | Timeout | Terminated | Dropped | UnknownOutcome

text \<open>Waiting for a request ends with its outcome or with the context: canceled, past its deadline, or something else.\<close>

datatype wait_outcome = Applied request_outcome | CtxCanceled | CtxDeadline | CtxOther

record 'w nodehost =
  nh_Propose :: "u64 \<Rightarrow> bytes \<Rightarrow> 'w \<Rightarrow> error option \<times> 'w"
  nh_wait :: "'w \<Rightarrow> wait_outcome \<times> 'w"
  nh_SyncRead :: "u64 \<Rightarrow> bytes \<Rightarrow> 'w \<Rightarrow> (bytes option \<times> error option) \<times> 'w"
  nh_ErrRejected :: error
  nh_ErrTimeout :: error
  nh_ErrClusterClosed :: error
  nh_ErrClusterNotReady :: error
  nh_ErrCanceled :: error
  nh_ErrClusterNotFound :: error
  nh_IsTempError :: "error \<Rightarrow> bool"

text \<open>The result is an error, or what the function's last successful call left in the caller's variables, if there was one.\<close>

definition RunNodehostFn ::
  "'w nodehost \<Rightarrow> (int \<Rightarrow> 'w \<Rightarrow> bool \<times> 'w) \<Rightarrow> ('w \<Rightarrow> (error + 'r) \<times> 'w) \<Rightarrow> 'w \<Rightarrow> ((error + 'r option) \<times> 'w) option" where
  "RunNodehostFn nh sleep nhf w =
     (case retry_loop sleep
             (\<lambda>_ w. case nhf w of
                (Inl err, w') \<Rightarrow> if nh_IsTempError nh err then Some (Inr (), w') else Some (Inl (Inl err), w')
              | (Inr r, w') \<Rightarrow> Some (Inl (Inr r), w'))
             DefaultWithContext () w of
        None \<Rightarrow> None
      | Some (Inl (Inl err), w') \<Rightarrow> Some (Inl err, w')
      | Some (Inl (Inr r), w') \<Rightarrow> Some (Inr (Some r), w')
      | Some (Inr _, w') \<Rightarrow> Some (Inr None, w'))"

definition getRequestState :: "'w nodehost \<Rightarrow> wait_outcome \<Rightarrow> error + Result" where
  "getRequestState nh r =
     (case r of
        Applied (Completed res) \<Rightarrow> Inr res
      | Applied Rejected \<Rightarrow> Inl (nh_ErrRejected nh)
      | Applied Timeout \<Rightarrow> Inl (nh_ErrTimeout nh)
      | Applied Terminated \<Rightarrow> Inl (nh_ErrClusterClosed nh)
      | Applied Dropped \<Rightarrow> Inl (nh_ErrClusterNotReady nh)
      | Applied UnknownOutcome \<Rightarrow> Inl (InternalError ''unknown v code'')
      | CtxCanceled \<Rightarrow> Inl (nh_ErrCanceled nh)
      | CtxDeadline \<Rightarrow> Inl (nh_ErrTimeout nh)
      | CtxOther \<Rightarrow> Inl (InternalError ''unreachable''))"

text \<open>One attempt to propose: the session is a no-op one, so the library does not recognise a repetition.\<close>

definition propose_once :: "'w nodehost \<Rightarrow> u64 \<Rightarrow> bytes \<Rightarrow> 'w \<Rightarrow> (error + Result) \<times> 'w" where
  "propose_once nh clusterID buf w =
     (case nh_Propose nh clusterID buf w of
        (Some err, w1) \<Rightarrow> (Inl err, w1)
      | (None, w1) \<Rightarrow> (case nh_wait nh w1 of (r, w2) \<Rightarrow> (getRequestState nh r, w2)))"

definition SyncProposeLocal ::
  "('db, 'wb) replica_env \<Rightarrow> 'w nodehost \<Rightarrow> (int \<Rightarrow> 'w \<Rightarrow> bool \<times> 'w) \<Rightarrow> u64 \<Rightarrow> RequestUnion list \<Rightarrow> 'w
    \<Rightarrow> ((error + ResponseUnion list) \<times> 'w) option" where
  "SyncProposeLocal e nh sleep clusterID batch w =
     (case c_Marshal (en_req e) batch of
        Inl err \<Rightarrow> Some (Inl err, w)
      | Inr buf \<Rightarrow>
          (case RunNodehostFn nh sleep (propose_once nh clusterID buf) w of
             None \<Rightarrow> None
           | Some (Inl err, w') \<Rightarrow> Some (Inl err, w')
           | Some (Inr raftResponse, w') \<Rightarrow>
               Some (c_Unmarshal (en_rsp e) (case raftResponse of None \<Rightarrow> [] | Some r \<Rightarrow> resData r), w')))"

text \<open>Here every attempt, also one that fails, leaves its value; \<open>None\<close> is one that is not a byte slice.\<close>

definition SyncReadLocal ::
  "('db, 'wb) replica_env \<Rightarrow> 'w nodehost \<Rightarrow> (int \<Rightarrow> 'w \<Rightarrow> bool \<times> 'w) \<Rightarrow> u64 \<Rightarrow> RequestUnion list \<Rightarrow> 'w
    \<Rightarrow> ((error + ResponseUnion list) \<times> 'w) option" where
  "SyncReadLocal e nh sleep clusterID batch w =
     (case c_Marshal (en_req e) batch of
        Inl err \<Rightarrow> Some (Inl err, w)
      | Inr buf \<Rightarrow>
          (case retry_loop sleep
                  (\<lambda>_ w. case nh_SyncRead nh clusterID buf w of
                     ((val, None), w') \<Rightarrow> Some (Inl (Inr val), w')
                   | ((val, Some err), w') \<Rightarrow> if nh_IsTempError nh err then Some (Inr val, w') else Some (Inl (Inl err), w'))
                  DefaultWithContext None w of
             None \<Rightarrow> None
           | Some (Inl (Inl err), w') \<Rightarrow> Some (Inl err, w')
           | Some (r, w') \<Rightarrow>
               Some (case (case r of Inl (Inr val) \<Rightarrow> val | Inr val \<Rightarrow> val | Inl (Inl err) \<Rightarrow> None) of
                       None \<Rightarrow> Inl (FailedPreconditionError ''SyncRead returned a non-[]byte response.'')
                     | Some rsp \<Rightarrow> c_Unmarshal (en_rsp e) rsp, w')))"

text \<open>The requests of other nodes. A missing cluster is reported so that the sender tries the next replica.\<close>

definition header_cluster :: "Header option \<Rightarrow> u64" where
  "header_cluster h = (case h of None \<Rightarrow> 0 | Some h \<Rightarrow> (case hReplica h of None \<Rightarrow> 0 | Some r \<Rightarrow> cluster_id r))"

definition cluster_error :: "'w nodehost \<Rightarrow> error \<Rightarrow> error" where
  "cluster_error nh err =
     (if err = nh_ErrClusterNotFound nh then OutOfRangeError (RangeLeaseInvalidMsg @ '': cluster not found'') else err)"

definition Store_SyncPropose ::
  "('db, 'wb) replica_env \<Rightarrow> 'w nodehost \<Rightarrow> (int \<Rightarrow> 'w \<Rightarrow> bool \<times> 'w) \<Rightarrow> Header option \<Rightarrow> RequestUnion list \<Rightarrow> 'w
    \<Rightarrow> ((error + ResponseUnion list) \<times> 'w) option" where
  "Store_SyncPropose e nh sleep header batch w =
     map_option (\<lambda>(r, w'). (case r of Inl err \<Rightarrow> Inl (cluster_error nh err) | Inr rsp \<Rightarrow> Inr rsp, w'))
       (SyncProposeLocal e nh sleep (header_cluster header) batch w)"

definition Store_SyncRead ::
  "('db, 'wb) replica_env \<Rightarrow> 'w nodehost \<Rightarrow> (int \<Rightarrow> 'w \<Rightarrow> bool \<times> 'w) \<Rightarrow> Header option \<Rightarrow> RequestUnion list \<Rightarrow> 'w
    \<Rightarrow> ((error + ResponseUnion list) \<times> 'w) option" where
  "Store_SyncRead e nh sleep header batch w =
     map_option (\<lambda>(r, w'). (case r of Inl err \<Rightarrow> Inl (cluster_error nh err) | Inr rsp \<Rightarrow> Inr rsp, w'))
       (SyncReadLocal e nh sleep (header_cluster header) batch w)"

section \<open>Files\<close>

definition header_range :: "Header option \<Rightarrow> u64" where
  "header_range h = (case h of None \<Rightarrow> 0 | Some h \<Rightarrow> hRangeId h)"

text \<open>The database of the replica that a request names; a nil one panics when it is used.\<close>

definition request_db :: "Header option \<Rightarrow> 'db store_node \<Rightarrow> error + 'db option" where
  "request_db header n =
     (case GetReplica (header_range header) n of Inl err \<Rightarrow> Inl err | Inr a \<Rightarrow> Reader a n)"

fun missing_files :: "kvs \<Rightarrow> FileRecord list \<Rightarrow> error + FileRecord list" where
  "missing_files all [] = Inr []"
| "missing_files all (f # fs) =
     (case FileMetadataKey f of
        Inl err \<Rightarrow> Inl err
      | Inr key \<Rightarrow>
          (case missing_files all fs of
             Inl err \<Rightarrow> Inl err
           | Inr rest \<Rightarrow>
               Inr ((case iter_SeekGE key all of (k, _) # _ \<Rightarrow> if k = key then [] else [f] | [] \<Rightarrow> [f]) @ rest)))"

definition Store_FindMissing ::
  "('db, 'wb) replica_env \<Rightarrow> (u64 \<Rightarrow> bool) \<Rightarrow> Header option \<Rightarrow> FileRecord list \<Rightarrow> 'db store_node \<Rightarrow> (error + FileRecord list) option \<times> 'db store_node" where
  "Store_FindMissing e lease_valid header files n =
     (case RangeIsActive lease_valid header n of
        (Some err, n1) \<Rightarrow> (Some (Inl err), n1)
      | (None, n1) \<Rightarrow>
          (case request_db header n1 of
             Inl err \<Rightarrow> (Some (Inl err), n1)
           | Inr None \<Rightarrow> (None, n1)
           | Inr (Some db) \<Rightarrow> (Some (missing_files (pb_All (en_pebble e) db) files), n1)))"

definition store_readBufSizeBytes :: int where "store_readBufSizeBytes = 1000000"

definition read_buf_size :: "int \<Rightarrow> int" where
  "read_buf_size sizeBytes = (if sizeBytes > 0 \<and> sizeBytes < store_readBufSizeBytes then sizeBytes else store_readBufSizeBytes)"

text \<open>
  What \<open>Read\<close> sends, and its error. \<open>cf\<close> copies a file on disk; the number of calls of \<^verbatim>\<open>Read\<close> on one in the store is bounded by \<open>fuel\<close>.
\<close>

definition Store_Read ::
  "('db, 'wb) replica_env \<Rightarrow> (u64 \<Rightarrow> bool) \<Rightarrow> (string \<Rightarrow> error + 'f) \<Rightarrow> ('f \<Rightarrow> nat \<Rightarrow> bytes \<times> error option) \<Rightarrow> string \<Rightarrow> nat
    \<Rightarrow> Header option \<Rightarrow> FileRecord \<Rightarrow> 'db store_node \<Rightarrow> (bytes \<times> error option) option \<times> 'db store_node" where
  "Store_Read e lease_valid open_file cf fileDir fuel header f n =
     (case RangeIsActive lease_valid header n of
        (Some err, n1) \<Rightarrow> (Some ([], Some err), n1)
      | (None, n1) \<Rightarrow>
          (case request_db header n1 of
             Inl err \<Rightarrow> (Some ([], Some err), n1)
           | Inr None \<Rightarrow> (None, n1)
           | Inr (Some db) \<Rightarrow>
          (case FileMetadataKey f of
             Inl err \<Rightarrow> (Some ([], Some err), n1)
           | Inr key \<Rightarrow>
          (case iter_SeekGE key (pb_All (en_pebble e) db) of
             [] \<Rightarrow> (Some ([], Some (NotFoundError ''file not found'')), n1)
           | (k, v) # _ \<Rightarrow>
               if k \<noteq> key then (Some ([], Some (NotFoundError ''file not found'')), n1)
               else
          (case c_Unmarshal (en_fm e) v of
             Inl _ \<Rightarrow> (Some ([], Some (InternalError ''error reading file metadata'')), n1)
           | Inr md \<Rightarrow>
          (case NewReader open_file fileDir (pb_All (en_pebble e) db)
                  (case fmStorage md of None \<Rightarrow> \<lparr>smFile = None, smPebble = None\<rparr> | Some s \<Rightarrow> s) of
             Inl err \<Rightarrow> (Some ([], Some err), n1)
           | Inr rd \<Rightarrow>
               let bufSize = nat (read_buf_size (dSizeBytes (fr_digest f))) in
               (case rd of
                  DiskReader d \<Rightarrow> (Some (cf d bufSize), n1)
                | ChunkReader c \<Rightarrow> (copy_reader fuel (replicate bufSize 0) c, n1))))))))"

record FileWriteMessage =
  fwHeader :: "Header option"
  fwRecord :: FileRecord
  fwData :: bytes
  fwFinish :: bool

text \<open>
  The stream of \<open>Write\<close>: the messages that arrive, then its end (\<open>None\<close>) or an error. The state between messages is the
  replica, the key of the metadata and the writer, once the first message has come. The result is an error or the committed
  size, if the stream was answered.
\<close>

fun write_stream_loop ::
  "('db, 'wb) replica_env \<Rightarrow> (nat \<times> bytes \<times> 'wb pebbleChunker) option \<Rightarrow> int \<Rightarrow> FileWriteMessage list \<Rightarrow> error option \<Rightarrow> 'db store_node
    \<Rightarrow> ((error + int option) \<times> 'db store_node) option" where
  "write_stream_loop e st bytesWritten [] fin n =
     Some (case fin of None \<Rightarrow> Inr None | Some err \<Rightarrow> Inl err, n)"
| "write_stream_loop e st bytesWritten (req # reqs) fin n =
     (case (case st of
              Some s \<Rightarrow> Inr (Some s)
            | None \<Rightarrow>
                (case GetReplica (header_range (fwHeader req)) n of
                   Inl err \<Rightarrow> Inl err
                 | Inr a \<Rightarrow>
                (case DB a n of
                   Inl err \<Rightarrow> Inl err
                 | Inr None \<Rightarrow> Inr None
                 | Inr (Some db) \<Rightarrow>
                (case FileMetadataKey (fwRecord req) of
                   Inl err \<Rightarrow> Inl err
                 | Inr key \<Rightarrow>
                (case NewWriter (pb_NewBatch (en_pebble e)) (fwRecord req) of
                   Inl err \<Rightarrow> Inl err
                 | Inr wc \<Rightarrow> Inr (Some (a, key, wc))))))) of
        Inl err \<Rightarrow> Some (Inl err, n)
      | Inr None \<Rightarrow> None
      | Inr (Some (a, key, wc)) \<Rightarrow>
          (case chunker_Write (pb_Set (en_pebble e)) wc (fwData req) of
             None \<Rightarrow> None
           | Some ((_, Some err), _) \<Rightarrow> Some (Inl err, n)
           | Some ((k, None), wc1) \<Rightarrow>
               let written = bytesWritten + int k in
               if \<not> fwFinish req then write_stream_loop e (Some (a, key, wc1)) written reqs fin n
               else
                 (case chunker_Close (pb_Set (en_pebble e)) wc1 of
                    (Some err, _) \<Rightarrow> Some (Inl err, n)
                  | (None, wc2) \<Rightarrow>
                 (case c_Marshal (en_fm e) \<lparr>fmRecord = fwRecord req, fmStorage = chunker_Metadata wc2\<rparr> of
                    Inl err \<Rightarrow> Some (Inl err, n)
                  | Inr protoBytes \<Rightarrow>
                 (case pb_Set (en_pebble e) key protoBytes (chWb wc2) of
                    Inl err \<Rightarrow> Some (Inl err, n)
                  | Inr batch \<Rightarrow>
                 (case rpDb (nReps n a) of
                    None \<Rightarrow> None
                  | Some db \<Rightarrow>
                 (case pb_Apply (en_pebble e) db batch of
                    Inl err \<Rightarrow> Some (Inl err, n)
                  | Inr db' \<Rightarrow> Some (Inr (Some written), update_rep a (\<lambda>r. r\<lparr>rpDb := Some db'\<rparr>) n))))))))"

definition Store_Write ::
  "('db, 'wb) replica_env \<Rightarrow> FileWriteMessage list \<Rightarrow> error option \<Rightarrow> 'db store_node \<Rightarrow> ((error + int option) \<times> 'db store_node) option" where
  "Store_Write e reqs fin n = write_stream_loop e None 0 reqs fin n"

text \<open>A file that this replica lacks is read from another replica of its range; \<open>read\<close> opens a reader there.\<close>

definition peer_read :: "(string \<Rightarrow> Header \<Rightarrow> FileRecord \<Rightarrow> 'w \<Rightarrow> (error + 'r) \<times> 'w) \<Rightarrow> ReplicaDescriptor \<Rightarrow> FileRecord \<Rightarrow> ('w, 'r) runFunc" where
  "peer_read read except fileRecord c h w =
     (let r = (case hReplica h of None \<Rightarrow> \<lparr>cluster_id = 0, node_id = 0\<rparr> | Some r \<Rightarrow> r) in
      if cluster_id r = cluster_id except \<and> node_id r = node_id except then (Inl (OutOfRangeError ''except node''), w)
      else read c h fileRecord w)"

definition Store_ReadFileFromPeer ::
  "'w sender_env \<Rightarrow> RangeCache \<Rightarrow> (string \<Rightarrow> Header \<Rightarrow> FileRecord \<Rightarrow> 'w \<Rightarrow> (error + 'r) \<times> 'w) \<Rightarrow> ReplicaDescriptor \<Rightarrow> FileRecord \<Rightarrow> 'w
    \<Rightarrow> (((error + 'r) \<times> RangeCache) \<times> 'w) option" where
  "Store_ReadFileFromPeer e rc read except fileRecord w =
     (case FileMetadataKey fileRecord of
        Inl err \<Rightarrow> Some ((Inl err, rc), w)
      | Inr key \<Rightarrow> Run e rc key (peer_read read except fileRecord) w)"

section \<open>What a timeout looks like\<close>

text \<open>C22: A proposal that only ever fails temporarily, until its context is done, is reported as a success with an empty response, since
  the retry loop forgets its last error; a read in the same situation is reported as a failure. (That no bytes
  decode as an empty message is how protocol buffers are defined.)\<close>

theorem timed_out_proposal_succeeds:
  assumes "\<And>w. \<exists>err w'. propose_once nh clusterID buf w = (Inl err, w') \<and> nh_IsTempError nh err \<and> time_left w' \<le> time_left w"
    and "\<And>w. \<exists>err w'. nh_SyncRead nh clusterID buf w = ((None, Some err), w') \<and> nh_IsTempError nh err \<and> time_left w' \<le> time_left w"
    and "c_Marshal (en_req e) batch = Inr buf" and "c_Unmarshal (en_rsp e) [] = Inr []"
  shows "(\<exists>w'. SyncProposeLocal e nh deadline_sleep clusterID batch w = Some (Inr [], w'))
    \<and> (\<exists>w'. SyncReadLocal e nh deadline_sleep clusterID batch w
        = Some (Inl (FailedPreconditionError ''SyncRead returned a non-[]byte response.''), w'))"
proof
  let ?body = "\<lambda>(_ :: unit) w. case propose_once nh clusterID buf w of
      (Inl err, w') \<Rightarrow> if nh_IsTempError nh err then Some (Inr (), w') else Some (Inl (Inl err), w')
    | (Inr r, w') \<Rightarrow> Some (Inl (Inr r), w')"
  have b: "\<exists>w'. ?body s w = Some (Inr (), w') \<and> time_left w' \<le> time_left w" for s w
    using assms(1) [of w] by fastforce
  then obtain w' where "retry_loop deadline_sleep ?body DefaultWithContext () w = Some (Inr (), w')"
    using deadline.loop_runs_out [of ?body "()"] by fastforce
  with assms(3,4) show "\<exists>w'. SyncProposeLocal e nh deadline_sleep clusterID batch w = Some (Inr [], w')"
    by (simp add: SyncProposeLocal_def RunNodehostFn_def)
next
  let ?body = "\<lambda>(_ :: bytes option) w. case nh_SyncRead nh clusterID buf w of
      ((val, None), w') \<Rightarrow> Some (Inl (Inr val), w')
    | ((val, Some err), w') \<Rightarrow> if nh_IsTempError nh err then Some (Inr val, w') else Some (Inl (Inl err), w')"
  have b: "\<exists>w'. ?body s w = Some (Inr None, w') \<and> time_left w' \<le> time_left w" for s w
    using assms(2) [of w] by fastforce
  then obtain w' where "retry_loop deadline_sleep ?body DefaultWithContext None w = Some (Inr None, w')"
    using deadline.loop_runs_out [of ?body None] by fastforce
  with assms(3) show "\<exists>w'. SyncReadLocal e nh deadline_sleep clusterID batch w
      = Some (Inl (FailedPreconditionError ''SyncRead returned a non-[]byte response.''), w')"
    by (simp add: SyncReadLocal_def)
qed

section \<open>Looking for a file at another replica\<close>

lemma except_first:
  assumes "replicas rd \<noteq> []" and "hd (replicas rd) = except" and "connectionForReplicaDescriptor e except w = (Inr addr, w')"
  shows "tryReplicas e rd (peer_read read except f) w = (Inl (OutOfRangeError ''except node''), w')"
proof -
  obtain rs where rs: "replicas rd = except # rs" using assms(1,2) by (cases "replicas rd") auto
  have "makeHeader rd 0 = \<lparr>hReplica = Some except, hRangeId = range_id rd, hGeneration = generation rd\<rparr>"
    by (simp add: makeHeader_def rs)
  then show ?thesis
    by (simp add: tryReplicas_def rs assms(3) peer_read_def status_simps Message_def error_defs strings_HasPrefix_def
        RangeNotFoundMsg_def RangeNotCurrentMsg_def RangeNotLeasedMsg_def RangeLeaseInvalidMsg_def)
qed

text \<open>A replica that needs a file while it applies an entry looks for it among the replicas of its range, itself excepted; but the
  exception ends the search instead of moving on. So a replica that is listed first never asks the others, whatever they have, and as
  the call has no deadline it retries for ever, and the replica stops applying entries.\<close>

theorem peer_search_hangs:
  assumes "FileMetadataKey f = Inr key" and "\<And>d w. fst (se_sleep e d w)"
    and "\<And>skip w. \<exists>rd w1. LookupRangeDescriptor e rc key skip w = Some (Inr rd, w1) \<and> replicas rd \<noteq> [] \<and> hd (replicas rd) = except"
    and "\<And>w. \<exists>addr w1. connectionForReplicaDescriptor e except w = (Inr addr, w1)"
  shows "Store_ReadFileFromPeer e rc read except f w = None"
proof -
  have "\<exists>rd w1 err w2. LookupRangeDescriptor e rc key skip w = Some (Inr rd, w1)
      \<and> tryReplicas e rd (peer_read read except f) w1 = (Inl err, w2) \<and> err_code err = OutOfRange" for skip w
  proof -
    obtain rd w1 where l: "LookupRangeDescriptor e rc key skip w = Some (Inr rd, w1)" "replicas rd \<noteq> []" "hd (replicas rd) = except"
      using assms(3) by blast
    obtain addr w2 where "connectionForReplicaDescriptor e except w1 = (Inr addr, w2)" using assms(4) by blast
    from except_first [OF l(2,3) this] have "tryReplicas e rd (peer_read read except f) w1 = (Inl (OutOfRangeError ''except node''), w2)" .
    with l(1) show ?thesis by (auto simp: error_defs intro!: exI [of _ rd])
  qed
  then show ?thesis
    using Run_never_gives_up [of e rc key "peer_read read except f" w] assms(1,2) by (simp add: Store_ReadFileFromPeer_def)
qed

section \<open>Files that were written read back\<close>

text \<open>The bytes that a stream of messages carries: up to the one that finishes the file.\<close>

fun sent :: "FileWriteMessage list \<Rightarrow> bytes" where
  "sent [] = []"
| "sent (r # rs) = fwData r @ (if fwFinish r then [] else sent rs)"

lemma metadata_key_not_chunk:
  assumes "FileMetadataKey f = Inr key" and "FileDataKey f = Inr dkey"
  shows "key \<noteq> chunkName dkey i"
proof -
  have "dkey = key @ str_key ''-''" using assms by (simp add: FileDataKey_of_metadata)
  then have "length key < length (chunkName dkey i)" by (simp add: chunkName_def str_key_def)
  then show ?thesis by auto
qed

context pebble_store
begin

abbreviation over :: "'db \<Rightarrow> 'wb \<Rightarrow> bytes \<rightharpoonup> bytes" where
  "over db wb \<equiv> effect wb (contents db)"

lemma Set_sets_key: "sets_key (pb_Set P) (over db)"
  by (simp add: sets_key_def Set)

text \<open>The loop of \<open>Write\<close> once the writer is open, and from the start.\<close>

lemma write_stream_open:
  assumes "write_stream_loop e (Some (a, key, wc)) written reqs fin n = Some (Inr (Some sz), n')"
    and e: "en_pebble e = P" and inv: "chunker_inv (over db) c0 wc chs D" and f: "\<forall>r\<in>set reqs. fwRecord r = f"
    and db: "rpDb (nReps n a) = Some db"
  shows "\<exists>b md db'. stored_chunks (over db b) (chKey c0) (chCap c0) md \<and> concat md = D @ sent reqs
    \<and> (\<exists>v. c_Marshal (en_fm e) \<lparr>fmRecord = f, fmStorage = Some \<lparr>smFile = None, smPebble = Some \<lparr>pmKey = chKey c0, pmChunks = int (length md)\<rparr>\<rparr>\<rparr> = Inr v
        \<and> contents db' = (over db b)(key \<mapsto> v))
    \<and> n' = update_rep a (\<lambda>r. r\<lparr>rpDb := Some db'\<rparr>) n \<and> sz = written + int (length (sent reqs))"
  using assms(1) inv f
proof (induction reqs arbitrary: wc written chs D)
  case (Cons r rs)
  obtain k err wc1 where wl: "write_loop (pb_Set P) wc (fwData r) 0 = Some ((k, err), wc1)"
    and ok: "err = None \<longrightarrow> k = 0 + length (fwData r) \<and> (\<exists>chs'. chunker_inv (over db) c0 wc1 chs' (D @ fwData r))"
    using write_loop_ok [OF Set_sets_key Cons.prems(2), of "fwData r" 0] by blast
  have cw: "chunker_Write (pb_Set P) wc (fwData r) = Some ((k, err), wc1)"
    using wl Cons.prems(2) by (simp add: chunker_Write_def chunker_inv_def)
  have "err = None" using Cons.prems(1) cw by (auto simp: e split: option.splits)
  with ok obtain chs' where k: "k = length (fwData r)" and inv': "chunker_inv (over db) c0 wc1 chs' (D @ fwData r)" by auto
  show ?case
  proof (cases "fwFinish r")
    case False
    then show ?thesis
      using Cons.IH [OF _ inv', of "written + int k"] Cons.prems(1,3) cw k \<open>err = None\<close> by (simp add: e add.assoc)
  next
    case True
    obtain wc2 v wb db' where c: "chunker_Close (pb_Set P) wc1 = (None, wc2)"
      "c_Marshal (en_fm e) \<lparr>fmRecord = fwRecord r, fmStorage = chunker_Metadata wc2\<rparr> = Inr v"
      "pb_Set P key v (chWb wc2) = Inr wb" "pb_Apply P db wb = Inr db'"
      "n' = update_rep a (\<lambda>r. r\<lparr>rpDb := Some db'\<rparr>) n" "sz = written + int k"
      using Cons.prems(1) cw \<open>err = None\<close> True db by (auto simp: e split: prod.splits option.splits sum.splits)
    obtain md where md: "stored_chunks (over db (chWb wc2)) (chKey c0) (chCap c0) md" "concat md = D @ fwData r"
      "chunker_Metadata wc2 = Some \<lparr>smFile = None, smPebble = Some \<lparr>pmKey = chKey c0, pmChunks = int (length md)\<rparr>\<rparr>"
      using chunker_Close_ok [OF Set_sets_key inv' c(1)] by blast
    have "contents db' = (over db (chWb wc2))(key \<mapsto> v)" using Apply [OF c(4)] Set [OF c(3)] by simp
    moreover have "fwRecord r = f" "sent (r # rs) = fwData r" using Cons.prems(3) True by simp_all
    ultimately show ?thesis
      using md c(2,5,6) k by metis
  qed
qed (auto split: option.splits)

lemma read_stored:
  assumes "stored_chunks m key0 maxPebbleValueSize chs" and it: "kv_iter it m'"
    and "\<forall>i. m' (chunkName key0 i) = m (chunkName key0 i)"
    and "L \<noteq> 0" and "L dvd maxPebbleValueSize \<or> length (concat chs) < maxPebbleValueSize" and "length (concat chs) < fuel"
  shows "copy_reader fuel (replicate L 0) (PebbleReader it \<lparr>pmKey = key0, pmChunks = int (length chs)\<rparr>) = Some (concat chs, None)"
proof -
  have s: "stored_chunks m' key0 maxPebbleValueSize chs" using assms(1,3) by (simp add: stored_chunks_def)
  have al: "aligned L ([] # chs)"
  proof (cases "L dvd maxPebbleValueSize")
    case True
    then show ?thesis by (rule stored_chunks_aligned [OF s])
  next
    case False
    have "butlast chs = []"
    proof (rule ccontr)
      assume ne: "butlast chs \<noteq> []"
      then obtain a as where "butlast chs = a # as" by (meson list.exhaust)
      then have "length a = maxPebbleValueSize" "length a \<le> length (concat (butlast chs))"
        using s by (auto simp: stored_chunks_def)
      moreover have "length (concat (butlast chs)) \<le> length (concat chs)"
        by (cases chs rule: rev_cases) auto
      ultimately show False using False assms(5) by auto
    qed
    then show ?thesis by (cases chs) (auto simp: aligned_def)
  qed
  have "stBuf (PebbleReader it \<lparr>pmKey = key0, pmChunks = int (length chs)\<rparr>) = []" by (simp add: PebbleReader_def)
  then show ?thesis
    using copy_reader_ok [OF PebbleReader_ahead [OF it s], of "replicate L 0" fuel] al s assms(4,6) by (simp add: stored_chunks_def)
qed

end

lemma RangeIsActive_node:
  "RangeIsActive lv header n = (None, n1) \<Longrightarrow> n1 = n"
  by (auto simp: RangeIsActive_def split: option.splits if_splits)

text \<open>C8: A file that a client sent to a node in any pieces and that was acknowledged, of the size that its digest names, reads back whole from that node as
  long as it serves the range: the reader's buffer, which the digest's size decides, always fits the chunks then.\<close>

theorem stored_file_reads_back:
  assumes P: "pebble_store (en_pebble e) cont eff" and fm: "codec_ok (en_fm e)"
    and wrote: "Store_Write e reqs fin n = Some (Inr (Some sz), n')"
    and one: "\<forall>r\<in>set reqs. fwRecord r = f" "header_range (fwHeader (hd reqs)) = header_range header"
    and digest: "dSizeBytes (fr_digest f) = sz"
    and active: "RangeIsActive lease_valid header n' = (None, n')" and fuel: "nat sz < fuel"
  shows "Store_Read e lease_valid open_file cf dir fuel header f n' = (Some (sent reqs, None), n')
    \<and> sz = int (length (sent reqs))"
proof -
  obtain r rs where reqs: "reqs = r # rs" using wrote by (cases reqs) (auto simp: Store_Write_def split: option.splits)
  obtain a db key wc where o: "GetReplica (header_range header) n = Inr a" "DB a n = Inr (Some db)" "FileMetadataKey f = Inr key"
    "NewWriter (pb_NewBatch (en_pebble e)) f = Inr wc"
    and w: "write_stream_loop e (Some (a, key, wc)) 0 reqs fin n = Some (Inr (Some sz), n')"
    using wrote one unfolding Store_Write_def reqs
    by (auto split: sum.splits option.splits simp del: write_stream_loop.simps(1)
        simp: write_stream_loop.simps(2) [of e None] write_stream_loop.simps(2) [of e "Some s" for s])
  note wc = NewWriter_inv [OF o(4), where view = "\<lambda>wb. eff wb (cont db)"]
  have db: "rpDb (nReps n a) = Some db" "\<not> rpClosed (nReps n a)" using o(2) by (auto simp: DB_def split: if_splits)
  obtain b md v db' where s: "stored_chunks (eff b (cont db)) (chKey wc) maxPebbleValueSize md" "concat md = sent reqs"
    "c_Marshal (en_fm e) \<lparr>fmRecord = f, fmStorage = Some \<lparr>smFile = None, smPebble = Some \<lparr>pmKey = chKey wc, pmChunks = int (length md)\<rparr>\<rparr>\<rparr> = Inr v"
    "cont db' = (eff b (cont db))(key \<mapsto> v)" "n' = update_rep a (\<lambda>r. r\<lparr>rpDb := Some db'\<rparr>) n" "sz = int (length (sent reqs))"
    using pebble_store.write_stream_open [OF P w refl _ one(1) db(1), of wc "[]" "[]"] wc by auto
  let ?all = "pb_All (en_pebble e) db'"
  have it: "kv_iter ?all (cont db')" by (rule pebble_store.All [OF P])
  then obtain rest where g: "iter_SeekGE key ?all = (key, v) # rest" using iter_SeekGE_found [OF it, of key v] s(4) by auto
  let ?L = "nat (read_buf_size sz)"
  have L: "?L \<noteq> 0" "?L dvd maxPebbleValueSize \<or> length (sent reqs) < maxPebbleValueSize"
    using s(6) by (auto simp: read_buf_size_def store_readBufSizeBytes_def maxPebbleValueSize_def)
  have "\<forall>i. cont db' (chunkName (chKey wc) i) = eff b (cont db) (chunkName (chKey wc) i)"
    using metadata_key_not_chunk [OF o(3), of "chKey wc"] wc s(4) by auto
  then have "copy_reader fuel (replicate ?L 0) (PebbleReader ?all \<lparr>pmKey = chKey wc, pmChunks = int (length md)\<rparr>) = Some (sent reqs, None)"
    using pebble_store.read_stored [OF P s(1) it _ L(1), unfolded s(2)] L(2) fuel s(6) by simp
  moreover have "request_db header n' = Inr (Some db')"
    using o(1) db by (simp add: request_db_def GetReplica_def Reader_def s(5) node_simps split: option.splits)
  moreover have "c_Unmarshal (en_fm e) v = Inr \<lparr>fmRecord = f, fmStorage = Some \<lparr>smFile = None, smPebble = Some \<lparr>pmKey = chKey wc, pmChunks = int (length md)\<rparr>\<rparr>\<rparr>"
    by (rule codec_okD [OF fm s(3)])
  ultimately show ?thesis
    using s(6) g by (simp add: Store_Read_def active o(3) digest NewReader_def Let_def)
qed

section \<open>Witnesses\<close>

definition ErrTimeout_ex :: error where "ErrTimeout_ex = Err Unknown ''timeout''"

text \<open>A cluster without a leader: every call times out.\<close>

definition ex_nodehost :: "timed nodehost" where
  "ex_nodehost =
     \<lparr>nh_Propose = \<lambda>c buf w. (None, w), nh_wait = \<lambda>w. (Applied Timeout, w), nh_SyncRead = \<lambda>c buf w. ((None, Some ErrTimeout_ex), w),
      nh_ErrRejected = Err Unknown ''rejected'', nh_ErrTimeout = ErrTimeout_ex, nh_ErrClusterClosed = Err Unknown ''closed'',
      nh_ErrClusterNotReady = Err Unknown ''not ready'', nh_ErrCanceled = Err Unknown ''canceled'',
      nh_ErrClusterNotFound = Err Unknown ''not found'', nh_IsTempError = \<lambda>err. err = ErrTimeout_ex\<rparr>"

text \<open>An environment whose encodings know one batch, the empty response and one file's metadata.\<close>

definition ex_md :: "FileRecord \<Rightarrow> FileMetadata" where
  "ex_md f = \<lparr>fmRecord = f, fmStorage = Some \<lparr>smFile = None, smPebble = Some \<lparr>pmKey = (case FileDataKey f of Inr k \<Rightarrow> k | Inl _ \<Rightarrow> []), pmChunks = 1\<rparr>\<rparr>\<rparr>"

definition file_env :: "(mem_op list, mem_op list) replica_env" where
  "file_env = (mem_env [[]])\<lparr>
     en_req := \<lparr>c_Marshal = \<lambda>reqs. if reqs = [ReqDirectRead [5]] then Inr [0] else Inl (Err Unknown ''''), c_Unmarshal = \<lambda>b. Inr [ReqDirectRead [5]]\<rparr>,
     en_rsp := \<lparr>c_Marshal = \<lambda>rsps. Inr [], c_Unmarshal = \<lambda>b. Inr []\<rparr>,
     en_fm := \<lparr>c_Marshal = \<lambda>md. if md = ex_md example_record then Inr [1] else Inl (Err Unknown ''''),
              c_Unmarshal = \<lambda>b. Inr (ex_md example_record)\<rparr>\<rparr>"

theorem timed_out_proposal_succeeds_witness:
  "(\<exists>w'. SyncProposeLocal file_env ex_nodehost deadline_sleep 1 [ReqDirectRead [5]] \<lparr>tmNow = 0, tmDeadline = 10 ^ 9\<rparr> = Some (Inr [], w'))
    \<and> (\<exists>w'. SyncReadLocal file_env ex_nodehost deadline_sleep 1 [ReqDirectRead [5]] \<lparr>tmNow = 0, tmDeadline = 10 ^ 9\<rparr>
        = Some (Inl (FailedPreconditionError ''SyncRead returned a non-[]byte response.''), w'))"
  by (rule timed_out_proposal_succeeds [where buf = "[0]"])
    (simp_all add: propose_once_def getRequestState_def ex_nodehost_def file_env_def)

text \<open>A file sent in two messages.\<close>

definition ex_header :: Header where
  "ex_header = \<lparr>hReplica = Some \<lparr>cluster_id = 1, node_id = 1\<rparr>, hRangeId = 1, hGeneration = 1\<rparr>"

definition ex_messages :: "FileWriteMessage list" where
  "ex_messages = [\<lparr>fwHeader = Some ex_header, fwRecord = example_record, fwData = [1, 2, 3], fwFinish = False\<rparr>,
     \<lparr>fwHeader = None, fwRecord = example_record, fwData = [4, 5, 6, 7], fwFinish = True\<rparr>]"

lemma file_env_store: "pebble_store (en_pebble file_env) mem_contents mem_effect" "en_pebble file_env = mem_pebble"
  using mem.pebble_store_axioms by (simp_all add: file_env_def mem_env_def)

lemma file_env_codec: "codec_ok (en_fm file_env)"
  by (simp add: file_env_def codec_ok_def)

lemma ex_written:
  "\<exists>n'. Store_Write file_env ex_messages None (example_node []) = Some (Inr (Some 7), n')
    \<and> RangeIsActive (\<lambda>i. i = 1) (Some ex_header) n' = (None, n')"
proof -
  obtain key where k: "FileMetadataKey example_record = Inr key" using FileMetadataKey_plain [OF example_record_plain] by blast
  then have d: "FileDataKey example_record = Inr (key @ str_key ''-'')" by (simp add: FileDataKey_of_metadata)
  show ?thesis
    by (simp add: Store_Write_def ex_messages_def header_range_def ex_header_def GetReplica_def example_node_def DB_def example_rep_def k
        NewWriter_def PebbleWriter_def d file_env_store(2) chunker_Write_def write_loop.simps chunker_Close_def flush_def
        maxPebbleValueSize_def initialChunkNum_def chunker_Metadata_def file_env_def ex_md_def RangeIsActive_def raft_rd_def
        update_rep_def mem_env_def Let_def)
qed

theorem stored_file_reads_back_witness:
  "\<exists>n'. Store_Write file_env ex_messages None (example_node []) = Some (Inr (Some 7), n')
    \<and> Store_Read file_env (\<lambda>i. i = 1) (\<lambda>name. Inr ()) (\<lambda>f l. ([], None)) '''' 8 (Some ex_header) example_record n' = (Some ([1, 2, 3, 4, 5, 6, 7], None), n')"
proof -
  obtain n' where n': "Store_Write file_env ex_messages None (example_node []) = Some (Inr (Some 7), n')"
    "RangeIsActive (\<lambda>i. i = 1) (Some ex_header) n' = (None, n')" using ex_written by blast
  have "sent ex_messages = [1, 2, 3, 4, 5, 6, 7]" by (simp add: ex_messages_def)
  then show ?thesis
    using stored_file_reads_back [OF file_env_store(1) file_env_codec n'(1), of example_record "Some ex_header" "\<lambda>i. i = 1" 8 "\<lambda>name. Inr ()"
        "\<lambda>f l. ([], None)" "''''"] n'
    by (simp add: ex_messages_def example_record_def)
qed

text \<open>A range whose first replica is the one that looks for the file; the second one would have it.\<close>

definition two_rd :: RangeDescriptor where
  "two_rd = raft_rd\<lparr>replicas := [\<lparr>cluster_id = 1, node_id = 1\<rparr>, \<lparr>cluster_id = 1, node_id = 2\<rparr>]\<rparr>"

definition two_db :: "mem_op list" where
  "two_db = [MemSet (RangeMetaKey [200]) (enc_rd two_rd)]"

definition no_deadline :: "unit sender_env" where
  "no_deadline =
     \<lparr>se_ResolveGRPC = \<lambda>c n. Inr ''node'', se_Get = \<lambda>addr w. (None, w),
      se_SyncPropose = \<lambda>c h reqs w. (Inr [], w),
      se_SyncRead = \<lambda>c h reqs w. (Inr (map (handleRead (mem_env []) two_db) reqs), w),
      se_rd = mem_rd_codec, se_sleep = \<lambda>d w. (True, w)\<rparr>"

lemma no_deadline_simps [simp]:
  "se_ResolveGRPC no_deadline x y = Inr ''node''" "se_Get no_deadline addr w = (None, w)"
  "se_SyncRead no_deadline c h reqs w = (Inr (map (handleRead (mem_env []) two_db) reqs), w)"
  "se_rd no_deadline = mem_rd_codec" "se_sleep no_deadline d w = (True, w)"
  by (simp_all add: no_deadline_def)

definition file_key :: bytes where
  "file_key = str_key ''GR1/ac/abcdef''"

lemma file_key: "FileMetadataKey example_record = Inr file_key"
  unfolding FileMetadataKey_plain [OF example_record_plain]
  by (simp add: example_record_def cache_segment_def file_key_def)

lemma two_lookup: "lookupRangeDescriptor no_deadline file_key c h w = (Inr two_rd, w)"
proof -
  have c: "mem_contents two_db = [RangeMetaKey [200] \<mapsto> enc_rd two_rd]"
    by (simp add: two_db_def mem_contents_def mem_effect_def)
  have "c_Unmarshal mem_rd_codec (enc_rd two_rd) = Inr two_rd"
    using codec_okD [OF mem_codecs(1)] by (simp add: mem_rd_codec_def)
  then have "holds_meta (se_rd no_deadline) {two_rd} (mem_contents two_db)"
    unfolding holds_meta_def c by (auto simp: two_rd_def raft_rd_def split: if_splits)
  moreover have "file_key \<le> rdRight two_rd" by (simp add: file_key_def str_key_def two_rd_def raft_rd_def)
  ultimately show ?thesis
    using lookup_least_end [of "mem_env []" mem_contents mem_effect no_deadline c h two_db "{two_rd}" two_rd file_key w]
      mem.pebble_store_axioms mem_slices_kept by simp
qed

lemma two_found: "LookupRangeDescriptor no_deadline example_rc file_key skip w = Some (Inr two_rd, w)"
proof -
  have "RangeCache_Get example_rc MetaRangePrefix = Some (example_rd 1 3 1)" and n: "RangeCache_Get example_rc file_key = None"
    by code_simp+
  moreover have "tryReplicas no_deadline (example_rd 1 3 1) (lookupRangeDescriptor no_deadline file_key) w = (Inr (0, two_rd), w)"
    by (simp add: tryReplicas_def example_rd_def connectionForReplicaDescriptor_def two_lookup)
  ultimately show ?thesis
    by (simp add: LookupRangeDescriptor_def fetchRangeDescriptorFromMetaRange_def first_attempt fetch_attempt_def)
qed

theorem peer_search_hangs_witness:
  "Store_ReadFileFromPeer no_deadline example_rc (\<lambda>c h f w. (Inr ''reader'', w)) \<lparr>cluster_id = 1, node_id = 1\<rparr> example_record () = None"
  by (rule peer_search_hangs [OF file_key])
    (simp_all add: two_found connectionForReplicaDescriptor_def two_rd_def)

end
