(* ===== verification/Blobstore.thy ===== *)
theory Blobstore
  imports Status GoStrings
begin

text \<open>
  \<^verbatim>\<open>server/backends/blobstore/blobstore.go\<close> and the functions of \<^verbatim>\<open>server/util/disk/disk.go\<close> it stands on: the interface
  \<^verbatim>\<open>interfaces.Blobstore\<close> as a record of operations on a world \<open>w\<close>; the store in files, on a file system with its faults; the
  stores of Google, Amazon and Azure, on a client of theirs that is a parameter; and the contract \<open>blob_backend\<close> that the
  clients of a store rely on.

  \<^verbatim>\<open>compress/gzip\<close> is a parameter: \<open>gzip\<close> compresses, \<open>gunzip\<close> is the reader, which tells a wrong header from its other errors.
\<close>

section \<open>The interface\<close>

record 'w blobstore =
  bs_BlobExists :: "string \<Rightarrow> 'w \<Rightarrow> bool \<times> error option"
  bs_ReadBlob :: "string \<Rightarrow> 'w \<Rightarrow> bytes \<times> error option"
  bs_WriteBlob :: "string \<Rightarrow> bytes \<Rightarrow> 'w \<Rightarrow> (int \<times> error option) \<times> 'w"
  bs_DeleteBlob :: "string \<Rightarrow> 'w \<Rightarrow> error option \<times> 'w"

section \<open>Compression\<close>

datatype gunzip_result = GzErrHeader | GzError error | GzData bytes

definition decompress :: "(bytes \<Rightarrow> gunzip_result) \<Rightarrow> bytes \<times> error option \<Rightarrow> bytes \<times> error option" where
  "decompress gunzip inp =
     (case inp of
        (b, Some err) \<Rightarrow> (b, Some err)
      | (b, None) \<Rightarrow>
          (case gunzip b of
             GzErrHeader \<Rightarrow> (b, None)
           | GzError err \<Rightarrow> ([], Some err)
           | GzData d \<Rightarrow> (d, None)))"

definition compress :: "(bytes \<Rightarrow> error + bytes) \<Rightarrow> bytes \<Rightarrow> error + bytes" where
  "compress gzip b = gzip b"

section \<open>Files\<close>

text \<open>
  The files by their path; the paths that cannot be read, and the outcomes of the calls to come that change something, \<open>None\<close> being
  success. Directories, and temporary files with their random names, are left out.
\<close>

record filesystem =
  fs_files :: "string \<Rightarrow> bytes option"
  fs_unreadable :: "string \<Rightarrow> error option"
  fs_outcomes :: "error option list"

definition os_call :: "filesystem \<Rightarrow> error option \<times> filesystem" where
  "os_call fs = (case fs_outcomes fs of [] \<Rightarrow> (None, fs) | err # errs \<Rightarrow> (err, fs\<lparr>fs_outcomes := errs\<rparr>))"

text \<open>\<open>WriteFile\<close>: the directory, the random name, the temporary file and its renaming.\<close>

definition disk_WriteFile :: "string \<Rightarrow> bytes \<Rightarrow> filesystem \<Rightarrow> (int \<times> error option) \<times> filesystem" where
  "disk_WriteFile fullPath data fs =
     (case os_call fs of
        (Some err, fs1) \<Rightarrow> ((0, Some err), fs1)
      | (None, fs1) \<Rightarrow>
     (case os_call fs1 of
        (Some err, fs2) \<Rightarrow> ((0, Some err), fs2)
      | (None, fs2) \<Rightarrow>
     (case os_call fs2 of
        (Some err, fs3) \<Rightarrow> ((0, Some err), fs3)
      | (None, fs3) \<Rightarrow>
     (case os_call fs3 of
        (Some err, fs4) \<Rightarrow> ((int (length data), Some err), fs4)
      | (None, fs4) \<Rightarrow> ((int (length data), None), fs4\<lparr>fs_files := (fs_files fs4)(fullPath \<mapsto> data)\<rparr>)))))"

definition disk_ReadFile :: "string \<Rightarrow> filesystem \<Rightarrow> bytes \<times> error option" where
  "disk_ReadFile fullPath fs =
     (case fs_unreadable fs fullPath of
        Some err \<Rightarrow> ([], Some err)
      | None \<Rightarrow>
          (case fs_files fs fullPath of
             None \<Rightarrow> ([], Some (NotFoundError ''open: no such file or directory''))
           | Some data \<Rightarrow> (data, None)))"

text \<open>\<^verbatim>\<open>os.Remove\<close>; the error that \<^verbatim>\<open>os.IsNotExist\<close> recognizes is apart.\<close>

datatype os_error = OsNotExist | OsError error

definition disk_DeleteFile :: "string \<Rightarrow> filesystem \<Rightarrow> os_error option \<times> filesystem" where
  "disk_DeleteFile fullPath fs =
     (case os_call fs of
        (Some err, fs1) \<Rightarrow> (Some (OsError err), fs1)
      | (None, fs1) \<Rightarrow>
          if fs_files fs1 fullPath = None then (Some OsNotExist, fs1)
          else (None, fs1\<lparr>fs_files := (fs_files fs1)(fullPath := None)\<rparr>))"

definition disk_FileExists :: "string \<Rightarrow> filesystem \<Rightarrow> bool \<times> error option" where
  "disk_FileExists fullPath fs =
     (case fs_unreadable fs fullPath of
        Some err \<Rightarrow> (False, Some err)
      | None \<Rightarrow> (fs_files fs fullPath \<noteq> None, None))"

section \<open>The store in files\<close>

text \<open>\<^verbatim>\<open>strings.Contains\<close>\<close>

fun strings_Contains :: "string \<Rightarrow> string \<Rightarrow> bool" where
  "strings_Contains [] sub \<longleftrightarrow> sub = []"
| "strings_Contains (c # s) sub \<longleftrightarrow> take (length sub) (c # s) = sub \<or> strings_Contains s sub"

definition blobPath :: "string \<Rightarrow> string \<Rightarrow> error + string" where
  "blobPath rootDir blobName =
     (if strings_Contains blobName ''..'' then Inl (Err Unknown (''blobName ('' @ blobName @ '') must not contain ../''))
      else Inr (filepath_Join [rootDir, blobName]))"

definition Disk_WriteBlob ::
  "(bytes \<Rightarrow> error + bytes) \<Rightarrow> string \<Rightarrow> string \<Rightarrow> bytes \<Rightarrow> filesystem \<Rightarrow> (int \<times> error option) \<times> filesystem" where
  "Disk_WriteBlob gzip rootDir blobName data fs =
     (case blobPath rootDir blobName of
        Inl err \<Rightarrow> ((0, Some err), fs)
      | Inr fullPath \<Rightarrow>
          (case compress gzip data of
             Inl err \<Rightarrow> ((0, Some err), fs)
           | Inr compressedData \<Rightarrow> disk_WriteFile fullPath compressedData fs))"

definition Disk_ReadBlob :: "(bytes \<Rightarrow> gunzip_result) \<Rightarrow> string \<Rightarrow> string \<Rightarrow> filesystem \<Rightarrow> bytes \<times> error option" where
  "Disk_ReadBlob gunzip rootDir blobName fs =
     (case blobPath rootDir blobName of
        Inl err \<Rightarrow> ([], Some err)
      | Inr fullPath \<Rightarrow> decompress gunzip (disk_ReadFile fullPath fs))"

definition Disk_DeleteBlob :: "string \<Rightarrow> string \<Rightarrow> filesystem \<Rightarrow> error option \<times> filesystem" where
  "Disk_DeleteBlob rootDir blobName fs =
     (case blobPath rootDir blobName of
        Inl err \<Rightarrow> (Some err, fs)
      | Inr fullPath \<Rightarrow>
          (case disk_DeleteFile fullPath fs of
             (Some OsNotExist, fs') \<Rightarrow> (None, fs')
           | (Some (OsError err), fs') \<Rightarrow> (Some err, fs')
           | (None, fs') \<Rightarrow> (None, fs')))"

definition Disk_BlobExists :: "string \<Rightarrow> string \<Rightarrow> filesystem \<Rightarrow> bool \<times> error option" where
  "Disk_BlobExists rootDir blobName fs =
     (case blobPath rootDir blobName of
        Inl err \<Rightarrow> (False, Some err)
      | Inr fullPath \<Rightarrow> disk_FileExists fullPath fs)"

definition DiskBlobStore ::
  "(bytes \<Rightarrow> error + bytes) \<Rightarrow> (bytes \<Rightarrow> gunzip_result) \<Rightarrow> string \<Rightarrow> filesystem blobstore" where
  "DiskBlobStore gzip gunzip rootDir =
     \<lparr>bs_BlobExists = Disk_BlobExists rootDir, bs_ReadBlob = Disk_ReadBlob gunzip rootDir,
      bs_WriteBlob = Disk_WriteBlob gzip rootDir, bs_DeleteBlob = Disk_DeleteBlob rootDir\<rparr>"

section \<open>Stores of other providers\<close>

text \<open>
  What the Google client offers: opening, reading and describing an object, writing to a writer of one, closing it, which
  uploads, and deleting. The error \<^verbatim>\<open>storage.ErrObjectNotExist\<close> is the one \<open>gcs_notExist\<close> holds of.
\<close>

record 'w gcs_client =
  gcs_read :: "string \<Rightarrow> 'w \<Rightarrow> error + (bytes \<times> error option)"
  gcs_Attrs :: "string \<Rightarrow> 'w \<Rightarrow> error option"
  gcs_Write :: "string \<Rightarrow> bytes \<Rightarrow> 'w \<Rightarrow> (int \<times> error option) \<times> 'w"
  gcs_Close :: "string \<Rightarrow> 'w \<Rightarrow> error option \<times> 'w"
  gcs_Delete :: "string \<Rightarrow> 'w \<Rightarrow> error option \<times> 'w"
  gcs_notExist :: "error \<Rightarrow> bool"

definition GCS_ReadBlob :: "(bytes \<Rightarrow> gunzip_result) \<Rightarrow> 'w gcs_client \<Rightarrow> string \<Rightarrow> 'w \<Rightarrow> bytes \<times> error option" where
  "GCS_ReadBlob gunzip g blobName w =
     (case gcs_read g blobName w of
        Inl err \<Rightarrow> ([], Some (if gcs_notExist g err then NotFoundError (err_msg err) else err))
      | Inr (b, err) \<Rightarrow> decompress gunzip (b, err))"

text \<open>The deferred \<^verbatim>\<open>writer.Close()\<close>, whose error nobody looks at.\<close>

definition GCS_WriteBlob ::
  "(bytes \<Rightarrow> error + bytes) \<Rightarrow> 'w gcs_client \<Rightarrow> string \<Rightarrow> bytes \<Rightarrow> 'w \<Rightarrow> (int \<times> error option) \<times> 'w" where
  "GCS_WriteBlob gzip g blobName data w =
     (case compress gzip data of
        Inl err \<Rightarrow> ((0, Some err), snd (gcs_Close g blobName w))
      | Inr compressedData \<Rightarrow>
          (case gcs_Write g blobName compressedData w of (r, w1) \<Rightarrow> (r, snd (gcs_Close g blobName w1))))"

definition GCS_DeleteBlob :: "'w gcs_client \<Rightarrow> string \<Rightarrow> 'w \<Rightarrow> error option \<times> 'w" where
  "GCS_DeleteBlob g blobName w =
     (case gcs_Delete g blobName w of
        (None, w') \<Rightarrow> (None, w')
      | (Some err, w') \<Rightarrow> (if gcs_notExist g err then None else Some err, w'))"

definition GCS_BlobExists :: "'w gcs_client \<Rightarrow> string \<Rightarrow> 'w \<Rightarrow> bool \<times> error option" where
  "GCS_BlobExists g blobName w =
     (case gcs_Attrs g blobName w of
        None \<Rightarrow> (True, None)
      | Some err \<Rightarrow> if gcs_notExist g err then (False, None) else (False, Some err))"

definition GCSBlobStore ::
  "(bytes \<Rightarrow> error + bytes) \<Rightarrow> (bytes \<Rightarrow> gunzip_result) \<Rightarrow> 'w gcs_client \<Rightarrow> 'w blobstore" where
  "GCSBlobStore gzip gunzip g =
     \<lparr>bs_BlobExists = GCS_BlobExists g, bs_ReadBlob = GCS_ReadBlob gunzip g,
      bs_WriteBlob = GCS_WriteBlob gzip g, bs_DeleteBlob = GCS_DeleteBlob g\<rparr>"

text \<open>The Amazon client; \<open>s3_noSuchKey\<close> recognizes an \<^verbatim>\<open>awserr.Error\<close> with the code \<^verbatim>\<open>NoSuchKey\<close>.\<close>

record 'w s3_client =
  s3_Download :: "string \<Rightarrow> 'w \<Rightarrow> bytes \<times> error option"
  s3_Upload :: "string \<Rightarrow> bytes \<Rightarrow> 'w \<Rightarrow> error option \<times> 'w"
  s3_DeleteObject :: "string \<Rightarrow> 'w \<Rightarrow> error option \<times> 'w"
  s3_WaitUntilObjectNotExists :: "string \<Rightarrow> 'w \<Rightarrow> error option \<times> 'w"
  s3_HeadObject :: "string \<Rightarrow> 'w \<Rightarrow> error option"
  s3_noSuchKey :: "error \<Rightarrow> bool"

text \<open>An error of the download that is not about a missing key is dropped.\<close>

definition S3_download :: "'w s3_client \<Rightarrow> string \<Rightarrow> 'w \<Rightarrow> bytes \<times> error option" where
  "S3_download a blobName w =
     (case s3_Download a blobName w of
        (buff, Some err) \<Rightarrow> if s3_noSuchKey a err then ([], Some (NotFoundError (err_msg err))) else (buff, None)
      | (buff, None) \<Rightarrow> (buff, None))"

definition S3_ReadBlob :: "(bytes \<Rightarrow> gunzip_result) \<Rightarrow> 'w s3_client \<Rightarrow> string \<Rightarrow> 'w \<Rightarrow> bytes \<times> error option" where
  "S3_ReadBlob gunzip a blobName w = decompress gunzip (S3_download a blobName w)"

definition S3_upload :: "'w s3_client \<Rightarrow> string \<Rightarrow> bytes \<Rightarrow> 'w \<Rightarrow> (int \<times> error option) \<times> 'w" where
  "S3_upload a blobName compressedData w =
     (case s3_Upload a blobName compressedData w of
        (Some err, w') \<Rightarrow> ((- 1, Some err), w')
      | (None, w') \<Rightarrow> ((int (length compressedData), None), w'))"

definition S3_WriteBlob ::
  "(bytes \<Rightarrow> error + bytes) \<Rightarrow> 'w s3_client \<Rightarrow> string \<Rightarrow> bytes \<Rightarrow> 'w \<Rightarrow> (int \<times> error option) \<times> 'w" where
  "S3_WriteBlob gzip a blobName data w =
     (case compress gzip data of
        Inl err \<Rightarrow> ((0, Some err), w)
      | Inr compressedData \<Rightarrow> S3_upload a blobName compressedData w)"

definition S3_DeleteBlob :: "'w s3_client \<Rightarrow> string \<Rightarrow> 'w \<Rightarrow> error option \<times> 'w" where
  "S3_DeleteBlob a blobName w =
     (case s3_DeleteObject a blobName w of
        (Some err, w') \<Rightarrow> (Some err, w')
      | (None, w') \<Rightarrow> s3_WaitUntilObjectNotExists a blobName w')"

definition S3_BlobExists :: "'w s3_client \<Rightarrow> string \<Rightarrow> 'w \<Rightarrow> bool \<times> error option" where
  "S3_BlobExists a blobName w =
     (case s3_HeadObject a blobName w of Some err \<Rightarrow> (False, Some err) | None \<Rightarrow> (True, None))"

definition AwsS3BlobStore ::
  "(bytes \<Rightarrow> error + bytes) \<Rightarrow> (bytes \<Rightarrow> gunzip_result) \<Rightarrow> 'w s3_client \<Rightarrow> 'w blobstore" where
  "AwsS3BlobStore gzip gunzip a =
     \<lparr>bs_BlobExists = S3_BlobExists a, bs_ReadBlob = S3_ReadBlob gunzip a,
      bs_WriteBlob = S3_WriteBlob gzip a, bs_DeleteBlob = S3_DeleteBlob a\<rparr>"

text \<open>The Azure client; \<open>az_blobNotFound\<close> is \<open>isAzureError\<close> for the code \<^verbatim>\<open>ServiceCodeBlobNotFound\<close>.\<close>

record 'w azure_client =
  az_Download :: "string \<Rightarrow> 'w \<Rightarrow> error + (bytes \<times> error option)"
  az_Upload :: "string \<Rightarrow> bytes \<Rightarrow> 'w \<Rightarrow> error option \<times> 'w"
  az_Delete :: "string \<Rightarrow> 'w \<Rightarrow> error option \<times> 'w"
  az_GetProperties :: "string \<Rightarrow> 'w \<Rightarrow> error option"
  az_blobNotFound :: "error \<Rightarrow> bool"

definition Azure_ReadBlob :: "(bytes \<Rightarrow> gunzip_result) \<Rightarrow> 'w azure_client \<Rightarrow> string \<Rightarrow> 'w \<Rightarrow> bytes \<times> error option" where
  "Azure_ReadBlob gunzip z blobName w =
     (case az_Download z blobName w of
        Inl err \<Rightarrow> ([], Some (if az_blobNotFound z err then NotFoundError (err_msg err) else err))
      | Inr (b, Some err) \<Rightarrow> ([], Some err)
      | Inr (b, None) \<Rightarrow> decompress gunzip (b, None))"

definition Azure_WriteBlob ::
  "(bytes \<Rightarrow> error + bytes) \<Rightarrow> 'w azure_client \<Rightarrow> string \<Rightarrow> bytes \<Rightarrow> 'w \<Rightarrow> (int \<times> error option) \<times> 'w" where
  "Azure_WriteBlob gzip z blobName data w =
     (case compress gzip data of
        Inl err \<Rightarrow> ((0, Some err), w)
      | Inr compressedData \<Rightarrow>
          (case az_Upload z blobName compressedData w of (err, w') \<Rightarrow> ((int (length compressedData), err), w')))"

definition Azure_DeleteBlob :: "'w azure_client \<Rightarrow> string \<Rightarrow> 'w \<Rightarrow> error option \<times> 'w" where
  "Azure_DeleteBlob z blobName w = az_Delete z blobName w"

definition Azure_BlobExists :: "'w azure_client \<Rightarrow> string \<Rightarrow> 'w \<Rightarrow> bool \<times> error option" where
  "Azure_BlobExists z blobName w =
     (case az_GetProperties z blobName w of
        Some err \<Rightarrow> if az_blobNotFound z err then (False, None) else (False, Some err)
      | None \<Rightarrow> (True, None))"

definition AzureBlobStore ::
  "(bytes \<Rightarrow> error + bytes) \<Rightarrow> (bytes \<Rightarrow> gunzip_result) \<Rightarrow> 'w azure_client \<Rightarrow> 'w blobstore" where
  "AzureBlobStore gzip gunzip z =
     \<lparr>bs_BlobExists = Azure_BlobExists z, bs_ReadBlob = Azure_ReadBlob gunzip z,
      bs_WriteBlob = Azure_WriteBlob gzip z, bs_DeleteBlob = Azure_DeleteBlob z\<rparr>"

text \<open>
  \<open>GetConfiguredBlobstore\<close>: the store of the first provider with a bucket, container or directory in the flags. The constructors, which
  may fail, are parameters.
\<close>

definition GetConfiguredBlobstore ::
  "string \<Rightarrow> string \<Rightarrow> string \<Rightarrow> string \<Rightarrow> (string \<Rightarrow> error + 's) \<Rightarrow> (unit \<Rightarrow> error + 's) \<Rightarrow> (string \<Rightarrow> error + 's)
    \<Rightarrow> (string \<Rightarrow> error + 's) \<Rightarrow> error + 's" where
  "GetConfiguredBlobstore gcsBucket awsS3Bucket azureContainerName rootDirectory newGCS newAws newAzure newDisk =
     (if gcsBucket \<noteq> [] then newGCS gcsBucket
      else if awsS3Bucket \<noteq> [] then newAws ()
      else if azureContainerName \<noteq> [] then newAzure azureContainerName
      else if rootDirectory \<noteq> [] then newDisk rootDirectory
      else Inl (Err Unknown ''No storage backend configured -- please specify at least one in the config''))"

section \<open>The contract\<close>

text \<open>
  On the names \<open>valid\<close> holds of, in worlds \<open>inv\<close> holds of, the store is a map \<open>view\<close> from names to contents: absence is not an error,
  a write or removal that fails leaves the map, and one that succeeds changes the one name.
\<close>

locale blob_backend =
  fixes B :: "'w blobstore"
    and valid :: "string \<Rightarrow> bool"
    and inv :: "'w \<Rightarrow> bool"
    and view :: "'w \<Rightarrow> string \<Rightarrow> bytes option"
  assumes exists_law: "inv w \<Longrightarrow> valid n \<Longrightarrow> bs_BlobExists B n w = (view w n \<noteq> None, None)"
    and read_law: "inv w \<Longrightarrow> valid n \<Longrightarrow> view w n = Some d \<Longrightarrow> bs_ReadBlob B n w = (d, None)"
    and write_law: "inv w \<Longrightarrow> valid n \<Longrightarrow> bs_WriteBlob B n d w = ((k, err), w') \<Longrightarrow>
      inv w' \<and> view w' = (if err = None then (view w)(n \<mapsto> d) else view w)"
    and delete_law: "inv w \<Longrightarrow> valid n \<Longrightarrow> bs_DeleteBlob B n w = (err, w') \<Longrightarrow>
      inv w' \<and> view w' = (if err = None then (view w)(n := None) else view w)"

section \<open>The store in files keeps the contract\<close>

lemma joinWith_app: "xs \<noteq> [] \<Longrightarrow> ys \<noteq> [] \<Longrightarrow> joinWith sep (xs @ ys) = joinWith sep xs @ sep @ joinWith sep ys"
proof (induction sep xs rule: joinWith.induct)
  case (2 sep x)
  then show ?case by (cases ys) auto
qed auto

lemma joinWith_Cons: "ys \<noteq> [] \<Longrightarrow> joinWith sep (x # ys) = x @ sep @ joinWith sep ys"
  by (cases ys) auto

lemma joinWith_splitOn: "joinWith [c] (splitOn c s) = s"
proof (induction s)
  case (Cons x s)
  obtain p ps where ps: "splitOn c s = p # ps" by (meson neq_Nil_conv splitOn_nonempty)
  then show ?case using Cons by (cases ps) (auto simp: joinWith_Cons)
qed simp

lemma clean_elems_plain: "list_all plain ys \<Longrightarrow> clean_elems r st ys = rev st @ ys"
  by (induction ys arbitrary: st) (auto simp: plain_def)

lemma clean_elems_append: "list_all plain ys \<Longrightarrow> clean_elems r st (xs @ ys) = clean_elems r st xs @ ys"
proof (induction r st xs rule: clean_elems.induct)
  case (2 r st e es)
  then show ?case by (auto split: list.split)
qed (simp add: clean_elems_plain)

text \<open>Cleaning leaves the name of a blob at the end of its path.\<close>

lemma blob_path:
  assumes "rootDir \<noteq> []"
  obtains P where "\<And>n. list_all plain (splitOn CHR ''/'' n) \<Longrightarrow> filepath_Join [rootDir, n] = P @ n"
proof -
  obtain x xs where root: "rootDir = x # xs" using assms by (cases rootDir) auto
  define A where "A = clean_elems (x = CHR ''/'') [] (splitOn CHR ''/'' rootDir)"
  define P where "P = (if x = CHR ''/'' then ''/'' else []) @ (if A = [] then [] else joinWith ''/'' A @ ''/'')"
  have "filepath_Join [rootDir, n] = P @ n" if n: "list_all plain (splitOn CHR ''/'' n)" for n
  proof -
    have "clean_elems (x = CHR ''/'') [] (splitOn CHR ''/'' (rootDir @ CHR ''/'' # n)) = A @ splitOn CHR ''/'' n"
      unfolding splitOn_append A_def using n by (rule clean_elems_append)
    moreover have "joinWith ''/'' (A @ splitOn CHR ''/'' n) = (if A = [] then [] else joinWith ''/'' A @ ''/'') @ n"
      by (simp add: joinWith_app joinWith_splitOn)
    moreover have "n \<noteq> []" using n by (auto simp: plain_def)
    ultimately show ?thesis
      by (simp add: filepath_Join_def filepath_Clean_def P_def root)
  qed
  then show thesis by (rule that)
qed

definition disk_name :: "string \<Rightarrow> bool" where
  "disk_name n \<longleftrightarrow> \<not> strings_Contains n ''..'' \<and> list_all plain (splitOn CHR ''/'' n)"

definition disk_ok :: "(bytes \<Rightarrow> gunzip_result) \<Rightarrow> string \<Rightarrow> filesystem \<Rightarrow> bool" where
  "disk_ok gunzip rootDir fs \<longleftrightarrow>
     (\<forall>n. disk_name n \<longrightarrow> fs_unreadable fs (filepath_Join [rootDir, n]) = None \<and>
       (\<forall>b e. fs_files fs (filepath_Join [rootDir, n]) = Some b \<longrightarrow> gunzip b \<noteq> GzError e))"

definition disk_view :: "(bytes \<Rightarrow> gunzip_result) \<Rightarrow> string \<Rightarrow> filesystem \<Rightarrow> string \<Rightarrow> bytes option" where
  "disk_view gunzip rootDir fs n =
     (if disk_name n then map_option (\<lambda>b. fst (decompress gunzip (b, None))) (fs_files fs (filepath_Join [rootDir, n]))
      else None)"

lemma os_call_files: "os_call fs = (err, fs') \<Longrightarrow> fs_files fs' = fs_files fs \<and> fs_unreadable fs' = fs_unreadable fs"
  by (auto simp: os_call_def split: list.splits)

lemma disk_WriteFile_cases:
  assumes "disk_WriteFile path d fs = ((k, err), fs')"
  shows "fs_unreadable fs' = fs_unreadable fs \<and> fs_files fs' = (if err = None then (fs_files fs)(path \<mapsto> d) else fs_files fs)"
  using assms by (auto simp: disk_WriteFile_def split: prod.splits option.splits dest!: os_call_files)

lemma disk_DeleteFile_cases:
  assumes "disk_DeleteFile path fs = (err, fs')"
  shows "fs_unreadable fs' = fs_unreadable fs \<and>
    fs_files fs' = (case err of Some (OsError e) \<Rightarrow> fs_files fs | _ \<Rightarrow> (fs_files fs)(path := None))"
  using assms by (auto simp: disk_DeleteFile_def split: prod.splits option.splits if_splits dest!: os_call_files)

lemma disk_path_inj:
  assumes "rootDir \<noteq> []" and "disk_name n" and "disk_name m"
  shows "filepath_Join [rootDir, n] = filepath_Join [rootDir, m] \<longleftrightarrow> n = m"
  using assms blob_path [of rootDir] unfolding disk_name_def by (metis append_eq_append_conv same_append_eq)

lemma disk_backend:
  assumes "rootDir \<noteq> []" and gz: "\<And>d. \<exists>z. gzip d = Inr z \<and> gunzip z = GzData d"
  shows "blob_backend (DiskBlobStore gzip gunzip rootDir) disk_name (disk_ok gunzip rootDir) (disk_view gunzip rootDir)"
proof
  let ?B = "DiskBlobStore gzip gunzip rootDir"
  note defs = DiskBlobStore_def blobPath_def disk_name_def
  note inj = disk_path_inj [OF assms(1)]
  fix fs n
  assume ok: "disk_ok gunzip rootDir fs" and n: "disk_name n"
  then have readable: "fs_unreadable fs (filepath_Join [rootDir, n]) = None" by (simp add: disk_ok_def)
  have path: "blobPath rootDir n = Inr (filepath_Join [rootDir, n])"
    using n by (simp add: blobPath_def disk_name_def)
  show "bs_BlobExists ?B n fs = (disk_view gunzip rootDir fs n \<noteq> None, None)"
    using n readable by (simp add: DiskBlobStore_def Disk_BlobExists_def path disk_FileExists_def disk_view_def)
  show "bs_ReadBlob ?B n fs = (d, None)" if d: "disk_view gunzip rootDir fs n = Some d" for d
  proof -
    obtain b where b: "fs_files fs (filepath_Join [rootDir, n]) = Some b" "d = fst (decompress gunzip (b, None))"
      using d n by (auto simp: disk_view_def)
    then have "\<forall>e. gunzip b \<noteq> GzError e" using ok n by (auto simp: disk_ok_def)
    then show ?thesis
      using b readable
      by (auto simp: DiskBlobStore_def Disk_ReadBlob_def path disk_ReadFile_def decompress_def split: gunzip_result.splits)
  qed
  show "disk_ok gunzip rootDir fs' \<and>
      disk_view gunzip rootDir fs' = (if err = None then (disk_view gunzip rootDir fs)(n \<mapsto> d) else disk_view gunzip rootDir fs)"
    if w: "bs_WriteBlob ?B n d fs = ((k, err), fs')" for d k err fs'
  proof -
    obtain z where z: "gzip d = Inr z" "gunzip z = GzData d" using gz by blast
    then have "disk_WriteFile (filepath_Join [rootDir, n]) z fs = ((k, err), fs')"
      using w by (simp add: DiskBlobStore_def Disk_WriteBlob_def path compress_def)
    note c = disk_WriteFile_cases [OF this]
    have "disk_ok gunzip rootDir fs'" using ok c z by (auto simp: disk_ok_def)
    moreover have "disk_view gunzip rootDir fs' =
        (if err = None then (disk_view gunzip rootDir fs)(n \<mapsto> d) else disk_view gunzip rootDir fs)"
      using c z n inj by (auto simp: disk_view_def decompress_def fun_eq_iff)
    ultimately show ?thesis ..
  qed
  show "disk_ok gunzip rootDir fs' \<and>
      disk_view gunzip rootDir fs' = (if err = None then (disk_view gunzip rootDir fs)(n := None) else disk_view gunzip rootDir fs)"
    if d: "bs_DeleteBlob ?B n fs = (err, fs')" for err fs'
  proof -
    obtain oerr where o: "disk_DeleteFile (filepath_Join [rootDir, n]) fs = (oerr, fs')"
      "err = (case oerr of Some (OsError e) \<Rightarrow> Some e | _ \<Rightarrow> None)"
      using d by (auto simp: DiskBlobStore_def Disk_DeleteBlob_def path split: prod.splits option.splits os_error.splits)
    note c = disk_DeleteFile_cases [OF o(1)]
    have "disk_ok gunzip rootDir fs'" using ok c by (auto simp: disk_ok_def split: option.splits os_error.splits if_splits)
    moreover have "disk_view gunzip rootDir fs' =
        (if err = None then (disk_view gunzip rootDir fs)(n := None) else disk_view gunzip rootDir fs)"
      using c o(2) n inj by (auto simp: disk_view_def fun_eq_iff split: option.splits os_error.splits)
    ultimately show ?thesis ..
  qed
qed

section \<open>The store of the tests\<close>

text \<open>\<^verbatim>\<open>server/testutil/mockstore/mockstore.go\<close>: a store in a map.\<close>

definition Mockstore :: "(string \<Rightarrow> bytes option) blobstore" where
  "Mockstore =
     \<lparr>bs_BlobExists = (\<lambda>blobName m. (m blobName \<noteq> None, None)),
      bs_ReadBlob = (\<lambda>blobName m. case m blobName of
        None \<Rightarrow> ([], Some (Err Unknown (blobName @ '' not present in mockstore map: file does not exist'')))
      | Some value \<Rightarrow> (value, None)),
      bs_WriteBlob = (\<lambda>blobName data m. ((int (length data), None), m(blobName \<mapsto> data))),
      bs_DeleteBlob = (\<lambda>blobName m. (None, m(blobName := None)))\<rparr>"

lemma Mockstore_backend: "blob_backend Mockstore (\<lambda>_. True) (\<lambda>_. True) (\<lambda>m. m)"
  by unfold_locales (auto simp: Mockstore_def)

end
