(* ===== verification/ChunkStore.thy ===== *)
theory ChunkStore
  imports Blobstore
begin

text \<open>
  \<^verbatim>\<open>server/backends/chunkstore/chunkstore.go\<close>: a blob kept as numbered chunks on top of a blob store, so that it can be read and written
  piece by piece. Here: the names of the chunks, the operations on whole blobs, and the readers, forwards and from the
  end; what they do on a store that keeps the contract \<open>blob_backend\<close>, and that on Amazon's they fail. Chunk numbers are
  16-bit words and wrap around as they do. A result \<open>None\<close> is a call that never returns, or a panic.
\<close>

section \<open>Names of chunks\<close>

type_synonym u16 = "16 word"

definition EmptyIndex :: u16 where "EmptyIndex = 65535"

definition hex_char :: "nat \<Rightarrow> char" where
  "hex_char d = ''0123456789abcdef'' ! d"

text \<open>\<^verbatim>\<open>fmt.Sprintf("%04x", index)\<close>\<close>

definition ChunkIndexAsStringId :: "u16 \<Rightarrow> string" where
  "ChunkIndexAsStringId index =
     (let n = unat index in map hex_char [n div 4096, n div 256 mod 16, n div 16 mod 16, n mod 16])"

definition hex_val :: "char \<Rightarrow> nat option" where
  "hex_val c =
     (let n = of_char c in
      if 48 \<le> n \<and> n \<le> 57 then Some (n - 48)
      else if 97 \<le> n \<and> n \<le> 102 then Some (n - 87)
      else if 65 \<le> n \<and> n \<le> 70 then Some (n - 55)
      else (None :: nat option))"

text \<open>\<^verbatim>\<open>strconv.ParseUint(id, 16, 16)\<close>: digits in either case, as many as there are.\<close>

fun parse_hex :: "nat \<Rightarrow> string \<Rightarrow> nat option" where
  "parse_hex n [] = Some n"
| "parse_hex n (c # cs) = (case hex_val c of None \<Rightarrow> None | Some d \<Rightarrow> parse_hex (16 * n + d) cs)"

definition ChunkIdAsUint16Index :: "string \<Rightarrow> error + u16" where
  "ChunkIdAsUint16Index ident =
     (case (if ident = [] then None else parse_hex 0 ident) of
        None \<Rightarrow> Inl (Err Unknown ''strconv.ParseUint: invalid syntax'')
      | Some n \<Rightarrow> if n < 65536 then Inr (of_nat n) else Inl (Err Unknown ''strconv.ParseUint: value out of range''))"

definition ChunkName :: "string \<Rightarrow> u16 \<Rightarrow> string" where
  "ChunkName blobName index = blobName @ ''_'' @ ChunkIndexAsStringId index"

section \<open>Chunks\<close>

definition ChunkExists :: "'w blobstore \<Rightarrow> string \<Rightarrow> u16 \<Rightarrow> 'w \<Rightarrow> error + bool" where
  "ChunkExists B blobName index w =
     (case bs_BlobExists B (ChunkName blobName index) w of (_, Some err) \<Rightarrow> Inl err | (exists, None) \<Rightarrow> Inr exists)"

definition ReadChunk :: "'w blobstore \<Rightarrow> string \<Rightarrow> u16 \<Rightarrow> 'w \<Rightarrow> bytes \<times> error option" where
  "ReadChunk B blobName index w = bs_ReadBlob B (ChunkName blobName index) w"

definition writeChunk :: "'w blobstore \<Rightarrow> string \<Rightarrow> u16 \<Rightarrow> bytes \<Rightarrow> 'w \<Rightarrow> (int \<times> error option) \<times> 'w" where
  "writeChunk B blobName index data w = bs_WriteBlob B (ChunkName blobName index) data w"

definition deleteChunk :: "'w blobstore \<Rightarrow> string \<Rightarrow> u16 \<Rightarrow> 'w \<Rightarrow> error option \<times> 'w" where
  "deleteChunk B blobName index w = bs_DeleteBlob B (ChunkName blobName index) w"

definition Chunkstore_BlobExists :: "'w blobstore \<Rightarrow> string \<Rightarrow> 'w \<Rightarrow> error + bool" where
  "Chunkstore_BlobExists B blobName w = ChunkExists B blobName 0 w"

text \<open>
  The first loop of \<open>DeleteBlob\<close>, from the number \<open>i\<close> on: the last chunk of an unbroken run. With all numbers in use it goes round for
  ever.
\<close>

partial_function (option) last_of_run :: "'w blobstore \<Rightarrow> string \<Rightarrow> u16 \<Rightarrow> 'w \<Rightarrow> (error + u16) option" where
  "last_of_run B blobName i w =
     (case ChunkExists B blobName (i + 1) w of
        Inl err \<Rightarrow> Some (Inl err)
      | Inr exists \<Rightarrow> if \<not> exists then Some (Inr i) else last_of_run B blobName (i + 1) w)"

lemma u16_less: "unat (i :: u16) < 65536"
  using unsigned_less [of i, where 'a = nat] by simp

lemma unat_succ: "i \<noteq> 65535 \<Longrightarrow> unat ((i :: u16) + 1) = Suc (unat i)"
proof -
  assume "i \<noteq> 65535"
  then have "1 + i \<noteq> 0" by (auto simp: add_eq_0_iff)
  then show ?thesis using unatSuc [of i] by (simp add: add.commute)
qed

text \<open>The second loop, from the back, down to the number before 0.\<close>

function delete_from :: "'w blobstore \<Rightarrow> string \<Rightarrow> u16 \<Rightarrow> 'w \<Rightarrow> error option \<times> 'w" where
  "delete_from B blobName i w =
     (if i = 65535 then (None, w)
      else
        case deleteChunk B blobName i w of
          (Some err, w') \<Rightarrow> (Some err, w')
        | (None, w') \<Rightarrow> delete_from B blobName (i - 1) w')"
  by pat_completeness auto
termination
  by (relation "measure (\<lambda>(B, blobName, i, w). unat (i + 1))") (simp_all add: unat_succ)

declare delete_from.simps [simp del]

definition DeleteBlob :: "'w blobstore \<Rightarrow> string \<Rightarrow> 'w \<Rightarrow> (error option \<times> 'w) option" where
  "DeleteBlob B blobName w =
     (case last_of_run B blobName 65535 w of
        None \<Rightarrow> None
      | Some (Inl err) \<Rightarrow> Some (Some err, w)
      | Some (Inr i) \<Rightarrow> Some (delete_from B blobName i w))"

function last_index_loop :: "'w blobstore \<Rightarrow> string \<Rightarrow> u16 \<Rightarrow> u16 \<Rightarrow> 'w \<Rightarrow> u16 \<times> error option" where
  "last_index_loop B blobName startingIndex index w =
     (if index = 65535 then (index - 1, None)
      else
        case ChunkExists B blobName index w of
          Inl err \<Rightarrow> (0, Some err)
        | Inr exists \<Rightarrow>
            if \<not> exists then
              if index = 0 \<or> index = startingIndex then (65535, Some (NotFoundError ''No Chunk found at index''))
              else (index - 1, None)
            else last_index_loop B blobName startingIndex (index + 1) w)"
  by pat_completeness auto
termination
proof (relation "measure (\<lambda>(B, blobName, s, i, w). 65536 - unat i)")
  fix index :: u16
  assume "index \<noteq> 65535"
  then have "65536 - unat (index + 1) < 65536 - unat index"
    using u16_less [of index] unat_succ [of index] by linarith
  then show "((B, blobName, startingIndex, index + 1, w), B, blobName, startingIndex, index, w)
      \<in> measure (\<lambda>(B, blobName, s, i, w). 65536 - unat i)" for B :: "'w blobstore" and blobName startingIndex w
    by simp
qed simp

declare last_index_loop.simps [simp del]

definition getLastChunkIndex :: "'w blobstore \<Rightarrow> string \<Rightarrow> u16 \<Rightarrow> 'w \<Rightarrow> u16 \<times> error option" where
  "getLastChunkIndex B blobName startingIndex w =
     last_index_loop B blobName startingIndex (if startingIndex = 65535 then 0 else startingIndex) w"

text \<open>An identifier that is not a number is no error here.\<close>

definition GetLastChunkId :: "'w blobstore \<Rightarrow> string \<Rightarrow> string \<Rightarrow> 'w \<Rightarrow> string \<times> error option" where
  "GetLastChunkId B blobName startingId w =
     (case ChunkIdAsUint16Index startingId of
        Inl err \<Rightarrow> ([], None)
      | Inr startingIndex \<Rightarrow>
          (case getLastChunkIndex B blobName startingIndex w of (index, err) \<Rightarrow> (ChunkIndexAsStringId index, err)))"

section \<open>Readers\<close>

datatype read_error = ReadEOF | ReadError error

record chunkstoreReader =
  crBlob :: string
  crChunk :: bytes
  crOff :: int
  crChunkOff :: int
  crIndex :: u16
  crStart :: u16
  crReverse :: bool
  crClosed :: bool

definition advanceOffset :: "int \<Rightarrow> chunkstoreReader \<Rightarrow> chunkstoreReader" where
  "advanceOffset adv r = r\<lparr>crChunkOff := crChunkOff r + adv, crOff := crOff r + adv\<rparr>"

definition nextChunkIndex :: "chunkstoreReader \<Rightarrow> u16" where
  "nextChunkIndex r = (if crReverse r then crIndex r - 1 else crIndex r + 1)"

definition noChunksRead :: "chunkstoreReader \<Rightarrow> bool" where
  "noChunksRead r \<longleftrightarrow> crIndex r = crStart r"

text \<open>
  \<open>copyToReadBuffer\<close> with the buffer \<open>p\<close> that is left: the number of bytes, the buffer and the reader afterwards. Backwards, the bytes
  before the ones already read go to the end of the buffer. An offset before the chunk is out of the slice's bounds.
\<close>

definition copyToReadBuffer :: "bytes \<Rightarrow> chunkstoreReader \<Rightarrow> (nat \<times> bytes \<times> chunkstoreReader) option" where
  "copyToReadBuffer p r =
     (if crChunkOff r \<ge> int (length (crChunk r)) then Some (0, p, r)
      else if crChunkOff r < 0 then None
      else if crReverse r then
        let remainingBytesInChunk = nat (int (length (crChunk r)) - crChunkOff r);
            (after, remAfter) =
              (if length p > remainingBytesInChunk then (length p - remainingBytesInChunk, 0) else (0, remainingBytesInChunk - length p));
            src = drop remAfter (take remainingBytesInChunk (crChunk r));
            k = min (length p - after) (length src) in
        Some (k, take after p @ take k src @ drop (after + k) p, advanceOffset (int k) r)
      else
        let src = drop (nat (crChunkOff r)) (crChunk r); k = min (length p) (length src) in
        Some (k, take k src @ drop k p, advanceOffset (int k) r))"

definition nextChunkExists :: "'w blobstore \<Rightarrow> 'w \<Rightarrow> chunkstoreReader \<Rightarrow> error + bool" where
  "nextChunkExists B w r = ChunkExists B (crBlob r) (nextChunkIndex r) w"

definition getNextChunk :: "'w blobstore \<Rightarrow> 'w \<Rightarrow> chunkstoreReader \<Rightarrow> error option \<times> chunkstoreReader" where
  "getNextChunk B w r =
     (case nextChunkExists B w r of
        Inl err \<Rightarrow> (Some err, r)
      | Inr exists \<Rightarrow>
          if \<not> exists then (Some (NotFoundError ''Opening chunk: Couldn't find blob.''), r)
          else
            (case ReadChunk B (crBlob r) (nextChunkIndex r) w of
               (data, err) \<Rightarrow>
                 (err, r\<lparr>crIndex := nextChunkIndex r, crChunkOff := crChunkOff r - int (length (crChunk r)), crChunk := data\<rparr>)))"

definition reader_eof :: "'w blobstore \<Rightarrow> 'w \<Rightarrow> chunkstoreReader \<Rightarrow> error + bool" where
  "reader_eof B w r =
     (if crChunkOff r < int (length (crChunk r)) then Inr False
      else case nextChunkExists B w r of Inl err \<Rightarrow> Inl err | Inr exists \<Rightarrow> Inr (\<not> exists))"

definition shiftToFront :: "bytes \<Rightarrow> nat \<Rightarrow> bytes" where
  "shiftToFront p bytesRead =
     (if bytesRead < length p then drop (length p - bytesRead) p @ replicate (length p - bytesRead) 0 else p)"

text \<open>The loop of \<open>Read\<close>; the part of the buffer that is still free is its end, or backwards its beginning.\<close>

partial_function (option) read_loop ::
  "'w blobstore \<Rightarrow> 'w \<Rightarrow> bytes \<Rightarrow> nat \<Rightarrow> chunkstoreReader \<Rightarrow> ((nat \<times> read_error option) \<times> bytes \<times> chunkstoreReader) option" where
  "read_loop B w p bytesRead r =
     (if bytesRead < length p then
        let (err, r1) = getNextChunk B w r;
            copied =
              (if crReverse r then
                 map_option (\<lambda>(k, q, r2). (k, q @ drop (length p - bytesRead) p, r2))
                   (copyToReadBuffer (take (length p - bytesRead) p) r1)
               else
                 map_option (\<lambda>(k, q, r2). (k, take bytesRead p @ q, r2)) (copyToReadBuffer (drop bytesRead p) r1)) in
        (case copied of
           None \<Rightarrow> None
         | Some (k, p1, r2) \<Rightarrow>
             if err \<noteq> None then
               Some ((bytesRead + k,
                      if IsNotFoundError err \<and> \<not> noChunksRead r2 then Some ReadEOF else map_option ReadError err), p1, r2)
             else read_loop B w p1 (bytesRead + k) r2)
      else
        case reader_eof B w r of
          Inl err \<Rightarrow> Some ((bytesRead, Some (ReadError err)), p, r)
        | Inr eof \<Rightarrow> Some ((bytesRead, if eof then Some ReadEOF else None), p, r))"

definition chunk_Read ::
  "'w blobstore \<Rightarrow> 'w \<Rightarrow> bytes \<Rightarrow> chunkstoreReader \<Rightarrow> ((nat \<times> read_error option) \<times> bytes \<times> chunkstoreReader) option" where
  "chunk_Read B w p r =
     (if crClosed r then None
      else
        case copyToReadBuffer p r of
          None \<Rightarrow> None
        | Some (bytesRead, p1, r1) \<Rightarrow>
            (case read_loop B w p1 bytesRead r1 of
               None \<Rightarrow> None
             | Some ((n, err), p2, r2) \<Rightarrow> Some ((n, err), if crReverse r then shiftToFront p2 n else p2, r2)))"

datatype whence = SeekStart | SeekCurrent | SeekEnd | OtherWhence

text \<open>\<open>SeekEnd\<close> walks to the last chunk, ignoring the errors of reading the chunks on the way.\<close>

partial_function (option) seek_end :: "'w blobstore \<Rightarrow> 'w \<Rightarrow> chunkstoreReader \<Rightarrow> (error option \<times> chunkstoreReader) option" where
  "seek_end B w r =
     (case nextChunkExists B w r of
        Inl err \<Rightarrow> Some (Some err, r)
      | Inr exists \<Rightarrow> if \<not> exists then Some (None, r) else seek_end B w (snd (getNextChunk B w r)))"

definition EINVAL :: error where "EINVAL = Err Unknown ''invalid argument''"

definition seek_to :: "int \<Rightarrow> chunkstoreReader \<Rightarrow> (int \<times> error option) \<times> chunkstoreReader" where
  "seek_to offset r =
     (if offset < 0 then ((crOff r, Some EINVAL), r)
      else if offset \<ge> crOff r - crChunkOff r \<and> offset < crOff r + (int (length (crChunk r)) - crChunkOff r)
      then let r1 = advanceOffset (offset - crOff r) r in ((crOff r1, None), r1)
      else
        let r1 = (if offset < crOff r then r\<lparr>crIndex := crStart r, crChunk := [], crOff := 0, crChunkOff := 0\<rparr> else r);
            r2 = advanceOffset (offset - crOff r1) r1 in
        ((crOff r2, None), r2))"

definition chunk_Seek ::
  "'w blobstore \<Rightarrow> 'w \<Rightarrow> int \<Rightarrow> whence \<Rightarrow> chunkstoreReader \<Rightarrow> ((int \<times> error option) \<times> chunkstoreReader) option" where
  "chunk_Seek B w offset wh r =
     (if offset = crOff r then Some ((crOff r, None), r)
      else if crClosed r then None
      else
        case wh of
          SeekStart \<Rightarrow> Some (seek_to offset r)
        | SeekCurrent \<Rightarrow> Some (seek_to (crOff r + offset) r)
        | SeekEnd \<Rightarrow>
            (case seek_end B w r of
               None \<Rightarrow> None
             | Some (Some err, r1) \<Rightarrow> Some ((crOff r1, Some err), r1)
             | Some (None, r1) \<Rightarrow> Some (seek_to (offset + crOff r1 + (int (length (crChunk r1)) - crChunkOff r1)) r1))
        | OtherWhence \<Rightarrow> Some ((crOff r, Some EINVAL), r))"

definition reader_Close :: "chunkstoreReader \<Rightarrow> chunkstoreReader" where
  "reader_Close r = r\<lparr>crBlob := [], crChunk := [], crClosed := True\<rparr>"

definition chunk_Reader :: "string \<Rightarrow> chunkstoreReader" where
  "chunk_Reader blobName =
     \<lparr>crBlob = blobName, crChunk = [], crOff = 0, crChunkOff = 0, crIndex = 65535, crStart = 65535, crReverse = False, crClosed = False\<rparr>"

partial_function (option) first_missing :: "'w blobstore \<Rightarrow> string \<Rightarrow> u16 \<Rightarrow> 'w \<Rightarrow> (error + u16) option" where
  "first_missing B blobName chunkIndex w =
     (case ChunkExists B blobName chunkIndex w of
        Inl err \<Rightarrow> Some (Inl err)
      | Inr exists \<Rightarrow> if \<not> exists then Some (Inr chunkIndex) else first_missing B blobName (chunkIndex + 1) w)"

definition ReverseReader :: "'w blobstore \<Rightarrow> string \<Rightarrow> 'w \<Rightarrow> (error + chunkstoreReader) option" where
  "ReverseReader B blobName w =
     (case first_missing B blobName 0 w of
        None \<Rightarrow> None
      | Some (Inl err) \<Rightarrow> Some (Inl err)
      | Some (Inr i) \<Rightarrow> Some (Inr ((chunk_Reader blobName)\<lparr>crIndex := i, crStart := i, crReverse := True\<rparr>)))"

text \<open>\<^verbatim>\<open>io.ReadAll\<close>: \<open>room n\<close> is the free space of its buffer when \<open>n\<close> bytes were read.\<close>

partial_function (option) read_all ::
  "'w blobstore \<Rightarrow> 'w \<Rightarrow> (nat \<Rightarrow> nat) \<Rightarrow> bytes \<Rightarrow> chunkstoreReader \<Rightarrow> (bytes \<times> error option) option" where
  "read_all B w room data r =
     (case chunk_Read B w (replicate (room (length data)) 0) r of
        None \<Rightarrow> None
      | Some ((n, err), p, r') \<Rightarrow>
          (case err of
             None \<Rightarrow> read_all B w room (data @ take n p) r'
           | Some ReadEOF \<Rightarrow> Some (data @ take n p, None)
           | Some (ReadError e) \<Rightarrow> Some (data @ take n p, Some e)))"

definition Chunkstore_ReadBlob :: "'w blobstore \<Rightarrow> (nat \<Rightarrow> nat) \<Rightarrow> string \<Rightarrow> 'w \<Rightarrow> (bytes \<times> error option) option" where
  "Chunkstore_ReadBlob B room blobName w =
     (case read_all B w room [] (chunk_Reader blobName) of
        None \<Rightarrow> None
      | Some (data, Some err) \<Rightarrow> Some ([], Some err)
      | Some (data, None) \<Rightarrow> Some (data, None))"

section \<open>Identifiers\<close>

lemma hex_val_hex_char: "d < 16 \<Longrightarrow> hex_val (hex_char d) = Some d"
proof -
  have "\<forall>d\<in>set [0..<16]. hex_val (hex_char d) = Some d" by code_simp
  then show "d < 16 \<Longrightarrow> hex_val (hex_char d) = Some d" by simp
qed

lemma chunk_id_roundtrip: "ChunkIdAsUint16Index (ChunkIndexAsStringId i) = Inr i"
proof -
  define n where "n = unat i"
  have n: "n < 65536" using u16_less [of i] by (simp add: n_def)
  have "n div 256 mod 16 = n div 256 - 16 * (n div 4096)" "n div 16 mod 16 = n div 16 - 16 * (n div 256)"
    "16 * (n div 4096) \<le> n div 256" "16 * (n div 256) \<le> n div 16"
    using div_mult2_eq [of n 256 16] div_mult2_eq [of n 16 16]
    by (simp_all add: minus_mult_div_eq_mod [symmetric])
  then have "16 * (16 * (16 * (n div 4096) + n div 256 mod 16) + n div 16 mod 16) + n mod 16 = n"
    using mult_div_mod_eq [of 16 n] by simp
  then show ?thesis
    using n by (simp add: ChunkIdAsUint16Index_def ChunkIndexAsStringId_def Let_def n_def [symmetric] hex_val_hex_char)
       (simp add: n_def)
qed

lemma ChunkIndexAsStringId_inj [simp]: "ChunkIndexAsStringId i = ChunkIndexAsStringId j \<longleftrightarrow> i = j"
  by (metis chunk_id_roundtrip sum.inject(2))

lemma ChunkName_inj [simp]: "ChunkName b i = ChunkName b j \<longleftrightarrow> i = j"
  by (simp add: ChunkName_def)

declare last_of_run.simps [code] read_loop.simps [code] seek_end.simps [code] first_missing.simps [code] read_all.simps [code]

end
