(* ===== verification/ChunkContract.thy ===== *)
theory ChunkContract
  imports ChunkStore
begin

text \<open>
  What the chunk store does on a blob store that keeps its contract: reading returns the chunks one after the other, forwards, from
  an offset and from the end; deleting works from the back and can be resumed. Then the same reads on Amazon's store.
\<close>

section \<open>Chunks in a store\<close>

text \<open>The chunks \<open>cs\<close>, and no others, are stored under the name \<open>b\<close>.\<close>

definition stored :: "('w \<Rightarrow> string \<Rightarrow> bytes option) \<Rightarrow> 'w \<Rightarrow> string \<Rightarrow> bytes list \<Rightarrow> bool" where
  "stored view w b cs \<longleftrightarrow> length cs \<le> 65535 \<and>
     (\<forall>i. view w (ChunkName b i) = (if unat i < length cs then Some (cs ! unat i) else None))"

text \<open>The position of a reader: the chunk \<open>j\<close> is the next, and what is still to be read.\<close>

definition fwd :: "string \<Rightarrow> nat \<Rightarrow> chunkstoreReader \<Rightarrow> bool" where
  "fwd b j r \<longleftrightarrow> crBlob r = b \<and> crIndex r = of_nat j - 1 \<and> crStart r = 65535 \<and> \<not> crReverse r \<and> \<not> crClosed r \<and> 0 \<le> crChunkOff r"

definition to_read :: "bytes list \<Rightarrow> nat \<Rightarrow> chunkstoreReader \<Rightarrow> bytes" where
  "to_read cs j r = drop (nat (crChunkOff r)) (crChunk r @ concat (drop j cs))"

definition bwd :: "string \<Rightarrow> nat \<Rightarrow> nat \<Rightarrow> chunkstoreReader \<Rightarrow> bool" where
  "bwd b n j r \<longleftrightarrow> crBlob r = b \<and> crIndex r = of_nat j \<and> crStart r = of_nat n \<and> crReverse r \<and> \<not> crClosed r \<and> 0 \<le> crChunkOff r"

definition but_last :: "nat \<Rightarrow> 'a list \<Rightarrow> 'a list" where
  "but_last n xs = take (length xs - n) xs"

definition suffix_of :: "nat \<Rightarrow> 'a list \<Rightarrow> 'a list" where
  "suffix_of n xs = drop (length xs - n) xs"

definition to_read_back :: "bytes list \<Rightarrow> nat \<Rightarrow> chunkstoreReader \<Rightarrow> bytes" where
  "to_read_back cs j r = but_last (nat (crChunkOff r)) (concat (take j cs) @ crChunk r)"

lemma unat_u16: "n < 65536 \<Longrightarrow> unat (of_nat n :: u16) = n"
  by (simp add: unsigned_of_nat take_bit_nat_eq_self)

lemma u16_Suc: "(of_nat (Suc j) :: u16) - 1 = of_nat j"
  by simp

lemma minus_one_u16: "(- 1 :: u16) = 65535"
  by simp

lemma take_drop_parts: "k \<le> n \<Longrightarrow> take k xs @ take (n - k) (drop k xs) = take n xs"
  by (metis le_add_diff_inverse take_add)

context blob_backend
begin

lemma chunk_exists:
  assumes "inv w" and "\<And>i. valid (ChunkName b i)" and "stored view w b cs"
  shows "ChunkExists B b i w = Inr (unat i < length cs)"
  using assms exists_law by (simp add: ChunkExists_def stored_def)

lemma chunk_data:
  assumes "inv w" and "\<And>i. valid (ChunkName b i)" and "stored view w b cs" and "unat i < length cs"
  shows "ReadChunk B b i w = (cs ! unat i, None)"
  using assms read_law by (simp add: ReadChunk_def stored_def)

lemma next_chunk:
  assumes w: "inv w" "\<And>i. valid (ChunkName b i)" "stored view w b cs" and r: "fwd b j r" and j: "j \<le> length cs"
  shows "nextChunkExists B w r = Inr (j < length cs)"
    and "j < length cs \<Longrightarrow>
      getNextChunk B w r = (None, r\<lparr>crIndex := of_nat j, crChunkOff := crChunkOff r - int (length (crChunk r)), crChunk := cs ! j\<rparr>)"
    and "j = length cs \<Longrightarrow> getNextChunk B w r = (Some (NotFoundError ''Opening chunk: Couldn't find blob.''), r)"
proof -
  have len: "length cs \<le> 65535" using w(3) by (simp add: stored_def)
  then have u: "unat (of_nat j :: u16) = j" using j by (simp add: unat_u16)
  have nxt: "nextChunkIndex r = of_nat j" and b: "crBlob r = b" using r by (simp_all add: fwd_def nextChunkIndex_def)
  show ex: "nextChunkExists B w r = Inr (j < length cs)"
    using chunk_exists [OF w] u by (simp add: nextChunkExists_def nxt b)
  show "getNextChunk B w r = (None, r\<lparr>crIndex := of_nat j, crChunkOff := crChunkOff r - int (length (crChunk r)), crChunk := cs ! j\<rparr>)"
    if "j < length cs"
    using that chunk_data [OF w, of "of_nat j"] u by (simp add: getNextChunk_def ex nxt b)
  show "getNextChunk B w r = (Some (NotFoundError ''Opening chunk: Couldn't find blob.''), r)" if "j = length cs"
    using that by (simp add: getNextChunk_def ex)
qed

end

text \<open>Copying takes what fits from what is left of the chunk.\<close>

lemma copy_fwd:
  assumes "fwd b j r" and k: "k = min (length p) (length (crChunk r) - nat (crChunkOff r))"
  shows "copyToReadBuffer p r = Some (k, take k (drop (nat (crChunkOff r)) (crChunk r)) @ drop k p, advanceOffset (int k) r)"
proof (cases "crChunkOff r \<ge> int (length (crChunk r))")
  case True
  then have "k = 0" using k by simp
  then show ?thesis using True by (simp add: copyToReadBuffer_def advanceOffset_def)
next
  case False
  have "length (drop (nat (crChunkOff r)) (crChunk r)) = length (crChunk r) - nat (crChunkOff r)" by simp
  then show ?thesis using assms False unfolding copyToReadBuffer_def fwd_def Let_def by simp
qed

lemma fwd_advance [simp]: "fwd b j r \<Longrightarrow> fwd b j (advanceOffset (int k) r)"
  by (simp add: fwd_def advanceOffset_def)

lemma to_read_advance: "fwd b j r \<Longrightarrow> to_read cs j (advanceOffset (int k) r) = drop k (to_read cs j r)"
  by (simp add: to_read_def fwd_def advanceOffset_def nat_add_distrib add.commute del: drop_append)

lemma take_to_read:
  assumes "k \<le> length (crChunk r) - nat (crChunkOff r)"
  shows "take k (drop (nat (crChunkOff r)) (crChunk r)) = take k (to_read cs j r)"
  using assms by (simp add: to_read_def)

lemma length_to_read: "length (crChunk r) - nat (crChunkOff r) \<le> length (to_read cs j r)"
  by (simp add: to_read_def)

context blob_backend
begin

lemma read_loop_fwd:
  assumes w: "inv w" "\<And>i. valid (ChunkName b i)" "stored view w b cs" and ne: "cs \<noteq> []"
  shows "\<lbrakk>fwd b j r; j \<le> length cs; n \<le> length p; n < length p \<Longrightarrow> int (length (crChunk r)) \<le> crChunkOff r;
      k = min (length p - n) (length (to_read cs j r))\<rbrakk> \<Longrightarrow>
    \<exists>err j' r'. read_loop B w p n r = Some ((n + k, err), take n p @ take k (to_read cs j r) @ drop (n + k) p, r') \<and>
      fwd b j' r' \<and> j' \<le> length cs \<and> to_read cs j' r' = drop k (to_read cs j r) \<and>
      (err = None \<and> n + k = length p \<or> err = Some ReadEOF \<and> drop k (to_read cs j r) = [])"
proof (induction "length cs - j" arbitrary: j r n p k)
  case 0
  then have j: "j = length cs" by simp
  have len: "length cs \<le> 65535" using w(3) by (simp add: stored_def)
  have rd: "to_read cs j r = drop (nat (crChunkOff r)) (crChunk r)" by (simp add: to_read_def j)
  show ?case
  proof (cases "n < length p")
    case True
    then have off: "int (length (crChunk r)) \<le> crChunkOff r" by (rule "0.prems"(4))
    then have rd0: "to_read cs j r = []" "k = 0" using rd "0.prems"(5) by simp_all
    have idx: "crIndex r \<noteq> crStart r"
    proof -
      have "unat (of_nat j :: u16) \<noteq> 0" using len j ne by (simp add: unat_u16)
      then have "(of_nat j :: u16) \<noteq> 0" by auto
      then show ?thesis using "0.prems"(1) by (simp add: fwd_def flip: minus_one_u16)
    qed
    have c: "copyToReadBuffer (drop n p) r = Some (0, drop n p, advanceOffset 0 r)"
      using copy_fwd [OF "0.prems"(1) refl, of "drop n p"] off by simp
    have "read_loop B w p n r = Some ((n, Some ReadEOF), p, advanceOffset 0 r)"
      unfolding read_loop.simps [of B w p n r]
      using True next_chunk(3) [OF w "0.prems"(1,2) j] "0.prems"(1) idx c
      by (simp add: fwd_def Let_def noChunksRead_def advanceOffset_def status_simps)
    then show ?thesis
      using fwd_advance [OF "0.prems"(1), of 0] to_read_advance [OF "0.prems"(1), of cs 0] rd0 j by auto
  next
    case False
    then have np: "n = length p" "k = 0" using "0.prems"(3,5) by simp_all
    have ex: "nextChunkExists B w r = Inr False" using next_chunk(1) [OF w "0.prems"(1,2)] j by simp
    show ?thesis
    proof (cases "crChunkOff r < int (length (crChunk r))")
      case True
      then have "read_loop B w p n r = Some ((n, None), p, r)"
        using False by (simp add: read_loop.simps reader_eof_def)
      then show ?thesis using np "0.prems"(1,2) by auto
    next
      case False
      then have "read_loop B w p n r = Some ((n, Some ReadEOF), p, r)" and "to_read cs j r = []"
        using np ex rd by (simp_all add: read_loop.simps reader_eof_def)
      then show ?thesis using np "0.prems"(1,2) by auto
    qed
  qed
next
  case (Suc m)
  then have j: "j < length cs" by simp
  note r = \<open>fwd b j r\<close>
  show ?case
  proof (cases "n < length p")
    case True
    then have off: "int (length (crChunk r)) \<le> crChunkOff r" by (rule Suc.prems(4))
    define r1 where "r1 = r\<lparr>crIndex := of_nat j, crChunkOff := crChunkOff r - int (length (crChunk r)), crChunk := cs ! j\<rparr>"
    have r1: "fwd b (Suc j) r1" using r off by (simp add: fwd_def r1_def)
    have rd: "to_read cs (Suc j) r1 = to_read cs j r"
    proof -
      have "nat (crChunkOff r - int (length (crChunk r))) = nat (crChunkOff r) - length (crChunk r)"
        using off by simp
      then show ?thesis using off j by (simp add: to_read_def r1_def Cons_nth_drop_Suc [symmetric] nat_le_eq_zle)
    qed
    have g: "getNextChunk B w r = (None, r1)" using next_chunk(2) [OF w r] j by (simp add: r1_def)
    define k1 where "k1 = min (length (drop n p)) (length (crChunk r1) - nat (crChunkOff r1))"
    define p1 where "p1 = take n p @ take k1 (drop (nat (crChunkOff r1)) (crChunk r1)) @ drop k1 (drop n p)"
    define r2 where "r2 = advanceOffset (int k1) r1"
    have c: "copyToReadBuffer (drop n p) r1 = Some (k1, take k1 (drop (nat (crChunkOff r1)) (crChunk r1)) @ drop k1 (drop n p), r2)"
      using copy_fwd [OF r1 k1_def] by (simp add: r2_def)
    have step: "read_loop B w p n r = read_loop B w p1 (n + k1) r2"
      unfolding read_loop.simps [of B w p n r] using True g c r by (simp add: Let_def p1_def fwd_def)
    have k1: "k1 \<le> length p - n" "k1 \<le> length (to_read cs j r)"
      using length_to_read [of r1 cs "Suc j"] rd by (simp_all add: k1_def)
    have lp1: "length p1 = length p" using k1 True by (simp add: p1_def k1_def)
    have r2: "fwd b (Suc j) r2" and rd2: "to_read cs (Suc j) r2 = drop k1 (to_read cs j r)"
      using r1 to_read_advance [OF r1] rd by (simp_all add: r2_def)
    have full: "int (length (crChunk r2)) \<le> crChunkOff r2" if "n + k1 < length p1"
    proof -
      have "k1 = length (crChunk r1) - nat (crChunkOff r1)" using that lp1 by (auto simp: k1_def)
      then show ?thesis using r1 by (auto simp: r2_def advanceOffset_def fwd_def)
    qed
    have "m = length cs - Suc j" "Suc j \<le> length cs" "n + k1 \<le> length p1"
      using Suc.hyps(2) j k1 lp1 True by simp_all
    note ih = Suc.hyps(1) [OF this(1) r2 this(2,3) full refl]
    have kk: "k = k1 + min (length p1 - (n + k1)) (length (to_read cs (Suc j) r2))"
      using Suc.prems(5) k1 lp1 True by (simp add: rd2)
    have tk: "take k1 (drop (nat (crChunkOff r1)) (crChunk r1)) = take k1 (to_read cs j r)"
      using take_to_read [of k1 r1 cs "Suc j"] rd by (simp add: k1_def)
    then have p1: "take (n + k1) p1 = take n p @ take k1 (to_read cs j r)"
      using k1 True by (simp add: p1_def)
    have d: "drop (n + k1 + x) p1 = drop (n + k1 + x) p" for x
      using k1 True lp1 tk by (simp add: p1_def min_def add_ac)
    have t: "take k (to_read cs j r) = take k1 (to_read cs j r) @ take (k - k1) (drop k1 (to_read cs j r))"
      using kk take_add [of k1 "k - k1" "to_read cs j r"] by simp
    show ?thesis
      using ih unfolding step rd2 p1 d t
      by (simp add: kk rd2 add.assoc lp1) (simp add: add.commute)
  next
    case False
    then have np: "n = length p" "k = 0" using Suc.prems(3,5) by simp_all
    have ex: "nextChunkExists B w r = Inr True" using next_chunk(1) [OF w r] j by simp
    then have "read_loop B w p n r = Some ((n, None), p, r)"
      using False by (simp add: read_loop.simps reader_eof_def)
    then show ?thesis using np r j by auto
  qed
qed

text \<open>A read fills the buffer with what comes next, and reports the end only when nothing is left.\<close>

lemma chunk_Read_fwd:
  assumes w: "inv w" "\<And>i. valid (ChunkName b i)" "stored view w b cs" and ne: "cs \<noteq> []"
    and r: "fwd b j r" "j \<le> length cs" and k: "k = min (length p) (length (to_read cs j r))"
  shows "\<exists>err j' r'. chunk_Read B w p r = Some ((k, err), take k (to_read cs j r) @ drop k p, r') \<and>
    fwd b j' r' \<and> j' \<le> length cs \<and> to_read cs j' r' = drop k (to_read cs j r) \<and>
    (err = None \<and> k = length p \<or> err = Some ReadEOF \<and> drop k (to_read cs j r) = [])"
proof -
  define k1 where "k1 = min (length p) (length (crChunk r) - nat (crChunkOff r))"
  define p1 where "p1 = take k1 (drop (nat (crChunkOff r)) (crChunk r)) @ drop k1 p"
  define r1 where "r1 = advanceOffset (int k1) r"
  have c: "copyToReadBuffer p r = Some (k1, p1, r1)" using copy_fwd [OF r(1) k1_def] by (simp add: p1_def r1_def)
  have k1: "k1 \<le> length p" "k1 \<le> length (to_read cs j r)"
    using length_to_read [of r cs j] by (simp_all add: k1_def)
  have p1: "length p1 = length p" by (simp add: p1_def k1_def)
  have r1: "fwd b j r1" "to_read cs j r1 = drop k1 (to_read cs j r)"
    using r(1) to_read_advance [OF r(1)] by (simp_all add: r1_def)
  have full: "int (length (crChunk r1)) \<le> crChunkOff r1" if "k1 < length p1"
  proof -
    have "k1 = length (crChunk r) - nat (crChunkOff r)" using that p1 by (auto simp: k1_def)
    then show ?thesis using r(1) by (auto simp: r1_def advanceOffset_def fwd_def)
  qed
  have tk: "take k1 (drop (nat (crChunkOff r)) (crChunk r)) = take k1 (to_read cs j r)"
    by (rule take_to_read) (simp add: k1_def)
  then have t1: "take k1 p1 = take k1 (to_read cs j r)" using k1 by (simp add: p1_def)
  have d: "drop (k1 + x) p1 = drop (k1 + x) p" for x
    using k1 p1 tk by (simp add: p1_def min_def add_ac)
  have kk: "k = k1 + min (length p1 - k1) (length (to_read cs j r1))"
    using k k1 p1 r1 by simp
  have t: "take k (to_read cs j r) = take k1 (to_read cs j r) @ take (k - k1) (drop k1 (to_read cs j r))"
    using kk take_add [of k1 "k - k1" "to_read cs j r"] by simp
  have "k1 \<le> length p1" using k1 p1 by simp
  note l0 = read_loop_fwd [where p = p1 and n = k1, OF w ne r1(1) r(2) this full refl]
  define e where "e = k - k1"
  have e: "k = k1 + e" "min (length p1 - k1) (length (to_read cs j r1)) = e"
    using kk by (simp_all add: e_def)
  have dd: "drop e (drop k1 xs) = drop k xs" for xs :: bytes using e(1) by (simp add: add.commute)
  obtain err j' r' where l: "read_loop B w p1 k1 r1 = Some ((k, err), take k (to_read cs j r) @ drop k p, r')"
    and "fwd b j' r'" "j' \<le> length cs" "to_read cs j' r' = drop k (to_read cs j r)"
    and "err = None \<and> k = length p1 \<or> err = Some ReadEOF \<and> drop k (to_read cs j r) = []"
    using l0 [unfolded e(2), unfolded r1(2) t1 d, folded e(1)] t dd unfolding e_def [symmetric] by auto
  moreover have "chunk_Read B w p r = Some ((k, err), take k (to_read cs j r) @ drop k p, r')"
    using l c r(1) by (simp add: chunk_Read_def fwd_def)
  ultimately show ?thesis using p1 by auto
qed

lemma read_all_fwd:
  assumes w: "inv w" "\<And>i. valid (ChunkName b i)" "stored view w b cs" and ne: "cs \<noteq> []" and room: "\<And>n. 0 < room n"
  shows "fwd b j r \<Longrightarrow> j \<le> length cs \<Longrightarrow> read_all B w room acc r = Some (acc @ to_read cs j r, None)"
proof (induction "length (to_read cs j r)" arbitrary: j r acc rule: less_induct)
  case less
  define p where "p = replicate (room (length acc)) (0 :: byte)"
  define k where "k = min (length p) (length (to_read cs j r))"
  obtain err j' r' where rd: "chunk_Read B w p r = Some ((k, err), take k (to_read cs j r) @ drop k p, r')"
    and r': "fwd b j' r'" "j' \<le> length cs" "to_read cs j' r' = drop k (to_read cs j r)"
    and err: "err = None \<and> k = length p \<or> err = Some ReadEOF \<and> drop k (to_read cs j r) = []"
    using chunk_Read_fwd [OF w ne less.prems k_def] by blast
  have k: "k \<le> length (to_read cs j r)" by (simp add: k_def)
  show ?case
  proof (cases err)
    case None
    then have "0 < k" "length (to_read cs j' r') < length (to_read cs j r)"
      using err room [of "length acc"] k r'(3) by (auto simp: p_def intro!: diff_less)
    then have "read_all B w room (acc @ take k (to_read cs j r)) r' = Some ((acc @ take k (to_read cs j r)) @ to_read cs j' r', None)"
      using less.hyps [OF _ r'(1,2)] by blast
    then show ?thesis
      using rd None r'(3) k by (simp add: read_all.simps [of B w room acc r] p_def [symmetric])
  next
    case (Some e)
    then have "take k (to_read cs j r) = to_read cs j r" using err k by auto
    then show ?thesis
      using rd Some err k by (simp add: read_all.simps [of B w room acc r] p_def [symmetric])
  qed
qed

lemma ReadBlob_stored:
  assumes w: "inv w" "\<And>i. valid (ChunkName b i)" "stored view w b cs" and ne: "cs \<noteq> []" and room: "\<And>n. 0 < room n"
  shows "Chunkstore_ReadBlob B room b w = Some (concat cs, None)"
  using read_all_fwd [where j = 0 and r = "chunk_Reader b" and acc = "[]" and room = room, OF w ne room]
  by (simp add: Chunkstore_ReadBlob_def fwd_def chunk_Reader_def to_read_def)

lemma ReadBlob_missing:
  assumes w: "inv w" "\<And>i. valid (ChunkName b i)" "stored view w b []" and room: "\<And>n. 0 < room n"
  shows "Chunkstore_ReadBlob B room b w = Some ([], Some (NotFoundError ''Opening chunk: Couldn't find blob.''))"
proof -
  have r: "fwd b 0 (chunk_Reader b)" by (simp add: fwd_def chunk_Reader_def)
  have c: "copyToReadBuffer p (chunk_Reader b) = Some (0, p, chunk_Reader b)" for p
    by (simp add: copyToReadBuffer_def chunk_Reader_def)
  have g: "getNextChunk B w (chunk_Reader b) = (Some (NotFoundError ''Opening chunk: Couldn't find blob.''), chunk_Reader b)"
    using next_chunk(3) [OF w r] by simp
  define p where "p = replicate (room 0) (0 :: byte)"
  have "0 < length p" using room by (simp add: p_def)
  then have "read_loop B w p 0 (chunk_Reader b) =
      Some ((0, Some (ReadError (NotFoundError ''Opening chunk: Couldn't find blob.''))), p, chunk_Reader b)"
    using g c by (simp add: read_loop.simps noChunksRead_def) (simp add: chunk_Reader_def)
  then have "chunk_Read B w p (chunk_Reader b) =
      Some ((0, Some (ReadError (NotFoundError ''Opening chunk: Couldn't find blob.''))), p, chunk_Reader b)"
    using c by (simp add: chunk_Read_def) (simp add: chunk_Reader_def)
  then show ?thesis
    by (simp add: Chunkstore_ReadBlob_def read_all.simps [of B w room "[]"] p_def)
qed

text \<open>Seeking from the start, within the blob or beyond it, and reading on gives the blob from there.\<close>

lemma seek_read:
  assumes w: "inv w" "\<And>i. valid (ChunkName b i)" "stored view w b cs" and ne: "cs \<noteq> []" and "0 \<le> offset"
    and k: "k = min (length p) (length (concat cs) - nat offset)"
  obtains r err r' where "chunk_Seek B w offset SeekStart (chunk_Reader b) = Some ((offset, None), r)"
    and "chunk_Read B w p r = Some ((k, err), take k (drop (nat offset) (concat cs)) @ drop k p, r')"
proof -
  define r where "r = (chunk_Reader b)\<lparr>crOff := offset, crChunkOff := offset\<rparr>"
  have s: "chunk_Seek B w offset SeekStart (chunk_Reader b) = Some ((offset, None), r)"
    using assms(5) by (auto simp: chunk_Seek_def chunk_Reader_def seek_to_def Let_def advanceOffset_def r_def)
  have "fwd b 0 r" and rd: "to_read cs 0 r = drop (nat offset) (concat cs)"
    using assms(5) by (simp_all add: fwd_def to_read_def r_def chunk_Reader_def)
  then show thesis
    using chunk_Read_fwd [OF w ne, of 0 r k p] that [OF s] k by auto
qed

end

section \<open>Backwards\<close>

lemma length_but_last [simp]: "length (but_last k xs) = length xs - k"
  by (simp add: but_last_def)

lemma length_suffix_of [simp]: "length (suffix_of k xs) = min k (length xs)"
  by (simp add: suffix_of_def)

lemma suffix_of_add: "e + k \<le> length xs \<Longrightarrow> suffix_of e (but_last k xs) @ suffix_of k xs = suffix_of (e + k) xs"
proof -
  assume le: "e + k \<le> length xs"
  have "suffix_of e (but_last k xs) = take e (drop (length xs - (e + k)) xs)"
    unfolding suffix_of_def length_but_last using le by (simp add: but_last_def drop_take add.commute)
  moreover have "suffix_of k xs = drop e (drop (length xs - (e + k)) xs)" using le by (simp add: suffix_of_def)
  ultimately show ?thesis by (simp only: append_take_drop_id suffix_of_def [of "e + k"])
qed

lemma but_last_add: "but_last e (but_last k xs) = but_last (k + e) xs"
proof -
  have "min (length xs - k) (length xs - (k + e)) = length xs - (k + e)" by simp
  then show ?thesis unfolding but_last_def [of e] length_but_last by (simp add: but_last_def min.commute)
qed

lemma but_last_all: "length xs \<le> k \<Longrightarrow> but_last k xs = []"
  by (simp add: but_last_def)

lemma suffix_of_append: "k \<le> length ys \<Longrightarrow> suffix_of k (xs @ ys) = suffix_of k ys"
  by (simp add: suffix_of_def)

lemma but_last_append: "k \<le> length ys \<Longrightarrow> but_last k (xs @ ys) = xs @ but_last k ys"
  by (simp add: but_last_def)

lemma copy_bwd:
  assumes r: "bwd b n j r" and k: "k = min (length p) (length (crChunk r) - nat (crChunkOff r))"
  shows "copyToReadBuffer p r =
    Some (k, take (length p - k) p @ suffix_of k (but_last (nat (crChunkOff r)) (crChunk r)), advanceOffset (int k) r)"
proof (cases "crChunkOff r \<ge> int (length (crChunk r))")
  case True
  then have "k = 0" using k by simp
  then show ?thesis using True by (simp add: copyToReadBuffer_def advanceOffset_def suffix_of_def but_last_all nat_le_eq_zle)
next
  case False
  define rem where "rem = length (crChunk r) - nat (crChunkOff r)"
  have rem: "nat (int (length (crChunk r)) - crChunkOff r) = rem" "rem \<le> length (crChunk r)"
    using r False by (auto simp: rem_def bwd_def)
  have "but_last (nat (crChunkOff r)) (crChunk r) = take rem (crChunk r)" by (simp add: but_last_def rem_def)
  then show ?thesis
    using r False k rem(2) unfolding copyToReadBuffer_def bwd_def Let_def rem rem_def [symmetric]
    by (auto simp: suffix_of_def min_def)
qed

lemma bwd_advance [simp]: "bwd b n j r \<Longrightarrow> bwd b n j (advanceOffset (int k) r)"
  by (simp add: bwd_def advanceOffset_def)

lemma to_read_back_advance: "bwd b n j r \<Longrightarrow> to_read_back cs j (advanceOffset (int k) r) = but_last k (to_read_back cs j r)"
  by (simp add: to_read_back_def bwd_def advanceOffset_def nat_add_distrib but_last_add)

lemma suffix_to_read_back:
  assumes "k \<le> length (crChunk r) - nat (crChunkOff r)"
  shows "suffix_of k (but_last (nat (crChunkOff r)) (crChunk r)) = suffix_of k (to_read_back cs j r)"
proof (cases "nat (crChunkOff r) \<le> length (crChunk r)")
  case True
  then show ?thesis using assms by (simp add: to_read_back_def but_last_append suffix_of_append)
next
  case False
  then have "k = 0" using assms by simp
  then show ?thesis by (simp add: suffix_of_def)
qed

lemma length_to_read_back: "length (crChunk r) - nat (crChunkOff r) \<le> length (to_read_back cs j r)"
  by (simp add: to_read_back_def)

context blob_backend
begin

lemma next_chunk_back:
  assumes w: "inv w" "\<And>i. valid (ChunkName b i)" "stored view w b cs"
    and r: "bwd b (length cs) j r" and j: "j \<le> length cs"
  shows "nextChunkExists B w r = Inr (0 < j)"
    and "j = Suc j' \<Longrightarrow>
      getNextChunk B w r = (None, r\<lparr>crIndex := of_nat j', crChunkOff := crChunkOff r - int (length (crChunk r)), crChunk := cs ! j'\<rparr>)"
    and "j = 0 \<Longrightarrow> getNextChunk B w r = (Some (NotFoundError ''Opening chunk: Couldn't find blob.''), r)"
proof -
  have len: "length cs \<le> 65535" using w(3) by (simp add: stored_def)
  have nxt: "nextChunkIndex r = of_nat j - 1" and b: "crBlob r = b" using r by (simp_all add: bwd_def nextChunkIndex_def)
  have "unat (65535 :: u16) = 65535" by simp
  then have m1: "unat (- 1 :: u16) = 65535" unfolding minus_one_u16 .
  have u: "unat ((of_nat j :: u16) - 1) = (if j = 0 then 65535 else j - 1)"
  proof (cases j)
    case (Suc j')
    then show ?thesis using len j u16_Suc [of j'] by (simp add: unat_u16)
  next
    case 0
    then show ?thesis using m1 by simp
  qed
  show ex: "nextChunkExists B w r = Inr (0 < j)"
    using chunk_exists [OF w] u j len by (auto simp: nextChunkExists_def nxt b)
  show "getNextChunk B w r = (None, r\<lparr>crIndex := of_nat j', crChunkOff := crChunkOff r - int (length (crChunk r)), crChunk := cs ! j'\<rparr>)"
    if "j = Suc j'"
    using that chunk_data [OF w, of "of_nat j - 1"] u j u16_Suc [of j'] by (simp add: getNextChunk_def ex nxt b)
  show "getNextChunk B w r = (Some (NotFoundError ''Opening chunk: Couldn't find blob.''), r)" if "j = 0"
    using that by (simp add: getNextChunk_def ex)
qed

lemma read_loop_bwd:
  assumes w: "inv w" "\<And>i. valid (ChunkName b i)" "stored view w b cs" and ne: "cs \<noteq> []"
  shows "\<lbrakk>bwd b (length cs) j r; j \<le> length cs; n \<le> length p; n < length p \<Longrightarrow> int (length (crChunk r)) \<le> crChunkOff r;
      k = min (length p - n) (length (to_read_back cs j r))\<rbrakk> \<Longrightarrow>
    \<exists>err j' r'. read_loop B w p n r =
        Some ((n + k, err), take (length p - n - k) p @ suffix_of k (to_read_back cs j r) @ drop (length p - n) p, r') \<and>
      bwd b (length cs) j' r' \<and> j' \<le> length cs \<and> to_read_back cs j' r' = but_last k (to_read_back cs j r) \<and>
      (err = None \<and> n + k = length p \<or> err = Some ReadEOF \<and> but_last k (to_read_back cs j r) = [])"
proof (induction j arbitrary: r n p k)
  case 0
  have len: "length cs \<le> 65535" using w(3) by (simp add: stored_def)
  have rd: "to_read_back cs 0 r = but_last (nat (crChunkOff r)) (crChunk r)" by (simp add: to_read_back_def)
  show ?case
  proof (cases "n < length p")
    case True
    then have off: "int (length (crChunk r)) \<le> crChunkOff r" by (rule "0.prems"(4))
    then have rd0: "to_read_back cs 0 r = []" "k = 0" using rd "0.prems"(5) by (simp_all add: but_last_def)
    have "unat (of_nat (length cs) :: u16) \<noteq> 0" using len ne by (simp add: unat_u16)
    then have idx: "crIndex r \<noteq> crStart r" using "0.prems"(1) by (auto simp: bwd_def)
    have c: "copyToReadBuffer (take (length p - n) p) r = Some (0, take (length p - n) p, advanceOffset 0 r)"
      using copy_bwd [OF "0.prems"(1) refl, of "take (length p - n) p"] off
      by (simp add: suffix_of_def but_last_all nat_le_eq_zle)
    have "read_loop B w p n r = Some ((n, Some ReadEOF), p, advanceOffset 0 r)"
      unfolding read_loop.simps [of B w p n r]
      using True next_chunk_back(3) [OF w "0.prems"(1,2) refl] "0.prems"(1) idx c
      by (simp add: bwd_def Let_def noChunksRead_def advanceOffset_def status_simps)
    then show ?thesis
      using bwd_advance [OF "0.prems"(1), of 0] to_read_back_advance [OF "0.prems"(1), of cs 0] rd0
      by (auto simp: suffix_of_def but_last_def)
  next
    case False
    then have np: "n = length p" "k = 0" using "0.prems"(3,5) by simp_all
    have ex: "nextChunkExists B w r = Inr False" using next_chunk_back(1) [OF w "0.prems"(1,2)] by simp
    show ?thesis
    proof (cases "crChunkOff r < int (length (crChunk r))")
      case True
      then have "read_loop B w p n r = Some ((n, None), p, r)"
        using False by (simp add: read_loop.simps reader_eof_def)
      then show ?thesis using np "0.prems"(1,2) by (auto simp: suffix_of_def but_last_def)
    next
      case False
      then have "read_loop B w p n r = Some ((n, Some ReadEOF), p, r)" and "to_read_back cs 0 r = []"
        using np ex rd by (simp_all add: read_loop.simps reader_eof_def but_last_def)
      then show ?thesis using np "0.prems"(1,2) by (auto simp: suffix_of_def but_last_def)
    qed
  qed
next
  case (Suc m)
  note r = \<open>bwd b (length cs) (Suc m) r\<close>
  show ?case
  proof (cases "n < length p")
    case True
    then have off: "int (length (crChunk r)) \<le> crChunkOff r" by (rule Suc.prems(4))
    define r1 where "r1 = r\<lparr>crIndex := of_nat m, crChunkOff := crChunkOff r - int (length (crChunk r)), crChunk := cs ! m\<rparr>"
    have r1: "bwd b (length cs) m r1" using r off by (simp add: bwd_def r1_def)
    have rd: "to_read_back cs m r1 = to_read_back cs (Suc m) r"
    proof -
      have "nat (crChunkOff r - int (length (crChunk r))) = nat (crChunkOff r) - length (crChunk r)"
        using off by simp
      moreover have "but_last (nat (crChunkOff r)) (xs @ crChunk r) = but_last (nat (crChunkOff r) - length (crChunk r)) xs" for xs
        using off by (simp add: but_last_def nat_le_eq_zle)
      ultimately show ?thesis
        using Suc.prems(2)
          by (simp add: to_read_back_def r1_def take_Suc_conv_app_nth flip: append_assoc)
    qed
    have g: "getNextChunk B w r = (None, r1)" using next_chunk_back(2) [OF w r Suc.prems(2) refl] by (simp add: r1_def)
    define k1 where "k1 = min (length (take (length p - n) p)) (length (crChunk r1) - nat (crChunkOff r1))"
    define tb where "tb = to_read_back cs (Suc m) r"
    define p1 where "p1 = take (length p - n - k1) p @ suffix_of k1 tb @ drop (length p - n) p"
    define r2 where "r2 = advanceOffset (int k1) r1"
    have sfx: "suffix_of k1 (but_last (nat (crChunkOff r1)) (crChunk r1)) = suffix_of k1 tb"
      using suffix_to_read_back [of k1 r1 cs m] rd by (simp add: k1_def tb_def)
    have c: "copyToReadBuffer (take (length p - n) p) r1 = Some (k1, take (length p - n - k1) p @ suffix_of k1 tb, r2)"
    proof -
      have "length (take (length p - n) p) = length p - n" "min (length p - n - k1) (length p - n) = length p - n - k1"
        by simp_all
      then show ?thesis using copy_bwd [OF r1 k1_def] sfx by (simp only: r2_def take_take)
    qed
    have step: "read_loop B w p n r = read_loop B w p1 (n + k1) r2"
      unfolding read_loop.simps [of B w p n r] using True g c r by (simp add: Let_def p1_def bwd_def)
    have k1: "k1 \<le> length p - n" "k1 \<le> length tb"
      using length_to_read_back [of r1 cs m] rd by (simp_all add: k1_def tb_def)
    have lp1: "length p1 = length p" using k1 True by (simp add: p1_def)
    have r2: "bwd b (length cs) m r2" and rd2: "to_read_back cs m r2 = but_last k1 tb"
      using r1 to_read_back_advance [OF r1] rd by (simp_all add: r2_def tb_def)
    have full: "int (length (crChunk r2)) \<le> crChunkOff r2" if "n + k1 < length p1"
    proof -
      have "k1 = length (crChunk r1) - nat (crChunkOff r1)" using that lp1 by (auto simp: k1_def)
      then show ?thesis using r1 by (auto simp: r2_def advanceOffset_def bwd_def)
    qed
    define e where "e = min (length p1 - (n + k1)) (length (to_read_back cs m r2))"
    have e: "k = k1 + e" "e + k1 \<le> length tb"
      using Suc.prems(5) k1 lp1 True by (simp_all add: e_def rd2 tb_def [symmetric])
    have "m \<le> length cs" "n + k1 \<le> length p1" using Suc.prems(2) k1 lp1 True by simp_all
    note ih = Suc.IH [OF r2 this full e_def]
    have d: "drop (length p1 - (n + k1)) p1 = suffix_of k1 tb @ drop (length p - n) p"
      unfolding lp1 using k1 True by (simp add: p1_def)
    have t: "take (length p1 - (n + k1) - e) p1 = take (length p - n - k) p"
      unfolding lp1 using k1 True e by (simp add: p1_def min_def add.assoc)
    show ?thesis
      using ih suffix_of_add [OF e(2)] unfolding step rd2 d t tb_def [symmetric]
      by (simp add: e(1) lp1 add.assoc but_last_add flip: append_assoc) (simp add: add.commute)
  next
    case False
    then have np: "n = length p" "k = 0" using Suc.prems(3,5) by simp_all
    have ex: "nextChunkExists B w r = Inr True" using next_chunk_back(1) [OF w r Suc.prems(2)] by simp
    then have "read_loop B w p n r = Some ((n, None), p, r)"
      using False by (simp add: read_loop.simps reader_eof_def)
    then show ?thesis using np r Suc.prems(2) by (auto simp: suffix_of_def but_last_def)
  qed
qed

text \<open>A read from the end fills the front of the buffer with the last bytes not read yet, in their order.\<close>

lemma chunk_Read_bwd:
  assumes w: "inv w" "\<And>i. valid (ChunkName b i)" "stored view w b cs" and ne: "cs \<noteq> []"
    and r: "bwd b (length cs) j r" "j \<le> length cs" and k: "k = min (length p) (length (to_read_back cs j r))"
  shows "\<exists>err j' r'. chunk_Read B w p r =
      Some ((k, err), suffix_of k (to_read_back cs j r) @ replicate (length p - k) 0, r') \<and>
    bwd b (length cs) j' r' \<and> j' \<le> length cs \<and> to_read_back cs j' r' = but_last k (to_read_back cs j r) \<and>
    (err = None \<and> k = length p \<or> err = Some ReadEOF \<and> but_last k (to_read_back cs j r) = [])"
proof -
  define tb where "tb = to_read_back cs j r"
  define k1 where "k1 = min (length p) (length (crChunk r) - nat (crChunkOff r))"
  define p1 where "p1 = take (length p - k1) p @ suffix_of k1 tb"
  define r1 where "r1 = advanceOffset (int k1) r"
  have "suffix_of k1 (but_last (nat (crChunkOff r)) (crChunk r)) = suffix_of k1 tb"
    using suffix_to_read_back [of k1 r cs j] by (simp add: k1_def tb_def)
  then have c: "copyToReadBuffer p r = Some (k1, p1, r1)" using copy_bwd [OF r(1) k1_def] by (simp add: p1_def r1_def)
  have k1: "k1 \<le> length p" "k1 \<le> length tb"
    using length_to_read_back [of r cs j] by (simp_all add: k1_def tb_def)
  then have p1: "length p1 = length p" by (simp add: p1_def)
  have r1: "bwd b (length cs) j r1" "to_read_back cs j r1 = but_last k1 tb"
    using r(1) to_read_back_advance [OF r(1)] by (simp_all add: r1_def tb_def)
  have full: "int (length (crChunk r1)) \<le> crChunkOff r1" if "k1 < length p1"
  proof -
    have "k1 = length (crChunk r) - nat (crChunkOff r)" using that p1 by (auto simp: k1_def)
    then show ?thesis using r(1) by (auto simp: r1_def advanceOffset_def bwd_def)
  qed
  define e where "e = min (length p1 - k1) (length (to_read_back cs j r1))"
  have e: "k = k1 + e" "e + k1 \<le> length tb" using k k1 p1 r1(2) by (simp_all add: e_def tb_def [symmetric])
  have "k1 \<le> length p1" using k1 p1 by simp
  note l0 = read_loop_bwd [OF w ne r1(1) r(2) this full e_def]
  have d: "drop (length p1 - k1) p1 = suffix_of k1 tb" unfolding p1 by (simp add: p1_def)
  have t: "take (length p1 - k1 - e) p1 = take (length p - k) p" unfolding p1 using k1 by (simp add: p1_def e(1) min_def)
  obtain err j' r' where l: "read_loop B w p1 k1 r1 = Some ((k, err), take (length p - k) p @ suffix_of k tb, r')"
    and rest: "bwd b (length cs) j' r'" "j' \<le> length cs" "to_read_back cs j' r' = but_last k tb"
      "err = None \<and> k = length p1 \<or> err = Some ReadEOF \<and> but_last k tb = []"
    using l0 [unfolded d t r1(2) but_last_add suffix_of_add [OF e(2)]] e(1) suffix_of_add [OF e(2)]
    by (auto simp: add.commute [of e])
  have "shiftToFront (take (length p - k) p @ suffix_of k tb) k = suffix_of k tb @ replicate (length p - k) 0"
    using e k1 k by (auto simp: shiftToFront_def tb_def)
  then have "chunk_Read B w p r = Some ((k, err), suffix_of k tb @ replicate (length p - k) 0, r')"
    using l c r(1) by (simp add: chunk_Read_def bwd_def)
  then show ?thesis using rest p1 unfolding tb_def by auto
qed

lemma first_missing_stored:
  assumes w: "inv w" "\<And>i. valid (ChunkName b i)" "stored view w b cs"
  shows "j \<le> length cs \<Longrightarrow> first_missing B b (of_nat j) w = Some (Inr (of_nat (length cs)))"
proof (induction "length cs - j" arbitrary: j)
  case 0
  then have j: "j = length cs" by simp
  then have "unat (of_nat j :: u16) = length cs" using w(3) by (simp add: stored_def unat_u16)
  then show ?case using chunk_exists [OF w, of "of_nat j"] j by (simp add: first_missing.simps)
next
  case (Suc m)
  then have j: "j < length cs" by simp
  then have "unat (of_nat j :: u16) = j" using w(3) by (simp add: stored_def unat_u16)
  then have "first_missing B b (of_nat j) w = first_missing B b (of_nat (Suc j)) w"
    using chunk_exists [OF w, of "of_nat j"] j by (subst first_missing.simps) (simp add: add.commute)
  then show ?case using Suc.hyps(1) [of "Suc j"] Suc.hyps(2) j by (simp del: of_nat_Suc)
qed

lemma ReverseReader_stored:
  assumes w: "inv w" "\<And>i. valid (ChunkName b i)" "stored view w b cs"
  obtains r where "ReverseReader B b w = Some (Inr r)" and "bwd b (length cs) (length cs) r"
    and "to_read_back cs (length cs) r = concat cs"
  using first_missing_stored [OF w, of 0]
  by (simp add: ReverseReader_def bwd_def chunk_Reader_def to_read_back_def but_last_def)

section \<open>Deleting\<close>

lemma last_of_run_stored:
  assumes w: "inv w" "\<And>i. valid (ChunkName b i)" "stored view w b cs"
  shows "j \<le> length cs \<Longrightarrow> last_of_run B b (of_nat j - 1) w = Some (Inr (of_nat (length cs) - 1))"
proof (induction "length cs - j" arbitrary: j)
  case 0
  then have j: "j = length cs" by simp
  then have "unat (of_nat j :: u16) = length cs" using w(3) by (simp add: stored_def unat_u16)
  then show ?case using chunk_exists [OF w, of "of_nat j"] j by (simp add: last_of_run.simps)
next
  case (Suc m)
  then have j: "j < length cs" by simp
  then have "unat (of_nat j :: u16) = j" using w(3) by (simp add: stored_def unat_u16)
  then have "last_of_run B b (of_nat j - 1) w = last_of_run B b (of_nat (Suc j) - 1) w"
    using chunk_exists [OF w, of "of_nat j"] j by (subst last_of_run.simps) simp
  then show ?case using Suc.hyps(1) [of "Suc j"] Suc.hyps(2) j by (simp del: of_nat_Suc)
qed

lemma stored_delete:
  assumes "stored view w b (take (Suc j) cs)" and "Suc j \<le> length cs" and "view w' = (view w)(ChunkName b (of_nat j) := None)"
  shows "stored view w' b (take j cs)"
proof -
  have len: "Suc j \<le> 65535" using assms(1,2) by (simp add: stored_def)
  then have j: "unat (of_nat j :: u16) = j" by (simp add: unat_u16)
  have "view w' (ChunkName b i) = (if unat i < j then Some (cs ! unat i) else None)" for i
  proof (cases "i = of_nat j")
    case True
    then show ?thesis using j by (simp add: assms(3))
  next
    case False
    then have "unat i \<noteq> j" using j by auto
    then show ?thesis using assms(1,2) False by (auto simp: assms(3) stored_def less_Suc_eq)
  qed
  then show ?thesis using len assms(2) by (simp add: stored_def)
qed

lemma delete_from_stored:
  assumes "\<And>i. valid (ChunkName b i)"
  shows "\<lbrakk>j \<le> length cs; length cs \<le> 65535; inv w; stored view w b (take j cs)\<rbrakk> \<Longrightarrow>
    \<exists>err w' m. delete_from B b (of_nat j - 1) w = (err, w') \<and> inv w' \<and> m \<le> j \<and> stored view w' b (take m cs) \<and> (err = None \<longrightarrow> m = 0)"
proof (induction j arbitrary: w)
  case 0
  then show ?case using minus_one_u16 by (simp add: delete_from.simps)
next
  case (Suc j)
  have idx: "(of_nat (Suc j) :: u16) - 1 = of_nat j" by (rule u16_Suc)
  have j: "unat (of_nat j :: u16) = j" using Suc.prems by (simp add: unat_u16)
  have ne: "(of_nat j :: u16) \<noteq> 65535"
  proof
    assume "(of_nat j :: u16) = 65535"
    then have "unat (of_nat j :: u16) = unat (65535 :: u16)" by (rule arg_cong)
    then show False using j Suc.prems by simp
  qed
  obtain err w1 where d: "bs_DeleteBlob B (ChunkName b (of_nat j)) w = (err, w1)" by fastforce
  note law = delete_law [OF Suc.prems(3) assms d]
  show ?case
  proof (cases err)
    case (Some e)
    then have "delete_from B b (of_nat (Suc j) - 1) w = (Some e, w1)"
      unfolding idx using ne d by (simp add: delete_from.simps deleteChunk_def)
    moreover have "stored view w1 b (take (Suc j) cs)" using law Some Suc.prems(4) by (simp add: stored_def)
    ultimately show ?thesis using law by blast
  next
    case None
    have st: "stored view w1 b (take j cs)" using stored_delete [OF Suc.prems(4,1)] law None by simp
    have "delete_from B b (of_nat (Suc j) - 1) w = delete_from B b (of_nat j - 1) w1"
      unfolding idx using ne d None by (subst delete_from.simps) (simp add: deleteChunk_def)
    moreover have "inv w1" using law by simp
    ultimately show ?thesis
      using Suc.IH [OF _ Suc.prems(2) _ st] Suc.prems(1) by (metis Suc_leD le_SucI)
  qed
qed

lemma DeleteBlob_stored:
  assumes w: "inv w" "\<And>i. valid (ChunkName b i)" "stored view w b cs"
  obtains err w' m where "DeleteBlob B b w = Some (err, w')" and "inv w'" and "m \<le> length cs"
    and "stored view w' b (take m cs)" and "err = None \<Longrightarrow> m = 0"
proof -
  have "last_of_run B b 65535 w = Some (Inr (of_nat (length cs) - 1))"
    using last_of_run_stored [OF w, of 0] minus_one_u16 by simp
  moreover have "length cs \<le> 65535" using w(3) by (simp add: stored_def)
  ultimately show thesis
    using delete_from_stored [where j = "length cs", OF w(2) _ _ w(1)] w(3) that by (fastforce simp: DeleteBlob_def)
qed

lemma last_index_stored:
  assumes w: "inv w" "\<And>i. valid (ChunkName b i)" "stored view w b cs"
    and ne: "cs \<noteq> []" "length cs < 65535 \<Longrightarrow> of_nat (length cs) \<noteq> s"
  shows "i \<le> length cs \<Longrightarrow> last_index_loop B b s (of_nat i) w = (of_nat (length cs) - 1, None)"
proof (induction "length cs - i" arbitrary: i)
  case 0
  then have i: "i = length cs" by simp
  then have u: "unat (of_nat i :: u16) = length cs" using w(3) by (simp add: stored_def unat_u16)
  then have "i \<noteq> 0 \<Longrightarrow> (of_nat i :: u16) \<noteq> 0" using i by auto
  moreover have "length cs < 65535 \<or> length cs = 65535" using w(3) by (auto simp: stored_def)
  ultimately show ?case using chunk_exists [OF w, of "of_nat i"] i u ne by (auto simp: last_index_loop.simps)
next
  case (Suc m)
  then have i: "i < length cs" by simp
  then have u: "unat (of_nat i :: u16) = i" using w(3) by (simp add: stored_def unat_u16)
  have "(of_nat i :: u16) \<noteq> 65535"
  proof
    assume "(of_nat i :: u16) = 65535"
    then have "unat (of_nat i :: u16) = unat (65535 :: u16)" by (rule arg_cong)
    then show False using u i w(3) by (simp add: stored_def)
  qed
  then have "last_index_loop B b s (of_nat i) w = last_index_loop B b s (of_nat (Suc i)) w"
    using chunk_exists [OF w, of "of_nat i"] i u by (subst last_index_loop.simps) (simp add: add.commute)
  then show ?case using Suc.hyps(1) [of "Suc i"] Suc.hyps(2) i ne by (simp del: of_nat_Suc)
qed

lemma getLastChunkIndex_stored:
  assumes w: "inv w" "\<And>i. valid (ChunkName b i)" "stored view w b cs"
  shows "getLastChunkIndex B b start w =
    (if unat (if start = 65535 then 0 else start) < length cs then (of_nat (length cs) - 1, None)
     else (65535, Some (NotFoundError ''No Chunk found at index'')))"
proof (cases "unat (if start = 65535 then 0 else start) < length cs")
  case True
  define s where "s = (if start = 65535 then 0 else start)"
  have s: "of_nat (unat s) = s" "unat s < length cs" using True by (simp_all add: s_def)
  have ne: "of_nat (length cs) \<noteq> start" if "length cs < 65535"
  proof
    assume start: "of_nat (length cs) = start"
    then have u: "unat start = length cs" using that unat_u16 [of "length cs"] by auto
    have "unat (65535 :: u16) = 65535" by simp
    then have "start \<noteq> 65535" using that u by auto
    then show False using s u by (simp add: s_def)
  qed
  have "cs \<noteq> []" using True by auto
  then show ?thesis
    using last_index_stored [OF w _ ne, of "unat s"] True s(1) less_imp_le [OF s(2)]
    by (simp add: getLastChunkIndex_def s_def [symmetric])
next
  case False
  then show ?thesis
    using chunk_exists [OF w] by (subst getLastChunkIndex_def, subst last_index_loop.simps) auto
qed

end

text \<open>Writing the next chunk.\<close>

lemma stored_write:
  assumes "stored view w b cs" and "length cs < 65535" and "view w' = (view w)(ChunkName b (of_nat (length cs)) \<mapsto> d)"
  shows "stored view w' b (cs @ [d])"
proof -
  have u: "unat (of_nat (length cs) :: u16) = length cs" using assms(2) by (simp add: unat_u16)
  have "view w' (ChunkName b i) = (if unat i < Suc (length cs) then Some ((cs @ [d]) ! unat i) else None)" for i
  proof (cases "i = of_nat (length cs)")
    case True
    then show ?thesis using u by (simp add: assms(3))
  next
    case False
    have "unat i \<noteq> length cs"
    proof
      assume "unat i = length cs"
      then have "(of_nat (unat i) :: u16) = of_nat (length cs)" by simp
      then show False using False by simp
    qed
    then show ?thesis using assms(1) False by (auto simp: assms(3) stored_def less_Suc_eq nth_append)
  qed
  then show ?thesis using assms(2) by (simp add: stored_def)
qed

text \<open>The contract on the stores of the code.\<close>

interpretation mock: blob_backend Mockstore "\<lambda>_. True" "\<lambda>_. True" "\<lambda>m. m"
  by (rule Mockstore_backend)

section \<open>On Amazon's store\<close>

text \<open>A reader ends without an error only where the store says that a chunk is absent.\<close>

lemma copy_keeps_blob: "copyToReadBuffer p r = Some (k, q, r') \<Longrightarrow> crBlob r' = crBlob r \<and> crReverse r' = crReverse r"
  by (auto simp: copyToReadBuffer_def advanceOffset_def Let_def split: if_splits)

definition never_absent :: "'w blobstore \<Rightarrow> string \<Rightarrow> 'w \<Rightarrow> bool" where
  "never_absent B b w \<longleftrightarrow>
     (\<forall>i. ChunkExists B b i w \<noteq> Inr False \<and> (\<forall>e. ChunkExists B b i w = Inl e \<longrightarrow> err_code e \<noteq> NotFound)
       \<and> (\<forall>e. ChunkExists B b i w = Inr True \<longrightarrow> snd (ReadChunk B b i w) = Some e \<longrightarrow> err_code e \<noteq> NotFound))"

lemma getNextChunk_present:
  assumes "never_absent B (crBlob r) w" and "getNextChunk B w r = (err, r')"
  shows "\<not> IsNotFoundError err \<and> crBlob r' = crBlob r"
proof (cases "nextChunkExists B w r")
  case (Inl e)
  then have "err = Some e \<and> r' = r" "err_code e \<noteq> NotFound"
    using assms by (auto simp: never_absent_def getNextChunk_def nextChunkExists_def)
  then show ?thesis by (simp add: status_simps)
next
  case (Inr exists)
  then have ex: "exists" using assms(1) by (cases exists) (auto simp: never_absent_def nextChunkExists_def)
  obtain d err' where rc: "ReadChunk B (crBlob r) (nextChunkIndex r) w = (d, err')" by fastforce
  then have "err' = Some e \<Longrightarrow> err_code e \<noteq> NotFound" for e
    using assms(1) Inr ex unfolding never_absent_def nextChunkExists_def by (metis (full_types) snd_conv)
  moreover have "err = err' \<and> crBlob r' = crBlob r" using assms(2) Inr ex rc by (auto simp: getNextChunk_def)
  ultimately show ?thesis by (cases err') (auto simp: status_simps)
qed

lemma read_loop_no_end:
  assumes "never_absent B b w" and "read_loop B w p n r = Some res" and "crBlob r = b"
  shows "snd (fst res) \<noteq> Some ReadEOF \<and> crBlob (snd (snd res)) = b"
proof -
  let ?P = "\<lambda>B' w' p n r y. B' = B \<longrightarrow> w' = w \<longrightarrow> crBlob r = b \<longrightarrow> snd (fst y) \<noteq> Some ReadEOF \<and> crBlob (snd (snd y)) = b"
  have "?P B w p n r res"
    using assms(2)
  proof (rule read_loop.raw_induct [where P = ?P, rotated], goal_cases)
    case (1 f B' w' p n r y)
    show ?case
    proof (intro impI)
      assume B: "B' = B" and w': "w' = w" and b: "crBlob r = b"
      obtain err r1 where g: "getNextChunk B w r = (err, r1)" by fastforce
      with getNextChunk_present [of B r w err r1] assms(1) b
      have e: "\<not> IsNotFoundError err" "crBlob r1 = b" by simp_all
      have eof: "reader_eof B w r \<noteq> Inr True"
        using assms(1) b unfolding never_absent_def reader_eof_def nextChunkExists_def
        by (auto split: sum.splits) (metis (full_types))
      show "snd (fst y) \<noteq> Some ReadEOF \<and> crBlob (snd (snd y)) = b"
      proof (cases "n < length p")
        case False
        then show ?thesis using 1(2) eof b by (auto simp: B w' split: sum.splits)
      next
        case True
        then obtain k p1 r2 where r2: "crBlob r2 = b"
          and y: "(if err \<noteq> None then Some ((n + k,
              if IsNotFoundError err \<and> \<not> noChunksRead r2 then Some ReadEOF else map_option ReadError err), p1, r2)
            else f B w p1 (n + k) r2) = Some y"
          using 1(2) g e(2)
          by (auto simp: B w' Let_def split: option.splits if_splits dest!: copy_keeps_blob)
        show ?thesis
        proof (cases err)
          case None
          then have "f B w p1 (n + k) r2 = Some y" using y by simp
          then show ?thesis using 1(1) r2 by blast
        next
          case (Some e')
          then have "y = ((n + k, Some (ReadError e')), p1, r2)" using y e(1) by auto
          then show ?thesis using r2 by simp
        qed
      qed
    qed
  qed
  then show ?thesis using assms(3) by simp
qed

lemma read_all_no_end:
  assumes "never_absent B b w" and "read_all B w room acc r = Some res" and "crBlob r = b"
  shows "snd res \<noteq> None"
proof -
  let ?P = "\<lambda>B' w' room acc r y. B' = B \<longrightarrow> w' = w \<longrightarrow> crBlob r = b \<longrightarrow> snd y \<noteq> None"
  have "?P B w room acc r res"
    using assms(2)
  proof (rule read_all.raw_induct [where P = ?P, rotated], goal_cases)
    case (1 f B' w' room acc r y)
    show ?case
    proof (intro impI)
      assume B: "B' = B" and w': "w' = w" and b: "crBlob r = b"
      obtain n err p2 r2 where c: "chunk_Read B w (replicate (room (length acc)) 0) r = Some ((n, err), p2, r2)"
        using 1(2) by (auto simp: B w' split: option.splits)
      then have e: "err \<noteq> Some ReadEOF \<and> crBlob r2 = b"
        using read_loop_no_end [OF assms(1)] b
        by (fastforce simp: chunk_Read_def split: if_splits option.splits dest!: copy_keeps_blob)
      then show "snd y \<noteq> None"
        using 1(2) c 1(1) by (auto simp: B w' split: option.splits read_error.splits)
    qed
  qed
  then show ?thesis using assms(3) by simp
qed

lemma S3_ChunkExists:
  "ChunkExists (AwsS3BlobStore gzip gunzip a) b i w =
    (case s3_HeadObject a (ChunkName b i) w of Some e \<Rightarrow> Inl e | None \<Rightarrow> Inr True)"
  by (simp add: ChunkExists_def AwsS3BlobStore_def S3_BlobExists_def split: option.split)

lemma S3_never_absent:
  assumes "\<forall>k e. s3_HeadObject a k w = Some e \<longrightarrow> err_code e \<noteq> NotFound"
    and "\<forall>k e. s3_HeadObject a k w = None \<and> snd (s3_Download a k w) = Some e \<longrightarrow> \<not> s3_noSuchKey a e"
    and "\<forall>z e. gunzip z = GzError e \<longrightarrow> err_code e \<noteq> NotFound"
  shows "never_absent (AwsS3BlobStore gzip gunzip a) b w"
proof -
  have "err_code e \<noteq> NotFound"
    if "s3_HeadObject a k w = None" and "snd (S3_ReadBlob gunzip a k w) = Some e" for k e
    using that assms(2,3)
    by (fastforce simp: S3_ReadBlob_def S3_download_def decompress_def split: prod.splits option.splits if_splits gunzip_result.splits)
  then show ?thesis
    using assms(1) unfolding never_absent_def S3_ChunkExists
    by (auto simp: ReadChunk_def AwsS3BlobStore_def split: option.splits)
qed

lemma run_ends_in_error:
  assumes "\<And>i. i < n \<Longrightarrow> ChunkExists B b (of_nat i) w = Inr True" and "ChunkExists B b (of_nat n) w = Inl e"
  shows "j \<le> n \<Longrightarrow> first_missing B b (of_nat j) w = Some (Inl e) \<and> last_of_run B b (of_nat j - 1) w = Some (Inl e)"
proof (induction "n - j" arbitrary: j)
  case 0
  then show ?case using assms(2) by (simp add: first_missing.simps last_of_run.simps)
next
  case (Suc m)
  then have j: "j < n" "m = n - Suc j" "Suc j \<le> n" by simp_all
  have "first_missing B b (of_nat j) w = first_missing B b (of_nat (Suc j)) w"
    using assms(1) [OF j(1)] by (subst first_missing.simps) (simp add: add.commute)
  moreover have "last_of_run B b (of_nat j - 1) w = last_of_run B b (of_nat (Suc j) - 1) w"
    using assms(1) [OF j(1)] by (subst last_of_run.simps) simp
  ultimately show ?case using Suc.hyps(1) [OF j(2,3)] by (simp del: of_nat_Suc)
qed

text \<open>C23: On Amazon's store a missing object is an error of the head request, which \<open>BlobExists\<close> passes on: the first chunk that is not there makes \<open>ReverseReader\<close> and \<open>DeleteBlob\<close> fail, so that no blob is deleted or overwritten, and no read of a whole blob succeeds, since its end is never recognized.\<close>

theorem S3_chunks_unusable:
  assumes "\<forall>i<n. s3_HeadObject a (ChunkName b (of_nat i)) w = None"
    and "s3_HeadObject a (ChunkName b (of_nat n)) w = Some e"
    and "\<forall>k e. s3_HeadObject a k w = Some e \<longrightarrow> err_code e \<noteq> NotFound"
    and "\<forall>k e. s3_HeadObject a k w = None \<and> snd (s3_Download a k w) = Some e \<longrightarrow> \<not> s3_noSuchKey a e"
    and "\<forall>z e. gunzip z = GzError e \<longrightarrow> err_code e \<noteq> NotFound"
  shows "ReverseReader (AwsS3BlobStore gzip gunzip a) b w = Some (Inl e) \<and>
    DeleteBlob (AwsS3BlobStore gzip gunzip a) b w = Some (Some e, w) \<and>
    Chunkstore_ReadBlob (AwsS3BlobStore gzip gunzip a) room b w \<noteq> Some (data, None)"
proof -
  let ?S = "AwsS3BlobStore gzip gunzip a"
  have "first_missing ?S b 0 w = Some (Inl e) \<and> last_of_run ?S b 65535 w = Some (Inl e)"
    using run_ends_in_error [where B = ?S and j = 0 and n = n and b = b and w = w and e = e] assms(1,2) minus_one_u16
    by (simp add: S3_ChunkExists)
  moreover have "read_all ?S w room [] (chunk_Reader b) \<noteq> Some (d, None)" for d
    using read_all_no_end [OF S3_never_absent [OF assms(3-5)], where r = "chunk_Reader b"]
    by (force simp: chunk_Reader_def)
  ultimately show ?thesis
    by (auto simp: ReverseReader_def DeleteBlob_def Chunkstore_ReadBlob_def split: option.splits)
qed


theorem S3_chunks_unusable_witness:
  "\<forall>room data. let a = \<lparr>s3_Download = \<lambda>k (w :: unit). ([], None), s3_Upload = \<lambda>k d w. (None, w), s3_DeleteObject = \<lambda>k w. (None, w),
      s3_WaitUntilObjectNotExists = \<lambda>k w. (None, w),
      s3_HeadObject = \<lambda>k w. if k = ''b_0000'' then None else Some (Err Unknown ''NotFound''), s3_noSuchKey = \<lambda>e. False\<rparr> in
    ReverseReader (AwsS3BlobStore Inr GzData a) ''b'' () = Some (Inl (Err Unknown ''NotFound'')) \<and>
    DeleteBlob (AwsS3BlobStore Inr GzData a) ''b'' () = Some (Some (Err Unknown ''NotFound''), ()) \<and>
    Chunkstore_ReadBlob (AwsS3BlobStore Inr GzData a) room ''b'' () \<noteq> Some (data, None)"
  unfolding Let_def
  by (intro allI S3_chunks_unusable [where n = 1])
    (auto simp: ChunkName_def ChunkIndexAsStringId_def hex_char_def split: if_splits)

section \<open>On the store in files\<close>

lemma Contains_suffix: "CHR ''.'' \<notin> set s \<Longrightarrow> strings_Contains (b @ s) ''..'' \<longleftrightarrow> strings_Contains b ''..''"
proof (induction b)
  case Nil
  then have "\<not> strings_Contains s ''..''" by (induction s) auto
  then show ?case by simp
next
  case (Cons c b)
  have "take 2 (c # b @ s) = ''..'' \<longleftrightarrow> take 2 (c # b) = ''..''"
    using Cons.prems by (cases b; cases s) auto
  then show ?case using Cons by (simp add: numeral_2_eq_2)
qed

lemma splitOn_suffix: "c \<notin> set s \<Longrightarrow> splitOn c (b @ s) = butlast (splitOn c b) @ [last (splitOn c b) @ s]"
proof (induction b)
  case Nil
  then show ?case by (simp add: splitOn_plain)
next
  case (Cons x b)
  then show ?case by (cases "splitOn c b") (auto split: list.split)
qed

text \<open>A name that the store in files takes gives chunks with such names.\<close>

lemma hex_char_plain: "d < 16 \<Longrightarrow> hex_char d \<notin> {CHR ''.'', CHR ''/''}"
proof -
  have "\<forall>d\<in>set [0..<16]. hex_char d \<notin> {CHR ''.'', CHR ''/''}" by code_simp
  then show "d < 16 \<Longrightarrow> hex_char d \<notin> {CHR ''.'', CHR ''/''}" by simp
qed

lemma disk_name_chunk: "disk_name b \<Longrightarrow> disk_name (ChunkName b i)"
proof -
  assume b: "disk_name b"
  define s where "s = ''_'' @ ChunkIndexAsStringId i"
  define ds where "ds = [unat i div 4096, unat i div 256 mod 16, unat i div 16 mod 16, unat i mod 16]"
  have "\<forall>d\<in>set ds. d < 16" using u16_less [of i] by (simp add: ds_def)
  then have "\<forall>c\<in>set (map hex_char ds). c \<notin> {CHR ''.'', CHR ''/''}" using hex_char_plain by auto
  then have s: "CHR ''.'' \<notin> set s" "CHR ''/'' \<notin> set s" "CHR ''_'' \<in> set s"
    by (auto simp: s_def ds_def ChunkIndexAsStringId_def Let_def)
  have "x @ s \<noteq> t" if "CHR ''_'' \<notin> set t" for x t using s(3) that by auto
  then have "plain (x @ s)" if "plain x" for x
    using that s(2) by (simp add: plain_def)
  then show ?thesis
    using b s unfolding disk_name_def ChunkName_def s_def [symmetric]
    by (auto simp: Contains_suffix splitOn_suffix list_all_iff dest: in_set_butlastD)
qed

definition gz_ok :: "(bytes \<Rightarrow> error + bytes) \<Rightarrow> (bytes \<Rightarrow> gunzip_result) \<Rightarrow> bool" where
  "gz_ok gzip gunzip \<longleftrightarrow> (\<forall>d. \<exists>z. gzip d = Inr z \<and> gunzip z = GzData d)"

lemma files_backend:
  assumes "rootDir \<noteq> []" and "gz_ok gzip gunzip"
  shows "blob_backend (DiskBlobStore gzip gunzip rootDir) disk_name (disk_ok gunzip rootDir) (disk_view gunzip rootDir)"
  using assms(2) by (intro disk_backend assms(1)) (simp add: gz_ok_def)

text \<open>A store with the chunks \<open>cs\<close> of a blob in it, for the examples: an empty one written to.\<close>

definition emptyfs :: filesystem where
  "emptyfs = \<lparr>fs_files = (\<lambda>_. None), fs_unreadable = (\<lambda>_. None), fs_outcomes = []\<rparr>"

fun fs_with :: "string \<Rightarrow> bytes list \<Rightarrow> nat \<Rightarrow> filesystem \<Rightarrow> filesystem" where
  "fs_with b [] i fs = fs"
| "fs_with b (c # cs) i fs = fs_with b cs (Suc i) (fs\<lparr>fs_files := (fs_files fs)(filepath_Join [''root'', ChunkName b (of_nat i)] \<mapsto> c)\<rparr>)"

lemma fs_with_stored:
  "\<lbrakk>disk_name b; length ds + length cs \<le> 65535; disk_ok GzData ''root'' fs; stored (disk_view GzData ''root'') fs b ds;
    fs_outcomes fs = []\<rbrakk> \<Longrightarrow>
   disk_ok GzData ''root'' (fs_with b cs (length ds) fs) \<and>
   stored (disk_view GzData ''root'') (fs_with b cs (length ds) fs) b (ds @ cs)"
proof (induction cs arbitrary: ds fs)
  case (Cons c cs)
  let ?n = "ChunkName b (of_nat (length ds))"
  define fs1 where "fs1 = fs\<lparr>fs_files := (fs_files fs)(filepath_Join [''root'', ?n] \<mapsto> c)\<rparr>"
  have n: "disk_name ?n" using Cons.prems(1) by (rule disk_name_chunk)
  have "blobPath ''root'' ?n = Inr (filepath_Join [''root'', ?n])" using n by (simp add: blobPath_def disk_name_def)
  moreover have "os_call fs = (None, fs)" using Cons.prems(5) by (simp add: os_call_def)
  ultimately have wr: "bs_WriteBlob (DiskBlobStore Inr GzData ''root'') ?n c fs = ((int (length c), None), fs1)"
    by (simp add: DiskBlobStore_def Disk_WriteBlob_def compress_def disk_WriteFile_def fs1_def)
  have bk: "blob_backend (DiskBlobStore Inr GzData ''root'') disk_name (disk_ok GzData ''root'') (disk_view GzData ''root'')"
    by (rule files_backend) (simp_all add: gz_ok_def)
  have law: "disk_ok GzData ''root'' fs1" "disk_view GzData ''root'' fs1 = (disk_view GzData ''root'' fs)(?n \<mapsto> c)"
    using blob_backend.write_law [OF bk, OF Cons.prems(3) n wr] by (simp_all only: simp_thms if_True)
  have len: "length ds < 65535" "length (ds @ [c]) + length cs \<le> 65535" using Cons.prems(2) by simp_all
  have st: "stored (disk_view GzData ''root'') fs1 b (ds @ [c])" by (rule stored_write [where view = "disk_view GzData ''root''", OF Cons.prems(4) len(1) law(2)])
  have "fs_outcomes fs1 = []" using Cons.prems(5) by (simp add: fs1_def)
  note ih = Cons.IH [OF Cons.prems(1) len(2) law(1) st this]
  have "fs_with b (c # cs) (length ds) fs = fs_with b cs (length (ds @ [c])) fs1" by (simp add: fs1_def)
  then show ?case using ih by (simp only: append_assoc append_Cons append_Nil)
qed simp

lemma fs_with_ok:
  assumes "disk_name b" and "length cs \<le> 65535"
  shows "disk_ok GzData ''root'' (fs_with b cs 0 emptyfs)" "stored (disk_view GzData ''root'') (fs_with b cs 0 emptyfs) b cs"
proof -
  have "disk_ok GzData ''root'' emptyfs" "stored (disk_view GzData ''root'') emptyfs b []"
    by (simp_all add: disk_ok_def stored_def disk_view_def emptyfs_def)
  then show "disk_ok GzData ''root'' (fs_with b cs 0 emptyfs)" "stored (disk_view GzData ''root'') (fs_with b cs 0 emptyfs) b cs"
    using fs_with_stored [of b "[]" cs emptyfs] assms by (simp_all add: emptyfs_def)
qed

text \<open>Reads with one buffer after the other, and what they give of a blob that is read from its end.\<close>

fun read_in_turn :: "'s blobstore \<Rightarrow> 's \<Rightarrow> chunkstoreReader \<Rightarrow> bytes list \<Rightarrow> ((nat \<times> bytes) \<times> read_error option) list option" where
  "read_in_turn B w r [] = Some []"
| "read_in_turn B w r (p # ps) =
     (case chunk_Read B w p r of
        None \<Rightarrow> None
      | Some ((n, err), out, r') \<Rightarrow> map_option (\<lambda>outs. ((n, out), err) # outs) (read_in_turn B w r' ps))"

fun back_pieces :: "bytes list \<Rightarrow> bytes \<Rightarrow> (nat \<times> bytes) list" where
  "back_pieces [] xs = []"
| "back_pieces (p # ps) xs =
     (min (length p) (length xs), suffix_of (length p) xs @ replicate (length p - length xs) 0) # back_pieces ps (but_last (length p) xs)"

lemma back_pieces_min: "suffix_of (min n (length xs)) xs = suffix_of n xs" "but_last (min n (length xs)) xs = but_last n xs"
  by (simp_all add: suffix_of_def but_last_def min_def)

context blob_backend
begin

lemma reads_bwd:
  assumes w: "inv w" "\<And>i. valid (ChunkName b i)" "stored view w b cs" and ne: "cs \<noteq> []"
  shows "bwd b (length cs) j r \<Longrightarrow> j \<le> length cs \<Longrightarrow> \<exists>outs. read_in_turn B w r ps = Some outs \<and>
    map fst outs = back_pieces ps (to_read_back cs j r) \<and>
    (\<forall>i<length ps. snd (outs ! i) = None \<and> fst (fst (outs ! i)) = length (ps ! i) \<or>
      snd (outs ! i) = Some ReadEOF \<and> length (to_read_back cs j r) \<le> sum_list (map length (take (Suc i) ps)))"
proof (induction ps arbitrary: j r)
  case (Cons p ps)
  let ?tb = "to_read_back cs j r" and ?k = "min (length p) (length (to_read_back cs j r))"
  obtain err j' r' where c: "chunk_Read B w p r = Some ((?k, err), suffix_of ?k ?tb @ replicate (length p - ?k) 0, r')"
      "bwd b (length cs) j' r'" "j' \<le> length cs" "to_read_back cs j' r' = but_last ?k ?tb"
      "err = None \<and> ?k = length p \<or> err = Some ReadEOF \<and> but_last ?k ?tb = []"
    using chunk_Read_bwd [OF w ne Cons.prems refl, of p] by blast
  obtain outs where o: "read_in_turn B w r' ps = Some outs" "map fst outs = back_pieces ps (to_read_back cs j' r')"
      "\<forall>i<length ps. snd (outs ! i) = None \<and> fst (fst (outs ! i)) = length (ps ! i) \<or>
        snd (outs ! i) = Some ReadEOF \<and> length (to_read_back cs j' r') \<le> sum_list (map length (take (Suc i) ps))"
    using Cons.IH [OF c(2,3)] by blast
  have l: "length ?tb \<le> length p + length (to_read_back cs j' r')" unfolding c(4) by (simp add: but_last_def)
  define out where "out = suffix_of (length p) ?tb @ replicate (length p - length ?tb) (0 :: byte)"
  have z: "length p - ?k = length p - length ?tb" by simp
  have c1: "chunk_Read B w p r = Some ((?k, err), out, r')" using c(1) unfolding z out_def back_pieces_min .
  have e: "length ?tb \<le> length p" if "but_last ?k ?tb = []" using that by (auto simp: but_last_def)
  have "snd ((((?k, out), err) # outs) ! i) = None \<and> fst (fst ((((?k, out), err) # outs) ! i)) = length ((p # ps) ! i) \<or>
      snd ((((?k, out), err) # outs) ! i) = Some ReadEOF \<and> length ?tb \<le> sum_list (map length (take (Suc i) (p # ps)))" if "i < length (p # ps)" for i
  proof (cases i)
    case 0
    then show ?thesis using c(5) e by auto
  next
    case (Suc k)
    then show ?thesis using that o(3) [rule_format, of k] l by auto
  qed
  moreover have "map fst (((?k, out), err) # outs) = back_pieces (p # ps) ?tb"
    using o(2) unfolding c(4) back_pieces_min by (simp add: out_def)
  ultimately show ?case using c1 o(1) by (intro exI [of _ "((?k, out), err) # outs"]) simp
qed simp

end

text \<open>C30: On the store in files, reads from the end of a blob, with buffers of any sizes, walk back through it: each fills the front of its buffer
  with the last bytes that no read before it has given, in their order, with zeros after them when fewer are left, and says how many they are; a read ends without an error
  when the buffer was filled, and with the end of the file only when nothing is left for the next.\<close>

theorem reverse_reader_reads_tail:
  assumes "rootDir \<noteq> []" and "gz_ok gzip gunzip" and "disk_ok gunzip rootDir fs" and "disk_name b"
    and "stored (disk_view gunzip rootDir) fs b cs" and "cs \<noteq> []"
  shows "\<exists>r outs. ReverseReader (DiskBlobStore gzip gunzip rootDir) b fs = Some (Inr r) \<and>
    read_in_turn (DiskBlobStore gzip gunzip rootDir) fs r ps = Some outs \<and> map fst outs = back_pieces ps (concat cs) \<and>
    (\<forall>i<length ps. snd (outs ! i) = None \<and> fst (fst (outs ! i)) = length (ps ! i) \<or>
      snd (outs ! i) = Some ReadEOF \<and> length (concat cs) \<le> sum_list (map length (take (Suc i) ps)))"
proof -
  note bk = files_backend [OF assms(1,2)]
  have v: "\<And>i. disk_name (ChunkName b i)" using assms(4) by (rule disk_name_chunk)
  obtain r where r: "ReverseReader (DiskBlobStore gzip gunzip rootDir) b fs = Some (Inr r)"
    "bwd b (length cs) (length cs) r" "to_read_back cs (length cs) r = concat cs"
    using blob_backend.ReverseReader_stored [OF bk assms(3) v assms(5)] by blast
  then show ?thesis using blob_backend.reads_bwd [OF bk assms(3) v assms(5,6) r(2) order_refl, of ps] by auto
qed

theorem reverse_reader_reads_tail_witness:
  "\<exists>r outs. ReverseReader (DiskBlobStore Inr GzData ''root'') ''b'' (fs_with ''b'' [[1, 2], [3]] 0 emptyfs) = Some (Inr r) \<and>
    read_in_turn (DiskBlobStore Inr GzData ''root'') (fs_with ''b'' [[1, 2], [3]] 0 emptyfs) r [[0, 0], [9, 9]] = Some outs \<and>
    map fst outs = [(2, [2, 3]), (1, [1, 0])]"
proof -
  have "disk_name ''b''" by code_simp
  then show ?thesis
    using reverse_reader_reads_tail [of "''root''" Inr GzData _ "''b''" "[[1, 2], [3]]" "[[0, 0], [9, 9]]", OF _ _ fs_with_ok(1) _ fs_with_ok(2)]
    by (auto simp: gz_ok_def suffix_of_def but_last_def numeral_2_eq_2 simp del: fs_with.simps)
qed

text \<open>Deleting a blob on the store in files removes its chunks from the last to the first: whatever call fails, what is left is a beginning of the blob, so that deleting again resumes; with no failure nothing is left.\<close>

theorem delete_resumable:
  assumes "rootDir \<noteq> []" and "gz_ok gzip gunzip" and "disk_ok gunzip rootDir fs" and "disk_name b"
    and "stored (disk_view gunzip rootDir) fs b cs"
  shows "\<exists>err fs' m. DeleteBlob (DiskBlobStore gzip gunzip rootDir) b fs = Some (err, fs') \<and>
    disk_ok gunzip rootDir fs' \<and> m \<le> length cs \<and> stored (disk_view gunzip rootDir) fs' b (take m cs) \<and> (err = None \<longrightarrow> m = 0)"
  using blob_backend.DeleteBlob_stored [OF files_backend [OF assms(1,2)] assms(3) disk_name_chunk [OF assms(4)] assms(5)]
  by blast

theorem delete_resumable_witness:
  "\<exists>err fs' m. DeleteBlob (DiskBlobStore Inr GzData ''root'') ''b'' (fs_with ''b'' [[1, 2], [3]] 0 emptyfs) = Some (err, fs') \<and>
    disk_ok GzData ''root'' fs' \<and> m \<le> 2 \<and> stored (disk_view GzData ''root'') fs' ''b'' (take m [[1, 2], [3]]) \<and> (err = None \<longrightarrow> m = 0)"
proof -
  have "disk_name ''b''" by code_simp
  then show ?thesis
    using delete_resumable [of "''root''" Inr GzData _ "''b''" "[[1, 2], [3]]", OF _ _ fs_with_ok(1) _ fs_with_ok(2)]
    by (simp add: gz_ok_def numeral_2_eq_2 del: fs_with.simps)
qed

end
