(* ===== verification/ChunkWriter.thy ===== *)
theory ChunkWriter
  imports ChunkContract
begin

text \<open>
  \<^verbatim>\<open>server/backends/chunkstore/chunkstore.go\<close>, part 2: the writer. A goroutine, \<open>writeLoop.run\<close>, owns the data that is not in the store
  yet; the writer's methods send it requests over one channel and read its results from another. Each turn of the loop takes a request, wakes
  up to flush, or sees the context end. The two sides are a record \<open>wsys\<close> with both channels, which hold two elements each; the loop
  steps in it by \<open>loop_step\<close>, and a method is given the events of the loop while it waits, so that every interleaving is a choice of events.

  Times are integers in nanoseconds. An event carries the three readings of the clock in its turn. A turn that never ends is \<open>None\<close>.
\<close>

section \<open>The loop\<close>

record write_request =
  wrChunk :: "bytes option"
  wrTail :: "bytes option"
  wrClose :: bool

record write_result =
  resErr :: "error option"
  resSize :: nat
  resLastChunkIndex :: u16
  resTimeout :: bool
  resBytesFlushed :: nat
  resClose :: bool

record writeLoop =
  wlBlob :: string
  wlBlockSize :: nat
  wlTimeout :: int
  wlNoSplit :: bool

record loop_state =
  lsFlushTime :: int
  lsOpen :: bool
  lsChunk :: bytes
  lsTail :: bytes
  lsIndex :: u16

definition year :: int where "year = 365 * 24 * 3600 * 1000000000"

definition loop_write ::
  "'w blobstore \<Rightarrow> writeLoop \<Rightarrow> bytes \<Rightarrow> u16 \<Rightarrow> nat \<Rightarrow> 'w \<Rightarrow> (nat \<times> error option) \<times> 'w" where
  "loop_write B l chunk chunkIndex lastWriteSize w =
     (let size =
        (if length chunk \<le> wlBlockSize l then length chunk
         else if wlNoSplit l \<and> lastWriteSize \<le> wlBlockSize l then length chunk - lastWriteSize
         else wlBlockSize l) in
      case writeChunk B (wlBlob l) chunkIndex (take size chunk) w of
        ((_, Some err), w') \<Rightarrow> ((0, Some err), w')
      | ((_, None), w') \<Rightarrow> ((size, None), w'))"

text \<open>The loop that writes blocks: the error, the flushed bytes, and what is left.\<close>

partial_function (option) write_blocks ::
  "'w blobstore \<Rightarrow> writeLoop \<Rightarrow> nat \<Rightarrow> bytes \<Rightarrow> u16 \<Rightarrow> nat \<Rightarrow> 'w \<Rightarrow> (error option \<times> nat \<times> bytes \<times> u16 \<times> 'w) option" where
  "write_blocks B l lastWriteSize chunk chunkIndex bytesFlushed w =
     (if length chunk < wlBlockSize l then Some (None, bytesFlushed, chunk, chunkIndex, w)
      else
        case loop_write B l chunk chunkIndex lastWriteSize w of
          ((n, Some err), w') \<Rightarrow> Some (Some err, bytesFlushed, chunk, chunkIndex, w')
        | ((n, None), w') \<Rightarrow> write_blocks B l lastWriteSize (drop n chunk) (chunkIndex + 1) (bytesFlushed + n) w')"

declare write_blocks.simps [code]

text \<open>What wakes the loop: a request, or \<open>None\<close> from a channel that is closed; the timer; the end of the context.\<close>

datatype wake = Received "write_request option" | FlushTimer | CtxDone

definition take_wake :: "wake \<Rightarrow> loop_state \<Rightarrow> loop_state \<times> nat" where
  "take_wake ev s =
     (case ev of
        Received (Some req) \<Rightarrow>
          (s\<lparr>lsFlushTime := (if wrChunk req = None then 0 else lsFlushTime s),
             lsTail := (case wrTail req of None \<Rightarrow> lsTail s | Some tail \<Rightarrow> tail),
             lsChunk := lsChunk s @ (case wrChunk req of None \<Rightarrow> [] | Some c \<Rightarrow> c),
             lsOpen := \<not> wrClose req\<rparr>,
           case wrChunk req of None \<Rightarrow> 0 | Some c \<Rightarrow> length c)
      | Received None \<Rightarrow> (s\<lparr>lsOpen := False\<rparr>, 0)
      | FlushTimer \<Rightarrow> (s, 0)
      | CtxDone \<Rightarrow> (s\<lparr>lsOpen := False\<rparr>, 0))"

text \<open>On closing, the tail is data like any other.\<close>

definition take_tail :: "loop_state \<times> nat \<Rightarrow> loop_state \<times> nat" where
  "take_tail x =
     (case x of (s, lastWriteSize) \<Rightarrow>
        if lsOpen s then (s, lastWriteSize)
        else (s\<lparr>lsChunk := lsChunk s @ lsTail s, lsTail := []\<rparr>, length (lsTail s)))"

text \<open>
  One turn of \<open>run\<close>; the clock reads \<open>t1\<close> when it decides whether to flush, \<open>t2\<close> and \<open>t3\<close> when it sets the timer. Times of the
  program start at the epoch, which is what a manual flush sets the timer to.
\<close>

definition loop_turn ::
  "'w blobstore \<Rightarrow> writeLoop \<Rightarrow> wake \<Rightarrow> int \<times> int \<times> int \<Rightarrow> loop_state \<Rightarrow> 'w \<Rightarrow> (write_result \<times> loop_state \<times> 'w) option" where
  "loop_turn B l ev clk s w =
     (case clk of (t1, t2, t3) \<Rightarrow>
      case take_tail (take_wake ev s) of (s1, lastWriteSize) \<Rightarrow>
      case write_blocks B l lastWriteSize (lsChunk s1) (lsIndex s1) 0 w of
        None \<Rightarrow> None
      | Some (err1, flushed1, chunk1, index1, w1) \<Rightarrow>
          (let (err, bytesFlushed, chunk, chunkIndex, w2) =
             (if err1 = None \<and>
                 (\<not> lsOpen s1 \<and> (index1 = 0 \<or> 0 < length chunk1) \<or> t1 > lsFlushTime s1 \<and> 0 < length chunk1) then
                case loop_write B l chunk1 index1 lastWriteSize w1 of
                  ((n, Some err), w') \<Rightarrow> (Some err, flushed1, chunk1, index1, w')
                | ((n, None), w') \<Rightarrow> (None, flushed1 + n, drop n chunk1, index1 + 1, w')
              else (err1, flushed1, chunk1, index1, w1));
             flushTime =
               (if length chunk = 0 then t2 + year
                else if t2 + wlTimeout l < lsFlushTime s1 \<or> 0 < bytesFlushed then t3 + wlTimeout l
                else lsFlushTime s1) in
           Some (\<lparr>resErr = err, resSize = lastWriteSize, resLastChunkIndex = chunkIndex - 1, resTimeout = (ev = FlushTimer),
                   resBytesFlushed = bytesFlushed, resClose = \<not> lsOpen s1\<rparr>,
                 s1\<lparr>lsFlushTime := flushTime, lsChunk := chunk, lsIndex := chunkIndex\<rparr>, w2)))"

section \<open>The writer and its channels\<close>

record ChunkstoreWriter =
  cwLastChunkIndex :: u16
  cwClosed :: bool

record 'w wsys =
  syWriter :: ChunkstoreWriter
  syRequests :: "write_request list"
  syResults :: "write_result list"
  syLoop :: loop_state
  syStore :: 'w

datatype loop_event = TakeRequest "int \<times> int \<times> int" | TimerFires "int \<times> int \<times> int" | ContextDone "int \<times> int \<times> int"

text \<open>
  What an event does: nothing when the loop has ended, when it still waits to hand over a third result, or when it would take a request and
  there is none. The writer closes the channel of requests only after the loop has ended.
\<close>

definition loop_step :: "'w blobstore \<Rightarrow> writeLoop \<Rightarrow> loop_event \<Rightarrow> 'w wsys \<Rightarrow> 'w wsys option" where
  "loop_step B l ev y =
     (if \<not> lsOpen (syLoop y) \<or> length (syResults y) > 2 then Some y
      else
        let turn = (\<lambda>wk clk reqs.
          map_option (\<lambda>(res, s', w'). y\<lparr>syRequests := reqs, syResults := syResults y @ [res], syLoop := s', syStore := w'\<rparr>)
            (loop_turn B l wk clk (syLoop y) (syStore y))) in
        case ev of
          TakeRequest clk \<Rightarrow>
            (case syRequests y of [] \<Rightarrow> Some y | req # reqs \<Rightarrow> turn (Received (Some req)) clk reqs)
        | TimerFires clk \<Rightarrow> turn FlushTimer clk (syRequests y)
        | ContextDone clk \<Rightarrow> turn CtxDone clk (syRequests y))"

fun loop_steps :: "'w blobstore \<Rightarrow> writeLoop \<Rightarrow> loop_event list \<Rightarrow> 'w wsys \<Rightarrow> 'w wsys option" where
  "loop_steps B l [] y = Some y"
| "loop_steps B l (ev # evs) y = (case loop_step B l ev y of None \<Rightarrow> None | Some y' \<Rightarrow> loop_steps B l evs y')"

text \<open>\<open>readFromWriteResultChannel\<close>; the channel is closed when the loop has ended, and a wait on an empty one runs into the deadline.\<close>

fun read_results :: "bool \<Rightarrow> write_result list \<Rightarrow> ChunkstoreWriter \<Rightarrow> (nat \<times> error option) \<times> ChunkstoreWriter \<times> write_result list" where
  "read_results loopOpen [] cw =
     (if loopOpen then ((0, Some (DeadlineExceededError ''Error accessing blob: Deadline exceeded.'')), cw, [])
      else ((0, Some (UnavailableError ''Error accessing blob: Already closed.'')), cw\<lparr>cwClosed := True\<rparr>, []))"
| "read_results loopOpen (res # ress) cw =
     (if resClose res then
        ((0, if resErr res \<noteq> None then resErr res else Some (UnavailableError ''Error accessing blob: Already closed.'')),
         cw\<lparr>cwClosed := True\<rparr>, ress)
      else
        let cw' = cw\<lparr>cwLastChunkIndex := resLastChunkIndex res\<rparr> in
        if resTimeout res then read_results loopOpen ress cw'
        else ((resSize res, resErr res), cw', ress))"

text \<open>Sending a request, which blocks while two are waiting, letting the loop run, and reading the result.\<close>

definition send_and_read ::
  "'w blobstore \<Rightarrow> writeLoop \<Rightarrow> write_request \<Rightarrow> loop_event list \<Rightarrow> 'w wsys \<Rightarrow> ((nat \<times> error option) \<times> 'w wsys) option" where
  "send_and_read B l req evs y =
     (if length (syRequests y) \<ge> 2 then None
      else
        case loop_steps B l evs (y\<lparr>syRequests := syRequests y @ [req]\<rparr>) of
          None \<Rightarrow> None
        | Some y' \<Rightarrow>
            (case read_results (lsOpen (syLoop y')) (syResults y') (syWriter y') of
               (r, cw, ress) \<Rightarrow> Some (r, y'\<lparr>syWriter := cw, syResults := ress\<rparr>)))"

definition WriteWithTail ::
  "'w blobstore \<Rightarrow> writeLoop \<Rightarrow> bytes option \<Rightarrow> bytes option \<Rightarrow> loop_event list \<Rightarrow> 'w wsys
    \<Rightarrow> ((nat \<times> error option) \<times> 'w wsys) option" where
  "WriteWithTail B l p tail evs y =
     (if cwClosed (syWriter y) then Some ((0, None), y)
      else send_and_read B l \<lparr>wrChunk = p, wrTail = tail, wrClose = False\<rparr> evs y)"

text \<open>An empty slice is not \<^verbatim>\<open>nil\<close>: the tail that \<open>Write\<close> passes replaces the one before.\<close>

definition chunk_Write ::
  "'w blobstore \<Rightarrow> writeLoop \<Rightarrow> bytes option \<Rightarrow> loop_event list \<Rightarrow> 'w wsys \<Rightarrow> ((nat \<times> error option) \<times> 'w wsys) option" where
  "chunk_Write B l p evs y = WriteWithTail B l p (Some []) evs y"

definition chunk_Flush ::
  "'w blobstore \<Rightarrow> writeLoop \<Rightarrow> loop_event list \<Rightarrow> 'w wsys \<Rightarrow> ((nat \<times> error option) \<times> 'w wsys) option" where
  "chunk_Flush B l evs y = chunk_Write B l None evs y"

definition GetLastChunkIndex ::
  "'w blobstore \<Rightarrow> writeLoop \<Rightarrow> loop_event list \<Rightarrow> 'w wsys \<Rightarrow> (u16 \<times> 'w wsys) option" where
  "GetLastChunkIndex B l evs y =
     (case chunk_Write B l (Some []) evs y of
        None \<Rightarrow> None
      | Some (_, y') \<Rightarrow> Some (cwLastChunkIndex (syWriter y'), y'))"

definition chunk_Close ::
  "'w blobstore \<Rightarrow> writeLoop \<Rightarrow> loop_event list \<Rightarrow> 'w wsys \<Rightarrow> (error option \<times> 'w wsys) option" where
  "chunk_Close B l evs y =
     (if cwClosed (syWriter y) then Some (None, y)
      else
        case send_and_read B l \<lparr>wrChunk = None, wrTail = None, wrClose = True\<rparr> evs y of
          None \<Rightarrow> None
        | Some ((_, err), y') \<Rightarrow> Some (if IsUnavailableError err then None else err, y'))"

record Chunkstore =
  csBlockSize :: nat

text \<open>\<open>New\<close>, with the options' block size or 0 where there are none; \<open>Writer\<close>, at the time \<open>now\<close>.\<close>

definition Chunkstore_New :: "nat \<Rightarrow> Chunkstore" where
  "Chunkstore_New optBlockSize = \<lparr>csBlockSize = (if optBlockSize \<noteq> 0 then optBlockSize else 2 ^ 20)\<rparr>"

record ChunkstoreWriterOptions =
  woBlockSize :: nat
  woTimeout :: int
  woNoSplit :: bool

definition chunk_Writer :: "Chunkstore \<Rightarrow> string \<Rightarrow> ChunkstoreWriterOptions option \<Rightarrow> int \<Rightarrow> 'w \<Rightarrow> writeLoop \<times> 'w wsys" where
  "chunk_Writer c blobName co now w =
     (\<lparr>wlBlob = blobName,
       wlBlockSize = (case co of Some opts \<Rightarrow> if woBlockSize opts \<noteq> 0 then woBlockSize opts else csBlockSize c | None \<Rightarrow> csBlockSize c),
       wlTimeout = (case co of Some opts \<Rightarrow> if woTimeout opts \<noteq> 0 then woTimeout opts else 5000000000 | None \<Rightarrow> 5000000000),
       wlNoSplit = (case co of Some opts \<Rightarrow> woNoSplit opts | None \<Rightarrow> False)\<rparr>,
      \<lparr>syWriter = \<lparr>cwLastChunkIndex = 0, cwClosed = False\<rparr>, syRequests = [], syResults = [],
       syLoop = \<lparr>lsFlushTime = now + year, lsOpen = True, lsChunk = [], lsTail = [], lsIndex = 0\<rparr>, syStore = w\<rparr>)"

text \<open>\<open>WriteBlob\<close>, with the events of the loop during its three calls.\<close>

definition Chunkstore_WriteBlob ::
  "'w blobstore \<Rightarrow> Chunkstore \<Rightarrow> string \<Rightarrow> bytes \<Rightarrow> int \<Rightarrow> loop_event list \<times> loop_event list \<times> loop_event list \<Rightarrow> 'w
    \<Rightarrow> ((nat \<times> error option) \<times> 'w) option" where
  "Chunkstore_WriteBlob B c blobName data now evs w =
     (case DeleteBlob B blobName w of
        None \<Rightarrow> None
      | Some (Some err, w1) \<Rightarrow> Some ((0, Some err), w1)
      | Some (None, w1) \<Rightarrow>
     (case chunk_Writer c blobName None now w1 of (l, y) \<Rightarrow>
      case chunk_Write B l (Some data) (fst evs) y of
        None \<Rightarrow> None
      | Some ((bytesWritten, Some err), y1) \<Rightarrow> Some ((bytesWritten, Some err), syStore y1)
      | Some ((bytesWritten, None), y1) \<Rightarrow>
     (case chunk_Flush B l (fst (snd evs)) y1 of
        None \<Rightarrow> None
      | Some ((bytesFlushed, Some err), y2) \<Rightarrow> Some ((bytesWritten + bytesFlushed, Some err), syStore y2)
      | Some ((bytesFlushed, None), y2) \<Rightarrow>
     (case chunk_Close B l (snd (snd evs)) y2 of
        None \<Rightarrow> None
      | Some (err, y3) \<Rightarrow> Some ((bytesWritten + bytesFlushed, err), syStore y3)))))"

end
