(* ===== verification/ChunkWriterProofs.thy ===== *)
theory ChunkWriterProofs
  imports ChunkWriter
begin

text \<open>
  What the chunk writer keeps: whatever calls of the store fail and whenever the timer fires, the chunks in the store followed by the data
  in the loop are the data written; a clean close leaves everything in the store, followed by the tail in force.
\<close>

section \<open>One turn of the loop\<close>

lemma write_blocks_total:
  assumes "0 < wlBlockSize l"
  shows "write_blocks B l lws chunk idx fl w \<noteq> None"
proof (induction "length chunk" arbitrary: chunk idx fl w rule: less_induct)
  case less
  obtain n err w' where lw: "loop_write B l chunk idx lws w = ((n, err), w')" by (metis prod.exhaust)
  show ?case
  proof (cases "length chunk < wlBlockSize l \<or> err \<noteq> None")
    case True
    then show ?thesis using lw by (auto simp: write_blocks.simps [of B l lws chunk])
  next
    case False
    then have "0 < n" using lw assms by (auto simp: loop_write_def Let_def split: prod.splits option.splits if_splits)
    moreover have "0 < length chunk" using False assms by linarith
    ultimately have "length (drop n chunk) < length chunk" by simp
    then show ?thesis using False lw less by (simp add: write_blocks.simps [of B l lws chunk])
  qed
qed

text \<open>What every write of the loop keeps, the turn keeps.\<close>

lemma write_blocks_inv:
  assumes ok: "\<And>chunk idx w n w'. I chunk idx w \<Longrightarrow> loop_write B l chunk idx lws w = ((n, None), w') \<Longrightarrow> I (drop n chunk) (idx + 1) w'"
    and bad: "\<And>chunk idx w n e w'. I chunk idx w \<Longrightarrow> loop_write B l chunk idx lws w = ((n, Some e), w') \<Longrightarrow> I chunk idx w' \<and> E e"
    and "write_blocks B l lws chunk idx fl w = Some (err, fl', chunk', idx', w')" and "I chunk idx w"
  shows "I chunk' idx' w' \<and> (err = None \<longrightarrow> length chunk' < wlBlockSize l) \<and> (\<forall>e. err = Some e \<longrightarrow> E e)"
proof -
  let ?P = "\<lambda>B' l' lws' chunk idx fl w y. B' = B \<longrightarrow> l' = l \<longrightarrow> lws' = lws \<longrightarrow> I chunk idx w \<longrightarrow>
    (case y of (err, fl', chunk', idx', w') \<Rightarrow>
      I chunk' idx' w' \<and> (err = None \<longrightarrow> length chunk' < wlBlockSize l) \<and> (\<forall>e. err = Some e \<longrightarrow> E e))"
  have "?P B l lws chunk idx fl w (err, fl', chunk', idx', w')"
    using assms(3)
  proof (rule write_blocks.raw_induct [where P = ?P, rotated], goal_cases)
    case (1 f B' l' lws' chunk idx fl w y)
    show ?case
    proof (intro impI)
      assume p: "B' = B" "l' = l" "lws' = lws" and I: "I chunk idx w"
      obtain n err w1 where lw: "loop_write B l chunk idx lws w = ((n, err), w1)" by (metis prod.exhaust)
      show "case y of (err, fl', chunk', idx', w') \<Rightarrow>
          I chunk' idx' w' \<and> (err = None \<longrightarrow> length chunk' < wlBlockSize l) \<and> (\<forall>e. err = Some e \<longrightarrow> E e)"
      proof (cases "length chunk < wlBlockSize l")
        case True
        then show ?thesis using 1(2) I by (auto simp: p)
      next
        case False
        then show ?thesis
        proof (cases err)
          case None
          then have "f B l lws (drop n chunk) (idx + 1) (fl + n) w1 = Some y" using 1(2) False lw by (simp add: p)
          then show ?thesis using 1(1) ok [OF I] lw None by blast
        next
          case (Some e)
          then show ?thesis using 1(2) False lw bad [OF I] by (auto simp: p)
        qed
      qed
    qed
  qed
  then show ?thesis using assms(4) by simp
qed

lemma loop_turn_total: "0 < wlBlockSize l \<Longrightarrow> loop_turn B l ev clk s w \<noteq> None"
proof -
  assume block: "0 < wlBlockSize l"
  obtain t1 t2 t3 s1 lws where c: "clk = (t1, t2, t3)" "take_tail (take_wake ev s) = (s1, lws)" by (metis prod.exhaust)
  obtain x where "write_blocks B l lws (lsChunk s1) (lsIndex s1) 0 w = Some x"
    using write_blocks_total [OF block, of B lws "lsChunk s1" "lsIndex s1" 0 w] by (meson not_None_eq)
  then show ?thesis by (simp add: loop_turn_def c Let_def split: prod.split)
qed

lemma loop_turn_inv:
  assumes s1: "take_tail (take_wake ev s) = (s1, lws)"
    and ok: "\<And>chunk idx w n w'. I chunk idx w \<Longrightarrow> loop_write B l chunk idx lws w = ((n, None), w') \<Longrightarrow> I (drop n chunk) (idx + 1) w'"
    and bad: "\<And>chunk idx w n e w'. I chunk idx w \<Longrightarrow> loop_write B l chunk idx lws w = ((n, Some e), w') \<Longrightarrow> I chunk idx w' \<and> E e"
    and turn: "loop_turn B l ev clk s w = Some (res, s', w')" and I: "I (lsChunk s1) (lsIndex s1) w"
  shows "I (lsChunk s') (lsIndex s') w' \<and> lsOpen s' = lsOpen s1 \<and> lsTail s' = lsTail s1 \<and>
    resClose res = (\<not> lsOpen s1) \<and> resTimeout res = (ev = FlushTimer) \<and> resSize res = lws \<and>
    (\<not> lsOpen s1 \<and> resErr res = None \<longrightarrow> lsChunk s' = [] \<and>
      (lsIndex s' = 0 \<longrightarrow> (\<exists>n chunk1 w1. I chunk1 65535 w1 \<and> loop_write B l chunk1 65535 lws w1 = ((n, None), w')))) \<and>
    (\<forall>e. resErr res = Some e \<longrightarrow> E e)"
proof -
  obtain t1 t2 t3 where clk: "clk = (t1, t2, t3)" by (metis prod.exhaust)
  obtain err1 fl1 chunk1 idx1 w1 where wb:
    "write_blocks B l lws (lsChunk s1) (lsIndex s1) 0 w = Some (err1, fl1, chunk1, idx1, w1)"
    using turn by (auto simp: loop_turn_def clk s1 split: option.splits)
  have "I chunk1 idx1 w1 \<and> (err1 = None \<longrightarrow> length chunk1 < wlBlockSize l) \<and> (\<forall>e. err1 = Some e \<longrightarrow> E e)"
    by (rule write_blocks_inv [where I = I and E = E, OF _ _ wb I]) (erule (1) ok, erule (1) bad)
  then have I1: "I chunk1 idx1 w1" "err1 = None \<longrightarrow> length chunk1 < wlBlockSize l" "\<forall>e. err1 = Some e \<longrightarrow> E e" by simp_all
  let ?more = "err1 = None \<and> (\<not> lsOpen s1 \<and> (idx1 = 0 \<or> 0 < length chunk1) \<or> t1 > lsFlushTime s1 \<and> 0 < length chunk1)"
  show ?thesis
  proof (cases ?more)
    case False
    then show ?thesis using turn I1 by (auto simp: loop_turn_def clk s1 wb Let_def)
  next
    case True
    obtain n err w2 where lw: "loop_write B l chunk1 idx1 lws w1 = ((n, err), w2)" by (metis prod.exhaust)
    show ?thesis
    proof (cases err)
      case (Some e)
      then show ?thesis using turn True lw bad [OF I1(1)] by (auto simp: loop_turn_def clk s1 wb Let_def)
    next
      case None
      have "n = length chunk1"
        using lw None I1(2) True by (auto simp: loop_write_def Let_def split: prod.splits option.splits if_splits)
      moreover have "idx1 = 65535" if "idx1 + 1 = 0" using that by (simp add: add_eq_0_iff2 minus_one_u16)
      ultimately show ?thesis using turn True lw None ok [OF I1(1)] I1(1)
        by (auto simp: loop_turn_def clk s1 wb Let_def) blast+
    qed
  qed
qed

section \<open>Nothing is lost\<close>

context blob_backend
begin

text \<open>The chunks stored and the data that waits are the data written, or all the numbers of chunks have been used.\<close>

definition keeps :: "string \<Rightarrow> bytes \<Rightarrow> bytes \<Rightarrow> u16 \<Rightarrow> 'w \<Rightarrow> bool" where
  "keeps b data chunk idx w \<longleftrightarrow> inv w \<and>
     (view w (ChunkName b 65535) = None \<longrightarrow> (\<exists>cs. stored view w b cs \<and> idx = of_nat (length cs) \<and> concat cs @ chunk = data))"

lemma loop_write_cases:
  assumes "inv w" and "\<And>i. valid (ChunkName (wlBlob l) i)" and "loop_write B l chunk idx lws w = ((n, err), w')"
  shows "inv w'" and "err \<noteq> None \<Longrightarrow> view w' = view w"
    and "err = None \<Longrightarrow> view w' = (view w)(ChunkName (wlBlob l) idx \<mapsto> take n chunk)"
    and "err = None \<Longrightarrow> n = (if length chunk \<le> wlBlockSize l then length chunk
         else if wlNoSplit l \<and> lws \<le> wlBlockSize l then length chunk - lws else wlBlockSize l)"
proof -
  define size where "size = (if length chunk \<le> wlBlockSize l then length chunk
         else if wlNoSplit l \<and> lws \<le> wlBlockSize l then length chunk - lws else wlBlockSize l)"
  obtain k err1 w1 where wr: "bs_WriteBlob B (ChunkName (wlBlob l) idx) (take size chunk) w = ((k, err1), w1)"
    by (metis prod.exhaust)
  then have r: "err = err1 \<and> w' = w1 \<and> (err1 = None \<longrightarrow> n = size)"
    using assms(3) by (auto simp: loop_write_def Let_def size_def [symmetric] writeChunk_def split: option.splits)
  note law = write_law [OF assms(1,2) wr]
  show "inv w'" "err \<noteq> None \<Longrightarrow> view w' = view w"
    "err = None \<Longrightarrow> view w' = (view w)(ChunkName (wlBlob l) idx \<mapsto> take n chunk)"
    using law r by auto
  show "n = (if length chunk \<le> wlBlockSize l then length chunk
         else if wlNoSplit l \<and> lws \<le> wlBlockSize l then length chunk - lws else wlBlockSize l)" if "err = None"
    using r that by (simp add: size_def)
qed

lemma keeps_write:
  assumes v: "\<And>i. valid (ChunkName (wlBlob l) i)" and k: "keeps (wlBlob l) data chunk idx w"
  shows "loop_write B l chunk idx lws w = ((n, None), w') \<Longrightarrow> keeps (wlBlob l) data (drop n chunk) (idx + 1) w'"
    and "loop_write B l chunk idx lws w = ((n, Some e), w') \<Longrightarrow> keeps (wlBlob l) data chunk idx w'"
proof -
  have inv: "inv w" using k by (simp add: keeps_def)
  show "keeps (wlBlob l) data chunk idx w'" if "loop_write B l chunk idx lws w = ((n, Some e), w')"
    using loop_write_cases(1,2) [OF inv v that] k by (simp add: keeps_def stored_def)
  show "keeps (wlBlob l) data (drop n chunk) (idx + 1) w'" if lw: "loop_write B l chunk idx lws w = ((n, None), w')"
    unfolding keeps_def
  proof (intro conjI impI)
    note c = loop_write_cases [OF inv v lw]
    show "inv w'" by (rule c(1))
    assume none: "view w' (ChunkName (wlBlob l) 65535) = None"
    then have ne: "idx \<noteq> 65535" and none0: "view w (ChunkName (wlBlob l) 65535) = None"
      using c(3) by (auto split: if_splits)
    then obtain cs where cs: "stored view w (wlBlob l) cs" "idx = of_nat (length cs)" "concat cs @ chunk = data"
      using k by (auto simp: keeps_def)
    have "length cs \<noteq> 65535" using ne cs(2) by auto
    then have "length cs < 65535" using cs(1) by (simp add: stored_def)
    then have "stored view w' (wlBlob l) (cs @ [take n chunk])"
      using stored_write [OF cs(1)] c(3) cs(2) by simp
    moreover have "concat (cs @ [take n chunk]) @ drop n chunk = data" using cs(3) by simp
    ultimately show "\<exists>cs. stored view w' (wlBlob l) cs \<and> idx + 1 = of_nat (length cs) \<and> concat cs @ drop n chunk = data"
      using cs(2) by (intro exI [of _ "cs @ [take n chunk]"]) (simp add: add.commute)
  qed
qed

lemma loop_write_error:
  assumes E: "\<And>n d w k e w'. inv w \<Longrightarrow> bs_WriteBlob B n d w = ((k, Some e), w') \<Longrightarrow> E e"
    and "inv w" and "loop_write B l chunk idx lws w = ((n, Some e), w')"
  shows "E e"
  using assms(3) by (auto simp: loop_write_def Let_def writeChunk_def split: prod.splits option.splits dest!: E [OF assms(2)])

lemma keeps_turn:
  assumes v: "\<And>i. valid (ChunkName (wlBlob l) i)" and E: "\<And>n d w k e w'. inv w \<Longrightarrow> bs_WriteBlob B n d w = ((k, Some e), w') \<Longrightarrow> E e"
    and k: "keeps (wlBlob l) data (lsChunk s) (lsIndex s) w"
    and s1: "take_tail (take_wake ev s) = (s1, lws)" and c: "lsChunk s1 = lsChunk s @ c"
    and turn: "loop_turn B l ev clk s w = Some (res, s', w')"
  shows "keeps (wlBlob l) (data @ c) (lsChunk s') (lsIndex s') w' \<and> lsOpen s' = lsOpen s1 \<and> lsTail s' = lsTail s1 \<and>
    resClose res = (\<not> lsOpen s1) \<and> resTimeout res = (ev = FlushTimer) \<and> resSize res = lws \<and>
    (\<not> lsOpen s1 \<and> resErr res = None \<longrightarrow> lsChunk s' = [] \<and> (view w' (ChunkName (wlBlob l) 65535) = None \<longrightarrow> lsIndex s' \<noteq> 0)) \<and>
    (\<forall>e. resErr res = Some e \<longrightarrow> E e)"
proof -
  have "keeps (wlBlob l) (data @ c) (lsChunk s') (lsIndex s') w' \<and> lsOpen s' = lsOpen s1 \<and> lsTail s' = lsTail s1 \<and>
    resClose res = (\<not> lsOpen s1) \<and> resTimeout res = (ev = FlushTimer) \<and> resSize res = lws \<and>
    (\<not> lsOpen s1 \<and> resErr res = None \<longrightarrow> lsChunk s' = [] \<and>
      (lsIndex s' = 0 \<longrightarrow> (\<exists>n chunk1 w1. keeps (wlBlob l) (data @ c) chunk1 65535 w1 \<and>
         loop_write B l chunk1 65535 lws w1 = ((n, None), w')))) \<and>
    (\<forall>e. resErr res = Some e \<longrightarrow> E e)"
proof (rule loop_turn_inv [where I = "keeps (wlBlob l) (data @ c)", OF s1 _ _ turn])
  have "lsIndex s1 = lsIndex s"
    using s1 by (auto simp: take_tail_def take_wake_def split: wake.splits option.splits if_splits)
  then show "keeps (wlBlob l) (data @ c) (lsChunk s1) (lsIndex s1) w"
    using k c by (auto simp: keeps_def)
next
  fix chunk idx w n e w'
  assume k: "keeps (wlBlob l) (data @ c) chunk idx w" and lw: "loop_write B l chunk idx lws w = ((n, Some e), w')"
  then have "E e" using loop_write_error [where E = E, OF E _ lw] by (simp add: keeps_def)
  then show "keeps (wlBlob l) (data @ c) chunk idx w' \<and> E e" using keeps_write(2) [OF v k lw] by simp
qed (blast intro: keeps_write v)
  then show ?thesis using loop_write_cases(3) [OF _ v, where err = None] by (fastforce simp: keeps_def)
qed

section \<open>The writer\<close>

text \<open>A loop at rest: open, with the data \<open>data\<close> kept and the tail \<open>t\<close> in force.\<close>

definition at_rest :: "string \<Rightarrow> bytes \<Rightarrow> bytes \<Rightarrow> 'w wsys \<Rightarrow> bool" where
  "at_rest b data t y \<longleftrightarrow> lsOpen (syLoop y) \<and> lsTail (syLoop y) = t \<and> keeps b data (lsChunk (syLoop y)) (lsIndex (syLoop y)) (syStore y)"

end

definition only_timers :: "write_result list \<Rightarrow> bool" where
  "only_timers ress \<longleftrightarrow> list_all (\<lambda>r. resTimeout r \<and> \<not> resClose r) ress"

definition no_cancel :: "loop_event list \<Rightarrow> bool" where
  "no_cancel evs \<longleftrightarrow> list_all (\<lambda>ev. case ev of ContextDone _ \<Rightarrow> False | _ \<Rightarrow> True) evs"

definition chunk_of :: "bytes option \<Rightarrow> bytes" where
  "chunk_of p = (case p of None \<Rightarrow> [] | Some c \<Rightarrow> c)"

definition tail_of :: "bytes option \<Rightarrow> bytes \<Rightarrow> bytes" where
  "tail_of tlo t = (case tlo of None \<Rightarrow> t | Some t' \<Rightarrow> t')"

lemma read_results_skip:
  "only_timers ts \<Longrightarrow> \<exists>cw'. read_results op (ts @ rs) cw = read_results op rs cw' \<and> cwClosed cw' = cwClosed cw"
proof (induction ts arbitrary: cw)
  case (Cons r ts)
  then have r: "resTimeout r" "\<not> resClose r" "only_timers ts" by (simp_all add: only_timers_def)
  obtain cw' where "read_results op (ts @ rs) (cw\<lparr>cwLastChunkIndex := resLastChunkIndex r\<rparr>) = read_results op rs cw'"
    "cwClosed cw' = cwClosed cw"
    using Cons.IH [OF r(3), of "cw\<lparr>cwLastChunkIndex := resLastChunkIndex r\<rparr>"] by auto
  then show ?case using r by auto
qed auto

lemma closed_steps: "\<not> lsOpen (syLoop y) \<Longrightarrow> loop_steps B l evs y = Some y"
  by (induction evs) (simp_all add: loop_step_def)

context blob_backend
begin

lemma timer_turn:
  assumes v: "\<And>i. valid (ChunkName (wlBlob l) i)" and y: "at_rest (wlBlob l) data t y"
    and turn: "loop_turn B l FlushTimer clk (syLoop y) (syStore y) = Some (res, s', w')"
  shows "at_rest (wlBlob l) data t (y\<lparr>syRequests := reqs, syResults := ress, syLoop := s', syStore := w'\<rparr>) \<and>
    resTimeout res \<and> \<not> resClose res"
proof -
  have s: "lsOpen (syLoop y)" "lsTail (syLoop y) = t" "keeps (wlBlob l) data (lsChunk (syLoop y)) (lsIndex (syLoop y)) (syStore y)"
    using y by (simp_all add: at_rest_def)
  have tt: "take_tail (take_wake FlushTimer (syLoop y)) = (syLoop y, 0)" using s(1) by (simp add: take_tail_def take_wake_def)
  show ?thesis
    using keeps_turn [where E = "\<lambda>_. True" and c = "[]", OF v _ s(3) tt _ turn] s by (simp add: at_rest_def)
qed

lemma write_turn:
  assumes v: "\<And>i. valid (ChunkName (wlBlob l) i)" and y: "at_rest (wlBlob l) data t y"
    and turn: "loop_turn B l (Received (Some \<lparr>wrChunk = p, wrTail = tlo, wrClose = False\<rparr>)) clk (syLoop y) (syStore y) = Some (res, s', w')"
  shows "at_rest (wlBlob l) (data @ chunk_of p) (tail_of tlo t) (y\<lparr>syRequests := reqs, syResults := ress, syLoop := s', syStore := w'\<rparr>) \<and>
    \<not> resTimeout res \<and> \<not> resClose res \<and> resSize res = length (chunk_of p)"
proof -
  let ?ev = "Received (Some \<lparr>wrChunk = p, wrTail = tlo, wrClose = False\<rparr>)"
  define s1 where "s1 = (syLoop y)\<lparr>lsFlushTime := (if p = None then 0 else lsFlushTime (syLoop y)), lsTail := tail_of tlo t,
    lsChunk := lsChunk (syLoop y) @ chunk_of p, lsOpen := True\<rparr>"
  have s: "lsOpen (syLoop y)" "lsTail (syLoop y) = t" "keeps (wlBlob l) data (lsChunk (syLoop y)) (lsIndex (syLoop y)) (syStore y)"
    using y by (simp_all add: at_rest_def)
  have tt: "take_tail (take_wake ?ev (syLoop y)) = (s1, length (chunk_of p))"
    using s by (auto simp: take_tail_def take_wake_def s1_def tail_of_def chunk_of_def split: option.split)
  have c: "lsChunk s1 = lsChunk (syLoop y) @ chunk_of p" by (simp add: s1_def)
  show ?thesis
    using keeps_turn [where E = "\<lambda>_. True", OF v _ s(3) tt c turn] by (simp add: at_rest_def s1_def)
qed

lemma close_turn:
  assumes v: "\<And>i. valid (ChunkName (wlBlob l) i)" and y: "at_rest (wlBlob l) data t y"
    and E: "\<And>n d w k e w'. inv w \<Longrightarrow> bs_WriteBlob B n d w = ((k, Some e), w') \<Longrightarrow> E e"
    and turn: "loop_turn B l (Received (Some \<lparr>wrChunk = None, wrTail = None, wrClose = True\<rparr>)) clk (syLoop y) (syStore y) = Some (res, s', w')"
  shows "keeps (wlBlob l) (data @ t) (lsChunk s') (lsIndex s') w' \<and> \<not> lsOpen s' \<and> \<not> resTimeout res \<and> resClose res \<and>
    (resErr res = None \<longrightarrow> lsChunk s' = [] \<and> (view w' (ChunkName (wlBlob l) 65535) = None \<longrightarrow> lsIndex s' \<noteq> 0)) \<and>
    (\<forall>e. resErr res = Some e \<longrightarrow> E e)"
proof -
  let ?ev = "Received (Some \<lparr>wrChunk = None, wrTail = None, wrClose = True\<rparr>)"
  define s1 where "s1 = (syLoop y)\<lparr>lsFlushTime := 0, lsTail := [], lsChunk := lsChunk (syLoop y) @ t, lsOpen := False\<rparr>"
  have s: "lsTail (syLoop y) = t" "keeps (wlBlob l) data (lsChunk (syLoop y)) (lsIndex (syLoop y)) (syStore y)"
    using y by (simp_all add: at_rest_def)
  have tt: "take_tail (take_wake ?ev (syLoop y)) = (s1, length t)"
    using s by (simp add: take_tail_def take_wake_def s1_def)
  have c: "lsChunk s1 = lsChunk (syLoop y) @ t" by (simp add: s1_def)
  show ?thesis
    using keeps_turn [where E = E, OF v E s(2) tt c turn] by (simp add: s1_def)
qed

text \<open>While no request waits, only the timer does something.\<close>

lemma steps_idle:
  assumes v: "\<And>i. valid (ChunkName (wlBlob l) i)"
  shows "\<lbrakk>at_rest (wlBlob l) data t y; syRequests y = []; no_cancel evs; loop_steps B l evs y = Some y'\<rbrakk> \<Longrightarrow>
    at_rest (wlBlob l) data t y' \<and> syRequests y' = [] \<and> syWriter y' = syWriter y \<and> (\<exists>ts. syResults y' = syResults y @ ts \<and> only_timers ts)"
proof (induction evs arbitrary: y)
  case Nil
  then show ?case by (auto simp: only_timers_def)
next
  case (Cons ev evs)
  then obtain y1 where y1: "loop_step B l ev y = Some y1" "loop_steps B l evs y1 = Some y'" "no_cancel evs"
    by (auto simp: no_cancel_def split: option.splits)
  have "at_rest (wlBlob l) data t y1 \<and> syRequests y1 = [] \<and> syWriter y1 = syWriter y \<and> (\<exists>ts. syResults y1 = syResults y @ ts \<and> only_timers ts)"
  proof (cases "y1 = y")
    case True
    then show ?thesis using Cons.prems by (auto simp: only_timers_def)
  next
    case False
    then obtain clk where ev: "ev = TimerFires clk"
      using y1(1) Cons.prems(2,3) by (cases ev) (auto simp: loop_step_def no_cancel_def split: if_splits)
    then obtain res s' w' where turn: "loop_turn B l FlushTimer clk (syLoop y) (syStore y) = Some (res, s', w')"
      and "y1 = y\<lparr>syRequests := [], syResults := syResults y @ [res], syLoop := s', syStore := w'\<rparr>"
      using y1(1) False Cons.prems(2) by (auto simp: loop_step_def split: if_splits)
    then show ?thesis using timer_turn [OF v Cons.prems(1) turn] by (auto simp: only_timers_def)
  qed
  then show ?case using Cons.IH [of y1] y1 by (fastforce simp: only_timers_def)
qed

text \<open>With one request waiting, either it still waits, or it was taken once.\<close>

lemma steps_write:
  assumes v: "\<And>i. valid (ChunkName (wlBlob l) i)"
  shows "\<lbrakk>at_rest (wlBlob l) data t y; syRequests y = [\<lparr>wrChunk = p, wrTail = tlo, wrClose = False\<rparr>]; no_cancel evs;
      loop_steps B l evs y = Some y'\<rbrakk> \<Longrightarrow>
    (at_rest (wlBlob l) data t y' \<and> syWriter y' = syWriter y \<and> (\<exists>ts. syResults y' = syResults y @ ts \<and> only_timers ts)) \<or>
    (at_rest (wlBlob l) (data @ chunk_of p) (tail_of tlo t) y' \<and> syRequests y' = [] \<and> syWriter y' = syWriter y \<and>
      (\<exists>ts r ts'. syResults y' = syResults y @ ts @ r # ts' \<and> only_timers ts \<and> only_timers ts' \<and>
        \<not> resTimeout r \<and> \<not> resClose r \<and> resSize r = length (chunk_of p)))"
proof (induction evs arbitrary: y)
  case Nil
  then show ?case by (auto simp: only_timers_def)
next
  case (Cons ev evs)
  let ?req = "\<lparr>wrChunk = p, wrTail = tlo, wrClose = False\<rparr>"
  obtain y1 where y1: "loop_step B l ev y = Some y1" "loop_steps B l evs y1 = Some y'" "no_cancel evs"
    using Cons.prems by (auto simp: no_cancel_def split: option.splits)
  show ?case
  proof (cases "y1 = y")
    case True
    then show ?thesis using Cons.IH Cons.prems(1,2) y1 by blast
  next
    case False
    then consider clk where "ev = TimerFires clk" | clk where "ev = TakeRequest clk"
      using Cons.prems(3) by (cases ev) (auto simp: no_cancel_def)
    then show ?thesis
    proof cases
      case 1
      then obtain res s' w' where turn: "loop_turn B l FlushTimer clk (syLoop y) (syStore y) = Some (res, s', w')"
        and y1': "y1 = y\<lparr>syRequests := [?req], syResults := syResults y @ [res], syLoop := s', syStore := w'\<rparr>"
        using y1(1) False Cons.prems(2) by (auto simp: loop_step_def split: if_splits)
      have res: "at_rest (wlBlob l) data t y1" "resTimeout res" "\<not> resClose res"
        using timer_turn [OF v Cons.prems(1) turn] y1' by simp_all
      have ot: "only_timers (res # ts) = only_timers ts" for ts using res by (simp add: only_timers_def)
      have "syRequests y1 = [?req]" "syWriter y1 = syWriter y" "syResults y1 = syResults y @ [res]" by (simp_all add: y1')
      then show ?thesis
        using Cons.IH [OF res(1) _ y1(3,2)] ot by (auto simp del: append_assoc) (metis append.assoc append_Cons append_Nil)+
    next
      case 2
      then obtain res s' w' where turn: "loop_turn B l (Received (Some ?req)) clk (syLoop y) (syStore y) = Some (res, s', w')"
        and y1': "y1 = y\<lparr>syRequests := [], syResults := syResults y @ [res], syLoop := s', syStore := w'\<rparr>"
        using y1(1) False Cons.prems(2) by (auto simp: loop_step_def split: if_splits)
      note w = write_turn [where reqs = "[]" and ress = "syResults y @ [res]", OF v Cons.prems(1) turn, folded y1']
      have "syRequests y1 = []" "syWriter y1 = syWriter y" "syResults y1 = syResults y @ [res]" by (simp_all add: y1')
      then show ?thesis
        using steps_idle [OF v _ _ y1(3,2), of "data @ chunk_of p" "tail_of tlo t"] w
        by (intro disjI2) (auto simp: only_timers_def intro!: exI [of _ "[]"])
    qed
  qed
qed

lemma steps_close:
  assumes v: "\<And>i. valid (ChunkName (wlBlob l) i)"
    and E: "\<forall>n d w k e w'. inv w \<longrightarrow> bs_WriteBlob B n d w = ((k, Some e), w') \<longrightarrow> E e"
  shows "\<lbrakk>at_rest (wlBlob l) data t y; syRequests y = [\<lparr>wrChunk = None, wrTail = None, wrClose = True\<rparr>]; no_cancel evs;
      loop_steps B l evs y = Some y'\<rbrakk> \<Longrightarrow>
    (at_rest (wlBlob l) data t y' \<and> syWriter y' = syWriter y \<and> (\<exists>ts. syResults y' = syResults y @ ts \<and> only_timers ts)) \<or>
    (keeps (wlBlob l) (data @ t) (lsChunk (syLoop y')) (lsIndex (syLoop y')) (syStore y') \<and> syWriter y' = syWriter y \<and>
      (\<exists>ts r. syResults y' = syResults y @ ts @ [r] \<and> only_timers ts \<and> resClose r \<and>
        (resErr r = None \<longrightarrow> lsChunk (syLoop y') = [] \<and>
          (view (syStore y') (ChunkName (wlBlob l) 65535) = None \<longrightarrow> lsIndex (syLoop y') \<noteq> 0)) \<and> (\<forall>e. resErr r = Some e \<longrightarrow> E e)))"
proof (induction evs arbitrary: y)
  case Nil
  then show ?case by (auto simp: only_timers_def)
next
  case (Cons ev evs)
  let ?req = "\<lparr>wrChunk = None, wrTail = None, wrClose = True\<rparr>"
  obtain y1 where y1: "loop_step B l ev y = Some y1" "loop_steps B l evs y1 = Some y'" "no_cancel evs"
    using Cons.prems by (auto simp: no_cancel_def split: option.splits)
  show ?case
  proof (cases "y1 = y")
    case True
    then show ?thesis using Cons.IH Cons.prems(1,2) y1 by blast
  next
    case False
    then consider clk where "ev = TimerFires clk" | clk where "ev = TakeRequest clk"
      using Cons.prems(3) by (cases ev) (auto simp: no_cancel_def)
    then show ?thesis
    proof cases
      case 1
      then obtain res s' w' where turn: "loop_turn B l FlushTimer clk (syLoop y) (syStore y) = Some (res, s', w')"
        and y1': "y1 = y\<lparr>syRequests := [?req], syResults := syResults y @ [res], syLoop := s', syStore := w'\<rparr>"
        using y1(1) False Cons.prems(2) by (auto simp: loop_step_def split: if_splits)
      have res: "at_rest (wlBlob l) data t y1" "resTimeout res" "\<not> resClose res"
        using timer_turn [OF v Cons.prems(1) turn] y1' by simp_all
      have ot: "only_timers (res # ts) = only_timers ts" for ts using res by (simp add: only_timers_def)
      have "syRequests y1 = [?req]" "syWriter y1 = syWriter y" "syResults y1 = syResults y @ [res]" by (simp_all add: y1')
      then show ?thesis
        using Cons.IH [OF res(1) _ y1(3,2)] ot by (auto simp del: append_assoc) (metis append.assoc append_Cons append_Nil)+
    next
      case 2
      then obtain res s' w' where turn: "loop_turn B l (Received (Some ?req)) clk (syLoop y) (syStore y) = Some (res, s', w')"
        and y1': "y1 = y\<lparr>syRequests := [], syResults := syResults y @ [res], syLoop := s', syStore := w'\<rparr>"
        using y1(1) False Cons.prems(2) by (auto simp: loop_step_def split: if_splits)
      note w = close_turn [where E = E, OF v Cons.prems(1) E [rule_format] turn]
      then have "\<not> lsOpen (syLoop y1)" by (simp add: y1')
      then have "y' = y1" using closed_steps [of y1] y1(2) by simp
      then show ?thesis
        using w by (intro disjI2) (auto simp: y1' only_timers_def intro!: exI [of _ "[]"])
    qed
  qed
qed

text \<open>A writer between two calls.\<close>

definition ready :: "writeLoop \<Rightarrow> bytes \<Rightarrow> bytes \<Rightarrow> 'w wsys \<Rightarrow> bool" where
  "ready l data t y \<longleftrightarrow> at_rest (wlBlob l) data t y \<and> syRequests y = [] \<and> only_timers (syResults y) \<and> \<not> cwClosed (syWriter y)"

lemma WriteWithTail_ready:
  assumes v: "\<And>i. valid (ChunkName (wlBlob l) i)" and y: "ready l data t y" and "no_cancel evs"
    and op: "WriteWithTail B l p tlo evs y = Some ((n, None), y')"
  shows "n = length (chunk_of p) \<and> ready l (data @ chunk_of p) (tail_of tlo t) y'"
proof -
  let ?req = "\<lparr>wrChunk = p, wrTail = tlo, wrClose = False\<rparr>"
  let ?y0 = "y\<lparr>syRequests := [?req]\<rparr>"
  have r: "at_rest (wlBlob l) data t ?y0" "syRequests y = []" "only_timers (syResults y)" "\<not> cwClosed (syWriter y)"
    using y by (simp_all add: ready_def at_rest_def)
  obtain y1 cw ress where st: "loop_steps B l evs ?y0 = Some y1"
    and rr: "read_results (lsOpen (syLoop y1)) (syResults y1) (syWriter y1) = ((n, None), cw, ress)"
    and y': "y' = y1\<lparr>syWriter := cw, syResults := ress\<rparr>"
    using op r by (auto simp: WriteWithTail_def send_and_read_def split: option.splits prod.splits)
  from steps_write [OF v r(1) _ assms(3) st] consider
      (waits) "at_rest (wlBlob l) data t y1" "\<exists>ts. syResults y1 = syResults y @ ts \<and> only_timers ts"
    | (taken) ts rs ts' where "at_rest (wlBlob l) (data @ chunk_of p) (tail_of tlo t) y1" "syRequests y1 = []" "syWriter y1 = syWriter y"
        "syResults y1 = syResults y @ ts @ rs # ts'" "only_timers ts" "only_timers ts'"
        "\<not> resTimeout rs" "\<not> resClose rs" "resSize rs = length (chunk_of p)"
    by auto
  then show ?thesis
  proof cases
    case waits
    then have "only_timers (syResults y1)" using r(3) by (auto simp: only_timers_def)
    then obtain cw' where "read_results (lsOpen (syLoop y1)) (syResults y1 @ []) (syWriter y1) = read_results (lsOpen (syLoop y1)) [] cw'"
      using read_results_skip by blast
    then show ?thesis using rr waits(1) by (simp add: at_rest_def)
  next
    case taken
    have "only_timers (syResults y @ ts)" using r(3) taken(5) by (simp add: only_timers_def)
    then obtain cw' where "read_results (lsOpen (syLoop y1)) (syResults y1) (syWriter y1) =
        read_results (lsOpen (syLoop y1)) (rs # ts') cw'" "cwClosed cw' = cwClosed (syWriter y1)"
      using read_results_skip [of "syResults y @ ts" "lsOpen (syLoop y1)" "rs # ts'" "syWriter y1"] taken(4) by auto
    then have "n = resSize rs \<and> cw = cw'\<lparr>cwLastChunkIndex := resLastChunkIndex rs\<rparr> \<and> ress = ts'"
      using rr taken(7,8) by auto
    then show ?thesis
      using taken r(4) \<open>cwClosed cw' = _\<close> by (auto simp: y' ready_def at_rest_def)
  qed
qed

lemma Close_ready:
  assumes v: "\<And>i. valid (ChunkName (wlBlob l) i)" and y: "ready l data t y" and "no_cancel evs"
    and E: "\<forall>n d w k e w'. inv w \<longrightarrow> bs_WriteBlob B n d w = ((k, Some e), w') \<longrightarrow> err_code e \<noteq> Unavailable"
    and op: "chunk_Close B l evs y = Some (None, y')"
  shows "keeps (wlBlob l) (data @ t) [] (lsIndex (syLoop y')) (syStore y') \<and>
    (view (syStore y') (ChunkName (wlBlob l) 65535) = None \<longrightarrow> lsIndex (syLoop y') \<noteq> 0)"
proof -
  let ?req = "\<lparr>wrChunk = None, wrTail = None, wrClose = True\<rparr>"
  let ?y0 = "y\<lparr>syRequests := [?req]\<rparr>"
  have r: "at_rest (wlBlob l) data t ?y0" "syRequests y = []" "only_timers (syResults y)" "\<not> cwClosed (syWriter y)"
    using y by (simp_all add: ready_def at_rest_def)
  obtain y1 n err cw ress where st: "loop_steps B l evs ?y0 = Some y1"
    and rr: "read_results (lsOpen (syLoop y1)) (syResults y1) (syWriter y1) = ((n, err), cw, ress)"
    and y': "y' = y1\<lparr>syWriter := cw, syResults := ress\<rparr>" and err: "err = None \<or> IsUnavailableError err"
    using op r by (auto simp: chunk_Close_def send_and_read_def split: option.splits prod.splits if_splits)
  from steps_close [where E = "\<lambda>e. err_code e \<noteq> Unavailable", OF v E r(1) _ assms(3) st] consider
      (waits) "at_rest (wlBlob l) data t y1" "\<exists>ts. syResults y1 = syResults y @ ts \<and> only_timers ts"
    | (taken) ts rs where "keeps (wlBlob l) (data @ t) (lsChunk (syLoop y1)) (lsIndex (syLoop y1)) (syStore y1)"
        "syResults y1 = syResults y @ ts @ [rs]" "only_timers ts" "resClose rs"
        "resErr rs = None \<longrightarrow> lsChunk (syLoop y1) = [] \<and>
          (view (syStore y1) (ChunkName (wlBlob l) 65535) = None \<longrightarrow> lsIndex (syLoop y1) \<noteq> 0)" "\<forall>e. resErr rs = Some e \<longrightarrow> err_code e \<noteq> Unavailable"
    by auto
  then show ?thesis
  proof cases
    case waits
    then have "only_timers (syResults y1)" using r(3) by (auto simp: only_timers_def)
    then obtain cw' where "read_results (lsOpen (syLoop y1)) (syResults y1 @ []) (syWriter y1) = read_results (lsOpen (syLoop y1)) [] cw'"
      using read_results_skip by blast
    then show ?thesis using rr waits(1) err by (auto simp: at_rest_def status_simps)
  next
    case taken
    have "only_timers (syResults y @ ts)" using r(3) taken(3) by (simp add: only_timers_def)
    then obtain cw' where "read_results (lsOpen (syLoop y1)) (syResults y1) (syWriter y1) =
        read_results (lsOpen (syLoop y1)) [rs] cw'"
      using read_results_skip [of "syResults y @ ts" "lsOpen (syLoop y1)" "[rs]" "syWriter y1"] taken(2) by auto
    then have "resErr rs = None"
      using rr taken(4,6) err by (auto simp: status_simps split: if_splits)
    then show ?thesis using taken(1,5) by (simp add: y')
  qed
qed

lemma Writer_ready:
  assumes "inv w" and "stored view w b []"
  shows "ready (fst (chunk_Writer c b co now w)) [] [] (snd (chunk_Writer c b co now w))"
    and "wlBlob (fst (chunk_Writer c b co now w)) = b"
  using assms by (auto simp: chunk_Writer_def ready_def at_rest_def keeps_def only_timers_def)

lemma keeps_all:
  "keeps b data [] idx w \<and> (view w (ChunkName b 65535) = None \<longrightarrow> idx \<noteq> 0) \<Longrightarrow> view w (ChunkName b 65535) = None \<Longrightarrow>
    \<exists>cs. stored view w b cs \<and> cs \<noteq> [] \<and> concat cs = data"
  by (auto simp: keeps_def)

end

text \<open>A run of writes, each with its data, its tail and the events of the loop, all without an error.\<close>

fun run_writes :: "'w blobstore \<Rightarrow> writeLoop \<Rightarrow> (bytes option \<times> bytes option \<times> loop_event list) list \<Rightarrow> 'w wsys \<Rightarrow> 'w wsys option" where
  "run_writes B l [] y = Some y"
| "run_writes B l ((p, tlo, evs) # ops) y =
     (case WriteWithTail B l p tlo evs y of
        Some ((_, None), y') \<Rightarrow> run_writes B l ops y'
      | _ \<Rightarrow> None)"

definition written :: "(bytes option \<times> bytes option \<times> loop_event list) list \<Rightarrow> bytes" where
  "written ops = concat (map (\<lambda>(p, tlo, evs). chunk_of p) ops)"

definition tail_after :: "bytes \<Rightarrow> (bytes option \<times> bytes option \<times> loop_event list) list \<Rightarrow> bytes" where
  "tail_after t ops = foldl (\<lambda>t (p, tlo, evs). tail_of tlo t) t ops"

lemma run_writes_append:
  "run_writes B l (ops @ ops') y = (case run_writes B l ops y of None \<Rightarrow> None | Some y' \<Rightarrow> run_writes B l ops' y')"
  by (induction ops arbitrary: y) (auto split: option.split)

context blob_backend
begin

lemma run_writes_ready:
  assumes v: "\<And>i. valid (ChunkName (wlBlob l) i)"
  shows "\<lbrakk>ready l data t y; \<forall>(p, tlo, evs)\<in>set ops. no_cancel evs; run_writes B l ops y = Some y'\<rbrakk> \<Longrightarrow>
    ready l (data @ written ops) (tail_after t ops) y'"
proof (induction ops arbitrary: data t y)
  case Nil
  then show ?case by (simp add: written_def tail_after_def)
next
  case (Cons op ops)
  obtain p tlo evs where op: "op = (p, tlo, evs)" by (metis prod.exhaust)
  then obtain n y1 where w: "WriteWithTail B l p tlo evs y = Some ((n, None), y1)" "run_writes B l ops y1 = Some y'"
    using Cons.prems(3) by (auto split: option.splits prod.splits)
  have "ready l (data @ chunk_of p) (tail_of tlo t) y1"
    using WriteWithTail_ready [OF v Cons.prems(1) _ w(1)] Cons.prems(2) op by simp
  then have "ready l ((data @ chunk_of p) @ written ops) (tail_after (tail_of tlo t) ops) y'"
  proof (rule Cons.IH [OF _ _ w(2)])
    show "\<forall>(p, tlo, evs)\<in>set ops. no_cancel evs" using Cons.prems(2) by simp
  qed
  then show ?case using op by (simp add: written_def tail_after_def)
qed

end

section \<open>On the store in files\<close>

lemma backend_with:
  assumes "blob_backend B valid ok view"
    and "\<And>n d w k err w'. J w \<Longrightarrow> bs_WriteBlob B n d w = ((k, err), w') \<Longrightarrow> J w'"
    and "\<And>n w err w'. J w \<Longrightarrow> bs_DeleteBlob B n w = (err, w') \<Longrightarrow> J w'"
  shows "blob_backend B valid (\<lambda>w. ok w \<and> J w) view"
proof
  fix w n d k err w'
  assume w: "ok w \<and> J w" and n: "valid n"
  show "bs_BlobExists B n w = (view w n \<noteq> None, None)"
    using blob_backend.exists_law [OF assms(1)] w n by blast
  show "bs_ReadBlob B n w = (d, None)" if "view w n = Some d"
    using blob_backend.read_law [OF assms(1)] w n that by blast
  show "(ok w' \<and> J w') \<and> view w' = (if err = None then (view w)(n \<mapsto> d) else view w)"
    if "bs_WriteBlob B n d w = ((k, err), w')"
    using blob_backend.write_law [OF assms(1) _ n that] assms(2) [OF _ that] w by blast
  show "(ok w' \<and> J w') \<and> view w' = (if err = None then (view w)(n := None) else view w)"
    if "bs_DeleteBlob B n w = (err, w')"
    using blob_backend.delete_law [OF assms(1) _ n that] assms(3) [OF _ that] w by blast
qed

text \<open>No call of the file system ends with the code \<open>Unavailable\<close>.\<close>

definition never_unavailable :: "filesystem \<Rightarrow> bool" where
  "never_unavailable fs \<longleftrightarrow> (\<forall>e. Some e \<in> set (fs_outcomes fs) \<longrightarrow> err_code e \<noteq> Unavailable)"

lemma os_call_outcomes:
  "os_call fs = (err, fs') \<Longrightarrow> never_unavailable fs \<Longrightarrow> never_unavailable fs' \<and> (\<forall>e. err = Some e \<longrightarrow> err_code e \<noteq> Unavailable)"
  by (auto simp: os_call_def never_unavailable_def split: list.splits)

lemma files_write_outcomes:
  assumes "never_unavailable fs" and "gz_ok gzip gunzip"
    and "bs_WriteBlob (DiskBlobStore gzip gunzip root) n d fs = ((k, err), fs')"
  shows "never_unavailable fs' \<and> (\<forall>e. err = Some e \<longrightarrow> err_code e \<noteq> Unavailable)"
proof -
  have put: "never_unavailable (f\<lparr>fs_files := x\<rparr>) = never_unavailable f" for f x by (simp add: never_unavailable_def)
  show ?thesis
  proof (cases "blobPath root n")
    case (Inl e)
    then show ?thesis
      using assms(1,3) by (auto simp: DiskBlobStore_def Disk_WriteBlob_def blobPath_def split: if_splits)
  next
    case (Inr path)
    obtain z where "gzip d = Inr z" using assms(2) by (meson gz_ok_def)
    then have "disk_WriteFile path z fs = ((k, err), fs')"
      using assms(3) Inr by (simp add: DiskBlobStore_def Disk_WriteBlob_def compress_def)
    then show ?thesis
      using assms(1) put unfolding disk_WriteFile_def by (auto split: prod.splits option.splits dest!: os_call_outcomes)
  qed
qed

lemma files_delete_outcomes:
  assumes "never_unavailable fs" and "bs_DeleteBlob (DiskBlobStore gzip gunzip root) n fs = (err, fs')"
  shows "never_unavailable fs'"
proof -
  have put: "never_unavailable (f\<lparr>fs_files := x\<rparr>) = never_unavailable f" for f x by (simp add: never_unavailable_def)
  show ?thesis
    using assms put
    by (auto simp: DiskBlobStore_def Disk_DeleteBlob_def disk_DeleteFile_def split: sum.splits prod.splits option.splits os_error.splits
        if_splits dest!: os_call_outcomes)
qed

lemma calm_backend:
  assumes "rootDir \<noteq> []" and "gz_ok gzip gunzip"
  shows "blob_backend (DiskBlobStore gzip gunzip rootDir) disk_name (\<lambda>fs. disk_ok gunzip rootDir fs \<and> never_unavailable fs)
    (disk_view gunzip rootDir)"
  by (rule backend_with [OF files_backend [OF assms]])
    (use files_write_outcomes [OF _ assms(2)] files_delete_outcomes in blast)+

lemma files_close:
  assumes "rootDir \<noteq> []" and gz: "gz_ok gzip gunzip" and "disk_ok gunzip rootDir fs" and "never_unavailable fs" and b: "disk_name b"
    and "stored (disk_view gunzip rootDir) fs b []" and wr: "chunk_Writer c b co now fs = (l, y)"
    and "\<forall>(p, tlo, evs)\<in>set ops. no_cancel evs" and "run_writes (DiskBlobStore gzip gunzip rootDir) l ops y = Some y1"
    and "no_cancel evs" and "chunk_Close (DiskBlobStore gzip gunzip rootDir) l evs y1 = Some (None, y2)"
    and "disk_view gunzip rootDir (syStore y2) (ChunkName b 65535) = None"
  shows "disk_ok gunzip rootDir (syStore y2) \<and>
    (\<exists>cs. stored (disk_view gunzip rootDir) (syStore y2) b cs \<and> cs \<noteq> [] \<and> concat cs = written ops @ tail_after [] ops)"
proof -
  note bk = calm_backend [OF assms(1) gz]
  let ?B = "DiskBlobStore gzip gunzip rootDir" and ?v = "disk_view gunzip rootDir"
  let ?inv = "\<lambda>fs. disk_ok gunzip rootDir fs \<and> never_unavailable fs"
  have l: "wlBlob l = b" and y: "blob_backend.ready ?inv ?v l [] [] y"
    using blob_backend.Writer_ready [OF bk, of fs b c co now] assms(3,4,6) wr by simp_all
  have v: "\<And>i. disk_name (ChunkName (wlBlob l) i)" using disk_name_chunk [OF b] l by simp
  have y1: "blob_backend.ready ?inv ?v l (written ops) (tail_after [] ops) y1"
    using blob_backend.run_writes_ready [OF bk v y assms(8,9)] by simp
  have E: "\<forall>n d w k e w'. ?inv w \<longrightarrow> bs_WriteBlob ?B n d w = ((k, Some e), w') \<longrightarrow> err_code e \<noteq> Unavailable"
    using files_write_outcomes [OF _ gz] by blast
  note k = blob_backend.Close_ready [OF bk v y1 assms(10) E assms(11), unfolded l]
  have "\<exists>cs. stored ?v (syStore y2) b cs \<and> cs \<noteq> [] \<and> concat cs = written ops @ tail_after [] ops"
    using blob_backend.keeps_all [OF bk k assms(12)] .
  moreover have "disk_ok gunzip rootDir (syStore y2)"
    using k blob_backend.keeps_def [OF bk] by blast
  ultimately show ?thesis by blast
qed

text \<open>C9: A chunk writer on the store in files, whatever calls of the file system fail on the way and whenever the timer of the loop fires: if the writes report no error and \<open>Close\<close> reports none, the chunks in the store are exactly the data written, in order and once, followed by the volatile tail in force when it closed. (The last of the 65536 chunk names must be unused, or the numbers have wrapped around.)\<close>

theorem clean_close_keeps_everything:
  assumes "rootDir \<noteq> []" and "gz_ok gzip gunzip" and "disk_ok gunzip rootDir fs" and "never_unavailable fs" and "disk_name b"
    and "stored (disk_view gunzip rootDir) fs b []" and "chunk_Writer c b co now fs = (l, y)"
    and "\<forall>(p, tlo, evs)\<in>set ops. no_cancel evs" and "run_writes (DiskBlobStore gzip gunzip rootDir) l ops y = Some y1"
    and "no_cancel evs" and "chunk_Close (DiskBlobStore gzip gunzip rootDir) l evs y1 = Some (None, y2)"
    and "disk_view gunzip rootDir (syStore y2) (ChunkName b 65535) = None"
  shows "\<exists>cs. stored (disk_view gunzip rootDir) (syStore y2) b cs \<and> concat cs = written ops @ tail_after [] ops"
  using files_close [OF assms] by blast

text \<open>The instance: two writes of a writer with blocks of four bytes on a file system whose third call fails, the second with a tail.\<close>

definition demo_fs :: filesystem where
  "demo_fs = emptyfs\<lparr>fs_outcomes := [None, None, Some (Err Unknown ''no space left'')]\<rparr>"

definition demo_ops :: "(bytes option \<times> bytes option \<times> loop_event list) list" where
  "demo_ops = [(Some [1, 2], Some [], [TakeRequest (1, 1, 1)]), (Some [3], Some [7], [TimerFires (2, 2, 2), TakeRequest (3, 3, 3)])]"

definition demo_writer :: "writeLoop \<times> filesystem wsys" where
  "demo_writer = chunk_Writer (Chunkstore_New 4) ''b'' None 0 demo_fs"

definition demo_last :: "loop_event list" where
  "demo_last = [TimerFires (year, year, year), TimerFires (year + 1, year + 1, year + 1), TakeRequest (year + 2, year + 2, year + 2)]"

lemma demo_ok:
  "rootDir = ''root'' \<Longrightarrow> disk_ok GzData rootDir demo_fs \<and> never_unavailable demo_fs \<and> stored (disk_view GzData rootDir) demo_fs b [] \<and> gz_ok Inr GzData"
  by (auto simp: demo_fs_def emptyfs_def disk_ok_def never_unavailable_def stored_def disk_view_def gz_ok_def)

lemma write_blocks_small: "length chunk < wlBlockSize l \<Longrightarrow> write_blocks B l lws chunk idx fl w = Some (None, fl, chunk, idx, w)"
  by (simp add: write_blocks.simps)

lemma demo_path: "blobPath ''root'' (ChunkName ''b'' i) = Inr (filepath_Join [''root'', ChunkName ''b'' i])"
  and demo_paths: "filepath_Join [''root'', ChunkName ''b'' i] = filepath_Join [''root'', ChunkName ''b'' j] \<longleftrightarrow> i = j"
proof -
  have "disk_name ''b''" by code_simp
  then have n: "disk_name (ChunkName ''b'' i)" for i by (rule disk_name_chunk)
  then show "blobPath ''root'' (ChunkName ''b'' i) = Inr (filepath_Join [''root'', ChunkName ''b'' i])"
    by (simp add: blobPath_def disk_name_def)
  show "filepath_Join [''root'', ChunkName ''b'' i] = filepath_Join [''root'', ChunkName ''b'' j] \<longleftrightarrow> i = j"
    by (subst disk_path_inj) (use n in simp_all)
qed

lemmas demo_simps = demo_fs_def demo_ops_def demo_writer_def demo_last_def emptyfs_def year_def chunk_Writer_def Chunkstore_New_def
  WriteWithTail_def chunk_Write_def chunk_Flush_def chunk_Close_def send_and_read_def loop_step_def loop_turn_def take_tail_def take_wake_def Let_def
  write_blocks_small loop_write_def writeChunk_def DiskBlobStore_def Disk_WriteBlob_def compress_def disk_WriteFile_def os_call_def
  demo_path demo_paths disk_view_def status_simps

lemma demo_runs:
  "\<exists>y1 y2. run_writes (DiskBlobStore Inr GzData ''root'') (fst demo_writer) demo_ops (snd demo_writer) = Some y1 \<and>
    chunk_Close (DiskBlobStore Inr GzData ''root'') (fst demo_writer) demo_last y1 = Some (None, y2) \<and>
    disk_view GzData ''root'' (syStore y2) (ChunkName ''b'' 65535) = None"
  by (simp add: demo_simps)

theorem clean_close_keeps_everything_witness:
  "\<exists>y1 y2 cs. run_writes (DiskBlobStore Inr GzData ''root'') (fst demo_writer) demo_ops (snd demo_writer) = Some y1 \<and>
    chunk_Close (DiskBlobStore Inr GzData ''root'') (fst demo_writer) demo_last y1 = Some (None, y2) \<and>
    stored (disk_view GzData ''root'') (syStore y2) ''b'' cs \<and> concat cs = [1, 2, 3, 7]"
proof -
  obtain y1 y2 where r: "run_writes (DiskBlobStore Inr GzData ''root'') (fst demo_writer) demo_ops (snd demo_writer) = Some y1"
    "chunk_Close (DiskBlobStore Inr GzData ''root'') (fst demo_writer) demo_last y1 = Some (None, y2)"
    "disk_view GzData ''root'' (syStore y2) (ChunkName ''b'' 65535) = None"
    using demo_runs by blast
  have n: "disk_name ''b''" by code_simp
  have w: "chunk_Writer (Chunkstore_New 4) ''b'' None 0 demo_fs = (fst demo_writer, snd demo_writer)"
    by (simp add: demo_writer_def)
  have ops: "\<forall>(p, tlo, evs)\<in>set demo_ops. no_cancel evs" "no_cancel demo_last"
    by (simp_all add: demo_ops_def demo_last_def no_cancel_def)
  have d: "disk_ok GzData ''root'' demo_fs" "never_unavailable demo_fs" "stored (disk_view GzData ''root'') demo_fs ''b'' []" "gz_ok Inr GzData"
    using demo_ok by blast+
  show ?thesis
    using clean_close_keeps_everything [OF _ d(4,1,2) n d(3) w ops(1) r(1) ops(2) r(2,3)] r(1,2)
    by (auto simp: demo_ops_def written_def tail_after_def tail_of_def chunk_of_def)
qed

text \<open>C29: A write of nothing, which \<open>Flush\<close> and \<open>GetLastChunkIndex\<close> are, drops the volatile tail for good: after it a clean close stores only what was written, although the tail was never replaced by the caller.\<close>

theorem flush_drops_tail:
  assumes "rootDir \<noteq> []" and "gz_ok gzip gunzip" and "disk_ok gunzip rootDir fs" and "never_unavailable fs" and "disk_name b"
    and "stored (disk_view gunzip rootDir) fs b []" and "chunk_Writer c b co now fs = (l, y)"
    and "\<forall>(p, tlo, evs)\<in>set ops. no_cancel evs" and "run_writes (DiskBlobStore gzip gunzip rootDir) l ops y = Some y1"
    and "p = None \<or> p = Some []" and "no_cancel evs1" and "chunk_Write (DiskBlobStore gzip gunzip rootDir) l p evs1 y1 = Some ((n, None), y2)"
    and "no_cancel evs2" and "chunk_Close (DiskBlobStore gzip gunzip rootDir) l evs2 y2 = Some (None, y3)"
    and "disk_view gunzip rootDir (syStore y3) (ChunkName b 65535) = None"
  shows "\<exists>cs. stored (disk_view gunzip rootDir) (syStore y3) b cs \<and> concat cs = written ops"
proof -
  let ?ops = "ops @ [(p, Some [], evs1)]"
  have "run_writes (DiskBlobStore gzip gunzip rootDir) l ?ops y = Some y2"
    using assms(9,12) by (simp add: run_writes_append chunk_Write_def)
  moreover have "\<forall>(p, tlo, evs)\<in>set ?ops. no_cancel evs" using assms(8,11) by simp
  moreover have "written ?ops = written ops" "tail_after [] ?ops = []"
    using assms(10) by (auto simp: written_def tail_after_def chunk_of_def tail_of_def)
  ultimately show ?thesis
    using files_close [OF assms(1-7) _ _ assms(13,14,15), of ?ops] by (metis append_Nil2)
qed

definition demo_flush :: "loop_event list" where
  "demo_flush = [TimerFires (year + 1, year + 1, year + 1), TakeRequest (year + 2, year + 2, year + 2)]"

lemma demo_flush_runs:
  "\<exists>y1 n y2 y3. run_writes (DiskBlobStore Inr GzData ''root'') (fst demo_writer) demo_ops (snd demo_writer) = Some y1 \<and>
    chunk_Write (DiskBlobStore Inr GzData ''root'') (fst demo_writer) None demo_flush y1 = Some ((n, None), y2) \<and>
    chunk_Close (DiskBlobStore Inr GzData ''root'') (fst demo_writer) demo_last y2 = Some (None, y3) \<and>
    disk_view GzData ''root'' (syStore y3) (ChunkName ''b'' 65535) = None"
  by (simp add: demo_simps demo_flush_def)

theorem flush_drops_tail_witness:
  "\<exists>y1 y2 y3 n cs. run_writes (DiskBlobStore Inr GzData ''root'') (fst demo_writer) demo_ops (snd demo_writer) = Some y1 \<and>
    chunk_Write (DiskBlobStore Inr GzData ''root'') (fst demo_writer) None demo_flush y1 = Some ((n, None), y2) \<and>
    chunk_Close (DiskBlobStore Inr GzData ''root'') (fst demo_writer) demo_last y2 = Some (None, y3) \<and>
    stored (disk_view GzData ''root'') (syStore y3) ''b'' cs \<and> concat cs = [1, 2, 3]"
proof -
  obtain y1 n y2 y3 where r: "run_writes (DiskBlobStore Inr GzData ''root'') (fst demo_writer) demo_ops (snd demo_writer) = Some y1"
    "chunk_Write (DiskBlobStore Inr GzData ''root'') (fst demo_writer) None demo_flush y1 = Some ((n, None), y2)"
    "chunk_Close (DiskBlobStore Inr GzData ''root'') (fst demo_writer) demo_last y2 = Some (None, y3)"
    "disk_view GzData ''root'' (syStore y3) (ChunkName ''b'' 65535) = None"
    using demo_flush_runs by blast
  have n: "disk_name ''b''" by code_simp
  have w: "chunk_Writer (Chunkstore_New 4) ''b'' None 0 demo_fs = (fst demo_writer, snd demo_writer)"
    by (simp add: demo_writer_def)
  have ops: "\<forall>(p, tlo, evs)\<in>set demo_ops. no_cancel evs" "no_cancel demo_last" "no_cancel demo_flush"
    by (simp_all add: demo_ops_def demo_last_def demo_flush_def no_cancel_def)
  have d: "disk_ok GzData ''root'' demo_fs" "never_unavailable demo_fs" "stored (disk_view GzData ''root'') demo_fs ''b'' []" "gz_ok Inr GzData"
    using demo_ok by blast+
  show ?thesis
    using flush_drops_tail [OF _ d(4,1,2) n d(3) w ops(1) r(1) _ ops(3) r(2) ops(2) r(3,4)] r(1-3)
    by (auto simp: demo_ops_def written_def chunk_of_def)
qed

text \<open>
  \<open>Close\<close> takes an error of the store with the code \<open>Unavailable\<close> for its own sign that the loop has ended, and reports success: the data of
  the last block is lost.
\<close>

lemma close_hides_unavailable:
  assumes "read_results (lsOpen (syLoop y1)) (syResults y1) (syWriter y1) = ((n, Some e), cw, ress)" and "err_code e = Unavailable"
    and "\<not> cwClosed (syWriter y)" and "length (syRequests y) < 2"
    and "loop_steps B l evs (y\<lparr>syRequests := syRequests y @ [\<lparr>wrChunk = None, wrTail = None, wrClose = True\<rparr>]\<rparr>) = Some y1"
  shows "chunk_Close B l evs y = Some (None, y1\<lparr>syWriter := cw, syResults := ress\<rparr>)"
  using assms by (simp add: chunk_Close_def send_and_read_def status_simps)

section \<open>Whole blobs\<close>

text \<open>C10: Round trip on the store in files: when \<open>WriteBlob\<close> reports no error, whatever was stored under the name before and however the timer fired, it reports the length of the data, and \<open>ReadBlob\<close> then returns exactly the data, with any sizes of the reader's buffer.\<close>

theorem WriteBlob_ReadBlob:
  assumes "rootDir \<noteq> []" and "gz_ok gzip gunzip" and "disk_ok gunzip rootDir fs" and "never_unavailable fs" and "disk_name b"
    and "stored (disk_view gunzip rootDir) fs b old"
    and "no_cancel (fst evs)" and "no_cancel (fst (snd evs))" and "no_cancel (snd (snd evs))"
    and wr: "Chunkstore_WriteBlob (DiskBlobStore gzip gunzip rootDir) c b data now evs fs = Some ((n, None), fs')"
    and "disk_view gunzip rootDir fs' (ChunkName b 65535) = None" and room: "\<forall>n. 0 < room n"
  shows "n = length data \<and> Chunkstore_ReadBlob (DiskBlobStore gzip gunzip rootDir) room b fs' = Some (data, None)"
proof -
  note bk = calm_backend [OF assms(1,2)]
  let ?B = "DiskBlobStore gzip gunzip rootDir" and ?v = "disk_view gunzip rootDir"
  let ?inv = "\<lambda>fs. disk_ok gunzip rootDir fs \<and> never_unavailable fs"
  have v: "\<And>i. disk_name (ChunkName b i)" using disk_name_chunk [OF assms(5)] .
  obtain err fs1 m where d: "DeleteBlob ?B b fs = Some (err, fs1)" "?inv fs1" "stored ?v fs1 b (take m old)" "err = None \<Longrightarrow> m = 0"
    using blob_backend.DeleteBlob_stored [OF bk _ v assms(6)] assms(3,4) by blast
  obtain l y where w: "chunk_Writer c b None now fs1 = (l, y)" by (metis prod.exhaust)
  obtain k1 y1 k2 y2 y3 where err: "err = None"
    and ops: "chunk_Write ?B l (Some data) (fst evs) y = Some ((k1, None), y1)"
      "chunk_Flush ?B l (fst (snd evs)) y1 = Some ((k2, None), y2)"
      "chunk_Close ?B l (snd (snd evs)) y2 = Some (None, y3)" and res: "n = k1 + k2" "fs' = syStore y3"
    using wr d(1) w by (auto simp: Chunkstore_WriteBlob_def split: option.splits prod.splits)
  have st: "stored ?v fs1 b []" using d(3,4) err by simp
  have rdy: "wlBlob l = b" "blob_backend.ready ?inv ?v l [] [] y"
    using blob_backend.Writer_ready [OF bk d(2) st, of c None now] w by simp_all
  have vl: "\<And>i. disk_name (ChunkName (wlBlob l) i)" using v rdy(1) by simp
  have r1: "k1 = length data \<and> blob_backend.ready ?inv ?v l data [] y1"
    using blob_backend.WriteWithTail_ready [OF bk vl rdy(2) assms(7) ops(1) [unfolded chunk_Write_def]]
    by (simp add: chunk_of_def tail_of_def)
  then have r2: "k2 = 0"
    using blob_backend.WriteWithTail_ready [OF bk vl _ assms(8) ops(2) [unfolded chunk_Write_def chunk_Flush_def]]
    by (fastforce simp: chunk_of_def)
  let ?ops = "[(Some data, Some [], fst evs), (None, Some [], fst (snd evs))]"
  have run: "run_writes ?B l ?ops y = Some y2" using ops by (simp add: chunk_Write_def chunk_Flush_def)
  have "disk_ok gunzip rootDir fs' \<and> (\<exists>cs. stored ?v fs' b cs \<and> cs \<noteq> [] \<and> concat cs = written ?ops @ tail_after [] ?ops)"
    using files_close [OF assms(1,2) _ _ assms(5) st w _ run assms(9) ops(3)] d(2) assms(7,8,11) res(2) by simp
  then obtain cs where cs: "disk_ok gunzip rootDir fs'" "stored ?v fs' b cs" "cs \<noteq> []" "concat cs = data"
    by (auto simp: written_def tail_after_def chunk_of_def tail_of_def)
  have "Chunkstore_ReadBlob ?B room b fs' = Some (data, None)"
    using blob_backend.ReadBlob_stored [OF files_backend [OF assms(1,2)] cs(1) v cs(2,3), of room] room cs(4) by simp
  then show ?thesis using r1 r2 res(1) by simp
qed

lemma demo_delete: "DeleteBlob (DiskBlobStore Inr GzData ''root'') ''b'' emptyfs = Some (None, emptyfs)"
proof -
  have "ChunkExists (DiskBlobStore Inr GzData ''root'') ''b'' i emptyfs = Inr False" for i
    by (simp add: ChunkExists_def DiskBlobStore_def Disk_BlobExists_def demo_path disk_FileExists_def emptyfs_def)
  then show ?thesis by (simp add: DeleteBlob_def last_of_run.simps delete_from.simps)
qed

lemma demo_blob_runs:
  "\<exists>fs'. Chunkstore_WriteBlob (DiskBlobStore Inr GzData ''root'') (Chunkstore_New 4) ''b'' [1, 2, 3] 0
      ([TakeRequest (1, 1, 1)], [TimerFires (2, 2, 2), TakeRequest (3, 3, 3)], [TakeRequest (4, 4, 4)]) emptyfs = Some ((3, None), fs') \<and>
    disk_view GzData ''root'' fs' (ChunkName ''b'' 65535) = None"
  by (simp add: Chunkstore_WriteBlob_def demo_delete [unfolded emptyfs_def DiskBlobStore_def] demo_simps)

theorem WriteBlob_ReadBlob_witness:
  "\<exists>fs'. Chunkstore_WriteBlob (DiskBlobStore Inr GzData ''root'') (Chunkstore_New 4) ''b'' [1, 2, 3] 0
      ([TakeRequest (1, 1, 1)], [TimerFires (2, 2, 2), TakeRequest (3, 3, 3)], [TakeRequest (4, 4, 4)]) emptyfs = Some ((3, None), fs') \<and>
    Chunkstore_ReadBlob (DiskBlobStore Inr GzData ''root'') (\<lambda>n. 512) ''b'' fs' = Some ([1, 2, 3], None)"
proof -
  obtain fs' where r: "Chunkstore_WriteBlob (DiskBlobStore Inr GzData ''root'') (Chunkstore_New 4) ''b'' [1, 2, 3] 0
      ([TakeRequest (1, 1, 1)], [TimerFires (2, 2, 2), TakeRequest (3, 3, 3)], [TakeRequest (4, 4, 4)]) emptyfs = Some ((3, None), fs')"
    "disk_view GzData ''root'' fs' (ChunkName ''b'' 65535) = None"
    using demo_blob_runs by blast
  have n: "disk_name ''b''" by code_simp
  have d: "disk_ok GzData ''root'' emptyfs" "never_unavailable emptyfs" "stored (disk_view GzData ''root'') emptyfs ''b'' []" "gz_ok Inr GzData"
    by (auto simp: emptyfs_def disk_ok_def never_unavailable_def stored_def disk_view_def gz_ok_def)
  show ?thesis
    using WriteBlob_ReadBlob [OF _ d(4,1,2) n d(3) _ _ _ r, of "\<lambda>n. 512"] r(1) by (simp add: no_cancel_def)
qed

section \<open>Writes that are not split\<close>

text \<open>The loop \<open>run\<close> over the events that wake it.\<close>

fun loop_run ::
  "'w blobstore \<Rightarrow> writeLoop \<Rightarrow> (wake \<times> (int \<times> int \<times> int)) list \<Rightarrow> loop_state \<Rightarrow> 'w \<Rightarrow> (loop_state \<times> 'w) option" where
  "loop_run B l [] s w = Some (s, w)"
| "loop_run B l ((ev, clk) # turns) s w =
     (if \<not> lsOpen s then Some (s, w)
      else case loop_turn B l ev clk s w of None \<Rightarrow> None | Some (res, s', w') \<Rightarrow> loop_run B l turns s' w')"

text \<open>The pieces of data a run takes: those of the requests, and the tail when it closes.\<close>

definition turn_pieces :: "wake \<Rightarrow> loop_state \<Rightarrow> bytes list" where
  "turn_pieces ev s =
     (case ev of
        Received (Some req) \<Rightarrow> chunk_of (wrChunk req) # (if wrClose req then [tail_of (wrTail req) (lsTail s)] else [])
      | FlushTimer \<Rightarrow> []
      | _ \<Rightarrow> [lsTail s])"

fun pieces :: "(wake \<times> (int \<times> int \<times> int)) list \<Rightarrow> bytes \<Rightarrow> bytes list" where
  "pieces [] t = []"
| "pieces ((ev, clk) # turns) t =
     (case ev of
        Received (Some req) \<Rightarrow>
          (if wrClose req then [chunk_of (wrChunk req), tail_of (wrTail req) t]
           else chunk_of (wrChunk req) # pieces turns (tail_of (wrTail req) t))
      | FlushTimer \<Rightarrow> pieces turns t
      | _ \<Rightarrow> [t])"

context blob_backend
begin

text \<open>The stored chunks and the waiting data, each made of whole pieces; the last piece waiting is the last write.\<close>

definition whole :: "string \<Rightarrow> nat \<Rightarrow> bytes list \<Rightarrow> bytes \<Rightarrow> u16 \<Rightarrow> 'w \<Rightarrow> bool" where
  "whole b lws ps chunk idx w \<longleftrightarrow> inv w \<and>
     (view w (ChunkName b 65535) = None \<longrightarrow>
       (\<exists>rss pend. stored view w b (map concat rss) \<and> idx = of_nat (length rss) \<and> chunk = concat pend \<and> concat rss @ pend = ps \<and>
          (pend \<noteq> [] \<longrightarrow> lws = 0 \<or> lws = length (last pend))))"

lemma whole_write:
  assumes v: "\<And>i. valid (ChunkName (wlBlob l) i)" and "wlNoSplit l" and lws: "lws \<le> wlBlockSize l"
    and k: "whole (wlBlob l) lws ps chunk idx w" and lw: "loop_write B l chunk idx lws w = ((n, None), w')"
  shows "whole (wlBlob l) lws ps (drop n chunk) (idx + 1) w'"
  unfolding whole_def
proof (intro conjI impI)
  have inv: "inv w" using k by (simp add: whole_def)
  note c = loop_write_cases [OF inv v lw]
  show "inv w'" by (rule c(1))
  assume none: "view w' (ChunkName (wlBlob l) 65535) = None"
  then have ne: "idx \<noteq> 65535" and none0: "view w (ChunkName (wlBlob l) 65535) = None"
    using c(3) by (auto split: if_splits)
  then obtain rss pend where r: "stored view w (wlBlob l) (map concat rss)" "idx = of_nat (length rss)" "chunk = concat pend"
      "concat rss @ pend = ps" "pend \<noteq> [] \<longrightarrow> lws = 0 \<or> lws = length (last pend)"
    using k by (auto simp: whole_def)
  have "length rss \<noteq> 65535" using ne r(2) by auto
  then have len: "length (map concat rss) < 65535" using r(1) by (simp add: stored_def)
  have n: "n = (if length chunk \<le> wlBlockSize l then length chunk else length chunk - lws)"
    using c(4) assms(2) lws by simp
  obtain pre post where p: "pend = pre @ post" "n = length (concat pre)" "post \<noteq> [] \<longrightarrow> lws = 0 \<or> lws = length (last post)"
  proof (cases "length chunk \<le> wlBlockSize l \<or> lws = 0")
    case True
    then have "n = length (concat pend)" using n r(3) by auto
    then show thesis using that [of pend "[]"] by simp
  next
    case False
    then have "pend \<noteq> []" using r(3) by auto
    then have "pend = butlast pend @ [last pend]" by simp
    moreover have "lws = length (last pend)" using False r(5) \<open>pend \<noteq> []\<close> by simp
    moreover have "length chunk = length (concat (butlast pend)) + length (last pend)"
      unfolding r(3) by (subst \<open>pend = butlast pend @ [last pend]\<close>) (simp del: append_butlast_last_id)
    ultimately show thesis using that [of "butlast pend" "[last pend]"] False n by simp
  qed
  have tk: "take n chunk = concat pre" "drop n chunk = concat post" using p r(3) by simp_all
  have "stored view w' (wlBlob l) (map concat (rss @ [pre]))"
    using stored_write [OF r(1) len] c(3) r(2) tk by simp
  then show "\<exists>rss pend. stored view w' (wlBlob l) (map concat rss) \<and> idx + 1 = of_nat (length rss) \<and> drop n chunk = concat pend \<and>
      concat rss @ pend = ps \<and> (pend \<noteq> [] \<longrightarrow> lws = 0 \<or> lws = length (last pend))"
    using r(2,4) p(1,3) tk by (intro exI [of _ "rss @ [pre]"] exI [of _ post]) (simp add: add.commute)
qed

lemma whole_write_error:
  assumes v: "\<And>i. valid (ChunkName (wlBlob l) i)" and "whole (wlBlob l) lws ps chunk idx w"
    and "loop_write B l chunk idx lws w = ((n, Some e), w')"
  shows "whole (wlBlob l) lws ps chunk idx w'"
proof -
  have "inv w" using assms(2) by (simp add: whole_def)
  from loop_write_cases(1,2) [OF this v assms(3)] show ?thesis using assms(2) by (simp add: whole_def stored_def)
qed

lemma whole_more:
  assumes "whole b lws ps chunk idx w" and "ps' = ps @ new" and "chunk' = chunk @ concat new"
    and "new = [] \<and> lws' = 0 \<or> new \<noteq> [] \<and> lws' = length (last new)"
  shows "whole b lws' ps' chunk' idx w"
proof -
  have "\<exists>rss pend. stored view w b (map concat rss) \<and> idx = of_nat (length rss) \<and> chunk' = concat pend \<and> concat rss @ pend = ps' \<and>
      (pend \<noteq> [] \<longrightarrow> lws' = 0 \<or> lws' = length (last pend))"
    if none: "view w (ChunkName b 65535) = None"
  proof -
    obtain rss pend where "stored view w b (map concat rss)" "idx = of_nat (length rss)" "chunk = concat pend" "concat rss @ pend = ps"
      using assms(1) none by (auto simp: whole_def)
    then show ?thesis using assms(2-4) by (intro exI [of _ rss] exI [of _ "pend @ new"]) auto
  qed
  then show ?thesis using assms(1) by (simp add: whole_def)
qed

lemma whole_turn:
  assumes v: "\<And>i. valid (ChunkName (wlBlob l) i)" and ns: "wlNoSplit l"
    and k: "whole (wlBlob l) lws ps (lsChunk s) (lsIndex s) w" and op: "lsOpen s"
    and small: "\<forall>p\<in>set (turn_pieces ev s). length p \<le> wlBlockSize l"
    and turn: "loop_turn B l ev clk s w = Some (res, s', w')"
  shows "\<exists>lws'. whole (wlBlob l) lws' (ps @ turn_pieces ev s) (lsChunk s') (lsIndex s') w'"
    and "lsOpen s' = (case ev of Received (Some req) \<Rightarrow> \<not> wrClose req | FlushTimer \<Rightarrow> True | _ \<Rightarrow> False)"
    and "lsOpen s' \<Longrightarrow> lsTail s' = (case ev of Received (Some req) \<Rightarrow> tail_of (wrTail req) (lsTail s) | _ \<Rightarrow> lsTail s)"
proof -
  obtain s1 lws' where s1: "take_tail (take_wake ev s) = (s1, lws')" by (metis prod.exhaust)
  have new: "lsIndex s1 = lsIndex s" "lsChunk s1 = lsChunk s @ concat (turn_pieces ev s)"
    "turn_pieces ev s = [] \<and> lws' = 0 \<or> turn_pieces ev s \<noteq> [] \<and> lws' = length (last (turn_pieces ev s))"
    "lsOpen s1 = (case ev of Received (Some req) \<Rightarrow> \<not> wrClose req | FlushTimer \<Rightarrow> True | _ \<Rightarrow> False)"
    "lsOpen s1 \<Longrightarrow> lsTail s1 = (case ev of Received (Some req) \<Rightarrow> tail_of (wrTail req) (lsTail s) | _ \<Rightarrow> lsTail s)"
    using s1 op
    by (auto simp: take_tail_def take_wake_def turn_pieces_def chunk_of_def tail_of_def
        split: wake.splits option.splits if_splits prod.splits)
  have I: "whole (wlBlob l) lws' (ps @ turn_pieces ev s) (lsChunk s1) (lsIndex s1) w"
    unfolding new(1,2) by (rule whole_more [OF k refl refl new(3)])
  have "lws' \<le> wlBlockSize l" using new(3) small by (metis last_in_set zero_le)
  then have "whole (wlBlob l) lws' (ps @ turn_pieces ev s) (lsChunk s') (lsIndex s') w' \<and> lsOpen s' = lsOpen s1 \<and> lsTail s' = lsTail s1"
    using loop_turn_inv [where I = "whole (wlBlob l) lws' (ps @ turn_pieces ev s)" and E = "\<lambda>_. True", OF s1 _ _ turn I]
      whole_write [OF v ns] whole_write_error [OF v] by blast
  then show "\<exists>lws'. whole (wlBlob l) lws' (ps @ turn_pieces ev s) (lsChunk s') (lsIndex s') w'"
    "lsOpen s' = (case ev of Received (Some req) \<Rightarrow> \<not> wrClose req | FlushTimer \<Rightarrow> True | _ \<Rightarrow> False)"
    "lsOpen s' \<Longrightarrow> lsTail s' = (case ev of Received (Some req) \<Rightarrow> tail_of (wrTail req) (lsTail s) | _ \<Rightarrow> lsTail s)"
    using new(4,5) by auto
qed

lemma whole_run:
  assumes v: "\<And>i. valid (ChunkName (wlBlob l) i)" and ns: "wlNoSplit l"
  shows "\<lbrakk>whole (wlBlob l) lws ps (lsChunk s) (lsIndex s) w; lsOpen s; \<forall>p\<in>set (pieces turns (lsTail s)). length p \<le> wlBlockSize l;
      loop_run B l turns s w = Some (s', w')\<rbrakk> \<Longrightarrow>
    \<exists>lws'. whole (wlBlob l) lws' (ps @ pieces turns (lsTail s)) (lsChunk s') (lsIndex s') w'"
proof (induction turns arbitrary: lws ps s w)
  case Nil
  then show ?case by auto
next
  case (Cons t turns)
  obtain ev clk where t: "t = (ev, clk)" by (cases t)
  obtain res s1 w1 where turn: "loop_turn B l ev clk s w = Some (res, s1, w1)" and run: "loop_run B l turns s1 w1 = Some (s', w')"
    using Cons.prems(2,4) t by (auto split: option.splits)
  have small: "\<forall>p\<in>set (turn_pieces ev s). length p \<le> wlBlockSize l"
    using Cons.prems(3) by (auto simp: t turn_pieces_def split: wake.splits option.splits if_splits)
  note w = whole_turn [OF v ns Cons.prems(1,2) small turn]
  show ?case
  proof (cases "lsOpen s1")
    case False
    then have "s' = s1 \<and> w' = w1" using run by (cases turns) auto
    moreover have "pieces (t # turns) (lsTail s) = turn_pieces ev s"
      using False w(2) by (auto simp: t turn_pieces_def split: wake.splits option.splits)
    ultimately show ?thesis using w(1) by simp
  next
    case True
    have p: "pieces (t # turns) (lsTail s) = turn_pieces ev s @ pieces turns (lsTail s1)"
      using True w(2,3) by (auto simp: t turn_pieces_def split: wake.splits option.splits)
    have small': "\<forall>p\<in>set (pieces turns (lsTail s1)). length p \<le> wlBlockSize l" using Cons.prems(3) p by simp
    obtain lws1 where "whole (wlBlob l) lws1 (ps @ turn_pieces ev s) (lsChunk s1) (lsIndex s1) w1" using w(1) by blast
    from Cons.IH [OF this True small' run] show ?thesis by (simp add: p)
  qed
qed

end

text \<open>With \<open>NoSplitWrite\<close>, on the store in files: if no write and no tail is longer than a block, then after any run of the loop, with any timing and whatever calls fail, every stored chunk is a sequence of whole writes, the waiting data is one too, and together they are all the writes in order.\<close>

theorem nosplit_keeps_writes_whole:
  assumes "rootDir \<noteq> []" and "gz_ok gzip gunzip" and "disk_ok gunzip rootDir fs" and "disk_name b"
    and "stored (disk_view gunzip rootDir) fs b []" and "chunk_Writer c b co now fs = (l, y)" and "wlNoSplit l"
    and "\<forall>p\<in>set (pieces turns []). length p \<le> wlBlockSize l"
    and "loop_run (DiskBlobStore gzip gunzip rootDir) l turns (syLoop y) fs = Some (s', fs')"
    and "disk_view gunzip rootDir fs' (ChunkName b 65535) = None"
  shows "\<exists>rss pend. stored (disk_view gunzip rootDir) fs' b (map concat rss) \<and> lsChunk s' = concat pend \<and>
    concat rss @ pend = pieces turns []"
proof -
  note bk = files_backend [OF assms(1,2)]
  have l: "wlBlob l = b" "lsOpen (syLoop y)" "lsTail (syLoop y) = []" "lsChunk (syLoop y) = []" "lsIndex (syLoop y) = 0"
    using assms(6) by (auto simp: chunk_Writer_def)
  have v: "\<And>i. disk_name (ChunkName (wlBlob l) i)" using disk_name_chunk [OF assms(4)] l(1) by simp
  have w: "blob_backend.whole (disk_ok gunzip rootDir) (disk_view gunzip rootDir) (wlBlob l) 0 [] (lsChunk (syLoop y)) (lsIndex (syLoop y)) fs"
    using assms(3,5) l by (auto simp: blob_backend.whole_def [OF bk] intro!: exI [of _ "[]"])
  obtain lws' where "blob_backend.whole (disk_ok gunzip rootDir) (disk_view gunzip rootDir) b lws' (pieces turns []) (lsChunk s') (lsIndex s') fs'"
    using blob_backend.whole_run [OF bk v assms(7) w l(2) _ assms(9)] assms(8) l(1,3) by auto
  then show ?thesis using assms(10) by (auto simp: blob_backend.whole_def [OF bk])
qed

theorem nosplit_keeps_writes_whole_witness:
  "\<exists>s' fs' rss pend.
    loop_run (DiskBlobStore Inr GzData ''root'')
      (fst (chunk_Writer (Chunkstore_New 4) ''b'' (Some \<lparr>woBlockSize = 0, woTimeout = 0, woNoSplit = True\<rparr>) 0 emptyfs))
      [(Received (Some \<lparr>wrChunk = Some [1, 2], wrTail = None, wrClose = False\<rparr>), (1, 1, 1)), (FlushTimer, (2, 2, 2)),
       (Received (Some \<lparr>wrChunk = Some [3], wrTail = None, wrClose = False\<rparr>), (3, 3, 3))]
      \<lparr>lsFlushTime = year, lsOpen = True, lsChunk = [], lsTail = [], lsIndex = 0\<rparr> emptyfs = Some (s', fs') \<and>
    stored (disk_view GzData ''root'') fs' ''b'' (map concat rss) \<and> lsChunk s' = concat pend \<and> concat rss @ pend = [[1, 2], [3]]"
proof -
  let ?c = "chunk_Writer (Chunkstore_New 4) ''b'' (Some \<lparr>woBlockSize = 0, woTimeout = 0, woNoSplit = True\<rparr>) 0 emptyfs"
  let ?turns = "[(Received (Some \<lparr>wrChunk = Some [1, 2], wrTail = None, wrClose = False\<rparr>), (1, 1, 1)), (FlushTimer, (2, 2, 2)),
       (Received (Some \<lparr>wrChunk = Some [3], wrTail = None, wrClose = False\<rparr>), (3, 3, 3))]"
  have n: "disk_name ''b''" by code_simp
  have d: "disk_ok GzData ''root'' emptyfs" "stored (disk_view GzData ''root'') emptyfs ''b'' []" "gz_ok Inr GzData"
    by (auto simp: emptyfs_def disk_ok_def stored_def disk_view_def gz_ok_def)
  have s: "syLoop (snd ?c) = \<lparr>lsFlushTime = year, lsOpen = True, lsChunk = [], lsTail = [], lsIndex = 0\<rparr>"
    by (simp add: chunk_Writer_def)
  have run: "\<exists>s' fs'. loop_run (DiskBlobStore Inr GzData ''root'') (fst ?c) ?turns (syLoop (snd ?c)) emptyfs = Some (s', fs') \<and>
      disk_view GzData ''root'' fs' (ChunkName ''b'' 65535) = None"
    by (simp add: demo_simps)
  show ?thesis
    using run nosplit_keeps_writes_whole [OF _ d(3,1) n d(2) surjective_pairing, where turns = ?turns and co = "Some \<lparr>woBlockSize = 0, woTimeout = 0, woNoSplit = True\<rparr>" and c = "Chunkstore_New 4" and now = 0]
    unfolding s
    by (auto simp: chunk_Writer_def Chunkstore_New_def chunk_of_def tail_of_def)
qed

end
