(* ===== verification/EventLog.thy ===== *)
theory EventLog
  imports ChunkWriterProofs TermWriter GoSlice
begin

text \<open>
  \<^verbatim>\<open>server/eventlog/eventlog.go\<close>, with \<^verbatim>\<open>server/util/keyval\<close> and \<^verbatim>\<open>server/backends/memory_kvstore\<close>: the log of an invocation. Its
  output passes through the terminal of \<^verbatim>\<open>TermWriter\<close>, which keeps the lines that cursor movements may still change; lines that
  leave the screen are written to chunks without splitting, the screen itself is the volatile tail. The chunk that is not stored yet is
  published in a key-value store. A reader asks for pages of chunks, forwards from a chunk or backwards from the end.

  A result \<open>None\<close> is a call that never returns.
\<close>

section \<open>Names\<close>

definition EmptyId :: string where "EmptyId = ChunkIndexAsStringId EmptyIndex"

definition GetEventLogPathFromInvocationIdAndAttempt :: "string \<Rightarrow> u64 \<Rightarrow> string" where
  "GetEventLogPathFromInvocationIdAndAttempt invocationId attempt =
     (if attempt = 0 then invocationId @ ''/chunks/log/eventlog''
      else invocationId @ ''/'' @ show_nat (unat attempt) @ ''/chunks/log/eventlog'')"

section \<open>The key-value store\<close>

record LiveEventLogChunk =
  lvChunkId :: string
  lvBuffer :: bytes

text \<open>
  The store, on a world \<open>k\<close>; a value \<open>None\<close> removes the key. The codec of messages is generated code: \<open>marshal\<close> and \<open>unmarshal\<close> are parameters.
\<close>

record 'k kvstore =
  kv_Get :: "string \<Rightarrow> 'k \<Rightarrow> error + bytes"
  kv_Set :: "string \<Rightarrow> bytes option \<Rightarrow> 'k \<Rightarrow> error option \<times> 'k"

definition GetProto :: "(bytes \<Rightarrow> error + 'm) \<Rightarrow> 'k kvstore \<Rightarrow> string \<Rightarrow> 'k \<Rightarrow> error + 'm" where
  "GetProto unmarshal kv key k = (case kv_Get kv key k of Inl err \<Rightarrow> Inl err | Inr marshaled \<Rightarrow> unmarshal marshaled)"

definition SetProto :: "('m \<Rightarrow> error + bytes) \<Rightarrow> 'k kvstore \<Rightarrow> string \<Rightarrow> 'm option \<Rightarrow> 'k \<Rightarrow> error option \<times> 'k" where
  "SetProto marshal kv key msg k =
     (case msg of
        None \<Rightarrow> kv_Set kv key None k
      | Some m \<Rightarrow>
          (case marshal m of
             Inl err \<Rightarrow> (Some err, k)
           | Inr marshaled \<Rightarrow> (None, snd (kv_Set kv key (Some marshaled) k))))"

text \<open>The store in memory: the entries of an LRU cache of 5000, the most recently used first.\<close>

definition maxNumEntries :: nat where "maxNumEntries = 5000"

definition mem_Set :: "string \<Rightarrow> bytes option \<Rightarrow> (string \<times> bytes) list \<Rightarrow> error option \<times> (string \<times> bytes) list" where
  "mem_Set key val l =
     (None,
      case val of
        Some v \<Rightarrow> take maxNumEntries ((key, v) # filter (\<lambda>e. fst e \<noteq> key) l)
      | None \<Rightarrow> filter (\<lambda>e. fst e \<noteq> key) l)"

definition mem_Get :: "string \<Rightarrow> (string \<times> bytes) list \<Rightarrow> (error + bytes) \<times> (string \<times> bytes) list" where
  "mem_Get key l =
     (case map_of l key of
        Some v \<Rightarrow> (Inr v, (key, v) # filter (\<lambda>e. fst e \<noteq> key) l)
      | None \<Rightarrow> (Inl (NotFoundError (''No message found in the KeyValStore for key '' @ key @ ''.'')), l))"

section \<open>Reading pages\<close>

text \<open>
  The lines a \<^verbatim>\<open>bufio.Scanner\<close> finds: it stops for good at a line of 64 KiB or more.
\<close>

function scan_lines :: "bytes \<Rightarrow> nat" where
  "scan_lines buf =
     (if buf = [] then 0
      else
        let line = takeWhile (\<lambda>c. c \<noteq> 10) buf in
        if length line \<ge> 65536 then 0 else Suc (scan_lines (drop (Suc (length line)) buf)))"
  by pat_completeness auto
termination
  by (relation "measure length") (simp_all add: neq_Nil_conv)

declare scan_lines.simps [simp del]

text \<open>
  The queue of reads that run ahead. A future is what its read will yield; they are started in the order of the chunks, sixteen at
  a time, and those past the boundary are never looked at.
\<close>

record chunkQueue =
  cqPath :: string
  cqStart :: u16
  cqStep :: u16
  cqBoundary :: u16
  cqFutures :: "(bytes \<times> error option) list"
  cqPopped :: nat
  cqDone :: bool

definition numReadWorkers :: nat where "numReadWorkers = 16"

definition newChunkQueue :: "string \<Rightarrow> u16 \<Rightarrow> u16 \<Rightarrow> u16 \<Rightarrow> chunkQueue" where
  "newChunkQueue path start step boundary =
     \<lparr>cqPath = path, cqStart = start, cqStep = step, cqBoundary = boundary, cqFutures = [], cqPopped = 0, cqDone = False\<rparr>"

definition EOF :: error where "EOF = Err Unknown ''EOF''"

definition pushNewFuture :: "'w blobstore \<Rightarrow> 'w \<Rightarrow> u16 \<Rightarrow> chunkQueue \<Rightarrow> chunkQueue" where
  "pushNewFuture B w index q =
     q\<lparr>cqFutures := cqFutures q @
        [if index = cqBoundary q + cqStep q then ([], Some EOF) else ReadChunk B (cqPath q) index w]\<rparr>"

fun push_futures :: "'w blobstore \<Rightarrow> 'w \<Rightarrow> nat \<Rightarrow> chunkQueue \<Rightarrow> chunkQueue" where
  "push_futures B w 0 q = q"
| "push_futures B w (Suc n) q =
     push_futures B w n (pushNewFuture B w (cqStart q + of_nat (length (cqFutures q)) * cqStep q) q)"

definition queue_pop :: "'w blobstore \<Rightarrow> 'w \<Rightarrow> chunkQueue \<Rightarrow> (error + bytes) \<times> chunkQueue" where
  "queue_pop B w q =
     (if cqDone q then (Inl (ResourceExhaustedError ''Queue has been exhausted.''), q)
      else
        let q1 = push_futures B w (numReadWorkers - (length (cqFutures q) - cqPopped q)) q in
        case cqFutures q1 ! cqPopped q1 of
          (data, None) \<Rightarrow> (Inr data, q1\<lparr>cqPopped := cqPopped q1 + 1\<rparr>)
        | (data, Some err) \<Rightarrow> (Inl err, q1\<lparr>cqPopped := cqPopped q1 + 1, cqDone := True\<rparr>))"

record GetEventLogChunkRequest =
  eqInvocationId :: string
  eqChunkId :: string
  eqMinLines :: int

record GetEventLogChunkResponse =
  erBuffer :: bytes
  erNextChunkId :: string
  erPreviousChunkId :: string
  erLive :: bool

definition empty_response :: GetEventLogChunkResponse where
  "empty_response = \<lparr>erBuffer = [], erNextChunkId = [], erPreviousChunkId = [], erLive = False\<rparr>"

partial_function (option) page_loop ::
  "'w blobstore \<Rightarrow> 'w \<Rightarrow> int \<Rightarrow> u16 \<Rightarrow> nat \<Rightarrow> chunkQueue \<Rightarrow> GetEventLogChunkResponse \<Rightarrow> (error + GetEventLogChunkResponse) option" where
  "page_loop B w minLines chunkIndex lineCount q rsp =
     (if chunkIndex = cqBoundary q + cqStep q then Some (Inr rsp)
      else
        case queue_pop B w q of
          (Inl err, q') \<Rightarrow> Some (Inl err)
        | (Inr buffer, q') \<Rightarrow>
            (let lineCount' = lineCount + scan_lines buffer;
                 nextId = ChunkIndexAsStringId (chunkIndex + cqStep q);
                 rsp' =
                   (if cqStep q = 1 then rsp\<lparr>erBuffer := erBuffer rsp @ buffer, erNextChunkId := nextId\<rparr>
                    else rsp\<lparr>erBuffer := buffer @ erBuffer rsp, erPreviousChunkId := nextId\<rparr>) in
             if int lineCount' \<ge> minLines then Some (Inr rsp')
             else page_loop B w minLines (chunkIndex + cqStep q) lineCount' q' rsp'))"

declare page_loop.simps [code]

text \<open>The row of an invocation, as far as it is read here.\<close>

record log_invocation =
  liLastChunkId :: string
  liInProgress :: bool
  liAttempt :: u64

text \<open>A live chunk, when the invocation is in progress and the chunk with that number is asked for.\<close>

definition live_response :: "(error + LiveEventLogChunk) \<Rightarrow> string \<Rightarrow> (error + GetEventLogChunkResponse) option" where
  "live_response live ident =
     (case live of
        Inr liveChunk \<Rightarrow>
          if ident = lvChunkId liveChunk
          then Some (Inr \<lparr>erBuffer = lvBuffer liveChunk, erNextChunkId = lvChunkId liveChunk, erPreviousChunkId = [], erLive = True\<rparr>)
          else None
      | Inl err \<Rightarrow> if IsNotFoundError (Some err) then None else Some (Inl err))"

definition GetEventLogChunk ::
  "'w blobstore \<Rightarrow> (string \<Rightarrow> error + LiveEventLogChunk) \<Rightarrow> error + log_invocation \<Rightarrow> GetEventLogChunkRequest \<Rightarrow> 'w
    \<Rightarrow> (error + GetEventLogChunkResponse) option" where
  "GetEventLogChunk B getLive lookup req w =
     (case lookup of
        Inl err \<Rightarrow> Some (Inl err)
      | Inr row \<Rightarrow>
     if liLastChunkId row = [] then Some (Inr empty_response)
     else
       let path = GetEventLogPathFromInvocationIdAndAttempt (eqInvocationId req) (liAttempt row) in
       case GetLastChunkId B path (liLastChunkId row) w of
         (_, Some err) \<Rightarrow>
           if liLastChunkId row \<noteq> ChunkIndexAsStringId 65535 then Some (Inl err)
           else if liInProgress row then
             (case live_response (getLive path) (eqChunkId req) of
                Some r \<Rightarrow> Some r
              | None \<Rightarrow> Some (Inr (empty_response\<lparr>erNextChunkId := ChunkIndexAsStringId 0\<rparr>)))
           else Some (Inr empty_response)
       | (lastChunkId, None) \<Rightarrow>
     (case ChunkIdAsUint16Index lastChunkId of
        Inl err \<Rightarrow> Some (Inl err)
      | Inr lastChunkIndex \<Rightarrow>
     (case (if eqChunkId req = [] then Inr lastChunkIndex else ChunkIdAsUint16Index (eqChunkId req)) of
        Inl err \<Rightarrow> Some (Inl err)
      | Inr startIndex \<Rightarrow>
     if eqChunkId req \<noteq> [] \<and> startIndex = 65535 then Some (Inl (ResourceExhaustedError ''Log index limit exceeded.''))
     else if eqChunkId req \<noteq> [] \<and> startIndex > lastChunkIndex then
       (case (if liInProgress row then live_response (getLive path) (ChunkIndexAsStringId startIndex) else None) of
          Some r \<Rightarrow> Some r
        | None \<Rightarrow>
            Some (Inr (empty_response
              \<lparr>erPreviousChunkId := ChunkIndexAsStringId lastChunkIndex,
               erNextChunkId := (if liInProgress row then ChunkIndexAsStringId (lastChunkIndex + 1) else [])\<rparr>)))
     else
       let rsp = empty_response
             \<lparr>erNextChunkId := ChunkIndexAsStringId (startIndex + 1), erPreviousChunkId := ChunkIndexAsStringId (startIndex - 1)\<rparr>;
           (step, boundary) = (if eqChunkId req = [] then (65535, 0) else (1, lastChunkIndex)) in
       (case page_loop B w (eqMinLines req) startIndex 0 (newChunkQueue path startIndex step boundary) rsp of
          None \<Rightarrow> None
        | Some (Inl err) \<Rightarrow> Some (Inl err)
        | Some (Inr rsp') \<Rightarrow>
            Some (Inr (if erPreviousChunkId rsp' = ChunkIndexAsStringId 65535 then rsp'\<lparr>erPreviousChunkId := []\<rparr> else rsp'))))))"

section \<open>Writing\<close>

text \<open>\<open>NewEventLogWriter\<close>'s options, and the writer behind the terminal.\<close>

definition event_log_chunkstore :: Chunkstore where
  "event_log_chunkstore = Chunkstore_New 2000000"

definition event_log_options :: ChunkstoreWriterOptions where
  "event_log_options = \<lparr>woBlockSize = 0, woTimeout = 15 * 1000000000, woNoSplit = True\<rparr>"

definition to_bytes :: "string \<Rightarrow> bytes" where
  "to_bytes s = map of_char s"

record 'w ansi_writer =
  awScreen :: parser
  awRetain :: int
  awLoop :: writeLoop
  awSys :: "'w wsys"

definition NewEventLogWriter :: "string \<Rightarrow> int \<Rightarrow> int \<Rightarrow> 'w \<Rightarrow> 'w ansi_writer" where
  "NewEventLogWriter eventLogPath numLinesToRetain now w =
     (case chunk_Writer event_log_chunkstore eventLogPath (Some event_log_options) now w of
        (l, sy) \<Rightarrow> \<lparr>awScreen = NewScreenWriter, awRetain = numLinesToRetain, awLoop = l, awSys = sy\<rparr>)"

text \<open>
  \<open>ANSICursorBufferWriter.Write\<close>: what it passes to the chunk writer, and the whole call. A \<open>p\<close> of \<^verbatim>\<open>nil\<close> is handed on and flushes the
  chunk writer; \<^verbatim>\<open>[]byte("")\<close> is empty but not \<^verbatim>\<open>nil\<close>, and is a write of nothing that leaves the tail.
\<close>

definition ansi_lines :: "parser_env \<Rightarrow> int \<Rightarrow> parser \<Rightarrow> string \<Rightarrow> string \<times> string \<times> parser" where
  "ansi_lines env retain sw p =
     (let sw1 = fst (ScreenWriter_Write env sw p);
          (popped, sw2) = PopExtraLinesAsANSI sw1 retain in
      (if popped \<noteq> [] then popped @ [CHR 0x0A] else popped, RenderAsANSI sw2, sw2))"

definition ansi_Write ::
  "'w blobstore \<Rightarrow> parser_env \<Rightarrow> string option \<Rightarrow> loop_event list \<Rightarrow> 'w ansi_writer \<Rightarrow> ((nat \<times> error option) \<times> 'w ansi_writer) option" where
  "ansi_Write B env p evs a =
     (if p = None \<or> p = Some [] then
        map_option (\<lambda>(r, sy). (r, a\<lparr>awSys := sy\<rparr>)) (WriteWithTail B (awLoop a) (if p = None then None else Some []) None evs (awSys a))
      else
        case ansi_lines env (awRetain a) (awScreen a) (the p) of
          (popped, tail, sw) \<Rightarrow>
            map_option (\<lambda>(r, sy). (r, a\<lparr>awSys := sy, awScreen := sw\<rparr>))
              (WriteWithTail B (awLoop a) (Some (to_bytes popped)) (Some (to_bytes tail)) evs (awSys a)))"

definition ansi_Close ::
  "'w blobstore \<Rightarrow> loop_event list \<Rightarrow> 'w ansi_writer \<Rightarrow> (error option \<times> 'w ansi_writer) option" where
  "ansi_Close B evs a = map_option (\<lambda>(err, sy). (err, a\<lparr>awSys := sy\<rparr>)) (chunk_Close B (awLoop a) evs (awSys a))"

definition EventLogWriter_GetLastChunkId ::
  "'w blobstore \<Rightarrow> loop_event list \<Rightarrow> 'w ansi_writer \<Rightarrow> (string \<times> 'w ansi_writer) option" where
  "EventLogWriter_GetLastChunkId B evs a =
     map_option (\<lambda>(i, sy). (ChunkIndexAsStringId i, a\<lparr>awSys := sy\<rparr>)) (GetLastChunkIndex B (awLoop a) evs (awSys a))"

text \<open>
  The hook that publishes the live chunk. The loop's \<open>chunk\<close> is a slice: \<^verbatim>\<open>append(chunk, volatileTail...)\<close> writes into its array when
  there is room, and the buffer of the chunk published last, \<open>elLast\<close>, may be a slice of the same array. The state holds the number of the
  array that slice is of, and its bytes when it is of another one; \<open>arr\<close> is the number of the loop's array, counted from where the loop's
  slice starts, and \<open>fresh\<close> an unused one. (When the loop moves on in its array, the number of the chunk changes too.)
\<close>

record live_state =
  elLast :: "(string \<times> nat \<times> bytes) option"

definition last_buffer :: "nat \<Rightarrow> bytes \<Rightarrow> string \<times> nat \<times> bytes \<Rightarrow> bytes" where
  "last_buffer arr mem lst = (case lst of (_, a, buf) \<Rightarrow> if a = arr then take (length buf) mem else buf)"

definition writeChunkToKeyValStore ::
  "(LiveEventLogChunk \<Rightarrow> error + bytes) \<Rightarrow> 'k kvstore \<Rightarrow> string \<Rightarrow> write_result \<Rightarrow> nat \<Rightarrow> nat \<Rightarrow> byte slice \<Rightarrow> bytes
    \<Rightarrow> live_state \<times> 'k \<Rightarrow> (live_state \<times> 'k) \<times> byte slice" where
  "writeChunkToKeyValStore marshal kv path res arr fresh chunk volatileTail sk =
     (case sk of (s, k) \<Rightarrow>
      let chunkId = ChunkIndexAsStringId (resLastChunkIndex res + 1) in
      if resClose res \<or> chunkId = ChunkIndexAsStringId 65535
      then ((s, snd (SetProto marshal kv path None k)), chunk)
      else
        let buf = slice_append chunk volatileTail;
            inPlace = (slen chunk + length volatileTail \<le> length (backing chunk));
            chunk' = (if inPlace then chunk\<lparr>backing := backing buf\<rparr> else chunk);
            unchanged =
              (case elLast s of
                 None \<Rightarrow> False
               | Some lst \<Rightarrow> fst lst = chunkId \<and> last_buffer arr (backing chunk') lst = elems buf) in
        if unchanged then ((s, k), chunk')
        else
          ((s\<lparr>elLast := Some (chunkId, if inPlace then arr else fresh, elems buf)\<rparr>,
            snd (SetProto marshal kv path (Some \<lparr>lvChunkId = chunkId, lvBuffer = elems buf\<rparr>) k)), chunk'))"

end
