(* ===== verification/EventLogProofs.thy ===== *)
theory EventLogProofs
  imports EventLog
begin

text \<open>
  What readers and writers of an event log get: pages are the chunks in order, as many as the lines asked for need; a write
  to the terminal passes on the lines that left the screen and the screen itself, except for a blank line; and the live chunk is the data
  that waits, unless the array of the chunk published before is used again.
\<close>

section \<open>The queue\<close>

definition future :: "'w blobstore \<Rightarrow> 'w \<Rightarrow> chunkQueue \<Rightarrow> nat \<Rightarrow> bytes \<times> error option" where
  "future B w q i =
     (let index = cqStart q + of_nat i * cqStep q in
      if index = cqBoundary q + cqStep q then ([], Some EOF) else ReadChunk B (cqPath q) index w)"

definition queue_ok :: "'w blobstore \<Rightarrow> 'w \<Rightarrow> chunkQueue \<Rightarrow> bool" where
  "queue_ok B w q \<longleftrightarrow> cqFutures q = map (future B w q) [0..<length (cqFutures q)] \<and> cqPopped q \<le> length (cqFutures q) \<and> \<not> cqDone q"

lemma future_more [simp]: "future B w (q\<lparr>cqFutures := fs\<rparr>) = future B w q" "future B w (q\<lparr>cqPopped := n\<rparr>) = future B w q"
  by (simp_all add: future_def fun_eq_iff Let_def)

lemma future_at:
  "cqStart q + of_nat p * cqStep q = idx \<Longrightarrow> idx \<noteq> cqBoundary q + cqStep q \<Longrightarrow> future B w q p = ReadChunk B (cqPath q) idx w"
  by (simp add: future_def Let_def)

lemma push_futures_eq:
  "push_futures B w n q = q\<lparr>cqFutures := cqFutures q @ map (future B w q) [length (cqFutures q)..<length (cqFutures q) + n]\<rparr>"
proof (induction n arbitrary: q)
  case (Suc n)
  define q1 where "q1 = pushNewFuture B w (cqStart q + of_nat (length (cqFutures q)) * cqStep q) q"
  have q1: "q1 = q\<lparr>cqFutures := cqFutures q @ [future B w q (length (cqFutures q))]\<rparr>"
    by (simp add: q1_def pushNewFuture_def future_def Let_def)
  have "[length (cqFutures q)..<length (cqFutures q) + Suc n] = length (cqFutures q) # [Suc (length (cqFutures q))..<length (cqFutures q) + Suc n]"
    by (simp add: upt_rec)
  then show ?case using Suc [of q1] by (simp add: q1_def [symmetric] q1)
qed simp

lemma queue_pop_ok:
  assumes "queue_ok B w q" and "future B w q (cqPopped q) = (data, None)"
  shows "\<exists>q'. queue_pop B w q = (Inr data, q') \<and> queue_ok B w q' \<and> cqPopped q' = Suc (cqPopped q) \<and>
    cqStart q' = cqStart q \<and> cqStep q' = cqStep q \<and> cqBoundary q' = cqBoundary q \<and> cqPath q' = cqPath q"
proof -
  define m where "m = length (cqFutures q) + (numReadWorkers - (length (cqFutures q) - cqPopped q))"
  define q1 where "q1 = q\<lparr>cqFutures := map (future B w q) [0..<m]\<rparr>"
  have fs: "cqFutures q = map (future B w q) [0..<length (cqFutures q)]" and p: "cqPopped q \<le> length (cqFutures q)" "\<not> cqDone q"
    using assms(1) by (simp_all add: queue_ok_def)
  have "cqFutures q @ map (future B w q) [length (cqFutures q)..<m] = map (future B w q) [0..<m]"
    by (subst fs) (simp add: m_def flip: map_append upt_add_eq_append)
  then have push: "push_futures B w (numReadWorkers - (length (cqFutures q) - cqPopped q)) q = q1"
    by (simp add: push_futures_eq q1_def m_def)
  have m: "cqPopped q < m" using p by (simp add: m_def numReadWorkers_def)
  then have "cqFutures q1 ! cqPopped q = (data, None)" using assms(2) by (simp add: q1_def)
  then have "queue_pop B w q = (Inr data, q1\<lparr>cqPopped := Suc (cqPopped q)\<rparr>)"
    using p unfolding queue_pop_def push Let_def by (simp add: q1_def)
  moreover have "queue_ok B w (q1\<lparr>cqPopped := Suc (cqPopped q)\<rparr>)" using m p by (simp add: queue_ok_def q1_def)
  ultimately show ?thesis by (simp add: q1_def)
qed

section \<open>Pages\<close>

text \<open>How many chunks a page takes: at least one, then until there are enough lines or no more chunks.\<close>

fun page_len :: "int \<Rightarrow> nat \<Rightarrow> bytes list \<Rightarrow> nat" where
  "page_len minLines n [] = 0"
| "page_len minLines n (c # cs) = (if int (n + scan_lines c) \<ge> minLines then 1 else Suc (page_len minLines (n + scan_lines c) cs))"

lemma page_len_le: "page_len ml n cs \<le> length cs"
  by (induction cs arbitrary: n) auto

lemma page_len_pos: "cs \<noteq> [] \<Longrightarrow> 0 < page_len ml n cs"
  by (cases cs) auto

lemma u16_wrap: "(xx :: u16) + xx * 65535 = 0"
proof -
  have "xx + xx * 65535 = xx * (1 + 65535)" by (simp only: distrib_left mult_1_right)
  moreover have "(1 + 65535 :: u16) = 0" by simp
  ultimately show ?thesis by (simp only: mult_zero_right)
qed

context blob_backend
begin

lemma page_forward:
  assumes w: "inv w" "\<And>i. valid (ChunkName b i)" "stored view w b cs"
    and q0: "cqPath q0 = b" "cqStep q0 = 1" "cqStart q0 = of_nat i" "cqBoundary q0 = of_nat (length cs - 1)"
  shows "\<lbrakk>j < length cs; i + cqPopped q = j; queue_ok B w q;
      cqPath q = cqPath q0; cqStep q = cqStep q0; cqStart q = cqStart q0; cqBoundary q = cqBoundary q0\<rbrakk> \<Longrightarrow>
    page_loop B w ml (of_nat j) lc q rsp = Some (Inr (rsp\<lparr>
      erBuffer := erBuffer rsp @ concat (take (page_len ml lc (drop j cs)) (drop j cs)),
      erNextChunkId := ChunkIndexAsStringId (of_nat (j + page_len ml lc (drop j cs)))\<rparr>))"
proof (induction "length cs - j" arbitrary: j lc q rsp)
  case 0
  then show ?case by simp
next
  case (Suc m)
  have len: "length cs \<le> 65535" using w(3) by (simp add: stored_def)
  have d: "drop j cs = cs ! j # drop (Suc j) cs" using Suc.prems(1) by (simp add: Cons_nth_drop_Suc)
  have end_index: "(cqBoundary q + cqStep q :: u16) = of_nat (length cs)"
  proof -
    have "(of_nat (length cs - 1) :: u16) + 1 = of_nat (Suc (length cs - 1))" by simp
    then show ?thesis using Suc.prems q0 by simp
  qed
  have ne: "(of_nat j :: u16) \<noteq> of_nat (length cs)"
  proof
    assume "(of_nat j :: u16) = of_nat (length cs)"
    then have "unat (of_nat j :: u16) = unat (of_nat (length cs) :: u16)" by simp
    then show False using Suc.prems(1) len by (simp add: unat_u16)
  qed
  have "j = i + cqPopped q" using Suc.prems(2) by simp
  then have idx: "cqStart q + of_nat (cqPopped q) * cqStep q = of_nat j" using Suc.prems(4-7) q0 by (simp only: of_nat_add mult_1_right)
  have "unat (of_nat j :: u16) = j" using Suc.prems(1) len by (simp add: unat_u16)
  then have "future B w q (cqPopped q) = (cs ! j, None)"
    using chunk_data [OF w, of "of_nat j"] Suc.prems(1,4) ne end_index q0(1) future_at [OF idx, of B w] by simp
  then obtain q' where q': "queue_pop B w q = (Inr (cs ! j), q')" "queue_ok B w q'" "cqPopped q' = Suc (cqPopped q)"
      "cqStart q' = cqStart q" "cqStep q' = cqStep q" "cqBoundary q' = cqBoundary q" "cqPath q' = cqPath q"
    using queue_pop_ok [OF Suc.prems(3)] by blast
  have step: "cqStep q = 1" using Suc.prems q0 by simp
  define rsp' where "rsp' = rsp\<lparr>erBuffer := erBuffer rsp @ cs ! j, erNextChunkId := ChunkIndexAsStringId (of_nat (Suc j))\<rparr>"
  have unf: "page_loop B w ml (of_nat j) lc q rsp =
      (if int (lc + scan_lines (cs ! j)) \<ge> ml then Some (Inr rsp') else page_loop B w ml (of_nat (Suc j)) (lc + scan_lines (cs ! j)) q' rsp')"
    using ne end_index q'(1) step by (subst page_loop.simps) (simp add: rsp'_def add.commute)
  show ?case
  proof (cases "int (lc + scan_lines (cs ! j)) \<ge> ml")
    case True
    then show ?thesis by (simp add: unf d rsp'_def)
  next
    case False
    show ?thesis
    proof (cases "Suc j < length cs")
      case True
      have "m = length cs - Suc j" "i + cqPopped q' = Suc j" using Suc.hyps(2) Suc.prems(2) q'(3) by simp_all
      from Suc.hyps(1) [OF this(1) True this(2) q'(2)] show ?thesis
        using False Suc.prems(4-7) q'(4-7) by (simp add: unf d rsp'_def)
    next
      case False
      then have e: "Suc j = length cs" using Suc.prems(1) by simp
      have "page_loop B w ml (of_nat (Suc j)) (lc + scan_lines (cs ! j)) q' rsp' = Some (Inr rsp')"
        using end_index q'(5,6) by (subst page_loop.simps) (simp add: e del: of_nat_Suc)
      then show ?thesis using \<open>\<not> int (lc + scan_lines (cs ! j)) \<ge> ml\<close> e by (simp add: unf d rsp'_def)
    qed
  qed
qed

lemma page_backward:
  assumes w: "inv w" "\<And>i. valid (ChunkName b i)" "stored view w b cs"
    and q0: "cqPath q0 = b" "cqStep q0 = 65535" "cqStart q0 = of_nat (length cs - 1)" "cqBoundary q0 = 0"
  shows "\<lbrakk>j < length cs; j + cqPopped q = length cs - 1; queue_ok B w q;
      cqPath q = cqPath q0; cqStep q = cqStep q0; cqStart q = cqStart q0; cqBoundary q = cqBoundary q0\<rbrakk> \<Longrightarrow>
    page_loop B w ml (of_nat j) lc q rsp = Some (Inr (rsp\<lparr>
      erBuffer := concat (drop (Suc j - page_len ml lc (rev (take (Suc j) cs))) (take (Suc j) cs)) @ erBuffer rsp,
      erPreviousChunkId := ChunkIndexAsStringId (of_nat (Suc j - page_len ml lc (rev (take (Suc j) cs))) - 1)\<rparr>))"
proof (induction j arbitrary: lc q rsp)
  case 0
  have len: "length cs \<le> 65535" using w(3) by (simp add: stored_def)
  have t: "take (Suc 0) cs = [cs ! 0]" using "0.prems"(1) by (cases cs) auto
  have "(of_nat (length cs - 1) :: u16) + of_nat (length cs - 1) * 65535 = 0" by (rule u16_wrap)
  moreover have "cqPopped q = length cs - 1" "cqStart q = of_nat (length cs - 1)" "cqStep q = 65535" using "0.prems" q0 by simp_all
  ultimately have "cqStart q + of_nat (cqPopped q) * cqStep q = 0" by (simp only:)
  from future_at [OF this, of B w] have "future B w q (cqPopped q) = (cs ! 0, None)"
    using chunk_data [OF w, of 0] "0.prems"(1,4,5,7) q0 by simp
  then obtain q' where q': "queue_pop B w q = (Inr (cs ! 0), q')" "cqStep q' = cqStep q" "cqBoundary q' = cqBoundary q"
    using queue_pop_ok [OF "0.prems"(3)] by blast
  have st: "cqStep q = 65535" "cqBoundary q = 0" using "0.prems" q0 by simp_all
  define rsp' where "rsp' = rsp\<lparr>erBuffer := cs ! 0 @ erBuffer rsp, erPreviousChunkId := ChunkIndexAsStringId 65535\<rparr>"
  have "page_loop B w ml 0 lc q rsp = Some (Inr rsp')"
    using q' st by (subst page_loop.simps) (simp add: rsp'_def Let_def page_loop.simps [of B w ml 65535])
  then show ?case by (simp add: t rsp'_def minus_one_u16)
next
  case (Suc j)
  have len: "length cs \<le> 65535" using w(3) by (simp add: stored_def)
  have t: "take (Suc (Suc j)) cs = take (Suc j) cs @ [cs ! Suc j]" using Suc.prems(1) by (simp add: take_Suc_conv_app_nth)
  have pop: "cqPopped q = length cs - 1 - Suc j" and lt: "Suc j \<le> length cs - 1" using Suc.prems(1,2) by simp_all
  have idx: "cqStart q + of_nat (cqPopped q) * cqStep q = of_nat (Suc j)"
  proof -
    define xx :: u16 where "xx = of_nat (length cs - 1 - Suc j)"
    have "(of_nat (length cs - 1) :: u16) = xx + of_nat (Suc j)"
      using lt unfolding xx_def by (metis le_add_diff_inverse2 of_nat_add)
    then have a: "cqStart q = xx + of_nat (Suc j)" "cqStep q = 65535" "of_nat (cqPopped q) = xx"
      using Suc.prems(5,6) q0(2,3) pop by (simp_all only: xx_def)
    have "cqStart q + of_nat (cqPopped q) * cqStep q = (xx + of_nat (Suc j)) + xx * 65535" by (simp only: a)
    also have "\<dots> = (xx + xx * 65535) + of_nat (Suc j)" by (simp only: add.assoc add.commute add.left_commute)
    finally show ?thesis by (simp only: u16_wrap add_0_left)
  qed
  have u: "unat (of_nat (Suc j) :: u16) = Suc j" using Suc.prems(1) len by (intro unat_u16) simp
  have ne: "(of_nat (Suc j) :: u16) \<noteq> 65535"
  proof
    assume "(of_nat (Suc j) :: u16) = 65535"
    then have "unat (of_nat (Suc j) :: u16) = unat (65535 :: u16)" by (rule arg_cong)
    then show False using u Suc.prems(1) len by simp
  qed
  then have "future B w q (cqPopped q) = (cs ! Suc j, None)"
    using chunk_data [OF w, of "of_nat (Suc j)"] Suc.prems(1,4,5,7) q0 u future_at [OF idx, of B w] by (simp del: of_nat_Suc)
  then obtain q' where q': "queue_pop B w q = (Inr (cs ! Suc j), q')" "queue_ok B w q'" "cqPopped q' = Suc (cqPopped q)"
      "cqStart q' = cqStart q" "cqStep q' = cqStep q" "cqBoundary q' = cqBoundary q" "cqPath q' = cqPath q"
    using queue_pop_ok [OF Suc.prems(3)] by blast
  have st: "cqStep q = 65535" "cqBoundary q = 0" using Suc.prems q0 by simp_all
  have prev: "(of_nat (Suc j) :: u16) + 65535 = of_nat j" using minus_one_u16 by (metis add.commute u16_Suc uminus_add_conv_diff)
  define rsp' where "rsp' = rsp\<lparr>erBuffer := cs ! Suc j @ erBuffer rsp, erPreviousChunkId := ChunkIndexAsStringId (of_nat j)\<rparr>"
  have unf: "page_loop B w ml (of_nat (Suc j)) lc q rsp =
      (if int (lc + scan_lines (cs ! Suc j)) \<ge> ml then Some (Inr rsp') else page_loop B w ml (of_nat j) (lc + scan_lines (cs ! Suc j)) q' rsp')"
    using ne q'(1) st prev by (subst page_loop.simps) (simp add: rsp'_def del: of_nat_Suc)
  show ?case
  proof (cases "int (lc + scan_lines (cs ! Suc j)) \<ge> ml")
    case True
    then show ?thesis using Suc.prems(1) by (simp add: unf t rsp'_def del: of_nat_Suc) (simp add: drop_append)
  next
    case False
    have le: "page_len ml (lc + scan_lines (cs ! Suc j)) (rev (take (Suc j) cs)) \<le> Suc j"
      using page_len_le [of ml "lc + scan_lines (cs ! Suc j)" "rev (take (Suc j) cs)"] by simp
    have "j < length cs" "j + cqPopped q' = length cs - 1" using Suc.prems(1,2) q'(3) by simp_all
    from Suc.IH [OF this q'(2)] show ?thesis
      using False Suc.prems q'(4-7) le by (simp add: unf t rsp'_def del: of_nat_Suc)
  qed
qed

lemma newChunkQueue_ok [simp]: "queue_ok B w (newChunkQueue b start step boundary)"
  by (simp add: queue_ok_def newChunkQueue_def)

text \<open>A page forwards from a chunk that exists, and one backwards from the end.\<close>

lemma chunk_page:
  assumes w: "inv w" "\<And>i. valid (ChunkName (GetEventLogPathFromInvocationIdAndAttempt iid (liAttempt row)) i)"
      "stored view w (GetEventLogPathFromInvocationIdAndAttempt iid (liAttempt row)) cs"
    and row: "liLastChunkId row = ChunkIndexAsStringId s" "s = 65535 \<or> unat s < length cs" "cs \<noteq> []"
  shows "i < length cs \<Longrightarrow>
    GetEventLogChunk B getLive (Inr row) \<lparr>eqInvocationId = iid, eqChunkId = ChunkIndexAsStringId (of_nat i), eqMinLines = ml\<rparr> w =
      Some (Inr \<lparr>erBuffer = concat (take (page_len ml 0 (drop i cs)) (drop i cs)),
        erNextChunkId = ChunkIndexAsStringId (of_nat (i + page_len ml 0 (drop i cs))),
        erPreviousChunkId = (if i = 0 then [] else ChunkIndexAsStringId (of_nat (i - 1))), erLive = False\<rparr>)"
    and "GetEventLogChunk B getLive (Inr row) \<lparr>eqInvocationId = iid, eqChunkId = [], eqMinLines = ml\<rparr> w =
      (let k = length cs - page_len ml 0 (rev cs) in
      Some (Inr \<lparr>erBuffer = concat (drop k cs), erNextChunkId = ChunkIndexAsStringId (of_nat (length cs)),
        erPreviousChunkId = (if k = 0 then [] else ChunkIndexAsStringId (of_nat (k - 1))), erLive = False\<rparr>))"
proof -
  let ?b = "GetEventLogPathFromInvocationIdAndAttempt iid (liAttempt row)"
  have len: "length cs \<le> 65535" using w(3) by (simp add: stored_def)
  have id: "ChunkIndexAsStringId i \<noteq> []" for i by (simp add: ChunkIndexAsStringId_def Let_def)
  have last: "GetLastChunkId B ?b (liLastChunkId row) w = (ChunkIndexAsStringId (of_nat (length cs - 1)), None)"
  proof -
    have "unat (if s = 65535 then 0 else s) < length cs" using row(2,3) by auto
    moreover have "(of_nat (length cs) :: u16) - 1 = of_nat (length cs - 1)" using row(3) by (cases cs) auto
    ultimately show ?thesis
      using getLastChunkIndex_stored [OF w, of s] by (simp add: GetLastChunkId_def row(1) chunk_id_roundtrip del: of_nat_diff)
  qed
  have small: "(of_nat k :: u16) \<noteq> 65535" if "k < length cs" for k
  proof
    assume "(of_nat k :: u16) = 65535"
    then have "unat (of_nat k :: u16) = unat (65535 :: u16)" by (rule arg_cong)
    then show False using that len by (simp add: unat_u16)
  qed
  have suc_last: "(of_nat (length cs - 1) :: u16) + 1 = of_nat (length cs)" using row(3) by (cases cs) auto
  show "GetEventLogChunk B getLive (Inr row) \<lparr>eqInvocationId = iid, eqChunkId = ChunkIndexAsStringId (of_nat i), eqMinLines = ml\<rparr> w =
      Some (Inr \<lparr>erBuffer = concat (take (page_len ml 0 (drop i cs)) (drop i cs)),
        erNextChunkId = ChunkIndexAsStringId (of_nat (i + page_len ml 0 (drop i cs))),
        erPreviousChunkId = (if i = 0 then [] else ChunkIndexAsStringId (of_nat (i - 1))), erLive = False\<rparr>)"
    if i: "i < length cs"
  proof -
    have nle: "\<not> (of_nat i :: u16) > of_nat (length cs - 1)"
      using i len by (simp add: word_less_nat_alt unat_u16 del: of_nat_diff) 
    have prev: "i \<noteq> 0 \<Longrightarrow> (of_nat i :: u16) - 1 = of_nat (i - 1)" by (cases i) auto
    have prev': "i \<noteq> 0 \<Longrightarrow> (of_nat (i - 1) :: u16) \<noteq> 65535" using small [of "i - 1"] i by simp
    define ix pv lx :: u16 where "ix = of_nat i" and "pv = ix - 1" and "lx = of_nat (length cs - 1)"
    define q where "q = newChunkQueue ?b ix 1 lx"
    define m where "m = page_len ml 0 (drop i cs)"
    have pg: "page_loop B w ml ix 0 q rsp = Some (Inr (rsp\<lparr>
      erBuffer := erBuffer rsp @ concat (take m (drop i cs)), erNextChunkId := ChunkIndexAsStringId (of_nat (i + m))\<rparr>))" for rsp
      unfolding ix_def m_def
      by (rule page_forward [OF w, where i = i and ?q0.0 = q])
        (use i in \<open>simp_all add: q_def ix_def lx_def del: of_nat_diff, simp_all add: newChunkQueue_def\<close>)
    have nle': "\<not> lx < ix" "ix \<noteq> 65535" using nle small [OF i] by (simp_all only: lx_def ix_def not_False_eq_True)
    have "GetEventLogChunk B getLive (Inr row) \<lparr>eqInvocationId = iid, eqChunkId = ChunkIndexAsStringId ix, eqMinLines = ml\<rparr> w =
      Some (Inr \<lparr>erBuffer = concat (take m (drop i cs)),
        erNextChunkId = ChunkIndexAsStringId (of_nat (i + m)),
        erPreviousChunkId = (if pv = 65535 then [] else ChunkIndexAsStringId pv), erLive = False\<rparr>)"
      using last [folded lx_def] nle' pg id
      by (simp add: GetEventLogChunk_def row(1) chunk_id_roundtrip Let_def pv_def [symmetric] q_def [symmetric] empty_response_def
          del: of_nat_add)
    moreover have "pv = (if i = 0 then 65535 else of_nat (i - 1))"
      using prev minus_one_u16 by (simp add: pv_def ix_def del: of_nat_diff)
    ultimately show ?thesis using prev' by (simp add: ix_def m_def del: of_nat_diff of_nat_add)
  qed
  show "GetEventLogChunk B getLive (Inr row) \<lparr>eqInvocationId = iid, eqChunkId = [], eqMinLines = ml\<rparr> w =
      (let k = length cs - page_len ml 0 (rev cs) in
      Some (Inr \<lparr>erBuffer = concat (drop k cs), erNextChunkId = ChunkIndexAsStringId (of_nat (length cs)),
        erPreviousChunkId = (if k = 0 then [] else ChunkIndexAsStringId (of_nat (k - 1))), erLive = False\<rparr>))"
  proof -
    define k where "k = length cs - page_len ml 0 (rev cs)"
    have k: "k < length cs" using page_len_pos [of "rev cs" ml 0] row(3) by (simp add: k_def)
    have l: "length cs - 1 < length cs" "Suc (length cs - 1) = length cs" using row(3) by (cases cs; simp)+
    have prev: "k \<noteq> 0 \<Longrightarrow> (of_nat k :: u16) - 1 = of_nat (k - 1)" by (cases k) auto
    have prev': "k \<noteq> 0 \<Longrightarrow> (of_nat (k - 1) :: u16) \<noteq> 65535" using small [of "k - 1"] k by simp
    define kx ix :: u16 where "kx = of_nat k - 1" and "ix = of_nat (length cs - 1)"
    define q where "q = newChunkQueue ?b ix 65535 0"
    have "page_loop B w ml ix 0 q rsp = Some (Inr (rsp\<lparr>
      erBuffer := concat (drop (Suc (length cs - 1) - page_len ml 0 (rev (take (Suc (length cs - 1)) cs))) (take (Suc (length cs - 1)) cs)) @ erBuffer rsp,
      erPreviousChunkId := ChunkIndexAsStringId (of_nat (Suc (length cs - 1) - page_len ml 0 (rev (take (Suc (length cs - 1)) cs))) - 1)\<rparr>))" for rsp
      unfolding ix_def
      by (rule page_backward [OF w, where ?q0.0 = q])
        (use l(1) in \<open>simp_all add: q_def ix_def del: of_nat_diff, simp_all add: newChunkQueue_def\<close>)
    then have pg: "page_loop B w ml ix 0 q rsp = Some (Inr (rsp\<lparr>erBuffer := concat (drop k cs) @ erBuffer rsp,
      erPreviousChunkId := ChunkIndexAsStringId kx\<rparr>))" for rsp
      unfolding l(2) take_all [OF order_refl] k_def [symmetric] kx_def [symmetric] .
    have "GetEventLogChunk B getLive (Inr row) \<lparr>eqInvocationId = iid, eqChunkId = [], eqMinLines = ml\<rparr> w =
      Some (Inr \<lparr>erBuffer = concat (drop k cs), erNextChunkId = ChunkIndexAsStringId (ix + 1),
        erPreviousChunkId = (if kx = 65535 then [] else ChunkIndexAsStringId kx), erLive = False\<rparr>)"
      using last [folded ix_def] pg id
      by (simp add: GetEventLogChunk_def row(1) chunk_id_roundtrip Let_def q_def [symmetric] empty_response_def)
    moreover have "kx = (if k = 0 then 65535 else of_nat (k - 1))"
      using prev minus_one_u16 by (simp add: kx_def del: of_nat_diff)
    ultimately show ?thesis using prev' suc_last by (simp add: ix_def k_def [symmetric] Let_def del: of_nat_diff)
  qed
qed

end

text \<open>C11: Pages of a stored event log, on the store in files: asking for a chunk returns it and the chunks after it until the lines asked for are there, and names the chunk after them; asking for none returns the last chunks, as many as are needed, and names the one before them. A page has at least one chunk, so that following the names reaches the end.\<close>

theorem event_log_pages:
  assumes "rootDir \<noteq> []" and "gz_ok gzip gunzip" and "disk_ok gunzip rootDir fs"
    and "disk_name (GetEventLogPathFromInvocationIdAndAttempt iid (liAttempt row))"
    and "stored (disk_view gunzip rootDir) fs (GetEventLogPathFromInvocationIdAndAttempt iid (liAttempt row)) cs" and "i < length cs"
    and "liLastChunkId row = ChunkIndexAsStringId s" and "s = 65535 \<or> unat s < length cs"
  shows "(let m = page_len ml 0 (drop i cs); k = length cs - page_len ml 0 (rev cs) in
    GetEventLogChunk (DiskBlobStore gzip gunzip rootDir) getLive (Inr row)
        \<lparr>eqInvocationId = iid, eqChunkId = ChunkIndexAsStringId (of_nat i), eqMinLines = ml\<rparr> fs =
      Some (Inr \<lparr>erBuffer = concat (take m (drop i cs)), erNextChunkId = ChunkIndexAsStringId (of_nat (i + m)),
        erPreviousChunkId = (if i = 0 then [] else ChunkIndexAsStringId (of_nat (i - 1))), erLive = False\<rparr>) \<and>
    GetEventLogChunk (DiskBlobStore gzip gunzip rootDir) getLive (Inr row) \<lparr>eqInvocationId = iid, eqChunkId = [], eqMinLines = ml\<rparr> fs =
      Some (Inr \<lparr>erBuffer = concat (drop k cs), erNextChunkId = ChunkIndexAsStringId (of_nat (length cs)),
        erPreviousChunkId = (if k = 0 then [] else ChunkIndexAsStringId (of_nat (k - 1))), erLive = False\<rparr>) \<and>
    0 < m \<and> k < length cs)"
proof -
  note bk = files_backend [OF assms(1,2)]
  have ne: "cs \<noteq> []" using assms(6) by auto
  have "0 < page_len ml 0 (drop i cs)" "0 < page_len ml 0 (rev cs)" using assms(6) by (auto intro!: page_len_pos)
  then show ?thesis
    using blob_backend.chunk_page [OF bk assms(3) disk_name_chunk [OF assms(4)] assms(5,7,8) ne, where getLive = getLive and ml = ml] assms(6) ne
    by (simp add: Let_def)
qed

definition demo_row :: log_invocation where
  "demo_row = \<lparr>liLastChunkId = ''ffff'', liInProgress = False, liAttempt = 1\<rparr>"

theorem event_log_pages_witness:
  "GetEventLogChunk (DiskBlobStore Inr GzData ''root'') (\<lambda>k. Inl (NotFoundError k)) (Inr demo_row)
     \<lparr>eqInvocationId = ''i'', eqChunkId = ''0001'', eqMinLines = 2\<rparr>
     (fs_with ''i/1/chunks/log/eventlog'' [[97, 10], [98, 10], [99], [100]] 0 emptyfs) =
   Some (Inr \<lparr>erBuffer = [98, 10, 99], erNextChunkId = ''0003'', erPreviousChunkId = ''0000'', erLive = False\<rparr>)"
proof -
  have n: "disk_name ''i/1/chunks/log/eventlog''" by code_simp
  have p: "GetEventLogPathFromInvocationIdAndAttempt ''i'' (liAttempt demo_row) = ''i/1/chunks/log/eventlog''" by code_simp
  have ids: "ChunkIndexAsStringId 1 = ''0001''" "ChunkIndexAsStringId 3 = ''0003''" "ChunkIndexAsStringId 0 = ''0000''"
    "liLastChunkId demo_row = ChunkIndexAsStringId 65535"
    by (simp_all add: ChunkIndexAsStringId_def hex_char_def demo_row_def)
  have nil: "scan_lines [] = 0" by (subst scan_lines.simps) simp
  have l: "scan_lines [98, 10] = 1" "scan_lines [99] = 1" by (subst scan_lines.simps; simp add: nil)+
  note st = fs_with_ok [OF n, of "[[97, 10], [98, 10], [99], [100]]"]
  have gz: "gz_ok Inr GzData" by (simp add: gz_ok_def)
  show ?thesis
    using event_log_pages [where rootDir = "''root''" and gzip = Inr and gunzip = GzData and iid = "''i''" and row = demo_row and i = 1
        and cs = "[[97, 10], [98, 10], [99], [100]]" and s = 65535 and ml = 2 and getLive = "\<lambda>k. Inl (NotFoundError k)", unfolded p, OF _ gz st(1) n st(2)]
    by (simp add: ids l Let_def del: fs_with.simps)
qed

section \<open>The terminal in front\<close>

text \<open>C24: What a write to the log passes on: nothing but the rendered screen as the new tail when no line leaves the screen; otherwise the lines that leave it, each with its newline, so that they and the tail are the screen before. A single blank line that leaves the screen is the exception: it is dropped, and its newline with it.\<close>

theorem ansi_lines_conserve:
  assumes "screen_ok (p_screen (fst (ScreenWriter_Write env sw p)))" and "0 \<le> n" and "ansi_lines env n sw p = (d, t, sw')"
  shows "let s1 = p_screen (fst (ScreenWriter_Write env sw p)); k = nat (min (int (length (lines s1)) - n) (y s1));
      out = screen_asANSI ((newScreen 0)\<lparr>lines := take k (lines s1)\<rparr>) in
    (if k = 0 then d = [] \<and> t = screen_asANSI s1
     else (out = [] \<longrightarrow> d = []) \<and> (out \<noteq> [] \<longrightarrow> d = out @ [CHR 0x0A]) \<and>
       screen_asANSI s1 = (if drop k (lines s1) = [] then out else out @ [CHR 0x0A] @ t))"
proof -
  define s1 where "s1 = p_screen (fst (ScreenWriter_Write env sw p))"
  define k where "k = nat (min (int (length (lines s1)) - n) (y s1))"
  obtain out s2 where pop: "screen_popExtraLines s1 n = (out, s2)" by fastforce
  have r: "d = (if out \<noteq> [] then out @ [CHR 0x0A] else out)" "t = screen_asANSI s2"
    using assms(3) pop by (auto simp: ansi_lines_def PopExtraLinesAsANSI_def RenderAsANSI_def s1_def [symmetric] Let_def)
  have ok: "screen_ok s1" using assms(1) by (simp add: s1_def)
  have c: "s2 = s1\<lparr>lines := drop k (lines s1), y := y s1 - int k\<rparr>"
    "screen_asANSI s1 = (if k = 0 then screen_asANSI s2 else if lines s2 = [] then out else out @ [CHR 0x0A] @ screen_asANSI s2)"
    using popExtraLines_conserves [OF ok assms(2) pop] by (simp_all add: k_def Let_def)
  have o: "out = (if k = 0 then [] else screen_asANSI ((newScreen 0)\<lparr>lines := take k (lines s1)\<rparr>))"
    using pop screen_okD [OF ok] by (auto simp: screen_popExtraLines_def Let_def k_def min_def split: if_splits)
  have "lines s2 = drop k (lines s1)" by (simp add: c(1))
  then show ?thesis
    unfolding s1_def [symmetric] k_def [symmetric] Let_def
    by (cases "k = 0"; cases "drop k (lines s1) = []") (simp_all add: r o c(2))
qed

theorem ansi_lines_conserve_witness:
  "\<exists>d t sw'. ansi_lines plain_env 0 NewScreenWriter (''a'' @ [CHR 0x0A] @ ''b'') = (d, t, sw') \<and>
    (let s1 = p_screen (fst (ScreenWriter_Write plain_env NewScreenWriter (''a'' @ [CHR 0x0A] @ ''b'')));
      k = nat (min (int (length (lines s1)) - 0) (y s1)); out = screen_asANSI ((newScreen 0)\<lparr>lines := take k (lines s1)\<rparr>) in
    (if k = 0 then d = [] \<and> t = screen_asANSI s1
     else (out = [] \<longrightarrow> d = []) \<and> (out \<noteq> [] \<longrightarrow> d = out @ [CHR 0x0A]) \<and>
       screen_asANSI s1 = (if drop k (lines s1) = [] then out else out @ [CHR 0x0A] @ t)))"
proof -
  have ok: "screen_ok (p_screen (fst (ScreenWriter_Write plain_env NewScreenWriter (''a'' @ [CHR 0x0A] @ ''b''))))"
    using writer_reach_ok [OF writer_reach.written [OF writer_reach.fresh]] by (simp add: parser_ok_def)
  obtain d t sw where l: "ansi_lines plain_env 0 NewScreenWriter (''a'' @ [CHR 0x0A] @ ''b'') = (d, t, sw)" by (metis prod.exhaust)
  show ?thesis by (intro exI conjI) (rule l, rule ansi_lines_conserve [OF ok order_refl l])
qed

text \<open>A run of writes to the log, each with the events of the loop and without an error, and the text it leaves: the lines that left the screen, then the screen.\<close>

fun ansi_run ::
  "'w blobstore \<Rightarrow> parser_env \<Rightarrow> (string \<times> loop_event list) list \<Rightarrow> 'w ansi_writer \<Rightarrow> 'w ansi_writer option" where
  "ansi_run B env [] a = Some a"
| "ansi_run B env ((p, evs) # ps) a =
     (case ansi_Write B env (Some p) evs a of Some ((_, None), a') \<Rightarrow> ansi_run B env ps a' | _ \<Rightarrow> None)"

fun log_text :: "parser_env \<Rightarrow> int \<Rightarrow> parser \<Rightarrow> string list \<Rightarrow> string" where
  "log_text env n sw [] = RenderAsANSI sw"
| "log_text env n sw (p # ps) =
     (if p = [] then log_text env n sw ps
      else case ansi_lines env n sw p of (d, t, sw') \<Rightarrow> d @ log_text env n sw' ps)"

lemma ansi_run_writes:
  "ansi_run B env ps a = Some a1 \<Longrightarrow> \<forall>(p, evs)\<in>set ps. no_cancel evs \<Longrightarrow> t = to_bytes (RenderAsANSI (awScreen a)) \<Longrightarrow>
    \<exists>ops. run_writes B (awLoop a) ops (awSys a) = Some (awSys a1) \<and> awLoop a1 = awLoop a \<and> (\<forall>(p, tlo, evs)\<in>set ops. no_cancel evs) \<and>
      written ops @ tail_after t ops = to_bytes (log_text env (awRetain a) (awScreen a) (map fst ps))"
proof (induction ps arbitrary: a t)
  case Nil
  then show ?case by (intro exI [of _ "[]"]) (simp add: written_def tail_after_def)
next
  case (Cons pe ps)
  obtain p evs where pe: "pe = (p, evs)" by (cases pe)
  obtain k a2 where w: "ansi_Write B env (Some p) evs a = Some ((k, None), a2)" and run: "ansi_run B env ps a2 = Some a1"
    using Cons.prems(1) by (auto simp: pe split: option.splits prod.splits)
  obtain d t' sw where l: "ansi_lines env (awRetain a) (awScreen a) p = (d, t', sw)" by (metis prod.exhaust)
  then have t': "t' = RenderAsANSI sw" by (auto simp: ansi_lines_def Let_def split: prod.splits)
  define op where "op = (if p = [] then (Some [], None, evs) else (Some (to_bytes d), Some (to_bytes t'), evs))"
  have step: "run_writes B (awLoop a) [op] (awSys a) = Some (awSys a2)" "awLoop a2 = awLoop a" "awRetain a2 = awRetain a"
      "awScreen a2 = (if p = [] then awScreen a else sw)"
    using w by (auto simp: ansi_Write_def op_def l split: if_splits)
  obtain ops where ops: "run_writes B (awLoop a2) ops (awSys a2) = Some (awSys a1)" "awLoop a1 = awLoop a2"
      "\<forall>(p, tlo, evs)\<in>set ops. no_cancel evs"
      "written ops @ tail_after (to_bytes (RenderAsANSI (awScreen a2))) ops = to_bytes (log_text env (awRetain a2) (awScreen a2) (map fst ps))"
    using Cons.IH [OF run _ refl] Cons.prems(2) by auto
  have tl: "tail_of (fst (snd op)) t = to_bytes (RenderAsANSI (awScreen a2))"
    using Cons.prems(3) step(4) t' by (simp add: op_def tail_of_def)
  have "tail_after t (op # ops) = tail_after (to_bytes (RenderAsANSI (awScreen a2))) ops"
    using tl by (cases op) (simp add: tail_after_def)
  moreover have "written (op # ops) = (if p = [] then [] else to_bytes d) @ written ops"
    by (simp add: written_def op_def chunk_of_def)
  ultimately have "written (op # ops) @ tail_after t (op # ops) =
      to_bytes (log_text env (awRetain a) (awScreen a) (map fst (pe # ps)))"
    using ops(4) step(3,4) l by (simp add: pe to_bytes_def)
  moreover have "run_writes B (awLoop a) (op # ops) (awSys a) = Some (awSys a1)"
    using step(1,2) ops(1) by (cases op) (auto split: option.splits prod.splits)
  moreover have "\<forall>(p, tlo, evs)\<in>set (op # ops). no_cancel evs" using ops(3) Cons.prems(2) by (simp add: pe op_def)
  ultimately show ?case using ops(2) step(2) by (intro exI [of _ "op # ops"]) auto
qed

text \<open>C12: The whole way of a log, on the store in files: after any writes of terminal output without a reported error and a clean close, whatever calls failed and whenever the timer fired, the stored chunks are the lines that left the screen, in order, followed by the screen as it was at the end.\<close>

theorem event_log_is_stored:
  assumes "rootDir \<noteq> []" and "gz_ok gzip gunzip" and "disk_ok gunzip rootDir fs" and "never_unavailable fs" and "disk_name path"
    and "stored (disk_view gunzip rootDir) fs path []" and "\<forall>(p, evs)\<in>set ps. no_cancel evs"
    and "ansi_run (DiskBlobStore gzip gunzip rootDir) env ps (NewEventLogWriter path n now fs) = Some a1"
    and "no_cancel evs" and "ansi_Close (DiskBlobStore gzip gunzip rootDir) evs a1 = Some (None, a2)"
    and "disk_view gunzip rootDir (syStore (awSys a2)) (ChunkName path 65535) = None"
  shows "\<exists>cs. stored (disk_view gunzip rootDir) (syStore (awSys a2)) path cs \<and>
    concat cs = to_bytes (log_text env n NewScreenWriter (map fst ps))"
proof -
  obtain l sy where w: "chunk_Writer event_log_chunkstore path (Some event_log_options) now fs = (l, sy)" by (metis prod.exhaust)
  then have a: "NewEventLogWriter path n now fs = \<lparr>awScreen = NewScreenWriter, awRetain = n, awLoop = l, awSys = sy\<rparr>"
    by (simp add: NewEventLogWriter_def)
  have "RenderAsANSI NewScreenWriter = []"
    by (simp add: RenderAsANSI_def NewScreenWriter_def newParser_def newScreen_def screen_asANSI_def)
  then obtain ops where ops: "run_writes (DiskBlobStore gzip gunzip rootDir) l ops sy = Some (awSys a1)" "awLoop a1 = l"
      "\<forall>(p, tlo, evs)\<in>set ops. no_cancel evs" "written ops @ tail_after [] ops = to_bytes (log_text env n NewScreenWriter (map fst ps))"
    using ansi_run_writes [OF assms(8,7) refl] by (auto simp: a to_bytes_def)
  have "chunk_Close (DiskBlobStore gzip gunzip rootDir) l evs (awSys a1) = Some (None, awSys a2)"
    using assms(10) ops(2) by (auto simp: ansi_Close_def)
  from files_close [OF assms(1-6) w ops(3,1) assms(9) this assms(11)] show ?thesis using ops(4) by auto
qed

lemma demo_screen:
  "shows_text [[97]] (p_screen (fst (ScreenWriter_Write plain_env NewScreenWriter ''a'')))"
proof -
  have a: "string_of_runes [97] = ''a''" by code_simp
  have "p_screen (fst (ScreenWriter_Write plain_env NewScreenWriter (string_of_runes [97]))) = foldl draw (p_screen NewScreenWriter) [97]"
    by (rule Write_plain) (simp_all add: NewScreenWriter_def newParser_def plain_rune_def ValidRune_def)
  moreover have "shows_text ([] @ [[]]) (p_screen NewScreenWriter)" "maxLines (p_screen NewScreenWriter) = 10000"
    by (simp_all add: shows_text_def NewScreenWriter_def newParser_def newScreen_def strip_def maxBuildLogLines_def)
  then have "shows_text ([] @ [[] @ [97]]) (foldl draw (p_screen NewScreenWriter) [97])"
    using shows_text_line [of "[]" "[]" "p_screen NewScreenWriter" "[97]"] by simp
  ultimately show ?thesis unfolding a by simp
qed

lemma demo_a: "\<exists>sw. ansi_lines plain_env 0 NewScreenWriter ''a'' = ('''', ''a'', sw)"
proof -
  define sw1 where "sw1 = fst (ScreenWriter_Write plain_env NewScreenWriter ''a'')"
  have st: "shows_text [[97]] (p_screen sw1)" using demo_screen by (simp add: sw1_def)
  have "screen_popExtraLines (p_screen sw1) 0 = ('''', p_screen sw1)"
    using st by (simp add: screen_popExtraLines_def shows_text_def strip_def)
  moreover have "trimmed [97] = ''a''" by code_simp
  then have "screen_asANSI (p_screen sw1) = ''a''"
    using shows_text_asANSI [OF st] by (simp add: strip_def)
  ultimately show ?thesis
    by (simp add: ansi_lines_def PopExtraLinesAsANSI_def RenderAsANSI_def sw1_def [symmetric])
qed

theorem event_log_is_stored_witness:
  "\<exists>a1 a2 cs. ansi_run (DiskBlobStore Inr GzData ''root'') plain_env [(''a'', [TakeRequest (1, 1, 1)])] (NewEventLogWriter ''b'' 0 0 emptyfs) = Some a1 \<and>
    ansi_Close (DiskBlobStore Inr GzData ''root'') [TakeRequest (2, 2, 2)] a1 = Some (None, a2) \<and>
    stored (disk_view GzData ''root'') (syStore (awSys a2)) ''b'' cs \<and> concat cs = [97]"
proof -
  obtain sw where l: "ansi_lines plain_env 0 NewScreenWriter ''a'' = ('''', ''a'', sw)" using demo_a by blast
  have b: "to_bytes ''a'' = [97]" "to_bytes '''' = []" by (simp_all add: to_bytes_def)
  have "\<exists>a1 a2. ansi_run (DiskBlobStore Inr GzData ''root'') plain_env [(''a'', [TakeRequest (1, 1, 1)])] (NewEventLogWriter ''b'' 0 0 emptyfs) = Some a1 \<and>
    ansi_Close (DiskBlobStore Inr GzData ''root'') [TakeRequest (2, 2, 2)] a1 = Some (None, a2) \<and>
    disk_view GzData ''root'' (syStore (awSys a2)) (ChunkName ''b'' 65535) = None"
    by (simp add: NewEventLogWriter_def event_log_chunkstore_def event_log_options_def ansi_Write_def ansi_Close_def l b demo_simps)
  then obtain a1 a2 where r: "ansi_run (DiskBlobStore Inr GzData ''root'') plain_env [(''a'', [TakeRequest (1, 1, 1)])] (NewEventLogWriter ''b'' 0 0 emptyfs) = Some a1"
    "ansi_Close (DiskBlobStore Inr GzData ''root'') [TakeRequest (2, 2, 2)] a1 = Some (None, a2)"
    "disk_view GzData ''root'' (syStore (awSys a2)) (ChunkName ''b'' 65535) = None"
    by blast
  have n: "disk_name ''b''" by code_simp
  have d: "disk_ok GzData ''root'' emptyfs" "never_unavailable emptyfs" "stored (disk_view GzData ''root'') emptyfs ''b'' []" "gz_ok Inr GzData"
    by (auto simp: emptyfs_def disk_ok_def never_unavailable_def stored_def disk_view_def gz_ok_def)
  have "RenderAsANSI sw = ''a''" using l by (auto simp: ansi_lines_def Let_def split: prod.splits)
  then have t: "log_text plain_env 0 NewScreenWriter [''a''] = ''a''" by (simp add: l)
  have nc: "\<forall>(p, evs)\<in>set [(''a'', [TakeRequest (1, 1, 1)])]. no_cancel evs" "no_cancel [TakeRequest (2, 2, 2)]"
    by (simp_all add: no_cancel_def)
  obtain cs where "stored (disk_view GzData ''root'') (syStore (awSys a2)) ''b'' cs"
    "concat cs = to_bytes (log_text plain_env 0 NewScreenWriter (map fst [(''a'', [TakeRequest (1, 1, 1)])]))"
    using event_log_is_stored [OF list.distinct(2) d(4,1,2) n d(3) nc(1) r(1) nc(2) r(2,3)] by blast
  with t b(1) r(1,2) show ?thesis by (intro exI [of _ a1] exI [of _ a2] exI [of _ cs]) simp
qed

section \<open>The live chunk\<close>

definition over :: "nat \<Rightarrow> 'a list \<Rightarrow> 'a list \<Rightarrow> 'a list" where
  "over n t mem = take n mem @ t @ drop (n + length t) mem"

lemma live_in_place:
  assumes "wf_slice chunk" and "slen chunk + length t \<le> length (backing chunk)" and "\<not> resClose r"
    and "i = ChunkIndexAsStringId (resLastChunkIndex r + 1)" and "i \<noteq> ChunkIndexAsStringId 65535"
  shows "writeChunkToKeyValStore marshal kv path r arr fresh chunk t (s, k) =
    (if \<exists>lst. elLast s = Some lst \<and> fst lst = i \<and> last_buffer arr (over (slen chunk) t (backing chunk)) lst = elems chunk @ t
     then (s, k)
     else (s\<lparr>elLast := Some (i, arr, elems chunk @ t)\<rparr>,
       snd (SetProto marshal kv path (Some \<lparr>lvChunkId = i, lvBuffer = elems chunk @ t\<rparr>) k)),
     chunk\<lparr>backing := over (slen chunk) t (backing chunk)\<rparr>)"
proof -
  have "backing (slice_append chunk t) = over (slen chunk) t (backing chunk)"
    using assms(2) by (simp add: slice_append_def over_def Let_def)
  then show ?thesis
    using assms by (cases "elLast s") (simp_all add: writeChunkToKeyValStore_def Let_def)
qed

text \<open>While data waits and the array of the loop's buffer has room for the tail, an update of the live log is lost: the new tail is written over the one published last, in the same array, so that a tail of the same length looks unchanged and is not published, whatever it says.\<close>

theorem live_update_skipped:
  assumes "wf_slice chunk" and "slen chunk + length t1 \<le> length (backing chunk)" and "length t2 = length t1"
    and "\<not> resClose r1" and "\<not> resClose r2" and "resLastChunkIndex r2 = resLastChunkIndex r1" and "resLastChunkIndex r1 + 1 \<noteq> 65535"
    and "elLast s0 = None" and "writeChunkToKeyValStore marshal kv path r1 arr fresh1 chunk t1 (s0, k0) = ((s1, k1), chunk1)"
    and "writeChunkToKeyValStore marshal kv path r2 arr fresh2 chunk1 t2 (s1, k1) = ((s2, k2), chunk2)"
  shows "k1 = snd (SetProto marshal kv path
      (Some \<lparr>lvChunkId = ChunkIndexAsStringId (resLastChunkIndex r1 + 1), lvBuffer = elems chunk @ t1\<rparr>) k0) \<and> k2 = k1"
proof -
  define id1 where "id1 = ChunkIndexAsStringId (resLastChunkIndex r1 + 1)"
  have id: "id1 \<noteq> ChunkIndexAsStringId 65535"
    using assms(7) chunk_id_roundtrip by (metis id1_def sum.inject(2))
  define chunk1' where "chunk1' = chunk\<lparr>backing := over (slen chunk) t1 (backing chunk)\<rparr>"
  define k1' where "k1' = snd (SetProto marshal kv path (Some \<lparr>lvChunkId = id1, lvBuffer = elems chunk @ t1\<rparr>) k0)"
  have c1: "wf_slice chunk1'" "slen chunk1' + length t2 \<le> length (backing chunk1')" "elems chunk1' = elems chunk"
    using assms(1-3) by (simp_all add: chunk1'_def wf_slice_def elems_def over_def)
  have first: "((s1, k1), chunk1) = ((s0\<lparr>elLast := Some (id1, arr, elems chunk @ t1)\<rparr>, k1'), chunk1')"
    using live_in_place [OF assms(1,2,4) id1_def id, where s = s0 and k = k0] assms(8,9) by (simp add: k1'_def chunk1'_def)
  have id2: "id1 = ChunkIndexAsStringId (resLastChunkIndex r2 + 1)" by (simp add: id1_def assms(6))
  have "last_buffer arr (over (slen chunk1') t2 (backing chunk1')) (id1, arr, elems chunk @ t1) = elems chunk1' @ t2"
    using assms(1-3) c1 by (simp add: last_buffer_def over_def elems_def chunk1'_def wf_slice_def)
  then have "k2 = k1"
    using live_in_place [OF c1(1,2) assms(5) id2 id, where s = s1 and k = k1] assms(10) first by simp
  then show ?thesis using first by (simp add: k1'_def id1_def)
qed

theorem live_update_skipped_witness:
  "\<forall>marshal kv k0. let r = \<lparr>resErr = None, resSize = 0, resLastChunkIndex = 65535, resTimeout = False, resBytesFlushed = 0, resClose = False\<rparr>;
      chunk = \<lparr>backing = [97, 10, 0, 0 :: byte], slen = 2\<rparr>;
      ((s1, k1), chunk1) = writeChunkToKeyValStore marshal kv ''p'' r 0 1 chunk [49] (\<lparr>elLast = None\<rparr>, k0);
      ((s2, k2), chunk2) = writeChunkToKeyValStore marshal kv ''p'' r 0 2 chunk1 [50] (s1, k1) in
    k1 = snd (SetProto marshal kv ''p'' (Some \<lparr>lvChunkId = ''0000'', lvBuffer = [97, 10, 49]\<rparr>) k0) \<and> k2 = k1"
proof (intro allI)
  fix marshal kv k0
  let ?r = "\<lparr>resErr = None, resSize = 0, resLastChunkIndex = 65535, resTimeout = False, resBytesFlushed = 0, resClose = False\<rparr>"
  let ?chunk = "\<lparr>backing = [97, 10, 0, 0 :: byte], slen = 2\<rparr>"
  obtain s1 k1 chunk1 s2 k2 chunk2 where
    w: "writeChunkToKeyValStore marshal kv ''p'' ?r 0 1 ?chunk [49] (\<lparr>elLast = None\<rparr>, k0) = ((s1, k1), chunk1)"
      "writeChunkToKeyValStore marshal kv ''p'' ?r 0 2 chunk1 [50] (s1, k1) = ((s2, k2), chunk2)"
    by (metis prod.exhaust)
  have id0: "ChunkIndexAsStringId (resLastChunkIndex ?r + 1) = ''0000''"
    by (simp add: ChunkIndexAsStringId_def hex_char_def)
  have "k1 = snd (SetProto marshal kv ''p''
      (Some \<lparr>lvChunkId = ChunkIndexAsStringId (resLastChunkIndex ?r + 1), lvBuffer = elems ?chunk @ [49]\<rparr>) k0) \<and> k2 = k1"
    by (rule live_update_skipped [OF _ _ _ _ _ _ _ _ w]) (simp_all add: wf_slice_def)
  then have k: "k1 = snd (SetProto marshal kv ''p'' (Some \<lparr>lvChunkId = ''0000'', lvBuffer = [97, 10, 49]\<rparr>) k0)" "k2 = k1"
    unfolding id0 by (simp_all add: elems_def)
  show "let r = ?r; chunk = ?chunk;
      ((s1, k1), chunk1) = writeChunkToKeyValStore marshal kv ''p'' r 0 1 chunk [49] (\<lparr>elLast = None\<rparr>, k0);
      ((s2, k2), chunk2) = writeChunkToKeyValStore marshal kv ''p'' r 0 2 chunk1 [50] (s1, k1) in
    k1 = snd (SetProto marshal kv ''p'' (Some \<lparr>lvChunkId = ''0000'', lvBuffer = [97, 10, 49]\<rparr>) k0) \<and> k2 = k1"
    unfolding Let_def w prod.case using k by (intro conjI)
qed

end
