(* ===== verification/ByteStream.thy ===== *)
theory ByteStream
  imports MemoryCache Claims
begin

text \<open>
  \<^verbatim>\<open>server/remote_cache/byte_stream_server/byte_stream_server.go\<close>, with \<^verbatim>\<open>server/util/compression/compression.go\<close>: reading a blob of the
  content-addressed store as a stream of messages and uploading one.

  The cache is any implementation of \<open>Cache\<close>; a call that never returns is \<open>None\<close>. Parameters, in the record \<open>cas_server\<close>: SHA-256 in
  hexadecimal, and the compression library. Its streaming decoder is an automaton that is fed with what arrives: it gives out decoded
  bytes, and may stop with an error after having read a part. The decompressor runs it in a goroutine behind a pipe; what it gives out is
  taken to be written when it was fed, since only closing the decompressor, which waits for it, makes the difference visible.

  The hit tracker only counts, and the pool of buffers only saves allocations: neither is in the model.
\<close>

section \<open>The server and its parameters\<close>

record 'z zstd_lib =
  zs_New :: "error + 'z"
  zs_feed :: "'z \<Rightarrow> bytes \<Rightarrow> bytes \<times> 'z \<times> (nat \<times> error) option"
  zs_end :: "'z \<Rightarrow> bytes \<times> error option"
  zs_EncodeAll :: "bytes \<Rightarrow> bytes"
  zs_DecodeAll :: "bytes \<Rightarrow> error + bytes"

record ('s, 'r, 'w, 'z) cas_server =
  sv_env :: env
  sv_auth :: auth_env
  sv_zstd_enabled :: bool
  sv_WithIsolation :: "request_ctx \<Rightarrow> CacheType \<Rightarrow> string \<Rightarrow> error + (Digest option, 's, 'r, 'w) Cache"
  sv_sha :: "bytes \<Rightarrow> string"
  sv_zstd :: "'z zstd_lib"

text \<open>\<open>namespace.CASCache\<close> and \<open>namespace.ActionCache\<close>.\<close>

definition CASCache :: "('s, 'r, 'w, 'z) cas_server \<Rightarrow> request_ctx \<Rightarrow> string \<Rightarrow> error + (Digest option, 's, 'r, 'w) Cache" where
  "CASCache sv ctx inst = sv_WithIsolation sv ctx CASCacheType inst"

definition ActionCache :: "('s, 'r, 'w, 'z) cas_server \<Rightarrow> request_ctx \<Rightarrow> string \<Rightarrow> error + (Digest option, 's, 'r, 'w) Cache" where
  "ActionCache sv ctx inst = sv_WithIsolation sv ctx ActionCacheType inst"

definition supportsCompressor :: "('s, 'r, 'w, 'z) cas_server \<Rightarrow> Compressor \<Rightarrow> bool" where
  "supportsCompressor sv c \<longleftrightarrow> c = IDENTITY \<or> c = ZSTD \<and> sv_zstd_enabled sv"

definition bs_readBufSizeBytes :: int where
  "bs_readBufSizeBytes = 1024 * 1024 * 4 - 1024 * 256"

section \<open>Reading\<close>

record ReadRequest =
  rqResourceName :: string
  rqReadOffset :: int
  rqReadLimit :: int

definition checkReadPreconditions :: "ReadRequest \<Rightarrow> error option" where
  "checkReadPreconditions req =
     (if rqResourceName req = '''' then Some (InvalidArgumentError ''Missing resource name'')
      else if rqReadOffset req < 0 then Some (OutOfRangeError ''ReadOffset out of range'')
      else if rqReadLimit req < 0 then Some (OutOfRangeError ''ReadLimit out of range'')
      else None)"

text \<open>
  Sending: what the stream answers to a message, after the messages sent before. \<open>copy_stream\<close> is \<^verbatim>\<open>io.CopyBuffer\<close> into the stream, for a
  reader that is only a reader.
\<close>

type_synonym sender = "bytes list \<Rightarrow> bytes \<Rightarrow> error option"

partial_function (option) copy_stream ::
  "(Digest option, 's, 'r, 'w) Cache \<Rightarrow> sender \<Rightarrow> nat \<Rightarrow> 'r \<Rightarrow> bytes list \<Rightarrow> 's \<Rightarrow> ((bytes list \<times> error option) \<times> 's) option" where
  "copy_stream C snd_msg n rd sent s =
     (case r_Read C rd n s of
        None \<Rightarrow> None
      | Some ((buf, er, rd'), s') \<Rightarrow>
          (case (if buf \<noteq> [] then snd_msg sent buf else None) of
             Some ew \<Rightarrow> Some ((sent @ [buf], Some ew), s')
           | None \<Rightarrow>
               let sent' = (if buf \<noteq> [] then sent @ [buf] else sent) in
               (case er of
                  Some e \<Rightarrow> Some ((sent', if e = EOF then None else Some e), s')
                | None \<Rightarrow> copy_stream C snd_msg n rd' sent' s')))"

declare copy_stream.simps [code]

text \<open>The pipe hands a compressed chunk to a reader with a buffer of \<open>n\<close> bytes in pieces.\<close>

fun send_pieces :: "sender \<Rightarrow> nat \<Rightarrow> bytes \<Rightarrow> bytes list \<Rightarrow> bytes list \<times> error option" where
  "send_pieces snd_msg n bs sent =
     (if bs = [] \<or> n = 0 then (sent, None)
      else
        case snd_msg sent (take n bs) of
          Some ew \<Rightarrow> (sent @ [take n bs], Some ew)
        | None \<Rightarrow> send_pieces snd_msg n (drop n bs) (sent @ [take n bs]))"

declare send_pieces.simps [simp del]

text \<open>\<open>NewZstdChunkingCompressor\<close>: every chunk that is read is compressed on its own.\<close>

partial_function (option) copy_compressed ::
  "'z zstd_lib \<Rightarrow> (Digest option, 's, 'r, 'w) Cache \<Rightarrow> sender \<Rightarrow> nat \<Rightarrow> 'r \<Rightarrow> bytes list \<Rightarrow> 's \<Rightarrow> ((bytes list \<times> error option) \<times> 's) option" where
  "copy_compressed Z C snd_msg n rd sent s =
     (case r_Read C rd n s of
        None \<Rightarrow> None
      | Some ((buf, er, rd'), s') \<Rightarrow>
          (case (if buf \<noteq> [] then send_pieces snd_msg n (zs_EncodeAll Z buf) sent else (sent, None)) of
             (sent', Some ew) \<Rightarrow> Some ((sent', Some ew), s')
           | (sent', None) \<Rightarrow>
               (case er of
                  Some e \<Rightarrow> Some ((sent', if e = EOF then None else Some e), s')
                | None \<Rightarrow> copy_compressed Z C snd_msg n rd' sent' s')))"

declare copy_compressed.simps [code]

definition BS_Read ::
  "('s, 'r, 'w, 'z) cas_server \<Rightarrow> request_ctx \<Rightarrow> sender \<Rightarrow> ReadRequest \<Rightarrow> 's \<Rightarrow> ((bytes list \<times> error option) \<times> 's) option" where
  "BS_Read sv ctx snd_msg req s =
     (case checkReadPreconditions req of
        Some e \<Rightarrow> Some (([], Some e), s)
      | None \<Rightarrow>
     (case ParseDownloadResourceName (rqResourceName req) of
        Inl e \<Rightarrow> Some (([], Some e), s)
      | Inr r \<Rightarrow>
          if \<not> supportsCompressor sv (compressor r) then Some (([], Some (UnimplementedError ''Unsupported compressor %s'')), s)
          else
     (case AttachUserPrefixToContext ctx (sv_env sv) of
        Inl e \<Rightarrow> Some (([], Some e), s)
      | Inr ctx' \<Rightarrow>
     (case CASCache sv ctx' (instanceName r) of
        Inl e \<Rightarrow> Some (([], Some e), s)
      | Inr C \<Rightarrow>
          if dHash (rnDigest r) = EmptySha256 then Some (([], None), s)
          else
     (case c_Reader C (Some (rnDigest r)) (rqReadOffset req) s of
        None \<Rightarrow> None
      | Some (Inl e, s1) \<Rightarrow> Some (([], Some e), s1)
      | Some (Inr rd, s1) \<Rightarrow>
          let bufSize = (if dSizeBytes (rnDigest r) > 0 \<and> dSizeBytes (rnDigest r) < bs_readBufSizeBytes
                         then dSizeBytes (rnDigest r) else bs_readBufSizeBytes) in
     (case (if compressor r = ZSTD then copy_compressed (sv_zstd sv) C snd_msg (nat bufSize) rd [] s1
            else copy_stream C snd_msg (nat bufSize) rd [] s1) of
        None \<Rightarrow> None
      | Some (res, s2) \<Rightarrow> map_option (\<lambda>(_, s3). (res, s3)) (r_Close C rd s2)))))))"

section \<open>Writing\<close>

record Checksum =
  ckHashed :: bytes
  ckBytesWritten :: int

definition NewChecksum :: Checksum where
  "NewChecksum = \<lparr>ckHashed = [], ckBytesWritten = 0\<rparr>"

definition Checksum_Write :: "bytes \<Rightarrow> Checksum \<Rightarrow> Checksum" where
  "Checksum_Write p c = \<lparr>ckHashed = ckHashed c @ p, ckBytesWritten = ckBytesWritten c + int (length p)\<rparr>"

definition Checksum_Check :: "(bytes \<Rightarrow> string) \<Rightarrow> Checksum \<Rightarrow> Digest \<Rightarrow> error option" where
  "Checksum_Check sha c d =
     (if sha (ckHashed c) \<noteq> dHash d then Some (DataLossError ''Uploaded bytes sha256 hash (%q) did not match digest (%q).'')
      else if ckBytesWritten c \<noteq> dSizeBytes d then Some (DataLossError ''Uploaded bytes length (%d bytes) did not match digest (%d).'')
      else None)"

text \<open>
  The writer of a stream: directly the checksum and the cache (\<open>None\<close> for the writer that drops what it gets), or a decompressor in front:
  one that runs, one whose goroutine has ended with an error, or one that was closed.
\<close>

datatype 'z decompressor = Direct | Piped 'z | Stopped error | Flushed

record ('w, 'z) writeState =
  ws_writer :: "'z decompressor"
  ws_checksum :: Checksum
  ws_cache :: "'w option"
  ws_d :: Digest
  ws_activeResourceName :: string
  ws_offset :: int

definition short_write :: error where "short_write = Err Unknown ''short write''"

definition ErrClosedPipe :: error where "ErrClosedPipe = Err Unknown ''io: read/write on closed pipe''"

text \<open>\<^verbatim>\<open>io.MultiWriter\<close> over the checksum, which takes all, and the cache's writer.\<close>

definition multi_write ::
  "(Digest option, 's, 'r, 'w) Cache \<Rightarrow> bytes \<Rightarrow> ('w, 'z) writeState \<Rightarrow> 's \<Rightarrow> ((nat \<times> error option) \<times> ('w, 'z) writeState \<times> 's) option" where
  "multi_write C p ws s =
     (let ws1 = ws\<lparr>ws_checksum := Checksum_Write p (ws_checksum ws)\<rparr> in
      case ws_cache ws of
        None \<Rightarrow> Some ((length p, None), ws1, s)
      | Some w \<Rightarrow>
          (case w_Write C w p s of
             None \<Rightarrow> None
           | Some ((n, e, w'), s') \<Rightarrow>
               Some ((n, if e = None \<and> n \<noteq> length p then Some short_write else e), ws1\<lparr>ws_cache := Some w'\<rparr>, s')))"

text \<open>What the decoder gives out; it does not write when there is nothing.\<close>

definition decoder_write ::
  "(Digest option, 's, 'r, 'w) Cache \<Rightarrow> bytes \<Rightarrow> ('w, 'z) writeState \<Rightarrow> 's \<Rightarrow> (error option \<times> ('w, 'z) writeState \<times> 's) option" where
  "decoder_write C out ws s =
     (if out = [] then Some (None, ws, s) else map_option (\<lambda>((_, e), ws', s'). (e, ws', s')) (multi_write C out ws s))"

definition writer_Write ::
  "'z zstd_lib \<Rightarrow> (Digest option, 's, 'r, 'w) Cache \<Rightarrow> bytes \<Rightarrow> ('w, 'z) writeState \<Rightarrow> 's \<Rightarrow> ((nat \<times> error option) \<times> ('w, 'z) writeState \<times> 's) option" where
  "writer_Write Z C p ws s =
     (case ws_writer ws of
        Direct \<Rightarrow> multi_write C p ws s
      | Piped z \<Rightarrow>
          (case zs_feed Z z p of
             (out, z', stop) \<Rightarrow>
          (case decoder_write C out ws s of
             None \<Rightarrow> None
           | Some (Some e, ws', s') \<Rightarrow> Some ((length p, None), ws'\<lparr>ws_writer := Stopped e\<rparr>, s')
           | Some (None, ws', s') \<Rightarrow>
               (case stop of
                  None \<Rightarrow> Some ((length p, None), ws'\<lparr>ws_writer := Piped z'\<rparr>, s')
                | Some (n, e) \<Rightarrow> Some ((n, if n < length p then Some ErrClosedPipe else None), ws'\<lparr>ws_writer := Stopped e\<rparr>, s'))))
      | Stopped e \<Rightarrow> Some ((0, Some ErrClosedPipe), ws, s)
      | Flushed \<Rightarrow> Some ((0, Some ErrClosedPipe), ws, s))"

definition ws_Write ::
  "'z zstd_lib \<Rightarrow> (Digest option, 's, 'r, 'w) Cache \<Rightarrow> bytes \<Rightarrow> ('w, 'z) writeState \<Rightarrow> 's \<Rightarrow> (error option \<times> ('w, 'z) writeState \<times> 's) option" where
  "ws_Write Z C buf ws s =
     map_option (\<lambda>((n, e), ws', s'). (e, ws'\<lparr>ws_offset := ws_offset ws' + int n\<rparr>, s')) (writer_Write Z C buf ws s)"

definition ws_Close ::
  "'z zstd_lib \<Rightarrow> (Digest option, 's, 'r, 'w) Cache \<Rightarrow> ('w, 'z) writeState \<Rightarrow> 's \<Rightarrow> (error option \<times> ('w, 'z) writeState \<times> 's) option" where
  "ws_Close Z C ws s =
     (case ws_writer ws of
        Piped z \<Rightarrow>
          (case zs_end Z z of
             (out, e) \<Rightarrow>
               map_option (\<lambda>(ew, ws', s'). (if ew \<noteq> None then ew else e, ws'\<lparr>ws_writer := Flushed\<rparr>, s')) (decoder_write C out ws s))
      | Stopped e \<Rightarrow> Some (Some e, ws\<lparr>ws_writer := Flushed\<rparr>, s)
      | _ \<Rightarrow> Some (None, ws, s))"

definition ws_Commit ::
  "(bytes \<Rightarrow> string) \<Rightarrow> (Digest option, 's, 'r, 'w) Cache \<Rightarrow> ('w, 'z) writeState \<Rightarrow> 's \<Rightarrow> (error option \<times> 's) option" where
  "ws_Commit sha C ws s =
     (case Checksum_Check sha (ws_checksum ws) (ws_d ws) of
        Some e \<Rightarrow> Some (Some e, s)
      | None \<Rightarrow> (case ws_cache ws of None \<Rightarrow> Some (None, s) | Some w \<Rightarrow> w_Close C w s))"

record BSWriteRequest =
  wqResourceName :: string
  wqWriteOffset :: int
  wqFinishWrite :: bool
  wqData :: bytes

definition checkInitialPreconditions :: "BSWriteRequest \<Rightarrow> error option" where
  "checkInitialPreconditions req =
     (if wqResourceName req = '''' then Some (InvalidArgumentError ''Initial ResourceName must not be null'')
      else if wqWriteOffset req \<noteq> 0 then Some (InvalidArgumentError ''Initial WriteOffset should be 0'')
      else None)"

definition checkSubsequentPreconditions :: "BSWriteRequest \<Rightarrow> ('w, 'z) writeState \<Rightarrow> error option" where
  "checkSubsequentPreconditions req ws =
     (if wqResourceName req \<noteq> '''' \<and> wqResourceName req \<noteq> ws_activeResourceName ws
      then Some (InvalidArgumentError ''ResourceName %s does not match initial ResourceName: %s'')
      else if wqWriteOffset req \<noteq> ws_offset ws then Some (InvalidArgumentError ''Incorrect WriteOffset. Expected %d, got %d'')
      else None)"

definition initStreamState ::
  "('s, 'r, 'w, 'z) cas_server \<Rightarrow> request_ctx \<Rightarrow> BSWriteRequest \<Rightarrow> 's
    \<Rightarrow> ((error + (Digest option, 's, 'r, 'w) Cache \<times> ('w, 'z) writeState) \<times> 's) option" where
  "initStreamState sv ctx req s =
     (case ParseUploadResourceName (wqResourceName req) of
        Inl e \<Rightarrow> Some (Inl e, s)
      | Inr r \<Rightarrow>
          if \<not> supportsCompressor sv (compressor r) then Some (Inl (UnimplementedError ''Unsupported compressor %s''), s)
          else
     (case AttachUserPrefixToContext ctx (sv_env sv) of
        Inl e \<Rightarrow> Some (Inl e, s)
      | Inr ctx' \<Rightarrow>
     (case CASCache sv ctx' (instanceName r) of
        Inl e \<Rightarrow> Some (Inl e, s)
      | Inr C \<Rightarrow>
     (case c_Contains C (Some (rnDigest r)) s of
        None \<Rightarrow> None
      | Some (Inl e, s1) \<Rightarrow> Some (Inl e, s1)
      | Some (Inr True, s1) \<Rightarrow> Some (Inl (AlreadyExistsError ''Already exists''), s1)
      | Some (Inr False, s1) \<Rightarrow>
     (case (if dHash (rnDigest r) = EmptySha256 then Some (Inr None, s1)
            else map_option (\<lambda>(w, s2). (case w of Inl e \<Rightarrow> Inl e | Inr w \<Rightarrow> Inr (Some w), s2)) (c_Writer C (Some (rnDigest r)) s1)) of
        None \<Rightarrow> None
      | Some (Inl e, s2) \<Rightarrow> Some (Inl e, s2)
      | Some (Inr cw, s2) \<Rightarrow>
          (case (if compressor r = ZSTD then (case zs_New (sv_zstd sv) of Inl e \<Rightarrow> Inl e | Inr z \<Rightarrow> Inr (Piped z)) else Inr Direct) of
             Inl e \<Rightarrow> Some (Inl e, s2)
           | Inr dec \<Rightarrow>
               Some (Inr (C, \<lparr>ws_writer = dec, ws_checksum = NewChecksum, ws_cache = cw, ws_d = rnDigest r,
                 ws_activeResourceName = wqResourceName req, ws_offset = 0\<rparr>), s2)))))))"

text \<open>What arrives on a stream: messages or an error of the transport, and in the end \<^verbatim>\<open>io.EOF\<close>. How a handler ends: with a response, or an error or none.\<close>

datatype recv = GotMessage BSWriteRequest | RecvError error

datatype outcome = Responded int | Ended "error option"

fun recvAll :: "recv list \<Rightarrow> int \<Rightarrow> int \<times> error option" where
  "recvAll [] n = (n, None)"
| "recvAll (RecvError e # reqs) n = (n, Some e)"
| "recvAll (GotMessage req # reqs) n = recvAll reqs (n + int (length (wqData req)))"

definition handleAlreadyExists :: "recv list \<Rightarrow> BSWriteRequest \<Rightarrow> outcome" where
  "handleAlreadyExists reqs firstRequest =
     (case ParseUploadResourceName (wqResourceName firstRequest) of
        Inl e \<Rightarrow> Ended (Some e)
      | Inr r \<Rightarrow>
          if compressor r \<noteq> IDENTITY then
            (case (if \<not> wqFinishWrite firstRequest then recvAll reqs 0 else (0, None)) of
               (_, Some e) \<Rightarrow> Ended (Some e)
             | (remainingSize, None) \<Rightarrow> Responded (int (length (wqData firstRequest)) + remainingSize))
          else Responded (dSizeBytes (rnDigest r)))"

text \<open>One message of an upload that has begun: how the handler ends, if it does.\<close>

definition write_message ::
  "('s, 'r, 'w, 'z) cas_server \<Rightarrow> (Digest option, 's, 'r, 'w) Cache \<Rightarrow> BSWriteRequest \<Rightarrow> ('w, 'z) writeState \<Rightarrow> 's
    \<Rightarrow> (outcome option \<times> ('w, 'z) writeState \<times> 's) option" where
  "write_message sv C req ws s =
     (case ws_Write (sv_zstd sv) C (wqData req) ws s of
        None \<Rightarrow> None
      | Some (Some e, ws1, s1) \<Rightarrow> Some (Some (Ended (Some e)), ws1, s1)
      | Some (None, ws1, s1) \<Rightarrow>
          if \<not> wqFinishWrite req then Some (None, ws1, s1)
          else
     (case ws_Close (sv_zstd sv) C ws1 s1 of
        None \<Rightarrow> None
      | Some (Some e, ws2, s2) \<Rightarrow> Some (Some (Ended (Some e)), ws2, s2)
      | Some (None, ws2, s2) \<Rightarrow>
     (case ws_Commit (sv_sha sv) C ws2 s2 of
        None \<Rightarrow> None
      | Some (Some e, s3) \<Rightarrow> Some (Some (Ended (Some e)), ws2, s3)
      | Some (None, s3) \<Rightarrow> Some (Some (Responded (ws_offset ws2)), ws2, s3))))"

text \<open>The loop over the messages; leaving it closes the state, whatever that gives.\<close>

definition leave ::
  "('s, 'r, 'w, 'z) cas_server \<Rightarrow> ((Digest option, 's, 'r, 'w) Cache \<times> ('w, 'z) writeState) option \<Rightarrow> outcome \<Rightarrow> 's \<Rightarrow> (outcome \<times> 's) option" where
  "leave sv st out s =
     (case st of None \<Rightarrow> Some (out, s) | Some (C, ws) \<Rightarrow> map_option (\<lambda>(_, _, s'). (out, s')) (ws_Close (sv_zstd sv) C ws s))"

fun upload_loop ::
  "('s, 'r, 'w, 'z) cas_server \<Rightarrow> request_ctx \<Rightarrow> bool \<Rightarrow> ((Digest option, 's, 'r, 'w) Cache \<times> ('w, 'z) writeState) option
    \<Rightarrow> recv list \<Rightarrow> 's \<Rightarrow> (outcome \<times> 's) option" where
  "upload_loop sv ctx canWrite st [] s = leave sv st (Ended None) s"
| "upload_loop sv ctx canWrite st (RecvError e # reqs) s = leave sv st (Ended (Some e)) s"
| "upload_loop sv ctx canWrite None (GotMessage req # reqs) s =
     (case checkInitialPreconditions req of
        Some e \<Rightarrow> Some (Ended (Some e), s)
      | None \<Rightarrow>
          if \<not> canWrite then Some (handleAlreadyExists reqs req, s)
          else
     (case initStreamState sv ctx req s of
        None \<Rightarrow> None
      | Some (Inl e, s1) \<Rightarrow> if IsAlreadyExistsError (Some e) then Some (handleAlreadyExists reqs req, s1) else Some (Ended (Some e), s1)
      | Some (Inr (C, ws), s1) \<Rightarrow>
     (case write_message sv C req ws s1 of
        None \<Rightarrow> None
      | Some (Some out, ws', s') \<Rightarrow> leave sv (Some (C, ws')) out s'
      | Some (None, ws', s') \<Rightarrow> upload_loop sv ctx canWrite (Some (C, ws')) reqs s')))"
| "upload_loop sv ctx canWrite (Some (C, ws)) (GotMessage req # reqs) s =
     (case checkSubsequentPreconditions req ws of
        Some e \<Rightarrow> leave sv (Some (C, ws)) (Ended (Some e)) s
      | None \<Rightarrow>
     (case write_message sv C req ws s of
        None \<Rightarrow> None
      | Some (Some out, ws', s') \<Rightarrow> leave sv (Some (C, ws')) out s'
      | Some (None, ws', s') \<Rightarrow> upload_loop sv ctx canWrite (Some (C, ws')) reqs s'))"

definition BS_Write :: "('s, 'r, 'w, 'z) cas_server \<Rightarrow> request_ctx \<Rightarrow> recv list \<Rightarrow> 's \<Rightarrow> (outcome \<times> 's) option" where
  "BS_Write sv ctx reqs s =
     (case IsGranted (sv_auth sv) CACHE_WRITE_CAPABILITY of
        Inl e \<Rightarrow> Some (Ended (Some e), s)
      | Inr canWrite \<Rightarrow> upload_loop sv ctx canWrite None reqs s)"

definition QueryWriteStatus :: "int \<times> bool" where
  "QueryWriteStatus = (0, False)"

end
