(* ===== verification/CasServer.thy ===== *)
theory CasServer
  imports ByteStream
begin

text \<open>
  \<^verbatim>\<open>server/remote_cache/content_addressable_storage_server/content_addressable_storage_server.go\<close> and
  \<^verbatim>\<open>server/remote_cache/action_cache_server/action_cache_server.go\<close>: batches of blobs, directory trees, and the results of actions, over any cache.
  A panic, or a call of the cache that never returns, is \<open>None\<close>. Protocol buffers are parsed and printed by parameters.
\<close>

section \<open>Batches\<close>

definition EmptyHash :: string where "EmptyHash = ''''"

definition FindMissingBlobs ::
  "('s, 'r, 'w, 'z) cas_server \<Rightarrow> request_ctx \<Rightarrow> string \<Rightarrow> Digest option list \<Rightarrow> 's \<Rightarrow> ((error + Digest option list) \<times> 's) option" where
  "FindMissingBlobs sv ctx inst blobDigests s =
     (case AttachUserPrefixToContext ctx (sv_env sv) of
        Inl e \<Rightarrow> Some (Inl e, s)
      | Inr ctx' \<Rightarrow>
     (case CASCache sv ctx' inst of
        Inl e \<Rightarrow> Some (Inl e, s)
      | Inr C \<Rightarrow> c_FindMissing C (filter (\<lambda>d. GetHash d \<noteq> EmptySha256 \<and> GetHash d \<noteq> EmptyHash) blobDigests) s))"

record update_request =
  urDigest :: "Digest option"
  urData :: bytes
  urCompressor :: Compressor

text \<open>\<open>zstdDecompress\<close> first makes a buffer of the announced size, which panics when that is negative.\<close>

definition zstdDecompress :: "'z zstd_lib \<Rightarrow> bytes \<Rightarrow> int \<Rightarrow> (error + bytes) option" where
  "zstdDecompress Z data decompressedLength =
     (if decompressedLength < 0 then None
      else Some (case zs_DecodeAll Z data of
        Inl e \<Rightarrow> Inl (InternalError ''Failed to decompress zstd-compressed blob: %s'')
      | Inr out \<Rightarrow> Inr out))"

text \<open>One request of a batch: a response that is final (\<open>Inl\<close>), or the data to store.\<close>

definition check_upload ::
  "('s, 'r, 'w, 'z) cas_server \<Rightarrow> update_request \<Rightarrow> ((Digest option \<times> error option) + (Digest option \<times> bytes)) option" where
  "check_upload sv req =
     (let d = urDigest req in
      if GetHash d = EmptySha256 then Some (Inl (d, None))
      else if \<not> supportsCompressor sv (urCompressor req) then Some (Inl (d, Some (UnimplementedError ''Unsupported compressor %s'')))
      else
        case (if urCompressor req = ZSTD then zstdDecompress (sv_zstd sv) (urData req) (GetSizeBytes d) else Some (Inr (urData req))) of
          None \<Rightarrow> None
        | Some (Inl e) \<Rightarrow> Some (Inl (d, Some e))
        | Some (Inr data) \<Rightarrow>
            if sv_sha sv data \<noteq> GetHash d
            then Some (Inl (d, Some (DataLossError ''Uploaded bytes checksum (%q) did not match digest (%q).'')))
            else if int (length data) \<noteq> GetSizeBytes d
            then Some (Inl (d, Some (DataLossError ''Uploaded blob size (%d) did not match expected size (%d).'')))
            else Some (Inr (d, data)))"

text \<open>The loop over the requests: an invalid digest ends it; else the responses so far, and what is to be stored.\<close>

fun check_uploads ::
  "('s, 'r, 'w, 'z) cas_server \<Rightarrow> update_request list \<Rightarrow> (Digest option \<times> error option) list \<Rightarrow> (Digest option \<times> bytes) list
    \<Rightarrow> (error + (Digest option \<times> error option) list \<times> (Digest option \<times> bytes) list) option" where
  "check_uploads sv [] rsps kvs = Some (Inr (rsps, kvs))"
| "check_uploads sv (req # reqs) rsps kvs =
     (case Validate (urDigest req) of
        Inl e \<Rightarrow> Some (Inl e)
      | Inr _ \<Rightarrow>
          (case check_upload sv req of
             None \<Rightarrow> None
           | Some (Inl rsp) \<Rightarrow> check_uploads sv reqs (rsps @ [rsp]) kvs
           | Some (Inr kv) \<Rightarrow> check_uploads sv reqs rsps (kvs @ [kv])))"

text \<open>The map of what is to be stored has the requests' own digests as keys; \<open>ord1\<close> and \<open>ord2\<close> are the orders in which it is enumerated.\<close>

definition BatchUpdateBlobs ::
  "('s, 'r, 'w, 'z) cas_server \<Rightarrow> request_ctx \<Rightarrow> string \<Rightarrow> ((Digest option \<times> bytes) list \<Rightarrow> (Digest option \<times> bytes) list)
    \<Rightarrow> ((Digest option \<times> bytes) list \<Rightarrow> (Digest option \<times> bytes) list) \<Rightarrow> update_request list \<Rightarrow> 's
    \<Rightarrow> ((error + (Digest option \<times> error option) list) \<times> 's) option" where
  "BatchUpdateBlobs sv ctx inst ord1 ord2 reqs s =
     (case AttachUserPrefixToContext ctx (sv_env sv) of
        Inl e \<Rightarrow> Some (Inl e, s)
      | Inr ctx' \<Rightarrow>
     (case IsGranted (sv_auth sv) CACHE_WRITE_CAPABILITY of
        Inl e \<Rightarrow> Some (Inl e, s)
      | Inr False \<Rightarrow> Some (Inr (map (\<lambda>req. (urDigest req, None)) reqs), s)
      | Inr True \<Rightarrow>
     (case CASCache sv ctx' inst of
        Inl e \<Rightarrow> Some (Inl e, s)
      | Inr C \<Rightarrow>
     (case check_uploads sv reqs [] [] of
        None \<Rightarrow> None
      | Some (Inl e) \<Rightarrow> Some (Inl e, s)
      | Some (Inr (rsps, kvs)) \<Rightarrow>
     (case c_SetMulti C (ord1 kvs) s of
        None \<Rightarrow> None
      | Some (Some e, s') \<Rightarrow> Some (Inl e, s')
      | Some (None, s') \<Rightarrow> Some (Inr (rsps @ map (\<lambda>kv. (fst kv, None)) (ord2 kvs)), s'))))))"

definition clientAcceptsCompressor :: "Compressor list \<Rightarrow> Compressor \<Rightarrow> bool" where
  "clientAcceptsCompressor acceptable c \<longleftrightarrow> c = IDENTITY \<or> c \<in> set acceptable"

record read_response =
  rrDigest :: "Digest option"
  rrData :: bytes
  rrCompressor :: Compressor
  rrStatus :: "code option"

text \<open>One response: \<open>err\<close> is the error of the look-up, \<open>found\<close> its map, which is nil when there is an error.\<close>

definition read_blob ::
  "('s, 'r, 'w, 'z) cas_server \<Rightarrow> Compressor list \<Rightarrow> error option \<Rightarrow> (Digest option \<rightharpoonup> bytes) \<Rightarrow> Digest option \<Rightarrow> read_response" where
  "read_blob sv acceptable err found d =
     (let rsp = \<lparr>rrDigest = d, rrData = [], rrCompressor = IDENTITY, rrStatus = None\<rparr> in
      if GetHash d = EmptySha256 then rsp
      else
        case found d of
          None \<Rightarrow> rsp\<lparr>rrStatus := Some NotFound\<rparr>
        | Some data \<Rightarrow>
            if GetSizeBytes d \<noteq> int (length data) then rsp\<lparr>rrData := data, rrStatus := Some NotFound\<rparr>
            else if err \<noteq> None then rsp\<lparr>rrData := data, rrStatus := Some Internal\<rparr>
            else if sv_zstd_enabled sv \<and> clientAcceptsCompressor acceptable ZSTD
            then rsp\<lparr>rrData := zs_EncodeAll (sv_zstd sv) data, rrCompressor := ZSTD\<rparr>
            else rsp\<lparr>rrData := data\<rparr>)"

definition BatchReadBlobs ::
  "('s, 'r, 'w, 'z) cas_server \<Rightarrow> request_ctx \<Rightarrow> string \<Rightarrow> Compressor list \<Rightarrow> Digest option list \<Rightarrow> 's \<Rightarrow> ((error + read_response list) \<times> 's) option" where
  "BatchReadBlobs sv ctx inst acceptable digests s =
     (case AttachUserPrefixToContext ctx (sv_env sv) of
        Inl e \<Rightarrow> Some (Inl e, s)
      | Inr ctx' \<Rightarrow>
     (case CASCache sv ctx' inst of
        Inl e \<Rightarrow> Some (Inl e, s)
      | Inr C \<Rightarrow>
     (case find (\<lambda>d. isl (Validate d)) digests of
        Some d \<Rightarrow> Some (Inl (projl (Validate d)), s)
      | None \<Rightarrow>
          map_option
            (\<lambda>(r, s'). (Inr (map (case r of Inl e \<Rightarrow> read_blob sv acceptable (Some e) Map.empty | Inr found \<Rightarrow> read_blob sv acceptable None found) digests), s'))
            (c_GetMulti C (filter (\<lambda>d. GetHash d \<noteq> EmptySha256) digests) s))))"

section \<open>Trees\<close>

record FileNode =
  fnName :: string
  fnDigest :: "Digest option"
  fnIsExecutable :: bool

record DirectoryNode =
  dnName :: string
  dnDigest :: "Digest option"

record SymlinkNode =
  snName :: string
  snTarget :: string

record Directory =
  dirFiles :: "FileNode list"
  dirDirectories :: "DirectoryNode list"
  dirSymlinks :: "SymlinkNode list"

type_synonym DirectoryWithDigest = "Directory \<times> Digest option"

definition cas_gRPCMaxSize :: int where "cas_gRPCMaxSize = 4194304 - 2000"

definition fetchDir ::
  "(Digest option, 's, 'r, 'w) Cache \<Rightarrow> (bytes \<Rightarrow> error + Directory) \<Rightarrow> Digest option \<Rightarrow> 's \<Rightarrow> ((error + Directory) \<times> 's) option" where
  "fetchDir C unmarshal d s =
     (case Validate d of
        Inl e \<Rightarrow> Some (Inl e, s)
      | Inr _ \<Rightarrow> map_option (\<lambda>(r, s'). (case r of Inl e \<Rightarrow> Inl e | Inr contents \<Rightarrow> unmarshal contents, s')) (c_Get C d s))"

text \<open>The subdirectories of a directory; the empty one is left out.\<close>

definition subdirDigests :: "Directory \<Rightarrow> Digest option list" where
  "subdirDigests dir = filter (\<lambda>d. GetHash d \<noteq> EmptySha256) (map dnDigest (dirDirectories dir))"

fun parse_children :: "(bytes \<Rightarrow> error + Directory) \<Rightarrow> (Digest option \<rightharpoonup> bytes) \<Rightarrow> Digest option list \<Rightarrow> error + DirectoryWithDigest list" where
  "parse_children unmarshal found [] = Inr []"
| "parse_children unmarshal found (d # ds) =
     (case found d of
        None \<Rightarrow> Inl (NotFoundError ''Digest %s not found in cache.'')
      | Some contents \<Rightarrow>
          (case unmarshal contents of
             Inl e \<Rightarrow> Inl e
           | Inr subDir \<Rightarrow>
               (case parse_children unmarshal found ds of Inl e \<Rightarrow> Inl e | Inr children \<Rightarrow> Inr ((subDir, d) # children))))"

definition fetchDirectory ::
  "(Digest option, 's, 'r, 'w) Cache \<Rightarrow> (bytes \<Rightarrow> error + Directory) \<Rightarrow> Directory \<Rightarrow> 's \<Rightarrow> ((error + DirectoryWithDigest list) \<times> 's) option" where
  "fetchDirectory C unmarshal dir s =
     (if dirDirectories dir = [] then Some (Inr [], s)
      else map_option
        (\<lambda>(r, s'). (case r of Inl e \<Rightarrow> Inl e | Inr found \<Rightarrow> parse_children unmarshal found (subdirDigests dir), s'))
        (c_GetMulti C (subdirDigests dir) s))"

text \<open>
  \<open>GetTree\<close> walks the tree in goroutines, one for each directory: it adds the directory to the response, under a lock, and then
  fetches its subdirectories. The state has the response that is being filled, its size, the responses that were sent, and the goroutines with
  what they do next. A schedule says which one goes on. The first error ends the call; what the others still do then is not modelled.
\<close>

datatype tree_task = FinishDir DirectoryWithDigest | FetchChildren DirectoryWithDigest

record tree_state =
  tsRsp :: "Directory list"
  tsSize :: int
  tsSent :: "Directory list list"
  tsTasks :: "tree_task list"

type_synonym tree_sender = "Directory list list \<Rightarrow> Directory list \<Rightarrow> error option"

definition finishDir :: "tree_sender \<Rightarrow> DirectoryWithDigest \<Rightarrow> tree_state \<Rightarrow> error + tree_state" where
  "finishDir snd_rsp dwd st =
     (case dwd of (dir, d) \<Rightarrow>
      case (if tsSize st + GetSizeBytes d > cas_gRPCMaxSize then
              (case snd_rsp (tsSent st) (tsRsp st) of
                 Some e \<Rightarrow> Inl e
               | None \<Rightarrow> Inr (st\<lparr>tsSent := tsSent st @ [tsRsp st], tsRsp := [], tsSize := 0\<rparr>))
            else Inr st) of
        Inl e \<Rightarrow> Inl e
      | Inr st1 \<Rightarrow> Inr (st1\<lparr>tsSize := tsSize st1 + GetSizeBytes d, tsRsp := tsRsp st1 @ [dir]\<rparr>))"

definition tree_step ::
  "(Digest option, 's, 'r, 'w) Cache \<Rightarrow> (bytes \<Rightarrow> error + Directory) \<Rightarrow> tree_sender \<Rightarrow> nat \<Rightarrow> tree_state \<Rightarrow> 's \<Rightarrow> ((error + tree_state) \<times> 's) option" where
  "tree_step C unmarshal snd_rsp i st s =
     (let before = take i (tsTasks st); after = drop (Suc i) (tsTasks st) in
      case tsTasks st ! i of
        FinishDir (dir, d) \<Rightarrow>
          Some (case finishDir snd_rsp (dir, d) st of
                  Inl e \<Rightarrow> Inl e
                | Inr st' \<Rightarrow> Inr (st'\<lparr>tsTasks := before @ (if dirDirectories dir = [] then [] else [FetchChildren (dir, d)]) @ after\<rparr>), s)
      | FetchChildren (dir, d) \<Rightarrow>
          map_option
            (\<lambda>(r, s'). (case r of Inl e \<Rightarrow> Inl e | Inr children \<Rightarrow> Inr (st\<lparr>tsTasks := before @ after @ map FinishDir children\<rparr>), s'))
            (fetchDirectory C unmarshal dir s))"

text \<open>The goroutines under a schedule: \<open>None\<close> when it ends before they do.\<close>

fun tree_run ::
  "(Digest option, 's, 'r, 'w) Cache \<Rightarrow> (bytes \<Rightarrow> error + Directory) \<Rightarrow> tree_sender \<Rightarrow> nat list \<Rightarrow> tree_state \<Rightarrow> 's \<Rightarrow> ((error + tree_state) \<times> 's) option" where
  "tree_run C unmarshal snd_rsp sched st s =
     (if tsTasks st = [] then Some (Inr st, s)
      else case sched of
        [] \<Rightarrow> None
      | i # sched' \<Rightarrow>
          (case tree_step C unmarshal snd_rsp (i mod length (tsTasks st)) st s of
             None \<Rightarrow> None
           | Some (Inl e, s') \<Rightarrow> Some (Inl e, s')
           | Some (Inr st', s') \<Rightarrow> tree_run C unmarshal snd_rsp sched' st' s'))"

declare tree_run.simps [simp del]

text \<open>The responses that were sent, and the error.\<close>

definition GetTree ::
  "('s, 'r, 'w, 'z) cas_server \<Rightarrow> (bytes \<Rightarrow> error + Directory) \<Rightarrow> tree_sender \<Rightarrow> nat list \<Rightarrow> request_ctx \<Rightarrow> string \<Rightarrow> Digest option \<Rightarrow> 's
    \<Rightarrow> ((error + Directory list list) \<times> 's) option" where
  "GetTree sv unmarshal snd_rsp sched ctx inst rootDigest s =
     (if rootDigest = None then Some (Inl (Err Unknown ''RootDigest is required to GetTree''), s)
      else if GetHash rootDigest = EmptySha256 then Some (Inr [], s)
      else
     (case AttachUserPrefixToContext ctx (sv_env sv) of
        Inl e \<Rightarrow> Some (Inl e, s)
      | Inr ctx' \<Rightarrow>
     (case CASCache sv ctx' inst of
        Inl e \<Rightarrow> Some (Inl e, s)
      | Inr C \<Rightarrow>
     (case fetchDir C unmarshal rootDigest s of
        None \<Rightarrow> None
      | Some (Inl e, s1) \<Rightarrow> Some (Inl e, s1)
      | Some (Inr rootDir, s1) \<Rightarrow>
     (case tree_run C unmarshal snd_rsp sched \<lparr>tsRsp = [], tsSize = 0, tsSent = [], tsTasks = [FinishDir (rootDir, rootDigest)]\<rparr> s1 of
        None \<Rightarrow> None
      | Some (Inl e, s2) \<Rightarrow> Some (Inl e, s2)
      | Some (Inr st, s2) \<Rightarrow>
          if tsSize st > 0 then
            Some (case snd_rsp (tsSent st) (tsRsp st) of Some e \<Rightarrow> Inl e | None \<Rightarrow> Inr (tsSent st @ [tsRsp st]), s2)
          else Some (Inr (tsSent st), s2))))))"

text \<open>\<open>dirStack\<close>, which is not used by \<open>GetTree\<close> any more: \<open>Pop\<close> of an empty stack keeps the lock, and whoever asks for it next waits for ever.\<close>

record dirStack =
  dsDirs :: "(Directory \<times> int) list"
  dsLocked :: bool

definition dirStack_Push :: "Directory \<Rightarrow> int \<Rightarrow> dirStack \<Rightarrow> dirStack option" where
  "dirStack_Push dir n st = (if dsLocked st then None else Some (st\<lparr>dsDirs := dsDirs st @ [(dir, n)]\<rparr>))"

definition dirStack_Empty :: "dirStack \<Rightarrow> (bool \<times> dirStack) option" where
  "dirStack_Empty st = (if dsLocked st then None else Some (dsDirs st = [], st))"

definition dirStack_Pop :: "dirStack \<Rightarrow> ((Directory \<times> int) option \<times> dirStack) option" where
  "dirStack_Pop st =
     (if dsLocked st then None
      else if dsDirs st = [] then Some (None, st\<lparr>dsLocked := True\<rparr>)
      else Some (Some (List.last (dsDirs st)), st\<lparr>dsDirs := butlast (dsDirs st)\<rparr>))"

section \<open>Action results\<close>

record Tree =
  trRoot :: "Directory option"
  trChildren :: "Directory list"

text \<open>The part of an action result that is not looked at, and the metadata, are of types of their own.\<close>

record ('x, 'm) ActionResult =
  arOutputFiles :: "Digest option list"
  arOutputDirectories :: "Digest option list"
  arExecutionMetadata :: "'m option"
  arRest :: 'x

definition wanted :: "Digest option \<Rightarrow> bool" where
  "wanted d \<longleftrightarrow> d \<noteq> None \<and> GetSizeBytes d > 0"

definition tree_files :: "Tree \<Rightarrow> Digest option list" where
  "tree_files t = map fnDigest (concat (map dirFiles ((case trRoot t of None \<Rightarrow> [] | Some d \<Rightarrow> [d]) @ trChildren t)))"

definition checkFilesExist :: "(Digest option, 's, 'r, 'w) Cache \<Rightarrow> Digest option list \<Rightarrow> 's \<Rightarrow> (error option \<times> 's) option" where
  "checkFilesExist C digests s =
     map_option
       (\<lambda>(r, s'). (case r of Inl e \<Rightarrow> Some e | Inr missing \<Rightarrow>
          if missing \<noteq> [] then Some (NotFoundError ''ActionResult output file: %s not found in cache'') else None, s'))
       (c_FindMissing C digests s)"

text \<open>The trees are fetched in goroutines; \<open>trees\<close> lists their digests in the order in which they get their turn.\<close>

fun fetch_trees ::
  "(Digest option, 's, 'r, 'w) Cache \<Rightarrow> (bytes \<Rightarrow> error + Tree) \<Rightarrow> Digest option list \<Rightarrow> Digest option list \<Rightarrow> 's
    \<Rightarrow> ((error + Digest option list) \<times> 's) option" where
  "fetch_trees C unmarshal [] acc s = Some (Inr acc, s)"
| "fetch_trees C unmarshal (d # ds) acc s =
     (case c_Get C d s of
        None \<Rightarrow> None
      | Some (Inl e, s') \<Rightarrow> Some (Inl e, s')
      | Some (Inr contents, s') \<Rightarrow>
          (case unmarshal contents of
             Inl e \<Rightarrow> Some (Inl e, s')
           | Inr tree \<Rightarrow> fetch_trees C unmarshal ds (acc @ filter wanted (tree_files tree)) s'))"

definition ValidateActionResult ::
  "(Digest option, 's, 'r, 'w) Cache \<Rightarrow> (bytes \<Rightarrow> error + Tree) \<Rightarrow> (Digest option list \<Rightarrow> Digest option list) \<Rightarrow> ('x, 'm) ActionResult \<Rightarrow> 's
    \<Rightarrow> (error option \<times> 's) option" where
  "ValidateActionResult C unmarshal ord r s =
     (case fetch_trees C unmarshal (ord (arOutputDirectories r)) (filter wanted (arOutputFiles r)) s of
        None \<Rightarrow> None
      | Some (Inl e, s') \<Rightarrow> Some (Some e, s')
      | Some (Inr digests, s') \<Rightarrow> checkFilesExist C digests s')"

definition setWorkerMetadata :: "'m \<Rightarrow> ('x, 'm) ActionResult \<Rightarrow> ('x, 'm) ActionResult" where
  "setWorkerMetadata failsafe ar =
     (if arExecutionMetadata ar = None then ar\<lparr>arExecutionMetadata := Some failsafe\<rparr> else ar)"

definition GetActionResult ::
  "('s, 'r, 'w, 'z) cas_server \<Rightarrow> (bytes \<Rightarrow> error + ('x, 'm) ActionResult) \<Rightarrow> (bytes \<Rightarrow> error + Tree) \<Rightarrow> (Digest option list \<Rightarrow> Digest option list)
    \<Rightarrow> request_ctx \<Rightarrow> string \<Rightarrow> Digest option \<Rightarrow> 's \<Rightarrow> ((error + ('x, 'm) ActionResult) \<times> 's) option" where
  "GetActionResult sv unmarshal unmarshalTree ord ctx inst d s =
     (if d = None then Some (Inl (InvalidArgumentError ''ActionDigest is a required field''), s)
      else
     (case Validate d of
        Inl e \<Rightarrow> Some (Inl e, s)
      | Inr _ \<Rightarrow>
     (case AttachUserPrefixToContext ctx (sv_env sv) of
        Inl e \<Rightarrow> Some (Inl e, s)
      | Inr ctx' \<Rightarrow>
     (case ActionCache sv ctx' inst of
        Inl e \<Rightarrow> Some (Inl e, s)
      | Inr AC \<Rightarrow>
     (case CASCache sv ctx' inst of
        Inl e \<Rightarrow> Some (Inl e, s)
      | Inr C \<Rightarrow>
     (case c_Get AC d s of
        None \<Rightarrow> None
      | Some (Inl e, s1) \<Rightarrow> Some (Inl (NotFoundError ''ActionResult (%s) not found: %s''), s1)
      | Some (Inr contents, s1) \<Rightarrow>
     (case unmarshal contents of
        Inl e \<Rightarrow> Some (Inl e, s1)
      | Inr rsp \<Rightarrow>
     (case ValidateActionResult C unmarshalTree ord rsp s1 of
        None \<Rightarrow> None
      | Some (Some e, s2) \<Rightarrow> Some (Inl (NotFoundError ''ActionResult (%s) not found: %s''), s2)
      | Some (None, s2) \<Rightarrow> Some (Inr rsp, s2)))))))))"

definition UpdateActionResult ::
  "('s, 'r, 'w, 'z) cas_server \<Rightarrow> (('x, 'm) ActionResult \<Rightarrow> error + bytes) \<Rightarrow> 'm \<Rightarrow> request_ctx \<Rightarrow> string \<Rightarrow> Digest option
    \<Rightarrow> ('x, 'm) ActionResult option \<Rightarrow> 's \<Rightarrow> ((error + ('x, 'm) ActionResult) \<times> 's) option" where
  "UpdateActionResult sv marshal failsafe ctx inst d res s =
     (if d = None then Some (Inl (InvalidArgumentError ''ActionDigest is a required field''), s)
      else
     (case res of
        None \<Rightarrow> Some (Inl (InvalidArgumentError ''ActionResult is a required field''), s)
      | Some ar \<Rightarrow>
     (case Validate d of
        Inl e \<Rightarrow> Some (Inl e, s)
      | Inr _ \<Rightarrow>
     (case AttachUserPrefixToContext ctx (sv_env sv) of
        Inl e \<Rightarrow> Some (Inl e, s)
      | Inr ctx' \<Rightarrow>
     (case IsGranted (sv_auth sv) CACHE_WRITE_CAPABILITY of
        Inl e \<Rightarrow> Some (Inl e, s)
      | Inr False \<Rightarrow> Some (Inr ar, s)
      | Inr True \<Rightarrow>
     (case ActionCache sv ctx' inst of
        Inl e \<Rightarrow> Some (Inl e, s)
      | Inr AC \<Rightarrow>
     (case marshal (setWorkerMetadata failsafe ar) of
        Inl e \<Rightarrow> Some (Inl e, s)
      | Inr contents \<Rightarrow>
          map_option (\<lambda>(e, s'). (case e of Some e \<Rightarrow> Inl e | None \<Rightarrow> Inr (setWorkerMetadata failsafe ar), s')) (c_Set AC d contents s))))))))"

end
