(* ===== verification/CacheTools.thy ===== *)
theory CacheTools
  imports CasServer
begin

text \<open>
  \<^verbatim>\<open>server/remote_cache/cachetools/cachetools.go\<close>: what clients of the remote cache do. A byte stream client is a record of its two calls: the
  error with which a call cannot be opened, and what the server makes of the call. A reader is what its calls of \<^verbatim>\<open>Read\<close> return before the
  end. The server may answer an upload before it has read all of it; then the client stops sending, which the server does not notice.
\<close>

section \<open>Streams\<close>

record 's bs_client =
  bc_open_Read :: "error option"
  bc_Read :: "ReadRequest \<Rightarrow> 's \<Rightarrow> ((bytes list \<times> error option) \<times> 's) option"
  bc_open_Write :: "error option"
  bc_Write :: "recv list \<Rightarrow> 's \<Rightarrow> (outcome \<times> 's) option"

definition MissingDigestError :: "Digest \<Rightarrow> error" where
  "MissingDigestError d = FailedPreconditionError ''Digest %v not found''"

text \<open>\<open>GetBlob\<close>: the error, and what was written to \<^verbatim>\<open>out\<close>, whose errors are ignored.\<close>

definition GetBlob :: "'s bs_client option \<Rightarrow> ResourceName \<Rightarrow> 's \<Rightarrow> ((error option \<times> bytes) \<times> 's) option" where
  "GetBlob bsClient r s =
     (case bsClient of
        None \<Rightarrow> Some ((Some (FailedPreconditionError ''ByteStreamClient not configured''), []), s)
      | Some bc \<Rightarrow>
          if dHash (rnDigest r) = EmptySha256 then Some ((None, []), s)
          else
            let req = \<lparr>rqResourceName = DownloadString r, rqReadOffset = 0, rqReadLimit = dSizeBytes (rnDigest r)\<rparr> in
     (case bc_open_Read bc of
        Some e \<Rightarrow> Some ((Some (if err_code e = NotFound then MissingDigestError (rnDigest r) else e), []), s)
      | None \<Rightarrow>
          (case bc_Read bc req s of
             None \<Rightarrow> None
           | Some ((msgs, e), s') \<Rightarrow> Some ((e, concat msgs), s'))))"

text \<open>The requests of an upload, and the error with which reading ends it early.\<close>

fun upload_requests :: "string \<Rightarrow> int \<Rightarrow> (bytes \<times> error option) list \<Rightarrow> BSWriteRequest list \<times> error option" where
  "upload_requests name off [] = ([\<lparr>wqResourceName = name, wqWriteOffset = off, wqFinishWrite = True, wqData = []\<rparr>], None)"
| "upload_requests name off ((buf, e) # rds) =
     (if e \<noteq> None \<and> e \<noteq> Some EOF then ([], e)
      else
        let req = \<lparr>wqResourceName = name, wqWriteOffset = off, wqFinishWrite = (e = Some EOF), wqData = buf\<rparr> in
        if e = Some EOF then ([req], None)
        else case upload_requests name (off + int (length buf)) rds of (reqs, e') \<Rightarrow> (req # reqs, e'))"

text \<open>A client that gives up cancels the stream. A response that does not come is \<^verbatim>\<open>io.EOF\<close>.\<close>

definition UploadFromReader ::
  "'s bs_client option \<Rightarrow> string option \<Rightarrow> ResourceName \<Rightarrow> (bytes \<times> error option) list \<Rightarrow> 's \<Rightarrow> ((error + Digest) \<times> 's) option" where
  "UploadFromReader bsClient uuid r rds s =
     (case bsClient of
        None \<Rightarrow> Some (Inl (FailedPreconditionError ''ByteStreamClient not configured''), s)
      | Some bc \<Rightarrow>
          if dHash (rnDigest r) = EmptySha256 then Some (Inr (rnDigest r), s)
          else
     (case UploadString uuid r of
        Inl e \<Rightarrow> Some (Inl e, s)
      | Inr resourceName \<Rightarrow>
     (case bc_open_Write bc of
        Some e \<Rightarrow> Some (Inl e, s)
      | None \<Rightarrow>
     (case upload_requests resourceName 0 rds of
        (reqs, Some e) \<Rightarrow>
          map_option (\<lambda>(_, s'). (Inl e, s')) (bc_Write bc (map GotMessage reqs @ [RecvError (CanceledError ''context canceled'')]) s)
      | (reqs, None) \<Rightarrow>
          map_option
            (\<lambda>(out, s').
              (case out of
                 Responded _ \<Rightarrow> Inr (rnDigest r)
               | Ended (Some e) \<Rightarrow> Inl e
               | Ended None \<Rightarrow> Inl EOF, s'))
            (bc_Write bc (map GotMessage reqs) s)))))"

text \<open>A client that is connected to the server without failures of the transport.\<close>

definition connected :: "('s, 'r, 'w, 'z) cas_server \<Rightarrow> request_ctx \<Rightarrow> 's bs_client" where
  "connected sv ctx =
     \<lparr>bc_open_Read = None, bc_Read = BS_Read sv ctx (\<lambda>_ _. None), bc_open_Write = None, bc_Write = BS_Write sv ctx\<rparr>"

section \<open>Reading and storing messages in a cache\<close>

definition GetBlobAsProto :: "'s bs_client option \<Rightarrow> (bytes \<Rightarrow> error + 'm) \<Rightarrow> ResourceName \<Rightarrow> 's \<Rightarrow> ((error + 'm) \<times> 's) option" where
  "GetBlobAsProto bsClient unmarshal r s =
     map_option (\<lambda>((e, data), s'). (case e of Some e \<Rightarrow> Inl e | None \<Rightarrow> unmarshal data, s')) (GetBlob bsClient r s)"

definition GetActionAndCommand ::
  "'s bs_client option \<Rightarrow> (bytes \<Rightarrow> error + 'a) \<Rightarrow> ('a \<Rightarrow> Digest) \<Rightarrow> (bytes \<Rightarrow> error + 'c) \<Rightarrow> ResourceName \<Rightarrow> 's \<Rightarrow> ((error + 'a \<times> 'c) \<times> 's) option" where
  "GetActionAndCommand bsClient unmarshalAction commandDigest unmarshalCommand actionDigest s =
     (case GetBlobAsProto bsClient unmarshalAction actionDigest s of
        None \<Rightarrow> None
      | Some (Inl e, s1) \<Rightarrow> Some (Inl (WrapError e ''could not fetch action''), s1)
      | Some (Inr action, s1) \<Rightarrow>
          map_option
            (\<lambda>(r, s2). (case r of Inl e \<Rightarrow> Inl (WrapError e ''could not fetch command'') | Inr cmd \<Rightarrow> Inr (action, cmd), s2))
            (GetBlobAsProto bsClient unmarshalCommand (NewResourceName (commandDigest action) (instanceName actionDigest)) s1))"

definition readProtoFromCache ::
  "(Digest option, 's, 'r, 'w) Cache \<Rightarrow> (bytes \<Rightarrow> error + 'm) \<Rightarrow> ResourceName \<Rightarrow> 's \<Rightarrow> ((error + 'm) \<times> 's) option" where
  "readProtoFromCache C unmarshal r s =
     map_option
       (\<lambda>(res, s'). (case res of Inl e \<Rightarrow> Inl (if err_code e = NotFound then MissingDigestError (rnDigest r) else e) | Inr data \<Rightarrow> unmarshal data, s'))
       (c_Get C (Some (rnDigest r)) s)"

definition ReadProtoFromCAS ::
  "('s, 'r, 'w, 'z) cas_server \<Rightarrow> request_ctx \<Rightarrow> (bytes \<Rightarrow> error + 'm) \<Rightarrow> ResourceName \<Rightarrow> 's \<Rightarrow> ((error + 'm) \<times> 's) option" where
  "ReadProtoFromCAS sv ctx unmarshal r s =
     (case CASCache sv ctx (instanceName r) of Inl e \<Rightarrow> Some (Inl e, s) | Inr C \<Rightarrow> readProtoFromCache C unmarshal r s)"

definition ReadProtoFromAC ::
  "('s, 'r, 'w, 'z) cas_server \<Rightarrow> request_ctx \<Rightarrow> (bytes \<Rightarrow> error + 'm) \<Rightarrow> ResourceName \<Rightarrow> 's \<Rightarrow> ((error + 'm) \<times> 's) option" where
  "ReadProtoFromAC sv ctx unmarshal r s =
     (case ActionCache sv ctx (instanceName r) of Inl e \<Rightarrow> Some (Inl e, s) | Inr C \<Rightarrow> readProtoFromCache C unmarshal r s)"

text \<open>Storing what is in memory, \<open>data\<close>: \<^verbatim>\<open>io.Copy\<close> lets its reader write it all at once, and makes no write when there is nothing.\<close>

definition Compute :: "(bytes \<Rightarrow> string) \<Rightarrow> bytes \<Rightarrow> Digest" where
  "Compute sha data = \<lparr>dHash = sha data, dSizeBytes = int (length data)\<rparr>"

definition UploadBytesToCache ::
  "(Digest option, 's, 'r, 'w) Cache \<Rightarrow> (bytes \<Rightarrow> string) \<Rightarrow> bytes \<Rightarrow> 's \<Rightarrow> ((error + Digest) \<times> 's) option" where
  "UploadBytesToCache C sha data s =
     (let d = Compute sha data in
      if dHash d = EmptySha256 then Some (Inr d, s)
      else
     (case c_Writer C (Some d) s of
        None \<Rightarrow> None
      | Some (Inl e, s1) \<Rightarrow> Some (Inl e, s1)
      | Some (Inr w, s1) \<Rightarrow>
     (case (if data = [] then Some ((0, None, w), s1) else w_Write C w data s1) of
        None \<Rightarrow> None
      | Some ((n, e, w'), s2) \<Rightarrow>
     (case (if e = None \<and> n \<noteq> length data then Some short_write else e) of
        Some e \<Rightarrow> Some (Inl e, s2)
      | None \<Rightarrow> map_option (\<lambda>(e, s3). (case e of Some e \<Rightarrow> Inl e | None \<Rightarrow> Inr d, s3)) (w_Close C w' s2)))))"

definition uploadProtoToCache ::
  "(Digest option, 's, 'r, 'w) Cache \<Rightarrow> (bytes \<Rightarrow> string) \<Rightarrow> ('m \<Rightarrow> error + bytes) \<Rightarrow> 'm \<Rightarrow> 's \<Rightarrow> ((error + Digest) \<times> 's) option" where
  "uploadProtoToCache C sha marshal msg s = (case marshal msg of Inl e \<Rightarrow> Some (Inl e, s) | Inr data \<Rightarrow> UploadBytesToCache C sha data s)"

definition UploadBlobToCAS ::
  "('s, 'r, 'w, 'z) cas_server \<Rightarrow> request_ctx \<Rightarrow> string \<Rightarrow> bytes \<Rightarrow> 's \<Rightarrow> ((error + Digest) \<times> 's) option" where
  "UploadBlobToCAS sv ctx inst data s =
     (case CASCache sv ctx inst of Inl e \<Rightarrow> Some (Inl e, s) | Inr C \<Rightarrow> UploadBytesToCache C (sv_sha sv) data s)"

definition UploadProtoToCAS ::
  "('s, 'r, 'w, 'z) cas_server \<Rightarrow> request_ctx \<Rightarrow> string \<Rightarrow> ('m \<Rightarrow> error + bytes) \<Rightarrow> 'm \<Rightarrow> 's \<Rightarrow> ((error + Digest) \<times> 's) option" where
  "UploadProtoToCAS sv ctx inst marshal msg s =
     (case CASCache sv ctx inst of Inl e \<Rightarrow> Some (Inl e, s) | Inr C \<Rightarrow> uploadProtoToCache C (sv_sha sv) marshal msg s)"

definition UploadProtoToAC ::
  "('s, 'r, 'w, 'z) cas_server \<Rightarrow> request_ctx \<Rightarrow> string \<Rightarrow> ('m \<Rightarrow> error + bytes) \<Rightarrow> 'm \<Rightarrow> 's \<Rightarrow> ((error + Digest) \<times> 's) option" where
  "UploadProtoToAC sv ctx inst marshal msg s =
     (case ActionCache sv ctx inst of Inl e \<Rightarrow> Some (Inl e, s) | Inr C \<Rightarrow> uploadProtoToCache C (sv_sha sv) marshal msg s)"

section \<open>Uploads in batches\<close>

text \<open>
  \<open>BatchCASUploader\<close>. A reader is what it yields as a stream, or all at once, and what closing it gives. The goroutines that were started are
  the jobs, in the order in which they were started. The file cache is left out.
\<close>

record upload_reader =
  upr_reads :: "(bytes \<times> error option) list"
  upr_all :: "error + bytes"
  upr_Close :: "error option"

datatype upload_job = StreamUpload Digest upload_reader | BatchUpload "update_request list"

record BatchCASUploader =
  ulBatch :: "update_request list"
  ulUploads :: "Key set"
  ulBatchSize :: int
  ulJobs :: "upload_job list"

definition NewBatchCASUploader :: BatchCASUploader where
  "NewBatchCASUploader = \<lparr>ulBatch = [], ulUploads = {}, ulBatchSize = 0, ulJobs = []\<rparr>"

definition tools_gRPCMaxSize :: int where "tools_gRPCMaxSize = 4000000"

definition flushCurrentBatch :: "BatchCASUploader \<Rightarrow> BatchCASUploader" where
  "flushCurrentBatch ul = ul\<lparr>ulBatch := [], ulBatchSize := 0, ulJobs := ulJobs ul @ [BatchUpload (ulBatch ul)]\<rparr>"

definition ul_Upload :: "Digest \<Rightarrow> upload_reader \<Rightarrow> BatchCASUploader \<Rightarrow> error option \<times> BatchCASUploader" where
  "ul_Upload d r ul =
     (if NewKey d \<in> ulUploads ul then (upr_Close r, ul)
      else
        let ul1 = ul\<lparr>ulUploads := insert (NewKey d) (ulUploads ul)\<rparr> in
        if dSizeBytes d > tools_gRPCMaxSize then (None, ul1\<lparr>ulJobs := ulJobs ul1 @ [StreamUpload d r]\<rparr>)
        else
          let ul2 = (if ulBatchSize ul1 + dSizeBytes d > tools_gRPCMaxSize then flushCurrentBatch ul1 else ul1) in
          case upr_all r of
            Inl e \<Rightarrow> (Some e, ul2)
          | Inr b \<Rightarrow>
              (case upr_Close r of
                 Some e \<Rightarrow> (Some e, ul2)
               | None \<Rightarrow>
                   (None, ul2\<lparr>ulBatch := ulBatch ul2 @ [\<lparr>urDigest = Some d, urData = b, urCompressor = IDENTITY\<rparr>],
                     ulBatchSize := ulBatchSize ul2 + dSizeBytes d\<rparr>)))"

text \<open>\<open>Wait\<close> sends the last batch; then the jobs run, each with the client that it needs, and the first error is the result.\<close>

definition ul_finish :: "BatchCASUploader \<Rightarrow> BatchCASUploader" where
  "ul_finish ul = (if ulBatch ul \<noteq> [] then flushCurrentBatch ul else ul)"

definition run_job ::
  "'s bs_client \<Rightarrow> (update_request list \<Rightarrow> 's \<Rightarrow> ((error + (Digest option \<times> error option) list) \<times> 's) option) \<Rightarrow> string option \<Rightarrow> string
    \<Rightarrow> upload_job \<Rightarrow> 's \<Rightarrow> (error option \<times> 's) option" where
  "run_job bc batchUpdate uuid inst job s =
     (case job of
        StreamUpload d r \<Rightarrow>
          map_option (\<lambda>(res, s'). (case res of Inl e \<Rightarrow> Some e | Inr _ \<Rightarrow> None, s')) (UploadFromReader (Some bc) uuid (NewResourceName d inst) (upr_reads r) s)
      | BatchUpload reqs \<Rightarrow>
          map_option
            (\<lambda>(res, s'). (case res of
                Inl e \<Rightarrow> Some e
              | Inr rsps \<Rightarrow> (case find (\<lambda>rsp. snd rsp \<noteq> None) rsps of
                    None \<Rightarrow> None
                  | Some rsp \<Rightarrow> map_option (\<lambda>e. Err (err_code e) ''Error uploading file: %v'') (snd rsp)), s'))
            (batchUpdate reqs s))"

fun run_jobs ::
  "'s bs_client \<Rightarrow> (update_request list \<Rightarrow> 's \<Rightarrow> ((error + (Digest option \<times> error option) list) \<times> 's) option) \<Rightarrow> string option \<Rightarrow> string
    \<Rightarrow> upload_job list \<Rightarrow> error option \<Rightarrow> 's \<Rightarrow> (error option \<times> 's) option" where
  "run_jobs bc batchUpdate uuid inst [] e s = Some (e, s)"
| "run_jobs bc batchUpdate uuid inst (job # jobs) e s =
     (case run_job bc batchUpdate uuid inst job s of
        None \<Rightarrow> None
      | Some (e', s') \<Rightarrow> run_jobs bc batchUpdate uuid inst jobs (if e = None then e' else e) s')"

definition ul_Wait ::
  "'s bs_client \<Rightarrow> (update_request list \<Rightarrow> 's \<Rightarrow> ((error + (Digest option \<times> error option) list) \<times> 's) option) \<Rightarrow> string option \<Rightarrow> string
    \<Rightarrow> (upload_job list \<Rightarrow> upload_job list) \<Rightarrow> BatchCASUploader \<Rightarrow> 's \<Rightarrow> (error option \<times> 's) option" where
  "ul_Wait bc batchUpdate uuid inst ord ul s = run_jobs bc batchUpdate uuid inst (ord (ulJobs (ul_finish ul))) None s"

section \<open>What is in the batches\<close>

text \<open>A run of uploads, up to the first error; what a job uploads.\<close>

fun upload_all :: "(Digest \<times> upload_reader) list \<Rightarrow> BatchCASUploader \<Rightarrow> error option \<times> BatchCASUploader" where
  "upload_all [] ul = (None, ul)"
| "upload_all ((d, r) # us) ul = (case ul_Upload d r ul of (Some e, ul') \<Rightarrow> (Some e, ul') | (None, ul') \<Rightarrow> upload_all us ul')"

fun job_digests :: "upload_job \<Rightarrow> Digest list" where
  "job_digests (StreamUpload d r) = [d]"
| "job_digests (BatchUpload reqs) = map (\<lambda>req. the (urDigest req)) reqs"

fun job_ok :: "upload_job \<Rightarrow> bool" where
  "job_ok (StreamUpload d r) \<longleftrightarrow> dSizeBytes d > tools_gRPCMaxSize"
| "job_ok (BatchUpload reqs) \<longleftrightarrow> sum_list (map (\<lambda>req. GetSizeBytes (urDigest req)) reqs) \<le> tools_gRPCMaxSize"

definition ul_ok :: "BatchCASUploader \<Rightarrow> bool" where
  "ul_ok ul \<longleftrightarrow>
     ulBatchSize ul = sum_list (map (\<lambda>req. GetSizeBytes (urDigest req)) (ulBatch ul)) \<and> ulBatchSize ul \<le> tools_gRPCMaxSize \<and>
     (\<forall>job\<in>set (ulJobs ul). job_ok job) \<and>
     distinct (map NewKey (concat (map job_digests (ulJobs ul @ [BatchUpload (ulBatch ul)])))) \<and>
     set (map NewKey (concat (map job_digests (ulJobs ul @ [BatchUpload (ulBatch ul)])))) = ulUploads ul"

lemma ul_ok_flush: "ul_ok ul \<Longrightarrow> ul_ok (flushCurrentBatch ul)"
  by (simp add: ul_ok_def flushCurrentBatch_def ball_Un tools_gRPCMaxSize_def)

lemma flush_facts [simp]:
  "ulUploads (flushCurrentBatch ul) = ulUploads ul" "ulBatch (flushCurrentBatch ul) = []" "ulBatchSize (flushCurrentBatch ul) = 0"
  by (simp_all add: flushCurrentBatch_def)

lemma flush_uploads: "flushCurrentBatch (ul\<lparr>ulUploads := ks\<rparr>) = (flushCurrentBatch ul)\<lparr>ulUploads := ks\<rparr>"
  by (simp add: flushCurrentBatch_def)

lemma ul_ok_stream:
  assumes "ul_ok ul" "NewKey d \<notin> ulUploads ul" "dSizeBytes d > tools_gRPCMaxSize"
  shows "ul_ok (ul\<lparr>ulUploads := insert (NewKey d) (ulUploads ul), ulJobs := ulJobs ul @ [StreamUpload d r]\<rparr>)"
  using assms by (simp add: ul_ok_def ball_Un) blast

lemma ul_ok_add:
  assumes "ul_ok ul" "NewKey d \<notin> ulUploads ul" "ulBatchSize ul + dSizeBytes d \<le> tools_gRPCMaxSize"
  shows "ul_ok (ul\<lparr>ulUploads := insert (NewKey d) (ulUploads ul),
    ulBatch := ulBatch ul @ [\<lparr>urDigest = Some d, urData = b, urCompressor = IDENTITY\<rparr>], ulBatchSize := ulBatchSize ul + dSizeBytes d\<rparr>)"
  using assms by (simp add: ul_ok_def GetSizeBytes_def) blast

lemma ul_Upload_ok:
  assumes ok: "ul_ok ul" and up: "ul_Upload d r ul = (None, ul')"
  shows "ul_ok ul' \<and> ulUploads ul' = insert (NewKey d) (ulUploads ul)"
proof (cases "NewKey d \<in> ulUploads ul")
  case True
  then show ?thesis using ok up by (simp add: ul_Upload_def insert_absorb)
next
  case new: False
  show ?thesis
  proof (cases "dSizeBytes d > tools_gRPCMaxSize")
    case True
    then show ?thesis using up new ul_ok_stream [OF ok new True] by (auto simp: ul_Upload_def)
  next
    case False
    define ul1 where "ul1 = (if ulBatchSize ul + dSizeBytes d > tools_gRPCMaxSize then flushCurrentBatch ul else ul)"
    have ul1: "ul_ok ul1" "ulUploads ul1 = ulUploads ul" "ulBatchSize ul1 + dSizeBytes d \<le> tools_gRPCMaxSize"
      using ok False by (auto simp: ul1_def ul_ok_flush)
    have "\<exists>b. ul' = ul1\<lparr>ulUploads := insert (NewKey d) (ulUploads ul1),
      ulBatch := ulBatch ul1 @ [\<lparr>urDigest = Some d, urData = b, urCompressor = IDENTITY\<rparr>], ulBatchSize := ulBatchSize ul1 + dSizeBytes d\<rparr>"
      using up new False
      by (cases "ulBatchSize ul + dSizeBytes d > tools_gRPCMaxSize")
        (auto simp: ul_Upload_def ul1_def Let_def flush_uploads split: sum.splits option.splits)
    then show ?thesis using ul_ok_add [OF ul1(1)] new ul1 by auto
  qed
qed

lemma upload_all_ok:
  "ul_ok ul0 \<Longrightarrow> upload_all us ul0 = (None, ul') \<Longrightarrow> ul_ok ul' \<and> ulUploads ul' = ulUploads ul0 \<union> (NewKey \<circ> fst) ` set us"
proof (induction us arbitrary: ul0)
  case (Cons u us)
  obtain d r where u: "u = (d, r)" by (cases u)
  obtain ul1 where "ul_Upload d r ul0 = (None, ul1)" "upload_all us ul1 = (None, ul')"
    using Cons.prems(2) by (auto simp: u split: prod.splits option.splits)
  then show ?case using Cons.IH [of ul1] ul_Upload_ok [OF Cons.prems(1)] by (auto simp: u)
qed simp

lemma ul_ok_new: "ul_ok NewBatchCASUploader"
  by (simp add: ul_ok_def NewBatchCASUploader_def tools_gRPCMaxSize_def)

lemma ul_finish_digests:
  "concat (map job_digests (ulJobs (ul_finish ul))) = concat (map job_digests (ulJobs ul @ [BatchUpload (ulBatch ul)]))"
  by (simp add: ul_finish_def flushCurrentBatch_def)

lemma ul_finish_jobs_ok: "ul_ok ul \<Longrightarrow> job \<in> set (ulJobs (ul_finish ul)) \<Longrightarrow> job_ok job"
  using ul_ok_flush [of ul] unfolding ul_ok_def by (auto simp: ul_finish_def split: if_splits)

text \<open>C26: A batch uploader sends everything once: after any uploads without an error, the jobs that it runs have every distinct digest exactly once, and no
  batch is over the limit of a message; what is larger goes as a stream.\<close>

theorem uploads_batched_once:
  assumes "upload_all us NewBatchCASUploader = (None, ul)"
  shows "let jobs = ulJobs (ul_finish ul); ks = map NewKey (concat (map job_digests jobs)) in
    distinct ks \<and> set ks = (NewKey \<circ> fst) ` set us \<and> (\<forall>job\<in>set jobs. job_ok job)"
proof -
  have ok: "ul_ok ul" and ks: "ulUploads ul = (NewKey \<circ> fst) ` set us"
    using upload_all_ok [OF ul_ok_new assms] by (simp_all add: NewBatchCASUploader_def)
  have "distinct (map NewKey (concat (map job_digests (ulJobs (ul_finish ul)))))"
    "set (map NewKey (concat (map job_digests (ulJobs (ul_finish ul))))) = ulUploads ul"
    using ok unfolding ul_finish_digests ul_ok_def by blast+
  then show ?thesis using ul_finish_jobs_ok [OF ok] ks unfolding Let_def by blast
qed

definition demo_reader :: upload_reader where
  "demo_reader = \<lparr>upr_reads = [], upr_all = Inr [], upr_Close = None\<rparr>"

theorem uploads_batched_once_witness:
  "\<exists>ul. upload_all (map (\<lambda>n. (\<lparr>dHash = ''h'', dSizeBytes = n\<rparr>, demo_reader)) [3000000, 2000000, 3000000, 5000000]) NewBatchCASUploader = (None, ul) \<and>
    (\<forall>job\<in>set (ulJobs (ul_finish ul)). job_ok job) \<and>
    set (map NewKey (concat (map job_digests (ulJobs (ul_finish ul))))) = {\<lparr>kHash = ''h'', kSizeBytes = n\<rparr> | n. n \<in> {3000000, 2000000, 5000000}}"
proof -
  let ?us = "map (\<lambda>n. (\<lparr>dHash = ''h'', dSizeBytes = n\<rparr>, demo_reader)) [3000000, 2000000, 3000000, 5000000]"
  have "fst (upload_all ?us NewBatchCASUploader) = None"
    by (simp add: ul_Upload_def NewBatchCASUploader_def demo_reader_def tools_gRPCMaxSize_def flushCurrentBatch_def Let_def NewKey_def)
  then obtain ul where ul: "upload_all ?us NewBatchCASUploader = (None, ul)" by (cases "upload_all ?us NewBatchCASUploader") simp
  have "(NewKey \<circ> fst) ` set ?us = {\<lparr>kHash = ''h'', kSizeBytes = n\<rparr> | n. n \<in> {3000000, 2000000, 5000000}}"
    by (auto simp: NewKey_def)
  with uploads_batched_once [OF ul] have
    "set (map NewKey (concat (map job_digests (ulJobs (ul_finish ul))))) = {\<lparr>kHash = ''h'', kSizeBytes = n\<rparr> | n. n \<in> {3000000, 2000000, 5000000}}"
    "\<forall>job\<in>set (ulJobs (ul_finish ul)). job_ok job"
    unfolding Let_def by metis+
  with ul show ?thesis by blast
qed

end
