(* ===== verification/DirUpload.thy ===== *)
theory DirUpload
  imports CacheTools
begin

text \<open>
  \<^verbatim>\<open>UploadDirectoryToCAS\<close> of \<^verbatim>\<open>server/remote_cache/cachetools/cachetools.go\<close>: the files of a directory, the messages that describe it
  and its subdirectories, and the tree of them all, through one batch uploader. The file system is what the calls of the code see of it: the
  entries in the order of \<^verbatim>\<open>os.ReadDir\<close>, and of a regular file what \<^verbatim>\<open>Info\<close> gives (is it executable), its data, or the
  error with which opening or reading it fails, and what closing it gives. The file cache is left out.
\<close>

section \<open>The upload\<close>

datatype dir_entry =
    SubDir string "dir_entry list"
  | UnreadableDir string error
  | RegularFile string "error + bool" "error + bytes" "error option"
  | Symlink string "error + string"
  | OtherEntry string

definition uploadBufSizeBytes :: nat where "uploadBufSizeBytes = 1000000"

function file_reads :: "bytes \<Rightarrow> (bytes \<times> error option) list" where
  "file_reads data = (if data = [] then [] else (take uploadBufSizeBytes data, None) # file_reads (drop uploadBufSizeBytes data))"
  by pat_completeness auto
termination by (relation "measure length") (auto simp: uploadBufSizeBytes_def)

declare file_reads.simps [simp del]

lemma file_reads_concat: "concat (map fst (file_reads data)) = data"
  by (induction data rule: file_reads.induct) (subst file_reads.simps, simp)

definition data_reader :: "error option \<Rightarrow> bytes \<Rightarrow> upload_reader" where
  "data_reader closed data = \<lparr>upr_reads = file_reads data, upr_all = Inr data, upr_Close = closed\<rparr>"

definition upload_data :: "(bytes \<Rightarrow> string) \<Rightarrow> error option \<Rightarrow> bytes \<Rightarrow> BatchCASUploader \<Rightarrow> (error + Digest) \<times> BatchCASUploader" where
  "upload_data sha closed data ul =
     (case ul_Upload (Compute sha data) (data_reader closed data) ul of
        (Some e, ul') \<Rightarrow> (Inl e, ul')
      | (None, ul') \<Rightarrow> (Inr (Compute sha data), ul'))"

definition ul_UploadProto :: "(bytes \<Rightarrow> string) \<Rightarrow> ('m \<Rightarrow> error + bytes) \<Rightarrow> 'm \<Rightarrow> BatchCASUploader \<Rightarrow> (error + Digest) \<times> BatchCASUploader" where
  "ul_UploadProto sha marshal msg ul = (case marshal msg of Inl e \<Rightarrow> (Inl e, ul) | Inr data \<Rightarrow> upload_data sha None data ul)"

definition ul_UploadFile :: "(bytes \<Rightarrow> string) \<Rightarrow> error + bytes \<Rightarrow> error option \<Rightarrow> BatchCASUploader \<Rightarrow> (error + Digest) \<times> BatchCASUploader" where
  "ul_UploadFile sha contents closed ul = (case contents of Inl e \<Rightarrow> (Inl e, ul) | Inr data \<Rightarrow> upload_data sha closed data ul)"

text \<open>
  The entries of a directory: \<open>dir\<close> is its message so far, \<open>below\<close> the messages of the directories under it, each before those under
  it, which is the order in which \<^verbatim>\<open>visited\<close> has them.
\<close>

fun upload_entries ::
  "(bytes \<Rightarrow> string) \<Rightarrow> (Directory \<Rightarrow> error + bytes) \<Rightarrow> dir_entry list \<Rightarrow> Directory \<Rightarrow> Directory list \<Rightarrow> BatchCASUploader
    \<Rightarrow> (error + Directory \<times> Directory list) \<times> BatchCASUploader" where
  "upload_entries sha marshal [] dir below ul = (Inr (dir, below), ul)"
| "upload_entries sha marshal (SubDir name es # rest) dir below ul =
     (case upload_entries sha marshal es \<lparr>dirFiles = [], dirDirectories = [], dirSymlinks = []\<rparr> [] ul of
        (Inl e, ul1) \<Rightarrow> (Inl e, ul1)
      | (Inr (sub, subs), ul1) \<Rightarrow>
     (case ul_UploadProto sha marshal sub ul1 of
        (Inl e, ul2) \<Rightarrow> (Inl e, ul2)
      | (Inr d, ul2) \<Rightarrow>
          upload_entries sha marshal rest (dir\<lparr>dirDirectories := dirDirectories dir @ [\<lparr>dnName = name, dnDigest = Some d\<rparr>]\<rparr>) (below @ sub # subs) ul2))"
| "upload_entries sha marshal (UnreadableDir name e # rest) dir below ul = (Inl e, ul)"
| "upload_entries sha marshal (RegularFile name info contents closed # rest) dir below ul =
     (case info of
        Inl e \<Rightarrow> (Inl e, ul)
      | Inr executable \<Rightarrow>
     (case ul_UploadFile sha contents closed ul of
        (Inl e, ul1) \<Rightarrow> (Inl e, ul1)
      | (Inr d, ul1) \<Rightarrow>
          upload_entries sha marshal rest
            (dir\<lparr>dirFiles := dirFiles dir @ [\<lparr>fnName = name, fnDigest = Some d, fnIsExecutable = executable\<rparr>]\<rparr>) below ul1))"
| "upload_entries sha marshal (Symlink name target # rest) dir below ul =
     (case target of
        Inl e \<Rightarrow> (Inl e, ul)
      | Inr t \<Rightarrow> upload_entries sha marshal rest (dir\<lparr>dirSymlinks := dirSymlinks dir @ [\<lparr>snName = name, snTarget = t\<rparr>]\<rparr>) below ul)"
| "upload_entries sha marshal (OtherEntry name # rest) dir below ul = upload_entries sha marshal rest dir below ul"

definition uploadDir ::
  "(bytes \<Rightarrow> string) \<Rightarrow> (Directory \<Rightarrow> error + bytes) \<Rightarrow> error + dir_entry list \<Rightarrow> BatchCASUploader \<Rightarrow> (error + Directory list \<times> Digest) \<times> BatchCASUploader" where
  "uploadDir sha marshal entries ul =
     (case entries of
        Inl e \<Rightarrow> (Inl e, ul)
      | Inr es \<Rightarrow>
     (case upload_entries sha marshal es \<lparr>dirFiles = [], dirDirectories = [], dirSymlinks = []\<rparr> [] ul of
        (Inl e, ul1) \<Rightarrow> (Inl e, ul1)
      | (Inr (dir, below), ul1) \<Rightarrow>
     (case ul_UploadProto sha marshal dir ul1 of
        (Inl e, ul2) \<Rightarrow> (Inl e, ul2)
      | (Inr d, ul2) \<Rightarrow> (Inr (dir # below, d), ul2))))"

text \<open>What \<open>UploadDirectoryToCAS\<close> does before it waits: the digests of the root and of the tree.\<close>

definition upload_directory ::
  "(bytes \<Rightarrow> string) \<Rightarrow> (Directory \<Rightarrow> error + bytes) \<Rightarrow> (Tree \<Rightarrow> error + bytes) \<Rightarrow> error + dir_entry list \<Rightarrow> BatchCASUploader
    \<Rightarrow> (error + Digest \<times> Digest) \<times> BatchCASUploader" where
  "upload_directory sha marshal marshalTree entries ul =
     (case uploadDir sha marshal entries ul of
        (Inl e, ul1) \<Rightarrow> (Inl e, ul1)
      | (Inr (visited, rootDirectoryDigest), ul1) \<Rightarrow>
          if visited = [] then (Inl (InternalError ''empty directory list after uploading directory tree; this should never happen''), ul1)
          else
     (case ul_UploadProto sha marshalTree \<lparr>trRoot = Some (hd visited), trChildren = tl visited\<rparr> ul1 of
        (Inl e, ul2) \<Rightarrow> (Inl e, ul2)
      | (Inr treeDigest, ul2) \<Rightarrow> (Inr (rootDirectoryDigest, treeDigest), ul2)))"

definition UploadDirectoryToCAS ::
  "'s bs_client \<Rightarrow> (update_request list \<Rightarrow> 's \<Rightarrow> ((error + (Digest option \<times> error option) list) \<times> 's) option) \<Rightarrow> string option \<Rightarrow> string
    \<Rightarrow> (upload_job list \<Rightarrow> upload_job list) \<Rightarrow> (bytes \<Rightarrow> string) \<Rightarrow> (Directory \<Rightarrow> error + bytes) \<Rightarrow> (Tree \<Rightarrow> error + bytes) \<Rightarrow> error + dir_entry list
    \<Rightarrow> 's \<Rightarrow> ((error + Digest \<times> Digest) \<times> 's) option" where
  "UploadDirectoryToCAS bc batchUpdate uuid inst ord sha marshal marshalTree entries s =
     (case upload_directory sha marshal marshalTree entries NewBatchCASUploader of
        (Inl e, ul) \<Rightarrow> Some (Inl e, s)
      | (Inr ds, ul) \<Rightarrow>
          map_option (\<lambda>(e, s'). (case e of Some e \<Rightarrow> Inl e | None \<Rightarrow> Inr ds, s')) (ul_Wait bc batchUpdate uuid inst ord ul s))"


section \<open>What is uploaded\<close>

text \<open>What a job sends has the digest that it is sent under.\<close>

fun job_data_ok :: "(bytes \<Rightarrow> string) \<Rightarrow> upload_job \<Rightarrow> bool" where
  "job_data_ok sha (StreamUpload d r) \<longleftrightarrow> d = Compute sha (concat (map fst (upr_reads r)))"
| "job_data_ok sha (BatchUpload reqs) \<longleftrightarrow> (\<forall>req\<in>set reqs. urDigest req = Some (Compute sha (urData req)) \<and> urCompressor req = IDENTITY)"

definition uploader_ok :: "(bytes \<Rightarrow> string) \<Rightarrow> BatchCASUploader \<Rightarrow> bool" where
  "uploader_ok sha ul \<longleftrightarrow> ul_ok ul \<and> (\<forall>job\<in>set (ulJobs ul @ [BatchUpload (ulBatch ul)]). job_data_ok sha job)"

lemma uploader_ok_new: "uploader_ok sha NewBatchCASUploader"
  using ul_ok_new by (simp add: uploader_ok_def NewBatchCASUploader_def)

lemma upload_data_ok:
  assumes "uploader_ok sha ul" and "upload_data sha c data ul = (Inr d, ul')"
  shows "uploader_ok sha ul'" and "d = Compute sha data" and "ulUploads ul' = insert (NewKey d) (ulUploads ul)"
proof -
  have up: "ul_Upload (Compute sha data) (data_reader c data) ul = (None, ul')" and d: "d = Compute sha data"
    using assms(2) by (auto simp: upload_data_def split: prod.splits option.splits)
  have "\<forall>job\<in>set (ulJobs ul' @ [BatchUpload (ulBatch ul')]). job_data_ok sha job"
    using assms(1) up unfolding ul_Upload_def uploader_ok_def Let_def
    by (auto simp: data_reader_def flushCurrentBatch_def file_reads_concat split: if_splits option.splits)
  then show "uploader_ok sha ul'" "ulUploads ul' = insert (NewKey d) (ulUploads ul)"
    using ul_Upload_ok [OF _ up] assms(1) d by (simp_all add: uploader_ok_def)
qed (use assms(2) in \<open>auto simp: upload_data_def split: prod.splits option.splits\<close>)

text \<open>What a directory names is uploaded, and its subdirectories are described by one of the messages \<open>ds\<close>.\<close>

definition dir_closed :: "(bytes \<Rightarrow> string) \<Rightarrow> (Directory \<Rightarrow> error + bytes) \<Rightarrow> Key set \<Rightarrow> Directory set \<Rightarrow> Directory \<Rightarrow> bool" where
  "dir_closed sha marshal ks ds dir \<longleftrightarrow>
     (\<forall>f\<in>set (dirFiles dir). \<exists>d. fnDigest f = Some d \<and> NewKey d \<in> ks) \<and>
     (\<forall>n\<in>set (dirDirectories dir). \<exists>sub\<in>ds. \<exists>b. marshal sub = Inr b \<and> dnDigest n = Some (Compute sha b) \<and> NewKey (Compute sha b) \<in> ks)"

lemma dir_closed_mono: "dir_closed sha marshal ks ds dir \<Longrightarrow> ks \<subseteq> ks' \<Longrightarrow> ds \<subseteq> ds' \<Longrightarrow> dir_closed sha marshal ks' ds' dir"
  unfolding dir_closed_def by (meson subsetD)

definition dirs_closed :: "(bytes \<Rightarrow> string) \<Rightarrow> (Directory \<Rightarrow> error + bytes) \<Rightarrow> Key set \<Rightarrow> Directory \<Rightarrow> Directory list \<Rightarrow> bool" where
  "dirs_closed sha marshal ks dir below \<longleftrightarrow> (\<forall>x\<in>set (dir # below). dir_closed sha marshal ks (set below) x)"

lemma dirs_closed_empty: "dirs_closed sha marshal ks \<lparr>dirFiles = [], dirDirectories = [], dirSymlinks = []\<rparr> []"
  by (simp add: dirs_closed_def dir_closed_def)

lemma dirs_closed_mono: "dirs_closed sha marshal ks dir below \<Longrightarrow> ks \<subseteq> ks' \<Longrightarrow> dirs_closed sha marshal ks' dir below"
  unfolding dirs_closed_def using dir_closed_mono by blast

lemma dirs_closed_sub:
  assumes "dirs_closed sha marshal ks dir below" and "dirs_closed sha marshal ks sub subs"
    and "marshal sub = Inr b" and "NewKey (Compute sha b) \<in> ks"
  shows "dirs_closed sha marshal ks (dir\<lparr>dirDirectories := dirDirectories dir @ [\<lparr>dnName = n, dnDigest = Some (Compute sha b)\<rparr>]\<rparr>) (below @ sub # subs)"
proof -
  have "dir_closed sha marshal ks (set (below @ sub # subs)) x" if "x \<in> set (dir # below) \<union> set (sub # subs)" for x
    using that assms(1,2) dir_closed_mono [of sha marshal ks _ x ks "set (below @ sub # subs)"] unfolding dirs_closed_def by fastforce
  then show ?thesis using assms(3,4) unfolding dirs_closed_def by (auto simp: dir_closed_def)
qed

lemma dirs_closed_file:
  assumes "dirs_closed sha marshal ks dir below" and "NewKey d \<in> ks"
  shows "dirs_closed sha marshal ks (dir\<lparr>dirFiles := dirFiles dir @ [\<lparr>fnName = n, fnDigest = Some d, fnIsExecutable = x\<rparr>]\<rparr>) below"
  using assms unfolding dirs_closed_def by (auto simp: dir_closed_def)

lemma dirs_closed_symlink: "dirs_closed sha marshal ks dir below \<Longrightarrow> dirs_closed sha marshal ks (dir\<lparr>dirSymlinks := l\<rparr>) below"
  unfolding dirs_closed_def by (auto simp: dir_closed_def)

lemma upload_proto_ok:
  assumes "uploader_ok sha ul" and "ul_UploadProto sha marshal msg ul = (Inr d, ul')"
  shows "uploader_ok sha ul'" and "\<exists>b. marshal msg = Inr b \<and> d = Compute sha b" and "ulUploads ul' = insert (NewKey d) (ulUploads ul)"
  using assms upload_data_ok [OF assms(1)] by (auto simp: ul_UploadProto_def split: sum.splits)

lemma upload_entries_ok:
  assumes "upload_entries sha marshal es dir below ul = (Inr (dir', below'), ul')" and "uploader_ok sha ul"
    and "dirs_closed sha marshal (ulUploads ul) dir below"
  shows "uploader_ok sha ul' \<and> ulUploads ul \<subseteq> ulUploads ul' \<and> dirs_closed sha marshal (ulUploads ul') dir' below'"
  using assms
proof (induction sha marshal es dir below ul arbitrary: dir' below' ul' rule: upload_entries.induct)
  case (2 sha marshal name es rest dir below ul)
  obtain sub subs ul1 where 1: "upload_entries sha marshal es \<lparr>dirFiles = [], dirDirectories = [], dirSymlinks = []\<rparr> [] ul = (Inr (sub, subs), ul1)"
    using "2.prems"(1) by (auto split: prod.splits sum.splits)
  obtain d ul2 where u: "ul_UploadProto sha marshal sub ul1 = (Inr d, ul2)"
    using "2.prems"(1) 1 by (auto split: prod.splits sum.splits)
  have i: "uploader_ok sha ul1" "ulUploads ul \<subseteq> ulUploads ul1" "dirs_closed sha marshal (ulUploads ul1) sub subs"
    using "2.IH"(1) [OF 1 "2.prems"(2) dirs_closed_empty] by simp_all
  obtain b where b: "marshal sub = Inr b" "d = Compute sha b" and o: "uploader_ok sha ul2" and ks: "ulUploads ul2 = insert (NewKey d) (ulUploads ul1)"
    using upload_proto_ok [OF i(1) u] by blast
  have "dirs_closed sha marshal (ulUploads ul2) (dir\<lparr>dirDirectories := dirDirectories dir @ [\<lparr>dnName = name, dnDigest = Some d\<rparr>]\<rparr>) (below @ sub # subs)"
    unfolding b(2) using b ks i
    by (intro dirs_closed_sub dirs_closed_mono [OF "2.prems"(3)] dirs_closed_mono [OF i(3)]) auto
  moreover have "upload_entries sha marshal rest (dir\<lparr>dirDirectories := dirDirectories dir @ [\<lparr>dnName = name, dnDigest = Some d\<rparr>]\<rparr>)
      (below @ sub # subs) ul2 = (Inr (dir', below'), ul')"
    using "2.prems"(1) 1 u by simp
  ultimately have "uploader_ok sha ul'" "ulUploads ul2 \<subseteq> ulUploads ul'" "dirs_closed sha marshal (ulUploads ul') dir' below'"
    using "2.IH"(2) [OF 1 [symmetric] refl refl u [symmetric] refl _ o] by simp_all
  then show ?case using i(2) ks by blast
next
  case (4 sha marshal name info contents closed rest dir below ul)
  obtain x d ul1 where f: "info = Inr x" "ul_UploadFile sha contents closed ul = (Inr d, ul1)"
    using "4.prems"(1) by (auto split: prod.splits sum.splits)
  have u: "uploader_ok sha ul1" "ulUploads ul1 = insert (NewKey d) (ulUploads ul)"
    using upload_data_ok [OF "4.prems"(2)] f(2) by (auto simp: ul_UploadFile_def split: sum.splits)
  have "dirs_closed sha marshal (ulUploads ul1) (dir\<lparr>dirFiles := dirFiles dir @ [\<lparr>fnName = name, fnDigest = Some d, fnIsExecutable = x\<rparr>]\<rparr>) below"
    using u by (intro dirs_closed_file dirs_closed_mono [OF "4.prems"(3)]) auto
  moreover have "upload_entries sha marshal rest (dir\<lparr>dirFiles := dirFiles dir @ [\<lparr>fnName = name, fnDigest = Some d, fnIsExecutable = x\<rparr>]\<rparr>) below ul1 =
      (Inr (dir', below'), ul')"
    using "4.prems"(1) f by simp
  ultimately have "uploader_ok sha ul'" "ulUploads ul1 \<subseteq> ulUploads ul'" "dirs_closed sha marshal (ulUploads ul') dir' below'"
    using "4.IH" [OF f(1) f(2) [symmetric] refl _ u(1)] by simp_all
  then show ?case using u(2) by blast
next
  case (5 sha marshal name target rest dir below ul)
  then show ?case by (cases target) (simp_all add: dirs_closed_symlink)
qed auto


text \<open>
  The messages that describe what is on disk, without any uploader: the root's, and those below it. \<open>readable\<close> says that nothing of it fails
  to be read.
\<close>

definition files_of :: "(bytes \<Rightarrow> string) \<Rightarrow> dir_entry list \<Rightarrow> FileNode list" where
  "files_of sha es = concat (map (\<lambda>x. case x of
       RegularFile name (Inr executable) (Inr data) closed \<Rightarrow> [\<lparr>fnName = name, fnDigest = Some (Compute sha data), fnIsExecutable = executable\<rparr>]
     | _ \<Rightarrow> []) es)"

definition symlinks_of :: "dir_entry list \<Rightarrow> SymlinkNode list" where
  "symlinks_of es = concat (map (\<lambda>x. case x of Symlink name (Inr target) \<Rightarrow> [\<lparr>snName = name, snTarget = target\<rparr>] | _ \<Rightarrow> []) es)"

fun directories_of :: "(bytes \<Rightarrow> string) \<Rightarrow> (Directory \<Rightarrow> error + bytes) \<Rightarrow> dir_entry list \<Rightarrow> DirectoryNode list" where
  "directories_of sha marshal [] = []"
| "directories_of sha marshal (SubDir name subs # es) =
     (let sub = \<lparr>dirFiles = files_of sha subs, dirDirectories = directories_of sha marshal subs, dirSymlinks = symlinks_of subs\<rparr> in
      \<lparr>dnName = name, dnDigest = Some (Compute sha (projr (marshal sub)))\<rparr> # directories_of sha marshal es)"
| "directories_of sha marshal (x # es) = directories_of sha marshal es"

definition dir_message :: "(bytes \<Rightarrow> string) \<Rightarrow> (Directory \<Rightarrow> error + bytes) \<Rightarrow> dir_entry list \<Rightarrow> Directory" where
  "dir_message sha marshal es =
     \<lparr>dirFiles = files_of sha es, dirDirectories = directories_of sha marshal es, dirSymlinks = symlinks_of es\<rparr>"

fun messages_below :: "(bytes \<Rightarrow> string) \<Rightarrow> (Directory \<Rightarrow> error + bytes) \<Rightarrow> dir_entry list \<Rightarrow> Directory list" where
  "messages_below sha marshal [] = []"
| "messages_below sha marshal (SubDir name subs # es) =
     dir_message sha marshal subs # messages_below sha marshal subs @ messages_below sha marshal es"
| "messages_below sha marshal (x # es) = messages_below sha marshal es"

fun readable :: "dir_entry \<Rightarrow> bool" where
  "readable (SubDir name subs) \<longleftrightarrow> (\<forall>x\<in>set subs. readable x)"
| "readable (UnreadableDir name e) \<longleftrightarrow> False"
| "readable (RegularFile name info contents closed) \<longleftrightarrow> \<not> isl info \<and> \<not> isl contents"
| "readable (Symlink name target) \<longleftrightarrow> \<not> isl target"
| "readable (OtherEntry name) \<longleftrightarrow> True"


text \<open>Adding the messages of entries to those before them.\<close>

definition add_message :: "Directory \<Rightarrow> Directory \<Rightarrow> Directory" where
  "add_message a b = \<lparr>dirFiles = dirFiles a @ dirFiles b, dirDirectories = dirDirectories a @ dirDirectories b, dirSymlinks = dirSymlinks a @ dirSymlinks b\<rparr>"

lemma add_message_empty [simp]: "add_message \<lparr>dirFiles = [], dirDirectories = [], dirSymlinks = []\<rparr> b = b"
  by (simp add: add_message_def)

lemma dir_message_Nil: "add_message dir (dir_message sha marshal []) = dir" "messages_below sha marshal [] = []"
  by (simp_all add: dir_message_def add_message_def files_of_def symlinks_of_def)

lemma dir_message_SubDir:
  assumes "marshal (dir_message sha marshal subs) = Inr b"
  shows "add_message dir (dir_message sha marshal (SubDir name subs # es)) =
    add_message (dir\<lparr>dirDirectories := dirDirectories dir @ [\<lparr>dnName = name, dnDigest = Some (Compute sha b)\<rparr>]\<rparr>) (dir_message sha marshal es)"
    "messages_below sha marshal (SubDir name subs # es) =
      dir_message sha marshal subs # messages_below sha marshal subs @ messages_below sha marshal es"
  using assms by (simp_all add: dir_message_def add_message_def files_of_def symlinks_of_def Let_def)

lemma dir_message_RegularFile:
  "add_message dir (dir_message sha marshal (RegularFile name (Inr x) (Inr data) closed # es)) =
    add_message (dir\<lparr>dirFiles := dirFiles dir @ [\<lparr>fnName = name, fnDigest = Some (Compute sha data), fnIsExecutable = x\<rparr>]\<rparr>) (dir_message sha marshal es)"
  "messages_below sha marshal (RegularFile name i c closed # es) = messages_below sha marshal es"
  by (simp_all add: dir_message_def add_message_def files_of_def symlinks_of_def)

lemma dir_message_other:
  "add_message dir (dir_message sha marshal (Symlink name (Inr t) # es)) =
    add_message (dir\<lparr>dirSymlinks := dirSymlinks dir @ [\<lparr>snName = name, snTarget = t\<rparr>]\<rparr>) (dir_message sha marshal es)"
  "messages_below sha marshal (Symlink name target # es) = messages_below sha marshal es"
  "dir_message sha marshal (OtherEntry name # es) = dir_message sha marshal es"
  "messages_below sha marshal (OtherEntry name # es) = messages_below sha marshal es"
  by (simp_all add: dir_message_def add_message_def files_of_def symlinks_of_def)

lemma upload_data_digest: "upload_data sha c data ul = (Inr d, ul') \<Longrightarrow> d = Compute sha data"
  by (auto simp: upload_data_def split: prod.splits option.splits)

lemma upload_proto_digest:
  "ul_UploadProto sha marshal msg ul = (Inr d, ul') \<Longrightarrow> \<exists>b. marshal msg = Inr b \<and> d = Compute sha b"
  by (auto simp: ul_UploadProto_def split: sum.splits dest: upload_data_digest)

lemma upload_entries_message:
  assumes "upload_entries sha marshal es dir below ul = (Inr (dir', below'), ul')"
  shows "dir' = add_message dir (dir_message sha marshal es) \<and> below' = below @ messages_below sha marshal es \<and> (\<forall>x\<in>set es. readable x)"
  using assms
proof (induction sha marshal es dir below ul arbitrary: dir' below' ul' rule: upload_entries.induct)
  case (2 sha marshal name es rest dir below ul)
  obtain sub subs ul1 where 1: "upload_entries sha marshal es \<lparr>dirFiles = [], dirDirectories = [], dirSymlinks = []\<rparr> [] ul = (Inr (sub, subs), ul1)"
    using "2.prems" by (auto split: prod.splits sum.splits)
  obtain d ul2 where u: "ul_UploadProto sha marshal sub ul1 = (Inr d, ul2)"
    using "2.prems" 1 by (auto split: prod.splits sum.splits)
  have i: "sub = dir_message sha marshal es" "subs = messages_below sha marshal es" "\<forall>x\<in>set es. readable x"
    using "2.IH"(1) [OF 1] by simp_all
  obtain b where b: "marshal sub = Inr b" "d = Compute sha b" using upload_proto_digest [OF u] by blast
  have "upload_entries sha marshal rest (dir\<lparr>dirDirectories := dirDirectories dir @ [\<lparr>dnName = name, dnDigest = Some d\<rparr>]\<rparr>)
      (below @ sub # subs) ul2 = (Inr (dir', below'), ul')"
    using "2.prems" 1 u by simp
  from "2.IH"(2) [OF 1 [symmetric] refl refl u [symmetric] refl this] show ?case
    using b i by (simp add: dir_message_SubDir)
next
  case (4 sha marshal name info contents closed rest dir below ul)
  obtain x d ul1 data where f0: "info = Inr x" "ul_UploadFile sha contents closed ul = (Inr d, ul1)" "contents = Inr data"
    using "4.prems" by (auto simp: ul_UploadFile_def split: prod.splits sum.splits)
  have "d = Compute sha data" using f0(2,3) upload_data_digest by (simp add: ul_UploadFile_def)
  note f = f0 this
  have "upload_entries sha marshal rest (dir\<lparr>dirFiles := dirFiles dir @ [\<lparr>fnName = name, fnDigest = Some d, fnIsExecutable = x\<rparr>]\<rparr>) below ul1 =
      (Inr (dir', below'), ul')"
    using "4.prems" f by simp
  from "4.IH" [OF f(1) f(2) [symmetric] refl this] show ?case using f by (simp add: dir_message_RegularFile)
next
  case (5 sha marshal name target rest dir below ul)
  then show ?case by (cases target) (simp_all add: dir_message_other)
qed (simp_all add: dir_message_Nil dir_message_other)

lemma ul_finish_data: "uploader_ok sha ul \<Longrightarrow> job \<in> set (ulJobs (ul_finish ul)) \<Longrightarrow> job_data_ok sha job"
  unfolding uploader_ok_def ul_finish_def flushCurrentBatch_def by (auto split: if_splits)

lemma uploader_keys: "uploader_ok sha ul \<Longrightarrow> set (map NewKey (concat (map job_digests (ulJobs (ul_finish ul))))) = ulUploads ul"
  unfolding uploader_ok_def ul_ok_def ul_finish_digests by blast

text \<open>C17: Uploading a directory without an error sends all of it: everything in it could be read; the root and the directories below it are described by the
  messages that list, in order, every file with its name, digest and mode, every subdirectory with its name and the digest of its message, and every
  symbolic link; the digests of the root's message and of the tree with all the messages are returned; and the jobs that are left to wait for
  have each digest once, with data of that digest, and among them the root, the tree, and every file and subdirectory that is listed.\<close>

theorem directory_upload_is_whole:
  assumes "upload_directory sha marshal marshalTree (Inr es) NewBatchCASUploader = (Inr (rootd, treed), ul)"
  shows "\<exists>b t. marshal (dir_message sha marshal es) = Inr b \<and> rootd = Compute sha b \<and>
    marshalTree \<lparr>trRoot = Some (dir_message sha marshal es), trChildren = messages_below sha marshal es\<rparr> = Inr t \<and> treed = Compute sha t \<and>
    (\<forall>x\<in>set es. readable x) \<and>
    (let jobs = ulJobs (ul_finish ul); ks = map NewKey (concat (map job_digests jobs)) in
      NewKey rootd \<in> set ks \<and> NewKey treed \<in> set ks \<and> distinct ks \<and> (\<forall>job\<in>set jobs. job_data_ok sha job) \<and>
      dirs_closed sha marshal (set ks) (dir_message sha marshal es) (messages_below sha marshal es))"
proof -
  obtain root below ul0 ul1 where 1: "upload_entries sha marshal es \<lparr>dirFiles = [], dirDirectories = [], dirSymlinks = []\<rparr> [] NewBatchCASUploader =
      (Inr (root, below), ul0)" "ul_UploadProto sha marshal root ul0 = (Inr rootd, ul1)"
    and 2: "ul_UploadProto sha marshalTree \<lparr>trRoot = Some root, trChildren = below\<rparr> ul1 = (Inr treed, ul)"
    using assms by (auto simp: upload_directory_def uploadDir_def split: prod.splits sum.splits if_splits)
  have m: "root = dir_message sha marshal es" "below = messages_below sha marshal es" "\<forall>x\<in>set es. readable x"
    using upload_entries_message [OF 1(1)] by simp_all
  have u0: "uploader_ok sha ul0" "dirs_closed sha marshal (ulUploads ul0) root below"
    using upload_entries_ok [OF 1(1) uploader_ok_new dirs_closed_empty] by simp_all
  note p1 = upload_proto_ok [OF u0(1) 1(2)]
  note p2 = upload_proto_ok [OF p1(1) 2]
  have ks: "set (map NewKey (concat (map job_digests (ulJobs (ul_finish ul))))) = insert (NewKey treed) (insert (NewKey rootd) (ulUploads ul0))"
    using uploader_keys [OF p2(1)] p1(3) p2(3) by simp
  have d: "distinct (map NewKey (concat (map job_digests (ulJobs (ul_finish ul)))))"
    using p2(1) unfolding uploader_ok_def ul_ok_def ul_finish_digests by blast
  have c: "dirs_closed sha marshal (insert (NewKey treed) (insert (NewKey rootd) (ulUploads ul0))) root below"
    by (rule dirs_closed_mono [OF u0(2)]) blast
  show ?thesis using p1(2) p2(2) ul_finish_data [OF p2(1)] d c m(3) unfolding Let_def ks m(1,2) by blast
qed

definition demo_entries :: "dir_entry list" where
  "demo_entries = [SubDir ''a'' [RegularFile ''f'' (Inr True) (Inr [1, 2]) None], RegularFile ''g'' (Inr False) (Inr [1, 2]) None, Symlink ''l'' (Inr ''g'')]"

theorem directory_upload_is_whole_witness:
  "\<exists>rootd treed ul. upload_directory (\<lambda>b. map (\<lambda>w. char_of (uint w)) b) (\<lambda>d. Inr (map (\<lambda>_. 3) (dirDirectories d) @ [4])) (\<lambda>_. Inr [5]) (Inr demo_entries)
      NewBatchCASUploader = (Inr (rootd, treed), ul) \<and>
    distinct (map NewKey (concat (map job_digests (ulJobs (ul_finish ul)))))"
proof -
  let ?run = "upload_directory (\<lambda>b. map (\<lambda>w. char_of (uint w)) b) (\<lambda>d. Inr (map (\<lambda>_. 3) (dirDirectories d) @ [4])) (\<lambda>_. Inr [5]) (Inr demo_entries)
      NewBatchCASUploader"
  have "\<not> isl (fst ?run)"
    by (simp add: upload_directory_def uploadDir_def demo_entries_def ul_UploadProto_def ul_UploadFile_def upload_data_def ul_Upload_def
      NewBatchCASUploader_def data_reader_def Compute_def tools_gRPCMaxSize_def Let_def)
  then obtain rootd treed ul where "?run = (Inr (rootd, treed), ul)" by (cases ?run, cases "fst ?run") auto
  then show ?thesis using directory_upload_is_whole [of _ _ _ demo_entries rootd treed ul] unfolding Let_def by blast
qed


end
