(* ===== verification/ByteStreamProofs.thy ===== *)
theory ByteStreamProofs
  imports CacheTools
begin

text \<open>
  What the byte stream server does to a cache that keeps the contract \<open>streaming_cache\<close>: nothing before an upload is complete and its bytes
  have the hash and the size that they were announced with; then it stores them under that digest and no other.
\<close>

section \<open>The contract\<close>

locale cas_cache = streaming_cache cache cinv blobs pend valid same_key yields fits
  for cache :: "(Digest option, 's, 'r, 'w) Cache"
    and cinv :: "'s \<Rightarrow> bool"
    and blobs :: "'s \<Rightarrow> Digest option \<Rightarrow> bytes option"
    and pend :: "'w \<Rightarrow> Digest option \<Rightarrow> bytes \<Rightarrow> bool"
    and valid :: "Digest option \<Rightarrow> bool"
    and same_key :: "Digest option \<Rightarrow> Digest option \<Rightarrow> bool"
    and yields :: "'r \<Rightarrow> bytes \<Rightarrow> bool"
    and fits :: "'s \<Rightarrow> Digest option \<Rightarrow> bytes \<Rightarrow> bool" +
  assumes Contains_fits: "cinv s \<Longrightarrow> valid d \<Longrightarrow> c_Contains cache d s = Some (r, s') \<Longrightarrow> fits s d v \<Longrightarrow> fits s' d v"
    and GetMulti_keeps: "cinv s \<Longrightarrow> \<forall>d\<in>set ds. valid d \<Longrightarrow> c_GetMulti cache ds s = Some (rm, s') \<Longrightarrow> blobs s' = blobs s"

text \<open>An upload under way, and what it may have done in the end.\<close>

definition upload_ok :: "('w \<Rightarrow> Digest option \<Rightarrow> bytes \<Rightarrow> bool) \<Rightarrow> ('w, 'z) writeState \<Rightarrow> bool" where
  "upload_ok pend ws \<longleftrightarrow>
     ckBytesWritten (ws_checksum ws) = int (length (ckHashed (ws_checksum ws))) \<and>
     (\<forall>w. ws_cache ws = Some w \<longrightarrow> pend w (Some (ws_d ws)) (ckHashed (ws_checksum ws)))"

definition same_upload :: "('w, 'z) writeState \<Rightarrow> ('w, 'z) writeState \<Rightarrow> bool" where
  "same_upload ws ws' \<longleftrightarrow> ws_d ws' = ws_d ws \<and> ws_activeResourceName ws' = ws_activeResourceName ws \<and> (ws_cache ws' = None \<longleftrightarrow> ws_cache ws = None)"

definition verified_store ::
  "(bytes \<Rightarrow> string) \<Rightarrow> (Digest option \<Rightarrow> bool) \<Rightarrow> (Digest option \<Rightarrow> Digest option \<Rightarrow> bool) \<Rightarrow> Digest
    \<Rightarrow> (Digest option \<Rightarrow> bytes option) \<Rightarrow> (Digest option \<Rightarrow> bytes option) \<Rightarrow> bool" where
  "verified_store sha valid same_key d b b' \<longleftrightarrow>
     b' = b \<or> (\<exists>v. sha v = dHash d \<and> int (length v) = dSizeBytes d \<and> stores valid same_key (Some d) v b b')"

lemma same_upload_refl [simp]: "same_upload ws ws"
  by (simp add: same_upload_def)

lemma same_upload_trans: "same_upload a b \<Longrightarrow> same_upload b c \<Longrightarrow> same_upload a c"
  by (simp add: same_upload_def)

lemma same_upload_update [simp]: "same_upload ws (ws'\<lparr>ws_writer := z\<rparr>) = same_upload ws ws'"
  "same_upload ws (ws'\<lparr>ws_offset := n\<rparr>) = same_upload ws ws'"
  by (simp_all add: same_upload_def)

lemma upload_ok_update [simp]: "upload_ok pend (ws\<lparr>ws_writer := z\<rparr>) = upload_ok pend ws"
  "upload_ok pend (ws\<lparr>ws_offset := n\<rparr>) = upload_ok pend ws"
  by (simp_all add: upload_ok_def)

lemma verified_refl [simp]: "verified_store sha valid sk d b b"
  by (simp add: verified_store_def)

lemma upload_requests_reads:
  "snd (upload_requests name off (map (\<lambda>p. (p, None)) ps)) = None"
  "\<exists>req reqs. fst (upload_requests name off (map (\<lambda>p. (p, None)) ps)) = req # reqs \<and> wqResourceName req = name \<and> wqWriteOffset req = off"
proof -
  show "snd (upload_requests name off (map (\<lambda>p. (p, None)) ps)) = None"
    by (induction ps arbitrary: off) (simp_all add: Let_def split_beta)
  show "\<exists>req reqs. fst (upload_requests name off (map (\<lambda>p. (p, None)) ps)) = req # reqs \<and> wqResourceName req = name \<and> wqWriteOffset req = off"
    by (cases ps) (auto simp: Let_def split: prod.splits)
qed

context cas_cache
begin

text \<open>What a step keeps that is not a commit.\<close>

definition quiet :: "Digest \<Rightarrow> 's \<Rightarrow> 's \<Rightarrow> bool" where
  "quiet d s s' \<longleftrightarrow> cinv s' \<and> blobs s' = blobs s \<and> (\<forall>v. fits s (Some d) v \<longrightarrow> fits s' (Some d) v)"

lemma quiet_refl: "cinv s \<Longrightarrow> quiet d s s"
  by (simp add: quiet_def)

lemma quiet_trans: "quiet d s s1 \<Longrightarrow> quiet d s1 s2 \<Longrightarrow> quiet d s s2"
  by (simp add: quiet_def)

lemma multi_write_ok:
  assumes "cinv s" and "upload_ok pend ws"
  shows "\<exists>ws' s'. multi_write cache p ws s = Some ((length p, None), ws', s') \<and> quiet (ws_d ws) s s' \<and> upload_ok pend ws' \<and> same_upload ws ws' \<and>
    ckHashed (ws_checksum ws') = ckHashed (ws_checksum ws) @ p \<and> ws_writer ws' = ws_writer ws \<and> ws_offset ws' = ws_offset ws"
proof (cases "ws_cache ws")
  case None
  then show ?thesis using assms by (simp add: multi_write_def Checksum_Write_def upload_ok_def same_upload_def quiet_def Let_def)
next
  case (Some w)
  then have p: "pend w (Some (ws_d ws)) (ckHashed (ws_checksum ws))" using assms(2) by (simp add: upload_ok_def)
  obtain w' s' where w: "w_Write cache w p s = Some ((length p, None, w'), s')" "cinv s'"
      "pend w' (Some (ws_d ws)) (ckHashed (ws_checksum ws) @ p)"
    using Write_law [OF assms(1) p] by blast
  have "quiet (ws_d ws) s s'" using Write_keeps [OF assms(1) p w(1)] w(2) by (simp add: quiet_def)
  then show ?thesis using assms w Some
    by (simp add: multi_write_def Checksum_Write_def upload_ok_def same_upload_def Let_def)
qed

lemma decoder_write_ok:
  assumes "cinv s" and "upload_ok pend ws"
  shows "\<exists>ws' s'. decoder_write cache out ws s = Some (None, ws', s') \<and> quiet (ws_d ws) s s' \<and> upload_ok pend ws' \<and> same_upload ws ws' \<and>
    ws_writer ws' = ws_writer ws \<and> ws_offset ws' = ws_offset ws"
  using multi_write_ok [OF assms, of out] assms by (auto simp: decoder_write_def quiet_refl)

lemma ws_Write_ok:
  assumes "cinv s" and "upload_ok pend ws"
  shows "\<exists>e ws' s'. ws_Write Z cache p ws s = Some (e, ws', s') \<and> quiet (ws_d ws) s s' \<and> upload_ok pend ws' \<and> same_upload ws ws'"
proof -
  obtain ws1 s1 where m: "multi_write cache p ws s = Some ((length p, None), ws1, s1)" "quiet (ws_d ws) s s1" "upload_ok pend ws1" "same_upload ws ws1"
    using multi_write_ok [OF assms] by blast
  show ?thesis
  proof (cases "ws_writer ws")
    case (Piped z)
    obtain out z' stop where f: "zs_feed Z z p = (out, z', stop)" by (metis prod.exhaust)
    obtain ws2 s2 where "decoder_write cache out ws s = Some (None, ws2, s2)" "quiet (ws_d ws) s s2" "upload_ok pend ws2" "same_upload ws ws2"
      using decoder_write_ok [OF assms] by blast
    then show ?thesis using f Piped by (cases stop) (auto simp: ws_Write_def writer_Write_def)
  qed (use m assms in \<open>simp_all add: ws_Write_def writer_Write_def quiet_refl\<close>)
qed

lemma ws_Write_direct:
  assumes "cinv s" and "upload_ok pend ws" and "ws_writer ws = Direct"
  shows "\<exists>ws' s'. ws_Write Z cache p ws s = Some (None, ws', s') \<and> quiet (ws_d ws) s s' \<and> upload_ok pend ws' \<and> same_upload ws ws' \<and>
    ckHashed (ws_checksum ws') = ckHashed (ws_checksum ws) @ p \<and> ws_writer ws' = Direct \<and> ws_offset ws' = ws_offset ws + int (length p)"
  using multi_write_ok [OF assms(1,2), of p] assms(3) by (auto simp: ws_Write_def writer_Write_def)

lemma ws_Close_ok:
  assumes "cinv s" and "upload_ok pend ws"
  shows "\<exists>e ws' s'. ws_Close Z cache ws s = Some (e, ws', s') \<and> quiet (ws_d ws) s s' \<and> upload_ok pend ws' \<and> same_upload ws ws'"
proof (cases "ws_writer ws")
  case (Piped z)
  obtain out e where f: "zs_end Z z = (out, e)" by (metis prod.exhaust)
  obtain ws2 s2 where "decoder_write cache out ws s = Some (None, ws2, s2)" "quiet (ws_d ws) s s2" "upload_ok pend ws2" "same_upload ws ws2"
    using decoder_write_ok [OF assms] by blast
  then show ?thesis using f Piped by (auto simp: ws_Close_def)
qed (use assms in \<open>simp_all add: ws_Close_def quiet_refl\<close>)

lemma ws_Commit_ok:
  assumes "cinv s" and "upload_ok pend ws" and "valid (Some (ws_d ws))"
  shows "\<exists>e s'. ws_Commit sha cache ws s = Some (e, s') \<and> cinv s' \<and> (e \<noteq> None \<longrightarrow> quiet (ws_d ws) s s') \<and>
    verified_store sha valid same_key (ws_d ws) (blobs s) (blobs s')"
proof (cases "Checksum_Check sha (ws_checksum ws) (ws_d ws)")
  case (Some e)
  then show ?thesis using assms(1) by (simp add: ws_Commit_def quiet_refl)
next
  case None
  note chk = this
  let ?v = "ckHashed (ws_checksum ws)"
  have v: "sha ?v = dHash (ws_d ws)" "int (length ?v) = dSizeBytes (ws_d ws)"
    using chk assms(2) by (auto simp: Checksum_Check_def upload_ok_def split: if_splits)
  show ?thesis
  proof (cases "ws_cache ws")
    case None
    then show ?thesis using chk assms(1) by (simp add: ws_Commit_def)
  next
    case (Some w)
    then have "pend w (Some (ws_d ws)) ?v" using assms(2) by (simp add: upload_ok_def)
    then obtain s' where "w_Close cache w s = Some (None, s')" "cinv s'" "stores valid same_key (Some (ws_d ws)) ?v (blobs s) (blobs s')"
      using WriterClose_law [OF assms(1,3)] by blast
    then show ?thesis using chk v Some by (auto simp: ws_Commit_def verified_store_def)
  qed
qed

lemma write_message_ok:
  assumes "cinv s" and "upload_ok pend ws" and "valid (Some (ws_d ws))"
  shows "\<exists>out ws' s'. write_message sv cache req ws s = Some (out, ws', s') \<and> cinv s' \<and> upload_ok pend ws' \<and> same_upload ws ws' \<and>
    (out = None \<longrightarrow> quiet (ws_d ws) s s') \<and> verified_store (sv_sha sv) valid same_key (ws_d ws) (blobs s) (blobs s')"
proof -
  obtain e1 ws1 s1 where 1: "ws_Write (sv_zstd sv) cache (wqData req) ws s = Some (e1, ws1, s1)" "quiet (ws_d ws) s s1" "upload_ok pend ws1" "same_upload ws ws1"
    using ws_Write_ok [OF assms(1,2)] by metis
  have c1: "cinv s1" "blobs s1 = blobs s" using 1(2) by (simp_all add: quiet_def)
  obtain e2 ws2 s2 where 2: "ws_Close (sv_zstd sv) cache ws1 s1 = Some (e2, ws2, s2)" "quiet (ws_d ws1) s1 s2" "upload_ok pend ws2" "same_upload ws1 ws2"
    using ws_Close_ok [OF c1(1) 1(3)] by metis
  have c2: "cinv s2" "blobs s2 = blobs s" and su: "same_upload ws ws2" "ws_d ws2 = ws_d ws"
    using 2(2,4) 1(4) c1(2) by (simp_all add: quiet_def same_upload_def)
  have "valid (Some (ws_d ws2))" using assms(3) su by simp
  from ws_Commit_ok [OF c2(1) 2(3) this, of "sv_sha sv"] obtain e3 s3 where
    "ws_Commit (sv_sha sv) cache ws2 s2 = Some (e3, s3)" "cinv s3" "verified_store (sv_sha sv) valid same_key (ws_d ws) (blobs s) (blobs s3)"
    using c2(2) su(2) by auto
  then show ?thesis
    using 1 2 c1 c2 su by (cases e1; cases e2; cases e3; cases "wqFinishWrite req") (simp_all add: write_message_def)
qed

lemma leave_ok:
  assumes "cinv s" and "upload_ok pend ws"
  shows "\<exists>s'. leave sv (Some (cache, ws)) out s = Some (out, s') \<and> quiet (ws_d ws) s s'"
  using ws_Close_ok [OF assms, of "sv_zstd sv"] by (auto simp: leave_def)

lemma upload_loop_ok:
  "cinv s \<Longrightarrow> upload_ok pend ws \<Longrightarrow> valid (Some (ws_d ws)) \<Longrightarrow>
    \<exists>out s'. upload_loop sv ctx cw (Some (cache, ws)) reqs s = Some (out, s') \<and> cinv s' \<and>
      verified_store (sv_sha sv) valid same_key (ws_d ws) (blobs s) (blobs s')"
proof (induction reqs arbitrary: ws s)
  case Nil
  then show ?case using leave_ok [of s ws sv "Ended None"] by (auto simp: quiet_def)
next
  case (Cons r reqs)
  show ?case
  proof (cases r)
    case (RecvError e)
    then show ?thesis using leave_ok [OF Cons.prems(1,2), of sv "Ended (Some e)"] by (auto simp: quiet_def)
  next
    case (GotMessage req)
    show ?thesis
    proof (cases "checkSubsequentPreconditions req ws")
      case (Some e)
      then show ?thesis using GotMessage leave_ok [OF Cons.prems(1,2), of sv "Ended (Some e)"] by (auto simp: quiet_def)
    next
      case None
      obtain out ws1 s1 where m: "write_message sv cache req ws s = Some (out, ws1, s1)" "cinv s1" "upload_ok pend ws1" "same_upload ws ws1"
        "out = None \<longrightarrow> quiet (ws_d ws) s s1" "verified_store (sv_sha sv) valid same_key (ws_d ws) (blobs s) (blobs s1)"
        using write_message_ok [OF Cons.prems] by metis
      have d: "ws_d ws1 = ws_d ws" using m(4) by (simp add: same_upload_def)
      show ?thesis
      proof (cases out)
        case (Some oc)
        then show ?thesis using leave_ok [OF m(2,3), of sv oc] m GotMessage None by (auto simp: quiet_def)
      next
        case n: None
        have "blobs s1 = blobs s" using m(5) n by (simp add: quiet_def)
        then show ?thesis using Cons.IH [OF m(2,3)] Cons.prems(3) m(1) d GotMessage None n by auto
      qed
    qed
  qed
qed

text \<open>The first message.\<close>

lemma initStreamState_ok:
  assumes "cinv s" and "ParseUploadResourceName (wqResourceName req) = Inr r" and "AttachUserPrefixToContext ctx (sv_env sv) = Inr ctx'"
    and "CASCache sv ctx' (instanceName r) = Inr cache" and "valid (Some (rnDigest r))"
  shows "\<exists>res s'. initStreamState sv ctx req s = Some (res, s') \<and> quiet (rnDigest r) s s' \<and>
    (case res of Inl e \<Rightarrow> True | Inr (C, ws) \<Rightarrow> C = cache \<and> upload_ok pend ws \<and> ws_d ws = rnDigest r)"
proof -
  obtain s1 where c: "c_Contains cache (Some (rnDigest r)) s = Some (Inr (blobs s (Some (rnDigest r)) \<noteq> None), s1)" "cinv s1" "blobs s1 = blobs s"
    using Contains_law [OF assms(1,5)] by blast
  have q1: "quiet (rnDigest r) s s1" using c Contains_fits [OF assms(1,5) c(1)] by (simp add: quiet_def)
  obtain w s2 where w: "c_Writer cache (Some (rnDigest r)) s1 = Some (Inr w, s2)" "cinv s2" "pend w (Some (rnDigest r)) []"
    using Writer_law [OF c(2) assms(5)] by blast
  have q2: "quiet (rnDigest r) s s2"
    using q1 w(2) Writer_keeps [OF c(2) w(1)] by (simp add: quiet_def)
  show ?thesis
    using assms(2-4) c(1) w(1,3) q1 q2 quiet_refl [OF assms(1)]
    by (cases "blobs s (Some (rnDigest r))"; cases "zs_New (sv_zstd sv)")
      (simp_all add: initStreamState_def upload_ok_def NewChecksum_def)
qed

text \<open>An uncompressed upload of a new blob, in any pieces.\<close>

lemma initStreamState_new:
  assumes "cinv s" and "ParseUploadResourceName name = Inr r" and "AttachUserPrefixToContext ctx (sv_env sv) = Inr ctx'"
    and "CASCache sv ctx' (instanceName r) = Inr cache" and "valid (Some (rnDigest r))"
    and "compressor r = IDENTITY" and "dHash (rnDigest r) \<noteq> EmptySha256" and "blobs s (Some (rnDigest r)) = None"
    and "wqResourceName req = name"
  shows "\<exists>ws s'. initStreamState sv ctx req s = Some (Inr (cache, ws), s') \<and> quiet (rnDigest r) s s' \<and> upload_ok pend ws \<and>
    ws_d ws = rnDigest r \<and> ws_writer ws = Direct \<and> ws_offset ws = 0 \<and> ws_activeResourceName ws = name \<and> ws_cache ws \<noteq> None \<and>
    ckHashed (ws_checksum ws) = []"
proof -
  obtain s1 where c: "c_Contains cache (Some (rnDigest r)) s = Some (Inr False, s1)" "cinv s1" "blobs s1 = blobs s"
    using Contains_law [OF assms(1,5)] assms(8) by auto
  obtain w s2 where w: "c_Writer cache (Some (rnDigest r)) s1 = Some (Inr w, s2)" "cinv s2" "pend w (Some (rnDigest r)) []"
    using Writer_law [OF c(2) assms(5)] by blast
  have "quiet (rnDigest r) s s2"
    using c Contains_fits [OF assms(1,5) c(1)] w(2) Writer_keeps [OF c(2) w(1)] by (simp add: quiet_def)
  then show ?thesis
    using assms(2-4,6,7,9) c(1) w(1,3)
    by (simp add: initStreamState_def upload_ok_def NewChecksum_def supportsCompressor_def)
qed

lemma commit_new:
  assumes "cinv s" and "upload_ok pend ws" and "valid (Some (ws_d ws))" and "ws_cache ws \<noteq> None" and "fits s (Some (ws_d ws)) (ckHashed (ws_checksum ws))"
    and "sha (ckHashed (ws_checksum ws)) = dHash (ws_d ws)" and "int (length (ckHashed (ws_checksum ws))) = dSizeBytes (ws_d ws)"
  shows "\<exists>s'. ws_Commit sha cache ws s = Some (None, s') \<and> cinv s' \<and> blobs s' (Some (ws_d ws)) = Some (ckHashed (ws_checksum ws))"
proof -
  obtain w where w: "ws_cache ws = Some w" using assms(4) by blast
  then have p: "pend w (Some (ws_d ws)) (ckHashed (ws_checksum ws))" using assms(2) by (simp add: upload_ok_def)
  obtain s' where s': "w_Close cache w s = Some (None, s')" "cinv s'"
    using WriterClose_law [OF assms(1,3) p] by blast
  have "blobs s' (Some (ws_d ws)) = Some (ckHashed (ws_checksum ws))" by (rule Close_fits [OF assms(1,3) p assms(5) s'(1)])
  then show ?thesis using s' w assms(2,6,7) by (simp add: ws_Commit_def Checksum_Check_def upload_ok_def)
qed

lemma direct_upload:
  "cinv s \<Longrightarrow> upload_ok pend ws \<Longrightarrow> valid (Some (ws_d ws)) \<Longrightarrow> ws_cache ws \<noteq> None \<Longrightarrow> ws_writer ws = Direct \<Longrightarrow>
    ws_offset ws = off \<Longrightarrow> ws_activeResourceName ws = name \<Longrightarrow> ckHashed (ws_checksum ws) @ concat ps = v \<Longrightarrow> fits s (Some (ws_d ws)) v \<Longrightarrow>
    sv_sha sv v = dHash (ws_d ws) \<Longrightarrow> int (length v) = dSizeBytes (ws_d ws) \<Longrightarrow>
    \<exists>n s'. upload_loop sv ctx cw (Some (cache, ws)) (map GotMessage (fst (upload_requests name off (map (\<lambda>p. (p, None)) ps)))) s =
      Some (Responded n, s') \<and> cinv s' \<and> blobs s' (Some (ws_d ws)) = Some v"
proof (induction ps arbitrary: s ws off)
  case Nil
  obtain ws1 s1 where w: "ws_Write (sv_zstd sv) cache [] ws s = Some (None, ws1, s1)" "quiet (ws_d ws) s s1" "upload_ok pend ws1" "same_upload ws ws1"
    "ckHashed (ws_checksum ws1) = ckHashed (ws_checksum ws)" "ws_writer ws1 = Direct"
    using ws_Write_direct [OF Nil.prems(1,2,5), of "sv_zstd sv" "[]"] by auto
  have d: "ws_d ws1 = ws_d ws" "ws_cache ws1 \<noteq> None" using w(4) Nil.prems(4) by (simp_all add: same_upload_def)
  have s1: "cinv s1" "fits s1 (Some (ws_d ws)) v" using w(2) Nil.prems(9) by (simp_all add: quiet_def)
  have cl: "ws_Close (sv_zstd sv) cache ws1 s = Some (None, ws1, s)" for s using w(6) by (simp add: ws_Close_def)
  obtain s2 where "ws_Commit (sv_sha sv) cache ws1 s1 = Some (None, s2)" "cinv s2" "blobs s2 (Some (ws_d ws)) = Some v"
    using commit_new [OF s1(1) w(3), of "sv_sha sv"] Nil.prems(3,8,10,11) s1(2) w(5) d by auto
  then show ?case
    using w(1) cl Nil.prems(6,7) by (simp add: checkSubsequentPreconditions_def write_message_def leave_def)
next
  case (Cons p ps)
  obtain ws1 s1 where w: "ws_Write (sv_zstd sv) cache p ws s = Some (None, ws1, s1)" "quiet (ws_d ws) s s1" "upload_ok pend ws1" "same_upload ws ws1"
    "ckHashed (ws_checksum ws1) = ckHashed (ws_checksum ws) @ p" "ws_writer ws1 = Direct" "ws_offset ws1 = ws_offset ws + int (length p)"
    using ws_Write_direct [OF Cons.prems(1,2,5), of "sv_zstd sv" p] by blast
  have d: "ws_d ws1 = ws_d ws" "ws_cache ws1 \<noteq> None" "ws_activeResourceName ws1 = name"
    using w(4) Cons.prems(4,7) by (simp_all add: same_upload_def)
  have s1: "cinv s1" "fits s1 (Some (ws_d ws1)) v" using w(2) Cons.prems(9) d(1) by (simp_all add: quiet_def)
  obtain n s' where "upload_loop sv ctx cw (Some (cache, ws1))
      (map GotMessage (fst (upload_requests name (off + int (length p)) (map (\<lambda>p. (p, None)) ps)))) s1 = Some (Responded n, s')"
      "cinv s'" "blobs s' (Some (ws_d ws)) = Some v"
    using Cons.IH [OF s1(1) w(3) _ d(2) w(6) _ d(3) _ s1(2)] Cons.prems(3,6,8,10,11) w(5,7) d(1) by auto
  then show ?case
    using w(1) Cons.prems(6,7)
    by (cases "upload_requests name (off + int (length p)) (map (\<lambda>p. (p, None)) ps)")
      (simp add: checkSubsequentPreconditions_def write_message_def)
qed

lemma upload_new:
  assumes "cinv s" and "ParseUploadResourceName name = Inr r" and "AttachUserPrefixToContext ctx (sv_env sv) = Inr ctx'"
    and "CASCache sv ctx' (instanceName r) = Inr cache" and "valid (Some (rnDigest r))"
    and "compressor r = IDENTITY" and "dHash (rnDigest r) \<noteq> EmptySha256" and "blobs s (Some (rnDigest r)) = None"
    and "name \<noteq> []" and "fits s (Some (rnDigest r)) (concat ps)" and "sv_sha sv (concat ps) = dHash (rnDigest r)"
    and "int (length (concat ps)) = dSizeBytes (rnDigest r)" and "IsGranted (sv_auth sv) CACHE_WRITE_CAPABILITY = Inr True"
  shows "\<exists>n s'. BS_Write sv ctx (map GotMessage (fst (upload_requests name 0 (map (\<lambda>p. (p, None)) ps)))) s = Some (Responded n, s') \<and>
    cinv s' \<and> blobs s' (Some (rnDigest r)) = Some (concat ps)"
proof -
  obtain req reqs where m: "fst (upload_requests name 0 (map (\<lambda>p. (p, None)) ps)) = req # reqs" "wqResourceName req = name" "wqWriteOffset req = 0"
    using upload_requests_reads(2) by metis
  obtain ws s1 where i: "initStreamState sv ctx req s = Some (Inr (cache, ws), s1)" "quiet (rnDigest r) s s1" "upload_ok pend ws"
    "ws_d ws = rnDigest r" "ws_writer ws = Direct" "ws_offset ws = 0" "ws_activeResourceName ws = name" "ws_cache ws \<noteq> None"
    "ckHashed (ws_checksum ws) = []"
    using initStreamState_new [OF assms(1-8) m(2)] by blast
  have s1: "cinv s1" "fits s1 (Some (ws_d ws)) (concat ps)" using i(2,4) assms(10) by (simp_all add: quiet_def)
  have "BS_Write sv ctx (map GotMessage (req # reqs)) s = upload_loop sv ctx True (Some (cache, ws)) (map GotMessage (req # reqs)) s1"
    using i(1,6,7) m(2,3) assms(9,13) by (simp add: BS_Write_def checkInitialPreconditions_def checkSubsequentPreconditions_def)
  moreover obtain n s' where "upload_loop sv ctx True (Some (cache, ws)) (map GotMessage (req # reqs)) s1 = Some (Responded n, s')"
      "cinv s'" "blobs s' (Some (ws_d ws)) = Some (concat ps)"
    using direct_upload [OF s1(1) i(3) _ i(8,5,6,7) _ s1(2), of ps sv ctx True] assms(5,11,12) i(4,9) by (auto simp: m(1))
  ultimately show ?thesis unfolding m(1) using i(4) by auto
qed

text \<open>Reading a blob back.\<close>

lemma copy_stream_ok:
  "cinv s \<Longrightarrow> yields rd v \<Longrightarrow> 0 < n \<Longrightarrow>
    \<exists>msgs s'. copy_stream cache (\<lambda>_ _. None) n rd sent s = Some ((sent @ msgs, None), s') \<and> concat msgs = v \<and> cinv s' \<and> blobs s' = blobs s"
proof (induction "length v" arbitrary: v rd sent s rule: less_induct)
  case less
  obtain bs e rd' s1 v' where r: "r_Read cache rd n s = Some ((bs, e, rd'), s1)" "cinv s1" "blobs s1 = blobs s" "v = bs @ v'" "yields rd' v'"
      "e = None \<and> bs \<noteq> [] \<or> e = Some EOF \<and> v' = []"
    using Read_law [OF less.prems] by blast
  show ?case
  proof (cases e)
    case None
    then have "length v' < length v" using r(4,6) by (cases bs) simp_all
    from less.hyps [OF this r(2,5) less.prems(3), of "sent @ [bs]"] obtain msgs s2 where
      "copy_stream cache (\<lambda>_ _. None) n rd' (sent @ [bs]) s1 = Some ((sent @ [bs] @ msgs, None), s2)" "concat msgs = v'" "cinv s2" "blobs s2 = blobs s1"
      by auto
    then show ?thesis using r None
      by (intro exI [of _ "bs # msgs"] exI [of _ s2]) (subst copy_stream.simps, simp add: Let_def)
  next
    case (Some e')
    then show ?thesis using r
      by (intro exI [of _ "if bs = [] then [] else [bs]"] exI [of _ s1]) (subst copy_stream.simps, simp add: Let_def)
  qed
qed

lemma download_ok:
  assumes "cinv s" and "ParseDownloadResourceName name = Inr r" and "AttachUserPrefixToContext ctx (sv_env sv) = Inr ctx'"
    and "CASCache sv ctx' (instanceName r) = Inr cache" and "valid (Some (rnDigest r))"
    and "compressor r = IDENTITY" and "dHash (rnDigest r) \<noteq> EmptySha256" and "0 \<le> lim" and "name \<noteq> []"
  shows "\<exists>msgs e s'. BS_Read sv ctx (\<lambda>_ _. None) \<lparr>rqResourceName = name, rqReadOffset = 0, rqReadLimit = lim\<rparr> s = Some ((msgs, e), s') \<and>
    cinv s' \<and> blobs s' = blobs s \<and>
    (case blobs s (Some (rnDigest r)) of Some v \<Rightarrow> e = None \<and> concat msgs = v | None \<Rightarrow> msgs = [] \<and> (\<exists>e'. e = Some e' \<and> err_code e' = NotFound))"
proof -
  define n where "n = nat (if dSizeBytes (rnDigest r) > 0 \<and> dSizeBytes (rnDigest r) < bs_readBufSizeBytes
    then dSizeBytes (rnDigest r) else bs_readBufSizeBytes)"
  have n: "0 < n" by (simp add: n_def bs_readBufSizeBytes_def)
  obtain rr s1 where o: "c_Reader cache (Some (rnDigest r)) 0 s = Some (rr, s1)" "cinv s1" "blobs s1 = blobs s"
      "case rr of Inr rd \<Rightarrow> (\<exists>v. blobs s (Some (rnDigest r)) = Some v \<and> yields rd v) | Inl e \<Rightarrow> blobs s (Some (rnDigest r)) = None \<and> err_code e = NotFound"
    using Reader_law [OF assms(1,5)] by blast
  note start = assms(2-4,6-9)
  show ?thesis
  proof (cases rr)
    case (Inl e)
    then show ?thesis using start o by (simp add: BS_Read_def checkReadPreconditions_def supportsCompressor_def)
  next
    case (Inr rd)
    then obtain v where v: "blobs s (Some (rnDigest r)) = Some v" "yields rd v" using o(4) by auto
    obtain msgs s2 where c: "copy_stream cache (\<lambda>_ _. None) n rd [] s1 = Some ((msgs, None), s2)" "concat msgs = v" "cinv s2" "blobs s2 = blobs s1"
      using copy_stream_ok [OF o(2) v(2) n, of "[]"] by auto
    obtain s3 where "r_Close cache rd s2 = Some (None, s3)" "cinv s3" "blobs s3 = blobs s2" using ReaderClose_law [OF c(3)] by blast
    then show ?thesis
      using start o(1,3) v(1) c Inr
      by (simp add: BS_Read_def checkReadPreconditions_def supportsCompressor_def Let_def n_def [symmetric])
  qed
qed

end

section \<open>The servers on the memory cache\<close>

interpretation cas: cas_cache "memory_cache hs m ctx" store_ok "blob hs m ctx" writer_for "named m ctx"
    "key_hash_eq hs m ctx" "(=)" "memory_fits hs m ctx" for hs m ctx
proof unfold_locales
  fix l l' :: store and d :: "Digest option" and r v ds rm
  assume ok: "store_ok l"
  assume n: "named m ctx d" and c: "c_Contains (memory_cache hs m ctx) d l = Some (r, l')" and f: "memory_fits hs m ctx l d v"
  then have "l' = snd (MemoryCache_Contains hs m ctx d l)" by simp
  then show "memory_fits hs m ctx l' d v"
    using MemoryCache_Contains_blob [OF ok n, of hs] Contains_accounts [OF ok n, of hs] f by (simp add: memory_fits_def)
next
  fix l l' :: store and ds rm
  assume "store_ok l" and "\<forall>d\<in>set ds. named m ctx d" and "c_GetMulti (memory_cache hs m ctx) ds l = Some (rm, l')"
  then show "blob hs m ctx l' = blob hs m ctx l" using MemoryCache_GetMulti_blob [of l ds m ctx hs] by simp
qed

text \<open>The server with the memory cache, and the view that a request has of it: of the instance, with the user's prefix.\<close>

definition memory_server ::
  "hashes \<Rightarrow> MemoryCache \<Rightarrow> env \<Rightarrow> auth_env \<Rightarrow> bool \<Rightarrow> (bytes \<Rightarrow> string) \<Rightarrow> 'z zstd_lib \<Rightarrow> (store, bytes, setOnClose, 'z) cas_server" where
  "memory_server hs m env auth zstdOn sha Z =
     \<lparr>sv_env = env, sv_auth = auth, sv_zstd_enabled = zstdOn,
      sv_WithIsolation = (\<lambda>ctx ct inst. Inr (memory_cache hs (WithIsolation m ct inst) ctx)), sv_sha = sha, sv_zstd = Z\<rparr>"

abbreviation cas_view :: "hashes \<Rightarrow> MemoryCache \<Rightarrow> request_ctx \<Rightarrow> string \<Rightarrow> store \<Rightarrow> Digest option \<Rightarrow> bytes option" where
  "cas_view hs m ctx inst \<equiv> blob hs (WithIsolation m CASCacheType inst) ctx"

lemma memory_server_simps [simp]:
  "sv_env (memory_server hs m env auth z sha Z) = env" "sv_auth (memory_server hs m env auth z sha Z) = auth"
  "sv_sha (memory_server hs m env auth z sha Z) = sha" "sv_zstd (memory_server hs m env auth z sha Z) = Z"
  "sv_zstd_enabled (memory_server hs m env auth z sha Z) = z"
  "CASCache (memory_server hs m env auth z sha Z) ctx inst = Inr (memory_cache hs (WithIsolation m CASCacheType inst) ctx)"
  "ActionCache (memory_server hs m env auth z sha Z) ctx inst = Inr (memory_cache hs (WithIsolation m ActionCacheType inst) ctx)"
  by (simp_all add: memory_server_def CASCache_def ActionCache_def)

lemma attached: "AttachUserPrefixToContext ctx env = Inr ctx' \<Longrightarrow> user_prefix ctx' \<noteq> None"
  by (auto simp: AttachUserPrefixToContext_def Let_def split: if_splits)

lemma valid_named:
  assumes "Validate d = Inr h" and "AttachUserPrefixToContext ctx env = Inr ctx'"
  shows "named m ctx' d"
  using assms attached [OF assms(2)] by (auto simp: named_def MemoryCache_key_def UserPrefixFromContext_def split: option.splits)

lemma hex_valid: "length (dHash d) = 64 \<Longrightarrow> list_all is_hex (dHash d) \<Longrightarrow> dSizeBytes d \<noteq> 0 \<Longrightarrow> Validate (Some d) = Inr (dHash d)"
  by (simp add: Validate_def hashKeyLength_def)

text \<open>A server with an empty cache of ten bytes, where anyone may write, and a user of the group \<open>GR1\<close>.\<close>

definition demo_env :: env where
  "demo_env = \<lparr>has_authenticator = True, anonymous_enabled = False\<rparr>"

definition demo_auth :: auth_env where
  "demo_auth = \<lparr>authenticator = None, AnonymousUsageEnabled = True, AuthAdminGroupID = ''''\<rparr>"

definition demo_zstd :: "unit zstd_lib" where
  "demo_zstd = \<lparr>zs_New = Inr (), zs_feed = (\<lambda>z p. (p, z, None)), zs_end = (\<lambda>z. ([], None)), zs_EncodeAll = (\<lambda>p. p), zs_DecodeAll = Inr\<rparr>"

definition demo_hash :: string where "demo_hash = replicate 64 CHR ''a''"

definition demo_server :: "(store, bytes, setOnClose, unit) cas_server" where
  "demo_server = memory_server example_hashes example_handle demo_env demo_auth True (\<lambda>_. demo_hash) demo_zstd"

definition demo_name :: ResourceName where
  "demo_name = \<lparr>rnDigest = \<lparr>dHash = demo_hash, dSizeBytes = 2\<rparr>, instanceName = '''', compressor = IDENTITY\<rparr>"

definition demo_uuid :: string where "demo_uuid = replicate 36 CHR ''a''"

lemma demo_hash_facts: "demo_hash \<noteq> EmptySha256" "length demo_hash = 64" "list_all is_hex demo_hash"
  by code_simp+

lemma demo_facts:
  "IsGranted demo_auth CACHE_WRITE_CAPABILITY = Inr True"
  "AttachUserPrefixToContext (example_ctx ''GR1'') demo_env = Inr (example_ctx ''GR1'')"
  "is_uuid demo_uuid" "WithIsolation example_handle CASCacheType '''' = example_handle" "filepath_Join (filepath_SplitList '''') = ''''"
proof -
  show "IsGranted demo_auth CACHE_WRITE_CAPABILITY = Inr True" by code_simp
  show "AttachUserPrefixToContext (example_ctx ''GR1'') demo_env = Inr (example_ctx ''GR1'')"
    by (simp add: AttachUserPrefixToContext_def userPrefixCacheKey_def example_ctx_def demo_env_def addPrefix_def)
  show "is_uuid demo_uuid" by code_simp
qed (simp_all add: WithIsolation_def example_handle_def filepath_Join_def filepath_SplitList_def)

lemma demo_empty:
  "blob example_hashes example_handle (example_ctx ''GR1'') example_store (Some (rnDigest demo_name)) = None"
  "memory_fits example_hashes example_handle (example_ctx ''GR1'') example_store (Some (rnDigest demo_name)) [7, 8]"
proof -
  have e: "lru_abs example_store = []" by (rule lru_inv_New(2) [OF example_store])
  then show b: "blob example_hashes example_handle (example_ctx ''GR1'') example_store (Some (rnDigest demo_name)) = None"
    by (auto simp: blob_def lru_content_def split: option.splits bind_splits)
  have "used example_store = 0" using e by (simp add: used_def)
  then show "memory_fits example_hashes example_handle (example_ctx ''GR1'') example_store (Some (rnDigest demo_name)) [7, 8]"
    using b by (simp add: memory_fits_def drift_def) (simp add: example_store_def NewMemoryCache_def NewLRU_def LRU_MaxSize_def)
qed

text \<open>C13: Whatever a client sends as an upload, compressed or not, whole, cut short or malformed, and whatever the decoder makes of it: the
  handler ends, and the content-addressed blobs of the user are the same as before, or one blob was stored under the announced digest, by a user who may
  write, with the announced hash and size.\<close>

theorem upload_is_verified:
  assumes "store_ok l" and "ParseUploadResourceName (wqResourceName req) = Inr r" and "AttachUserPrefixToContext ctx env = Inr ctx'"
  shows "\<exists>out l'. BS_Write (memory_server hs m env auth zstdOn sha Z) ctx (GotMessage req # reqs) l = Some (out, l') \<and> store_ok l' \<and>
    (cas_view hs m ctx' (instanceName r) l' = cas_view hs m ctx' (instanceName r) l \<or>
      IsGranted auth CACHE_WRITE_CAPABILITY = Inr True \<and>
      verified_store sha (named (WithIsolation m CASCacheType (instanceName r)) ctx') (key_hash_eq hs (WithIsolation m CASCacheType (instanceName r)) ctx')
        (rnDigest r) (cas_view hs m ctx' (instanceName r) l) (cas_view hs m ctx' (instanceName r) l'))"
proof -
  let ?sv = "memory_server hs m env auth zstdOn sha Z" and ?m = "WithIsolation m CASCacheType (instanceName r)"
  have C: "CASCache ?sv ctx' (instanceName r) = Inr (memory_cache hs ?m ctx')" by simp
  show ?thesis
  proof (cases "checkInitialPreconditions req = None \<and> IsGranted auth CACHE_WRITE_CAPABILITY = Inr True")
    case False
    then show ?thesis using assms(1) by (auto simp: BS_Write_def split: sum.splits option.splits)
  next
    case g: True
    show ?thesis
    proof (cases "named ?m ctx' (Some (rnDigest r))")
      case False
      then obtain e where "MemoryCache_key ?m ctx' (Some (rnDigest r)) = Inl e"
        by (cases "MemoryCache_key ?m ctx' (Some (rnDigest r))") (simp_all add: named_def)
      then have "\<exists>e. initStreamState ?sv ctx req l = Some (Inl e, l)"
        using assms(2,3) C by (simp add: initStreamState_def MemoryCache_Contains_def)
      then show ?thesis using g assms(1) by (auto simp: BS_Write_def)
    next
      case n: True
      have a: "AttachUserPrefixToContext ctx (sv_env ?sv) = Inr ctx'" using assms(3) by simp
      obtain res s1 where i: "initStreamState ?sv ctx req l = Some (res, s1)" "cas.quiet hs ?m ctx' (rnDigest r) l s1"
          "case res of Inl e \<Rightarrow> True | Inr (C, ws) \<Rightarrow> C = memory_cache hs ?m ctx' \<and> upload_ok writer_for ws \<and> ws_d ws = rnDigest r"
        using cas.initStreamState_ok [OF assms(1,2) a C n] by (elim exE conjE) (rule that)
      have s1: "store_ok s1" "blob hs ?m ctx' s1 = blob hs ?m ctx' l" using i(2) by (simp_all add: cas.quiet_def)
      show ?thesis
      proof (cases res)
        case (Inl e)
        then show ?thesis using g i(1) s1 by (auto simp: BS_Write_def)
      next
        case (Inr Cws)
        obtain ws where ws: "Cws = (memory_cache hs ?m ctx', ws)" "upload_ok writer_for ws" "ws_d ws = rnDigest r"
          using i(3) Inr by (cases Cws) auto
        have nv: "named ?m ctx' (Some (ws_d ws))" using n ws(3) by simp
        obtain out ws' s2 where m: "write_message ?sv (memory_cache hs ?m ctx') req ws s1 = Some (out, ws', s2)" "store_ok s2"
            "upload_ok writer_for ws'" "same_upload ws ws'" "out = None \<longrightarrow> cas.quiet hs ?m ctx' (ws_d ws) s1 s2"
            "verified_store sha (named ?m ctx') (key_hash_eq hs ?m ctx') (rnDigest r) (blob hs ?m ctx' l) (blob hs ?m ctx' s2)"
          using cas.write_message_ok [where hs = hs, OF s1(1) ws(2) nv, where sv = ?sv and req = req] s1(2) ws(3) by auto
        have d: "ws_d ws' = rnDigest r" using m(4) ws(3) by (simp add: same_upload_def)
        show ?thesis
        proof (cases out)
          case (Some oc)
          then show ?thesis
            using cas.leave_ok [where hs = hs and m = ?m and ctx = ctx', OF m(2,3), where sv = ?sv and out = oc] g i(1) Inr ws(1) m(1,6) by (auto simp: BS_Write_def cas.quiet_def)
        next
          case None
          then have b: "blob hs ?m ctx' s2 = blob hs ?m ctx' l" using m(5) s1(2) by (simp add: cas.quiet_def)
          have "named ?m ctx' (Some (ws_d ws'))" using n d by simp
          from cas.upload_loop_ok [where hs = hs, OF m(2,3) this, where sv = ?sv and reqs = reqs and ctx = ctx and cw = True] obtain o2 s3 where
            "upload_loop ?sv ctx True (Some (memory_cache hs ?m ctx', ws')) reqs s2 = Some (o2, s3)" "store_ok s3"
            "verified_store sha (named ?m ctx') (key_hash_eq hs ?m ctx') (rnDigest r) (blob hs ?m ctx' l) (blob hs ?m ctx' s3)"
            using d b by auto
          then show ?thesis using g i(1) Inr ws(1) m(1) None by (simp add: BS_Write_def)
        qed
      qed
    qed
  qed
qed

theorem upload_is_verified_witness:
  "\<exists>s out l'. UploadString (Some demo_uuid) demo_name = Inr s \<and>
    BS_Write demo_server (example_ctx ''GR1'')
      [GotMessage \<lparr>wqResourceName = s, wqWriteOffset = 0, wqFinishWrite = True, wqData = [7, 8, 9]\<rparr>] example_store = Some (out, l') \<and> store_ok l'"
proof -
  obtain s where s: "UploadString (Some demo_uuid) demo_name = Inr s" "ParseUploadResourceName s = Inr demo_name"
    using upload_name [of demo_name demo_uuid] demo_facts(3,5) demo_hash_facts by (auto simp: demo_name_def)
  then show ?thesis
    using upload_is_verified [OF example_store_ok _ demo_facts(2), of "\<lparr>wqResourceName = s, wqWriteOffset = 0, wqFinishWrite = True, wqData = [7, 8, 9]\<rparr>"
        demo_name example_hashes example_handle demo_auth True "\<lambda>_. demo_hash" demo_zstd "[]"]
    by (auto simp: demo_server_def)
qed

text \<open>C14: An uploaded blob comes back: a user who may write uploads a new blob under its digest, read in any pieces; the upload is answered, and downloading
  the same name then yields the data.\<close>

theorem upload_then_download:
  assumes "store_ok l" and "IsGranted auth CACHE_WRITE_CAPABILITY = Inr True" and "AttachUserPrefixToContext ctx env = Inr ctx'"
    and "sha (concat ps) = dHash (rnDigest r)" and "int (length (concat ps)) = dSizeBytes (rnDigest r)" and "concat ps \<noteq> []"
    and "dSizeBytes (rnDigest r) < 2 ^ 63" and "length (dHash (rnDigest r)) = 64" and "list_all is_hex (dHash (rnDigest r))"
    and "dHash (rnDigest r) \<noteq> EmptySha256" and "compressor r = IDENTITY" and "is_uuid u"
    and "inst = filepath_Join (filepath_SplitList (instanceName r))" and "CHR 0x0A \<notin> set inst"
    and "cas_view hs m ctx' inst l (Some (rnDigest r)) = None"
    and "memory_fits hs (WithIsolation m CASCacheType inst) ctx' l (Some (rnDigest r)) (concat ps)"
  shows "\<exists>l1 l2. UploadFromReader (Some (connected (memory_server hs m env auth zstdOn sha Z) ctx)) (Some u) r (map (\<lambda>p. (p, None)) ps) l =
      Some (Inr (rnDigest r), l1) \<and>
    GetBlob (Some (connected (memory_server hs m env auth zstdOn sha Z) ctx)) r l1 = Some ((None, concat ps), l2)"
proof -
  let ?sv = "memory_server hs m env auth zstdOn sha Z" and ?m = "WithIsolation m CASCacheType inst" and ?r = "r\<lparr>instanceName := inst\<rparr>"
  have pos: "0 < dSizeBytes (rnDigest r)" using assms(5,6) by (cases "concat ps") auto
  have c: "compressor r \<noteq> OTHER_COMPRESSOR" and nl: "CHR 0x0A \<notin> set (filepath_Join (filepath_SplitList (instanceName r)))"
    using assms(11,13,14) by simp_all
  obtain name where nm: "UploadString (Some u) r = Inr name" "name \<noteq> []" "ParseUploadResourceName name = Inr ?r"
    using upload_name [OF assms(8,9) _ assms(7) c nl assms(12)] pos assms(13) by auto
  have dn: "ParseDownloadResourceName (DownloadString r) = Inr ?r" "DownloadString r \<noteq> []"
    using download_name [OF assms(8,9) _ assms(7) c nl] pos assms(13) by (simp_all add: DownloadString_def Let_def)
  have C: "CASCache ?sv ctx' (instanceName ?r) = Inr (memory_cache hs ?m ctx')" by simp
  have a: "AttachUserPrefixToContext ctx (sv_env ?sv) = Inr ctx'" using assms(3) by simp
  have n: "named ?m ctx' (Some (rnDigest ?r))"
    using valid_named [OF hex_valid [OF assms(8,9)] assms(3)] pos by simp
  obtain k l1 where up: "BS_Write ?sv ctx (map GotMessage (fst (upload_requests name 0 (map (\<lambda>p. (p, None)) ps)))) l = Some (Responded k, l1)"
      "store_ok l1" "blob hs ?m ctx' l1 (Some (rnDigest r)) = Some (concat ps)"
    using cas.upload_new [where sv = ?sv and ps = ps, OF assms(1) nm(3) a C n] assms(2,4,5,10,11,15,16) nm(2) by auto
  obtain msgs e l2 where dl: "BS_Read ?sv ctx (\<lambda>_ _. None) \<lparr>rqResourceName = DownloadString r, rqReadOffset = 0, rqReadLimit = dSizeBytes (rnDigest r)\<rparr> l1 =
      Some ((msgs, e), l2)" "e = None" "concat msgs = concat ps"
    using cas.download_ok [where sv = ?sv, OF up(2) dn(1) a C n, of "dSizeBytes (rnDigest r)"] assms(10,11) pos up(3) dn(2) by auto
  obtain reqs where rq: "upload_requests name 0 (map (\<lambda>p. (p, None)) ps) = (reqs, None)"
    using upload_requests_reads(1) by (metis prod.collapse)
  show ?thesis
    using nm(1) up(1) dl assms(10) by (simp add: UploadFromReader_def GetBlob_def connected_def rq Let_def)
qed

theorem upload_then_download_witness:
  "\<exists>l1 l2. UploadFromReader (Some (connected demo_server (example_ctx ''GR1''))) (Some demo_uuid) demo_name [([7], None), ([8], None)] example_store =
      Some (Inr (rnDigest demo_name), l1) \<and>
    GetBlob (Some (connected demo_server (example_ctx ''GR1''))) demo_name l1 = Some ((None, [7, 8]), l2)"
  using upload_then_download [OF example_store_ok demo_facts(1,2), of "\<lambda>_. demo_hash" "[[7], [8]]" demo_name demo_uuid "''''"
      example_hashes example_handle True demo_zstd] demo_facts(3-5) demo_hash_facts demo_empty
  by (simp add: demo_server_def demo_name_def demo_facts)

end
