(* ===== verification/CasServerProofs.thy ===== *)
theory CasServerProofs
  imports CasServer ByteStreamProofs "HOL-Library.Multiset"
begin

text \<open>
  What the servers of the content-addressed store and of the action cache promise, over a cache that keeps the contract \<open>cas_cache\<close>: a tree is
  returned whole under every schedule of the goroutines that walk it, nothing unverified gets in, and an action result that is returned has its files.
\<close>

section \<open>Trees\<close>

text \<open>
  The directories of a tree in the store, each as often as it is in the tree. \<open>sz\<close> is the size of a directory, which its digest has to give.
\<close>

inductive tree_of ::
  "(Digest option \<Rightarrow> bool) \<Rightarrow> (Digest option \<Rightarrow> bytes option) \<Rightarrow> (bytes \<Rightarrow> error + Directory) \<Rightarrow> (Directory \<Rightarrow> int) \<Rightarrow> Directory \<Rightarrow> Directory multiset \<Rightarrow> bool"
  for valid b unmarshal sz where
  node: "\<forall>x\<in>set cs. valid (fst x) \<and> GetSizeBytes (fst x) = sz (fst (snd x)) \<and> (\<exists>c. b (fst x) = Some c \<and> unmarshal c = Inr (fst (snd x))) \<and>
      tree_of valid b unmarshal sz (fst (snd x)) (snd (snd x)) \<Longrightarrow>
    map fst cs = subdirDigests dir \<Longrightarrow> 0 < sz dir \<Longrightarrow>
    tree_of valid b unmarshal sz dir (add_mset dir (sum_list (map (snd \<circ> snd) cs)))"

inductive_cases tree_ofE: "tree_of valid b unmarshal sz dir M"

text \<open>A goroutine that is under way, with the directories that it still adds, and the steps that takes.\<close>

fun task_ok :: "(Directory \<Rightarrow> Directory multiset \<Rightarrow> bool) \<Rightarrow> (Directory \<Rightarrow> int) \<Rightarrow> tree_task \<times> Directory multiset \<Rightarrow> bool" where
  "task_ok tree sz (FinishDir (dir, d), N) \<longleftrightarrow> GetSizeBytes d = sz dir \<and> tree dir N"
| "task_ok tree sz (FetchChildren (dir, d), N) \<longleftrightarrow> dirDirectories dir \<noteq> [] \<and> tree dir (add_mset dir N)"

fun task_work :: "tree_task \<times> Directory multiset \<Rightarrow> nat" where
  "task_work (FinishDir _, N) = 2 * size N"
| "task_work (FetchChildren _, N) = 2 * size N + 1"

definition small :: "(Directory \<Rightarrow> int) \<Rightarrow> Directory list \<Rightarrow> bool" where
  "small sz rsp \<longleftrightarrow> sum_list (map sz rsp) \<le> cas_gRPCMaxSize \<or> length rsp \<le> 1"

definition tree_inv ::
  "(Directory \<Rightarrow> Directory multiset \<Rightarrow> bool) \<Rightarrow> (Directory \<Rightarrow> int) \<Rightarrow> Directory multiset \<Rightarrow> nat \<Rightarrow> tree_state \<Rightarrow> (tree_task \<times> Directory multiset) list \<Rightarrow> bool" where
  "tree_inv tree sz M w st TM \<longleftrightarrow>
     tsTasks st = map fst TM \<and> (\<forall>x\<in>set TM. task_ok tree sz x) \<and> mset (concat (tsSent st) @ tsRsp st) + sum_list (map snd TM) = M \<and>
     sum_list (map task_work TM) \<le> w \<and> tsSize st = sum_list (map sz (tsRsp st)) \<and> (\<forall>dir\<in>set (tsRsp st). 0 < sz dir) \<and>
     (\<forall>rsp\<in>set (tsRsp st # tsSent st). small sz rsp)"

lemma parse_children_ok:
  "\<forall>x\<in>set cs. \<exists>c. found (fst x) = Some c \<and> unmarshal c = Inr (fst (snd x)) \<Longrightarrow>
    parse_children unmarshal found (map fst cs) = Inr (map (\<lambda>x. (fst (snd x), fst x)) cs)"
  by (induction cs) auto

lemma subdirs_nonempty: "subdirDigests dir \<noteq> [] \<Longrightarrow> dirDirectories dir \<noteq> []"
  by (auto simp: subdirDigests_def)

lemma finishDir_ok:
  assumes "tree_inv tree sz M (Suc w) st (A @ (FinishDir (dir, d), N) # B)" and "\<And>N. tree dir N \<Longrightarrow> 0 < sz dir"
    and "\<And>N. tree dir N \<Longrightarrow> \<exists>N'. N = add_mset dir N' \<and> (dirDirectories dir = [] \<longrightarrow> N' = {#})"
  shows "\<exists>st' TM. finishDir (\<lambda>_ _. None) (dir, d) st = Inr st' \<and> tsTasks st' = tsTasks st \<and>
    tree_inv tree sz M w (st'\<lparr>tsTasks := map fst A @ (if dirDirectories dir = [] then [] else [FetchChildren (dir, d)]) @ map fst B\<rparr>) TM"
proof -
  have d: "GetSizeBytes d = sz dir" "tree dir N" using assms(1) by (simp_all add: tree_inv_def)
  obtain N' where N': "N = add_mset dir N'" "dirDirectories dir = [] \<longrightarrow> N' = {#}" using assms(3) [OF d(2)] by blast
  define st1 where "st1 = (if tsSize st + GetSizeBytes d > cas_gRPCMaxSize
    then st\<lparr>tsSent := tsSent st @ [tsRsp st], tsRsp := [], tsSize := 0\<rparr> else st)"
  define st' where "st' = st1\<lparr>tsSize := tsSize st1 + GetSizeBytes d, tsRsp := tsRsp st1 @ [dir]\<rparr>"
  have f: "finishDir (\<lambda>_ _. None) (dir, d) st = Inr st'" "tsTasks st' = tsTasks st"
    by (simp_all add: finishDir_def st'_def st1_def)
  let ?new = "if dirDirectories dir = [] then [] else [(FetchChildren (dir, d), N')]"
  have s1: "tsSize st1 = sum_list (map sz (tsRsp st1))" "\<forall>x\<in>set (tsRsp st1). 0 < sz x" "\<forall>rsp\<in>set (tsRsp st1 # tsSent st1). small sz rsp"
      "concat (tsSent st1) @ tsRsp st1 = concat (tsSent st) @ tsRsp st"
    using assms(1) by (auto simp: tree_inv_def st1_def small_def)
  have sm: "small sz (tsRsp st1 @ [dir])"
    using s1(1) d(1) by (auto simp: small_def st1_def)
  have "tree_inv tree sz M w (st'\<lparr>tsTasks := map fst (A @ ?new @ B)\<rparr>) (A @ ?new @ B)"
    using assms(1) s1 sm d N' assms(2) [OF d(2)]
    by (auto simp: tree_inv_def st'_def simp flip: append_assoc)
  then show ?thesis using f by (intro exI [of _ st'] exI [of _ "A @ ?new @ B"]) (simp split: if_splits)
qed

context cas_cache
begin

abbreviation stored_tree :: "(Digest option \<Rightarrow> bytes option) \<Rightarrow> (bytes \<Rightarrow> error + Directory) \<Rightarrow> (Directory \<Rightarrow> int) \<Rightarrow> Directory \<Rightarrow> Directory multiset \<Rightarrow> bool" where
  "stored_tree b unmarshal sz \<equiv> tree_of valid b unmarshal sz"

lemma fetch_ok:
  assumes "cinv s" and "tree_inv (stored_tree (blobs s) unmarshal sz) sz M (Suc w) st (A @ (FetchChildren (dir, d), N) # B)"
  shows "\<exists>children s' TM. fetchDirectory cache unmarshal dir s = Some (Inr children, s') \<and> cinv s' \<and> blobs s' = blobs s \<and>
    tree_inv (stored_tree (blobs s) unmarshal sz) sz M w (st\<lparr>tsTasks := map fst A @ map fst B @ map FinishDir children\<rparr>) TM"
proof -
  have d: "dirDirectories dir \<noteq> []" "stored_tree (blobs s) unmarshal sz dir (add_mset dir N)"
    using assms(2) by (simp_all add: tree_inv_def)
  obtain cs where cs: "\<forall>x\<in>set cs. valid (fst x) \<and> GetSizeBytes (fst x) = sz (fst (snd x)) \<and>
        (\<exists>c. blobs s (fst x) = Some c \<and> unmarshal c = Inr (fst (snd x))) \<and> stored_tree (blobs s) unmarshal sz (fst (snd x)) (snd (snd x))"
      "map fst cs = subdirDigests dir" "N = sum_list (map (snd \<circ> snd) cs)"
    using d(2) by (auto elim!: tree_ofE)
  define ds where "ds = subdirDigests dir"
  have v: "\<forall>d\<in>set ds. valid d" using cs(1) unfolding ds_def cs(2) [symmetric] by auto
  obtain s' where g: "c_GetMulti cache ds s = Some (Inr (\<lambda>d. if d \<in> set ds then blobs s d else None), s')" "cinv s'"
    using GetMulti_law [OF assms(1) v] by blast
  have b: "blobs s' = blobs s" by (rule GetMulti_keeps [OF assms(1) v g(1)])
  have "parse_children unmarshal (\<lambda>d. if d \<in> set ds then blobs s d else None) (map fst cs) = Inr (map (\<lambda>x. (fst (snd x), fst x)) cs)"
    by (rule parse_children_ok) (use cs(1) in \<open>force simp: ds_def cs(2) [symmetric]\<close>)
  then have f: "fetchDirectory cache unmarshal dir s = Some (Inr (map (\<lambda>x. (fst (snd x), fst x)) cs), s')"
    using g(1) d(1) by (simp add: fetchDirectory_def ds_def cs(2))
  let ?new = "map (\<lambda>x. (FinishDir (fst (snd x), fst x), snd (snd x))) cs"
  have w: "sum_list (map task_work ?new) = 2 * size N"
    unfolding cs(3) by (induction cs) simp_all
  have sn: "sum_list (map snd ?new) = N" unfolding cs(3) by (simp add: o_def)
  have "tree_inv (stored_tree (blobs s) unmarshal sz) sz M w (st\<lparr>tsTasks := map fst (A @ B @ ?new)\<rparr>) (A @ B @ ?new)"
    using assms(2) cs(1) w sn by (auto simp: tree_inv_def ac_simps)
  then show ?thesis using f g(2) b by (intro exI conjI) (assumption | simp add: o_def)+
qed

lemma tree_step_ok:
  assumes "cinv s" and "tree_inv (stored_tree (blobs s) unmarshal sz) sz M (Suc w) st TM" and "i < length TM"
  shows "\<exists>st' s' TM'. tree_step cache unmarshal (\<lambda>_ _. None) i st s = Some (Inr st', s') \<and> cinv s' \<and> blobs s' = blobs s \<and>
    tree_inv (stored_tree (blobs s) unmarshal sz) sz M w st' TM'"
proof -
  obtain t N where t: "TM ! i = (t, N)" by (cases "TM ! i")
  have sp: "TM = take i TM @ (t, N) # drop (Suc i) TM" using id_take_nth_drop [OF assms(3)] t by simp
  have tk: "tsTasks st = map fst TM" using assms(2) by (simp add: tree_inv_def)
  have ti: "tsTasks st ! i = t" "take i (tsTasks st) = map fst (take i TM)" "drop (Suc i) (tsTasks st) = map fst (drop (Suc i) TM)"
    using assms(3) t tk by (simp_all add: take_map drop_map)
  show ?thesis
  proof (cases t)
    case (FinishDir dd)
    obtain dir d where dd: "dd = (dir, d)" by (cases dd)
    have inv: "tree_inv (stored_tree (blobs s) unmarshal sz) sz M (Suc w) st (take i TM @ (FinishDir (dir, d), N) # drop (Suc i) TM)"
      using assms(2) sp FinishDir dd by simp
    have 1: "0 < sz dir" if "stored_tree (blobs s) unmarshal sz dir N" for N using that by (auto elim: tree_ofE)
    have 2: "\<exists>N'. N = add_mset dir N' \<and> (dirDirectories dir = [] \<longrightarrow> N' = {#})" if "stored_tree (blobs s) unmarshal sz dir N" for N
      using that by (elim tree_ofE) (auto simp: subdirDigests_def)
    have "\<exists>st' TM'. finishDir (\<lambda>_ _. None) (dir, d) st = Inr st' \<and> tsTasks st' = tsTasks st \<and>
      tree_inv (stored_tree (blobs s) unmarshal sz) sz M w (st'\<lparr>tsTasks := map fst (take i TM) @
        (if dirDirectories dir = [] then [] else [FetchChildren (dir, d)]) @ map fst (drop (Suc i) TM)\<rparr>) TM'"
      by (rule finishDir_ok [OF inv]) (erule 1, erule 2)
    then show ?thesis using assms(1) ti FinishDir dd by (auto simp: tree_step_def Let_def)
  next
    case (FetchChildren dd)
    obtain dir d where dd: "dd = (dir, d)" by (cases dd)
    have inv: "tree_inv (stored_tree (blobs s) unmarshal sz) sz M (Suc w) st (take i TM @ (FetchChildren (dir, d), N) # drop (Suc i) TM)"
      using assms(2) sp FetchChildren dd by simp
    from fetch_ok [OF assms(1) inv] show ?thesis using ti FetchChildren dd by (auto simp: tree_step_def Let_def)
  qed
qed

lemma tree_run_ok:
  "cinv s \<Longrightarrow> tree_inv (stored_tree (blobs s) unmarshal sz) sz M w st TM \<Longrightarrow> w \<le> length sched \<Longrightarrow>
    \<exists>st' s'. tree_run cache unmarshal (\<lambda>_ _. None) sched st s = Some (Inr st', s') \<and> cinv s' \<and> blobs s' = blobs s \<and>
      tree_inv (stored_tree (blobs s) unmarshal sz) sz M 0 st' []"
proof (induction sched arbitrary: s w st TM)
  case Nil
  have "TM = []"
  proof (rule ccontr)
    assume "TM \<noteq> []"
    then obtain x TM' where TM: "TM = x # TM'" by (cases TM) auto
    then have "task_work x = 0" "task_ok (stored_tree (blobs s) unmarshal sz) sz x" using Nil.prems(2,3) by (simp_all add: tree_inv_def)
    then show False by (cases x rule: task_work.cases) (auto elim!: tree_ofE)
  qed
  then show ?case using Nil.prems by (subst tree_run.simps) (simp add: tree_inv_def)
next
  case (Cons i sched)
  show ?case
  proof (cases "tsTasks st = []")
    case True
    then show ?thesis using Cons.prems by (subst tree_run.simps) (auto simp: tree_inv_def)
  next
    case False
    then have l: "tsTasks st = map fst TM" "TM \<noteq> []" using Cons.prems(2) by (auto simp: tree_inv_def)
    have inv: "tree_inv (stored_tree (blobs s) unmarshal sz) sz M (Suc (length sched)) st TM" using Cons.prems(2,3) by (auto simp: tree_inv_def)
    have "i mod length TM < length TM" using l(2) by simp
    from tree_step_ok [OF Cons.prems(1) inv this] obtain st' s' TM' where
      st: "tree_step cache unmarshal (\<lambda>_ _. None) (i mod length TM) st s = Some (Inr st', s')" "cinv s'" "blobs s' = blobs s"
      "tree_inv (stored_tree (blobs s) unmarshal sz) sz M (length sched) st' TM'"
      by blast
    have "tree_inv (stored_tree (blobs s') unmarshal sz) sz M (length sched) st' TM'" using st(3,4) by simp
    from Cons.IH [OF st(2) this order_refl] show ?thesis using False st(1,3) l by (subst tree_run.simps) simp
  qed
qed

text \<open>The whole call, under any schedule that lets the goroutines end.\<close>

lemma GetTree_ok:
  assumes "cinv s" and "rootDigest = Some d" and "dHash d \<noteq> EmptySha256" and "AttachUserPrefixToContext ctx (sv_env sv) = Inr ctx'"
    and "CASCache sv ctx' inst = Inr cache" and "Validate rootDigest = Inr h" and "valid rootDigest"
    and "blobs s rootDigest = Some contents" and "unmarshal contents = Inr rootDir" and "stored_tree (blobs s) unmarshal sz rootDir M"
    and "dSizeBytes d = sz rootDir" and "2 * size M \<le> length sched"
  shows "\<exists>rsps s'. GetTree sv unmarshal (\<lambda>_ _. None) sched ctx inst rootDigest s = Some (Inr rsps, s') \<and> cinv s' \<and> blobs s' = blobs s \<and>
    mset (concat rsps) = M \<and> (\<forall>rsp\<in>set rsps. small sz rsp)"
proof -
  obtain r s1 where g: "c_Get cache rootDigest s = Some (r, s1)" "cinv s1" "case r of Inr v \<Rightarrow> blobs s rootDigest = Some v | Inl e \<Rightarrow> blobs s rootDigest = None"
    using Get_law [OF assms(1,7)] by blast
  have b: "blobs s1 = blobs s" by (rule Get_keeps [OF assms(1,7) g(1)])
  have r: "r = Inr contents" using g(3) assms(8) by (cases r) auto
  let ?st = "\<lparr>tsRsp = [], tsSize = 0, tsSent = [], tsTasks = [FinishDir (rootDir, rootDigest)]\<rparr>"
  have "tree_inv (stored_tree (blobs s1) unmarshal sz) sz M (2 * size M) ?st [(FinishDir (rootDir, rootDigest), M)]"
    using assms(2,10,11) b by (simp add: tree_inv_def GetSizeBytes_def small_def)
  from tree_run_ok [OF g(2) this assms(12)] obtain st s2 where t: "tree_run cache unmarshal (\<lambda>_ _. None) sched ?st s1 = Some (Inr st, s2)"
      "cinv s2" "blobs s2 = blobs s1" "tree_inv (stored_tree (blobs s1) unmarshal sz) sz M 0 st []"
    by blast
  have pos: "tsSize st > 0 \<longleftrightarrow> tsRsp st \<noteq> []"
  proof (cases "tsRsp st")
    case (Cons x xs)
    then have "0 < sz x" "0 \<le> sum_list (map sz xs)" using t(4) by (auto simp: tree_inv_def less_le_not_le intro!: sum_list_nonneg)
    then show ?thesis using t(4) Cons by (simp add: tree_inv_def)
  qed (use t(4) in \<open>simp add: tree_inv_def\<close>)
  then show ?thesis
    using assms(2-6,9) g(1) r t b
    by (auto simp: GetTree_def fetchDir_def GetHash_def tree_inv_def)
qed

end

text \<open>C15: A directory tree is fetched whole: under every schedule of the goroutines that walk it, as long as it goes on long enough, the call ends with every
  directory of the tree sent, as often as it occurs, in responses that each stay below the limit or hold a single directory.\<close>

theorem GetTree_whole:
  assumes "store_ok l" and "dHash d \<noteq> EmptySha256" and "AttachUserPrefixToContext ctx env = Inr ctx'" and "Validate (Some d) = Inr h"
    and "cas_view hs m ctx' inst l (Some d) = Some contents" and "unmarshal contents = Inr rootDir" and "dSizeBytes d = sz rootDir"
    and "tree_of (named (WithIsolation m CASCacheType inst) ctx') (cas_view hs m ctx' inst l) unmarshal sz rootDir M"
    and "2 * size M \<le> length sched"
  shows "\<exists>rsps l'. GetTree (memory_server hs m env auth zstdOn sha Z) unmarshal (\<lambda>_ _. None) sched ctx inst (Some d) l = Some (Inr rsps, l') \<and>
    mset (concat rsps) = M \<and> (\<forall>rsp\<in>set rsps. sum_list (map sz rsp) \<le> cas_gRPCMaxSize \<or> length rsp \<le> 1)"
proof -
  let ?sv = "memory_server hs m env auth zstdOn sha Z" and ?m = "WithIsolation m CASCacheType inst"
  have a: "AttachUserPrefixToContext ctx (sv_env ?sv) = Inr ctx'" "CASCache ?sv ctx' inst = Inr (memory_cache hs ?m ctx')"
    using assms(3) by simp_all
  show ?thesis
    using cas.GetTree_ok [OF assms(1) refl assms(2) a assms(4) valid_named [OF assms(4,3)] assms(5,6,8,7,9)]
    unfolding small_def by blast
qed

text \<open>A store with one blob, for the examples.\<close>

definition demo_digest :: Digest where "demo_digest = rnDigest demo_name"

lemma demo_one:
  "\<exists>l. store_ok l \<and> blob example_hashes example_handle (example_ctx ''GR1'') l (Some demo_digest) = Some [7, 8]"
proof -
  have n: "named example_handle (example_ctx ''GR1'') (Some (rnDigest demo_name))"
    using valid_named [OF hex_valid demo_facts(2)] demo_hash_facts by (simp add: demo_name_def)
  have "sizeFn example_store = cache_sizeFn \<and> drift example_store + int (length [7, 8 :: byte]) \<le> LRU_MaxSize example_store"
    using demo_empty by (simp add: memory_fits_def)
  then show ?thesis
    using MemoryCache_Set_fits [OF example_store_ok n demo_empty(1), of "[7, 8]"] by (auto simp: demo_digest_def)
qed

definition demo_dir :: Directory where
  "demo_dir = \<lparr>dirFiles = [], dirDirectories = [\<lparr>dnName = ''empty'', dnDigest = Some \<lparr>dHash = EmptySha256, dSizeBytes = 0\<rparr>\<rparr>], dirSymlinks = []\<rparr>"

theorem GetTree_whole_witness:
  "\<exists>l rsps l'. GetTree demo_server (\<lambda>_. Inr demo_dir) (\<lambda>_ _. None) [5, 3] (example_ctx ''GR1'') '''' (Some demo_digest) l = Some (Inr rsps, l') \<and>
    mset (concat rsps) = {#demo_dir#}"
proof -
  obtain l where l: "store_ok l" "blob example_hashes example_handle (example_ctx ''GR1'') l (Some demo_digest) = Some [7, 8]"
    using demo_one by blast
  have v: "Validate (Some demo_digest) = Inr demo_hash" "dHash demo_digest \<noteq> EmptySha256" "dSizeBytes demo_digest = 2"
    using hex_valid [of demo_digest] demo_hash_facts by (simp_all add: demo_digest_def demo_name_def)
  have "tree_of valid b (\<lambda>_. Inr demo_dir) (\<lambda>_. 2) demo_dir {#demo_dir#}" for valid b
    using tree_of.node [of "[]" valid "\<lambda>_. 2" b "\<lambda>_. Inr demo_dir" demo_dir]
    by (simp add: subdirDigests_def demo_dir_def GetHash_def)
  then show ?thesis
    using GetTree_whole [OF l(1) v(2) demo_facts(2) v(1), of example_hashes example_handle "''''" "[7, 8]" "\<lambda>_. Inr demo_dir" demo_dir "\<lambda>_. 2"
        "{#demo_dir#}" "[5, 3]" demo_auth True "\<lambda>_. demo_hash" demo_zstd] l(2) v(3) demo_facts(4)
    by (auto simp: demo_server_def)
qed

section \<open>Batches\<close>

lemma check_uploads_verified:
  "check_uploads sv reqs rsps kvs = Some (Inr (rsps', kvs')) \<Longrightarrow> kv \<in> set kvs' \<Longrightarrow>
    kv \<in> set kvs \<or> (\<exists>req\<in>set reqs. fst kv = urDigest req \<and> (\<exists>h. Validate (urDigest req) = Inr h) \<and> sv_sha sv (snd kv) = GetHash (urDigest req) \<and>
      int (length (snd kv)) = GetSizeBytes (urDigest req))"
proof (induction reqs arbitrary: rsps kvs)
  case (Cons req reqs)
  obtain h c where v: "Validate (urDigest req) = Inr h" and c: "check_upload sv req = Some c"
    using Cons.prems(1) by (auto split: sum.splits option.splits)
  show ?case
  proof (cases c)
    case (Inl rsp)
    then show ?thesis using Cons v c by auto
  next
    case (Inr kv0)
    have "fst kv0 = urDigest req \<and> sv_sha sv (snd kv0) = GetHash (urDigest req) \<and> int (length (snd kv0)) = GetSizeBytes (urDigest req)"
      using c Inr by (auto simp: check_upload_def Let_def split: if_splits option.splits sum.splits)
    moreover have "kv \<in> set (kvs @ [kv0]) \<or> (\<exists>req\<in>set reqs. fst kv = urDigest req \<and> (\<exists>h. Validate (urDigest req) = Inr h) \<and>
        sv_sha sv (snd kv) = GetHash (urDigest req) \<and> int (length (snd kv)) = GetSizeBytes (urDigest req))"
      using Cons.IH [OF _ Cons.prems(2), of rsps "kvs @ [kv0]"] Cons.prems(1) v c Inr by simp
    ultimately show ?thesis using v by auto
  qed
qed simp

lemma MemoryCache_SetMulti_stores:
  "store_ok l \<Longrightarrow> \<forall>kv\<in>set kvs. named m ctx (fst kv) \<Longrightarrow> \<exists>l'. MemoryCache_SetMulti hs m ctx kvs l = Some (None, l') \<and> store_ok l' \<and>
    (\<forall>d v. named m ctx d \<longrightarrow> blob hs m ctx l' d = Some v \<longrightarrow>
      blob hs m ctx l d = Some v \<or> (\<exists>kv\<in>set kvs. key_hash_eq hs m ctx (fst kv) d \<and> v = snd kv))"
proof (induction kvs arbitrary: l)
  case (Cons kv kvs)
  obtain d0 v0 where kv: "kv = (d0, v0)" by (cases kv)
  have n: "named m ctx d0" using Cons.prems(2) kv by simp
  obtain l1 where l1: "MemoryCache_Set hs m ctx d0 v0 l = Some (None, l1)" "store_ok l1"
      "stores (named m ctx) (key_hash_eq hs m ctx) d0 v0 (blob hs m ctx l) (blob hs m ctx l1)"
    using MemoryCache_Set_stores [OF Cons.prems(1) n, of hs v0] by blast
  obtain l2 where l2: "MemoryCache_SetMulti hs m ctx kvs l1 = Some (None, l2)" "store_ok l2"
      "\<forall>d v. named m ctx d \<longrightarrow> blob hs m ctx l2 d = Some v \<longrightarrow>
        blob hs m ctx l1 d = Some v \<or> (\<exists>kv\<in>set kvs. key_hash_eq hs m ctx (fst kv) d \<and> v = snd kv)"
    using Cons.IH [OF l1(2)] Cons.prems(2) by auto
  have "blob hs m ctx l d = Some v \<or> (\<exists>kv\<in>set (kv # kvs). key_hash_eq hs m ctx (fst kv) d \<and> v = snd kv)"
    if "named m ctx d" "blob hs m ctx l2 d = Some v" for d v
    using l2(3) that storesD [OF l1(3) that(1)] kv by (fastforce split: if_splits)
  then show ?case using l1(1) l2(1,2) kv by simp
qed simp

text \<open>C25: A batch of uploads, in any order of the map that it is kept in, and compressed or not, puts nothing unverified into the store: whatever a digest of the
  user reads as afterwards it read as before, or it is data of the announced hash and size under the key of a request of the batch.\<close>

theorem batch_upload_is_verified:
  assumes "store_ok l" and "AttachUserPrefixToContext ctx env = Inr ctx'" and "\<forall>kvs. set (ord1 kvs) = set kvs"
    and "BatchUpdateBlobs (memory_server hs m env auth zstdOn sha Z) ctx inst ord1 ord2 reqs l = Some (r, l')"
    and "named (WithIsolation m CASCacheType inst) ctx' d" and "cas_view hs m ctx' inst l' d = Some v"
  shows "cas_view hs m ctx' inst l d = Some v \<or>
    (\<exists>req\<in>set reqs. key_hash_eq hs (WithIsolation m CASCacheType inst) ctx' (urDigest req) d \<and>
      sha v = GetHash (urDigest req) \<and> int (length v) = GetSizeBytes (urDigest req))"
proof (cases "l' = l")
  case False
  let ?sv = "memory_server hs m env auth zstdOn sha Z" and ?m = "WithIsolation m CASCacheType inst"
  obtain rsps kvs where c: "check_uploads ?sv reqs [] [] = Some (Inr (rsps, kvs))"
      and s: "\<exists>e. c_SetMulti (memory_cache hs ?m ctx') (ord1 kvs) l = Some (e, l')"
    using assms(2,4) False by (auto simp: BatchUpdateBlobs_def split: sum.splits bool.splits option.splits)
  have kv: "\<exists>req\<in>set reqs. fst kv = urDigest req \<and> (\<exists>h. Validate (urDigest req) = Inr h) \<and> sha (snd kv) = GetHash (urDigest req) \<and>
      int (length (snd kv)) = GetSizeBytes (urDigest req)" if "kv \<in> set (ord1 kvs)" for kv
    using check_uploads_verified [OF c, of kv] that assms(3) by auto
  then have n: "\<forall>kv\<in>set (ord1 kvs). named ?m ctx' (fst kv)" using valid_named [OF _ assms(2)] by metis
  have "MemoryCache_SetMulti hs ?m ctx' (ord1 kvs) l = Some (None, l')"
    using s MemoryCache_SetMulti_stores [OF assms(1) n, of hs] by (auto simp: memory_cache_def)
  then have "cas_view hs m ctx' inst l d = Some v \<or> (\<exists>kv\<in>set (ord1 kvs). key_hash_eq hs ?m ctx' (fst kv) d \<and> v = snd kv)"
    using MemoryCache_SetMulti_stores [OF assms(1) n, of hs] assms(5,6) by auto
  then show ?thesis using kv by metis
qed (use assms(6) in simp)

theorem batch_upload_is_verified_witness:
  "\<exists>r l'. BatchUpdateBlobs demo_server (example_ctx ''GR1'') '''' (\<lambda>x. x) rev [\<lparr>urDigest = Some demo_digest, urData = [7, 8], urCompressor = IDENTITY\<rparr>]
      example_store = Some (r, l') \<and>
    (\<forall>d v. named example_handle (example_ctx ''GR1'') d \<longrightarrow> blob example_hashes example_handle (example_ctx ''GR1'') l' d = Some v \<longrightarrow>
      blob example_hashes example_handle (example_ctx ''GR1'') example_store d = Some v \<or> length v = 2)"
proof -
  let ?req = "\<lparr>urDigest = Some demo_digest, urData = [7, 8 :: byte], urCompressor = IDENTITY\<rparr>"
  have d: "demo_digest = \<lparr>dHash = demo_hash, dSizeBytes = 2\<rparr>" by (simp add: demo_digest_def demo_name_def)
  have v: "Validate (Some demo_digest) = Inr demo_hash" using hex_valid [of demo_digest] demo_hash_facts by (simp add: d)
  have n: "\<forall>kv\<in>set [(Some demo_digest, [7, 8 :: byte])]. named example_handle (example_ctx ''GR1'') (fst kv)"
    using valid_named [OF v demo_facts(2)] by simp
  obtain l' where "MemoryCache_SetMulti example_hashes example_handle (example_ctx ''GR1'') [(Some demo_digest, [7, 8])] example_store = Some (None, l')"
    using MemoryCache_SetMulti_stores [OF example_store_ok n] by blast
  then have b: "BatchUpdateBlobs demo_server (example_ctx ''GR1'') '''' (\<lambda>x. x) rev [?req] example_store = Some (Inr [(Some demo_digest, None)], l')"
    using v demo_facts demo_hash_facts(1)
    by (simp add: BatchUpdateBlobs_def demo_server_def check_upload_def GetHash_def GetSizeBytes_def supportsCompressor_def Let_def memory_cache_def d)
  have "blob example_hashes example_handle (example_ctx ''GR1'') example_store x = Some y \<or> length y = 2"
    if "named example_handle (example_ctx ''GR1'') x" "blob example_hashes example_handle (example_ctx ''GR1'') l' x = Some y" for x y
    using batch_upload_is_verified [OF example_store_ok demo_facts(2) _ b [unfolded demo_server_def], of x y] that demo_facts(4)
    by (auto simp: GetSizeBytes_def d)
  with b show ?thesis by blast
qed

text \<open>C31: A compressed upload that announces a negative size makes the handler panic: the digest passes the validation, and the buffer for the data cannot be made.\<close>

theorem negative_size_panics:
  assumes "AttachUserPrefixToContext ctx (sv_env sv) = Inr ctx'" and "IsGranted (sv_auth sv) CACHE_WRITE_CAPABILITY = Inr True"
    and "CASCache sv ctx' inst = Inr C" and "sv_zstd_enabled sv" and "urCompressor req = ZSTD" and "urDigest req = Some d"
    and "length (dHash d) = 64" and "list_all is_hex (dHash d)" and "dHash d \<noteq> EmptySha256" and "dSizeBytes d < 0"
  shows "BatchUpdateBlobs sv ctx inst ord1 ord2 (req # reqs) s = None"
  using assms hex_valid [OF assms(7,8)]
  by (simp add: BatchUpdateBlobs_def check_upload_def supportsCompressor_def zstdDecompress_def GetHash_def GetSizeBytes_def)

theorem negative_size_panics_witness:
  "BatchUpdateBlobs demo_server (example_ctx ''GR1'') '''' (\<lambda>x. x) rev
    [\<lparr>urDigest = Some \<lparr>dHash = demo_hash, dSizeBytes = -1\<rparr>, urData = [], urCompressor = ZSTD\<rparr>] example_store = None"
  by (rule negative_size_panics [where ctx' = "example_ctx ''GR1''" and d = "\<lparr>dHash = demo_hash, dSizeBytes = -1\<rparr>"
        and C = "memory_cache example_hashes (WithIsolation example_handle CASCacheType '''') (example_ctx ''GR1'')"])
    (simp_all add: demo_server_def demo_facts demo_hash_facts)

text \<open>When the cache cannot answer, a batch of reads does not fail: every blob is reported as missing, whatever the error was.\<close>

theorem outage_reads_as_missing:
  assumes "AttachUserPrefixToContext ctx (sv_env sv) = Inr ctx'" and "CASCache sv ctx' inst = Inr C" and "\<forall>d\<in>set ds. \<not> isl (Validate d)"
    and "c_GetMulti C (filter (\<lambda>d. GetHash d \<noteq> EmptySha256) ds) s = Some (Inl e, s')"
  shows "BatchReadBlobs sv ctx inst acceptable ds s =
    Some (Inr (map (\<lambda>d. \<lparr>rrDigest = d, rrData = [], rrCompressor = IDENTITY, rrStatus = (if GetHash d = EmptySha256 then None else Some NotFound)\<rparr>) ds), s')"
proof -
  have "find (\<lambda>d. isl (Validate d)) ds = None" using assms(3) by (auto simp: find_None_iff)
  then show ?thesis using assms(1,2,4) by (simp add: BatchReadBlobs_def read_blob_def Let_def)
qed

theorem outage_reads_as_missing_witness:
  "BatchReadBlobs (demo_server\<lparr>sv_WithIsolation := (\<lambda>ctx ct inst. Inr ((memory_cache example_hashes example_handle ctx)\<lparr>c_GetMulti :=
      (\<lambda>ds s. Some (Inl (UnavailableError ''down''), s))\<rparr>))\<rparr>) (example_ctx ''GR1'') '''' [] [Some demo_digest] example_store =
    Some (Inr [\<lparr>rrDigest = Some demo_digest, rrData = [], rrCompressor = IDENTITY, rrStatus = Some NotFound\<rparr>], example_store)"
proof -
  let ?C = "(memory_cache example_hashes example_handle (example_ctx ''GR1''))\<lparr>c_GetMulti := (\<lambda>ds s. Some (Inl (UnavailableError ''down''), s))\<rparr>"
  let ?sv = "demo_server\<lparr>sv_WithIsolation := (\<lambda>ctx ct inst. Inr ((memory_cache example_hashes example_handle ctx)\<lparr>c_GetMulti :=
      (\<lambda>ds s. Some (Inl (UnavailableError ''down''), s))\<rparr>))\<rparr>"
  have d: "demo_digest = \<lparr>dHash = demo_hash, dSizeBytes = 2\<rparr>" by (simp add: demo_digest_def demo_name_def)
  have v: "\<forall>d\<in>set [Some demo_digest]. \<not> isl (Validate d)" using hex_valid [of demo_digest] demo_hash_facts by (simp add: d)
  have a: "AttachUserPrefixToContext (example_ctx ''GR1'') (sv_env ?sv) = Inr (example_ctx ''GR1'')" using demo_facts(2) by (simp add: demo_server_def)
  have c: "CASCache ?sv (example_ctx ''GR1'') '''' = Inr ?C" by (simp add: CASCache_def)
  have g: "c_GetMulti ?C (filter (\<lambda>d. GetHash d \<noteq> EmptySha256) [Some demo_digest]) example_store = Some (Inl (UnavailableError ''down''), example_store)"
    by simp
  show ?thesis using outage_reads_as_missing [OF a c v g, of "[]"] demo_hash_facts(1) by (simp add: GetHash_def d)
qed

section \<open>Action results\<close>

lemma FindMissing_none:
  "store_ok l \<Longrightarrow> MemoryCache_FindMissing hs m ctx ds l = (Inr [], l') \<Longrightarrow>
    store_ok l' \<and> blob hs m ctx l' = blob hs m ctx l \<and> (\<forall>d\<in>set ds. blob hs m ctx l d \<noteq> None)"
proof (induction ds arbitrary: l)
  case (Cons d ds)
  obtain ok l1 where c: "MemoryCache_Contains hs m ctx d l = (Inr ok, l1)" and f: "MemoryCache_FindMissing hs m ctx ds l1 = (Inr [], l')" and ok: "ok"
    using Cons.prems(2) by (auto split: prod.splits sum.splits if_splits)
  have n: "named m ctx d" using c by (auto simp: named_def MemoryCache_Contains_def split: sum.splits)
  have "store_ok l1" "blob hs m ctx l1 = blob hs m ctx l" "blob hs m ctx l d \<noteq> None"
    using MemoryCache_Contains_blob [OF Cons.prems(1) n, of hs] c ok by simp_all
  then show ?case using Cons.IH [OF _ f] by simp
qed simp

lemma Get_found:
  assumes "store_ok l" and "MemoryCache_Get hs m ctx d l = (Inr v, l')"
  shows "store_ok l' \<and> blob hs m ctx l' = blob hs m ctx l \<and> blob hs m ctx l d = Some v"
proof -
  have n: "named m ctx d" using assms(2) by (auto simp: named_def MemoryCache_Get_def split: sum.splits)
  show ?thesis using MemoryCache_Get_blob [OF assms(1) n, of hs] assms(2) by (auto split: option.splits)
qed

lemma fetch_trees_ok:
  "store_ok l \<Longrightarrow> fetch_trees (memory_cache hs m ctx) unmarshal ds acc l = Some (Inr fs, l') \<Longrightarrow>
    store_ok l' \<and> blob hs m ctx l' = blob hs m ctx l \<and> set acc \<subseteq> set fs \<and>
    (\<forall>d\<in>set ds. \<exists>c t. blob hs m ctx l d = Some c \<and> unmarshal c = Inr t \<and> (\<forall>f\<in>set (tree_files t). wanted f \<longrightarrow> f \<in> set fs))"
proof (induction ds arbitrary: acc l)
  case (Cons d ds)
  obtain c t l1 where g: "MemoryCache_Get hs m ctx d l = (Inr c, l1)" "unmarshal c = Inr t"
      "fetch_trees (memory_cache hs m ctx) unmarshal ds (acc @ filter wanted (tree_files t)) l1 = Some (Inr fs, l')"
    using Cons.prems(2) by (auto split: prod.splits sum.splits)
  have l1: "store_ok l1" "blob hs m ctx l1 = blob hs m ctx l" "blob hs m ctx l d = Some c"
    using Get_found [OF Cons.prems(1) g(1)] by simp_all
  show ?case using Cons.IH [OF l1(1) g(3)] l1(2,3) g(2) by auto
qed simp

text \<open>C16: An action result that is returned has its outputs: when it is handed out, every file with contents that it names, and every such file of its
  output directories, whose trees are there as well, is in the store.\<close>

theorem action_result_has_files:
  assumes "store_ok l" and "AttachUserPrefixToContext ctx env = Inr ctx'" and "\<forall>ds. set (ord ds) = set ds"
    and "GetActionResult (memory_server hs m env auth zstdOn sha Z) unmarshal unmarshalTree ord ctx inst d l = Some (Inr ar, l')"
  shows "(\<forall>f\<in>set (arOutputFiles ar). wanted f \<longrightarrow> cas_view hs m ctx' inst l' f \<noteq> None) \<and>
    (\<forall>t\<in>set (arOutputDirectories ar). \<exists>c tree. cas_view hs m ctx' inst l' t = Some c \<and> unmarshalTree c = Inr tree \<and>
      (\<forall>f\<in>set (tree_files tree). wanted f \<longrightarrow> cas_view hs m ctx' inst l' f \<noteq> None))"
proof -
  let ?ac = "WithIsolation m ActionCacheType inst" and ?cas = "WithIsolation m CASCacheType inst"
  obtain c l1 where ac: "MemoryCache_Get hs ?ac ctx' d l = (Inr c, l1)" and
    v: "ValidateActionResult (memory_cache hs ?cas ctx') unmarshalTree ord ar l1 = Some (None, l')"
    using assms(2,4) by (auto simp: GetActionResult_def split: if_splits sum.splits prod.splits option.splits)
  have l1: "store_ok l1" using Get_found [OF assms(1) ac] by simp
  obtain fs l2 where t: "fetch_trees (memory_cache hs ?cas ctx') unmarshalTree (ord (arOutputDirectories ar)) (filter wanted (arOutputFiles ar)) l1 = Some (Inr fs, l2)"
      and f: "MemoryCache_FindMissing hs ?cas ctx' fs l2 = (Inr [], l')"
    using v by (auto simp: ValidateActionResult_def checkFilesExist_def split: option.splits sum.splits prod.splits if_splits)
  note a = fetch_trees_ok [OF l1 t]
  then have "store_ok l2" by simp
  note b = FindMissing_none [OF this f]
  show ?thesis using a b assms(3) by (auto 0 3)
qed

text \<open>In the instance \<open>..\<close> the key of an action result is that of a blob of the store: the one blob is the result and its file.\<close>

definition demo_result :: "(unit, unit) ActionResult" where
  "demo_result = \<lparr>arOutputFiles = [Some demo_digest], arOutputDirectories = [], arExecutionMetadata = None, arRest = ()\<rparr>"

theorem action_result_has_files_witness:
  "\<exists>l l'. GetActionResult demo_server (\<lambda>_. Inr demo_result) (\<lambda>_. Inl EOF) rev (example_ctx ''GR1'') ''..'' (Some demo_digest) l = Some (Inr demo_result, l') \<and>
    blob example_hashes example_handle (example_ctx ''GR1'') l' (Some demo_digest) \<noteq> None"
proof -
  obtain l where l: "store_ok l" "blob example_hashes example_handle (example_ctx ''GR1'') l (Some demo_digest) = Some [7, 8]"
    using demo_one by blast
  have d: "demo_digest = \<lparr>dHash = demo_hash, dSizeBytes = 2\<rparr>" by (simp add: demo_digest_def demo_name_def)
  have v: "Validate (Some demo_digest) = Inr demo_hash" using hex_valid [of demo_digest] demo_hash_facts by (simp add: d)
  have n: "named example_handle (example_ctx ''GR1'') (Some demo_digest)" by (rule valid_named [OF v demo_facts(2)])
  have k: "MemoryCache_key (WithIsolation example_handle ActionCacheType ''..'') (example_ctx ''GR1'') (Some demo_digest) =
      MemoryCache_key example_handle (example_ctx ''GR1'') (Some demo_digest)"
    by code_simp
  have w: "WithIsolation example_handle CASCacheType ''..'' = example_handle\<lparr>remoteInstanceName := ''..''\<rparr>"
    by (simp add: WithIsolation_def example_handle_def)
  have kc: "MemoryCache_key (example_handle\<lparr>remoteInstanceName := ''..''\<rparr>) c dd = MemoryCache_key example_handle c dd" for c dd
    by (simp add: MemoryCache_key_def example_handle_def split: sum.split)
  obtain l1 where g: "MemoryCache_Get example_hashes example_handle (example_ctx ''GR1'') (Some demo_digest) l = (Inr [7, 8], l1)" "store_ok l1"
      "blob example_hashes example_handle (example_ctx ''GR1'') l1 = blob example_hashes example_handle (example_ctx ''GR1'') l"
    using MemoryCache_Get_blob [OF l(1) n, of example_hashes] l(2)
    by (cases "MemoryCache_Get example_hashes example_handle (example_ctx ''GR1'') (Some demo_digest) l") simp
  have g': "MemoryCache_Get example_hashes (WithIsolation example_handle ActionCacheType ''..'') (example_ctx ''GR1'') (Some demo_digest) l = (Inr [7, 8], l1)"
    using g(1) by (simp add: MemoryCache_Get_def k)
  obtain l2 where f: "MemoryCache_FindMissing example_hashes (WithIsolation example_handle CASCacheType ''..'') (example_ctx ''GR1'') [Some demo_digest] l1 = (Inr [], l2)"
    using MemoryCache_Contains_blob [OF g(2) n, of example_hashes] g(3) l(2)
    by (cases "MemoryCache_Contains example_hashes example_handle (example_ctx ''GR1'') (Some demo_digest) l1")
      (simp add: w MemoryCache_Contains_def kc)
  have r: "GetActionResult demo_server (\<lambda>_. Inr demo_result) (\<lambda>_. Inl EOF) rev (example_ctx ''GR1'') ''..'' (Some demo_digest) l = Some (Inr demo_result, l2)"
    using v demo_facts(2) g' f
    by (simp add: GetActionResult_def demo_server_def ValidateActionResult_def checkFilesExist_def demo_result_def wanted_def GetSizeBytes_def d)
  have "cas_view example_hashes example_handle (example_ctx ''GR1'') ''..'' l2 (Some demo_digest) \<noteq> None"
    using action_result_has_files [OF l(1) demo_facts(2) _ r [unfolded demo_server_def]]
    by (simp add: demo_result_def wanted_def GetSizeBytes_def d)
  then have "blob example_hashes example_handle (example_ctx ''GR1'') l2 (Some demo_digest) \<noteq> None"
    by (simp add: blob_def key_of_def w kc)
  with r show ?thesis by blast
qed


end
